(* ===== verification/Prelude.thy ===== *)
theory Prelude
  imports Complex_Main "HOL-Library.Word"
begin

text \<open>
  Shared vocabulary of the development: the machine integers of the OS/2 build (a 32-bit
  compiler, so \<^verbatim>\<open>unsigned int\<close>, \<^verbatim>\<open>unsigned long\<close> and \<^verbatim>\<open>size_t\<close> are all
  32 bits wide), the error numbers the code returns, the debugging check of
  \<^verbatim>\<open>alsa-kernel/include/sound/core.h\<close>, and the generic lemmas on words and lists the
  component theories use.
\<close>

unbundle bit_operations_syntax

section \<open>Machine integers\<close>

type_synonym u8 = "8 word"
type_synonym u16 = "16 word"
type_synonym u32 = "32 word"
type_synonym u64 = "64 word"

abbreviation UINT_MAX :: u32 where
  "UINT_MAX \<equiv> - 1"

section \<open>Error numbers\<close>

text \<open>\<^verbatim>\<open>include/asm/errno.h\<close>. A C function that returns an \<^verbatim>\<open>int\<close> status is modelled
  with an \<open>int\<close> result: a negative error number, zero, or a positive value.\<close>

abbreviation (input) EPERM :: int where "EPERM \<equiv> 1"
abbreviation (input) ENOENT :: int where "ENOENT \<equiv> 2"
abbreviation (input) EIO :: int where "EIO \<equiv> 5"
abbreviation (input) ENXIO :: int where "ENXIO \<equiv> 6"
abbreviation (input) E2BIG :: int where "E2BIG \<equiv> 7"
abbreviation (input) EAGAIN :: int where "EAGAIN \<equiv> 11"
abbreviation (input) ENOMEM :: int where "ENOMEM \<equiv> 12"
abbreviation (input) EFAULT :: int where "EFAULT \<equiv> 14"
abbreviation (input) EBUSY :: int where "EBUSY \<equiv> 16"
abbreviation (input) ENODEV :: int where "ENODEV \<equiv> 19"
abbreviation (input) EINVAL :: int where "EINVAL \<equiv> 22"
abbreviation (input) ENOTTY :: int where "ENOTTY \<equiv> 25"
abbreviation (input) ENOSPC :: int where "ENOSPC \<equiv> 28"
abbreviation (input) EPIPE :: int where "EPIPE \<equiv> 32"
abbreviation (input) EOVERFLOW :: int where "EOVERFLOW \<equiv> 75"
abbreviation (input) EBADFD :: int where "EBADFD \<equiv> 77"
abbreviation (input) ESTRPIPE :: int where "ESTRPIPE \<equiv> 86"

section \<open>The debugging check\<close>

text \<open>
  \<^verbatim>\<open>core.h\<close> defines \<^verbatim>\<open>snd_BUG_ON(cond)\<close> for the OS/2 build without
  \<^verbatim>\<open>CONFIG_SND_DEBUG\<close> as \<^verbatim>\<open>__snd_bug_on(0 && (cond))\<close>, which is always 0: the
  condition is never evaluated and the guarded error return is never taken. (With
  \<^verbatim>\<open>CONFIG_SND_DEBUG\<close> the OS/2 macro is empty, so \<^verbatim>\<open>if (snd_BUG_ON(c))\<close> does not
  compile: the build modelled here is the only one.)
\<close>

definition snd_BUG_ON :: "bool \<Rightarrow> bool" where
  [simp]: "snd_BUG_ON c \<longleftrightarrow> False"

section \<open>Shared simplification sets\<close>

named_theorems word_nat \<open>comparisons and arithmetic of words, moved to natural numbers\<close>
named_theorems wf_intros \<open>well-formedness of the components' states\<close>

section \<open>Words\<close>

lemmas [word_nat] = word_less_nat_alt word_le_nat_alt unat_word_ariths word_unat_eq_iff

lemma unat_UINT_MAX [simp]: "unat UINT_MAX = 4294967295"
  by (simp add: unsigned_minus_1_eq_mask mask_eq_exp_minus_1)

lemma u32_lt: "unat (x :: u32) < 4294967296"
  using unsigned_less [of x] by simp

lemma u32_le_max: "unat (x :: u32) \<le> 4294967295"
  using u32_lt [of x] by linarith

lemma word_le_minus_one [simp]: "(x :: 'a::len word) \<le> - 1"
  by simp

lemma unat_Suc_no_wrap: "x \<noteq> - 1 \<Longrightarrow> unat (x + 1) = Suc (unat (x :: 'a::len word))"
  by (metis Suc_eq_plus1 add.commute unatSuc add_eq_0_iff add.inverse_inverse)

lemma unat_push_bit:
  "unat x * 2 ^ n < 2 ^ LENGTH('a) \<Longrightarrow> unat (push_bit n (x :: 'a::len word)) = unat x * 2 ^ n"
  by (subst unsigned_push_bit_eq) (simp add: push_bit_eq_mult take_bit_nat_eq_self)

lemma unat_drop_bit: "unat (drop_bit n (x :: 'a::len word)) = unat x div 2 ^ n"
  by (subst unsigned_drop_bit_eq) (simp add: drop_bit_eq_div take_bit_nat_eq_self)

lemma unat_ucast_up:
  assumes "LENGTH('a) \<le> LENGTH('b)"
  shows "unat (ucast (x :: 'a::len word) :: 'b::len word) = unat x"
proof -
  from assms have "(2 :: nat) ^ LENGTH('a) \<le> 2 ^ LENGTH('b)" by (simp add: power_increasing)
  then have "unat x < 2 ^ LENGTH('b)" using unsigned_less [of x] by (meson less_le_trans)
  then show ?thesis by (simp only: unsigned_ucast_eq take_bit_nat_eq_self)
qed

lemma unat_ucast_mod:
  "unat (ucast (x :: 'a::len word) :: 'b::len word) = unat x mod 2 ^ LENGTH('b)"
  by (simp add: unsigned_ucast_eq take_bit_eq_mod)

lemma nat_or_add:
  assumes "x < 2 ^ n"
  shows "(a * 2 ^ n) OR x = a * 2 ^ n + (x :: nat)"
proof -
  have "push_bit n a AND x = 0"
  proof (rule bit_eqI)
    fix k
    have "bit x k \<Longrightarrow> k < n" using assms
      by (metis bit_take_bit_iff take_bit_nat_eq_self)
    then show "bit (push_bit n a AND x) k \<longleftrightarrow> bit (0::nat) k"
      by (auto simp: bit_and_iff bit_push_bit_iff)
  qed
  then show ?thesis
    by (simp add: disjunctive_add_eq_or push_bit_eq_mult)
qed

lemma unat_pred_no_wrap: "x \<noteq> 0 \<Longrightarrow> unat (x - 1) = unat (x :: 'a::len word) - 1"
  by (simp add: unat_minus_one)

section \<open>Words as real numbers\<close>

text \<open>
  The value of a machine integer on the real line, where the configuration intervals live.
  It is kept folded: the lemmas below move comparisons and arithmetic between the two sides.
\<close>

definition ru :: "u32 \<Rightarrow> real" where
  "ru w = real (unat w)"

lemma ru_less_iff [simp]: "ru a < ru b \<longleftrightarrow> a < b"
  unfolding ru_def word_less_nat_alt by (simp only: of_nat_less_iff)

lemma ru_le_iff [simp]: "ru a \<le> ru b \<longleftrightarrow> a \<le> b"
  unfolding ru_def word_le_nat_alt by (simp only: of_nat_le_iff)

lemma ru_eq_iff [simp]: "ru a = ru b \<longleftrightarrow> a = b"
  unfolding ru_def word_unat_eq_iff by (simp only: of_nat_eq_iff)

lemmas to_ru = ru_less_iff [symmetric] ru_le_iff [symmetric] ru_eq_iff [symmetric]
lemmas of_ru = ru_less_iff ru_le_iff ru_eq_iff

lemma ru_Ints [simp]: "ru a \<in> \<int>"
  unfolding ru_def by (simp only: Ints_of_nat)

lemma ru_0 [simp]: "ru 0 = 0"
  by (simp add: ru_def)

lemma ru_ge_0 [simp]: "0 \<le> ru a"
  unfolding ru_def by (simp only: of_nat_0_le_iff)

lemma ru_pos_iff [simp]: "0 < ru a \<longleftrightarrow> a \<noteq> 0"
  using ru_less_iff [of 0 a] by (simp add: word_neq_0_conv)

lemma ru_eq_0_iff [simp]: "ru a = 0 \<longleftrightarrow> a = 0"
  using ru_eq_iff [of a 0] by simp

lemma ru_UINT_MAX: "ru UINT_MAX = 4294967295"
  unfolding ru_def unat_UINT_MAX by simp

lemma ru_Suc: "a \<noteq> UINT_MAX \<Longrightarrow> ru (a + 1) = ru a + 1"
  unfolding ru_def using arg_cong [OF unat_Suc_no_wrap, of a real] by (simp only: of_nat_Suc add.commute simp_thms)

lemma ru_pred: "a \<noteq> 0 \<Longrightarrow> ru (a - 1) = ru a - 1"
  using ru_Suc [of "a - 1"] by (auto simp: algebra_simps)

lemma Ints_le_less_iff:
  assumes "x \<in> \<int>"
  shows "ru a < x \<longleftrightarrow> ru a + 1 \<le> x" and "x < ru a \<longleftrightarrow> x \<le> ru a - 1"
proof -
  from assms obtain k where x: "x = of_int k" by (auto elim: Ints_cases)
  have r: "ru a = of_int (int (unat a))" by (simp add: ru_def)
  have "real_of_int m < of_int k \<longleftrightarrow> real_of_int m + 1 \<le> of_int k" for m
    by (metis of_int_1 of_int_add of_int_le_iff of_int_less_iff add1_zle_eq)
  then show "ru a < x \<longleftrightarrow> ru a + 1 \<le> x" by (simp only: r x)
  have "of_int k < real_of_int m \<longleftrightarrow> of_int k \<le> real_of_int m - 1" for m
    by (metis of_int_1 of_int_diff of_int_le_iff of_int_less_iff zle_diff1_eq)
  then show "x < ru a \<longleftrightarrow> x \<le> ru a - 1" by (simp only: r x)
qed

lemma word_max_le [simp]: "- 1 \<le> (x :: 'a::len word) \<longleftrightarrow> x = - 1"
  by (metis order_antisym word_le_minus_one)

lemma bit31_iff: "bit (x::u32) 31 \<longleftrightarrow> 2147483648 \<le> unat x"
proof -
  have "unat x div 2147483648 < 2" using u32_lt [of x] by linarith
  then have "unat x div 2147483648 = 0 \<or> unat x div 2147483648 = 1" by linarith
  then have "odd (unat x div 2147483648) \<longleftrightarrow> 2147483648 \<le> unat x" by auto
  moreover have "bit x 31 \<longleftrightarrow> bit (unat x) 31" by (simp add: bit_unsigned_iff)
  ultimately show ?thesis by (simp add: bit_iff_odd)
qed

lemma sint_neg_iff: "sint (x :: u32) < 0 \<longleftrightarrow> 2147483648 \<le> unat x"
  using bit_last_iff [of x] by (simp add: bit31_iff)

lemma sint_unat: "unat (x :: u32) < 2147483648 \<Longrightarrow> sint x = int (unat x)"
proof -
  assume "unat x < 2147483648"
  then have "\<not> bit x 31" by (simp add: bit31_iff)
  then have "sint x = take_bit 31 (uint x)"
    by (simp add: sint_uint signed_take_bit_eq_if_positive bit_uint_iff)
  also have "\<dots> = uint x"
  proof (rule take_bit_int_eq_self)
    have "uint x = int (unat x)" by (rule uint_nat)
    with \<open>unat x < 2147483648\<close> have "uint x < 2147483648" by linarith
    then show "uint x < 2 ^ 31" by simp
  qed simp
  finally show ?thesis by (simp only: uint_nat)
qed

lemma unat_add32:
  "unat (a + b :: u32) = (if unat a + unat b < 4294967296 then unat a + unat b
                          else unat a + unat b - 4294967296)"
proof -
  have "unat (a + b) = (unat a + unat b) mod 4294967296" by (simp add: unat_word_ariths)
  moreover have "unat a + unat b < 2 * 4294967296" using u32_lt [of a] u32_lt [of b] by linarith
  ultimately show ?thesis by (simp add: mod_if)
qed

lemma unat_sub32:
  "unat (a - b :: u32) = (if unat b \<le> unat a then unat a - unat b
                          else 4294967296 + unat a - unat b)"
proof (cases "b \<le> a")
  case True
  then show ?thesis by (simp add: unat_sub_if' word_le_nat_alt)
next
  case False
  then show ?thesis using u32_lt [of b] by (simp add: unat_sub_if' word_le_nat_alt)
qed

lemmas u32_arith = word_less_nat_alt word_le_nat_alt unat_add32 unat_sub32 sint_neg_iff

end
