(* ===== verification/Math64.thy ===== *)
theory Math64
  imports Prelude
begin

text \<open>
  The 64-by-32-bit division of \<^verbatim>\<open>include/linux/math64.h\<close>. The Watcom compiler of the
  OS/2 build defines neither a 64-bit \<^verbatim>\<open>long\<close> nor \<^verbatim>\<open>i386\<close>, so the third branch of the
  header is the one compiled: a software long division, \<^verbatim>\<open>divl\<close>, whose loop shifts and
  subtracts until the remainder fits in 32 bits. The loop does not end for every argument
  (with \<^verbatim>\<open>high >= div\<close> it may run forever), so it is a partial function; the theorems
  below show that both callers stay inside its domain and that the result is the quotient
  and the remainder.
\<close>

section \<open>The code\<close>

text \<open>The \<^verbatim>\<open>while\<close> loop of \<^verbatim>\<open>divl\<close>: its result is the state after the loop.\<close>

partial_function (option) divl_loop :: "u64 \<Rightarrow> u64 \<Rightarrow> u32 \<Rightarrow> int \<Rightarrow> (u64 \<times> u32 \<times> int) option" where
  "divl_loop n d q1 c =
     (if n > 0xffffffff then
        let q1 = push_bit 1 q1;
            (n, q1) = (if n \<ge> d then (n - d, q1 OR 1) else (n, q1))
        in divl_loop n (drop_bit 1 d) q1 (c - 1)
      else Some (n, q1, c))"

text \<open>\<^verbatim>\<open>divl\<close> returns the quotient \<^verbatim>\<open>*q\<close> and the remainder \<^verbatim>\<open>*r\<close>.\<close>

definition divl :: "u32 \<Rightarrow> u32 \<Rightarrow> u32 \<Rightarrow> (u32 \<times> u32) option" where
  "divl high low dv =
     (let n = push_bit 32 (ucast high) OR ucast low;
          d = push_bit 31 (ucast dv)
      in case divl_loop n d 0 32 of
           None \<Rightarrow> None
         | Some (n, q1, c) \<Rightarrow>
             let q1 = push_bit (nat c) q1
             in if n \<noteq> 0 then let low = ucast n in Some (q1 OR (low div dv), low mod dv)
                else Some (q1, 0))"

text \<open>A division by zero traps: the result is \<open>None\<close>, as for a loop that does not end.\<close>

definition div_u64_rem :: "u64 \<Rightarrow> u32 \<Rightarrow> (u64 \<times> u32) option" where
  "div_u64_rem n dv =
     (if dv = 0 then None
      else
        let low = ucast n :: u32; high = ucast (drop_bit 32 n) :: u32
        in if high \<noteq> 0 then
             let high1 = high mod dv; high = high div dv
             in case divl high1 low dv of
                  None \<Rightarrow> None
                | Some (low, rem) \<Rightarrow> Some (push_bit 32 (ucast high) OR ucast low, rem)
           else Some (ucast (low div dv), low mod dv))"

definition div_u64 :: "u64 \<Rightarrow> u32 \<Rightarrow> u64 option" where
  "div_u64 n dv =
     (if dv = 0 then None
      else
        let low = ucast n :: u32; high = ucast (drop_bit 32 n) :: u32
        in if high \<noteq> 0 then
             let high1 = high mod dv; high = high div dv
             in case divl high1 low dv of
                  None \<Rightarrow> None
                | Some (low, rem) \<Rightarrow> Some (push_bit 32 (ucast high) OR ucast low)
           else Some (ucast (low div dv)))"

section \<open>The loop\<close>

text \<open>
  The invariant of the loop, on natural numbers: with \<open>c\<close> quotient bits to go, the dividend
  \<open>N\<close> is split into the quotient bits found so far and a remainder below \<open>dv * 2 ^ c\<close>.
\<close>

definition divl_inv :: "nat \<Rightarrow> nat \<Rightarrow> nat \<Rightarrow> nat \<Rightarrow> nat \<Rightarrow> bool" where
  "divl_inv N dv n q c \<longleftrightarrow>
     c \<le> 32 \<and> n < dv * 2 ^ c \<and> q < 2 ^ (32 - c) \<and> N = q * 2 ^ c * dv + n"

text \<open>One turn of the loop: the invariant at \<open>c + 1\<close> gives the invariant at \<open>c\<close>.\<close>

lemma divl_inv_step:
  assumes "divl_inv N dv n q (Suc c)"
  shows "n \<ge> dv * 2 ^ c \<Longrightarrow> divl_inv N dv (n - dv * 2 ^ c) (2 * q + 1) c"
    and "n < dv * 2 ^ c \<Longrightarrow> divl_inv N dv n (2 * q) c"
proof -
  from assms have c: "Suc c \<le> 32" and n: "n < 2 * (dv * 2 ^ c)"
    and q: "q < 2 ^ (32 - Suc c)" and N: "N = 2 * (q * 2 ^ c * dv) + n"
    by (auto simp: divl_inv_def)
  have "(2 :: nat) ^ (32 - c) = 2 * 2 ^ (32 - Suc c)"
    using c by (metis Suc_diff_Suc Suc_le_lessD power_Suc)
  with q have q': "2 * q + 1 < 2 ^ (32 - c)" by linarith
  show "divl_inv N dv (n - dv * 2 ^ c) (2 * q + 1) c" if "n \<ge> dv * 2 ^ c"
    using that c n q' N by (auto simp: divl_inv_def algebra_simps)
  show "divl_inv N dv n (2 * q) c" if "n < dv * 2 ^ c"
    using that c q' N by (auto simp: divl_inv_def algebra_simps)
qed

lemma divl_loop_total:
  assumes "divl_inv N (unat (dv :: u32)) (unat n) (unat q) c"
    and "c \<noteq> 0 \<Longrightarrow> unat d = unat dv * 2 ^ (c - 1)"
  shows "\<exists>n' q' c'. divl_loop n d q (int c) = Some (n', q', int c') \<and> unat n' < 2 ^ 32 \<and>
           divl_inv N (unat dv) (unat n') (unat q') c'"
  using assms
proof (induction c arbitrary: n d q)
  case 0
  then have "unat n < unat dv" by (simp add: divl_inv_def)
  then have "unat n < 4294967296" using u32_lt [of dv] by linarith
  then have "\<not> n > 0xffffffff" by (simp add: word_less_nat_alt)
  with 0 \<open>unat n < 4294967296\<close> show ?case
    by (subst divl_loop.simps) force
next
  case (Suc c)
  show ?case
  proof (cases "n > 0xffffffff")
    case False
    then have "unat n < 4294967296" by (simp add: word_less_nat_alt)
    with False Suc.prems(1) show ?thesis
      by (subst divl_loop.simps) (auto intro!: exI [of _ "Suc c"])
  next
    case True
    from Suc.prems have d: "unat d = unat dv * 2 ^ c" by simp
    have q: "unat q * 2 ^ 1 < 2 ^ 32"
      using Suc.prems(1) power_increasing [of "32 - Suc c" 31 "2::nat"]
      by (auto simp: divl_inv_def)
    then have q2: "unat (push_bit 1 q) = 2 * unat q"
      by (subst unat_push_bit) simp_all
    then have q3: "unat (push_bit 1 q OR 1) = 2 * unat q + 1"
      using nat_or_add [of 1 1 "unat q"] by (simp only: unsigned_or_eq) (simp add: mult.commute)
    have d2: "c \<noteq> 0 \<Longrightarrow> unat (drop_bit 1 d) = unat dv * 2 ^ (c - 1)"
      using d by (cases c) (simp_all add: unat_drop_bit del: drop_bit_Suc)
    show ?thesis
    proof (cases "n \<ge> d")
      case ge: True
      then have "unat (n - d) = unat n - unat dv * 2 ^ c"
        by (simp add: unat_sub d)
      with ge divl_inv_step(1) [OF Suc.prems(1)]
      have "divl_inv N (unat dv) (unat (n - d)) (unat (push_bit 1 q OR 1)) c"
        by (simp only: q3) (simp add: word_le_nat_alt d)
      from Suc.IH [OF this d2] True ge show ?thesis
        by (subst divl_loop.simps) simp
    next
      case False
      with divl_inv_step(2) [OF Suc.prems(1)]
      have "divl_inv N (unat dv) (unat n) (unat (push_bit 1 q)) c"
        by (simp only: q2) (simp add: word_le_nat_alt d)
      from Suc.IH [OF this d2] True False show ?thesis
        by (subst divl_loop.simps) simp
    qed
  qed
qed

lemma divl_correct:
  assumes "high < dv"
  shows "\<exists>q r. divl high low dv = Some (q, r) \<and>
           unat q = (unat high * 2 ^ 32 + unat low) div unat dv \<and>
           unat r = (unat high * 2 ^ 32 + unat low) mod unat dv"
proof -
  let ?N = "unat high * 2 ^ 32 + unat low"
  let ?n = "push_bit 32 (ucast high) OR ucast low :: u64"
  let ?d = "push_bit 31 (ucast dv) :: u64"
  have hd: "Suc (unat high) \<le> unat dv" using assms by (simp add: word_less_nat_alt)
  have h64: "unat (ucast high :: u64) * 2 ^ 32 < 2 ^ LENGTH(64)"
    using u32_lt [of high] by (simp add: unat_ucast_up)
  have n: "unat ?n = ?N"
    using nat_or_add [of "unat low" 32 "unat high"] u32_lt [of low]
    by (simp only: unsigned_or_eq unat_push_bit [OF h64]) (simp add: unat_ucast_up)
  have "unat (ucast dv :: u64) * 2 ^ 31 < 2 ^ LENGTH(64)"
    using u32_lt [of dv] by (simp add: unat_ucast_up)
  then have d: "unat ?d = unat dv * 2 ^ 31"
    by (subst unat_push_bit) (simp_all add: unat_ucast_up)
  have "?N < Suc (unat high) * 2 ^ 32" using u32_lt [of low] by simp
  also have "\<dots> \<le> unat dv * 2 ^ 32" using hd by (simp only: mult_le_mono1)
  finally have "divl_inv ?N (unat dv) (unat ?n) (unat (0 :: u32)) 32"
    by (simp add: divl_inv_def n)
  from divl_loop_total [OF this, of ?d] d
  obtain n' q' c' where loop: "divl_loop ?n ?d 0 32 = Some (n', q', int c')"
    and n': "unat n' < 2 ^ 32" and inv: "divl_inv ?N (unat dv) (unat n') (unat q') c'"
    by auto
  from inv have c: "c' \<le> 32" and lt: "unat n' < unat dv * 2 ^ c'"
    and qb: "unat q' < 2 ^ (32 - c')" and N: "?N = unat q' * 2 ^ c' * unat dv + unat n'"
    by (auto simp: divl_inv_def)
  have "unat q' * 2 ^ c' < 2 ^ (32 - c') * 2 ^ c'" using qb by simp
  also have "\<dots> = 2 ^ 32" using c by (simp flip: power_add)
  finally have Q: "unat (push_bit c' q') = unat q' * 2 ^ c'"
    by (subst unat_push_bit) simp_all
  have small: "unat n' div unat dv < 2 ^ c'"
    using lt by (simp add: less_mult_imp_div_less mult.commute)
  have low: "unat (ucast n' :: u32) = unat n'"
    using n' by (simp add: unat_ucast_mod)
  have dv: "0 < unat dv" using hd by simp
  have "unat (push_bit c' q' OR (ucast n' div dv)) = unat q' * 2 ^ c' + unat n' div unat dv"
    using nat_or_add [OF small, of "unat q'"]
    by (simp only: unsigned_or_eq Q unat_div_distrib low)
  moreover have "?N div unat dv = unat q' * 2 ^ c' + unat n' div unat dv"
    using dv by (subst N) (simp add: div_plus_div_distrib_dvd_left)
  moreover have "?N mod unat dv = unat n' mod unat dv"
    by (subst N) (simp add: mod_mult_self3)
  ultimately show ?thesis
    using loop Q dv
    by (simp add: divl_def Let_def unat_mod_distrib low del: push_bit_eq_mult) 
qed


lemma high_low_split:
  fixes n :: u64
  shows "unat n = unat (ucast (drop_bit 32 n) :: u32) * 2 ^ 32 + unat (ucast n :: u32)"
proof -
  have "unat n < 2 ^ 64" using unsigned_less [of n] by simp
  then have "unat n div 2 ^ 32 < 2 ^ 32" by simp
  then have "unat (ucast (drop_bit 32 n) :: u32) = unat n div 2 ^ 32"
    by (simp only: unat_ucast_mod unat_drop_bit) simp
  then show ?thesis by (simp add: unat_ucast_mod)
qed

lemma split_quotient:
  "n = h * k + l \<Longrightarrow> n = h div d * k * d + (h mod d * k + (l :: nat))"
proof -
  assume n: "n = h * k + l"
  have "h * k = (h div d * d + h mod d) * k" by simp
  then have "h * k = h div d * k * d + h mod d * k" by (simp only: algebra_simps)
  with n show ?thesis by simp
qed

lemma div_u64_rem_eq:
  assumes "dv \<noteq> 0"
  shows "div_u64_rem n dv = Some (n div ucast dv, ucast (n mod ucast dv))"
proof -
  let ?lo = "ucast n :: u32" and ?hi = "ucast (drop_bit 32 n) :: u32"
  have dv: "0 < unat dv" using assms by (simp add: unat_gt_0)
  have udv: "unat (ucast dv :: u64) = unat dv" by (simp add: unat_ucast_up)
  note split = high_low_split [of n]
  have rem: "unat (ucast (n mod ucast dv) :: u32) = unat n mod unat dv"
    using mod_less_divisor [OF dv, of "unat n"] u32_lt [of dv]
    by (simp add: unat_ucast_mod unat_mod_distrib udv)
  show ?thesis
  proof (cases "?hi = 0")
    case True
    with split have "unat n = unat ?lo" by simp
    then have "ucast (?lo div dv) = n div ucast dv" and "?lo mod dv = ucast (n mod ucast dv)"
      using rem by (simp_all add: word_unat_eq_iff unat_div_distrib unat_mod_distrib unat_ucast_up udv)
    with True assms show ?thesis by (simp add: div_u64_rem_def)
  next
    case False
    have "?hi mod dv < dv" using dv by (simp add: word_less_nat_alt unat_mod_distrib)
    from divl_correct [OF this, of ?lo] obtain q r where
      qr: "divl (?hi mod dv) ?lo dv = Some (q, r)"
      and q: "unat q = (unat ?hi mod unat dv * 2 ^ 32 + unat ?lo) div unat dv"
      and r: "unat r = (unat ?hi mod unat dv * 2 ^ 32 + unat ?lo) mod unat dv"
      by (auto simp: unat_mod_distrib)
    have N: "unat n = unat ?hi div unat dv * 2 ^ 32 * unat dv + (unat ?hi mod unat dv * 2 ^ 32 + unat ?lo)"
      by (rule split_quotient [OF split])
    have "unat (ucast (?hi div dv) :: u64) * 2 ^ 32 < 2 ^ LENGTH(64)"
      using u32_lt [of "?hi div dv"] by (simp add: unat_ucast_up)
    then have "unat (push_bit 32 (ucast (?hi div dv)) OR ucast q :: u64) =
        unat ?hi div unat dv * 2 ^ 32 + unat q"
      using nat_or_add [of "unat q" 32 "unat ?hi div unat dv"] u32_lt [of q]
      by (simp only: unsigned_or_eq unat_push_bit) (simp add: unat_ucast_up unat_div_distrib)
    also have "\<dots> = unat n div unat dv"
      using dv q by (subst N) (simp add: div_plus_div_distrib_dvd_left)
    finally have "push_bit 32 (ucast (?hi div dv)) OR ucast q = n div ucast dv"
      by (simp only: word_unat_eq_iff unat_div_distrib udv)
    moreover have "r = ucast (n mod ucast dv)"
      using rem r by (simp only: word_unat_eq_iff) (subst N, simp)
    ultimately show ?thesis
      using False assms qr by (simp add: div_u64_rem_def Let_def)
  qed
qed

lemma div_u64_eq: "dv \<noteq> 0 \<Longrightarrow> div_u64 n dv = Some (n div ucast dv)"
  using div_u64_rem_eq [of dv n]
  by (auto simp: div_u64_def div_u64_rem_def Let_def split: if_splits option.splits)

section \<open>Properties\<close>

text \<open>
  C39. \<^verbatim>\<open>div_u64_rem\<close> and \<^verbatim>\<open>div_u64\<close> of the OS/2 \<^verbatim>\<open>math64.h\<close> return for every nonzero divisor (the
  shift-and-subtract loop of \<^verbatim>\<open>divl\<close> ends) and give the exact 64-bit quotient and the exact
  32-bit remainder.
\<close>

theorem div_u64_exact:
  assumes "dv \<noteq> 0"
  shows "div_u64_rem n dv = Some (n div ucast dv, ucast (n mod ucast dv)) \<and>
     div_u64 n dv = Some (n div ucast dv)"
  using div_u64_rem_eq [OF assms] div_u64_eq [OF assms] by blast

theorem div_u64_exact_witness: "div_u64 0x100000007 10 = Some (0x100000007 div 10)"
  using div_u64_exact [of 10 "0x100000007"] by simp

end
