(* ===== verification/Refiner.thy ===== *)
theory Refiner
  imports Prelude
begin

text \<open>
  The contract that the configuration code of \<^verbatim>\<open>pcm_native.c\<close> relies on when it narrows a
  parameter: \<^verbatim>\<open>snd_mask_refine\<close> and \<^verbatim>\<open>snd_interval_refine\<close> both replace their first argument
  by the meet with the second and return a negative error number (the meet is empty), zero
  (nothing changed) or a positive number (the parameter got smaller). \<open>refiner\<close> states it once,
  for a type \<open>'a\<close> of parameters that stand for sets \<open>sem\<close> of values; the theories of masks and
  of intervals interpret it. \<open>gauge\<close> is the bound that makes every chain of changes finite.
\<close>

locale refiner =
  fixes wf :: "'a \<Rightarrow> bool"
    and sem :: "'a \<Rightarrow> 'v set"
    and gauge :: "'a \<Rightarrow> nat"
    and refine :: "'a \<Rightarrow> 'a \<Rightarrow> int \<times> 'a"
  assumes refine_sem: "wf i \<Longrightarrow> wf v \<Longrightarrow> sem (snd (refine i v)) = sem i \<inter> sem v"
    and refine_error: "wf i \<Longrightarrow> wf v \<Longrightarrow> fst (refine i v) < 0 \<longleftrightarrow> sem i \<inter> sem v = {}"
    and refine_wf: "wf i \<Longrightarrow> wf v \<Longrightarrow> 0 \<le> fst (refine i v) \<Longrightarrow> wf (snd (refine i v))"
    and refine_same: "wf i \<Longrightarrow> wf v \<Longrightarrow> fst (refine i v) = 0 \<Longrightarrow> sem i \<subseteq> sem v"
    and refine_gauge: "wf i \<Longrightarrow> wf v \<Longrightarrow> 0 < fst (refine i v) \<Longrightarrow> gauge (snd (refine i v)) < gauge i"
    and refine_gauge_same:
      "wf i \<Longrightarrow> wf v \<Longrightarrow> fst (refine i v) = 0 \<Longrightarrow> gauge (snd (refine i v)) \<le> gauge i"
begin

text \<open>A parameter constrained by a sequence of values, stopping at the first error.\<close>

fun refine_all :: "'a \<Rightarrow> 'a list \<Rightarrow> int \<times> 'a" where
  "refine_all i [] = (0, i)"
| "refine_all i (v # vs) =
     (let (c, j) = refine i v in if c < 0 then (c, j) else refine_all j vs)"

lemma refine_all_sem:
  assumes "wf i" and "\<And>v. v \<in> set vs \<Longrightarrow> wf v" and "sem i \<noteq> {}"
  shows "fst (refine_all i vs) < 0 \<longleftrightarrow> sem i \<inter> \<Inter> (sem ` set vs) = {}"
    and "0 \<le> fst (refine_all i vs) \<Longrightarrow> sem (snd (refine_all i vs)) = sem i \<inter> \<Inter> (sem ` set vs)"
proof -
  have "(fst (refine_all i vs) < 0 \<longleftrightarrow> sem i \<inter> \<Inter> (sem ` set vs) = {}) \<and>
     (0 \<le> fst (refine_all i vs) \<longrightarrow>
        sem (snd (refine_all i vs)) = sem i \<inter> \<Inter> (sem ` set vs))"
    using assms
  proof (induction vs arbitrary: i)
    case (Cons v vs)
    obtain c j where r: "refine i v = (c, j)" by (cases "refine i v")
    have wfs: "wf i" "wf v" using Cons.prems by auto
    note laws = refine_sem [OF wfs] refine_error [OF wfs] refine_wf [OF wfs]
    show ?case
    proof (cases "c < 0")
      case True
      then show ?thesis using laws by (auto simp: r)
    next
      case False
      then have "wf j" "sem j = sem i \<inter> sem v" "sem j \<noteq> {}" using laws by (auto simp: r)
      then show ?thesis using Cons.IH [of j] Cons.prems(2) False
        by (simp add: r Int_assoc)
    qed
  qed auto
  then show "fst (refine_all i vs) < 0 \<longleftrightarrow> sem i \<inter> \<Inter> (sem ` set vs) = {}"
    "0 \<le> fst (refine_all i vs) \<Longrightarrow> sem (snd (refine_all i vs)) = sem i \<inter> \<Inter> (sem ` set vs)"
    by blast+
qed

text \<open>The order in which constraints are applied does not matter.\<close>

lemma refine_all_order:
  assumes "wf i" and "\<And>v. v \<in> set vs \<Longrightarrow> wf v" and "sem i \<noteq> {}" and "set ws = set vs"
  shows "fst (refine_all i ws) < 0 \<longleftrightarrow> fst (refine_all i vs) < 0"
    and "0 \<le> fst (refine_all i vs) \<Longrightarrow> sem (snd (refine_all i ws)) = sem (snd (refine_all i vs))"
  using refine_all_sem [of i vs] refine_all_sem [of i ws] assms by (simp_all add: not_less [symmetric])

text \<open>Refining twice by the same constraint changes nothing more.\<close>

lemma refine_again:
  assumes "wf i" "wf v" "0 \<le> fst (refine i v)"
  shows "0 \<le> fst (refine (snd (refine i v)) v)"
    and "sem (snd (refine (snd (refine i v)) v)) = sem (snd (refine i v))"
proof -
  have w: "wf (snd (refine i v))" using assms by (rule refine_wf)
  have s: "sem (snd (refine i v)) = sem i \<inter> sem v" "sem i \<inter> sem v \<noteq> {}"
    using refine_sem refine_error assms by (auto simp: not_less [symmetric])
  then show "0 \<le> fst (refine (snd (refine i v)) v)"
    using refine_error [OF w assms(2)] by (simp add: not_less [symmetric])
  show "sem (snd (refine (snd (refine i v)) v)) = sem (snd (refine i v))"
    using refine_sem [OF w assms(2)] s by auto
qed

lemma refine_le_gauge:
  assumes "wf i" "wf v" "0 \<le> fst (refine i v)"
  shows "gauge (snd (refine i v)) \<le> gauge i"
  using refine_gauge [OF assms(1,2)] refine_gauge_same [OF assms(1,2)] assms(3) by force

end

end
