(* ===== verification/Interval.thy ===== *)
theory Interval
  imports Math64 Refiner
begin

text \<open>
  Configuration intervals: \<^verbatim>\<open>struct snd_interval\<close> of
  \<^verbatim>\<open>alsa-kernel/include/uapi/sound/asound.h\<close>, its inline operations in
  \<^verbatim>\<open>alsa-kernel/include/sound/pcm_params.h\<close>, and the interval arithmetic of
  \<^verbatim>\<open>alsa-kernel/core/pcm_lib.c\<close> (\<^verbatim>\<open>div32\<close> to \<^verbatim>\<open>snd_interval_step\<close>). An operation that
  changes its interval argument returns the status and the new interval.
\<close>

section \<open>The structure and its inline operations\<close>

record snd_interval =
  iv_min :: u32
  iv_max :: u32
  openmin :: bool
  openmax :: bool
  iv_integer :: bool
  iv_empty :: bool

definition snd_interval_any :: snd_interval where
  "snd_interval_any = \<lparr>iv_min = 0, iv_max = UINT_MAX, openmin = False, openmax = False,
     iv_integer = False, iv_empty = False\<rparr>"

definition snd_interval_none :: "snd_interval \<Rightarrow> snd_interval" where
  "snd_interval_none i = i\<lparr>iv_empty := True\<rparr>"

definition snd_interval_checkempty :: "snd_interval \<Rightarrow> bool" where
  "snd_interval_checkempty i \<longleftrightarrow>
     iv_min i > iv_max i \<or> iv_min i = iv_max i \<and> (openmin i \<or> openmax i)"

definition snd_interval_empty :: "snd_interval \<Rightarrow> bool" where
  "snd_interval_empty i \<longleftrightarrow> iv_empty i"

definition snd_interval_single :: "snd_interval \<Rightarrow> bool" where
  "snd_interval_single i \<longleftrightarrow>
     iv_min i = iv_max i \<or> iv_min i + 1 = iv_max i \<and> (openmin i \<or> openmax i)"

definition snd_interval_value :: "snd_interval \<Rightarrow> u32" where
  "snd_interval_value i = (if openmin i \<and> \<not> openmax i then iv_max i else iv_min i)"

definition snd_interval_test :: "snd_interval \<Rightarrow> u32 \<Rightarrow> bool" where
  "snd_interval_test i val \<longleftrightarrow>
     \<not> (iv_min i > val \<or> iv_min i = val \<and> openmin i \<or>
        iv_max i < val \<or> iv_max i = val \<and> openmax i)"

definition snd_interval_setinteger :: "snd_interval \<Rightarrow> int \<times> snd_interval" where
  "snd_interval_setinteger i =
     (if iv_integer i then (0, i)
      else if openmin i \<and> openmax i \<and> iv_min i = iv_max i then (- EINVAL, i)
      else (1, i\<lparr>iv_integer := True\<rparr>))"

definition snd_interval_eq :: "snd_interval \<Rightarrow> snd_interval \<Rightarrow> bool" where
  "snd_interval_eq i1 i2 \<longleftrightarrow>
     (if iv_empty i1 then iv_empty i2
      else if iv_empty i2 then iv_empty i1
      else iv_min i1 = iv_min i2 \<and> openmin i1 = openmin i2 \<and>
           iv_max i1 = iv_max i2 \<and> openmax i1 = openmax i2)"

section \<open>Saturating arithmetic\<close>

text \<open>The results are the returned quotient and the remainder stored through \<^verbatim>\<open>r\<close>.\<close>

definition div32 :: "u32 \<Rightarrow> u32 \<Rightarrow> u32 \<times> u32" where
  "div32 a b = (if b = 0 then (UINT_MAX, 0) else (a div b, a mod b))"

definition div_down :: "u32 \<Rightarrow> u32 \<Rightarrow> u32" where
  "div_down a b = (if b = 0 then UINT_MAX else a div b)"

definition div_up :: "u32 \<Rightarrow> u32 \<Rightarrow> u32" where
  "div_up a b =
     (if b = 0 then UINT_MAX
      else let (q, r) = div32 a b in if r \<noteq> 0 then q + 1 else q)"

definition mul :: "u32 \<Rightarrow> u32 \<Rightarrow> u32" where
  "mul a b =
     (if a = 0 then 0 else if div_down UINT_MAX a < b then UINT_MAX else a * b)"

text \<open>\<open>div_u64_rem\<close> returns for every nonzero divisor, see \<open>div_u64_rem_eq\<close>.\<close>

definition muldiv32 :: "u32 \<Rightarrow> u32 \<Rightarrow> u32 \<Rightarrow> u32 \<times> u32" where
  "muldiv32 a b c =
     (let n = ucast a * ucast b :: u64
      in if c = 0 then (UINT_MAX, 0)
         else let (n, r) = the (div_u64_rem n c)
              in if n \<ge> ucast UINT_MAX then (UINT_MAX, 0) else (ucast n, r))"

section \<open>Refinement\<close>

text \<open>The lower and the upper bound of \<^verbatim>\<open>snd_interval_refine\<close>, with the \<^verbatim>\<open>changed\<close> flag.\<close>

definition refine_min :: "snd_interval \<Rightarrow> snd_interval \<Rightarrow> bool \<times> snd_interval" where
  "refine_min i v =
     (if iv_min i < iv_min v then (True, i\<lparr>iv_min := iv_min v, openmin := openmin v\<rparr>)
      else if iv_min i = iv_min v \<and> \<not> openmin i \<and> openmin v then (True, i\<lparr>openmin := True\<rparr>)
      else (False, i))"

definition refine_max :: "snd_interval \<Rightarrow> snd_interval \<Rightarrow> bool \<times> snd_interval" where
  "refine_max i v =
     (if iv_max i > iv_max v then (True, i\<lparr>iv_max := iv_max v, openmax := openmax v\<rparr>)
      else if iv_max i = iv_max v \<and> \<not> openmax i \<and> openmax v then (True, i\<lparr>openmax := True\<rparr>)
      else (False, i))"

text \<open>The integer step: bounds of an integer interval are closed (with C's wrap-around).\<close>

definition refine_round :: "snd_interval \<Rightarrow> snd_interval" where
  "refine_round i =
     (if iv_integer i then
        let i = (if openmin i then i\<lparr>iv_min := iv_min i + 1, openmin := False\<rparr> else i)
        in (if openmax i then i\<lparr>iv_max := iv_max i - 1, openmax := False\<rparr> else i)
      else if \<not> openmin i \<and> \<not> openmax i \<and> iv_min i = iv_max i then i\<lparr>iv_integer := True\<rparr>
      else i)"

definition snd_interval_refine :: "snd_interval \<Rightarrow> snd_interval \<Rightarrow> int \<times> snd_interval" where
  "snd_interval_refine i v =
     (if snd_BUG_ON (snd_interval_empty i) then (- EINVAL, i)
      else
        let (c1, i) = refine_min i v;
            (c2, i) = refine_max i v;
            c3 = (\<not> iv_integer i \<and> iv_integer v);
            i = (if c3 then i\<lparr>iv_integer := True\<rparr> else i);
            i = refine_round i
        in if snd_interval_checkempty i then (- EINVAL, snd_interval_none i)
           else (of_bool (c1 \<or> c2 \<or> c3), i))"

definition snd_interval_refine_first :: "snd_interval \<Rightarrow> int \<times> snd_interval" where
  "snd_interval_refine_first i =
     (let last_max = iv_max i
      in if snd_BUG_ON (snd_interval_empty i) then (- EINVAL, i)
         else if snd_interval_single i then (0, i)
         else
           let i = i\<lparr>iv_max := iv_min i\<rparr>;
               i = (if openmin i then i\<lparr>iv_max := iv_max i + 1\<rparr> else i)
           in (1, i\<lparr>openmax := openmax i \<and> iv_max i \<ge> last_max\<rparr>))"

definition snd_interval_refine_last :: "snd_interval \<Rightarrow> int \<times> snd_interval" where
  "snd_interval_refine_last i =
     (let last_min = iv_min i
      in if snd_BUG_ON (snd_interval_empty i) then (- EINVAL, i)
         else if snd_interval_single i then (0, i)
         else
           let i = i\<lparr>iv_min := iv_max i\<rparr>;
               i = (if openmax i then i\<lparr>iv_min := iv_min i - 1\<rparr> else i)
           in (1, i\<lparr>openmin := openmin i \<and> iv_min i \<le> last_min\<rparr>))"

section \<open>Products and quotients\<close>

text \<open>
  The result is written to \<^verbatim>\<open>c\<close>; every field is written unless an operand is empty, in
  which case only the \<^verbatim>\<open>empty\<close> bit of \<^verbatim>\<open>c\<close> is set.
\<close>

definition snd_interval_mul :: "snd_interval \<Rightarrow> snd_interval \<Rightarrow> snd_interval \<Rightarrow> snd_interval" where
  "snd_interval_mul a b c =
     (if iv_empty a \<or> iv_empty b then snd_interval_none c
      else \<lparr>iv_min = mul (iv_min a) (iv_min b), iv_max = mul (iv_max a) (iv_max b),
            openmin = (openmin a \<or> openmin b), openmax = (openmax a \<or> openmax b),
            iv_integer = (iv_integer a \<and> iv_integer b), iv_empty = False\<rparr>)"

definition snd_interval_div :: "snd_interval \<Rightarrow> snd_interval \<Rightarrow> snd_interval \<Rightarrow> snd_interval" where
  "snd_interval_div a b c =
     (if iv_empty a \<or> iv_empty b then snd_interval_none c
      else
        let (lo, r) = div32 (iv_min a) (iv_max b);
            omin = (r \<noteq> 0 \<or> openmin a \<or> openmax b);
            (hi, omax) =
              (if iv_min b > 0 then
                 let (q, r) = div32 (iv_max a) (iv_min b)
                 in if r \<noteq> 0 then (q + 1, True) else (q, openmax a \<or> openmin b)
               else (UINT_MAX, False))
        in \<lparr>iv_min = lo, iv_max = hi, openmin = omin, openmax = omax,
            iv_integer = False, iv_empty = False\<rparr>)"

definition snd_interval_muldivk ::
  "snd_interval \<Rightarrow> snd_interval \<Rightarrow> u32 \<Rightarrow> snd_interval \<Rightarrow> snd_interval" where
  "snd_interval_muldivk a b k c =
     (if iv_empty a \<or> iv_empty b then snd_interval_none c
      else
        let (lo, r) = muldiv32 (iv_min a) (iv_min b) k;
            omin = (r \<noteq> 0 \<or> openmin a \<or> openmin b);
            (hi, omax) =
              (let (q, r) = muldiv32 (iv_max a) (iv_max b) k
               in if r \<noteq> 0 then (q + 1, True) else (q, openmax a \<or> openmax b))
        in \<lparr>iv_min = lo, iv_max = hi, openmin = omin, openmax = omax,
            iv_integer = False, iv_empty = False\<rparr>)"

definition snd_interval_mulkdiv ::
  "snd_interval \<Rightarrow> u32 \<Rightarrow> snd_interval \<Rightarrow> snd_interval \<Rightarrow> snd_interval" where
  "snd_interval_mulkdiv a k b c =
     (if iv_empty a \<or> iv_empty b then snd_interval_none c
      else
        let (lo, r) = muldiv32 (iv_min a) k (iv_max b);
            omin = (r \<noteq> 0 \<or> openmin a \<or> openmax b);
            (hi, omax) =
              (if iv_min b > 0 then
                 let (q, r) = muldiv32 (iv_max a) k (iv_min b)
                 in if r \<noteq> 0 then (q + 1, True) else (q, openmax a \<or> openmin b)
               else (UINT_MAX, False))
        in \<lparr>iv_min = lo, iv_max = hi, openmin = omin, openmax = omax,
            iv_integer = False, iv_empty = False\<rparr>)"

section \<open>Rational rates\<close>

record snd_ratnum =
  rn_num :: u32
  den_min :: u32
  den_max :: u32
  den_step :: u32

record snd_ratden =
  num_min :: u32
  num_max :: u32
  num_step :: u32
  rd_den :: u32

text \<open>
  The best fraction so far: \<^verbatim>\<open>best_num\<close>, \<^verbatim>\<open>best_den\<close>, \<^verbatim>\<open>best_diff\<close>. The comparison
  \<^verbatim>\<open>diff * best_den < best_diff * den\<close> multiplies an \<^verbatim>\<open>int\<close> with an \<^verbatim>\<open>unsigned int\<close>, so
  it is unsigned and wraps.
\<close>

type_synonym best = "u32 \<times> u32 \<times> u32"

definition better :: "best \<Rightarrow> u32 \<Rightarrow> u32 \<Rightarrow> u32 \<Rightarrow> best" where
  "better b num den diff =
     (let (best_num, best_den, best_diff) = b
      in if best_num = 0 \<or> diff * best_den < best_diff * den then (num, den, diff) else b)"

definition int_abs :: "u32 \<Rightarrow> u32" where
  "int_abs d = (if sint d < 0 then - d else d)"

text \<open>
  The two loops of \<^verbatim>\<open>snd_interval_ratnum\<close>; \<open>None\<close> is the trap of a zero \<^verbatim>\<open>den_step\<close>.
\<close>

fun ratnum_min_loop :: "u32 \<Rightarrow> snd_ratnum list \<Rightarrow> best \<Rightarrow> best option" where
  "ratnum_min_loop q [] b = Some b"
| "ratnum_min_loop q (rat # rats) b =
     (let num = rn_num rat; den = div_up num q
      in if den < den_min rat then ratnum_min_loop q rats b
         else if den > den_max rat then
           let den = den_max rat
           in ratnum_min_loop q rats (better b num den (int_abs (num - q * den)))
         else if den_step rat = 0 then None
         else
           let den = den - (den - den_min rat) mod den_step rat
           in ratnum_min_loop q rats (better b num den (int_abs (num - q * den))))"

fun ratnum_max_loop :: "u32 \<Rightarrow> snd_ratnum list \<Rightarrow> best \<Rightarrow> best option" where
  "ratnum_max_loop q [] b = Some b"
| "ratnum_max_loop q (rat # rats) b =
     (let num = rn_num rat; den = div_down num q
      in if den > den_max rat then ratnum_max_loop q rats b
         else if den < den_min rat then
           let den = den_min rat
           in ratnum_max_loop q rats (better b num den (int_abs (q * den - num)))
         else if den_step rat = 0 then None
         else
           let r = (den - den_min rat) mod den_step rat;
               den = (if r \<noteq> 0 then den + (den_step rat - r) else den)
           in ratnum_max_loop q rats (better b num den (int_abs (q * den - num))))"

text \<open>
  The result: the status, the new interval, and the fraction stored through \<^verbatim>\<open>nump\<close> and
  \<^verbatim>\<open>denp\<close> when one is. The test \<^verbatim>\<open>q == 0\<close> of the second loop does not depend on the loop.
\<close>

definition snd_interval_ratnum ::
  "snd_interval \<Rightarrow> snd_ratnum list \<Rightarrow> (int \<times> snd_interval \<times> (u32 \<times> u32) option) option" where
  "snd_interval_ratnum i rats =
     (let q = (if iv_min i = 0 then 1 else iv_min i)
      in case ratnum_min_loop q rats (0, 0, 0) of
           None \<Rightarrow> None
         | Some (result_num, result_den, result_diff) \<Rightarrow>
             if result_den = 0 then Some (- EINVAL, i\<lparr>iv_empty := True\<rparr>, None)
             else if iv_max i = 0 \<and> rats \<noteq> [] then Some (- EINVAL, i\<lparr>iv_empty := True\<rparr>, None)
             else
               (case ratnum_max_loop (iv_max i) rats (0, 0, 0) of
                  None \<Rightarrow> None
                | Some (best_num, best_den, best_diff) \<Rightarrow>
                    if best_den = 0 then Some (- EINVAL, i\<lparr>iv_empty := True\<rparr>, None)
                    else
                      let t = \<lparr>iv_min = div_down result_num result_den,
                               iv_max = div_up best_num best_den,
                               openmin = (result_num mod result_den \<noteq> 0),
                               openmax = (best_num mod best_den \<noteq> 0),
                               iv_integer = False, iv_empty = False\<rparr>;
                          (err, i) = snd_interval_refine i t
                      in if err < 0 then Some (err, i, None)
                         else if snd_interval_single i then
                           if best_diff * result_den < result_diff * best_den
                           then Some (err, i, Some (best_num, best_den))
                           else Some (err, i, Some (result_num, result_den))
                         else Some (err, i, None)))"

fun ratden_min_loop :: "u32 \<Rightarrow> snd_ratden list \<Rightarrow> best \<Rightarrow> best option" where
  "ratden_min_loop q [] b = Some b"
| "ratden_min_loop q (rat # rats) b =
     (let den = rd_den rat; num = mul q den
      in if num > num_max rat then ratden_min_loop q rats b
         else if num < num_min rat then
           let num = num_max rat
           in ratden_min_loop q rats (better b num den (num - q * den))
         else if num_step rat = 0 then None
         else
           let r = (num - num_min rat) mod num_step rat;
               num = (if r \<noteq> 0 then num + (num_step rat - r) else num)
           in ratden_min_loop q rats (better b num den (num - q * den)))"

fun ratden_max_loop :: "u32 \<Rightarrow> snd_ratden list \<Rightarrow> best \<Rightarrow> best option" where
  "ratden_max_loop q [] b = Some b"
| "ratden_max_loop q (rat # rats) b =
     (let den = rd_den rat; num = mul q den
      in if num < num_min rat then ratden_max_loop q rats b
         else if num > num_max rat then
           let num = num_max rat
           in ratden_max_loop q rats (better b num den (q * den - num))
         else if num_step rat = 0 then None
         else
           let num = num - (num - num_min rat) mod num_step rat
           in ratden_max_loop q rats (better b num den (q * den - num)))"

definition snd_interval_ratden ::
  "snd_interval \<Rightarrow> snd_ratden list \<Rightarrow> (int \<times> snd_interval \<times> (u32 \<times> u32) option) option" where
  "snd_interval_ratden i rats =
     (case ratden_min_loop (iv_min i) rats (0, 0, 0) of
        None \<Rightarrow> None
      | Some (lo_num, lo_den, _) \<Rightarrow>
          if lo_den = 0 then Some (- EINVAL, i\<lparr>iv_empty := True\<rparr>, None)
          else
            (case ratden_max_loop (iv_max i) rats (0, 0, 0) of
               None \<Rightarrow> None
             | Some (best_num, best_den, _) \<Rightarrow>
                 if best_den = 0 then Some (- EINVAL, i\<lparr>iv_empty := True\<rparr>, None)
                 else
                   let t = \<lparr>iv_min = div_down lo_num lo_den,
                            iv_max = div_up best_num best_den,
                            openmin = (lo_num mod lo_den \<noteq> 0),
                            openmax = (best_num mod best_den \<noteq> 0),
                            iv_integer = False, iv_empty = False\<rparr>;
                       (err, i) = snd_interval_refine i t
                   in if err < 0 then Some (err, i, None)
                      else if snd_interval_single i then Some (err, i, Some (best_num, best_den))
                      else Some (err, i, None)))"

section \<open>Lists, ranges and steps\<close>

text \<open>\<^verbatim>\<open>mask && !(mask & (1 << k))\<close>: the element is masked out.\<close>

definition masked_out :: "u32 \<Rightarrow> nat \<Rightarrow> bool" where
  "masked_out msk k \<longleftrightarrow> msk \<noteq> 0 \<and> msk AND push_bit k 1 = 0"

text \<open>The loop of \<^verbatim>\<open>snd_interval_list\<close> on \<^verbatim>\<open>list_range.min\<close> and \<^verbatim>\<open>list_range.max\<close>.\<close>

fun list_range :: "snd_interval \<Rightarrow> u32 \<Rightarrow> nat \<Rightarrow> u32 list \<Rightarrow> u32 \<Rightarrow> u32 \<Rightarrow> u32 \<times> u32" where
  "list_range i msk k [] lo hi = (lo, hi)"
| "list_range i msk k (x # xs) lo hi =
     (if masked_out msk k then list_range i msk (Suc k) xs lo hi
      else if \<not> snd_interval_test i x then list_range i msk (Suc k) xs lo hi
      else list_range i msk (Suc k) xs (min lo x) (max hi x))"

definition snd_interval_list :: "snd_interval \<Rightarrow> u32 list \<Rightarrow> u32 \<Rightarrow> int \<times> snd_interval" where
  "snd_interval_list i xs msk =
     (if xs = [] then (- EINVAL, i\<lparr>iv_empty := True\<rparr>)
      else
        let (lo, hi) = list_range i msk 0 xs UINT_MAX 0
        in snd_interval_refine i (snd_interval_any\<lparr>iv_min := lo, iv_max := hi\<rparr>))"

text \<open>One round of \<^verbatim>\<open>snd_interval_ranges\<close>: \<^verbatim>\<open>range\<close> is merged into \<^verbatim>\<open>range_union\<close>.\<close>

definition range_merge :: "snd_interval \<Rightarrow> snd_interval \<Rightarrow> snd_interval" where
  "range_merge u r =
     (let u = (if iv_min r < iv_min u then u\<lparr>iv_min := iv_min r, openmin := True\<rparr> else u);
          u = (if iv_min r = iv_min u \<and> \<not> openmin r then u\<lparr>openmin := False\<rparr> else u);
          u = (if iv_max r > iv_max u then u\<lparr>iv_max := iv_max r, openmax := True\<rparr> else u)
      in (if iv_max r = iv_max u \<and> \<not> openmax r then u\<lparr>openmax := False\<rparr> else u))"

fun range_union :: "snd_interval \<Rightarrow> u32 \<Rightarrow> nat \<Rightarrow> snd_interval list \<Rightarrow> snd_interval \<Rightarrow> snd_interval" where
  "range_union i msk k [] u = u"
| "range_union i msk k (r # rs) u =
     (if masked_out msk k then range_union i msk (Suc k) rs u
      else
        let (err, range) = snd_interval_refine r i
        in if err < 0 then range_union i msk (Suc k) rs u
           else if snd_interval_empty range then range_union i msk (Suc k) rs u
           else range_union i msk (Suc k) rs (range_merge u range))"

definition snd_interval_ranges ::
  "snd_interval \<Rightarrow> snd_interval list \<Rightarrow> u32 \<Rightarrow> int \<times> snd_interval" where
  "snd_interval_ranges i ranges msk =
     (if ranges = [] then (- EINVAL, snd_interval_none i)
      else snd_interval_refine i
             (range_union i msk 0 ranges (snd_interval_any\<lparr>iv_min := UINT_MAX, iv_max := 0\<rparr>)))"

text \<open>A zero \<^verbatim>\<open>step\<close> divides by zero: \<open>None\<close>.\<close>

definition snd_interval_step :: "snd_interval \<Rightarrow> u32 \<Rightarrow> (int \<times> snd_interval) option" where
  "snd_interval_step i step =
     (if step = 0 then None
      else
        let n = iv_min i mod step;
            c1 = (n \<noteq> 0 \<or> openmin i);
            i = (if c1 then i\<lparr>iv_min := iv_min i + (step - n), openmin := False\<rparr> else i);
            n = iv_max i mod step;
            c2 = (n \<noteq> 0 \<or> openmax i);
            i = (if c2 then i\<lparr>iv_max := iv_max i - n, openmax := False\<rparr> else i)
        in if snd_interval_checkempty i then Some (- EINVAL, i\<lparr>iv_empty := True\<rparr>)
           else Some (of_bool (c1 \<or> c2), i))"

section \<open>The set of values an interval stands for\<close>

text \<open>
  An interval stands for a set of reals: the ones between its bounds, and only the integers
  among them when its \<^verbatim>\<open>integer\<close> bit is set. \<open>nowrap\<close> excludes the two bounds that the integer
  step of \<^verbatim>\<open>snd_interval_refine\<close> would wrap around; every interval that
  \<^verbatim>\<open>snd_interval_checkempty\<close> does not call empty satisfies it.
\<close>

definition lower :: "snd_interval \<Rightarrow> real \<Rightarrow> bool" where
  "lower i x \<longleftrightarrow> (if openmin i then ru (iv_min i) < x else ru (iv_min i) \<le> x)"

definition upper :: "snd_interval \<Rightarrow> real \<Rightarrow> bool" where
  "upper i x \<longleftrightarrow> (if openmax i then x < ru (iv_max i) else x \<le> ru (iv_max i))"

definition ival :: "snd_interval \<Rightarrow> real set" where
  "ival i = {x. lower i x \<and> upper i x \<and> (iv_integer i \<longrightarrow> x \<in> \<int>)}"

definition nowrap :: "snd_interval \<Rightarrow> bool" where
  "nowrap i \<longleftrightarrow> \<not> (openmin i \<and> iv_min i = UINT_MAX) \<and> \<not> (openmax i \<and> iv_max i = 0)"

lemma test_ival: "snd_interval_test i v \<longleftrightarrow> ru v \<in> ival i"
  by (auto simp: snd_interval_test_def ival_def lower_def upper_def  not_less le_less)

lemma checkempty_ival: "snd_interval_checkempty i \<Longrightarrow> ival i = {}"
  by (auto simp: snd_interval_checkempty_def ival_def lower_def upper_def to_ru
      simp del: of_ru split: if_splits)

lemma nowrap_if_nonempty: "\<not> snd_interval_checkempty i \<Longrightarrow> nowrap i"
  by (auto simp: snd_interval_checkempty_def nowrap_def not_less)

lemma lower_refine_min [simp]:
  "lower (snd (refine_min i v)) x \<longleftrightarrow> lower i x \<and> lower v x"
  by (auto simp: refine_min_def lower_def to_ru simp del: of_ru)

lemma upper_refine_max [simp]:
  "upper (snd (refine_max i v)) x \<longleftrightarrow> upper i x \<and> upper v x"
  by (auto simp: refine_max_def upper_def to_ru simp del: of_ru)

lemma refine_min_frame [simp]:
  "upper (snd (refine_min i v)) = upper i" "iv_integer (snd (refine_min i v)) = iv_integer i"
  "iv_empty (snd (refine_min i v)) = iv_empty i" "iv_max (snd (refine_min i v)) = iv_max i"
  "openmax (snd (refine_min i v)) = openmax i"
  by (auto simp: refine_min_def upper_def fun_eq_iff)

lemma refine_max_frame [simp]:
  "lower (snd (refine_max i v)) = lower i" "iv_integer (snd (refine_max i v)) = iv_integer i"
  "iv_empty (snd (refine_max i v)) = iv_empty i" "iv_min (snd (refine_max i v)) = iv_min i"
  "openmin (snd (refine_max i v)) = openmin i"
  by (auto simp: refine_max_def lower_def fun_eq_iff)

lemma nowrap_refine_bounds:
  "nowrap i \<Longrightarrow> nowrap v \<Longrightarrow> nowrap (snd (refine_max (snd (refine_min i v)) v))"
  by (auto simp: nowrap_def refine_min_def refine_max_def)

lemma ival_refine_round:
  assumes "nowrap i"
  shows "ival (refine_round i) = ival i"
proof (cases "iv_integer i")
  case False
  then show ?thesis
    by (auto simp: refine_round_def ival_def lower_def upper_def)
next
  case True
  have "openmin i \<Longrightarrow> ru (iv_min i + 1) = ru (iv_min i) + 1"
    using assms by (auto simp: nowrap_def intro: ru_Suc)
  moreover have "openmax i \<Longrightarrow> ru (iv_max i - 1) = ru (iv_max i) - 1"
    using assms by (auto simp: nowrap_def intro: ru_pred)
  ultimately show ?thesis
    using True Ints_le_less_iff(1) [of _ "iv_min i"] Ints_le_less_iff(2) [of _ "iv_max i"]
    by (auto simp: refine_round_def ival_def lower_def upper_def Let_def)
qed

lemma ival_nonempty:
  assumes "\<not> snd_interval_checkempty i" and "iv_integer i \<Longrightarrow> \<not> openmin i \<and> \<not> openmax i"
  shows "ival i \<noteq> {}"
proof (cases "openmin i \<or> openmax i")
  case False
  with assms(1) have "ru (iv_min i) \<in> ival i"
    by (auto simp: ival_def lower_def upper_def snd_interval_checkempty_def)
  then show ?thesis by auto
next
  case True
  with assms have "(ru (iv_min i) + ru (iv_max i)) / 2 \<in> ival i"
    by (auto simp: ival_def lower_def upper_def snd_interval_checkempty_def  not_less le_less)
  then show ?thesis by auto
qed

lemma refine_round_closed:
  "iv_integer (refine_round i) \<Longrightarrow> \<not> openmin (refine_round i) \<and> \<not> openmax (refine_round i)"
  by (auto simp: refine_round_def Let_def split: if_splits)

lemma iv_empty_refine_round [simp]: "iv_empty (refine_round i) = iv_empty i"
  by (auto simp: refine_round_def Let_def)

definition refine_meet :: "snd_interval \<Rightarrow> snd_interval \<Rightarrow> snd_interval" where
  "refine_meet i v =
     (let j = snd (refine_max (snd (refine_min i v)) v)
      in refine_round (j\<lparr>iv_integer := iv_integer i \<or> iv_integer v\<rparr>))"

lemma refine_unfold:
  "snd_interval_refine i v =
     (if snd_interval_checkempty (refine_meet i v)
      then (- EINVAL, snd_interval_none (refine_meet i v))
      else (of_bool (fst (refine_min i v) \<or> fst (refine_max (snd (refine_min i v)) v) \<or>
                     (\<not> iv_integer i \<and> iv_integer v)), refine_meet i v))"
proof -
  have same: "j\<lparr>iv_integer := b\<rparr> = j" if "iv_integer j = b" for j :: snd_interval and b
    using that by (cases j) auto
  show ?thesis
    by (simp add: snd_interval_refine_def refine_meet_def Let_def case_prod_unfold same)
qed

lemma ival_refine_meet:
  assumes "nowrap i" and "nowrap v"
  shows "ival (refine_meet i v) = ival i \<inter> ival v"
proof -
  let ?j = "snd (refine_max (snd (refine_min i v)) v)"
  have "nowrap (?j\<lparr>iv_integer := iv_integer i \<or> iv_integer v\<rparr>)"
    using nowrap_refine_bounds [OF assms] by (simp add: nowrap_def)
  then have "ival (refine_meet i v) = ival (?j\<lparr>iv_integer := iv_integer i \<or> iv_integer v\<rparr>)"
    by (simp add: refine_meet_def ival_refine_round)
  also have "\<dots> = ival i \<inter> ival v"
  proof -
    have "lower (j\<lparr>iv_integer := b\<rparr>) = lower j" "upper (j\<lparr>iv_integer := b\<rparr>) = upper j" for j b
      by (auto simp: lower_def upper_def fun_eq_iff)
    then show ?thesis by (auto simp: ival_def)
  qed
  finally show ?thesis .
qed

lemma snd_interval_refine_exact:
  assumes "nowrap i" and "nowrap v"
  shows "fst (snd_interval_refine i v) < 0 \<longleftrightarrow> ival i \<inter> ival v = {}"
    and "ival (snd (snd_interval_refine i v)) = ival i \<inter> ival v"
proof -
  have ne: "\<not> snd_interval_checkempty (refine_meet i v) \<Longrightarrow> ival (refine_meet i v) \<noteq> {}"
    by (rule ival_nonempty) (auto simp: refine_meet_def Let_def dest: refine_round_closed)
  note meet = ival_refine_meet [OF assms]
  have none: "ival (snd_interval_none j) = ival j" for j
    by (auto simp: ival_def lower_def upper_def snd_interval_none_def)
  show "fst (snd_interval_refine i v) < 0 \<longleftrightarrow> ival i \<inter> ival v = {}"
    using ne checkempty_ival [of "refine_meet i v"] meet by (auto simp: refine_unfold)
  show "ival (snd (snd_interval_refine i v)) = ival i \<inter> ival v"
    using meet by (simp add: refine_unfold none)
qed

section \<open>The refinement contract\<close>

text \<open>
  The doubled bounds, with an open bound half a unit inside: \<^verbatim>\<open>snd_interval_refine\<close> takes the
  maximum of the lower ones and the minimum of the upper ones.
\<close>

definition low2 :: "snd_interval \<Rightarrow> int" where
  "low2 i = 2 * uint (iv_min i) + of_bool (openmin i)"

definition high2 :: "snd_interval \<Rightarrow> int" where
  "high2 i = 2 * uint (iv_max i) - of_bool (openmax i)"

definition gauge :: "snd_interval \<Rightarrow> nat" where
  "gauge i = nat (high2 i - low2 i + of_bool (\<not> iv_integer i))"

lemma uint_Suc_no_wrap: "x \<noteq> - 1 \<Longrightarrow> uint (x + 1) = uint x + 1" for x :: u32
  using unat_Suc_no_wrap [of x] by (metis of_nat_Suc add.commute uint_nat)

lemma uint_pred_no_wrap: "x \<noteq> 0 \<Longrightarrow> uint (x - 1) = uint x - 1" for x :: u32
  using uint_Suc_no_wrap [of "x - 1"] by auto

lemma of_bool_or_pos [simp]: "0 < (of_bool P :: int) \<longleftrightarrow> P" "(of_bool P :: int) = 0 \<longleftrightarrow> \<not> P"
  by auto

lemma low2_refine_min:
  "low2 (snd (refine_min i v)) = max (low2 i) (low2 v)"
  "fst (refine_min i v) \<longleftrightarrow> low2 i < low2 v"
  by (auto simp: refine_min_def low2_def word_less_def word_uint_eq_iff)

lemma high2_refine_max:
  "high2 (snd (refine_max i v)) = min (high2 i) (high2 v)"
  "fst (refine_max i v) \<longleftrightarrow> high2 v < high2 i"
  by (auto simp: refine_max_def high2_def word_less_def word_uint_eq_iff)

lemma gauge_frame [simp]:
  "high2 (snd (refine_min i v)) = high2 i" "low2 (snd (refine_max i v)) = low2 i"
  by (simp_all add: high2_def low2_def)

lemma refine_round_gauge:
  assumes "nowrap i"
  shows "low2 i \<le> low2 (refine_round i)" and "high2 (refine_round i) \<le> high2 i"
    and "iv_integer i \<Longrightarrow> iv_integer (refine_round i)"
proof -
  have "openmin i \<Longrightarrow> uint (iv_min i + 1) = uint (iv_min i) + 1"
    using assms by (simp add: nowrap_def uint_Suc_no_wrap)
  moreover have "openmax i \<Longrightarrow> uint (iv_max i - 1) = uint (iv_max i) - 1"
    using assms by (simp add: nowrap_def uint_pred_no_wrap)
  ultimately show "low2 i \<le> low2 (refine_round i)" "high2 (refine_round i) \<le> high2 i"
    "iv_integer i \<Longrightarrow> iv_integer (refine_round i)"
    by (auto simp: refine_round_def Let_def low2_def high2_def)
qed

lemma gauge_nonempty: "\<not> snd_interval_checkempty i \<Longrightarrow> low2 i \<le> high2 i"
  by (auto simp: snd_interval_checkempty_def low2_def high2_def word_less_def word_uint_eq_iff not_less of_bool_def)

lemma snd_interval_refine_gauge:
  assumes "nowrap i" "nowrap v"
  shows "0 < fst (snd_interval_refine i v) \<Longrightarrow> gauge (snd (snd_interval_refine i v)) < gauge i"
    and "fst (snd_interval_refine i v) = 0 \<Longrightarrow> gauge (snd (snd_interval_refine i v)) \<le> gauge i"
proof -
  let ?j = "(snd (refine_max (snd (refine_min i v)) v))\<lparr>iv_integer := iv_integer i \<or> iv_integer v\<rparr>"
  have nw: "nowrap ?j" using nowrap_refine_bounds [OF assms] by (simp add: nowrap_def)
  have j: "low2 ?j = max (low2 i) (low2 v)" "high2 ?j = min (high2 i) (high2 v)"
    using low2_refine_min(1) [of i v] high2_refine_max(1) [of "snd (refine_min i v)" v]
    by (simp_all add: low2_def high2_def)
  have m: "refine_meet i v = refine_round ?j" by (simp add: refine_meet_def)
  note g = refine_round_gauge [OF nw, folded m, unfolded j]
  have changed: "fst (snd_interval_refine i v) = of_bool (low2 i < low2 v \<or> high2 v < high2 i \<or>
      (\<not> iv_integer i \<and> iv_integer v))" and res: "snd (snd_interval_refine i v) = refine_meet i v"
    and "low2 (refine_meet i v) \<le> high2 (refine_meet i v)"
    if "0 \<le> fst (snd_interval_refine i v)"
    using that gauge_nonempty [of "refine_meet i v"]
    by (auto simp: refine_unfold low2_refine_min high2_refine_max split: if_splits)
  note facts = this
  show "gauge (snd (snd_interval_refine i v)) < gauge i" if "0 < fst (snd_interval_refine i v)"
    using that facts g by (auto simp: gauge_def simp del: of_bool_or_iff split: if_splits)
  show "gauge (snd (snd_interval_refine i v)) \<le> gauge i" if "fst (snd_interval_refine i v) = 0"
    using that facts g by (auto simp: gauge_def)
qed

lemma snd_interval_refine_same:
  assumes "nowrap i" "nowrap v" "fst (snd_interval_refine i v) = 0"
  shows "ival i \<subseteq> ival v"
proof -
  have ne: "\<not> snd_interval_checkempty (refine_meet i v)"
    and f: "\<not> low2 i < low2 v" "\<not> high2 v < high2 i" "iv_integer v \<longrightarrow> iv_integer i"
    using assms(3) by (auto simp: refine_unfold low2_refine_min high2_refine_max simp del: of_bool_or_iff split: if_splits)
  have "\<not> fst (refine_min i v)" "\<not> fst (refine_max i v)"
    using f by (simp_all add: low2_refine_min high2_refine_max)
  then have "snd (refine_min i v) = i" "snd (refine_max i v) = i"
    by (auto simp: refine_min_def refine_max_def split: if_splits)
  then have "lower i x \<longrightarrow> lower v x" "upper i x \<longrightarrow> upper v x" for x
    using lower_refine_min [of i v x] upper_refine_max [of i v x] by metis+
  then show ?thesis using f(3) by (auto simp: ival_def)
qed

interpretation interval_refiner: refiner nowrap ival gauge snd_interval_refine
proof
  fix i v assume w: "nowrap i" "nowrap v"
  show "ival (snd (snd_interval_refine i v)) = ival i \<inter> ival v"
    and "fst (snd_interval_refine i v) < 0 \<longleftrightarrow> ival i \<inter> ival v = {}"
    using snd_interval_refine_exact [OF w] by blast+
  show "nowrap (snd (snd_interval_refine i v))" if "0 \<le> fst (snd_interval_refine i v)"
    using that by (auto simp: refine_unfold nowrap_if_nonempty split: if_splits)
  show "ival i \<subseteq> ival v" if "fst (snd_interval_refine i v) = 0"
    using snd_interval_refine_same [OF w that] .
  show "gauge (snd (snd_interval_refine i v)) < gauge i" if "0 < fst (snd_interval_refine i v)"
    using snd_interval_refine_gauge(1) [OF w that] .
  show "gauge (snd (snd_interval_refine i v)) \<le> gauge i" if "fst (snd_interval_refine i v) = 0"
    using snd_interval_refine_gauge(2) [OF w that] .
qed

end
