(* ===== verification/Interval_Arith.thy ===== *)
theory Interval_Arith
  imports Interval
begin

text \<open>
  The arithmetic of \<^verbatim>\<open>pcm_lib.c\<close> on configuration intervals: the saturating helpers compute
  rounded quotients, the four products and quotients enclose the exact result for every
  choice of members, and the refinements by a list, by ranges and by a step keep what they
  should keep.
\<close>

section \<open>Quotients\<close>

text \<open>
  \<open>quot_ok N q r\<close>: the quotient \<open>q\<close> is the real number \<open>N\<close> rounded down and \<open>r\<close> is zero exactly
  when \<open>N\<close> is a whole number; or \<open>N\<close> does not fit in 32 bits and \<open>q\<close> is saturated.
\<close>

definition quot_ok :: "real \<Rightarrow> u32 \<Rightarrow> u32 \<Rightarrow> bool" where
  "quot_ok N q r \<longleftrightarrow>
     q = UINT_MAX \<and> r = 0 \<and> ru UINT_MAX \<le> N \<or>
     q \<noteq> UINT_MAX \<and> ru q \<le> N \<and> N < ru q + 1 \<and> (r = 0 \<longleftrightarrow> N = ru q)"

lemma quot_lower:
  assumes "quot_ok N q r" and "N \<le> z" and "s \<Longrightarrow> N < z" and "z < ru UINT_MAX"
  shows "if r \<noteq> 0 \<or> s then ru q < z else ru q \<le> z"
  using assms by (auto simp: quot_ok_def)

lemma quot_upper:
  assumes "quot_ok N q r" and "z \<le> N" and "s \<Longrightarrow> z < N" and "z < ru UINT_MAX"
  shows "if r \<noteq> 0 \<or> s then z < ru (if r \<noteq> 0 then q + 1 else q)
         else z \<le> ru (if r \<noteq> 0 then q + 1 else q)"
  using assms by (auto simp: quot_ok_def ru_Suc)

lemma nat_quot_real:
  assumes "0 < (d :: nat)"
  shows "real (n div d) \<le> real n / real d" and "real n / real d < real (n div d) + 1"
    and "n mod d = 0 \<longleftrightarrow> real n / real d = real (n div d)"
proof -
  have "n = n div d * d + n mod d" by simp
  then have N: "real n = real (n div d) * real d + real (n mod d)"
    by (metis of_nat_add of_nat_mult)
  have m: "real (n mod d) < real d" using assms by simp
  show "real (n div d) \<le> real n / real d" by (simp add: of_nat_div_le_of_nat)
  show "real n / real d < real (n div d) + 1"
    using assms m by (subst N) (simp add: field_simps)
  show "n mod d = 0 \<longleftrightarrow> real n / real d = real (n div d)"
    using assms by (subst N) (auto simp: field_simps)
qed

lemma quot_ok_nat:
  assumes "0 < d" and "unat q = n div d" and "unat r = n mod d"
  shows "quot_ok (real n / real d) q r \<or> q = UINT_MAX \<and> r \<noteq> 0"
proof -
  have q: "ru q = real (n div d)" using assms(2) by (simp add: ru_def)
  have r: "r = 0 \<longleftrightarrow> n mod d = 0" using assms(3) by (metis unat_eq_0)
  show ?thesis
    using nat_quot_real [OF assms(1), of n] q r by (auto simp: quot_ok_def)
qed

lemma div32_quot:
  assumes "b \<noteq> 0"
  shows "quot_ok (ru a / ru b) (fst (div32 a b)) (snd (div32 a b))"
proof -
  have b: "0 < unat b" using assms by (simp add: unat_gt_0)
  have "a div b = UINT_MAX \<Longrightarrow> a mod b = 0"
  proof -
    assume "a div b = UINT_MAX"
    then have q: "unat a div unat b = 4294967295"
      by (metis unat_div_distrib unat_UINT_MAX)
    then have "unat b * 4294967295 \<le> unat a" by (metis times_div_less_eq_dividend)
    then have "unat b = 1" using b u32_lt [of a] by simp
    then show "a mod b = 0" by (metis unat_mod_distrib unat_eq_0 mod_by_1 One_nat_def)
  qed
  moreover have "quot_ok (ru a / ru b) (a div b) (a mod b) \<or> a div b = UINT_MAX \<and> a mod b \<noteq> 0"
    unfolding ru_def by (rule quot_ok_nat [OF b]) (simp_all add: unat_div_distrib unat_mod_distrib)
  ultimately show ?thesis using assms by (auto simp: div32_def)
qed

lemma muldiv32_quot:
  assumes "c \<noteq> 0"
  shows "quot_ok (ru a * ru b / ru c) (fst (muldiv32 a b c)) (snd (muldiv32 a b c))"
proof -
  let ?n = "ucast a * ucast b :: u64" and ?N = "unat a * unat b"
  have c: "0 < unat c" using assms by (simp add: unat_gt_0)
  have "unat a * unat b \<le> 4294967295 * 4294967295" by (intro mult_le_mono u32_le_max)
  then have n: "unat ?n = ?N" by (simp add: unat_word_ariths unat_ucast_up)
  have q: "unat (?n div ucast c) = ?N div unat c" and r: "unat (?n mod ucast c) = ?N mod unat c"
    by (simp_all add: unat_div_distrib unat_mod_distrib unat_ucast_up n)
  have r': "unat (ucast (?n mod ucast c) :: u32) = ?N mod unat c"
    using r mod_less_divisor [OF c, of ?N] u32_lt [of c] by (simp add: unat_ucast_mod)
  have N: "ru a * ru b / ru c = real ?N / real (unat c)"
    unfolding ru_def by (simp only: of_nat_mult)
  have ge: "?n div ucast c \<ge> ucast UINT_MAX \<longleftrightarrow> 4294967295 \<le> ?N div unat c"
    by (simp add: word_le_nat_alt q unat_ucast_up)
  show ?thesis
  proof (cases "4294967295 \<le> ?N div unat c")
    case True
    then have "real 4294967295 \<le> real (?N div unat c)" by (simp only: of_nat_le_iff)
    then have "ru UINT_MAX \<le> real ?N / real (unat c)"
      using nat_quot_real(1) [OF c, of ?N] unfolding ru_def unat_UINT_MAX by linarith
    with True assms ge show ?thesis
      by (simp add: muldiv32_def div_u64_rem_eq quot_ok_def N)
  next
    case False
    then have q': "unat (ucast (?n div ucast c) :: u32) = ?N div unat c"
      using q by (simp add: unat_ucast_mod)
    then have "(ucast (?n div ucast c) :: u32) \<noteq> UINT_MAX"
      using False by (metis order_refl unat_UINT_MAX)
    then have "quot_ok (ru a * ru b / ru c) (ucast (?n div ucast c)) (ucast (?n mod ucast c))"
      using quot_ok_nat [OF c q' r'] N by auto
    with False assms ge show ?thesis by (simp add: muldiv32_def div_u64_rem_eq Let_def)
  qed
qed

lemma ru_mul: "ru (mul a b) = min (ru a * ru b) (ru UINT_MAX)"
proof (cases "a = 0")
  case True
  then show ?thesis by (simp add: mul_def)
next
  case False
  then have a: "0 < unat a" by (simp add: unat_gt_0)
  have "div_down UINT_MAX a < b \<longleftrightarrow> 4294967295 div unat a < unat b"
    using False by (simp add: div_down_def word_less_nat_alt unat_div_distrib)
  also have "\<dots> \<longleftrightarrow> 4294967295 < unat a * unat b"
    using a by (simp add: div_less_iff_less_mult mult.commute)
  finally have lt: "div_down UINT_MAX a < b \<longleftrightarrow> 4294967295 < unat a * unat b" .
  have N: "ru a * ru b = real (unat a * unat b)" unfolding ru_def by (simp only: of_nat_mult)
  have M: "ru UINT_MAX = real 4294967295" unfolding ru_def unat_UINT_MAX ..
  show ?thesis
  proof (cases "4294967295 < unat a * unat b")
    case True
    then have "ru UINT_MAX \<le> ru a * ru b" unfolding N M by (simp only: of_nat_le_iff)
    with True False lt show ?thesis by (simp add: mul_def min_def)
  next
    case False
    then have "ru a * ru b \<le> ru UINT_MAX" unfolding N M by (simp only: of_nat_le_iff not_less)
    moreover have "ru (a * b) = ru a * ru b"
      unfolding N using False by (simp add: ru_def unat_word_ariths)
    ultimately show ?thesis
      using False \<open>a \<noteq> 0\<close> lt by (simp add: mul_def min_def)
  qed
qed


section \<open>Products and quotients enclose the products and quotients of their members\<close>

lemma ival_lowerD: "x \<in> ival i \<Longrightarrow> ru (iv_min i) \<le> x" "x \<in> ival i \<Longrightarrow> openmin i \<Longrightarrow> ru (iv_min i) < x"
  by (auto simp: ival_def lower_def split: if_splits)

lemma ival_upperD: "x \<in> ival i \<Longrightarrow> x \<le> ru (iv_max i)" "x \<in> ival i \<Longrightarrow> openmax i \<Longrightarrow> x < ru (iv_max i)"
  by (auto simp: ival_def upper_def split: if_splits)

text \<open>Bounds of a product and of a quotient of positive members, strict where a bound is open.\<close>

lemma mult_lower:
  assumes "x \<in> ival a" "y \<in> ival b" "0 < x" "0 < y"
  shows "ru (iv_min a) * ru (iv_min b) \<le> x * y"
    and "openmin a \<or> openmin b \<Longrightarrow> ru (iv_min a) * ru (iv_min b) < x * y"
proof -
  note bnd = ival_lowerD(1) [OF assms(1)] ival_lowerD(1) [OF assms(2)]
  show "ru (iv_min a) * ru (iv_min b) \<le> x * y" using bnd assms by (intro mult_mono) auto
  show "ru (iv_min a) * ru (iv_min b) < x * y" if "openmin a \<or> openmin b"
    using that
  proof
    assume "openmin a"
    then have "ru (iv_min a) * y < x * y" using assms ival_lowerD(2) [OF assms(1)] by simp
    moreover have "ru (iv_min a) * ru (iv_min b) \<le> ru (iv_min a) * y" using bnd by (intro mult_left_mono) auto
    ultimately show ?thesis by linarith
  next
    assume "openmin b"
    then have "x * ru (iv_min b) < x * y" using assms ival_lowerD(2) [OF assms(2)] by simp
    moreover have "ru (iv_min a) * ru (iv_min b) \<le> x * ru (iv_min b)" using bnd by (intro mult_right_mono) auto
    ultimately show ?thesis by linarith
  qed
qed

lemma mult_upper:
  assumes "x \<in> ival a" "y \<in> ival b" "0 < x" "0 < y"
  shows "x * y \<le> ru (iv_max a) * ru (iv_max b)"
    and "openmax a \<or> openmax b \<Longrightarrow> x * y < ru (iv_max a) * ru (iv_max b)"
proof -
  note bnd = ival_upperD(1) [OF assms(1)] ival_upperD(1) [OF assms(2)]
  show "x * y \<le> ru (iv_max a) * ru (iv_max b)" using bnd assms by (intro mult_mono) auto
  show "x * y < ru (iv_max a) * ru (iv_max b)" if "openmax a \<or> openmax b"
    using that
  proof
    assume "openmax a"
    then show ?thesis using bnd assms ival_upperD(2) [OF assms(1)] by (intro mult_less_le_imp_less) auto
  next
    assume "openmax b"
    then show ?thesis using bnd assms ival_upperD(2) [OF assms(2)] by (intro mult_le_less_imp_less) auto
  qed
qed


lemma divide_lower:
  assumes "x \<in> ival a" "y \<in> ival b" "0 < x" "0 < y" "0 < k"
  shows "ru (iv_min a) * k / ru (iv_max b) \<le> x * k / y"
    and "openmin a \<or> openmax b \<Longrightarrow> ru (iv_min a) * k / ru (iv_max b) < x * k / y"
proof -
  have m: "ru (iv_min a) * k \<le> x * k" using ival_lowerD(1) [OF assms(1)] assms by simp
  have y: "y \<le> ru (iv_max b)" by (rule ival_upperD(1) [OF assms(2)])
  have le: "ru (iv_min a) * k / ru (iv_max b) \<le> x * k / ru (iv_max b)"
    using m y assms by (intro divide_right_mono) auto
  have le2: "x * k / ru (iv_max b) \<le> x * k / y"
    using y assms by (intro divide_left_mono mult_pos_pos) auto
  from le le2 show "ru (iv_min a) * k / ru (iv_max b) \<le> x * k / y" by linarith
  show "ru (iv_min a) * k / ru (iv_max b) < x * k / y" if "openmin a \<or> openmax b"
    using that
  proof
    assume "openmin a"
    then have "ru (iv_min a) * k / ru (iv_max b) < x * k / ru (iv_max b)"
      using ival_lowerD(2) [OF assms(1)] y assms by (intro divide_strict_right_mono) auto
    with le2 show ?thesis by linarith
  next
    assume "openmax b"
    then have "x * k / ru (iv_max b) < x * k / y"
      using ival_upperD(2) [OF assms(2)] assms y
      by (intro divide_strict_left_mono mult_pos_pos) auto
    with le show ?thesis by linarith
  qed
qed

lemma divide_upper:
  assumes "x \<in> ival a" "y \<in> ival b" "0 < x" "0 < y" "0 < k" "iv_min b \<noteq> 0"
  shows "x * k / y \<le> ru (iv_max a) * k / ru (iv_min b)"
    and "openmax a \<or> openmin b \<Longrightarrow> x * k / y < ru (iv_max a) * k / ru (iv_min b)"
proof -
  have m: "x * k \<le> ru (iv_max a) * k" using ival_upperD(1) [OF assms(1)] assms by simp
  have y: "ru (iv_min b) \<le> y" by (rule ival_lowerD(1) [OF assms(2)])
  have b: "0 < ru (iv_min b)" using assms by simp
  have le: "x * k / ru (iv_min b) \<le> ru (iv_max a) * k / ru (iv_min b)"
    using m b by (intro divide_right_mono) auto
  have le2: "x * k / y \<le> x * k / ru (iv_min b)"
    using y b assms by (intro divide_left_mono) auto
  from le le2 show "x * k / y \<le> ru (iv_max a) * k / ru (iv_min b)" by linarith
  show "x * k / y < ru (iv_max a) * k / ru (iv_min b)" if "openmax a \<or> openmin b"
    using that
  proof
    assume "openmax a"
    then have "x * k / ru (iv_min b) < ru (iv_max a) * k / ru (iv_min b)"
      using ival_upperD(2) [OF assms(1)] b assms by (intro divide_strict_right_mono) auto
    with le2 show ?thesis by linarith
  next
    assume "openmin b"
    then have "x * k / y < x * k / ru (iv_min b)"
      using ival_lowerD(2) [OF assms(2)] assms(3,5) mult_pos_pos [OF assms(4) b]
      by (intro divide_strict_left_mono) simp_all
    with le show ?thesis by linarith
  qed
qed

lemma interval_mul_encloses:
  assumes "x \<in> ival a" "y \<in> ival b" "0 < x" "0 < y" "\<not> iv_empty a" "\<not> iv_empty b"
    and "x * y < ru UINT_MAX"
  shows "x * y \<in> ival (snd_interval_mul a b c)"
proof -
  have "ru (mul (iv_min a) (iv_min b)) = ru (iv_min a) * ru (iv_min b)"
    using mult_lower(1) [OF assms(1-4)] assms(7) by (simp add: ru_mul min_def)
  moreover have "x * y \<in> \<int>" if "iv_integer a \<and> iv_integer b"
    using that assms(1,2) by (simp add: ival_def)
  ultimately show ?thesis
    using mult_lower [OF assms(1-4)] mult_upper [OF assms(1-4)] assms(5-7)
    by (simp add: snd_interval_mul_def ival_def lower_def upper_def ru_mul min_def)
qed

lemma ivalI:
  assumes "if openmin c then ru (iv_min c) < z else ru (iv_min c) \<le> z"
    and "if openmax c then z < ru (iv_max c) else z \<le> ru (iv_max c)" and "\<not> iv_integer c"
  shows "z \<in> ival c"
  using assms by (auto simp: ival_def lower_def upper_def)

lemma interval_muldivk_encloses:
  assumes "x \<in> ival a" "y \<in> ival b" "0 < x" "0 < y" "\<not> iv_empty a" "\<not> iv_empty b"
    and "k \<noteq> 0" and "x * y / ru k < ru UINT_MAX"
  shows "x * y / ru k \<in> ival (snd_interval_muldivk a b k c)"
proof -
  have k: "0 < ru k" using assms(7) by simp
  note lo = quot_lower [OF muldiv32_quot [OF assms(7)], of "iv_min a" "iv_min b" "x * y / ru k"
      "openmin a \<or> openmin b"]
  note hi = quot_upper [OF muldiv32_quot [OF assms(7)], of "x * y / ru k" "iv_max a" "iv_max b"
      "openmax a \<or> openmax b"]
  have c: "snd_interval_muldivk a b k c =
     (let (l, r) = muldiv32 (iv_min a) (iv_min b) k; (h, r') = muldiv32 (iv_max a) (iv_max b) k
      in \<lparr>iv_min = l, iv_max = (if r' \<noteq> 0 then h + 1 else h), openmin = r \<noteq> 0 \<or> openmin a \<or> openmin b,
          openmax = r' \<noteq> 0 \<or> openmax a \<or> openmax b, iv_integer = False, iv_empty = False\<rparr>)"
    using assms(5,6) by (simp add: snd_interval_muldivk_def case_prod_unfold Let_def)
  show ?thesis
    using lo hi mult_lower [OF assms(1-4)] mult_upper [OF assms(1-4)] k assms(8)
    by (intro ivalI) (auto simp: c Let_def case_prod_unfold divide_right_mono divide_strict_right_mono
        split: if_splits)
qed

lemma interval_mulkdiv_encloses:
  assumes "x \<in> ival a" "y \<in> ival b" "0 < x" "0 < y" "\<not> iv_empty a" "\<not> iv_empty b"
    and "k \<noteq> 0" and "x * ru k / y < ru UINT_MAX"
  shows "x * ru k / y \<in> ival (snd_interval_mulkdiv a k b c)"
proof -
  have k: "0 < ru k" using assms(7) by simp
  have "0 < ru (iv_max b)" using ival_upperD(1) [OF assms(2)] assms(4) by linarith
  then have b: "iv_max b \<noteq> 0" by simp
  note lo = quot_lower [OF muldiv32_quot [OF b], of "iv_min a" k "x * ru k / y"
      "openmin a \<or> openmax b"]
  note hi = quot_upper [OF muldiv32_quot, of "iv_min b" "x * ru k / y" "iv_max a" k
      "openmax a \<or> openmin b"]
  have c: "snd_interval_mulkdiv a k b c =
     (let (l, r) = muldiv32 (iv_min a) k (iv_max b); (h, r') = muldiv32 (iv_max a) k (iv_min b);
          pos = (iv_min b \<noteq> 0)
      in \<lparr>iv_min = l, iv_max = (if pos then if r' \<noteq> 0 then h + 1 else h else UINT_MAX),
          openmin = r \<noteq> 0 \<or> openmin a \<or> openmax b,
          openmax = pos \<and> (r' \<noteq> 0 \<or> openmax a \<or> openmin b), iv_integer = False, iv_empty = False\<rparr>)"
    using assms(5,6) by (simp add: snd_interval_mulkdiv_def case_prod_unfold Let_def word_neq_0_conv)
  show ?thesis
    using lo hi divide_lower [OF assms(1-4) k] divide_upper [OF assms(1-4) k] assms(8)
    by (intro ivalI) (auto simp: c Let_def case_prod_unfold split: if_splits)
qed

lemma interval_div_encloses:
  assumes "x \<in> ival a" "y \<in> ival b" "0 < x" "0 < y" "\<not> iv_empty a" "\<not> iv_empty b"
    and "x / y < ru UINT_MAX"
  shows "x / y \<in> ival (snd_interval_div a b c)"
proof -
  have "0 < ru (iv_max b)" using ival_upperD(1) [OF assms(2)] assms(4) by linarith
  then have b: "iv_max b \<noteq> 0" by simp
  note lo = quot_lower [OF div32_quot [OF b], of "iv_min a" "x / y" "openmin a \<or> openmax b"]
  note hi = quot_upper [OF div32_quot, of "iv_min b" "x / y" "iv_max a" "openmax a \<or> openmin b"]
  have c: "snd_interval_div a b c =
     (let (l, r) = div32 (iv_min a) (iv_max b); (h, r') = div32 (iv_max a) (iv_min b);
          pos = (iv_min b \<noteq> 0)
      in \<lparr>iv_min = l, iv_max = (if pos then if r' \<noteq> 0 then h + 1 else h else UINT_MAX),
          openmin = r \<noteq> 0 \<or> openmin a \<or> openmax b,
          openmax = pos \<and> (r' \<noteq> 0 \<or> openmax a \<or> openmin b), iv_integer = False, iv_empty = False\<rparr>)"
    using assms(5,6) by (simp add: snd_interval_div_def case_prod_unfold Let_def word_neq_0_conv)
  show ?thesis
    using lo hi divide_lower [OF assms(1-4), of 1] divide_upper [OF assms(1-4), of 1] assms(7)
    by (intro ivalI) (auto simp: c Let_def case_prod_unfold split: if_splits)
qed

section \<open>Refinement by a list of values\<close>

definition selected :: "snd_interval \<Rightarrow> u32 \<Rightarrow> nat \<Rightarrow> u32 list \<Rightarrow> u32 set" where
  "selected i msk k xs =
     {v. \<exists>j < length xs. v = xs ! j \<and> \<not> masked_out msk (k + j) \<and> snd_interval_test i (xs ! j)}"

lemma selected_Nil [simp]: "selected i msk k [] = {}"
  by (simp add: selected_def)

lemma selected_Cons [simp]:
  "selected i msk k (x # xs) =
     (if \<not> masked_out msk k \<and> snd_interval_test i x then insert x else id) (selected i msk (Suc k) xs)"
  by (auto simp: selected_def Ex_less_Suc2)

lemma finite_selected [simp]: "finite (selected i msk k xs)"
  by (rule finite_subset [of _ "set xs"]) (auto simp: selected_def)

lemma selected_test: "v \<in> selected i msk k xs \<Longrightarrow> snd_interval_test i v"
  by (auto simp: selected_def)

lemma list_range_eq:
  "list_range i msk k xs lo hi =
     (Min (insert lo (selected i msk k xs)), Max (insert hi (selected i msk k xs)))"
proof (induction i msk k xs lo hi rule: list_range.induct)
  case (2 i msk k x xs lo hi)
  let ?S = "selected i msk (Suc k) xs"
  have "Min (insert (min lo x) ?S) = Min (insert lo (insert x ?S))"
    by (cases "?S = {}") (simp_all add: min.assoc)
  moreover have "Max (insert (max hi x) ?S) = Max (insert hi (insert x ?S))"
    by (cases "?S = {}") (simp_all add: max.assoc)
  ultimately show ?case using 2 by simp
qed simp

lemma snd_interval_list_spec:
  assumes i: "nowrap i" and S: "S = selected i msk 0 xs"
  shows "fst (snd_interval_list i xs msk) < 0 \<longleftrightarrow> S = {}"
    and "S \<noteq> {} \<Longrightarrow> snd_interval_test (snd (snd_interval_list i xs msk)) v \<longleftrightarrow>
           snd_interval_test i v \<and> Min S \<le> v \<and> v \<le> Max S"
proof -
  let ?t = "snd_interval_any\<lparr>iv_min := Min (insert UINT_MAX S), iv_max := Max (insert 0 S)\<rparr>"
  have eq: "snd_interval_list i xs msk =
      (if xs = [] then (- EINVAL, i\<lparr>iv_empty := True\<rparr>) else snd_interval_refine i ?t)"
    by (simp add: snd_interval_list_def list_range_eq S)
  have fin: "finite S" by (simp add: S)
  have t: "nowrap ?t" by (simp add: nowrap_def snd_interval_any_def)
  have mem: "x \<in> ival ?t \<longleftrightarrow> ru (Min S) \<le> x \<and> x \<le> ru (Max S)" if "S \<noteq> {}" for x
    using that fin by (simp add: ival_def lower_def upper_def snd_interval_any_def min_def max_def)
  have "ival i \<inter> ival ?t = {} \<longleftrightarrow> S = {}"
  proof (cases "S = {}")
    case True
    then have "ival ?t = {}"
      by (auto simp: ival_def lower_def upper_def snd_interval_any_def ru_UINT_MAX simp del: of_ru)
    with True show ?thesis by simp
  next
    case False
    then have m: "Min S \<in> S" using fin by simp
    then have "ru (Min S) \<in> ival i" using selected_test [of "Min S" i msk 0 xs] S by (simp add: test_ival)
    moreover have "ru (Min S) \<in> ival ?t" 
      using m fin unfolding mem [OF False] by simp
    ultimately show ?thesis using False by blast
  qed
  with snd_interval_refine_exact(1) [OF i t] show "fst (snd_interval_list i xs msk) < 0 \<longleftrightarrow> S = {}"
    using S by (auto simp: eq)
  show "snd_interval_test (snd (snd_interval_list i xs msk)) v \<longleftrightarrow>
      snd_interval_test i v \<and> Min S \<le> v \<and> v \<le> Max S" if "S \<noteq> {}"
    using that S snd_interval_refine_exact(2) [OF i t] mem [OF that]
    by (auto simp: eq test_ival)
qed

section \<open>Refinement by ranges\<close>

lemma lower_range_merge: "lower (range_merge u r) x \<longleftrightarrow> lower u x \<or> lower r x"
  by (auto simp: range_merge_def Let_def lower_def to_ru simp del: of_ru)

lemma upper_range_merge: "upper (range_merge u r) x \<longleftrightarrow> upper u x \<or> upper r x"
  by (auto simp: range_merge_def Let_def upper_def to_ru simp del: of_ru)

lemma range_merge_frame [simp]: "iv_integer (range_merge u r) = iv_integer u"
  by (simp add: range_merge_def Let_def)

lemma nowrap_range_merge: "nowrap u \<Longrightarrow> nowrap r \<Longrightarrow> nowrap (range_merge u r)"
  by (auto simp: nowrap_def range_merge_def Let_def split: if_splits)

lemma refine_success:
  assumes "0 \<le> fst (snd_interval_refine r i)"
  shows "nowrap (snd (snd_interval_refine r i))"
    and "iv_empty (snd (snd_interval_refine r i)) = iv_empty r"
  using assms nowrap_if_nonempty [of "refine_meet r i"]
  by (auto simp: refine_unfold refine_meet_def Let_def split: if_splits)

text \<open>One element of the loop, as a step on the union.\<close>

definition range_acc :: "snd_interval \<Rightarrow> bool \<Rightarrow> snd_interval \<Rightarrow> snd_interval \<Rightarrow> snd_interval" where
  "range_acc i out r u =
     (if out \<or> fst (snd_interval_refine r i) < 0 \<or> iv_empty (snd (snd_interval_refine r i)) then u
      else range_merge u (snd (snd_interval_refine r i)))"

lemma range_union_Cons [simp]:
  "range_union i msk k (r # rs) u = range_union i msk (Suc k) rs (range_acc i (masked_out msk k) r u)"
  by (simp add: range_acc_def case_prod_unfold Let_def snd_interval_empty_def)

declare range_union.simps(2) [simp del]

lemma range_acc_frame:
  assumes "nowrap u"
  shows "nowrap (range_acc i out r u)" and "iv_integer (range_acc i out r u) = iv_integer u"
  using assms by (auto simp: range_acc_def nowrap_range_merge refine_success(1))

lemma range_acc_grows:
  "lower u x \<Longrightarrow> lower (range_acc i out r u) x" "upper u x \<Longrightarrow> upper (range_acc i out r u) x"
  by (auto simp: range_acc_def lower_range_merge upper_range_merge)

lemma range_acc_keeps:
  assumes "nowrap i" and "nowrap r" and "\<not> iv_empty r" and "x \<in> ival i" and "x \<in> ival r"
  shows "lower (range_acc i False r u) x \<and> upper (range_acc i False r u) x"
proof -
  have mem: "x \<in> ival (snd (snd_interval_refine r i))" and ok: "0 \<le> fst (snd_interval_refine r i)"
    using snd_interval_refine_exact [OF assms(2,1)] assms(4,5) by auto
  with refine_success(2) [OF ok] assms(3) show ?thesis
    by (auto simp: range_acc_def lower_range_merge upper_range_merge ival_def)
qed

lemma range_union_grows:
  "lower u x \<Longrightarrow> upper u x \<Longrightarrow>
   lower (range_union i msk k rs u) x \<and> upper (range_union i msk k rs u) x"
  by (induction rs arbitrary: k u) (auto simp: range_acc_grows)

lemma range_union_frame:
  "nowrap u \<Longrightarrow> nowrap (range_union i msk k rs u) \<and>
     iv_integer (range_union i msk k rs u) = iv_integer u"
  by (induction rs arbitrary: k u) (auto simp: range_acc_frame)

lemma range_union_keeps:
  assumes "nowrap i" and "x \<in> ival i"
    and "j < length rs" and "\<not> masked_out msk (k + j)"
    and "nowrap (rs ! j)" and "\<not> iv_empty (rs ! j)" and "x \<in> ival (rs ! j)"
  shows "lower (range_union i msk k rs u) x \<and> upper (range_union i msk k rs u) x"
  using assms(3-)
proof (induction rs arbitrary: j k u)
  case (Cons r rs)
  show ?case
  proof (cases j)
    case 0
    with Cons.prems range_acc_keeps [of i r x u] assms(1,2) show ?thesis
      by (simp add: range_union_grows)
  next
    case (Suc j')
    with Cons show ?thesis by simp
  qed
qed simp

lemma snd_interval_ranges_spec:
  assumes "nowrap i"
  shows "ival (snd (snd_interval_ranges i rs msk)) \<subseteq> ival i"
    and "j < length rs \<Longrightarrow> \<not> masked_out msk j \<Longrightarrow> nowrap (rs ! j) \<Longrightarrow> \<not> iv_empty (rs ! j) \<Longrightarrow>
         x \<in> ival i \<Longrightarrow> x \<in> ival (rs ! j) \<Longrightarrow>
         0 \<le> fst (snd_interval_ranges i rs msk) \<and> x \<in> ival (snd (snd_interval_ranges i rs msk))"
proof -
  let ?init = "snd_interval_any\<lparr>iv_min := UINT_MAX, iv_max := 0\<rparr>"
  let ?u = "range_union i msk 0 rs ?init"
  have u0: "nowrap ?init" "\<not> iv_integer ?init" by (simp_all add: nowrap_def snd_interval_any_def)
  have u: "nowrap ?u" "iv_integer ?u = iv_integer ?init"
    using range_union_frame [OF u0(1), of i msk 0 rs] by blast+
  note exact = snd_interval_refine_exact [OF assms u(1)]
  have none: "ival (snd_interval_none i) = ival i"
    by (simp add: ival_def lower_def upper_def snd_interval_none_def)
  show "ival (snd (snd_interval_ranges i rs msk)) \<subseteq> ival i"
    using exact(2) by (auto simp: snd_interval_ranges_def none)
  assume j: "j < length rs" "\<not> masked_out msk j" "nowrap (rs ! j)" "\<not> iv_empty (rs ! j)"
    and x: "x \<in> ival i" "x \<in> ival (rs ! j)"
  have "x \<in> ival ?u"
    using range_union_keeps [OF assms x(1) j(1) _ j(3,4) x(2), of msk 0 ?init] j(2) u(2) u0(2)
    by (simp add: ival_def)
  with exact x j(1) show "0 \<le> fst (snd_interval_ranges i rs msk) \<and> x \<in> ival (snd (snd_interval_ranges i rs msk))"
    by (auto simp: snd_interval_ranges_def not_less [symmetric])
qed

section \<open>Refinement to the first or the last value\<close>

lemma test_nat:
  "snd_interval_test i v \<longleftrightarrow>
     (if openmin i then unat (iv_min i) < unat v else unat (iv_min i) \<le> unat v) \<and>
     (if openmax i then unat v < unat (iv_max i) else unat v \<le> unat (iv_max i))"
  by (auto simp: snd_interval_test_def word_less_nat_alt word_unat_eq_iff)

lemma not_single_nat:
  assumes "\<not> snd_interval_checkempty i" and "\<not> snd_interval_single i"
  shows "unat (iv_min i) < unat (iv_max i)"
    and "openmin i \<or> openmax i \<Longrightarrow> Suc (unat (iv_min i)) < unat (iv_max i)"
    and "unat (iv_min i + 1) = Suc (unat (iv_min i))"
    and "unat (iv_max i - 1) = unat (iv_max i) - 1"
proof -
  show lt: "unat (iv_min i) < unat (iv_max i)"
    using assms by (auto simp: snd_interval_checkempty_def snd_interval_single_def
        word_less_nat_alt word_unat_eq_iff)
  then have "iv_min i \<noteq> UINT_MAX" using u32_le_max [of "iv_max i"] by auto
  then show s: "unat (iv_min i + 1) = Suc (unat (iv_min i))" by (rule unat_Suc_no_wrap)
  show "Suc (unat (iv_min i)) < unat (iv_max i)" if "openmin i \<or> openmax i"
    using that lt s assms(2) unfolding snd_interval_single_def
    by (metis Suc_lessI word_unat_eq_iff)
  have "iv_max i \<noteq> 0" using lt by auto
  then show "unat (iv_max i - 1) = unat (iv_max i) - 1" by (rule unat_pred_no_wrap)
qed

lemma refine_first_spec:
  assumes "\<not> snd_interval_checkempty i" and "\<not> snd_interval_single i"
  shows "fst (snd_interval_refine_first i) = 1"
    and "snd_interval_test (snd (snd_interval_refine_first i)) v \<longleftrightarrow>
           v = (if openmin i then iv_min i + 1 else iv_min i)"
  using assms(2) not_single_nat [OF assms]
  by (auto simp: snd_interval_refine_first_def Let_def test_nat word_le_nat_alt word_unat_eq_iff)

lemma refine_last_spec:
  assumes "\<not> snd_interval_checkempty i" and "\<not> snd_interval_single i"
  shows "fst (snd_interval_refine_last i) = 1"
    and "snd_interval_test (snd (snd_interval_refine_last i)) v \<longleftrightarrow>
           v = (if openmax i then iv_max i - 1 else iv_max i)"
  using assms(2) not_single_nat [OF assms]
  by (auto simp: snd_interval_refine_last_def Let_def test_nat word_le_nat_alt word_unat_eq_iff)

section \<open>Refinement to multiples of a step\<close>

lemma next_multiple:
  assumes "0 < (s :: nat)" and "s dvd v"
  shows "a < v \<longleftrightarrow> a + (s - a mod s) \<le> v" and "v \<le> b \<longleftrightarrow> v \<le> b - b mod s"
    and "s dvd a + (s - a mod s)" and "s dvd b - b mod s"
proof -
  from assms(2) obtain k where v: "v = s * k" ..
  have a: "a = s * (a div s) + a mod s" and lt: "a mod s < s" using assms(1) by auto
  have next_eq: "a + (s - a mod s) = s * Suc (a div s)" 
    using a lt by (metis Nat.add_diff_assoc add_diff_cancel_right' less_imp_le mult_Suc_right
        add.commute add.left_commute add.assoc)
  show "s dvd a + (s - a mod s)" unfolding next_eq by simp
  show "a < v \<longleftrightarrow> a + (s - a mod s) \<le> v"
    unfolding next_eq v using assms(1)
    by (simp only: mult_le_cancel1) (metis a div_less_iff_less_mult less_eq_Suc_le mult.commute)
  have b: "b - b mod s = s * (b div s)" by (simp add: minus_mod_eq_mult_div)
  show "s dvd b - b mod s" unfolding b by simp
  show "v \<le> b \<longleftrightarrow> v \<le> b - b mod s"
    unfolding b v using assms(1)
    by (simp only: mult_le_cancel1) (metis less_eq_div_iff_mult_less_eq mult.commute)
qed


lemma snd_interval_step_nat:
  assumes "step \<noteq> 0" and "unat (iv_min i) + unat step < 2 ^ 32"
  shows "unat (iv_min i + (step - iv_min i mod step)) =
      unat (iv_min i) + (unat step - unat (iv_min i) mod unat step)"
    and "unat (iv_max i - iv_max i mod step) = unat (iv_max i) - unat (iv_max i) mod unat step"
proof -
  have s: "0 < unat step" using assms(1) by (simp add: unat_gt_0)
  have "iv_min i mod step \<le> step"
    using s by (simp add: word_le_nat_alt unat_mod_distrib less_imp_le)
  then have "unat (step - iv_min i mod step) = unat step - unat (iv_min i) mod unat step"
    by (simp add: unat_sub unat_mod_distrib)
  with assms(2) show "unat (iv_min i + (step - iv_min i mod step)) =
      unat (iv_min i) + (unat step - unat (iv_min i) mod unat step)"
    by (simp add: unat_word_ariths)
  have "iv_max i mod step \<le> iv_max i" by (simp add: word_le_nat_alt unat_mod_distrib)
  then show "unat (iv_max i - iv_max i mod step) = unat (iv_max i) - unat (iv_max i) mod unat step"
    by (simp add: unat_sub unat_mod_distrib)
qed

lemma word_mod_0_iff: "(x :: u32) mod s = 0 \<longleftrightarrow> unat s dvd unat x"
  by (metis dvd_eq_mod_eq_0 unat_eq_0 unat_mod_distrib)

text \<open>The effect of a step, with the two remainders as arguments.\<close>

definition step_to :: "snd_interval \<Rightarrow> u32 \<Rightarrow> u32 \<Rightarrow> u32 \<Rightarrow> snd_interval" where
  "step_to i step n m =
     i\<lparr>iv_min := (if n \<noteq> 0 \<or> openmin i then iv_min i + (step - n) else iv_min i),
       openmin := False, iv_max := iv_max i - m, openmax := False\<rparr>"

lemma snd_interval_step_unfold:
  assumes "step \<noteq> 0" and "n = iv_min i mod step" and "m = iv_max i mod step"
  shows "snd_interval_step i step =
     Some (if snd_interval_checkempty (step_to i step n m)
           then (- EINVAL, (step_to i step n m)\<lparr>iv_empty := True\<rparr>)
           else (of_bool (n \<noteq> 0 \<or> openmin i \<or> m \<noteq> 0 \<or> openmax i), step_to i step n m))"
proof -
  note rem = assms(2) [symmetric] assms(3) [symmetric]
  have same: "i\<lparr>openmin := b\<rparr> = i" if "openmin i = b" for i :: snd_interval and b
    using that by (cases i) simp
  have same': "i\<lparr>openmax := b\<rparr> = i" if "openmax i = b" for i :: snd_interval and b
    using that by (cases i) simp
  show ?thesis
    using assms(1)
    by (cases "n \<noteq> 0 \<or> openmin i"; cases "m \<noteq> 0 \<or> openmax i")
      (simp_all add: snd_interval_step_def Let_def step_to_def rem same same')
qed

lemma snd_interval_step_spec:
  assumes "step \<noteq> 0" and "unat (iv_min i) + unat step < 2 ^ 32" and "v mod step = 0"
    and "snd_interval_step i step = Some (err, i')"
  shows "snd_interval_test i v \<Longrightarrow> 0 \<le> err \<and> snd_interval_test i' v"
    and "0 \<le> err \<Longrightarrow> snd_interval_test i' v \<longleftrightarrow>
           snd_interval_test i v \<or>
           openmax i \<and> v = iv_max i \<and> snd_interval_test (i\<lparr>openmax := False\<rparr>) v"
    and "iv_min i' mod step = 0 \<and> iv_max i' mod step = 0 \<and> \<not> openmin i' \<and> \<not> openmax i'"
proof -
  let ?j = "step_to i step (iv_min i mod step) (iv_max i mod step)"
  have s: "0 < unat step" using assms(1) by (simp add: unat_gt_0)
  have dvd: "unat step dvd unat v" using assms(3) by (simp add: word_mod_0_iff)
  note nm = next_multiple [OF s dvd] and nat = snd_interval_step_nat [OF assms(1,2)]
  have i': "(err, i') = (if snd_interval_checkempty ?j then (- EINVAL, ?j\<lparr>iv_empty := True\<rparr>)
      else (of_bool (iv_min i mod step \<noteq> 0 \<or> openmin i \<or> iv_max i mod step \<noteq> 0 \<or> openmax i), ?j))"
    using assms(4) snd_interval_step_unfold [OF assms(1) refl refl] by simp
  have mn: "iv_min ?j mod step = 0" and mx: "iv_max ?j mod step = 0"
    using nm(3) [of "unat (iv_min i)"] nm(4) [of "unat (iv_max i)"]
    by (auto simp: word_mod_0_iff nat step_to_def)
  have lo: "unat (iv_min ?j) \<le> unat v \<longleftrightarrow>
      (if openmin i then unat (iv_min i) < unat v else unat (iv_min i) \<le> unat v)"
    using nm(1) [of "unat (iv_min i)"] dvd
    by (auto simp: nat le_less word_mod_0_iff step_to_def)
  have hi: "unat v \<le> unat (iv_max ?j) \<longleftrightarrow> unat v \<le> unat (iv_max i)"
    using nm(2) [of "unat (iv_max i)"] by (simp add: nat step_to_def)
  have j: "snd_interval_test ?j v \<longleftrightarrow> snd_interval_test i v \<or>
           openmax i \<and> v = iv_max i \<and> snd_interval_test (i\<lparr>openmax := False\<rparr>) v"
    using lo hi by (auto simp: test_nat word_unat_eq_iff step_to_def)
  have ne: "snd_interval_test ?j v \<Longrightarrow> \<not> snd_interval_checkempty ?j"
    by (auto simp: test_nat snd_interval_checkempty_def word_less_nat_alt step_to_def)
  show "0 \<le> err \<and> snd_interval_test i' v" if "snd_interval_test i v"
    using that j ne i' by (auto split: if_splits)
  show "snd_interval_test i' v \<longleftrightarrow> snd_interval_test i v \<or>
           openmax i \<and> v = iv_max i \<and> snd_interval_test (i\<lparr>openmax := False\<rparr>) v" if "0 \<le> err"
    using that j i' by (auto split: if_splits)
  show "iv_min i' mod step = 0 \<and> iv_max i' mod step = 0 \<and> \<not> openmin i' \<and> \<not> openmax i'"
    using i' mn mx by (auto simp: step_to_def split: if_splits)
qed

section \<open>Rational rates\<close>

text \<open>
  A clock of a codec runs at \<^verbatim>\<open>num / den\<close> for a fixed \<^verbatim>\<open>num\<close> and the dividers from
  \<^verbatim>\<open>den_min\<close> to \<^verbatim>\<open>den_max\<close> in steps of \<^verbatim>\<open>den_step\<close>. \<open>ratnum_wf\<close> is what the drivers'
  tables satisfy; \<open>programmable r num den\<close> says that the clock \<open>r\<close> has that setting.
\<close>

definition ratnum_wf :: "snd_ratnum \<Rightarrow> bool" where
  "ratnum_wf r \<longleftrightarrow> den_step r \<noteq> 0 \<and> den_min r \<le> den_max r \<and>
     (unat (den_max r) - unat (den_min r)) mod unat (den_step r) = 0"

definition programmable :: "snd_ratnum \<Rightarrow> u32 \<Rightarrow> u32 \<Rightarrow> bool" where
  "programmable r num den \<longleftrightarrow> num = rn_num r \<and> den_min r \<le> den \<and> den \<le> den_max r \<and>
     (unat den - unat (den_min r)) mod unat (den_step r) = 0"

lemma programmable_ends:
  assumes "ratnum_wf r"
  shows "programmable r (rn_num r) (den_max r)" and "programmable r (rn_num r) (den_min r)"
  using assms by (auto simp: ratnum_wf_def programmable_def)

lemma programmable_round_down:
  assumes "ratnum_wf r" and "den_min r \<le> den" and "den \<le> den_max r"
  shows "programmable r (rn_num r) (den - (den - den_min r) mod den_step r)"
proof -
  let ?a = "unat (den_min r)" and ?s = "unat (den_step r)"
  have x: "unat (den - den_min r) = unat den - ?a" using assms(2) by (simp add: unat_sub)
  have s: "0 < ?s" using assms(1) by (simp add: ratnum_wf_def unat_gt_0)
  have le: "?a \<le> unat den" "unat den \<le> unat (den_max r)" using assms(2,3) by (simp_all add: word_le_nat_alt)
  have m: "(unat den - ?a) mod ?s \<le> unat den - ?a" by simp
  then have "(den - den_min r) mod den_step r \<le> den"
    using le(1) order_trans [OF m diff_le_self] by (simp add: word_le_nat_alt unat_mod_distrib x)
  then have d: "unat (den - (den - den_min r) mod den_step r) = unat den - (unat den - ?a) mod ?s"
    by (simp add: unat_sub unat_mod_distrib x)
  have "unat den - (unat den - ?a) mod ?s - ?a = (unat den - ?a) - (unat den - ?a) mod ?s" by simp
  then have "?s dvd unat den - (unat den - ?a) mod ?s - ?a"
    using next_multiple(4) [OF s dvd_refl, of "unat den - ?a"] by simp
  moreover from m le have "?a \<le> unat den - (unat den - ?a) mod ?s"
    and "unat den - (unat den - ?a) mod ?s \<le> unat (den_max r)" by linarith+
  ultimately show ?thesis by (simp add: programmable_def word_le_nat_alt d)
qed

lemma programmable_round_up:
  assumes "ratnum_wf r" and "den_min r \<le> den" and "den \<le> den_max r"
    and "(den - den_min r) mod den_step r \<noteq> 0"
  shows "programmable r (rn_num r) (den + (den_step r - (den - den_min r) mod den_step r))"
proof -
  let ?a = "unat (den_min r)" and ?s = "unat (den_step r)" and ?M = "unat (den_max r)"
  let ?x = "unat den - ?a"
  have x: "unat (den - den_min r) = ?x" using assms(2) by (simp add: unat_sub)
  have s: "0 < ?s" and M: "?s dvd ?M - ?a"
    using assms(1) by (simp_all add: ratnum_wf_def unat_gt_0 dvd_eq_mod_eq_0)
  have le: "?a \<le> unat den" "unat den \<le> ?M" using assms(2,3) by (simp_all add: word_le_nat_alt)
  have r: "unat ((den - den_min r) mod den_step r) = ?x mod ?s" by (simp add: unat_mod_distrib x)
  have "?x mod ?s \<noteq> 0" using assms(4) r by (metis unat_eq_0)
  with M le have "?x < ?M - ?a" by (metis diff_le_mono dvd_imp_mod_0 le_neq_implies_less)
  then have up: "?x + (?s - ?x mod ?s) \<le> ?M - ?a" using next_multiple(1) [OF s M] by simp
  have "(den - den_min r) mod den_step r \<le> den_step r"
    using s by (simp add: word_le_nat_alt r less_imp_le)
  then have "unat (den_step r - (den - den_min r) mod den_step r) = ?s - ?x mod ?s"
    by (simp add: unat_sub r)
  moreover have "unat den + (?s - ?x mod ?s) \<le> ?M" using up le by linarith
  ultimately have d: "unat (den + (den_step r - (den - den_min r) mod den_step r)) =
      unat den + (?s - ?x mod ?s)"
    using u32_lt [of "den_max r"] by (simp add: unat_word_ariths)
  have "unat den + (?s - ?x mod ?s) - ?a = ?x + (?s - ?x mod ?s)" using le by simp
  then have "?s dvd unat den + (?s - ?x mod ?s) - ?a"
    using next_multiple(3) [OF s dvd_refl, of ?x] by simp
  with \<open>unat den + (?s - ?x mod ?s) \<le> ?M\<close> le show ?thesis
    by (simp add: programmable_def word_le_nat_alt d)
qed

definition best_ok :: "snd_ratnum set \<Rightarrow> best \<Rightarrow> bool" where
  "best_ok R b \<longleftrightarrow> fst (snd b) = 0 \<or> (\<exists>r \<in> R. programmable r (fst b) (fst (snd b)))"

lemma better_ok:
  "best_ok R b \<Longrightarrow> r \<in> R \<Longrightarrow> programmable r num den \<Longrightarrow> best_ok R (better b num den diff)"
  by (auto simp: best_ok_def better_def Let_def split: prod.splits)

lemma ratnum_min_loop_ok:
  assumes "\<forall>r \<in> R. ratnum_wf r" and "set rats \<subseteq> R" and "best_ok R b"
  shows "\<exists>b'. ratnum_min_loop q rats b = Some b' \<and> best_ok R b'"
  using assms(2,3)
proof (induction rats arbitrary: b)
  case (Cons r rats)
  then have r: "r \<in> R" "ratnum_wf r" using assms(1) by auto
  then have s: "den_step r \<noteq> 0" by (simp add: ratnum_wf_def)
  have IH: "\<exists>b'. ratnum_min_loop q rats (better b num den diff) = Some b' \<and> best_ok R b'"
    if "programmable r num den" for num den diff
    using Cons.IH [of "better b num den diff"] Cons.prems better_ok [OF _ r(1) that] by auto
  have skip: "\<exists>b'. ratnum_min_loop q rats b = Some b' \<and> best_ok R b'" using Cons by auto
  show ?case
    using s skip IH [OF programmable_ends(1) [OF r(2)]]
      IH [OF programmable_round_down [OF r(2), of "div_up (rn_num r) q"]]
    by (simp add: Let_def not_less del: split_paired_Ex)
qed simp

lemma ratnum_max_loop_ok:
  assumes "\<forall>r \<in> R. ratnum_wf r" and "set rats \<subseteq> R" and "best_ok R b"
  shows "\<exists>b'. ratnum_max_loop q rats b = Some b' \<and> best_ok R b'"
  using assms(2,3)
proof (induction rats arbitrary: b)
  case (Cons r rats)
  then have r: "r \<in> R" "ratnum_wf r" using assms(1) by auto
  then have s: "den_step r \<noteq> 0" by (simp add: ratnum_wf_def)
  have IH: "\<exists>b'. ratnum_max_loop q rats (better b num den diff) = Some b' \<and> best_ok R b'"
    if "programmable r num den" for num den diff
    using Cons.IH [of "better b num den diff"] Cons.prems better_ok [OF _ r(1) that] by auto
  have skip: "\<exists>b'. ratnum_max_loop q rats b = Some b' \<and> best_ok R b'" using Cons by auto
  let ?d = "div_down (rn_num r) q"
  have "programmable r (rn_num r) ?d" if "den_min r \<le> ?d" "?d \<le> den_max r" "(?d - den_min r) mod den_step r = 0"
    using programmable_round_down [OF r(2) that(1,2)] that(3) by simp
  then show ?case
    using s skip IH [OF programmable_ends(2) [OF r(2)]]
      IH [OF programmable_round_up [OF r(2), of ?d]] IH [of "rn_num r" ?d]
    by (simp add: Let_def not_less del: split_paired_Ex)
qed simp

lemma ratnum_result:
  assumes "\<forall>r \<in> set rats. ratnum_wf r"
  shows "\<exists>err i' res. snd_interval_ratnum i rats = Some (err, i', res) \<and>
     (\<forall>num den. res = Some (num, den) \<longrightarrow> den \<noteq> 0 \<and> (\<exists>r \<in> set rats. programmable r num den))"
proof -
  have init: "best_ok (set rats) (0, 0, 0)" by (simp add: best_ok_def)
  obtain n d e where lo: "ratnum_min_loop (if iv_min i = 0 then 1 else iv_min i) rats (0, 0, 0) = Some (n, d, e)"
      "best_ok (set rats) (n, d, e)"
    using ratnum_min_loop_ok [OF assms subset_refl init] by (metis prod_cases3)
  obtain n' d' e' where hi: "ratnum_max_loop (iv_max i) rats (0, 0, 0) = Some (n', d', e')"
      "best_ok (set rats) (n', d', e')"
    using ratnum_max_loop_ok [OF assms subset_refl init] by (metis prod_cases3)
  show ?thesis
    using lo(2) hi(2)
    by (auto simp: snd_interval_ratnum_def lo(1) hi(1) Let_def best_ok_def case_prod_unfold)
qed

section \<open>Properties\<close>

text \<open>
  C37. \<^verbatim>\<open>snd_interval_refine\<close> computes the exact meet: it fails precisely when no real value
  lies in both intervals, and the interval it leaves stands for the values that lie in both.
  (\<open>nowrap\<close> excludes an open bound at the end of the 32-bit range.)
\<close>

theorem interval_refine_is_meet:
  assumes "nowrap i" and "nowrap v"
  shows "(fst (snd_interval_refine i v) < 0 \<longleftrightarrow> ival i \<inter> ival v = {}) \<and>
     ival (snd (snd_interval_refine i v)) = ival i \<inter> ival v"
  using interval_refiner.refine_error [OF assms] interval_refiner.refine_sem [OF assms] by blast

theorem interval_refine_is_meet_witness:
  "ival (snd (snd_interval_refine (snd_interval_any\<lparr>iv_min := 3\<rparr>) (snd_interval_any\<lparr>iv_max := 9, openmax := True\<rparr>))) =
   ival (snd_interval_any\<lparr>iv_min := 3\<rparr>) \<inter> ival (snd_interval_any\<lparr>iv_max := 9, openmax := True\<rparr>)"
  using interval_refine_is_meet [of "snd_interval_any\<lparr>iv_min := 3\<rparr>" "snd_interval_any\<lparr>iv_max := 9, openmax := True\<rparr>"]
  by (simp add: nowrap_def snd_interval_any_def)

text \<open>
  C38. Interval arithmetic encloses: for positive \<open>x\<close> in \<open>a\<close> and \<open>y\<close> in \<open>b\<close> whose product,
  quotient or scaled product is below \<^verbatim>\<open>UINT_MAX\<close>, the interval that \<^verbatim>\<open>snd_interval_mul\<close>,
  \<^verbatim>\<open>snd_interval_div\<close>, \<^verbatim>\<open>snd_interval_muldivk\<close> or \<^verbatim>\<open>snd_interval_mulkdiv\<close> writes to \<open>c\<close> contains
  the exact real result, whatever \<open>c\<close> held before.
\<close>

theorem interval_arith_encloses:
  assumes "x \<in> ival a" "y \<in> ival b" "0 < x" "0 < y" "\<not> iv_empty a" "\<not> iv_empty b"
  shows "(x * y < ru UINT_MAX \<longrightarrow> x * y \<in> ival (snd_interval_mul a b c)) \<and>
     (x / y < ru UINT_MAX \<longrightarrow> x / y \<in> ival (snd_interval_div a b c)) \<and>
     (k \<noteq> 0 \<and> x * y / ru k < ru UINT_MAX \<longrightarrow> x * y / ru k \<in> ival (snd_interval_muldivk a b k c)) \<and>
     (k \<noteq> 0 \<and> x * ru k / y < ru UINT_MAX \<longrightarrow> x * ru k / y \<in> ival (snd_interval_mulkdiv a k b c))"
  using interval_mul_encloses [OF assms] interval_div_encloses [OF assms]
    interval_muldivk_encloses [OF assms] interval_mulkdiv_encloses [OF assms] by blast

lemma any_ival: "0 \<le> x \<Longrightarrow> x \<le> ru UINT_MAX \<Longrightarrow> x \<in> ival snd_interval_any"
  by (simp add: ival_def lower_def upper_def snd_interval_any_def)

theorem interval_arith_encloses_witness:
  "(2 :: real) * 3 \<in> ival (snd_interval_mul snd_interval_any snd_interval_any snd_interval_any)"
  using interval_arith_encloses [of 2 snd_interval_any 3 snd_interval_any snd_interval_any 1]
    any_ival [of 2] any_ival [of 3]
  by (simp add: ru_UINT_MAX snd_interval_any_def)

text \<open>
  \<^verbatim>\<open>snd_interval_list\<close> fails precisely when no unmasked list element passes the interval's
  test; otherwise the new interval accepts the old values between the smallest and the largest
  such element.
\<close>

theorem interval_list_bounds:
  assumes "nowrap i" and "S = selected i msk 0 xs"
  shows "(fst (snd_interval_list i xs msk) < 0 \<longleftrightarrow> S = {}) \<and>
     (S \<noteq> {} \<longrightarrow> (snd_interval_test (snd (snd_interval_list i xs msk)) v \<longleftrightarrow>
           snd_interval_test i v \<and> Min S \<le> v \<and> v \<le> Max S))"
  using snd_interval_list_spec [OF assms] by blast

theorem interval_list_bounds_witness:
  "\<not> fst (snd_interval_list snd_interval_any [44100, 48000] 0) < 0"
proof -
  have "44100 \<in> selected snd_interval_any 0 0 [44100, 48000]"
    by (simp add: masked_out_def snd_interval_test_def snd_interval_any_def)
  then have "selected snd_interval_any 0 0 [44100, 48000] \<noteq> {}" by blast
  moreover have "nowrap snd_interval_any" by (simp add: nowrap_def snd_interval_any_def)
  ultimately show ?thesis using interval_list_bounds [OF _ refl] by blast
qed

text \<open>
  \<^verbatim>\<open>snd_interval_ranges\<close> only narrows the interval, and keeps every value that lies in
  an unmasked nonempty range of the list.
\<close>

theorem interval_ranges_sound:
  assumes "nowrap i"
  shows "ival (snd (snd_interval_ranges i rs msk)) \<subseteq> ival i \<and>
     (j < length rs \<and> \<not> masked_out msk j \<and> nowrap (rs ! j) \<and> \<not> iv_empty (rs ! j) \<and>
      x \<in> ival i \<and> x \<in> ival (rs ! j) \<longrightarrow>
        0 \<le> fst (snd_interval_ranges i rs msk) \<and> x \<in> ival (snd (snd_interval_ranges i rs msk)))"
  using snd_interval_ranges_spec [OF assms] by blast

theorem interval_ranges_sound_witness:
  "2 \<in> ival (snd (snd_interval_ranges snd_interval_any [snd_interval_any] 0))"
  using interval_ranges_sound [of snd_interval_any "[snd_interval_any]" 0 0 2] any_ival [of 2]
  by (simp add: nowrap_def ru_UINT_MAX masked_out_def)
     (simp add: snd_interval_any_def)

text \<open>
  \<^verbatim>\<open>snd_interval_step\<close> (below the wrap-around of the lower bound) never loses a multiple
  of the step that the interval accepted and leaves closed bounds that are multiples of the
  step; it accepts exactly the old multiples, except that an open upper bound that is itself a
  multiple of the step becomes a member.
\<close>

theorem interval_step_multiples:
  assumes "step \<noteq> 0" and "unat (iv_min i) + unat step < 2 ^ 32" and "v mod step = 0"
    and "snd_interval_step i step = Some (err, i')"
  shows "(snd_interval_test i v \<longrightarrow> 0 \<le> err) \<and>
     (0 \<le> err \<longrightarrow> (snd_interval_test i' v \<longleftrightarrow>
        snd_interval_test i v \<or> openmax i \<and> v = iv_max i \<and> snd_interval_test (i\<lparr>openmax := False\<rparr>) v)) \<and>
     iv_min i' mod step = 0 \<and> iv_max i' mod step = 0 \<and> \<not> openmin i' \<and> \<not> openmax i'"
  using snd_interval_step_spec [OF assms] by blast

theorem interval_step_multiples_witness:
  "\<exists>err i'. snd_interval_step (snd_interval_any\<lparr>iv_min := 1, iv_max := 8, openmax := True\<rparr>) 4 = Some (err, i') \<and>
     snd_interval_test i' 8 \<and>
     \<not> snd_interval_test (snd_interval_any\<lparr>iv_min := 1, iv_max := 8, openmax := True\<rparr>) 8"
proof -
  let ?i = "snd_interval_any\<lparr>iv_min := 1, iv_max := 8, openmax := True\<rparr>"
  have s: "snd_interval_step ?i 4 = Some (1, ?i\<lparr>iv_min := 4, openmax := False\<rparr>)"
    by (simp add: snd_interval_step_def snd_interval_any_def snd_interval_checkempty_def)
  then have "snd_interval_test (?i\<lparr>iv_min := 4, openmax := False\<rparr>) 8"
    using interval_step_multiples [of 4 ?i 8 1 "?i\<lparr>iv_min := 4, openmax := False\<rparr>"]
    by (simp add: snd_interval_any_def snd_interval_test_def)
  then show ?thesis using s by (simp add: snd_interval_test_def snd_interval_any_def)
qed

text \<open>
  \<^verbatim>\<open>snd_interval_ratnum\<close> with well-formed divider descriptions never traps, and a
  fraction it reports is one the hardware can be programmed to: a numerator of the list with a
  nonzero denominator of its range and step.
\<close>

theorem interval_ratnum_programmable:
  assumes "\<forall>r \<in> set rats. ratnum_wf r"
  shows "\<exists>err i' res. snd_interval_ratnum i rats = Some (err, i', res) \<and>
     (\<forall>num den. res = Some (num, den) \<longrightarrow> den \<noteq> 0 \<and> (\<exists>r \<in> set rats. programmable r num den))"
  using ratnum_result [OF assms] .

theorem interval_ratnum_programmable_witness:
  "\<exists>err i' res. snd_interval_ratnum snd_interval_any
     [\<lparr>rn_num = 48000, den_min = 1, den_max = 4, den_step = 1\<rparr>] = Some (err, i', res)"
  using interval_ratnum_programmable
    [of "[\<lparr>rn_num = 48000, den_min = 1, den_max = 4, den_step = 1\<rparr>]" snd_interval_any]
  by (auto simp: ratnum_wf_def)

text \<open>
  \<^verbatim>\<open>snd_interval_refine_first\<close> and \<^verbatim>\<open>snd_interval_refine_last\<close> leave, of an interval with
  more than one value, exactly its smallest and its largest integer value.
\<close>

theorem interval_refine_ends:
  assumes "\<not> snd_interval_checkempty i" and "\<not> snd_interval_single i"
  shows "(snd_interval_test (snd (snd_interval_refine_first i)) v \<longleftrightarrow>
        v = (if openmin i then iv_min i + 1 else iv_min i)) \<and>
     (snd_interval_test (snd (snd_interval_refine_last i)) v \<longleftrightarrow>
        v = (if openmax i then iv_max i - 1 else iv_max i))"
  using refine_first_spec(2) [OF assms] refine_last_spec(2) [OF assms] by blast

theorem interval_refine_ends_witness:
  "snd_interval_test (snd (snd_interval_refine_first snd_interval_any)) 0 \<and>
   snd_interval_test (snd (snd_interval_refine_last snd_interval_any)) UINT_MAX"
proof -
  have "\<not> snd_interval_checkempty snd_interval_any" "\<not> snd_interval_single snd_interval_any"
    by (simp_all add: snd_interval_checkempty_def snd_interval_single_def snd_interval_any_def)
  note e = interval_refine_ends [OF this]
  show ?thesis using e [of 0] e [of UINT_MAX] by (simp add: snd_interval_any_def)
qed

end
