(* ===== verification/Bitops.thy ===== *)
theory Bitops
  imports Prelude
begin

text \<open>
  Bit search: \<^verbatim>\<open>__ffs\<close>, \<^verbatim>\<open>__fls\<close> and \<^verbatim>\<open>fls\<close> of \<^verbatim>\<open>include/linux/bitops.h\<close>, the Watcom
  inline assembly of \<^verbatim>\<open>ffz\<close> in \<^verbatim>\<open>include/asm/bitops.h\<close>, and the four searches of
  \<^verbatim>\<open>lib32/find_next_bit.c\<close> over an array of 32-bit words. A bitmap is a list of words; a
  pointer into it is the list of the words from there on, and reading past the end (undefined
  in C) is \<open>None\<close>.
\<close>

section \<open>Bits of one word\<close>

text \<open>One stage of \<^verbatim>\<open>__ffs\<close>: skip \<open>n\<close> low bits that are all clear.\<close>

definition ffs_stage :: "nat \<Rightarrow> u32 \<times> nat \<Rightarrow> u32 \<times> nat" where
  "ffs_stage n s = (let (word, num) = s
     in if word AND mask n = 0 then (drop_bit n word, num + n) else (word, num))"

definition ffs_word :: "u32 \<Rightarrow> nat" where
  "ffs_word word =
     (let (word, num) = ffs_stage 2 (ffs_stage 4 (ffs_stage 8 (ffs_stage 16 (word, 0))))
      in if word AND 1 = 0 then num + 1 else num)"

text \<open>One stage of \<^verbatim>\<open>__fls\<close>: skip \<open>n\<close> high bits that are all clear.\<close>

definition fls_stage :: "nat \<Rightarrow> u32 \<times> nat \<Rightarrow> u32 \<times> nat" where
  "fls_stage n s = (let (word, num) = s
     in if word AND push_bit (32 - n) (- 1) = 0 then (push_bit n word, num - n) else (word, num))"

definition fls_word :: "u32 \<Rightarrow> nat" where
  "fls_word word =
     (let (word, num) = fls_stage 2 (fls_stage 4 (fls_stage 8 (fls_stage 16 (word, 31))))
      in if word AND push_bit 31 (- 1) = 0 then num - 1 else num)"

definition fls :: "u32 \<Rightarrow> nat" where
  "fls x =
     (if x = 0 then 0
      else
        let (x, r) = fls_stage 1 (fls_stage 2 (fls_stage 4 (fls_stage 8 (fls_stage 16 (x, 32)))))
        in r)"

text \<open>
  \<^verbatim>\<open>ffz\<close> is the single instruction \<^verbatim>\<open>bsf eax, ebx\<close>: it scans the argument itself, not its
  complement, for a set bit, and leaves the result undefined when there is none.
\<close>

definition ffz :: "u32 \<Rightarrow> nat option" where
  "ffz word = (if word = 0 then None else Some (ffs_word word))"

section \<open>Searches in an array\<close>

abbreviation low_mask :: u32 where
  "low_mask \<equiv> 31"

text \<open>The code at the label \<^verbatim>\<open>found_first\<close> of \<^verbatim>\<open>find_next_bit\<close>.\<close>

definition found_first :: "u32 \<Rightarrow> u32 \<Rightarrow> u32 \<Rightarrow> u32" where
  "found_first tmp result sz =
     (let tmp = tmp AND drop_bit (unat (32 - sz)) (- 1)
      in if tmp = 0 then result + sz else result + of_nat (ffs_word tmp))"

text \<open>The \<^verbatim>\<open>while\<close> loop over whole words and the final partial word.\<close>

fun find_bit_loop :: "u32 list \<Rightarrow> u32 \<Rightarrow> u32 \<Rightarrow> u32 option" where
  "find_bit_loop [] result sz =
     (if sz AND NOT low_mask \<noteq> 0 then None
      else if sz = 0 then Some result else None)"
| "find_bit_loop (w # p) result sz =
     (if sz AND NOT low_mask \<noteq> 0 then
        if w \<noteq> 0 then Some (result + of_nat (ffs_word w))
        else find_bit_loop p (result + 32) (sz - 32)
      else if sz = 0 then Some result
      else Some (found_first w result sz))"

definition find_next_bit :: "u32 list \<Rightarrow> u32 \<Rightarrow> u32 \<Rightarrow> u32 option" where
  "find_next_bit addr sz offset =
     (let p = drop (unat (offset div 32)) addr;
          result = offset AND NOT low_mask
      in if offset \<ge> sz then Some sz
         else
           let sz = sz - result; offset = offset mod 32
           in if offset \<noteq> 0 then
                (case p of
                   [] \<Rightarrow> None
                 | w # p \<Rightarrow>
                     let tmp = w AND push_bit (unat offset) (- 1)
                     in if sz < 32 then Some (found_first tmp result sz)
                        else if tmp \<noteq> 0 then Some (result + of_nat (ffs_word tmp))
                        else find_bit_loop p (result + 32) (sz - 32))
              else find_bit_loop p result sz)"

definition find_first_bit :: "u32 list \<Rightarrow> u32 \<Rightarrow> u32 option" where
  "find_first_bit addr sz = find_bit_loop addr 0 sz"

text \<open>The searches for a clear bit have the same shape, with \<^verbatim>\<open>ffz\<close> at the end.\<close>

definition found_zero :: "u32 \<Rightarrow> u32 \<Rightarrow> u32 option" where
  "found_zero tmp result = map_option (\<lambda>n. result + of_nat n) (ffz tmp)"

definition found_first_zero :: "u32 \<Rightarrow> u32 \<Rightarrow> u32 \<Rightarrow> u32 option" where
  "found_first_zero tmp result sz =
     (let tmp = tmp OR push_bit (unat sz) (- 1)
      in if tmp = - 1 then Some (result + sz) else found_zero tmp result)"

fun find_zero_loop :: "u32 list \<Rightarrow> u32 \<Rightarrow> u32 \<Rightarrow> u32 option" where
  "find_zero_loop [] result sz =
     (if sz AND NOT low_mask \<noteq> 0 then None
      else if sz = 0 then Some result else None)"
| "find_zero_loop (w # p) result sz =
     (if sz AND NOT low_mask \<noteq> 0 then
        if NOT w \<noteq> 0 then found_zero w result
        else find_zero_loop p (result + 32) (sz - 32)
      else if sz = 0 then Some result
      else found_first_zero w result sz)"

definition find_next_zero_bit :: "u32 list \<Rightarrow> u32 \<Rightarrow> u32 \<Rightarrow> u32 option" where
  "find_next_zero_bit addr sz offset =
     (let p = drop (unat (offset div 32)) addr;
          result = offset AND NOT low_mask
      in if offset \<ge> sz then Some sz
         else
           let sz = sz - result; offset = offset mod 32
           in if offset \<noteq> 0 then
                (case p of
                   [] \<Rightarrow> None
                 | w # p \<Rightarrow>
                     let tmp = w OR drop_bit (unat (32 - offset)) (- 1)
                     in if sz < 32 then found_first_zero tmp result sz
                        else if NOT tmp \<noteq> 0 then found_zero tmp result
                        else find_zero_loop p (result + 32) (sz - 32))
              else find_zero_loop p result sz)"

definition find_first_zero_bit :: "u32 list \<Rightarrow> u32 \<Rightarrow> u32 option" where
  "find_first_zero_bit addr sz = find_zero_loop addr 0 sz"

section \<open>Correctness of the word searches\<close>

lemma take_bit_0_iff: "take_bit n w = 0 \<longleftrightarrow> (\<forall>k<n. \<not> bit w k)" for w :: "'a::len word"
proof
  assume "take_bit n w = 0"
  then show "\<forall>k<n. \<not> bit w k" by (metis bit_0_eq bit_take_bit_iff bot_apply bot_bool_def)
next
  assume "\<forall>k<n. \<not> bit w k"
  then show "take_bit n w = 0" by (intro bit_eqI) (simp add: bit_take_bit_iff)
qed

definition ffs_inv :: "u32 \<Rightarrow> nat \<Rightarrow> u32 \<times> nat \<Rightarrow> bool" where
  "ffs_inv x n s \<longleftrightarrow>
     fst s = drop_bit (snd s) x \<and> (\<forall>k < snd s. \<not> bit x k) \<and> (\<exists>k<n. bit (fst s) k)"

lemma ffs_inv_step:
  assumes "ffs_inv x (2 * n) s"
  shows "ffs_inv x n (ffs_stage n s)"
proof (cases s)
  case (Pair w num)
  from assms have w: "w = drop_bit num x" and low: "\<forall>k<num. \<not> bit x k"
    and ex: "\<exists>k<2 * n. bit w k" by (auto simp: ffs_inv_def Pair)
  show ?thesis
  proof (cases "take_bit n w = 0")
    case True
    then have none: "\<not> bit w k" if "k < n" for k using that by (simp add: take_bit_0_iff)
    have "\<not> bit x k" if "k < num + n" for k
      using that low none [of "k - num"] by (cases "k < num") (auto simp: w bit_drop_bit_eq)
    moreover obtain k where "k < 2 * n" "bit w k" using ex by blast
    then have "k - n < n \<and> bit (drop_bit n w) (k - n)"
      using none [of k] by (cases "k < n") (auto simp: bit_drop_bit_eq)
    ultimately show ?thesis using True
      by (auto simp: ffs_inv_def ffs_stage_def Pair w take_bit_eq_mask [symmetric] ac_simps)
  next
    case False
    then show ?thesis using w low
      by (auto simp: ffs_inv_def ffs_stage_def Pair take_bit_eq_mask [symmetric] take_bit_0_iff)
  qed
qed

lemma ex_bit: "x \<noteq> 0 \<Longrightarrow> \<exists>k<32. bit x k" for x :: u32
  using bit_eqI [of x 0] by auto

lemma ffs_stages:
  assumes "x \<noteq> 0"
  shows "ffs_inv x (Suc 0) (ffs_stage (Suc 0) (ffs_stage 2 (ffs_stage 4 (ffs_stage 8 (ffs_stage 16 (x, 0))))))"
proof -
  have "ffs_inv x 32 (x, 0)" using ex_bit [OF assms] by (simp add: ffs_inv_def)
  from ffs_inv_step [of x 16, simplified, OF this]
  show ?thesis
    using ffs_inv_step [of x 8, simplified] ffs_inv_step [of x 4, simplified]
      ffs_inv_step [of x 2, simplified] ffs_inv_step [of x 1, simplified]
    by blast
qed

lemma ffs_word_stages:
  "ffs_word x = snd (ffs_stage (Suc 0) (ffs_stage 2 (ffs_stage 4 (ffs_stage 8 (ffs_stage 16 (x, 0))))))"
proof -
  define s where "s = ffs_stage 2 (ffs_stage 4 (ffs_stage 8 (ffs_stage 16 (x, 0))))"
  obtain w num where s: "s = (w, num)" by (cases s)
  show ?thesis
    by (simp add: ffs_word_def s_def [symmetric] s ffs_stage_def [of "Suc 0"])
qed

lemma ffs_word_bit:
  assumes "x \<noteq> 0"
  shows "bit x (ffs_word x)" and "k < ffs_word x \<Longrightarrow> \<not> bit x k"
proof -
  from ffs_stages [OF assms] obtain w where "ffs_inv x (Suc 0) (w, ffs_word x)"
    unfolding ffs_word_stages by (metis prod.collapse)
  then show "bit x (ffs_word x)" "k < ffs_word x \<Longrightarrow> \<not> bit x k"
    by (auto simp: ffs_inv_def bit_drop_bit_eq)
qed

lemma ffs_word_less: "x \<noteq> 0 \<Longrightarrow> ffs_word x < 32"
  using ffs_word_bit [of x] bit_imp_le_length [of x "ffs_word x"] by auto

definition fls_inv :: "u32 \<Rightarrow> nat \<Rightarrow> u32 \<times> nat \<Rightarrow> bool" where
  "fls_inv x n s \<longleftrightarrow>
     snd s < 32 \<and> fst s = push_bit (31 - snd s) x \<and> (\<forall>k > snd s. \<not> bit x k) \<and>
     (\<exists>k<32. 32 \<le> k + n \<and> bit (fst s) k)"

lemma high_clear_iff:
  "w AND NOT (mask m) = 0 \<longleftrightarrow> (\<forall>k<32. m \<le> k \<longrightarrow> \<not> bit w k)" for w :: u32
proof
  assume *: "w AND NOT (mask m) = 0"
  have "bit (w AND NOT (mask m)) k \<longleftrightarrow> m \<le> k \<and> bit w k" if "k < 32" for k
    using that by (auto simp: bit_and_iff bit_not_iff bit_mask_iff)
  then show "\<forall>k<32. m \<le> k \<longrightarrow> \<not> bit w k" using * by simp
next
  assume "\<forall>k<32. m \<le> k \<longrightarrow> \<not> bit w k"
  then show "w AND NOT (mask m) = 0"
    by (intro bit_eqI) (auto simp: bit_and_iff bit_not_iff bit_mask_iff)
qed

lemma fls_inv_room:
  assumes "fls_inv x (2 * n) (w, num)" and "w AND NOT (mask (32 - n)) = 0"
  shows "n \<le> num" and "\<exists>k. k + n < 32 \<and> 32 \<le> k + 2 * n \<and> bit w k"
proof -
  from assms obtain k where num: "num < 32" and w: "w = push_bit (31 - num) x"
    and k: "k < 32" "32 \<le> k + 2 * n" "bit w k"
    by (auto simp: fls_inv_def)
  have "\<not> 32 - n \<le> k" using assms k by (auto simp: high_clear_iff)
  then have kn: "k + n < 32" by linarith
  have "31 - num \<le> k" using k by (auto simp: w bit_push_bit_iff)
  then show "n \<le> num" using kn num by linarith
  show "\<exists>k. k + n < 32 \<and> 32 \<le> k + 2 * n \<and> bit w k" using kn k by blast
qed

lemma fls_inv_step:
  assumes inv: "fls_inv x (2 * n) s"
  shows "fls_inv x n (fls_stage n s)"
proof (cases s)
  case (Pair w num)
  from inv have num: "num < 32" and w: "w = push_bit (31 - num) x"
    and high: "\<forall>k>num. \<not> bit x k" by (auto simp: fls_inv_def Pair)
  show ?thesis
  proof (cases "w AND NOT (mask (32 - n)) = 0")
    case True
    then have none: "\<not> bit w j" if "32 - n \<le> j" "j < 32" for j
      using that by (simp add: high_clear_iff)
    obtain k where n: "n \<le> num" and k: "k + n < 32" "32 \<le> k + 2 * n" "bit w k"
      using fls_inv_room [OF inv [unfolded Pair] True] by blast
    have "\<not> bit x j" if "num - n < j" for j
    proof (cases "num < j")
      case False
      then have "\<not> bit w (j + (31 - num))" using that num n by (intro none) auto
      moreover have "j + (31 - num) < 32" using False num by linarith
      ultimately show ?thesis by (simp add: w bit_push_bit_iff)
    qed (use high in simp)
    moreover have "bit (push_bit n w) (k + n)" using k by (simp add: bit_push_bit_iff)
    moreover have "push_bit n w = push_bit (31 - (num - n)) x"
    proof -
      have "31 - (num - n) = n + (31 - num)" using n num by linarith
      then show ?thesis by (simp add: w push_bit_push_bit)
    qed
    ultimately show ?thesis using True num k
      by (auto simp: fls_inv_def fls_stage_def Pair intro!: exI [of _ "k + n"])
  next
    case False
    then show ?thesis using w high num
      by (auto simp: fls_inv_def fls_stage_def Pair high_clear_iff)
  qed
qed

text \<open>\<^verbatim>\<open>fls\<close> counts from one, \<^verbatim>\<open>__fls\<close> from zero: the stages stay one apart.\<close>

lemma fls_stage_Suc:
  assumes "fls_inv x (2 * n) (w, num)"
  shows "fls_stage n (w, Suc num) = apsnd Suc (fls_stage n (w, num))"
  using fls_inv_room(1) [OF assms] by (auto simp: fls_stage_def)

lemma fls_stage_apsnd:
  assumes "fls_inv x (2 * n) s"
  shows "fls_stage n (apsnd Suc s) = apsnd Suc (fls_stage n s)"
  using assms fls_stage_Suc by (cases s) simp

abbreviation fls_stages :: "u32 \<times> nat \<Rightarrow> u32 \<times> nat" where
  "fls_stages s \<equiv> fls_stage (Suc 0) (fls_stage 2 (fls_stage 4 (fls_stage 8 (fls_stage 16 s))))"

lemma fls_stages_inv:
  assumes "x \<noteq> 0"
  shows "fls_inv x (Suc 0) (fls_stages (x, 31))"
    and "fls_stages (x, 32) = apsnd Suc (fls_stages (x, 31))"
proof -
  have i16: "fls_inv x (2 * 16) (x, 31)" using ex_bit [OF assms] bit_imp_le_length [of x]
    by (force simp: fls_inv_def)
  have i8: "fls_inv x (2 * 8) (fls_stage 16 (x, 31))" using fls_inv_step [OF i16] by simp
  have i4: "fls_inv x (2 * 4) (fls_stage 8 (fls_stage 16 (x, 31)))"
    using fls_inv_step [OF i8] by simp
  have i2: "fls_inv x (2 * 2) (fls_stage 4 (fls_stage 8 (fls_stage 16 (x, 31))))"
    using fls_inv_step [OF i4] by simp
  have i1: "fls_inv x (2 * Suc 0) (fls_stage 2 (fls_stage 4 (fls_stage 8 (fls_stage 16 (x, 31)))))"
    using fls_inv_step [OF i2] by simp
  show "fls_inv x (Suc 0) (fls_stages (x, 31))" by (rule fls_inv_step [OF i1])
  have "(x, 32) = apsnd Suc (x, 31)" by simp
  then show "fls_stages (x, 32) = apsnd Suc (fls_stages (x, 31))"
    by (simp only: fls_stage_apsnd [OF i16] fls_stage_apsnd [OF i8] fls_stage_apsnd [OF i4]
        fls_stage_apsnd [OF i2] fls_stage_apsnd [OF i1])
qed

lemma fls_word_stages: "fls_word x = snd (fls_stages (x, 31))"
proof -
  define s where "s = fls_stage 2 (fls_stage 4 (fls_stage 8 (fls_stage 16 (x, 31))))"
  obtain w num where s: "s = (w, num)" by (cases s)
  show ?thesis
    by (simp add: fls_word_def s_def [symmetric] s fls_stage_def [of "Suc 0"])
qed

lemma fls_word_bit:
  assumes "x \<noteq> 0"
  shows "bit x (fls_word x)" and "fls_word x < k \<Longrightarrow> \<not> bit x k" and "fls_word x < 32"
proof -
  from fls_stages_inv(1) [OF assms] obtain w where i: "fls_inv x (Suc 0) (w, fls_word x)"
    unfolding fls_word_stages by (metis prod.collapse)
  then show "fls_word x < 32" "fls_word x < k \<Longrightarrow> \<not> bit x k" by (auto simp: fls_inv_def)
  from i obtain k where "k < 32" "32 \<le> Suc k" "bit (push_bit (31 - fls_word x) x) k"
    and "fls_word x < 32" by (auto simp: fls_inv_def)
  moreover from this have "k = 31" by linarith
  ultimately show "bit x (fls_word x)" by (auto simp: bit_push_bit_iff)
qed

lemma fls_eq: "fls x = (if x = 0 then 0 else Suc (fls_word x))"
  using fls_stages_inv(2) [of x]
  by (simp add: fls_def fls_word_stages split: prod.split) (metis snd_apsnd snd_conv)

section \<open>Correctness of the array searches\<close>

text \<open>Bit \<open>k\<close> of the bitmap, and the specification of a search in the range \<open>lo..<hi\<close>.\<close>

definition tbit :: "u32 list \<Rightarrow> nat \<Rightarrow> bool" where
  "tbit p k \<longleftrightarrow> bit (p ! (k div 32)) (k mod 32)"

definition least_set :: "u32 list \<Rightarrow> nat \<Rightarrow> nat \<Rightarrow> nat \<Rightarrow> bool" where
  "least_set p lo hi r \<longleftrightarrow>
     lo \<le> r \<and> r \<le> hi \<and> (\<forall>k. lo \<le> k \<and> k < r \<longrightarrow> \<not> tbit p k) \<and> (r < hi \<longrightarrow> tbit p r)"

lemma tbit_low: "k < 32 \<Longrightarrow> tbit (w # p) k = bit w k"
  by (simp add: tbit_def)

lemma tbit_high: "tbit (w # p) (k + 32) = tbit p k"
  by (simp add: tbit_def add.commute [of k])

lemma tbit_drop:
  assumes "32 * q \<le> k" and "k < 32 * length p"
  shows "tbit (drop q p) (k - 32 * q) = tbit p k"
proof -
  obtain j where j: "k = 32 * q + j" using assms(1) by (metis le_Suc_ex)
  have "q + j div 32 = k div 32" "j mod 32 = k mod 32" by (simp_all add: j)
  moreover have "q \<le> length p" using assms by linarith
  ultimately show ?thesis by (simp add: tbit_def j)
qed

lemma least_set_high:
  assumes "least_set p 0 n r" and "w = 0 \<or> lo = 32" and "lo \<le> 32"
  shows "least_set (w # p) lo (n + 32) (r + 32)"
proof -
  have "\<not> tbit (w # p) k" if "lo \<le> k" "k < r + 32" for k
  proof (cases "k < 32")
    case True then show ?thesis using assms that by (auto simp: tbit_low)
  next
    case False
    then have "tbit (w # p) k = tbit p (k - 32)" using tbit_high [of w p "k - 32"] by simp
    then show ?thesis using assms(1) that False by (auto simp: least_set_def)
  qed
  then show ?thesis using assms by (auto simp: least_set_def tbit_high)
qed

lemma high_part_iff: "s AND NOT low_mask = 0 \<longleftrightarrow> unat s < 32"
proof -
  have m: "low_mask = mask 5" by (simp add: mask_eq_exp_minus_1)
  have "s AND NOT (mask 5) = 0 \<longleftrightarrow> (\<forall>k<32. 5 \<le> k \<longrightarrow> \<not> bit s k)" by (rule high_clear_iff)
  also have "\<dots> \<longleftrightarrow> drop_bit 5 s = 0"
  proof
    assume *: "\<forall>k<32. 5 \<le> k \<longrightarrow> \<not> bit s k"
    have "\<not> bit s (5 + k)" for k
      using * bit_imp_le_length [of s "5 + k"] by auto
    then show "drop_bit 5 s = 0" by (intro bit_eqI) (simp add: bit_drop_bit_eq)
  next
    assume "drop_bit 5 s = 0"
    then have "\<not> bit (drop_bit 5 s) k" for k by simp
    then have none: "\<not> bit s (5 + k)" for k by (simp add: bit_drop_bit_eq)
    show "\<forall>k<32. 5 \<le> k \<longrightarrow> \<not> bit s k"
    proof (intro allI impI)
      fix k :: nat assume "5 \<le> k"
      then show "\<not> bit s k" using none [of "k - 5"] by simp
    qed
  qed
  also have "\<dots> \<longleftrightarrow> unat s div 32 = 0"
    using unat_drop_bit [of 5 s] by (simp add: word_unat_eq_iff)
  also have "\<dots> \<longleftrightarrow> unat s < 32" by (simp add: div_eq_0_iff)
  finally show ?thesis by (simp only: m)
qed

text \<open>The result of a search that finds its bit in the word \<open>w\<close>.\<close>

lemma least_set_word:
  assumes "w AND m \<noteq> 0" and "\<And>k. k < 32 \<Longrightarrow> bit m k \<longleftrightarrow> lo \<le> k" and "32 \<le> hi"
  shows "least_set (w # p) lo hi (ffs_word (w AND m))"
proof -
  let ?r = "ffs_word (w AND m)"
  have r: "?r < 32" using assms(1) by (rule ffs_word_less)
  have "bit (w AND m) ?r" using assms(1) by (rule ffs_word_bit)
  moreover have "\<not> bit (w AND m) k" if "k < ?r" for k by (rule ffs_word_bit(2) [OF assms(1) that])
  ultimately show ?thesis using r assms(2,3)
    by (auto simp: least_set_def tbit_low bit_and_iff)
qed

lemma unat_add_le: "unat a + unat b < 4294967296 \<Longrightarrow> unat (a + b) = unat a + unat (b :: u32)"
  by (subst unat_add_lem [THEN iffD1]) simp_all

lemma unat_add_of_nat: "unat a + n < 4294967296 \<Longrightarrow> unat (a + of_nat n :: u32) = unat a + n"
  using unat_add_le [of a "of_nat n"] by (simp add: unat_of_nat)

lemma found_first_spec:
  assumes n: "0 < unat sz" "unat sz < 32" and m: "\<And>k. k < 32 \<Longrightarrow> bit m k \<longleftrightarrow> lo \<le> k"
    and lo: "lo \<le> unat sz" and nowrap: "unat result + unat sz < 4294967296"
  shows "\<exists>r. unat (found_first (w AND m) result sz) = unat result + r \<and>
     least_set (w # p) lo (unat sz) r"
proof -
  define t where "t = (w AND m) AND drop_bit (unat (32 - sz)) (- 1 :: u32)"
  have d: "unat (32 - sz) = 32 - unat sz"
    using n by (subst unat_sub) (simp_all add: word_le_nat_alt)
  have bit_t: "bit t k \<longleftrightarrow> bit w k \<and> lo \<le> k \<and> k < unat sz" for k
  proof -
    have "bit (drop_bit (unat (32 - sz)) (- 1 :: u32)) k \<longleftrightarrow> k < unat sz"
      using n by (auto simp: bit_drop_bit_eq d bit_mask_iff)
    then show ?thesis using m [of k] n by (auto simp: t_def bit_and_iff)
  qed
  have ff: "found_first (w AND m) result sz =
      (if t = 0 then result + sz else result + of_nat (ffs_word t))"
    by (simp only: found_first_def t_def Let_def)
  show ?thesis
  proof (cases "t = 0")
    case True
    then have "\<not> bit w k" if "lo \<le> k" "k < unat sz" for k using bit_t [of k] that by simp
    then have "least_set (w # p) lo (unat sz) (unat sz)"
      using n lo by (auto simp: least_set_def tbit_low)
    then show ?thesis using True nowrap
      by (auto simp: ff unat_add_le)
  next
    case False
    note b = ffs_word_bit [OF False]
    have "ffs_word t < unat sz" using b(1) by (simp add: bit_t)
    moreover have "least_set (w # p) lo (unat sz) (ffs_word t)"
      using b n \<open>ffs_word t < unat sz\<close> by (auto simp: least_set_def tbit_low bit_t)
    ultimately show ?thesis using False nowrap
      by (auto simp: ff unat_add_of_nat)
  qed
qed

lemma find_bit_loop_spec:
  assumes "unat sz \<le> 32 * length p" and "unat result + unat sz < 4294967296"
  shows "\<exists>q r. find_bit_loop p result sz = Some q \<and> unat q = unat result + r \<and>
     least_set p 0 (unat sz) r"
  using assms
proof (induction p result sz rule: find_bit_loop.induct)
  case (1 result sz)
  then have "sz = 0" by (simp add: word_unat_eq_iff)
  then show ?case by (simp add: least_set_def)
next
  case (2 w p result sz)
  show ?case
  proof (cases "sz AND NOT low_mask = 0")
    case False
    then have big: "32 \<le> unat sz" unfolding high_part_iff by linarith
    show ?thesis
    proof (cases "w = 0")
      case True
      have "unat (sz - 32) = unat sz - 32" "unat (result + 32) = unat result + 32"
        using big 2(3) by (auto simp: unat_sub word_le_nat_alt unat_add_le)
      then obtain q r where "find_bit_loop p (result + 32) (sz - 32) = Some q"
        "unat q = unat result + 32 + r" "least_set p 0 (unat sz - 32) r"
        using 2(1) [OF False] 2(2,3) big True by fastforce
      then show ?thesis using False True big least_set_high [of p "unat sz - 32" r w 0]
        by (auto simp: add.commute [of 32])
    next
      case w: False
      have "least_set (w # p) 0 (unat sz) (ffs_word (w AND - 1))"
        using w big by (intro least_set_word) auto
      then show ?thesis using False w 2(3) big ffs_word_less [OF w]
        by (auto simp: unat_add_of_nat)
    qed
  next
    case True
    then have small: "unat sz < 32" unfolding high_part_iff .
    show ?thesis
    proof (cases "sz = 0")
      case False
      then have "0 < unat sz" by (simp add: unat_gt_0)
      then show ?thesis
        using found_first_spec [of sz "- 1" 0 result w p] small 2(3) True False by auto
    qed (simp add: least_set_def)
  qed
qed

lemma round_down: "unat (x AND NOT low_mask) = 32 * (unat x div 32)"
proof -
  have m: "low_mask = mask 5" by (simp add: mask_eq_exp_minus_1)
  have "x AND NOT (mask 5) = push_bit 5 (drop_bit 5 x)"
    by (intro bit_eqI) (auto simp: bit_and_iff bit_not_iff bit_mask_iff bit_push_bit_iff bit_drop_bit_eq)
  moreover have "unat (push_bit 5 (drop_bit 5 x)) = unat (drop_bit 5 x) * 2 ^ 5"
    using u32_lt [of x] by (intro unat_push_bit) (simp add: unat_drop_bit)
  ultimately show ?thesis using unat_drop_bit [of 5 x] by (simp only: m) simp
qed

lemma least_set_drop:
  assumes "least_set (drop q p) lo n r" and "32 * q + n \<le> 32 * length p"
  shows "least_set p (32 * q + lo) (32 * q + n) (32 * q + r)"
proof -
  have "tbit p k = tbit (drop q p) (k - 32 * q)" if "32 * q \<le> k" "k < 32 * q + n" for k
    using assms(2) that by (intro tbit_drop [symmetric]) auto
  then have t: "tbit p (32 * q + j) = tbit (drop q p) j" if "j < n" for j using that by simp
  have "\<not> tbit p k" if "32 * q + lo \<le> k" "k < 32 * q + r" for k
  proof -
    define j where "j = k - 32 * q"
    have k: "k = 32 * q + j" and j: "lo \<le> j" "j < r" using that by (simp_all add: j_def)
    then show ?thesis using t [of j] assms(1) by (auto simp: least_set_def)
  qed
  then show ?thesis using assms(1) t by (auto simp: least_set_def)
qed

text \<open>
  The partial first word of \<^verbatim>\<open>find_next_bit\<close>: the bits below the offset are masked, and the
  search goes on in the following words when the rest of the word is clear.
\<close>

lemma least_set_skip:
  assumes "w AND m = 0" and m: "\<And>k. k < 32 \<Longrightarrow> bit m k \<longleftrightarrow> lo \<le> k" and "lo \<le> 32"
    and "least_set p 0 n r"
  shows "least_set (w # p) lo (n + 32) (r + 32)"
proof -
  have low: "\<not> bit w k" if "lo \<le> k" "k < 32" for k
  proof -
    have "\<not> bit (w AND m) k" using assms(1) by simp
    then show ?thesis using m that by (simp add: bit_and_iff)
  qed
  have "\<not> tbit (w # p) k" if "lo \<le> k" "k < r + 32" for k
  proof (cases "k < 32")
    case True then show ?thesis using low that by (simp add: tbit_low)
  next
    case False
    then have "tbit (w # p) k = tbit p (k - 32)" using tbit_high [of w p "k - 32"] by simp
    then show ?thesis using assms(4) that False by (auto simp: least_set_def)
  qed
  then show ?thesis using assms(3,4) by (auto simp: least_set_def tbit_high)
qed

definition next_word :: "u32 list \<Rightarrow> u32 \<Rightarrow> u32 \<Rightarrow> nat \<Rightarrow> u32 option" where
  "next_word p result sz lo = (case p of [] \<Rightarrow> None
     | w # p \<Rightarrow> let tmp = w AND push_bit lo (- 1)
        in if sz < 32 then Some (found_first tmp result sz)
           else if tmp \<noteq> 0 then Some (result + of_nat (ffs_word tmp))
           else find_bit_loop p (result + 32) (sz - 32))"

lemma next_word_spec:
  assumes "unat sz \<le> 32 * length p" and "unat result + unat sz < 4294967296"
    and lo: "lo < 32" "lo < unat sz"
  shows "\<exists>q r. next_word p result sz lo = Some q \<and> unat q = unat result + r \<and>
     least_set p lo (unat sz) r"
proof -
  obtain w p' where p: "p = w # p'" using assms lo by (cases p) auto
  define m where "m = push_bit lo (- 1 :: u32)"
  have m: "bit m k \<longleftrightarrow> lo \<le> k" if "k < 32" for k
    using that by (auto simp: m_def bit_not_iff bit_mask_iff)
  have nw: "next_word p result sz lo =
      (if sz < 32 then Some (found_first (w AND m) result sz)
       else if w AND m \<noteq> 0 then Some (result + of_nat (ffs_word (w AND m)))
       else find_bit_loop p' (result + 32) (sz - 32))"
    by (simp only: next_word_def p list.case Let_def m_def)
  consider (small) "sz < 32" | (here) "\<not> sz < 32" "w AND m \<noteq> 0" | (later) "\<not> sz < 32" "w AND m = 0"
    by blast
  then show ?thesis
  proof cases
    case small
    then show ?thesis using found_first_spec [of sz m lo result w p'] m lo assms(2)
      unfolding nw by (auto simp: p word_less_nat_alt)
  next
    case here
    then have "least_set p lo (unat sz) (ffs_word (w AND m))"
      unfolding p using m by (intro least_set_word) (auto simp: word_less_nat_alt)
    then show ?thesis using here assms(2) ffs_word_less [OF here(2)]
      unfolding nw by (auto simp: unat_add_of_nat word_less_nat_alt)
  next
    case later
    then have big: "32 \<le> unat sz" by (simp add: word_less_nat_alt)
    then have e: "unat (sz - 32) = unat sz - 32" "unat (result + 32) = unat result + 32"
      using assms(2) by (auto simp: unat_sub word_le_nat_alt unat_add_le)
    obtain q r where "find_bit_loop p' (result + 32) (sz - 32) = Some q"
      "unat q = unat result + 32 + r" "least_set p' 0 (unat sz - 32) r"
    proof -
      have "unat sz - 32 \<le> 32 * length p'" using assms(1) by (simp add: p)
      then show thesis using find_bit_loop_spec [of "sz - 32" p' "result + 32"] assms(2) big that
        by (auto simp: e)
    qed
    then show ?thesis using later least_set_skip [of w m lo p' "unat sz - 32" r] m lo big
      unfolding nw by (auto simp: p add.commute [of 32])
  qed
qed

lemma find_next_bit_unfold:
  "find_next_bit addr sz offset =
     (let p = drop (unat offset div 32) addr; result = offset AND NOT low_mask
      in if offset \<ge> sz then Some sz
         else if unat offset mod 32 \<noteq> 0 then next_word p result (sz - result) (unat offset mod 32)
         else find_bit_loop p result (sz - result))"
proof -
  have "unat (offset div 32) = unat offset div 32" "unat (offset mod 32) = unat offset mod 32"
    by (simp_all add: unat_div unat_mod)
  moreover have "offset mod 32 = 0 \<longleftrightarrow> unat offset mod 32 = 0"
    by (simp add: word_unat_eq_iff unat_mod)
  ultimately show ?thesis by (simp only: find_next_bit_def next_word_def Let_def)
qed

lemma find_next_bit_least:
  assumes len: "unat sz \<le> 32 * length addr" and off: "offset < sz"
  shows "\<exists>q. find_next_bit addr sz offset = Some q \<and>
     least_set addr (unat offset) (unat sz) (unat q)"
proof -
  define res p lo where "res = offset AND NOT low_mask" and "p = drop (unat offset div 32) addr"
    and "lo = unat offset mod 32"
  have res: "unat res = 32 * (unat offset div 32)" by (simp only: res_def round_down)
  have o: "unat offset = unat res + lo" by (simp add: res lo_def)
  have less: "unat offset < unat sz" using off by (simp add: word_less_nat_alt)
  have s: "unat (sz - res) = unat sz - unat res"
    using less o by (intro unat_sub) (simp add: word_le_nat_alt)
  have lenp: "unat (sz - res) \<le> 32 * length p" using len by (simp add: s res p_def)
  have nowrap: "unat res + unat (sz - res) < 4294967296" using u32_lt [of sz] less o s by simp
  have fnb: "find_next_bit addr sz offset =
      (if lo \<noteq> 0 then next_word p res (sz - res) lo else find_bit_loop p res (sz - res))"
    using off unfolding find_next_bit_unfold Let_def res_def p_def lo_def not_le [symmetric]
    by (simp only: if_False)
  have "\<exists>q r. find_next_bit addr sz offset = Some q \<and> unat q = unat res + r \<and>
      least_set p lo (unat (sz - res)) r"
  proof (cases "lo = 0")
    case True
    then show ?thesis using find_bit_loop_spec [OF lenp nowrap] unfolding fnb by (simp only: simp_thms if_True if_False)
  next
    case False
    have "lo < 32" by (simp add: lo_def)
    moreover have "lo < unat (sz - res)" using less o s by linarith
    ultimately show ?thesis using next_word_spec [OF lenp nowrap] False unfolding fnb by (simp only: simp_thms if_True if_False)
  qed
  then obtain q r where q: "find_next_bit addr sz offset = Some q" "unat q = unat res + r"
    and l: "least_set p lo (unat (sz - res)) r" by blast
  have bound: "32 * (unat offset div 32) + unat (sz - res) \<le> 32 * length addr"
    using s res len less o by linarith
  have "least_set addr (unat res + lo) (unat res + unat (sz - res)) (unat res + r)"
    unfolding res by (rule least_set_drop) (use l bound in \<open>simp_all only: p_def\<close>)
  moreover have "unat res + unat (sz - res) = unat sz" using o less s by linarith
  ultimately have "least_set addr (unat offset) (unat sz) (unat q)" by (simp only: o q(2))
  then show ?thesis using q(1) by blast
qed

section \<open>The searches for a clear bit\<close>

lemma find_first_zero_bit_word:
  assumes "w \<noteq> - 1" and "32 \<le> sz"
  shows "find_first_zero_bit (w # p) sz = (if w = 0 then None else Some (of_nat (ffs_word w)))"
proof -
  have "NOT w \<noteq> 0" using assms(1) by (metis bit.double_compl bit.compl_zero)
  moreover have "\<not> sz AND NOT low_mask = 0"
    using assms(2) unfolding high_part_iff by (simp add: word_le_nat_alt)
  ultimately show ?thesis unfolding find_first_zero_bit_def find_zero_loop.simps found_zero_def ffz_def
    by (simp only: if_True simp_thms) simp
qed

section \<open>Properties\<close>

text \<open>
  \<^verbatim>\<open>find_next_bit\<close> never reads past a bitmap that covers \<open>sz\<close> bits and returns the least
  set bit at or after the offset, or \<open>sz\<close> when there is none.
\<close>

theorem find_next_bit_finds:
  assumes "unat sz \<le> 32 * length addr" and "offset < sz"
  shows "\<exists>q. find_next_bit addr sz offset = Some q \<and>
     unat offset \<le> unat q \<and> unat q \<le> unat sz \<and>
     (\<forall>k. unat offset \<le> k \<and> k < unat q \<longrightarrow> \<not> tbit addr k) \<and>
     (q \<noteq> sz \<longrightarrow> tbit addr (unat q))"
  using find_next_bit_least [OF assms] unfolding least_set_def
  by (metis le_neq_implies_less word_unat_eq_iff)

theorem find_next_bit_finds_witness:
  "\<exists>q. find_next_bit [0, 0x100] 64 3 = Some q \<and> 3 \<le> unat q \<and> unat q \<le> 64"
  using find_next_bit_finds [of 64 "[0, 0x100]" 3] by auto

text \<open>
  \<^verbatim>\<open>__ffs\<close>, \<^verbatim>\<open>__fls\<close> and \<^verbatim>\<open>fls\<close> find the lowest and the highest set bit of a nonzero word.
\<close>

theorem word_bit_searches:
  assumes "x \<noteq> 0"
  shows "bit x (ffs_word x) \<and> (\<forall>k. bit x k \<longrightarrow> ffs_word x \<le> k) \<and>
     bit x (fls_word x) \<and> (\<forall>k. bit x k \<longrightarrow> k \<le> fls_word x) \<and>
     fls x = Suc (fls_word x)"
  using ffs_word_bit [OF assms] fls_word_bit [OF assms] assms
  by (auto simp: fls_eq) (meson not_le)+

theorem word_bit_searches_witness:
  "bit (0x58 :: u32) (ffs_word 0x58) \<and> fls 0x58 = Suc (fls_word 0x58)"
  using word_bit_searches [of "0x58"] by simp

text \<open>
  The search for a clear bit does not work: because \<^verbatim>\<open>ffz\<close> scans the word and not its
  complement, \<^verbatim>\<open>find_first_zero_bit\<close> on a bitmap whose first word is neither empty nor full
  returns a bit that is set (and an undefined value when the word is empty).
\<close>

theorem find_first_zero_bit_wrong:
  assumes "w \<noteq> 0" and "w \<noteq> - 1" and "32 \<le> sz"
  shows "\<exists>q. find_first_zero_bit (w # p) sz = Some q \<and> tbit (w # p) (unat q)"
proof -
  have f: "ffs_word w < 32" using assms(1) by (rule ffs_word_less)
  then have "unat (of_nat (ffs_word w) :: u32) = ffs_word w" by (simp add: unat_of_nat)
  then show ?thesis using find_first_zero_bit_word [OF assms(2,3)] assms(1) f ffs_word_bit(1) [OF assms(1)]
    by (simp add: tbit_low)
qed

theorem find_first_zero_bit_wrong_witness:
  "\<exists>q. find_first_zero_bit [1] 32 = Some q \<and> tbit [1] (unat q)"
  using find_first_zero_bit_wrong [of 1 32 "[]"] by simp

end
