(* ===== verification/Mask.thy ===== *)
theory Mask
  imports Bitops Refiner
begin

text \<open>
  Configuration masks: \<^verbatim>\<open>struct snd_mask\<close> of \<^verbatim>\<open>uapi/sound/asound.h\<close> (an array of eight
  32-bit words, of which the inline operations of \<^verbatim>\<open>include/sound/pcm_params.h\<close> use the
  first \<^verbatim>\<open>SNDRV_MASK_SIZE\<close> = 2), with every operation of that header. The values of a mask
  are numbers below 64; \<open>mset_of\<close> is the set a mask stands for, and the lemmas show that the
  operations compute on that set: test, set, reset, intersection, minimum, maximum.
\<close>

section \<open>The structure and its inline operations\<close>

record snd_mask =
  bits :: "u32 list"

abbreviation (input) SNDRV_MASK_WORDS :: nat where "SNDRV_MASK_WORDS \<equiv> 8"
abbreviation (input) SNDRV_MASK_SIZE :: nat where "SNDRV_MASK_SIZE \<equiv> 2"
abbreviation (input) SNDRV_MASK_BITS :: nat where "SNDRV_MASK_BITS \<equiv> 64"

definition MASK_BIT :: "nat \<Rightarrow> u32" where
  "MASK_BIT i = push_bit (i mod 32) 1"

text \<open>A value indexes word \<^verbatim>\<open>i >> 5\<close>; the array has words for the values below 256.\<close>

definition snd_mask_none :: "snd_mask \<Rightarrow> snd_mask" where
  "snd_mask_none m = m\<lparr>bits := replicate SNDRV_MASK_WORDS 0\<rparr>"

definition snd_mask_any :: "snd_mask \<Rightarrow> snd_mask" where
  "snd_mask_any m = m\<lparr>bits := replicate SNDRV_MASK_SIZE (- 1) @ drop SNDRV_MASK_SIZE (bits m)\<rparr>"

definition snd_mask_empty :: "snd_mask \<Rightarrow> bool" where
  "snd_mask_empty m \<longleftrightarrow> (\<forall>i<SNDRV_MASK_SIZE. bits m ! i = 0)"

text \<open>The scans of \<^verbatim>\<open>snd_mask_min\<close> (upwards from \<open>i\<close>) and \<^verbatim>\<open>snd_mask_max\<close> (downwards).\<close>

fun mask_min_from :: "u32 list \<Rightarrow> nat \<Rightarrow> nat" where
  "mask_min_from [] i = 0"
| "mask_min_from (w # ws) i = (if w \<noteq> 0 then ffs_word w + 32 * i else mask_min_from ws (Suc i))"

fun mask_max_below :: "u32 list \<Rightarrow> nat \<Rightarrow> nat" where
  "mask_max_below bs 0 = 0"
| "mask_max_below bs (Suc i) =
     (if bs ! i \<noteq> 0 then fls_word (bs ! i) + 32 * i else mask_max_below bs i)"

definition snd_mask_min :: "snd_mask \<Rightarrow> nat" where
  "snd_mask_min m = mask_min_from (take SNDRV_MASK_SIZE (bits m)) 0"

definition snd_mask_max :: "snd_mask \<Rightarrow> nat" where
  "snd_mask_max m = mask_max_below (bits m) SNDRV_MASK_SIZE"

definition snd_mask_set :: "snd_mask \<Rightarrow> nat \<Rightarrow> snd_mask" where
  "snd_mask_set m val = m\<lparr>bits := (bits m)[val div 32 := bits m ! (val div 32) OR MASK_BIT val]\<rparr>"

definition snd_mask_set_format :: "snd_mask \<Rightarrow> nat \<Rightarrow> snd_mask" where
  "snd_mask_set_format m format = snd_mask_set m format"

definition snd_mask_reset :: "snd_mask \<Rightarrow> nat \<Rightarrow> snd_mask" where
  "snd_mask_reset m val =
     m\<lparr>bits := (bits m)[val div 32 := bits m ! (val div 32) AND NOT (MASK_BIT val)]\<rparr>"

text \<open>\<^verbatim>\<open>for (i = from; i <= to; i++)\<close>\<close>

definition snd_mask_set_range :: "snd_mask \<Rightarrow> nat \<Rightarrow> nat \<Rightarrow> snd_mask" where
  "snd_mask_set_range m lo hi = fold (\<lambda>i m. snd_mask_set m i) [lo..<Suc hi] m"

definition snd_mask_reset_range :: "snd_mask \<Rightarrow> nat \<Rightarrow> nat \<Rightarrow> snd_mask" where
  "snd_mask_reset_range m lo hi = fold (\<lambda>i m. snd_mask_reset m i) [lo..<Suc hi] m"

definition snd_mask_leave :: "snd_mask \<Rightarrow> nat \<Rightarrow> snd_mask" where
  "snd_mask_leave m val =
     (let v = bits m ! (val div 32) AND MASK_BIT val;
          m = snd_mask_none m
      in m\<lparr>bits := (bits m)[val div 32 := v]\<rparr>)"

definition snd_mask_intersect :: "snd_mask \<Rightarrow> snd_mask \<Rightarrow> snd_mask" where
  "snd_mask_intersect m v =
     m\<lparr>bits := map2 (AND) (take SNDRV_MASK_SIZE (bits m)) (take SNDRV_MASK_SIZE (bits v)) @
               drop SNDRV_MASK_SIZE (bits m)\<rparr>"

definition snd_mask_eq :: "snd_mask \<Rightarrow> snd_mask \<Rightarrow> bool" where
  "snd_mask_eq m v \<longleftrightarrow> take SNDRV_MASK_SIZE (bits m) = take SNDRV_MASK_SIZE (bits v)"

definition snd_mask_copy :: "snd_mask \<Rightarrow> snd_mask \<Rightarrow> snd_mask" where
  "snd_mask_copy m v = v"

definition snd_mask_test :: "snd_mask \<Rightarrow> nat \<Rightarrow> bool" where
  "snd_mask_test m val \<longleftrightarrow> bits m ! (val div 32) AND MASK_BIT val \<noteq> 0"

definition snd_mask_test_format :: "snd_mask \<Rightarrow> nat \<Rightarrow> bool" where
  "snd_mask_test_format m format \<longleftrightarrow> snd_mask_test m format"

text \<open>The loop of \<^verbatim>\<open>snd_mask_single\<close>, with its counter \<open>c\<close> of nonzero words.\<close>

fun mask_single_loop :: "u32 list \<Rightarrow> nat \<Rightarrow> bool" where
  "mask_single_loop [] c = True"
| "mask_single_loop (w # ws) c =
     (if w = 0 then mask_single_loop ws c
      else if w AND (w - 1) \<noteq> 0 then False
      else if c \<noteq> 0 then False
      else mask_single_loop ws (Suc c))"

definition snd_mask_single :: "snd_mask \<Rightarrow> bool" where
  "snd_mask_single m = mask_single_loop (take SNDRV_MASK_SIZE (bits m)) 0"

definition snd_mask_refine :: "snd_mask \<Rightarrow> snd_mask \<Rightarrow> int \<times> snd_mask" where
  "snd_mask_refine m v =
     (let old = m; m = snd_mask_intersect m v
      in if snd_mask_empty m then (- EINVAL, m) else (of_bool (\<not> snd_mask_eq m old), m))"

definition snd_mask_refine_first :: "snd_mask \<Rightarrow> int \<times> snd_mask" where
  "snd_mask_refine_first m =
     (if snd_mask_single m then (0, m) else (1, snd_mask_leave m (snd_mask_min m)))"

definition snd_mask_refine_last :: "snd_mask \<Rightarrow> int \<times> snd_mask" where
  "snd_mask_refine_last m =
     (if snd_mask_single m then (0, m) else (1, snd_mask_leave m (snd_mask_max m)))"

definition snd_mask_refine_min :: "snd_mask \<Rightarrow> nat \<Rightarrow> int \<times> snd_mask" where
  "snd_mask_refine_min m val =
     (if snd_mask_min m \<ge> val then (0, m)
      else let m = snd_mask_reset_range m 0 (val - 1)
           in if snd_mask_empty m then (- EINVAL, m) else (1, m))"

definition snd_mask_refine_max :: "snd_mask \<Rightarrow> nat \<Rightarrow> int \<times> snd_mask" where
  "snd_mask_refine_max m val =
     (if snd_mask_max m \<le> val then (0, m)
      else let m = snd_mask_reset_range m (val + 1) SNDRV_MASK_BITS
           in if snd_mask_empty m then (- EINVAL, m) else (1, m))"

definition snd_mask_refine_set :: "snd_mask \<Rightarrow> nat \<Rightarrow> int \<times> snd_mask" where
  "snd_mask_refine_set m val =
     (let changed = \<not> snd_mask_single m; m = snd_mask_leave m val
      in if snd_mask_empty m then (- EINVAL, m) else (of_bool changed, m))"

definition snd_mask_value :: "snd_mask \<Rightarrow> nat" where
  "snd_mask_value m = snd_mask_min m"

section \<open>The set a mask stands for\<close>

definition wf_mask :: "snd_mask \<Rightarrow> bool" where
  "wf_mask m \<longleftrightarrow> length (bits m) = SNDRV_MASK_WORDS"

definition mset_of :: "snd_mask \<Rightarrow> nat set" where
  "mset_of m = {k. k < SNDRV_MASK_BITS \<and> tbit (bits m) k}"

lemma mset_of_finite [simp]: "finite (mset_of m)"
  by (simp add: mset_of_def)

lemma div_32_less_2: "k < 64 \<Longrightarrow> k div 32 < (2 :: nat)"
  by (simp add: div_less_iff_less_mult)

lemma div_32_less_8: "k < 256 \<Longrightarrow> k div 32 < (8 :: nat)"
  by (simp add: div_less_iff_less_mult)

lemma div_mod_32_eq: "k div 32 = v div 32 \<Longrightarrow> k mod 32 = v mod 32 \<longleftrightarrow> k = (v :: nat)"
  by (metis div_mult_mod_eq)

lemma bit_MASK_BIT: "bit (MASK_BIT v) k \<longleftrightarrow> k = v mod 32"
  by (auto simp: MASK_BIT_def bit_exp_iff possible_bit_word)

lemma and_MASK_BIT_iff: "w AND MASK_BIT v \<noteq> 0 \<longleftrightarrow> bit w (v mod 32)"
  by (simp add: MASK_BIT_def bit_iff_and_push_bit_not_eq_0)

lemma snd_mask_test_tbit: "snd_mask_test m v \<longleftrightarrow> tbit (bits m) v"
  by (simp add: snd_mask_test_def and_MASK_BIT_iff tbit_def)

lemma snd_mask_test_iff: "v < SNDRV_MASK_BITS \<Longrightarrow> snd_mask_test m v \<longleftrightarrow> v \<in> mset_of m"
  by (simp add: mset_of_def snd_mask_test_tbit)

lemma tbit_set:
  assumes "wf_mask m" "v < 256" "k < 256"
  shows "tbit (bits (snd_mask_set m v)) k \<longleftrightarrow> k = v \<or> tbit (bits m) k"
    and "tbit (bits (snd_mask_reset m v)) k \<longleftrightarrow> k \<noteq> v \<and> tbit (bits m) k"
  using assms div_32_less_8 [of v] div_mod_32_eq [of k v]
  by (auto simp: snd_mask_set_def snd_mask_reset_def tbit_def wf_mask_def nth_list_update
      bit_or_iff bit_and_iff bit_not_iff bit_MASK_BIT)

lemma wf_mask_ops [simp, wf_intros]:
  "wf_mask (snd_mask_none m)"
  "wf_mask m \<Longrightarrow> wf_mask (snd_mask_any m)"
  "wf_mask m \<Longrightarrow> wf_mask (snd_mask_set m v)"
  "wf_mask m \<Longrightarrow> wf_mask (snd_mask_reset m v)"
  "wf_mask m \<Longrightarrow> wf_mask v' \<Longrightarrow> wf_mask (snd_mask_intersect m v')"
  "wf_mask (snd_mask_leave m v)"
  by (simp_all add: wf_mask_def snd_mask_none_def snd_mask_any_def snd_mask_set_def
      snd_mask_reset_def snd_mask_intersect_def snd_mask_leave_def Let_def)

lemma mset_of_set: "wf_mask m \<Longrightarrow> v < SNDRV_MASK_BITS \<Longrightarrow> mset_of (snd_mask_set m v) = insert v (mset_of m)"
  by (auto simp: mset_of_def tbit_set)

lemma mset_of_reset: "wf_mask m \<Longrightarrow> v < 256 \<Longrightarrow> mset_of (snd_mask_reset m v) = mset_of m - {v}"
  by (auto simp: mset_of_def tbit_set)

lemma mset_of_set_range:
  assumes "wf_mask m" and "hi < SNDRV_MASK_BITS"
  shows "wf_mask (snd_mask_set_range m lo hi)"
    and "mset_of (snd_mask_set_range m lo hi) = mset_of m \<union> {lo..hi}"
proof -
  have "wf_mask (fold (\<lambda>i m. snd_mask_set m i) xs m) \<and>
      mset_of (fold (\<lambda>i m. snd_mask_set m i) xs m) = mset_of m \<union> set xs"
    if "\<And>x. x \<in> set xs \<Longrightarrow> x < 64" for xs
    using assms(1) that by (induction xs arbitrary: m) (auto simp: mset_of_set)
  moreover have "x \<in> set [lo..<Suc hi] \<Longrightarrow> x < 64" for x
    using assms(2) by (simp del: upt_Suc)
  moreover have "set [lo..<Suc hi] = {lo..hi}" by (auto simp del: upt_Suc)
  ultimately show "wf_mask (snd_mask_set_range m lo hi)"
    "mset_of (snd_mask_set_range m lo hi) = mset_of m \<union> {lo..hi}"
    unfolding snd_mask_set_range_def by metis+
qed

lemma mset_of_reset_range:
  assumes "wf_mask m" and "hi < 256"
  shows "wf_mask (snd_mask_reset_range m lo hi)"
    and "mset_of (snd_mask_reset_range m lo hi) = mset_of m - {lo..hi}"
proof -
  have "wf_mask (fold (\<lambda>i m. snd_mask_reset m i) xs m) \<and>
      mset_of (fold (\<lambda>i m. snd_mask_reset m i) xs m) = mset_of m - set xs"
    if "\<And>x. x \<in> set xs \<Longrightarrow> x < 256" for xs
    using assms(1) that by (induction xs arbitrary: m) (auto simp: mset_of_reset)
  moreover have "x \<in> set [lo..<Suc hi] \<Longrightarrow> x < 256" for x
    using assms(2) by (simp del: upt_Suc)
  moreover have "set [lo..<Suc hi] = {lo..hi}" by (auto simp del: upt_Suc)
  ultimately show "wf_mask (snd_mask_reset_range m lo hi)"
    "mset_of (snd_mask_reset_range m lo hi) = mset_of m - {lo..hi}"
    unfolding snd_mask_reset_range_def by metis+
qed

lemma mset_of_none [simp]: "mset_of (snd_mask_none m) = {}"
  using div_32_less_2 by (force simp: mset_of_def snd_mask_none_def tbit_def)

lemma mset_of_any [simp]: "mset_of (snd_mask_any m) = {..<SNDRV_MASK_BITS}"
  using div_32_less_2 by (auto simp: mset_of_def snd_mask_any_def tbit_def nth_append)

lemma mset_of_leave:
  assumes "wf_mask m" and v: "v < SNDRV_MASK_BITS"
  shows "mset_of (snd_mask_leave m v) = mset_of m \<inter> {v}"
proof -
  have "tbit (bits (snd_mask_leave m v)) k \<longleftrightarrow> k = v \<and> tbit (bits m) k" if "k < 64" for k
    using that v div_32_less_2 [of v] div_32_less_2 [of k] div_mod_32_eq [of k v]
    by (auto simp: snd_mask_leave_def snd_mask_none_def Let_def tbit_def nth_list_update
        bit_and_iff bit_MASK_BIT)
  then show ?thesis using v by (auto simp: mset_of_def)
qed

lemma mset_of_intersect:
  assumes "wf_mask m" "wf_mask v"
  shows "mset_of (snd_mask_intersect m v) = mset_of m \<inter> mset_of v"
proof -
  have "tbit (bits (snd_mask_intersect m v)) k \<longleftrightarrow> tbit (bits m) k \<and> tbit (bits v) k"
    if "k < 64" for k
    using assms div_32_less_2 [OF that]
    by (auto simp: snd_mask_intersect_def tbit_def wf_mask_def nth_append bit_and_iff)
  then show ?thesis by (auto simp: mset_of_def)
qed

lemma mset_of_eq_iff:
  assumes "wf_mask m" "wf_mask v"
  shows "snd_mask_eq m v \<longleftrightarrow> mset_of m = mset_of v"
proof
  assume "snd_mask_eq m v"
  then have "bits m ! i = bits v ! i" if "i < 2" for i
    using that unfolding snd_mask_eq_def by (metis nth_take)
  then show "mset_of m = mset_of v"
    using div_32_less_2 by (auto simp: mset_of_def tbit_def)
next
  assume eq: "mset_of m = mset_of v"
  have "bits m ! i = bits v ! i" if i: "i < 2" for i
  proof (rule bit_eqI)
    fix n assume "possible_bit TYPE(32 word) n"
    then have "n < 32" by (simp add: possible_bit_word)
    then have "(i * 32 + n) div 32 = i" "(i * 32 + n) mod 32 = n" "i * 32 + n < 64" using i by auto
    moreover from this have "i * 32 + n \<in> mset_of m \<longleftrightarrow> i * 32 + n \<in> mset_of v" by (simp add: eq)
    ultimately show "bit (bits m ! i) n = bit (bits v ! i) n" by (simp add: mset_of_def tbit_def)
  qed
  then show "snd_mask_eq m v" using assms
    by (auto simp: snd_mask_eq_def wf_mask_def intro!: nth_equalityI)
qed

lemma snd_mask_empty_iff:
  assumes "wf_mask m"
  shows "snd_mask_empty m \<longleftrightarrow> mset_of m = {}"
proof -
  have "snd_mask_empty m \<longleftrightarrow> snd_mask_eq m (snd_mask_none m)"
    using assms unfolding snd_mask_empty_def snd_mask_eq_def snd_mask_none_def wf_mask_def
    by (auto simp: list_eq_iff_nth_eq)
  then show ?thesis using assms by (simp add: mset_of_eq_iff)
qed

lemma mask_words:
  assumes "wf_mask m"
  obtains w0 w1 ws where "bits m = w0 # w1 # ws"
    and "mset_of m = {k. k < 32 \<and> bit w0 k} \<union> {k. 32 \<le> k \<and> k < 64 \<and> bit w1 (k - 32)}"
proof -
  from assms obtain w0 w1 ws where b: "bits m = w0 # w1 # ws"
    by (metis wf_mask_def length_Suc_conv numeral_eq_Suc pred_numeral_simps BitM.simps(2) semiring_norm(26) semiring_norm(28))
  have "tbit (bits m) k \<longleftrightarrow> (if k < 32 then bit w0 k else bit w1 (k - 32))" if "k < 64" for k
  proof (cases "k < 32")
    case False
    then have "k div 32 = 1" "k mod 32 = k - 32" using that by (auto simp: mod_if)
    then show ?thesis using False by (simp add: b tbit_def)
  qed (simp add: b tbit_low)
  then have "mset_of m = {k. k < 32 \<and> bit w0 k} \<union> {k. 32 \<le> k \<and> k < 64 \<and> bit w1 (k - 32)}"
    by (auto simp: mset_of_def split: if_splits)
  with b show thesis by (rule that)
qed

section \<open>Minimum, maximum and singletons\<close>

lemma snd_mask_min_eq:
  assumes "wf_mask m" and ne: "mset_of m \<noteq> {}"
  shows "snd_mask_min m = Min (mset_of m)"
proof -
  obtain w0 w1 ws where b: "bits m = w0 # w1 # ws"
    and s: "mset_of m = {k. k < 32 \<and> bit w0 k} \<union> {k. 32 \<le> k \<and> k < 64 \<and> bit w1 (k - 32)}"
    using assms(1) by (rule mask_words)
  have mem: "snd_mask_min m \<in> mset_of m \<and> (\<forall>k \<in> mset_of m. snd_mask_min m \<le> k)"
  proof (cases "w0 = 0")
    case False
    have "ffs_word w0 \<le> k" if "bit w0 k" for k
      using ffs_word_bit(2) [OF False, of k] that not_le by blast
    then show ?thesis using ffs_word_bit(1) [OF False] ffs_word_less [OF False] False
      by (fastforce simp: snd_mask_min_def b s)
  next
    case True
    then have w1: "w1 \<noteq> 0" using ne by (intro notI) (simp add: s)
    have "ffs_word w1 + 32 \<le> k" if "k < 64" "32 \<le> k" "bit w1 (k - 32)" for k
    proof (rule ccontr)
      assume "\<not> ffs_word w1 + 32 \<le> k"
      then have "k - 32 < ffs_word w1" using that by linarith
      then show False using ffs_word_bit(2) [OF w1] that(3) by blast
    qed
    then show ?thesis using ffs_word_bit(1) [OF w1] ffs_word_less [OF w1] True w1
      by (simp add: snd_mask_min_def b s)
  qed
  then show ?thesis by (intro Min_eqI [symmetric]) auto
qed

lemma snd_mask_max_eq:
  assumes "wf_mask m" and ne: "mset_of m \<noteq> {}"
  shows "snd_mask_max m = Max (mset_of m)"
proof -
  obtain w0 w1 ws where b: "bits m = w0 # w1 # ws"
    and s: "mset_of m = {k. k < 32 \<and> bit w0 k} \<union> {k. 32 \<le> k \<and> k < 64 \<and> bit w1 (k - 32)}"
    using assms(1) by (rule mask_words)
  have mx: "snd_mask_max m = (if w1 \<noteq> 0 then fls_word w1 + 32 else if w0 \<noteq> 0 then fls_word w0 else 0)"
    by (simp add: snd_mask_max_def b numeral_2_eq_2)
  have mem: "snd_mask_max m \<in> mset_of m \<and> (\<forall>k \<in> mset_of m. k \<le> snd_mask_max m)"
  proof (cases "w1 = 0")
    case True
    then have w0: "w0 \<noteq> 0" using ne by (intro notI) (simp add: s)
    have "k \<le> fls_word w0" if "bit w0 k" for k
      using fls_word_bit(2) [OF w0, of k] that not_le by blast
    then show ?thesis using fls_word_bit(1,3) [OF w0] True w0
      by (fastforce simp: mx s)
  next
    case False
    have "k \<le> fls_word w1 + 32" if "bit w1 (k - 32)" for k
      using fls_word_bit(2) [OF False, of "k - 32"] that not_le by (metis diff_le_mono le_diff_conv)
    then show ?thesis using fls_word_bit(1,3) [OF False] False
      by (fastforce simp: mx s)
  qed
  then show ?thesis by (intro Max_eqI [symmetric]) auto
qed

text \<open>\<^verbatim>\<open>w & (w - 1)\<close> clears the lowest set bit.\<close>

lemma and_pred:
  assumes "w \<noteq> 0"
  shows "w AND (w - 1) = unset_bit (ffs_word w) (w :: u32)"
proof -
  let ?n = "ffs_word w"
  let ?u = "unset_bit ?n w"
  note b = ffs_word_bit [OF assms] and n = ffs_word_less [OF assms]
  have low: "\<not> bit ?u k" if "k \<le> ?n" for k
    using b(2) [of k] that by (cases "k = ?n") (auto simp: bit_unset_bit_iff)
  have "w = ?u OR push_bit ?n 1"
    using b(1) n by (intro bit_eqI) (auto simp: bit_or_iff bit_unset_bit_iff bit_exp_iff possible_bit_word)
  also have "\<dots> = ?u + push_bit ?n 1"
    by (intro disjunctive_add_eq_or [symmetric] bit_eqI)
      (auto simp: bit_and_iff bit_unset_bit_iff bit_exp_iff)
  finally have "w - 1 = ?u + mask ?n" by (simp add: mask_eq_exp_minus_1 algebra_simps)
  also have "\<dots> = ?u OR mask ?n"
    by (intro disjunctive_add_eq_or bit_eqI) (use low in \<open>auto simp: bit_and_iff bit_mask_iff\<close>)
  finally have p: "w - 1 = ?u OR mask ?n" .
  show ?thesis
    unfolding p using b by (intro bit_eqI) (auto simp: bit_and_iff bit_or_iff bit_unset_bit_iff bit_mask_iff)
qed

lemma single_word:
  assumes "w \<noteq> (0 :: u32)"
  shows "w AND (w - 1) = 0 \<longleftrightarrow> (\<forall>j k. bit w j \<and> bit w k \<longrightarrow> j = k)"
proof -
  have "unset_bit (ffs_word w) w = 0 \<longleftrightarrow> (\<forall>k. bit w k \<longrightarrow> k = ffs_word w)"
  proof
    assume "unset_bit (ffs_word w) w = 0"
    then have "\<not> bit (unset_bit (ffs_word w) w) k" for k by simp
    then show "\<forall>k. bit w k \<longrightarrow> k = ffs_word w" by (auto simp: bit_unset_bit_iff)
  next
    assume "\<forall>k. bit w k \<longrightarrow> k = ffs_word w"
    then show "unset_bit (ffs_word w) w = 0" by (intro bit_eqI) (auto simp: bit_unset_bit_iff)
  qed
  then show ?thesis unfolding and_pred [OF assms] using ffs_word_bit(1) [OF assms] by blast
qed

lemma snd_mask_single_iff:
  assumes "wf_mask m"
  shows "snd_mask_single m \<longleftrightarrow> (\<forall>j \<in> mset_of m. \<forall>k \<in> mset_of m. j = k)"
proof -
  obtain w0 w1 ws where b: "bits m = w0 # w1 # ws"
    and s: "mset_of m = {k. k < 32 \<and> bit w0 k} \<union> {k. 32 \<le> k \<and> k < 64 \<and> bit w1 (k - 32)}"
    using assms by (rule mask_words)
  define one where "one w \<longleftrightarrow> (\<forall>j k. bit w j \<and> bit w k \<longrightarrow> j = k)" for w :: u32
  have single: "snd_mask_single m \<longleftrightarrow>
      (w0 = 0 \<longrightarrow> w1 = 0 \<or> one w1) \<and> (w0 \<noteq> 0 \<longrightarrow> one w0 \<and> w1 = 0)"
    using single_word [of w0] single_word [of w1] by (auto simp: snd_mask_single_def b one_def)
  let ?A = "{k. k < 32 \<and> bit w0 k}" and ?B = "{k. 32 \<le> k \<and> k < 64 \<and> bit w1 (k - 32)}"
  have lt: "bit w k \<Longrightarrow> k < 32" for w :: u32 and k using bit_imp_le_length [of w k] by simp
  have A: "?A = {k. bit w0 k}" using lt by auto
  have B: "?B = (\<lambda>k. k + 32) ` {k. bit w1 k}"
  proof (intro set_eqI iffI)
    fix k assume "k \<in> ?B"
    then show "k \<in> (\<lambda>k. k + 32) ` {k. bit w1 k}" by (intro image_eqI [of _ _ "k - 32"]) auto
  qed (use lt in force)
  have e: "{k. bit w k} = {} \<longleftrightarrow> w = 0" for w :: u32 using ex_bit [of w] by auto
  show ?thesis
  proof (cases "w0 = 0")
    case True
    then have "mset_of m = ?B" by (simp add: s)
    then show ?thesis using True by (auto simp: single B one_def)
  next
    case w0: False
    then obtain a where a: "bit w0 a" using ex_bit by blast
    show ?thesis
    proof (cases "w1 = 0")
      case True
      then have "mset_of m = {k. bit w0 k}" by (simp add: s A)
      then show ?thesis using True w0 by (auto simp: single one_def)
    next
      case False
      then obtain c where c: "bit w1 c" using ex_bit by blast
      have "a \<in> mset_of m" "c + 32 \<in> mset_of m" "a \<noteq> c + 32"
        using a c lt [of w0 a] lt [of w1 c] by (auto simp: s)
      then show ?thesis using w0 False by (auto simp: single)
    qed
  qed
qed

section \<open>Refinement of masks\<close>

lemma mset_of_less: "k \<in> mset_of m \<Longrightarrow> k < SNDRV_MASK_BITS"
  by (simp add: mset_of_def)

lemma snd_mask_refine_wf [simp, wf_intros]:
  "wf_mask m \<Longrightarrow> wf_mask v \<Longrightarrow> wf_mask (snd (snd_mask_refine m v))"
  by (simp add: snd_mask_refine_def Let_def)

lemma snd_mask_refine_set_of:
  assumes "wf_mask m" "wf_mask v"
  shows "mset_of (snd (snd_mask_refine m v)) = mset_of m \<inter> mset_of v"
    and "fst (snd_mask_refine m v) < 0 \<longleftrightarrow> mset_of m \<inter> mset_of v = {}"
    and "fst (snd_mask_refine m v) = 0 \<longleftrightarrow>
      mset_of m \<inter> mset_of v \<noteq> {} \<and> mset_of m \<subseteq> mset_of v"
  using assms
  by (auto simp: snd_mask_refine_def Let_def mset_of_intersect snd_mask_empty_iff mset_of_eq_iff)

interpretation mask_refiner: refiner wf_mask mset_of "\<lambda>m. card (mset_of m)" snd_mask_refine
proof
  fix i v assume w: "wf_mask i" "wf_mask v"
  note r = snd_mask_refine_set_of [OF w]
  show "mset_of (snd (snd_mask_refine i v)) = mset_of i \<inter> mset_of v" by (rule r)
  show "fst (snd_mask_refine i v) < 0 \<longleftrightarrow> mset_of i \<inter> mset_of v = {}" by (rule r)
  show "wf_mask (snd (snd_mask_refine i v))" using w by simp
  show "mset_of i \<subseteq> mset_of v" if "fst (snd_mask_refine i v) = 0" using r(3) that by blast
  show "card (mset_of (snd (snd_mask_refine i v))) < card (mset_of i)"
    if "0 < fst (snd_mask_refine i v)"
  proof -
    have "\<not> mset_of i \<subseteq> mset_of v" using r(2,3) that by force
    then have "mset_of i \<inter> mset_of v \<subset> mset_of i" by blast
    then show ?thesis unfolding r(1) by (rule psubset_card_mono [OF mset_of_finite])
  qed
  show "card (mset_of (snd (snd_mask_refine i v))) \<le> card (mset_of i)"
    unfolding r(1) by (simp add: card_mono)
qed

lemma snd_mask_leave_singleton:
  "wf_mask m \<Longrightarrow> v \<in> mset_of m \<Longrightarrow> mset_of (snd_mask_leave m v) = {v}"
  using mset_of_less [of v m] by (auto simp: mset_of_leave)

lemma snd_mask_refine_first_set:
  assumes w: "wf_mask m" and ne: "mset_of m \<noteq> {}"
  shows "mset_of (snd (snd_mask_refine_first m)) = {Min (mset_of m)}"
    and "fst (snd_mask_refine_first m) = of_bool (\<not> snd_mask_single m)"
proof -
  have mem: "Min (mset_of m) \<in> mset_of m" using ne by simp
  then have "snd_mask_single m \<Longrightarrow> mset_of m = {Min (mset_of m)}"
    using snd_mask_single_iff [OF w] by auto
  then show "mset_of (snd (snd_mask_refine_first m)) = {Min (mset_of m)}"
    using snd_mask_leave_singleton [OF w mem] snd_mask_min_eq [OF w ne]
    by (simp add: snd_mask_refine_first_def)
qed (simp add: snd_mask_refine_first_def)

lemma snd_mask_refine_last_set:
  assumes w: "wf_mask m" and ne: "mset_of m \<noteq> {}"
  shows "mset_of (snd (snd_mask_refine_last m)) = {Max (mset_of m)}"
    and "fst (snd_mask_refine_last m) = of_bool (\<not> snd_mask_single m)"
proof -
  have mem: "Max (mset_of m) \<in> mset_of m" using ne by simp
  then have "snd_mask_single m \<Longrightarrow> mset_of m = {Max (mset_of m)}"
    using snd_mask_single_iff [OF w] by auto
  then show "mset_of (snd (snd_mask_refine_last m)) = {Max (mset_of m)}"
    using snd_mask_leave_singleton [OF w mem] snd_mask_max_eq [OF w ne]
    by (simp add: snd_mask_refine_last_def)
qed (simp add: snd_mask_refine_last_def)

text \<open>\<^verbatim>\<open>snd_mask_refine_min\<close> and \<^verbatim>\<open>snd_mask_refine_max\<close> cut the set at a value.\<close>

lemma snd_mask_refine_min_set:
  assumes w: "wf_mask m" and ne: "mset_of m \<noteq> {}" and v: "v \<le> 256"
  shows "mset_of (snd (snd_mask_refine_min m v)) = {k \<in> mset_of m. v \<le> k}"
    and "fst (snd_mask_refine_min m v) < 0 \<longleftrightarrow> {k \<in> mset_of m. v \<le> k} = {}"
proof -
  have min: "snd_mask_min m = Min (mset_of m)" by (rule snd_mask_min_eq [OF w ne])
  have "mset_of (snd (snd_mask_refine_min m v)) = {k \<in> mset_of m. v \<le> k} \<and>
    (fst (snd_mask_refine_min m v) < 0 \<longleftrightarrow> {k \<in> mset_of m. v \<le> k} = {})"
  proof (cases "v \<le> snd_mask_min m")
    case True
    then have "{k \<in> mset_of m. v \<le> k} = mset_of m"
      using min by (auto intro: order_trans [OF _ Min_le])
    then show ?thesis using True ne by (simp add: snd_mask_refine_min_def)
  next
    case False
    then have "v - 1 < 256" using v by linarith
    note r = mset_of_reset_range [OF w this, of 0]
    have "mset_of m - {0..v - 1} = {k \<in> mset_of m. v \<le> k}" using False by auto
    then show ?thesis using False r snd_mask_empty_iff [OF r(1)]
      by (auto simp: snd_mask_refine_min_def Let_def)
  qed
  then show "mset_of (snd (snd_mask_refine_min m v)) = {k \<in> mset_of m. v \<le> k}"
    "fst (snd_mask_refine_min m v) < 0 \<longleftrightarrow> {k \<in> mset_of m. v \<le> k} = {}" by blast+
qed

section \<open>Properties\<close>

text \<open>
  On a well-formed mask, \<^verbatim>\<open>snd_mask_refine\<close> leaves the intersection of the two sets of
  values, fails precisely when it is empty, and otherwise reports a change precisely when a
  value was removed.
\<close>

theorem mask_refine_is_meet:
  assumes "wf_mask m" and "wf_mask v"
  shows "mset_of (snd (snd_mask_refine m v)) = mset_of m \<inter> mset_of v \<and>
     (fst (snd_mask_refine m v) < 0 \<longleftrightarrow> mset_of m \<inter> mset_of v = {}) \<and>
     (fst (snd_mask_refine m v) = 0 \<longleftrightarrow> mset_of m \<noteq> {} \<and> mset_of m \<subseteq> mset_of v)"
  using snd_mask_refine_set_of [OF assms] by blast

theorem mask_refine_is_meet_witness:
  "mset_of (snd (snd_mask_refine \<lparr>bits = replicate 8 6\<rparr> \<lparr>bits = replicate 8 5\<rparr>)) =
   mset_of \<lparr>bits = replicate 8 6\<rparr> \<inter> mset_of \<lparr>bits = replicate 8 5\<rparr>"
  using mask_refine_is_meet [of "\<lparr>bits = replicate 8 6\<rparr>" "\<lparr>bits = replicate 8 5\<rparr>"]
  by (simp add: wf_mask_def)

text \<open>
  \<^verbatim>\<open>snd_mask_refine_first\<close> and \<^verbatim>\<open>snd_mask_refine_last\<close> leave the least and the greatest
  value of a nonempty mask, and \<^verbatim>\<open>snd_mask_refine_min\<close> the values from a bound on.
\<close>

theorem mask_refine_ends:
  assumes "wf_mask m" and "mset_of m \<noteq> {}"
  shows "mset_of (snd (snd_mask_refine_first m)) = {Min (mset_of m)} \<and>
     mset_of (snd (snd_mask_refine_last m)) = {Max (mset_of m)} \<and>
     (v \<le> 256 \<longrightarrow> mset_of (snd (snd_mask_refine_min m v)) = {k \<in> mset_of m. v \<le> k})"
  using snd_mask_refine_first_set(1) [OF assms] snd_mask_refine_last_set(1) [OF assms]
    snd_mask_refine_min_set(1) [OF assms] by blast

theorem mask_refine_ends_witness:
  "mset_of (snd (snd_mask_refine_last (snd_mask_any \<lparr>bits = replicate 8 0\<rparr>))) = {Max {..<64}}"
proof -
  let ?m = "snd_mask_any \<lparr>bits = replicate 8 0\<rparr>"
  have "wf_mask ?m" by (rule wf_mask_ops) (simp add: wf_mask_def)
  moreover have "mset_of ?m \<noteq> {}" unfolding mset_of_any by (simp add: lessThan_empty_iff)
  ultimately have "mset_of (snd (snd_mask_refine_last ?m)) = {Max (mset_of ?m)}"
    using mask_refine_ends [of ?m 0] by blast
  then show ?thesis by (simp only: mset_of_any)
qed

end
