(* ===== verification/PcmFormat.thy ===== *)
theory PcmFormat
  imports Interval
begin

text \<open>
  Sample formats and rates: \<^verbatim>\<open>core/pcm_misc.c\<close>. The table \<^verbatim>\<open>pcm_formats\<close> is an array indexed by
  the format number; C fills the entries its initializer does not name with zeros. The queries
  and \<^verbatim>\<open>snd_pcm_format_set_silence\<close> follow, then the conversions between sample rates and the
  bits of a rate mask. The table of known rates is the one of \<^verbatim>\<open>pcm_native.c\<close>.
\<close>

section \<open>The table of formats\<close>

record pcm_format_data =
  fwidth :: nat
  fphys :: nat
  fle :: int
  fsignd :: int
  fsilence :: "u8 list"

abbreviation (input) SNDRV_PCM_FORMAT_LAST :: int where
  "SNDRV_PCM_FORMAT_LAST \<equiv> 52"

text \<open>The eight bytes of a \<^verbatim>\<open>silence\<close> array, the ones the initializer leaves out being zero.\<close>

definition sil :: "u8 list \<Rightarrow> u8 list" where
  "sil p = p @ replicate (8 - length p) 0"

definition pcm_format_zero :: pcm_format_data where
  "pcm_format_zero = \<lparr>fwidth = 0, fphys = 0, fle = 0, fsignd = 0, fsilence = sil []\<rparr>"

text \<open>The entries for integer and floating-point samples of whole bytes.\<close>

definition pcm_formats_sample :: "(int \<times> pcm_format_data) list" where
  "pcm_formats_sample =
     [(0, \<lparr>fwidth = 8, fphys = 8, fle = -1, fsignd = 1, fsilence = sil [0]\<rparr>),
      (1, \<lparr>fwidth = 8, fphys = 8, fle = -1, fsignd = 0, fsilence = sil [0x80]\<rparr>),
      (2, \<lparr>fwidth = 16, fphys = 16, fle = 1, fsignd = 1, fsilence = sil [0]\<rparr>),
      (3, \<lparr>fwidth = 16, fphys = 16, fle = 0, fsignd = 1, fsilence = sil [0]\<rparr>),
      (4, \<lparr>fwidth = 16, fphys = 16, fle = 1, fsignd = 0, fsilence = sil [0, 0x80]\<rparr>),
      (5, \<lparr>fwidth = 16, fphys = 16, fle = 0, fsignd = 0, fsilence = sil [0x80, 0]\<rparr>),
      (6, \<lparr>fwidth = 24, fphys = 32, fle = 1, fsignd = 1, fsilence = sil [0]\<rparr>),
      (7, \<lparr>fwidth = 24, fphys = 32, fle = 0, fsignd = 1, fsilence = sil [0]\<rparr>),
      (8, \<lparr>fwidth = 24, fphys = 32, fle = 1, fsignd = 0, fsilence = sil [0, 0, 0x80]\<rparr>),
      (9, \<lparr>fwidth = 24, fphys = 32, fle = 0, fsignd = 0, fsilence = sil [0, 0x80, 0, 0]\<rparr>),
      (10, \<lparr>fwidth = 32, fphys = 32, fle = 1, fsignd = 1, fsilence = sil [0]\<rparr>),
      (11, \<lparr>fwidth = 32, fphys = 32, fle = 0, fsignd = 1, fsilence = sil [0]\<rparr>),
      (12, \<lparr>fwidth = 32, fphys = 32, fle = 1, fsignd = 0, fsilence = sil [0, 0, 0, 0x80]\<rparr>),
      (13, \<lparr>fwidth = 32, fphys = 32, fle = 0, fsignd = 0, fsilence = sil [0x80, 0, 0, 0]\<rparr>),
      (14, \<lparr>fwidth = 32, fphys = 32, fle = 1, fsignd = -1, fsilence = sil [0]\<rparr>),
      (15, \<lparr>fwidth = 32, fphys = 32, fle = 0, fsignd = -1, fsilence = sil [0]\<rparr>),
      (16, \<lparr>fwidth = 64, fphys = 64, fle = 1, fsignd = -1, fsilence = sil [0]\<rparr>),
      (17, \<lparr>fwidth = 64, fphys = 64, fle = 0, fsignd = -1, fsilence = sil [0]\<rparr>)]"

text \<open>The entries from the IEC958 subframes on.\<close>

definition pcm_formats_other :: "(int \<times> pcm_format_data) list" where
  "pcm_formats_other =
     [(18, \<lparr>fwidth = 32, fphys = 32, fle = 1, fsignd = -1, fsilence = sil [0]\<rparr>),
      (19, \<lparr>fwidth = 32, fphys = 32, fle = 0, fsignd = -1, fsilence = sil [0]\<rparr>),
      (20, \<lparr>fwidth = 8, fphys = 8, fle = -1, fsignd = -1, fsilence = sil [0x7F]\<rparr>),
      (21, \<lparr>fwidth = 8, fphys = 8, fle = -1, fsignd = -1, fsilence = sil [0x55]\<rparr>),
      (22, \<lparr>fwidth = 4, fphys = 4, fle = -1, fsignd = -1, fsilence = sil [0]\<rparr>),
      (44, \<lparr>fwidth = 3, fphys = 3, fle = -1, fsignd = -1, fsilence = sil [0]\<rparr>),
      (46, \<lparr>fwidth = 5, fphys = 5, fle = -1, fsignd = -1, fsilence = sil [0]\<rparr>),
      (48, \<lparr>fwidth = 8, fphys = 8, fle = 1, fsignd = 0, fsilence = sil [0x69]\<rparr>),
      (49, \<lparr>fwidth = 16, fphys = 16, fle = 1, fsignd = 0, fsilence = sil [0x69, 0x69]\<rparr>),
      (50, \<lparr>fwidth = 32, fphys = 32, fle = 1, fsignd = 0, fsilence = sil [0x69, 0x69, 0x69, 0x69]\<rparr>),
      (51, \<lparr>fwidth = 16, fphys = 16, fle = 0, fsignd = 0, fsilence = sil [0x69, 0x69]\<rparr>),
      (52, \<lparr>fwidth = 32, fphys = 32, fle = 0, fsignd = 0, fsilence = sil [0x69, 0x69, 0x69, 0x69]\<rparr>),
      (23, \<lparr>fwidth = 0, fphys = 0, fle = -1, fsignd = -1, fsilence = sil []\<rparr>),
      (24, \<lparr>fwidth = 0, fphys = 0, fle = -1, fsignd = -1, fsilence = sil []\<rparr>),
      (25, \<lparr>fwidth = 20, fphys = 32, fle = 1, fsignd = 1, fsilence = sil [0]\<rparr>),
      (26, \<lparr>fwidth = 20, fphys = 32, fle = 0, fsignd = 1, fsilence = sil [0]\<rparr>),
      (27, \<lparr>fwidth = 20, fphys = 32, fle = 1, fsignd = 0, fsilence = sil [0, 0, 0x08, 0]\<rparr>),
      (28, \<lparr>fwidth = 20, fphys = 32, fle = 0, fsignd = 0, fsilence = sil [0, 0x08, 0, 0]\<rparr>),
      (31, \<lparr>fwidth = 0, fphys = 0, fle = -1, fsignd = -1, fsilence = sil []\<rparr>),
      (32, \<lparr>fwidth = 24, fphys = 24, fle = 1, fsignd = 1, fsilence = sil [0]\<rparr>),
      (33, \<lparr>fwidth = 24, fphys = 24, fle = 0, fsignd = 1, fsilence = sil [0]\<rparr>),
      (34, \<lparr>fwidth = 24, fphys = 24, fle = 1, fsignd = 0, fsilence = sil [0, 0, 0x80]\<rparr>),
      (35, \<lparr>fwidth = 24, fphys = 24, fle = 0, fsignd = 0, fsilence = sil [0x80, 0, 0]\<rparr>),
      (36, \<lparr>fwidth = 20, fphys = 24, fle = 1, fsignd = 1, fsilence = sil [0]\<rparr>),
      (37, \<lparr>fwidth = 20, fphys = 24, fle = 0, fsignd = 1, fsilence = sil [0]\<rparr>),
      (38, \<lparr>fwidth = 20, fphys = 24, fle = 1, fsignd = 0, fsilence = sil [0, 0, 0x08]\<rparr>),
      (39, \<lparr>fwidth = 20, fphys = 24, fle = 0, fsignd = 0, fsilence = sil [0x08, 0, 0]\<rparr>),
      (40, \<lparr>fwidth = 18, fphys = 24, fle = 1, fsignd = 1, fsilence = sil [0]\<rparr>),
      (41, \<lparr>fwidth = 18, fphys = 24, fle = 0, fsignd = 1, fsilence = sil [0]\<rparr>),
      (42, \<lparr>fwidth = 18, fphys = 24, fle = 1, fsignd = 0, fsilence = sil [0, 0, 0x02]\<rparr>),
      (43, \<lparr>fwidth = 18, fphys = 24, fle = 0, fsignd = 0, fsilence = sil [0x02, 0, 0]\<rparr>),
      (45, \<lparr>fwidth = 3, fphys = 8, fle = -1, fsignd = -1, fsilence = sil [0]\<rparr>),
      (47, \<lparr>fwidth = 5, fphys = 8, fle = -1, fsignd = -1, fsilence = sil [0]\<rparr>)]"

definition pcm_formats :: "int \<Rightarrow> pcm_format_data" where
  "pcm_formats format =
     (case map_of (pcm_formats_sample @ pcm_formats_other) format of
        None \<Rightarrow> pcm_format_zero
      | Some d \<Rightarrow> d)"

section \<open>Queries\<close>

definition valid_format :: "int \<Rightarrow> bool" where
  "valid_format format \<longleftrightarrow> 0 \<le> format \<and> format \<le> SNDRV_PCM_FORMAT_LAST"

definition snd_pcm_format_signed :: "int \<Rightarrow> int" where
  "snd_pcm_format_signed format =
     (if \<not> valid_format format then - EINVAL
      else let val = fsignd (pcm_formats format)
           in if val < 0 then - EINVAL else val)"

definition snd_pcm_format_unsigned :: "int \<Rightarrow> int" where
  "snd_pcm_format_unsigned format =
     (let val = snd_pcm_format_signed format
      in if val < 0 then val else of_bool (val = 0))"

definition snd_pcm_format_linear :: "int \<Rightarrow> int" where
  "snd_pcm_format_linear format = of_bool (snd_pcm_format_signed format \<ge> 0)"

definition snd_pcm_format_little_endian :: "int \<Rightarrow> int" where
  "snd_pcm_format_little_endian format =
     (if \<not> valid_format format then - EINVAL
      else let val = fle (pcm_formats format)
           in if val < 0 then - EINVAL else val)"

definition snd_pcm_format_big_endian :: "int \<Rightarrow> int" where
  "snd_pcm_format_big_endian format =
     (let val = snd_pcm_format_little_endian format
      in if val < 0 then val else of_bool (val = 0))"

definition snd_pcm_format_width :: "int \<Rightarrow> int" where
  "snd_pcm_format_width format =
     (if \<not> valid_format format then - EINVAL
      else let val = fwidth (pcm_formats format)
           in if val = 0 then - EINVAL else int val)"

definition snd_pcm_format_physical_width :: "int \<Rightarrow> int" where
  "snd_pcm_format_physical_width format =
     (if \<not> valid_format format then - EINVAL
      else let val = fphys (pcm_formats format)
           in if val = 0 then - EINVAL else int val)"

text \<open>The product is computed in the 32-bit \<^verbatim>\<open>size_t\<close>, the result is read as \<^verbatim>\<open>ssize_t\<close>.\<close>

definition snd_pcm_format_size :: "int \<Rightarrow> u32 \<Rightarrow> int" where
  "snd_pcm_format_size format samples =
     (let phys_width = snd_pcm_format_physical_width format
      in if phys_width < 0 then - EINVAL
         else sint (samples * word_of_int phys_width div 8))"

definition snd_pcm_format_silence_64 :: "int \<Rightarrow> u8 list option" where
  "snd_pcm_format_silence_64 format =
     (if \<not> valid_format format then None
      else if fphys (pcm_formats format) = 0 then None
      else Some (fsilence (pcm_formats format)))"

text \<open>
  \<^verbatim>\<open>snd_pcm_format_set_silence\<close> returns its status and the bytes it writes at \<^verbatim>\<open>data\<close>: one
  \<^verbatim>\<open>memset\<close>, or a loop over the samples for the widths 2, 3, 4 and 8.
\<close>

definition snd_pcm_format_set_silence :: "int \<Rightarrow> u32 \<Rightarrow> int \<times> u8 list" where
  "snd_pcm_format_set_silence format samples =
     (if \<not> valid_format format then (- EINVAL, [])
      else if samples = 0 then (0, [])
      else
        let width = fphys (pcm_formats format); pat = fsilence (pcm_formats format)
        in if width = 0 then (- EINVAL, [])
           else if fsignd (pcm_formats format) = 1 \<or> width \<le> 8 then
             let bytes = samples * of_nat width div 8
             in (0, replicate (unat bytes) (hd pat))
           else
             let width = width div 8
             in if width \<in> {2, 3, 4, 8}
                then (0, concat (replicate (unat samples) (take width pat)))
                else (0, []))"

section \<open>Rates\<close>

definition snd_pcm_known_rates :: "u32 list" where
  "snd_pcm_known_rates =
     [5512, 8000, 11025, 16000, 22050, 32000, 44100,
      48000, 64000, 88200, 96000, 176400, 192000, 352800, 384000]"

abbreviation (input) SNDRV_PCM_RATE_CONTINUOUS :: u32 where
  "SNDRV_PCM_RATE_CONTINUOUS \<equiv> 0x40000000"

abbreviation (input) SNDRV_PCM_RATE_KNOT :: u32 where
  "SNDRV_PCM_RATE_KNOT \<equiv> 0x80000000"

text \<open>The rate fields of \<^verbatim>\<open>struct snd_pcm_hardware\<close>.\<close>

record hw_rates =
  rates :: u32
  rate_min :: u32
  rate_max :: u32

fun rate_scan_up :: "u32 \<Rightarrow> u32 list \<Rightarrow> nat \<Rightarrow> u32 option" where
  "rate_scan_up msk [] i = None"
| "rate_scan_up msk (r # rs) i =
     (if msk AND push_bit i 1 \<noteq> 0 then Some r else rate_scan_up msk rs (Suc i))"

fun rate_scan_down :: "u32 \<Rightarrow> u32 list \<Rightarrow> nat \<Rightarrow> u32 option" where
  "rate_scan_down msk rs 0 = None"
| "rate_scan_down msk rs (Suc i) =
     (if msk AND push_bit i 1 \<noteq> 0 then Some (rs ! i) else rate_scan_down msk rs i)"

definition snd_pcm_hw_limit_rates :: "hw_rates \<Rightarrow> int \<times> hw_rates" where
  "snd_pcm_hw_limit_rates hw =
     (let hw = (case rate_scan_up (rates hw) snd_pcm_known_rates 0 of
                  None \<Rightarrow> hw | Some r \<Rightarrow> hw\<lparr>rate_min := r\<rparr>);
          hw = (case rate_scan_down (rates hw) snd_pcm_known_rates (length snd_pcm_known_rates) of
                  None \<Rightarrow> hw | Some r \<Rightarrow> hw\<lparr>rate_max := r\<rparr>)
      in (0, hw))"

fun rate_to_bit_loop :: "u32 \<Rightarrow> u32 list \<Rightarrow> nat \<Rightarrow> u32" where
  "rate_to_bit_loop rate [] i = SNDRV_PCM_RATE_KNOT"
| "rate_to_bit_loop rate (r # rs) i =
     (if r = rate then push_bit i 1 else rate_to_bit_loop rate rs (Suc i))"

definition snd_pcm_rate_to_rate_bit :: "u32 \<Rightarrow> u32" where
  "snd_pcm_rate_to_rate_bit rate = rate_to_bit_loop rate snd_pcm_known_rates 0"

fun bit_to_rate_loop :: "u32 \<Rightarrow> u32 list \<Rightarrow> nat \<Rightarrow> u32" where
  "bit_to_rate_loop rate_bit [] i = 0"
| "bit_to_rate_loop rate_bit (r # rs) i =
     (if push_bit i 1 = rate_bit then r else bit_to_rate_loop rate_bit rs (Suc i))"

definition snd_pcm_rate_bit_to_rate :: "u32 \<Rightarrow> u32" where
  "snd_pcm_rate_bit_to_rate rate_bit = bit_to_rate_loop rate_bit snd_pcm_known_rates 0"

definition snd_pcm_rate_mask_sanitize :: "u32 \<Rightarrow> u32" where
  "snd_pcm_rate_mask_sanitize r =
     (if r AND SNDRV_PCM_RATE_CONTINUOUS \<noteq> 0 then SNDRV_PCM_RATE_CONTINUOUS
      else if r AND SNDRV_PCM_RATE_KNOT \<noteq> 0 then SNDRV_PCM_RATE_KNOT
      else r)"

definition snd_pcm_rate_mask_intersect :: "u32 \<Rightarrow> u32 \<Rightarrow> u32" where
  "snd_pcm_rate_mask_intersect rates_a rates_b =
     (let rates_a = snd_pcm_rate_mask_sanitize rates_a;
          rates_b = snd_pcm_rate_mask_sanitize rates_b
      in if rates_a AND SNDRV_PCM_RATE_CONTINUOUS \<noteq> 0 then rates_b
         else if rates_b AND SNDRV_PCM_RATE_CONTINUOUS \<noteq> 0 then rates_a
         else if rates_a AND SNDRV_PCM_RATE_KNOT \<noteq> 0 then rates_b
         else if rates_b AND SNDRV_PCM_RATE_KNOT \<noteq> 0 then rates_a
         else rates_a AND rates_b)"

fun rate_range_loop :: "u32 \<Rightarrow> u32 \<Rightarrow> u32 list \<Rightarrow> nat \<Rightarrow> u32 \<Rightarrow> u32" where
  "rate_range_loop lo hi [] i acc = acc"
| "rate_range_loop lo hi (r # rs) i acc =
     rate_range_loop lo hi rs (Suc i) (if lo \<le> r \<and> r \<le> hi then acc OR push_bit i 1 else acc)"

definition snd_pcm_rate_range_to_bits :: "u32 \<Rightarrow> u32 \<Rightarrow> u32" where
  "snd_pcm_rate_range_to_bits lo hi =
     (let rates = rate_range_loop lo hi snd_pcm_known_rates 0 0
      in if rates = 0 then SNDRV_PCM_RATE_KNOT else rates)"

section \<open>Well-formedness of the table\<close>

definition format_ok :: "pcm_format_data \<Rightarrow> bool" where
  "format_ok d \<longleftrightarrow>
     fphys d \<in> {0, 3, 4, 5, 8, 16, 24, 32, 64} \<and> fwidth d \<le> fphys d \<and>
     (fwidth d = 0 \<longleftrightarrow> fphys d = 0) \<and>
     length (fsilence d) = 8 \<and> (fsignd d = 1 \<longrightarrow> fsilence d = replicate 8 0)"

lemma format_ok_sample: "\<forall>e \<in> set pcm_formats_sample. format_ok (snd e)"
  unfolding pcm_formats_sample_def
  by (simp add: sil_def format_ok_def numeral_eq_Suc)

lemma format_ok_other: "\<forall>e \<in> set pcm_formats_other. format_ok (snd e)"
  unfolding pcm_formats_other_def
  by (simp add: sil_def format_ok_def numeral_eq_Suc)

lemma format_ok_zero: "format_ok pcm_format_zero"
  by (simp add: pcm_format_zero_def sil_def format_ok_def)

lemma pcm_formats_entry:
  "pcm_formats format = pcm_format_zero \<or>
   (format, pcm_formats format) \<in> set pcm_formats_sample \<union> set pcm_formats_other"
proof (cases "map_of (pcm_formats_sample @ pcm_formats_other) format")
  case None
  then show ?thesis unfolding pcm_formats_def by (simp only: None option.case simp_thms)
next
  case (Some d)
  then have "(format, d) \<in> set (pcm_formats_sample @ pcm_formats_other)" by (rule map_of_SomeD)
  then show ?thesis unfolding pcm_formats_def by (simp only: Some option.case set_append simp_thms)
qed

lemma pcm_formats_ok: "format_ok (pcm_formats format)"
  using pcm_formats_entry [of format] format_ok_zero format_ok_sample format_ok_other by force

lemma concat_replicate_const:
  "concat (replicate n (replicate k x)) = replicate (n * k) x"
  by (induction n) (simp_all add: replicate_add)

lemma mult_div_8: "8 dvd w \<Longrightarrow> n * w div 8 = n * (w div 8)" for n w :: nat
  by (simp add: div_mult_swap)

lemma set_silence_fill:
  assumes v: "valid_format format" and w: "fphys (pcm_formats format) = w" "8 dvd w" "0 < w"
    and nowrap: "unat samples * w < 2 ^ 32"
  shows "snd_pcm_format_set_silence format samples =
     (0, concat (replicate (unat samples) (take (w div 8) (fsilence (pcm_formats format)))))"
proof -
  let ?d = "pcm_formats format"
  have ok: "format_ok ?d" by (rule pcm_formats_ok)
  have w': "w \<in> {8, 16, 24, 32, 64}" using ok w by (auto simp: format_ok_def)
  have bytes: "unat (samples * of_nat w div 8) = unat samples * (w div 8)"
  proof -
    have "unat (of_nat w :: u32) = w" using w' by auto
    then have "unat (samples * of_nat w) = unat samples * w"
      using nowrap by (simp add: unat_word_ariths)
    then show ?thesis using w(2) by (simp add: unat_div mult_div_8)
  qed
  show ?thesis
  proof (cases "fsignd ?d = 1 \<or> w \<le> 8")
    case True
    have "take (w div 8) (fsilence ?d) = replicate (w div 8) (hd (fsilence ?d))"
    proof (cases "fsignd ?d = 1")
      case True
      then have "fsilence ?d = replicate 8 0" using ok by (simp add: format_ok_def)
      then show ?thesis using w' by auto
    next
      case False
      then have "w = 8" using True w' by auto
      moreover have "fsilence ?d \<noteq> []" using ok by (auto simp: format_ok_def)
      ultimately show ?thesis by (cases "fsilence ?d") auto
    qed
    then show ?thesis using True v w bytes
      by (simp add: snd_pcm_format_set_silence_def concat_replicate_const)
  next
    case False
    then have "w div 8 \<in> {2, 3, 4, 8}" using w' by auto
    then show ?thesis using False v w by (auto simp: snd_pcm_format_set_silence_def Let_def)
  qed
qed

text \<open>The number a sample of the format has, read with the byte order of the format.\<close>

fun le_value :: "u8 list \<Rightarrow> nat" where
  "le_value [] = 0"
| "le_value (b # bs) = unat b + 256 * le_value bs"

lemma le_value_zeros [simp]:
  "le_value (replicate n 0) = 0" "le_value (replicate n 0 @ bs) = 256 ^ n * le_value bs"
  by (induction n) auto

definition sample_value :: "pcm_format_data \<Rightarrow> u8 list \<Rightarrow> nat" where
  "sample_value d bs = le_value (if fle d = 0 then rev bs else bs)"

definition silence_value :: "pcm_format_data \<Rightarrow> nat" where
  "silence_value d = sample_value d (take (fphys d div 8) (fsilence d))"

definition centred :: "int \<times> pcm_format_data \<Rightarrow> bool" where
  "centred e \<longleftrightarrow> fphys (snd e) \<noteq> 0 \<longrightarrow> fst e < 48 \<longrightarrow>
     (fsignd (snd e) = 1 \<longrightarrow> silence_value (snd e) = 0) \<and>
     (fsignd (snd e) = 0 \<longrightarrow> silence_value (snd e) = 2 ^ (fwidth (snd e) - 1))"

lemma centred_sample: "\<forall>e \<in> set pcm_formats_sample. centred e"
  unfolding pcm_formats_sample_def
  by (simp add: sil_def centred_def silence_value_def sample_value_def)

lemma centred_other: "\<forall>e \<in> set pcm_formats_other. centred e"
  unfolding pcm_formats_other_def
  by (simp add: sil_def centred_def silence_value_def sample_value_def)

lemma silence_centred:
  assumes "valid_format format" "format < 48" "fphys (pcm_formats format) \<noteq> 0"
  shows "snd_pcm_format_signed format = 1 \<Longrightarrow> silence_value (pcm_formats format) = 0"
    and "snd_pcm_format_signed format = 0 \<Longrightarrow>
      int (silence_value (pcm_formats format)) = 2 ^ nat (snd_pcm_format_width format - 1)"
proof -
  have "centred (format, pcm_formats format)"
    using pcm_formats_entry [of format] centred_sample centred_other assms(3)
    by (auto simp: pcm_format_zero_def)
  moreover have "fwidth (pcm_formats format) \<noteq> 0"
    using pcm_formats_ok [of format] assms(3) by (simp add: format_ok_def)
  ultimately show "snd_pcm_format_signed format = 1 \<Longrightarrow> silence_value (pcm_formats format) = 0"
    "snd_pcm_format_signed format = 0 \<Longrightarrow>
      int (silence_value (pcm_formats format)) = 2 ^ nat (snd_pcm_format_width format - 1)"
    using assms by (auto simp: centred_def snd_pcm_format_signed_def snd_pcm_format_width_def Let_def
        nat_diff_distrib' split: if_splits)
qed

section \<open>Rates and rate masks\<close>

lemma and_bit_iff: "w AND push_bit k 1 \<noteq> 0 \<longleftrightarrow> bit w k" for w :: u32
  by (simp add: bit_iff_and_push_bit_not_eq_0)

lemma rate_scan_up_Some:
  assumes "rate_scan_up msk rs i = Some r"
  obtains j where "j < length rs" "r = rs ! j" "bit msk (i + j)" "\<And>k. k < j \<Longrightarrow> \<not> bit msk (i + k)"
  using assms
proof (induction rs arbitrary: i thesis)
  case (Cons a rs)
  show ?case
  proof (cases "bit msk i")
    case True
    then show ?thesis using Cons.prems by (intro Cons.prems(1) [of 0]) (auto simp: and_bit_iff simp del: push_bit_of_1)
  next
    case False
    then have "rate_scan_up msk rs (Suc i) = Some r"
      using Cons.prems(2) by (simp add: and_bit_iff del: push_bit_of_1)
    then obtain j where j: "j < length rs" "r = rs ! j" "bit msk (Suc i + j)"
      "\<And>k. k < j \<Longrightarrow> \<not> bit msk (Suc i + k)" using Cons.IH by metis
    show ?thesis
    proof (rule Cons.prems(1) [of "Suc j"])
      show "\<not> bit msk (i + k)" if "k < Suc j" for k
        using that j(4) False by (cases k) auto
    qed (use j in auto)
  qed
qed simp

lemma rate_scan_down_Some:
  assumes "rate_scan_down msk rs n = Some r"
  obtains j where "j < n" "r = rs ! j" "bit msk j" "\<And>k. j < k \<Longrightarrow> k < n \<Longrightarrow> \<not> bit msk k"
  using assms
proof (induction n arbitrary: thesis)
  case (Suc n)
  show ?case
  proof (cases "bit msk n")
    case True
    then show ?thesis using Suc.prems
      by (intro Suc.prems(1) [of n]) (auto simp: and_bit_iff simp del: push_bit_of_1)
  next
    case False
    then have "rate_scan_down msk rs n = Some r"
      using Suc.prems(2) by (simp add: and_bit_iff del: push_bit_of_1)
    then show ?thesis using Suc.IH Suc.prems(1) False by (metis less_Suc_eq)
  qed
qed simp

lemma rate_scan_up_defined:
  "j < length rs \<Longrightarrow> bit msk (i + j) \<Longrightarrow> \<exists>r. rate_scan_up msk rs i = Some r"
proof (induction rs arbitrary: i j)
  case (Cons a rs)
  show ?case
  proof (cases j)
    case 0
    then show ?thesis using Cons.prems by (simp add: and_bit_iff del: push_bit_of_1)
  next
    case (Suc k)
    then show ?thesis using Cons.prems Cons.IH [of k "Suc i"]
      by (simp add: and_bit_iff del: push_bit_of_1)
  qed
qed simp

lemma rate_scan_down_defined:
  "k < n \<Longrightarrow> bit msk k \<Longrightarrow> \<exists>r. rate_scan_down msk rs n = Some r"
  by (induction n) (auto simp: and_bit_iff less_Suc_eq simp del: push_bit_of_1)

lemma known_rates_sorted: "sorted snd_pcm_known_rates" "length snd_pcm_known_rates = 15"
  by (simp_all add: snd_pcm_known_rates_def)

lemma limit_rates_bounds:
  assumes k: "k < length snd_pcm_known_rates" and b: "bit (rates hw) k"
  defines "hw' \<equiv> snd (snd_pcm_hw_limit_rates hw)"
  shows "rate_min hw' \<le> snd_pcm_known_rates ! k" and "snd_pcm_known_rates ! k \<le> rate_max hw'"
    and "\<exists>j<length snd_pcm_known_rates. bit (rates hw) j \<and> rate_min hw' = snd_pcm_known_rates ! j"
    and "\<exists>j<length snd_pcm_known_rates. bit (rates hw) j \<and> rate_max hw' = snd_pcm_known_rates ! j"
proof -
  let ?n = "length snd_pcm_known_rates"
  obtain lo where lo: "rate_scan_up (rates hw) snd_pcm_known_rates 0 = Some lo"
    using rate_scan_up_defined [OF k, of "rates hw" 0] b by auto
  obtain hi where hi: "rate_scan_down (rates hw) snd_pcm_known_rates ?n = Some hi"
    using rate_scan_down_defined [OF k b] by blast
  have hw': "rate_min hw' = lo" "rate_max hw' = hi"
    by (simp_all add: hw'_def snd_pcm_hw_limit_rates_def lo hi)
  obtain j where j: "j < ?n" "lo = snd_pcm_known_rates ! j" "bit (rates hw) j"
    "\<And>k. k < j \<Longrightarrow> \<not> bit (rates hw) k" using rate_scan_up_Some [OF lo] by auto
  obtain m where m: "m < ?n" "hi = snd_pcm_known_rates ! m" "bit (rates hw) m"
    "\<And>k. m < k \<Longrightarrow> k < ?n \<Longrightarrow> \<not> bit (rates hw) k" using rate_scan_down_Some [OF hi] by auto
  have "j \<le> k" "k \<le> m" using j(4) m(4) b k by (meson not_le)+
  then show "rate_min hw' \<le> snd_pcm_known_rates ! k" "snd_pcm_known_rates ! k \<le> rate_max hw'"
    using known_rates_sorted(1) k m(1) by (auto simp: hw' j(2) m(2) sorted_iff_nth_mono)
  show "\<exists>j<?n. bit (rates hw) j \<and> rate_min hw' = snd_pcm_known_rates ! j"
    "\<exists>j<?n. bit (rates hw) j \<and> rate_max hw' = snd_pcm_known_rates ! j"
    using j m by (auto simp: hw')
qed

lemma rate_to_bit_index:
  "j < length rs \<Longrightarrow> distinct rs \<Longrightarrow> rate_to_bit_loop (rs ! j) rs i = push_bit (i + j) 1"
  by (induction rs arbitrary: i j) (auto simp: nth_Cons split: nat.splits)

lemma push_bit_one_eq_iff:
  assumes "a < 32" "b < 32"
  shows "push_bit a (1 :: u32) = push_bit b 1 \<longleftrightarrow> a = b"
proof
  assume eq: "push_bit a (1 :: u32) = push_bit b 1"
  have "bit (push_bit a (1 :: u32)) a" using assms(1) by (simp add: bit_exp_iff)
  then show "a = b" unfolding eq by (simp add: bit_exp_iff)
qed simp

lemma bit_to_rate_index:
  "j < length rs \<Longrightarrow> i + length rs \<le> 32 \<Longrightarrow> bit_to_rate_loop (push_bit (i + j) 1) rs i = rs ! j"
proof (induction rs arbitrary: i j)
  case (Cons r rs)
  show ?case
  proof (cases j)
    case (Suc k)
    then show ?thesis using Cons.prems Cons.IH [of k "Suc i"] push_bit_one_eq_iff [of i "i + j"]
      by (simp del: push_bit_of_1)
  qed simp
qed simp

lemma rate_bit_round_trip:
  assumes "rate \<in> set snd_pcm_known_rates"
  shows "snd_pcm_rate_bit_to_rate (snd_pcm_rate_to_rate_bit rate) = rate"
proof -
  obtain j where j: "j < length snd_pcm_known_rates" "rate = snd_pcm_known_rates ! j"
    using assms by (metis in_set_conv_nth)
  have "distinct snd_pcm_known_rates" by (simp add: snd_pcm_known_rates_def)
  then show ?thesis
    using rate_to_bit_index [OF j(1), of 0] bit_to_rate_index [OF j(1), of 0] j known_rates_sorted(2)
    by (simp add: snd_pcm_rate_to_rate_bit_def snd_pcm_rate_bit_to_rate_def del: push_bit_of_1)
qed

lemma rate_to_bit_unknown: "rate \<notin> set rs \<Longrightarrow> rate_to_bit_loop rate rs i = SNDRV_PCM_RATE_KNOT"
  by (induction rs arbitrary: i) auto

lemma rate_range_bit:
  "i + length rs \<le> 32 \<Longrightarrow>
   bit (rate_range_loop lo hi rs i acc) k \<longleftrightarrow>
     bit acc k \<or> (i \<le> k \<and> k < i + length rs \<and> lo \<le> rs ! (k - i) \<and> rs ! (k - i) \<le> hi)"
proof (induction rs arbitrary: i acc)
  case (Cons r rs)
  have "bit (acc OR push_bit i 1) k \<longleftrightarrow> bit acc k \<or> k = i"
    using Cons.prems by (auto simp: bit_or_iff bit_exp_iff)
  then have acc: "bit (if lo \<le> r \<and> r \<le> hi then acc OR push_bit i 1 else acc) k \<longleftrightarrow>
      bit acc k \<or> (k = i \<and> lo \<le> r \<and> r \<le> hi)" by (simp only: split: if_split) blast
  consider "k = i" | "k < i" | d where "k = Suc i + d"
    using less_imp_Suc_add [of i k] by (metis add_Suc nat_neq_iff)
  then show ?case
    using Cons.prems Cons.IH [of "Suc i" "if lo \<le> r \<and> r \<le> hi then acc OR push_bit i 1 else acc"]
    unfolding rate_range_loop.simps acc by cases simp_all
qed auto

lemma rate_range_to_bits_bit:
  assumes "k < length snd_pcm_known_rates"
  shows "bit (snd_pcm_rate_range_to_bits lo hi) k \<longleftrightarrow>
     lo \<le> snd_pcm_known_rates ! k \<and> snd_pcm_known_rates ! k \<le> hi"
proof -
  let ?r = "rate_range_loop lo hi snd_pcm_known_rates 0 0"
  have r: "bit ?r k \<longleftrightarrow> lo \<le> snd_pcm_known_rates ! k \<and> snd_pcm_known_rates ! k \<le> hi"
    using rate_range_bit [of 0 snd_pcm_known_rates lo hi 0 k] assms known_rates_sorted(2) by simp
  have knot: "SNDRV_PCM_RATE_KNOT = 2 ^ 31" by simp
  have "k \<noteq> 31" using assms known_rates_sorted(2) by simp
  then have "\<not> bit SNDRV_PCM_RATE_KNOT k" unfolding knot bit_exp_iff by blast
  moreover have "\<not> bit (0 :: u32) k" by simp
  ultimately have "bit (if ?r = 0 then SNDRV_PCM_RATE_KNOT else ?r) k \<longleftrightarrow> bit ?r k"
    by (cases "?r = 0") (simp_all only: if_True if_False simp_thms)
  then show ?thesis unfolding snd_pcm_rate_range_to_bits_def Let_def r .
qed

text \<open>Masks without the two special bits are intersected bitwise.\<close>

definition plain_rates :: "u32 \<Rightarrow> bool" where
  "plain_rates r \<longleftrightarrow> r AND SNDRV_PCM_RATE_CONTINUOUS = 0 \<and> r AND SNDRV_PCM_RATE_KNOT = 0"

lemma sanitize_cases:
  "snd_pcm_rate_mask_sanitize r = SNDRV_PCM_RATE_CONTINUOUS \<or>
   snd_pcm_rate_mask_sanitize r = SNDRV_PCM_RATE_KNOT \<or>
   snd_pcm_rate_mask_sanitize r = r \<and> plain_rates r"
  by (auto simp: snd_pcm_rate_mask_sanitize_def plain_rates_def)

lemma rate_mask_intersect_spec:
  "snd_pcm_rate_mask_intersect a b = snd_pcm_rate_mask_intersect b a"
  "plain_rates a \<Longrightarrow> plain_rates b \<Longrightarrow> snd_pcm_rate_mask_intersect a b = a AND b"
  "plain_rates b \<Longrightarrow> \<not> plain_rates a \<Longrightarrow> snd_pcm_rate_mask_intersect a b = b"
proof -
  show "snd_pcm_rate_mask_intersect a b = snd_pcm_rate_mask_intersect b a"
    using sanitize_cases [of a] sanitize_cases [of b] unfolding snd_pcm_rate_mask_intersect_def
    by (elim disjE conjE) (simp_all add: plain_rates_def and.commute)
  show "plain_rates a \<Longrightarrow> plain_rates b \<Longrightarrow> snd_pcm_rate_mask_intersect a b = a AND b"
    by (simp add: snd_pcm_rate_mask_intersect_def snd_pcm_rate_mask_sanitize_def plain_rates_def)
  show "plain_rates b \<Longrightarrow> \<not> plain_rates a \<Longrightarrow> snd_pcm_rate_mask_intersect a b = b"
    by (auto simp: snd_pcm_rate_mask_intersect_def snd_pcm_rate_mask_sanitize_def plain_rates_def)
qed

section \<open>Properties\<close>

text \<open>
  For every format with whole-byte samples, and as long as the byte count does not wrap,
  \<^verbatim>\<open>snd_pcm_format_set_silence\<close> succeeds and writes the silence pattern of the format once per
  sample, whether it uses the \<^verbatim>\<open>memset\<close> or one of the copying loops.
\<close>

theorem set_silence_fills:
  assumes "valid_format format" "fphys (pcm_formats format) = w" "8 dvd w" "0 < w"
    and "unat samples * w < 2 ^ 32"
  shows "snd_pcm_format_set_silence format samples =
     (0, concat (replicate (unat samples) (take (w div 8) (fsilence (pcm_formats format)))))"
  using set_silence_fill [OF assms] .

lemma pcm_formats_U16_BE: "pcm_formats 5 = \<lparr>fwidth = 16, fphys = 16, fle = 0, fsignd = 0, fsilence = sil [0x80, 0]\<rparr>"
  by (simp add: pcm_formats_def pcm_formats_sample_def pcm_formats_other_def)

theorem set_silence_fills_witness:
  "snd_pcm_format_set_silence 5 2 = (0, concat (replicate 2 [0x80, 0]))"
  using set_silence_fills [of 5 16 2]
  by (simp add: pcm_formats_U16_BE valid_format_def sil_def)

text \<open>
  Below the DSD formats the silence of a signed linear format is the sample 0, and the
  silence of an unsigned linear format is the middle \<open>2 ^ (width - 1)\<close> of its range, both read
  with the byte order and the physical width of the format.
\<close>

theorem silence_is_centred:
  assumes "valid_format format" "format < 48" "0 \<le> snd_pcm_format_physical_width format"
  shows "(snd_pcm_format_signed format = 1 \<longrightarrow> silence_value (pcm_formats format) = 0) \<and>
     (snd_pcm_format_signed format = 0 \<longrightarrow>
        int (silence_value (pcm_formats format)) = 2 ^ nat (snd_pcm_format_width format - 1))"
proof -
  have "fphys (pcm_formats format) \<noteq> 0"
    using assms by (auto simp: snd_pcm_format_physical_width_def Let_def split: if_splits)
  then show ?thesis using silence_centred [OF assms(1,2)] by blast
qed

theorem silence_is_centred_witness: "int (silence_value (pcm_formats 5)) = 32768"
  using silence_is_centred [of 5]
  by (simp add: pcm_formats_U16_BE valid_format_def snd_pcm_format_physical_width_def
      snd_pcm_format_width_def snd_pcm_format_signed_def)

text \<open>
  The format numbers 29 and 30 have no entry in the table: their widths are errors, yet
  \<^verbatim>\<open>snd_pcm_format_linear\<close> and \<^verbatim>\<open>snd_pcm_format_unsigned\<close> answer yes for them, because the
  missing entries are zero.
\<close>

theorem format_gap:
  "snd_pcm_format_linear 29 = 1 \<and> snd_pcm_format_unsigned 29 = 1 \<and>
   snd_pcm_format_width 29 = - EINVAL \<and> snd_pcm_format_linear 30 = 1 \<and>
   snd_pcm_format_width 30 = - EINVAL"
proof -
  have "pcm_formats 29 = pcm_format_zero" "pcm_formats 30 = pcm_format_zero"
    by (simp_all add: pcm_formats_def pcm_formats_sample_def pcm_formats_other_def)
  then show ?thesis
    by (simp add: snd_pcm_format_linear_def snd_pcm_format_unsigned_def snd_pcm_format_width_def
        snd_pcm_format_signed_def valid_format_def pcm_format_zero_def)
qed

text \<open>
  A known rate survives the conversion to its \<^verbatim>\<open>SNDRV_PCM_RATE_xxx\<close> bit and back; an
  unknown rate becomes \<^verbatim>\<open>SNDRV_PCM_RATE_KNOT\<close>; and bit \<open>k\<close> of \<^verbatim>\<open>snd_pcm_rate_range_to_bits\<close> says
  whether the known rate \<open>k\<close> lies in the range.
\<close>

theorem rate_bits_round_trip:
  "(rate \<in> set snd_pcm_known_rates \<longrightarrow>
      snd_pcm_rate_bit_to_rate (snd_pcm_rate_to_rate_bit rate) = rate) \<and>
   (rate \<notin> set snd_pcm_known_rates \<longrightarrow> snd_pcm_rate_to_rate_bit rate = SNDRV_PCM_RATE_KNOT) \<and>
   (k < 15 \<longrightarrow> (bit (snd_pcm_rate_range_to_bits lo hi) k \<longleftrightarrow>
      lo \<le> snd_pcm_known_rates ! k \<and> snd_pcm_known_rates ! k \<le> hi))"
  using rate_bit_round_trip rate_to_bit_unknown [of rate snd_pcm_known_rates 0]
    rate_range_to_bits_bit [of k lo hi] known_rates_sorted(2)
  unfolding snd_pcm_rate_to_rate_bit_def by metis

theorem rate_bits_round_trip_witness:
  "snd_pcm_rate_bit_to_rate (snd_pcm_rate_to_rate_bit 48000) = 48000"
  using rate_bits_round_trip [of 48000] by (simp add: snd_pcm_known_rates_def)

text \<open>
  \<^verbatim>\<open>snd_pcm_hw_limit_rates\<close> sets \<^verbatim>\<open>rate_min\<close> and \<^verbatim>\<open>rate_max\<close> to rates of the mask that
  enclose every known rate of the mask.
\<close>

theorem limit_rates_tight:
  assumes "k < 15" and "bit (rates hw) k"
  shows "rate_min (snd (snd_pcm_hw_limit_rates hw)) \<le> snd_pcm_known_rates ! k \<and>
     snd_pcm_known_rates ! k \<le> rate_max (snd (snd_pcm_hw_limit_rates hw)) \<and>
     (\<exists>j<15. bit (rates hw) j \<and> rate_min (snd (snd_pcm_hw_limit_rates hw)) = snd_pcm_known_rates ! j) \<and>
     (\<exists>j<15. bit (rates hw) j \<and> rate_max (snd (snd_pcm_hw_limit_rates hw)) = snd_pcm_known_rates ! j)"
  using limit_rates_bounds [of k hw] assms known_rates_sorted(2) by simp

theorem limit_rates_tight_witness:
  "rate_min (snd (snd_pcm_hw_limit_rates \<lparr>rates = 0x80, rate_min = 0, rate_max = 0\<rparr>)) \<le> 48000"
  using limit_rates_tight [of 7 "\<lparr>rates = 0x80, rate_min = 0, rate_max = 0\<rparr>"]
  by (simp add: snd_pcm_known_rates_def)

text \<open>
  \<^verbatim>\<open>snd_pcm_rate_mask_intersect\<close> is symmetric, intersects two plain masks bitwise, and
  gives a plain mask unchanged when the other one is continuous or has \<^verbatim>\<open>SNDRV_PCM_RATE_KNOT\<close>.
\<close>

theorem rate_mask_intersect_ok:
  "snd_pcm_rate_mask_intersect a b = snd_pcm_rate_mask_intersect b a \<and>
   (plain_rates a \<and> plain_rates b \<longrightarrow> snd_pcm_rate_mask_intersect a b = a AND b) \<and>
   (plain_rates b \<and> \<not> plain_rates a \<longrightarrow> snd_pcm_rate_mask_intersect a b = b)"
  using rate_mask_intersect_spec by blast

theorem rate_mask_intersect_ok_witness: "snd_pcm_rate_mask_intersect 0xE0 0xC1 = 0xC0"
  using rate_mask_intersect_ok [of "0xE0" "0xC1", THEN conjunct2] by (simp add: plain_rates_def)

end
