(* ===== verification/HwParams.thy ===== *)
theory HwParams
  imports Interval_Arith Mask PcmFormat
begin

text \<open>
  The hardware parameter space of a PCM substream: the structures of \<^verbatim>\<open>include/sound/pcm.h\<close> and
  \<^verbatim>\<open>uapi/sound/asound.h\<close>, the constraint and rule functions of \<^verbatim>\<open>core/pcm_lib.c\<close>
  (\<^verbatim>\<open>snd_pcm_hw_rule_add\<close> to \<^verbatim>\<open>snd_pcm_hw_rule_noresample\<close>) and the configurator of
  \<^verbatim>\<open>core/pcm_native.c\<close>: the built-in rules, \<^verbatim>\<open>snd_pcm_hw_constraints_init\<close>,
  \<^verbatim>\<open>snd_pcm_hw_constraints_complete\<close> and \<^verbatim>\<open>snd_pcm_hw_refine\<close> with its fixpoint loop.

  A rule is a value of \<open>rule_func\<close>: one constructor per rule function of the core with the
  private data it is registered with, and \<open>Rule_driver\<close> for a function a driver supplies. A
  result \<open>None\<close> is a division by zero (a zero step).
\<close>

section \<open>Structures\<close>

record hw_params =
  hp_flags :: u32
  masks :: "snd_mask list"
  intervals :: "snd_interval list"
  rmask :: u32
  cmask :: u32
  hp_info :: u32
  msbits :: u32
  rate_num :: u32
  rate_den :: u32
  hp_fifo_size :: u32

abbreviation (input) PARAM_ACCESS :: nat where "PARAM_ACCESS \<equiv> 0"
abbreviation (input) PARAM_RATE_MASK :: nat where "PARAM_RATE_MASK \<equiv> 1"
abbreviation (input) PARAM_FORMAT :: nat where "PARAM_FORMAT \<equiv> 2"
abbreviation (input) PARAM_SUBFORMAT :: nat where "PARAM_SUBFORMAT \<equiv> 3"
abbreviation (input) PARAM_SAMPLE_BITS :: nat where "PARAM_SAMPLE_BITS \<equiv> 8"
abbreviation (input) PARAM_FRAME_BITS :: nat where "PARAM_FRAME_BITS \<equiv> 9"
abbreviation (input) PARAM_CHANNELS :: nat where "PARAM_CHANNELS \<equiv> 10"
abbreviation (input) PARAM_RATE :: nat where "PARAM_RATE \<equiv> 11"
abbreviation (input) PARAM_PERIOD_TIME :: nat where "PARAM_PERIOD_TIME \<equiv> 12"
abbreviation (input) PARAM_PERIOD_SIZE :: nat where "PARAM_PERIOD_SIZE \<equiv> 13"
abbreviation (input) PARAM_PERIOD_BYTES :: nat where "PARAM_PERIOD_BYTES \<equiv> 14"
abbreviation (input) PARAM_PERIODS :: nat where "PARAM_PERIODS \<equiv> 15"
abbreviation (input) PARAM_BUFFER_TIME :: nat where "PARAM_BUFFER_TIME \<equiv> 16"
abbreviation (input) PARAM_BUFFER_SIZE :: nat where "PARAM_BUFFER_SIZE \<equiv> 17"
abbreviation (input) PARAM_BUFFER_BYTES :: nat where "PARAM_BUFFER_BYTES \<equiv> 18"
abbreviation (input) PARAM_TICK_TIME :: nat where "PARAM_TICK_TIME \<equiv> 19"

abbreviation (input) SNDRV_PCM_HW_PARAMS_NORESAMPLE :: u32 where
  "SNDRV_PCM_HW_PARAMS_NORESAMPLE \<equiv> 1"

definition hw_is_mask :: "nat \<Rightarrow> bool" where
  "hw_is_mask var \<longleftrightarrow> var \<le> PARAM_SUBFORMAT"

definition hw_is_interval :: "nat \<Rightarrow> bool" where
  "hw_is_interval var \<longleftrightarrow> PARAM_SAMPLE_BITS \<le> var \<and> var \<le> PARAM_TICK_TIME"

definition PARAM_MASK_BIT :: "nat \<Rightarrow> u32" where
  "PARAM_MASK_BIT b = push_bit b 1"

definition hw_param_mask :: "hw_params \<Rightarrow> nat \<Rightarrow> snd_mask" where
  "hw_param_mask p var = masks p ! var"

definition hw_param_interval :: "hw_params \<Rightarrow> nat \<Rightarrow> snd_interval" where
  "hw_param_interval p var = intervals p ! (var - PARAM_SAMPLE_BITS)"

text \<open>Writing through the pointers that \<^verbatim>\<open>hw_param_mask\<close> and \<^verbatim>\<open>hw_param_interval\<close> return.\<close>

definition set_mask :: "nat \<Rightarrow> snd_mask \<Rightarrow> hw_params \<Rightarrow> hw_params" where
  "set_mask var m p = p\<lparr>masks := (masks p)[var := m]\<rparr>"

definition set_interval :: "nat \<Rightarrow> snd_interval \<Rightarrow> hw_params \<Rightarrow> hw_params" where
  "set_interval var i p = p\<lparr>intervals := (intervals p)[var - PARAM_SAMPLE_BITS := i]\<rparr>"

datatype rule_func =
    Rule_list "u32 list" u32
  | Rule_ranges "snd_interval list" u32
  | Rule_ratnums "snd_ratnum list"
  | Rule_ratdens "snd_ratden list"
  | Rule_msbits u32
  | Rule_step u32
  | Rule_pow2
  | Rule_noresample u32
  | Rule_mul
  | Rule_div
  | Rule_muldivk u32
  | Rule_mulkdiv u32
  | Rule_format
  | Rule_sample_bits
  | Rule_rate
  | Rule_buffer_bytes_max
  | Rule_driver "hw_params \<Rightarrow> (int \<times> hw_params) option"

text \<open>The entries of \<^verbatim>\<open>deps\<close> before the negative sentinel.\<close>

record hw_rule =
  r_cond :: u32
  r_var :: int
  r_deps :: "nat list"
  r_func :: rule_func

record hw_constraints =
  cmasks :: "snd_mask list"
  cintervals :: "snd_interval list"
  rules :: "hw_rule list"
  rules_all :: nat

definition constrs_mask :: "hw_constraints \<Rightarrow> nat \<Rightarrow> snd_mask" where
  "constrs_mask c v = cmasks c ! v"

definition constrs_interval :: "hw_constraints \<Rightarrow> nat \<Rightarrow> snd_interval" where
  "constrs_interval c v = cintervals c ! (v - PARAM_SAMPLE_BITS)"

record snd_pcm_hardware = hw_rates +
  hw_info :: u32
  formats :: u64
  channels_min :: u32
  channels_max :: u32
  buffer_bytes_max :: u32
  period_bytes_min :: u32
  period_bytes_max :: u32
  periods_min :: u32
  periods_max :: u32
  hw_fifo_size :: u32

datatype dma_type = DMA_UNKNOWN | DMA_CONTINUOUS | DMA_VMALLOC | DMA_OTHER

text \<open>
  What the configurator reads of the substream, its runtime and its operations.
  \<^verbatim>\<open>snd_pcm_get_dma_buf\<close> is \<open>get_dma_buf\<close> and \<^verbatim>\<open>dma_can_mmap\<close> of the kernel is a field.
\<close>

record pcm_substream =
  ss_hw :: snd_pcm_hardware
  ss_constrs :: hw_constraints
  ss_buffer_bytes_max :: u32
  ss_dma_bytes :: u32
  ops_mmap :: bool
  ops_page :: bool
  get_dma_buf :: "dma_type option"
  ss_dma_buffer :: dma_type
  dma_can_mmap :: bool

section \<open>Constraints on the space\<close>

text \<open>\<open>alloc\<close> says for which sizes \<^verbatim>\<open>krealloc_array\<close> succeeds.\<close>

definition snd_pcm_hw_rule_add ::
  "(nat \<Rightarrow> bool) \<Rightarrow> hw_constraints \<Rightarrow> u32 \<Rightarrow> int \<Rightarrow> rule_func \<Rightarrow> nat list \<Rightarrow> int \<times> hw_constraints" where
  "snd_pcm_hw_rule_add alloc constrs cnd v f dep =
     (let grow = length (rules constrs) \<ge> rules_all constrs;
          new_rules = rules_all constrs + 16
      in if grow \<and> \<not> alloc new_rules then (- ENOMEM, constrs)
         else
           let constrs = (if grow then constrs\<lparr>rules_all := new_rules\<rparr> else constrs);
               c = \<lparr>r_cond = cnd, r_var = v, r_deps = dep, r_func = f\<rparr>
           in (0, constrs\<lparr>rules := rules constrs @ [c]\<rparr>))"

definition snd_pcm_hw_constraint_mask ::
  "hw_constraints \<Rightarrow> nat \<Rightarrow> u32 \<Rightarrow> int \<times> hw_constraints" where
  "snd_pcm_hw_constraint_mask constrs v msk =
     (let maskp = constrs_mask constrs v;
          w = hd (bits maskp) AND msk;
          maskp = maskp\<lparr>bits := w # replicate (SNDRV_MASK_WORDS - 1) 0\<rparr>;
          constrs = constrs\<lparr>cmasks := (cmasks constrs)[v := maskp]\<rparr>
      in (if w = 0 then - EINVAL else 0, constrs))"

definition snd_pcm_hw_constraint_mask64 ::
  "hw_constraints \<Rightarrow> nat \<Rightarrow> u64 \<Rightarrow> int \<times> hw_constraints" where
  "snd_pcm_hw_constraint_mask64 constrs v msk =
     (let maskp = constrs_mask constrs v;
          w0 = bits maskp ! 0 AND ucast msk;
          w1 = bits maskp ! 1 AND ucast (drop_bit 32 msk);
          maskp = maskp\<lparr>bits := w0 # w1 # replicate (SNDRV_MASK_WORDS - 2) 0\<rparr>;
          constrs = constrs\<lparr>cmasks := (cmasks constrs)[v := maskp]\<rparr>
      in (if w0 = 0 \<and> w1 = 0 then - EINVAL else 0, constrs))"

definition set_constrs_interval :: "nat \<Rightarrow> snd_interval \<Rightarrow> hw_constraints \<Rightarrow> hw_constraints" where
  "set_constrs_interval v i c = c\<lparr>cintervals := (cintervals c)[v - PARAM_SAMPLE_BITS := i]\<rparr>"

definition snd_pcm_hw_constraint_integer :: "hw_constraints \<Rightarrow> nat \<Rightarrow> int \<times> hw_constraints" where
  "snd_pcm_hw_constraint_integer constrs v =
     (let (err, i) = snd_interval_setinteger (constrs_interval constrs v)
      in (err, set_constrs_interval v i constrs))"

text \<open>\<^verbatim>\<open>t\<close> is a local variable whose \<^verbatim>\<open>empty\<close> bit is not set: it is not read either.\<close>

definition snd_pcm_hw_constraint_minmax ::
  "hw_constraints \<Rightarrow> nat \<Rightarrow> u32 \<Rightarrow> u32 \<Rightarrow> int \<times> hw_constraints" where
  "snd_pcm_hw_constraint_minmax constrs v lo hi =
     (let t = \<lparr>iv_min = lo, iv_max = hi, openmin = False, openmax = False,
               iv_integer = False, iv_empty = False\<rparr>;
          (err, i) = snd_interval_refine (constrs_interval constrs v) t
      in (err, set_constrs_interval v i constrs))"

section \<open>Rule functions\<close>

text \<open>\<open>interval_rule\<close>: a rule that rewrites the interval of its variable and returns the status.\<close>

definition interval_rule :: "nat \<Rightarrow> hw_params \<Rightarrow> int \<times> snd_interval \<Rightarrow> int \<times> hw_params" where
  "interval_rule v p res = (fst res, set_interval v (snd res) p)"

definition snd_pcm_hw_rule_list :: "nat \<Rightarrow> u32 list \<Rightarrow> u32 \<Rightarrow> hw_params \<Rightarrow> int \<times> hw_params" where
  "snd_pcm_hw_rule_list v xs msk p =
     interval_rule v p (snd_interval_list (hw_param_interval p v) xs msk)"

definition snd_pcm_hw_rule_ranges ::
  "nat \<Rightarrow> snd_interval list \<Rightarrow> u32 \<Rightarrow> hw_params \<Rightarrow> int \<times> hw_params" where
  "snd_pcm_hw_rule_ranges v rs msk p =
     interval_rule v p (snd_interval_ranges (hw_param_interval p v) rs msk)"

text \<open>\<open>ratio\<close>: the fraction stored by \<^verbatim>\<open>snd_interval_ratnum\<close> or \<^verbatim>\<open>snd_interval_ratden\<close>; both
  variables are zero when nothing was stored.\<close>

definition store_ratio :: "nat \<Rightarrow> int \<Rightarrow> (u32 \<times> u32) option \<Rightarrow> hw_params \<Rightarrow> hw_params" where
  "store_ratio v err ratio p =
     (let (num, den) = (case ratio of None \<Rightarrow> (0, 0) | Some nd \<Rightarrow> nd)
      in if err \<ge> 0 \<and> den \<noteq> 0 \<and> v = PARAM_RATE
         then p\<lparr>rate_num := num, rate_den := den\<rparr> else p)"

definition snd_pcm_hw_rule_ratnums ::
  "nat \<Rightarrow> snd_ratnum list \<Rightarrow> hw_params \<Rightarrow> (int \<times> hw_params) option" where
  "snd_pcm_hw_rule_ratnums v rats p =
     (case snd_interval_ratnum (hw_param_interval p v) rats of
        None \<Rightarrow> None
      | Some (err, i, ratio) \<Rightarrow> Some (err, store_ratio v err ratio (set_interval v i p)))"

definition snd_pcm_hw_rule_ratdens ::
  "nat \<Rightarrow> snd_ratden list \<Rightarrow> hw_params \<Rightarrow> (int \<times> hw_params) option" where
  "snd_pcm_hw_rule_ratdens v rats p =
     (case snd_interval_ratden (hw_param_interval p v) rats of
        None \<Rightarrow> None
      | Some (err, i, ratio) \<Rightarrow> Some (err, store_ratio v err ratio (set_interval v i p)))"

definition min_not_zero :: "u32 \<Rightarrow> u32 \<Rightarrow> u32" where
  "min_not_zero x y = (if x = 0 then y else if y = 0 then x else min x y)"

definition snd_pcm_hw_rule_msbits :: "u32 \<Rightarrow> hw_params \<Rightarrow> int \<times> hw_params" where
  "snd_pcm_hw_rule_msbits l p =
     (let width = l AND 0xffff; ms = drop_bit 16 l;
          i = hw_param_interval p PARAM_SAMPLE_BITS
      in if \<not> snd_interval_single i then (0, p)
         else if snd_interval_value i = width \<or> width = 0 \<and> snd_interval_value i > ms
         then (0, p\<lparr>msbits := min_not_zero (msbits p) ms\<rparr>)
         else (0, p))"

definition snd_pcm_hw_rule_step :: "nat \<Rightarrow> u32 \<Rightarrow> hw_params \<Rightarrow> (int \<times> hw_params) option" where
  "snd_pcm_hw_rule_step v step p =
     map_option (interval_rule v p) (snd_interval_step (hw_param_interval p v) step)"

definition pow2_sizes :: "u32 list" where
  "pow2_sizes = map (\<lambda>k. push_bit k 1) [0..<31]"

definition snd_pcm_hw_rule_pow2 :: "nat \<Rightarrow> hw_params \<Rightarrow> int \<times> hw_params" where
  "snd_pcm_hw_rule_pow2 v p = interval_rule v p (snd_interval_list (hw_param_interval p v) pow2_sizes 0)"

definition snd_pcm_hw_rule_noresample_func :: "u32 \<Rightarrow> hw_params \<Rightarrow> int \<times> hw_params" where
  "snd_pcm_hw_rule_noresample_func base_rate p =
     interval_rule PARAM_RATE p (snd_interval_list (hw_param_interval p PARAM_RATE) [base_rate] 0)"

text \<open>
  The built-in rules. \<open>t0\<close> is the uninitialised local interval \<^verbatim>\<open>t\<close>: it is only partly written
  when an operand is empty.
\<close>

definition snd_pcm_hw_rule_mul ::
  "snd_interval \<Rightarrow> nat \<Rightarrow> nat \<Rightarrow> nat \<Rightarrow> hw_params \<Rightarrow> int \<times> hw_params" where
  "snd_pcm_hw_rule_mul t0 v d0 d1 p =
     (let t = snd_interval_mul (hw_param_interval p d0) (hw_param_interval p d1) t0
      in interval_rule v p (snd_interval_refine (hw_param_interval p v) t))"

definition snd_pcm_hw_rule_div ::
  "snd_interval \<Rightarrow> nat \<Rightarrow> nat \<Rightarrow> nat \<Rightarrow> hw_params \<Rightarrow> int \<times> hw_params" where
  "snd_pcm_hw_rule_div t0 v d0 d1 p =
     (let t = snd_interval_div (hw_param_interval p d0) (hw_param_interval p d1) t0
      in interval_rule v p (snd_interval_refine (hw_param_interval p v) t))"

definition snd_pcm_hw_rule_muldivk ::
  "snd_interval \<Rightarrow> nat \<Rightarrow> nat \<Rightarrow> nat \<Rightarrow> u32 \<Rightarrow> hw_params \<Rightarrow> int \<times> hw_params" where
  "snd_pcm_hw_rule_muldivk t0 v d0 d1 k p =
     (let t = snd_interval_muldivk (hw_param_interval p d0) (hw_param_interval p d1) k t0
      in interval_rule v p (snd_interval_refine (hw_param_interval p v) t))"

definition snd_pcm_hw_rule_mulkdiv ::
  "snd_interval \<Rightarrow> nat \<Rightarrow> nat \<Rightarrow> nat \<Rightarrow> u32 \<Rightarrow> hw_params \<Rightarrow> int \<times> hw_params" where
  "snd_pcm_hw_rule_mulkdiv t0 v d0 d1 k p =
     (let t = snd_interval_mulkdiv (hw_param_interval p d0) k (hw_param_interval p d1) t0
      in interval_rule v p (snd_interval_refine (hw_param_interval p v) t))"

text \<open>The loop \<^verbatim>\<open>pcm_for_each_format\<close> of \<^verbatim>\<open>snd_pcm_hw_rule_format\<close>; of \<^verbatim>\<open>m\<close> only the words that
  \<^verbatim>\<open>snd_mask_any\<close> sets are read.\<close>

definition format_excluded :: "snd_mask \<Rightarrow> snd_interval \<Rightarrow> nat \<Rightarrow> bool" where
  "format_excluded m i k \<longleftrightarrow>
     snd_mask_test_format m k \<and>
     (let w = snd_pcm_format_physical_width (int k)
      in w > 0 \<and> (word_of_int w < iv_min i \<or> word_of_int w > iv_max i))"

definition snd_pcm_hw_rule_format :: "nat \<Rightarrow> hw_params \<Rightarrow> int \<times> hw_params" where
  "snd_pcm_hw_rule_format d0 p =
     (let i = hw_param_interval p d0;
          msk = hw_param_mask p PARAM_FORMAT;
          m = fold (\<lambda>k m. if format_excluded msk i k then snd_mask_reset m k else m)
                [0..<53] (snd_mask_any \<lparr>bits = replicate SNDRV_MASK_WORDS 0\<rparr>);
          (err, msk) = snd_mask_refine msk m
      in (err, set_mask PARAM_FORMAT msk p))"

definition sample_bits_range :: "snd_mask \<Rightarrow> u32 \<times> u32" where
  "sample_bits_range m =
     fold (\<lambda>k (lo, hi).
             if \<not> snd_mask_test_format m k then (lo, hi)
             else
               let w = snd_pcm_format_physical_width (int k)
               in if w \<le> 0 then (lo, hi)
                  else (if lo > word_of_int w then word_of_int w else lo,
                        if hi < word_of_int w then word_of_int w else hi))
       [0..<53] (UINT_MAX, 0)"

definition snd_pcm_hw_rule_sample_bits :: "nat \<Rightarrow> hw_params \<Rightarrow> int \<times> hw_params" where
  "snd_pcm_hw_rule_sample_bits v p =
     (let (lo, hi) = sample_bits_range (hw_param_mask p PARAM_FORMAT);
          t = \<lparr>iv_min = lo, iv_max = hi, openmin = False, openmax = False,
               iv_integer = True, iv_empty = False\<rparr>
      in interval_rule v p (snd_interval_refine (hw_param_interval p v) t))"

definition snd_pcm_hw_rule_rate :: "u32 \<Rightarrow> nat \<Rightarrow> hw_params \<Rightarrow> int \<times> hw_params" where
  "snd_pcm_hw_rule_rate hwrates v p =
     interval_rule v p (snd_interval_list (hw_param_interval p v) snd_pcm_known_rates hwrates)"

definition snd_pcm_hw_rule_buffer_bytes_max :: "u32 \<Rightarrow> nat \<Rightarrow> hw_params \<Rightarrow> int \<times> hw_params" where
  "snd_pcm_hw_rule_buffer_bytes_max bmax v p =
     (let t = \<lparr>iv_min = 0, iv_max = bmax, openmin = False, openmax = False,
               iv_integer = True, iv_empty = False\<rparr>
      in interval_rule v p (snd_interval_refine (hw_param_interval p v) t))"

text \<open>\<^verbatim>\<open>r->func(params, r)\<close>\<close>

definition apply_rule ::
  "pcm_substream \<Rightarrow> snd_interval \<Rightarrow> hw_rule \<Rightarrow> hw_params \<Rightarrow> (int \<times> hw_params) option" where
  "apply_rule ss t0 r p =
     (let v = nat (r_var r); d0 = r_deps r ! 0; d1 = r_deps r ! 1
      in case r_func r of
           Rule_list xs msk \<Rightarrow> Some (snd_pcm_hw_rule_list v xs msk p)
         | Rule_ranges rs msk \<Rightarrow> Some (snd_pcm_hw_rule_ranges v rs msk p)
         | Rule_ratnums rats \<Rightarrow> snd_pcm_hw_rule_ratnums v rats p
         | Rule_ratdens rats \<Rightarrow> snd_pcm_hw_rule_ratdens v rats p
         | Rule_msbits l \<Rightarrow> Some (snd_pcm_hw_rule_msbits l p)
         | Rule_step step \<Rightarrow> snd_pcm_hw_rule_step v step p
         | Rule_pow2 \<Rightarrow> Some (snd_pcm_hw_rule_pow2 v p)
         | Rule_noresample base \<Rightarrow> Some (snd_pcm_hw_rule_noresample_func base p)
         | Rule_mul \<Rightarrow> Some (snd_pcm_hw_rule_mul t0 v d0 d1 p)
         | Rule_div \<Rightarrow> Some (snd_pcm_hw_rule_div t0 v d0 d1 p)
         | Rule_muldivk k \<Rightarrow> Some (snd_pcm_hw_rule_muldivk t0 v d0 d1 k p)
         | Rule_mulkdiv k \<Rightarrow> Some (snd_pcm_hw_rule_mulkdiv t0 v d0 d1 k p)
         | Rule_format \<Rightarrow> Some (snd_pcm_hw_rule_format d0 p)
         | Rule_sample_bits \<Rightarrow> Some (snd_pcm_hw_rule_sample_bits v p)
         | Rule_rate \<Rightarrow> Some (snd_pcm_hw_rule_rate (rates (ss_hw ss)) v p)
         | Rule_buffer_bytes_max \<Rightarrow>
             Some (snd_pcm_hw_rule_buffer_bytes_max (ss_buffer_bytes_max ss) v p)
         | Rule_driver f \<Rightarrow> f p)"

section \<open>Registering rules\<close>

definition snd_pcm_hw_constraint_list where
  "snd_pcm_hw_constraint_list alloc cs cnd v xs msk =
     snd_pcm_hw_rule_add alloc cs cnd (int v) (Rule_list xs msk) [v]"

definition snd_pcm_hw_constraint_ranges where
  "snd_pcm_hw_constraint_ranges alloc cs cnd v rs msk =
     snd_pcm_hw_rule_add alloc cs cnd (int v) (Rule_ranges rs msk) [v]"

definition snd_pcm_hw_constraint_ratnums where
  "snd_pcm_hw_constraint_ratnums alloc cs cnd v rats =
     snd_pcm_hw_rule_add alloc cs cnd (int v) (Rule_ratnums rats) [v]"

definition snd_pcm_hw_constraint_ratdens where
  "snd_pcm_hw_constraint_ratdens alloc cs cnd v rats =
     snd_pcm_hw_rule_add alloc cs cnd (int v) (Rule_ratdens rats) [v]"

definition snd_pcm_hw_constraint_msbits where
  "snd_pcm_hw_constraint_msbits alloc cs cnd width ms =
     (let l = push_bit 16 ms OR width
      in snd_pcm_hw_rule_add alloc cs cnd (- 1) (Rule_msbits l) [PARAM_SAMPLE_BITS])"

definition snd_pcm_hw_constraint_step where
  "snd_pcm_hw_constraint_step alloc cs cnd v step =
     snd_pcm_hw_rule_add alloc cs cnd (int v) (Rule_step step) [v]"

definition snd_pcm_hw_constraint_pow2 where
  "snd_pcm_hw_constraint_pow2 alloc cs cnd v =
     snd_pcm_hw_rule_add alloc cs cnd (int v) Rule_pow2 [v]"

definition snd_pcm_hw_rule_noresample where
  "snd_pcm_hw_rule_noresample alloc cs base_rate =
     snd_pcm_hw_rule_add alloc cs SNDRV_PCM_HW_PARAMS_NORESAMPLE (int PARAM_RATE)
       (Rule_noresample base_rate) [PARAM_RATE]"

text \<open>A sequence of \<^verbatim>\<open>snd_pcm_hw_rule_add\<close> calls with an early return after each.\<close>

fun add_rules ::
  "(nat \<Rightarrow> bool) \<Rightarrow> (nat \<times> rule_func \<times> nat list) list \<Rightarrow> hw_constraints \<Rightarrow> int \<times> hw_constraints" where
  "add_rules alloc [] cs = (0, cs)"
| "add_rules alloc ((v, f, ds) # rs) cs =
     (let (err, cs) = snd_pcm_hw_rule_add alloc cs 0 (int v) f ds
      in if err < 0 then (err, cs) else add_rules alloc rs cs)"

definition default_rules :: "(nat \<times> rule_func \<times> nat list) list" where
  "default_rules =
     [(PARAM_FORMAT, Rule_format, [PARAM_SAMPLE_BITS]),
      (PARAM_SAMPLE_BITS, Rule_sample_bits, [PARAM_FORMAT, PARAM_SAMPLE_BITS]),
      (PARAM_SAMPLE_BITS, Rule_div, [PARAM_FRAME_BITS, PARAM_CHANNELS]),
      (PARAM_FRAME_BITS, Rule_mul, [PARAM_SAMPLE_BITS, PARAM_CHANNELS]),
      (PARAM_FRAME_BITS, Rule_mulkdiv 8, [PARAM_PERIOD_BYTES, PARAM_PERIOD_SIZE]),
      (PARAM_FRAME_BITS, Rule_mulkdiv 8, [PARAM_BUFFER_BYTES, PARAM_BUFFER_SIZE]),
      (PARAM_CHANNELS, Rule_div, [PARAM_FRAME_BITS, PARAM_SAMPLE_BITS]),
      (PARAM_RATE, Rule_mulkdiv 1000000, [PARAM_PERIOD_SIZE, PARAM_PERIOD_TIME]),
      (PARAM_RATE, Rule_mulkdiv 1000000, [PARAM_BUFFER_SIZE, PARAM_BUFFER_TIME]),
      (PARAM_PERIODS, Rule_div, [PARAM_BUFFER_SIZE, PARAM_PERIOD_SIZE]),
      (PARAM_PERIOD_SIZE, Rule_div, [PARAM_BUFFER_SIZE, PARAM_PERIODS]),
      (PARAM_PERIOD_SIZE, Rule_mulkdiv 8, [PARAM_PERIOD_BYTES, PARAM_FRAME_BITS]),
      (PARAM_PERIOD_SIZE, Rule_muldivk 1000000, [PARAM_PERIOD_TIME, PARAM_RATE]),
      (PARAM_BUFFER_SIZE, Rule_mul, [PARAM_PERIOD_SIZE, PARAM_PERIODS]),
      (PARAM_BUFFER_SIZE, Rule_mulkdiv 8, [PARAM_BUFFER_BYTES, PARAM_FRAME_BITS]),
      (PARAM_BUFFER_SIZE, Rule_muldivk 1000000, [PARAM_BUFFER_TIME, PARAM_RATE]),
      (PARAM_PERIOD_BYTES, Rule_muldivk 8, [PARAM_PERIOD_SIZE, PARAM_FRAME_BITS]),
      (PARAM_BUFFER_BYTES, Rule_muldivk 8, [PARAM_BUFFER_SIZE, PARAM_FRAME_BITS]),
      (PARAM_PERIOD_TIME, Rule_mulkdiv 1000000, [PARAM_PERIOD_SIZE, PARAM_RATE]),
      (PARAM_BUFFER_TIME, Rule_mulkdiv 1000000, [PARAM_BUFFER_SIZE, PARAM_RATE])]"

text \<open>The status of \<^verbatim>\<open>snd_interval_setinteger\<close> is ignored here.\<close>

definition snd_pcm_hw_constraints_init ::
  "(nat \<Rightarrow> bool) \<Rightarrow> hw_constraints \<Rightarrow> int \<times> hw_constraints" where
  "snd_pcm_hw_constraints_init alloc cs =
     (let cs = cs\<lparr>cmasks := map snd_mask_any (cmasks cs),
                  cintervals := map (\<lambda>i. snd_interval_any) (cintervals cs)\<rparr>;
          cs = fold (\<lambda>v cs. snd (snd_pcm_hw_constraint_integer cs v))
                 [PARAM_CHANNELS, PARAM_BUFFER_SIZE, PARAM_BUFFER_BYTES, PARAM_SAMPLE_BITS,
                  PARAM_FRAME_BITS] cs
      in add_rules alloc default_rules cs)"

section \<open>Completing the constraints\<close>

abbreviation (input) SNDRV_PCM_INFO_MMAP :: u32 where "SNDRV_PCM_INFO_MMAP \<equiv> 0x00000001"
abbreviation (input) SNDRV_PCM_INFO_MMAP_VALID :: u32 where "SNDRV_PCM_INFO_MMAP_VALID \<equiv> 0x00000002"
abbreviation (input) SNDRV_PCM_INFO_INTERLEAVED :: u32 where "SNDRV_PCM_INFO_INTERLEAVED \<equiv> 0x00000100"
abbreviation (input) SNDRV_PCM_INFO_NONINTERLEAVED :: u32 where "SNDRV_PCM_INFO_NONINTERLEAVED \<equiv> 0x00000200"
abbreviation (input) SNDRV_PCM_INFO_COMPLEX :: u32 where "SNDRV_PCM_INFO_COMPLEX \<equiv> 0x00000400"
abbreviation (input) SNDRV_PCM_INFO_DRAIN_TRIGGER :: u32 where "SNDRV_PCM_INFO_DRAIN_TRIGGER \<equiv> 0x40000000"
abbreviation (input) SNDRV_PCM_INFO_FIFO_IN_FRAMES :: u32 where "SNDRV_PCM_INFO_FIFO_IN_FRAMES \<equiv> 0x80000000"

definition hw_support_mmap :: "pcm_substream \<Rightarrow> bool" where
  "hw_support_mmap ss =
     (if hw_info (ss_hw ss) AND SNDRV_PCM_INFO_MMAP = 0 then False
      else if ops_mmap ss \<or> ops_page ss then True
      else
        let dmabuf = (case get_dma_buf ss of None \<Rightarrow> ss_dma_buffer ss | Some d \<Rightarrow> d)
        in case dmabuf of
             DMA_UNKNOWN \<Rightarrow> True
           | DMA_CONTINUOUS \<Rightarrow> True
           | DMA_VMALLOC \<Rightarrow> True
           | DMA_OTHER \<Rightarrow> dma_can_mmap ss)"

definition access_mask :: "pcm_substream \<Rightarrow> u32" where
  "access_mask ss =
     (let info = hw_info (ss_hw ss);
          has = (\<lambda>flag. info AND flag \<noteq> 0);
          add = (\<lambda>c b m. if c then m OR PARAM_MASK_BIT b else m :: u32);
          m = add (has SNDRV_PCM_INFO_INTERLEAVED) 3 0;
          m = add (has SNDRV_PCM_INFO_NONINTERLEAVED) 4 m
      in if hw_support_mmap ss then
           add (has SNDRV_PCM_INFO_COMPLEX) 2
             (add (has SNDRV_PCM_INFO_NONINTERLEAVED) 1 (add (has SNDRV_PCM_INFO_INTERLEAVED) 0 m))
         else m)"

text \<open>\<open>and_then\<close>: \<^verbatim>\<open>if (err < 0) return err;\<close> between two calls.\<close>

definition and_then :: "int \<times> 'a \<Rightarrow> ('a \<Rightarrow> int \<times> 'a) \<Rightarrow> int \<times> 'a" where
  "and_then r f = (if fst r < 0 then r else f (snd r))"

text \<open>The status of the constraint on \<^verbatim>\<open>SNDRV_PCM_HW_PARAM_RATE_MASK\<close> is not looked at.\<close>

definition snd_pcm_hw_constraints_complete ::
  "(nat \<Rightarrow> bool) \<Rightarrow> pcm_substream \<Rightarrow> int \<times> hw_constraints" where
  "snd_pcm_hw_constraints_complete alloc ss =
     (let h = ss_hw ss;
          minmax = (\<lambda>v lo hi cs. snd_pcm_hw_constraint_minmax cs v lo hi)
      in and_then (snd_pcm_hw_constraint_mask (ss_constrs ss) PARAM_ACCESS (access_mask ss)) (\<lambda>cs.
         and_then (snd_pcm_hw_constraint_mask64 cs PARAM_FORMAT (formats h)) (\<lambda>cs.
         and_then (snd_pcm_hw_constraint_mask cs PARAM_SUBFORMAT (PARAM_MASK_BIT 0)) (\<lambda>cs.
         let cs = snd (snd_pcm_hw_constraint_mask cs PARAM_RATE_MASK (rates h))
         in and_then (minmax PARAM_CHANNELS (channels_min h) (channels_max h) cs) (\<lambda>cs.
            and_then (minmax PARAM_RATE (rate_min h) (rate_max h) cs) (\<lambda>cs.
            and_then (minmax PARAM_PERIOD_BYTES (period_bytes_min h) (period_bytes_max h) cs) (\<lambda>cs.
            and_then (minmax PARAM_PERIODS (periods_min h) (periods_max h) cs) (\<lambda>cs.
            and_then (minmax PARAM_BUFFER_BYTES (period_bytes_min h) (buffer_bytes_max h) cs) (\<lambda>cs.
            and_then (snd_pcm_hw_rule_add alloc cs 0 (int PARAM_BUFFER_BYTES) Rule_buffer_bytes_max
                        [PARAM_BUFFER_BYTES]) (\<lambda>cs.
            and_then (if ss_dma_bytes ss \<noteq> 0
                      then minmax PARAM_BUFFER_BYTES 0 (ss_dma_bytes ss) cs else (0, cs)) (\<lambda>cs.
            and_then (if rates h AND (SNDRV_PCM_RATE_KNOT OR SNDRV_PCM_RATE_CONTINUOUS) = 0
                      then snd_pcm_hw_rule_add alloc cs 0 (int PARAM_RATE) Rule_rate [PARAM_RATE]
                      else (0, cs)) (\<lambda>cs.
            (0, snd (snd_pcm_hw_constraint_integer cs PARAM_PERIOD_SIZE))))))))))))))"

section \<open>Refining the space\<close>

fun constrain_mask_loop :: "hw_constraints \<Rightarrow> nat list \<Rightarrow> hw_params \<Rightarrow> int \<times> hw_params" where
  "constrain_mask_loop cs [] p = (0, p)"
| "constrain_mask_loop cs (k # ks) p =
     (let m = hw_param_mask p k
      in if snd_mask_empty m then (- EINVAL, p)
         else if rmask p AND PARAM_MASK_BIT k = 0 then constrain_mask_loop cs ks p
         else
           let (changed, m) = snd_mask_refine m (constrs_mask cs k);
               p = set_mask k m p
           in if changed < 0 then (changed, p)
              else if changed = 0 then constrain_mask_loop cs ks p
              else constrain_mask_loop cs ks (p\<lparr>cmask := cmask p OR PARAM_MASK_BIT k\<rparr>))"

definition constrain_mask_params :: "pcm_substream \<Rightarrow> hw_params \<Rightarrow> int \<times> hw_params" where
  "constrain_mask_params ss p = constrain_mask_loop (ss_constrs ss) [PARAM_ACCESS..<Suc PARAM_SUBFORMAT] p"

fun constrain_interval_loop :: "hw_constraints \<Rightarrow> nat list \<Rightarrow> hw_params \<Rightarrow> int \<times> hw_params" where
  "constrain_interval_loop cs [] p = (0, p)"
| "constrain_interval_loop cs (k # ks) p =
     (let i = hw_param_interval p k
      in if snd_interval_empty i then (- EINVAL, p)
         else if rmask p AND PARAM_MASK_BIT k = 0 then constrain_interval_loop cs ks p
         else
           let (changed, i) = snd_interval_refine i (constrs_interval cs k);
               p = set_interval k i p
           in if changed < 0 then (changed, p)
              else if changed = 0 then constrain_interval_loop cs ks p
              else constrain_interval_loop cs ks (p\<lparr>cmask := cmask p OR PARAM_MASK_BIT k\<rparr>))"

definition constrain_interval_params :: "pcm_substream \<Rightarrow> hw_params \<Rightarrow> int \<times> hw_params" where
  "constrain_interval_params ss p =
     constrain_interval_loop (ss_constrs ss) [PARAM_SAMPLE_BITS..<Suc PARAM_TICK_TIME] p"

text \<open>The variables of \<^verbatim>\<open>constrain_params_by_rules\<close>.\<close>

record rules_state =
  rs_params :: hw_params
  vstamps :: "u32 list"
  rstamps :: "u32 list"
  stamp :: u32
  again :: bool

text \<open>One round of the \<^verbatim>\<open>for\<close> loop, for rule number \<open>k\<close>.\<close>

definition rule_step ::
  "pcm_substream \<Rightarrow> snd_interval \<Rightarrow> nat \<Rightarrow> hw_rule \<Rightarrow> rules_state \<Rightarrow> (int \<times> rules_state) option" where
  "rule_step ss t0 k r st =
     (let p = rs_params st
      in if r_cond r \<noteq> 0 \<and> r_cond r AND hp_flags p = 0 then Some (0, st)
         else if \<not> (\<exists>d \<in> set (r_deps r). vstamps st ! d > rstamps st ! k) then Some (0, st)
         else
           case apply_rule ss t0 r p of
             None \<Rightarrow> None
           | Some (changed, p) \<Rightarrow>
               if changed < 0 then Some (changed, st\<lparr>rs_params := p\<rparr>)
               else
                 let st = st\<lparr>rs_params := p\<rparr>;
                     st = (if changed \<noteq> 0 \<and> r_var r \<ge> 0 then
                             st\<lparr>rs_params := p\<lparr>cmask := cmask p OR PARAM_MASK_BIT (nat (r_var r))\<rparr>,
                                vstamps := (vstamps st)[nat (r_var r) := stamp st], again := True\<rparr>
                           else st)
                 in Some (0, st\<lparr>rstamps := (rstamps st)[k := stamp st], stamp := stamp st + 1\<rparr>))"

fun rules_pass ::
  "pcm_substream \<Rightarrow> snd_interval \<Rightarrow> nat \<Rightarrow> hw_rule list \<Rightarrow> rules_state \<Rightarrow> (int \<times> rules_state) option" where
  "rules_pass ss t0 k [] st = Some (0, st)"
| "rules_pass ss t0 k (r # rs) st =
     (case rule_step ss t0 k r st of
        None \<Rightarrow> None
      | Some (err, st) \<Rightarrow> if err < 0 then Some (err, st) else rules_pass ss t0 (Suc k) rs st)"

partial_function (option) rules_retry ::
  "pcm_substream \<Rightarrow> snd_interval \<Rightarrow> hw_rule list \<Rightarrow> rules_state \<Rightarrow> (int \<times> hw_params) option" where
  "rules_retry ss t0 rs st =
     (case rules_pass ss t0 0 rs (st\<lparr>again := False\<rparr>) of
        None \<Rightarrow> None
      | Some (err, st) \<Rightarrow>
          if err < 0 then Some (err, rs_params st)
          else if again st then rules_retry ss t0 rs st
          else Some (0, rs_params st))"

text \<open>\<open>alloc\<close>: whether \<^verbatim>\<open>kcalloc\<close> returns the array of stamps.\<close>

definition constrain_params_by_rules ::
  "pcm_substream \<Rightarrow> snd_interval \<Rightarrow> bool \<Rightarrow> hw_params \<Rightarrow> (int \<times> hw_params) option" where
  "constrain_params_by_rules ss t0 alloc p =
     (if \<not> alloc then Some (- ENOMEM, p)
      else
        let rs = rules (ss_constrs ss)
        in rules_retry ss t0 rs
             \<lparr>rs_params = p,
              vstamps = map (\<lambda>k. if rmask p AND PARAM_MASK_BIT k \<noteq> 0 then 1 else 0)
                          [0..<Suc PARAM_TICK_TIME],
              rstamps = replicate (length rs) 0, stamp = 2, again = False\<rparr>)"

definition snd_pcm_hw_refine ::
  "pcm_substream \<Rightarrow> snd_interval \<Rightarrow> bool \<Rightarrow> hw_params \<Rightarrow> (int \<times> hw_params) option" where
  "snd_pcm_hw_refine ss t0 alloc p =
     (let p = p\<lparr>hp_info := 0, hp_fifo_size := 0\<rparr>;
          p = (if rmask p AND PARAM_MASK_BIT PARAM_SAMPLE_BITS \<noteq> 0 then p\<lparr>msbits := 0\<rparr> else p);
          p = (if rmask p AND PARAM_MASK_BIT PARAM_RATE \<noteq> 0
               then p\<lparr>rate_num := 0, rate_den := 0\<rparr> else p);
          (err, p) = constrain_mask_params ss p
      in if err < 0 then Some (err, p)
         else
           let (err, p) = constrain_interval_params ss p
           in if err < 0 then Some (err, p)
              else
                case constrain_params_by_rules ss t0 alloc p of
                  None \<Rightarrow> None
                | Some (err, p) \<Rightarrow>
                    if err < 0 then Some (err, p) else Some (0, p\<lparr>rmask := 0\<rparr>))"

text \<open>\<open>fifo\<close>: the driver's \<^verbatim>\<open>SNDRV_PCM_IOCTL1_FIFO_SIZE\<close>.\<close>

definition fixup_unreferenced_params ::
  "pcm_substream \<Rightarrow> (hw_params \<Rightarrow> int \<times> hw_params) \<Rightarrow> hw_params \<Rightarrow> int \<times> hw_params" where
  "fixup_unreferenced_params ss fifo p =
     (let p = (if msbits p = 0 then
                 let i = hw_param_interval p PARAM_SAMPLE_BITS
                 in if snd_interval_single i then p\<lparr>msbits := snd_interval_value i\<rparr> else p
               else p);
          p = (if rate_den p = 0 then
                 let i = hw_param_interval p PARAM_RATE
                 in if snd_interval_single i
                    then p\<lparr>rate_num := snd_interval_value i, rate_den := 1\<rparr> else p
               else p);
          (err, p) =
            (if hp_fifo_size p = 0 \<and> snd_mask_single (hw_param_mask p PARAM_FORMAT) \<and>
                snd_interval_single (hw_param_interval p PARAM_CHANNELS)
             then fifo p else (0, p))
      in if err < 0 then (err, p)
         else if hp_info p = 0 then
           let i = hw_info (ss_hw ss) AND NOT (SNDRV_PCM_INFO_FIFO_IN_FRAMES OR SNDRV_PCM_INFO_DRAIN_TRIGGER);
               i = (if \<not> hw_support_mmap ss
                    then i AND NOT (SNDRV_PCM_INFO_MMAP OR SNDRV_PCM_INFO_MMAP_VALID) else i)
           in (0, p\<lparr>hp_info := i\<rparr>)
         else (0, p))"

text \<open>\<open>params_format\<close> and \<open>params_channels\<close> read the refined space.\<close>

definition snd_pcm_lib_ioctl_fifo_size :: "pcm_substream \<Rightarrow> hw_params \<Rightarrow> int \<times> hw_params" where
  "snd_pcm_lib_ioctl_fifo_size ss p =
     (let p = p\<lparr>hp_fifo_size := hw_fifo_size (ss_hw ss)\<rparr>
      in if hw_info (ss_hw ss) AND SNDRV_PCM_INFO_FIFO_IN_FRAMES = 0 then
           let fmt = int (snd_mask_min (hw_param_mask p PARAM_FORMAT));
               channels = iv_min (hw_param_interval p PARAM_CHANNELS);
               frame_size = snd_pcm_format_size fmt channels
           in if frame_size > 0 then (0, p\<lparr>hp_fifo_size := hp_fifo_size p div word_of_int frame_size\<rparr>)
              else (0, p)
         else (0, p))"

section \<open>Choosing a configuration\<close>

definition param_any :: "nat \<Rightarrow> hw_params \<Rightarrow> hw_params" where
  "param_any v p =
     (let mark = (\<lambda>p. p\<lparr>cmask := cmask p OR PARAM_MASK_BIT v, rmask := rmask p OR PARAM_MASK_BIT v\<rparr>)
      in if hw_is_mask v then mark (set_mask v (snd_mask_any (hw_param_mask p v)) p)
         else if hw_is_interval v then mark (set_interval v snd_interval_any p)
         else p)"

text \<open>\<^verbatim>\<open>memset(params, 0, sizeof( *params))\<close> and every parameter set to any value.\<close>

definition hw_params_zero :: hw_params where
  "hw_params_zero =
     \<lparr>hp_flags = 0, masks = replicate 4 \<lparr>bits = replicate SNDRV_MASK_WORDS 0\<rparr>,
      intervals = replicate 12 \<lparr>iv_min = 0, iv_max = 0, openmin = False, openmax = False,
                                 iv_integer = False, iv_empty = False\<rparr>,
      rmask = 0, cmask = 0, hp_info = 0, msbits = 0, rate_num = 0, rate_den = 0, hp_fifo_size = 0\<rparr>"

definition snd_pcm_hw_params_any :: hw_params where
  "snd_pcm_hw_params_any =
     (fold param_any ([PARAM_ACCESS..<Suc PARAM_SUBFORMAT] @ [PARAM_SAMPLE_BITS..<Suc PARAM_TICK_TIME])
        hw_params_zero)\<lparr>hp_info := - 1\<rparr>"

text \<open>The value and the direction stored through \<^verbatim>\<open>dir\<close>; the error is \<open>Inl\<close>.\<close>

definition snd_pcm_hw_param_value :: "hw_params \<Rightarrow> nat \<Rightarrow> int + (u32 \<times> bool)" where
  "snd_pcm_hw_param_value p v =
     (if hw_is_mask v then
        let m = hw_param_mask p v
        in if \<not> snd_mask_single m then Inl (- EINVAL) else Inr (of_nat (snd_mask_value m), False)
      else if hw_is_interval v then
        let i = hw_param_interval p v
        in if \<not> snd_interval_single i then Inl (- EINVAL) else Inr (snd_interval_value i, openmin i)
      else Inl (- EINVAL))"

definition snd_pcm_hw_param_setempty :: "nat \<Rightarrow> hw_params \<Rightarrow> hw_params" where
  "snd_pcm_hw_param_setempty v p =
     (let mark = (\<lambda>p. p\<lparr>cmask := cmask p OR PARAM_MASK_BIT v, rmask := rmask p OR PARAM_MASK_BIT v\<rparr>)
      in if hw_is_mask v then mark (set_mask v (snd_mask_none (hw_param_mask p v)) p)
         else if hw_is_interval v then
           mark (set_interval v (snd_interval_none (hw_param_interval p v)) p)
         else p)"

text \<open>\<^verbatim>\<open>_snd_pcm_hw_param_first\<close> and \<^verbatim>\<open>_snd_pcm_hw_param_last\<close>\<close>

definition mark_changed :: "nat \<Rightarrow> int \<times> hw_params \<Rightarrow> int \<times> hw_params" where
  "mark_changed v res =
     (let (changed, p) = res
      in (changed, if changed > 0
                   then p\<lparr>cmask := cmask p OR PARAM_MASK_BIT v, rmask := rmask p OR PARAM_MASK_BIT v\<rparr>
                   else p))"

definition hw_param_first :: "nat \<Rightarrow> hw_params \<Rightarrow> int \<times> hw_params" where
  "hw_param_first v p =
     (if hw_is_mask v then
        let (c, m) = snd_mask_refine_first (hw_param_mask p v) in mark_changed v (c, set_mask v m p)
      else if hw_is_interval v then
        let (c, i) = snd_interval_refine_first (hw_param_interval p v)
        in mark_changed v (c, set_interval v i p)
      else (- EINVAL, p))"

definition hw_param_last :: "nat \<Rightarrow> hw_params \<Rightarrow> int \<times> hw_params" where
  "hw_param_last v p =
     (if hw_is_mask v then
        let (c, m) = snd_mask_refine_last (hw_param_mask p v) in mark_changed v (c, set_mask v m p)
      else if hw_is_interval v then
        let (c, i) = snd_interval_refine_last (hw_param_interval p v)
        in mark_changed v (c, set_interval v i p)
      else (- EINVAL, p))"

text \<open>The returned value is an \<^verbatim>\<open>int\<close>: a parameter value above \<^verbatim>\<open>INT_MAX\<close> reads as negative.\<close>

definition refine_to ::
  "pcm_substream \<Rightarrow> snd_interval \<Rightarrow> bool \<Rightarrow> nat \<Rightarrow> int \<times> hw_params \<Rightarrow> (int \<times> hw_params) option" where
  "refine_to ss t0 alloc v res =
     (let (changed, p) = res;
          value_of = (\<lambda>p. (case snd_pcm_hw_param_value p v of Inl e \<Rightarrow> e | Inr (x, _) \<Rightarrow> sint x, p))
      in if changed < 0 then Some (changed, p)
         else if rmask p \<noteq> 0 then
           (case snd_pcm_hw_refine ss t0 alloc p of
              None \<Rightarrow> None
            | Some (err, p) \<Rightarrow> if err < 0 then Some (err, p) else Some (value_of p))
         else Some (value_of p))"

definition snd_pcm_hw_param_first where
  "snd_pcm_hw_param_first ss t0 alloc p v = refine_to ss t0 alloc v (hw_param_first v p)"

definition snd_pcm_hw_param_last where
  "snd_pcm_hw_param_last ss t0 alloc p v = refine_to ss t0 alloc v (hw_param_last v p)"

fun choose_loop ::
  "pcm_substream \<Rightarrow> snd_interval \<Rightarrow> bool \<Rightarrow> nat list \<Rightarrow> hw_params \<Rightarrow> (int \<times> hw_params) option" where
  "choose_loop ss t0 alloc [] p = Some (0, p)"
| "choose_loop ss t0 alloc (v # vs) p =
     (case (if v \<noteq> PARAM_BUFFER_SIZE then snd_pcm_hw_param_first ss t0 alloc p v
            else snd_pcm_hw_param_last ss t0 alloc p v) of
        None \<Rightarrow> None
      | Some (changed, p) \<Rightarrow>
          if changed < 0 then Some (changed, p) else choose_loop ss t0 alloc vs p)"

definition snd_pcm_hw_params_choose ::
  "pcm_substream \<Rightarrow> snd_interval \<Rightarrow> bool \<Rightarrow> hw_params \<Rightarrow> (int \<times> hw_params) option" where
  "snd_pcm_hw_params_choose ss t0 alloc p =
     choose_loop ss t0 alloc
       [PARAM_ACCESS, PARAM_FORMAT, PARAM_SUBFORMAT, PARAM_CHANNELS, PARAM_RATE,
        PARAM_PERIOD_TIME, PARAM_BUFFER_SIZE, PARAM_TICK_TIME] p"

end
