(* ===== verification/HwRefine.thy ===== *)
theory HwRefine
  imports HwParams
begin

text \<open>
  Correctness of the configurator. An assignment gives a value to every mask parameter
  (\<open>mu\<close>) and to every interval parameter (\<open>nu\<close>, a real). \<open>in_space\<close> says that it is a point of
  a parameter space. A rule \<open>keeps\<close> an assignment when it never removes it from a space that
  contains it, and reports a change only when the space got smaller. The main result: when the
  constraints and the rules keep an assignment of the space, \<^verbatim>\<open>snd_pcm_hw_refine\<close> ends, succeeds,
  and the assignment is still in the refined space; the built-in rules keep every assignment
  that satisfies the arithmetic they stand for.
\<close>

section \<open>Points of a space\<close>

definition wf_params :: "hw_params \<Rightarrow> bool" where
  "wf_params p \<longleftrightarrow> length (masks p) = 4 \<and> (\<forall>m \<in> set (masks p). wf_mask m) \<and> length (intervals p) = 12"

abbreviation is_interval :: "nat \<Rightarrow> bool" where
  "is_interval k \<equiv> 8 \<le> k \<and> k < 20"

definition in_space :: "(nat \<Rightarrow> nat) \<Rightarrow> (nat \<Rightarrow> real) \<Rightarrow> hw_params \<Rightarrow> bool" where
  "in_space mu nu p \<longleftrightarrow> wf_params p \<and>
     (\<forall>k<4. mu k \<in> mset_of (hw_param_mask p k)) \<and>
     (\<forall>k. is_interval k \<longrightarrow> nu k \<in> ival (hw_param_interval p k) \<and> \<not> iv_empty (hw_param_interval p k))"

definition space_gauge :: "hw_params \<Rightarrow> nat" where
  "space_gauge p = sum_list (map (\<lambda>m. card (mset_of m)) (masks p)) + sum_list (map gauge (intervals p))"

lemma hw_param_set_interval:
  assumes "wf_params p" "is_interval v" "is_interval k"
  shows "hw_param_interval (set_interval v i p) k = (if k = v then i else hw_param_interval p k)"
proof -
  have "v - 8 < length (intervals p)" using assms by (auto simp: wf_params_def)
  moreover have "k - 8 = v - 8 \<longleftrightarrow> k = v" using assms by auto
  ultimately show ?thesis by (auto simp: hw_param_interval_def set_interval_def)
qed

lemma hw_param_mask_set_interval [simp]:
  "hw_param_mask (set_interval v i p) k = hw_param_mask p k"
  "hw_param_interval (set_mask v m p) k = hw_param_interval p k"
  by (simp_all add: hw_param_mask_def hw_param_interval_def set_interval_def set_mask_def)

lemma hw_param_set_mask:
  "wf_params p \<Longrightarrow> v < 4 \<Longrightarrow> hw_param_mask (set_mask v m p) k = (if k = v then m else hw_param_mask p k)"
  by (auto simp: hw_param_mask_def set_mask_def wf_params_def)

lemma wf_params_sets [simp]:
  "wf_params p \<Longrightarrow> wf_params (set_interval v i p)"
  "wf_params p \<Longrightarrow> wf_mask m \<Longrightarrow> wf_params (set_mask v m p)"
  by (auto simp: wf_params_def set_interval_def set_mask_def dest!: set_update_subset_insert [THEN subsetD])

lemma wf_params_mask: "wf_params p \<Longrightarrow> k < 4 \<Longrightarrow> wf_mask (hw_param_mask p k)"
  by (simp add: wf_params_def hw_param_mask_def)

lemma in_space_frame [simp]:
  "in_space mu nu (p\<lparr>cmask := c\<rparr>) = in_space mu nu p" "in_space mu nu (p\<lparr>rmask := c\<rparr>) = in_space mu nu p"
  "in_space mu nu (p\<lparr>hp_info := c\<rparr>) = in_space mu nu p" "in_space mu nu (p\<lparr>hp_fifo_size := c\<rparr>) = in_space mu nu p"
  "in_space mu nu (p\<lparr>msbits := c\<rparr>) = in_space mu nu p" "in_space mu nu (p\<lparr>rate_num := c\<rparr>) = in_space mu nu p"
  "in_space mu nu (p\<lparr>rate_den := c\<rparr>) = in_space mu nu p"
  by (simp_all add: in_space_def wf_params_def hw_param_mask_def hw_param_interval_def)

lemma space_gauge_frame [simp]:
  "space_gauge (p\<lparr>cmask := c\<rparr>) = space_gauge p" "space_gauge (p\<lparr>msbits := c\<rparr>) = space_gauge p"
  by (simp_all add: space_gauge_def)

lemma ival_nowrap: "x \<in> ival t \<Longrightarrow> nowrap t"
  using checkempty_ival [of t] nowrap_if_nonempty [of t] by auto

lemma sum_list_update_less:
  fixes f :: "'a \<Rightarrow> nat"
  assumes "k < length xs"
  shows "f x < f (xs ! k) \<Longrightarrow> sum_list (map f (xs[k := x])) < sum_list (map f xs)"
    and "f x \<le> f (xs ! k) \<Longrightarrow> sum_list (map f (xs[k := x])) \<le> sum_list (map f xs)"
proof -
  have "sum_list (map f (xs[k := x])) + f (xs ! k) = sum_list (map f xs) + f x"
    using assms by (induction xs arbitrary: k) (auto simp: nth_Cons split: nat.splits)
  then show "f x < f (xs ! k) \<Longrightarrow> sum_list (map f (xs[k := x])) < sum_list (map f xs)"
    "f x \<le> f (xs ! k) \<Longrightarrow> sum_list (map f (xs[k := x])) \<le> sum_list (map f xs)" by linarith+
qed

lemma refine_not_empty_bit:
  "\<not> iv_empty i \<Longrightarrow> 0 \<le> fst (snd_interval_refine i v) \<Longrightarrow> \<not> iv_empty (snd (snd_interval_refine i v))"
  by (auto simp: refine_unfold refine_meet_def Let_def split: if_splits)

section \<open>Rules that keep an assignment\<close>

definition kept :: "(nat \<Rightarrow> nat) \<Rightarrow> (nat \<Rightarrow> real) \<Rightarrow> hw_params \<Rightarrow> int \<times> hw_params \<Rightarrow> bool" where
  "kept mu nu p res \<longleftrightarrow> 0 \<le> fst res \<and> in_space mu nu (snd res) \<and>
     space_gauge (snd res) \<le> space_gauge p \<and> (0 < fst res \<longrightarrow> space_gauge (snd res) < space_gauge p)"

definition keeps ::
  "pcm_substream \<Rightarrow> snd_interval \<Rightarrow> (nat \<Rightarrow> nat) \<Rightarrow> (nat \<Rightarrow> real) \<Rightarrow> hw_rule \<Rightarrow> bool" where
  "keeps ss t0 mu nu r \<longleftrightarrow>
     (\<forall>p. in_space mu nu p \<longrightarrow> (\<exists>res. apply_rule ss t0 r p = Some res \<and> kept mu nu p res))"

lemma kept_refine_interval:
  assumes p: "in_space mu nu p" and v: "is_interval v" and t: "nu v \<in> ival t"
  shows "kept mu nu p (interval_rule v p (snd_interval_refine (hw_param_interval p v) t))"
proof -
  let ?i = "hw_param_interval p v" and ?k = "v - 8"
  from p v have nu: "nu v \<in> ival ?i" and ne: "\<not> iv_empty ?i" and wf: "wf_params p"
    by (auto simp: in_space_def)
  have w: "nowrap ?i" "nowrap t" using nu t by (auto intro: ival_nowrap)
  let ?r = "snd_interval_refine ?i t"
  have ok: "0 \<le> fst ?r" using interval_refiner.refine_error [OF w] nu t by (auto simp: not_less [symmetric])
  have mem: "nu v \<in> ival (snd ?r)" using interval_refiner.refine_sem [OF w] nu t by simp
  have k: "?k < length (intervals p)" "intervals p ! ?k = ?i"
    using wf v by (auto simp: wf_params_def hw_param_interval_def)
  have "in_space mu nu (set_interval v (snd ?r) p)"
    using p wf v mem refine_not_empty_bit [OF ne ok]
    by (auto simp: in_space_def hw_param_set_interval)
  moreover have "0 < fst ?r \<Longrightarrow> space_gauge (set_interval v (snd ?r) p) < space_gauge p"
    using sum_list_update_less(1) [OF k(1), of gauge "snd ?r"] interval_refiner.refine_gauge [OF w] k(2)
    by (simp add: space_gauge_def set_interval_def)
  moreover have "space_gauge (set_interval v (snd ?r) p) \<le> space_gauge p"
    using sum_list_update_less(2) [OF k(1), of gauge "snd ?r"] interval_refiner.refine_le_gauge [OF w ok] k(2)
    by (simp add: space_gauge_def set_interval_def)
  ultimately show ?thesis using ok by (simp add: kept_def interval_rule_def)
qed

lemma kept_refine_mask:
  assumes p: "in_space mu nu p" and v: "v < 4" and t: "mu v \<in> mset_of t" "wf_mask t"
  shows "kept mu nu p
     (fst (snd_mask_refine (hw_param_mask p v) t), set_mask v (snd (snd_mask_refine (hw_param_mask p v) t)) p)"
proof -
  let ?m = "hw_param_mask p v"
  from p v have mu: "mu v \<in> mset_of ?m" and wf: "wf_params p" by (auto simp: in_space_def)
  have w: "wf_mask ?m" "wf_mask t" using wf v t by (auto intro: wf_params_mask)
  let ?r = "snd_mask_refine ?m t"
  have ok: "0 \<le> fst ?r" using mask_refiner.refine_error [OF w] mu t by (auto simp: not_less [symmetric])
  have k: "v < length (masks p)" "masks p ! v = ?m"
    using wf v by (auto simp: wf_params_def hw_param_mask_def)
  have "in_space mu nu (set_mask v (snd ?r) p)"
    using p wf v mask_refiner.refine_sem [OF w] mu t mask_refiner.refine_wf [OF w ok]
    by (auto simp: in_space_def hw_param_set_mask)
  moreover have "0 < fst ?r \<Longrightarrow> space_gauge (set_mask v (snd ?r) p) < space_gauge p"
    using sum_list_update_less(1) [OF k(1), of "\<lambda>m. card (mset_of m)" "snd ?r"]
      mask_refiner.refine_gauge [OF w] k(2)
    by (simp add: space_gauge_def set_mask_def)
  moreover have "space_gauge (set_mask v (snd ?r) p) \<le> space_gauge p"
    using sum_list_update_less(2) [OF k(1), of "\<lambda>m. card (mset_of m)" "snd ?r"]
      mask_refiner.refine_le_gauge [OF w ok] k(2)
    by (simp add: space_gauge_def set_mask_def)
  ultimately show ?thesis using ok by (simp add: kept_def)
qed

section \<open>The arithmetic rules\<close>

definition positive :: "(nat \<Rightarrow> real) \<Rightarrow> bool" where
  "positive nu \<longleftrightarrow> (\<forall>k. is_interval k \<longrightarrow> 0 < nu k \<and> nu k < ru UINT_MAX)"

lemma in_space_interval:
  "in_space mu nu p \<Longrightarrow> is_interval k \<Longrightarrow> nu k \<in> ival (hw_param_interval p k)"
  "in_space mu nu p \<Longrightarrow> is_interval k \<Longrightarrow> \<not> iv_empty (hw_param_interval p k)"
  by (simp_all add: in_space_def)

lemma kept_rule_mul:
  assumes "in_space mu nu p" "positive nu" "is_interval v" "is_interval a" "is_interval b"
    and "nu v = nu a * nu b"
  shows "kept mu nu p (snd_pcm_hw_rule_mul t0 v a b p)"
  unfolding snd_pcm_hw_rule_mul_def Let_def
  using assms interval_mul_encloses [of "nu a" "hw_param_interval p a" "nu b" "hw_param_interval p b" t0]
    in_space_interval [OF assms(1)]
  by (intro kept_refine_interval) (auto simp: positive_def)

lemma kept_rule_div:
  assumes "in_space mu nu p" "positive nu" "is_interval v" "is_interval a" "is_interval b"
    and "nu v = nu a / nu b"
  shows "kept mu nu p (snd_pcm_hw_rule_div t0 v a b p)"
  unfolding snd_pcm_hw_rule_div_def Let_def
  using assms interval_div_encloses [of "nu a" "hw_param_interval p a" "nu b" "hw_param_interval p b" t0]
    in_space_interval [OF assms(1)]
  by (intro kept_refine_interval) (auto simp: positive_def)

lemma kept_rule_muldivk:
  assumes "in_space mu nu p" "positive nu" "is_interval v" "is_interval a" "is_interval b"
    and "k \<noteq> 0" "nu v = nu a * nu b / ru k"
  shows "kept mu nu p (snd_pcm_hw_rule_muldivk t0 v a b k p)"
  unfolding snd_pcm_hw_rule_muldivk_def Let_def
  using assms interval_muldivk_encloses [of "nu a" "hw_param_interval p a" "nu b" "hw_param_interval p b" k t0]
    in_space_interval [OF assms(1)]
  by (intro kept_refine_interval) (auto simp: positive_def)

lemma kept_rule_mulkdiv:
  assumes "in_space mu nu p" "positive nu" "is_interval v" "is_interval a" "is_interval b"
    and "k \<noteq> 0" "nu v = nu a * ru k / nu b"
  shows "kept mu nu p (snd_pcm_hw_rule_mulkdiv t0 v a b k p)"
  unfolding snd_pcm_hw_rule_mulkdiv_def Let_def
  using assms interval_mulkdiv_encloses [of "nu a" "hw_param_interval p a" "nu b" "hw_param_interval p b" k t0]
    in_space_interval [OF assms(1)]
  by (intro kept_refine_interval) (auto simp: positive_def)

section \<open>The rules on lists, formats and sizes\<close>

lemma list_range_contains:
  assumes "v \<in> selected i msk 0 xs"
  shows "fst (list_range i msk 0 xs UINT_MAX 0) \<le> v" "v \<le> snd (list_range i msk 0 xs UINT_MAX 0)"
proof -
  have "list_range i msk k ys lo hi = (lo', hi') \<Longrightarrow>
      lo' \<le> lo \<and> hi \<le> hi' \<and> (v \<in> selected i msk k ys \<longrightarrow> lo' \<le> v \<and> v \<le> hi')" for k ys lo hi lo' hi'
  proof (induction ys arbitrary: k lo hi)
    case (Cons y ys)
    show ?case
    proof (cases "masked_out msk k \<or> \<not> snd_interval_test i y")
      case True
      then show ?thesis using Cons.IH [of "Suc k" lo hi] Cons.prems by (auto split: if_splits)
    next
      case False
      then show ?thesis using Cons.IH [of "Suc k" "min lo y" "max hi y"] Cons.prems
        by (auto split: if_splits)
    qed
  qed simp
  from this [of 0 xs UINT_MAX 0] show
    "fst (list_range i msk 0 xs UINT_MAX 0) \<le> v" "v \<le> snd (list_range i msk 0 xs UINT_MAX 0)"
    using assms by (metis prod.collapse)+
qed

lemma kept_interval_list:
  assumes p: "in_space mu nu p" and v: "is_interval v"
    and j: "j < length xs" "nu v = ru (xs ! j)" "\<not> masked_out msk j"
  shows "kept mu nu p (interval_rule v p (snd_interval_list (hw_param_interval p v) xs msk))"
proof -
  let ?i = "hw_param_interval p v"
  have "snd_interval_test ?i (xs ! j)"
    using in_space_interval(1) [OF p v] j(2) by (simp add: test_ival)
  then have sel: "xs ! j \<in> selected ?i msk 0 xs" using j unfolding selected_def by auto
  obtain lo hi where r: "list_range ?i msk 0 xs UINT_MAX 0 = (lo, hi)" by fastforce
  have "nu v \<in> ival (snd_interval_any\<lparr>iv_min := lo, iv_max := hi\<rparr>)"
    using list_range_contains [OF sel] r j(2)
    by (simp add: ival_def lower_def upper_def snd_interval_any_def)
  from kept_refine_interval [OF p v this] show ?thesis
    using j(1) by (auto simp: snd_interval_list_def r)
qed

lemma fold_reset_excluded:
  assumes "wf_mask m" "\<And>k. k \<in> set ks \<Longrightarrow> k < 64"
  shows "wf_mask (fold (\<lambda>k m. if ex k then snd_mask_reset m k else m) ks m) \<and>
     mset_of (fold (\<lambda>k m. if ex k then snd_mask_reset m k else m) ks m) = mset_of m - {k \<in> set ks. ex k}"
  using assms
proof (induction ks arbitrary: m)
  case (Cons k ks)
  let ?m = "if ex k then snd_mask_reset m k else m"
  have "k < 256" using Cons.prems(2) [of k] by simp
  then have "wf_mask ?m" "mset_of ?m = mset_of m - (if ex k then {k} else {})"
    using Cons.prems(1) by (auto simp: mset_of_reset)
  then show ?case using Cons.IH [of ?m] Cons.prems(2) by (auto simp: Diff_eq)
qed simp

definition format_bits :: "nat \<Rightarrow> int" where
  "format_bits k = snd_pcm_format_physical_width (int k)"

lemma format_bits_range: "format_bits k \<le> 64"
  using pcm_formats_ok [of "int k"]
  by (auto simp: format_bits_def snd_pcm_format_physical_width_def Let_def format_ok_def)

lemma ru_word_of_int: "0 \<le> w \<Longrightarrow> w \<le> 64 \<Longrightarrow> ru (word_of_int w) = of_int w"
proof -
  assume w: "0 \<le> w" "w \<le> 64"
  then have "unat (word_of_int w :: u32) = nat w"
    by (simp add: unsigned_of_int take_bit_int_eq_self)
  then show ?thesis using w by (simp add: ru_def)
qed

text \<open>The format of the assignment and the bits per sample agree.\<close>

definition format_agrees :: "(nat \<Rightarrow> nat) \<Rightarrow> (nat \<Rightarrow> real) \<Rightarrow> bool" where
  "format_agrees mu nu \<longleftrightarrow>
     mu PARAM_FORMAT < 53 \<and> 0 < format_bits (mu PARAM_FORMAT) \<and>
     nu PARAM_SAMPLE_BITS = of_int (format_bits (mu PARAM_FORMAT))"

lemma kept_rule_format:
  assumes p: "in_space mu nu p" and f: "format_agrees mu nu"
  shows "kept mu nu p (snd_pcm_hw_rule_format PARAM_SAMPLE_BITS p)"
proof -
  let ?msk = "hw_param_mask p 2" and ?i = "hw_param_interval p 8"
  define m where "m = fold (\<lambda>k m. if format_excluded ?msk ?i k then snd_mask_reset m k else m)
    [0..<53] (snd_mask_any \<lparr>bits = replicate SNDRV_MASK_WORDS 0\<rparr>)"
  have wf0: "wf_mask (snd_mask_any \<lparr>bits = replicate SNDRV_MASK_WORDS 0\<rparr>)"
    by (rule wf_mask_ops) (simp add: wf_mask_def)
  have m: "wf_mask m" "mset_of m = {..<64} - {k \<in> set [0..<53]. format_excluded ?msk ?i k}"
    using fold_reset_excluded [OF wf0, of "[0..<53]" "format_excluded ?msk ?i"]
    unfolding m_def [symmetric] mset_of_any by simp_all
  have w: "0 < format_bits (mu 2)" "nu 8 = of_int (format_bits (mu 2))" "mu 2 < 53"
    using f by (simp_all add: format_agrees_def)
  have "ru (iv_min ?i) \<le> nu 8" "nu 8 \<le> ru (iv_max ?i)"
    using in_space_interval(1) [OF p, of 8] ival_lowerD(1) ival_upperD(1) by auto
  then have "ru (iv_min ?i) \<le> ru (word_of_int (format_bits (mu 2)))"
    "ru (word_of_int (format_bits (mu 2))) \<le> ru (iv_max ?i)"
    using w ru_word_of_int [of "format_bits (mu 2)"] format_bits_range [of "mu 2"] by simp_all
  then have "\<not> format_excluded ?msk ?i (mu 2)"
    by (simp add: format_excluded_def Let_def format_bits_def not_less)
  then have "mu 2 \<in> mset_of m" using w(3) by (simp add: m(2))
  from kept_refine_mask [OF p _ this m(1)] show ?thesis
    by (simp add: snd_pcm_hw_rule_format_def Let_def m_def case_prod_unfold)
qed

lemma sample_bits_range_contains:
  assumes "f < 53" "snd_mask_test_format m f" "0 < format_bits f"
  shows "fst (sample_bits_range m) \<le> word_of_int (format_bits f)"
    and "word_of_int (format_bits f) \<le> snd (sample_bits_range m)"
proof -
  let ?step = "\<lambda>k (lo, hi). if \<not> snd_mask_test_format m k then (lo, hi)
       else let w = snd_pcm_format_physical_width (int k)
            in if w \<le> 0 then (lo, hi)
               else (if lo > word_of_int w then word_of_int w else lo,
                     if hi < word_of_int w then word_of_int w else hi :: u32)"
  have step: "fst (?step k s) \<le> fst s \<and> snd s \<le> snd (?step k s)" for k s
    by (auto simp: Let_def split: prod.splits)
  have hit: "fst (?step f s) \<le> word_of_int (format_bits f) \<and> word_of_int (format_bits f) \<le> snd (?step f s)" for s
    using assms(2,3) by (auto simp: Let_def format_bits_def split: prod.splits)
  have grow: "fst (fold ?step ks s) \<le> fst s \<and> snd s \<le> snd (fold ?step ks s)" for ks s
  proof (induction ks arbitrary: s)
    case (Cons k ks)
    show ?case using Cons.IH [of "?step k s"] step [of k s] by (simp only: fold_Cons comp_apply) (meson order_trans)
  qed simp
  have "fst (fold ?step ks s) \<le> word_of_int (format_bits f) \<and> word_of_int (format_bits f) \<le> snd (fold ?step ks s)"
    if "f \<in> set ks" for ks s
    using that
  proof (induction ks arbitrary: s)
    case (Cons k ks)
    show ?case
    proof (cases "k = f")
      case True
      then show ?thesis using hit [of s] grow [of ks "?step f s"]
        by (simp only: fold_Cons comp_apply) (meson order_trans)
    next
      case False
      then show ?thesis using Cons.prems Cons.IH [of "?step k s"] by (simp only: fold_Cons comp_apply) simp
    qed
  qed simp
  from this [of "[0..<53]" "(UINT_MAX, 0)"] assms(1)
  show "fst (sample_bits_range m) \<le> word_of_int (format_bits f)"
    "word_of_int (format_bits f) \<le> snd (sample_bits_range m)"
    unfolding sample_bits_range_def by simp_all
qed

lemma kept_rule_sample_bits:
  assumes p: "in_space mu nu p" and f: "format_agrees mu nu"
  shows "kept mu nu p (snd_pcm_hw_rule_sample_bits PARAM_SAMPLE_BITS p)"
proof -
  let ?m = "hw_param_mask p 2"
  have w: "0 < format_bits (mu 2)" "nu 8 = of_int (format_bits (mu 2))" "mu 2 < 53"
    using f by (simp_all add: format_agrees_def)
  have "mu 2 \<in> mset_of ?m" using p by (simp add: in_space_def)
  then have "snd_mask_test_format ?m (mu 2)"
    using snd_mask_test_iff [of "mu 2" ?m] w(3) by (simp add: snd_mask_test_format_def)
  note r = sample_bits_range_contains [OF w(3) this w(1)]
  obtain lo hi where e: "sample_bits_range ?m = (lo, hi)" by fastforce
  have "nu 8 = ru (word_of_int (format_bits (mu 2)))"
    using w format_bits_range [of "mu 2"] by (simp add: ru_word_of_int)
  then have "nu 8 \<in> ival \<lparr>iv_min = lo, iv_max = hi, openmin = False, openmax = False,
      iv_integer = True, iv_empty = False\<rparr>"
    using r by (simp add: e ival_def lower_def upper_def)
  from kept_refine_interval [OF p _ this] show ?thesis
    by (simp add: snd_pcm_hw_rule_sample_bits_def e)
qed

lemma kept_rule_buffer_bytes_max:
  assumes "in_space mu nu p" "is_interval v" "0 \<le> nu v" "nu v \<le> ru bmax" "nu v \<in> \<int>"
  shows "kept mu nu p (snd_pcm_hw_rule_buffer_bytes_max bmax v p)"
  unfolding snd_pcm_hw_rule_buffer_bytes_max_def Let_def
  using assms by (intro kept_refine_interval) (auto simp: ival_def lower_def upper_def)

lemma kept_rule_rate:
  assumes "in_space mu nu p" "j < length snd_pcm_known_rates" "nu PARAM_RATE = ru (snd_pcm_known_rates ! j)"
    and "\<not> masked_out hwrates j"
  shows "kept mu nu p (snd_pcm_hw_rule_rate hwrates PARAM_RATE p)"
  unfolding snd_pcm_hw_rule_rate_def by (rule kept_interval_list [OF assms(1)]) (use assms in auto)

lemma kept_rule_msbits: "in_space mu nu p \<Longrightarrow> kept mu nu p (snd_pcm_hw_rule_msbits l p)"
  by (auto simp: kept_def snd_pcm_hw_rule_msbits_def Let_def)

section \<open>Assignments the built-in rules keep\<close>

definition consistent :: "(nat \<Rightarrow> nat) \<Rightarrow> (nat \<Rightarrow> real) \<Rightarrow> bool" where
  "consistent mu nu \<longleftrightarrow> positive nu \<and> format_agrees mu nu \<and>
     nu PARAM_FRAME_BITS = nu PARAM_SAMPLE_BITS * nu PARAM_CHANNELS \<and>
     nu PARAM_PERIOD_BYTES * 8 = nu PARAM_FRAME_BITS * nu PARAM_PERIOD_SIZE \<and>
     nu PARAM_BUFFER_BYTES * 8 = nu PARAM_FRAME_BITS * nu PARAM_BUFFER_SIZE \<and>
     nu PARAM_BUFFER_SIZE = nu PARAM_PERIOD_SIZE * nu PARAM_PERIODS \<and>
     nu PARAM_PERIOD_SIZE * 1000000 = nu PARAM_PERIOD_TIME * nu PARAM_RATE \<and>
     nu PARAM_BUFFER_SIZE * 1000000 = nu PARAM_BUFFER_TIME * nu PARAM_RATE"

definition rule_of :: "nat \<times> rule_func \<times> nat list \<Rightarrow> hw_rule" where
  "rule_of e = \<lparr>r_cond = 0, r_var = int (fst e), r_deps = snd (snd e), r_func = fst (snd e)\<rparr>"

lemma ru_consts: "ru 8 = 8" "ru 1000000 = 1000000"
  by (simp_all add: ru_def)

lemma consistent_pos:
  assumes "consistent mu nu" and "is_interval k"
  shows "0 < nu k" "nu k \<noteq> 0"
  using assms by (auto simp: consistent_def positive_def)

text \<open>The equation a built-in rule stands for.\<close>

fun rule_holds :: "(nat \<Rightarrow> real) \<Rightarrow> nat \<times> rule_func \<times> nat list \<Rightarrow> bool" where
  "rule_holds nu (v, Rule_mul, [a, b]) \<longleftrightarrow>
     is_interval v \<and> is_interval a \<and> is_interval b \<and> nu v = nu a * nu b"
| "rule_holds nu (v, Rule_div, [a, b]) \<longleftrightarrow>
     is_interval v \<and> is_interval a \<and> is_interval b \<and> nu v = nu a / nu b"
| "rule_holds nu (v, Rule_muldivk k, [a, b]) \<longleftrightarrow>
     is_interval v \<and> is_interval a \<and> is_interval b \<and> k \<noteq> 0 \<and> nu v = nu a * nu b / ru k"
| "rule_holds nu (v, Rule_mulkdiv k, [a, b]) \<longleftrightarrow>
     is_interval v \<and> is_interval a \<and> is_interval b \<and> k \<noteq> 0 \<and> nu v = nu a * ru k / nu b"
| "rule_holds nu (v, Rule_format, ds) \<longleftrightarrow> ds = [PARAM_SAMPLE_BITS]"
| "rule_holds nu (v, Rule_sample_bits, ds) \<longleftrightarrow> v = PARAM_SAMPLE_BITS"
| "rule_holds nu _ \<longleftrightarrow> False"

lemma rule_holds_keeps:
  assumes pos: "positive nu" and fmt: "format_agrees mu nu" and "rule_holds nu e"
  shows "keeps ss t0 mu nu (rule_of e)"
  using assms
  by (induction nu e rule: rule_holds.induct)
    (auto simp: keeps_def rule_of_def apply_rule_def
      intro: kept_rule_mul kept_rule_div kept_rule_muldivk kept_rule_mulkdiv
        kept_rule_format kept_rule_sample_bits)

lemma consistent_equations:
  assumes c: "consistent mu nu"
  shows "nu 8 = nu 9 / nu 10" "nu 9 = nu 8 * nu 10" "nu 9 = nu 14 * 8 / nu 13" "nu 9 = nu 18 * 8 / nu 17"
    "nu 10 = nu 9 / nu 8" "nu 11 = nu 13 * 1000000 / nu 12" "nu 11 = nu 17 * 1000000 / nu 16"
    "nu 15 = nu 17 / nu 13" "nu 13 = nu 17 / nu 15" "nu 13 = nu 14 * 8 / nu 9"
    "nu 13 = nu 12 * nu 11 / 1000000" "nu 17 = nu 13 * nu 15" "nu 17 = nu 18 * 8 / nu 9"
    "nu 17 = nu 16 * nu 11 / 1000000" "nu 14 = nu 13 * nu 9 / 8" "nu 18 = nu 17 * nu 9 / 8"
    "nu 12 = nu 13 * 1000000 / nu 11" "nu 16 = nu 17 * 1000000 / nu 11"
proof -
  have nz: "nu k \<noteq> 0" if "is_interval k" for k using consistent_pos(2) [OF c that] .
  have z: "nu 8 \<noteq> 0" "nu 9 \<noteq> 0" "nu 10 \<noteq> 0" "nu 11 \<noteq> 0" "nu 12 \<noteq> 0" "nu 13 \<noteq> 0" "nu 15 \<noteq> 0"
    "nu 16 \<noteq> 0" "nu 17 \<noteq> 0" by (rule nz, simp)+
  have e: "nu 9 = nu 8 * nu 10" "nu 14 * 8 = nu 9 * nu 13" "nu 18 * 8 = nu 9 * nu 17"
    "nu 17 = nu 13 * nu 15" "nu 13 * 1000000 = nu 12 * nu 11" "nu 17 * 1000000 = nu 16 * nu 11"
    using c unfolding consistent_def by blast+
  show "nu 8 = nu 9 / nu 10" "nu 10 = nu 9 / nu 8" using e(1) z by simp_all
  show "nu 9 = nu 8 * nu 10" "nu 17 = nu 13 * nu 15" by (rule e)+
  show "nu 9 = nu 14 * 8 / nu 13" "nu 13 = nu 14 * 8 / nu 9" unfolding e(2) using z by simp_all
  show "nu 9 = nu 18 * 8 / nu 17" "nu 17 = nu 18 * 8 / nu 9" unfolding e(3) using z by simp_all
  show "nu 11 = nu 13 * 1000000 / nu 12" "nu 12 = nu 13 * 1000000 / nu 11" unfolding e(5) using z by simp_all
  show "nu 11 = nu 17 * 1000000 / nu 16" "nu 16 = nu 17 * 1000000 / nu 11" unfolding e(6) using z by simp_all
  show "nu 15 = nu 17 / nu 13" "nu 13 = nu 17 / nu 15" using e(4) z by simp_all
  show "nu 13 = nu 12 * nu 11 / 1000000" unfolding e(5) [symmetric] by simp
  show "nu 17 = nu 16 * nu 11 / 1000000" unfolding e(6) [symmetric] by simp
  show "nu 14 = nu 13 * nu 9 / 8" using e(2) by (simp add: mult.commute eq_divide_eq)
  show "nu 18 = nu 17 * nu 9 / 8" using e(3) by (simp add: mult.commute eq_divide_eq)
qed

lemma default_rules_keep:
  assumes c: "consistent mu nu" and e: "e \<in> set default_rules"
  shows "keeps ss t0 mu nu (rule_of e)"
proof (rule rule_holds_keeps)
  show "positive nu" "format_agrees mu nu" using c by (simp_all add: consistent_def)
  show "rule_holds nu e"
    using e unfolding default_rules_def list.set
    apply (elim insertE emptyE)
                       apply (simp_all add: ru_consts del: eq_divide_eq_numeral1)
                     apply (rule consistent_equations [OF c])+
    done
qed

section \<open>The fixpoint loop\<close>

text \<open>
  The interface between the loop and the rules: every rule of the list keeps the assignment.
  Under it the loop ends, whatever the stamps are, because a round that asks for another one
  has made the space smaller.
\<close>

locale kept_rules =
  fixes ss :: pcm_substream and t0 :: snd_interval
    and mu :: "nat \<Rightarrow> nat" and nu :: "nat \<Rightarrow> real" and rs :: "hw_rule list"
  assumes keep: "r \<in> set rs \<Longrightarrow> keeps ss t0 mu nu r"
begin

lemma rule_step_kept:
  assumes "r \<in> set rs" and p: "in_space mu nu (rs_params st)"
  shows "\<exists>st'. rule_step ss t0 k r st = Some (0, st') \<and> in_space mu nu (rs_params st') \<and>
     space_gauge (rs_params st') \<le> space_gauge (rs_params st) \<and>
     (again st' \<longrightarrow> again st \<or> space_gauge (rs_params st') < space_gauge (rs_params st))"
proof -
  obtain c p' where a: "apply_rule ss t0 r (rs_params st) = Some (c, p')"
    and kp: "kept mu nu (rs_params st) (c, p')"
    using keep [OF assms(1)] p unfolding keeps_def by (metis prod.collapse)
  show ?thesis using kp p by (auto simp: rule_step_def Let_def a kept_def)
qed

lemma rules_pass_kept:
  assumes "set qs \<subseteq> set rs" and "in_space mu nu (rs_params st)"
  shows "\<exists>st'. rules_pass ss t0 k qs st = Some (0, st') \<and> in_space mu nu (rs_params st') \<and>
     space_gauge (rs_params st') \<le> space_gauge (rs_params st) \<and>
     (again st' \<longrightarrow> again st \<or> space_gauge (rs_params st') < space_gauge (rs_params st))"
  using assms
proof (induction qs arbitrary: k st)
  case (Cons q qs)
  then obtain st1 where 1: "rule_step ss t0 k q st = Some (0, st1)" "in_space mu nu (rs_params st1)"
    "space_gauge (rs_params st1) \<le> space_gauge (rs_params st)"
    "again st1 \<longrightarrow> again st \<or> space_gauge (rs_params st1) < space_gauge (rs_params st)"
    using rule_step_kept [of q st k] by auto
  obtain st2 where 2: "rules_pass ss t0 (Suc k) qs st1 = Some (0, st2)" "in_space mu nu (rs_params st2)"
    "space_gauge (rs_params st2) \<le> space_gauge (rs_params st1)"
    "again st2 \<longrightarrow> again st1 \<or> space_gauge (rs_params st2) < space_gauge (rs_params st1)"
    using Cons.IH [of st1 "Suc k"] Cons.prems 1(2) by auto
  then show ?case using 1 by auto
qed simp

lemma rules_retry_kept:
  assumes "in_space mu nu (rs_params st)"
  shows "\<exists>p'. rules_retry ss t0 rs st = Some (0, p') \<and> in_space mu nu p'"
  using assms
proof (induction "space_gauge (rs_params st)" arbitrary: st rule: less_induct)
  case less
  obtain st' where st': "rules_pass ss t0 0 rs (st\<lparr>again := False\<rparr>) = Some (0, st')"
    "in_space mu nu (rs_params st')"
    "again st' \<longrightarrow> space_gauge (rs_params st') < space_gauge (rs_params st)"
    using rules_pass_kept [of rs "st\<lparr>again := False\<rparr>" 0] less.prems by auto
  show ?case
  proof (cases "again st'")
    case True
    then obtain p' where "rules_retry ss t0 rs st' = Some (0, p')" "in_space mu nu p'"
      using less.hyps [of st'] st' by blast
    then show ?thesis using st'(1) True by (subst rules_retry.simps) simp
  next
    case False
    then show ?thesis using st' by (subst rules_retry.simps) simp
  qed
qed

lemma constrain_by_rules_kept:
  assumes "rules (ss_constrs ss) = rs" and "in_space mu nu p"
  shows "\<exists>p'. constrain_params_by_rules ss t0 True p = Some (0, p') \<and> in_space mu nu p'"
  unfolding constrain_params_by_rules_def Let_def assms(1)
  using rules_retry_kept assms(2) by simp

end

section \<open>The constraints\<close>

definition constrs_contain :: "(nat \<Rightarrow> nat) \<Rightarrow> (nat \<Rightarrow> real) \<Rightarrow> hw_constraints \<Rightarrow> bool" where
  "constrs_contain mu nu c \<longleftrightarrow>
     (\<forall>k<4. wf_mask (constrs_mask c k) \<and> mu k \<in> mset_of (constrs_mask c k)) \<and>
     (\<forall>k. is_interval k \<longrightarrow> nu k \<in> ival (constrs_interval c k))"

lemma constrain_mask_loop_kept:
  assumes c: "constrs_contain mu nu cs" and "in_space mu nu p" and "\<And>k. k \<in> set ks \<Longrightarrow> k < 4"
  shows "\<exists>p'. constrain_mask_loop cs ks p = (0, p') \<and> in_space mu nu p'"
  using assms(2,3)
proof (induction ks arbitrary: p)
  case (Cons k ks)
  have k: "k < 4" using Cons.prems(2) by simp
  let ?m = "hw_param_mask p k" and ?v = "constrs_mask cs k"
  have "\<not> snd_mask_empty ?m"
    using Cons.prems(1) k by (subst snd_mask_empty_iff) (auto simp: in_space_def wf_params_mask)
  moreover have v: "mu k \<in> mset_of ?v" "wf_mask ?v" using c k by (auto simp: constrs_contain_def)
  moreover obtain ch m where r: "snd_mask_refine ?m ?v = (ch, m)" by fastforce
  moreover have "0 \<le> ch" "in_space mu nu (set_mask k m p)"
    using kept_refine_mask [OF Cons.prems(1) k v] by (auto simp: r kept_def)
  ultimately show ?case
    using Cons.IH [of p] Cons.IH [of "set_mask k m p"]
      Cons.IH [of "(set_mask k m p)\<lparr>cmask := cmask (set_mask k m p) OR PARAM_MASK_BIT k\<rparr>"] Cons.prems
    by (auto simp: Let_def)
qed simp

lemma constrain_interval_loop_kept:
  assumes c: "constrs_contain mu nu cs" and "in_space mu nu p" and "\<And>k. k \<in> set ks \<Longrightarrow> is_interval k"
  shows "\<exists>p'. constrain_interval_loop cs ks p = (0, p') \<and> in_space mu nu p'"
  using assms(2,3)
proof (induction ks arbitrary: p)
  case (Cons k ks)
  have k: "is_interval k" using Cons.prems(2) by simp
  let ?i = "hw_param_interval p k" and ?v = "constrs_interval cs k"
  have "\<not> snd_interval_empty ?i"
    using in_space_interval(2) [OF Cons.prems(1) k] by (simp add: snd_interval_empty_def)
  moreover have v: "nu k \<in> ival ?v" using c k by (auto simp: constrs_contain_def)
  moreover obtain ch i where r: "snd_interval_refine ?i ?v = (ch, i)" by fastforce
  moreover have "0 \<le> ch" "in_space mu nu (set_interval k i p)"
    using kept_refine_interval [OF Cons.prems(1) k v] by (auto simp: r kept_def interval_rule_def)
  ultimately show ?case
    using Cons.IH [of p] Cons.IH [of "set_interval k i p"]
      Cons.IH [of "(set_interval k i p)\<lparr>cmask := cmask (set_interval k i p) OR PARAM_MASK_BIT k\<rparr>"] Cons.prems
    by (auto simp: Let_def)
qed simp

lemma hw_refine_kept:
  assumes "kept_rules ss t0 mu nu (rules (ss_constrs ss))"
    and c: "constrs_contain mu nu (ss_constrs ss)" and p: "in_space mu nu p"
  shows "\<exists>p'. snd_pcm_hw_refine ss t0 alloc p = Some (if alloc then 0 else - ENOMEM, p') \<and>
    in_space mu nu p' \<and> (alloc \<longrightarrow> rmask p' = 0)"
proof -
  define p0 where "p0 = p\<lparr>hp_info := 0, hp_fifo_size := 0\<rparr>"
  define p1 where "p1 = (if rmask p0 AND PARAM_MASK_BIT PARAM_SAMPLE_BITS \<noteq> 0 then p0\<lparr>msbits := 0\<rparr> else p0)"
  define p2 where "p2 = (if rmask p1 AND PARAM_MASK_BIT PARAM_RATE \<noteq> 0
    then p1\<lparr>rate_num := 0, rate_den := 0\<rparr> else p1)"
  have "in_space mu nu p2" using p by (simp add: p0_def p1_def p2_def)
  then obtain p3 where 3: "constrain_mask_params ss p2 = (0, p3)" "in_space mu nu p3"
    using constrain_mask_loop_kept [OF c, of p2 "[0..<Suc 3]"] unfolding constrain_mask_params_def by fastforce
  then obtain p4 where 4: "constrain_interval_params ss p3 = (0, p4)" "in_space mu nu p4"
    using constrain_interval_loop_kept [OF c, of p3 "[8..<Suc 19]"]
    unfolding constrain_interval_params_def by fastforce
  obtain p5 where 5: "constrain_params_by_rules ss t0 True p4 = Some (0, p5)" "in_space mu nu p5"
    using kept_rules.constrain_by_rules_kept [OF assms(1) refl 4(2)] by blast
  have "snd_pcm_hw_refine ss t0 alloc p = (case constrain_params_by_rules ss t0 alloc p4 of
      None \<Rightarrow> None | Some (err, p) \<Rightarrow> if err < 0 then Some (err, p) else Some (0, p\<lparr>rmask := 0\<rparr>))"
    using 3(1) 4(1)
    unfolding snd_pcm_hw_refine_def Let_def p0_def [symmetric] p1_def [symmetric] p2_def [symmetric]
    by simp
  then show ?thesis using 4(2) 5 by (cases alloc) (simp_all add: constrain_params_by_rules_def [of ss t0 False])
qed

section \<open>The built-in rules and constraints\<close>

locale consistent_assignment =
  fixes mu :: "nat \<Rightarrow> nat" and nu :: "nat \<Rightarrow> real"
  assumes consistent: "consistent mu nu"

sublocale consistent_assignment \<subseteq> kept_rules ss t0 mu nu "map rule_of default_rules" for ss t0
  by unfold_locales (use consistent default_rules_keep in auto)

lemma add_rules_all:
  assumes "\<And>n. alloc n"
  shows "fst (add_rules alloc es cs) = 0 \<and>
     rules (snd (add_rules alloc es cs)) = rules cs @ map rule_of es \<and>
     cmasks (snd (add_rules alloc es cs)) = cmasks cs \<and>
     cintervals (snd (add_rules alloc es cs)) = cintervals cs"
proof (induction es arbitrary: cs)
  case (Cons e es)
  obtain v f ds where e: "e = (v, f, ds)" by (cases e)
  let ?r = "snd_pcm_hw_rule_add alloc cs 0 (int v) f ds"
  have "fst ?r = 0" "rules (snd ?r) = rules cs @ [rule_of e]" "cmasks (snd ?r) = cmasks cs"
    "cintervals (snd ?r) = cintervals cs"
    using assms by (simp_all add: snd_pcm_hw_rule_add_def rule_of_def Let_def e)
  then show ?case using Cons.IH [of "snd ?r"] by (simp add: e case_prod_unfold Let_def)
qed simp

text \<open>The integer parameters that \<^verbatim>\<open>snd_pcm_hw_constraints_init\<close> asks for.\<close>

definition integral :: "(nat \<Rightarrow> real) \<Rightarrow> bool" where
  "integral nu \<longleftrightarrow>
     nu PARAM_CHANNELS \<in> \<int> \<and> nu PARAM_BUFFER_SIZE \<in> \<int> \<and> nu PARAM_BUFFER_BYTES \<in> \<int> \<and>
     nu PARAM_SAMPLE_BITS \<in> \<int> \<and> nu PARAM_FRAME_BITS \<in> \<int>"

definition wf_constrs :: "hw_constraints \<Rightarrow> bool" where
  "wf_constrs c \<longleftrightarrow> length (cmasks c) = 4 \<and> (\<forall>m \<in> set (cmasks c). wf_mask m) \<and> length (cintervals c) = 12"

lemma constrs_set_interval:
  assumes "length (cintervals c) = 12" "is_interval v" "is_interval k"
  shows "constrs_interval (set_constrs_interval v i c) k = (if k = v then i else constrs_interval c k)"
proof -
  have "v - 8 < length (cintervals c)" using assms by auto
  moreover have "k - 8 = v - 8 \<longleftrightarrow> k = v" using assms by auto
  ultimately show ?thesis by (auto simp: constrs_interval_def set_constrs_interval_def)
qed

lemma constraint_integer_contains:
  assumes "constrs_contain mu nu c" "length (cintervals c) = 12" "is_interval v" "nu v \<in> \<int>"
  shows "constrs_contain mu nu (snd (snd_pcm_hw_constraint_integer c v))"
    and "length (cintervals (snd (snd_pcm_hw_constraint_integer c v))) = 12"
    and "rules (snd (snd_pcm_hw_constraint_integer c v)) = rules c"
proof -
  let ?i = "snd (snd_interval_setinteger (constrs_interval c v))"
  have r: "snd (snd_pcm_hw_constraint_integer c v) = set_constrs_interval v ?i c"
    by (simp add: snd_pcm_hw_constraint_integer_def case_prod_unfold Let_def)
  have "nu v \<in> ival (constrs_interval c v)" using assms by (simp add: constrs_contain_def)
  then have "nu v \<in> ival ?i"
    using assms(4) by (auto simp: snd_interval_setinteger_def ival_def lower_def upper_def)
  then show "constrs_contain mu nu (snd (snd_pcm_hw_constraint_integer c v))"
    using assms(1) by (auto simp: r constrs_contain_def constrs_set_interval [OF assms(2,3)])
      (simp_all add: constrs_mask_def set_constrs_interval_def)
  show "length (cintervals (snd (snd_pcm_hw_constraint_integer c v))) = 12"
    "rules (snd (snd_pcm_hw_constraint_integer c v)) = rules c"
    using assms(2) by (simp_all add: r set_constrs_interval_def)
qed

lemma constraint_minmax_contains:
  assumes "constrs_contain mu nu c" "length (cintervals c) = 12" "is_interval v"
    and "ru lo \<le> nu v" "nu v \<le> ru hi"
  shows "0 \<le> fst (snd_pcm_hw_constraint_minmax c v lo hi)"
    and "constrs_contain mu nu (snd (snd_pcm_hw_constraint_minmax c v lo hi))"
    and "length (cintervals (snd (snd_pcm_hw_constraint_minmax c v lo hi))) = 12"
    and "rules (snd (snd_pcm_hw_constraint_minmax c v lo hi)) = rules c"
proof -
  let ?t = "\<lparr>iv_min = lo, iv_max = hi, openmin = False, openmax = False,
    iv_integer = False, iv_empty = False\<rparr>"
  let ?r = "snd_interval_refine (constrs_interval c v) ?t"
  have r: "snd_pcm_hw_constraint_minmax c v lo hi = (fst ?r, set_constrs_interval v (snd ?r) c)"
    by (simp add: snd_pcm_hw_constraint_minmax_def case_prod_unfold Let_def)
  have m: "nu v \<in> ival (constrs_interval c v)" "nu v \<in> ival ?t"
    using assms by (simp_all add: constrs_contain_def ival_def lower_def upper_def)
  note w = ival_nowrap [OF m(1)] ival_nowrap [OF m(2)]
  have "nu v \<in> ival (snd ?r)" using interval_refiner.refine_sem [OF w] m by simp
  then show "constrs_contain mu nu (snd (snd_pcm_hw_constraint_minmax c v lo hi))"
    using assms(1) by (auto simp: r constrs_contain_def constrs_set_interval [OF assms(2,3)])
      (simp_all add: constrs_mask_def set_constrs_interval_def)
  have "\<not> fst ?r < 0" using interval_refiner.refine_error [OF w] m by blast
  then show "0 \<le> fst (snd_pcm_hw_constraint_minmax c v lo hi)" by (simp add: r)
  show "length (cintervals (snd (snd_pcm_hw_constraint_minmax c v lo hi))) = 12"
    "rules (snd (snd_pcm_hw_constraint_minmax c v lo hi)) = rules c"
    using assms(2) by (simp_all add: r set_constrs_interval_def)
qed

lemma any_constraints_contain:
  assumes "wf_constrs c" "positive nu" "\<And>k. k < 4 \<Longrightarrow> mu k < 64"
  shows "constrs_contain mu nu (c\<lparr>cmasks := map snd_mask_any (cmasks c),
     cintervals := map (\<lambda>i. snd_interval_any) (cintervals c)\<rparr>)"
  using assms any_ival
  by (auto simp: constrs_contain_def constrs_mask_def constrs_interval_def wf_constrs_def positive_def less_imp_le)

lemma constraints_init_ok:
  assumes c: "wf_constrs c" and nu: "positive nu" "integral nu" and mu: "\<And>k. k < 4 \<Longrightarrow> mu k < 64"
    and alloc: "\<And>n. alloc n"
  defines "c' \<equiv> snd (snd_pcm_hw_constraints_init alloc c)"
  shows "fst (snd_pcm_hw_constraints_init alloc c) = 0"
    and "rules c' = rules c @ map rule_of default_rules" and "constrs_contain mu nu c'"
proof -
  define c0 where "c0 = c\<lparr>cmasks := map snd_mask_any (cmasks c),
     cintervals := map (\<lambda>i. snd_interval_any) (cintervals c)\<rparr>"
  have "constrs_contain mu nu c0" "length (cintervals c0) = 12" "rules c0 = rules c"
    using any_constraints_contain [OF c nu(1) mu] c by (simp_all add: c0_def wf_constrs_def)
  moreover have "is_interval v \<and> nu v \<in> \<int>" if "v \<in> set [10, 17, 18, 8, 9]" for v
    using that nu(2) by (auto simp: integral_def)
  moreover have "constrs_contain mu nu c1 \<and> length (cintervals c1) = 12 \<and> rules c1 = rules c \<longrightarrow>
      (\<forall>v \<in> set vs. is_interval v \<and> nu v \<in> \<int>) \<longrightarrow>
      constrs_contain mu nu (fold (\<lambda>v cs. snd (snd_pcm_hw_constraint_integer cs v)) vs c1) \<and>
      rules (fold (\<lambda>v cs. snd (snd_pcm_hw_constraint_integer cs v)) vs c1) = rules c" for vs c1
    by (induction vs arbitrary: c1) (auto simp: constraint_integer_contains)
  ultimately have f: "constrs_contain mu nu (fold (\<lambda>v cs. snd (snd_pcm_hw_constraint_integer cs v)) [10, 17, 18, 8, 9] c0)"
    "rules (fold (\<lambda>v cs. snd (snd_pcm_hw_constraint_integer cs v)) [10, 17, 18, 8, 9] c0) = rules c"
    by blast+
  define c1 where "c1 = fold (\<lambda>v cs. snd (snd_pcm_hw_constraint_integer cs v)) [10, 17, 18, 8, 9] c0"
  have init: "snd_pcm_hw_constraints_init alloc c = add_rules alloc default_rules c1"
    unfolding snd_pcm_hw_constraints_init_def Let_def c0_def c1_def ..
  note a = add_rules_all [where alloc = alloc and es = default_rules and cs = c1, OF alloc]
  show "fst (snd_pcm_hw_constraints_init alloc c) = 0"
    "rules c' = rules c @ map rule_of default_rules"
    using a f(2) by (simp_all add: init c'_def c1_def)
  show "constrs_contain mu nu c'"
    using f(1) a unfolding c'_def init c1_def [symmetric]
    by (simp add: constrs_contain_def constrs_mask_def constrs_interval_def)
qed

section \<open>A standard configuration\<close>

text \<open>Two channels of 16-bit samples at 48 kHz, in four periods of 1000 frames.\<close>

definition mu_std :: "nat \<Rightarrow> nat" where
  "mu_std k = [3, 7, 2, 0] ! k"

definition nu_std :: "nat \<Rightarrow> real" where
  "nu_std k = [16, 32, 2, 48000, 62500 / 3, 1000, 4000, 4, 250000 / 3, 4000, 16000, 1] ! (k - 8)"

lemma is_interval_cases:
  "is_interval k \<longleftrightarrow> k \<in> {8, 9, 10, 11, 12, 13, 14, 15, 16, 17, 18, 19}"
  unfolding insert_iff empty_iff by presburger

lemma nu_std_values:
  "nu_std 8 = 16" "nu_std 9 = 32" "nu_std 10 = 2" "nu_std 11 = 48000" "nu_std 12 = 62500 / 3"
  "nu_std 13 = 1000" "nu_std 14 = 4000" "nu_std 15 = 4" "nu_std 16 = 250000 / 3" "nu_std 17 = 4000"
  "nu_std 18 = 16000" "nu_std 19 = 1"
  by (simp_all add: nu_std_def)

lemma positive_std: "positive nu_std"
  unfolding positive_def is_interval_cases
  by (auto simp: nu_std_values ru_UINT_MAX)

lemma format_bits_2: "format_bits 2 = 16"
  by (simp add: format_bits_def snd_pcm_format_physical_width_def valid_format_def pcm_formats_def
      pcm_formats_sample_def pcm_formats_other_def)

lemma consistent_std: "consistent mu_std nu_std"
  using positive_std format_bits_2
  by (simp add: consistent_def format_agrees_def nu_std_values mu_std_def)

interpretation std: consistent_assignment mu_std nu_std
  by unfold_locales (rule consistent_std)

definition params_std :: hw_params where
  "params_std = hw_params_zero\<lparr>masks := replicate 4 \<lparr>bits = replicate 8 (- 1)\<rparr>,
     intervals := replicate 12 snd_interval_any, rmask := - 1\<rparr>"

definition constrs_zero :: hw_constraints where
  "constrs_zero = \<lparr>cmasks = replicate 4 \<lparr>bits = replicate 8 0\<rparr>,
     cintervals = replicate 12 snd_interval_any, rules = [], rules_all = 0\<rparr>"

lemma mset_of_ones: "mset_of \<lparr>bits = replicate 8 (- 1)\<rparr> = {..<64}"
proof -
  have "k div 32 < 8" if "k < 64" for k :: nat using that div_32_less_2 [OF that] by linarith
  then show ?thesis by (auto simp: mset_of_def tbit_def)
qed

lemma mu_std_less: "k < 4 \<Longrightarrow> mu_std k < 64"
  by (auto simp: mu_std_def less_Suc_eq numeral_eq_Suc)

lemma in_space_std: "in_space mu_std nu_std params_std"
  using positive_std mu_std_less any_ival
  by (auto simp: in_space_def wf_params_def params_std_def hw_param_mask_def hw_param_interval_def
      mset_of_ones wf_mask_def positive_def less_imp_le snd_interval_any_def)

lemma wf_constrs_zero: "wf_constrs constrs_zero"
  by (simp add: wf_constrs_def constrs_zero_def wf_mask_def)

definition ss_std :: pcm_substream where
  "ss_std = \<lparr>ss_hw = \<lparr>rates = 0x80, rate_min = 48000, rate_max = 48000, hw_info = 0x100, formats = 4,
       channels_min = 2, channels_max = 2, buffer_bytes_max = 65536, period_bytes_min = 64,
       period_bytes_max = 65536, periods_min = 2, periods_max = 1024, hw_fifo_size = 0\<rparr>,
     ss_constrs = snd (snd_pcm_hw_constraints_init (\<lambda>n. True) constrs_zero),
     ss_buffer_bytes_max = 65536, ss_dma_bytes = 0, ops_mmap = False, ops_page = False,
     get_dma_buf = None, ss_dma_buffer = DMA_CONTINUOUS, dma_can_mmap = False\<rparr>"

lemma integral_std: "integral nu_std"
  by (simp add: integral_def nu_std_values)

section \<open>Properties\<close>

text \<open>
  C3. \<^verbatim>\<open>snd_pcm_hw_refine\<close> never loses a valid configuration. Take any assignment of values to
  the parameters that satisfies the arithmetic of the built-in rules, lies in the constraints of
  the runtime and in the space the caller passes, and is kept by the rules the driver added.
  Then the call returns and the assignment is in the space it leaves. When the array of stamps could be allocated,
  the fixpoint loop ends and the result is 0, with \<^verbatim>\<open>rmask\<close> cleared; when not, the rules are not
  applied and the result is \<^verbatim>\<open>-ENOMEM\<close>.
\<close>

theorem hw_refine_keeps_configurations:
  assumes "consistent mu nu" and "constrs_contain mu nu (ss_constrs ss)" and "in_space mu nu p"
    and "rules (ss_constrs ss) = map rule_of default_rules @ extra"
    and "\<And>r. r \<in> set extra \<Longrightarrow> keeps ss t0 mu nu r"
  shows "\<exists>p'. snd_pcm_hw_refine ss t0 alloc p = Some (if alloc then 0 else - ENOMEM, p') \<and>
    in_space mu nu p' \<and> (alloc \<longrightarrow> rmask p' = 0)"
proof (rule hw_refine_kept [OF _ assms(2,3)])
  show "kept_rules ss t0 mu nu (rules (ss_constrs ss))"
    using assms(1,4,5) default_rules_keep [OF assms(1)] by unfold_locales auto
qed

text \<open>
  A driver that supports two rates, as \<^verbatim>\<open>snd_pcm_hw_constraint_list\<close> registers them, and whose own
  rule allows only two channels at them.
\<close>

definition two_channels :: "hw_params \<Rightarrow> (int \<times> hw_params) option" where
  "two_channels p = Some (interval_rule PARAM_CHANNELS p (snd_interval_refine (hw_param_interval p PARAM_CHANNELS)
     (snd_interval_any\<lparr>iv_min := 2, iv_max := 2\<rparr>)))"

definition driver_rules :: "hw_rule list" where
  "driver_rules =
     [\<lparr>r_cond = 0, r_var = int PARAM_RATE, r_deps = [PARAM_RATE], r_func = Rule_list [44100, 48000] 0\<rparr>,
      \<lparr>r_cond = 0, r_var = int PARAM_CHANNELS, r_deps = [PARAM_RATE], r_func = Rule_driver two_channels\<rparr>]"

definition ss_driver :: pcm_substream where
  "ss_driver = ss_std\<lparr>ss_constrs := (ss_constrs ss_std)\<lparr>rules := rules (ss_constrs ss_std) @ driver_rules\<rparr>\<rparr>"

lemma driver_rules_keep:
  assumes "r \<in> set driver_rules"
  shows "keeps ss t0 mu_std nu_std r"
proof -
  have rate: "kept mu_std nu_std p (snd_pcm_hw_rule_list 11 [44100, 48000] 0 p)" if "in_space mu_std nu_std p" for p
    using kept_interval_list [OF that, of 11 1 "[44100, 48000]" 0]
    by (simp add: snd_pcm_hw_rule_list_def nu_std_values ru_def masked_out_def)
  have chan: "kept mu_std nu_std p (interval_rule 10 p (snd_interval_refine (hw_param_interval p 10)
      (snd_interval_any\<lparr>iv_min := 2, iv_max := 2\<rparr>)))" if "in_space mu_std nu_std p" for p
    using that by (intro kept_refine_interval)
      (simp_all add: nu_std_values ival_def lower_def upper_def snd_interval_any_def ru_def)
  show ?thesis using assms rate chan
    by (auto simp: driver_rules_def keeps_def apply_rule_def two_channels_def simp del: split_paired_Ex)
qed

theorem hw_refine_keeps_configurations_witness:
  "\<exists>p' q'. snd_pcm_hw_refine ss_driver snd_interval_any True params_std = Some (0, p') \<and>
     in_space mu_std nu_std p' \<and> rmask p' = 0 \<and>
     snd_pcm_hw_refine ss_driver snd_interval_any False params_std = Some (- ENOMEM, q') \<and> driver_rules \<noteq> []"
proof -
  note init = constraints_init_ok [of constrs_zero nu_std mu_std "\<lambda>n. True", OF wf_constrs_zero positive_std
      integral_std mu_std_less TrueI]
  have "constrs_contain mu_std nu_std (ss_constrs ss_driver)"
    using init(3) by (simp add: ss_driver_def ss_std_def constrs_contain_def constrs_mask_def constrs_interval_def)
  moreover have "rules (ss_constrs ss_driver) = map rule_of default_rules @ driver_rules"
    using init(2) by (simp add: ss_driver_def ss_std_def constrs_zero_def)
  ultimately have "\<exists>p'. snd_pcm_hw_refine ss_driver snd_interval_any alloc params_std =
      Some (if alloc then 0 else - ENOMEM, p') \<and> in_space mu_std nu_std p' \<and> (alloc \<longrightarrow> rmask p' = 0)" for alloc
    by (rule hw_refine_keeps_configurations [OF consistent_std _ in_space_std _ driver_rules_keep])
  from this [of True] this [of False] show ?thesis by (auto simp: driver_rules_def)
qed

text \<open>
  \<^verbatim>\<open>snd_pcm_hw_constraints_init\<close>, when its allocations succeed, registers exactly the
  built-in rules after the ones already present, and leaves constraints that contain every
  assignment with positive values, format numbers below 64 and integral channels, sizes and bits.
\<close>

theorem constraints_init_contains:
  assumes "wf_constrs c" "positive nu" "integral nu" "\<And>k. k < 4 \<Longrightarrow> mu k < 64" "\<And>n. alloc n"
  shows "fst (snd_pcm_hw_constraints_init alloc c) = 0 \<and>
     rules (snd (snd_pcm_hw_constraints_init alloc c)) = rules c @ map rule_of default_rules \<and>
     constrs_contain mu nu (snd (snd_pcm_hw_constraints_init alloc c))"
  using constraints_init_ok [of c nu mu alloc] assms by blast

theorem constraints_init_contains_witness:
  "fst (snd_pcm_hw_constraints_init (\<lambda>n. True) constrs_zero) = 0"
  using constraints_init_contains [of constrs_zero nu_std mu_std "\<lambda>n. True", OF wf_constrs_zero positive_std
      integral_std mu_std_less TrueI]
  by simp

end
