(* ===== verification/PcmStream.thy ===== *)
theory PcmStream
  imports Math64
begin

text \<open>
  The runtime of a PCM substream: ring-buffer pointers, silence filling and the pointer update
  of \<^verbatim>\<open>core/pcm_lib.c\<close> with the inline functions of \<^verbatim>\<open>include/sound/pcm.h\<close>, and the
  actions of \<^verbatim>\<open>core/pcm_native.c\<close> (start, stop, pause, suspend, resume, reset, prepare, drain,
  drop) on a group of linked substreams.

  \<^verbatim>\<open>snd_pcm_uframes_t\<close> is an unsigned and \<^verbatim>\<open>snd_pcm_sframes_t\<close> a signed 32-bit integer: both are
  \<open>u32\<close> here, with \<open>sint\<close> where the code compares signed values. A group is the list of its
  members; an operation names a member by its index. The functions run with the stream lock
  held, so the locking itself is not part of the state. A driver's answers come from \<open>pcm_driver\<close>.
  Time stamps are left out. \<open>None\<close> is a trap or a loop that does not end.
\<close>

section \<open>State\<close>

datatype pcm_state =
    STATE_OPEN | STATE_SETUP | STATE_PREPARED | STATE_RUNNING | STATE_XRUN | STATE_DRAINING
  | STATE_PAUSED | STATE_SUSPENDED | STATE_DISCONNECTED

datatype trigger_cmd =
    TRIGGER_STOP | TRIGGER_START | TRIGGER_PAUSE_PUSH | TRIGGER_PAUSE_RELEASE
  | TRIGGER_SUSPEND | TRIGGER_RESUME | TRIGGER_DRAIN

text \<open>
  The fields of \<^verbatim>\<open>snd_pcm_substream\<close> and \<^verbatim>\<open>snd_pcm_runtime\<close> with the mapped status and control.
  \<open>silence_log\<close> records the regions given to \<^verbatim>\<open>fill_silence_frames\<close>, \<open>trigger_log\<close> the commands
  given to the driver and \<open>wakeups\<close> the calls of \<^verbatim>\<open>wake_up\<close> on \<^verbatim>\<open>sleep\<close> and \<^verbatim>\<open>tsleep\<close>.
\<close>

record pcm_stream =
  playback :: bool
  state :: pcm_state
  suspended_state :: pcm_state
  hw_ptr :: u32
  appl_ptr :: u32
  avail_min :: u32
  avail_max :: u32
  hw_ptr_base :: u32
  hw_ptr_interrupt :: u32
  hw_ptr_jiffies :: u32
  hw_ptr_buffer_jiffies :: u32
  hw_ptr_wrap :: u64
  rate :: u32
  period_size :: u32
  buffer_size :: u32
  min_align :: u32
  boundary :: u32
  no_period_wakeup :: bool
  start_threshold :: u32
  stop_threshold :: u32
  silence_threshold :: u32
  silence_size :: u32
  silence_start :: u32
  silence_filled :: u32
  twake :: u32
  rt_info :: u32
  rt_hw_info :: u32
  f_flags :: u32
  delay :: u32
  buffer_accessing :: int
  stop_operating :: bool
  trigger_master :: "nat option"
  silence_log :: "(u32 \<times> u32) list"
  trigger_log :: "trigger_cmd list"
  sleep_wakeups :: nat
  tsleep_wakeups :: nat

type_synonym pcm_group = "pcm_stream list"

text \<open>
  The driver: the result of its \<^verbatim>\<open>trigger\<close> and the members it claims for the triggered one
  with \<^verbatim>\<open>snd_pcm_trigger_done\<close>, its \<^verbatim>\<open>pointer\<close>, its \<^verbatim>\<open>prepare\<close>, its own
  handler of \<^verbatim>\<open>SNDRV_PCM_IOCTL1_RESET\<close> if \<^verbatim>\<open>ops->ioctl\<close> is set, its \<^verbatim>\<open>ack\<close> if it
  has one, and the current \<^verbatim>\<open>jiffies\<close>.
\<close>

record pcm_driver =
  drv_trigger :: "nat \<Rightarrow> trigger_cmd \<Rightarrow> int \<times> nat list"
  drv_pointer :: "nat \<Rightarrow> u32"
  drv_prepare :: "nat \<Rightarrow> int"
  drv_ioctl_reset :: "(nat \<Rightarrow> pcm_group \<Rightarrow> (int \<times> pcm_group) option) option"
  drv_ack :: "(nat \<Rightarrow> pcm_stream \<Rightarrow> int) option"
  jiffies :: u32

abbreviation (input) HZ :: u32 where "HZ \<equiv> 100"
abbreviation (input) SNDRV_PCM_POS_XRUN :: u32 where "SNDRV_PCM_POS_XRUN \<equiv> - 1"
abbreviation (input) SNDRV_PCM_INFO_RESUME :: u32 where "SNDRV_PCM_INFO_RESUME \<equiv> 0x00040000"
abbreviation (input) SNDRV_PCM_INFO_PAUSE :: u32 where "SNDRV_PCM_INFO_PAUSE \<equiv> 0x00080000"
abbreviation (input) INFO_DRAIN_TRIGGER :: u32 where "INFO_DRAIN_TRIGGER \<equiv> 0x40000000"
abbreviation (input) ENOSYS :: int where "ENOSYS \<equiv> 38"
abbreviation (input) ERESTARTSYS :: int where "ERESTARTSYS \<equiv> 512"
abbreviation (input) O_NONBLOCK :: u32 where "O_NONBLOCK \<equiv> 2048"

definition upd :: "nat \<Rightarrow> (pcm_stream \<Rightarrow> pcm_stream) \<Rightarrow> pcm_group \<Rightarrow> pcm_group" where
  "upd i f g = g[i := f (g ! i)]"

definition snd_pcm_running :: "pcm_stream \<Rightarrow> bool" where
  "snd_pcm_running s \<longleftrightarrow> state s = STATE_RUNNING \<or> state s = STATE_DRAINING \<and> playback s"

section \<open>Available frames\<close>

text \<open>
  The OS/2 branch of \<^verbatim>\<open>snd_pcm_playback_avail\<close>; \<^verbatim>\<open>avail > runtime->buffer_size\<close> compares a signed
  with an unsigned long, so it is an unsigned comparison.
\<close>

definition snd_pcm_playback_avail :: "pcm_stream \<Rightarrow> u32" where
  "snd_pcm_playback_avail s =
     (let avail =
            (if buffer_size s > appl_ptr s then hw_ptr s + buffer_size s - appl_ptr s
             else let avail = appl_ptr s - hw_ptr s
                  in if avail > buffer_size s then 0 else buffer_size s - avail)
      in if sint avail < 0 then avail + boundary s
         else if avail \<ge> boundary s then avail - boundary s
         else avail)"

definition snd_pcm_capture_avail :: "pcm_stream \<Rightarrow> u32" where
  "snd_pcm_capture_avail s =
     (let avail = hw_ptr s - appl_ptr s
      in if sint avail < 0 then avail + boundary s else avail)"

definition snd_pcm_playback_hw_avail :: "pcm_stream \<Rightarrow> u32" where
  "snd_pcm_playback_hw_avail s = buffer_size s - snd_pcm_playback_avail s"

definition snd_pcm_capture_hw_avail :: "pcm_stream \<Rightarrow> u32" where
  "snd_pcm_capture_hw_avail s = buffer_size s - snd_pcm_capture_avail s"

definition snd_pcm_playback_data :: "pcm_stream \<Rightarrow> bool" where
  "snd_pcm_playback_data s \<longleftrightarrow>
     stop_threshold s \<ge> boundary s \<or> snd_pcm_playback_avail s < buffer_size s"

definition snd_pcm_playback_empty :: "pcm_stream \<Rightarrow> bool" where
  "snd_pcm_playback_empty s \<longleftrightarrow> snd_pcm_playback_avail s \<ge> buffer_size s"

definition snd_pcm_avail :: "pcm_stream \<Rightarrow> u32" where
  "snd_pcm_avail s = (if playback s then snd_pcm_playback_avail s else snd_pcm_capture_avail s)"

definition snd_pcm_hw_avail :: "pcm_stream \<Rightarrow> u32" where
  "snd_pcm_hw_avail s = (if playback s then snd_pcm_playback_hw_avail s else snd_pcm_capture_hw_avail s)"

section \<open>Silence\<close>

text \<open>The \<^verbatim>\<open>while (frames > 0)\<close> loop.\<close>

partial_function (option) silence_loop :: "u32 \<Rightarrow> u32 \<Rightarrow> pcm_stream \<Rightarrow> pcm_stream option" where
  "silence_loop frames ofs s =
     (if frames > 0 then
        let transfer = (if ofs + frames > buffer_size s then buffer_size s - ofs else frames)
        in silence_loop (frames - transfer) 0
             (s\<lparr>silence_log := silence_log s @ [(ofs, transfer)],
                silence_filled := silence_filled s + transfer\<rparr>)
      else Some s)"

text \<open>The bookkeeping before the loop: the initialization and the update for a new \<^verbatim>\<open>hw_ptr\<close>.\<close>

definition silence_init :: "pcm_stream \<Rightarrow> pcm_stream" where
  "silence_init s =
     (let avail = snd_pcm_playback_hw_avail s;
          avail = (if avail > buffer_size s then buffer_size s else avail);
          filled = (if sint avail > 0 then avail else 0)
      in s\<lparr>silence_filled := filled, silence_start := (hw_ptr s + filled) mod boundary s\<rparr>)"

definition silence_advance :: "u32 \<Rightarrow> pcm_stream \<Rightarrow> pcm_stream" where
  "silence_advance new_hw_ptr s =
     (let ofs = hw_ptr s;
          frames = new_hw_ptr - ofs;
          frames = (if sint frames < 0 then frames + boundary s else frames);
          filled = silence_filled s - frames
      in if sint filled < 0 then s\<lparr>silence_filled := 0, silence_start := new_hw_ptr\<rparr>
         else s\<lparr>silence_filled := filled, silence_start := ofs\<rparr>)"

definition snd_pcm_playback_silence :: "u32 \<Rightarrow> pcm_stream \<Rightarrow> pcm_stream option" where
  "snd_pcm_playback_silence new_hw_ptr s =
     (if new_hw_ptr = - 1 \<and> boundary s = 0 then None
      else
        let s = (if new_hw_ptr = - 1 then silence_init s else silence_advance new_hw_ptr s);
            frames = buffer_size s - silence_filled s
        in if snd_BUG_ON (frames > buffer_size s) then Some s
           else if frames = 0 then Some s
           else if buffer_size s = 0 then None
           else silence_loop frames (silence_start s mod buffer_size s) s)"

section \<open>Actions on a group\<close>

text \<open>\<^verbatim>\<open>substream->ops->trigger\<close>: log the command, let the driver claim members.\<close>

definition trigger :: "pcm_driver \<Rightarrow> nat \<Rightarrow> trigger_cmd \<Rightarrow> pcm_group \<Rightarrow> int \<times> pcm_group" where
  "trigger d i cmd g =
     (let (res, claimed) = drv_trigger d i cmd;
          g = upd i (\<lambda>s. s\<lparr>trigger_log := trigger_log s @ [cmd]\<rparr>) g
      in (res, fold (\<lambda>j. upd j (\<lambda>s. s\<lparr>trigger_master := Some i\<rparr>)) claimed g))"

text \<open>
  \<^verbatim>\<open>snd_pcm_trigger_tstamp\<close> without the stamps: it follows the masters and clears them. The
  recursion stops at a member that is its own master; \<open>n\<close> bounds its depth.
\<close>

fun trigger_tstamp :: "nat \<Rightarrow> nat \<Rightarrow> pcm_group \<Rightarrow> pcm_group" where
  "trigger_tstamp 0 i g = g"
| "trigger_tstamp (Suc n) i g =
     (case trigger_master (g ! i) of
        None \<Rightarrow> g
      | Some j \<Rightarrow>
          upd i (\<lambda>s. s\<lparr>trigger_master := None\<rparr>) (if j = i then g else trigger_tstamp n j g))"

definition snd_pcm_trigger_tstamp :: "nat \<Rightarrow> pcm_group \<Rightarrow> pcm_group" where
  "snd_pcm_trigger_tstamp i g = trigger_tstamp (length g) i g"

text \<open>
  \<^verbatim>\<open>struct action_ops\<close>: a missing \<^verbatim>\<open>undo_action\<close> is \<open>None\<close>. The results are options because the
  silence loop and the pointer update are.
\<close>

record action_ops =
  pre_action :: "nat \<Rightarrow> pcm_group \<Rightarrow> int \<times> pcm_group"
  do_action :: "nat \<Rightarrow> pcm_group \<Rightarrow> (int \<times> pcm_group) option"
  undo_action :: "(nat \<Rightarrow> pcm_group \<Rightarrow> pcm_group) option"
  post_action :: "nat \<Rightarrow> pcm_group \<Rightarrow> pcm_group option"

fun pre_all :: "action_ops \<Rightarrow> nat list \<Rightarrow> pcm_group \<Rightarrow> int \<times> pcm_group" where
  "pre_all ops [] g = (0, g)"
| "pre_all ops (i # is) g =
     (let (res, g) = pre_action ops i g in if res < 0 then (res, g) else pre_all ops is g)"

definition undo_all :: "action_ops \<Rightarrow> nat list \<Rightarrow> pcm_group \<Rightarrow> pcm_group" where
  "undo_all ops is g = (case undo_action ops of None \<Rightarrow> g | Some u \<Rightarrow> fold u is g)"

text \<open>
  \<open>prev\<close>: the members before the one at hand, which are undone when it fails; \<open>res\<close>: the status of
  the last call, which a successful group action returns.
\<close>

fun do_all :: "action_ops \<Rightarrow> int \<Rightarrow> nat list \<Rightarrow> nat list \<Rightarrow> pcm_group \<Rightarrow> (int \<times> pcm_group) option" where
  "do_all ops res prev [] g = Some (res, g)"
| "do_all ops res prev (i # is) g =
     (case do_action ops i g of
        None \<Rightarrow> None
      | Some (res, g) \<Rightarrow>
          if res < 0 then Some (res, undo_all ops prev g) else do_all ops res (prev @ [i]) is g)"

fun post_all :: "action_ops \<Rightarrow> nat list \<Rightarrow> pcm_group \<Rightarrow> pcm_group option" where
  "post_all ops [] g = Some g"
| "post_all ops (i # is) g =
     (case post_action ops i g of None \<Rightarrow> None | Some g \<Rightarrow> post_all ops is g)"

definition snd_pcm_action_group :: "action_ops \<Rightarrow> pcm_group \<Rightarrow> (int \<times> pcm_group) option" where
  "snd_pcm_action_group ops g =
     (let members = [0..<length g];
          (res, g) = pre_all ops members g
      in if res < 0 then Some (res, g)
         else
           case do_all ops 0 [] members g of
             None \<Rightarrow> None
           | Some (res, g) \<Rightarrow>
               if res < 0 then Some (res, g)
               else map_option (Pair res) (post_all ops members g))"

definition snd_pcm_action_single :: "action_ops \<Rightarrow> nat \<Rightarrow> pcm_group \<Rightarrow> (int \<times> pcm_group) option" where
  "snd_pcm_action_single ops i g =
     (let (res, g) = pre_action ops i g
      in if res < 0 then Some (res, g)
         else
           case do_action ops i g of
             None \<Rightarrow> None
           | Some (res, g) \<Rightarrow>
               if res = 0 then map_option (Pair res) (post_action ops i g)
               else Some (res, undo_all ops [i] g))"

definition snd_pcm_stream_linked :: "pcm_group \<Rightarrow> bool" where
  "snd_pcm_stream_linked g \<longleftrightarrow> length g > 1"

definition snd_pcm_action :: "action_ops \<Rightarrow> nat \<Rightarrow> pcm_group \<Rightarrow> (int \<times> pcm_group) option" where
  "snd_pcm_action ops i g =
     (if snd_pcm_stream_linked g then snd_pcm_action_group ops g else snd_pcm_action_single ops i g)"

section \<open>Stop\<close>

definition wake_up_both :: "pcm_stream \<Rightarrow> pcm_stream" where
  "wake_up_both s = s\<lparr>sleep_wakeups := Suc (sleep_wakeups s), tsleep_wakeups := Suc (tsleep_wakeups s)\<rparr>"

definition snd_pcm_pre_stop :: "nat \<Rightarrow> pcm_group \<Rightarrow> int \<times> pcm_group" where
  "snd_pcm_pre_stop i g =
     (if state (g ! i) = STATE_OPEN then (- EBADFD, g)
      else (0, upd i (\<lambda>s. s\<lparr>trigger_master := Some i\<rparr>) g))"

definition snd_pcm_do_stop :: "pcm_driver \<Rightarrow> nat \<Rightarrow> pcm_group \<Rightarrow> int \<times> pcm_group" where
  "snd_pcm_do_stop d i g =
     (if trigger_master (g ! i) = Some i \<and> snd_pcm_running (g ! i) then
        let (_, g) = trigger d i TRIGGER_STOP g
        in (0, upd i (\<lambda>s. s\<lparr>stop_operating := True\<rparr>) g)
      else (0, g))"

definition snd_pcm_post_stop :: "pcm_state \<Rightarrow> nat \<Rightarrow> pcm_group \<Rightarrow> pcm_group" where
  "snd_pcm_post_stop st i g =
     (let g = (if state (g ! i) \<noteq> st
               then upd i (\<lambda>s. s\<lparr>state := st\<rparr>) (snd_pcm_trigger_tstamp i g) else g)
      in upd i wake_up_both g)"

definition snd_pcm_action_stop :: "pcm_driver \<Rightarrow> pcm_state \<Rightarrow> action_ops" where
  "snd_pcm_action_stop d st =
     \<lparr>pre_action = snd_pcm_pre_stop, do_action = (\<lambda>i g. Some (snd_pcm_do_stop d i g)),
      undo_action = None, post_action = (\<lambda>i g. Some (snd_pcm_post_stop st i g))\<rparr>"

definition snd_pcm_stop :: "pcm_driver \<Rightarrow> pcm_state \<Rightarrow> nat \<Rightarrow> pcm_group \<Rightarrow> (int \<times> pcm_group) option" where
  "snd_pcm_stop d st i g = snd_pcm_action (snd_pcm_action_stop d st) i g"

definition snd_pcm_drain_done :: "pcm_driver \<Rightarrow> nat \<Rightarrow> pcm_group \<Rightarrow> (int \<times> pcm_group) option" where
  "snd_pcm_drain_done d i g = snd_pcm_action_single (snd_pcm_action_stop d STATE_SETUP) i g"

text \<open>\<^verbatim>\<open>__snd_pcm_xrun\<close>\<close>

definition pcm_xrun :: "pcm_driver \<Rightarrow> nat \<Rightarrow> pcm_group \<Rightarrow> pcm_group option" where
  "pcm_xrun d i g = map_option snd (snd_pcm_stop d STATE_XRUN i g)"

definition snd_pcm_stop_xrun :: "pcm_driver \<Rightarrow> nat \<Rightarrow> pcm_group \<Rightarrow> (int \<times> pcm_group) option" where
  "snd_pcm_stop_xrun d i g =
     (if snd_pcm_running (g ! i) then map_option (Pair 0) (pcm_xrun d i g) else Some (0, g))"

definition snd_pcm_xrun :: "pcm_driver \<Rightarrow> nat \<Rightarrow> pcm_group \<Rightarrow> (int \<times> pcm_group) option" where
  "snd_pcm_xrun d i g =
     (case state (g ! i) of
        STATE_XRUN \<Rightarrow> Some (0, g)
      | STATE_RUNNING \<Rightarrow> map_option (Pair 0) (pcm_xrun d i g)
      | _ \<Rightarrow> Some (- EBADFD, g))"

section \<open>Pointer update\<close>

definition snd_pcm_update_state :: "pcm_driver \<Rightarrow> nat \<Rightarrow> pcm_group \<Rightarrow> (int \<times> pcm_group) option" where
  "snd_pcm_update_state d i g =
     (let avail = snd_pcm_avail (g ! i);
          g = upd i (\<lambda>s. if avail > avail_max s then s\<lparr>avail_max := avail\<rparr> else s) g;
          s = g ! i
      in if state s = STATE_DRAINING \<and> avail \<ge> buffer_size s then
           map_option (\<lambda>r. (- EPIPE, snd r)) (snd_pcm_drain_done d i g)
         else if state s \<noteq> STATE_DRAINING \<and> avail \<ge> stop_threshold s then
           map_option (Pair (- EPIPE)) (pcm_xrun d i g)
         else if twake s \<noteq> 0 then
           Some (0, if avail \<ge> twake s
                    then upd i (\<lambda>s. s\<lparr>tsleep_wakeups := Suc (tsleep_wakeups s)\<rparr>) g else g)
         else
           Some (0, if avail \<ge> avail_min s
                    then upd i (\<lambda>s. s\<lparr>sleep_wakeups := Suc (sleep_wakeups s)\<rparr>) g else g))"

text \<open>The local variables of \<^verbatim>\<open>snd_pcm_update_hw_ptr0\<close> that the steps share.\<close>

record ptr_vars =
  hw_base :: u32
  new_hw_ptr :: u32
  delta :: u32
  crossed :: nat

text \<open>\<^verbatim>\<open>hw_base += buffer_size\<close> with the wrap at the boundary.\<close>

definition next_buffer :: "pcm_stream \<Rightarrow> u32 \<Rightarrow> ptr_vars \<Rightarrow> ptr_vars" where
  "next_buffer s pos v =
     (let base = hw_base v + buffer_size s;
          wrap = base \<ge> boundary s;
          base = (if wrap then 0 else base)
      in v\<lparr>hw_base := base, new_hw_ptr := base + pos,
           crossed := (if wrap then Suc (crossed v) else crossed v)\<rparr>)"

text \<open>The position in frames since the start, before the elapsed time is looked at.\<close>

definition ptr_position :: "pcm_stream \<Rightarrow> bool \<Rightarrow> u32 \<Rightarrow> u32 \<Rightarrow> ptr_vars" where
  "ptr_position s in_interrupt pos curr_jiffies =
     (let v = \<lparr>hw_base = hw_ptr_base s, new_hw_ptr = hw_ptr_base s + pos, delta = 0, crossed = 0\<rparr>;
          expected = hw_ptr_interrupt s + period_size s;
          hdelta = curr_jiffies - hw_ptr_jiffies s;
          v = (if in_interrupt \<and> expected > new_hw_ptr v \<and> hdelta > hw_ptr_buffer_jiffies s div 2 + 1
               then next_buffer s pos v
               else if new_hw_ptr v < hw_ptr s then next_buffer s pos v
               else v);
          dlt = new_hw_ptr v - hw_ptr s
      in v\<lparr>delta := (if sint dlt < 0 then dlt + boundary s else dlt)\<rparr>)"

text \<open>The loop for streams without period interrupts; it does not end for an empty buffer time.\<close>

partial_function (option) skip_buffers :: "pcm_stream \<Rightarrow> u32 \<Rightarrow> u32 \<Rightarrow> ptr_vars \<Rightarrow> ptr_vars option" where
  "skip_buffers s pos hdelta v =
     (if sint hdelta > sint (hw_ptr_buffer_jiffies s div 2 + 1) then
        skip_buffers s pos (hdelta - hw_ptr_buffer_jiffies s)
          (next_buffer s pos (v\<lparr>delta := delta v + buffer_size s\<rparr>))
      else Some v)"

text \<open>The new interrupt position: the last period boundary at or below the new pointer.\<close>

definition advance_interrupt :: "u32 \<Rightarrow> pcm_stream \<Rightarrow> pcm_stream" where
  "advance_interrupt new s =
     (let dlt = new - hw_ptr_interrupt s;
          dlt = (if sint dlt < 0 then dlt + boundary s else dlt);
          dlt = dlt - dlt mod period_size s;
          intr = hw_ptr_interrupt s + dlt
      in s\<lparr>hw_ptr_interrupt := (if intr \<ge> boundary s then intr - boundary s else intr)\<rparr>)"

text \<open>From the label \<^verbatim>\<open>no_delta_check\<close> on.\<close>

definition commit_ptr ::
  "pcm_driver \<Rightarrow> bool \<Rightarrow> ptr_vars \<Rightarrow> nat \<Rightarrow> pcm_group \<Rightarrow> (int \<times> pcm_group) option" where
  "commit_ptr d in_interrupt v i g =
     (let s = g ! i
      in if hw_ptr s = new_hw_ptr v then Some (0, upd i (\<lambda>s. s\<lparr>hw_ptr_jiffies := jiffies d\<rparr>) g)
         else
           case (if playback s \<and> silence_size s > 0
                 then snd_pcm_playback_silence (new_hw_ptr v) s else Some s) of
             None \<Rightarrow> None
           | Some s \<Rightarrow>
               if in_interrupt \<and> period_size s = 0 then None
               else
                 let s = (if in_interrupt then advance_interrupt (new_hw_ptr v) s else s);
                     s = s\<lparr>hw_ptr_base := hw_base v, hw_ptr := new_hw_ptr v, hw_ptr_jiffies := jiffies d\<rparr>;
                     s = (if crossed v \<noteq> 0
                          then s\<lparr>hw_ptr_wrap := hw_ptr_wrap s + ucast (boundary s)\<rparr> else s)
                 in snd_pcm_update_state d i (g[i := s]))"

text \<open>
  \<^verbatim>\<open>xrun_debug\<close> is 0 in this build, so the check of the elapsed time against the position is
  always skipped by \<^verbatim>\<open>goto no_jiffies_check\<close>.
\<close>

definition snd_pcm_update_hw_ptr0 ::
  "pcm_driver \<Rightarrow> bool \<Rightarrow> nat \<Rightarrow> pcm_group \<Rightarrow> (int \<times> pcm_group) option" where
  "snd_pcm_update_hw_ptr0 d in_interrupt i g =
     (let s = g ! i;
          pos = drv_pointer d i;
          curr_jiffies = jiffies d
      in if pos = SNDRV_PCM_POS_XRUN then map_option (Pair (- EPIPE)) (pcm_xrun d i g)
         else if min_align s = 0 then None
         else
           let pos = (if pos \<ge> buffer_size s then 0 else pos);
               pos = pos - pos mod min_align s;
               v = ptr_position s in_interrupt pos curr_jiffies
           in if no_period_wakeup s then
                let jdelta = curr_jiffies - hw_ptr_jiffies s
                in if jdelta < hw_ptr_buffer_jiffies s div 2 then commit_ptr d in_interrupt v i g
                   else if rate s = 0 then None
                   else
                     (case skip_buffers s pos (jdelta - delta v * HZ div rate s) v of
                        None \<Rightarrow> None
                      | Some v \<Rightarrow> commit_ptr d in_interrupt v i g)
              else if delta v \<ge> buffer_size s + period_size s then Some (0, g)
              else commit_ptr d in_interrupt v i g)"

definition snd_pcm_update_hw_ptr :: "pcm_driver \<Rightarrow> nat \<Rightarrow> pcm_group \<Rightarrow> (int \<times> pcm_group) option" where
  "snd_pcm_update_hw_ptr d i g = snd_pcm_update_hw_ptr0 d False i g"

section \<open>Start\<close>

definition snd_pcm_pre_start :: "nat \<Rightarrow> pcm_group \<Rightarrow> int \<times> pcm_group" where
  "snd_pcm_pre_start i g =
     (let s = g ! i
      in if state s \<noteq> STATE_PREPARED then (- EBADFD, g)
         else if playback s \<and> \<not> snd_pcm_playback_data s then (- EPIPE, g)
         else (0, upd i (\<lambda>s. s\<lparr>trigger_master := Some i\<rparr>) g))"

definition snd_pcm_do_start :: "pcm_driver \<Rightarrow> nat \<Rightarrow> pcm_group \<Rightarrow> int \<times> pcm_group" where
  "snd_pcm_do_start d i g =
     (if trigger_master (g ! i) \<noteq> Some i then (0, g) else trigger d i TRIGGER_START g)"

definition snd_pcm_undo_start :: "pcm_driver \<Rightarrow> nat \<Rightarrow> pcm_group \<Rightarrow> pcm_group" where
  "snd_pcm_undo_start d i g =
     (if trigger_master (g ! i) = Some i then snd (trigger d i TRIGGER_STOP g) else g)"

text \<open>The silence after a change of state; it leaves the stream alone when there is none to fill.\<close>

definition fill_if_playback :: "nat \<Rightarrow> pcm_group \<Rightarrow> pcm_group option" where
  "fill_if_playback i g =
     (if playback (g ! i) \<and> silence_size (g ! i) > 0
      then map_option (\<lambda>s. g[i := s]) (snd_pcm_playback_silence (- 1) (g ! i)) else Some g)"

definition snd_pcm_post_start :: "pcm_driver \<Rightarrow> pcm_state \<Rightarrow> nat \<Rightarrow> pcm_group \<Rightarrow> pcm_group option" where
  "snd_pcm_post_start d st i g =
     (let g = snd_pcm_trigger_tstamp i g
      in if rate (g ! i) = 0 then None
         else
           let g = upd i (\<lambda>s. s\<lparr>hw_ptr_jiffies := jiffies d,
                               hw_ptr_buffer_jiffies := buffer_size s * HZ div rate s, state := st\<rparr>) g
           in fill_if_playback i g)"

definition snd_pcm_action_start :: "pcm_driver \<Rightarrow> pcm_state \<Rightarrow> action_ops" where
  "snd_pcm_action_start d st =
     \<lparr>pre_action = snd_pcm_pre_start, do_action = (\<lambda>i g. Some (snd_pcm_do_start d i g)),
      undo_action = Some (snd_pcm_undo_start d), post_action = snd_pcm_post_start d st\<rparr>"

definition snd_pcm_start :: "pcm_driver \<Rightarrow> nat \<Rightarrow> pcm_group \<Rightarrow> (int \<times> pcm_group) option" where
  "snd_pcm_start d i g = snd_pcm_action (snd_pcm_action_start d STATE_RUNNING) i g"

section \<open>Pause\<close>

definition snd_pcm_pre_pause :: "bool \<Rightarrow> nat \<Rightarrow> pcm_group \<Rightarrow> int \<times> pcm_group" where
  "snd_pcm_pre_pause push i g =
     (let s = g ! i
      in if rt_info s AND SNDRV_PCM_INFO_PAUSE = 0 then (- ENOSYS, g)
         else if push \<and> state s \<noteq> STATE_RUNNING then (- EBADFD, g)
         else if \<not> push \<and> state s \<noteq> STATE_PAUSED then (- EBADFD, g)
         else (0, upd i (\<lambda>s. s\<lparr>trigger_master := Some i\<rparr>) g))"

text \<open>The status of the pointer update is ignored.\<close>

definition snd_pcm_do_pause :: "pcm_driver \<Rightarrow> bool \<Rightarrow> nat \<Rightarrow> pcm_group \<Rightarrow> (int \<times> pcm_group) option" where
  "snd_pcm_do_pause d push i g =
     (if trigger_master (g ! i) \<noteq> Some i then Some (0, g)
      else
        case (if push then map_option snd (snd_pcm_update_hw_ptr d i g) else Some g) of
          None \<Rightarrow> None
        | Some g \<Rightarrow>
            let g = upd i (\<lambda>s. s\<lparr>hw_ptr_jiffies := jiffies d - HZ * 1000\<rparr>) g
            in Some (trigger d i (if push then TRIGGER_PAUSE_PUSH else TRIGGER_PAUSE_RELEASE) g))"

definition snd_pcm_undo_pause :: "pcm_driver \<Rightarrow> bool \<Rightarrow> nat \<Rightarrow> pcm_group \<Rightarrow> pcm_group" where
  "snd_pcm_undo_pause d push i g =
     (if trigger_master (g ! i) = Some i
      then snd (trigger d i (if push then TRIGGER_PAUSE_RELEASE else TRIGGER_PAUSE_PUSH) g) else g)"

definition snd_pcm_post_pause :: "bool \<Rightarrow> nat \<Rightarrow> pcm_group \<Rightarrow> pcm_group" where
  "snd_pcm_post_pause push i g =
     (let g = snd_pcm_trigger_tstamp i g
      in if push then upd i (\<lambda>s. wake_up_both (s\<lparr>state := STATE_PAUSED\<rparr>)) g
         else upd i (\<lambda>s. s\<lparr>state := STATE_RUNNING\<rparr>) g)"

definition snd_pcm_action_pause :: "pcm_driver \<Rightarrow> bool \<Rightarrow> action_ops" where
  "snd_pcm_action_pause d push =
     \<lparr>pre_action = snd_pcm_pre_pause push, do_action = snd_pcm_do_pause d push,
      undo_action = Some (snd_pcm_undo_pause d push),
      post_action = (\<lambda>i g. Some (snd_pcm_post_pause push i g))\<rparr>"

definition snd_pcm_pause :: "pcm_driver \<Rightarrow> bool \<Rightarrow> nat \<Rightarrow> pcm_group \<Rightarrow> (int \<times> pcm_group) option" where
  "snd_pcm_pause d push i g = snd_pcm_action (snd_pcm_action_pause d push) i g"

section \<open>Suspend and resume\<close>

definition snd_pcm_pre_suspend :: "nat \<Rightarrow> pcm_group \<Rightarrow> int \<times> pcm_group" where
  "snd_pcm_pre_suspend i g =
     (if state (g ! i) \<in> {STATE_SUSPENDED, STATE_OPEN, STATE_SETUP, STATE_DISCONNECTED} then (- EBUSY, g)
      else (0, upd i (\<lambda>s. s\<lparr>trigger_master := Some i\<rparr>) g))"

definition snd_pcm_do_suspend :: "pcm_driver \<Rightarrow> nat \<Rightarrow> pcm_group \<Rightarrow> int \<times> pcm_group" where
  "snd_pcm_do_suspend d i g =
     (if trigger_master (g ! i) \<noteq> Some i then (0, g)
      else if \<not> snd_pcm_running (g ! i) then (0, g)
      else
        let (_, g) = trigger d i TRIGGER_SUSPEND g
        in (0, upd i (\<lambda>s. s\<lparr>stop_operating := True\<rparr>) g))"

definition snd_pcm_post_suspend :: "nat \<Rightarrow> pcm_group \<Rightarrow> pcm_group" where
  "snd_pcm_post_suspend i g =
     upd i (\<lambda>s. wake_up_both (s\<lparr>suspended_state := state s, state := STATE_SUSPENDED\<rparr>))
       (snd_pcm_trigger_tstamp i g)"

definition snd_pcm_action_suspend :: "pcm_driver \<Rightarrow> action_ops" where
  "snd_pcm_action_suspend d =
     \<lparr>pre_action = snd_pcm_pre_suspend, do_action = (\<lambda>i g. Some (snd_pcm_do_suspend d i g)),
      undo_action = None, post_action = (\<lambda>i g. Some (snd_pcm_post_suspend i g))\<rparr>"

definition snd_pcm_suspend :: "pcm_driver \<Rightarrow> nat \<Rightarrow> pcm_group \<Rightarrow> (int \<times> pcm_group) option" where
  "snd_pcm_suspend d i g = snd_pcm_action (snd_pcm_action_suspend d) i g"

definition snd_pcm_pre_resume :: "nat \<Rightarrow> pcm_group \<Rightarrow> int \<times> pcm_group" where
  "snd_pcm_pre_resume i g =
     (if rt_info (g ! i) AND SNDRV_PCM_INFO_RESUME = 0 then (- ENOSYS, g)
      else (0, upd i (\<lambda>s. s\<lparr>trigger_master := Some i\<rparr>) g))"

definition snd_pcm_do_resume :: "pcm_driver \<Rightarrow> nat \<Rightarrow> pcm_group \<Rightarrow> int \<times> pcm_group" where
  "snd_pcm_do_resume d i g =
     (let s = g ! i
      in if trigger_master s \<noteq> Some i then (0, g)
         else if suspended_state s \<noteq> STATE_RUNNING \<and>
                 (suspended_state s \<noteq> STATE_DRAINING \<or> \<not> playback s) then (0, g)
         else trigger d i TRIGGER_RESUME g)"

definition snd_pcm_undo_resume :: "pcm_driver \<Rightarrow> nat \<Rightarrow> pcm_group \<Rightarrow> pcm_group" where
  "snd_pcm_undo_resume d i g =
     (if trigger_master (g ! i) = Some i \<and> snd_pcm_running (g ! i)
      then snd (trigger d i TRIGGER_SUSPEND g) else g)"

definition snd_pcm_post_resume :: "nat \<Rightarrow> pcm_group \<Rightarrow> pcm_group" where
  "snd_pcm_post_resume i g =
     upd i (\<lambda>s. s\<lparr>state := suspended_state s\<rparr>) (snd_pcm_trigger_tstamp i g)"

definition snd_pcm_action_resume :: "pcm_driver \<Rightarrow> action_ops" where
  "snd_pcm_action_resume d =
     \<lparr>pre_action = snd_pcm_pre_resume, do_action = (\<lambda>i g. Some (snd_pcm_do_resume d i g)),
      undo_action = Some (snd_pcm_undo_resume d), post_action = (\<lambda>i g. Some (snd_pcm_post_resume i g))\<rparr>"

definition snd_pcm_resume :: "pcm_driver \<Rightarrow> nat \<Rightarrow> pcm_group \<Rightarrow> (int \<times> pcm_group) option" where
  "snd_pcm_resume d i g = snd_pcm_action (snd_pcm_action_resume d) i g"

section \<open>Reset and prepare\<close>

text \<open>
  \<^verbatim>\<open>snd_pcm_action_nonatomic\<close>: on OS/2 \<^verbatim>\<open>snd_pcm_buffer_access_lock\<close> only takes the mutex, and
  \<^verbatim>\<open>snd_pcm_buffer_access_unlock\<close> still increments \<^verbatim>\<open>buffer_accessing\<close>.
\<close>

definition snd_pcm_buffer_access_unlock :: "pcm_stream \<Rightarrow> pcm_stream" where
  "snd_pcm_buffer_access_unlock s = s\<lparr>buffer_accessing := buffer_accessing s + 1\<rparr>"

definition snd_pcm_action_nonatomic :: "action_ops \<Rightarrow> nat \<Rightarrow> pcm_group \<Rightarrow> (int \<times> pcm_group) option" where
  "snd_pcm_action_nonatomic ops i g =
     map_option (\<lambda>(res, g). (res, upd i snd_pcm_buffer_access_unlock g))
       (if snd_pcm_stream_linked g then snd_pcm_action_group ops g else snd_pcm_action_single ops i g)"

definition snd_pcm_lib_ioctl_reset :: "pcm_driver \<Rightarrow> nat \<Rightarrow> pcm_group \<Rightarrow> (int \<times> pcm_group) option" where
  "snd_pcm_lib_ioctl_reset d i g =
     (let clear = upd i (\<lambda>s. s\<lparr>hw_ptr := 0, hw_ptr_wrap := 0\<rparr>)
      in if \<not> snd_pcm_running (g ! i) then Some (0, clear g)
         else
           case snd_pcm_update_hw_ptr d i g of
             None \<Rightarrow> None
           | Some (res, g) \<Rightarrow>
               if res < 0 then Some (0, clear g)
               else if buffer_size (g ! i) = 0 then None
               else Some (0, upd i (\<lambda>s. s\<lparr>hw_ptr := hw_ptr s mod buffer_size s\<rparr>) g))"

text \<open>\<^verbatim>\<open>snd_pcm_ops_ioctl\<close> with \<^verbatim>\<open>SNDRV_PCM_IOCTL1_RESET\<close>.\<close>

definition ops_ioctl_reset :: "pcm_driver \<Rightarrow> nat \<Rightarrow> pcm_group \<Rightarrow> (int \<times> pcm_group) option" where
  "ops_ioctl_reset d i g =
     (case drv_ioctl_reset d of Some f \<Rightarrow> f i g | None \<Rightarrow> snd_pcm_lib_ioctl_reset d i g)"

definition snd_pcm_pre_reset :: "nat \<Rightarrow> pcm_group \<Rightarrow> int \<times> pcm_group" where
  "snd_pcm_pre_reset i g =
     (if state (g ! i) \<in> {STATE_RUNNING, STATE_PREPARED, STATE_PAUSED, STATE_SUSPENDED}
      then (0, g) else (- EBADFD, g))"

definition snd_pcm_do_reset :: "pcm_driver \<Rightarrow> nat \<Rightarrow> pcm_group \<Rightarrow> (int \<times> pcm_group) option" where
  "snd_pcm_do_reset d i g =
     (case ops_ioctl_reset d i g of
        None \<Rightarrow> None
      | Some (err, g) \<Rightarrow>
          if err < 0 then Some (err, g)
          else if period_size (g ! i) = 0 then None
          else
            Some (0, upd i (\<lambda>s. s\<lparr>hw_ptr_base := 0,
                                  hw_ptr_interrupt := hw_ptr s - hw_ptr s mod period_size s,
                                  silence_start := hw_ptr s, silence_filled := 0\<rparr>) g))"

definition snd_pcm_post_reset :: "nat \<Rightarrow> pcm_group \<Rightarrow> pcm_group option" where
  "snd_pcm_post_reset i g = fill_if_playback i (upd i (\<lambda>s. s\<lparr>appl_ptr := hw_ptr s\<rparr>) g)"

definition snd_pcm_action_reset :: "pcm_driver \<Rightarrow> action_ops" where
  "snd_pcm_action_reset d =
     \<lparr>pre_action = snd_pcm_pre_reset, do_action = snd_pcm_do_reset d,
      undo_action = None, post_action = snd_pcm_post_reset\<rparr>"

definition snd_pcm_reset :: "pcm_driver \<Rightarrow> nat \<Rightarrow> pcm_group \<Rightarrow> (int \<times> pcm_group) option" where
  "snd_pcm_reset d i g = snd_pcm_action_nonatomic (snd_pcm_action_reset d) i g"

definition snd_pcm_set_state :: "pcm_state \<Rightarrow> pcm_stream \<Rightarrow> pcm_stream" where
  "snd_pcm_set_state st s = (if state s \<noteq> STATE_DISCONNECTED then s\<lparr>state := st\<rparr> else s)"

text \<open>The driver's \<^verbatim>\<open>sync_stop\<close> does not touch the runtime.\<close>

definition snd_pcm_sync_stop :: "pcm_stream \<Rightarrow> pcm_stream" where
  "snd_pcm_sync_stop s = (if stop_operating s then s\<lparr>stop_operating := False\<rparr> else s)"

definition snd_pcm_pre_prepare :: "u32 \<Rightarrow> nat \<Rightarrow> pcm_group \<Rightarrow> int \<times> pcm_group" where
  "snd_pcm_pre_prepare flags i g =
     (if state (g ! i) = STATE_OPEN \<or> state (g ! i) = STATE_DISCONNECTED then (- EBADFD, g)
      else if snd_pcm_running (g ! i) then (- EBUSY, g)
      else (0, upd i (\<lambda>s. s\<lparr>f_flags := flags\<rparr>) g))"

definition snd_pcm_do_prepare :: "pcm_driver \<Rightarrow> nat \<Rightarrow> pcm_group \<Rightarrow> (int \<times> pcm_group) option" where
  "snd_pcm_do_prepare d i g =
     (let g = upd i snd_pcm_sync_stop g;
          err = drv_prepare d i
      in if err < 0 then Some (err, g) else snd_pcm_do_reset d i g)"

definition snd_pcm_post_prepare :: "nat \<Rightarrow> pcm_group \<Rightarrow> pcm_group" where
  "snd_pcm_post_prepare i g =
     upd i (\<lambda>s. snd_pcm_set_state STATE_PREPARED (s\<lparr>appl_ptr := hw_ptr s\<rparr>)) g"

definition snd_pcm_action_prepare :: "pcm_driver \<Rightarrow> u32 \<Rightarrow> action_ops" where
  "snd_pcm_action_prepare d flags =
     \<lparr>pre_action = snd_pcm_pre_prepare flags, do_action = snd_pcm_do_prepare d,
      undo_action = None, post_action = (\<lambda>i g. Some (snd_pcm_post_prepare i g))\<rparr>"

text \<open>\<open>file\<close>: the flags of the calling file, if there is one.\<close>

definition snd_pcm_prepare :: "pcm_driver \<Rightarrow> u32 option \<Rightarrow> nat \<Rightarrow> pcm_group \<Rightarrow> (int \<times> pcm_group) option" where
  "snd_pcm_prepare d file i g =
     (let flags = (case file of Some f \<Rightarrow> f | None \<Rightarrow> f_flags (g ! i));
          stop = (\<lambda>g. map_option snd (snd_pcm_stop d STATE_SETUP i g))
      in case (case state (g ! i) of
                 STATE_PAUSED \<Rightarrow> Option.bind (map_option snd (snd_pcm_pause d False i g)) stop
               | STATE_SUSPENDED \<Rightarrow> stop g
               | _ \<Rightarrow> Some g) of
           None \<Rightarrow> None
         | Some g \<Rightarrow> snd_pcm_action_nonatomic (snd_pcm_action_prepare d flags) i g)"

section \<open>Drain and drop\<close>

definition snd_pcm_pre_drain_init :: "nat \<Rightarrow> pcm_group \<Rightarrow> int \<times> pcm_group" where
  "snd_pcm_pre_drain_init i g =
     (if state (g ! i) \<in> {STATE_OPEN, STATE_DISCONNECTED, STATE_SUSPENDED} then (- EBADFD, g)
      else (0, upd i (\<lambda>s. s\<lparr>trigger_master := Some i\<rparr>) g))"

text \<open>The change of state; the status of the start is ignored.\<close>

definition drain_switch :: "pcm_driver \<Rightarrow> nat \<Rightarrow> pcm_group \<Rightarrow> pcm_group option" where
  "drain_switch d i g =
     (let s = g ! i; to = (\<lambda>st. Some (upd i (\<lambda>s. s\<lparr>state := st\<rparr>) g))
      in if playback s then
           (case state s of
              STATE_PREPARED \<Rightarrow>
                if \<not> snd_pcm_playback_empty s
                then snd_pcm_post_start d STATE_DRAINING i (snd (snd_pcm_do_start d i g))
                else to STATE_SETUP
            | STATE_RUNNING \<Rightarrow> to STATE_DRAINING
            | STATE_XRUN \<Rightarrow> to STATE_SETUP
            | _ \<Rightarrow> Some g)
         else if state s = STATE_RUNNING then
           let new_state = (if snd_pcm_capture_avail s > 0 then STATE_DRAINING else STATE_SETUP)
           in Some (snd_pcm_post_stop new_state i (snd (snd_pcm_do_stop d i g)))
         else Some g)"

definition snd_pcm_do_drain_init :: "pcm_driver \<Rightarrow> nat \<Rightarrow> pcm_group \<Rightarrow> (int \<times> pcm_group) option" where
  "snd_pcm_do_drain_init d i g =
     (case drain_switch d i g of
        None \<Rightarrow> None
      | Some g \<Rightarrow>
          Some (if state (g ! i) = STATE_DRAINING \<and> trigger_master (g ! i) = Some i \<and>
                   rt_hw_info (g ! i) AND INFO_DRAIN_TRIGGER \<noteq> 0
                then trigger d i TRIGGER_DRAIN g else (0, g)))"

definition snd_pcm_action_drain_init :: "pcm_driver \<Rightarrow> action_ops" where
  "snd_pcm_action_drain_init d =
     \<lparr>pre_action = snd_pcm_pre_drain_init, do_action = snd_pcm_do_drain_init d,
      undo_action = None, post_action = (\<lambda>i g. Some g)\<rparr>"

text \<open>
  One turn of the waiting loop: whether a signal is pending, what the other contexts (interrupts,
  other callers) do to the group during the sleep, whether the sleep timed out and whether the card
  is being shut down afterwards.
\<close>

record drain_turn =
  signalled :: bool
  meanwhile :: "pcm_group \<Rightarrow> pcm_group"
  timed_out :: bool
  shutdown :: bool

definition still_draining :: "pcm_group \<Rightarrow> bool" where
  "still_draining g \<longleftrightarrow> (\<exists>s \<in> set g. playback s \<and> state s = STATE_DRAINING)"

text \<open>\<open>None\<close> when the turns are used up: the caller still sleeps.\<close>

fun drain_loop :: "pcm_driver \<Rightarrow> nat \<Rightarrow> int \<Rightarrow> drain_turn list \<Rightarrow> pcm_group \<Rightarrow> (int \<times> pcm_group) option" where
  "drain_loop d i result [] g = None"
| "drain_loop d i result (e # es) g =
     (if signalled e then Some (- ERESTARTSYS, g)
      else if \<not> still_draining g then Some (result, g)
      else
        let g = meanwhile e g
        in if shutdown e then Some (- ENODEV, g)
           else if timed_out e then
             (if state (g ! i) = STATE_SUSPENDED then Some (- ESTRPIPE, g)
              else map_option (\<lambda>r. (- EIO, snd r)) (snd_pcm_stop d STATE_SETUP i g))
           else drain_loop d i result es g)"

definition snd_pcm_drain ::
  "pcm_driver \<Rightarrow> u32 option \<Rightarrow> drain_turn list \<Rightarrow> nat \<Rightarrow> pcm_group \<Rightarrow> (int \<times> pcm_group) option" where
  "snd_pcm_drain d file turns i g =
     (if state (g ! i) = STATE_OPEN then Some (- EBADFD, g)
      else
        let nonblock = (case file of Some f \<Rightarrow> f | None \<Rightarrow> f_flags (g ! i)) AND O_NONBLOCK \<noteq> 0
        in case (if state (g ! i) = STATE_PAUSED then map_option snd (snd_pcm_pause d False i g)
                 else Some g) of
             None \<Rightarrow> None
           | Some g \<Rightarrow>
               (case snd_pcm_action (snd_pcm_action_drain_init d) i g of
                  None \<Rightarrow> None
                | Some (result, g) \<Rightarrow>
                    if result < 0 then Some (result, g)
                    else if nonblock then Some (- EAGAIN, g)
                    else drain_loop d i result turns g))"

definition snd_pcm_drop :: "pcm_driver \<Rightarrow> nat \<Rightarrow> pcm_group \<Rightarrow> (int \<times> pcm_group) option" where
  "snd_pcm_drop d i g =
     (if state (g ! i) = STATE_OPEN \<or> state (g ! i) = STATE_DISCONNECTED then Some (- EBADFD, g)
      else
        case (if state (g ! i) = STATE_PAUSED then map_option snd (snd_pcm_pause d False i g)
              else Some g) of
          None \<Rightarrow> None
        | Some g \<Rightarrow> map_option (\<lambda>r. (0, snd r)) (snd_pcm_stop d STATE_SETUP i g))"

end
