(* ===== verification/PcmAvail.thy ===== *)
theory PcmAvail
  imports PcmStream
begin

text \<open>
  What the inline functions of \<^verbatim>\<open>pcm.h\<close> say about the ring buffer and what the silence filling of
  \<^verbatim>\<open>pcm_lib.c\<close> does to it. \<open>ring_wf\<close> is what \<^verbatim>\<open>snd_pcm_hw_params\<close> establishes and the pointer
  updates keep: the boundary is a multiple of the buffer size, more than one buffer,
  \<^verbatim>\<open>boundary + buffer_size\<close> does not exceed \<^verbatim>\<open>LONG_MAX\<close>, and both pointers are below it.
  \<open>queued\<close> is the number of frames between the hardware and the application pointer.
\<close>

section \<open>Available frames\<close>

definition ring_wf :: "pcm_stream \<Rightarrow> bool" where
  "ring_wf s \<longleftrightarrow>
     0 < unat (buffer_size s) \<and> unat (buffer_size s) < unat (boundary s) \<and>
     unat (boundary s) + unat (buffer_size s) < 2147483648 \<and>
     unat (buffer_size s) dvd unat (boundary s) \<and>
     unat (hw_ptr s) < unat (boundary s) \<and> unat (appl_ptr s) < unat (boundary s)"

definition queued :: "pcm_stream \<Rightarrow> nat" where
  "queued s = (unat (appl_ptr s) + (unat (boundary s) - unat (hw_ptr s))) mod unat (boundary s)"

lemma queued_cases:
  assumes "ring_wf s"
  shows "queued s = (if unat (hw_ptr s) \<le> unat (appl_ptr s) then unat (appl_ptr s) - unat (hw_ptr s)
                     else unat (appl_ptr s) + unat (boundary s) - unat (hw_ptr s))"
proof -
  have "b < B \<Longrightarrow> a < B \<Longrightarrow> (a + (B - b)) mod B = (if b \<le> a then a - b else a + B - b)" for a b B :: nat
    by (simp add: mod_if)
  then show ?thesis using assms by (simp add: queued_def ring_wf_def)
qed

lemma playback_avail_arith:
  fixes hw ap bs bd :: u32
  assumes "0 < unat bs" "unat bs < unat bd" "unat bd + unat bs < 2147483648" 
    "unat hw < unat bd" "unat ap < unat bd"
  shows "unat (let avail = (if bs > ap then hw + bs - ap
             else let avail = ap - hw in if avail > bs then 0 else bs - avail)
      in if sint avail < 0 then avail + bd else if avail \<ge> bd then avail - bd else avail) = 
   (if unat ap < unat bs
    then (if unat hw + unat bs - unat ap \<ge> unat bd then unat hw + unat bs - unat ap - unat bd else unat hw + unat bs - unat ap)
    else if unat hw \<le> unat ap then unat bs - (unat ap - unat hw) else 0)"
proof -
  consider (a) "unat ap < unat bs" | (b) "unat bs \<le> unat ap" "unat hw \<le> unat ap" | (c) "unat bs \<le> unat ap" "unat ap < unat hw"
    by linarith
  then show ?thesis
  proof cases
    case a
    have "unat (hw + bs - ap) = unat hw + unat bs - unat ap"
      using a assms by (simp add: u32_arith)
    then show ?thesis using a assms by (simp add: Let_def u32_arith)
  next
    case b
    then show ?thesis using assms by (simp add: Let_def u32_arith)
  next
    case c
    then have "unat (ap - hw) > unat bs" using assms by (simp add: u32_arith)
    then show ?thesis using c assms by (simp add: Let_def u32_arith)
  qed
qed

lemma unat_playback_avail:
  assumes "ring_wf s"
  shows "unat (snd_pcm_playback_avail s) =
     (if unat (appl_ptr s) < unat (buffer_size s)
      then let a = unat (hw_ptr s) + unat (buffer_size s) - unat (appl_ptr s)
           in if unat (boundary s) \<le> a then a - unat (boundary s) else a
      else if unat (hw_ptr s) \<le> unat (appl_ptr s)
      then unat (buffer_size s) - (unat (appl_ptr s) - unat (hw_ptr s)) else 0)"
  using assms unfolding ring_wf_def snd_pcm_playback_avail_def Let_def
  by (intro playback_avail_arith [unfolded Let_def]) simp_all

lemma playback_avail_queued:
  assumes "ring_wf s" "queued s \<le> unat (buffer_size s)"
  shows "unat (snd_pcm_playback_avail s) = unat (buffer_size s) - queued s"
  using assms unfolding unat_playback_avail [OF assms(1)] queued_cases [OF assms(1)]
  by (auto simp: ring_wf_def Let_def split: if_splits)

lemma playback_hw_avail_queued:
  assumes "ring_wf s" "queued s \<le> unat (buffer_size s)"
  shows "unat (snd_pcm_playback_hw_avail s) = queued s"
  using assms by (simp add: snd_pcm_playback_hw_avail_def unat_sub32 playback_avail_queued)

text \<open>The wrapped difference of two ring pointers, as the code computes it.\<close>

lemma ring_distance:
  fixes hw ap bd :: u32
  assumes "unat hw < unat bd" "unat ap < unat bd" "unat bd < 2147483648"
  shows "unat (let f = hw - ap in if sint f < 0 then f + bd else f)
      = (unat hw + (unat bd - unat ap)) mod unat bd"
proof (cases "unat ap \<le> unat hw")
  case True
  with assms have "unat hw + (unat bd - unat ap) = (unat hw - unat ap) + unat bd"
    "\<not> 2147483648 \<le> unat hw - unat ap" "unat hw - unat ap < unat bd" by linarith+
  with True show ?thesis by (simp only: Let_def sint_neg_iff unat_sub32 mod_add_self2) (simp add: unat_sub32)
next
  case False
  with assms show ?thesis by (auto simp: Let_def u32_arith)
qed

lemma capture_avail_mod:
  assumes "ring_wf s"
  shows "unat (snd_pcm_capture_avail s) =
     (unat (hw_ptr s) + (unat (boundary s) - unat (appl_ptr s))) mod unat (boundary s)"
  using assms unfolding ring_wf_def snd_pcm_capture_avail_def by (intro ring_distance) simp_all

lemma update_state_underrun:
  assumes "ring_wf (g ! i)" "i < length g" "playback (g ! i)" "state (g ! i) = STATE_RUNNING"
    "0 < stop_threshold (g ! i)" "buffer_size (g ! i) \<le> appl_ptr (g ! i)" "appl_ptr (g ! i) < hw_ptr (g ! i)"
  shows "snd_pcm_playback_avail (g ! i) = 0 \<and>
     (\<exists>g'. snd_pcm_update_state d i g = Some (0, g') \<and> state (g' ! i) = STATE_RUNNING)"
proof -
  have "unat (snd_pcm_playback_avail (g ! i)) = 0"
    using assms by (simp add: unat_playback_avail word_less_nat_alt word_le_nat_alt)
  then have z: "snd_pcm_playback_avail (g ! i) = 0" by (simp add: unat_eq_0)
  then show ?thesis using assms
    by (auto simp: snd_pcm_update_state_def snd_pcm_avail_def upd_def Let_def)
qed

section \<open>Silence\<close>

definition silence_regions :: "u32 \<Rightarrow> u32 \<Rightarrow> u32 \<Rightarrow> (u32 \<times> u32) list" where
  "silence_regions bs frames ofs =
     (if frames = 0 then []
      else if unat ofs + unat frames > unat bs then [(ofs, bs - ofs), (0, frames - (bs - ofs))]
      else [(ofs, frames)])"

lemma silence_loop_run:
  assumes "unat ofs < unat (buffer_size s)" "unat frames \<le> unat (buffer_size s)"
    "unat (buffer_size s) < 2147483648"
  shows "silence_loop frames ofs s =
     Some (s\<lparr>silence_log := silence_log s @ silence_regions (buffer_size s) frames ofs,
             silence_filled := silence_filled s + frames\<rparr>)"
proof -
  have base: "silence_loop 0 o' t = Some t" for o' t by (simp add: silence_loop.simps)
  have one: "silence_loop f o' t = Some (t\<lparr>silence_log := silence_log t @ [(o', f)],
      silence_filled := silence_filled t + f\<rparr>)"
    if "f \<noteq> 0" "unat o' + unat f \<le> unat (buffer_size t)" "unat (buffer_size t) < 2147483648" for f o' t
    using that by (subst silence_loop.simps) (simp add: base u32_arith unat_eq_0)
  consider (z) "frames = 0" | (o) "frames \<noteq> 0" "unat ofs + unat frames \<le> unat (buffer_size s)"
    | (w) "frames \<noteq> 0" "unat ofs + unat frames > unat (buffer_size s)" by linarith
  then show ?thesis
  proof cases
    case z then show ?thesis by (simp add: base silence_regions_def)
  next
    case o then show ?thesis using assms by (simp add: one silence_regions_def)
  next
    case w
    let ?n = "buffer_size s - ofs"
    have n: "unat ?n = unat (buffer_size s) - unat ofs" "unat (frames - ?n) = unat frames - unat ?n"
      "frames - ?n \<noteq> 0"
      using w assms by (auto simp: unat_sub32 word_unat_eq_iff)
    have "silence_loop frames ofs s = silence_loop (frames - ?n) 0
        (s\<lparr>silence_log := silence_log s @ [(ofs, ?n)], silence_filled := silence_filled s + ?n\<rparr>)"
      using w assms by (subst silence_loop.simps) (simp add: Let_def u32_arith unat_eq_0)
    also have "\<dots> = Some (s\<lparr>silence_log := (silence_log s @ [(ofs, ?n)]) @ [(0, frames - ?n)],
        silence_filled := (silence_filled s + ?n) + (frames - ?n)\<rparr>)"
      using n assms by (subst one) simp_all
    finally show ?thesis using w by (simp add: silence_regions_def)
  qed
qed

definition positions :: "(u32 \<times> u32) list \<Rightarrow> nat set" where
  "positions rs = (\<Union>(ofs, n) \<in> set rs. {unat ofs ..< unat ofs + unat n})"

definition ring_span :: "nat \<Rightarrow> nat \<Rightarrow> nat \<Rightarrow> nat set" where
  "ring_span m start n = (\<lambda>k. (start + k) mod m) ` {..<n}"

lemma ring_span_mod [simp]: "ring_span m (a mod m) n = ring_span m a n"
  by (simp add: ring_span_def mod_simps)

lemma ring_span_nowrap: "a + n \<le> m \<Longrightarrow> ring_span m a n = {a ..< a + n}"
proof -
  assume "a + n \<le> m"
  then have "ring_span m a n = (\<lambda>k. a + k) ` {..<n}" by (auto simp: ring_span_def intro!: image_cong)
  also have "\<dots> = {a ..< a + n}" using image_add_atLeastLessThan [of a 0 n] by (simp add: atLeast0LessThan add.commute)
  finally show ?thesis .
qed

lemma ring_span_split: "ring_span m a (n + k) = ring_span m a n \<union> ring_span m (a + n) k"
proof -
  have "{..<n + k} = {..<n} \<union> (\<lambda>j. n + j) ` {..<k}"
    using image_add_atLeastLessThan [of n 0 k] by (auto simp: atLeast0LessThan add.commute)
  then show ?thesis by (simp add: ring_span_def image_Un image_image add.assoc)
qed

lemma ring_span_disjoint:
  assumes "n + k \<le> m"
  shows "ring_span m a n \<inter> ring_span m (a + n) k = {}"
proof -
  have "(a + i) mod m \<noteq> (a + n + j) mod m" if "i < n" "j < k" for i j
  proof
    assume eq: "(a + i) mod m = (a + n + j) mod m"
    have "a + i \<le> a + n + j" using that by simp
    then have "m dvd (a + n + j) - (a + i)" using eq by (metis mod_eq_dvd_iff_nat)
    moreover have "0 < (a + n + j) - (a + i)" "(a + n + j) - (a + i) < m" using that assms by linarith+
    ultimately show False using nat_dvd_not_less by blast
  qed
  then show ?thesis by (fastforce simp: ring_span_def)
qed

lemma positions_silence_regions:
  assumes "unat ofs < unat bs" "unat frames \<le> unat bs"
  shows "positions (silence_regions bs frames ofs) = ring_span (unat bs) (unat ofs) (unat frames)"
proof (cases "unat ofs + unat frames > unat bs")
  case True
  let ?n = "unat bs - unat ofs"
  have n: "unat (bs - ofs) = ?n" "unat (frames - (bs - ofs)) = unat frames - ?n" "frames \<noteq> 0"
    using True assms by (auto simp: unat_sub32)
  have "ring_span (unat bs) (unat ofs) (unat frames) =
      ring_span (unat bs) (unat ofs) ?n \<union> ring_span (unat bs) (unat ofs + ?n) (unat frames - ?n)"
    using ring_span_split [of "unat bs" "unat ofs" ?n "unat frames - ?n"] True assms by simp
  also have "ring_span (unat bs) (unat ofs + ?n) (unat frames - ?n) = ring_span (unat bs) 0 (unat frames - ?n)"
    using assms ring_span_mod [of "unat bs" "unat bs" "unat frames - ?n"] by simp
  finally show ?thesis using True assms n
    by (simp add: silence_regions_def positions_def ring_span_nowrap)
next
  case False
  then show ?thesis by (auto simp: silence_regions_def positions_def ring_span_nowrap)
qed

lemma silence_fill_run:
  assumes "0 < unat (buffer_size s)" "unat (buffer_size s) < 2147483648" "unat (silence_filled s) \<le> unat (buffer_size s)"
  defines "frames \<equiv> buffer_size s - silence_filled s"
  shows "\<exists>rs. (if frames = 0 then Some s else if buffer_size s = 0 then None
           else silence_loop frames (silence_start s mod buffer_size s) s)
         = Some (s\<lparr>silence_log := silence_log s @ rs, silence_filled := buffer_size s\<rparr>) \<and>
       positions rs = ring_span (unat (buffer_size s)) (unat (silence_start s))
                        (unat (buffer_size s) - unat (silence_filled s))"
proof -
  have f: "unat frames = unat (buffer_size s) - unat (silence_filled s)"
    using assms by (simp add: frames_def unat_sub32)
  let ?o = "silence_start s mod buffer_size s"
  have o: "unat ?o = unat (silence_start s) mod unat (buffer_size s)" by (simp add: unat_mod_distrib)
  show ?thesis
  proof (cases "frames = 0")
    case True
    then have "silence_filled s = buffer_size s" by (simp add: frames_def)
    with True show ?thesis by (intro exI [of _ "[]"]) (simp add: positions_def ring_span_def)
  next
    case False
    have "unat ?o < unat (buffer_size s)" using assms o by simp
    with f False assms(1,2) show ?thesis
      using silence_loop_run [of ?o s frames] positions_silence_regions [of ?o "buffer_size s" frames]
      by (auto simp: frames_def o)
  qed
qed

section \<open>Properties\<close>

text \<open>
  As long as no more than one buffer is queued, the OS/2 branch of
  \<^verbatim>\<open>snd_pcm_playback_avail\<close> gives the writable frames exactly: the buffer size less what is queued
  between the hardware and the application pointer, modulo the boundary;
  \<^verbatim>\<open>snd_pcm_playback_hw_avail\<close> gives the queued frames and \<^verbatim>\<open>snd_pcm_capture_avail\<close> the distance
  from the application to the hardware pointer.
\<close>

theorem avail_exact:
  assumes "ring_wf s" "queued s \<le> unat (buffer_size s)"
  shows "unat (snd_pcm_playback_avail s) = unat (buffer_size s) - queued s \<and>
     unat (snd_pcm_playback_hw_avail s) = queued s \<and>
     unat (snd_pcm_capture_avail s) =
       (unat (hw_ptr s) + (unat (boundary s) - unat (appl_ptr s))) mod unat (boundary s)"
  using assms by (simp add: playback_avail_queued playback_hw_avail_queued capture_avail_mod)

definition sample_stream :: pcm_stream where
  "sample_stream =
     \<lparr>playback = True, state = STATE_RUNNING, suspended_state = STATE_OPEN, hw_ptr = 70, appl_ptr = 10,
      avail_min = 1, avail_max = 0, hw_ptr_base = 64, hw_ptr_interrupt = 64, hw_ptr_jiffies = 0,
      hw_ptr_buffer_jiffies = 1, hw_ptr_wrap = 0, rate = 8000, period_size = 8, buffer_size = 32,
      min_align = 1, boundary = 96, no_period_wakeup = False, start_threshold = 1, stop_threshold = 32,
      silence_threshold = 0, silence_size = 96, silence_start = 0, silence_filled = 32, twake = 0,
      rt_info = 0, rt_hw_info = 0, f_flags = 0, delay = 0, buffer_accessing = 0, stop_operating = False,
      trigger_master = None, silence_log = [], trigger_log = [], sleep_wakeups = 0, tsleep_wakeups = 0\<rparr>"

theorem avail_exact_witness:
  "unat (snd_pcm_playback_avail (sample_stream\<lparr>appl_ptr := 4\<rparr>)) = 2"
proof -
  let ?s = "sample_stream\<lparr>appl_ptr := 4\<rparr>"
  have "ring_wf ?s" "queued ?s \<le> unat (buffer_size ?s)" "queued ?s = 30"
    by (simp_all add: ring_wf_def queued_def sample_stream_def)
  with avail_exact [of ?s] show ?thesis by (simp add: sample_stream_def)
qed

text \<open>
  The OS/2 branch hides an underrun. Once the hardware pointer has passed an application pointer
  that is at least one buffer from the origin, \<^verbatim>\<open>snd_pcm_playback_avail\<close> answers 0 (a full buffer)
  where more than a buffer is free, so \<^verbatim>\<open>snd_pcm_update_state\<close> reports no error and the stream keeps
  running: the xrun is never detected.
\<close>

theorem underrun_hidden:
  assumes "ring_wf (g ! i)" "i < length g" "playback (g ! i)" "state (g ! i) = STATE_RUNNING"
    "0 < stop_threshold (g ! i)" "buffer_size (g ! i) \<le> appl_ptr (g ! i)" "appl_ptr (g ! i) < hw_ptr (g ! i)"
  shows "snd_pcm_playback_avail (g ! i) = 0 \<and>
     (\<exists>g'. snd_pcm_update_state d i g = Some (0, g') \<and> state (g' ! i) = STATE_RUNNING)"
  using assms by (rule update_state_underrun)

theorem underrun_hidden_witness:
  "snd_pcm_playback_avail (sample_stream\<lparr>appl_ptr := 40\<rparr>) = 0"
  using underrun_hidden [of "[sample_stream\<lparr>appl_ptr := 40\<rparr>]" 0]
  by (simp add: ring_wf_def sample_stream_def)

text \<open>
  Filling with silence at a start: \<^verbatim>\<open>snd_pcm_playback_silence\<close> called with
  \<^verbatim>\<open>ULONG_MAX\<close> returns, the whole buffer counts as filled, and the regions given to
  \<^verbatim>\<open>fill_silence_frames\<close> cover the free positions after the application pointer and none of the
  queued frames.
\<close>

theorem silence_init_spares_queued:
  assumes "ring_wf s" "queued s \<le> unat (buffer_size s)"
  shows "\<exists>s' rs. snd_pcm_playback_silence (- 1) s = Some s' \<and>
     silence_filled s' = buffer_size s \<and> silence_log s' = silence_log s @ rs \<and>
     positions rs =
       ring_span (unat (buffer_size s)) (unat (appl_ptr s)) (unat (buffer_size s) - queued s) \<and>
     positions rs \<inter> ring_span (unat (buffer_size s)) (unat (hw_ptr s)) (queued s) = {}"
proof -
  let ?m = "unat (buffer_size s)" and ?t = "silence_init s"
  note wf = assms(1) [unfolded ring_wf_def]
  have hw: "unat (snd_pcm_playback_hw_avail s) = queued s"
    using assms by (rule playback_hw_avail_queued)
  then have small: "sint (snd_pcm_playback_hw_avail s) = int (queued s)"
    "\<not> snd_pcm_playback_hw_avail s > buffer_size s"
    using wf assms(2) by (auto simp: word_less_nat_alt sint_unat)
  have filled: "unat (silence_filled ?t) = queued s" and eqs: "buffer_size ?t = buffer_size s"
    "silence_log ?t = silence_log s"
    using small hw by (auto simp: silence_init_def Let_def)
  have "silence_start ?t = (hw_ptr s + silence_filled ?t) mod boundary s"
    by (simp add: silence_init_def Let_def)
  moreover have "unat (hw_ptr s + silence_filled ?t) = unat (hw_ptr s) + queued s"
    using wf assms(2) filled by (simp add: unat_add32)
  ultimately have start: "unat (silence_start ?t) = (unat (hw_ptr s) + queued s) mod unat (boundary s)"
    by (simp add: unat_mod_distrib)
  have appl: "(unat (hw_ptr s) + queued s) mod unat (boundary s) = unat (appl_ptr s)"
    using wf queued_cases [OF assms(1)] by (auto simp: mod_if)
  have run: "snd_pcm_playback_silence (- 1) s =
      (if buffer_size s - silence_filled ?t = 0 then Some ?t else if buffer_size s = 0 then None
       else silence_loop (buffer_size s - silence_filled ?t) (silence_start ?t mod buffer_size s) ?t)"
    using wf by (auto simp: snd_pcm_playback_silence_def Let_def eqs)
  obtain rs where rs: "snd_pcm_playback_silence (- 1) s
        = Some (?t\<lparr>silence_log := silence_log s @ rs, silence_filled := buffer_size s\<rparr>)"
    "positions rs = ring_span ?m (unat (appl_ptr s)) (?m - queued s)"
    unfolding run using silence_fill_run [of ?t, unfolded eqs filled start appl] wf assms(2) by force
  have "ring_span ?m (unat (hw_ptr s) + queued s) (?m - queued s) = positions rs"
  proof -
    have "(unat (hw_ptr s) + queued s) mod ?m = unat (appl_ptr s) mod ?m"
      using wf appl by (metis mod_mod_cancel)
    then show ?thesis using rs(2) by (metis ring_span_mod)
  qed
  then show ?thesis
    using rs ring_span_disjoint [of "queued s" "?m - queued s" ?m "unat (hw_ptr s)"] assms(2)
    by (intro exI [of _ "?t\<lparr>silence_log := silence_log s @ rs, silence_filled := buffer_size s\<rparr>"] exI [of _ rs])
      (simp add: Int_commute)
qed

theorem silence_init_spares_queued_witness:
  "\<exists>s'. snd_pcm_playback_silence (- 1) (sample_stream\<lparr>appl_ptr := 4\<rparr>) = Some s' \<and> silence_filled s' = 32"
proof -
  let ?s = "sample_stream\<lparr>appl_ptr := 4\<rparr>"
  have "ring_wf ?s" "queued ?s \<le> unat (buffer_size ?s)"
    by (simp_all add: ring_wf_def queued_def sample_stream_def)
  from silence_init_spares_queued [OF this] show ?thesis by (auto simp: sample_stream_def)
qed

text \<open>
  Filling with silence as playback advances: when the buffer counted as filled and the new
  hardware pointer is at most one buffer ahead, \<^verbatim>\<open>snd_pcm_playback_silence\<close> overwrites exactly the
  frames that were played since the last call, and the buffer counts as filled again.
\<close>

theorem silence_advance_fills_played:
  assumes "ring_wf s" "silence_filled s = buffer_size s" "unat hw' < unat (boundary s)"
    and played: "played = (unat hw' + (unat (boundary s) - unat (hw_ptr s))) mod unat (boundary s)"
    and "played \<le> unat (buffer_size s)"
  shows "\<exists>s' rs. snd_pcm_playback_silence hw' s = Some s' \<and>
     silence_filled s' = buffer_size s \<and> silence_log s' = silence_log s @ rs \<and>
     positions rs = ring_span (unat (buffer_size s)) (unat (hw_ptr s)) played"
proof -
  let ?m = "unat (buffer_size s)" and ?t = "silence_advance hw' s"
  note wf = assms(1) [unfolded ring_wf_def]
  let ?f = "let f = hw' - hw_ptr s in if sint f < 0 then f + boundary s else f"
  have f: "unat ?f = played"
    unfolding played using wf assms(3) by (intro ring_distance) simp_all
  have u: "unat (buffer_size s - ?f) = ?m - played"
    using f assms(5) by (subst unat_sub32) simp
  then have "\<not> sint (buffer_size s - ?f) < 0"
    unfolding sint_neg_iff [of "buffer_size s - ?f"] using wf by linarith
  then have t: "?t = s\<lparr>silence_filled := buffer_size s - ?f, silence_start := hw_ptr s\<rparr>"
    using assms(2) by (simp add: silence_advance_def Let_def)
  have ne: "hw' \<noteq> - 1" using wf assms(3) by auto
  have run: "snd_pcm_playback_silence hw' s =
      (if buffer_size s - silence_filled ?t = 0 then Some ?t else if buffer_size s = 0 then None
       else silence_loop (buffer_size s - silence_filled ?t) (silence_start ?t mod buffer_size s) ?t)"
    using wf ne by (auto simp: snd_pcm_playback_silence_def Let_def t)
  have "unat (silence_filled ?t) = ?m - played" "buffer_size ?t = buffer_size s"
    "silence_start ?t = hw_ptr s" "silence_log ?t = silence_log s" using u by (simp_all add: t)
  note eqs = this
  obtain rs where "snd_pcm_playback_silence hw' s
        = Some (?t\<lparr>silence_log := silence_log s @ rs, silence_filled := buffer_size s\<rparr>)"
    "positions rs = ring_span ?m (unat (hw_ptr s)) (?m - (?m - played))"
    unfolding run eqs using silence_fill_run [of ?t, unfolded eqs] wf assms(5) by force
  then show ?thesis using assms(5) by simp
qed

theorem silence_advance_fills_played_witness:
  "\<exists>s' rs. snd_pcm_playback_silence 90 sample_stream = Some s' \<and> silence_log s' = rs \<and>
     positions rs = ring_span 32 70 20"
proof -
  have "ring_wf sample_stream" "silence_filled sample_stream = buffer_size sample_stream"
    "unat (90 :: u32) < unat (boundary sample_stream)"
    "20 = (unat (90 :: u32) + (unat (boundary sample_stream) - unat (hw_ptr sample_stream))) mod
      unat (boundary sample_stream)" "20 \<le> unat (buffer_size sample_stream)"
    by (simp_all add: ring_wf_def sample_stream_def)
  from silence_advance_fills_played [OF this] show ?thesis by (auto simp: sample_stream_def)
qed
end
