(* ===== verification/PcmActions.thy ===== *)
theory PcmActions
  imports PcmAvail
begin

text \<open>
  The actions of \<^verbatim>\<open>pcm_native.c\<close> on a group of linked substreams. The locale \<open>group_action\<close> states
  what \<^verbatim>\<open>snd_pcm_action_group\<close> and \<^verbatim>\<open>snd_pcm_action_single\<close> rely on of an \<^verbatim>\<open>action_ops\<close> record: the
  preparing, acting and reverting steps leave the settings of all members alone, the status of the
  first is a guard on the member, and the final step switches one member. It is interpreted on
  start, stop, suspend and resume; \<open>unfailing_action\<close> is the contract of stop and suspend, whose
  middle step never fails.
\<close>

section \<open>Group operations\<close>

lemma find_SomeD: "find P xs = Some x \<Longrightarrow> P x \<and> x \<in> set xs"
  by (auto simp: find_Some_iff)

lemma find_map_image: "find P (map f xs) = map_option f (find (\<lambda>x. P (f x)) xs)"
  by (induction xs) simp_all

lemma find_nth: "find P xs = map_option (nth xs) (find (\<lambda>i. P (xs ! i)) [0..<length xs])"
  using find_map_image [of P "nth xs" "[0..<length xs]"] by (simp only: map_nth)

lemma length_upd [simp]: "length (upd i f g) = length g"
  by (simp add: upd_def)

lemma nth_upd [simp]: "i < length g \<Longrightarrow> upd i f g ! j = (if j = i then f (g ! i) else g ! j)"
  by (auto simp: upd_def nth_list_update)

lemma upd_out [simp]: "\<not> i < length g \<Longrightarrow> upd i f g = g"
  by (simp add: upd_def list_update_beyond)

lemma map_upd: "i < length g \<Longrightarrow> map v (upd i f g) = (map v g)[i := v (f (g ! i))]"
  by (simp add: upd_def map_update)

text \<open>A part \<open>v\<close> of the stream that an update does not touch.\<close>

lemma map_upd_same: "(\<And>s. v (f s) = v s) \<Longrightarrow> map v (upd i f g) = map v g"
  by (cases "i < length g") (simp_all add: map_upd, metis list_update_id map_update nth_map)

text \<open>
  The part of a stream that the preparatory and the reverting steps of the actions leave alone:
  everything but the trigger book-keeping, the logs, the wake-ups and the silence and time values.
\<close>

definition settings :: "pcm_stream \<Rightarrow> pcm_stream" where
  "settings s = s\<lparr>trigger_master := None, trigger_log := [], stop_operating := False,
     sleep_wakeups := 0, tsleep_wakeups := 0, silence_log := [], silence_filled := 0,
     silence_start := 0, hw_ptr_jiffies := 0, hw_ptr_buffer_jiffies := 0\<rparr>"

lemma settings_simps [simp]:
  "settings (s\<lparr>trigger_master := m\<rparr>) = settings s"
  "settings (s\<lparr>trigger_log := l\<rparr>) = settings s"
  "settings (s\<lparr>stop_operating := b\<rparr>) = settings s"
  "settings (wake_up_both s) = settings s"
  "settings (s\<lparr>state := st\<rparr>) = (settings s)\<lparr>state := st\<rparr>"
  "settings (s\<lparr>suspended_state := st\<rparr>) = (settings s)\<lparr>suspended_state := st\<rparr>"
  "settings (s\<lparr>hw_ptr_jiffies := x\<rparr>) = settings s"
  "settings (s\<lparr>hw_ptr_buffer_jiffies := x\<rparr>) = settings s"
  "settings (s\<lparr>silence_filled := x\<rparr>) = settings s"
  "settings (s\<lparr>silence_start := x\<rparr>) = settings s"
  "settings (s\<lparr>silence_log := rs\<rparr>) = settings s"
  "state (settings s) = state s" "suspended_state (settings s) = suspended_state s"
  "playback (settings s) = playback s" "rate (settings s) = rate s"
  "buffer_size (settings s) = buffer_size s" "boundary (settings s) = boundary s"
  "hw_ptr (settings s) = hw_ptr s" "appl_ptr (settings s) = appl_ptr s"
  "silence_size (settings s) = silence_size s" "stop_threshold (settings s) = stop_threshold s"
  "rt_info (settings s) = rt_info s"
  by (simp_all add: settings_def wake_up_both_def)

lemma settings_avail [simp]:
  "snd_pcm_playback_avail (settings s) = snd_pcm_playback_avail s"
  "snd_pcm_playback_data (settings s) = snd_pcm_playback_data s"
proof -
  show "snd_pcm_playback_avail (settings s) = snd_pcm_playback_avail s"
    unfolding snd_pcm_playback_avail_def settings_simps ..
  then show "snd_pcm_playback_data (settings s) = snd_pcm_playback_data s"
    by (simp add: snd_pcm_playback_data_def)
qed

lemma fold_upd_same:
  "(\<And>s. v (f s) = v s) \<Longrightarrow> map v (fold (\<lambda>j. upd j f) js g) = map v g"
  by (induction js arbitrary: g) (simp_all add: map_upd_same)

lemma trigger_settings [simp]: "map settings (snd (trigger d i cmd g)) = map settings g"
  by (simp add: trigger_def Let_def split_beta fold_upd_same map_upd_same)

lemma trigger_tstamp_settings [simp]: "map settings (trigger_tstamp n i g) = map settings g"
  by (induction n arbitrary: i g) (simp_all add: map_upd_same split: option.split)

lemma snd_pcm_trigger_tstamp_settings [simp]: "map settings (snd_pcm_trigger_tstamp i g) = map settings g"
  by (simp add: snd_pcm_trigger_tstamp_def)

lemma settings_length: "map settings g' = map settings g \<Longrightarrow> length g' = length g"
  by (metis length_map)

lemma settings_nth: "map settings g' = map settings g \<Longrightarrow> i < length g \<Longrightarrow> settings (g' ! i) = settings (g ! i)"
  by (metis length_map nth_map)

section \<open>Actions that switch the whole group\<close>

locale group_action =
  fixes ops :: action_ops
    and switch :: "pcm_stream \<Rightarrow> pcm_stream"
    and guard :: "pcm_stream \<Rightarrow> int"
    and ready :: "pcm_stream \<Rightarrow> bool"
  assumes pre_guards: "i < length g \<Longrightarrow> fst (pre_action ops i g) = guard (settings (g ! i))"
    and guard_le: "guard s \<le> 0"
    and pre_keeps: "map settings (snd (pre_action ops i g)) = map settings g"
    and do_keeps: "\<exists>r g'. do_action ops i g = Some (r, g') \<and> map settings g' = map settings g"
    and undo_keeps: "undo_action ops = Some u \<Longrightarrow> map settings (u i g) = map settings g"
    and post_switches: "i < length g \<Longrightarrow> ready (settings (g ! i)) \<Longrightarrow>
      \<exists>g'. post_action ops i g = Some g' \<and> map settings g' = (map settings g)[i := switch (settings (g ! i))]"
begin

lemma pre_all_keeps: "map settings (snd (pre_all ops is g)) = map settings g"
proof (induction "is" arbitrary: g)
  case (Cons i "is")
  then show ?case using pre_keeps [of i g] by (simp add: split_beta)
qed simp

lemma pre_all_guards:
  assumes "\<forall>i\<in>set is. i < length g"
  shows "fst (pre_all ops is g) =
     (case find (\<lambda>i. guard (settings (g ! i)) < 0) is of None \<Rightarrow> 0 | Some i \<Rightarrow> guard (settings (g ! i)))"
  using assms
proof (induction "is" arbitrary: g)
  case (Cons i "is")
  obtain r g1 where p: "pre_action ops i g = (r, g1)" by fastforce
  have k: "map settings g1 = map settings g" using pre_keeps [of i g] p by simp
  have nth: "settings (g1 ! j) = settings (g ! j)" if "j \<in> set is" for j
    using settings_nth [OF k] Cons.prems that by simp
  have "r = guard (settings (g ! i))" using pre_guards [of i g] p Cons.prems by simp
  moreover have "find (\<lambda>i. guard (settings (g1 ! i)) < 0) is = find (\<lambda>i. guard (settings (g ! i)) < 0) is"
    by (rule find_cong) (simp_all add: nth)
  moreover have "fst (pre_all ops is g1) = (case find (\<lambda>i. guard (settings (g1 ! i)) < 0) is of
      None \<Rightarrow> 0 | Some i \<Rightarrow> guard (settings (g1 ! i)))"
    using Cons.IH Cons.prems settings_length [OF k] by simp
  ultimately show ?case using p nth
    by (auto split: option.split dest: find_SomeD)
qed simp

lemma undo_all_keeps: "map settings (undo_all ops is g) = map settings g"
proof (cases "undo_action ops")
  case (Some u)
  have "map settings (fold u is g) = map settings g" for g
    by (induction "is" arbitrary: g) (simp_all add: undo_keeps [OF Some])
  then show ?thesis by (simp add: undo_all_def Some)
qed (simp add: undo_all_def)

lemma do_all_keeps: "\<exists>r g'. do_all ops res prev is g = Some (r, g') \<and> map settings g' = map settings g"
proof (induction "is" arbitrary: res prev g)
  case (Cons i "is")
  obtain r g' where d: "do_action ops i g = Some (r, g')" "map settings g' = map settings g"
    using do_keeps by blast
  show ?case
  proof (cases "r < 0")
    case True
    then show ?thesis by (simp add: d undo_all_keeps)
  next
    case False
    then show ?thesis using Cons.IH [of r "prev @ [i]" g'] by (simp add: d)
  qed
qed simp

lemma post_all_switches:
  assumes "distinct is" "\<forall>i\<in>set is. i < length g \<and> ready (settings (g ! i))"
  shows "\<exists>g'. post_all ops is g = Some g' \<and>
     map settings g' = map (\<lambda>j. if j \<in> set is then switch (settings (g ! j)) else settings (g ! j)) [0..<length g]"
  using assms
proof (induction "is" arbitrary: g)
  case Nil
  have "map settings g = map (\<lambda>j. settings (g ! j)) [0..<length g]" by (rule nth_equalityI) simp_all
  then show ?case by simp
next
  case (Cons i "is")
  obtain g1 where g1: "post_action ops i g = Some g1"
    "map settings g1 = (map settings g)[i := switch (settings (g ! i))]"
    using post_switches [of i g] Cons.prems(2) by auto
  have len: "length g1 = length g" using arg_cong [OF g1(2), of length] by simp
  have nth: "settings (g1 ! j) = (if j = i then switch (settings (g ! i)) else settings (g ! j))"
    if "j < length g" for j
    using arg_cong [OF g1(2), of "\<lambda>xs. xs ! j"] that len by (simp add: nth_list_update)
  have "\<forall>j\<in>set is. j < length g1 \<and> ready (settings (g1 ! j))"
    using Cons.prems nth len by (auto simp: nth)
  then obtain g' where "post_all ops is g1 = Some g'"
    "map settings g' = map (\<lambda>j. if j \<in> set is then switch (settings (g1 ! j)) else settings (g1 ! j)) [0..<length g1]"
    using Cons.IH Cons.prems(1) by force
  then show ?case using Cons.prems(1) by (auto simp: g1 len nth intro!: map_cong)
qed

text \<open>A group action returns; either it fails and nothing has moved, or every member has switched.\<close>

lemma action_group_switches:
  assumes "\<forall>s\<in>set g. ready (settings s)"
  shows "\<exists>r g'. snd_pcm_action_group ops g = Some (r, g') \<and>
     map settings g' = (if r < 0 then map settings g else map (\<lambda>s. switch (settings s)) g) \<and>
     (\<forall>s. find (\<lambda>s. guard (settings s) < 0) g = Some s \<longrightarrow> r = guard (settings s))"
proof -
  let ?m = "[0..<length g]"
  obtain r1 g1 where pre: "pre_all ops ?m g = (r1, g1)" "map settings g1 = map settings g"
    using pre_all_keeps [of ?m g] by (metis prod.collapse)
  obtain r2 g2 where d: "do_all ops 0 [] ?m g1 = Some (r2, g2)" "map settings g2 = map settings g1"
    using do_all_keeps by blast
  have keep: "map settings g2 = map settings g" using pre(2) d(2) by simp
  note len = settings_length [OF keep]
  have nth: "settings (g2 ! j) = settings (g ! j)" if "j < length g" for j
    using settings_nth [OF keep that] .
  have "\<forall>i\<in>set ?m. i < length g2 \<and> ready (settings (g2 ! i))"
    using assms len by (simp add: nth)
  then obtain g3 where "post_all ops ?m g2 = Some g3"
    "map settings g3 = map (\<lambda>j. if j \<in> set ?m then switch (settings (g2 ! j)) else settings (g2 ! j)) [0..<length g2]"
    using post_all_switches [of ?m g2] by auto
  moreover have "map (\<lambda>j. if j \<in> set ?m then switch (settings (g2 ! j)) else settings (g2 ! j)) [0..<length g2]
      = map (\<lambda>s. switch (settings s)) g"
    by (rule nth_equalityI) (simp_all add: len nth)
  moreover have "r1 = guard (settings s) \<and> r1 < 0" if "find (\<lambda>s. guard (settings s) < 0) g = Some s" for s
    using pre_all_guards [of ?m g] pre(1) that find_SomeD [OF that]
    by (auto simp: find_nth [of _ g] split: option.splits)
  ultimately show ?thesis using pre d(1) keep
    by (cases "r1 < 0") (auto simp: snd_pcm_action_group_def Let_def)
qed

lemma action_single_switches:
  assumes "i < length g" "ready (settings (g ! i))"
  shows "\<exists>r g'. snd_pcm_action_single ops i g = Some (r, g') \<and>
     map settings g' = (if r = 0 then (map settings g)[i := switch (settings (g ! i))] else map settings g) \<and>
     (guard (settings (g ! i)) < 0 \<longrightarrow> r = guard (settings (g ! i)))"
proof -
  obtain r1 g1 where pre: "pre_action ops i g = (r1, g1)" "map settings g1 = map settings g"
    using pre_keeps [of i g] by (metis prod.collapse)
  obtain r2 g2 where d: "do_action ops i g1 = Some (r2, g2)" "map settings g2 = map settings g1"
    using do_keeps by blast
  have keep: "map settings g2 = map settings g" using pre d by simp
  then obtain g3 where "post_action ops i g2 = Some g3"
    "map settings g3 = (map settings g)[i := switch (settings (g ! i))]"
    using post_switches [of i g2] assms settings_nth [OF keep] settings_length [OF keep] by auto
  moreover have "r1 = guard (settings (g ! i))" using pre_guards [OF assms(1)] pre(1) by simp
  ultimately show ?thesis using pre d keep undo_all_keeps
    by (cases "r1 < 0") (auto simp: snd_pcm_action_single_def Let_def)
qed

lemma action_switches:
  assumes "i < length g" "\<forall>s\<in>set g. ready (settings s)"
  shows "\<exists>r g'. snd_pcm_action ops i g = Some (r, g') \<and>
     (r < 0 \<longrightarrow> map settings g' = map settings g) \<and>
     (r = 0 \<longrightarrow> map settings g' = map (\<lambda>s. switch (settings s)) g) \<and>
     (\<forall>s. find (\<lambda>s. guard (settings s) < 0) g = Some s \<longrightarrow> r = guard (settings s))"
proof (cases "snd_pcm_stream_linked g")
  case True
  then show ?thesis using action_group_switches [OF assms(2)]
    by (auto simp: snd_pcm_action_def split: if_splits)
next
  case False
  then obtain s where "g = [s]" using assms(1)
    by (cases g; cases "tl g") (auto simp: snd_pcm_stream_linked_def)
  then show ?thesis using action_single_switches [of i g] assms False
    by (auto simp: snd_pcm_action_def split: if_splits)
qed

end

text \<open>Actions whose middle step cannot fail.\<close>

locale unfailing_action = group_action +
  assumes do_zero: "do_action ops i g = Some (r, g') \<Longrightarrow> r = 0"
begin

lemma do_all_zero: "do_all ops 0 prev is g = Some (r, g') \<Longrightarrow> r = 0"
proof (induction "is" arbitrary: prev g)
  case (Cons i "is")
  obtain r1 g1 where "do_action ops i g = Some (r1, g1)" using do_keeps by blast
  with Cons do_zero [OF this] show ?case by auto
qed simp

lemma action_succeeds:
  assumes "i < length g" "\<forall>s\<in>set g. guard (settings s) = 0" "snd_pcm_action ops i g = Some (r, g')"
  shows "r = 0"
proof (cases "snd_pcm_stream_linked g")
  case True
  have "find (\<lambda>i. guard (settings (g ! i)) < 0) [0..<length g] = None"
    using assms(2) by (simp add: find_None_iff)
  then have "fst (pre_all ops [0..<length g] g) = 0"
    using pre_all_guards [of "[0..<length g]" g] by simp
  then show ?thesis using True assms(3) do_all_zero
    by (auto simp: snd_pcm_action_def snd_pcm_action_group_def Let_def split: prod.splits option.splits if_splits)
next
  case False
  have "fst (pre_action ops i g) = 0" using pre_guards assms(1,2) by simp
  then show ?thesis using False assms(3) do_zero
    by (auto simp: snd_pcm_action_def snd_pcm_action_single_def Let_def split: prod.splits option.splits if_splits)
qed

text \<open>So the outcome is decided by the guards alone.\<close>

lemma action_decided:
  assumes "i < length g" "\<forall>s\<in>set g. ready (settings s)"
  shows "\<exists>r g'. snd_pcm_action ops i g = Some (r, g') \<and>
     (case find (\<lambda>s. guard (settings s) < 0) g of
        None \<Rightarrow> r = 0 \<and> map settings g' = map (\<lambda>s. switch (settings s)) g
      | Some s \<Rightarrow> r = guard (settings s) \<and> map settings g' = map settings g)"
proof -
  obtain r g' where a: "snd_pcm_action ops i g = Some (r, g')"
     "r < 0 \<longrightarrow> map settings g' = map settings g"
     "r = 0 \<longrightarrow> map settings g' = map (\<lambda>s. switch (settings s)) g"
     "\<forall>s. find (\<lambda>s. guard (settings s) < 0) g = Some s \<longrightarrow> r = guard (settings s)"
    using action_switches [OF assms] by blast
  show ?thesis
  proof (cases "find (\<lambda>s. guard (settings s) < 0) g")
    case None
    then have "\<forall>s\<in>set g. guard (settings s) = 0"
      using guard_le by (metis find_None_iff linorder_neqE_linordered_idom linorder_not_less)
    from action_succeeds [OF assms(1) this a(1)] show ?thesis using None a by simp
  next
    case (Some s)
    then have "guard (settings s) < 0" using find_SomeD [OF Some] by simp
    then show ?thesis using Some a by simp
  qed
qed

end

section \<open>Stop, start, suspend and resume\<close>

lemma silence_init_filled: "unat (silence_filled (silence_init s)) \<le> unat (buffer_size s)"
  by (simp add: silence_init_def Let_def word_le_nat_alt [symmetric] linorder_not_less)

lemma silence_init_other [simp]:
  "settings (silence_init s) = settings s" "buffer_size (silence_init s) = buffer_size s"
  "hw_ptr_buffer_jiffies (silence_init s) = hw_ptr_buffer_jiffies s"
  by (simp_all add: silence_init_def Let_def)

definition fillable :: "pcm_stream \<Rightarrow> bool" where
  "fillable s \<longleftrightarrow> 0 < unat (buffer_size s) \<and> unat (buffer_size s) < 2147483648 \<and> boundary s \<noteq> 0"

lemma silence_start_returns:
  assumes "fillable s"
  shows "\<exists>s'. snd_pcm_playback_silence (- 1) s = Some s' \<and> settings s' = settings s \<and>
    silence_filled s' = buffer_size s \<and> hw_ptr_buffer_jiffies s' = hw_ptr_buffer_jiffies s"
proof -
  let ?t = "silence_init s"
  have "snd_pcm_playback_silence (- 1) s =
      (if buffer_size ?t - silence_filled ?t = 0 then Some ?t else if buffer_size ?t = 0 then None
       else silence_loop (buffer_size ?t - silence_filled ?t) (silence_start ?t mod buffer_size ?t) ?t)"
    using assms by (auto simp: snd_pcm_playback_silence_def Let_def fillable_def)
  moreover obtain rs where "(if buffer_size ?t - silence_filled ?t = 0 then Some ?t else if buffer_size ?t = 0 then None
       else silence_loop (buffer_size ?t - silence_filled ?t) (silence_start ?t mod buffer_size ?t) ?t)
       = Some (?t\<lparr>silence_log := silence_log ?t @ rs, silence_filled := buffer_size ?t\<rparr>)"
    using silence_fill_run [of ?t] assms silence_init_filled [of s] unfolding fillable_def by auto
  ultimately show ?thesis by simp
qed

lemma fill_if_playback_settings:
  assumes "i < length g" "playback (g ! i) \<and> silence_size (g ! i) > 0 \<longrightarrow> fillable (g ! i)"
  shows "\<exists>g'. fill_if_playback i g = Some g' \<and> map settings g' = map settings g"
proof (cases "playback (g ! i) \<and> silence_size (g ! i) > 0")
  case True
  then obtain s' where s': "snd_pcm_playback_silence (- 1) (g ! i) = Some s'" "settings s' = settings (g ! i)"
    using silence_start_returns assms(2) by blast
  have "map settings (g[i := s']) = map settings g"
    using s'(2) assms(1) by (simp add: map_update list_update_same_conv)
  then show ?thesis using True s'(1) by (simp add: fill_if_playback_def)
qed (auto simp: fill_if_playback_def)

definition startable :: "pcm_stream \<Rightarrow> bool" where
  "startable s \<longleftrightarrow> rate s \<noteq> 0 \<and> (playback s \<and> silence_size s > 0 \<longrightarrow> fillable s)"

lemma startable_settings [simp]: "startable (settings s) = startable s" "fillable (settings s) = fillable s"
  by (simp_all add: startable_def fillable_def)

lemma map_settings_upd: "i < length g \<Longrightarrow> map settings (upd i f g) = (map settings g)[i := settings (f (g ! i))]"
  by (rule map_upd)

definition start_guard :: "pcm_stream \<Rightarrow> int" where
  "start_guard s = (if state s \<noteq> STATE_PREPARED then - EBADFD
                    else if playback s \<and> \<not> snd_pcm_playback_data s then - EPIPE else 0)"

definition stop_guard :: "pcm_stream \<Rightarrow> int" where
  "stop_guard s = (if state s = STATE_OPEN then - EBADFD else 0)"

definition suspend_guard :: "pcm_stream \<Rightarrow> int" where
  "suspend_guard s =
     (if state s \<in> {STATE_SUSPENDED, STATE_OPEN, STATE_SETUP, STATE_DISCONNECTED} then - EBUSY else 0)"

definition resume_guard :: "pcm_stream \<Rightarrow> int" where
  "resume_guard s = (if rt_info s AND SNDRV_PCM_INFO_RESUME = 0 then - ENOSYS else 0)"

lemma guard_settings [simp]:
  "start_guard (settings s) = start_guard s" "stop_guard (settings s) = stop_guard s"
  "suspend_guard (settings s) = suspend_guard s" "resume_guard (settings s) = resume_guard s"
  by (simp_all add: start_guard_def stop_guard_def suspend_guard_def resume_guard_def)

interpretation start: group_action "snd_pcm_action_start d st" "\<lambda>s. s\<lparr>state := st\<rparr>" start_guard startable
proof (unfold_locales, goal_cases)
  case (1 i g)
  then show ?case by (simp add: snd_pcm_action_start_def snd_pcm_pre_start_def start_guard_def Let_def)
next
  case (2 s)
  show ?case by (simp add: start_guard_def)
next
  case (3 i g)
  show ?case by (simp add: snd_pcm_action_start_def snd_pcm_pre_start_def Let_def map_upd_same)
next
  case (4 i g)
  show ?case by (cases "trigger d i TRIGGER_START g")
    (use trigger_settings [of d i TRIGGER_START g] in \<open>simp add: snd_pcm_action_start_def snd_pcm_do_start_def\<close>)
next
  case (5 u i g)
  then show ?case by (auto simp: snd_pcm_action_start_def snd_pcm_undo_start_def)
next
  case (6 i g)
  let ?g1 = "snd_pcm_trigger_tstamp i g"
  have k: "map settings ?g1 = map settings g" by simp
  have len: "length ?g1 = length g" using settings_length [OF k] .
  have nth: "settings (?g1 ! i) = settings (g ! i)" using settings_nth [OF k 6(1)] .
  then have s: "startable (?g1 ! i)" using 6(2) by (metis startable_settings(1))
  let ?f = "\<lambda>s. s\<lparr>hw_ptr_jiffies := jiffies d, hw_ptr_buffer_jiffies := buffer_size s * HZ div rate s, state := st\<rparr>"
  obtain g' where "fill_if_playback i (upd i ?f ?g1) = Some g'"
    "map settings g' = map settings (upd i ?f ?g1)"
    using fill_if_playback_settings [of i "upd i ?f ?g1"] s 6(1) len
    by (auto simp: startable_def fillable_def)
  moreover have "map settings (upd i ?f ?g1) = (map settings g)[i := (settings (g ! i))\<lparr>state := st\<rparr>]"
    using 6(1) len nth k by (simp add: map_settings_upd)
  ultimately show ?case using s
    by (simp add: snd_pcm_action_start_def snd_pcm_post_start_def Let_def startable_def)
qed

interpretation stop: unfailing_action "snd_pcm_action_stop d st" "\<lambda>s. s\<lparr>state := st\<rparr>" stop_guard "\<lambda>_. True"
proof (unfold_locales, goal_cases)
  case (1 i g)
  then show ?case by (simp add: snd_pcm_action_stop_def snd_pcm_pre_stop_def stop_guard_def Let_def)
next
  case (2 s)
  show ?case by (simp add: stop_guard_def)
next
  case (3 i g)
  show ?case by (simp add: snd_pcm_action_stop_def snd_pcm_pre_stop_def map_upd_same)
next
  case (4 i g)
  show ?case
    by (simp add: snd_pcm_action_stop_def snd_pcm_do_stop_def Let_def split_beta map_upd_same)
next
  case (6 i g)
  let ?g1 = "if state (g ! i) \<noteq> st then upd i (\<lambda>s. s\<lparr>state := st\<rparr>) (snd_pcm_trigger_tstamp i g) else g"
  have k: "map settings (snd_pcm_trigger_tstamp i g) = map settings g" by simp
  note facts = settings_length [OF k] settings_nth [OF k 6(1)]
  have "map settings ?g1 = (map settings g)[i := (settings (g ! i))\<lparr>state := st\<rparr>]"
  proof (cases "state (g ! i) = st")
    case True
    then have "(settings (g ! i))\<lparr>state := st\<rparr> = map settings g ! i" using 6(1) by (simp add: settings_def)
    then show ?thesis using True by (simp only: list_update_id simp_thms if_False)
  qed (use 6(1) facts k in \<open>simp add: map_settings_upd\<close>)
  then show ?case
    by (simp add: snd_pcm_action_stop_def snd_pcm_post_stop_def Let_def map_upd_same)
qed (auto simp: snd_pcm_action_stop_def snd_pcm_do_stop_def Let_def split_beta split: if_splits)

interpretation suspend: unfailing_action "snd_pcm_action_suspend d"
  "\<lambda>s. s\<lparr>suspended_state := state s, state := STATE_SUSPENDED\<rparr>" suspend_guard "\<lambda>_. True"
proof (unfold_locales, goal_cases)
  case (1 i g)
  then show ?case by (simp add: snd_pcm_action_suspend_def snd_pcm_pre_suspend_def suspend_guard_def Let_def)
next
  case (2 s)
  show ?case by (simp add: suspend_guard_def)
next
  case (3 i g)
  show ?case by (simp add: snd_pcm_action_suspend_def snd_pcm_pre_suspend_def map_upd_same)
next
  case (4 i g)
  show ?case
    by (simp add: snd_pcm_action_suspend_def snd_pcm_do_suspend_def Let_def split_beta map_upd_same)
next
  case (6 i g)
  have k: "map settings (snd_pcm_trigger_tstamp i g) = map settings g" by simp
  note facts = settings_length [OF k] settings_nth [OF k 6(1)]
  have "state (snd_pcm_trigger_tstamp i g ! i) = state (g ! i)"
    using arg_cong [OF facts(2), of state] by simp
  then show ?case using 6(1) facts k
    by (simp add: snd_pcm_action_suspend_def snd_pcm_post_suspend_def map_settings_upd)
qed (auto simp: snd_pcm_action_suspend_def snd_pcm_do_suspend_def Let_def split_beta split: if_splits)

interpretation resume: group_action "snd_pcm_action_resume d" "\<lambda>s. s\<lparr>state := suspended_state s\<rparr>" resume_guard "\<lambda>_. True"
proof (unfold_locales, goal_cases)
  case (1 i g)
  then show ?case by (simp add: snd_pcm_action_resume_def snd_pcm_pre_resume_def resume_guard_def Let_def)
next
  case (2 s)
  show ?case by (simp add: resume_guard_def)
next
  case (3 i g)
  show ?case by (simp add: snd_pcm_action_resume_def snd_pcm_pre_resume_def map_upd_same)
next
  case (4 i g)
  show ?case by (cases "trigger d i TRIGGER_RESUME g")
    (use trigger_settings [of d i TRIGGER_RESUME g] in
      \<open>simp add: snd_pcm_action_resume_def snd_pcm_do_resume_def Let_def\<close>)
next
  case (5 u i g)
  then show ?case by (auto simp: snd_pcm_action_resume_def snd_pcm_undo_resume_def)
next
  case (6 i g)
  have k: "map settings (snd_pcm_trigger_tstamp i g) = map settings g" by simp
  note facts = settings_length [OF k] settings_nth [OF k 6(1)]
  have "suspended_state (snd_pcm_trigger_tstamp i g ! i) = suspended_state (g ! i)"
    using arg_cong [OF facts(2), of suspended_state] by simp
  then show ?case using 6(1) facts k
    by (simp add: snd_pcm_action_resume_def snd_pcm_post_resume_def map_settings_upd)
qed



section \<open>A start that fails\<close>

text \<open>The driver claims no other members.\<close>

definition independent :: "pcm_driver \<Rightarrow> bool" where
  "independent d \<longleftrightarrow> (\<forall>i cmd. snd (drv_trigger d i cmd) = [])"

definition add_log :: "trigger_cmd \<Rightarrow> pcm_stream \<Rightarrow> pcm_stream" where
  "add_log cmd s = s\<lparr>trigger_log := trigger_log s @ [cmd]\<rparr>"

lemma add_log_simps [simp]:
  "trigger_log (add_log cmd s) = trigger_log s @ [cmd]" "trigger_master (add_log cmd s) = trigger_master s"
  by (simp_all add: add_log_def)

lemma trigger_independent:
  "independent d \<Longrightarrow> trigger d i cmd g = (fst (drv_trigger d i cmd), upd i (add_log cmd) g)"
  unfolding independent_def trigger_def Let_def split_beta add_log_def [abs_def] by simp

lemma nth_fold_upd:
  "distinct js \<Longrightarrow> \<forall>j\<in>set js. j < length g \<Longrightarrow> length (fold (\<lambda>j. upd j f) js g) = length g \<and>
   fold (\<lambda>j. upd j f) js g ! m = (if m \<in> set js then f (g ! m) else g ! m)"
  by (induction js arbitrary: g) auto

lemma do_start_all:
  assumes "independent d" "n \<le> k" "k \<le> length g"
    and "\<forall>j<length g. trigger_master (g ! j) = Some j"
    and "\<forall>j<k. 0 \<le> fst (drv_trigger d j TRIGGER_START)"
  shows "\<exists>res'. do_all (snd_pcm_action_start d st) res [0..<n] [n..<length g] g =
     do_all (snd_pcm_action_start d st) res' [0..<k] [k..<length g] (fold (\<lambda>j. upd j (add_log TRIGGER_START)) [n..<k] g)"
  using assms(2-4)
proof (induction "k - n" arbitrary: n res g)
  case 0
  then show ?case by auto
next
  case (Suc x)
  then have n: "n < k" "n < length g" by linarith+
  let ?r = "fst (drv_trigger d n TRIGGER_START)" and ?g = "upd n (add_log TRIGGER_START) g"
  have "trigger_master (g ! n) = Some n" using Suc.prems(3) n(2) by blast
  then have "do_action (snd_pcm_action_start d st) n g = Some (?r, ?g)"
    by (simp add: snd_pcm_action_start_def snd_pcm_do_start_def trigger_independent [OF assms(1)])
  moreover have "\<not> ?r < 0" using assms(5) n(1) by (simp add: linorder_not_less)
  ultimately have "do_all (snd_pcm_action_start d st) res [0..<n] [n..<length g] g =
      do_all (snd_pcm_action_start d st) ?r [0..<Suc n] [Suc n..<length ?g] ?g"
    using n(2) by (simp add: upt_conv_Cons)
  moreover have "\<exists>res'. do_all (snd_pcm_action_start d st) ?r [0..<Suc n] [Suc n..<length ?g] ?g =
      do_all (snd_pcm_action_start d st) res' [0..<k] [k..<length ?g] (fold (\<lambda>j. upd j (add_log TRIGGER_START)) [Suc n..<k] ?g)"
    using Suc.hyps(2) n Suc.prems by (intro Suc.hyps(1)) auto
  ultimately show ?case using n(1) by (simp add: upt_conv_Cons)
qed

lemma undo_start_fold:
  assumes "independent d" "distinct js" "\<forall>j\<in>set js. j < length g \<and> trigger_master (g ! j) = Some j"
  shows "undo_all (snd_pcm_action_start d st) js g = fold (\<lambda>j. upd j (add_log TRIGGER_STOP)) js g"
proof -
  have "fold (snd_pcm_undo_start d) js g = fold (\<lambda>j. upd j (add_log TRIGGER_STOP)) js g"
    using assms(2,3)
  proof (induction js arbitrary: g)
    case (Cons j js)
    have "snd_pcm_undo_start d j g = upd j (add_log TRIGGER_STOP) g"
      using Cons.prems by (simp add: snd_pcm_undo_start_def trigger_independent [OF assms(1)])
    then show ?case using Cons by auto
  qed simp
  then show ?thesis by (simp add: undo_all_def snd_pcm_action_start_def)
qed

lemma pre_start_all:
  assumes "distinct is" "\<forall>i\<in>set is. i < length g \<and> start_guard (g ! i) = 0"
  shows "pre_all (snd_pcm_action_start d st) is g =
    (0, fold (\<lambda>i g. upd i (\<lambda>s. s\<lparr>trigger_master := Some i\<rparr>) g) is g)"
  using assms
proof (induction "is" arbitrary: g)
  case (Cons i "is")
  have "snd_pcm_pre_start i g = (0, upd i (\<lambda>s. s\<lparr>trigger_master := Some i\<rparr>) g)"
    using Cons.prems by (auto simp: snd_pcm_pre_start_def start_guard_def split: if_splits)
  then show ?case using Cons by (auto simp: snd_pcm_action_start_def)
qed simp

lemma nth_fold_master:
  "distinct js \<Longrightarrow> \<forall>j\<in>set js. j < length g \<Longrightarrow>
   length (fold (\<lambda>i g. upd i (\<lambda>s. s\<lparr>trigger_master := Some i\<rparr>) g) js g) = length g \<and>
   fold (\<lambda>i g. upd i (\<lambda>s. s\<lparr>trigger_master := Some i\<rparr>) g) js g ! m =
     (if m \<in> set js then (g ! m)\<lparr>trigger_master := Some m\<rparr> else g ! m)"
  by (induction js arbitrary: g) auto

section \<open>Properties\<close>

text \<open>
  C27. Stopping a group: \<^verbatim>\<open>snd_pcm_stop\<close> always returns. If no member is open without a
  configuration it returns 0 and every member has the requested state; otherwise it returns
  \<^verbatim>\<open>-EBADFD\<close> and no state has changed. Pointers and parameters are kept in both cases.
\<close>

theorem stop_all_or_none:
  assumes "i < length g"
  shows "\<exists>r g'. snd_pcm_stop d st i g = Some (r, g') \<and>
     (if \<forall>s\<in>set g. state s \<noteq> STATE_OPEN
      then r = 0 \<and> map settings g' = map (\<lambda>s. (settings s)\<lparr>state := st\<rparr>) g
      else r = - EBADFD \<and> map settings g' = map settings g)"
proof (cases "find (\<lambda>s. stop_guard (settings s) < 0) g")
  case None
  then have "\<forall>s\<in>set g. state s \<noteq> STATE_OPEN" by (auto simp: find_None_iff stop_guard_def split: if_splits)
  then show ?thesis using stop.action_decided [OF assms, of d st] None by (simp add: snd_pcm_stop_def)
next
  case (Some s)
  then have "stop_guard s = - EBADFD" "\<not> (\<forall>s\<in>set g. state s \<noteq> STATE_OPEN)"
    using find_SomeD [OF Some] by (auto simp: stop_guard_def split: if_splits)
  then show ?thesis using stop.action_decided [OF assms, of d st] Some by (simp add: snd_pcm_stop_def)
qed

definition sample_driver :: pcm_driver where
  "sample_driver = \<lparr>drv_trigger = (\<lambda>i cmd. (if i = 1 then - 5 else 0, [])), drv_pointer = (\<lambda>_. 0),
     drv_prepare = (\<lambda>_. 0), drv_ioctl_reset = None, drv_ack = None, jiffies = 0\<rparr>"

theorem stop_all_or_none_witness:
  "\<exists>g'. snd_pcm_stop sample_driver STATE_XRUN 0 [sample_stream, sample_stream] = Some (0, g') \<and>
     map (state \<circ> settings) g' = [STATE_XRUN, STATE_XRUN]"
proof -
  let ?g = "[sample_stream, sample_stream]"
  have "state sample_stream = STATE_RUNNING" by (simp add: sample_stream_def)
  then obtain g' where "snd_pcm_stop sample_driver STATE_XRUN 0 ?g = Some (0, g')"
    "map settings g' = map (\<lambda>s. (settings s)\<lparr>state := STATE_XRUN\<rparr>) ?g"
    using stop_all_or_none [of 0 ?g sample_driver STATE_XRUN] by auto
  then show ?thesis using arg_cong [of "map settings g'" _ "map state"] by fastforce
qed

text \<open>
  C26. Starting a group: \<^verbatim>\<open>snd_pcm_start\<close> returns, provided the rates are set and the silence can be
  filled. Returning 0 means every member was prepared and is now running, nothing else of its
  parameters and pointers having moved; a negative value means no member has changed its state, parameters or
  pointers. When a member is not prepared, or plays back without data, the result is \<^verbatim>\<open>-EBADFD\<close> or \<^verbatim>\<open>-EPIPE\<close>.
  The comparison, by \<open>settings\<close>, leaves out the book-keeping that also a failed start changes:
  the trigger master, the log of the driver's triggers (a start refused half-way sends stops), the stop flag, the
  wake-up counts, the silence and the time stamps. A positive answer of a driver's trigger is not covered.
\<close>

theorem start_all_or_none:
  assumes "i < length g" "\<forall>s\<in>set g. startable s"
  shows "\<exists>r g'. snd_pcm_start d i g = Some (r, g') \<and>
     (r < 0 \<longrightarrow> map settings g' = map settings g) \<and>
     (r = 0 \<longrightarrow> (\<forall>s\<in>set g. state s = STATE_PREPARED) \<and>
        map settings g' = map (\<lambda>s. (settings s)\<lparr>state := STATE_RUNNING\<rparr>) g) \<and>
     ((\<exists>s\<in>set g. state s \<noteq> STATE_PREPARED \<or> playback s \<and> \<not> snd_pcm_playback_data s) \<longrightarrow> r \<in> {- EBADFD, - EPIPE})"
proof -
  obtain r g' where r: "snd_pcm_start d i g = Some (r, g')"
     "r < 0 \<longrightarrow> map settings g' = map settings g"
     "r = 0 \<longrightarrow> map settings g' = map (\<lambda>s. (settings s)\<lparr>state := STATE_RUNNING\<rparr>) g"
     "\<forall>s. find (\<lambda>s. start_guard (settings s) < 0) g = Some s \<longrightarrow> r = start_guard (settings s)"
    using start.action_switches [OF assms(1), of d STATE_RUNNING] assms(2)
    by (auto simp: snd_pcm_start_def)
  have bad: "r \<in> {- EBADFD, - EPIPE}"
    if ex: "\<exists>s\<in>set g. state s \<noteq> STATE_PREPARED \<or> playback s \<and> \<not> snd_pcm_playback_data s"
  proof -
    obtain s where "s \<in> set g" "state s \<noteq> STATE_PREPARED \<or> playback s \<and> \<not> snd_pcm_playback_data s"
      using ex by blast
    then have s: "s \<in> set g" "start_guard s < 0" by (auto simp: start_guard_def)
    then obtain s' where "find (\<lambda>s. start_guard (settings s) < 0) g = Some s'"
      by (cases "find (\<lambda>s. start_guard (settings s) < 0) g") (auto simp: find_None_iff)
    moreover from find_SomeD [OF this] have "start_guard (settings s') \<in> {- EBADFD, - EPIPE}"
      by (auto simp: start_guard_def split: if_splits)
    ultimately show ?thesis using r(4) by simp
  qed
  have "\<forall>s\<in>set g. state s = STATE_PREPARED" if "r = 0"
    using bad that by auto
  with r bad show ?thesis by blast
qed

lemma start_sample:
  "map_option fst (snd_pcm_start sample_driver 0 [sample_stream\<lparr>state := STATE_PREPARED, appl_ptr := 80, silence_size := 0\<rparr>]) = Some 0"
  "map_option fst (snd_pcm_start sample_driver 0 (replicate 2 (sample_stream\<lparr>state := STATE_PREPARED, appl_ptr := 80, silence_size := 0\<rparr>))) =
     Some (- 5)"
  by code_simp+

theorem start_all_or_none_witness:
  "\<exists>g1 g2. snd_pcm_start sample_driver 0 [sample_stream\<lparr>state := STATE_PREPARED, appl_ptr := 80, silence_size := 0\<rparr>] = Some (0, g1) \<and>
     map (\<lambda>s. (state s, unat (appl_ptr s))) (map settings g1) = [(STATE_RUNNING, 80)] \<and>
     snd_pcm_start sample_driver 0 (replicate 2 (sample_stream\<lparr>state := STATE_PREPARED, appl_ptr := 80, silence_size := 0\<rparr>)) = Some (- 5, g2) \<and>
     map settings g2 = map settings (replicate 2 (sample_stream\<lparr>state := STATE_PREPARED, appl_ptr := 80, silence_size := 0\<rparr>))"
proof -
  let ?s = "sample_stream\<lparr>state := STATE_PREPARED, appl_ptr := 80, silence_size := 0\<rparr>"
  have s: "startable ?s" by (simp add: startable_def fillable_def sample_stream_def)
  obtain g1 where g1: "snd_pcm_start sample_driver 0 [?s] = Some (0, g1)"
    using start_sample(1) by auto
  obtain g2 where g2: "snd_pcm_start sample_driver 0 (replicate 2 ?s) = Some (- 5, g2)"
    using start_sample(2) by auto
  have "map settings g1 = map (\<lambda>s. (settings s)\<lparr>state := STATE_RUNNING\<rparr>) [?s]"
    using start_all_or_none [of 0 "[?s]" sample_driver] s g1 by auto
  moreover have "map settings g2 = map settings (replicate 2 ?s)"
    using start_all_or_none [of 0 "replicate 2 ?s" sample_driver] s g2 by auto
  ultimately show ?thesis using g1 g2 by auto
qed

text \<open>
  A start that fails half-way is reverted: when the driver of member \<open>k\<close> of a linked, prepared
  group refuses, \<^verbatim>\<open>snd_pcm_start\<close> returns its error; the members before it were given
  \<^verbatim>\<open>TRIGGER_START\<close> and then \<^verbatim>\<open>TRIGGER_STOP\<close>, the refusing one only \<^verbatim>\<open>TRIGGER_START\<close> and the later ones
  nothing.
\<close>

theorem start_failure_reverted:
  assumes "independent d" "1 < length g" "k < length g" "\<forall>s\<in>set g. start_guard s = 0"
    and "\<forall>j<k. 0 \<le> fst (drv_trigger d j TRIGGER_START)" "fst (drv_trigger d k TRIGGER_START) < 0"
  shows "\<exists>g'. snd_pcm_start d i g = Some (fst (drv_trigger d k TRIGGER_START), g') \<and>
     length g' = length g \<and>
     (\<forall>j<length g. trigger_log (g' ! j) = trigger_log (g ! j) @
        (if j < k then [TRIGGER_START, TRIGGER_STOP] else if j = k then [TRIGGER_START] else []))"
proof -
  let ?ops = "snd_pcm_action_start d STATE_RUNNING" and ?n = "[0..<length g]"
  let ?r = "fst (drv_trigger d k TRIGGER_START)"
  define g1 where "g1 = fold (\<lambda>i g. upd i (\<lambda>s. s\<lparr>trigger_master := Some i\<rparr>) g) ?n g"
  have pre: "pre_all ?ops ?n g = (0, g1)"
    unfolding g1_def using assms(4) by (intro pre_start_all) auto
  have g1: "length g1 = length g" "\<forall>j<length g. g1 ! j = (g ! j)\<lparr>trigger_master := Some j\<rparr>"
    unfolding g1_def using nth_fold_master [of ?n g] by simp_all
  define g2 where "g2 = fold (\<lambda>j. upd j (add_log TRIGGER_START)) [0..<k] g1"
  have g2: "length g2 = length g"
    "\<forall>j<length g. g2 ! j = (if j < k then add_log TRIGGER_START (g1 ! j) else g1 ! j)"
    unfolding g2_def using nth_fold_upd [of "[0..<k]" g1] assms(3) g1(1) by simp_all
  obtain res where "do_all ?ops 0 [0..<0] [0..<length g1] g1 = do_all ?ops res [0..<k] [k..<length g1] g2"
    unfolding g2_def using do_start_all [OF assms(1), of 0 k g1 STATE_RUNNING 0] assms(3,5) g1 by auto
  moreover have "do_action ?ops k g2 = Some (?r, upd k (add_log TRIGGER_START) g2)"
    using assms(3) g1 g2
    by (simp add: snd_pcm_action_start_def snd_pcm_do_start_def trigger_independent [OF assms(1)])
  ultimately have "do_all ?ops 0 [] ?n g1 =
      Some (?r, undo_all ?ops [0..<k] (upd k (add_log TRIGGER_START) g2))"
    using assms(3,6) g1(1) by (simp add: upt_conv_Cons)
  moreover have "undo_all ?ops [0..<k] (upd k (add_log TRIGGER_START) g2) =
      fold (\<lambda>j. upd j (add_log TRIGGER_STOP)) [0..<k] (upd k (add_log TRIGGER_START) g2)"
    using assms(1,3) g1 g2 by (intro undo_start_fold) auto
  moreover have "snd_pcm_start d i g = snd_pcm_action_group ?ops g"
    using assms(2) by (simp add: snd_pcm_start_def snd_pcm_action_def snd_pcm_stream_linked_def)
  ultimately have "snd_pcm_start d i g =
      Some (?r, fold (\<lambda>j. upd j (add_log TRIGGER_STOP)) [0..<k] (upd k (add_log TRIGGER_START) g2))"
    using pre assms(6) by (simp add: snd_pcm_action_group_def)
  moreover have "length (fold (\<lambda>j. upd j (add_log TRIGGER_STOP)) [0..<k] (upd k (add_log TRIGGER_START) g2)) = length g"
    "\<forall>j<length g. fold (\<lambda>j. upd j (add_log TRIGGER_STOP)) [0..<k] (upd k (add_log TRIGGER_START) g2) ! j =
      (if j < k then add_log TRIGGER_STOP (g2 ! j) else if j = k then add_log TRIGGER_START (g2 ! j) else g2 ! j)"
    using nth_fold_upd [of "[0..<k]" "upd k (add_log TRIGGER_START) g2"] assms(3) g2(1) by simp_all
  ultimately show ?thesis using g1 g2 by simp
qed

theorem start_failure_reverted_witness:
  "\<exists>g'. snd_pcm_start sample_driver 0
       (replicate 3 (sample_stream\<lparr>state := STATE_PREPARED, appl_ptr := 80\<rparr>)) = Some (- 5, g') \<and>
     trigger_log (g' ! 0) = [TRIGGER_START, TRIGGER_STOP] \<and> trigger_log (g' ! 2) = []"
proof -
  let ?s = "sample_stream\<lparr>state := STATE_PREPARED, appl_ptr := 80\<rparr>"
  have guard: "start_guard ?s = 0"
    by (simp add: start_guard_def snd_pcm_playback_data_def snd_pcm_playback_avail_def sample_stream_def)
  have "independent sample_driver" "1 < length (replicate 3 ?s)" "1 < length (replicate 3 ?s)"
    "\<forall>s\<in>set (replicate 3 ?s). start_guard s = 0"
    "\<forall>j<1. 0 \<le> fst (drv_trigger sample_driver j TRIGGER_START)"
    "fst (drv_trigger sample_driver 1 TRIGGER_START) < 0"
    using guard by (auto simp: independent_def sample_driver_def)
  from start_failure_reverted [OF this, of 0] show ?thesis
    by (auto simp: sample_driver_def sample_stream_def)
qed

text \<open>
  C28. Suspend and resume: \<^verbatim>\<open>snd_pcm_suspend\<close> of a group without open, unprepared, suspended or
  disconnected members returns 0 and puts every member in the suspended state; when the following
  \<^verbatim>\<open>snd_pcm_resume\<close> returns 0 every member is back in the state it had, with its pointers and
  parameters.
\<close>

theorem suspend_resume_restores:
  assumes "i < length g" "\<forall>s\<in>set g. suspend_guard s = 0"
  shows "\<exists>g1. snd_pcm_suspend d i g = Some (0, g1) \<and> length g1 = length g \<and>
     (\<forall>s\<in>set g1. state s = STATE_SUSPENDED) \<and>
     (\<forall>g2. snd_pcm_resume d' i g1 = Some (0, g2) \<longrightarrow>
        map settings g2 = map (\<lambda>s. (settings s)\<lparr>suspended_state := state s\<rparr>) g)"
proof -
  have "find (\<lambda>s. suspend_guard (settings s) < 0) g = None"
    using assms(2) by (auto simp: find_None_iff)
  then obtain g1 where g1: "snd_pcm_suspend d i g = Some (0, g1)"
    "map settings g1 = map (\<lambda>s. (settings s)\<lparr>suspended_state := state s, state := STATE_SUSPENDED\<rparr>) g"
    using suspend.action_decided [OF assms(1), of d] by (auto simp: snd_pcm_suspend_def)
  have len: "length g1 = length g" using arg_cong [OF g1(2), of length] by simp
  have "map state g1 = map (\<lambda>_. STATE_SUSPENDED) g"
    using arg_cong [OF g1(2), of "map state"] by (simp add: o_def)
  then have "set (map state g1) \<subseteq> {STATE_SUSPENDED}" by auto
  then have susp: "\<forall>s\<in>set g1. state s = STATE_SUSPENDED" by auto
  have "map settings g2 = map (\<lambda>s. (settings s)\<lparr>suspended_state := state s\<rparr>) g"
    if "snd_pcm_resume d' i g1 = Some (0, g2)" for g2
  proof -
    have "map settings g2 = map (\<lambda>s. s\<lparr>state := suspended_state s\<rparr>) (map settings g1)"
      using resume.action_switches [of i g1 d'] that assms(1) len by (simp add: snd_pcm_resume_def o_def)
    also have "\<dots> = map (\<lambda>s. (settings s)\<lparr>suspended_state := state s\<rparr>) g"
      unfolding g1(2) by (simp add: o_def settings_def)
    finally show ?thesis .
  qed
  with g1(1) len susp show ?thesis by blast
qed

theorem suspend_resume_restores_witness:
  "\<exists>g1. snd_pcm_suspend sample_driver 0 [sample_stream] = Some (0, g1) \<and> length g1 = 1"
proof -
  have "0 < length [sample_stream]" "\<forall>s\<in>set [sample_stream]. suspend_guard s = 0"
    by (simp_all add: suspend_guard_def sample_stream_def)
  from suspend_resume_restores [OF this, of sample_driver sample_driver] show ?thesis by auto
qed

text \<open>
  \<^verbatim>\<open>snd_pcm_resume\<close> does not look at the state: on a group that was never suspended, a resume that
  returns 0 overwrites every state with \<^verbatim>\<open>suspended_state\<close>, so that a prepared stream whose
  \<^verbatim>\<open>suspended_state\<close> still has its initial value falls back to the open state.
\<close>

theorem resume_unguarded:
  assumes "rt_info s AND SNDRV_PCM_INFO_RESUME \<noteq> 0" "suspended_state s = STATE_OPEN"
  shows "snd_pcm_resume d 0 [s] = Some (0, [s\<lparr>trigger_master := None, state := STATE_OPEN\<rparr>])"
  using assms
  by (simp add: snd_pcm_resume_def snd_pcm_action_def snd_pcm_stream_linked_def snd_pcm_action_single_def
      snd_pcm_action_resume_def snd_pcm_pre_resume_def snd_pcm_do_resume_def snd_pcm_post_resume_def
      snd_pcm_trigger_tstamp_def upd_def Let_def)

theorem resume_unguarded_witness:
  "state (hd (snd (the (snd_pcm_resume sample_driver 0
     [sample_stream\<lparr>state := STATE_PREPARED, rt_info := SNDRV_PCM_INFO_RESUME\<rparr>])))) = STATE_OPEN"
  using resume_unguarded [of "sample_stream\<lparr>state := STATE_PREPARED, rt_info := SNDRV_PCM_INFO_RESUME\<rparr>"]
  by (simp add: sample_stream_def)
end
