(* ===== verification/PcmSetup.thy ===== *)
theory PcmSetup
  imports PcmActions HwParams
begin

text \<open>
  The ioctls of \<^verbatim>\<open>core/pcm_native.c\<close> that install a configuration: \<^verbatim>\<open>snd_pcm_hw_params\<close>,
  \<^verbatim>\<open>snd_pcm_hw_free\<close> and \<^verbatim>\<open>snd_pcm_sw_params\<close>. They connect the configurator of \<open>HwParams\<close> with
  the runtime of \<open>PcmStream\<close>: the chosen configuration becomes the ring buffer whose pointers the
  other theories follow. The two \<^verbatim>\<open>while\<close> loops that compute the alignment and the boundary are
  partial functions; the second does not end for an empty buffer. The PCM timer is not modelled.
\<close>

section \<open>State\<close>

text \<open>
  What \<^verbatim>\<open>snd_pcm_hw_params\<close> writes besides the fields of \<open>pcm_stream\<close>. \<open>pages\<close>: the managed
  buffer is allocated; \<open>hw_set\<close>: the driver's \<^verbatim>\<open>hw_params\<close> has accepted a configuration that has
  not been freed; \<open>latency\<close>: the active latency request; \<open>cleared\<close>: the bytes of the DMA area set
  to zero by the last call.
\<close>

record pcm_instance =
  strm :: pcm_stream
  cfg_access :: nat
  cfg_format :: int
  cfg_subformat :: nat
  cfg_channels :: u32
  cfg_periods :: u32
  cfg_rate_num :: u32
  cfg_rate_den :: u32
  sample_bits :: u32
  frame_bits :: u32
  byte_align :: u32
  tstamp_mode :: int
  tstamp_type :: u32
  period_step :: u32
  buffer_changed :: bool
  mmap_count :: int
  oss_stream :: bool
  dma_area :: bool
  dma_bytes :: u32
  cleared :: u32
  pages :: bool
  hw_set :: bool
  latency :: "int option"

text \<open>
  The driver and the memory manager: \<open>so_malloc\<close> is \<^verbatim>\<open>snd_pcm_lib_malloc_pages\<close> of a substream
  with a managed buffer, \<open>so_copy_user\<close> says whether the driver copies itself.
\<close>

record setup_ops =
  so_malloc :: "(u32 \<Rightarrow> int) option"
  so_hw_params :: "(hw_params \<Rightarrow> int) option"
  so_hw_free :: "int option"
  so_copy_user :: bool
  so_fifo :: "hw_params \<Rightarrow> int \<times> hw_params"
  so_alloc :: bool

abbreviation (input) LONG_MAX :: u32 where "LONG_MAX \<equiv> 0x7fffffff"
abbreviation (input) SNDRV_PCM_INFO_NO_PERIOD_WAKEUP :: u32 where
  "SNDRV_PCM_INFO_NO_PERIOD_WAKEUP \<equiv> 0x00800000"
abbreviation (input) SNDRV_PCM_HW_PARAMS_NO_PERIOD_WAKEUP :: u32 where
  "SNDRV_PCM_HW_PARAMS_NO_PERIOD_WAKEUP \<equiv> 4"

section \<open>Reading the chosen configuration\<close>

definition params_access :: "hw_params \<Rightarrow> nat" where
  "params_access p = snd_mask_min (hw_param_mask p PARAM_ACCESS)"

definition params_format :: "hw_params \<Rightarrow> int" where
  "params_format p = int (snd_mask_min (hw_param_mask p PARAM_FORMAT))"

definition params_subformat :: "hw_params \<Rightarrow> nat" where
  "params_subformat p = snd_mask_min (hw_param_mask p PARAM_SUBFORMAT)"

definition params_channels :: "hw_params \<Rightarrow> u32" where
  "params_channels p = iv_min (hw_param_interval p PARAM_CHANNELS)"

definition params_rate :: "hw_params \<Rightarrow> u32" where
  "params_rate p = iv_min (hw_param_interval p PARAM_RATE)"

definition params_period_size :: "hw_params \<Rightarrow> u32" where
  "params_period_size p = iv_min (hw_param_interval p PARAM_PERIOD_SIZE)"

definition params_periods :: "hw_params \<Rightarrow> u32" where
  "params_periods p = iv_min (hw_param_interval p PARAM_PERIODS)"

definition params_buffer_size :: "hw_params \<Rightarrow> u32" where
  "params_buffer_size p = iv_min (hw_param_interval p PARAM_BUFFER_SIZE)"

definition params_buffer_bytes :: "hw_params \<Rightarrow> u32" where
  "params_buffer_bytes p = iv_min (hw_param_interval p PARAM_BUFFER_BYTES)"

section \<open>Alignment and boundary\<close>

text \<open>\<^verbatim>\<open>while (bits % 8 != 0)\<close>: the bits and frames of the smallest run of whole bytes.\<close>

partial_function (option) align_loop :: "u32 \<Rightarrow> u32 \<Rightarrow> (u32 \<times> u32) option" where
  "align_loop n frames = (if n mod 8 \<noteq> 0 then align_loop (n * 2) (frames * 2) else Some (n, frames))"

partial_function (option) boundary_loop :: "u32 \<Rightarrow> u32 \<Rightarrow> u32 option" where
  "boundary_loop bufsize bound =
     (if bound * 2 \<le> LONG_MAX - bufsize then boundary_loop bufsize (bound * 2) else Some bound)"

definition period_to_usecs :: "pcm_stream \<Rightarrow> int" where
  "period_to_usecs s =
     (if rate s = 0 then - 1
      else
        let usecs = (750000 div rate s) * period_size s;
            usecs = usecs + ((750000 mod rate s) * period_size s) div rate s
        in sint usecs)"

section \<open>hw_params\<close>

text \<open>The assignments from \<^verbatim>\<open>runtime->access = ...\<close> to the boundary.\<close>

definition install_params :: "hw_params \<Rightarrow> pcm_instance \<Rightarrow> pcm_instance option" where
  "install_params p ins =
     (let width = snd_pcm_format_physical_width (params_format p);
          fbits = word_of_int width * params_channels p;
          bufsize = params_buffer_size p
      in case (align_loop fbits 1, boundary_loop bufsize bufsize) of
           (Some (abits, frames), Some bound) \<Rightarrow>
             Some (ins\<lparr>cfg_access := params_access p, cfg_format := params_format p,
                      cfg_subformat := params_subformat p, cfg_channels := params_channels p,
                      cfg_periods := params_periods p, cfg_rate_num := rate_num p,
                      cfg_rate_den := rate_den p, sample_bits := word_of_int width, frame_bits := fbits,
                      byte_align := abits div 8, tstamp_mode := 0, period_step := 1,
                      strm := (strm ins)\<lparr>rate := params_rate p, period_size := params_period_size p,
                        buffer_size := bufsize, rt_info := hp_info p,
                        no_period_wakeup :=
                          (hp_info p AND SNDRV_PCM_INFO_NO_PERIOD_WAKEUP \<noteq> 0 \<and>
                           hp_flags p AND SNDRV_PCM_HW_PARAMS_NO_PERIOD_WAKEUP \<noteq> 0),
                        min_align := frames, avail_min := params_period_size p, start_threshold := 1,
                        stop_threshold := bufsize, silence_threshold := 0, silence_size := 0,
                        boundary := bound\<rparr>\<rparr>)
         | _ \<Rightarrow> None)"

text \<open>\<^verbatim>\<open>PAGE_ALIGN\<close> with pages of 4096 bytes.\<close>

definition PAGE_ALIGN :: "u32 \<Rightarrow> u32" where
  "PAGE_ALIGN a = (a + 4095) AND NOT 4095"

text \<open>After the boundary: clearing the buffer, the new state and the latency request.\<close>

definition finish_hw_params :: "setup_ops \<Rightarrow> pcm_instance \<Rightarrow> pcm_instance" where
  "finish_hw_params so ins =
     (let ins = (if dma_area ins \<and> \<not> so_copy_user so
                then ins\<lparr>cleared := (if rt_info (strm ins) AND SNDRV_PCM_INFO_MMAP \<noteq> 0
                                    then PAGE_ALIGN (dma_bytes ins) else dma_bytes ins)\<rparr>
                else ins);
          ins = ins\<lparr>strm := snd_pcm_set_state STATE_SETUP (strm ins), latency := None\<rparr>;
          usecs = period_to_usecs (strm ins)
      in if usecs \<ge> 0 then ins\<lparr>latency := Some usecs\<rparr> else ins)"

text \<open>The part under \<^verbatim>\<open>if (err)\<close> after the label \<^verbatim>\<open>_error\<close>.\<close>

definition fail_hw_params :: "setup_ops \<Rightarrow> pcm_instance \<Rightarrow> pcm_instance" where
  "fail_hw_params so ins =
     (let ins = ins\<lparr>strm := snd_pcm_set_state STATE_OPEN (strm ins)\<rparr>;
          ins = (if so_hw_free so \<noteq> None then ins\<lparr>hw_set := False\<rparr> else ins)
      in if so_malloc so \<noteq> None then ins\<lparr>pages := False\<rparr> else ins)"

text \<open>Refining, choosing and completing the parameters.\<close>

definition choose_params ::
  "setup_ops \<Rightarrow> pcm_substream \<Rightarrow> snd_interval \<Rightarrow> hw_params \<Rightarrow> (int \<times> hw_params) option" where
  "choose_params so ss t0 p =
     (case snd_pcm_hw_refine ss t0 (so_alloc so) (p\<lparr>rmask := - 1\<rparr>) of
        None \<Rightarrow> None
      | Some (err, p) \<Rightarrow>
          if err < 0 then Some (err, p)
          else
            case snd_pcm_hw_params_choose ss t0 (so_alloc so) p of
              None \<Rightarrow> None
            | Some (err, p) \<Rightarrow>
                if err < 0 then Some (err, p) else Some (fixup_unreferenced_params ss (so_fifo so) p))"

text \<open>\<^verbatim>\<open>managed_buffer_alloc\<close> and the driver's own \<^verbatim>\<open>hw_params\<close>.\<close>

definition allocate_params :: "setup_ops \<Rightarrow> hw_params \<Rightarrow> pcm_instance \<Rightarrow> int \<times> pcm_instance" where
  "allocate_params so p ins =
     (let (err, ins) =
            (case so_malloc so of
               None \<Rightarrow> (0, ins)
             | Some f \<Rightarrow>
                 let err = f (params_buffer_bytes p)
                 in if err < 0 then (err, ins)
                    else (err, ins\<lparr>pages := True, buffer_changed := (err > 0)\<rparr>))
      in if err < 0 then (err, ins)
         else
           case so_hw_params so of
             None \<Rightarrow> (0, ins)
           | Some f \<Rightarrow> let err = f p in if err < 0 then (err, ins) else (0, ins\<lparr>hw_set := True\<rparr>))"

definition snd_pcm_hw_params ::
  "setup_ops \<Rightarrow> pcm_substream \<Rightarrow> snd_interval \<Rightarrow> hw_params \<Rightarrow> pcm_instance \<Rightarrow>
   (int \<times> hw_params \<times> pcm_instance) option" where
  "snd_pcm_hw_params so ss t0 p ins =
     (let unlock = (\<lambda>ins. ins\<lparr>strm := snd_pcm_buffer_access_unlock (strm ins)\<rparr>);
          fail = (\<lambda>err p ins. Some (err, p, unlock (fail_hw_params so ins)))
      in if state (strm ins) \<notin> {STATE_OPEN, STATE_SETUP, STATE_PREPARED} \<or>
            \<not> oss_stream ins \<and> mmap_count ins \<noteq> 0
         then Some (- EBADFD, p, unlock ins)
         else
           let ins = ins\<lparr>strm := snd_pcm_sync_stop (strm ins)\<rparr>
           in case choose_params so ss t0 p of
                None \<Rightarrow> None
              | Some (err, p) \<Rightarrow>
                  if err < 0 then fail err p ins
                  else
                    let (err, ins) = allocate_params so p ins
                    in if err < 0 then fail err p ins
                       else
                         (case install_params p ins of
                            None \<Rightarrow> None
                          | Some ins \<Rightarrow> Some (0, p, unlock (finish_hw_params so ins))))"

section \<open>hw_free\<close>

definition do_hw_free :: "setup_ops \<Rightarrow> pcm_instance \<Rightarrow> int \<times> pcm_instance" where
  "do_hw_free so ins =
     (let ins = ins\<lparr>strm := snd_pcm_sync_stop (strm ins)\<rparr>;
          (result, ins) = (case so_hw_free so of None \<Rightarrow> (0, ins) | Some r \<Rightarrow> (r, ins\<lparr>hw_set := False\<rparr>));
          ins = (if so_malloc so \<noteq> None then ins\<lparr>pages := False\<rparr> else ins)
      in (result, ins))"

definition snd_pcm_hw_free :: "setup_ops \<Rightarrow> pcm_instance \<Rightarrow> int \<times> pcm_instance" where
  "snd_pcm_hw_free so ins =
     (let unlock = (\<lambda>ins. ins\<lparr>strm := snd_pcm_buffer_access_unlock (strm ins)\<rparr>)
      in if state (strm ins) \<notin> {STATE_SETUP, STATE_PREPARED} \<or> mmap_count ins \<noteq> 0
         then (- EBADFD, unlock ins)
         else
           let (result, ins) = do_hw_free so ins
           in (result, unlock (ins\<lparr>strm := snd_pcm_set_state STATE_OPEN (strm ins), latency := None\<rparr>)))"

section \<open>sw_params\<close>

record sw_params =
  sw_tstamp_mode :: int
  sw_period_step :: u32
  sw_avail_min :: u32
  sw_start_threshold :: u32
  sw_stop_threshold :: u32
  sw_silence_threshold :: u32
  sw_silence_size :: u32
  sw_boundary :: u32
  sw_proto :: u32
  sw_tstamp_type :: u32

text \<open>\<^verbatim>\<open>SNDRV_PROTOCOL_VERSION(2, 0, 12)\<close>\<close>

abbreviation (input) PROTOCOL_2_0_12 :: u32 where "PROTOCOL_2_0_12 \<equiv> 0x2000c"

definition sw_params_error :: "pcm_stream \<Rightarrow> sw_params \<Rightarrow> int" where
  "sw_params_error s p =
     (if state s = STATE_OPEN then - EBADFD
      else if sw_tstamp_mode p < 0 \<or> sw_tstamp_mode p > 1 then - EINVAL
      else if sw_proto p \<ge> PROTOCOL_2_0_12 \<and> sw_tstamp_type p > 2 then - EINVAL
      else if sw_avail_min p = 0 then - EINVAL
      else if sw_silence_size p \<ge> boundary s then
        (if sw_silence_threshold p \<noteq> 0 then - EINVAL else 0)
      else if sw_silence_size p > sw_silence_threshold p then - EINVAL
      else if sw_silence_threshold p > buffer_size s then - EINVAL
      else 0)"

text \<open>
  The stream is member \<open>i\<close> of its group, because the update of its state may stop the group; the
  fields that only this instance has are returned beside it.
\<close>

definition snd_pcm_sw_params ::
  "pcm_driver \<Rightarrow> sw_params \<Rightarrow> pcm_instance \<Rightarrow> nat \<Rightarrow> pcm_group \<Rightarrow>
   (int \<times> sw_params \<times> pcm_instance \<times> pcm_group) option" where
  "snd_pcm_sw_params d p ins i g =
     (let err = sw_params_error (g ! i) p
      in if err < 0 then Some (err, p, ins, g)
         else
           let ins = ins\<lparr>tstamp_mode := sw_tstamp_mode p, period_step := sw_period_step p\<rparr>;
               ins = (if sw_proto p \<ge> PROTOCOL_2_0_12 then ins\<lparr>tstamp_type := sw_tstamp_type p\<rparr> else ins);
               g = upd i (\<lambda>s. s\<lparr>avail_min := sw_avail_min p, start_threshold := sw_start_threshold p,
                               stop_threshold := sw_stop_threshold p,
                               silence_threshold := sw_silence_threshold p,
                               silence_size := sw_silence_size p\<rparr>) g;
               p = p\<lparr>sw_boundary := boundary (g ! i)\<rparr>
           in if snd_pcm_running (g ! i) then
                (case fill_if_playback i g of
                   None \<Rightarrow> None
                 | Some g \<Rightarrow> map_option (\<lambda>(err, g). (err, p, ins, g)) (snd_pcm_update_state d i g))
              else Some (0, p, ins, g))"

section \<open>The loops\<close>

lemma align_loop_ends:
  "\<exists>k \<in> {1, 2, 4, 8}. align_loop n 1 = Some (n * k, k) \<and> n * k mod 8 = 0"
proof -
  have e: "align_loop n f = (if n mod 8 \<noteq> 0 then align_loop (n * 2) (f * 2) else Some (n, f))" for n f
    by (rule align_loop.simps)
  have "unat (n * 8) = unat n * 8 mod 4294967296" by (simp add: unat_word_ariths)
  then have "unat (n * 8 mod 8) = unat n * 8 mod 4294967296 mod 8" by (simp add: unat_mod_distrib)
  also have "\<dots> = 0" by (simp add: mod_mod_cancel)
  finally have "n * 8 mod 8 = 0" by (simp add: unat_eq_0)
  then have "align_loop (n * 8) 8 = Some (n * 8, 8)" by (simp add: e [of "n * 8"])
  moreover have "n * 2 * 2 = n * 4" "n * 4 * 2 = n * 8" by simp_all
  ultimately show ?thesis
    using e [of n 1] e [of "n * 2" 2] e [of "n * 4" 4] \<open>n * 8 mod 8 = 0\<close>
    by (cases "n mod 8 = 0"; cases "n * 2 mod 8 = 0"; cases "n * 4 mod 8 = 0")
      (simp_all add: mult.commute)
qed

lemma unat_double: "unat (c :: u32) < 2147483648 \<Longrightarrow> unat (c * 2) = 2 * unat c"
  by (simp add: unat_word_ariths)

lemma boundary_loop_ends:
  assumes "0 < unat c" "unat c < 2147483648" "unat buf < 2147483648"
  shows "\<exists>B k. boundary_loop buf c = Some B \<and> unat B = unat c * 2 ^ k \<and>
     (0 < k \<longrightarrow> unat B + unat buf \<le> 2147483647) \<and> 2147483647 < 2 * unat B + unat buf"
  using assms(1,2)
proof (induction "2147483648 - unat c" arbitrary: c rule: less_induct)
  case less
  have cond: "c * 2 \<le> LONG_MAX - buf \<longleftrightarrow> 2 * unat c + unat buf \<le> 2147483647"
    using less.prems assms(3) by (auto simp: word_le_nat_alt unat_double unat_sub32)
  show ?case
  proof (cases "2 * unat c + unat buf \<le> 2147483647")
    case True
    then have d: "unat (c * 2) = 2 * unat c" "2147483648 - unat (c * 2) < 2147483648 - unat c"
      "0 < unat (c * 2)" "unat (c * 2) < 2147483648"
      using less.prems by (simp_all add: unat_double)
    then obtain B k where B: "boundary_loop buf (c * 2) = Some B" "unat B = unat (c * 2) * 2 ^ k"
      "0 < k \<longrightarrow> unat B + unat buf \<le> 2147483647" "2147483647 < 2 * unat B + unat buf"
      using less.hyps [OF d(2-4)] by blast
    have "boundary_loop buf c = Some B" using True cond B(1) by (subst boundary_loop.simps) simp
    moreover have "unat B = unat c * 2 ^ Suc k" using B(2) d(1) by simp
    moreover have "unat B + unat buf \<le> 2147483647" using B(2,3) d(1) True by (cases k) auto
    ultimately show ?thesis using B(4) by blast
  next
    case False
    then have "boundary_loop buf c = Some c" using cond by (subst boundary_loop.simps) simp
    then show ?thesis using False by (intro exI [of _ c] exI [of _ 0]) simp
  qed
qed

text \<open>An empty buffer has no boundary: the loop does not end.\<close>

lemma boundary_loop_stuck: "boundary_loop 0 0 = None"
proof -
  have "b = 0 \<and> c = 0 \<longrightarrow> False" if "boundary_loop b c = Some r" for b c r
    using that by (rule boundary_loop.raw_induct [where P = "\<lambda>b c r. b = 0 \<and> c = 0 \<longrightarrow> False", rotated])
      (fastforce split: if_splits)
  then show ?thesis by (cases "boundary_loop 0 0") auto
qed

lemma boundary_ring:
  assumes "0 < unat buf" "3 * unat buf \<le> 2147483647"
  shows "\<exists>B. boundary_loop buf buf = Some B \<and> unat buf < unat B \<and> unat B + unat buf < 2147483648 \<and>
     unat buf dvd unat B"
proof -
  obtain B k where B: "boundary_loop buf buf = Some B" "unat B = unat buf * 2 ^ k"
     "0 < k \<longrightarrow> unat B + unat buf \<le> 2147483647" "2147483647 < 2 * unat B + unat buf"
    using boundary_loop_ends [of buf buf] assms by auto
  from B(2,4) assms have "k \<noteq> 0" by (cases k) auto
  then have "(1 :: nat) < 2 ^ k" using one_less_power [of "2 :: nat" k] by linarith
  then have "unat buf < unat B" using B(2) assms(1) by simp
  with B \<open>k \<noteq> 0\<close> show ?thesis by auto
qed

section \<open>Properties\<close>

text \<open>The part of \<open>ring_wf\<close> that the configuration alone decides.\<close>

definition ring_shape :: "pcm_stream \<Rightarrow> bool" where
  "ring_shape s \<longleftrightarrow> 0 < unat (buffer_size s) \<and> unat (buffer_size s) < unat (boundary s) \<and>
     unat (boundary s) + unat (buffer_size s) < 2147483648 \<and> unat (buffer_size s) dvd unat (boundary s)"

lemma ring_wf_shape:
  "ring_wf s \<longleftrightarrow> ring_shape s \<and> unat (hw_ptr s) < unat (boundary s) \<and> unat (appl_ptr s) < unat (boundary s)"
  unfolding ring_wf_def ring_shape_def by blast

definition moderate :: "u32 \<Rightarrow> bool" where
  "moderate n \<longleftrightarrow> 0 < unat n \<and> 3 * unat n \<le> 2147483647"

lemma install_params_ring:
  assumes "moderate (params_buffer_size p)"
  shows "\<exists>ins'. install_params p ins = Some ins' \<and> ring_shape (strm ins') \<and>
     buffer_size (strm ins') = params_buffer_size p \<and>
     min_align (strm ins') \<in> {1, 2, 4, 8} \<and> frame_bits ins' * min_align (strm ins') mod 8 = 0"
proof -
  let ?b = "params_buffer_size p"
  let ?f = "word_of_int (snd_pcm_format_physical_width (params_format p)) * params_channels p"
  have m: "0 < unat ?b" "3 * unat ?b \<le> 2147483647"
    using assms unfolding moderate_def by simp_all
  obtain B where B: "boundary_loop ?b ?b = Some B" "unat ?b < unat B" "unat B + unat ?b < 2147483648"
     "unat ?b dvd unat B"
    using boundary_ring [OF m] by (elim exE conjE)
  obtain k where k: "k \<in> {1, 2, 4, 8}" "align_loop ?f 1 = Some (?f * k, k)" "?f * k mod 8 = 0"
    by (rule bexE [OF align_loop_ends [of ?f]]) (elim conjE)
  show ?thesis using B k m(1)
    unfolding install_params_def Let_def k(2) B(1) prod.case option.case ring_shape_def
    by (simp del: insert_iff)
qed

lemma set_state_simps [simp]:
  "state (snd_pcm_set_state st s) = (if state s = STATE_DISCONNECTED then STATE_DISCONNECTED else st)"
  "buffer_size (snd_pcm_set_state st s) = buffer_size s" "boundary (snd_pcm_set_state st s) = boundary s"
  "state (snd_pcm_sync_stop s) = state s" "state (snd_pcm_buffer_access_unlock s) = state s"
  "buffer_size (snd_pcm_buffer_access_unlock s) = buffer_size s"
  "boundary (snd_pcm_buffer_access_unlock s) = boundary s"
  by (simp_all add: snd_pcm_set_state_def snd_pcm_sync_stop_def snd_pcm_buffer_access_unlock_def)

lemma ring_shape_simps [simp]:
  "ring_shape (snd_pcm_set_state st s) = ring_shape s"
  "ring_shape (snd_pcm_buffer_access_unlock s) = ring_shape s"
  by (simp_all add: ring_shape_def)

lemma finish_hw_params_simps [simp]:
  "strm (finish_hw_params so ins) = snd_pcm_set_state STATE_SETUP (strm ins)"
  "pages (finish_hw_params so ins) = pages ins" "hw_set (finish_hw_params so ins) = hw_set ins"
  by (simp_all add: finish_hw_params_def Let_def)

lemma fail_hw_params_simps [simp]:
  "strm (fail_hw_params so ins) = snd_pcm_set_state STATE_OPEN (strm ins)"
  "so_malloc so \<noteq> None \<Longrightarrow> \<not> pages (fail_hw_params so ins)"
  "so_hw_free so \<noteq> None \<Longrightarrow> \<not> hw_set (fail_hw_params so ins)"
  by (simp_all add: fail_hw_params_def Let_def)

lemma allocate_params_strm [simp]: "allocate_params so p ins = (err, ins') \<Longrightarrow> strm ins' = strm ins"
  by (auto simp: allocate_params_def Let_def split: option.splits prod.splits if_splits)

text \<open>
  What \<^verbatim>\<open>snd_pcm_hw_params\<close> leaves behind, once the configurator has settled on parameters with a
  non-empty buffer of at most a third of \<^verbatim>\<open>LONG_MAX\<close>. It returns. It is refused with
  \<^verbatim>\<open>-EBADFD\<close>, the state unchanged, for a stream that is mapped or not open, set up or prepared.
  Otherwise it either returns 0 and the stream is set up with a well-formed ring (the boundary a
  multiple of the buffer size, more than one buffer, \<^verbatim>\<open>boundary + buffer_size\<close> within a signed long),
  or it fails and the stream is open again, with the managed buffer and the driver's configuration
  released.
\<close>

theorem hw_params_outcome:
  assumes "choose_params so ss t0 p = Some (e, p')" "moderate (params_buffer_size p')"
    and "so_malloc so \<noteq> None" "so_hw_free so \<noteq> None"
  shows "\<exists>err q ins'. snd_pcm_hw_params so ss t0 p ins = Some (err, q, ins') \<and>
     (if state (strm ins) \<notin> {STATE_OPEN, STATE_SETUP, STATE_PREPARED} \<or>
         \<not> oss_stream ins \<and> mmap_count ins \<noteq> 0
      then err = - EBADFD \<and> state (strm ins') = state (strm ins)
      else q = p' \<and>
        (if err < 0 then state (strm ins') = STATE_OPEN \<and> \<not> pages ins' \<and> \<not> hw_set ins'
         else err = 0 \<and> state (strm ins') = STATE_SETUP \<and> ring_shape (strm ins') \<and>
           buffer_size (strm ins') = params_buffer_size p'))"
proof (cases "state (strm ins) \<notin> {STATE_OPEN, STATE_SETUP, STATE_PREPARED} \<or> \<not> oss_stream ins \<and> mmap_count ins \<noteq> 0")
  case True
  then show ?thesis by (auto simp: snd_pcm_hw_params_def Let_def)
next
  case False
  let ?i = "ins\<lparr>strm := snd_pcm_sync_stop (strm ins)\<rparr>"
  have st: "state (strm ins) \<in> {STATE_OPEN, STATE_SETUP, STATE_PREPARED}" using False by blast
  obtain e2 i2 where a: "allocate_params so p' ?i = (e2, i2)" by fastforce
  have i2: "strm i2 = snd_pcm_sync_stop (strm ins)" using allocate_params_strm [OF a] by simp
  obtain i3 where i3: "install_params p' i2 = Some i3" "ring_shape (strm i3)"
    "buffer_size (strm i3) = params_buffer_size p'"
    using install_params_ring [OF assms(2)] by blast
  have "state (strm i3) = state (strm i2)"
    using i3(1) by (auto simp: install_params_def Let_def split: option.splits)
  with False st i2 i3 show ?thesis unfolding snd_pcm_hw_params_def Let_def assms(1)
    by (cases "e < 0"; cases "e2 < 0") (auto simp: a assms(3,4))
qed

declare rules_retry.simps [code] align_loop.simps [code] boundary_loop.simps [code]

definition fixed :: "u32 \<Rightarrow> snd_interval" where
  "fixed n = \<lparr>iv_min = n, iv_max = n, openmin = False, openmax = False, iv_integer = True, iv_empty = False\<rparr>"

definition sample_ops :: setup_ops where
  "sample_ops = \<lparr>so_malloc = Some (\<lambda>n. 1), so_hw_params = None, so_hw_free = Some 0,
     so_copy_user = False, so_fifo = (\<lambda>p. (0, p)), so_alloc = True\<rparr>"

definition sample_params :: hw_params where
  "sample_params = hw_params_zero\<lparr>
     masks := replicate 4 \<lparr>bits = [8, 0, 0, 0, 0, 0, 0, 0]\<rparr>,
     intervals := map fixed [16, 32, 2, 8000, 1000, 8, 32, 4, 4000, 32, 128, 0]\<rparr>"

definition sample_substream :: pcm_substream where
  "sample_substream =
     \<lparr>ss_hw = \<lparr>rates = 0, rate_min = 8000, rate_max = 8000, hw_info = 0, formats = 8, channels_min = 2,
        channels_max = 2, buffer_bytes_max = 128, period_bytes_min = 32, period_bytes_max = 64,
        periods_min = 2, periods_max = 4, hw_fifo_size = 0\<rparr>,
      ss_constrs = \<lparr>cmasks = masks sample_params, cintervals = intervals sample_params, rules = [],
        rules_all = 0\<rparr>,
      ss_buffer_bytes_max = 128, ss_dma_bytes = 128, ops_mmap = False, ops_page = False,
      get_dma_buf = None, ss_dma_buffer = DMA_CONTINUOUS, dma_can_mmap = False\<rparr>"
lemma choose_sample:
  "map_option (\<lambda>(e, p). (e, params_buffer_size p)) (choose_params sample_ops sample_substream (fixed 0) sample_params) = Some (0, 32)"
  by code_simp

definition sample_instance :: pcm_instance where
  "sample_instance =
     \<lparr>strm = sample_stream\<lparr>state := STATE_OPEN\<rparr>, cfg_access = 0, cfg_format = 0, cfg_subformat = 0,
      cfg_channels = 0, cfg_periods = 0, cfg_rate_num = 0, cfg_rate_den = 0, sample_bits = 0,
      frame_bits = 0, byte_align = 0, tstamp_mode = 0, tstamp_type = 0, period_step = 0,
      buffer_changed = False, mmap_count = 0, oss_stream = False, dma_area = True, dma_bytes = 128,
      cleared = 0, pages = False, hw_set = False, latency = None\<rparr>"

theorem hw_params_outcome_witness:
  "\<exists>err q ins'. snd_pcm_hw_params sample_ops sample_substream (fixed 0) sample_params sample_instance =
     Some (err, q, ins') \<and> (if err < 0 then state (strm ins') = STATE_OPEN else buffer_size (strm ins') = 32)"
proof -
  obtain e p where c: "choose_params sample_ops sample_substream (fixed 0) sample_params = Some (e, p)"
    and b: "params_buffer_size p = 32"
    using choose_sample by auto
  have "moderate (params_buffer_size p)" unfolding b moderate_def by simp
  moreover have "so_malloc sample_ops \<noteq> None" "so_hw_free sample_ops \<noteq> None"
    by (simp_all add: sample_ops_def)
  moreover have "state (strm sample_instance) = STATE_OPEN" "mmap_count sample_instance = 0"
    by (simp_all add: sample_instance_def)
  ultimately show ?thesis using hw_params_outcome [OF c, of sample_instance] b by fastforce
qed

text \<open>
  \<^verbatim>\<open>snd_pcm_sw_params\<close> on a stream that is not running takes over exactly the parameters that pass
  its checks: a positive \<^verbatim>\<open>avail_min\<close> and either a silence size of at least the boundary with no
  threshold, or a silence size within a threshold within the buffer. Then the thresholds are the
  requested ones, the boundary is reported back and the pointers do not move; otherwise an error is
  returned and nothing has changed.
\<close>

theorem sw_params_outcome:
  assumes "i < length g" "\<not> snd_pcm_running (g ! i)"
  shows "\<exists>err p' ins' g'. snd_pcm_sw_params d p ins i g = Some (err, p', ins', g') \<and>
     (if err < 0 then p' = p \<and> ins' = ins \<and> g' = g
      else err = 0 \<and> state (g ! i) \<noteq> STATE_OPEN \<and> 0 < sw_avail_min p \<and>
        (if sw_silence_size p \<ge> boundary (g ! i) then sw_silence_threshold p = 0
         else sw_silence_size p \<le> sw_silence_threshold p \<and> sw_silence_threshold p \<le> buffer_size (g ! i)) \<and>
        sw_boundary p' = boundary (g ! i) \<and>
        g' ! i = (g ! i)\<lparr>avail_min := sw_avail_min p, start_threshold := sw_start_threshold p,
          stop_threshold := sw_stop_threshold p, silence_threshold := sw_silence_threshold p,
          silence_size := sw_silence_size p\<rparr> \<and>
        (\<forall>j. j \<noteq> i \<longrightarrow> g' ! j = g ! j))"
proof -
  let ?s = "(g ! i)\<lparr>avail_min := sw_avail_min p, start_threshold := sw_start_threshold p,
          stop_threshold := sw_stop_threshold p, silence_threshold := sw_silence_threshold p,
          silence_size := sw_silence_size p\<rparr>"
  have nr: "\<not> snd_pcm_running ?s" using assms(2) by (simp add: snd_pcm_running_def)
  show ?thesis
  proof (cases "sw_params_error (g ! i) p < 0")
    case True
    then show ?thesis by (simp add: snd_pcm_sw_params_def Let_def)
  next
    case False
    then have "state (g ! i) \<noteq> STATE_OPEN" "0 < sw_avail_min p"
      "if sw_silence_size p \<ge> boundary (g ! i) then sw_silence_threshold p = 0
         else sw_silence_size p \<le> sw_silence_threshold p \<and> sw_silence_threshold p \<le> buffer_size (g ! i)"
      by (auto simp: sw_params_error_def word_gt_0 split: if_splits)
    with False nr assms(1) show ?thesis by (simp add: snd_pcm_sw_params_def Let_def)
  qed
qed

definition sample_sw_params :: sw_params where
  "sample_sw_params = \<lparr>sw_tstamp_mode = 0, sw_period_step = 1, sw_avail_min = 8, sw_start_threshold = 16,
     sw_stop_threshold = 32, sw_silence_threshold = 0, sw_silence_size = 0, sw_boundary = 0,
     sw_proto = 0, sw_tstamp_type = 0\<rparr>"

theorem sw_params_outcome_witness:
  "\<exists>err p' ins' g'. snd_pcm_sw_params sample_driver sample_sw_params sample_instance 0
     [sample_stream\<lparr>state := STATE_SETUP\<rparr>] = Some (err, p', ins', g')"
  using sw_params_outcome [of 0 "[sample_stream\<lparr>state := STATE_SETUP\<rparr>]" sample_driver sample_sw_params sample_instance]
  by (auto simp: snd_pcm_running_def)

end
