(* ===== verification/PcmPointer.thy ===== *)
theory PcmPointer
  imports PcmSetup
begin

text \<open>
  The hardware pointer. \<open>pos_wf\<close> is the invariant of a configured stream: the ring is well formed,
  the hardware pointer lies in the buffer that starts at \<^verbatim>\<open>hw_ptr_base\<close>, itself a multiple of the
  buffer size, and the silence does not exceed the buffer. The locale \<open>inv_action\<close> is the contract
  under which a group action returns and keeps an invariant of its members; it is interpreted with
  \<open>pos_wf\<close> for all eight actions. For a stream without period interrupts
  the invariant asks that the buffer lasts at least one jiffy: otherwise the loop over the elapsed
  time need not end, as the last property shows.
\<close>

section \<open>The invariant\<close>

text \<open>The elapsed time of a stream without period interrupts is counted in buffers of at least a jiffy.\<close>

definition timed :: "pcm_stream \<Rightarrow> bool" where
  "timed s \<longleftrightarrow> hw_ptr_buffer_jiffies s \<noteq> 0 \<and> unat (hw_ptr_buffer_jiffies s) < 2147483648 \<and>
     buffer_size s * HZ div rate s \<noteq> 0 \<and> unat (buffer_size s * HZ div rate s) < 2147483648"

definition pos_wf :: "pcm_stream \<Rightarrow> bool" where
  "pos_wf s \<longleftrightarrow> ring_wf s \<and> unat (buffer_size s) dvd unat (hw_ptr_base s) \<and>
     unat (hw_ptr_base s) \<le> unat (hw_ptr s) \<and> unat (hw_ptr s) < unat (hw_ptr_base s) + unat (buffer_size s) \<and>
     unat (silence_filled s) \<le> unat (buffer_size s) \<and>
     min_align s \<noteq> 0 \<and> period_size s \<noteq> 0 \<and> rate s \<noteq> 0 \<and> (no_period_wakeup s \<longrightarrow> timed s)"

lemma buffer_multiple:
  assumes "(n :: nat) dvd a" "n dvd b" "a < b" "0 < n"
  shows "a + n \<le> b"
proof -
  from assms obtain i j where "a = n * i" "b = n * j" by (auto elim!: dvdE)
  with assms show ?thesis by (metis Suc_leI mult_Suc_right mult_le_mono2 mult_less_cancel1 add.commute)
qed

lemma ring_advance: "h < B \<Longrightarrow> d < B \<Longrightarrow> ((h + d) mod B + (B - h)) mod B = (d :: nat)"
  by (cases "h + d < B") (simp_all add: mod_if)

text \<open>The next buffer, without overflow.\<close>

lemma next_buffer_at:
  assumes "ring_wf s" "unat pos < unat (buffer_size s)"
    and "unat (buffer_size s) dvd unat (hw_base v)" "unat (hw_base v) < unat (boundary s)"
  shows "let v' = next_buffer s pos v; b = unat (hw_base v) + unat (buffer_size s)
    in unat (hw_base v') = (if b = unat (boundary s) then 0 else b) \<and>
       unat (new_hw_ptr v') = unat (hw_base v') + unat pos \<and>
       unat (hw_base v') + unat (buffer_size s) \<le> unat (boundary s)"
proof -
  have w: "0 < unat (buffer_size s)" "unat (buffer_size s) < unat (boundary s)"
    "unat (boundary s) + unat (buffer_size s) < 2147483648" "unat (buffer_size s) dvd unat (boundary s)"
    "unat (buffer_size s) dvd unat (hw_base v)" "unat (hw_base v) < unat (boundary s)"
    using assms(1,3,4) unfolding ring_wf_def by auto
  have le: "unat (hw_base v) + unat (buffer_size s) \<le> unat (boundary s)"
    using buffer_multiple [OF w(5,4,6,1)] .
  have sum: "unat (hw_base v + buffer_size s) = unat (hw_base v) + unat (buffer_size s)"
    using le w(3) by (simp add: unat_add32)
  show ?thesis
  proof (cases "unat (hw_base v) + unat (buffer_size s) = unat (boundary s)")
    case True
    then have "boundary s \<le> hw_base v + buffer_size s" using sum by (simp add: word_le_nat_alt)
    then show ?thesis using True w by (simp add: next_buffer_def Let_def)
  next
    case False
    then have lt: "unat (hw_base v) + unat (buffer_size s) < unat (boundary s)" using le by simp
    then have "\<not> boundary s \<le> hw_base v + buffer_size s" using sum by (simp add: word_le_nat_alt)
    moreover have "unat (hw_base v + buffer_size s + pos) = unat (hw_base v) + unat (buffer_size s) + unat pos"
      using lt w assms(2) sum by (subst unat_add32) simp
    moreover have "unat (hw_base v) + unat (buffer_size s) + unat (buffer_size s) \<le> unat (boundary s)"
      using buffer_multiple [of "unat (buffer_size s)" "unat (hw_base v) + unat (buffer_size s)" "unat (boundary s)"]
        lt w by simp
    ultimately show ?thesis using False sum by (simp add: next_buffer_def Let_def)
  qed
qed

lemma next_buffer_nat:
  assumes "pos_wf s" "unat pos < unat (buffer_size s)" "hw_base v = hw_ptr_base s"
  shows "let v' = next_buffer s pos v; b = unat (hw_ptr_base s) + unat (buffer_size s)
    in unat (hw_base v') = (if b = unat (boundary s) then 0 else b) \<and>
       unat (new_hw_ptr v') = unat (hw_base v') + unat pos \<and>
       unat (hw_base v') + unat (buffer_size s) \<le> unat (boundary s)"
  using next_buffer_at [of s pos v] assms unfolding pos_wf_def ring_wf_def assms(3) by simp

text \<open>Adding buffers for the elapsed time keeps the position inside a buffer of the ring.\<close>

definition placed :: "pcm_stream \<Rightarrow> u32 \<Rightarrow> ptr_vars \<Rightarrow> bool" where
  "placed s pos v \<longleftrightarrow> unat (buffer_size s) dvd unat (hw_base v) \<and>
     unat (new_hw_ptr v) = unat (hw_base v) + unat pos \<and> unat (new_hw_ptr v) < unat (boundary s)"

lemma next_buffer_placed:
  assumes "ring_wf s" "unat pos < unat (buffer_size s)" "placed s pos v"
  shows "placed s pos (next_buffer s pos (v\<lparr>delta := x\<rparr>))"
proof -
  let ?w = "v\<lparr>delta := x\<rparr>"
  have b: "unat (buffer_size s) dvd unat (hw_base ?w)" "unat (hw_base ?w) < unat (boundary s)"
    "unat (buffer_size s) dvd unat (boundary s)"
    using assms(1,3) by (auto simp: placed_def ring_wf_def)
  show ?thesis using next_buffer_at [OF assms(1,2) b(1,2)] assms(2) b
    by (auto simp: placed_def Let_def)
qed

text \<open>When the position is taken to be in the next buffer.\<close>

definition moves_on :: "pcm_stream \<Rightarrow> bool \<Rightarrow> u32 \<Rightarrow> u32 \<Rightarrow> bool" where
  "moves_on s intr pos cj \<longleftrightarrow>
     intr \<and> hw_ptr_interrupt s + period_size s > hw_ptr_base s + pos \<and>
       cj - hw_ptr_jiffies s > hw_ptr_buffer_jiffies s div 2 + 1 \<or>
     hw_ptr_base s + pos < hw_ptr s"

lemma ptr_position_cases:
  "ptr_position s intr pos cj =
     (let v = \<lparr>hw_base = hw_ptr_base s, new_hw_ptr = hw_ptr_base s + pos, delta = 0, crossed = 0\<rparr>;
          u = (if moves_on s intr pos cj then next_buffer s pos v else v)
      in u\<lparr>delta := (let f = new_hw_ptr u - hw_ptr s in if sint f < 0 then f + boundary s else f)\<rparr>)"
  by (simp add: ptr_position_def moves_on_def Let_def)

lemma ptr_position_nat:
  assumes "pos_wf s" "unat pos < unat (buffer_size s)" and v_def: "v = ptr_position s intr pos cj"
  shows "unat (buffer_size s) dvd unat (hw_base v)"
    and "unat (new_hw_ptr v) = unat (hw_base v) + unat pos" "unat (new_hw_ptr v) < unat (boundary s)"
    and "unat (delta v) = (unat (new_hw_ptr v) + (unat (boundary s) - unat (hw_ptr s))) mod unat (boundary s)"
proof -
  let ?v0 = "\<lparr>hw_base = hw_ptr_base s, new_hw_ptr = hw_ptr_base s + pos, delta = 0, crossed = 0\<rparr>"
  have w: "0 < unat (buffer_size s)" "unat (boundary s) + unat (buffer_size s) < 2147483648"
    "unat (buffer_size s) dvd unat (boundary s)" "unat (buffer_size s) dvd unat (hw_ptr_base s)"
    "unat (hw_ptr_base s) < unat (boundary s)" "unat (hw_ptr s) < unat (boundary s)"
    using assms(1) unfolding pos_wf_def ring_wf_def by auto
  have le: "unat (hw_ptr_base s) + unat (buffer_size s) \<le> unat (boundary s)"
    using buffer_multiple [OF w(4,3,5,1)] .
  define u where "u = (if moves_on s intr pos cj then next_buffer s pos ?v0 else ?v0)"
  have u: "u = ?v0 \<or> u = next_buffer s pos ?v0"
    "v = u\<lparr>delta := (let f = new_hw_ptr u - hw_ptr s in if sint f < 0 then f + boundary s else f)\<rparr>"
    by (simp_all add: u_def v_def ptr_position_cases Let_def)
  have "unat (buffer_size s) dvd unat (hw_base u) \<and> unat (new_hw_ptr u) = unat (hw_base u) + unat pos \<and>
      unat (new_hw_ptr u) < unat (boundary s)"
    using u(1)
  proof
    assume "u = ?v0"
    moreover have "unat (hw_ptr_base s + pos) = unat (hw_ptr_base s) + unat pos"
      using le w(2) assms(2) by (simp add: unat_add32)
    ultimately show ?thesis using w(4) le assms(2) by simp
  next
    assume "u = next_buffer s pos ?v0"
    then show ?thesis using next_buffer_nat [OF assms(1,2), of ?v0] assms(2) w(4) by (auto simp: Let_def)
  qed
  moreover have "delta v = (let f = new_hw_ptr u - hw_ptr s in if sint f < 0 then f + boundary s else f)"
    by (simp add: u(2))
  moreover from calculation have "unat (delta v) =
      (unat (new_hw_ptr u) + (unat (boundary s) - unat (hw_ptr s))) mod unat (boundary s)"
    using w ring_distance [of "new_hw_ptr u" "boundary s" "hw_ptr s"] by simp
  ultimately show "unat (buffer_size s) dvd unat (hw_base v)"
    "unat (new_hw_ptr v) = unat (hw_base v) + unat pos" "unat (new_hw_ptr v) < unat (boundary s)"
    "unat (delta v) = (unat (new_hw_ptr v) + (unat (boundary s) - unat (hw_ptr s))) mod unat (boundary s)"
    by (simp_all add: u(2))
qed

text \<open>Outside an interrupt the new pointer is the next one at that position of the ring.\<close>

lemma ptr_position_exact:
  assumes "pos_wf s" "unat pos < unat (buffer_size s)" and v_def: "v = ptr_position s False pos cj"
  shows "unat (new_hw_ptr v) = (unat (hw_ptr s) +
      (unat pos + unat (buffer_size s) - unat (hw_ptr s) mod unat (buffer_size s)) mod unat (buffer_size s))
      mod unat (boundary s)"
    and "unat (delta v) =
      (unat pos + unat (buffer_size s) - unat (hw_ptr s) mod unat (buffer_size s)) mod unat (buffer_size s)"
proof -
  let ?m = "unat (buffer_size s)" and ?b = "unat (hw_ptr_base s)" and ?h = "unat (hw_ptr s)" and ?B = "unat (boundary s)"
  let ?v0 = "\<lparr>hw_base = hw_ptr_base s, new_hw_ptr = hw_ptr_base s + pos, delta = 0, crossed = 0\<rparr>"
  have w: "0 < ?m" "?B + ?m < 2147483648" "?m dvd ?B" "?m dvd ?b" "?b \<le> ?h" "?h < ?b + ?m" "?h < ?B"
    using assms(1) unfolding pos_wf_def ring_wf_def by auto
  have le: "?b + ?m \<le> ?B" using buffer_multiple [OF w(4,3) _ w(1)] w(5,7) by linarith
  have "?h mod ?m = ?h - ?b"
  proof -
    obtain q where "?b = ?m * q" using w(4) by (elim dvdE)
    then have "?h mod ?m = (?h - ?b) mod ?m" using w(5) by (metis le_add_diff_inverse mod_mult_self4)
    then show ?thesis using w(5,6) by simp
  qed
  then have f: "(unat pos + ?m - ?h mod ?m) mod ?m =
      (if ?h \<le> ?b + unat pos then ?b + unat pos - ?h else ?b + unat pos + ?m - ?h)"
    using w(5,6) assms(2) by (auto simp: mod_if)
  have sum: "unat (hw_ptr_base s + pos) = ?b + unat pos" using le w(2) assms(2) by (simp add: unat_add32)
  have mv: "moves_on s False pos cj \<longleftrightarrow> ?b + unat pos < ?h"
    by (simp add: moves_on_def word_less_nat_alt sum)
  have new: "unat (new_hw_ptr v) = (?h + (unat pos + ?m - ?h mod ?m) mod ?m) mod ?B"
  proof (cases "?b + unat pos < ?h")
    case True
    then have "new_hw_ptr v = new_hw_ptr (next_buffer s pos ?v0)"
      using mv by (simp add: v_def ptr_position_cases Let_def)
    then have "unat (new_hw_ptr v) = (if ?b + ?m = ?B then 0 else ?b + ?m) + unat pos"
      "(if ?b + ?m = ?B then 0 else ?b + ?m) + ?m \<le> ?B"
      using next_buffer_nat [OF assms(1,2), of ?v0] by (auto simp: Let_def)
    moreover have "?h + (unat pos + ?m - ?h mod ?m) mod ?m = ?b + ?m + unat pos"
      using f True w(6) by simp
    ultimately show ?thesis using assms(2) le by (auto split: if_splits)
  next
    case False
    then have "unat (new_hw_ptr v) = ?b + unat pos"
      using mv sum by (simp add: v_def ptr_position_cases Let_def)
    then show ?thesis using False f assms(2) le by simp
  qed
  then show "unat (new_hw_ptr v) = (?h + (unat pos + ?m - ?h mod ?m) mod ?m) mod ?B" .
  let ?d = "(unat pos + ?m - ?h mod ?m) mod ?m"
  have d: "?d < ?B" using w le by (metis add_lessD1 le_add2 less_le_trans mod_less_divisor order.strict_trans2)
  have "unat (delta v) = ((?h + ?d) mod ?B + (?B - ?h)) mod ?B"
    using ptr_position_nat(4) [OF assms] new by simp
  also have "\<dots> = ?d" using w(7) d by (rule ring_advance)
  finally show "unat (delta v) = ?d" .
qed

section \<open>The loop over the elapsed time\<close>

lemma skip_buffers_ends:
  assumes "0 < unat (hw_ptr_buffer_jiffies s)" "unat (hw_ptr_buffer_jiffies s) < 2147483648"
  shows "\<exists>v'. skip_buffers s pos h v = Some v'"
proof (induction "nat (sint h)" arbitrary: h v rule: less_induct)
  case less
  let ?j = "hw_ptr_buffer_jiffies s"
  have "unat (?j div 2) = unat ?j div 2" by (simp add: unat_div_distrib)
  then have j: "unat (?j div 2) < 1073741824" "unat (?j div 2 + 1) = unat (?j div 2) + 1"
    using assms(2) by (simp_all add: unat_add32)
  show ?case
  proof (cases "sint h > sint (?j div 2 + 1)")
    case True
    have t: "sint (?j div 2 + 1) = int (unat (?j div 2) + 1)"
      using j by (subst sint_unat) simp_all
    then have "\<not> sint h < 0" using True by linarith
    then have h: "unat h < 2147483648" by (simp add: sint_neg_iff)
    then have sh: "sint h = int (unat h)" by (rule sint_unat)
    have "nat (sint (h - ?j)) < nat (sint h)"
    proof (cases "unat ?j \<le> unat h")
      case le: True
      then have u: "unat (h - ?j) = unat h - unat ?j" by (simp add: unat_sub32)
      then have "sint (h - ?j) = int (unat h - unat ?j)" using h by (subst sint_unat) simp_all
      then show ?thesis using le assms(1) unfolding sh by (simp only: nat_int)
    next
      case False
      then have "2147483648 \<le> unat (h - ?j)" using assms(2) by (simp add: unat_sub32)
      then have "sint (h - ?j) < 0" by (simp add: sint_neg_iff)
      moreover have "0 < sint h" using True t by linarith
      ultimately show ?thesis by simp
    qed
    then show ?thesis using less True by (subst skip_buffers.simps) simp
  next
    case False
    then show ?thesis by (subst skip_buffers.simps) simp
  qed
qed

lemma skip_buffers_placed:
  assumes "skip_buffers s pos h v = Some v'" "ring_wf s" "unat pos < unat (buffer_size s)" "placed s pos v"
  shows "placed s pos v'"
proof -
  have "ring_wf s \<longrightarrow> unat pos < unat (buffer_size s) \<longrightarrow> placed s pos v \<longrightarrow> placed s pos v'"
    using assms(1)
    by (rule skip_buffers.raw_induct [where P = "\<lambda>s pos h v r. ring_wf s \<longrightarrow>
      unat pos < unat (buffer_size s) \<longrightarrow> placed s pos v \<longrightarrow> placed s pos r", rotated])
      (simp split: if_splits, metis next_buffer_placed)
  then show ?thesis using assms(2-4) by simp
qed

section \<open>Committing the new pointer\<close>


lemma silence_advance_returns:
  assumes "ring_wf s" "unat (silence_filled s) \<le> unat (buffer_size s)" "unat hw' < unat (boundary s)"
  shows "\<exists>s'. snd_pcm_playback_silence hw' s = Some s' \<and> settings s' = settings s \<and>
    silence_filled s' = buffer_size s \<and> hw_ptr_buffer_jiffies s' = hw_ptr_buffer_jiffies s"
proof -
  let ?t = "silence_advance hw' s"
  have w: "0 < unat (buffer_size s)" "unat (buffer_size s) < 2147483648" "unat (hw_ptr s) < unat (boundary s)"
    "unat (boundary s) < 2147483648" "hw' \<noteq> - 1"
    using assms(1,3) unfolding ring_wf_def by auto
  have other: "settings ?t = settings s" "buffer_size ?t = buffer_size s"
    "hw_ptr_buffer_jiffies ?t = hw_ptr_buffer_jiffies s"
    by (simp_all add: silence_advance_def Let_def)
  have "unat (silence_filled ?t) \<le> unat (buffer_size s)"
  proof -
    let ?f = "let f = hw' - hw_ptr s in if sint f < 0 then f + boundary s else f"
    have "silence_filled ?t = (if sint (silence_filled s - ?f) < 0 then 0 else silence_filled s - ?f)"
      by (simp add: silence_advance_def Let_def)
    moreover have "unat ?f < 2147483648"
      unfolding ring_distance [OF assms(3) w(3,4)] using w(3,4)
      by (intro less_trans [OF mod_less_divisor]) simp_all
    moreover have "unat (silence_filled s - x) \<le> unat (buffer_size s)"
      if "\<not> sint (silence_filled s - x) < 0" "unat x < 2147483648" for x
      using that assms(2) unfolding sint_neg_iff by (auto simp: unat_sub32 split: if_splits)
    ultimately show ?thesis by (simp split: if_splits)
  qed
  then obtain rs where "(if buffer_size ?t - silence_filled ?t = 0 then Some ?t else if buffer_size ?t = 0 then None
       else silence_loop (buffer_size ?t - silence_filled ?t) (silence_start ?t mod buffer_size ?t) ?t)
       = Some (?t\<lparr>silence_log := silence_log ?t @ rs, silence_filled := buffer_size ?t\<rparr>)"
    using silence_fill_run [of ?t] w(1,2) unfolding other by auto
  moreover have "snd_pcm_playback_silence hw' s =
      (if buffer_size ?t - silence_filled ?t = 0 then Some ?t else if buffer_size ?t = 0 then None
       else silence_loop (buffer_size ?t - silence_filled ?t) (silence_start ?t mod buffer_size ?t) ?t)"
    using w(5) w(1) by (auto simp: snd_pcm_playback_silence_def Let_def)
  ultimately show ?thesis by (simp add: other)
qed

section \<open>Actions that keep an invariant\<close>

definition group_inv :: "(pcm_stream \<Rightarrow> bool) \<Rightarrow> nat \<Rightarrow> pcm_group \<Rightarrow> bool" where
  "group_inv P n g \<longleftrightarrow> length g = n \<and> list_all P g"

lemma group_inv_nth: "group_inv P n g \<Longrightarrow> i < n \<Longrightarrow> P (g ! i)"
  by (auto simp: group_inv_def list_all_length)

lemma group_inv_upd:
  assumes "group_inv P n g" "i < n \<Longrightarrow> P (f (g ! i))"
  shows "group_inv P n (upd i f g)"
  using assms by (cases "i < n") (auto simp: group_inv_def list_all_length)

lemma group_inv_update: "group_inv P n g \<Longrightarrow> P s \<Longrightarrow> group_inv P n (g[i := s])"
  using set_update_subset_insert [of g i s] by (auto simp: group_inv_def list_all_iff)

lemma group_inv_upd_same:
  "group_inv P n g \<Longrightarrow> (\<And>s. P s \<Longrightarrow> P (f s)) \<Longrightarrow> group_inv P n (upd i f g)"
  by (rule group_inv_upd) (simp_all add: group_inv_nth)

locale inv_action =
  fixes ops :: action_ops
    and P :: "pcm_stream \<Rightarrow> bool"
  assumes pre_inv: "group_inv P n g \<Longrightarrow> i < n \<Longrightarrow> group_inv P n (snd (pre_action ops i g))"
    and do_inv: "group_inv P n g \<Longrightarrow> i < n \<Longrightarrow>
      \<exists>r g'. do_action ops i g = Some (r, g') \<and> group_inv P n g'"
    and undo_inv: "undo_action ops = Some u \<Longrightarrow> group_inv P n g \<Longrightarrow> i < n \<Longrightarrow> group_inv P n (u i g)"
    and post_inv: "group_inv P n g \<Longrightarrow> i < n \<Longrightarrow> \<exists>g'. post_action ops i g = Some g' \<and> group_inv P n g'"
    and unlock_inv: "P s \<Longrightarrow> P (snd_pcm_buffer_access_unlock s)"
begin

lemma pre_all_inv: "group_inv P n g \<Longrightarrow> \<forall>i\<in>set is. i < n \<Longrightarrow> group_inv P n (snd (pre_all ops is g))"
proof (induction "is" arbitrary: g)
  case (Cons i "is")
  then show ?case using pre_inv [of n g i] by (auto simp: split_beta)
qed simp

lemma undo_all_inv: "group_inv P n g \<Longrightarrow> \<forall>i\<in>set is. i < n \<Longrightarrow> group_inv P n (undo_all ops is g)"
proof (cases "undo_action ops")
  case (Some u)
  assume "group_inv P n g" "\<forall>i\<in>set is. i < n"
  then have "group_inv P n (fold u is g)"
    by (induction "is" arbitrary: g) (auto intro: undo_inv [OF Some])
  then show ?thesis by (simp add: undo_all_def Some)
qed (simp add: undo_all_def)

lemma do_all_inv:
  assumes "group_inv P n g" "\<forall>i\<in>set is \<union> set prev. i < n"
  shows "\<exists>r g'. do_all ops res prev is g = Some (r, g') \<and> group_inv P n g'"
  using assms
proof (induction "is" arbitrary: res prev g)
  case (Cons i "is")
  obtain r g' where d: "do_action ops i g = Some (r, g')" "group_inv P n g'"
    using do_inv [of n g i] Cons.prems by auto
  show ?case
  proof (cases "r < 0")
    case True
    then show ?thesis using undo_all_inv [of n g' prev] d Cons.prems by simp
  next
    case False
    then show ?thesis using Cons.IH [of g' "prev @ [i]" r] d Cons.prems by simp
  qed
qed simp

lemma post_all_inv:
  "group_inv P n g \<Longrightarrow> \<forall>i\<in>set is. i < n \<Longrightarrow> \<exists>g'. post_all ops is g = Some g' \<and> group_inv P n g'"
proof (induction "is" arbitrary: g)
  case (Cons i "is")
  then show ?case using post_inv [of n g i] by auto
qed simp

lemma action_group_inv:
  assumes "group_inv P n g"
  shows "\<exists>r g'. snd_pcm_action_group ops g = Some (r, g') \<and> group_inv P n g'"
proof -
  let ?m = "[0..<length g]"
  have m: "\<forall>i\<in>set ?m. i < n" using assms by (simp add: group_inv_def)
  obtain r1 g1 where pre: "pre_all ops ?m g = (r1, g1)" by fastforce
  then have g1: "group_inv P n g1" using pre_all_inv [OF assms m] by simp
  obtain r2 g2 where d: "do_all ops 0 [] ?m g1 = Some (r2, g2)" "group_inv P n g2"
    using do_all_inv [OF g1, of ?m "[]" 0] m by auto
  obtain g3 where "post_all ops ?m g2 = Some g3" "group_inv P n g3" using post_all_inv [OF d(2) m] by blast
  then show ?thesis using pre g1 d by (auto simp: snd_pcm_action_group_def Let_def)
qed

lemma action_single_inv:
  assumes "group_inv P n g" "i < n"
  shows "\<exists>r g'. snd_pcm_action_single ops i g = Some (r, g') \<and> group_inv P n g'"
proof -
  obtain r1 g1 where pre: "pre_action ops i g = (r1, g1)" by fastforce
  then have g1: "group_inv P n g1" using pre_inv [OF assms] by simp
  obtain r2 g2 where d: "do_action ops i g1 = Some (r2, g2)" "group_inv P n g2"
    using do_inv [OF g1 assms(2)] by blast
  obtain g3 where "post_action ops i g2 = Some g3" "group_inv P n g3" using post_inv [OF d(2) assms(2)] by blast
  moreover have "group_inv P n (undo_all ops [i] g2)" using undo_all_inv [OF d(2), of "[i]"] assms(2) by simp
  ultimately show ?thesis using pre g1 d by (auto simp: snd_pcm_action_single_def Let_def)
qed

lemma action_inv:
  "group_inv P n g \<Longrightarrow> i < n \<Longrightarrow> \<exists>r g'. snd_pcm_action ops i g = Some (r, g') \<and> group_inv P n g'"
  by (simp add: snd_pcm_action_def action_group_inv action_single_inv)

lemma action_nonatomic_inv:
  assumes "group_inv P n g" "i < n"
  shows "\<exists>r g'. snd_pcm_action_nonatomic ops i g = Some (r, g') \<and> group_inv P n g'"
proof -
  obtain r g' where "(if snd_pcm_stream_linked g then snd_pcm_action_group ops g
      else snd_pcm_action_single ops i g) = Some (r, g')" "group_inv P n g'"
    using action_group_inv [OF assms(1)] action_single_inv [OF assms] by (metis (full_types))
  moreover from this have "group_inv P n (upd i snd_pcm_buffer_access_unlock g')"
    by (intro group_inv_upd_same unlock_inv)
  ultimately show ?thesis by (simp add: snd_pcm_action_nonatomic_def)
qed

end

section \<open>The pointer invariant is kept\<close>

lemma pos_wf_simps [simp]:
  "pos_wf (s\<lparr>trigger_master := m\<rparr>) = pos_wf s" "pos_wf (s\<lparr>trigger_log := l\<rparr>) = pos_wf s"
  "pos_wf (s\<lparr>stop_operating := b\<rparr>) = pos_wf s" "pos_wf (wake_up_both s) = pos_wf s"
  "pos_wf (s\<lparr>state := st\<rparr>) = pos_wf s" "pos_wf (s\<lparr>suspended_state := st\<rparr>) = pos_wf s"
  "pos_wf (s\<lparr>hw_ptr_jiffies := x\<rparr>) = pos_wf s"
  "pos_wf (s\<lparr>avail_max := x\<rparr>) = pos_wf s" "pos_wf (s\<lparr>sleep_wakeups := k\<rparr>) = pos_wf s"
  "pos_wf (s\<lparr>tsleep_wakeups := k\<rparr>) = pos_wf s" "pos_wf (s\<lparr>f_flags := x\<rparr>) = pos_wf s"
  "pos_wf (s\<lparr>hw_ptr_interrupt := x\<rparr>) = pos_wf s" "pos_wf (s\<lparr>hw_ptr_wrap := y\<rparr>) = pos_wf s"
  "pos_wf (s\<lparr>silence_start := x\<rparr>) = pos_wf s" "pos_wf (s\<lparr>twake := x\<rparr>) = pos_wf s"
  "pos_wf (snd_pcm_sync_stop s) = pos_wf s" "pos_wf (snd_pcm_buffer_access_unlock s) = pos_wf s"
  "pos_wf (snd_pcm_set_state st s) = pos_wf s"
  by (simp_all add: pos_wf_def ring_wf_def timed_def wake_up_both_def snd_pcm_sync_stop_def
      snd_pcm_buffer_access_unlock_def snd_pcm_set_state_def)

lemma trigger_inv: "group_inv pos_wf n g \<Longrightarrow> group_inv pos_wf n (snd (trigger d i cmd g))"
proof -
  have fold: "group_inv pos_wf n g \<Longrightarrow> group_inv pos_wf n (fold (\<lambda>j. upd j (\<lambda>s. s\<lparr>trigger_master := m\<rparr>)) js g)" for g js m
    by (induction js arbitrary: g) (simp_all add: group_inv_upd_same)
  assume "group_inv pos_wf n g"
  then show ?thesis
    by (auto simp: trigger_def Let_def split_beta intro!: fold group_inv_upd_same)
qed

lemma trigger_tstamp_inv: "group_inv pos_wf n g \<Longrightarrow> group_inv pos_wf n (snd_pcm_trigger_tstamp i g)"
proof -
  have "group_inv pos_wf n g \<Longrightarrow> group_inv pos_wf n (trigger_tstamp k i g)" for k
    by (induction k arbitrary: i g) (auto split: option.split intro!: group_inv_upd_same)
  then show "group_inv pos_wf n g \<Longrightarrow> ?thesis" by (simp add: snd_pcm_trigger_tstamp_def)
qed

lemmas group_inv_intros = group_inv_upd_same trigger_inv trigger_tstamp_inv

interpretation stop_inv: inv_action "snd_pcm_action_stop d st" pos_wf
proof (unfold_locales, goal_cases)
  case (1 n g i)
  then show ?case by (auto simp: snd_pcm_action_stop_def snd_pcm_pre_stop_def
      intro!: group_inv_intros)
next
  case (2 n g i)
  then show ?case by (auto simp: snd_pcm_action_stop_def snd_pcm_do_stop_def Let_def split_beta
      intro!: group_inv_intros)
next
  case (4 n g i)
  then show ?case by (auto simp: snd_pcm_action_stop_def snd_pcm_post_stop_def Let_def
      intro!: group_inv_intros)
qed (simp_all add: snd_pcm_action_stop_def)

lemma pcm_xrun_inv:
  assumes "group_inv pos_wf n g" "i < n"
  shows "\<exists>g'. pcm_xrun d i g = Some g' \<and> group_inv pos_wf n g'"
  using stop_inv.action_inv [OF assms, of d STATE_XRUN] by (auto simp: pcm_xrun_def snd_pcm_stop_def)

lemma update_state_inv:
  assumes "group_inv pos_wf n g" "i < n"
  shows "\<exists>r g'. snd_pcm_update_state d i g = Some (r, g') \<and> r \<in> {0, - EPIPE} \<and> group_inv pos_wf n g'"
proof -
  let ?av = "snd_pcm_avail (g ! i)"
  let ?g = "upd i (\<lambda>s. if ?av > avail_max s then s\<lparr>avail_max := ?av\<rparr> else s) g"
  have g: "group_inv pos_wf n ?g" using assms(1) by (auto intro: group_inv_upd_same)
  obtain r1 g1 where d: "snd_pcm_drain_done d i ?g = Some (r1, g1)" "group_inv pos_wf n g1"
    using stop_inv.action_single_inv [OF g assms(2), of d STATE_SETUP] by (auto simp: snd_pcm_drain_done_def)
  obtain g2 where x: "pcm_xrun d i ?g = Some g2" "group_inv pos_wf n g2" using pcm_xrun_inv [OF g assms(2)] by blast
  show ?thesis using d x g
    unfolding snd_pcm_update_state_def Let_def
    by (auto intro!: group_inv_upd_same)
qed

lemma commit_ptr_inv:
  assumes g: "group_inv pos_wf n g" and i: "i < n"
    and v: "unat (buffer_size (g ! i)) dvd unat (hw_base v)"
      "unat (new_hw_ptr v) = unat (hw_base v) + unat pos" "unat pos < unat (buffer_size (g ! i))"
      "unat (new_hw_ptr v) < unat (boundary (g ! i))"
  shows "\<exists>r g'. commit_ptr d intr v i g = Some (r, g') \<and> r \<in> {0, - EPIPE} \<and> group_inv pos_wf n g'"
proof (cases "hw_ptr (g ! i) = new_hw_ptr v")
  case True
  then show ?thesis using g by (auto simp: commit_ptr_def intro!: group_inv_upd_same)
next
  case False
  let ?s = "g ! i"
  have wf: "pos_wf ?s" using group_inv_nth [OF g i] .
  obtain t where t: "(if playback ?s \<and> silence_size ?s > 0 then snd_pcm_playback_silence (new_hw_ptr v) ?s
      else Some ?s) = Some t" "settings t = settings ?s" "unat (silence_filled t) \<le> unat (buffer_size ?s)"
    "hw_ptr_buffer_jiffies t = hw_ptr_buffer_jiffies ?s"
    using silence_advance_returns [of ?s "new_hw_ptr v"] wf v(4) unfolding pos_wf_def
    by (cases "playback ?s \<and> silence_size ?s > 0") auto
  have f: "f t = f ?s" if "\<And>x. f (settings x) = f x" for f :: "pcm_stream \<Rightarrow> 'b"
    using that arg_cong [OF t(2), of f] by metis
  have eqs: "buffer_size t = buffer_size ?s" "boundary t = boundary ?s" "appl_ptr t = appl_ptr ?s"
    "min_align t = min_align ?s" "period_size t = period_size ?s" "rate t = rate ?s"
    "no_period_wakeup t = no_period_wakeup ?s"
    by (rule f, simp add: settings_def)+
  define u where "u = (let s = (if intr then advance_interrupt (new_hw_ptr v) t else t);
      s = s\<lparr>hw_ptr_base := hw_base v, hw_ptr := new_hw_ptr v, hw_ptr_jiffies := jiffies d\<rparr>
    in if crossed v \<noteq> 0 then s\<lparr>hw_ptr_wrap := hw_ptr_wrap s + ucast (boundary s)\<rparr> else s)"
  have "pos_wf u"
    using wf t(3,4) v eqs by (simp add: u_def pos_wf_def ring_wf_def timed_def advance_interrupt_def Let_def)
  then have "group_inv pos_wf n (g[i := u])" using g by (rule group_inv_update [rotated])
  moreover have "commit_ptr d intr v i g = snd_pcm_update_state d i (g[i := u])"
    using False t(1) wf eqs(5) by (simp add: commit_ptr_def u_def Let_def pos_wf_def)
  ultimately show ?thesis using update_state_inv i by simp
qed

text \<open>The position the update works with: out of range is 0, the rest is rounded down.\<close>

definition taken_pos :: "pcm_driver \<Rightarrow> nat \<Rightarrow> pcm_stream \<Rightarrow> u32" where
  "taken_pos d i s =
     (let pos = (if drv_pointer d i \<ge> buffer_size s then 0 else drv_pointer d i) in pos - pos mod min_align s)"

lemma taken_pos_less:
  assumes "ring_wf s"
  shows "unat (taken_pos d i s) < unat (buffer_size s)"
proof -
  let ?raw = "if drv_pointer d i \<ge> buffer_size s then 0 else drv_pointer d i"
  have p0: "unat ?raw < unat (buffer_size s)"
    using assms by (auto simp: ring_wf_def word_le_nat_alt)
  have "unat (x - x mod m) \<le> unat x" for x m :: u32
  proof -
    have "unat (x mod m) \<le> unat x" by (simp add: unat_mod_distrib)
    then show ?thesis by (simp add: unat_sub32)
  qed
  then show ?thesis unfolding taken_pos_def Let_def using p0 by (rule le_less_trans)
qed

lemma update_hw_ptr0_cases:
  assumes "pos_wf (g ! i)"
  shows "snd_pcm_update_hw_ptr0 d intr i g =
     (let s = g ! i; pos = taken_pos d i s; v = ptr_position s intr pos (jiffies d);
          jdelta = jiffies d - hw_ptr_jiffies s
      in if drv_pointer d i = SNDRV_PCM_POS_XRUN then map_option (Pair (- EPIPE)) (pcm_xrun d i g)
         else if no_period_wakeup s \<and> \<not> jdelta < hw_ptr_buffer_jiffies s div 2 then
           Option.bind (skip_buffers s pos (jdelta - delta v * HZ div rate s) v) (\<lambda>v. commit_ptr d intr v i g)
         else if \<not> no_period_wakeup s \<and> delta v \<ge> buffer_size s + period_size s then Some (0, g)
         else commit_ptr d intr v i g)"
  using assms unfolding snd_pcm_update_hw_ptr0_def taken_pos_def Let_def pos_wf_def
  by (auto simp: Let_def split: option.split)

lemma update_hw_ptr0_inv:
  assumes "group_inv pos_wf n g" "i < n"
  shows "\<exists>r g'. snd_pcm_update_hw_ptr0 d intr i g = Some (r, g') \<and> r \<in> {0, - EPIPE} \<and> group_inv pos_wf n g'"
proof -
  let ?s = "g ! i"
  let ?p = "taken_pos d i ?s"
  have wf: "pos_wf ?s" using group_inv_nth [OF assms] .
  then have ring: "ring_wf ?s" by (simp add: pos_wf_def)
  have p: "unat ?p < unat (buffer_size ?s)" using taken_pos_less [OF ring] .
  define v where "v = ptr_position ?s intr ?p (jiffies d)"
  have pv: "placed ?s ?p v" using ptr_position_nat [OF wf p v_def] by (simp add: placed_def)
  have c: "\<exists>r g'. commit_ptr d intr w i g = Some (r, g') \<and> r \<in> {0, - EPIPE} \<and> group_inv pos_wf n g'"
    if "placed ?s ?p w" for w
    using that commit_ptr_inv [OF assms _ _ p, of w d intr] by (simp add: placed_def)
  obtain g2 where x: "pcm_xrun d i g = Some g2" "group_inv pos_wf n g2" using pcm_xrun_inv [OF assms] by blast
  have k: "\<exists>r g'. Option.bind (skip_buffers ?s ?p h v) (\<lambda>v. commit_ptr d intr v i g) = Some (r, g') \<and>
      r \<in> {0, - EPIPE} \<and> group_inv pos_wf n g'" if "no_period_wakeup ?s" for h
  proof -
    have "timed ?s" using wf that by (simp add: pos_wf_def)
    then obtain w where w: "skip_buffers ?s ?p h v = Some w"
      using skip_buffers_ends [of ?s ?p h v] by (auto simp: timed_def unat_gt_0)
    show ?thesis using c [OF skip_buffers_placed [OF w ring p pv]] w by simp
  qed
  show ?thesis
    unfolding update_hw_ptr0_cases [OF wf, of d intr] Let_def v_def [symmetric]
    using x k c [OF pv] assms(1) by simp
qed

lemma pos_wf_settings:
  assumes "pos_wf s" "settings t = settings s" "unat (silence_filled t) \<le> unat (buffer_size s)"
    and "hw_ptr_buffer_jiffies t = hw_ptr_buffer_jiffies s"
  shows "pos_wf t"
proof -
  have f: "f t = f s" if "\<And>x. f (settings x) = f x" for f :: "pcm_stream \<Rightarrow> 'b"
    using that arg_cong [OF assms(2), of f] by metis
  have "buffer_size t = buffer_size s" "boundary t = boundary s" "appl_ptr t = appl_ptr s"
    "hw_ptr t = hw_ptr s" "hw_ptr_base t = hw_ptr_base s"
    "min_align t = min_align s" "period_size t = period_size s" "rate t = rate s"
    "no_period_wakeup t = no_period_wakeup s"
    by (rule f, simp add: settings_def)+
  then show ?thesis using assms(1,3,4) by (simp add: pos_wf_def ring_wf_def timed_def)
qed

lemma fillable_pos_wf: "pos_wf s \<Longrightarrow> fillable s"
  by (auto simp: pos_wf_def ring_wf_def fillable_def)

lemma fill_if_playback_inv:
  assumes "group_inv pos_wf n g" "i < n"
  shows "\<exists>g'. fill_if_playback i g = Some g' \<and> group_inv pos_wf n g'"
proof -
  have wf: "pos_wf (g ! i)" using group_inv_nth [OF assms] .
  obtain s where s: "snd_pcm_playback_silence (- 1) (g ! i) = Some s" "settings s = settings (g ! i)"
    "silence_filled s = buffer_size (g ! i)" "hw_ptr_buffer_jiffies s = hw_ptr_buffer_jiffies (g ! i)"
    using silence_start_returns [OF fillable_pos_wf [OF wf]] by blast
  have "pos_wf s" using pos_wf_settings [OF wf s(2) _ s(4)] s(3) by simp
  then show ?thesis using s(1) assms(1) by (auto simp: fill_if_playback_def group_inv_update)
qed

lemma post_start_inv:
  assumes "group_inv pos_wf n g" "i < n"
  shows "\<exists>g'. snd_pcm_post_start d st i g = Some g' \<and> group_inv pos_wf n g'"
proof -
  let ?g1 = "snd_pcm_trigger_tstamp i g"
  have g1: "group_inv pos_wf n ?g1" using assms(1) by (rule trigger_tstamp_inv)
  then have "rate (?g1 ! i) \<noteq> 0" using group_inv_nth [OF g1 assms(2)] by (simp add: pos_wf_def)
  moreover have "group_inv pos_wf n (upd i (\<lambda>s. s\<lparr>hw_ptr_jiffies := jiffies d,
      hw_ptr_buffer_jiffies := buffer_size s * HZ div rate s, state := st\<rparr>) ?g1)"
    using g1 by (rule group_inv_upd_same) (auto simp: pos_wf_def ring_wf_def timed_def)
  ultimately show ?thesis using fill_if_playback_inv assms(2)
    by (simp add: snd_pcm_post_start_def Let_def)
qed

lemma do_start_inv: "group_inv pos_wf n g \<Longrightarrow> group_inv pos_wf n (snd (snd_pcm_do_start d i g))"
  by (simp add: snd_pcm_do_start_def trigger_inv)

interpretation start_inv: inv_action "snd_pcm_action_start d st" pos_wf
proof (unfold_locales, goal_cases)
  case (1 n g i)
  then show ?case by (auto simp: snd_pcm_action_start_def snd_pcm_pre_start_def Let_def
      intro!: group_inv_intros)
next
  case (2 n g i)
  then show ?case using do_start_inv [of n g d i]
    by (cases "snd_pcm_do_start d i g") (simp add: snd_pcm_action_start_def)
next
  case (3 u n g i)
  then show ?case by (auto simp: snd_pcm_action_start_def snd_pcm_undo_start_def intro: trigger_inv)
next
  case (4 n g i)
  then show ?case by (simp add: snd_pcm_action_start_def post_start_inv)
qed simp

interpretation pause_inv: inv_action "snd_pcm_action_pause d push" pos_wf
proof (unfold_locales, goal_cases)
  case (1 n g i)
  then show ?case by (auto simp: snd_pcm_action_pause_def snd_pcm_pre_pause_def Let_def
      intro!: group_inv_intros)
next
  case (2 n g i)
  let ?cmd = "if push then TRIGGER_PAUSE_PUSH else TRIGGER_PAUSE_RELEASE"
  obtain g1 where g1: "(if push then map_option snd (snd_pcm_update_hw_ptr d i g) else Some g) = Some g1"
    "group_inv pos_wf n g1"
    using update_hw_ptr0_inv [OF 2, of d False] 2(1) by (cases push) (auto simp: snd_pcm_update_hw_ptr_def)
  let ?g2 = "upd i (\<lambda>s. s\<lparr>hw_ptr_jiffies := jiffies d - HZ * 1000\<rparr>) g1"
  have "group_inv pos_wf n ?g2" using g1(2) by (rule group_inv_upd_same) simp
  then have "group_inv pos_wf n (snd (trigger d i ?cmd ?g2))" by (rule trigger_inv)
  then show ?case using g1 2(1) by (cases "trigger d i ?cmd ?g2")
    (auto simp: snd_pcm_action_pause_def snd_pcm_do_pause_def Let_def)
next
  case (3 u n g i)
  then show ?case by (auto simp: snd_pcm_action_pause_def snd_pcm_undo_pause_def intro: trigger_inv)
next
  case (4 n g i)
  then show ?case by (auto simp: snd_pcm_action_pause_def snd_pcm_post_pause_def Let_def
      intro!: group_inv_intros)
qed simp

interpretation suspend_inv: inv_action "snd_pcm_action_suspend d" pos_wf
proof (unfold_locales, goal_cases)
  case (1 n g i)
  then show ?case by (auto simp: snd_pcm_action_suspend_def snd_pcm_pre_suspend_def
      intro!: group_inv_intros)
next
  case (2 n g i)
  then show ?case by (auto simp: snd_pcm_action_suspend_def snd_pcm_do_suspend_def Let_def split_beta
      intro!: group_inv_intros)
next
  case (4 n g i)
  then show ?case by (auto simp: snd_pcm_action_suspend_def snd_pcm_post_suspend_def
      intro!: group_inv_intros)
qed (simp_all add: snd_pcm_action_suspend_def)

interpretation resume_inv: inv_action "snd_pcm_action_resume d" pos_wf
proof (unfold_locales, goal_cases)
  case (1 n g i)
  then show ?case by (auto simp: snd_pcm_action_resume_def snd_pcm_pre_resume_def
      intro!: group_inv_intros)
next
  case (2 n g i)
  then have "group_inv pos_wf n (snd (snd_pcm_do_resume d i g))"
    by (simp add: snd_pcm_do_resume_def Let_def trigger_inv)
  then show ?case by (cases "snd_pcm_do_resume d i g") (simp add: snd_pcm_action_resume_def)
next
  case (3 u n g i)
  then show ?case by (auto simp: snd_pcm_action_resume_def snd_pcm_undo_resume_def intro: trigger_inv)
next
  case (4 n g i)
  then show ?case by (auto simp: snd_pcm_action_resume_def snd_pcm_post_resume_def
      intro!: group_inv_intros)
qed simp

text \<open>
  Reset and prepare. A driver either leaves \<^verbatim>\<open>SNDRV_PCM_IOCTL1_RESET\<close> to the library (\<open>lib_ioctl\<close>, all
  drivers built for OS/2) or its own ioctl does what the library's does to the invariant: it
  returns, and when it succeeds the hardware pointer of the stream is a position of the buffer.
\<close>

definition lib_ioctl :: "pcm_driver \<Rightarrow> pcm_driver" where
  "lib_ioctl d = d\<lparr>drv_ioctl_reset := None\<rparr>"

definition good_reset :: "pcm_driver \<Rightarrow> bool" where
  "good_reset d \<longleftrightarrow> (\<forall>f n g i. drv_ioctl_reset d = Some f \<longrightarrow> group_inv pos_wf n g \<longrightarrow> i < n \<longrightarrow>
     (\<exists>r g'. f i g = Some (r, g') \<and> (r < 0 \<longrightarrow> group_inv pos_wf n g') \<and>
       (\<not> r < 0 \<longrightarrow> (\<exists>h w k. group_inv pos_wf n k \<and> unat h < unat (buffer_size (k ! i)) \<and>
          g' = upd i (\<lambda>s. s\<lparr>hw_ptr := h, hw_ptr_wrap := w\<rparr>) k))))"

lemma good_reset_lib [simp]: "good_reset (lib_ioctl d)"
  by (simp add: good_reset_def lib_ioctl_def)

lemma pos_wf_rewind:
  assumes "pos_wf s" "unat h < unat (buffer_size s)"
  shows "pos_wf (s\<lparr>hw_ptr := h, hw_ptr_base := 0, silence_filled := 0\<rparr>)"
    "pos_wf (s\<lparr>hw_ptr := h, hw_ptr_base := 0, silence_filled := 0, appl_ptr := h\<rparr>)"
  using assms by (auto simp: pos_wf_def ring_wf_def timed_def)

definition reset_fields :: "pcm_stream \<Rightarrow> pcm_stream" where
  "reset_fields s = s\<lparr>hw_ptr_base := 0, hw_ptr_interrupt := hw_ptr s - hw_ptr s mod period_size s,
     silence_start := hw_ptr s, silence_filled := 0\<rparr>"

lemma reset_fields_inv:
  assumes "group_inv pos_wf n g" "i < n" "unat h < unat (buffer_size (g ! i))"
  shows "group_inv pos_wf n (upd i reset_fields (upd i (\<lambda>s. s\<lparr>hw_ptr := h, hw_ptr_wrap := w\<rparr>) g))"
proof -
  have "pos_wf (reset_fields ((g ! i)\<lparr>hw_ptr := h, hw_ptr_wrap := w\<rparr>))"
    using assms(3) group_inv_nth [OF assms(1,2)] by (simp add: reset_fields_def pos_wf_def ring_wf_def timed_def)
  moreover have "upd i f (upd i k g) = upd i (\<lambda>s. f (k s)) g" for f k
    using assms(1,2) by (simp add: upd_def group_inv_def)
  ultimately show ?thesis using assms(1) by (auto intro!: group_inv_upd)
qed

lemma ops_ioctl_reset_cases:
  assumes "group_inv pos_wf n g" "i < n" "good_reset d"
  shows "\<exists>r g'. ops_ioctl_reset d i g = Some (r, g') \<and> (r < 0 \<longrightarrow> group_inv pos_wf n g') \<and>
     (\<not> r < 0 \<longrightarrow> (\<exists>h w k. group_inv pos_wf n k \<and> unat h < unat (buffer_size (k ! i)) \<and>
        g' = upd i (\<lambda>s. s\<lparr>hw_ptr := h, hw_ptr_wrap := w\<rparr>) k))"
proof (cases "drv_ioctl_reset d")
  case (Some f)
  then show ?thesis using assms unfolding good_reset_def ops_ioctl_reset_def by simp
next
  case None
  have b: "buffer_size (k ! i) \<noteq> 0" "unat (0 :: u32) < unat (buffer_size (k ! i))" if "group_inv pos_wf n k" for k
    using group_inv_nth [OF that assms(2)] by (auto simp: pos_wf_def ring_wf_def)
  have cleared: "\<exists>h w k'. group_inv pos_wf n k' \<and> unat h < unat (buffer_size (k' ! i)) \<and>
      upd i (\<lambda>s. s\<lparr>hw_ptr := 0, hw_ptr_wrap := 0\<rparr>) k = upd i (\<lambda>s. s\<lparr>hw_ptr := h, hw_ptr_wrap := w\<rparr>) k'"
    if "group_inv pos_wf n k" for k
    using that b(2) [OF that] by (intro exI [of _ 0] exI [of _ k]) simp
  have e: "ops_ioctl_reset d i g = snd_pcm_lib_ioctl_reset d i g" by (simp add: ops_ioctl_reset_def None)
  show ?thesis
  proof (cases "snd_pcm_running (g ! i)")
    case False
    then show ?thesis using e cleared [OF assms(1)] by (simp add: snd_pcm_lib_ioctl_reset_def)
  next
    case True
    obtain r k where u: "snd_pcm_update_hw_ptr d i g = Some (r, k)" "group_inv pos_wf n k"
      using update_hw_ptr0_inv [OF assms(1,2), of d False] by (auto simp: snd_pcm_update_hw_ptr_def)
    show ?thesis
    proof (cases "r < 0")
      case r: True
      then show ?thesis using True e u(1) cleared [OF u(2)] by (simp add: snd_pcm_lib_ioctl_reset_def)
    next
      case False
      let ?h = "hw_ptr (k ! i) mod buffer_size (k ! i)"
      have "upd i (\<lambda>s. s\<lparr>hw_ptr := hw_ptr s mod buffer_size s\<rparr>) k =
          upd i (\<lambda>s. s\<lparr>hw_ptr := ?h, hw_ptr_wrap := hw_ptr_wrap (k ! i)\<rparr>) k"
        by (simp add: upd_def)
      moreover have "unat ?h < unat (buffer_size (k ! i))"
        using b(2) [OF u(2)] by (simp add: unat_mod_distrib)
      ultimately have "\<exists>h w k'. group_inv pos_wf n k' \<and> unat h < unat (buffer_size (k' ! i)) \<and>
          upd i (\<lambda>s. s\<lparr>hw_ptr := hw_ptr s mod buffer_size s\<rparr>) k = upd i (\<lambda>s. s\<lparr>hw_ptr := h, hw_ptr_wrap := w\<rparr>) k'"
        using u(2) by blast
      moreover have "snd_pcm_lib_ioctl_reset d i g = Some (0, upd i (\<lambda>s. s\<lparr>hw_ptr := hw_ptr s mod buffer_size s\<rparr>) k)"
        using True False u b(1) [OF u(2)] by (simp add: snd_pcm_lib_ioctl_reset_def)
      ultimately show ?thesis unfolding e by simp
    qed
  qed
qed

lemma do_reset_inv:
  assumes "group_inv pos_wf n g" "i < n" "good_reset d"
  shows "\<exists>r g'. snd_pcm_do_reset d i g = Some (r, g') \<and> group_inv pos_wf n g'"
proof -
  obtain r g' where o': "ops_ioctl_reset d i g = Some (r, g')" "r < 0 \<longrightarrow> group_inv pos_wf n g'"
    "\<not> r < 0 \<longrightarrow> (\<exists>h w k. group_inv pos_wf n k \<and> unat h < unat (buffer_size (k ! i)) \<and>
        g' = upd i (\<lambda>s. s\<lparr>hw_ptr := h, hw_ptr_wrap := w\<rparr>) k)"
    using ops_ioctl_reset_cases [OF assms] by blast
  show ?thesis
  proof (cases "r < 0")
    case True
    then show ?thesis using o' by (simp add: snd_pcm_do_reset_def)
  next
    case False
    then obtain h w k where k: "group_inv pos_wf n k" "unat h < unat (buffer_size (k ! i))"
        "g' = upd i (\<lambda>s. s\<lparr>hw_ptr := h, hw_ptr_wrap := w\<rparr>) k"
      using o'(3) by blast
    have "i < length k" "period_size (k ! i) \<noteq> 0"
      using k(1) assms(2) group_inv_nth [OF k(1) assms(2)] by (simp_all add: group_inv_def pos_wf_def)
    then have "snd_pcm_do_reset d i g = Some (0, upd i reset_fields g')"
      using o'(1) False k(3) by (simp add: snd_pcm_do_reset_def reset_fields_def [abs_def])
    then show ?thesis using reset_fields_inv [OF k(1) assms(2) k(2), of w] k(3) by simp
  qed
qed

lemma pos_wf_appl_ptr: "pos_wf s \<Longrightarrow> unat a < unat (boundary s) \<Longrightarrow> pos_wf (s\<lparr>appl_ptr := a\<rparr>)"
  by (simp add: pos_wf_def ring_wf_def timed_def)

lemma pos_wf_hw_ptr: "pos_wf s \<Longrightarrow> unat (hw_ptr s) < unat (boundary s)"
  by (simp add: pos_wf_def ring_wf_def)

lemma reset_inv_action:
  assumes "good_reset d"
  shows "inv_action (snd_pcm_action_reset d) pos_wf"
proof (unfold_locales, goal_cases)
  case (1 n g i)
  then show ?case by (simp add: snd_pcm_action_reset_def snd_pcm_pre_reset_def)
next
  case (2 n g i)
  then show ?case using do_reset_inv assms by (fastforce simp: snd_pcm_action_reset_def)
next
  case (4 n g i)
  have "group_inv pos_wf n (upd i (\<lambda>s. s\<lparr>appl_ptr := hw_ptr s\<rparr>) g)"
    using 4(1) by (intro group_inv_upd_same pos_wf_appl_ptr pos_wf_hw_ptr)
  then show ?case using fill_if_playback_inv 4(2) by (simp add: snd_pcm_action_reset_def snd_pcm_post_reset_def)
qed (simp_all add: snd_pcm_action_reset_def)

lemma prepare_inv_action:
  assumes "good_reset d"
  shows "inv_action (snd_pcm_action_prepare d flags) pos_wf"
proof (unfold_locales, goal_cases)
  case (1 n g i)
  then show ?case by (auto simp: snd_pcm_action_prepare_def snd_pcm_pre_prepare_def intro: group_inv_upd_same)
next
  case (2 n g i)
  then have "group_inv pos_wf n (upd i snd_pcm_sync_stop g)" by (auto intro: group_inv_upd_same)
  then show ?case using do_reset_inv [of n "upd i snd_pcm_sync_stop g" i d] 2(2) assms
    by (auto simp: snd_pcm_action_prepare_def snd_pcm_do_prepare_def Let_def)
next
  case (4 n g i)
  show ?case using 4(1)
    by (auto simp: snd_pcm_action_prepare_def snd_pcm_post_prepare_def
        intro!: group_inv_upd_same pos_wf_appl_ptr pos_wf_hw_ptr)
qed (simp_all add: snd_pcm_action_prepare_def)

interpretation reset_inv: inv_action "snd_pcm_action_reset (lib_ioctl d)" pos_wf
  by (rule reset_inv_action) simp

interpretation prepare_inv: inv_action "snd_pcm_action_prepare (lib_ioctl d) flags" pos_wf
  by (rule prepare_inv_action) simp

lemma drain_switch_inv:
  assumes "group_inv pos_wf n g" "i < n"
  shows "\<exists>g'. drain_switch d i g = Some g' \<and> group_inv pos_wf n g'"
proof -
  have to: "group_inv pos_wf n (upd i (\<lambda>s. s\<lparr>state := st\<rparr>) g)" for st
    using assms(1) by (rule group_inv_upd_same) simp
  obtain g1 where s: "snd_pcm_post_start d STATE_DRAINING i (snd (snd_pcm_do_start d i g)) = Some g1"
    "group_inv pos_wf n g1"
    using post_start_inv [OF do_start_inv [OF assms(1)] assms(2)] by blast
  have "group_inv pos_wf n (snd (snd_pcm_do_stop d i g))"
    using assms(1) by (auto simp: snd_pcm_do_stop_def Let_def split_beta intro!: group_inv_intros)
  then have p: "group_inv pos_wf n (snd_pcm_post_stop st i (snd (snd_pcm_do_stop d i g)))" for st
    by (auto simp: snd_pcm_post_stop_def Let_def intro!: group_inv_intros)
  show ?thesis
    by (cases "state (g ! i)") (simp_all add: drain_switch_def Let_def to s p assms(1))
qed

interpretation drain_inv: inv_action "snd_pcm_action_drain_init d" pos_wf
proof (unfold_locales, goal_cases)
  case (1 n g i)
  then show ?case by (auto simp: snd_pcm_action_drain_init_def snd_pcm_pre_drain_init_def
      intro!: group_inv_upd_same)
next
  case (2 n g i)
  then obtain g1 where "drain_switch d i g = Some g1" "group_inv pos_wf n g1"
    using drain_switch_inv by blast
  then show ?case using trigger_inv [of n g1 d i TRIGGER_DRAIN]
    by (cases "trigger d i TRIGGER_DRAIN g1")
      (auto simp: snd_pcm_action_drain_init_def snd_pcm_do_drain_init_def)
qed (simp_all add: snd_pcm_action_drain_init_def)

section \<open>The value of the pointer\<close>

lemma stop_keeps_hw:
  assumes "i < length g"
  shows "\<exists>g'. pcm_xrun d i g = Some g' \<and> map hw_ptr g' = map hw_ptr g"
    "\<exists>r g'. snd_pcm_drain_done d i g = Some (r, g') \<and> map hw_ptr g' = map hw_ptr g"
proof -
  have keep: "map hw_ptr g' = map hw_ptr g"
    if "map settings g' = map f g" "\<And>s. hw_ptr (f s) = hw_ptr s" for g' and f :: "pcm_stream \<Rightarrow> pcm_stream"
    using arg_cong [OF that(1), of "map hw_ptr"] that(2) by (simp add: o_def)
  obtain r g' where a: "snd_pcm_action (snd_pcm_action_stop d STATE_XRUN) i g = Some (r, g')"
    "map settings g' = map settings g \<or> map settings g' = map (\<lambda>s. (settings s)\<lparr>state := STATE_XRUN\<rparr>) g"
    using stop.action_decided [OF assms, of d STATE_XRUN] by (auto split: option.splits)
  have "map hw_ptr g' = map hw_ptr g" using a(2) by (rule disjE) (erule keep, simp)+
  then show "\<exists>g'. pcm_xrun d i g = Some g' \<and> map hw_ptr g' = map hw_ptr g"
    using a(1) by (simp add: pcm_xrun_def snd_pcm_stop_def)
  obtain r g' where b: "snd_pcm_drain_done d i g = Some (r, g')"
    "map settings g' = map settings g \<or>
     map settings g' = (map settings g)[i := (settings (g ! i))\<lparr>state := STATE_SETUP\<rparr>]"
    using stop.action_single_switches [OF assms, of d STATE_SETUP] by (auto simp: snd_pcm_drain_done_def)
  have "map hw_ptr ((map settings g)[i := (settings (g ! i))\<lparr>state := STATE_SETUP\<rparr>]) = map hw_ptr g"
  proof -
    have "(map hw_ptr g)[i := hw_ptr (g ! i)] = map hw_ptr g"
      using assms list_update_id [of "map hw_ptr g" i] by simp
    then show ?thesis by (simp add: map_update o_def)
  qed
  moreover have "map hw_ptr g' = map hw_ptr (map settings g')" by simp
  ultimately have "map hw_ptr g' = map hw_ptr g" using b(2) by (metis keep settings_simps(18))
  then show "\<exists>r g'. snd_pcm_drain_done d i g = Some (r, g') \<and> map hw_ptr g' = map hw_ptr g"
    using b(1) by blast
qed

lemma update_state_keeps_hw:
  assumes "i < length g" "snd_pcm_update_state d i g = Some (r, g')"
  shows "map hw_ptr g' = map hw_ptr g"
proof -
  let ?av = "snd_pcm_avail (g ! i)"
  let ?g = "upd i (\<lambda>s. if ?av > avail_max s then s\<lparr>avail_max := ?av\<rparr> else s) g"
  have g: "map hw_ptr ?g = map hw_ptr g" by (rule map_upd_same) simp
  have "map hw_ptr (upd i (\<lambda>s. s\<lparr>tsleep_wakeups := Suc (tsleep_wakeups s)\<rparr>) ?g) = map hw_ptr ?g"
    "map hw_ptr (upd i (\<lambda>s. s\<lparr>sleep_wakeups := Suc (sleep_wakeups s)\<rparr>) ?g) = map hw_ptr ?g"
    by (rule map_upd_same, simp)+
  with g assms(2) stop_keeps_hw [of i ?g d] assms(1) show ?thesis
    unfolding snd_pcm_update_state_def Let_def by (auto split: if_splits)
qed

lemma commit_ptr_hw:
  assumes g: "group_inv pos_wf n g" and i: "i < n" and v: "unat (new_hw_ptr v) < unat (boundary (g ! i))"
    and c: "commit_ptr d False v i g = Some (r, g')"
  shows "hw_ptr (g' ! i) = new_hw_ptr v"
proof (cases "hw_ptr (g ! i) = new_hw_ptr v")
  case True
  then show ?thesis using c g i by (auto simp: commit_ptr_def group_inv_def)
next
  case False
  let ?s = "g ! i"
  have wf: "pos_wf ?s" using group_inv_nth [OF g i] .
  obtain t where t: "(if playback ?s \<and> silence_size ?s > 0 then snd_pcm_playback_silence (new_hw_ptr v) ?s
      else Some ?s) = Some t"
    using silence_advance_returns [of ?s "new_hw_ptr v"] wf v unfolding pos_wf_def
    by (cases "playback ?s \<and> silence_size ?s > 0") auto
  obtain u where u: "hw_ptr u = new_hw_ptr v" "snd_pcm_update_state d i (g[i := u]) = Some (r, g')"
  proof
    let ?u = "t\<lparr>hw_ptr_base := hw_base v, hw_ptr := new_hw_ptr v, hw_ptr_jiffies := jiffies d\<rparr>"
    let ?w = "if crossed v \<noteq> 0 then ?u\<lparr>hw_ptr_wrap := hw_ptr_wrap ?u + ucast (boundary ?u)\<rparr> else ?u"
    show "hw_ptr ?w = new_hw_ptr v" by simp
    show "snd_pcm_update_state d i (g[i := ?w]) = Some (r, g')"
      using c False t unfolding commit_ptr_def Let_def by (simp cong: if_cong)
  qed
  have len: "i < length (g[i := u])" using g i by (simp add: group_inv_def)
  have "map hw_ptr g' = map hw_ptr (g[i := u])" using update_state_keeps_hw [OF len u(2)] .
  then have "map hw_ptr g' ! i = hw_ptr u" using len by simp
  moreover have "i < length g'"
    using arg_cong [OF \<open>map hw_ptr g' = _\<close>, of length] len by simp
  ultimately show ?thesis using u(1) by simp
qed

section \<open>Properties\<close>

text \<open>
  C25. The pointer update is exact: as long as the hardware moves by less than a buffer between two
  calls, \<^verbatim>\<open>snd_pcm_update_hw_ptr\<close> returns 0 or \<^verbatim>\<open>-EPIPE\<close> and advances the hardware pointer by exactly
  the frames played, modulo the boundary: the distance from its old position in the ring to the
  position the driver reports, which counts as 0 when it lies outside the buffer and is rounded
  down to \<^verbatim>\<open>min_align\<close> otherwise. The stream satisfies the invariant \<open>pos_wf\<close> (the ring moderate, its pointers
  in place, no zero size; without period interrupts the buffer lasts at least one jiffy), a period is not longer
  than the buffer and the driver does not report an overrun. For a stream without period interrupts less than half of
  the buffer time in jiffies has passed since the last update.
\<close>

theorem hw_ptr_update_exact:
  assumes "group_inv pos_wf n g" "i < n"
    and "drv_pointer d i \<noteq> SNDRV_PCM_POS_XRUN"
    and "unat (period_size (g ! i)) \<le> unat (buffer_size (g ! i))"
    and "no_period_wakeup (g ! i) \<longrightarrow> jiffies d - hw_ptr_jiffies (g ! i) < hw_ptr_buffer_jiffies (g ! i) div 2"
  shows "\<exists>r g'. snd_pcm_update_hw_ptr d i g = Some (r, g') \<and> r \<in> {0, - EPIPE} \<and>
     unat (hw_ptr (g' ! i)) =
       (let pos = unat (drv_pointer d i); sz = unat (buffer_size (g ! i)); ptr = unat (hw_ptr (g ! i));
            pos = (if sz \<le> pos then 0 else pos - pos mod unat (min_align (g ! i)))
        in (ptr + (pos + sz - ptr mod sz) mod sz) mod unat (boundary (g ! i)))"
proof -
  let ?s = "g ! i" and ?pos = "taken_pos d i (g ! i)"
  have wf: "pos_wf ?s" using group_inv_nth [OF assms(1,2)] .
  then have p: "unat ?pos < unat (buffer_size ?s)" using taken_pos_less [of ?s d i] by (simp add: pos_wf_def)
  have pos: "unat ?pos = (if unat (buffer_size ?s) \<le> unat (drv_pointer d i) then 0
      else unat (drv_pointer d i) - unat (drv_pointer d i) mod unat (min_align ?s))"
    by (simp add: taken_pos_def Let_def word_le_nat_alt unat_sub32 unat_mod_distrib)
  define v where "v = ptr_position ?s False ?pos (jiffies d)"
  note nat = ptr_position_nat [OF wf p v_def] and exact = ptr_position_exact [OF wf p v_def]
  have b: "0 < unat (buffer_size ?s)" "unat (buffer_size ?s) < 1073741824"
    using wf by (auto simp: pos_wf_def ring_wf_def)
  have "unat (delta v) < unat (buffer_size ?s)" unfolding exact(2) using b(1) by simp
  then have d: "\<not> delta v \<ge> buffer_size ?s + period_size ?s"
    using assms(4) b(2) by (simp add: word_le_nat_alt unat_add32)
  have "snd_pcm_update_hw_ptr d i g = commit_ptr d False v i g"
    using assms(3,5) d unfolding snd_pcm_update_hw_ptr_def update_hw_ptr0_cases [OF wf, of d False] Let_def
      v_def [symmetric] by auto
  moreover obtain r g' where "commit_ptr d False v i g = Some (r, g')" "r \<in> {0, - EPIPE}"
    using commit_ptr_inv [OF assms(1,2) nat(1,2) p nat(3)] by blast
  moreover from this have "hw_ptr (g' ! i) = new_hw_ptr v"
    using commit_ptr_hw [OF assms(1,2) nat(3)] by blast
  ultimately show ?thesis using exact(1) by (simp add: pos Let_def)
qed

lemma sample_pos_wf: "pos_wf sample_stream"
  by (simp add: pos_wf_def ring_wf_def sample_stream_def)

theorem hw_ptr_update_exact_witness:
  "\<exists>r g'. snd_pcm_update_hw_ptr (sample_driver\<lparr>drv_pointer := \<lambda>_. 5\<rparr>) 0 [sample_stream\<lparr>min_align := 4\<rparr>] =
       Some (r, g') \<and> unat (hw_ptr (g' ! 0)) = 4"
proof -
  have "group_inv pos_wf 1 [sample_stream\<lparr>min_align := 4\<rparr>]"
    using sample_pos_wf by (simp add: group_inv_def pos_wf_def ring_wf_def timed_def)
  then show ?thesis
    using hw_ptr_update_exact [of 1 "[sample_stream\<lparr>min_align := 4\<rparr>]" 0 "sample_driver\<lparr>drv_pointer := \<lambda>_. 5\<rparr>"]
    by (auto simp: sample_stream_def)
qed

lemma skip_buffers_stuck:
  assumes "hw_ptr_buffer_jiffies s = 0" "sint h > 1"
  shows "skip_buffers s pos h v = None"
proof -
  have "\<not> (hw_ptr_buffer_jiffies s = 0 \<and> sint h > 1)" if "skip_buffers s pos h v = Some v'" for s pos h v v'
    using that
    by (rule skip_buffers.raw_induct [where P = "\<lambda>s pos h v r. \<not> (hw_ptr_buffer_jiffies s = 0 \<and> sint h > 1)", rotated])
      (auto split: if_splits)
  then show ?thesis using assms by (cases "skip_buffers s pos h v") auto
qed

text \<open>
  C40. The loop of \<^verbatim>\<open>snd_pcm_update_hw_ptr0\<close> for streams without period interrupts ends if and only if
  there is something to subtract: for any buffer time of at least one jiffy it returns, but when the
  buffer is shorter than one jiffy (\<^verbatim>\<open>buffer_size * HZ < rate\<close>, so \<^verbatim>\<open>hw_ptr_buffer_jiffies\<close> is 0) and
  more than one jiffy is unaccounted for it never ends.
\<close>

theorem skip_loop_termination:
  "(0 < unat (hw_ptr_buffer_jiffies s) \<and> unat (hw_ptr_buffer_jiffies s) < 2 ^ 31 \<longrightarrow>
      (\<exists>v'. skip_buffers s pos h v = Some v')) \<and>
   (hw_ptr_buffer_jiffies s = 0 \<and> sint h > 1 \<longrightarrow> skip_buffers s pos h v = None)"
  using skip_buffers_ends [of s pos h v] skip_buffers_stuck [of s h pos v] by simp

theorem skip_loop_termination_witness:
  "skip_buffers (sample_stream\<lparr>hw_ptr_buffer_jiffies := 0\<rparr>) 0 2 \<lparr>hw_base = 0, new_hw_ptr = 0, delta = 0, crossed = 0\<rparr> = None"
  using skip_loop_termination [of "sample_stream\<lparr>hw_ptr_buffer_jiffies := 0\<rparr>" 0 2] by simp
end
