(* ===== verification/PcmXfer.thy ===== *)
theory PcmXfer
  imports PcmPointer
begin

text \<open>
  Moving the application pointer and the data: \<^verbatim>\<open>pcm_lib_apply_appl_ptr\<close>, \<^verbatim>\<open>wait_for_avail\<close> and
  \<^verbatim>\<open>__snd_pcm_lib_xfer\<close> of \<^verbatim>\<open>core/pcm_lib.c\<close>, forward, rewind, hwsync, delay and sync_ptr of
  \<^verbatim>\<open>core/pcm_native.c\<close>, and the period interrupt. What interrupts and other callers do to the group
  while the stream lock is released is part of the input: a list of \<open>drain_turn\<close>s, one for each
  release of the lock. A transfer that has used them up is still waiting and has no result
  (\<open>None\<close>).
\<close>

section \<open>Application pointer\<close>

definition pcm_lib_apply_appl_ptr :: "pcm_driver \<Rightarrow> u32 \<Rightarrow> nat \<Rightarrow> pcm_group \<Rightarrow> int \<times> pcm_group" where
  "pcm_lib_apply_appl_ptr d new i g =
     (if appl_ptr (g ! i) = new then (0, g)
      else
        let g' = upd i (\<lambda>s. s\<lparr>appl_ptr := new\<rparr>) g
        in case drv_ack d of
             None \<Rightarrow> (0, g')
           | Some ack \<Rightarrow> let ret = ack i (g' ! i) in if ret < 0 then (ret, g) else (0, g'))"

definition do_pcm_hwsync :: "pcm_driver \<Rightarrow> nat \<Rightarrow> pcm_group \<Rightarrow> (int \<times> pcm_group) option" where
  "do_pcm_hwsync d i g =
     (case state (g ! i) of
        STATE_DRAINING \<Rightarrow> if \<not> playback (g ! i) then Some (- EBADFD, g) else snd_pcm_update_hw_ptr d i g
      | STATE_RUNNING \<Rightarrow> snd_pcm_update_hw_ptr d i g
      | STATE_PREPARED \<Rightarrow> Some (0, g)
      | STATE_PAUSED \<Rightarrow> Some (0, g)
      | STATE_SUSPENDED \<Rightarrow> Some (- ESTRPIPE, g)
      | STATE_XRUN \<Rightarrow> Some (- EPIPE, g)
      | _ \<Rightarrow> Some (- EBADFD, g))"

text \<open>The result is the number of frames or a negative error; \<open>avail\<close> is a signed value.\<close>

definition forward_appl_ptr :: "pcm_driver \<Rightarrow> u32 \<Rightarrow> u32 \<Rightarrow> nat \<Rightarrow> pcm_group \<Rightarrow> int \<times> pcm_group" where
  "forward_appl_ptr d frames avail i g =
     (if sint avail \<le> 0 then (0, g)
      else
        let frames = (if frames > avail then avail else frames);
            new = appl_ptr (g ! i) + frames;
            new = (if sint new \<ge> sint (boundary (g ! i)) then new - boundary (g ! i) else new);
            (ret, g) = pcm_lib_apply_appl_ptr d new i g
        in (if ret < 0 then ret else sint frames, g))"

definition rewind_appl_ptr :: "pcm_driver \<Rightarrow> u32 \<Rightarrow> u32 \<Rightarrow> nat \<Rightarrow> pcm_group \<Rightarrow> int \<times> pcm_group" where
  "rewind_appl_ptr d frames avail i g =
     (if sint avail \<le> 0 then (0, g)
      else
        let frames = (if frames > avail then avail else frames);
            new = appl_ptr (g ! i) - frames;
            new = (if sint new < 0 then new + boundary (g ! i) else new);
            (ret, g) = pcm_lib_apply_appl_ptr d new i g
        in (if ret < 0 then 0 else sint frames, g))"

definition snd_pcm_rewind :: "pcm_driver \<Rightarrow> u32 \<Rightarrow> nat \<Rightarrow> pcm_group \<Rightarrow> (int \<times> pcm_group) option" where
  "snd_pcm_rewind d frames i g =
     (if frames = 0 then Some (0, g)
      else
        case do_pcm_hwsync d i g of
          None \<Rightarrow> None
        | Some (ret, g) \<Rightarrow>
            Some (if ret = 0 then rewind_appl_ptr d frames (snd_pcm_hw_avail (g ! i)) i g else (ret, g)))"

definition snd_pcm_forward :: "pcm_driver \<Rightarrow> u32 \<Rightarrow> nat \<Rightarrow> pcm_group \<Rightarrow> (int \<times> pcm_group) option" where
  "snd_pcm_forward d frames i g =
     (if frames = 0 then Some (0, g)
      else
        case do_pcm_hwsync d i g of
          None \<Rightarrow> None
        | Some (ret, g) \<Rightarrow>
            Some (if ret = 0 then forward_appl_ptr d frames (snd_pcm_avail (g ! i)) i g else (ret, g)))"

definition snd_pcm_hwsync :: "pcm_driver \<Rightarrow> nat \<Rightarrow> pcm_group \<Rightarrow> (int \<times> pcm_group) option" where
  "snd_pcm_hwsync d i g = do_pcm_hwsync d i g"

definition snd_pcm_calc_delay :: "pcm_stream \<Rightarrow> u32" where
  "snd_pcm_calc_delay s =
     (if playback s then snd_pcm_playback_hw_avail s else snd_pcm_capture_avail s) + delay s"

text \<open>The value stored through the pointer is \<open>None\<close> when an error is returned.\<close>

definition snd_pcm_delay :: "pcm_driver \<Rightarrow> nat \<Rightarrow> pcm_group \<Rightarrow> (int \<times> int option \<times> pcm_group) option" where
  "snd_pcm_delay d i g =
     (case do_pcm_hwsync d i g of
        None \<Rightarrow> None
      | Some (err, g) \<Rightarrow>
          Some (err, if err = 0 then Some (sint (snd_pcm_calc_delay (g ! i))) else None, g))"

text \<open>\<^verbatim>\<open>struct snd_pcm_sync_ptr\<close> without the time stamps.\<close>

record sync_ptr =
  sp_flags :: u32
  sp_appl_ptr :: u32
  sp_avail_min :: u32
  sp_state :: pcm_state
  sp_hw_ptr :: u32
  sp_suspended_state :: pcm_state

definition snd_pcm_sync_ptr ::
  "pcm_driver \<Rightarrow> sync_ptr \<Rightarrow> nat \<Rightarrow> pcm_group \<Rightarrow> (int \<times> sync_ptr \<times> pcm_group) option" where
  "snd_pcm_sync_ptr d sp i g =
     (case (if sp_flags sp AND 1 \<noteq> 0 then snd_pcm_hwsync d i g else Some (0, g)) of
        None \<Rightarrow> None
      | Some (err, g) \<Rightarrow>
          if err < 0 then Some (err, sp, g)
          else
            let (err, sp, g) =
                  (if sp_flags sp AND 2 = 0
                   then let (err, g) = pcm_lib_apply_appl_ptr d (sp_appl_ptr sp) i g in (err, sp, g)
                   else (0, sp\<lparr>sp_appl_ptr := appl_ptr (g ! i)\<rparr>, g))
            in if err < 0 then Some (err, sp, g)
               else
                 let (sp, g) =
                       (if sp_flags sp AND 4 = 0
                        then (sp, upd i (\<lambda>s. s\<lparr>avail_min := sp_avail_min sp\<rparr>) g)
                        else (sp\<lparr>sp_avail_min := avail_min (g ! i)\<rparr>, g))
                 in Some (0, sp\<lparr>sp_state := state (g ! i), sp_hw_ptr := hw_ptr (g ! i),
                              sp_suspended_state := suspended_state (g ! i)\<rparr>, g))"

section \<open>The period interrupt\<close>

text \<open>
  \<^verbatim>\<open>snd_pcm_period_elapsed_under_stream_lock\<close>: the returned flag says whether the interrupted
  substream is recorded (and its timer run).
\<close>

definition snd_pcm_period_elapsed :: "pcm_driver \<Rightarrow> nat \<Rightarrow> pcm_group \<Rightarrow> (bool \<times> pcm_group) option" where
  "snd_pcm_period_elapsed d i g =
     (if \<not> snd_pcm_running (g ! i) then Some (False, g)
      else
        case snd_pcm_update_hw_ptr0 d True i g of
          None \<Rightarrow> None
        | Some (res, g) \<Rightarrow> Some (\<not> res < 0, g))"

section \<open>Transfer\<close>

definition pcm_sanity_check :: "pcm_stream \<Rightarrow> int" where
  "pcm_sanity_check s = (if state s = STATE_OPEN then - EBADFD else 0)"

definition pcm_accessible_state :: "pcm_stream \<Rightarrow> int" where
  "pcm_accessible_state s =
     (case state s of
        STATE_PREPARED \<Rightarrow> 0 | STATE_RUNNING \<Rightarrow> 0 | STATE_PAUSED \<Rightarrow> 0
      | STATE_XRUN \<Rightarrow> - EPIPE
      | STATE_SUSPENDED \<Rightarrow> - ESTRPIPE
      | _ \<Rightarrow> - EBADFD)"

text \<open>
  \<^verbatim>\<open>wait_for_avail\<close>: the status, the available frames, the turns left and the group. \<open>avail\<close> is
  the value of the last look at the pointers.
\<close>

fun wait_for_avail ::
  "nat \<Rightarrow> drain_turn list \<Rightarrow> u32 \<Rightarrow> pcm_group \<Rightarrow> (int \<times> u32 \<times> drain_turn list \<times> pcm_group) option" where
  "wait_for_avail i [] avail g = None"
| "wait_for_avail i (e # es) avail g =
     (if signalled e then Some (- ERESTARTSYS, avail, es, g)
      else
        let avail = snd_pcm_avail (g ! i)
        in if avail \<ge> twake (g ! i) then Some (0, avail, es, g)
           else
             let g = meanwhile e g
             in case state (g ! i) of
                  STATE_SUSPENDED \<Rightarrow> Some (- ESTRPIPE, avail, es, g)
                | STATE_XRUN \<Rightarrow> Some (- EPIPE, avail, es, g)
                | STATE_DRAINING \<Rightarrow>
                    if playback (g ! i) then Some (- EPIPE, avail, es, g) else Some (0, 0, es, g)
                | STATE_OPEN \<Rightarrow> Some (- EBADFD, avail, es, g)
                | STATE_SETUP \<Rightarrow> Some (- EBADFD, avail, es, g)
                | STATE_DISCONNECTED \<Rightarrow> Some (- EBADFD, avail, es, g)
                | STATE_PAUSED \<Rightarrow> wait_for_avail i es avail g
                | _ \<Rightarrow> if timed_out e then Some (- EIO, avail, es, g) else wait_for_avail i es avail g)"

text \<open>
  The local variables of \<^verbatim>\<open>__snd_pcm_lib_xfer\<close>, the group and the memory the writer works on. The
  writer is \<^verbatim>\<open>writer(substream, appl_ofs, data, offset, frames, transfer)\<close> with the data and the
  transfer function fixed.
\<close>

record 'm xfer_vars =
  x_group :: pcm_group
  x_mem :: 'm
  x_err :: int
  x_size :: u32
  x_offset :: u32
  x_xfer :: u32
  x_avail :: u32

type_synonym 'm pcm_writer = "u32 \<Rightarrow> u32 \<Rightarrow> u32 \<Rightarrow> 'm \<Rightarrow> int \<times> 'm"

definition min_twake :: "pcm_stream \<Rightarrow> u32" where
  "min_twake s = (if avail_min s \<noteq> 0 then avail_min s else 1)"

text \<open>The frames of the next copy: what is left, what is available and what fits before the wrap.\<close>

definition chunk_frames :: "pcm_stream \<Rightarrow> u32 \<Rightarrow> u32 \<Rightarrow> u32" where
  "chunk_frames s left avail =
     (let frames = (if left > avail then avail else left);
          cont = buffer_size s - appl_ptr s mod buffer_size s
      in if frames > cont then cont else frames)"

text \<open>
  One round of the loop after the available frames are known; the flag says whether the transfer
  goes on. The lock is released during the copy, when \<open>meanwhile e\<close> happens.
\<close>

definition xfer_chunk ::
  "pcm_driver \<Rightarrow> 'm pcm_writer \<Rightarrow> nat \<Rightarrow> drain_turn \<Rightarrow> 'm xfer_vars \<Rightarrow> (bool \<times> 'm xfer_vars) option" where
  "xfer_chunk d wr i e x =
     (let s = x_group x ! i
      in if buffer_size s = 0 then None
         else
           let frames = chunk_frames s (x_size x) (x_avail x);
               appl = appl_ptr s;
               (err, mem) = wr (appl mod buffer_size s) (x_offset x) frames (x_mem x);
               g = meanwhile e (x_group x);
               x = x\<lparr>x_mem := mem, x_group := g, x_err := err\<rparr>
           in if err < 0 then Some (False, x)
              else
                let err = pcm_accessible_state (g ! i); x = x\<lparr>x_err := err\<rparr>
                in if err < 0 then Some (False, x)
                   else
                     let appl = appl + frames;
                         appl = (if appl \<ge> boundary (g ! i) then appl - boundary (g ! i) else appl);
                         (err, g) = pcm_lib_apply_appl_ptr d appl i g;
                         x = x\<lparr>x_err := err, x_group := g\<rparr>
                     in if err < 0 then Some (False, x)
                        else
                          let x = x\<lparr>x_offset := x_offset x + frames, x_size := x_size x - frames,
                                    x_xfer := x_xfer x + frames, x_avail := x_avail x - frames\<rparr>
                          in if playback (g ! i) \<and> state (g ! i) = STATE_PREPARED \<and>
                                sint (snd_pcm_playback_hw_avail (g ! i)) \<ge> sint (start_threshold (g ! i))
                             then
                               (case snd_pcm_start d i g of
                                  None \<Rightarrow> None
                                | Some (err, g) \<Rightarrow> Some (\<not> err < 0, x\<lparr>x_err := err, x_group := g\<rparr>))
                             else Some (True, x))"

lemma wait_for_avail_shorter:
  "wait_for_avail i es avail g = Some (err, avail', es', g') \<Longrightarrow> length es' < length es"
proof (induction i es avail g rule: wait_for_avail.induct)
  case (2 i e es avail g)
  then show ?case
    by (auto simp: Let_def less_SucI split: if_splits pcm_state.splits)
qed simp

text \<open>
  What \<open>if (!avail)\<close> does: \<open>Inl\<close> when the transfer is over, otherwise the turns and variables with
  which the round goes on (no frames available means \<^verbatim>\<open>continue\<close>).
\<close>

definition xfer_wait ::
  "pcm_driver \<Rightarrow> bool \<Rightarrow> nat \<Rightarrow> drain_turn list \<Rightarrow> 'm xfer_vars \<Rightarrow>
   ('m xfer_vars + drain_turn list \<times> 'm xfer_vars) option" where
  "xfer_wait d nonblock i es x =
     (let s = x_group x ! i
      in if x_avail x \<noteq> 0 then Some (Inr (es, x))
         else if \<not> playback s \<and> state s = STATE_DRAINING then
           map_option (\<lambda>r. Inl (x\<lparr>x_group := snd r\<rparr>)) (snd_pcm_stop d STATE_SETUP i (x_group x))
         else if nonblock then Some (Inl (x\<lparr>x_err := - EAGAIN\<rparr>))
         else
           let g = upd i (\<lambda>s. s\<lparr>twake := min_twake s\<rparr>) (x_group x)
           in case wait_for_avail i es 0 g of
                None \<Rightarrow> None
              | Some (err, avail, es', g) \<Rightarrow>
                  let x = x\<lparr>x_err := err, x_avail := avail, x_group := g\<rparr>
                  in Some (if err < 0 then Inl x else Inr (es', x)))"

text \<open>One round of the \<^verbatim>\<open>while (size > 0)\<close> loop.\<close>

definition xfer_round ::
  "pcm_driver \<Rightarrow> 'm pcm_writer \<Rightarrow> bool \<Rightarrow> nat \<Rightarrow> drain_turn list \<Rightarrow> 'm xfer_vars \<Rightarrow>
   ('m xfer_vars + drain_turn list \<times> 'm xfer_vars) option" where
  "xfer_round d wr nonblock i es x =
     (case xfer_wait d nonblock i es x of
        None \<Rightarrow> None
      | Some (Inl x) \<Rightarrow> Some (Inl x)
      | Some (Inr (es, x)) \<Rightarrow>
          if x_avail x = 0 then Some (Inr (es, x))
          else
            (case es of
               [] \<Rightarrow> None
             | e # es \<Rightarrow>
                 (case xfer_chunk d wr i e x of
                    None \<Rightarrow> None
                  | Some (go, x) \<Rightarrow> Some (if go then Inr (es, x) else Inl x))))"

lemma xfer_round_shorter:
  assumes "xfer_round d wr nonblock i es x = Some (Inr (es', x'))"
  shows "length es' < length es"
proof (cases "x_avail x = 0")
  case False
  then show ?thesis using assms
    by (auto simp: xfer_round_def xfer_wait_def Let_def split: list.splits option.splits prod.splits if_splits)
next
  case True
  obtain es1 x1 where w: "xfer_wait d nonblock i es x = Some (Inr (es1, x1))"
    using assms by (auto simp: xfer_round_def split: option.splits sum.splits)
  then have "length es1 < length es" using True
    by (auto simp: xfer_wait_def Let_def split: option.splits prod.splits if_splits dest: wait_for_avail_shorter)
  then show ?thesis using assms w
    by (auto simp: xfer_round_def split: list.splits option.splits prod.splits if_splits)
qed

function xfer_loop ::
  "pcm_driver \<Rightarrow> 'm pcm_writer \<Rightarrow> bool \<Rightarrow> nat \<Rightarrow> drain_turn list \<Rightarrow> 'm xfer_vars \<Rightarrow> 'm xfer_vars option" where
  "xfer_loop d wr nonblock i es x =
     (if x_size x = 0 then Some x
      else
        case xfer_round d wr nonblock i es x of
          None \<Rightarrow> None
        | Some (Inl x') \<Rightarrow> Some x'
        | Some (Inr (es', x')) \<Rightarrow> xfer_loop d wr nonblock i es' x')"
  by pat_completeness auto

termination
  by (relation "measure (\<lambda>(d, wr, nb, i, es, x). length es)") (auto dest: xfer_round_shorter)

declare xfer_loop.simps [simp del]

text \<open>
  \<^verbatim>\<open>__snd_pcm_lib_xfer\<close>. \<open>acc\<close> and \<open>channels\<close> are \<^verbatim>\<open>runtime->access\<close> and \<^verbatim>\<open>runtime->channels\<close>,
  \<open>data\<close> says whether a buffer was given.
\<close>

abbreviation (input) ACCESS_RW_INTERLEAVED :: nat where "ACCESS_RW_INTERLEAVED \<equiv> 3"
abbreviation (input) ACCESS_RW_NONINTERLEAVED :: nat where "ACCESS_RW_NONINTERLEAVED \<equiv> 4"

definition xfer_check :: "pcm_stream \<Rightarrow> nat \<Rightarrow> u32 \<Rightarrow> bool \<Rightarrow> bool \<Rightarrow> int" where
  "xfer_check s acc channels interleaved data =
     (if pcm_sanity_check s < 0 then pcm_sanity_check s
      else if interleaved \<and> acc \<noteq> ACCESS_RW_INTERLEAVED \<and> channels > 1 then - EINVAL
      else if \<not> interleaved \<and> acc \<noteq> ACCESS_RW_NONINTERLEAVED then - EINVAL
      else if \<not> data \<and> \<not> playback s then - EINVAL
      else 0)"

text \<open>The label \<^verbatim>\<open>_end_unlock\<close>; the status of the last update is ignored.\<close>

definition xfer_finish :: "pcm_driver \<Rightarrow> nat \<Rightarrow> 'm xfer_vars \<Rightarrow> (int \<times> 'm \<times> pcm_group) option" where
  "xfer_finish d i x =
     (let g = upd i (\<lambda>s. s\<lparr>twake := 0\<rparr>) (x_group x);
          ret = (if x_xfer x > 0 then sint (x_xfer x) else x_err x)
      in if x_xfer x > 0 \<and> x_err x \<ge> 0
         then map_option (\<lambda>r. (ret, x_mem x, snd r)) (snd_pcm_update_state d i g)
         else Some (ret, x_mem x, g))"

text \<open>From the lock to the first look at the available frames.\<close>

definition xfer_begin ::
  "pcm_driver \<Rightarrow> u32 \<Rightarrow> nat \<Rightarrow> pcm_group \<Rightarrow> (int \<times> pcm_group) option" where
  "xfer_begin d n i g =
     (let g = upd i (\<lambda>s. s\<lparr>twake := min_twake s\<rparr>) g
      in case (if state (g ! i) = STATE_RUNNING then map_option snd (snd_pcm_update_hw_ptr d i g)
               else Some g) of
           None \<Rightarrow> None
         | Some g \<Rightarrow>
             if \<not> playback (g ! i) \<and> state (g ! i) = STATE_PREPARED \<and> n \<ge> start_threshold (g ! i)
             then snd_pcm_start d i g
             else Some (0, g))"

definition snd_pcm_lib_xfer ::
  "pcm_driver \<Rightarrow> 'm pcm_writer \<Rightarrow> nat \<Rightarrow> u32 \<Rightarrow> bool \<Rightarrow> bool \<Rightarrow> u32 \<Rightarrow> drain_turn list \<Rightarrow>
   nat \<Rightarrow> 'm \<Rightarrow> pcm_group \<Rightarrow> (int \<times> 'm \<times> pcm_group) option" where
  "snd_pcm_lib_xfer d wr acc channels interleaved data n es i mem g =
     (let err = xfer_check (g ! i) acc channels interleaved data;
          nonblock = (f_flags (g ! i) AND O_NONBLOCK \<noteq> 0);
          vars = (\<lambda>err g avail. \<lparr>x_group = g, x_mem = mem, x_err = err, x_size = n, x_offset = 0,
                                x_xfer = 0, x_avail = avail\<rparr>)
      in if err < 0 then Some (err, mem, g)
         else if n = 0 then Some (0, mem, g)
         else if pcm_accessible_state (g ! i) < 0
         then xfer_finish d i (vars (pcm_accessible_state (g ! i)) g 0)
         else
           case xfer_begin d n i g of
             None \<Rightarrow> None
           | Some (err, g) \<Rightarrow>
               if err < 0 then xfer_finish d i (vars err g 0)
               else
                 (case xfer_loop d wr nonblock i es (vars err g (snd_pcm_avail (g ! i))) of
                    None \<Rightarrow> None
                  | Some x \<Rightarrow> xfer_finish d i x))"

section \<open>Forward and rewind\<close>

lemma ring_forward_fits:
  fixes a n B :: u32
  assumes "unat a < unat B" "unat n \<le> unat B" "unat a + unat n < 2147483648" "unat B < 2147483648"
  shows "unat (let new = a + n in if sint new \<ge> sint B then new - B else new) = (unat a + unat n) mod unat B"
proof -
  have s: "unat (a + n) = unat a + unat n" using assms by (simp add: unat_add32)
  then have c: "sint (a + n) \<ge> sint B \<longleftrightarrow> unat B \<le> unat a + unat n"
    using assms by (simp only: sint_unat [of "a + n"] sint_unat [of B] s of_nat_le_iff) 
  show ?thesis
  proof (cases "unat B \<le> unat a + unat n")
    case True
    have "unat (a + n - B) = unat a + unat n - unat B" using True s by (simp add: unat_sub32)
    moreover have "(unat a + unat n) mod unat B = unat a + unat n - unat B"
      using True assms by (simp add: mod_if)
    ultimately show ?thesis using True c by (simp only: Let_def if_True simp_thms)
  next
    case False
    then show ?thesis using c s by (simp only: Let_def if_False simp_thms) simp
  qed
qed

lemma ring_forward:
  fixes a n B :: u32
  assumes "unat a < unat B" "unat n \<le> unat B" "unat B + unat n < 2147483648"
  shows "unat (let new = a + n in if sint new \<ge> sint B then new - B else new) = (unat a + unat n) mod unat B"
  using assms by (intro ring_forward_fits) linarith+

lemma ring_rewind:
  fixes a n B :: u32
  assumes "unat a < unat B" "unat n \<le> unat B" "unat B < 2147483648"
  shows "unat (let new = a - n in if sint new < 0 then new + B else new) =
    (unat a + (unat B - unat n)) mod unat B"
proof (cases "unat n \<le> unat a")
  case True
  then have s: "unat (a - n) = unat a - unat n" by (simp add: unat_sub32)
  then have "\<not> sint (a - n) < 0" using assms by (simp add: sint_neg_iff)
  moreover have "(unat a + (unat B - unat n)) mod unat B = unat a - unat n"
    using True assms by (simp add: mod_if)
  ultimately show ?thesis using s by (simp only: Let_def if_False)
next
  case False
  then have s: "unat (a - n) = 4294967296 + unat a - unat n" by (simp add: unat_sub32)
  then have "sint (a - n) < 0" using assms by (simp add: sint_neg_iff)
  moreover have "unat (a - n + B) = unat a + unat B - unat n"
    using s False assms by (simp add: unat_add32)
  moreover have "(unat a + (unat B - unat n)) mod unat B = unat a + unat B - unat n"
    using False assms by simp
  ultimately show ?thesis by (simp only: Let_def if_True)
qed

lemma forward_rewind_ring:
  "a < B \<Longrightarrow> n \<le> B \<Longrightarrow> ((a + n) mod B + (B - n)) mod B = (a :: nat)"
proof -
  assume "a < B" "n \<le> B"
  then have "((a + n) mod B + (B - n)) mod B = (a + n + (B - n)) mod B" by (simp only: mod_add_left_eq)
  also have "\<dots> = (a + B) mod B" using \<open>n \<le> B\<close> by simp
  finally show ?thesis using \<open>a < B\<close> by simp
qed

text \<open>
  Moving the application pointer: without an \<^verbatim>\<open>ack\<close> callback \<^verbatim>\<open>forward_appl_ptr\<close> with at least
  \<open>n\<close> frames available advances the pointer by exactly \<open>n\<close> modulo the boundary and returns \<open>n\<close>, and
  \<^verbatim>\<open>rewind_appl_ptr\<close> by the same amount brings back the group as it was.
\<close>

theorem forward_rewind_round_trip:
  assumes "drv_ack d = None" "i < length g" "ring_wf (g ! i)"
    and "0 < unat n" "unat n \<le> unat av" "unat n \<le> unat av'"
    and "unat av \<le> unat (buffer_size (g ! i))" "unat av' \<le> unat (buffer_size (g ! i))"
  shows "\<exists>g1. forward_appl_ptr d n av i g = (int (unat n), g1) \<and>
     unat (appl_ptr (g1 ! i)) = (unat (appl_ptr (g ! i)) + unat n) mod unat (boundary (g ! i)) \<and>
     rewind_appl_ptr d n av' i g1 = (int (unat n), g)"
proof -
  let ?s = "g ! i"
  let ?a = "appl_ptr ?s" and ?B = "boundary ?s"
  have w: "unat ?a < unat ?B" "unat (buffer_size ?s) < unat ?B" "unat ?B + unat (buffer_size ?s) < 2147483648"
    using assms(3) by (simp_all add: ring_wf_def)
  have nB: "unat n \<le> unat ?B" "unat ?B + unat n < 2147483648" "unat ?B < 2147483648"
    using assms(4-8) w by linarith+
  have small: "0 < sint av" "0 < sint av'" "sint n = int (unat n)"
  proof -
    have "sint av = int (unat av)" "sint av' = int (unat av')" "sint n = int (unat n)"
      using assms(4-8) w by (intro sint_unat, linarith)+
    then show "0 < sint av" "0 < sint av'" "sint n = int (unat n)" using assms(4-6) by linarith+
  qed
  have le: "\<not> n > av" "\<not> n > av'" using assms(5,6) by (simp_all add: word_less_nat_alt)
  define f where "f = (let new = ?a + n in if sint new \<ge> sint ?B then new - ?B else new)"
  have f: "unat f = (unat ?a + unat n) mod unat ?B" unfolding f_def using w(1) nB(1,2) by (rule ring_forward)
  define r where "r = (let new = f - n in if sint new < 0 then new + ?B else new)"
  have fB: "unat f < unat ?B" unfolding f using w(1) by (intro mod_less_divisor) linarith
  have "unat r = (unat f + (unat ?B - unat n)) mod unat ?B"
    unfolding r_def using fB nB(1,3) by (rule ring_rewind)
  then have r: "r = ?a" unfolding f forward_rewind_ring [OF w(1) nB(1)] by (simp add: word_unat_eq_iff)
  define g1 where "g1 = (if ?a = f then g else upd i (\<lambda>s. s\<lparr>appl_ptr := f\<rparr>) g)"
  have ack: "pcm_lib_apply_appl_ptr d new i h =
      (0, if appl_ptr (h ! i) = new then h else upd i (\<lambda>s. s\<lparr>appl_ptr := new\<rparr>) h)" for new h
    using assms(1) by (simp add: pcm_lib_apply_appl_ptr_def)
  have pos: "\<not> sint av \<le> 0" "\<not> sint av' \<le> 0" using small by linarith+
  have "forward_appl_ptr d n av i g = (int (unat n), g1)"
    unfolding forward_appl_ptr_def Let_def using pos(1) le(1) small(3)
    by (simp only: if_False ack prod.case g1_def f_def Let_def) simp
  moreover have g1i: "appl_ptr (g1 ! i) = f" "boundary (g1 ! i) = ?B" using assms(2) by (auto simp: g1_def)
  moreover have "?a \<noteq> f \<Longrightarrow> upd i (\<lambda>s. s\<lparr>appl_ptr := ?a\<rparr>) g1 = g"
    using assms(2) by (simp add: g1_def upd_def)
  moreover have "rewind_appl_ptr d n av' i g1 =
      (int (unat n), if appl_ptr (g1 ! i) = r then g1 else upd i (\<lambda>s. s\<lparr>appl_ptr := r\<rparr>) g1)"
    unfolding rewind_appl_ptr_def Let_def using pos(2) le(2) small(3)
    by (simp only: if_False ack prod.case r_def Let_def g1i) simp
  ultimately show ?thesis using f r by (auto simp: g1_def split: if_splits)
qed

theorem forward_rewind_round_trip_witness:
  "\<exists>g1. forward_appl_ptr sample_driver 4 8 0 [sample_stream] = (4, g1) \<and> unat (appl_ptr (g1 ! 0)) = 14 \<and>
     rewind_appl_ptr sample_driver 4 8 0 g1 = (4, [sample_stream])"
  using forward_rewind_round_trip [of sample_driver 0 "[sample_stream]" 4 8 8]
  by (simp add: sample_driver_def ring_wf_def sample_stream_def)

section \<open>The data path\<close>

text \<open>
  The ring as a function from positions to frames. \<open>frame_writer\<close> is \<^verbatim>\<open>interleaved_copy\<close> with
  \<^verbatim>\<open>default_write_copy_kernel\<close>, counted in frames.
\<close>

definition frame_writer :: "(nat \<Rightarrow> 'a) \<Rightarrow> (nat \<Rightarrow> 'a) pcm_writer" where
  "frame_writer data hwoff off n m =
     (0, \<lambda>p. if unat hwoff \<le> p \<and> p < unat hwoff + unat n then data (unat off + (p - unat hwoff)) else m p)"

text \<open>Writing frame after frame into a ring of \<open>m\<close> positions from pointer \<open>a\<close> on.\<close>

fun ring_write :: "nat \<Rightarrow> nat \<Rightarrow> (nat \<Rightarrow> 'a) \<Rightarrow> nat \<Rightarrow> (nat \<Rightarrow> 'a) \<Rightarrow> nat \<Rightarrow> 'a" where
  "ring_write m a data 0 r = r"
| "ring_write m a data (Suc n) r = (ring_write m a data n r)((a + n) mod m := data n)"

lemma ring_write_outside: "p \<notin> ring_span m a n \<Longrightarrow> ring_write m a data n r p = r p"
  by (induction n) (auto simp: ring_span_def lessThan_Suc)

lemma ring_write_inside:
  "n \<le> m \<Longrightarrow> k < n \<Longrightarrow> ring_write m a data n r ((a + k) mod m) = data k"
proof (induction n)
  case (Suc n)
  show ?case
  proof (cases "k = n")
    case False
    then have "(a + k) mod m \<in> ring_span m a n" "(a + n) mod m \<in> ring_span m (a + n) 1"
      using Suc.prems by (auto simp: ring_span_def)
    then have "(a + k) mod m \<noteq> (a + n) mod m"
      using ring_span_disjoint [of n 1 m a] Suc.prems(1) by fastforce
    then show ?thesis using Suc False by simp
  qed simp
qed simp

lemma ring_write_append:
  "ring_write m a data (n + k) r = ring_write m (a + n) (\<lambda>j. data (n + j)) k (ring_write m a data n r)"
  by (induction k) (simp_all add: add.assoc)

lemma ring_write_mod: "ring_write m (a mod m) data n r = ring_write m a data n r"
  by (induction n) (simp_all add: mod_simps)

lemma frame_writer_ring:
  assumes "unat o' < m" "unat o' + unat n \<le> m"
  shows "frame_writer data o' f n r = (0, ring_write m (unat o') (\<lambda>k. data (unat f + k)) (unat n) r)"
proof -
  have "ring_write m a d k r = (\<lambda>p. if a \<le> p \<and> p < a + k then d (p - a) else r p)"
    if "a + k \<le> m" for a k d and r :: "nat \<Rightarrow> 'a"
    using that by (induction k) (auto simp: fun_eq_iff)
  then show ?thesis using assms(2) by (simp add: frame_writer_def)
qed

lemma unat_chunk_frames:
  assumes "0 < unat (buffer_size s)"
  shows "unat (chunk_frames s n a) =
    min (min (unat n) (unat a)) (unat (buffer_size s) - unat (appl_ptr s) mod unat (buffer_size s))"
proof -
  have "unat (appl_ptr s mod buffer_size s) = unat (appl_ptr s) mod unat (buffer_size s)"
    by (simp add: unat_mod_distrib)
  moreover have "unat (appl_ptr s) mod unat (buffer_size s) < unat (buffer_size s)" using assms by simp
  ultimately have "unat (buffer_size s - appl_ptr s mod buffer_size s) =
      unat (buffer_size s) - unat (appl_ptr s) mod unat (buffer_size s)"
    by (simp add: unat_sub32)
  then show ?thesis by (auto simp: chunk_frames_def Let_def word_less_nat_alt min_def)
qed

definition advance :: "u32 \<Rightarrow> 'm \<Rightarrow> pcm_group \<Rightarrow> 'm xfer_vars \<Rightarrow> 'm xfer_vars" where
  "advance c m g x = x\<lparr>x_mem := m, x_group := g, x_err := 0, x_offset := x_offset x + c,
     x_size := x_size x - c, x_xfer := x_xfer x + c, x_avail := x_avail x - c\<rparr>"

text \<open>The driver has no \<^verbatim>\<open>ack\<close> callback, or one that accepts the new application pointer.\<close>

definition acks :: "pcm_driver \<Rightarrow> nat \<Rightarrow> bool" where
  "acks d i \<longleftrightarrow> (\<forall>ack s. drv_ack d = Some ack \<longrightarrow> \<not> ack i s < 0)"

lemma apply_appl_ptr_acks:
  "acks d i \<Longrightarrow> pcm_lib_apply_appl_ptr d new i g =
     (0, if appl_ptr (g ! i) = new then g else upd i (\<lambda>s. s\<lparr>appl_ptr := new\<rparr>) g)"
  by (auto simp: pcm_lib_apply_appl_ptr_def acks_def Let_def split: option.split)

lemma xfer_chunk_idle:
  assumes "acks d i" "meanwhile e = id" "i < length (x_group x)"
  defines "s \<equiv> x_group x ! i"
  assumes "ring_wf s" "state s = STATE_RUNNING \<or> state s = STATE_PAUSED" "x_size x \<noteq> 0" "x_avail x \<noteq> 0"
  defines "c \<equiv> chunk_frames s (x_size x) (x_avail x)"
  shows "\<exists>new. xfer_chunk d (frame_writer data) i e x =
       Some (True, advance c (ring_write (unat (buffer_size s)) (unat (appl_ptr s))
          (\<lambda>k. data (unat (x_offset x) + k)) (unat c) (x_mem x))
          (upd i (\<lambda>s. s\<lparr>appl_ptr := new\<rparr>) (x_group x)) x) \<and>
     unat new = (unat (appl_ptr s) + unat c) mod unat (boundary s)"
proof -
  let ?m = "unat (buffer_size s)" and ?a = "unat (appl_ptr s)" and ?B = "unat (boundary s)"
  have w: "0 < ?m" "?m < ?B" "?B + ?m < 2147483648" "?a < ?B"
    using assms(5) by (simp_all add: ring_wf_def)
  have c: "unat c = min (min (unat (x_size x)) (unat (x_avail x))) (?m - ?a mod ?m)"
    unfolding c_def using w(1) by (rule unat_chunk_frames)
  have "?a mod ?m < ?m" using w(1) by simp
  moreover have "0 < unat (x_size x)" "0 < unat (x_avail x)" using assms(7,8) by (simp_all add: unat_gt_0)
  ultimately have cpos: "0 < unat c" "?a mod ?m + unat c \<le> ?m" unfolding c by auto
  have o: "unat (appl_ptr s mod buffer_size s) = ?a mod ?m" by (simp add: unat_mod_distrib)
  have wr: "frame_writer data (appl_ptr s mod buffer_size s) (x_offset x) c (x_mem x) =
      (0, ring_write ?m ?a (\<lambda>k. data (unat (x_offset x) + k)) (unat c) (x_mem x))"
    using frame_writer_ring [of "appl_ptr s mod buffer_size s" ?m c] cpos w(1) by (simp add: o ring_write_mod)
  define new where "new = (if appl_ptr s + c \<ge> boundary s then appl_ptr s + c - boundary s else appl_ptr s + c)"
  have sum: "unat (appl_ptr s + c) = ?a + unat c" using w cpos by (simp add: unat_add32)
  have cB: "unat c < ?B" using cpos w by linarith
  have new: "unat new = (if ?B \<le> ?a + unat c then ?a + unat c - ?B else ?a + unat c)"
    using sum by (simp add: new_def word_le_nat_alt unat_sub32)
  also have "\<dots> = (?a + unat c) mod ?B"
    using w(4) cB by (cases "?B \<le> ?a + unat c") (simp_all add: le_mod_geq)
  finally have mod: "unat new = (?a + unat c) mod ?B" .
  have "unat new \<noteq> ?a" using new cpos(1) cB w(4) by (simp split: if_splits)
  then have "appl_ptr s \<noteq> new" by blast
  then have ap: "pcm_lib_apply_appl_ptr d new i (x_group x) = (0, upd i (\<lambda>s. s\<lparr>appl_ptr := new\<rparr>) (x_group x))"
    by (simp add: apply_appl_ptr_acks [OF assms(1)] s_def)
  have acc: "pcm_accessible_state s = 0" using assms(6) by (auto simp: pcm_accessible_state_def)
  have st: "state (upd i (\<lambda>s. s\<lparr>appl_ptr := new\<rparr>) (x_group x) ! i) \<noteq> STATE_PREPARED"
    using assms(3,6) by (auto simp: s_def)
  have bs: "buffer_size s \<noteq> 0" using w(1) by auto
  have "xfer_chunk d (frame_writer data) i e x =
       Some (True, advance c (ring_write ?m ?a (\<lambda>k. data (unat (x_offset x) + k)) (unat c) (x_mem x))
          (upd i (\<lambda>s. s\<lparr>appl_ptr := new\<rparr>) (x_group x)) x)"
    unfolding xfer_chunk_def Let_def s_def [symmetric] c_def [symmetric] wr prod.case new_def [symmetric]
      assms(2) id_apply
    using bs acc ap st by (simp add: advance_def s_def [symmetric] new_def [symmetric])
  then show ?thesis using mod by blast
qed

lemma ring_write_boundary:
  "m dvd B \<Longrightarrow> ring_write m (a mod B) data n r = ring_write m a data n r"
  using ring_write_mod [of m "a mod B" data n r] ring_write_mod [of m a data n r]
  by (simp add: mod_mod_cancel)

lemma write_loop:
  assumes "acks d i" "\<forall>e\<in>set es. meanwhile e = id"
    and "i < length (x_group x)" "ring_wf (x_group x ! i)"
    and "state (x_group x ! i) = STATE_RUNNING \<or> state (x_group x ! i) = STATE_PAUSED"
    and "min (unat (x_size x)) (unat (x_avail x)) = M" "M \<le> length es"
    and "unat (x_offset x) + unat (x_size x) < 4294967296" "unat (x_xfer x) + unat (x_size x) < 4294967296"
  shows "\<exists>x' new. xfer_loop d (frame_writer data) True i es x = Some x' \<and>
     x_group x' = upd i (\<lambda>s. s\<lparr>appl_ptr := new\<rparr>) (x_group x) \<and>
     unat new = (unat (appl_ptr (x_group x ! i)) + M) mod unat (boundary (x_group x ! i)) \<and>
     unat (x_xfer x') = unat (x_xfer x) + M \<and>
     x_mem x' = ring_write (unat (buffer_size (x_group x ! i))) (unat (appl_ptr (x_group x ! i)))
       (\<lambda>k. data (unat (x_offset x) + k)) M (x_mem x)"
  using assms(2-)
proof (induction M arbitrary: es x rule: less_induct)
  case (less M)
  let ?s = "x_group x ! i"
  let ?m = "unat (buffer_size ?s)" and ?a = "unat (appl_ptr ?s)" and ?B = "unat (boundary ?s)"
  have same: "upd i (\<lambda>s. s\<lparr>appl_ptr := appl_ptr ?s\<rparr>) (x_group x) = x_group x"
    by (simp add: upd_def)
  have aB: "?a mod ?B = ?a" using less.prems(3) by (simp add: ring_wf_def)
  show ?case
  proof (cases "x_size x = 0 \<or> x_avail x = 0")
    case True
    then have M: "M = 0" using less.prems(5) by auto
    obtain e where "xfer_loop d (frame_writer data) True i es x = Some (x\<lparr>x_err := e\<rparr>)"
    proof (cases "x_size x = 0")
      case True
      then have "xfer_loop d (frame_writer data) True i es x = Some (x\<lparr>x_err := x_err x\<rparr>)"
        by (subst xfer_loop.simps) simp
      then show ?thesis using that by blast
    next
      case False
      then have "xfer_loop d (frame_writer data) True i es x = Some (x\<lparr>x_err := - EAGAIN\<rparr>)"
        using True less.prems(4) by (subst xfer_loop.simps) (auto simp: xfer_round_def xfer_wait_def Let_def)
      then show ?thesis using that by blast
    qed
    then show ?thesis using M same aB
      by (intro exI [of _ "x\<lparr>x_err := e\<rparr>"] exI [of _ "appl_ptr ?s"]) simp
  next
    case False
    then have pos: "0 < M" using less.prems(5) by (auto simp: unat_gt_0 min_def)
    then obtain e es' where es: "es = e # es'" using less.prems(6) by (cases es) auto
    have idle: "meanwhile e = id" using less.prems(1) by (simp only: es list.set insert_iff ball_simps)
    have nz: "x_size x \<noteq> 0" "x_avail x \<noteq> 0" using False by blast+
    define c where "c = chunk_frames ?s (x_size x) (x_avail x)"
    have w: "0 < ?m" "?m dvd ?B" using less.prems(3) by (simp_all add: ring_wf_def)
    have c: "unat c = min M (?m - ?a mod ?m)"
      unfolding c_def using unat_chunk_frames [OF w(1)] less.prems(5) by simp
    moreover have "?a mod ?m < ?m" using w(1) by simp
    ultimately have cM: "0 < unat c" "unat c \<le> M" using pos by auto
    obtain new where chunk: "xfer_chunk d (frame_writer data) i e x =
       Some (True, advance c (ring_write ?m ?a (\<lambda>k. data (unat (x_offset x) + k)) (unat c) (x_mem x))
          (upd i (\<lambda>s. s\<lparr>appl_ptr := new\<rparr>) (x_group x)) x)"
      and new: "unat new = (?a + unat c) mod ?B"
      using xfer_chunk_idle [OF assms(1) idle less.prems(2,3,4) nz] unfolding c_def by blast
    define x1 where "x1 = advance c (ring_write ?m ?a (\<lambda>k. data (unat (x_offset x) + k)) (unat c) (x_mem x))
          (upd i (\<lambda>s. s\<lparr>appl_ptr := new\<rparr>) (x_group x)) x"
    have step: "xfer_loop d (frame_writer data) True i es x = xfer_loop d (frame_writer data) True i es' x1"
      using False by (subst xfer_loop.simps) (simp add: xfer_round_def xfer_wait_def Let_def es chunk x1_def)
    have le: "unat c \<le> unat (x_size x)" "unat c \<le> unat (x_avail x)" using cM(2) less.prems(5) by auto
    have u: "unat (x_size x1) = unat (x_size x) - unat c" "unat (x_avail x1) = unat (x_avail x) - unat c"
      "unat (x_offset x1) = unat (x_offset x) + unat c" "unat (x_xfer x1) = unat (x_xfer x) + unat c"
      using le less.prems(7,8) by (simp_all add: x1_def advance_def unat_sub32 unat_add32)
    have s1: "x_group x1 ! i = ?s\<lparr>appl_ptr := new\<rparr>" "i < length (x_group x1)"
      using less.prems(2) by (simp_all add: x1_def advance_def)
    have "unat new < ?B" unfolding new using w less.prems(3) by (intro mod_less_divisor) (simp add: ring_wf_def)
    then have wf1: "ring_wf (x_group x1 ! i)" using less.prems(3) unfolding s1 by (simp add: ring_wf_def)
    have M1: "min (unat (x_size x1)) (unat (x_avail x1)) = M - unat c" using u le less.prems(5) by auto
    have "\<exists>x' nw. xfer_loop d (frame_writer data) True i es' x1 = Some x' \<and>
       x_group x' = upd i (\<lambda>s. s\<lparr>appl_ptr := nw\<rparr>) (x_group x1) \<and>
       unat nw = (unat (appl_ptr (x_group x1 ! i)) + (M - unat c)) mod unat (boundary (x_group x1 ! i)) \<and>
       unat (x_xfer x') = unat (x_xfer x1) + (M - unat c) \<and>
       x_mem x' = ring_write (unat (buffer_size (x_group x1 ! i))) (unat (appl_ptr (x_group x1 ! i)))
         (\<lambda>k. data (unat (x_offset x1) + k)) (M - unat c) (x_mem x1)"
      using less.prems cM es u le s1 wf1 M1 by (intro less.IH) auto
    then obtain x' nw where x': "xfer_loop d (frame_writer data) True i es' x1 = Some x'"
       "x_group x' = upd i (\<lambda>s. s\<lparr>appl_ptr := nw\<rparr>) (x_group x1)"
       "unat nw = (unat new + (M - unat c)) mod ?B" "unat (x_xfer x') = unat (x_xfer x1) + (M - unat c)"
       "x_mem x' = ring_write ?m (unat new) (\<lambda>k. data (unat (x_offset x1) + k)) (M - unat c) (x_mem x1)"
      unfolding s1 by auto
    have "x_group x' = upd i (\<lambda>s. s\<lparr>appl_ptr := nw\<rparr>) (x_group x)"
      using less.prems(2) by (simp add: x'(2) x1_def advance_def upd_def)
    moreover have "unat nw = (?a + M) mod ?B" unfolding x'(3) new mod_add_left_eq using cM(2) by simp
    moreover have "unat (x_xfer x') = unat (x_xfer x) + M" using x'(4) u(4) cM(2) by simp
    moreover have "x_mem x' = ring_write ?m ?a (\<lambda>k. data (unat (x_offset x) + k)) M (x_mem x)"
      unfolding x'(5) new ring_write_boundary [OF w(2)] u(3)
      using ring_write_append [of ?m ?a "\<lambda>k. data (unat (x_offset x) + k)" "unat c" "M - unat c" "x_mem x"] cM(2)
      by (simp add: x1_def advance_def add.assoc)
    ultimately show ?thesis using step x'(1) by metis
  qed
qed

text \<open>
  C4. The data path of a non-blocking write: the loop of \<^verbatim>\<open>__snd_pcm_lib_xfer\<close> on a running or paused
  playback stream whose ring is well formed, with at most a buffer of frames queued, returns having transferred
  \<open>M\<close> frames, the smaller of what was asked and what was available. Frame \<open>k\<close> of the data (the samples of all its
  channels) is at the ring position of pointer \<^verbatim>\<open>appl_ptr + k\<close>, the queued frames between the hardware and the old
  application pointer are untouched, the application pointer has advanced by \<open>M\<close> modulo the boundary and nothing else
  of the group has changed. Conditions: the writer copies frames without a fault, the driver's \<^verbatim>\<open>ack\<close> callback,
  if it has one, never fails (the loop ends early when it does), and nothing else touches the group while the lock is
  released for a copy (\<open>es\<close>, one idle turn for each release, has at least \<open>M\<close> of them).
\<close>

theorem write_places_frames:
  fixes m0 :: "nat \<Rightarrow> 'a"
  assumes "acks d i" "\<forall>e\<in>set es. meanwhile e = id" "i < length g"
    and "ring_wf (g ! i)" "playback (g ! i)" "queued (g ! i) \<le> unat (buffer_size (g ! i))"
    and "state (g ! i) = STATE_RUNNING \<or> state (g ! i) = STATE_PAUSED"
    and M: "M = min (unat n) (unat (snd_pcm_avail (g ! i)))" "M \<le> length es"
  shows "\<exists>x' new. xfer_loop d (frame_writer data) True i es
       \<lparr>x_group = g, x_mem = m0, x_err = 0, x_size = n, x_offset = 0, x_xfer = 0,
        x_avail = snd_pcm_avail (g ! i)\<rparr> = Some x' \<and>
     unat (x_xfer x') = M \<and>
     (\<forall>k<M. x_mem x' ((unat (appl_ptr (g ! i)) + k) mod unat (buffer_size (g ! i))) = data k) \<and>
     (\<forall>p \<in> ring_span (unat (buffer_size (g ! i))) (unat (hw_ptr (g ! i))) (queued (g ! i)). x_mem x' p = m0 p) \<and>
     x_group x' = upd i (\<lambda>s. s\<lparr>appl_ptr := new\<rparr>) g \<and>
     unat new = (unat (appl_ptr (g ! i)) + M) mod unat (boundary (g ! i))"
proof -
  let ?s = "g ! i" and ?x = "\<lparr>x_group = g, x_mem = m0, x_err = 0, x_size = n, x_offset = 0, x_xfer = 0,
        x_avail = snd_pcm_avail (g ! i)\<rparr>"
  let ?m = "unat (buffer_size ?s)" and ?a = "unat (appl_ptr ?s)"
  have av: "unat (snd_pcm_avail ?s) = ?m - queued ?s"
    using playback_avail_queued [OF assms(4,6)] assms(5) by (simp add: snd_pcm_avail_def)
  then have Mm: "queued ?s + M \<le> ?m" using M(1) assms(6) by simp
  obtain x' new where x': "xfer_loop d (frame_writer data) True i es ?x = Some x'"
     "x_group x' = upd i (\<lambda>s. s\<lparr>appl_ptr := new\<rparr>) g" "unat new = (?a + M) mod unat (boundary ?s)"
     "unat (x_xfer x') = M" "x_mem x' = ring_write ?m ?a data M m0"
    using write_loop [OF assms(1,2), of ?x M data] assms(3,4,7) M u32_lt [of n] by auto
  have "ring_span ?m ?a M \<inter> ring_span ?m (unat (hw_ptr ?s)) (queued ?s) = {}"
  proof -
    have "(unat (hw_ptr ?s) + queued ?s) mod ?m = ?a mod ?m"
      using assms(4) queued_cases [OF assms(4)] unfolding ring_wf_def
      by (auto simp: mod_add_eq dvd_imp_mod_0 elim!: dvdE)
    then have "ring_span ?m (unat (hw_ptr ?s) + queued ?s) M = ring_span ?m ?a M" by (metis ring_span_mod)
    then show ?thesis using ring_span_disjoint [OF Mm, of "unat (hw_ptr ?s)"] by blast
  qed
  then have "\<forall>p \<in> ring_span ?m (unat (hw_ptr ?s)) (queued ?s). x_mem x' p = m0 p"
    unfolding x'(5) using ring_write_outside by (metis disjoint_iff)
  moreover have "\<forall>k<M. x_mem x' ((?a + k) mod ?m) = data k"
    unfolding x'(5) using Mm by (auto intro!: ring_write_inside)
  ultimately show ?thesis using x' by blast
qed

theorem write_places_frames_witness:
  "\<exists>x' new. xfer_loop (sample_driver\<lparr>drv_ack := Some (\<lambda>i s. 0)\<rparr>) (frame_writer (\<lambda>k. k + 100)) True 0
       (replicate 2 \<lparr>signalled = False, meanwhile = id, timed_out = False, shutdown = False\<rparr>)
       \<lparr>x_group = [sample_stream\<lparr>appl_ptr := 4\<rparr>], x_mem = (\<lambda>p. p), x_err = 0, x_size = 5, x_offset = 0, x_xfer = 0,
        x_avail = snd_pcm_avail (sample_stream\<lparr>appl_ptr := 4\<rparr>)\<rparr> = Some x' \<and> unat (x_xfer x') = 2 \<and>
     x_mem x' 5 = 101"
proof -
  let ?d = "sample_driver\<lparr>drv_ack := Some (\<lambda>i s. 0)\<rparr>"
  let ?s = "sample_stream\<lparr>appl_ptr := 4\<rparr>"
  let ?es = "replicate 2 \<lparr>signalled = False, meanwhile = id, timed_out = False, shutdown = False\<rparr> :: drain_turn list"
  have wf: "ring_wf ?s" "queued ?s = 30" "playback ?s" "state ?s = STATE_RUNNING" "unat (buffer_size ?s) = 32"
    by (simp_all add: ring_wf_def queued_def sample_stream_def)
  have "unat (snd_pcm_avail ?s) = 2"
    using playback_avail_queued [OF wf(1)] wf by (simp add: snd_pcm_avail_def)
  then have M: "2 = min (unat (5 :: u32)) (unat (snd_pcm_avail ([?s] ! 0)))" "2 \<le> length ?es" by simp_all
  have idle: "\<forall>e\<in>set ?es. meanwhile e = id" "acks ?d 0" "0 < length [?s]"
    "ring_wf ([?s] ! 0)" "playback ([?s] ! 0)" "queued ([?s] ! 0) \<le> unat (buffer_size ([?s] ! 0))"
    "state ([?s] ! 0) = STATE_RUNNING \<or> state ([?s] ! 0) = STATE_PAUSED"
    using wf by (simp_all add: acks_def)
  from write_places_frames [OF idle(2,1,3-7) M, of "\<lambda>k. k + 100" "\<lambda>p. p"]
  obtain x' where "xfer_loop (sample_driver\<lparr>drv_ack := Some (\<lambda>i s. 0)\<rparr>) (frame_writer (\<lambda>k. k + 100)) True 0 ?es
       \<lparr>x_group = [?s], x_mem = (\<lambda>p. p), x_err = 0, x_size = 5, x_offset = 0, x_xfer = 0,
        x_avail = snd_pcm_avail ([?s] ! 0)\<rparr> = Some x'" "unat (x_xfer x') = 2"
     "\<forall>k<2. x_mem x' ((unat (appl_ptr ([?s] ! 0)) + k) mod unat (buffer_size ([?s] ! 0))) = k + 100"
    by blast
  moreover from this(3) have "x_mem x' 5 = 101" by (auto simp: sample_stream_def dest: spec [of _ 1])
  ultimately show ?thesis by auto
qed

end
