(* ===== verification/PcmMachine.thy ===== *)
theory PcmMachine
  imports PcmXfer
begin

text \<open>
  The runtime as a state machine. A \<open>pcm_call\<close> is one entry into the PCM core, by an ioctl, by
  another part of the kernel or by the interrupt handler; \<open>run_call\<close> gives it the operation of the
  other theories. \<open>pcm_step P\<close> is one call that satisfies \<open>P\<close>, on a member of the group, with any answers of
  the driver, which may differ from call to call; \<open>pcm_step (\<lambda>_ _ _ _. True)\<close> is all the calls. A drain sleeps: what
  happens meanwhile is itself a sequence of steps. The invariant is kept by the calls that are \<open>sound_call\<close>: all of
  them but a forward of a capture stream that overflows a signed long, whose effect the last property shows, and those
  with a driver whose own \<^verbatim>\<open>SNDRV_PCM_IOCTL1_RESET\<close> is not a \<open>good_reset\<close>.
\<close>

section \<open>Calls\<close>

datatype pcm_call =
    START | STOP pcm_state | XRUN | PAUSE bool | SUSPEND | RESUME | RESET
  | PREPARE "u32 option" | DROP | HWSYNC | ELAPSED | REWIND u32 | FORWARD u32

fun run_call :: "pcm_driver \<Rightarrow> pcm_call \<Rightarrow> nat \<Rightarrow> pcm_group \<Rightarrow> (int \<times> pcm_group) option" where
  "run_call d START i g = snd_pcm_start d i g"
| "run_call d (STOP st) i g = snd_pcm_stop d st i g"
| "run_call d XRUN i g = snd_pcm_xrun d i g"
| "run_call d (PAUSE push) i g = snd_pcm_pause d push i g"
| "run_call d SUSPEND i g = snd_pcm_suspend d i g"
| "run_call d RESUME i g = snd_pcm_resume d i g"
| "run_call d RESET i g = snd_pcm_reset d i g"
| "run_call d (PREPARE file) i g = snd_pcm_prepare d file i g"
| "run_call d DROP i g = snd_pcm_drop d i g"
| "run_call d HWSYNC i g = snd_pcm_hwsync d i g"
| "run_call d ELAPSED i g = map_option (\<lambda>r. (0, snd r)) (snd_pcm_period_elapsed d i g)"
| "run_call d (REWIND n) i g = snd_pcm_rewind d n i g"
| "run_call d (FORWARD n) i g = snd_pcm_forward d n i g"

type_synonym call_condition = "pcm_driver \<Rightarrow> pcm_call \<Rightarrow> nat \<Rightarrow> pcm_group \<Rightarrow> bool"

inductive pcm_step :: "call_condition \<Rightarrow> pcm_group \<Rightarrow> pcm_group \<Rightarrow> bool" for P :: call_condition where
  call: "i < length g \<Longrightarrow> P d c i g \<Longrightarrow> run_call d c i g = Some (r, g') \<Longrightarrow> pcm_step P g g'"
| drain: "i < length g \<Longrightarrow> \<forall>e\<in>set es. \<forall>h. (pcm_step P)\<^sup>*\<^sup>* h (meanwhile e h) \<Longrightarrow>
    snd_pcm_drain d file es i g = Some (r, g') \<Longrightarrow> pcm_step P g g'"

inductive_cases pcm_stepE: "pcm_step P g g'"
fun_cases drain_loopE: "drain_loop d i result es g = Some (r, g')"

text \<open>The sum of the application pointer and the frames to skip does not reach the sign bit.\<close>

definition forward_fits :: "u32 \<Rightarrow> pcm_stream \<Rightarrow> bool" where
  "forward_fits n s \<longleftrightarrow> playback s \<or> unat (appl_ptr s) + min (unat n) (unat (snd_pcm_avail s)) < 2147483648"

definition sound_call :: call_condition where
  "sound_call d c i g \<longleftrightarrow>
     (case c of
        FORWARD n \<Rightarrow> (case do_pcm_hwsync d i g of Some (r, g) \<Rightarrow> r = 0 \<longrightarrow> forward_fits n (g ! i) | None \<Rightarrow> True)
      | RESET \<Rightarrow> good_reset d
      | PREPARE f \<Rightarrow> good_reset d
      | _ \<Rightarrow> True)"

section \<open>Every call returns and keeps the invariant\<close>

lemma update_hw_ptr_inv:
  assumes "group_inv pos_wf n g" "i < n"
  shows "\<exists>r g'. snd_pcm_update_hw_ptr d i g = Some (r, g') \<and> group_inv pos_wf n g'"
  using update_hw_ptr0_inv [OF assms, of d False] by (auto simp: snd_pcm_update_hw_ptr_def)

lemma hwsync_inv:
  assumes "group_inv pos_wf n g" "i < n"
  shows "\<exists>r g'. do_pcm_hwsync d i g = Some (r, g') \<and> group_inv pos_wf n g'"
  using update_hw_ptr_inv [OF assms, of d] assms(1) by (auto simp: do_pcm_hwsync_def split: pcm_state.split)

lemma apply_appl_ptr_inv:
  assumes "group_inv pos_wf n g" "unat new < unat (boundary (g ! i))"
  shows "group_inv pos_wf n (snd (pcm_lib_apply_appl_ptr d new i g))"
proof -
  have "group_inv pos_wf n (upd i (\<lambda>s. s\<lparr>appl_ptr := new\<rparr>) g)"
    using assms(2) group_inv_nth [OF assms(1)] by (intro group_inv_upd [OF assms(1)] pos_wf_appl_ptr)
  then show ?thesis using assms(1) by (auto simp: pcm_lib_apply_appl_ptr_def Let_def split: option.split)
qed

lemma sint_posD: "\<not> sint (a :: u32) \<le> 0 \<Longrightarrow> 0 < unat a \<and> unat a < 2147483648"
  using sint_neg_iff [of a] by (cases "a = 0") (auto simp: unat_gt_0)

lemma avail_signed:
  assumes "ring_wf s"
  shows "unat (snd_pcm_avail s) < 2147483648"
proof (cases "playback s")
  case True
  then show ?thesis using assms unat_playback_avail [OF assms]
    by (auto simp: snd_pcm_avail_def ring_wf_def Let_def split: if_splits)
next
  case False
  have B: "0 < unat (boundary s)" "unat (boundary s) < 2147483648" using assms by (auto simp: ring_wf_def)
  show ?thesis using False B
    by (simp add: snd_pcm_avail_def capture_avail_mod [OF assms] less_trans [OF mod_less_divisor])
qed

lemma playback_avail_fits:
  assumes "ring_wf s"
  shows "unat (appl_ptr s) + unat (snd_pcm_playback_avail s) < 2147483648"
    "unat (snd_pcm_playback_avail s) \<le> unat (boundary s)"
  using assms unat_playback_avail [OF assms] by (auto simp: ring_wf_def Let_def)

lemma avail_boundary:
  assumes "ring_wf s"
  shows "unat (snd_pcm_avail s) \<le> unat (boundary s)"
proof (cases "playback s")
  case False
  have "0 < unat (boundary s)" using assms by (auto simp: ring_wf_def)
  then show ?thesis using False
    by (simp add: snd_pcm_avail_def capture_avail_mod [OF assms] less_imp_le)
qed (simp add: snd_pcm_avail_def playback_avail_fits(2) [OF assms])

lemma forward_appl_ptr_inv:
  assumes "group_inv pos_wf n g" "i < n" "forward_fits k (g ! i)"
  shows "group_inv pos_wf n (snd (forward_appl_ptr d k (snd_pcm_avail (g ! i)) i g))"
proof (cases "sint (snd_pcm_avail (g ! i)) \<le> 0")
  case False
  let ?s = "g ! i"
  let ?av = "snd_pcm_avail ?s"
  let ?f = "if k > ?av then ?av else k"
  let ?new = "let new = appl_ptr ?s + ?f in if sint new \<ge> sint (boundary ?s) then new - boundary ?s else new"
  have ring: "ring_wf ?s" using group_inv_nth [OF assms(1,2)] by (simp add: pos_wf_def)
  then have w: "unat (appl_ptr ?s) < unat (boundary ?s)" "unat (boundary ?s) < 2147483648"
    by (simp_all add: ring_wf_def)
  have f: "unat ?f = min (unat k) (unat ?av)" by (auto simp: word_less_nat_alt)
  then have "unat ?f \<le> unat (boundary ?s)" using avail_boundary [OF ring] by simp
  moreover have "unat (appl_ptr ?s) + unat ?f < 2147483648"
    using assms(3) playback_avail_fits(1) [OF ring] unfolding f forward_fits_def
    by (cases "playback ?s") (simp_all add: snd_pcm_avail_def)
  ultimately have "unat ?new = (unat (appl_ptr ?s) + unat ?f) mod unat (boundary ?s)"
    using w by (intro ring_forward_fits)
  then have "unat ?new < unat (boundary ?s)" using w(1) by simp
  from apply_appl_ptr_inv [OF assms(1) this] show ?thesis using False
    by (simp add: forward_appl_ptr_def Let_def split_beta)
qed (simp add: forward_appl_ptr_def assms(1))

lemma hw_avail_le:
  assumes "ring_wf s" "\<not> sint (snd_pcm_hw_avail s) \<le> 0"
  shows "unat (snd_pcm_hw_avail s) \<le> unat (buffer_size s)"
proof -
  have "snd_pcm_hw_avail s = buffer_size s - snd_pcm_avail s"
    by (simp add: snd_pcm_hw_avail_def snd_pcm_avail_def snd_pcm_playback_hw_avail_def
        snd_pcm_capture_hw_avail_def)
  then show ?thesis using sint_posD [OF assms(2)] avail_signed [OF assms(1)]
    by (simp add: unat_sub32 split: if_splits)
qed

lemma rewind_appl_ptr_inv:
  assumes "group_inv pos_wf n g" "i < n"
  shows "group_inv pos_wf n (snd (rewind_appl_ptr d k (snd_pcm_hw_avail (g ! i)) i g))"
proof (cases "sint (snd_pcm_hw_avail (g ! i)) \<le> 0")
  case False
  let ?s = "g ! i"
  let ?av = "snd_pcm_hw_avail ?s"
  let ?f = "if k > ?av then ?av else k"
  let ?new = "let new = appl_ptr ?s - ?f in if sint new < 0 then new + boundary ?s else new"
  have wf: "ring_wf ?s" using group_inv_nth [OF assms] by (simp add: pos_wf_def)
  then have w: "unat (appl_ptr ?s) < unat (boundary ?s)" "unat (buffer_size ?s) < unat (boundary ?s)"
     "unat (boundary ?s) < 2147483648"
    by (simp_all add: ring_wf_def)
  have "unat ?av \<le> unat (buffer_size ?s)" using hw_avail_le [OF wf False] .
  then have f: "unat ?f \<le> unat (boundary ?s)" using w by (auto simp: word_less_nat_alt)
  have "unat ?new = (unat (appl_ptr ?s) + (unat (boundary ?s) - unat ?f)) mod unat (boundary ?s)"
    using w(1) f w(3) by (rule ring_rewind)
  then have "unat ?new < unat (boundary ?s)" using w(1) by simp
  from apply_appl_ptr_inv [OF assms(1) this] show ?thesis using False
    by (simp add: rewind_appl_ptr_def Let_def split_beta)
qed (simp add: rewind_appl_ptr_def assms(1))

lemma stop_call_inv:
  assumes "group_inv pos_wf n g" "i < n"
  shows "\<exists>r g'. snd_pcm_stop d st i g = Some (r, g') \<and> group_inv pos_wf n g'"
  using stop_inv.action_inv [OF assms] by (simp add: snd_pcm_stop_def)

lemma pause_call_inv:
  assumes "group_inv pos_wf n g" "i < n"
  shows "\<exists>r g'. snd_pcm_pause d push i g = Some (r, g') \<and> group_inv pos_wf n g'"
  using pause_inv.action_inv [OF assms] by (simp add: snd_pcm_pause_def)

lemma release_pause_inv:
  assumes "group_inv pos_wf n g" "i < n"
  shows "\<exists>g'. (if state (g ! i) = STATE_PAUSED then map_option snd (snd_pcm_pause d False i g) else Some g)
     = Some g' \<and> group_inv pos_wf n g'"
  using pause_call_inv [OF assms, of d False] assms(1) by auto

lemma prepare_call_inv:
  assumes "group_inv pos_wf n g" "i < n" "good_reset d"
  shows "\<exists>r g'. snd_pcm_prepare d file i g = Some (r, g') \<and> group_inv pos_wf n g'"
proof -
  have stop: "\<exists>h'. map_option snd (snd_pcm_stop d STATE_SETUP i h) = Some h' \<and> group_inv pos_wf n h'"
    if "group_inv pos_wf n h" for h
    using stop_call_inv [OF that assms(2), of d STATE_SETUP] by auto
  obtain g1 where p: "map_option snd (snd_pcm_pause d False i g) = Some g1" "group_inv pos_wf n g1"
    using pause_call_inv [OF assms(1,2), of d False] by auto
  obtain g2 where "(case state (g ! i) of
       STATE_PAUSED \<Rightarrow> Option.bind (map_option snd (snd_pcm_pause d False i g))
         (\<lambda>g. map_option snd (snd_pcm_stop d STATE_SETUP i g))
     | STATE_SUSPENDED \<Rightarrow> map_option snd (snd_pcm_stop d STATE_SETUP i g)
     | _ \<Rightarrow> Some g) = Some g2" "group_inv pos_wf n g2"
    using stop [OF assms(1)] stop [OF p(2)] p(1) assms(1) by (cases "state (g ! i)") auto
  then show ?thesis using inv_action.action_nonatomic_inv [OF prepare_inv_action [OF assms(3)] _ assms(2), of g2]
    by (simp add: snd_pcm_prepare_def Let_def)
qed

lemma drop_call_inv:
  assumes "group_inv pos_wf n g" "i < n"
  shows "\<exists>r g'. snd_pcm_drop d i g = Some (r, g') \<and> group_inv pos_wf n g'"
proof -
  obtain g1 where p: "(if state (g ! i) = STATE_PAUSED then map_option snd (snd_pcm_pause d False i g)
      else Some g) = Some g1" "group_inv pos_wf n g1"
    using release_pause_inv [OF assms] by blast
  then show ?thesis using stop_call_inv [OF p(2) assms(2), of d STATE_SETUP] assms(1)
    by (auto simp: snd_pcm_drop_def)
qed

lemma rewind_call_inv:
  assumes "group_inv pos_wf n g" "i < n"
  shows "\<exists>r g'. snd_pcm_rewind d k i g = Some (r, g') \<and> group_inv pos_wf n g'"
proof -
  obtain r g1 where h: "do_pcm_hwsync d i g = Some (r, g1)" "group_inv pos_wf n g1"
    using hwsync_inv [OF assms] by blast
  obtain q g2 where "rewind_appl_ptr d k (snd_pcm_hw_avail (g1 ! i)) i g1 = (q, g2)" "group_inv pos_wf n g2"
    using rewind_appl_ptr_inv [OF h(2) assms(2)] by (metis prod.collapse)
  then show ?thesis using h assms(1) by (simp add: snd_pcm_rewind_def)
qed

lemma period_elapsed_inv:
  assumes "group_inv pos_wf n g" "i < n"
  shows "\<exists>r g'. snd_pcm_period_elapsed d i g = Some (r, g') \<and> group_inv pos_wf n g'"
  using update_hw_ptr0_inv [OF assms, of d True] assms(1) by (auto simp: snd_pcm_period_elapsed_def)

lemma xrun_call_inv:
  assumes "group_inv pos_wf n g" "i < n"
  shows "\<exists>r g'. snd_pcm_xrun d i g = Some (r, g') \<and> group_inv pos_wf n g'"
  using pcm_xrun_inv [OF assms, of d] assms(1) by (auto simp: snd_pcm_xrun_def split: pcm_state.split)

lemma forward_call_inv:
  assumes "group_inv pos_wf n g" "i < n"
  shows "\<exists>r g'. snd_pcm_forward d k i g = Some (r, g') \<and>
    (sound_call d (FORWARD k) i g \<longrightarrow> group_inv pos_wf n g')"
proof -
  obtain r g1 where h: "do_pcm_hwsync d i g = Some (r, g1)" "group_inv pos_wf n g1"
    using hwsync_inv [OF assms] by blast
  obtain q g2 where "forward_appl_ptr d k (snd_pcm_avail (g1 ! i)) i g1 = (q, g2)"
    "forward_fits k (g1 ! i) \<longrightarrow> group_inv pos_wf n g2"
    using forward_appl_ptr_inv [OF h(2) assms(2)] by (metis prod.collapse)
  then show ?thesis using h assms(1) by (simp add: snd_pcm_forward_def sound_call_def)
qed

lemma reset_call_inv:
  assumes "group_inv pos_wf n g" "i < n" "good_reset d"
  shows "\<exists>r g'. snd_pcm_reset d i g = Some (r, g') \<and> group_inv pos_wf n g'"
  unfolding snd_pcm_reset_def
  using inv_action.action_nonatomic_inv [OF reset_inv_action [OF assms(3)] assms(1,2)] .

text \<open>Every call returns, and the sound ones keep the invariant.\<close>

lemma run_call_inv:
  assumes "group_inv pos_wf n g" "i < n" "good_reset d \<or> sound_call d c i g"
  shows "\<exists>r g'. run_call d c i g = Some (r, g') \<and> (sound_call d c i g \<longrightarrow> group_inv pos_wf n g')"
proof (cases c)
  case ELAPSED
  then show ?thesis using period_elapsed_inv [OF assms(1,2), of d] by (auto simp: sound_call_def)
next
  case (FORWARD k)
  then show ?thesis using forward_call_inv [OF assms(1,2)] by simp
next
  case RESET
  then show ?thesis using reset_call_inv [OF assms(1,2), of d] assms(3) by (auto simp: sound_call_def)
next
  case (PREPARE f)
  then show ?thesis using prepare_call_inv [OF assms(1,2), of d f] assms(3) by (auto simp: sound_call_def)
next
  case (STOP st)
  then show ?thesis using stop_call_inv [OF assms(1,2), of d st] by (simp add: sound_call_def)
next
  case (PAUSE push)
  then show ?thesis using pause_call_inv [OF assms(1,2), of d push] by (simp add: sound_call_def)
next
  case (REWIND k)
  then show ?thesis using rewind_call_inv [OF assms(1,2), of d k] by (simp add: sound_call_def)
qed (simp_all add: sound_call_def snd_pcm_start_def start_inv.action_inv xrun_call_inv snd_pcm_suspend_def
   suspend_inv.action_inv snd_pcm_resume_def resume_inv.action_inv drop_call_inv snd_pcm_hwsync_def hwsync_inv assms(1,2))

lemma drain_loop_inv:
  assumes "drain_loop d i res es g = Some (r, g')" "group_inv pos_wf n g" "i < n"
    and "\<And>e h. e \<in> set es \<Longrightarrow> group_inv pos_wf n h \<Longrightarrow> group_inv pos_wf n (meanwhile e h)"
  shows "group_inv pos_wf n g'"
  using assms
proof (induction es arbitrary: g)
  case (Cons e es)
  let ?h = "meanwhile e g"
  have h: "group_inv pos_wf n ?h" using Cons.prems by simp
  obtain q k where "snd_pcm_stop d STATE_SETUP i ?h = Some (q, k)" "group_inv pos_wf n k"
    using stop_call_inv [OF h Cons.prems(3)] by blast
  then show ?case using Cons.prems h Cons.IH [OF _ h]
    by (auto simp: Let_def split: if_splits elim!: drain_loopE)
qed simp

lemma drain_call_inv:
  assumes "snd_pcm_drain d file es i g = Some (r, g')" "group_inv pos_wf n g" "i < n"
    and "\<And>e h. e \<in> set es \<Longrightarrow> group_inv pos_wf n h \<Longrightarrow> group_inv pos_wf n (meanwhile e h)"
  shows "group_inv pos_wf n g'"
proof -
  obtain g1 where p: "(if state (g ! i) = STATE_PAUSED then map_option snd (snd_pcm_pause d False i g)
      else Some g) = Some g1" "group_inv pos_wf n g1"
    using release_pause_inv [OF assms(2,3)] by blast
  obtain q g2 where a: "snd_pcm_action (snd_pcm_action_drain_init d) i g1 = Some (q, g2)" "group_inv pos_wf n g2"
    using drain_inv.action_inv [OF p(2) assms(3)] by blast
  show ?thesis using assms(1,2) p(1) a drain_loop_inv [OF _ a(2) assms(3,4)]
    by (auto simp: snd_pcm_drain_def Let_def split: if_splits)
qed

lemma step_inv: "pcm_step sound_call g g' \<Longrightarrow> group_inv pos_wf n g \<Longrightarrow> group_inv pos_wf n g'"
proof (induction rule: pcm_step.induct)
  case (call i g d c r g')
  then show ?case using run_call_inv [of n g i d c] by (auto simp: group_inv_def)
next
  case (drain i g es d fl r g')
  have "group_inv pos_wf n (meanwhile e h)" if "e \<in> set es" "group_inv pos_wf n h" for e h
  proof -
    have "(\<lambda>x y. pcm_step sound_call x y \<and> (group_inv pos_wf n x \<longrightarrow> group_inv pos_wf n y))\<^sup>*\<^sup>* h (meanwhile e h)"
      using drain.IH that(1) by blast
    then show ?thesis using that(2) by (induction rule: rtranclp_induct) simp_all
  qed
  then show ?case using drain_call_inv [OF drain.hyps(2) drain.prems] drain.prems drain.hyps(1)
    by (auto simp: group_inv_def)
qed


section \<open>Properties\<close>

text \<open>
  C1. Safety and progress of the whole runtime. From a group of well-formed streams, whatever the
  driver answers at each call, no sequence of calls (start, stop, overrun, pause, suspend, resume,
  reset, prepare, drop, hwsync, period interrupts, forward and rewind, and drains that sleep while
  other calls go on) leaves the invariant: the ring keeps its shape, both pointers stay below the
  boundary, the hardware pointer stays in the buffer at \<^verbatim>\<open>hw_ptr_base\<close> and the silence within the
  buffer. In every state so reached every call returns: no division by zero and no endless loop. Two
  conditions, both in \<open>sound_call\<close>: a forward of a capture stream does not move \<^verbatim>\<open>appl_ptr\<close> past \<^verbatim>\<open>LONG_MAX\<close> before
  the wrap (otherwise it still returns, but \<^verbatim>\<open>forward_appl_ptr\<close> leaves the pointer beyond the boundary, as
  \<open>forward_overflow\<close> shows), and the RESET ioctl of a driver, when it is not the library's, leaves the hardware pointer in the buffer.
  A well-formed stream without period interrupts has a buffer that lasts at least one jiffy.
  Transfers, \<^verbatim>\<open>sync_ptr\<close> (which stores any application pointer a program passes) and new
  parameters are not calls of this machine.
\<close>

theorem reachable_well_formed:
  assumes "(pcm_step sound_call)\<^sup>*\<^sup>* g g'" "group_inv pos_wf n g"
  shows "group_inv pos_wf n g' \<and>
    (\<forall>d c i. i < n \<longrightarrow> good_reset d \<longrightarrow> (\<exists>r g''. run_call d c i g' = Some (r, g'') \<and>
       (sound_call d c i g' \<longrightarrow> group_inv pos_wf n g'')))"
proof -
  from assms have g': "group_inv pos_wf n g'"
    by (induction rule: rtranclp_induct) (auto intro: step_inv)
  then show ?thesis using run_call_inv [OF g'] by blast
qed

lemma sample_group_wf: "group_inv pos_wf 1 [sample_stream]"
  by (simp add: group_inv_def pos_wf_def ring_wf_def sample_stream_def)

theorem reachable_well_formed_witness:
  "\<exists>g'. pcm_step sound_call [sample_stream] g' \<and> group_inv pos_wf 1 g'"
proof -
  obtain r g' where c: "run_call sample_driver ELAPSED 0 [sample_stream] = Some (r, g')"
    using run_call_inv [OF sample_group_wf zero_less_one, of sample_driver ELAPSED]
    by (auto simp: sound_call_def)
  have s: "pcm_step sound_call [sample_stream] g'"
    by (rule pcm_step.call [OF _ _ c]) (simp_all add: sound_call_def)
  moreover have "group_inv pos_wf 1 g'"
    using reachable_well_formed [OF r_into_rtranclp [of "pcm_step sound_call", OF s] sample_group_wf] by (rule conjunct1)
  ultimately show ?thesis by (intro exI conjI)
qed

text \<open>Preparing a configured stream sets both pointers and establishes the invariant.\<close>

lemma prepare_establishes:
  assumes "ring_shape s" "period_size s \<noteq> 0" "rate s \<noteq> 0" "min_align s \<noteq> 0" "\<not> no_period_wakeup s"
    and "state s \<in> {STATE_SETUP, STATE_PREPARED, STATE_XRUN}" "\<not> drv_prepare d 0 < 0"
  shows "\<exists>g'. snd_pcm_prepare (lib_ioctl d) file 0 [s] = Some (0, g') \<and> group_inv pos_wf 1 g' \<and>
    state (g' ! 0) = STATE_PREPARED"
proof -
  have "(case state s of STATE_PAUSED \<Rightarrow> a | STATE_SUSPENDED \<Rightarrow> b | _ \<Rightarrow> c) = c" for a b c :: "pcm_group option"
    using assms(6) by auto
  moreover have "state s \<noteq> STATE_OPEN" "state s \<noteq> STATE_DISCONNECTED" "state s \<noteq> STATE_RUNNING"
    "state s \<noteq> STATE_DRAINING" using assms(6) by auto
  ultimately show ?thesis using assms(1-5,7)
    by (simp add: snd_pcm_prepare_def snd_pcm_action_nonatomic_def snd_pcm_stream_linked_def
        snd_pcm_action_single_def snd_pcm_action_prepare_def snd_pcm_pre_prepare_def upd_def
        snd_pcm_do_prepare_def snd_pcm_do_reset_def ops_ioctl_reset_def lib_ioctl_def snd_pcm_running_def
        snd_pcm_lib_ioctl_reset_def snd_pcm_post_prepare_def snd_pcm_sync_stop_def snd_pcm_set_state_def
        snd_pcm_buffer_access_unlock_def group_inv_def pos_wf_def ring_wf_def ring_shape_def Let_def)
qed

text \<open>
  C2. A configured stream is safe. When \<^verbatim>\<open>snd_pcm_hw_params\<close> has succeeded with a moderate buffer
  (so that boundary and buffer fit a signed long),
  period interrupts, a non-zero rate and period, and the driver then accepts \<^verbatim>\<open>snd_pcm_prepare\<close>, its RESET ioctl
  being the library's, the stream, not linked to others, is prepared, and every state the calls of \<open>pcm_step\<close> under the
  condition \<open>sound_call\<close> of C1 lead to from there is well formed.
\<close>

theorem configured_stream_safe:
  assumes "snd_pcm_hw_params so ss t0 p ins = Some (0, q, ins')" "moderate (params_buffer_size q)"
    and "params_period_size q \<noteq> 0" "params_rate q \<noteq> 0" "hp_flags q AND SNDRV_PCM_HW_PARAMS_NO_PERIOD_WAKEUP = 0"
    and "\<not> drv_prepare d 0 < 0"
  shows "\<exists>g. snd_pcm_prepare (lib_ioctl d) file 0 [strm ins'] = Some (0, g) \<and> state (g ! 0) = STATE_PREPARED \<and>
    (\<forall>g'. (pcm_step sound_call)\<^sup>*\<^sup>* g g' \<longrightarrow> group_inv pos_wf 1 g')"
proof -
  let ?i = "ins\<lparr>strm := snd_pcm_sync_stop (strm ins)\<rparr>"
  have ok: "\<not> (state (strm ins) \<notin> {STATE_OPEN, STATE_SETUP, STATE_PREPARED} \<or> \<not> oss_stream ins \<and> mmap_count ins \<noteq> 0)"
    using assms(1) by (auto simp: snd_pcm_hw_params_def Let_def split: if_splits)
  obtain e where c: "choose_params so ss t0 p = Some (e, q)" "\<not> e < 0"
    using assms(1) ok by (auto simp: snd_pcm_hw_params_def Let_def split: option.splits prod.splits if_splits)
  obtain e2 i2 where a: "allocate_params so q ?i = (e2, i2)" by fastforce
  obtain i3 where i3: "install_params q i2 = Some i3" "ring_shape (strm i3)" "min_align (strm i3) \<in> {1, 2, 4, 8}"
    using install_params_ring [OF assms(2), of i2] by blast
  have f: "strm ins' = snd_pcm_buffer_access_unlock (snd_pcm_set_state STATE_SETUP (strm i3))"
    using assms(1) ok c a i3(1) by (auto simp: snd_pcm_hw_params_def Let_def split: if_splits)
  have st: "state (strm ins) \<in> {STATE_OPEN, STATE_SETUP, STATE_PREPARED}" using ok by blast
  have "state (strm i3) \<noteq> STATE_DISCONNECTED" "period_size (strm i3) \<noteq> 0" "rate (strm i3) \<noteq> 0"
    "\<not> no_period_wakeup (strm i3)"
    using i3(1) st assms(3-5) allocate_params_strm [OF a]
    by (auto simp: install_params_def Let_def split: option.splits prod.splits)
  moreover have "min_align (strm i3) \<noteq> 0" using i3(3) by (elim insertE) simp_all
  ultimately have "\<exists>g. snd_pcm_prepare (lib_ioctl d) file 0 [strm ins'] = Some (0, g) \<and> group_inv pos_wf 1 g \<and>
      state (g ! 0) = STATE_PREPARED"
    using i3(2) assms(6) f
    by (intro prepare_establishes) (simp_all add: snd_pcm_buffer_access_unlock_def snd_pcm_set_state_def ring_shape_def)
  moreover have "group_inv pos_wf 1 g'" if "(pcm_step sound_call)\<^sup>*\<^sup>* g g'" "group_inv pos_wf 1 g" for g g'
    using that by (induction rule: rtranclp_induct) (auto intro: step_inv)
  ultimately show ?thesis by blast
qed


lemma setup_sample:
  "map_option (\<lambda>(e, q, ins'). (e, params_buffer_size q, params_period_size q, params_rate q, hp_flags q))
     (snd_pcm_hw_params sample_ops sample_substream (fixed 0) sample_params sample_instance)
   = Some (0, 32, 8, 8000, 0)"
  by code_simp

theorem configured_stream_safe_witness:
  "\<exists>q ins' g. snd_pcm_hw_params sample_ops sample_substream (fixed 0) sample_params sample_instance =
       Some (0, q, ins') \<and>
     snd_pcm_prepare (lib_ioctl sample_driver) None 0 [strm ins'] = Some (0, g) \<and> state (g ! 0) = STATE_PREPARED"
proof -
  obtain q ins' where h: "snd_pcm_hw_params sample_ops sample_substream (fixed 0) sample_params sample_instance =
       Some (0, q, ins')"
    and q: "params_buffer_size q = 32" "params_period_size q = 8" "params_rate q = 8000" "hp_flags q = 0"
    using setup_sample by (auto simp: map_option_case split: option.splits)
  have "moderate (params_buffer_size q)" unfolding q moderate_def by simp
  from configured_stream_safe [OF h this, of sample_driver None] h show ?thesis
    by (auto simp: q sample_instance_def sample_ops_def sample_driver_def)
qed

text \<open>
  The wrap of \<^verbatim>\<open>forward_appl_ptr\<close> compares signed values, so it needs the frames it may move to
  fit: when a capture stream that is never stopped for an overrun has fallen so far behind that
  \<^verbatim>\<open>appl_ptr + frames\<close> exceeds \<^verbatim>\<open>LONG_MAX\<close>, the pointer is not wrapped and ends beyond the boundary,
  although the frames were available.
\<close>

theorem forward_overflow:
  assumes "ring_wf (g ! i)" "i < length g" "\<not> playback (g ! i)" "drv_ack d = None"
    and "0 < unat n" "n \<le> snd_pcm_avail (g ! i)" "2147483648 \<le> unat (appl_ptr (g ! i)) + unat n"
  shows "\<exists>g'. forward_appl_ptr d n (snd_pcm_avail (g ! i)) i g = (int (unat n), g') \<and>
     unat (boundary (g ! i)) < unat (appl_ptr (g' ! i)) \<and> \<not> ring_wf (g' ! i)"
proof -
  let ?s = "g ! i"
  let ?new = "appl_ptr ?s + n"
  have w: "unat (appl_ptr ?s) < unat (boundary ?s)" "unat (boundary ?s) < 2147483648"
    using assms(1) by (simp_all add: ring_wf_def)
  have av: "unat (snd_pcm_avail ?s) < 2147483648" using avail_signed [OF assms(1)] .
  have n: "unat n \<le> unat (snd_pcm_avail ?s)" using assms(6) by (simp add: word_le_nat_alt)
  have s: "sint n = int (unat n)" "sint (snd_pcm_avail ?s) = int (unat (snd_pcm_avail ?s))"
    "sint (boundary ?s) = int (unat (boundary ?s))"
    using n av w by (intro sint_unat; linarith)+
  have new: "unat ?new = unat (appl_ptr ?s) + unat n" using w n av by (simp add: unat_add32)
  have "sint ?new < 0" using assms(7) by (simp add: sint_neg_iff new)
  then have "\<not> sint (boundary ?s) \<le> sint ?new" using s(3) by linarith
  moreover have "\<not> sint (snd_pcm_avail ?s) \<le> 0" unfolding s(2) using n assms(5) by linarith
  moreover have "\<not> n > snd_pcm_avail ?s" using assms(6) by (simp add: not_less)
  moreover have "n \<noteq> 0" using assms(5) by auto
  ultimately have "forward_appl_ptr d n (snd_pcm_avail ?s) i g = (int (unat n), upd i (\<lambda>s. s\<lparr>appl_ptr := ?new\<rparr>) g)"
    using assms(4) s(1) by (simp add: forward_appl_ptr_def pcm_lib_apply_appl_ptr_def Let_def)
  moreover have "unat (boundary ?s) < unat ?new" using new assms(7) w(2) by linarith
  ultimately show ?thesis using assms(2) by (simp add: ring_wf_def)
qed

theorem forward_overflow_witness:
  "\<exists>g'. forward_appl_ptr sample_driver 700000000 (snd_pcm_avail (sample_stream\<lparr>playback := False, buffer_size := 3,
        boundary := 1610612736, hw_ptr := 1400000000, appl_ptr := 1500000000\<rparr>)) 0
        [sample_stream\<lparr>playback := False, buffer_size := 3, boundary := 1610612736, hw_ptr := 1400000000,
         appl_ptr := 1500000000\<rparr>] = (700000000, g') \<and> 1610612736 < unat (appl_ptr (g' ! 0))"
proof -
  let ?s = "sample_stream\<lparr>playback := False, buffer_size := 3, boundary := 1610612736, hw_ptr := 1400000000,
     appl_ptr := 1500000000\<rparr>"
  have wf: "ring_wf ?s" by (simp add: ring_wf_def)
  have "unat (snd_pcm_avail ?s) = 1510612736"
    using capture_avail_mod [OF wf] by (simp add: snd_pcm_avail_def)
  then have "700000000 \<le> snd_pcm_avail ?s" by (simp add: word_le_nat_alt)
  then show ?thesis using forward_overflow [of "[?s]" 0 sample_driver 700000000] wf
    by (auto simp: sample_driver_def)
qed

end
