(* ===== verification/SeqTimer.thy ===== *)
theory SeqTimer
  imports Prelude
begin

text \<open>
  The time keeper of a sequencer queue: the inline functions of \<^verbatim>\<open>core/seq/seq_timer.h\<close> and the
  operations of \<^verbatim>\<open>core/seq/seq_timer.c\<close>. The functions run with the timer lock held. The ALSA timer
  below is an interface: its resolution and kind are fields of the open instance, its start and pause
  calls are recorded in \<open>timer_log\<close>, and opening it gives an error number chosen by the environment.
  \<^verbatim>\<open>unsigned long\<close> is 32 bits wide, so the arithmetic wraps; \<open>None\<close> is a division by zero.
\<close>

section \<open>Real time\<close>

datatype real_time = Real_time (tv_sec: u32) (tv_nsec: u32)

definition snd_seq_compare_tick_time :: "u32 \<Rightarrow> u32 \<Rightarrow> bool" where
  "snd_seq_compare_tick_time a b \<longleftrightarrow> a \<ge> b"

definition snd_seq_compare_real_time :: "real_time \<Rightarrow> real_time \<Rightarrow> bool" where
  "snd_seq_compare_real_time a b \<longleftrightarrow>
     tv_sec a > tv_sec b \<or> tv_sec a = tv_sec b \<and> tv_nsec a \<ge> tv_nsec b"

text \<open>Real times are ordered lexicographically, which is what the code compares.\<close>

instantiation real_time :: linorder
begin

definition less_eq_real_time :: "real_time \<Rightarrow> real_time \<Rightarrow> bool" where
  "less_eq_real_time a b \<longleftrightarrow> snd_seq_compare_real_time b a"

definition less_real_time :: "real_time \<Rightarrow> real_time \<Rightarrow> bool" where
  "less_real_time a b \<longleftrightarrow> \<not> snd_seq_compare_real_time a b"

instance
proof
  fix a b c :: real_time
  show "a < b \<longleftrightarrow> a \<le> b \<and> \<not> b \<le> a"
    by (auto simp: less_eq_real_time_def less_real_time_def snd_seq_compare_real_time_def)
  show "a \<le> a" by (simp add: less_eq_real_time_def snd_seq_compare_real_time_def)
  show "a \<le> b \<Longrightarrow> b \<le> c \<Longrightarrow> a \<le> c"
    by (auto simp: less_eq_real_time_def snd_seq_compare_real_time_def)
  show "a \<le> b \<Longrightarrow> b \<le> a \<Longrightarrow> a = b"
    by (cases a; cases b) (auto simp: less_eq_real_time_def snd_seq_compare_real_time_def)
  show "a \<le> b \<or> b \<le> a"
    by (auto simp: less_eq_real_time_def snd_seq_compare_real_time_def)
qed

end

abbreviation (input) NSEC_PER_SEC :: u32 where "NSEC_PER_SEC \<equiv> 1000000000"

function snd_seq_sanity_real_time :: "real_time \<Rightarrow> real_time" where
  "snd_seq_sanity_real_time t =
     (if tv_nsec t \<ge> NSEC_PER_SEC
      then snd_seq_sanity_real_time (Real_time (tv_sec t + 1) (tv_nsec t - NSEC_PER_SEC))
      else t)"
  by pat_completeness auto

termination
  by (relation "measure (\<lambda>t. unat (tv_nsec t))") (auto simp: u32_arith)

declare snd_seq_sanity_real_time.simps [simp del]

definition snd_seq_inc_real_time :: "real_time \<Rightarrow> real_time \<Rightarrow> real_time" where
  "snd_seq_inc_real_time t inc =
     snd_seq_sanity_real_time (Real_time (tv_sec t + tv_sec inc) (tv_nsec t + tv_nsec inc))"

definition snd_seq_inc_time_nsec :: "real_time \<Rightarrow> u32 \<Rightarrow> real_time" where
  "snd_seq_inc_time_nsec t nsec = snd_seq_sanity_real_time (Real_time (tv_sec t) (tv_nsec t + nsec))"

section \<open>State\<close>

record timer_tick =
  cur_tick :: u32
  tick_res :: u32
  fraction :: u32

text \<open>
  The open timer instance: whether it still has its timer (\<^verbatim>\<open>timeri->timer\<close>), whether that is a slave,
  and what \<^verbatim>\<open>snd_timer_resolution\<close> answers.
\<close>

record timer_inst =
  ti_timer :: bool
  ti_slave :: bool
  ti_res :: u32

datatype timer_call = Timer_start u32 | Timer_pause

record seq_timer =
  running :: bool
  initialized :: bool
  tempo :: u32
  ppq :: u32
  cur_time :: real_time
  tick :: timer_tick
  alsa_timer :: bool
  timeri :: "timer_inst option"
  ticks :: u32
  preferred_res :: u32
  skew :: u32
  skew_base :: u32
  timer_log :: "timer_call list"

abbreviation (input) SKEW_BASE :: u32 where "SKEW_BASE \<equiv> 0x10000"
abbreviation (input) MIN_FREQUENCY :: u32 where "MIN_FREQUENCY \<equiv> 10"
abbreviation (input) MAX_FREQUENCY :: u32 where "MAX_FREQUENCY \<equiv> 6250"
abbreviation (input) DEFAULT_FREQUENCY :: u32 where "DEFAULT_FREQUENCY \<equiv> 1000"

section \<open>Operations\<close>

definition snd_seq_timer_update_tick :: "u32 \<Rightarrow> timer_tick \<Rightarrow> timer_tick" where
  "snd_seq_timer_update_tick res t =
     (if tick_res t > 0
      then let f = fraction t + res
           in t\<lparr>cur_tick := cur_tick t + f div tick_res t, fraction := f mod tick_res t\<rparr>
      else t)"

definition snd_seq_timer_set_tick_resolution :: "seq_timer \<Rightarrow> seq_timer option" where
  "snd_seq_timer_set_tick_resolution tmr =
     (if ppq tmr = 0 then None
      else
        let res = (if tempo tmr < 1000000 then tempo tmr * 1000 div ppq tmr
                   else (tempo tmr div ppq tmr) * 1000 + ((tempo tmr mod ppq tmr) * 1000) div ppq tmr);
            res = (if res = 0 then 1 else res)
        in Some (tmr\<lparr>tick := snd_seq_timer_update_tick 0 ((tick tmr)\<lparr>tick_res := res\<rparr>)\<rparr>))"

text \<open>\<open>pref\<close> is the module parameter \<^verbatim>\<open>seq_default_timer_resolution\<close>.\<close>

definition snd_seq_timer_defaults :: "u32 \<Rightarrow> seq_timer \<Rightarrow> seq_timer option" where
  "snd_seq_timer_defaults pref tmr =
     map_option (\<lambda>tmr. tmr\<lparr>running := False, alsa_timer := True, preferred_res := pref,
         skew := SKEW_BASE, skew_base := SKEW_BASE\<rparr>)
       (snd_seq_timer_set_tick_resolution (tmr\<lparr>ppq := 96, tempo := 500000\<rparr>))"

definition seq_timer_reset :: "seq_timer \<Rightarrow> seq_timer" where
  "seq_timer_reset tmr =
     tmr\<lparr>cur_time := Real_time 0 0, tick := (tick tmr)\<lparr>cur_tick := 0, fraction := 0\<rparr>\<rparr>"

text \<open>\<^verbatim>\<open>kzalloc\<close> succeeded.\<close>

definition timer_zero :: seq_timer where
  "timer_zero = \<lparr>running = False, initialized = False, tempo = 0, ppq = 0, cur_time = Real_time 0 0,
     tick = \<lparr>cur_tick = 0, tick_res = 0, fraction = 0\<rparr>, alsa_timer = False, timeri = None, ticks = 0,
     preferred_res = 0, skew = 0, skew_base = 0, timer_log = []\<rparr>"

definition snd_seq_timer_new :: "u32 \<Rightarrow> seq_timer option" where
  "snd_seq_timer_new pref = map_option seq_timer_reset (snd_seq_timer_defaults pref timer_zero)"

text \<open>The elapsed time of an interrupt, with the skew applied.\<close>

definition skewed :: "seq_timer \<Rightarrow> u32 \<Rightarrow> u32" where
  "skewed tmr res =
     (if skew tmr \<noteq> skew_base tmr
      then (drop_bit 16 res) * skew tmr + drop_bit 16 ((res AND 0xffff) * skew tmr)
      else res)"

definition snd_seq_timer_interrupt :: "u32 \<Rightarrow> u32 \<Rightarrow> seq_timer \<Rightarrow> seq_timer" where
  "snd_seq_timer_interrupt res n tmr =
     (if \<not> running tmr then tmr
      else
        let res = skewed tmr (res * n)
        in tmr\<lparr>cur_time := snd_seq_inc_time_nsec (cur_time tmr) res,
               tick := snd_seq_timer_update_tick res (tick tmr)\<rparr>)"

definition snd_seq_timer_set_tempo :: "u32 \<Rightarrow> seq_timer \<Rightarrow> (int \<times> seq_timer) option" where
  "snd_seq_timer_set_tempo t tmr =
     (if sint t \<le> 0 then Some (- EINVAL, tmr)
      else if t \<noteq> tempo tmr
      then map_option (Pair 0) (snd_seq_timer_set_tick_resolution (tmr\<lparr>tempo := t\<rparr>))
      else Some (0, tmr))"

definition snd_seq_timer_set_tempo_ppq :: "u32 \<Rightarrow> u32 \<Rightarrow> seq_timer \<Rightarrow> (int \<times> seq_timer) option" where
  "snd_seq_timer_set_tempo_ppq t p tmr =
     (if sint t \<le> 0 \<or> sint p \<le> 0 then Some (- EINVAL, tmr)
      else if running tmr \<and> p \<noteq> ppq tmr then Some (- EBUSY, tmr)
      else
        let changed = (t \<noteq> tempo tmr \<or> p \<noteq> ppq tmr);
            tmr = tmr\<lparr>tempo := t, ppq := p\<rparr>
        in if changed then map_option (Pair 0) (snd_seq_timer_set_tick_resolution tmr) else Some (0, tmr))"

definition snd_seq_timer_set_position_tick :: "u32 \<Rightarrow> seq_timer \<Rightarrow> int \<times> seq_timer" where
  "snd_seq_timer_set_position_tick pos tmr =
     (0, tmr\<lparr>tick := (tick tmr)\<lparr>cur_tick := pos, fraction := 0\<rparr>\<rparr>)"

definition snd_seq_timer_set_position_time :: "real_time \<Rightarrow> seq_timer \<Rightarrow> int \<times> seq_timer" where
  "snd_seq_timer_set_position_time pos tmr = (0, tmr\<lparr>cur_time := snd_seq_sanity_real_time pos\<rparr>)"

definition snd_seq_timer_set_skew :: "u32 \<Rightarrow> u32 \<Rightarrow> seq_timer \<Rightarrow> int \<times> seq_timer" where
  "snd_seq_timer_set_skew value base tmr =
     (if base \<noteq> SKEW_BASE then (- EINVAL, tmr) else (0, tmr\<lparr>skew := value\<rparr>))"

text \<open>
  \<open>alloc\<close>: the result of \<^verbatim>\<open>snd_timer_instance_new\<close>. \<open>open_own\<close> and \<open>open_system\<close> are what
  \<^verbatim>\<open>snd_timer_open\<close> gives for the timer's own identifier and for the global system timer: an instance or
  an error; \<open>retry\<close> says whether the code tries the second. No other thread opens the timer meanwhile.
\<close>

definition snd_seq_timer_open ::
  "bool \<Rightarrow> int + timer_inst \<Rightarrow> bool \<Rightarrow> int + timer_inst \<Rightarrow> seq_timer \<Rightarrow> int \<times> seq_timer" where
  "snd_seq_timer_open alloc open_own retry open_system tmr =
     (if timeri tmr \<noteq> None then (- EBUSY, tmr)
      else if \<not> alsa_timer tmr then (- EINVAL, tmr)
      else if \<not> alloc then (- ENOMEM, tmr)
      else
        case open_own of
          Inr t \<Rightarrow> (0, tmr\<lparr>timeri := Some t\<rparr>)
        | Inl err \<Rightarrow>
            if \<not> retry then (err, tmr)
            else case open_system of
                   Inr t \<Rightarrow> (0, tmr\<lparr>timeri := Some t\<rparr>)
                 | Inl err \<Rightarrow> (err, tmr))"

definition snd_seq_timer_close :: "seq_timer \<Rightarrow> int \<times> seq_timer" where
  "snd_seq_timer_close tmr = (0, tmr\<lparr>timeri := None\<rparr>)"

definition seq_timer_stop :: "seq_timer \<Rightarrow> int \<times> seq_timer" where
  "seq_timer_stop tmr =
     (if timeri tmr = None then (- EINVAL, tmr)
      else if \<not> running tmr then (0, tmr)
      else (0, tmr\<lparr>running := False, timer_log := timer_log tmr @ [Timer_pause]\<rparr>))"

text \<open>The frequency asked for, within the allowed range.\<close>

definition timer_frequency :: "u32 \<Rightarrow> u32" where
  "timer_frequency freq =
     (if freq = 0 then DEFAULT_FREQUENCY
      else if freq < MIN_FREQUENCY then MIN_FREQUENCY
      else if freq > MAX_FREQUENCY then MAX_FREQUENCY
      else freq)"

definition initialize_timer :: "seq_timer \<Rightarrow> (int \<times> seq_timer) option" where
  "initialize_timer tmr =
     (case timeri tmr of
        None \<Rightarrow> None
      | Some t \<Rightarrow>
          if \<not> ti_timer t then Some (- EINVAL, tmr)
          else
            let freq = timer_frequency (preferred_res tmr); r = ti_res t
            in if ti_slave t \<or> r = 0 then Some (0, tmr\<lparr>ticks := 1, initialized := True\<rparr>)
               else if r * freq = 0 then None
               else
                 let n = 1000000000 div (r * freq)
                 in Some (0, tmr\<lparr>ticks := (if n = 0 then 1 else n), initialized := True\<rparr>))"

definition timer_go :: "seq_timer \<Rightarrow> seq_timer" where
  "timer_go tmr = tmr\<lparr>timer_log := timer_log tmr @ [Timer_start (ticks tmr)], running := True\<rparr>"

definition seq_timer_start :: "seq_timer \<Rightarrow> (int \<times> seq_timer) option" where
  "seq_timer_start tmr =
     (if timeri tmr = None then Some (- EINVAL, tmr)
      else
        let tmr = (if running tmr then snd (seq_timer_stop tmr) else tmr)
        in case initialize_timer (seq_timer_reset tmr) of
             None \<Rightarrow> None
           | Some (err, tmr) \<Rightarrow> Some (if err < 0 then (- EINVAL, tmr) else (0, timer_go tmr)))"

definition seq_timer_continue :: "seq_timer \<Rightarrow> (int \<times> seq_timer) option" where
  "seq_timer_continue tmr =
     (if timeri tmr = None then Some (- EINVAL, tmr)
      else if running tmr then Some (- EBUSY, tmr)
      else if \<not> initialized tmr then
        (case initialize_timer (seq_timer_reset tmr) of
           None \<Rightarrow> None
         | Some (err, tmr) \<Rightarrow> Some (if err < 0 then (- EINVAL, tmr) else (0, timer_go tmr)))
      else Some (0, timer_go tmr))"

definition snd_seq_timer_delete :: "seq_timer \<Rightarrow> seq_timer" where
  "snd_seq_timer_delete tmr = seq_timer_reset (snd (seq_timer_stop (tmr\<lparr>running := False\<rparr>)))"

text \<open>\<open>elapsed\<close>: the time since the last update, as \<^verbatim>\<open>timespec64_sub\<close> gives it.\<close>

definition snd_seq_timer_get_cur_time :: "bool \<Rightarrow> real_time \<Rightarrow> seq_timer \<Rightarrow> real_time" where
  "snd_seq_timer_get_cur_time adjust elapsed tmr =
     (if adjust \<and> running tmr then snd_seq_inc_real_time (cur_time tmr) elapsed else cur_time tmr)"

definition snd_seq_timer_get_cur_tick :: "seq_timer \<Rightarrow> u32" where
  "snd_seq_timer_get_cur_tick tmr = cur_tick (tick tmr)"

section \<open>Elapsed time\<close>

definition nsecs :: "real_time \<Rightarrow> nat" where
  "nsecs t = unat (tv_sec t) * 1000000000 + unat (tv_nsec t)"

definition normal :: "real_time \<Rightarrow> bool" where
  "normal t \<longleftrightarrow> unat (tv_nsec t) < 1000000000"

lemma sanity_normal: "normal (snd_seq_sanity_real_time t)"
proof (induction t rule: snd_seq_sanity_real_time.induct)
  case (1 t)
  then show ?case
    by (cases "tv_nsec t \<ge> NSEC_PER_SEC")
      (simp_all add: snd_seq_sanity_real_time.simps [of t] normal_def word_le_nat_alt)
qed

lemma sanity_nsecs:
  "nsecs t < 4294967296 * 1000000000 \<Longrightarrow> nsecs (snd_seq_sanity_real_time t) = nsecs t"
proof (induction t rule: snd_seq_sanity_real_time.induct)
  case (1 t)
  show ?case
  proof (cases "tv_nsec t \<ge> NSEC_PER_SEC")
    case True
    let ?u = "Real_time (tv_sec t + 1) (tv_nsec t - NSEC_PER_SEC)"
    have n: "1000000000 \<le> unat (tv_nsec t)" using True by (simp add: word_le_nat_alt)
    have "unat (tv_sec t) + 1 < 4294967296" using 1(2) n unfolding nsecs_def by linarith
    then have "nsecs ?u = nsecs t"
      using n by (simp add: nsecs_def unat_add32 unat_sub32)
    then show ?thesis using 1 True by (simp add: snd_seq_sanity_real_time.simps [of t])
  qed (simp add: snd_seq_sanity_real_time.simps [of t])
qed

lemma inc_time_nsecs:
  assumes "normal t" "unat n \<le> 3294967295" "nsecs t + unat n < 4294967296 * 1000000000"
  shows "nsecs (snd_seq_inc_time_nsec t n) = nsecs t + unat n"
proof -
  have "unat (tv_nsec t + n) = unat (tv_nsec t) + unat n"
    using assms(1,2) by (simp add: unat_add32 normal_def)
  then have "nsecs (Real_time (tv_sec t) (tv_nsec t + n)) = nsecs t + unat n" by (simp add: nsecs_def)
  then show ?thesis using sanity_nsecs [of "Real_time (tv_sec t) (tv_nsec t + n)"] assms(3)
    by (simp add: snd_seq_inc_time_nsec_def)
qed

text \<open>The position of a tick counter in nanoseconds.\<close>

definition tick_nsecs :: "timer_tick \<Rightarrow> nat" where
  "tick_nsecs t = unat (cur_tick t) * unat (tick_res t) + unat (fraction t)"

definition tick_ok :: "timer_tick \<Rightarrow> bool" where
  "tick_ok t \<longleftrightarrow> unat (fraction t) < unat (tick_res t)"

lemma update_tick:
  assumes "tick_ok t" "unat (tick_res t) + unat n \<le> 4294967296"
    and "(tick_nsecs t + unat n) div unat (tick_res t) < 4294967296"
  shows "tick_nsecs (snd_seq_timer_update_tick n t) = tick_nsecs t + unat n"
    "tick_ok (snd_seq_timer_update_tick n t)" "tick_res (snd_seq_timer_update_tick n t) = tick_res t"
proof -
  let ?f = "fraction t + n" and ?r = "unat (tick_res t)"
  have r: "0 < ?r" "tick_res t > 0" using assms(1) by (auto simp: tick_ok_def word_gt_0)
  have f: "unat ?f = unat (fraction t) + unat n" using assms(1,2) by (simp add: unat_add32 tick_ok_def)
  have u: "snd_seq_timer_update_tick n t =
      t\<lparr>cur_tick := cur_tick t + ?f div tick_res t, fraction := ?f mod tick_res t\<rparr>"
    using r(2) by (simp add: snd_seq_timer_update_tick_def Let_def)
  have "unat (cur_tick t) + unat ?f div ?r = (tick_nsecs t + unat n) div ?r"
    using r(1) by (simp add: tick_nsecs_def f add.assoc)
  then have c: "unat (cur_tick t + ?f div tick_res t) = unat (cur_tick t) + unat ?f div ?r"
    using assms(3) by (simp add: unat_add32 unat_div_distrib)
  show "tick_nsecs (snd_seq_timer_update_tick n t) = tick_nsecs t + unat n"
    by (simp add: u tick_nsecs_def c unat_mod_distrib f distrib_right)
  show "tick_ok (snd_seq_timer_update_tick n t)"
    using r(1) by (simp add: u tick_ok_def unat_mod_distrib)
  show "tick_res (snd_seq_timer_update_tick n t) = tick_res t" by (simp add: u)
qed

text \<open>What the timer keeps at every interrupt.\<close>

definition timer_ok :: "seq_timer \<Rightarrow> bool" where
  "timer_ok tmr \<longleftrightarrow> normal (cur_time tmr) \<and> tick_ok (tick tmr) \<and> ppq tmr \<noteq> 0"

text \<open>Interrupts one after the other, each given by the resolution and the number of its ticks.\<close>

definition interrupts :: "(u32 \<times> u32) list \<Rightarrow> seq_timer \<Rightarrow> seq_timer" where
  "interrupts es tmr = fold (\<lambda>(r, n). snd_seq_timer_interrupt r n) es tmr"

text \<open>
  No time is lost between the interrupts. A running timer without skew that has seen any sequence
  of interrupts, each shorter than about three seconds less a tick, shows exactly the sum of their
  lengths: the real time is the old one plus the sum, normalised, and the song position counts every
  whole tick of it, the rest being kept as the fraction.
\<close>

theorem interrupts_exact:
  assumes "running tmr" "skew tmr = skew_base tmr" "timer_ok tmr"
    and "\<forall>(r, n)\<in>set es. unat r * unat n \<le> 3294967295 \<and>
           unat (tick_res (tick tmr)) + unat r * unat n \<le> 4294967296"
    and "nsecs (cur_time tmr) + (\<Sum>(r, n)\<leftarrow>es. unat r * unat n) < 4294967296 * 1000000000"
    and "(tick_nsecs (tick tmr) + (\<Sum>(r, n)\<leftarrow>es. unat r * unat n)) div unat (tick_res (tick tmr)) < 4294967296"
  shows "nsecs (cur_time (interrupts es tmr)) = nsecs (cur_time tmr) + (\<Sum>(r, n)\<leftarrow>es. unat r * unat n) \<and>
     tick_nsecs (tick (interrupts es tmr)) = tick_nsecs (tick tmr) + (\<Sum>(r, n)\<leftarrow>es. unat r * unat n) \<and>
     timer_ok (interrupts es tmr)"
  using assms
proof (induction es arbitrary: tmr)
  case Nil
  then show ?case by (simp add: interrupts_def)
next
  case (Cons e es)
  obtain r n where e: "e = (r, n)" by fastforce
  let ?S = "\<Sum>(r, n)\<leftarrow>es. unat r * unat n" and ?k = "unat r * unat n"
  let ?t = "snd_seq_timer_interrupt r n tmr"
  have k: "?k \<le> 3294967295" "unat (tick_res (tick tmr)) + ?k \<le> 4294967296" using Cons.prems(4) e by auto
  have rn: "unat (r * n) = ?k" using k(1) by (simp add: unat_word_ariths)
  have t: "cur_time ?t = snd_seq_inc_time_nsec (cur_time tmr) (r * n)"
    "tick ?t = snd_seq_timer_update_tick (r * n) (tick tmr)" "running ?t" "skew ?t = skew_base ?t" "ppq ?t = ppq tmr"
    using Cons.prems(1,2) by (simp_all add: snd_seq_timer_interrupt_def skewed_def Let_def)
  have ok: "normal (cur_time tmr)" "tick_ok (tick tmr)" "ppq tmr \<noteq> 0" using Cons.prems(3) by (simp_all add: timer_ok_def)
  have time: "nsecs (cur_time ?t) = nsecs (cur_time tmr) + ?k"
    using inc_time_nsecs [OF ok(1), of "r * n"] k(1) Cons.prems(5) unfolding t(1) rn by (simp add: e)
  have "(tick_nsecs (tick tmr) + ?k) div unat (tick_res (tick tmr)) \<le>
      (tick_nsecs (tick tmr) + (\<Sum>(r, n)\<leftarrow>e # es. unat r * unat n)) div unat (tick_res (tick tmr))"
    by (rule div_le_mono) (simp add: e)
  then have "(tick_nsecs (tick tmr) + ?k) div unat (tick_res (tick tmr)) < 4294967296"
    using Cons.prems(6) by (rule le_less_trans)
  note tk = update_tick [OF ok(2), of "r * n", unfolded rn, OF k(2) this, folded t(2)]
  have "normal (cur_time ?t)" unfolding t(1) snd_seq_inc_time_nsec_def by (rule sanity_normal)
  then have "timer_ok ?t" using tk(2) ok(3) t(5) by (simp add: timer_ok_def)
  moreover have "nsecs (cur_time ?t) + ?S < 4294967296 * 1000000000" using Cons.prems(5) time by (simp add: e)
  moreover have "(tick_nsecs (tick ?t) + ?S) div unat (tick_res (tick ?t)) < 4294967296"
    using Cons.prems(6) tk(1,3) by (simp add: e add.assoc)
  moreover have "\<forall>(r, n)\<in>set es. unat r * unat n \<le> 3294967295 \<and>
           unat (tick_res (tick ?t)) + unat r * unat n \<le> 4294967296"
    using Cons.prems(4) tk(3) by simp
  ultimately show ?case using Cons.IH [of ?t] t(3,4) time tk(1) by (simp add: e interrupts_def)
qed

definition sample_timer :: seq_timer where
  "sample_timer = \<lparr>running = True, initialized = True, tempo = 500000, ppq = 96, cur_time = Real_time 1 999000000,
     tick = \<lparr>cur_tick = 7, tick_res = 5208333, fraction = 5000000\<rparr>, alsa_timer = True,
     timeri = Some \<lparr>ti_timer = True, ti_slave = False, ti_res = 10000000\<rparr>, ticks = 1,
     preferred_res = 0, skew = SKEW_BASE, skew_base = SKEW_BASE, timer_log = []\<rparr>"

theorem interrupts_exact_witness:
  "nsecs (cur_time (interrupts [(10000000, 1), (10000000, 2)] sample_timer)) = 2029000000 \<and>
   tick_nsecs (tick (interrupts [(10000000, 1), (10000000, 2)] sample_timer)) = 71458331"
  using interrupts_exact [of sample_timer "[(10000000, 1), (10000000, 2)]"]
  by (simp add: sample_timer_def timer_ok_def normal_def tick_ok_def nsecs_def tick_nsecs_def)


section \<open>Tempo, skew and frequency\<close>

lemma unat_mult32: "unat a * unat b < 4294967296 \<Longrightarrow> unat (a * b :: u32) = unat a * unat b"
  by (simp add: unat_word_ariths)

lemma mult_split: "t * k = (t div p * k) * p + (t mod p) * (k :: nat)"
  by (metis div_mult_mod_eq distrib_right mult.assoc mult.commute)

lemma div_split: "0 < p \<Longrightarrow> (t div p) * k + ((t mod p) * k) div p = (t * k) div (p :: nat)"
  using mult_split [of t k p] by simp

text \<open>
  The length of a tick is the exact quotient of the tempo (microseconds per quarter) and the
  resolution of the queue (ticks per quarter), in nanoseconds and at least 1, on both branches of
  \<^verbatim>\<open>snd_seq_timer_set_tick_resolution\<close>, as long as the resolution is at most 4294967 ticks and the
  quotient fits. The clock keeps its position and fraction invariant.
\<close>

theorem tick_resolution_exact:
  assumes "timer_ok tmr" "0 < sint t" "0 < unat p" "unat p \<le> 4294967"
    and "unat t * 1000 div unat p < 4294967296"
    and "snd_seq_timer_set_tempo_ppq t p tmr = Some (0, tmr')"
    and "t \<noteq> tempo tmr \<or> p \<noteq> ppq tmr"
  shows "unat (tick_res (tick tmr')) = max 1 (unat t * 1000 div unat p) \<and> timer_ok tmr' \<and>
     tempo tmr' = t \<and> ppq tmr' = p"
proof -
  have pos: "\<not> sint t \<le> 0" "\<not> sint p \<le> 0"
  proof -
    show "\<not> sint t \<le> 0" using assms(2) by simp
    have "sint p = int (unat p)" using assms(4) by (intro sint_unat) linarith
    then show "\<not> sint p \<le> 0" using assms(3) by linarith
  qed
  let ?r = "if t < 1000000 then t * 1000 div p else (t div p) * 1000 + ((t mod p) * 1000) div p"
  have r: "unat ?r = unat t * 1000 div unat p"
  proof (cases "t < 1000000")
    case True
    then have "unat (t * 1000) = unat t * 1000" by (intro trans [OF unat_mult32]) (simp_all add: word_less_nat_alt)
    then show ?thesis using True by (simp add: unat_div_distrib)
  next
    case False
    have m: "unat (t mod p) < unat p" using assms(3) by (simp add: unat_mod_distrib)
    then have b: "unat ((t mod p) * 1000) = unat (t mod p) * 1000"
      using assms(4) by (intro trans [OF unat_mult32]) simp_all
    have sp: "unat t div unat p * 1000 + (unat t mod unat p * 1000) div unat p = unat t * 1000 div unat p"
      using assms(3) by (rule div_split)
    then have "unat t div unat p * 1000 < 4294967296" using assms(5) by linarith
    then have a: "unat (t div p * 1000) = unat t div unat p * 1000"
      by (intro trans [OF unat_mult32]) (simp_all add: unat_div_distrib)
    have "unat (t div p * 1000 + t mod p * 1000 div p) = unat t * 1000 div unat p"
      unfolding unat_add32 unat_div_distrib a b using sp assms(5) by (simp add: unat_mod_distrib)
    then show ?thesis using False by simp
  qed
  define k where "k = (if ?r = 0 then 1 else ?r)"
  have "unat (if x = 0 then 1 else x) = max 1 (unat x)" for x :: u32
    by (cases "x = 0") (simp_all add: unat_gt_0 Suc_le_eq max_def)
  then have k: "unat k = max 1 (unat t * 1000 div unat p)" "0 < unat k"
    unfolding k_def r [symmetric] by simp_all
  have f: "snd_seq_timer_update_tick 0 ((tick tmr)\<lparr>tick_res := k\<rparr>) =
      (tick tmr)\<lparr>tick_res := k, cur_tick := cur_tick (tick tmr) + fraction (tick tmr) div k,
        fraction := fraction (tick tmr) mod k\<rparr>"
    using k(2) by (auto simp: snd_seq_timer_update_tick_def Let_def word_gt_0)
  have "p \<noteq> 0" using assms(3) by auto
  then have e: "snd_seq_timer_set_tick_resolution (tmr\<lparr>tempo := t, ppq := p\<rparr>) =
      Some (tmr\<lparr>tempo := t, ppq := p, tick := snd_seq_timer_update_tick 0 ((tick tmr)\<lparr>tick_res := k\<rparr>)\<rparr>)"
    unfolding snd_seq_timer_set_tick_resolution_def k_def Let_def by simp
  have "tmr' = tmr\<lparr>tempo := t, ppq := p, tick := snd_seq_timer_update_tick 0 ((tick tmr)\<lparr>tick_res := k\<rparr>)\<rparr>"
    using assms(6,7) pos unfolding snd_seq_timer_set_tempo_ppq_def Let_def e by (simp split: if_splits)
  then show ?thesis using k assms(1) \<open>p \<noteq> 0\<close>
    by (simp add: f timer_ok_def tick_ok_def unat_mod_distrib)
qed

theorem tick_resolution_exact_witness:
  "\<exists>tmr'. snd_seq_timer_set_tempo_ppq 1200000 (96 :: u32) (sample_timer\<lparr>running := False\<rparr>) = Some (0, tmr') \<and>
     unat (tick_res (tick tmr')) = 12500000"
proof -
  let ?t = "sample_timer\<lparr>running := False\<rparr>"
  have ok: "timer_ok ?t" by (simp add: sample_timer_def timer_ok_def normal_def tick_ok_def)
  obtain tmr' where e: "snd_seq_timer_set_tempo_ppq 1200000 96 ?t = Some (0, tmr')"
    by (simp add: snd_seq_timer_set_tempo_ppq_def snd_seq_timer_set_tick_resolution_def Let_def sample_timer_def)
  then show ?thesis using tick_resolution_exact [OF ok _ _ _ _ e] by (simp add: sample_timer_def)
qed

lemma skewed_exact:
  assumes "skew tmr \<noteq> skew_base tmr" "unat (skew tmr) \<le> 65537" "unat res * unat (skew tmr) div 65536 < 4294967296"
  shows "unat (skewed tmr res) = unat res * unat (skew tmr) div 65536"
proof -
  let ?s = "unat (skew tmr)" and ?h = "unat res div 65536" and ?l = "unat res mod 65536"
  have q: "unat res * ?s div 65536 = ?h * ?s + ?l * ?s div 65536"
    by (rule div_split [symmetric]) simp
  have l: "unat (res AND 0xffff) = ?l"
  proof -
    have "(0xffff :: u32) = Bit_Operations.mask 16" by (simp add: mask_eq_exp_minus_1)
    then have "res AND 0xffff = take_bit 16 res" by (simp add: take_bit_eq_mask)
    then show ?thesis by (simp add: take_bit_eq_mod unat_mod_distrib)
  qed
  have "?l * ?s \<le> 65535 * 65537" using assms(2) by (intro mult_le_mono) simp_all
  then have a: "unat ((res AND 0xffff) * skew tmr) = ?l * ?s" by (intro trans [OF unat_mult32]) (simp_all add: l)
  have b: "unat (drop_bit 16 res * skew tmr) = ?h * ?s"
    using assms(3) q by (intro trans [OF unat_mult32]) (simp_all add: unat_drop_bit)
  show ?thesis using assms(1,3) q
    by (simp add: skewed_def unat_add32 a b unat_drop_bit)
qed


text \<open>
  The skew is exact up to a factor of 65537/65536 (the interrupt's length times the skew, divided by
  the base and rounded down) but not above: with a skew of 65538 or more the low part overflows 32 bits
  for some interrupt, whose length comes out 65536 nanoseconds short.
\<close>

theorem skew_exact_up_to:
  assumes "skew tmr \<noteq> skew_base tmr"
  shows "(unat (skew tmr) \<le> 65537 \<longrightarrow>
      (\<forall>res. unat res * unat (skew tmr) div 65536 < 4294967296 \<longrightarrow>
         unat (skewed tmr res) = unat res * unat (skew tmr) div 65536)) \<and>
    (65538 \<le> unat (skew tmr) \<and> unat (skew tmr) \<le> 131072 \<longrightarrow>
      unat (skewed tmr 65535) + 65536 = 65535 * unat (skew tmr) div 65536)"
proof (intro conjI impI allI)
  show "unat (skewed tmr res) = unat res * unat (skew tmr) div 65536"
    if "unat (skew tmr) \<le> 65537" "unat res * unat (skew tmr) div 65536 < 4294967296" for res
    using skewed_exact [OF assms that] .
next
  let ?s = "unat (skew tmr)"
  assume s: "65538 \<le> ?s \<and> ?s \<le> 131072"
  have "unat (65535 * skew tmr) = (65535 * ?s) mod 4294967296" by (simp add: unat_word_ariths)
  also have "\<dots> = (65535 * ?s - 4294967296) mod 4294967296" using s by (intro le_mod_geq) linarith
  also have "\<dots> = 65535 * ?s - 4294967296" using s by (intro mod_less) linarith
  finally have m: "unat (65535 * skew tmr) = 65535 * ?s - 4294967296" .
  have "drop_bit 16 (65535 :: u32) = 0" "(65535 :: u32) AND 0xffff = 65535" by simp_all
  then have "unat (skewed tmr 65535) = (65535 * ?s - 65536 * 65536) div 65536"
    using assms by (simp add: skewed_def unat_drop_bit m)
  moreover obtain y where "65535 * ?s = y + 65536 * 65536"
    using s by (intro that [of "65535 * ?s - 65536 * 65536"]) linarith
  ultimately show "unat (skewed tmr 65535) + 65536 = 65535 * ?s div 65536" by simp
qed

theorem skew_exact_up_to_witness:
  "unat (skewed (sample_timer\<lparr>skew := 32768\<rparr>) 10000000) = 5000000 \<and>
   unat (skewed (sample_timer\<lparr>skew := 70000\<rparr>) 65535) + 65536 = 69998"
  using skew_exact_up_to [of "sample_timer\<lparr>skew := 32768\<rparr>"] skew_exact_up_to [of "sample_timer\<lparr>skew := 70000\<rparr>"]
  by (simp add: sample_timer_def)

text \<open>
  The number of hardware ticks per interrupt: with a 10 ms system timer a preferred frequency of 430 Hz
  makes the product wrap, and the timer fires every 198 ticks instead of every tick.
\<close>

lemma timer_ticks_wrap:
  "map_option (\<lambda>r. ticks (snd r)) (initialize_timer (sample_timer\<lparr>preferred_res := 430\<rparr>)) = Some 198"
  by (simp add: initialize_timer_def sample_timer_def timer_frequency_def Let_def)

end
