(* ===== verification/SeqMemory.thy ===== *)
theory SeqMemory
  imports SeqTimer
begin

text \<open>
  Events and the cells they live in: \<^verbatim>\<open>struct snd_seq_event\<close> of \<^verbatim>\<open>asequencer.h\<close> and the memory manager
  \<^verbatim>\<open>core/seq/seq_memory.c\<close>. Cells are linked by pointers, so the memory is an explicit store: a map from
  32-bit addresses to cells, with 0 for \<^verbatim>\<open>NULL\<close>. A cell that holds a chunk of a variable-length event has
  its bytes in \<open>cell_bytes\<close>; the unions are read through their words (the tick of a time stamp is its
  first word, \<^verbatim>\<open>data.ext\<close> and \<^verbatim>\<open>data.queue\<close> are the words of \<^verbatim>\<open>data.raw32\<close>). Operations run with the pool
  lock held; what others do while a caller sleeps is an input, as in the PCM theories. \<open>None\<close> is a
  caller that still sleeps or a chain of cells that does not end.
\<close>

section \<open>Events\<close>

record seq_event =
  ev_type :: u8
  ev_flags :: u8
  ev_tag :: u8
  ev_queue :: u8
  ev_time :: real_time
  ev_source :: "u8 \<times> u8"
  ev_dest :: "u8 \<times> u8"
  ev_data :: "u32 \<times> u32 \<times> u32"

definition ev_tick :: "seq_event \<Rightarrow> u32" where
  "ev_tick e = tv_sec (ev_time e)"

definition ext_len :: "seq_event \<Rightarrow> u32" where
  "ext_len e = fst (ev_data e)"

definition ext_ptr :: "seq_event \<Rightarrow> u32" where
  "ext_ptr e = fst (snd (ev_data e))"

definition set_ext :: "u32 \<Rightarrow> u32 \<Rightarrow> seq_event \<Rightarrow> seq_event" where
  "set_ext len ptr e = e\<lparr>ev_data := (len, ptr, snd (snd (ev_data e)))\<rparr>"

definition snd_seq_ev_is_variable :: "seq_event \<Rightarrow> bool" where
  "snd_seq_ev_is_variable e \<longleftrightarrow> ev_flags e AND 12 = 4"

definition snd_seq_ev_is_tick :: "seq_event \<Rightarrow> bool" where
  "snd_seq_ev_is_tick e \<longleftrightarrow> ev_flags e AND 1 = 0"

abbreviation (input) EXT_MASK :: u32 where "EXT_MASK \<equiv> 0xc0000000"
abbreviation (input) EXT_USRPTR :: u32 where "EXT_USRPTR \<equiv> 0x80000000"
abbreviation (input) EXT_CHAINED :: u32 where "EXT_CHAINED \<equiv> 0x40000000"
abbreviation (input) EVENT_SIZE :: nat where "EVENT_SIZE \<equiv> 28"
abbreviation (input) CELL_SIZE :: u32 where "CELL_SIZE \<equiv> 36"

section \<open>Cells and pools\<close>

record event_cell =
  cell_event :: seq_event
  cell_bytes :: "u8 list"
  cell_pool :: nat
  cell_next :: u32

text \<open>\<open>out_waiting\<close>: somebody sleeps on \<^verbatim>\<open>output_sleep\<close>; \<open>out_wakeups\<close> counts its wake-ups.\<close>

record seq_pool =
  pool_ptr :: u32
  pool_free :: u32
  total_elements :: int
  counter :: int
  pool_size :: int
  room :: int
  closing :: bool
  max_used :: int
  alloc_failures :: u32
  alloc_success :: u32
  out_waiting :: bool
  out_wakeups :: nat

record seq_mem =
  cells :: "u32 \<Rightarrow> event_cell"
  pools :: "nat \<Rightarrow> seq_pool"

definition next_of :: "seq_mem \<Rightarrow> u32 \<Rightarrow> u32" where
  "next_of m a = cell_next (cells m a)"

definition upd_cell :: "u32 \<Rightarrow> (event_cell \<Rightarrow> event_cell) \<Rightarrow> seq_mem \<Rightarrow> seq_mem" where
  "upd_cell a f m = m\<lparr>cells := (cells m)(a := f (cells m a))\<rparr>"

definition set_next :: "u32 \<Rightarrow> u32 \<Rightarrow> seq_mem \<Rightarrow> seq_mem" where
  "set_next a b m = upd_cell a (\<lambda>c. c\<lparr>cell_next := b\<rparr>) m"

definition upd_pool :: "nat \<Rightarrow> (seq_pool \<Rightarrow> seq_pool) \<Rightarrow> seq_mem \<Rightarrow> seq_mem" where
  "upd_pool p f m = m\<lparr>pools := (pools m)(p := f (pools m p))\<rparr>"

definition event_of :: "seq_mem \<Rightarrow> u32 \<Rightarrow> seq_event" where
  "event_of m a = cell_event (cells m a)"

definition snd_seq_pool_available :: "seq_pool \<Rightarrow> int" where
  "snd_seq_pool_available p = total_elements p - counter p"

definition snd_seq_output_ok :: "seq_pool \<Rightarrow> bool" where
  "snd_seq_output_ok p \<longleftrightarrow> snd_seq_pool_available p \<ge> room p"

definition snd_seq_unused_cells :: "seq_pool \<Rightarrow> int" where
  "snd_seq_unused_cells p = total_elements p - counter p"

section \<open>Freeing\<close>

definition free_cell :: "nat \<Rightarrow> u32 \<Rightarrow> seq_mem \<Rightarrow> seq_mem" where
  "free_cell p a m =
     upd_pool p (\<lambda>q. q\<lparr>pool_free := a, counter := counter q - 1\<rparr>) (set_next a (pool_free (pools m p)) m)"

partial_function (option) free_chain :: "nat \<Rightarrow> u32 \<Rightarrow> seq_mem \<Rightarrow> seq_mem option" where
  "free_chain p cur m =
     (if cur = 0 then Some m
      else
        let nextptr = next_of m cur
        in free_chain p nextptr (free_cell p cur (set_next cur (pool_free (pools m p)) m)))"

definition wake_output :: "seq_pool \<Rightarrow> seq_pool" where
  "wake_output q =
     (if out_waiting q \<and> snd_seq_output_ok q then q\<lparr>out_wakeups := Suc (out_wakeups q)\<rparr> else q)"

definition snd_seq_cell_free :: "u32 \<Rightarrow> seq_mem \<Rightarrow> seq_mem option" where
  "snd_seq_cell_free a m =
     (let p = cell_pool (cells m a);
          m = free_cell p a m;
          e = event_of m a
      in case (if snd_seq_ev_is_variable e \<and> ext_len e AND EXT_CHAINED \<noteq> 0
               then free_chain p (ext_ptr e) m else Some m) of
           None \<Rightarrow> None
         | Some m \<Rightarrow> Some (upd_pool p wake_output m))"

section \<open>Allocation\<close>

text \<open>One turn of a sleeper: what others do to the memory, and whether a signal is pending after it.\<close>

record mem_turn =
  mt_meanwhile :: "seq_mem \<Rightarrow> seq_mem"
  mt_signal :: bool

text \<open>The waiting loop: an error, or go on with the rest of the turns.\<close>

fun wait_for_cell ::
  "nat \<Rightarrow> bool \<Rightarrow> mem_turn list \<Rightarrow> seq_mem \<Rightarrow> (int \<times> mem_turn list \<times> seq_mem) option" where
  "wait_for_cell p nonblock ts m =
     (if pool_free (pools m p) = 0 \<and> \<not> nonblock \<and> \<not> closing (pools m p)
      then (case ts of
              [] \<Rightarrow> None
            | t # ts \<Rightarrow>
                let m = mt_meanwhile t m
                in if mt_signal t then Some (- 512, ts, m) else wait_for_cell p nonblock ts m)
      else Some (0, ts, m))"

declare wait_for_cell.simps [simp del]

text \<open>What follows the wait: the cell taken from the free list, or 0.\<close>

definition take_cell :: "nat \<Rightarrow> seq_mem \<Rightarrow> int \<times> u32 \<times> seq_mem" where
  "take_cell p m =
     (let q = pools m p; a = pool_free q
      in if closing q then (- ENOMEM, 0, m)
         else if a \<noteq> 0 then
           let used = counter q + 1
           in (0, a, set_next a 0
                 (upd_pool p (\<lambda>q. q\<lparr>pool_free := next_of m a, counter := used,
                    max_used := (if max_used q < used then used else max_used q),
                    alloc_success := alloc_success q + 1\<rparr>) m))
         else (- EAGAIN, 0, upd_pool p (\<lambda>q. q\<lparr>alloc_failures := alloc_failures q + 1\<rparr>) m))"

definition snd_seq_cell_alloc ::
  "nat \<Rightarrow> bool \<Rightarrow> mem_turn list \<Rightarrow> seq_mem \<Rightarrow> (int \<times> u32 \<times> mem_turn list \<times> seq_mem) option" where
  "snd_seq_cell_alloc p nonblock ts m =
     (if pool_ptr (pools m p) = 0 then Some (- EINVAL, 0, ts, m)
      else
        case wait_for_cell p nonblock ts m of
          None \<Rightarrow> None
        | Some (err, ts, m) \<Rightarrow>
            if err < 0 then Some (err, 0, ts, m)
            else let (err, a, m) = take_cell p m in Some (err, a, ts, m))"

section \<open>Duplicating an event\<close>

text \<open>
  \<open>data\<close> is the memory at \<^verbatim>\<open>data.ext.ptr\<close> (unused for a chained event) and \<open>bad\<close> says at which offsets
  \<^verbatim>\<open>copy_from_user\<close> faults. The bytes a short last chunk leaves in its cell are not kept: nobody reads
  beyond the length of the event.
\<close>

definition var_len :: "seq_event \<Rightarrow> nat" where
  "var_len e = unat (ext_len e AND NOT EXT_MASK)"

definition link_chunk :: "u32 \<Rightarrow> u32 \<Rightarrow> u32 \<Rightarrow> seq_mem \<Rightarrow> seq_mem" where
  "link_chunk cell tail tmp m =
     (let e = event_of m cell;
          m = (if ext_ptr e = 0 then upd_cell cell (\<lambda>c. c\<lparr>cell_event := set_ext (ext_len e) tmp e\<rparr>) m else m)
      in if tail \<noteq> 0 then set_next tail tmp m else m)"

fun dup_chunks ::
  "nat \<Rightarrow> bool \<Rightarrow> seq_event \<Rightarrow> u8 list \<Rightarrow> (nat \<Rightarrow> bool) \<Rightarrow> u32 \<Rightarrow> nat \<Rightarrow> u32 \<Rightarrow> u32 \<Rightarrow> nat \<Rightarrow> nat \<Rightarrow>
   mem_turn list \<Rightarrow> seq_mem \<Rightarrow> (int \<times> mem_turn list \<times> seq_mem) option" where
  "dup_chunks p nonblock event data bad cell 0 tail src off len ts m = Some (0, ts, m)"
| "dup_chunks p nonblock event data bad cell (Suc ncells) tail src off len ts m =
     (let size = (if len < EVENT_SIZE then len else EVENT_SIZE)
      in case snd_seq_cell_alloc p nonblock ts m of
           None \<Rightarrow> None
         | Some (err, tmp, ts, m) \<Rightarrow>
             if err < 0 then Some (err, ts, m)
             else
               let m = link_chunk cell tail tmp m;
                   chunk = take size (drop off data);
                   more = (\<lambda>src m. dup_chunks p nonblock event data bad cell ncells tmp src
                                      (off + size) (len - size) ts m)
               in if ext_len event AND EXT_CHAINED \<noteq> 0 \<and> src \<noteq> 0 then
                    more (next_of m src)
                      (upd_cell tmp (\<lambda>c. c\<lparr>cell_event := event_of m src, cell_bytes := cell_bytes (cells m src)\<rparr>) m)
                  else if ext_len event AND EXT_USRPTR \<noteq> 0 \<and> bad off then Some (- EFAULT, ts, m)
                  else more src (upd_cell tmp (\<lambda>c. c\<lparr>cell_bytes := chunk\<rparr>) m))"

definition snd_seq_event_dup ::
  "nat \<Rightarrow> seq_event \<Rightarrow> u8 list \<Rightarrow> (nat \<Rightarrow> bool) \<Rightarrow> bool \<Rightarrow> mem_turn list \<Rightarrow> seq_mem \<Rightarrow>
   (int \<times> u32 \<times> mem_turn list \<times> seq_mem) option" where
  "snd_seq_event_dup p event data bad nonblock ts m =
     (let extlen = (if snd_seq_ev_is_variable event then var_len event else 0);
          ncells = (extlen + EVENT_SIZE - 1) div EVENT_SIZE
      in if int ncells \<ge> total_elements (pools m p) then Some (- ENOMEM, 0, ts, m)
         else
           case snd_seq_cell_alloc p nonblock ts m of
             None \<Rightarrow> None
           | Some (err, cell, ts, m) \<Rightarrow>
               if err < 0 then Some (err, 0, ts, m)
               else
                 let m = upd_cell cell (\<lambda>c. c\<lparr>cell_event := event\<rparr>) m
                 in if \<not> snd_seq_ev_is_variable event then Some (0, cell, ts, m)
                    else
                      let m = upd_cell cell (\<lambda>c. c\<lparr>cell_event :=
                                set_ext (of_nat extlen OR EXT_CHAINED) 0 event\<rparr>) m
                      in case dup_chunks p nonblock event data bad cell ncells 0 (ext_ptr event) 0 extlen ts m of
                           None \<Rightarrow> None
                         | Some (err, ts, m) \<Rightarrow>
                             if err < 0
                             then map_option (\<lambda>m. (err, 0, ts, m)) (snd_seq_cell_free cell m)
                             else Some (0, cell, ts, m))"

section \<open>Expanding an event\<close>

definition get_var_len :: "seq_event \<Rightarrow> int" where
  "get_var_len e = (if ev_flags e AND 12 \<noteq> 4 then - EINVAL else int (var_len e))"

text \<open>\<open>func\<close> consumes one piece of the data and changes its own state.\<close>

function dump_user ::
  "('s \<Rightarrow> u8 list \<Rightarrow> int \<times> 's) \<Rightarrow> u8 list \<Rightarrow> (nat \<Rightarrow> bool) \<Rightarrow> nat \<Rightarrow> nat \<Rightarrow> 's \<Rightarrow> int \<times> 's" where
  "dump_user func data bad off len s =
     (if len = 0 then (0, s)
      else
        let size = (if len < 32 then len else 32)
        in if bad off then (- EFAULT, s)
           else
             let (err, s) = func s (take size (drop off data))
             in if err < 0 then (err, s) else dump_user func data bad (off + size) (len - size) s)"
  by pat_completeness auto

termination
  by (relation "measure (\<lambda>(func, data, bad, off, len, s). len)") auto

function dump_chain :: "('s \<Rightarrow> u8 list \<Rightarrow> int \<times> 's) \<Rightarrow> seq_mem \<Rightarrow> u32 \<Rightarrow> nat \<Rightarrow> 's \<Rightarrow> int \<times> 's" where
  "dump_chain func m cell len s =
     (if len = 0 \<or> cell = 0 then (0, s)
      else
        let size = (if len < EVENT_SIZE then len else EVENT_SIZE);
            (err, s) = func s (take size (cell_bytes (cells m cell)))
        in if err < 0 then (err, s) else dump_chain func m (next_of m cell) (len - size) s)"
  by pat_completeness auto

termination
  by (relation "measure (\<lambda>(func, m, cell, len, s). len)") auto

declare dump_user.simps [simp del] dump_chain.simps [simp del]

definition snd_seq_dump_var_event ::
  "('s \<Rightarrow> u8 list \<Rightarrow> int \<times> 's) \<Rightarrow> seq_event \<Rightarrow> u8 list \<Rightarrow> (nat \<Rightarrow> bool) \<Rightarrow> seq_mem \<Rightarrow> 's \<Rightarrow> int \<times> 's" where
  "snd_seq_dump_var_event func event data bad m s =
     (let len = get_var_len event
      in if len \<le> 0 then (len, s)
         else if ext_len event AND EXT_USRPTR \<noteq> 0 then dump_user func data bad 0 (nat len) s
         else if ext_len event AND EXT_CHAINED = 0 then func s (take (nat len) data)
         else dump_chain func m (ext_ptr event) (nat len) s)"

text \<open>The buffer is the list of the bytes written so far; \<open>ubad\<close>: \<^verbatim>\<open>copy_to_user\<close> faults there.\<close>

definition seq_copy_in_kernel :: "u8 list \<Rightarrow> u8 list \<Rightarrow> int \<times> u8 list" where
  "seq_copy_in_kernel buf src = (0, buf @ src)"

definition seq_copy_in_user :: "(nat \<Rightarrow> bool) \<Rightarrow> u8 list \<Rightarrow> u8 list \<Rightarrow> int \<times> u8 list" where
  "seq_copy_in_user ubad buf src = (if ubad (length buf) then (- EFAULT, buf) else (0, buf @ src))"

definition snd_seq_expand_var_event ::
  "seq_event \<Rightarrow> u8 list \<Rightarrow> (nat \<Rightarrow> bool) \<Rightarrow> int \<Rightarrow> bool \<Rightarrow> (nat \<Rightarrow> bool) \<Rightarrow> int \<Rightarrow> seq_mem \<Rightarrow> int \<times> u8 list" where
  "snd_seq_expand_var_event event data bad count in_kernel ubad size_aligned m =
     (let len = get_var_len event
      in if len < 0 then (len, [])
         else
           let newlen = (if size_aligned > 0 then (len + (size_aligned - 1)) div size_aligned * size_aligned
                         else len)
           in if count < newlen then (- EAGAIN, [])
              else if ext_len event AND EXT_USRPTR \<noteq> 0 then
                (if \<not> in_kernel then (- EINVAL, [])
                 else if bad 0 then (- EFAULT, []) else (newlen, take (nat len) data))
              else
                let (err, buf) = snd_seq_dump_var_event
                      (if in_kernel then seq_copy_in_kernel else seq_copy_in_user ubad) event data bad m []
                in (if err < 0 then err else newlen, buf))"

section \<open>Creating and releasing a pool\<close>

definition snd_seq_pool_new :: "int \<Rightarrow> seq_pool" where
  "snd_seq_pool_new poolsize =
     \<lparr>pool_ptr = 0, pool_free = 0, total_elements = 0, counter = 0, pool_size = poolsize, room = 0,
      closing = False, max_used = 0, alloc_failures = 0, alloc_success = 0, out_waiting = False, out_wakeups = 0\<rparr>"

definition cell_addr :: "u32 \<Rightarrow> nat \<Rightarrow> u32" where
  "cell_addr ptr i = ptr + of_nat i * CELL_SIZE"

definition add_cell :: "nat \<Rightarrow> nat \<Rightarrow> seq_mem \<Rightarrow> seq_mem" where
  "add_cell p i m =
     (let a = cell_addr (pool_ptr (pools m p)) i
      in upd_pool p (\<lambda>q. q\<lparr>pool_free := a\<rparr>)
           (upd_cell a (\<lambda>c. c\<lparr>cell_pool := p, cell_next := pool_free (pools m p)\<rparr>) m))"

text \<open>\<open>mem\<close>: the address \<^verbatim>\<open>kvmalloc_array\<close> returns, 0 when it fails.\<close>

definition snd_seq_pool_init :: "u32 \<Rightarrow> nat \<Rightarrow> seq_mem \<Rightarrow> int \<times> seq_mem" where
  "snd_seq_pool_init mem p m =
     (if mem = 0 then (- ENOMEM, m)
      else if pool_ptr (pools m p) \<noteq> 0 then (0, m)
      else
        let m = upd_pool p (\<lambda>q. q\<lparr>pool_ptr := mem, pool_free := 0\<rparr>) m;
            m = fold (add_cell p) [0..<nat (pool_size (pools m p))] m
        in (0, upd_pool p (\<lambda>q. q\<lparr>room := (pool_size q + 1) div 2, max_used := 0, total_elements := pool_size q\<rparr>) m))"

definition snd_seq_pool_mark_closing :: "nat \<Rightarrow> seq_mem \<Rightarrow> seq_mem" where
  "snd_seq_pool_mark_closing p m = upd_pool p (\<lambda>q. q\<lparr>closing := True\<rparr>) m"

text \<open>The wait for the last cell; what others do at each turn is given.\<close>

fun wait_unused :: "nat \<Rightarrow> (seq_mem \<Rightarrow> seq_mem) list \<Rightarrow> seq_mem \<Rightarrow> seq_mem option" where
  "wait_unused p [] m = (if counter (pools m p) > 0 then None else Some m)"
| "wait_unused p (f # fs) m = (if counter (pools m p) > 0 then wait_unused p fs (f m) else Some m)"

definition snd_seq_pool_done :: "nat \<Rightarrow> (seq_mem \<Rightarrow> seq_mem) list \<Rightarrow> seq_mem \<Rightarrow> seq_mem option" where
  "snd_seq_pool_done p fs m =
     map_option (upd_pool p (\<lambda>q. q\<lparr>pool_ptr := 0, pool_free := 0, total_elements := 0, closing := False\<rparr>))
       (wait_unused p fs (upd_pool p (\<lambda>q. if out_waiting q then q\<lparr>out_wakeups := Suc (out_wakeups q)\<rparr> else q) m))"

definition snd_seq_pool_delete :: "nat \<Rightarrow> (seq_mem \<Rightarrow> seq_mem) list \<Rightarrow> seq_mem \<Rightarrow> seq_mem option" where
  "snd_seq_pool_delete p fs m = snd_seq_pool_done p fs (snd_seq_pool_mark_closing p m)"

end
