(* ===== verification/SeqPool.thy ===== *)
theory SeqPool
  imports SeqMemory
begin

text \<open>
  What the memory manager of the sequencer guarantees. \<open>path\<close> is a linked list of cells in the store,
  \<open>pool_inv\<close> the invariant of a pool: its free list, and a counter that says how many of its cells are in
  use. Allocation takes the first free cell, freeing an event returns its cell and all the cells of its
  chain, and duplicating an event either builds a chain that expands to the original bytes or gives back
  every cell it took.
\<close>

section \<open>Linked cells\<close>

text \<open>\<open>path n a xs b\<close>: following \<open>n\<close> from \<open>a\<close> one meets the cells \<open>xs\<close> and then \<open>b\<close>.\<close>

fun path :: "(u32 \<Rightarrow> u32) \<Rightarrow> u32 \<Rightarrow> u32 list \<Rightarrow> u32 \<Rightarrow> bool" where
  "path n a [] b \<longleftrightarrow> a = b"
| "path n a (x # xs) b \<longleftrightarrow> a = x \<and> x \<noteq> 0 \<and> path n (n x) xs b"

lemma path_append [simp]: "path n a (xs @ ys) b \<longleftrightarrow> (\<exists>c. path n a xs c \<and> path n c ys b)"
  by (induction xs arbitrary: a) auto

lemma path_null [simp]: "path n 0 xs b \<longleftrightarrow> xs = [] \<and> b = 0"
  by (cases xs) auto

lemma path_cong: "(\<And>x. x \<in> set xs \<Longrightarrow> n x = n' x) \<Longrightarrow> path n a xs b = path n' a xs b"
  by (induction xs arbitrary: a) auto

lemma path_upd [simp]: "x \<notin> set xs \<Longrightarrow> path (n(x := y)) a xs b = path n a xs b"
  by (rule path_cong) auto

lemma path_unique: "path n a xs 0 \<Longrightarrow> path n a ys 0 \<Longrightarrow> xs = ys"
proof (induction xs arbitrary: a ys)
  case Nil
  then show ?case by (cases ys) auto
next
  case (Cons x xs)
  then show ?case by (cases ys) auto
qed

lemma path_start: "path n a xs 0 \<Longrightarrow> a = (case xs of [] \<Rightarrow> 0 | x # _ \<Rightarrow> x)"
  by (cases xs) auto

lemma path_nonzero: "path n a xs b \<Longrightarrow> 0 \<notin> set xs"
  by (induction xs arbitrary: a) auto

lemma path_distinct: "path n a xs 0 \<Longrightarrow> distinct xs"
proof (induction xs arbitrary: a)
  case (Cons x xs)
  have "x \<notin> set xs"
  proof
    assume "x \<in> set xs"
    then obtain ys zs where "xs = ys @ x # zs" by (meson split_list)
    then have "path n x (x # zs) 0" "path n x (x # xs) 0" using Cons.prems by auto
    then have "x # zs = x # xs" by (rule path_unique)
    with \<open>xs = ys @ x # zs\<close> show False by simp
  qed
  then show ?case using Cons by auto
qed simp

lemma path_snoc_upd:
  assumes "path n a xs 0" "x \<notin> set xs" "x \<noteq> 0" "xs \<noteq> []"
  shows "path (n(last xs := x, x := 0)) a (xs @ [x]) 0"
proof -
  obtain ys y where xs: "xs = ys @ [y]" using assms(4) by (cases xs rule: rev_cases) auto
  have "distinct xs" using assms(1) by (rule path_distinct)
  then have y: "y \<notin> set ys" "x \<notin> set ys" "x \<noteq> y" using assms(2) xs by auto
  have "path n a ys y" "y \<noteq> 0" "n y = 0" using assms(1) xs by auto
  then show ?thesis using y assms(3) xs by auto
qed

section \<open>The store\<close>

lemma upd_cell_simps [simp]:
  "cells (upd_cell a f m) b = (if b = a then f (cells m a) else cells m b)" "pools (upd_cell a f m) = pools m"
  by (simp_all add: upd_cell_def)

lemma upd_pool_simps [simp]:
  "cells (upd_pool p f m) = cells m" "pools (upd_pool p f m) q = (if q = p then f (pools m p) else pools m q)"
  by (simp_all add: upd_pool_def)

lemma next_of_simps [simp]:
  "next_of (upd_pool p f m) = next_of m"
  "next_of (set_next a b m) = (next_of m)(a := b)"
  "(\<And>c. cell_next (g c) = cell_next c) \<Longrightarrow> next_of (upd_cell a g m) = next_of m"
  by (auto simp: next_of_def set_next_def fun_eq_iff)

lemma event_of_simps [simp]:
  "event_of (upd_pool p f m) = event_of m" "event_of (set_next a b m) = event_of m"
  by (auto simp: event_of_def set_next_def fun_eq_iff)

lemma set_next_simps [simp]:
  "pools (set_next a b m) = pools m" "cell_bytes (cells (set_next a b m) c) = cell_bytes (cells m c)"
  "cell_pool (cells (set_next a b m) c) = cell_pool (cells m c)"
  "c \<noteq> a \<Longrightarrow> cells (set_next a b m) c = cells m c"
  by (simp_all add: set_next_def)

section \<open>The pool invariant\<close>

text \<open>
  \<open>pool_inv m p A fs\<close>: \<open>A\<close> are the cells of pool \<open>p\<close> and \<open>fs\<close> its free list. The counter is the number
  of cells in use.
\<close>

definition pool_inv :: "seq_mem \<Rightarrow> nat \<Rightarrow> u32 set \<Rightarrow> u32 list \<Rightarrow> bool" where
  "pool_inv m p A fs \<longleftrightarrow>
     path (next_of m) (pool_free (pools m p)) fs 0 \<and> set fs \<subseteq> A \<and> finite A \<and> 0 \<notin> A \<and>
     (\<forall>a\<in>A. cell_pool (cells m a) = p) \<and> total_elements (pools m p) = int (card A) \<and>
     counter (pools m p) = int (card A) - int (length fs)"

lemma pool_inv_distinct: "pool_inv m p A fs \<Longrightarrow> distinct fs"
  by (auto simp: pool_inv_def intro: path_distinct)

lemma take_cell_inv:
  assumes "pool_inv m p A (a # fs)" "\<not> closing (pools m p)"
  shows "\<exists>m'. take_cell p m = (0, a, m') \<and> pool_inv m' p A fs \<and> next_of m' = (next_of m)(a := 0) \<and>
    event_of m' = event_of m \<and> (\<forall>b. cell_bytes (cells m' b) = cell_bytes (cells m b)) \<and>
    closing (pools m' p) = closing (pools m p) \<and> pool_ptr (pools m' p) = pool_ptr (pools m p) \<and>
    (\<forall>q. q \<noteq> p \<longrightarrow> pools m' q = pools m q) \<and> (\<forall>b. b \<noteq> a \<longrightarrow> cells m' b = cells m b)"
proof -
  have a: "pool_free (pools m p) = a" "a \<noteq> 0" "a \<notin> set fs" "path (next_of m) (next_of m a) fs 0"
    using assms(1) pool_inv_distinct [OF assms(1)] by (auto simp: pool_inv_def)
  then show ?thesis using assms
    by (auto simp: take_cell_def Let_def pool_inv_def fun_eq_iff)
qed

lemma cell_alloc_inv:
  assumes "pool_inv m p A (a # fs)" "\<not> closing (pools m p)" "pool_ptr (pools m p) \<noteq> 0"
  shows "\<exists>m'. snd_seq_cell_alloc p nonblock ts m = Some (0, a, ts, m') \<and> pool_inv m' p A fs \<and>
    next_of m' = (next_of m)(a := 0) \<and>
    event_of m' = event_of m \<and> (\<forall>b. cell_bytes (cells m' b) = cell_bytes (cells m b)) \<and>
    closing (pools m' p) = closing (pools m p) \<and> pool_ptr (pools m' p) = pool_ptr (pools m p) \<and>
    (\<forall>q. q \<noteq> p \<longrightarrow> pools m' q = pools m q) \<and> (\<forall>b. b \<noteq> a \<longrightarrow> cells m' b = cells m b)"
proof -
  have "pool_free (pools m p) \<noteq> 0" using assms(1) by (auto simp: pool_inv_def)
  then have "wait_for_cell p nonblock ts m = Some (0, ts, m)" by (subst wait_for_cell.simps) simp
  then show ?thesis using take_cell_inv [OF assms(1,2)] assms(3)
    by (auto simp: snd_seq_cell_alloc_def)
qed

lemma cell_alloc_empty:
  assumes "pool_inv m p A []" "\<not> closing (pools m p)" "pool_ptr (pools m p) \<noteq> 0"
  shows "\<exists>m'. snd_seq_cell_alloc p True ts m = Some (- EAGAIN, 0, ts, m') \<and> pool_inv m' p A [] \<and> cells m' = cells m \<and>
    closing (pools m' p) = closing (pools m p) \<and> pool_ptr (pools m' p) = pool_ptr (pools m p)"
proof -
  have "wait_for_cell p True ts m = Some (0, ts, m)" by (subst wait_for_cell.simps) simp
  moreover have "pool_free (pools m p) = 0" using assms(1) by (simp add: pool_inv_def)
  ultimately show ?thesis using assms
    by (simp add: snd_seq_cell_alloc_def take_cell_def Let_def pool_inv_def)
qed

lemma free_cell_inv:
  assumes "pool_inv m p A fs" "a \<in> A" "a \<notin> set fs"
  shows "pool_inv (free_cell p a m) p A (a # fs)"
proof -
  have "a \<noteq> 0" using assms(1,2) by (auto simp: pool_inv_def)
  then show ?thesis using assms by (auto simp: pool_inv_def free_cell_def)
qed


lemma free_cell_simps [simp]:
  "next_of (free_cell p a m) = (next_of m)(a := pool_free (pools m p))"
  "event_of (free_cell p a m) = event_of m"
  "cell_bytes (cells (free_cell p a m) b) = cell_bytes (cells m b)"
  "cell_pool (cells (free_cell p a m) b) = cell_pool (cells m b)"
  "b \<noteq> a \<Longrightarrow> cells (free_cell p a m) b = cells m b"
  "closing (pools (free_cell p a m) q) = closing (pools m q)"
  "pool_ptr (pools (free_cell p a m) q) = pool_ptr (pools m q)"
  by (simp_all add: free_cell_def)

text \<open>Freeing a chain puts its cells, last first, on the free list.\<close>

lemma free_chain_inv:
  assumes "pool_inv m p A fs" "path (next_of m) a xs 0" "set xs \<subseteq> A" "set xs \<inter> set fs = {}"
  shows "\<exists>m'. free_chain p a m = Some m' \<and> pool_inv m' p A (rev xs @ fs) \<and> event_of m' = event_of m \<and>
    (\<forall>b. b \<notin> set xs \<longrightarrow> cells m' b = cells m b) \<and>
    closing (pools m' p) = closing (pools m p) \<and> pool_ptr (pools m' p) = pool_ptr (pools m p)"
  using assms
proof (induction xs arbitrary: a m fs)
  case Nil
  then show ?case by (subst free_chain.simps) simp
next
  case (Cons x xs)
  let ?m = "free_cell p x (set_next x (pool_free (pools m p)) m)"
  have x: "a = x" "x \<noteq> 0" "x \<in> A" "x \<notin> set fs" "path (next_of m) (next_of m x) xs 0"
    using Cons.prems by auto
  have d: "x \<notin> set xs" using path_distinct [OF Cons.prems(2)] by simp
  have "pool_inv (set_next x (pool_free (pools m p)) m) p A fs"
    using Cons.prems(1) x(4) by (simp add: pool_inv_def)
  then have inv: "pool_inv ?m p A (x # fs)" using x(3,4) by (rule free_cell_inv)
  have "path (next_of ?m) (next_of m x) xs 0" using x(5) d by simp
  then obtain m' where m': "free_chain p (next_of m x) ?m = Some m'" "pool_inv m' p A (rev xs @ x # fs)"
    "event_of m' = event_of ?m" "\<forall>b. b \<notin> set xs \<longrightarrow> cells m' b = cells ?m b"
    "closing (pools m' p) = closing (pools ?m p)" "pool_ptr (pools m' p) = pool_ptr (pools ?m p)"
    using Cons.IH [OF inv] Cons.prems d by fastforce
  have "free_chain p a m = free_chain p (next_of m x) ?m"
    using x(1,2) by (subst free_chain.simps) (simp add: Let_def)
  then show ?case using m' by auto
qed

lemma wake_output_simps [simp]:
  "pool_free (wake_output q) = pool_free q" "counter (wake_output q) = counter q"
  "total_elements (wake_output q) = total_elements q" "closing (wake_output q) = closing q"
  "pool_ptr (wake_output q) = pool_ptr q"
  by (simp_all add: wake_output_def)

lemma pool_inv_wake: "pool_inv (upd_pool p wake_output m) p A fs = pool_inv m p A fs"
  by (simp add: pool_inv_def)

text \<open>The cells an event occupies beyond its first one.\<close>

definition has_chain :: "seq_event \<Rightarrow> bool" where
  "has_chain e \<longleftrightarrow> snd_seq_ev_is_variable e \<and> ext_len e AND EXT_CHAINED \<noteq> 0"

definition chain :: "seq_mem \<Rightarrow> u32 \<Rightarrow> u32 list \<Rightarrow> bool" where
  "chain m a xs \<longleftrightarrow> (if has_chain (event_of m a) then path (next_of m) (ext_ptr (event_of m a)) xs 0 else xs = [])"

lemma cell_free_inv:
  assumes "pool_inv m p A fs" "chain m a xs" "set (a # xs) \<subseteq> A" "set (a # xs) \<inter> set fs = {}" "a \<notin> set xs"
  shows "\<exists>m'. snd_seq_cell_free a m = Some m' \<and> pool_inv m' p A (rev xs @ a # fs) \<and>
    (\<forall>b. b \<notin> set (a # xs) \<longrightarrow> cells m' b = cells m b) \<and>
    closing (pools m' p) = closing (pools m p) \<and> pool_ptr (pools m' p) = pool_ptr (pools m p)"
proof -
  let ?m = "free_cell p a m"
  have p: "cell_pool (cells m a) = p" using assms(1,3) by (auto simp: pool_inv_def)
  have inv: "pool_inv ?m p A (a # fs)" using assms(1,3,4) by (intro free_cell_inv) auto
  show ?thesis
  proof (cases "has_chain (event_of m a)")
    case True
    then have path: "path (next_of m) (ext_ptr (event_of m a)) xs 0" using assms(2) by (simp add: chain_def)
    then have q: "path (next_of ?m) (ext_ptr (event_of m a)) xs 0" using assms(5) by simp
    have "set xs \<subseteq> A" "set xs \<inter> set (a # fs) = {}" using assms(3-5) by auto
    from free_chain_inv [OF inv q this] obtain m' where m': "free_chain p (ext_ptr (event_of m a)) ?m = Some m'" "pool_inv m' p A (rev xs @ a # fs)"
      "\<forall>b. b \<notin> set xs \<longrightarrow> cells m' b = cells ?m b" "closing (pools m' p) = closing (pools ?m p)"
      "pool_ptr (pools m' p) = pool_ptr (pools ?m p)"
      by (elim exE conjE)
    have "snd_seq_cell_free a m = Some (upd_pool p wake_output m')"
      using True m'(1) p by (simp add: snd_seq_cell_free_def Let_def has_chain_def)
    moreover have "\<forall>b. b \<notin> set (a # xs) \<longrightarrow> cells m' b = cells m b" using m'(3) by simp
    ultimately show ?thesis using m'(2,4,5) by (simp add: pool_inv_wake)
  next
    case False
    then have "xs = []" using assms(2) by (simp add: chain_def)
    then show ?thesis using False p inv
      by (auto simp: snd_seq_cell_free_def Let_def has_chain_def pool_inv_wake)
  qed
qed

section \<open>Chunks\<close>

fun chunks :: "nat \<Rightarrow> nat \<Rightarrow> nat \<Rightarrow> u8 list \<Rightarrow> u8 list list" where
  "chunks 0 off len data = []"
| "chunks (Suc n) off len data =
     (let size = (if len < EVENT_SIZE then len else EVENT_SIZE)
      in take size (drop off data) # chunks n (off + size) (len - size) data)"

lemma chunk_count: "0 < len \<Longrightarrow> (len - (if len < 28 then len else 28) + 27) div 28 + 1 = (len + 27) div (28 :: nat)"
proof -
  assume "0 < len"
  show ?thesis
  proof (cases "len < 28")
    case True
    then have "(len + 27) div 28 = 1" using \<open>0 < len\<close> by (intro div_nat_eqI) simp_all
    then show ?thesis using True by simp
  next
    case False
    then obtain k where "len = k + 28" by (metis add.commute le_add_diff_inverse not_less)
    moreover have "(k + 55) div 28 = (k + 27) div 28 + 1"
      using div_add_self2 [of 28 "k + 27"] by (simp add: add.assoc)
    ultimately show ?thesis by (simp add: add.assoc)
  qed
qed

lemma dump_chain_chunks:
  assumes "path (next_of m) a xs 0" "map (\<lambda>x. cell_bytes (cells m x)) xs = chunks (length xs) off len data"
    and "length xs = (len + 27) div 28"
  shows "dump_chain seq_copy_in_kernel m a len s = (0, s @ take len (drop off data))"
  using assms
proof (induction xs arbitrary: a off len s)
  case Nil
  then have "len = 0" using div_less_iff_less_mult [of 28 "len + 27" 1] by simp
  then show ?case by (simp add: dump_chain.simps)
next
  case (Cons x xs)
  let ?size = "if len < 28 then len else 28"
  have len: "0 < len" using Cons.prems(3) by (cases len) simp_all
  have x: "a = x" "x \<noteq> 0" "path (next_of m) (next_of m x) xs 0"
    "cell_bytes (cells m x) = take ?size (drop off data)"
    "map (\<lambda>x. cell_bytes (cells m x)) xs = chunks (length xs) (off + ?size) (len - ?size) data"
    using Cons.prems(1,2) by (simp_all add: Let_def)
  have "length xs = (len - ?size + 27) div 28" using Cons.prems(3) chunk_count [OF len] by simp
  note IH = Cons.IH [OF x(3,5) this]
  have "take ?size (drop off data) @ take (len - ?size) (drop (off + ?size) data) = take len (drop off data)"
    using take_add [of 28 "len - 28" "drop off data"] by (cases "len < 28") (simp_all add: add.commute)
  moreover have "dump_chain seq_copy_in_kernel m a len s =
      dump_chain seq_copy_in_kernel m (next_of m x) (len - ?size) (s @ take ?size (drop off data))"
    using len x(1,2,4) dump_chain.simps [of seq_copy_in_kernel m a len s]
    by (simp add: Let_def seq_copy_in_kernel_def)
  ultimately show ?case using IH [of "s @ take ?size (drop off data)"] by simp
qed

section \<open>Duplicating\<close>

lemma set_ext_simps [simp]:
  "ext_len (set_ext l q e) = l" "ext_ptr (set_ext l q e) = q" "set_ext l q (set_ext l' q' e) = set_ext l q e"
  "ev_flags (set_ext l q e) = ev_flags e" "set_ext (ext_len e) (ext_ptr e) e = e"
  by (simp_all add: set_ext_def ext_len_def ext_ptr_def)

lemma event_of_upd [simp]:
  "event_of (upd_cell a f m) b = (if b = a then cell_event (f (cells m a)) else event_of m b)"
  by (simp add: event_of_def)

lemma pool_inv_upd_cell:
  "(\<And>c. cell_next (f c) = cell_next c) \<Longrightarrow> (\<And>c. cell_pool (f c) = cell_pool c) \<Longrightarrow>
   pool_inv (upd_cell a f m) p A fs = pool_inv m p A fs"
  by (auto simp: pool_inv_def)

lemma pool_inv_set_next: "a \<notin> set fs \<Longrightarrow> pool_inv (set_next a b m) p A fs = pool_inv m p A fs"
  by (simp add: pool_inv_def)

text \<open>A new chunk \<open>x\<close>, just taken from the pool, is linked to the chain \<open>cs\<close> of \<open>cell\<close>.\<close>

lemma link_chunk_inv:
  assumes "pool_inv m p A fs" "cell \<notin> set fs" "set cs \<inter> set fs = {}" "next_of m x = 0" "x \<noteq> 0"
    and "x \<notin> set cs" "x \<noteq> cell" "cell \<notin> set cs" "path (next_of m) (ext_ptr (event_of m cell)) cs 0"
  defines "m' \<equiv> link_chunk cell (if cs = [] then 0 else last cs) x m"
  shows "pool_inv m' p A fs" "path (next_of m') (ext_ptr (event_of m' cell)) (cs @ [x]) 0"
    "\<exists>q. event_of m' cell = set_ext (ext_len (event_of m cell)) q (event_of m cell)"
    "next_of m' cell = next_of m cell" "\<forall>b. cell_bytes (cells m' b) = cell_bytes (cells m b)"
    "\<forall>b. b \<notin> insert cell (set cs) \<longrightarrow> cells m' b = cells m b" "pools m' = pools m"
proof -
  let ?e = "event_of m cell"
  let ?u = "\<lambda>m. upd_cell cell (\<lambda>c. c\<lparr>cell_event := set_ext (ext_len ?e) x ?e\<rparr>) m"
  have "pool_inv m' p A fs \<and> path (next_of m') (ext_ptr (event_of m' cell)) (cs @ [x]) 0 \<and>
    (\<exists>q. event_of m' cell = set_ext (ext_len ?e) q ?e) \<and>
    next_of m' cell = next_of m cell \<and> (\<forall>b. cell_bytes (cells m' b) = cell_bytes (cells m b)) \<and>
    (\<forall>b. b \<notin> insert cell (set cs) \<longrightarrow> cells m' b = cells m b) \<and> pools m' = pools m"
  proof (cases "cs = []")
    case True
    then have "ext_ptr ?e = 0" using assms(9) by simp
    then have "m' = ?u m" using True by (simp add: m'_def link_chunk_def Let_def)
    then show ?thesis using True assms(1,4,5) by (auto simp: pool_inv_upd_cell)
  next
    case False
    then obtain c cs' where cs: "cs = c # cs'" by (cases cs) auto
    then have "ext_ptr ?e \<noteq> 0" using assms(9) by auto
    moreover have l: "last cs \<in> set cs" "last cs \<noteq> 0" using False path_nonzero [OF assms(9)] by (auto dest: last_in_set)
    ultimately have m': "m' = set_next (last cs) x m" using False by (simp add: m'_def link_chunk_def Let_def)
    have "last cs \<notin> set fs" "last cs \<noteq> cell" using l(1) assms(3,8) by auto
    moreover have "path ((next_of m)(last cs := x, x := 0)) (ext_ptr ?e) (cs @ [x]) 0"
      using assms(9,6,5) False by (rule path_snoc_upd)
    moreover have "(next_of m)(last cs := x, x := 0) = (next_of m)(last cs := x)"
      using assms(4,6) l(1) by (auto simp: fun_eq_iff)
    moreover have "\<exists>q. ?e = set_ext (ext_len ?e) q ?e" by (metis set_ext_simps(5))
    moreover have "\<forall>b. b \<notin> insert cell (set cs) \<longrightarrow> cells (set_next (last cs) x m) b = cells m b"
      using l(1) by (metis insertCI set_next_simps(4))
    ultimately show ?thesis using assms(1) by (simp add: m' pool_inv_set_next)
  qed
  then show "pool_inv m' p A fs" "path (next_of m') (ext_ptr (event_of m' cell)) (cs @ [x]) 0"
    "\<exists>q. event_of m' cell = set_ext (ext_len (event_of m cell)) q (event_of m cell)"
    "next_of m' cell = next_of m cell" "\<forall>b. cell_bytes (cells m' b) = cell_bytes (cells m b)"
    "\<forall>b. b \<notin> insert cell (set cs) \<longrightarrow> cells m' b = cells m b" "pools m' = pools m" by blast+
qed

text \<open>The bytes are in kernel memory.\<close>

definition kernel_data :: "seq_event \<Rightarrow> bool" where
  "kernel_data e \<longleftrightarrow> ext_len e AND EXT_CHAINED = 0 \<and> ext_len e AND EXT_USRPTR = 0"

text \<open>
  What \<open>n\<close> rounds of the loop in \<^verbatim>\<open>snd_seq_event_dup\<close> leave: \<open>k\<close> cells have moved from the free list to the
  chain.
\<close>

definition chunks_done ::
  "seq_mem \<Rightarrow> seq_mem \<Rightarrow> nat \<Rightarrow> u32 set \<Rightarrow> u32 \<Rightarrow> u32 list \<Rightarrow> u32 list \<Rightarrow> nat \<Rightarrow> bool" where
  "chunks_done m m' p A cell cs fs k \<longleftrightarrow>
     k \<le> length fs \<and> pool_inv m' p A (drop k fs) \<and>
     path (next_of m') (ext_ptr (event_of m' cell)) (cs @ take k fs) 0 \<and>
     (\<exists>q. event_of m' cell = set_ext (ext_len (event_of m cell)) q (event_of m cell)) \<and>
     next_of m' cell = next_of m cell \<and>
     (\<forall>b. b \<notin> set (take k fs) \<longrightarrow> cell_bytes (cells m' b) = cell_bytes (cells m b)) \<and>
     (\<forall>b. b \<notin> insert cell (set cs \<union> set (take k fs)) \<longrightarrow> cells m' b = cells m b) \<and>
     closing (pools m' p) = closing (pools m p) \<and> pool_ptr (pools m' p) = pool_ptr (pools m p)"

lemma chunks_done_refl:
  "pool_inv m p A fs \<Longrightarrow> path (next_of m) (ext_ptr (event_of m cell)) cs 0 \<Longrightarrow> chunks_done m m p A cell cs fs 0"
  by (auto simp: chunks_done_def intro: exI [of _ "ext_ptr (event_of m cell)"])

lemma chunks_done_step:
  assumes "chunks_done m1 m' p A cell (cs @ [x]) fs k"
    and "\<exists>q. event_of m1 cell = set_ext (ext_len (event_of m cell)) q (event_of m cell)"
    and "next_of m1 cell = next_of m cell" "\<forall>b. b \<noteq> x \<longrightarrow> cell_bytes (cells m1 b) = cell_bytes (cells m b)"
    and "\<forall>b. b \<notin> insert x (insert cell (set cs)) \<longrightarrow> cells m1 b = cells m b"
    and "closing (pools m1 p) = closing (pools m p)" "pool_ptr (pools m1 p) = pool_ptr (pools m p)"
  shows "chunks_done m m' p A cell cs (x # fs) (Suc k)"
  using assms unfolding chunks_done_def by auto


lemma dup_chunks_inv:
  assumes "pool_inv m p A fs" "\<not> closing (pools m p)" "pool_ptr (pools m p) \<noteq> 0"
    and "cell \<notin> set fs" "set cs \<inter> set fs = {}" "cell \<notin> set cs"
    and "path (next_of m) (ext_ptr (event_of m cell)) cs 0"
  shows "\<exists>err k m'. dup_chunks p True event data bad cell n (if cs = [] then 0 else last cs) src off len ts m =
       Some (err, ts, m') \<and> chunks_done m m' p A cell cs fs k \<and> err \<le> 0 \<and> (err = 0 \<longrightarrow> k = n) \<and>
     (kernel_data event \<longrightarrow> (if n \<le> length fs then err = 0 else err = - EAGAIN) \<and>
        (err = 0 \<longrightarrow> map (\<lambda>x. cell_bytes (cells m' x)) (take n fs) = chunks n off len data))"
  using assms
proof (induction n arbitrary: m fs cs src off len)
  case 0
  then show ?case using chunks_done_refl [of m p A fs cell cs]
    by (intro exI [of _ 0] exI [of _ 0] exI [of _ m]) simp
next
  case (Suc n)
  let ?size = "if len < EVENT_SIZE then len else EVENT_SIZE" and ?tail = "if cs = [] then 0 else last cs"
  show ?case
  proof (cases fs)
    case Nil
    obtain m' where m': "snd_seq_cell_alloc p True ts m = Some (- EAGAIN, 0, ts, m')" "pool_inv m' p A []"
      "cells m' = cells m" "closing (pools m' p) = closing (pools m p)" "pool_ptr (pools m' p) = pool_ptr (pools m p)"
      using cell_alloc_empty [of m p A ts] Suc.prems(1-3) Nil by blast
    have "next_of m' = next_of m" "event_of m' = event_of m" using m'(3) by (simp_all add: next_of_def event_of_def fun_eq_iff)
    then have "chunks_done m m' p A cell cs fs 0"
      using m' Suc.prems(7) Nil by (auto simp: chunks_done_def intro: exI [of _ "ext_ptr (event_of m cell)"])
    moreover have "dup_chunks p True event data bad cell (Suc n) ?tail src off len ts m = Some (- EAGAIN, ts, m')"
      using m'(1) by simp
    ultimately show ?thesis using Nil by (intro exI [of _ "- EAGAIN"] exI [of _ 0] exI [of _ m']) simp
  next
    case (Cons x fs')
    obtain m1 where m1: "snd_seq_cell_alloc p True ts m = Some (0, x, ts, m1)" "pool_inv m1 p A fs'"
      "next_of m1 = (next_of m)(x := 0)" "event_of m1 = event_of m"
      "\<forall>b. cell_bytes (cells m1 b) = cell_bytes (cells m b)"
      "closing (pools m1 p) = closing (pools m p)" "pool_ptr (pools m1 p) = pool_ptr (pools m p)"
      "\<forall>b. b \<noteq> x \<longrightarrow> cells m1 b = cells m b"
      using cell_alloc_inv [of m p A x fs' True ts] Suc.prems(1-3) Cons by blast
    have x: "x \<noteq> 0" "x \<notin> set fs'" "x \<noteq> cell" "x \<notin> set cs" "cell \<notin> set fs'" "set cs \<inter> set fs' = {}"
      using Suc.prems(1,4,5) pool_inv_distinct [OF Suc.prems(1)] Cons by (auto simp: pool_inv_def)
    have p1: "path (next_of m1) (ext_ptr (event_of m1 cell)) cs 0" using Suc.prems(7) x(4) m1(3,4) by simp
    define m2 where "m2 = link_chunk cell ?tail x m1"
    have n1: "next_of m1 x = 0" using m1(3) by simp
    note l = link_chunk_inv [OF m1(2) x(5,6) n1 x(1,4,3) Suc.prems(6) p1, folded m2_def]
    define chunk where "chunk = take ?size (drop off data)"
    define f where "f = (\<lambda>c :: event_cell. if ext_len event AND EXT_CHAINED \<noteq> 0 \<and> src \<noteq> 0
       then c\<lparr>cell_event := event_of m2 src, cell_bytes := cell_bytes (cells m2 src)\<rparr> else c\<lparr>cell_bytes := chunk\<rparr>)"
    define src' where "src' = (if ext_len event AND EXT_CHAINED \<noteq> 0 \<and> src \<noteq> 0 then next_of m2 src else src)"
    let ?m = "upd_cell x f m2"
    have fs: "cell_next (f c) = cell_next c" "cell_pool (f c) = cell_pool c" for c by (simp_all add: f_def)
    have step: "chunks_done m m' p A cell cs fs (Suc k)"
      if "chunks_done m2' m' p A cell (cs @ [x]) fs' k" "m2' = m2 \<or> m2' = ?m" for m2' m' k
    proof -
      have "\<forall>b. b \<noteq> x \<longrightarrow> cell_bytes (cells m2' b) = cell_bytes (cells m b)" "next_of m2' cell = next_of m cell"
        "\<exists>q. event_of m2' cell = set_ext (ext_len (event_of m cell)) q (event_of m cell)"
        "\<forall>b. b \<notin> insert x (insert cell (set cs)) \<longrightarrow> cells m2' b = cells m b"
        "closing (pools m2' p) = closing (pools m p)" "pool_ptr (pools m2' p) = pool_ptr (pools m p)"
        using that(2) l m1 x(3) fs by auto
      then show ?thesis using chunks_done_step [OF that(1)] Cons by blast
    qed
    have pinv: "pool_inv ?m p A fs'" "path (next_of ?m) (ext_ptr (event_of ?m cell)) (cs @ [x]) 0"
      "\<not> closing (pools ?m p)" "pool_ptr (pools ?m p) \<noteq> 0"
      using l m1 Suc.prems(2,3) x(3) fs by (simp_all add: pool_inv_upd_cell)
    have dist: "set (cs @ [x]) \<inter> set fs' = {}" "cell \<notin> set (cs @ [x])" using x Suc.prems(6) by auto
    show ?thesis
    proof (cases "\<not> (ext_len event AND EXT_CHAINED \<noteq> 0 \<and> src \<noteq> 0) \<and> ext_len event AND EXT_USRPTR \<noteq> 0 \<and> bad off")
      case True
      then have "dup_chunks p True event data bad cell (Suc n) ?tail src off len ts m = Some (- EFAULT, ts, m2)"
        using m1(1) by (auto simp: Let_def m2_def [symmetric])
      moreover have "chunks_done m m2 p A cell cs fs (Suc 0)"
        using chunks_done_refl [OF l(1,2)] by (rule step) simp
      ultimately show ?thesis using True
        by (intro exI [of _ "- EFAULT"] exI [of _ "Suc 0"] exI [of _ m2]) (simp add: kernel_data_def)
    next
      case False
      obtain err k m' where IH: "dup_chunks p True event data bad cell n x src' (off + ?size) (len - ?size) ts ?m = Some (err, ts, m')"
        "chunks_done ?m m' p A cell (cs @ [x]) fs' k" "err \<le> 0" "err = 0 \<longrightarrow> k = n"
        "kernel_data event \<longrightarrow> (if n \<le> length fs' then err = 0 else err = - EAGAIN) \<and>
          (err = 0 \<longrightarrow> map (\<lambda>x. cell_bytes (cells m' x)) (take n fs') = chunks n (off + ?size) (len - ?size) data)"
        using Suc.IH [OF pinv(1,3,4) x(5) dist pinv(2), of src' "off + ?size" "len - ?size"] by auto
      have e: "dup_chunks p True event data bad cell (Suc n) ?tail src off len ts m = Some (err, ts, m')"
      proof (cases "ext_len event AND EXT_CHAINED \<noteq> 0 \<and> src \<noteq> 0")
        case c: True
        then have "f = (\<lambda>c. c\<lparr>cell_event := event_of m2 src, cell_bytes := cell_bytes (cells m2 src)\<rparr>)"
          "src' = next_of m2 src" by (simp_all add: f_def src'_def)
        then show ?thesis using c m1(1) IH(1) by (simp add: Let_def m2_def [symmetric])
      next
        case c: False
        then have "f = (\<lambda>c. c\<lparr>cell_bytes := chunk\<rparr>)" "src' = src" by (auto simp: f_def src'_def)
        moreover have "\<not> (ext_len event AND EXT_USRPTR \<noteq> 0 \<and> bad off)" using False c by blast
        ultimately show ?thesis using c m1(1) IH(1)
          unfolding dup_chunks.simps Let_def m1(1) option.case prod.case m2_def [symmetric] chunk_def [symmetric]
          by (simp only: if_False less_irrefl)
      qed
      have "chunks_done m m' p A cell cs fs (Suc k)" using IH(2) by (rule step) simp
      moreover have "kernel_data event \<Longrightarrow> cell_bytes (cells m' x) = chunk"
        using IH(2) x(2) by (auto simp: chunks_done_def f_def kernel_data_def dest: in_set_takeD)
      ultimately show ?thesis using e IH(3-5) Cons
        by (intro exI [of _ err] exI [of _ "Suc k"] exI [of _ m']) (simp add: Let_def chunk_def)
    qed
  qed
qed

lemma or_and_same: "(x OR c) AND c = (c :: u32)"
  by (rule bit_eqI) (auto simp: bit_simps)

lemma chained_len:
  defines "w \<equiv> \<lambda>e. (of_nat (var_len e) OR EXT_CHAINED)"
  shows "w e AND EXT_CHAINED \<noteq> 0" "w e AND NOT EXT_MASK = of_nat (var_len e)" "w e AND EXT_USRPTR = 0"
proof -
  let ?x = "ext_len e AND NOT EXT_MASK"
  have x: "w e = ?x OR EXT_CHAINED" by (simp add: w_def var_len_def)
  show "w e AND EXT_CHAINED \<noteq> 0" unfolding x or_and_same by simp
  have "(?x OR EXT_CHAINED) AND NOT EXT_MASK = ?x AND NOT EXT_MASK OR EXT_CHAINED AND NOT EXT_MASK"
    by (rule bit.conj_disj_distrib2)
  also have "\<dots> = ?x" by (simp add: and.assoc)
  finally show "w e AND NOT EXT_MASK = of_nat (var_len e)" unfolding x by (simp add: var_len_def)
  have "(?x OR EXT_CHAINED) AND EXT_USRPTR = ?x AND EXT_USRPTR OR EXT_CHAINED AND EXT_USRPTR"
    by (rule bit.conj_disj_distrib2)
  also have "\<dots> = 0" by (simp add: and.assoc)
  finally show "w e AND EXT_USRPTR = 0" unfolding x .
qed

lemma variable_set_ext [simp]: "snd_seq_ev_is_variable (set_ext l q e) = snd_seq_ev_is_variable e"
  by (simp add: snd_seq_ev_is_variable_def)

text \<open>The cells an event needs beyond its first one.\<close>

definition extra_cells :: "seq_event \<Rightarrow> nat" where
  "extra_cells e = (if snd_seq_ev_is_variable e then (var_len e + 27) div 28 else 0)"

text \<open>The state after a successful duplication.\<close>

definition duplicated :: "seq_mem \<Rightarrow> seq_mem \<Rightarrow> nat \<Rightarrow> u32 set \<Rightarrow> u32 list \<Rightarrow> seq_event \<Rightarrow> u32 \<Rightarrow> bool" where
  "duplicated m m' p A fs e cell \<longleftrightarrow>
     (\<exists>xs fs'. fs = cell # xs @ fs' \<and> length xs = extra_cells e \<and> pool_inv m' p A fs' \<and>
       (if snd_seq_ev_is_variable e
        then (\<exists>q. event_of m' cell = set_ext (of_nat (var_len e) OR EXT_CHAINED) q e \<and> path (next_of m') q xs 0)
        else event_of m' cell = e) \<and>
       chain m' cell xs \<and> next_of m' cell = 0 \<and>
       (\<forall>b. b \<notin> set (cell # xs) \<longrightarrow> cells m' b = cells m b))"

text \<open>What a call of \<^verbatim>\<open>snd_seq_event_dup\<close> that does not sleep returns.\<close>

definition dup_spec ::
  "seq_mem \<Rightarrow> nat \<Rightarrow> u32 set \<Rightarrow> u32 list \<Rightarrow> seq_event \<Rightarrow> u8 list \<Rightarrow> int \<Rightarrow> u32 \<Rightarrow> seq_mem \<Rightarrow> bool" where
  "dup_spec m p A fs event data err cell m' \<longleftrightarrow>
    (if err < 0
     then cell = 0 \<and> (\<exists>fs'. set fs' = set fs \<and> length fs' = length fs \<and> pool_inv m' p A fs') \<and>
       (\<forall>b. b \<notin> set fs \<longrightarrow> cells m' b = cells m b)
     else err = 0 \<and> duplicated m m' p A fs event cell) \<and>
    (kernel_data event \<and> extra_cells event < min (card A) (length fs) \<longrightarrow> err = 0 \<and>
      (snd_seq_ev_is_variable event \<longrightarrow>
        map (\<lambda>x. cell_bytes (cells m' x)) (take (extra_cells event) (tl fs)) =
          chunks (extra_cells event) 0 (var_len event) data)) \<and>
    closing (pools m' p) = closing (pools m p) \<and> pool_ptr (pools m' p) = pool_ptr (pools m p)"

lemma dup_spec_failed:
  assumes "err < 0" "set fs' = set fs" "length fs' = length fs" "pool_inv m' p A fs'"
    and "\<And>b. b \<notin> set fs \<Longrightarrow> cells m' b = cells m b"
    and "\<not> (kernel_data event \<and> extra_cells event < min (card A) (length fs))"
    and "closing (pools m' p) = closing (pools m p)" "pool_ptr (pools m' p) = pool_ptr (pools m p)"
  shows "dup_spec m p A fs event data err 0 m'"
  using assms unfolding dup_spec_def by auto

text \<open>The second half, for a variable-length event whose first cell \<open>cell\<close> is at hand.\<close>

lemma dup_variable:
  assumes fs: "pool_inv m p A (cell # fs1)" "\<not> closing (pools m p)" "pool_ptr (pools m p) \<noteq> 0"
    and var: "snd_seq_ev_is_variable event"
    and m1: "pool_inv m1 p A fs1" "next_of m1 = (next_of m)(cell := 0)" "closing (pools m1 p) = closing (pools m p)"
      "pool_ptr (pools m1 p) = pool_ptr (pools m p)" "\<forall>b. b \<noteq> cell \<longrightarrow> cells m1 b = cells m b"
  defines "l \<equiv> of_nat (var_len event) OR EXT_CHAINED"
  defines "m2 \<equiv> upd_cell cell (\<lambda>c. c\<lparr>cell_event := set_ext l 0 event\<rparr>) (upd_cell cell (\<lambda>c. c\<lparr>cell_event := event\<rparr>) m1)"
  shows "\<exists>err m'. dup_chunks p True event data bad cell (extra_cells event) 0 (ext_ptr event) 0 (var_len event) ts m2 =
      Some (err, ts, m') \<and>
    (if err < 0 then \<exists>m3. snd_seq_cell_free cell m' = Some m3 \<and> dup_spec m p A (cell # fs1) event data err 0 m3
     else dup_spec m p A (cell # fs1) event data 0 cell m')"
proof -
  let ?n = "extra_cells event"
  have cell: "cell \<notin> set fs1" "cell \<in> A"
    using pool_inv_distinct [OF fs(1)] fs(1) by (auto simp: pool_inv_def)
  have inv: "pool_inv m2 p A fs1" "\<not> closing (pools m2 p)" "pool_ptr (pools m2 p) \<noteq> 0"
    "path (next_of m2) (ext_ptr (event_of m2 cell)) [] 0" "next_of m2 cell = 0" "event_of m2 cell = set_ext l 0 event"
    using m1 fs(2,3) by (simp_all add: m2_def pool_inv_upd_cell)
  obtain err k m' where d: "dup_chunks p True event data bad cell ?n 0 (ext_ptr event) 0 (var_len event) ts m2 = Some (err, ts, m')"
    "chunks_done m2 m' p A cell [] fs1 k" "err \<le> 0" "err = 0 \<longrightarrow> k = ?n"
    "kernel_data event \<longrightarrow> (if ?n \<le> length fs1 then err = 0 else err = - EAGAIN) \<and>
      (err = 0 \<longrightarrow> map (\<lambda>x. cell_bytes (cells m' x)) (take ?n fs1) = chunks ?n 0 (var_len event) data)"
    using dup_chunks_inv [OF inv(1-3) cell(1) _ _ inv(4), of event data bad ?n "ext_ptr event" 0 "var_len event" ts]
    by auto
  obtain q where q: "event_of m' cell = set_ext l q event" "path (next_of m') q (take k fs1) 0" "next_of m' cell = 0"
    "k \<le> length fs1" "pool_inv m' p A (drop k fs1)"
    "\<forall>b. b \<notin> insert cell (set (take k fs1)) \<longrightarrow> cells m' b = cells m b"
    "closing (pools m' p) = closing (pools m p)" "pool_ptr (pools m' p) = pool_ptr (pools m p)"
    using d(2) m1 inv(5,6) unfolding chunks_done_def m2_def by auto
  have ch: "chain m' cell (take k fs1)"
    using q(1,2) var chained_len(1) [of event] by (simp add: chain_def has_chain_def l_def)
  show ?thesis
  proof (cases "err < 0")
    case False
    then have e: "err = 0" "k = ?n" using d(3,4) by auto
    then have "duplicated m m' p A (cell # fs1) event cell"
      unfolding duplicated_def using q ch var
      by (intro exI [of _ "take k fs1"] exI [of _ "drop k fs1"]) (auto simp: l_def)
    then have "dup_spec m p A (cell # fs1) event data 0 cell m'"
      using d(5) e q(7,8) by (simp add: dup_spec_def)
    then show ?thesis using d(1) e by auto
  next
    case True
    have "set (cell # take k fs1) \<subseteq> A" "set (cell # take k fs1) \<inter> set (drop k fs1) = {}" "cell \<notin> set (take k fs1)"
      using fs(1) cell pool_inv_distinct [OF fs(1)] set_take_subset [of k fs1]
        set_take_disj_set_drop_if_distinct [of fs1 k k] by (auto simp: pool_inv_def dest: in_set_dropD)
    from cell_free_inv [OF q(5) ch this] obtain m3 where m3: "snd_seq_cell_free cell m' = Some m3"
      "pool_inv m3 p A (rev (take k fs1) @ cell # drop k fs1)"
      "\<forall>b. b \<notin> set (cell # take k fs1) \<longrightarrow> cells m3 b = cells m' b"
      "closing (pools m3 p) = closing (pools m' p)" "pool_ptr (pools m3 p) = pool_ptr (pools m' p)"
      by (elim exE conjE)
    have "dup_spec m p A (cell # fs1) event data err 0 m3"
    proof (rule dup_spec_failed [OF True _ _ m3(2)])
      show "set (rev (take k fs1) @ cell # drop k fs1) = set (cell # fs1)"
        using set_append [of "take k fs1" "drop k fs1"] by auto
      show "cells m3 b = cells m b" if "b \<notin> set (cell # fs1)" for b
        using that m3(3) q(6) by (auto dest: in_set_takeD)
      show "\<not> (kernel_data event \<and> ?n < min (card A) (length (cell # fs1)))" using True d(5) by auto
    qed (use q m3 in simp_all)
    then show ?thesis using d(1) True m3(1) by auto
  qed
qed

lemma event_dup_outcome:
  assumes "pool_inv m p A fs" "\<not> closing (pools m p)" "pool_ptr (pools m p) \<noteq> 0"
  shows "\<exists>err cell m'. snd_seq_event_dup p event data bad True ts m = Some (err, cell, ts, m') \<and>
    dup_spec m p A fs event data err cell m'"
proof -
  let ?var = "snd_seq_ev_is_variable event" and ?n = "extra_cells event"
  have n: "((if ?var then var_len event else 0) + EVENT_SIZE - 1) div EVENT_SIZE = ?n"
    by (simp add: extra_cells_def add.commute)
  have tot: "total_elements (pools m p) = int (card A)" using assms(1) by (simp add: pool_inv_def)
  consider "card A \<le> ?n" | "\<not> card A \<le> ?n" "fs = []" | cell fs1 where "\<not> card A \<le> ?n" "fs = cell # fs1"
    by (cases fs) auto
  then show ?thesis
  proof cases
    case 1
    then have "snd_seq_event_dup p event data bad True ts m = Some (- ENOMEM, 0, ts, m)"
      unfolding snd_seq_event_dup_def Let_def n tot by simp
    moreover have "dup_spec m p A fs event data (- ENOMEM) 0 m"
      using 1 by (intro dup_spec_failed [OF _ _ _ assms(1)]) auto
    ultimately show ?thesis by blast
  next
    case 2
    obtain m' where m': "snd_seq_cell_alloc p True ts m = Some (- EAGAIN, 0, ts, m')" "pool_inv m' p A []"
      "cells m' = cells m" "closing (pools m' p) = closing (pools m p)" "pool_ptr (pools m' p) = pool_ptr (pools m p)"
      using cell_alloc_empty [of m p A ts] assms 2 by blast
    have "snd_seq_event_dup p event data bad True ts m = Some (- EAGAIN, 0, ts, m')"
      unfolding snd_seq_event_dup_def Let_def n tot using 2 m'(1) by simp
    moreover have "dup_spec m p A fs event data (- EAGAIN) 0 m'"
      using 2 m' by (intro dup_spec_failed [OF _ _ _ m'(2)]) auto
    ultimately show ?thesis by blast
  next
    case (3 cell fs1)
    obtain m1 where m1: "snd_seq_cell_alloc p True ts m = Some (0, cell, ts, m1)" "pool_inv m1 p A fs1"
      "next_of m1 = (next_of m)(cell := 0)" "closing (pools m1 p) = closing (pools m p)"
      "pool_ptr (pools m1 p) = pool_ptr (pools m p)" "\<forall>b. b \<noteq> cell \<longrightarrow> cells m1 b = cells m b"
      using cell_alloc_inv [of m p A cell fs1 True ts] assms 3 by blast
    show ?thesis
    proof (cases ?var)
      case False
      let ?m = "upd_cell cell (\<lambda>c. c\<lparr>cell_event := event\<rparr>) m1"
      have "snd_seq_event_dup p event data bad True ts m = Some (0, cell, ts, ?m)"
        unfolding snd_seq_event_dup_def Let_def n tot using 3 m1(1) False by simp
      moreover have "duplicated m ?m p A fs event cell"
        unfolding duplicated_def using False m1 3
        by (intro exI [of _ "[]"] exI [of _ fs1]) (simp add: extra_cells_def pool_inv_upd_cell chain_def has_chain_def)
      then have "dup_spec m p A fs event data 0 cell ?m" using False m1(4,5) by (simp add: dup_spec_def)
      ultimately show ?thesis by blast
    next
      case True
      note v = dup_variable [OF assms [unfolded 3] True m1(2-6), of data bad ts]
      from v show ?thesis
        unfolding snd_seq_event_dup_def Let_def n tot using 3 m1(1) True by (auto split: if_splits)
    qed
  qed
qed

section \<open>A new pool\<close>

lemma unat_cell_addr:
  assumes "unat mem + 36 * n \<le> 4294967296" "i < n"
  shows "unat (cell_addr mem i) = unat mem + 36 * i"
proof -
  have i: "36 * i < 4294967296" "i < 4294967296" using assms by linarith+
  then have "unat (of_nat i * 36 :: u32) = 36 * i"
    by (simp add: unat_word_ariths unat_of_nat take_bit_nat_eq_self)
  then show ?thesis using assms by (simp add: cell_addr_def unat_add32)
qed

lemma cell_addr_inj: "unat mem + 36 * n \<le> 4294967296 \<Longrightarrow> inj_on (cell_addr mem) {..<n}"
proof (rule inj_onI)
  fix i j assume "unat mem + 36 * n \<le> 4294967296" "i \<in> {..<n}" "j \<in> {..<n}" "cell_addr mem i = cell_addr mem j"
  then have "unat mem + 36 * i = unat mem + 36 * j" using unat_cell_addr by (metis lessThan_iff)
  then show "i = j" by simp
qed

lemma add_cells:
  assumes "unat mem + 36 * n \<le> 4294967296" "mem \<noteq> 0" "pool_ptr (pools m p) = mem" "pool_free (pools m p) = 0"
  shows "k \<le> n \<Longrightarrow> let m' = fold (add_cell p) [0..<k] m in
     path (next_of m') (pool_free (pools m' p)) (rev (map (cell_addr mem) [0..<k])) 0 \<and>
     (\<forall>i<k. cell_pool (cells m' (cell_addr mem i)) = p) \<and>
     pools m' p = (pools m p)\<lparr>pool_free := pool_free (pools m' p)\<rparr>"
proof (induction k)
  case 0
  then show ?case using assms(4) by simp
next
  case (Suc k)
  let ?m = "fold (add_cell p) [0..<k] m" and ?a = "cell_addr mem k"
  have IH: "path (next_of ?m) (pool_free (pools ?m p)) (rev (map (cell_addr mem) [0..<k])) 0"
    "\<forall>i<k. cell_pool (cells ?m (cell_addr mem i)) = p" "pools ?m p = (pools m p)\<lparr>pool_free := pool_free (pools ?m p)\<rparr>"
    using Suc by (simp_all add: Let_def)
  have ptr: "pool_ptr (pools ?m p) = mem" using arg_cong [OF IH(3), of pool_ptr] assms(3) by simp
  have "unat ?a = unat mem + 36 * k" using unat_cell_addr [OF assms(1)] Suc.prems by simp
  then have "0 < unat ?a" using assms(2) by (simp add: unat_gt_0)
  then have a: "?a \<noteq> 0" by auto
  have fresh: "?a \<notin> set (rev (map (cell_addr mem) [0..<k]))"
    using cell_addr_inj [OF assms(1)] Suc.prems by (auto dest!: inj_onD)
  let ?m' = "upd_pool p (\<lambda>q. q\<lparr>pool_free := ?a\<rparr>)
      (upd_cell ?a (\<lambda>c. c\<lparr>cell_pool := p, cell_next := pool_free (pools ?m p)\<rparr>) ?m)"
  have m': "fold (add_cell p) [0..<Suc k] m = ?m'" by (simp add: add_cell_def ptr Let_def)
  have "next_of ?m' = (next_of ?m)(?a := pool_free (pools ?m p))"
    by (simp add: next_of_def fun_eq_iff)
  then have "path (next_of ?m') ?a (rev (map (cell_addr mem) [0..<Suc k])) 0"
    using IH(1) fresh a by simp
  moreover have "\<forall>i<Suc k. cell_pool (cells ?m' (cell_addr mem i)) = p" using IH(2) by (auto simp: less_Suc_eq)
  moreover have "pools ?m' p = (pools m p)\<lparr>pool_free := ?a\<rparr>"
  proof -
    have "pools ?m' p = (pools ?m p)\<lparr>pool_free := ?a\<rparr>" by simp
    then show ?thesis by (subst (asm) IH(3)) simp
  qed
  ultimately show ?case unfolding m' Let_def by simp
qed

lemma pool_init_inv:
  assumes "mem \<noteq> 0" "unat mem + 36 * n \<le> 4294967296"
    and "pool_ptr (pools m p) = 0" "pool_size (pools m p) = int n" "counter (pools m p) = 0"
  shows "\<exists>m'. snd_seq_pool_init mem p m = (0, m') \<and> pool_ptr (pools m' p) = mem \<and>
     closing (pools m' p) = closing (pools m p) \<and>
     pool_inv m' p (cell_addr mem ` {..<n}) (rev (map (cell_addr mem) [0..<n]))"
proof -
  let ?m0 = "upd_pool p (\<lambda>q. q\<lparr>pool_ptr := mem, pool_free := 0\<rparr>) m"
  let ?m1 = "fold (add_cell p) [0..<n] ?m0"
  let ?m2 = "upd_pool p (\<lambda>q. q\<lparr>room := (pool_size q + 1) div 2, max_used := 0, total_elements := pool_size q\<rparr>) ?m1"
  have m1: "path (next_of ?m1) (pool_free (pools ?m1 p)) (rev (map (cell_addr mem) [0..<n])) 0"
    "\<forall>i<n. cell_pool (cells ?m1 (cell_addr mem i)) = p"
    "pools ?m1 p = (pools ?m0 p)\<lparr>pool_free := pool_free (pools ?m1 p)\<rparr>"
    using add_cells [OF assms(2,1), of ?m0 p n] by (simp_all add: Let_def)
  have e: "snd_seq_pool_init mem p m = (0, ?m2)"
    using assms(1,3,4) by (simp add: snd_seq_pool_init_def Let_def)
  have f: "f (pools ?m1 p) = f ((pools ?m0 p)\<lparr>pool_free := pool_free (pools ?m1 p)\<rparr>)" for f :: "seq_pool \<Rightarrow> 'b"
    using m1(3) by metis
  have "0 \<notin> cell_addr mem ` {..<n}"
  proof
    assume "0 \<in> cell_addr mem ` {..<n}"
    then obtain i where "i < n" "cell_addr mem i = 0" by auto
    then have "unat mem + 36 * i = 0" using unat_cell_addr [OF assms(2), of i] by simp
    then show False using assms(1) by (simp add: unat_eq_0)
  qed
  moreover have "card (cell_addr mem ` {..<n}) = n" using card_image [OF cell_addr_inj [OF assms(2)]] by simp
  ultimately have "pool_inv ?m2 p (cell_addr mem ` {..<n}) (rev (map (cell_addr mem) [0..<n]))"
    using m1(1,2) assms(4,5) f [of counter] f [of pool_size]
    by (auto simp: pool_inv_def)
  then show ?thesis using e f [of pool_ptr] f [of closing] by (intro exI [of _ ?m2]) simp
qed

section \<open>Properties\<close>

text \<open>
  C16. The memory manager loses no cells. Whatever the event, its data and the faults of user memory, a
  duplication that does not sleep returns, and either it fails and the free list has exactly the cells
  it had before (the cells already taken, chain included, are back), or it succeeds and has taken the
  first cell and as many further cells as the event needs, all of them linked in a chain that
  \<^verbatim>\<open>snd_seq_cell_free\<close> finds again. Cells outside the free list are not touched.
\<close>

theorem event_dup_conserves_cells:
  assumes "pool_inv m p A fs" "\<not> closing (pools m p)" "pool_ptr (pools m p) \<noteq> 0"
  shows "\<exists>err cell m'. snd_seq_event_dup p event data bad True ts m = Some (err, cell, ts, m') \<and>
    (if err < 0 then \<exists>fs'. set fs' = set fs \<and> length fs' = length fs \<and> pool_inv m' p A fs'
     else \<exists>xs fs'. fs = cell # xs @ fs' \<and> length xs = extra_cells event \<and> chain m' cell xs \<and> pool_inv m' p A fs') \<and>
    (\<forall>b. b \<notin> set fs \<longrightarrow> cells m' b = cells m b)"
proof -
  obtain err cell m' where d: "snd_seq_event_dup p event data bad True ts m = Some (err, cell, ts, m')"
    "dup_spec m p A fs event data err cell m'"
    using event_dup_outcome [OF assms] by blast
  show ?thesis
  proof (cases "err < 0")
    case True
    then show ?thesis using d by (auto simp: dup_spec_def)
  next
    case False
    then obtain xs fs' where "fs = cell # xs @ fs'" "length xs = extra_cells event" "chain m' cell xs" "pool_inv m' p A fs'"
      "\<forall>b. b \<notin> set (cell # xs) \<longrightarrow> cells m' b = cells m b"
      using d(2) by (auto simp: dup_spec_def duplicated_def)
    then show ?thesis using d(1) False by (intro exI [of _ err] exI [of _ cell] exI [of _ m']) auto
  qed
qed

definition sample_event :: seq_event where
  "sample_event = \<lparr>ev_type = 130, ev_flags = 4, ev_tag = 0, ev_queue = 0, ev_time = Real_time 5 0,
     ev_source = (128, 0), ev_dest = (129, 0), ev_data = (40, 0x1000, 0)\<rparr>"

definition sample_mem :: seq_mem where
  "sample_mem = snd (snd_seq_pool_init 0x10000 0
     \<lparr>cells = (\<lambda>_. \<lparr>cell_event = sample_event, cell_bytes = [], cell_pool = 0, cell_next = 0\<rparr>),
      pools = (\<lambda>_. snd_seq_pool_new 4)\<rparr>)"

lemma sample_pool:
  "pool_inv sample_mem 0 (cell_addr 0x10000 ` {..<4}) (rev (map (cell_addr 0x10000) [0..<4]))"
  "\<not> closing (pools sample_mem 0)" "pool_ptr (pools sample_mem 0) \<noteq> 0"
  using pool_init_inv [of "0x10000" 4 "\<lparr>cells = (\<lambda>_. \<lparr>cell_event = sample_event, cell_bytes = [], cell_pool = 0, cell_next = 0\<rparr>),
      pools = (\<lambda>_. snd_seq_pool_new 4)\<rparr>" 0]
  by (auto simp: sample_mem_def snd_seq_pool_new_def)

theorem event_dup_conserves_cells_witness:
  "\<exists>err cell m'. snd_seq_event_dup 0 sample_event (replicate 40 7) (\<lambda>_. False) True [] sample_mem = Some (err, cell, [], m')"
  using event_dup_conserves_cells [OF sample_pool] by blast

text \<open>
  C17. Variable-length events survive the round trip through the cells: when the pool has room, duplicating
  an event whose \<open>var_len\<close> bytes lie in kernel memory succeeds, expanding the event of the new cell gives
  back exactly these bytes, and freeing that cell returns every cell to the free list.
\<close>

theorem dup_expand_round_trip:
  assumes "pool_inv m p A fs" "\<not> closing (pools m p)" "pool_ptr (pools m p) \<noteq> 0"
    and "snd_seq_ev_is_variable event" "kernel_data event"
    and "extra_cells event < min (card A) (length fs)" "var_len event \<le> length data" "int (var_len event) \<le> count"
  shows "\<exists>cell m' m'' fs'. snd_seq_event_dup p event data bad True ts m = Some (0, cell, ts, m') \<and>
     snd_seq_expand_var_event (event_of m' cell) data' bad' count True ubad 0 m' =
       (int (var_len event), take (var_len event) data) \<and>
     snd_seq_cell_free cell m' = Some m'' \<and> pool_inv m'' p A fs' \<and> set fs' = set fs \<and> length fs' = length fs"
proof -
  obtain cell m' where d: "snd_seq_event_dup p event data bad True ts m = Some (0, cell, ts, m')"
    "duplicated m m' p A fs event cell"
    "map (\<lambda>x. cell_bytes (cells m' x)) (take (extra_cells event) (tl fs)) = chunks (extra_cells event) 0 (var_len event) data"
    using event_dup_outcome [OF assms(1-3), of event data bad ts] assms(4-6) by (auto simp: dup_spec_def)
  let ?l = "of_nat (var_len event) OR EXT_CHAINED"
  obtain xs fs' q where x: "fs = cell # xs @ fs'" "length xs = extra_cells event" "pool_inv m' p A fs'"
    "event_of m' cell = set_ext ?l q event" "path (next_of m') q xs 0" "chain m' cell xs"
    using d(2) assms(4) by (auto simp: duplicated_def)
  have v: "var_len (event_of m' cell) = var_len event"
    using x(4) chained_len(2) [of event] by (simp add: var_len_def)
  have "dump_chain seq_copy_in_kernel m' q (var_len event) [] = (0, [] @ take (var_len event) (drop 0 data))"
    using x(5) d(3) x(1,2) assms(4) by (intro dump_chain_chunks) (simp_all add: extra_cells_def)
  then have dump: "snd_seq_dump_var_event seq_copy_in_kernel (event_of m' cell) data' bad' m' [] =
      (0, take (var_len event) data)"
    using x(4) v chained_len(1,3) [of event] assms(4)
    by (simp add: snd_seq_dump_var_event_def get_var_len_def snd_seq_ev_is_variable_def Let_def)
  then have "snd_seq_expand_var_event (event_of m' cell) data' bad' count True ubad 0 m' =
       (int (var_len event), take (var_len event) data)"
    using x(4) v chained_len(3) [of event] assms(4,8)
    by (simp add: snd_seq_expand_var_event_def get_var_len_def snd_seq_ev_is_variable_def Let_def)
  moreover have "set (cell # xs) \<subseteq> A" "set (cell # xs) \<inter> set fs' = {}" "cell \<notin> set xs"
    using assms(1) pool_inv_distinct [OF assms(1)] x(1) by (auto simp: pool_inv_def)
  then obtain m'' where "snd_seq_cell_free cell m' = Some m''" "pool_inv m'' p A (rev xs @ cell # fs')"
    using cell_free_inv [OF x(3,6)] by blast
  moreover have "set (rev xs @ cell # fs') = set fs" "length (rev xs @ cell # fs') = length fs" using x(1) by auto
  ultimately show ?thesis using d(1) by blast
qed


theorem dup_expand_round_trip_witness:
  "\<exists>cell m'. snd_seq_event_dup 0 sample_event (replicate 40 7) (\<lambda>_. False) True [] sample_mem = Some (0, cell, [], m') \<and>
     snd_seq_expand_var_event (event_of m' cell) [] (\<lambda>_. False) 64 True (\<lambda>_. False) 0 m' = (40, replicate 40 7)"
proof -
  have e: "snd_seq_ev_is_variable sample_event" "kernel_data sample_event" "var_len sample_event = 40"
    by (simp_all add: sample_event_def snd_seq_ev_is_variable_def kernel_data_def ext_len_def var_len_def)
  have c: "card (cell_addr 0x10000 ` {..<4}) = 4" using card_image [OF cell_addr_inj [of "0x10000" 4]] by simp
  have "extra_cells sample_event < min (card (cell_addr 0x10000 ` {..<4})) (length (rev (map (cell_addr 0x10000) [0..<4])))"
    unfolding c by (simp add: extra_cells_def e)
  from dup_expand_round_trip [OF sample_pool e(1,2) this, of "replicate 40 7" 64 "\<lambda>_. False" "[]" "[]" "\<lambda>_. False" "\<lambda>_. False"]
  show ?thesis unfolding e(3) by auto
qed

end
