(* ===== verification/SeqFifo.thy ===== *)
theory SeqFifo
  imports SeqPool
begin

text \<open>
  The input queue of a sequencer client, \<^verbatim>\<open>core/seq/seq_fifo.c\<close>: a linked list of cells of its own pool.
  The locale \<open>event_fifo\<close> is the contract of a first-in first-out queue whose insertion may fail; its
  consequence, that events come out in the order in which they were accepted, none lost and none twice, is
  proved once and holds for the queue of the code through the interpretation at the end.
\<close>

section \<open>State and operations\<close>

text \<open>\<open>in_waiting\<close>: somebody sleeps on \<^verbatim>\<open>input_sleep\<close>; \<open>in_wakeups\<close> counts its wake-ups.\<close>

record seq_fifo =
  ff_pool :: nat
  ff_head :: u32
  ff_tail :: u32
  ff_cells :: int
  ff_overflow :: int
  in_waiting :: bool
  in_wakeups :: nat

definition wake_input :: "seq_fifo \<Rightarrow> seq_fifo" where
  "wake_input f = (if in_waiting f then f\<lparr>in_wakeups := Suc (in_wakeups f)\<rparr> else f)"

text \<open>\<open>p\<close> is the identifier of the new pool, \<open>mem\<close> the memory of its cells (0: no memory).\<close>

definition snd_seq_fifo_new :: "int \<Rightarrow> nat \<Rightarrow> u32 \<Rightarrow> seq_mem \<Rightarrow> (seq_fifo \<times> seq_mem) option" where
  "snd_seq_fifo_new poolsize p mem m =
     (let (err, m) = snd_seq_pool_init mem p (m\<lparr>pools := (pools m)(p := snd_seq_pool_new poolsize)\<rparr>)
      in if err < 0 then None
         else Some (\<lparr>ff_pool = p, ff_head = 0, ff_tail = 0, ff_cells = 0, ff_overflow = 0,
                     in_waiting = False, in_wakeups = 0\<rparr>, m))"

definition fifo_append :: "u32 \<Rightarrow> seq_fifo \<Rightarrow> seq_mem \<Rightarrow> seq_fifo \<times> seq_mem" where
  "fifo_append cell f m =
     (let m = (if ff_tail f \<noteq> 0 then set_next (ff_tail f) cell m else m);
          f = f\<lparr>ff_tail := cell, ff_head := (if ff_head f = 0 then cell else ff_head f)\<rparr>
      in (f\<lparr>ff_cells := ff_cells f + 1\<rparr>, set_next cell 0 m))"

definition snd_seq_fifo_event_in ::
  "seq_event \<Rightarrow> u8 list \<Rightarrow> (nat \<Rightarrow> bool) \<Rightarrow> seq_fifo \<Rightarrow> seq_mem \<Rightarrow> (int \<times> seq_fifo \<times> seq_mem) option" where
  "snd_seq_fifo_event_in event data bad f m =
     (case snd_seq_event_dup (ff_pool f) event data bad True [] m of
        None \<Rightarrow> None
      | Some (err, cell, ts, m) \<Rightarrow>
          if err < 0 then
            Some (err, if err = - ENOMEM \<or> err = - EAGAIN then f\<lparr>ff_overflow := ff_overflow f + 1\<rparr> else f, m)
          else let (f, m) = fifo_append cell f m in Some (0, wake_input f, m))"

definition fifo_cell_out :: "seq_fifo \<Rightarrow> seq_mem \<Rightarrow> u32 \<times> seq_fifo \<times> seq_mem" where
  "fifo_cell_out f m =
     (let cell = ff_head f
      in if cell = 0 then (0, f, m)
         else
           let f = f\<lparr>ff_head := next_of m cell\<rparr>;
               f = (if ff_tail f = cell then f\<lparr>ff_tail := 0\<rparr> else f)
           in (cell, f\<lparr>ff_cells := ff_cells f - 1\<rparr>, set_next cell 0 m))"

text \<open>One turn of a sleeping reader: what others do meanwhile, and whether a signal is pending after it.\<close>

type_synonym fifo_turn = "(seq_fifo \<times> seq_mem \<Rightarrow> seq_fifo \<times> seq_mem) \<times> bool"

fun snd_seq_fifo_cell_out ::
  "bool \<Rightarrow> fifo_turn list \<Rightarrow> seq_fifo \<Rightarrow> seq_mem \<Rightarrow> (int \<times> u32 \<times> seq_fifo \<times> seq_mem) option" where
  "snd_seq_fifo_cell_out nonblock ts f m =
     (let (cell, f, m) = fifo_cell_out f m
      in if cell \<noteq> 0 then Some (0, cell, f, m)
         else if nonblock then Some (- EAGAIN, 0, f, m)
         else
           case ts of
             [] \<Rightarrow> None
           | (meanwhile, signal) # ts \<Rightarrow>
               let (f, m) = meanwhile (f, m)
               in if signal then Some (- 512, 0, f, m) else snd_seq_fifo_cell_out nonblock ts f m)"

declare snd_seq_fifo_cell_out.simps [simp del]

definition snd_seq_fifo_cell_putback :: "u32 \<Rightarrow> seq_fifo \<Rightarrow> seq_mem \<Rightarrow> seq_fifo \<times> seq_mem" where
  "snd_seq_fifo_cell_putback cell f m =
     (if cell = 0 then (f, m)
      else (f\<lparr>ff_head := cell, ff_tail := (if ff_tail f = 0 then cell else ff_tail f), ff_cells := ff_cells f + 1\<rparr>,
            set_next cell (ff_head f) m))"

definition snd_seq_fifo_poll_wait :: "seq_fifo \<Rightarrow> bool" where
  "snd_seq_fifo_poll_wait f \<longleftrightarrow> ff_cells f > 0"

partial_function (option) fifo_drain :: "seq_fifo \<Rightarrow> seq_mem \<Rightarrow> (seq_fifo \<times> seq_mem) option" where
  "fifo_drain f m =
     (let (cell, f, m) = fifo_cell_out f m
      in if cell = 0 then Some (f, m)
         else Option.bind (snd_seq_cell_free cell m) (fifo_drain f))"

definition snd_seq_fifo_clear :: "seq_fifo \<Rightarrow> seq_mem \<Rightarrow> (seq_fifo \<times> seq_mem) option" where
  "snd_seq_fifo_clear f m = fifo_drain (f\<lparr>ff_overflow := 0\<rparr>) m"

text \<open>\<open>fs\<close>: what others do while the pool waits for its last cell.\<close>

definition snd_seq_fifo_delete :: "(seq_mem \<Rightarrow> seq_mem) list \<Rightarrow> seq_fifo \<Rightarrow> seq_mem \<Rightarrow> seq_mem option" where
  "snd_seq_fifo_delete fs f m =
     (case snd_seq_fifo_clear f (snd_seq_pool_mark_closing (ff_pool f) m) of
        None \<Rightarrow> None
      | Some (f, m) \<Rightarrow>
          Option.bind (snd_seq_pool_done (ff_pool f) fs m) (snd_seq_pool_delete (ff_pool f) []))"

partial_function (option) free_list :: "u32 \<Rightarrow> seq_mem \<Rightarrow> seq_mem option" where
  "free_list cell m =
     (if cell = 0 then Some m
      else let n = next_of m cell in Option.bind (snd_seq_cell_free cell m) (free_list n))"

definition snd_seq_fifo_resize ::
  "int \<Rightarrow> nat \<Rightarrow> u32 \<Rightarrow> (seq_mem \<Rightarrow> seq_mem) list \<Rightarrow> seq_fifo \<Rightarrow> seq_mem \<Rightarrow> (int \<times> seq_fifo \<times> seq_mem) option" where
  "snd_seq_fifo_resize poolsize p mem fs f m =
     (let (err, m') = snd_seq_pool_init mem p (m\<lparr>pools := (pools m)(p := snd_seq_pool_new poolsize)\<rparr>)
      in if err < 0 then Some (- ENOMEM, f, m)
         else
           let oldpool = ff_pool f; oldhead = ff_head f;
               f = f\<lparr>ff_pool := p, ff_head := 0, ff_tail := 0, ff_cells := 0\<rparr>
           in case free_list oldhead (snd_seq_pool_mark_closing oldpool m') of
                None \<Rightarrow> None
              | Some m \<Rightarrow> map_option (\<lambda>m. (0, f, m)) (snd_seq_pool_delete oldpool fs m))"

definition snd_seq_fifo_unused_cells :: "seq_fifo \<Rightarrow> seq_mem \<Rightarrow> int" where
  "snd_seq_fifo_unused_cells f m = snd_seq_unused_cells (pools m (ff_pool f))"

section \<open>The invariant\<close>

text \<open>A queued event: its cell and the cells of its chain.\<close>

type_synonym entry = "u32 \<times> u32 list"

definition entry_cells :: "entry list \<Rightarrow> u32 list" where
  "entry_cells qs = concat (map (\<lambda>(c, xs). c # xs) qs)"

lemma entry_cells_simps [simp]:
  "entry_cells [] = []" "entry_cells ((c, xs) # qs) = c # xs @ entry_cells qs"
  "entry_cells (qs @ rs) = entry_cells qs @ entry_cells rs"
  by (simp_all add: entry_cells_def)

lemma fst_in_entry_cells: "(c, xs) \<in> set qs \<Longrightarrow> c \<in> set (entry_cells qs) \<and> set xs \<subseteq> set (entry_cells qs)"
  by (auto simp: entry_cells_def)

lemma map_fst_entry_cells: "set (map fst qs) \<subseteq> set (entry_cells qs)"
  by (auto simp: entry_cells_def)

definition linked :: "seq_mem \<Rightarrow> entry list \<Rightarrow> bool" where
  "linked m qs \<longleftrightarrow> (\<forall>(c, xs)\<in>set qs. chain m c xs)"

text \<open>The linked list of the queue.\<close>

definition fifo_list :: "seq_fifo \<Rightarrow> seq_mem \<Rightarrow> u32 list \<Rightarrow> bool" where
  "fifo_list f m cs \<longleftrightarrow> path (next_of m) (ff_head f) cs 0 \<and>
     ff_tail f = (if cs = [] then 0 else last cs) \<and> ff_cells f = int (length cs)"

text \<open>
  \<open>fifo_inv f m A fs qs\<close>: the queue holds the events \<open>qs\<close>, and every cell of its pool is free or belongs
  to exactly one of them.
\<close>

definition fifo_inv :: "seq_fifo \<Rightarrow> seq_mem \<Rightarrow> u32 set \<Rightarrow> u32 list \<Rightarrow> entry list \<Rightarrow> bool" where
  "fifo_inv f m A fs qs \<longleftrightarrow>
     pool_inv m (ff_pool f) A fs \<and> \<not> closing (pools m (ff_pool f)) \<and> pool_ptr (pools m (ff_pool f)) \<noteq> 0 \<and>
     fifo_list f m (map fst qs) \<and> linked m qs \<and>
     distinct (fs @ entry_cells qs) \<and> set (fs @ entry_cells qs) = A"

text \<open>What a reader finds in a cell: the event, without the link to its chain, and the expanded bytes.\<close>

definition strip :: "seq_event \<Rightarrow> seq_event" where
  "strip e = (if snd_seq_ev_is_variable e then set_ext (of_nat (var_len e)) 0 e else e)"

definition content :: "seq_mem \<Rightarrow> u32 \<Rightarrow> seq_event \<times> u8 list" where
  "content m c =
     (let e = event_of m c
      in (strip e, if has_chain e then snd (dump_chain seq_copy_in_kernel m (ext_ptr e) (var_len e) []) else []))"

lemma strip_chained:
  "snd_seq_ev_is_variable e \<Longrightarrow> strip (set_ext (of_nat (var_len e) OR EXT_CHAINED) q e) = strip e"
  using chained_len(2) [of e] by (simp add: strip_def var_len_def)

lemma dump_chain_frame:
  "path (next_of m) a xs 0 \<Longrightarrow> (\<And>b. b \<in> set xs \<Longrightarrow> cells m' b = cells m b) \<Longrightarrow>
   dump_chain func m' a len s = dump_chain func m a len s"
proof (induction xs arbitrary: a len s)
  case Nil
  then show ?case by (simp add: dump_chain.simps)
next
  case (Cons x xs)
  then have "cells m' a = cells m a" "next_of m' a = next_of m a" by (simp_all add: next_of_def)
  moreover have "dump_chain func m' (next_of m a) l t = dump_chain func m (next_of m a) l t" for l t
    using Cons by simp
  ultimately show ?case
    unfolding dump_chain.simps [of func m' a] dump_chain.simps [of func m a] by (simp add: Let_def split_beta)
qed

text \<open>Entries depend on their own cells only, and not on the link of the first one.\<close>

lemma entry_frame:
  assumes "chain m c xs" "\<And>b. b \<in> set xs \<Longrightarrow> cells m' b = cells m b" "event_of m' c = event_of m c"
  shows "chain m' c xs" "content m' c = content m c"
proof -
  have "path (next_of m') q xs 0 = path (next_of m) q xs 0" for q
    by (rule path_cong) (simp add: next_of_def assms(2))
  then show "chain m' c xs" using assms(1) by (simp add: chain_def assms(3))
  show "content m' c = content m c"
  proof (cases "has_chain (event_of m c)")
    case True
    then have "path (next_of m) (ext_ptr (event_of m c)) xs 0" using assms(1) by (simp add: chain_def)
    then show ?thesis using dump_chain_frame [of m _ xs m' seq_copy_in_kernel] assms(2,3) by (simp add: content_def Let_def)
  qed (simp add: content_def Let_def assms(3))
qed

definition contents :: "seq_mem \<Rightarrow> entry list \<Rightarrow> (seq_event \<times> u8 list) list" where
  "contents m qs = map (\<lambda>q. content m (fst q)) qs"

lemma entries_frame:
  assumes "linked m qs" "distinct (entry_cells qs)"
    and "\<And>b. b \<in> set (entry_cells qs) \<Longrightarrow> b \<notin> set (map fst qs) \<Longrightarrow> cells m' b = cells m b"
    and "\<And>b. b \<in> set (map fst qs) \<Longrightarrow> event_of m' b = event_of m b"
  shows "linked m' qs" "contents m' qs = contents m qs"
proof -
  have fst: "b \<notin> set (map fst qs)" if "(c, xs) \<in> set qs" "b \<in> set xs" for b c xs
    using that assms(2)
  proof (induction qs)
    case (Cons q qs)
    have "set (map fst qs) \<subseteq> set (entry_cells qs)" by (rule map_fst_entry_cells)
    then show ?case using Cons fst_in_entry_cells [of c xs qs] by (cases q) auto
  qed simp
  have eq: "chain m' c xs \<and> content m' c = content m c" if "(c, xs) \<in> set qs" for c xs
  proof -
    have "chain m c xs" using that assms(1) by (auto simp: linked_def)
    moreover have "event_of m' c = event_of m c" using that assms(4) by force
    moreover have "cells m' b = cells m b" if "b \<in> set xs" for b
      using assms(3) fst [OF \<open>(c, xs) \<in> set qs\<close> that] fst_in_entry_cells [OF \<open>(c, xs) \<in> set qs\<close>] that by auto
    ultimately show ?thesis using entry_frame by blast
  qed
  then show "linked m' qs" by (auto simp: linked_def)
  show "contents m' qs = contents m qs" using eq by (auto simp: contents_def)
qed

lemma linked_simps [simp]:
  "linked m []" "linked m ((c, xs) # qs) \<longleftrightarrow> chain m c xs \<and> linked m qs"
  "linked m (qs @ rs) \<longleftrightarrow> linked m qs \<and> linked m rs"
  by (auto simp: linked_def)

lemma contents_simps [simp]:
  "contents m [] = []" "contents m ((c, xs) # qs) = content m c # contents m qs"
  "contents m (qs @ rs) = contents m qs @ contents m rs" "length (contents m qs) = length qs"
  by (simp_all add: contents_def)

lemma fifo_list_cong:
  assumes "\<And>b. b \<in> set cs \<Longrightarrow> next_of m' b = next_of m b"
  shows "fifo_list f m' cs = fifo_list f m cs"
  using path_cong [of cs "next_of m'" "next_of m"] assms by (simp add: fifo_list_def)

section \<open>The operations keep it\<close>

lemma fifo_append_list:
  assumes "fifo_list f m cs" "c \<notin> set cs" "c \<noteq> 0"
  shows "fifo_list (fst (fifo_append c f m)) (snd (fifo_append c f m)) (cs @ [c])"
proof (cases "cs = []")
  case True
  then show ?thesis using assms by (simp add: fifo_list_def fifo_append_def Let_def)
next
  case False
  have p: "path (next_of m) (ff_head f) cs 0" "ff_tail f = last cs" using assms(1) False by (simp_all add: fifo_list_def)
  have "0 \<notin> set cs" using p(1) by (rule path_nonzero)
  then have "last cs \<noteq> 0" using last_in_set [OF False] by metis
  moreover have "ff_head f \<noteq> 0" using p(1) False by auto
  ultimately show ?thesis using path_snoc_upd [OF p(1) assms(2,3) False] assms(1) p(2) False
    by (simp add: fifo_list_def fifo_append_def Let_def)
qed

lemma fifo_append_frame:
  "event_of (snd (fifo_append c f m)) = event_of m"
  "cell_bytes (cells (snd (fifo_append c f m)) b) = cell_bytes (cells m b)"
  "b \<noteq> c \<Longrightarrow> b \<noteq> ff_tail f \<Longrightarrow> cells (snd (fifo_append c f m)) b = cells m b"
  "pools (snd (fifo_append c f m)) = pools m" "ff_pool (fst (fifo_append c f m)) = ff_pool f"
  "cell_pool (cells (snd (fifo_append c f m)) b) = cell_pool (cells m b)"
  by (simp_all add: fifo_append_def Let_def)

lemma pool_inv_frame:
  assumes "pool_inv m p A fs" "pools m' = pools m" "\<And>b. cell_pool (cells m' b) = cell_pool (cells m b)"
    and "\<And>b. b \<in> set fs \<Longrightarrow> next_of m' b = next_of m b"
  shows "pool_inv m' p A fs"
  using assms path_cong [of fs "next_of m'" "next_of m"] by (simp add: pool_inv_def)

lemma fifo_append_inv:
  assumes "pool_inv m (ff_pool f) A fs'" "\<not> closing (pools m (ff_pool f))" "pool_ptr (pools m (ff_pool f)) \<noteq> 0"
    and "fifo_list f m (map fst qs)" "linked m (qs @ [(c, xs)])"
    and "distinct (fs' @ entry_cells (qs @ [(c, xs)]))" "set (fs' @ entry_cells (qs @ [(c, xs)])) = A"
  shows "fifo_inv (fst (fifo_append c f m)) (snd (fifo_append c f m)) A fs' (qs @ [(c, xs)])"
    "contents (snd (fifo_append c f m)) (qs @ [(c, xs)]) = contents m (qs @ [(c, xs)])"
proof -
  let ?m = "snd (fifo_append c f m)" and ?f = "fst (fifo_append c f m)" and ?qs = "qs @ [(c, xs)]"
  have c: "c \<notin> set fs'" "c \<notin> set (map fst qs)" "c \<noteq> 0"
    using assms(6,7,1) map_fst_entry_cells [of qs] by (auto simp: pool_inv_def)
  have tail: "ff_tail f = 0 \<or> ff_tail f \<in> set (map fst qs)"
    using assms(4) last_in_set [of "map fst qs"] unfolding fifo_list_def by (metis list.map_disc_iff)
  have z: "0 \<notin> A" using assms(1) by (simp add: pool_inv_def)
  have fr: "cells ?m b = cells m b" if "b \<notin> set (map fst ?qs)" "b \<in> A" for b
  proof -
    have "b \<noteq> 0" using that(2) z by auto
    then show ?thesis using that(1) tail by (intro fifo_append_frame(3)) auto
  qed
  have fs': "b \<notin> set (map fst ?qs)" "b \<in> A" if "b \<in> set fs'" for b
  proof -
    show "b \<in> A" using that assms(7) by auto
    show "b \<notin> set (map fst ?qs)" using that assms(6) map_fst_entry_cells [of ?qs] by auto
  qed
  have "pool_inv ?m (ff_pool ?f) A fs'"
    using assms(1) fr fs' by (intro pool_inv_frame [OF _ _ fifo_append_frame(6)])
      (simp_all add: fifo_append_frame next_of_def)
  moreover have "fifo_list ?f ?m (map fst ?qs)" using fifo_append_list [OF assms(4) c(2,3)] by simp
  moreover have e: "linked ?m ?qs" "contents ?m ?qs = contents m ?qs"
  proof -
    have d: "distinct (entry_cells ?qs)" using assms(6) by simp
    have s: "cells ?m b = cells m b" if "b \<in> set (entry_cells ?qs)" "b \<notin> set (map fst ?qs)" for b
      using that fr assms(7) by (metis Un_iff set_append)
    show "linked ?m ?qs" "contents ?m ?qs = contents m ?qs"
      by (rule entries_frame [OF assms(5) d]; simp add: s fifo_append_frame del: map_append set_append)+
  qed
  ultimately show "fifo_inv ?f ?m A fs' ?qs"
    using assms(2,3,6,7) by (simp add: fifo_inv_def fifo_append_frame)
  show "contents ?m ?qs = contents m ?qs" by (rule e(2))
qed


lemma dup_entry:
  assumes "duplicated m m' p A fs event cell"
    and "snd_seq_ev_is_variable event \<Longrightarrow>
      map (\<lambda>x. cell_bytes (cells m' x)) (take (extra_cells event) (tl fs)) = chunks (extra_cells event) 0 (var_len event) data"
  shows "content m' cell = (strip event, if snd_seq_ev_is_variable event then take (var_len event) data else [])"
proof (cases "snd_seq_ev_is_variable event")
  case True
  let ?e = "set_ext (of_nat (var_len event) OR EXT_CHAINED)"
  obtain xs fs' q where x: "fs = cell # xs @ fs'" "length xs = extra_cells event"
    "event_of m' cell = ?e q event" "path (next_of m') q xs 0"
    using assms(1) True by (auto simp: duplicated_def)
  have "map (\<lambda>x. cell_bytes (cells m' x)) xs = chunks (length xs) 0 (var_len event) data"
    using assms(2) [OF True] x(1,2) by simp
  then have "dump_chain seq_copy_in_kernel m' q (var_len event) [] = (0, [] @ take (var_len event) (drop 0 data))"
    using x(2,4) True by (intro dump_chain_chunks) (simp_all add: extra_cells_def)
  moreover have "var_len (?e q event) = var_len event" using chained_len(2) [of event] by (simp add: var_len_def)
  moreover have "has_chain (?e q event)" using True chained_len(1) [of event] by (simp add: has_chain_def)
  ultimately show ?thesis using True x(3) strip_chained [OF True] by (simp add: content_def)
next
  case False
  then have "event_of m' cell = event" using assms(1) by (auto simp: duplicated_def)
  then show ?thesis using False by (simp add: content_def has_chain_def)
qed

lemma dup_strip: "duplicated m m' p A fs event cell \<Longrightarrow> fst (content m' cell) = strip event"
  using strip_chained [of event] by (auto simp: content_def duplicated_def Let_def split: if_splits)

lemma fifo_event_in_inv:
  assumes "fifo_inv f m A fs qs"
  shows "\<exists>err f' m'. snd_seq_fifo_event_in event data bad f m = Some (err, f', m') \<and>
    (if err < 0 then \<exists>fs'. fifo_inv f' m' A fs' qs \<and> length fs' = length fs \<and> contents m' qs = contents m qs
     else err = 0 \<and> (\<exists>fs' q. fifo_inv f' m' A fs' (qs @ [q]) \<and> length fs = length fs' + 1 + extra_cells event \<and>
       contents m' qs = contents m qs \<and> fst (content m' (fst q)) = strip event \<and>
       (kernel_data event \<and> extra_cells event < min (card A) (length fs) \<longrightarrow>
          content m' (fst q) = (strip event, if snd_seq_ev_is_variable event then take (var_len event) data else [])))) \<and>
    (kernel_data event \<and> extra_cells event < min (card A) (length fs) \<longrightarrow> err = 0)"
proof -
  let ?p = "ff_pool f"
  have inv: "pool_inv m ?p A fs" "\<not> closing (pools m ?p)" "pool_ptr (pools m ?p) \<noteq> 0"
    "fifo_list f m (map fst qs)" "linked m qs" "distinct (fs @ entry_cells qs)" "set (fs @ entry_cells qs) = A"
    using assms by (simp_all add: fifo_inv_def)
  obtain err cell m' where d: "snd_seq_event_dup ?p event data bad True [] m = Some (err, cell, [], m')"
    "dup_spec m ?p A fs event data err cell m'"
    using event_dup_outcome [OF inv(1-3)] by blast
  have cl: "closing (pools m' ?p) = closing (pools m ?p)" "pool_ptr (pools m' ?p) = pool_ptr (pools m ?p)"
    "kernel_data event \<and> extra_cells event < min (card A) (length fs) \<longrightarrow> err = 0"
    using d(2) by (auto simp: dup_spec_def)
  have fr: "\<And>b. b \<notin> set fs \<Longrightarrow> cells m' b = cells m b"
    using d(2) by (auto simp: dup_spec_def duplicated_def split: if_splits)
  have qs: "b \<in> set (entry_cells qs) \<Longrightarrow> cells m' b = cells m b" for b using fr inv(6) by auto
  have ev: "b \<in> set (map fst qs) \<Longrightarrow> cells m' b = cells m b" for b using qs map_fst_entry_cells [of qs] by blast
  have l: "fifo_list f m' (map fst qs)"
    using inv(4) ev by (subst fifo_list_cong [of _ m' m]) (auto simp: next_of_def)
  have e: "linked m' qs" "contents m' qs = contents m qs"
    using inv(6) qs ev by (auto intro!: entries_frame [OF inv(5)] simp: event_of_def)
  show ?thesis
  proof (cases "err < 0")
    case True
    let ?f = "if err = - ENOMEM \<or> err = - EAGAIN then f\<lparr>ff_overflow := ff_overflow f + 1\<rparr> else f"
    obtain fs' where fs': "set fs' = set fs" "length fs' = length fs" "pool_inv m' ?p A fs'"
      using d(2) True by (auto simp: dup_spec_def)
    have "distinct fs'" using fs'(3) by (rule pool_inv_distinct)
    then have "distinct (fs' @ entry_cells qs)" "set (fs' @ entry_cells qs) = A" using inv(6,7) fs'(1) by auto
    then have "fifo_inv ?f m' A fs' qs"
      using fs'(3) cl inv(2,3) l e(1) by (auto simp: fifo_inv_def fifo_list_def)
    moreover have "snd_seq_fifo_event_in event data bad f m = Some (err, ?f, m')"
      using d(1) True by (simp add: snd_seq_fifo_event_in_def)
    ultimately show ?thesis using True fs'(2) e(2) cl(3) by (intro exI [of _ err] exI [of _ ?f] exI [of _ m']) auto
  next
    case False
    then have err: "err = 0" and dup: "duplicated m m' ?p A fs event cell" using d(2) by (simp_all add: dup_spec_def)
    obtain xs fs' where x: "fs = cell # xs @ fs'" "length xs = extra_cells event" "pool_inv m' ?p A fs'" "chain m' cell xs"
      using dup by (auto simp: duplicated_def)
    have ds: "distinct (fs' @ entry_cells (qs @ [(cell, xs)]))" "set (fs' @ entry_cells (qs @ [(cell, xs)])) = A"
      using inv(6,7) x(1) by auto
    let ?f = "fst (fifo_append cell f m')" and ?m = "snd (fifo_append cell f m')"
    have "linked m' (qs @ [(cell, xs)])" using e(1) x(4) by simp
    note a = fifo_append_inv [OF x(3) _ _ l this ds, unfolded cl, OF inv(2,3)]
    have c: "content ?m cell = content m' cell" "contents ?m qs = contents m qs" using a(2) e(2) by simp_all
    have k: "kernel_data event \<and> extra_cells event < min (card A) (length fs) \<longrightarrow>
        content m' cell = (strip event, if snd_seq_ev_is_variable event then take (var_len event) data else [])"
    proof
      assume "kernel_data event \<and> extra_cells event < min (card A) (length fs)"
      then show "content m' cell = (strip event, if snd_seq_ev_is_variable event then take (var_len event) data else [])"
        using d(2) by (intro dup_entry [OF dup]) (simp add: dup_spec_def)
    qed
    have "fifo_inv (wake_input ?f) ?m A fs' (qs @ [(cell, xs)])"
      using a(1) by (simp add: fifo_inv_def fifo_list_def wake_input_def)
    moreover have "snd_seq_fifo_event_in event data bad f m = Some (0, wake_input ?f, ?m)"
      using d(1) err by (simp add: snd_seq_fifo_event_in_def split_beta)
    moreover have "length fs = length fs' + 1 + extra_cells event" using x(1,2) by simp
    moreover have "\<exists>fs' q. fifo_inv (wake_input ?f) ?m A fs' (qs @ [q]) \<and> length fs = length fs' + 1 + extra_cells event \<and>
       contents ?m qs = contents m qs \<and> fst (content ?m (fst q)) = strip event \<and>
       (kernel_data event \<and> extra_cells event < min (card A) (length fs) \<longrightarrow>
          content ?m (fst q) = (strip event, if snd_seq_ev_is_variable event then take (var_len event) data else []))"
      using calculation c k dup_strip [OF dup]
      by (intro exI [of _ fs'] exI [of _ "(cell, xs)"]) (simp only: fst_conv simp_thms)
    ultimately show ?thesis
      by (intro exI [of _ 0] exI [of _ "wake_input ?f"] exI [of _ ?m]) simp
  qed
qed

text \<open>A reader takes the first cell, looks at it and frees it.\<close>

definition fifo_read :: "seq_fifo \<times> seq_mem \<Rightarrow> ((seq_event \<times> u8 list) option \<times> seq_fifo \<times> seq_mem) option" where
  "fifo_read = (\<lambda>(f, m).
     (case snd_seq_fifo_cell_out True [] f m of
        None \<Rightarrow> None
      | Some (err, cell, f, m) \<Rightarrow>
          if err < 0 then Some (None, f, m)
          else map_option (\<lambda>m'. (Some (content m cell), f, m')) (snd_seq_cell_free cell m)))"

lemma fifo_read_empty: "fifo_inv f m A fs [] \<Longrightarrow> fifo_read (f, m) = Some (None, f, m)"
  by (simp add: fifo_read_def fifo_inv_def fifo_list_def snd_seq_fifo_cell_out.simps fifo_cell_out_def)

lemma fifo_read_inv:
  assumes "fifo_inv f m A fs ((c, xs) # qs)"
  shows "\<exists>f' m'. fifo_read (f, m) = Some (Some (content m c), f', m') \<and>
    fifo_inv f' m' A (rev xs @ c # fs) qs \<and> contents m' qs = contents m qs"
proof -
  let ?p = "ff_pool f"
  have inv: "pool_inv m ?p A fs" "\<not> closing (pools m ?p)" "pool_ptr (pools m ?p) \<noteq> 0"
    "fifo_list f m (c # map fst qs)" "chain m c xs" "linked m qs" "distinct (fs @ c # xs @ entry_cells qs)"
    "set (fs @ c # xs @ entry_cells qs) = A"
    using assms by (simp_all add: fifo_inv_def)
  have sub: "set (map fst qs) \<subseteq> set (entry_cells qs)" by (rule map_fst_entry_cells)
  have h: "ff_head f = c" "c \<noteq> 0" "path (next_of m) (next_of m c) (map fst qs) 0" "ff_cells f = int (length qs) + 1"
    "ff_tail f = (if qs = [] then c else last (map fst qs))"
    using inv(4) by (auto simp: fifo_list_def)
  let ?m = "set_next c 0 m"
  define g where "g = (let f = f\<lparr>ff_head := next_of m c\<rparr>; f = (if ff_tail f = c then f\<lparr>ff_tail := 0\<rparr> else f)
    in f\<lparr>ff_cells := ff_cells f - 1\<rparr>)"
  have out: "fifo_cell_out f m = (c, g, ?m)" using h(1,2) by (simp add: fifo_cell_out_def g_def Let_def)
  have lst: "qs \<noteq> [] \<Longrightarrow> last (map fst qs) \<noteq> c" using inv(7) sub last_in_set [of "map fst qs"] by auto
  have cs: "c \<notin> set (map fst qs)" "c \<notin> set xs" "c \<notin> set fs" using inv(7) sub by auto
  have gl: "path (next_of m) (ff_head g) (map fst qs) 0" "ff_pool g = ?p" "ff_cells g = int (length qs)"
    "ff_tail g = (if map fst qs = [] then 0 else last (map fst qs))"
    using h lst by (auto simp: g_def Let_def)
  have p: "pool_inv ?m ?p A fs" using inv(1) cs(3) by (simp add: pool_inv_set_next)
  have ch: "chain ?m c xs" and ct: "content ?m c = content m c"
  proof -
    have "cells ?m b = cells m b" if "b \<in> set xs" for b
      using that cs(2) by (intro set_next_simps(4)) auto
    then show "chain ?m c xs" "content ?m c = content m c" by (intro entry_frame [OF inv(5)]; simp)+
  qed
  have sets: "set (c # xs) \<subseteq> A" "set (c # xs) \<inter> set fs = {}" using inv(7,8) by auto
  from cell_free_inv [OF p ch sets cs(2)] obtain m' where m': "snd_seq_cell_free c ?m = Some m'"
    "pool_inv m' ?p A (rev xs @ c # fs)" "\<forall>b. b \<notin> set (c # xs) \<longrightarrow> cells m' b = cells ?m b"
    "closing (pools m' ?p) = closing (pools ?m ?p)" "pool_ptr (pools m' ?p) = pool_ptr (pools ?m ?p)"
    by (elim exE conjE)
  have same: "cells m' b = cells m b" if "b \<in> set (entry_cells qs)" for b
  proof -
    have "b \<noteq> c" "b \<notin> set xs" using that inv(7) by auto
    then show ?thesis using m'(3) by (simp add: set_next_simps(4))
  qed
  then have fst: "b \<in> set (map fst qs) \<Longrightarrow> cells m' b = cells m b" for b using sub by blast
  have e: "linked m' qs" "contents m' qs = contents m qs"
    using inv(7) same fst by (auto intro!: entries_frame [OF inv(6)] simp: event_of_def)
  have "path (next_of m') (ff_head g) (map fst qs) 0"
    using gl(1) fst by (subst path_cong [of _ "next_of m'" "next_of m"]) (auto simp: next_of_def)
  then have "fifo_list g m' (map fst qs)" using gl by (simp add: fifo_list_def)
  moreover have "distinct ((rev xs @ c # fs) @ entry_cells qs)" "set ((rev xs @ c # fs) @ entry_cells qs) = A"
    using inv(7,8) by auto
  ultimately have "fifo_inv g m' A (rev xs @ c # fs) qs"
    using m' inv(2,3) e(1) gl(2) by (simp add: fifo_inv_def)
  moreover have "fifo_read (f, m) = Some (Some (content m c), g, m')"
    using out h(2) m'(1) ct by (simp add: fifo_read_def snd_seq_fifo_cell_out.simps)
  ultimately show ?thesis using e(2) by blast
qed

section \<open>First in, first out\<close>

datatype 'x fifo_op = Put 'x | Get

text \<open>The inputs that were accepted, the outputs, and the queue that remains.\<close>

fun run_fifo ::
  "('x \<Rightarrow> 'q \<Rightarrow> (bool \<times> 'q) option) \<Rightarrow> ('q \<Rightarrow> ('v option \<times> 'q) option) \<Rightarrow> 'x fifo_op list \<Rightarrow> 'q \<Rightarrow>
   ('x list \<times> 'v list \<times> 'q) option" where
  "run_fifo put get [] q = Some ([], [], q)"
| "run_fifo put get (Put x # ops) q =
     (case put x q of
        None \<Rightarrow> None
      | Some (ok, q) \<Rightarrow> map_option (\<lambda>(ins, outs, q). (if ok then x # ins else ins, outs, q)) (run_fifo put get ops q))"
| "run_fifo put get (Get # ops) q =
     (case get q of
        None \<Rightarrow> None
      | Some (v, q) \<Rightarrow>
          map_option (\<lambda>(ins, outs, q). (ins, (case v of None \<Rightarrow> outs | Some v \<Rightarrow> v # outs), q)) (run_fifo put get ops q))"

locale event_fifo =
  fixes repr :: "'q \<Rightarrow> 'v list \<Rightarrow> bool"
    and put :: "'x \<Rightarrow> 'q \<Rightarrow> (bool \<times> 'q) option"
    and get :: "'q \<Rightarrow> ('v option \<times> 'q) option"
    and says :: "'x \<Rightarrow> 'v \<Rightarrow> bool"
  assumes put: "repr q vs \<Longrightarrow> \<exists>ok q'. put x q = Some (ok, q') \<and>
      (if ok then \<exists>v. says x v \<and> repr q' (vs @ [v]) else repr q' vs)"
    and get_empty: "repr q [] \<Longrightarrow> \<exists>q'. get q = Some (None, q') \<and> repr q' []"
    and get_first: "repr q (v # vs) \<Longrightarrow> \<exists>q'. get q = Some (Some v, q') \<and> repr q' vs"
begin

lemma run_in_order:
  "repr q vs \<Longrightarrow> \<exists>ins outs q' ws rest. run_fifo put get ops q = Some (ins, outs, q') \<and>
     list_all2 says ins ws \<and> vs @ ws = outs @ rest \<and> repr q' rest"
proof (induction ops arbitrary: q vs)
  case (Cons op ops)
  show ?case
  proof (cases op)
    case (Put x)
    obtain ok q1 where p: "put x q = Some (ok, q1)" "if ok then \<exists>v. says x v \<and> repr q1 (vs @ [v]) else repr q1 vs"
      using put [OF Cons.prems] by blast
    show ?thesis
    proof (cases ok)
      case True
      then obtain v where v: "says x v" "repr q1 (vs @ [v])" using p(2) by auto
      obtain ins outs q' ws rest where "run_fifo put get ops q1 = Some (ins, outs, q')" "list_all2 says ins ws"
        "(vs @ [v]) @ ws = outs @ rest" "repr q' rest"
        using Cons.IH [OF v(2)] by blast
      then show ?thesis using Put p(1) True v(1)
        by (intro exI [of _ "x # ins"] exI [of _ outs] exI [of _ q'] exI [of _ "v # ws"] exI [of _ rest]) simp
    next
      case False
      then show ?thesis using Put p Cons.IH [of q1 vs] by auto
    qed
  next
    case Get
    show ?thesis
    proof (cases vs)
      case Nil
      then obtain q1 where "get q = Some (None, q1)" "repr q1 []" using get_empty Cons.prems by blast
      then show ?thesis using Get Nil Cons.IH [of q1 "[]"] by auto
    next
      case (Cons v vs')
      then obtain q1 where g: "get q = Some (Some v, q1)" "repr q1 vs'" using get_first Cons.prems by blast
      obtain ins outs q' ws rest where "run_fifo put get ops q1 = Some (ins, outs, q')" "list_all2 says ins ws"
        "vs' @ ws = outs @ rest" "repr q' rest"
        using Cons.IH [OF g(2)] by blast
      then show ?thesis using Get g(1) Cons
        by (intro exI [of _ ins] exI [of _ "v # outs"] exI [of _ q'] exI [of _ ws] exI [of _ rest]) simp
    qed
  qed
qed auto

end

text \<open>The queue of the code: an input is an event with its bytes and the faults of user memory.\<close>

definition fifo_repr :: "seq_fifo \<times> seq_mem \<Rightarrow> (seq_event \<times> u8 list) list \<Rightarrow> bool" where
  "fifo_repr q vs \<longleftrightarrow> (\<exists>A fs qs. fifo_inv (fst q) (snd q) A fs qs \<and> contents (snd q) qs = vs)"

definition fifo_put ::
  "seq_event \<times> u8 list \<times> (nat \<Rightarrow> bool) \<Rightarrow> seq_fifo \<times> seq_mem \<Rightarrow> (bool \<times> seq_fifo \<times> seq_mem) option" where
  "fifo_put x q = map_option (\<lambda>(err, f, m). (\<not> err < 0, f, m))
     (snd_seq_fifo_event_in (fst x) (fst (snd x)) (snd (snd x)) (fst q) (snd q))"

definition event_says :: "seq_event \<times> u8 list \<times> (nat \<Rightarrow> bool) \<Rightarrow> seq_event \<times> u8 list \<Rightarrow> bool" where
  "event_says x v \<longleftrightarrow> fst v = strip (fst x) \<and>
     (kernel_data (fst x) \<longrightarrow>
        snd v = (if snd_seq_ev_is_variable (fst x) then take (var_len (fst x)) (fst (snd x)) else []))"

lemma fifo_inv_room: "fifo_inv f m A fs qs \<Longrightarrow> length fs \<le> card A"
  by (metis List.finite_set card_mono distinct_append distinct_card fifo_inv_def set_append sup_ge1)

interpretation seq: event_fifo fifo_repr fifo_put fifo_read event_says
proof (unfold_locales, goal_cases)
  case (1 q vs x)
  obtain f m where q: "q = (f, m)" by fastforce
  obtain e data bad where x: "x = (e, data, bad)" by (cases x)
  obtain A fs qs where inv: "fifo_inv f m A fs qs" "contents m qs = vs" using 1 q by (auto simp: fifo_repr_def)
  obtain err f' m' where r: "snd_seq_fifo_event_in e data bad f m = Some (err, f', m')"
    "if err < 0 then \<exists>fs'. fifo_inv f' m' A fs' qs \<and> length fs' = length fs \<and> contents m' qs = contents m qs
     else err = 0 \<and> (\<exists>fs' q. fifo_inv f' m' A fs' (qs @ [q]) \<and> length fs = length fs' + 1 + extra_cells e \<and>
       contents m' qs = contents m qs \<and> fst (content m' (fst q)) = strip e \<and>
       (kernel_data e \<and> extra_cells e < min (card A) (length fs) \<longrightarrow>
          content m' (fst q) = (strip e, if snd_seq_ev_is_variable e then take (var_len e) data else [])))"
    using fifo_event_in_inv [OF inv(1), of e data bad] by (elim exE conjE) blast
  have put: "fifo_put x q = Some (\<not> err < 0, f', m')" using r(1) by (simp add: fifo_put_def q x)
  show ?case
  proof (cases "err < 0")
    case True
    then show ?thesis using put r(2) inv(2) by (auto simp: fifo_repr_def)
  next
    case False
    from r(2) [unfolded if_not_P [OF False]]
    obtain fs' en where a: "fifo_inv f' m' A fs' (qs @ [en])" "length fs = length fs' + 1 + extra_cells e"
       "contents m' qs = contents m qs" "fst (content m' (fst en)) = strip e"
       "kernel_data e \<and> extra_cells e < min (card A) (length fs) \<longrightarrow>
          content m' (fst en) = (strip e, if snd_seq_ev_is_variable e then take (var_len e) data else [])"
      by (elim exE conjE) blast
    have "extra_cells e < min (card A) (length fs)" using a(2) fifo_inv_room [OF inv(1)] by simp
    then have "event_says x (content m' (fst en))" using a(4,5) by (auto simp: event_says_def x)
    moreover have "fifo_repr (f', m') (vs @ [content m' (fst en)])"
      unfolding fifo_repr_def using a(1,3) inv(2) by (intro exI conjI) (auto simp: contents_def)
    ultimately show ?thesis unfolding put using False
      by (intro exI [of _ True] exI [of _ "(f', m')"] conjI) (simp, simp only: if_True, blast)
  qed
next
  case (2 q)
  obtain f m where q: "q = (f, m)" by fastforce
  obtain A fs where "fifo_inv f m A fs []" using 2 q by (auto simp: fifo_repr_def contents_def)
  then show ?case using fifo_read_empty [of f m A fs] 2 q by simp
next
  case (3 q v vs)
  obtain f m where q: "q = (f, m)" by fastforce
  obtain A fs c xs qs where "fifo_inv f m A fs ((c, xs) # qs)" "content m c = v" "contents m qs = vs"
    using 3 q by (auto simp: fifo_repr_def contents_def)
  then obtain f' m' where "fifo_read (f, m) = Some (Some v, f', m')"
    "fifo_inv f' m' A (rev xs @ c # fs) qs" "contents m' qs = vs"
    using fifo_read_inv [of f m A fs c xs qs] by auto
  then show ?case unfolding q fifo_repr_def fst_conv snd_conv
    by (intro exI [of _ "(f', m')"] conjI) (simp, simp, blast)
qed

section \<open>Properties\<close>

lemma fifo_new_empty:
  assumes "snd_seq_fifo_new (int n) p mem m = Some (f, m')" "mem \<noteq> 0" "unat mem + 36 * n \<le> 4294967296"
  shows "fifo_repr (f, m') []"
proof -
  let ?m = "m\<lparr>pools := (pools m)(p := snd_seq_pool_new (int n))\<rparr>"
  obtain m1 where i: "snd_seq_pool_init mem p ?m = (0, m1)" "pool_ptr (pools m1 p) = mem"
    "closing (pools m1 p) = closing (pools ?m p)"
    "pool_inv m1 p (cell_addr mem ` {..<n}) (rev (map (cell_addr mem) [0..<n]))"
    using pool_init_inv [OF assms(2,3), of ?m p] by (auto simp: snd_seq_pool_new_def)
  have "set (map (cell_addr mem) [0..<n]) = cell_addr mem ` {..<n}" by (simp add: atLeast0LessThan)
  moreover have "distinct (map (cell_addr mem) [0..<n])"
    using cell_addr_inj [OF assms(3)] by (simp add: distinct_map atLeast0LessThan)
  ultimately have "fifo_inv f m' (cell_addr mem ` {..<n}) (rev (map (cell_addr mem) [0..<n])) []"
    using assms(1,2) i by (auto simp: snd_seq_fifo_new_def fifo_inv_def fifo_list_def snd_seq_pool_new_def)
  then show ?thesis unfolding fifo_repr_def by (intro exI conjI) (auto simp: contents_def)
qed

text \<open>
  C9. The input queue of a client is a first-in first-out queue. After any sequence of insertions and
  reads on a new queue, with any events, data and memory faults, the events read are exactly the first of
  the accepted ones, in order; the others are still queued. Each has the fields of the event put in and,
  when its data came from kernel memory, the same bytes.
\<close>

theorem fifo_order:
  assumes "snd_seq_fifo_new (int n) p mem m = Some (f, m')" "mem \<noteq> 0" "unat mem + 36 * n \<le> 4294967296"
  shows "\<exists>ins outs q' ws rest. run_fifo fifo_put fifo_read ops (f, m') = Some (ins, outs, q') \<and>
     list_all2 event_says ins ws \<and> ws = outs @ rest \<and> fifo_repr q' rest"
  using seq.run_in_order [OF fifo_new_empty [OF assms], of ops] by simp

theorem fifo_order_witness:
  "\<exists>f m'. snd_seq_fifo_new 4 1 0x10000 sample_mem = Some (f, m') \<and>
    (\<exists>ins outs q' ws rest. run_fifo fifo_put fifo_read
        [Put (sample_event, replicate 40 7, \<lambda>_. False), Get, Put (sample_event, replicate 40 9, \<lambda>_. False), Get, Get] (f, m') =
       Some (ins, outs, q') \<and> list_all2 event_says ins ws \<and> ws = outs @ rest \<and> fifo_repr q' rest)"
proof -
  obtain f m' where n: "snd_seq_fifo_new (int 4) 1 0x10000 sample_mem = Some (f, m')"
    by (simp add: snd_seq_fifo_new_def snd_seq_pool_init_def Let_def snd_seq_pool_new_def)
  have "(0x10000 :: u32) \<noteq> 0" "unat (0x10000 :: u32) + 36 * 4 \<le> 4294967296" by simp_all
  from fifo_order [OF n this] show ?thesis using n [unfolded of_nat_numeral] by blast
qed

end
