(* ===== verification/SeqPrioq.thy ===== *)
theory SeqPrioq
  imports SeqFifo "HOL-Library.Multiset"
begin

text \<open>
  The priority queue of \<^verbatim>\<open>core/seq/seq_prioq.c\<close>: the cells waiting in a sequencer queue, linked in the order of
  their time stamps. A time is a \<open>real_time\<close> as in the union of the code: a tick is its first word, and a
  pointer to the current time is an optional one. The operations run with the lock of the queue held. The
  locale \<open>timed_queue\<close> states what a client of the queue may rely on; the queue of the code is an instance,
  and so it hands out events in the order of a stable sort by time.
\<close>

section \<open>State and operations\<close>

record seq_prioq =
  pq_head :: u32
  pq_tail :: u32
  pq_cells :: int

definition snd_seq_prioq_new :: seq_prioq where
  "snd_seq_prioq_new = \<lparr>pq_head = 0, pq_tail = 0, pq_cells = 0\<rparr>"

definition compare_timestamp :: "seq_event \<Rightarrow> seq_event \<Rightarrow> bool" where
  "compare_timestamp a b =
     (if snd_seq_ev_is_tick a then snd_seq_compare_tick_time (ev_tick a) (ev_tick b)
      else snd_seq_compare_real_time (ev_time a) (ev_time b))"

definition compare_timestamp_rel :: "seq_event \<Rightarrow> seq_event \<Rightarrow> int" where
  "compare_timestamp_rel a b =
     (if snd_seq_ev_is_tick a then
        (if ev_tick a > ev_tick b then 1 else if ev_tick a = ev_tick b then 0 else - 1)
      else if tv_sec (ev_time a) > tv_sec (ev_time b) then 1
      else if tv_sec (ev_time a) = tv_sec (ev_time b) then
        (if tv_nsec (ev_time a) > tv_nsec (ev_time b) then 1
         else if tv_nsec (ev_time a) = tv_nsec (ev_time b) then 0 else - 1)
      else - 1)"

definition is_prior :: "seq_event \<Rightarrow> bool" where
  "is_prior e \<longleftrightarrow> ev_flags e AND 16 \<noteq> 0"

text \<open>The search for the place of a new cell: the cells before and after it, or \<open>None\<close> when the count is used up.\<close>

fun find_place :: "seq_mem \<Rightarrow> seq_event \<Rightarrow> nat \<Rightarrow> u32 \<Rightarrow> u32 \<Rightarrow> (u32 \<times> u32) option" where
  "find_place m e left prev cur =
     (if cur = 0 then Some (prev, cur)
      else
        let rel = compare_timestamp_rel e (event_of m cur)
        in if rel < 0 \<or> rel = 0 \<and> is_prior e then Some (prev, cur)
           else if left \<le> 1 then None
           else find_place m e (left - 1) cur (next_of m cur))"

declare find_place.simps [simp del]

definition snd_seq_prioq_cell_in :: "u32 \<Rightarrow> seq_prioq \<Rightarrow> seq_mem \<Rightarrow> int \<times> seq_prioq \<times> seq_mem" where
  "snd_seq_prioq_cell_in cell f m =
     (let e = event_of m cell
      in if pq_tail f \<noteq> 0 \<and> \<not> is_prior e \<and> compare_timestamp e (event_of m (pq_tail f))
         then (0, f\<lparr>pq_tail := cell, pq_cells := pq_cells f + 1\<rparr>, set_next cell 0 (set_next (pq_tail f) cell m))
         else
           case find_place m e 10000 0 (pq_head f) of
             None \<Rightarrow> (- EINVAL, f, m)
           | Some (prev, cur) \<Rightarrow>
               let m = (if prev \<noteq> 0 then set_next prev cell m else m);
                   m = set_next cell cur m;
                   f = (if pq_head f = cur then f\<lparr>pq_head := cell\<rparr> else f);
                   f = (if cur = 0 then f\<lparr>pq_tail := cell\<rparr> else f)
               in (0, f\<lparr>pq_cells := pq_cells f + 1\<rparr>, m))"

definition event_is_ready :: "seq_event \<Rightarrow> real_time \<Rightarrow> bool" where
  "event_is_ready e current_time =
     (if snd_seq_ev_is_tick e then snd_seq_compare_tick_time (tv_sec current_time) (ev_tick e)
      else snd_seq_compare_real_time current_time (ev_time e))"

definition snd_seq_prioq_cell_out :: "real_time option \<Rightarrow> seq_prioq \<Rightarrow> seq_mem \<Rightarrow> u32 \<times> seq_prioq \<times> seq_mem" where
  "snd_seq_prioq_cell_out current_time f m =
     (let cell = pq_head f;
          cell = (case current_time of
                    None \<Rightarrow> cell
                  | Some t \<Rightarrow> if cell \<noteq> 0 \<and> \<not> event_is_ready (event_of m cell) t then 0 else cell)
      in if cell = 0 then (0, f, m)
         else
           let f = f\<lparr>pq_head := next_of m cell\<rparr>;
               f = (if pq_tail f = cell then f\<lparr>pq_tail := 0\<rparr> else f)
           in (cell, f\<lparr>pq_cells := pq_cells f - 1\<rparr>, set_next cell 0 m))"

definition snd_seq_prioq_avail :: "seq_prioq \<Rightarrow> int" where
  "snd_seq_prioq_avail f = pq_cells f"

text \<open>Freeing \<^verbatim>\<open>NULL\<close> is a fault.\<close>

partial_function (option) prioq_drain :: "seq_prioq \<Rightarrow> seq_mem \<Rightarrow> seq_mem option" where
  "prioq_drain f m =
     (if pq_cells f > 0 then
        let (cell, f, m) = snd_seq_prioq_cell_out None f m
        in if cell = 0 then None else Option.bind (snd_seq_cell_free cell m) (prioq_drain f)
      else Some m)"

definition snd_seq_prioq_delete :: "seq_prioq \<Rightarrow> seq_mem \<Rightarrow> seq_mem option" where
  "snd_seq_prioq_delete f m = prioq_drain f m"

definition prioq_match :: "int \<Rightarrow> bool \<Rightarrow> seq_event \<Rightarrow> bool" where
  "prioq_match client timestamp e =
     (if uint (fst (ev_source e)) = client \<or> uint (fst (ev_dest e)) = client then True
      else if \<not> timestamp then False
      else if snd_seq_ev_is_tick e then ev_tick e \<noteq> 0
      else tv_sec (ev_time e) \<noteq> 0 \<or> tv_nsec (ev_time e) \<noteq> 0)"

text \<open>
  The loop that takes the matching cells out of the list and strings them together; \<open>None\<close>: a write
  through a null \<^verbatim>\<open>prev\<close>, or a list that does not end.
\<close>

partial_function (option) prioq_collect ::
  "(seq_event \<Rightarrow> bool) \<Rightarrow> u32 \<Rightarrow> u32 \<Rightarrow> u32 \<Rightarrow> u32 \<Rightarrow> seq_prioq \<Rightarrow> seq_mem \<Rightarrow> (u32 \<times> seq_prioq \<times> seq_mem) option" where
  "prioq_collect match prev freefirst freeprev cell f m =
     (if cell = 0 then Some (freefirst, f, m)
      else
        let next = next_of m cell
        in if \<not> match (event_of m cell) then prioq_collect match cell freefirst freeprev next f m
           else if cell \<noteq> pq_head f \<and> prev = 0 then None
           else
             let m' = (if cell = pq_head f then m else set_next prev next m);
                 f = (if cell = pq_head f then f\<lparr>pq_head := next\<rparr> else f);
                 f = (if cell = pq_tail f then f\<lparr>pq_tail := next\<rparr> else f);
                 f = f\<lparr>pq_cells := pq_cells f - 1\<rparr>;
                 m' = set_next cell 0 m';
                 m' = (if freefirst = 0 then m' else set_next freeprev cell m')
             in prioq_collect match prev (if freefirst = 0 then cell else freefirst) cell next f m')"

definition snd_seq_prioq_leave :: "int \<Rightarrow> bool \<Rightarrow> seq_prioq \<Rightarrow> seq_mem \<Rightarrow> (seq_prioq \<times> seq_mem) option" where
  "snd_seq_prioq_leave client timestamp f m =
     (case prioq_collect (prioq_match client timestamp) 0 0 0 (pq_head f) f m of
        None \<Rightarrow> None
      | Some (freefirst, f, m) \<Rightarrow> map_option (Pair f) (free_list freefirst m))"

text \<open>\<^verbatim>\<open>struct snd_seq_remove_events\<close>\<close>

record remove_events =
  remove_mode :: u32
  rm_time :: real_time
  rm_queue :: u8
  rm_dest :: "u8 \<times> u8"
  rm_channel :: u8
  rm_type :: int
  rm_tag :: u8

definition snd_seq_ev_is_channel_type :: "seq_event \<Rightarrow> bool" where
  "snd_seq_ev_is_channel_type e \<longleftrightarrow> ev_type e \<ge> 5 \<and> ev_type e < 20"

text \<open>\<^verbatim>\<open>data.note.channel\<close>, the first byte of the data.\<close>

definition ev_channel :: "seq_event \<Rightarrow> u8" where
  "ev_channel e = ucast (fst (ev_data e))"

definition remove_time :: "remove_events \<Rightarrow> seq_event \<Rightarrow> bool" where
  "remove_time info e =
     (if remove_mode info AND 64 \<noteq> 0 then snd_seq_compare_tick_time (ev_tick e) (tv_sec (rm_time info))
      else snd_seq_compare_real_time (ev_time e) (rm_time info))"

definition prioq_remove_match :: "remove_events \<Rightarrow> seq_event \<Rightarrow> bool" where
  "prioq_remove_match info e =
     (if remove_mode info AND 4 \<noteq> 0 \<and> (fst (ev_dest e) \<noteq> fst (rm_dest info) \<or> snd (ev_dest e) \<noteq> snd (rm_dest info))
      then False
      else if remove_mode info AND 8 \<noteq> 0 \<and> \<not> snd_seq_ev_is_channel_type e then False
      else if remove_mode info AND 8 \<noteq> 0 \<and> ev_channel e \<noteq> rm_channel info then False
      else if remove_mode info AND 32 \<noteq> 0 \<and> \<not> remove_time info e then False
      else if remove_mode info AND 16 \<noteq> 0 \<and> remove_time info e then False
      else if remove_mode info AND 128 \<noteq> 0 \<and> uint (ev_type e) \<noteq> rm_type info then False
      else if remove_mode info AND 256 \<noteq> 0 \<and> ev_type e = 7 then False
      else if remove_mode info AND 512 \<noteq> 0 \<and> rm_tag info \<noteq> ev_tag e then False
      else True)"

definition snd_seq_prioq_remove_events ::
  "int \<Rightarrow> remove_events \<Rightarrow> seq_prioq \<Rightarrow> seq_mem \<Rightarrow> (seq_prioq \<times> seq_mem) option" where
  "snd_seq_prioq_remove_events client info f m =
     (case prioq_collect (\<lambda>e. uint (fst (ev_source e)) = client \<and> prioq_remove_match info e) 0 0 0 (pq_head f) f m of
        None \<Rightarrow> None
      | Some (freefirst, f, m) \<Rightarrow> map_option (Pair f) (free_list freefirst m))"

section \<open>Time order\<close>

text \<open>The time of an event, in the unit of its stamp. Events of the same unit are compared by it.\<close>

definition ev_key :: "seq_event \<Rightarrow> real_time" where
  "ev_key e = (if snd_seq_ev_is_tick e then Real_time (ev_tick e) 0 else ev_time e)"

lemma real_time_le: "a \<le> b \<longleftrightarrow> tv_sec a < tv_sec b \<or> tv_sec a = tv_sec b \<and> tv_nsec a \<le> tv_nsec b"
  by (auto simp: less_eq_real_time_def snd_seq_compare_real_time_def)

lemma real_time_less: "a < b \<longleftrightarrow> tv_sec a < tv_sec b \<or> tv_sec a = tv_sec b \<and> tv_nsec a < tv_nsec b"
  by (auto simp: less_real_time_def snd_seq_compare_real_time_def)

lemma compare_timestamp_key:
  "snd_seq_ev_is_tick a = snd_seq_ev_is_tick b \<Longrightarrow> compare_timestamp a b \<longleftrightarrow> ev_key b \<le> ev_key a"
  by (auto simp: compare_timestamp_def ev_key_def snd_seq_compare_tick_time_def real_time_le
      snd_seq_compare_real_time_def)

lemma compare_rel_key:
  assumes "snd_seq_ev_is_tick a = snd_seq_ev_is_tick b"
  shows "compare_timestamp_rel a b < 0 \<longleftrightarrow> ev_key a < ev_key b" "compare_timestamp_rel a b = 0 \<longleftrightarrow> ev_key a = ev_key b"
  using assms
  by (auto simp: compare_timestamp_rel_def ev_key_def real_time_less real_time.expand)

lemma event_is_ready_key:
  "event_is_ready e t \<longleftrightarrow> (if snd_seq_ev_is_tick e then ev_tick e \<le> tv_sec t else ev_key e \<le> t)"
  by (auto simp: event_is_ready_def ev_key_def snd_seq_compare_tick_time_def real_time_le
      snd_seq_compare_real_time_def)

text \<open>The place of a new element: after the earlier ones, and after its equals unless it has priority.\<close>

definition goes_after :: "('c \<Rightarrow> 't::linorder) \<Rightarrow> ('c \<Rightarrow> bool) \<Rightarrow> 'c \<Rightarrow> 'c \<Rightarrow> bool" where
  "goes_after key prior c d \<longleftrightarrow> (if prior c then key d < key c else key d \<le> key c)"

definition place :: "('c \<Rightarrow> 't::linorder) \<Rightarrow> ('c \<Rightarrow> bool) \<Rightarrow> 'c \<Rightarrow> 'c list \<Rightarrow> 'c list" where
  "place key prior c cs = takeWhile (goes_after key prior c) cs @ c # dropWhile (goes_after key prior c) cs"

lemma set_place [simp]: "set (place key prior c cs) = insert c (set cs)"
  unfolding place_def using takeWhile_dropWhile_id [of "goes_after key prior c" cs]
  by (metis Un_insert_right list.set(2) set_append)

lemma length_place [simp]: "length (place key prior c cs) = Suc (length cs)"
  unfolding place_def using takeWhile_dropWhile_id [of "goes_after key prior c" cs]
  by (metis add_Suc_right length_Cons length_append)

lemma mset_place [simp]: "mset (place key prior c cs) = add_mset c (mset cs)"
  unfolding place_def using takeWhile_dropWhile_id [of "goes_after key prior c" cs]
  by (metis mset.simps(2) mset_append union_mset_add_mset_right)

lemma distinct_place: "distinct (place key prior c cs) \<longleftrightarrow> c \<notin> set cs \<and> distinct cs"
  using mset_eq_imp_distinct_iff [of "place key prior c cs" "c # cs"] by simp

lemma place_simps [simp]:
  "place key prior c [] = [c]"
  "place key prior c (d # cs) = (if goes_after key prior c d then d # place key prior c cs else c # d # cs)"
  by (simp_all add: place_def)

lemma sorted_place: "sorted (map key cs) \<Longrightarrow> sorted (map key (place key prior c cs))"
  by (induction cs) (auto simp: goes_after_def split: if_splits)

text \<open>Without priorities, equal elements stay in the order of their arrival.\<close>

lemma filter_place:
  assumes "sorted (map key cs)" "\<not> prior c"
  shows "filter (\<lambda>d. key d = k) (place key prior c cs) = filter (\<lambda>d. key d = k) cs @ (if key c = k then [c] else [])"
  using assms
proof (induction cs)
  case (Cons d cs)
  show ?case
  proof (cases "goes_after key prior c d")
    case False
    then have "\<forall>x\<in>set (d # cs). key c < key x" using Cons.prems by (auto simp: goes_after_def)
    then have "key c = k \<Longrightarrow> filter (\<lambda>d. key d = k) (d # cs) = []" by (auto simp: filter_empty_conv)
    then show ?thesis using False by auto
  qed (use Cons in auto)
qed simp

lemma filter_fold_place:
  assumes "sorted (map key as)" "\<forall>c\<in>set cs. \<not> prior c"
  shows "filter (\<lambda>d. key d = k) (fold (place key prior) cs as) = filter (\<lambda>d. key d = k) (as @ cs)"
  using assms by (induction cs arbitrary: as) (simp_all add: sorted_place filter_place)

lemma fold_place:
  "mset (fold (place key prior) cs as) = mset as + mset cs"
  "sorted (map key as) \<Longrightarrow> sorted (map key (fold (place key prior) cs as))"
  by (induction cs arbitrary: as) (simp_all add: sorted_place)

text \<open>Placing elements one after the other is a stable sort.\<close>

lemma fold_place_sort:
  assumes "\<forall>c\<in>set cs. \<not> prior c"
  shows "fold (place key prior) cs [] = sort_key key cs"
proof (rule properties_for_sort_key [symmetric])
  show "mset (fold (place key prior) cs []) = mset cs" by (simp add: fold_place)
  show "sorted (map key (fold (place key prior) cs []))" by (simp add: fold_place)
  fix c
  show "filter (\<lambda>x. key c = key x) (fold (place key prior) cs []) = filter (\<lambda>x. key c = key x) cs"
    using filter_fold_place [of key "[]" cs prior "key c"] assms by (simp add: eq_commute)
qed

section \<open>The contract of a timed queue\<close>

text \<open>
  \<open>repr q cs\<close>: the queue holds \<open>cs\<close>, first to last. \<open>ok\<close> are the elements it takes, at most \<open>limit\<close> of
  them. \<open>out t\<close> gives the first element when it is due at time \<open>t\<close>.
\<close>

fun drain :: "('q \<Rightarrow> 'c option \<times> 'q) \<Rightarrow> nat \<Rightarrow> 'q \<Rightarrow> 'c list \<times> 'q" where
  "drain out 0 q = ([], q)"
| "drain out (Suc n) q =
     (case out q of
        (None, q) \<Rightarrow> ([], q)
      | (Some c, q) \<Rightarrow> let (cs, q) = drain out n q in (c # cs, q))"

fun insert_all :: "('c \<Rightarrow> 'q \<Rightarrow> int \<times> 'q) \<Rightarrow> 'c list \<Rightarrow> 'q \<Rightarrow> 'q option" where
  "insert_all ins [] q = Some q"
| "insert_all ins (c # cs) q = (let (err, q) = ins c q in if err = 0 then insert_all ins cs q else None)"

locale timed_queue =
  fixes key :: "'c \<Rightarrow> 't::linorder"
    and prior :: "'c \<Rightarrow> bool"
    and ok :: "'c \<Rightarrow> bool"
    and limit :: nat
    and repr :: "'q \<Rightarrow> 'c list \<Rightarrow> bool"
    and ins :: "'c \<Rightarrow> 'q \<Rightarrow> int \<times> 'q"
    and out :: "'t \<Rightarrow> 'q \<Rightarrow> 'c option \<times> 'q"
  assumes sorted: "repr q cs \<Longrightarrow> sorted (map key cs)"
    and ins: "repr q cs \<Longrightarrow> c \<notin> set cs \<Longrightarrow> ok c \<Longrightarrow> length cs < limit \<Longrightarrow>
      \<exists>q'. ins c q = (0, q') \<and> repr q' (place key prior c cs)"
    and out_first: "repr q (c # cs) \<Longrightarrow> key c \<le> t \<Longrightarrow> \<exists>q'. out t q = (Some c, q') \<and> repr q' cs"
    and out_none: "repr q cs \<Longrightarrow> cs = [] \<or> t < key (hd cs) \<Longrightarrow> out t q = (None, q)"
begin

lemma insert_many:
  "repr q as \<Longrightarrow> distinct (as @ cs) \<Longrightarrow> \<forall>c\<in>set cs. ok c \<Longrightarrow> length as + length cs \<le> limit \<Longrightarrow>
   \<exists>q'. insert_all ins cs q = Some q' \<and> repr q' (fold (place key prior) cs as)"
proof (induction cs arbitrary: q as)
  case (Cons c cs)
  then obtain q1 where "ins c q = (0, q1)" "repr q1 (place key prior c as)" using ins [of q as c] by auto
  moreover have "distinct (place key prior c as @ cs)"
    using Cons.prems(2) distinct_place [of key prior c as] by auto
  ultimately show ?case using Cons.IH [of q1 "place key prior c as"] Cons.prems(3,4) by simp
qed simp

lemma drain_due:
  "repr q cs \<Longrightarrow> \<exists>q'. drain (out t) n q = (take n (takeWhile (\<lambda>c. key c \<le> t) cs), q') \<and>
     repr q' (drop (min n (length (takeWhile (\<lambda>c. key c \<le> t) cs))) cs)"
proof (induction n arbitrary: q cs)
  case (Suc n)
  show ?case
  proof (cases "cs = [] \<or> t < key (hd cs)")
    case True
    then have "takeWhile (\<lambda>c. key c \<le> t) cs = []" by (cases cs) auto
    then show ?thesis using out_none [OF Suc.prems True] Suc.prems by simp
  next
    case False
    then obtain c cs' where cs: "cs = c # cs'" "key c \<le> t" by (cases cs) auto
    then obtain q1 where "out t q = (Some c, q1)" "repr q1 cs'" using out_first Suc.prems by blast
    then show ?thesis using Suc.IH [of q1 cs'] cs by auto
  qed
qed simp

lemma takeWhile_due: "repr q cs \<Longrightarrow> takeWhile (\<lambda>c. key c \<le> t) cs = filter (\<lambda>c. key c \<le> t) cs"
proof (drule sorted, induction cs)
  case (Cons c cs)
  then have "\<not> key c \<le> t \<Longrightarrow> filter (\<lambda>c. key c \<le> t) cs = []" by (intro filter_False) (auto dest: order_trans)
  then show ?case using Cons by auto
qed simp

lemma stable_time_order:
  assumes "repr q []" "distinct cs" "\<forall>c\<in>set cs. ok c \<and> \<not> prior c" "length cs \<le> limit"
  shows "\<exists>q1 q2. insert_all ins cs q = Some q1 \<and>
    drain (out t) (length cs) q1 = (filter (\<lambda>c. key c \<le> t) (sort_key key cs), q2) \<and> out t q2 = (None, q2)"
proof -
  have "fold (place key prior) cs [] = sort_key key cs" using assms(3) by (simp add: fold_place_sort)
  then obtain q1 where q1: "insert_all ins cs q = Some q1" "repr q1 (sort_key key cs)"
    using insert_many [OF assms(1), of cs] assms(2-4) by auto
  let ?due = "takeWhile (\<lambda>c. key c \<le> t) (sort_key key cs)"
  have n: "length ?due \<le> length cs" using length_takeWhile_le [of _ "sort_key key cs"] by simp
  then obtain q2 where q2: "drain (out t) (length cs) q1 = (?due, q2)" "repr q2 (dropWhile (\<lambda>c. key c \<le> t) (sort_key key cs))"
    using drain_due [OF q1(2), of t "length cs"] by (auto simp: dropWhile_eq_drop)
  have "dropWhile (\<lambda>c. key c \<le> t) xs = [] \<or> t < key (hd (dropWhile (\<lambda>c. key c \<le> t) xs))" for xs
    using hd_dropWhile [of "\<lambda>c. key c \<le> t" xs] not_le by blast
  then have "out t q2 = (None, q2)" using out_none [OF q2(2)] by blast
  then show ?thesis using q1 q2 takeWhile_due [OF q1(2), of t] by auto
qed

end

section \<open>The queue of the code\<close>

text \<open>The tail may be missing: removing the last cell leaves it empty until the next search from the head.\<close>

definition prioq_list :: "seq_prioq \<Rightarrow> seq_mem \<Rightarrow> u32 list \<Rightarrow> bool" where
  "prioq_list f m cs \<longleftrightarrow> path (next_of m) (pq_head f) cs 0 \<and>
     (pq_tail f = 0 \<or> cs \<noteq> [] \<and> pq_tail f = last cs) \<and> pq_cells f = int (length cs)"

lemma prioq_new_list: "prioq_list snd_seq_prioq_new m []"
  by (simp add: prioq_list_def snd_seq_prioq_new_def)

text \<open>All events carry the same kind of stamp, and are in order.\<close>

definition in_order :: "bool \<Rightarrow> (u32 \<Rightarrow> seq_event) \<Rightarrow> u32 list \<Rightarrow> bool" where
  "in_order b ev cs \<longleftrightarrow> (\<forall>c\<in>set cs. snd_seq_ev_is_tick (ev c) = b) \<and> sorted (map (\<lambda>c. ev_key (ev c)) cs)"

abbreviation cell_place :: "(u32 \<Rightarrow> seq_event) \<Rightarrow> u32 \<Rightarrow> u32 list \<Rightarrow> u32 list" where
  "cell_place ev \<equiv> place (\<lambda>c. ev_key (ev c)) (\<lambda>c. is_prior (ev c))"

abbreviation cell_after :: "(u32 \<Rightarrow> seq_event) \<Rightarrow> u32 \<Rightarrow> u32 \<Rightarrow> bool" where
  "cell_after ev \<equiv> goes_after (\<lambda>c. ev_key (ev c)) (\<lambda>c. is_prior (ev c))"

lemma find_place_split:
  assumes "path (next_of m) cur cs 0" "\<forall>d\<in>set cs. snd_seq_ev_is_tick (event_of m d) = snd_seq_ev_is_tick (event_of m c)"
    and "0 < left"
  shows "find_place m (event_of m c) left prev cur =
     (let pre = takeWhile (cell_after (event_of m) c) cs; post = dropWhile (cell_after (event_of m) c) cs
      in if length pre < left then Some (last (prev # pre), case post of [] \<Rightarrow> 0 | d # _ \<Rightarrow> d) else None)"
  using assms
proof (induction cs arbitrary: cur prev left)
  case Nil
  then show ?case by (subst find_place.simps) simp
next
  case (Cons d cs)
  then have d: "cur = d" "d \<noteq> 0" "path (next_of m) (next_of m d) cs 0" by auto
  have "snd_seq_ev_is_tick (event_of m c) = snd_seq_ev_is_tick (event_of m d)" using Cons.prems(2) by simp
  from compare_rel_key [OF this]
  have stop: "(compare_timestamp_rel (event_of m c) (event_of m d) < 0 \<or>
      compare_timestamp_rel (event_of m c) (event_of m d) = 0 \<and> is_prior (event_of m c)) \<longleftrightarrow> \<not> cell_after (event_of m) c d"
    by (auto simp: goes_after_def)
  show ?case
  proof (cases "cell_after (event_of m) c d \<and> 1 < left")
    case True
    then have "find_place m (event_of m c) left prev cur = find_place m (event_of m c) (left - 1) d (next_of m d)"
      using stop d by (subst find_place.simps) (auto simp: Let_def)
    also have "\<dots> = (let pre = takeWhile (cell_after (event_of m) c) cs; post = dropWhile (cell_after (event_of m) c) cs
      in if length pre < left - 1 then Some (last (d # pre), case post of [] \<Rightarrow> 0 | d # _ \<Rightarrow> d) else None)"
      using Cons.IH [OF d(3), of "left - 1" d] Cons.prems(2) True by simp
    finally show ?thesis using True by (auto simp: Let_def)
  next
    case False
    then show ?thesis using stop d Cons.prems(3) by (subst find_place.simps) (auto simp: Let_def)
  qed
qed

lemma path_insert:
  assumes "path n a (pre @ post) 0" "c \<notin> set (pre @ post)" "c \<noteq> 0"
  shows "path ((if pre = [] then n else n(last pre := c))(c := case post of [] \<Rightarrow> 0 | d # _ \<Rightarrow> d))
    (if pre = [] then c else a) (pre @ c # post) 0"
proof -
  obtain b where b: "path n a pre b" "path n b post 0" using assms(1) by auto
  have bp: "b = (case post of [] \<Rightarrow> 0 | d # _ \<Rightarrow> d)" using path_start [OF b(2)] .
  have "distinct (pre @ post)" using path_distinct [OF assms(1)] .
  then show ?thesis
  proof (cases pre rule: rev_cases)
    case Nil
    then show ?thesis using assms b bp by auto
  next
    case (snoc ys y)
    then have "y \<notin> set ys" "y \<notin> set post" "c \<noteq> y" "c \<notin> set ys" "c \<notin> set post" "y \<noteq> 0" "path n a ys y"
      using \<open>distinct (pre @ post)\<close> assms b(1) by auto
    then show ?thesis using snoc b bp assms(3) by auto
  qed
qed

lemma prioq_tail_place:
  assumes "in_order b ev cs" "cs \<noteq> []" "\<not> is_prior (ev c)" "ev_key (ev (last cs)) \<le> ev_key (ev c)"
  shows "takeWhile (cell_after ev c) cs = cs"
proof -
  have "ev_key (ev d) \<le> ev_key (ev (last cs))" if "d \<in> set cs" for d
  proof -
    from that obtain i where "i < length cs" "cs ! i = d" by (auto simp: in_set_conv_nth)
    then show ?thesis using assms(1,2) sorted_nth_mono [of "map (\<lambda>c. ev_key (ev c)) cs" i "length cs - 1"]
      by (auto simp: in_order_def last_conv_nth)
  qed
  then show ?thesis using assms(3,4) by (auto simp: takeWhile_eq_all_conv goes_after_def intro: order_trans)
qed

lemma prioq_insert:
  assumes "prioq_list f m (pre @ post)" "c \<notin> set (pre @ post)" "c \<noteq> 0"
    and "next_of m' = (if pre = [] then next_of m else (next_of m)(last pre := c))(c := case post of [] \<Rightarrow> 0 | d # _ \<Rightarrow> d)"
    and "pq_head f' = (if pre = [] then c else pq_head f)" "pq_tail f' = (if post = [] then c else pq_tail f)"
    and "pq_cells f' = pq_cells f + 1"
  shows "prioq_list f' m' (pre @ c # post)"
  using path_insert [of "next_of m" "pq_head f" pre post c] assms
  by (auto simp: prioq_list_def)

text \<open>A change of links only, in the cells of \<open>S\<close>.\<close>

definition relinked :: "seq_mem \<Rightarrow> seq_mem \<Rightarrow> u32 set \<Rightarrow> bool" where
  "relinked m m' S \<longleftrightarrow> pools m' = pools m \<and>
     (\<forall>d. cells m' d = (if d \<in> S then (cells m d)\<lparr>cell_next := next_of m' d\<rparr> else cells m d))"

lemma relinked_refl [simp]: "relinked m m S"
  by (simp add: relinked_def next_of_def)

lemma relinked_set_next [simp]:
  assumes "relinked m m' S" "a \<in> S"
  shows "relinked m (set_next a b m') S"
proof -
  have c: "cells m' d = (if d \<in> S then (cells m d)\<lparr>cell_next := next_of m' d\<rparr> else cells m d)" for d
    using assms(1) unfolding relinked_def by blast
  have "cells (set_next a b m') d = (if d \<in> S then (cells m d)\<lparr>cell_next := next_of (set_next a b m') d\<rparr> else cells m d)" for d
  proof (cases "d = a")
    case True
    have "(cells m' a)\<lparr>cell_next := b\<rparr> = (cells m a)\<lparr>cell_next := b\<rparr>" using assms(2) by (subst c) simp
    then show ?thesis using True assms(2) by (simp add: set_next_def next_of_def)
  next
    case False
    then have "cells (set_next a b m') d = cells m' d" "next_of (set_next a b m') d = next_of m' d" by simp_all
    then show ?thesis by (simp only:) (rule c)
  qed
  then show ?thesis using assms(1) by (simp add: relinked_def)
qed

lemma relinkedD:
  assumes "relinked m m' S"
  shows "event_of m' = event_of m" "pools m' = pools m" "d \<notin> S \<Longrightarrow> cells m' d = cells m d"
    "cell_pool (cells m' d) = cell_pool (cells m d)" "cell_bytes (cells m' d) = cell_bytes (cells m d)"
proof -
  have c: "cells m' d = (if d \<in> S then (cells m d)\<lparr>cell_next := next_of m' d\<rparr> else cells m d)" for d
    using assms unfolding relinked_def by blast
  show "event_of m' = event_of m" by (simp add: fun_eq_iff event_of_def c)
  show "pools m' = pools m" using assms by (simp add: relinked_def)
  show "d \<notin> S \<Longrightarrow> cells m' d = cells m d" "cell_pool (cells m' d) = cell_pool (cells m d)"
    "cell_bytes (cells m' d) = cell_bytes (cells m d)" by (simp_all add: c [of d])
qed

text \<open>The shortcut: the new cell goes behind the tail.\<close>

lemma cell_in_tail:
  assumes "prioq_list f m cs" "in_order b (event_of m) cs" "c \<notin> set cs" "c \<noteq> 0" "snd_seq_ev_is_tick (event_of m c) = b"
    and fast: "pq_tail f \<noteq> 0 \<and> \<not> is_prior (event_of m c) \<and> compare_timestamp (event_of m c) (event_of m (pq_tail f))"
  shows "\<exists>f' m'. snd_seq_prioq_cell_in c f m = (0, f', m') \<and> relinked m m' (insert c (set cs)) \<and>
    prioq_list f' m' (cell_place (event_of m) c cs)"
proof -
  let ?e = "event_of m c"
  have t: "cs \<noteq> []" "pq_tail f = last cs" using assms(1) fast by (auto simp: prioq_list_def)
  then have l: "last cs \<in> set cs" by simp
  then have "snd_seq_ev_is_tick ?e = snd_seq_ev_is_tick (event_of m (last cs))" using assms(2,5) by (simp add: in_order_def)
  from compare_timestamp_key [OF this] have "ev_key (event_of m (last cs)) \<le> ev_key ?e" using fast t(2) by simp
  from prioq_tail_place [OF assms(2) t(1) _ this] have pre: "takeWhile (cell_after (event_of m) c) cs = cs" using fast by simp
  then have post: "dropWhile (cell_after (event_of m) c) cs = []" using takeWhile_dropWhile_id by (metis append_self_conv)
  let ?f = "f\<lparr>pq_tail := c, pq_cells := pq_cells f + 1\<rparr>" and ?m = "set_next c 0 (set_next (pq_tail f) c m)"
  have "prioq_list ?f ?m (cs @ [c])"
    by (rule prioq_insert [of f m]) (use assms(1,3,4) t in simp_all)
  then have "prioq_list ?f ?m (cell_place (event_of m) c cs)" by (simp only: place_def pre post)
  moreover have "snd_seq_prioq_cell_in c f m = (0, ?f, ?m)"
    unfolding snd_seq_prioq_cell_in_def Let_def by (rule if_P [OF fast])
  moreover have "relinked m ?m (insert c (set cs))" using t l by simp
  ultimately show ?thesis by blast
qed

lemma cell_in_found:
  assumes "prioq_list f m (pre @ post)" "c \<notin> set (pre @ post)" "c \<noteq> 0"
    and slow: "\<not> (pq_tail f \<noteq> 0 \<and> \<not> is_prior (event_of m c) \<and> compare_timestamp (event_of m c) (event_of m (pq_tail f)))"
    and place: "find_place m (event_of m c) 10000 0 (pq_head f) = Some (last (0 # pre), case post of [] \<Rightarrow> 0 | d # _ \<Rightarrow> d)"
  shows "\<exists>f' m'. snd_seq_prioq_cell_in c f m = (0, f', m') \<and> relinked m m' (insert c (set (pre @ post))) \<and>
    prioq_list f' m' (pre @ c # post)"
proof -
  let ?prev = "last (0 # pre)" and ?cur = "case post of [] \<Rightarrow> 0 | d # _ \<Rightarrow> d"
  let ?m = "set_next c ?cur (if ?prev \<noteq> 0 then set_next ?prev c m else m)"
  let ?f1 = "if pq_head f = ?cur then f\<lparr>pq_head := c\<rparr> else f"
  let ?f = "(if ?cur = 0 then ?f1\<lparr>pq_tail := c\<rparr> else ?f1)\<lparr>pq_cells := pq_cells f + 1\<rparr>"
  have p: "path (next_of m) (pq_head f) (pre @ post) 0" using assms(1) by (simp add: prioq_list_def)
  have nz: "0 \<notin> set (pre @ post)" using p by (rule path_nonzero)
  have prev: "?prev \<noteq> 0 \<longleftrightarrow> pre \<noteq> []" "pre \<noteq> [] \<Longrightarrow> ?prev \<in> set (pre @ post)"
    using nz last_in_set [of pre] by (auto simp del: last_in_set)
  have cur: "?cur = 0 \<longleftrightarrow> post = []" using nz by (cases post) auto
  have head: "pq_head f = ?cur \<longleftrightarrow> pre = []"
    using path_start [OF p] path_distinct [OF p] nz by (cases pre; cases post) auto
  have "prioq_list ?f ?m (pre @ c # post)"
    by (rule prioq_insert [of f m]) (use assms(1-3) prev cur head in auto)
  moreover have "snd_seq_prioq_cell_in c f m = (0, ?f, ?m)"
    using place unfolding snd_seq_prioq_cell_in_def Let_def if_not_P [OF slow] by simp
  moreover have "relinked m ?m (insert c (set (pre @ post)))" using prev by auto
  ultimately show ?thesis by blast
qed

lemma cell_in_outcome:
  assumes "prioq_list f m cs" "in_order b (event_of m) cs" "c \<notin> set cs" "c \<noteq> 0" "snd_seq_ev_is_tick (event_of m c) = b"
  shows "\<exists>err f' m'. snd_seq_prioq_cell_in c f m = (err, f', m') \<and> relinked m m' (insert c (set cs)) \<and>
    (if err = 0 then prioq_list f' m' (cell_place (event_of m) c cs)
     else err = - EINVAL \<and> f' = f \<and> m' = m \<and> 10000 \<le> length (takeWhile (cell_after (event_of m) c) cs))"
proof (cases "pq_tail f \<noteq> 0 \<and> \<not> is_prior (event_of m c) \<and> compare_timestamp (event_of m c) (event_of m (pq_tail f))")
  case True
  then show ?thesis using cell_in_tail [OF assms True] by auto
next
  case False
  have p: "path (next_of m) (pq_head f) cs 0" using assms(1) by (simp add: prioq_list_def)
  have "\<forall>d\<in>set cs. snd_seq_ev_is_tick (event_of m d) = snd_seq_ev_is_tick (event_of m c)" using assms(2,5) by (simp add: in_order_def)
  note fp = find_place_split [OF p this, of 10000 0]
  show ?thesis
  proof (cases "length (takeWhile (cell_after (event_of m) c) cs) < 10000")
    case True
    then show ?thesis
      using cell_in_found [of f m "takeWhile (cell_after (event_of m) c) cs" "dropWhile (cell_after (event_of m) c) cs" c] assms(1,3,4) fp False
      by (auto simp: Let_def place_def)
  next
    case small: False
    then show ?thesis using fp unfolding snd_seq_prioq_cell_in_def Let_def if_not_P [OF False] by simp
  qed
qed

lemma cell_out_outcome:
  assumes "prioq_list f m cs"
  shows "\<exists>f' m'. snd_seq_prioq_cell_out t f m =
      (if cs = [] \<or> (\<exists>t'. t = Some t' \<and> \<not> event_is_ready (event_of m (hd cs)) t') then 0 else hd cs, f', m') \<and>
    relinked m m' (set cs) \<and>
    (if cs = [] \<or> (\<exists>t'. t = Some t' \<and> \<not> event_is_ready (event_of m (hd cs)) t') then f' = f \<and> m' = m
     else prioq_list f' m' (tl cs) \<and> next_of m' (hd cs) = 0)"
proof (cases cs)
  case Nil
  then show ?thesis using assms by (cases t) (simp_all add: prioq_list_def snd_seq_prioq_cell_out_def)
next
  case (Cons c cs')
  then have p: "pq_head f = c" "c \<noteq> 0" "path (next_of m) (next_of m c) cs' 0" "c \<notin> set cs'"
    using assms path_distinct [of "next_of m" c cs] by (auto simp: prioq_list_def)
  have "cs' \<noteq> [] \<Longrightarrow> last cs' \<noteq> c" using p(4) last_in_set [of cs'] by metis
  then have tail: "pq_tail f = c \<longleftrightarrow> cs' = [] \<and> pq_tail f \<noteq> 0" using assms Cons p(2,4)
    by (auto simp: prioq_list_def split: if_splits)
  then show ?thesis using assms Cons p
    by (cases t) (auto simp: prioq_list_def snd_seq_prioq_cell_out_def Let_def)
qed

lemma ready_key: "event_is_ready e t \<longleftrightarrow> ev_key e \<le> t"
  by (auto simp: event_is_ready_key ev_key_def real_time_le)

definition pq_repr :: "bool \<Rightarrow> (u32 \<Rightarrow> seq_event) \<Rightarrow> seq_prioq \<times> seq_mem \<Rightarrow> u32 list \<Rightarrow> bool" where
  "pq_repr b ev q cs \<longleftrightarrow> prioq_list (fst q) (snd q) cs \<and> event_of (snd q) = ev \<and> in_order b ev cs"

definition pq_in :: "u32 \<Rightarrow> seq_prioq \<times> seq_mem \<Rightarrow> int \<times> seq_prioq \<times> seq_mem" where
  "pq_in c q = snd_seq_prioq_cell_in c (fst q) (snd q)"

definition pq_out :: "real_time \<Rightarrow> seq_prioq \<times> seq_mem \<Rightarrow> u32 option \<times> seq_prioq \<times> seq_mem" where
  "pq_out t q =
     (let (c, q) = snd_seq_prioq_cell_out (Some t) (fst q) (snd q) in (if c = 0 then None else Some c, q))"

lemma in_order_place:
  "in_order b ev cs \<Longrightarrow> snd_seq_ev_is_tick (ev c) = b \<Longrightarrow> in_order b ev (cell_place ev c cs)"
  using sorted_place [of "\<lambda>c. ev_key (ev c)" cs] by (simp add: in_order_def)

lemma in_order_Cons: "in_order b ev (c # cs) \<Longrightarrow> in_order b ev cs"
  by (simp add: in_order_def)

interpretation pq: timed_queue "\<lambda>c. ev_key (ev c)" "\<lambda>c. is_prior (ev c)"
  "\<lambda>c. c \<noteq> 0 \<and> snd_seq_ev_is_tick (ev c) = b" 10000 "pq_repr b ev" pq_in pq_out for b ev
proof (unfold_locales, goal_cases)
  case (1 q cs)
  then show ?case by (simp add: pq_repr_def in_order_def)
next
  case (2 q cs c)
  have r: "prioq_list (fst q) (snd q) cs" "event_of (snd q) = ev" "in_order b ev cs" using 2(1) by (simp_all add: pq_repr_def)
  have "length (takeWhile (cell_after ev c) cs) < 10000" using length_takeWhile_le [of "cell_after ev c" cs] 2(4) by simp
  then obtain f' m' where i: "snd_seq_prioq_cell_in c (fst q) (snd q) = (0, f', m')"
    "relinked (snd q) m' (insert c (set cs))" "prioq_list f' m' (cell_place ev c cs)"
    using cell_in_outcome [OF r(1), unfolded r(2), OF r(3), of c] 2(2,3) by (auto split: if_splits)
  then have "pq_repr b ev (f', m') (cell_place ev c cs)"
    using in_order_place [OF r(3), of c] 2(3) relinkedD(1) [OF i(2)] by (simp add: pq_repr_def r(2))
  then show ?case using i(1) by (simp add: pq_in_def)
next
  case (3 q c cs t)
  have r: "prioq_list (fst q) (snd q) (c # cs)" "event_of (snd q) = ev" "in_order b ev (c # cs)"
    using 3(1) by (simp_all add: pq_repr_def)
  have "c \<noteq> 0" using r(1) by (auto simp: prioq_list_def)
  moreover obtain f' m' where i: "snd_seq_prioq_cell_out (Some t) (fst q) (snd q) = (c, f', m')"
    "relinked (snd q) m' (set (c # cs))" "prioq_list f' m' cs"
    using cell_out_outcome [OF r(1), of "Some t"] 3(2) by (auto simp: r(2) ready_key)
  moreover have "pq_repr b ev (f', m') cs"
    using in_order_Cons [OF r(3)] relinkedD(1) [OF i(2)] i(3) by (simp add: pq_repr_def r(2))
  ultimately show ?case by (simp add: pq_out_def)
next
  case (4 q cs t)
  have r: "prioq_list (fst q) (snd q) cs" "event_of (snd q) = ev" using 4(1) by (simp_all add: pq_repr_def)
  have "cs = [] \<or> \<not> event_is_ready (event_of (snd q) (hd cs)) t" using 4(2) by (auto simp: r(2) ready_key)
  then show ?case using cell_out_outcome [OF r(1), of "Some t"] by (cases q) (auto simp: pq_out_def)
qed

section \<open>Properties\<close>

text \<open>
  Inserting a cell into a priority queue whose events are in time order puts it at its place: after
  all earlier events and after those with the same time, or before the latter when it has priority. The
  order is kept and nothing but links changes. The only failure is \<^verbatim>\<open>-EINVAL\<close>, without any change, when
  10000 or more cells precede the place.
\<close>

theorem prioq_insertion:
  assumes "prioq_list f m cs" "in_order b (event_of m) cs" "c \<notin> set cs" "c \<noteq> 0" "snd_seq_ev_is_tick (event_of m c) = b"
  shows "\<exists>err f' m'. snd_seq_prioq_cell_in c f m = (err, f', m') \<and> event_of m' = event_of m \<and> pools m' = pools m \<and>
    (if err = 0 then prioq_list f' m' (cell_place (event_of m) c cs) \<and> in_order b (event_of m') (cell_place (event_of m) c cs)
     else err = - EINVAL \<and> f' = f \<and> m' = m \<and> 10000 \<le> length (takeWhile (cell_after (event_of m) c) cs))"
proof -
  obtain err f' m' where r: "snd_seq_prioq_cell_in c f m = (err, f', m')" "relinked m m' (insert c (set cs))"
    "if err = 0 then prioq_list f' m' (cell_place (event_of m) c cs)
     else err = - EINVAL \<and> f' = f \<and> m' = m \<and> 10000 \<le> length (takeWhile (cell_after (event_of m) c) cs)"
    using cell_in_outcome [OF assms] by blast
  then show ?thesis using in_order_place [OF assms(2,5)] relinkedD(1,2) [OF r(2)] by auto
qed

definition stamped :: "u32 \<Rightarrow> seq_event" where
  "stamped t = \<lparr>ev_type = 6, ev_flags = 0, ev_tag = 0, ev_queue = 0, ev_time = Real_time t 0,
     ev_source = (1, 0), ev_dest = (2, 0), ev_data = (0, 0, 0)\<rparr>"

definition stamped_mem :: seq_mem where
  "stamped_mem = \<lparr>cells = (\<lambda>a. \<lparr>cell_event = stamped (a div 16), cell_bytes = [], cell_pool = 0, cell_next = 0\<rparr>),
     pools = (\<lambda>_. snd_seq_pool_new 0)\<rparr>"

theorem prioq_insertion_witness:
  "\<exists>err f' m'. snd_seq_prioq_cell_in 0x20 \<lparr>pq_head = 0x30, pq_tail = 0, pq_cells = 1\<rparr> stamped_mem = (err, f', m') \<and>
    event_of m' = event_of stamped_mem \<and> pools m' = pools stamped_mem \<and>
    (if err = 0 then prioq_list f' m' (cell_place (event_of stamped_mem) 0x20 [0x30]) \<and>
       in_order True (event_of m') (cell_place (event_of stamped_mem) 0x20 [0x30])
     else err = - EINVAL \<and> f' = \<lparr>pq_head = 0x30, pq_tail = 0, pq_cells = 1\<rparr> \<and> m' = stamped_mem \<and>
       10000 \<le> length (takeWhile (cell_after (event_of stamped_mem) 0x20) [0x30]))"
  by (rule prioq_insertion)
    (simp_all add: prioq_list_def in_order_def stamped_mem_def stamped_def event_of_def next_of_def snd_seq_ev_is_tick_def)

text \<open>
  C10. Events come out of a priority queue in time order, and first come first served among equal times.
  Any distinct cells without priority, up to 10000, can be inserted in any order; asking then for due
  events at time \<open>t\<close> until there is none gives exactly the events with a time up to \<open>t\<close>, as a stable sort by
  time orders them, and leaves none that is due.
\<close>

theorem prioq_time_order:
  assumes "distinct cs" "\<forall>c\<in>set cs. c \<noteq> 0 \<and> snd_seq_ev_is_tick (event_of m c) = b \<and> \<not> is_prior (event_of m c)"
    and "length cs \<le> 10000"
  shows "\<exists>q1 q2. insert_all pq_in cs (snd_seq_prioq_new, m) = Some q1 \<and>
    drain (pq_out t) (length cs) q1 =
      (filter (\<lambda>c. ev_key (event_of m c) \<le> t) (sort_key (\<lambda>c. ev_key (event_of m c)) cs), q2) \<and>
    pq_out t q2 = (None, q2)"
proof -
  have "pq_repr b (event_of m) (snd_seq_prioq_new, m) []" by (simp add: pq_repr_def prioq_new_list in_order_def)
  then show ?thesis using pq.stable_time_order [of b "event_of m" _ cs t] assms by auto
qed

theorem prioq_time_order_witness:
  "\<exists>q1 q2. insert_all pq_in [0x50, 0x20, 0x51, 0x10] (snd_seq_prioq_new, stamped_mem) = Some q1 \<and>
    drain (pq_out (Real_time 2 0)) (length [0x50, 0x20, 0x51, 0x10 :: u32]) q1 =
      (filter (\<lambda>c. ev_key (event_of stamped_mem c) \<le> Real_time 2 0)
         (sort_key (\<lambda>c. ev_key (event_of stamped_mem c)) [0x50, 0x20, 0x51, 0x10]), q2) \<and>
    pq_out (Real_time 2 0) q2 = (None, q2)"
  by (rule prioq_time_order [where b = True])
    (simp_all add: stamped_mem_def stamped_def event_of_def snd_seq_ev_is_tick_def is_prior_def)

section \<open>Removing events\<close>

lemma path_delete:
  assumes "path n a (pre @ c # post) 0" "pre \<noteq> []"
  shows "path (n(last pre := n c)) a (pre @ post) 0"
proof -
  obtain ys y where pre: "pre = ys @ [y]" using assms(2) by (cases pre rule: rev_cases) auto
  have "y \<notin> set ys" "y \<notin> set post" using path_distinct [OF assms(1)] pre by auto
  then show ?thesis using assms(1) pre by auto
qed

text \<open>
  One turn of the loop: the queue holds \<open>pre @ ys\<close>, of which \<open>ys\<close> is still to be looked at, and the cells
  \<open>del\<close> have been taken out.
\<close>

definition collecting :: "seq_prioq \<Rightarrow> seq_mem \<Rightarrow> u32 list \<Rightarrow> u32 list \<Rightarrow> u32 list \<Rightarrow> u32 \<Rightarrow> u32 \<Rightarrow> u32 \<Rightarrow> u32 \<Rightarrow> bool" where
  "collecting f m pre ys del prev freefirst freeprev cell \<longleftrightarrow>
     prioq_list f m (pre @ ys) \<and> path (next_of m) freefirst del 0 \<and> set (pre @ ys) \<inter> set del = {} \<and>
     prev = last (0 # pre) \<and> freeprev = last (0 # del) \<and> cell = (case ys of [] \<Rightarrow> 0 | y # _ \<Rightarrow> y)"

lemma collecting_keep:
  assumes "collecting f m pre (c # ys) del prev freefirst freeprev c"
  shows "collecting f m (pre @ [c]) ys del c freefirst freeprev (next_of m c)"
proof -
  have "path (next_of m) (next_of m c) ys 0" using assms by (auto simp: collecting_def prioq_list_def)
  from path_start [OF this] show ?thesis using assms by (simp add: collecting_def)
qed

lemma path_snoc_any:
  assumes "path n a xs 0" "x \<notin> set xs" "x \<noteq> 0"
  shows "path ((if xs = [] then n else n(last xs := x))(x := 0)) (if xs = [] then x else a) (xs @ [x]) 0"
  using assms path_snoc_upd [of n a xs x] by auto

lemma collecting_remove:
  assumes c: "collecting f m pre (c # ys) del prev freefirst freeprev c"
  defines "m1 \<equiv> set_next c 0 (if c = pq_head f then m else set_next prev (next_of m c) m)"
  defines "m' \<equiv> if freefirst = 0 then m1 else set_next freeprev c m1"
  defines "f1 \<equiv> if c = pq_head f then f\<lparr>pq_head := next_of m c\<rparr> else f"
  defines "f2 \<equiv> if c = pq_tail f1 then f1\<lparr>pq_tail := next_of m c\<rparr> else f1"
  defines "f' \<equiv> f2\<lparr>pq_cells := pq_cells f2 - 1\<rparr>"
  shows "collecting f' m' pre ys (del @ [c]) prev (if freefirst = 0 then c else freefirst) c (next_of m c)"
    "c \<noteq> pq_head f \<Longrightarrow> prev \<noteq> 0" "relinked m m' (set (pre @ c # ys @ del))"
proof -
  have l: "prioq_list f m (pre @ c # ys)" "path (next_of m) freefirst del 0" "set (pre @ c # ys) \<inter> set del = {}"
    "prev = last (0 # pre)" "freeprev = last (0 # del)"
    using c by (simp_all add: collecting_def)
  have p: "path (next_of m) (pq_head f) (pre @ c # ys) 0" using l(1) by (simp add: prioq_list_def)
  have d: "distinct (pre @ c # ys)" "0 \<notin> set (pre @ c # ys)" using path_distinct [OF p] path_nonzero [OF p] by auto
  have h: "c = pq_head f \<longleftrightarrow> pre = []" using path_start [OF p] d(1) by (cases pre) auto
  have ff: "freefirst = 0 \<longleftrightarrow> del = []" using l(2) by (cases del) auto
  have in_sets: "pre \<noteq> [] \<Longrightarrow> last pre \<in> set pre" "del \<noteq> [] \<Longrightarrow> last del \<in> set del" by auto
  have lp: "pre \<noteq> [] \<Longrightarrow> last pre \<notin> set del" and ld: "del \<noteq> [] \<Longrightarrow> last del \<notin> set (pre @ c # ys)"
    using l(3) in_sets by (metis disjoint_iff Un_iff set_append)+
  define n where "n = (if pre = [] then next_of m else (next_of m)(last pre := next_of m c))"
  have nx: "next_of m' = (if del = [] then n(c := 0) else n(c := 0, last del := c))"
    using h ff l(4,5) by (simp add: m'_def m1_def n_def)
  have nc: "path (next_of m) (next_of m c) ys 0" using p by auto
  have "path n (pq_head f1) (pre @ ys) 0"
    using p path_delete [OF p] h by (auto simp: f1_def n_def)
  moreover have "next_of m' x = n x" if "x \<in> set (pre @ ys)" for x
  proof -
    have "x \<noteq> c" using that d(1) by auto
    moreover have "del \<noteq> [] \<Longrightarrow> x \<noteq> last del" using that ld by auto
    ultimately show ?thesis by (simp add: nx)
  qed
  ultimately have "path (next_of m') (pq_head f1) (pre @ ys) 0" using path_cong [of "pre @ ys" "next_of m'" n] by blast
  moreover have "path (next_of m') (if freefirst = 0 then c else freefirst) (del @ [c]) 0"
  proof -
    have "n x = next_of m x" if "x \<in> set del" for x
    proof -
      have "pre \<noteq> [] \<Longrightarrow> x \<noteq> last pre" using that lp by auto
      then show ?thesis by (simp add: n_def)
    qed
    then have "path n freefirst del 0" using path_cong [of del n "next_of m"] l(2) by blast
    moreover have "c \<notin> set del" "c \<noteq> 0" using l(3) d(2) by auto
    moreover from this have "del \<noteq> [] \<Longrightarrow> c \<noteq> last del" using in_sets(2) by metis
    moreover from this have "next_of m' = (if del = [] then n else n(last del := c))(c := 0)" by (auto simp: nx fun_eq_iff)
    ultimately show ?thesis using path_snoc_any [of n freefirst del c] unfolding ff by simp
  qed
  moreover have "pq_tail f' = 0 \<or> pre @ ys \<noteq> [] \<and> pq_tail f' = last (pre @ ys)" 
    using l(1) d path_start [OF nc] by (cases ys) (auto simp: prioq_list_def f'_def f2_def f1_def split: if_splits)
  ultimately show "collecting f' m' pre ys (del @ [c]) prev (if freefirst = 0 then c else freefirst) c (next_of m c)"
    using l d path_start [OF nc] by (simp add: collecting_def prioq_list_def f'_def f2_def f1_def)
  show "c \<noteq> pq_head f \<Longrightarrow> prev \<noteq> 0" using h l(4) d(2) last_in_set [of pre] by (auto simp del: last_in_set)
  show "relinked m m' (set (pre @ c # ys @ del))"
    using h ff l(4,5) in_sets by (auto simp: m'_def m1_def)
qed

lemma relinked_trans: "relinked m m1 S \<Longrightarrow> relinked m1 m2 T \<Longrightarrow> S \<union> T \<subseteq> U \<Longrightarrow> relinked m m2 U"
proof -
  assume r: "relinked m m1 S" "relinked m1 m2 T" "S \<union> T \<subseteq> U"
  have c1: "cells m1 d = (if d \<in> S then (cells m d)\<lparr>cell_next := next_of m1 d\<rparr> else cells m d)" for d
    using r(1) unfolding relinked_def by blast
  have c2: "cells m2 d = (if d \<in> T then (cells m1 d)\<lparr>cell_next := next_of m2 d\<rparr> else cells m1 d)" for d
    using r(2) unfolding relinked_def by blast
  have "cells m2 d = (if d \<in> U then (cells m d)\<lparr>cell_next := next_of m2 d\<rparr> else cells m d)" for d
  proof (cases "d \<in> T")
    case True
    then have "cells m2 d = (cells m d)\<lparr>cell_next := next_of m2 d\<rparr>" using c2 [of d] by (subst (asm) c1) simp
    then show ?thesis using True r(3) by auto
  next
    case False
    then have e: "cells m2 d = cells m1 d" "next_of m2 d = next_of m1 d" using c2 [of d] by (simp_all add: next_of_def)
    show ?thesis
    proof (cases "d \<in> S")
      case True
      then show ?thesis using e c1 [of d] r(3) by auto
    next
      case False
      then have "cells m1 d = cells m d" using c1 [of d] by simp
      then show ?thesis using e by (simp add: next_of_def)
    qed
  qed
  then show ?thesis using r by (simp add: relinked_def)
qed

lemma prioq_collect_splits:
  assumes "collecting f m pre ys del prev freefirst freeprev cell"
  shows "\<exists>first f' m'. prioq_collect match prev freefirst freeprev cell f m = Some (first, f', m') \<and>
    prioq_list f' m' (pre @ filter (\<lambda>c. \<not> match (event_of m c)) ys) \<and>
    path (next_of m') first (del @ filter (\<lambda>c. match (event_of m c)) ys) 0 \<and> relinked m m' (set (pre @ ys @ del))"
  using assms
proof (induction ys arbitrary: f m pre del prev freefirst freeprev cell)
  case Nil
  then show ?case by (subst prioq_collect.simps) (simp add: collecting_def)
next
  case (Cons c ys)
  then have c: "cell = c" "collecting f m pre (c # ys) del prev freefirst freeprev c" by (simp_all add: collecting_def)
  have "c \<noteq> 0" using c(2) by (auto simp: collecting_def prioq_list_def)
  show ?case
  proof (cases "match (event_of m c)")
    case False
    then have "prioq_collect match prev freefirst freeprev cell f m =
        prioq_collect match c freefirst freeprev (next_of m c) f m"
      using c(1) \<open>c \<noteq> 0\<close> by (subst prioq_collect.simps) (simp add: Let_def)
    then show ?thesis using Cons.IH [OF collecting_keep [OF c(2)]] False by auto
  next
    case True
    define m1 where "m1 = set_next c 0 (if c = pq_head f then m else set_next prev (next_of m c) m)"
    define m' where "m' = (if freefirst = 0 then m1 else set_next freeprev c m1)"
    define f1 where "f1 = (if c = pq_head f then f\<lparr>pq_head := next_of m c\<rparr> else f)"
    define f2 where "f2 = (if c = pq_tail f1 then f1\<lparr>pq_tail := next_of m c\<rparr> else f1)"
    define f' where "f' = f2\<lparr>pq_cells := pq_cells f2 - 1\<rparr>"
    note r = collecting_remove [OF c(2), folded m1_def f1_def, folded m'_def f2_def, folded f'_def]
    have ok: "\<not> (c \<noteq> pq_head f \<and> prev = 0)" using r(2) by blast
    have "prioq_collect match prev freefirst freeprev cell f m =
        prioq_collect match prev (if freefirst = 0 then c else freefirst) c (next_of m c) f' m'"
      unfolding c(1) prioq_collect.simps [of match prev freefirst freeprev c] m1_def m'_def f1_def f2_def f'_def Let_def
        if_not_P [OF \<open>c \<noteq> 0\<close>] if_not_P [OF ok] by (simp only: True not_True_eq_False if_False)
    moreover obtain first fb m2 where
      "prioq_collect match prev (if freefirst = 0 then c else freefirst) c (next_of m c) f' m' = Some (first, fb, m2)"
      "prioq_list fb m2 (pre @ filter (\<lambda>c. \<not> match (event_of m' c)) ys)"
      "path (next_of m2) first ((del @ [c]) @ filter (\<lambda>c. match (event_of m' c)) ys) 0"
      "relinked m' m2 (set (pre @ ys @ del @ [c]))"
      using Cons.IH [OF r(1)] by blast
    moreover have "relinked m m2 (set (pre @ (c # ys) @ del))"
      by (rule relinked_trans [OF r(3) calculation(5)]) auto
    moreover have "filter (\<lambda>c. match (event_of m c)) (c # ys) = c # filter (\<lambda>c. match (event_of m' c)) ys"
      "filter (\<lambda>c. \<not> match (event_of m c)) (c # ys) = filter (\<lambda>c. \<not> match (event_of m' c)) ys"
      using relinkedD(1) [OF r(3)] True by simp_all
    ultimately show ?thesis by (simp only: append_assoc append_Cons append_Nil) blast
  qed
qed

section \<open>Giving cells back to several pools\<close>

lemma free_chain_other_pools: "free_chain p a m = Some m' \<Longrightarrow> q \<noteq> p \<Longrightarrow> pools m' q = pools m q"
proof (induction p a m m' rule: free_chain.raw_induct [rotated, consumes 1])
  case (1 free_chain p cur m y)
  show ?case
  proof (cases "cur = 0")
    case False
    then have "free_chain p (next_of m cur) (free_cell p cur (set_next cur (pool_free (pools m p)) m)) = Some y"
      using 1(2) by (simp add: Let_def)
    from 1(1) [OF this 1(3)] show ?thesis using 1(3) by (simp add: free_cell_def)
  qed (use 1(2) in simp)
qed

lemma cell_free_other_pools:
  assumes "snd_seq_cell_free a m = Some m'" "q \<noteq> cell_pool (cells m a)"
  shows "pools m' q = pools m q"
proof -
  let ?p = "cell_pool (cells m a)"
  let ?m = "free_cell ?p a m"
  let ?chained = "snd_seq_ev_is_variable (event_of ?m a) \<and> ext_len (event_of ?m a) AND EXT_CHAINED \<noteq> 0"
  obtain m1 where m1: "(if ?chained then free_chain ?p (ext_ptr (event_of ?m a)) ?m else Some ?m) = Some m1"
    "m' = upd_pool ?p wake_output m1"
    using assms(1) unfolding snd_seq_cell_free_def Let_def
    by (cases "if ?chained then free_chain ?p (ext_ptr (event_of ?m a)) ?m else Some ?m") (simp_all split: if_splits)
  have "pools m1 q = pools ?m q"
  proof (cases ?chained)
    case True
    then have "free_chain ?p (ext_ptr (event_of ?m a)) ?m = Some m1" using m1(1) by simp
    then show ?thesis using free_chain_other_pools assms(2) by blast
  next
    case False
    then show ?thesis using m1(1) by (simp only: if_False option.inject)
  qed
  then show ?thesis using m1(2) assms(2) by (simp add: free_cell_def)
qed

definition pools_inv :: "seq_mem \<Rightarrow> nat set \<Rightarrow> (nat \<Rightarrow> u32 set) \<Rightarrow> (nat \<Rightarrow> u32 list) \<Rightarrow> bool" where
  "pools_inv m P A fs \<longleftrightarrow>
     (\<forall>p\<in>P. pool_inv m p (A p) (fs p)) \<and> (\<forall>p\<in>P. \<forall>q\<in>P. p \<noteq> q \<longrightarrow> A p \<inter> A q = {})"

text \<open>The cells of an entry are in use, and of one pool.\<close>

definition owned :: "nat set \<Rightarrow> (nat \<Rightarrow> u32 set) \<Rightarrow> (nat \<Rightarrow> u32 list) \<Rightarrow> entry \<Rightarrow> bool" where
  "owned P A fs = (\<lambda>(c, xs). \<exists>p\<in>P. set (c # xs) \<subseteq> A p \<and> set (c # xs) \<inter> set (fs p) = {})"

lemma pool_inv_other:
  assumes "pool_inv m q B fs" "pools m' q = pools m q" "\<And>b. b \<in> B \<Longrightarrow> cells m' b = cells m b"
  shows "pool_inv m' q B fs"
proof -
  have "next_of m' b = next_of m b" if "b \<in> set fs" for b
    using that assms(1,3) by (auto simp: pool_inv_def next_of_def)
  then have "path (next_of m') a fs 0 = path (next_of m) a fs 0" for a by (rule path_cong)
  then show ?thesis using assms by (simp add: pool_inv_def)
qed

lemma cell_free_pools:
  assumes "pools_inv m P A fs" "p \<in> P" "chain m c xs" "set (c # xs) \<subseteq> A p" "set (c # xs) \<inter> set (fs p) = {}" "c \<notin> set xs"
  shows "\<exists>m'. snd_seq_cell_free c m = Some m' \<and> pools_inv m' P A (fs(p := rev xs @ c # fs p)) \<and>
    (\<forall>b. b \<notin> set (c # xs) \<longrightarrow> cells m' b = cells m b)"
proof -
  have p: "pool_inv m p (A p) (fs p)" using assms(1,2) by (simp add: pools_inv_def)
  from cell_free_inv [OF p assms(3-6)] obtain m' where m': "snd_seq_cell_free c m = Some m'"
    "pool_inv m' p (A p) (rev xs @ c # fs p)" "\<forall>b. b \<notin> set (c # xs) \<longrightarrow> cells m' b = cells m b"
    by blast
  have "cell_pool (cells m c) = p" using p assms(4) by (auto simp: pool_inv_def)
  then have o: "pools m' q = pools m q" if "q \<noteq> p" for q using cell_free_other_pools [OF m'(1)] that by blast
  have "pool_inv m' q (A q) (fs q)" if "q \<in> P" "q \<noteq> p" for q
  proof (rule pool_inv_other)
    show "pool_inv m q (A q) (fs q)" using assms(1) that(1) by (simp add: pools_inv_def)
    show "pools m' q = pools m q" using o that(2) by simp
    fix b assume "b \<in> A q"
    then have "b \<notin> A p" using assms(1,2) that unfolding pools_inv_def by blast
    then show "cells m' b = cells m b" using m'(3) assms(4) by blast
  qed
  then have "pools_inv m' P A (fs(p := rev xs @ c # fs p))" using assms(1) m'(2) by (simp add: pools_inv_def)
  then show ?thesis using m'(1,3) by blast
qed

text \<open>Freeing a list of entries returns all their cells.\<close>

lemma free_list_pools:
  assumes "pools_inv m P A fs" "path (next_of m) a (map fst rs) 0" "linked m rs" "distinct (entry_cells rs)"
    and "\<forall>r\<in>set rs. owned P A fs r"
  shows "\<exists>m' fs'. free_list a m = Some m' \<and> pools_inv m' P A fs' \<and>
    (\<forall>p\<in>P. set (fs' p) = set (fs p) \<union> (A p \<inter> set (entry_cells rs))) \<and>
    (\<forall>b. b \<notin> set (entry_cells rs) \<longrightarrow> cells m' b = cells m b)"
  using assms
proof (induction rs arbitrary: a m fs)
  case Nil
  then show ?case by (intro exI [of _ m] exI [of _ fs]) (simp add: free_list.simps)
next
  case (Cons r rs)
  obtain c xs where r: "r = (c, xs)" by fastforce
  have d: "c \<notin> set xs" "set (c # xs) \<inter> set (entry_cells rs) = {}" "distinct (entry_cells rs)" using Cons.prems(4) r by auto
  obtain p where p: "p \<in> P" "set (c # xs) \<subseteq> A p" "set (c # xs) \<inter> set (fs p) = {}"
    using Cons.prems(5) r by (auto simp: owned_def)
  have ch: "chain m c xs" using Cons.prems(3) r by simp
  obtain m1 where m1: "snd_seq_cell_free c m = Some m1" "pools_inv m1 P A (fs(p := rev xs @ c # fs p))"
    "\<forall>b. b \<notin> set (c # xs) \<longrightarrow> cells m1 b = cells m b"
    using cell_free_pools [OF Cons.prems(1) p(1) ch p(2,3) d(1)] by blast
  have keep: "cells m1 b = cells m b" if "b \<in> set (entry_cells rs)" for b using m1(3) d(2) that by blast
  have path: "a = c" "c \<noteq> 0" "path (next_of m) (next_of m c) (map fst rs) 0" using Cons.prems(2) r by auto
  have "next_of m1 b = next_of m b" if "b \<in> set (map fst rs)" for b
    using keep map_fst_entry_cells [of rs] that by (auto simp: next_of_def)
  then have path1: "path (next_of m1) (next_of m c) (map fst rs) 0"
    using path(3) path_cong [of "map fst rs" "next_of m1" "next_of m"] by blast
  have "event_of m1 b = event_of m b" if "b \<in> set (map fst rs)" for b
    using keep map_fst_entry_cells [of rs] that by (auto simp: event_of_def)
  then have linked1: "linked m1 rs" using entries_frame(1) [of m rs m1] Cons.prems(3) d(3) keep r by simp
  have owned1: "\<forall>r\<in>set rs. owned P A (fs(p := rev xs @ c # fs p)) r"
  proof
    fix e assume e: "e \<in> set rs"
    obtain c' xs' where e': "e = (c', xs')" by fastforce
    have s: "set (c' # xs') \<subseteq> set (entry_cells rs)" using fst_in_entry_cells [of c' xs' rs] e e' by auto
    obtain q where q: "q \<in> P" "set (c' # xs') \<subseteq> A q" "set (c' # xs') \<inter> set (fs q) = {}"
      using Cons.prems(5) e e' by (auto simp: owned_def)
    have "set (c' # xs') \<inter> set ((fs(p := rev xs @ c # fs p)) q) = {}" using q(3) s d(2) by auto
    then show "owned P A (fs(p := rev xs @ c # fs p)) e" using q(1,2) unfolding owned_def e' prod.case by blast
  qed
  from Cons.IH [OF m1(2) path1 linked1 d(3) owned1] obtain m2 fs' where m2: "free_list (next_of m c) m1 = Some m2"
    "pools_inv m2 P A fs'" "\<forall>q\<in>P. set (fs' q) = set ((fs(p := rev xs @ c # fs p)) q) \<union> (A q \<inter> set (entry_cells rs))"
    "\<forall>b. b \<notin> set (entry_cells rs) \<longrightarrow> cells m2 b = cells m1 b" by blast
  have "free_list a m = Some m2" using path(1,2) m1(1) m2(1) by (subst free_list.simps) (simp add: Let_def)
  moreover have "set (fs' q) = set (fs q) \<union> (A q \<inter> set (entry_cells (r # rs)))" if "q \<in> P" for q
  proof (cases "q = p")
    case True
    then show ?thesis using m2(3) that p(2) r by auto
  next
    case False
    then have "A q \<inter> set (c # xs) = {}" using Cons.prems(1) p(1,2) that unfolding pools_inv_def by blast
    then show ?thesis using m2(3) that False r by auto
  qed
  moreover have "\<forall>b. b \<notin> set (entry_cells (r # rs)) \<longrightarrow> cells m2 b = cells m b" using m2(4) m1(3) r by simp
  ultimately show ?case using m2(2) by blast
qed

lemma entry_cells_filter:
  assumes "distinct (entry_cells qs)"
  shows "distinct (entry_cells (filter P qs))" "set (entry_cells (filter P qs)) \<subseteq> set (entry_cells qs)"
    "set (entry_cells (filter P qs)) \<inter> set (entry_cells (filter (\<lambda>q. \<not> P q) qs)) = {}"
proof -
  have sub: "set (entry_cells (filter R qs)) \<subseteq> set (entry_cells qs)" for R and qs by (auto simp: entry_cells_def)
  then show "set (entry_cells (filter P qs)) \<subseteq> set (entry_cells qs)" .
  have "distinct (entry_cells (filter P qs)) \<and> set (entry_cells (filter P qs)) \<inter> set (entry_cells (filter (\<lambda>q. \<not> P q) qs)) = {}"
    using assms
  proof (induction qs)
    case (Cons q qs)
    obtain c xs where q: "q = (c, xs)" by fastforce
    have d: "distinct (c # xs)" "set (c # xs) \<inter> set (entry_cells qs) = {}" "distinct (entry_cells qs)"
      using Cons.prems q by auto
    have o: "set (c # xs) \<inter> set (entry_cells (filter R qs)) = {}" for R using d(2) sub [of R qs] by blast
    show ?case using Cons.IH [OF d(3)] d(1) o [of P] o [of "\<lambda>q. \<not> P q"] q by (cases "P q") auto
  qed simp
  then show "distinct (entry_cells (filter P qs))"
    "set (entry_cells (filter P qs)) \<inter> set (entry_cells (filter (\<lambda>q. \<not> P q) qs)) = {}" by blast+
qed

text \<open>The state of a queue: its entries, and the pools their cells come from.\<close>

definition prioq_inv :: "seq_prioq \<Rightarrow> seq_mem \<Rightarrow> nat set \<Rightarrow> (nat \<Rightarrow> u32 set) \<Rightarrow> (nat \<Rightarrow> u32 list) \<Rightarrow> entry list \<Rightarrow> bool" where
  "prioq_inv f m P A fs qs \<longleftrightarrow> prioq_list f m (map fst qs) \<and> linked m qs \<and> distinct (entry_cells qs) \<and>
     pools_inv m P A fs \<and> (\<forall>q\<in>set qs. owned P A fs q)"

lemma pools_inv_relinked:
  assumes "prioq_inv f m P A fs qs" "relinked m m' (set (map fst qs))"
  shows "pools_inv m' P A fs" "linked m' qs" "contents m' qs = contents m qs"
proof -
  have i: "linked m qs" "distinct (entry_cells qs)" "\<forall>q\<in>set qs. owned P A fs q"
    and pools: "\<forall>p\<in>P. pool_inv m p (A p) (fs p)" "\<forall>p\<in>P. \<forall>q\<in>P. p \<noteq> q \<longrightarrow> A p \<inter> A q = {}"
    using assms(1) by (simp_all add: prioq_inv_def pools_inv_def)
  have "next_of m' b = next_of m b" if "p \<in> P" "b \<in> set (fs p)" for p b
  proof -
    have "b \<notin> set (map fst qs)"
    proof
      assume "b \<in> set (map fst qs)"
      then obtain xs where "(b, xs) \<in> set qs" by auto
      then have "owned P A fs (b, xs)" using i(3) by blast
      then obtain q where q: "q \<in> P" "b \<in> A q" "b \<notin> set (fs q)" by (auto simp: owned_def)
      have "b \<in> A p" using pools(1) that by (auto simp: pool_inv_def)
      then have "p = q" using pools(2) q(1,2) that(1) by blast
      then show False using q(3) that(2) by simp
    qed
    then show ?thesis using relinkedD(3) [OF assms(2)] by (simp add: next_of_def)
  qed
  then have "pool_inv m' p (A p) (fs p)" if "p \<in> P" for p
    using pools(1) that by (intro pool_inv_frame [OF _ relinkedD(2,4) [OF assms(2)]]) auto
  then show "pools_inv m' P A fs" using pools(2) by (simp add: pools_inv_def)
  show "linked m' qs" "contents m' qs = contents m qs"
    by (rule entries_frame [OF i(1,2)]; simp add: relinkedD(1) [OF assms(2)] relinkedD(3) [OF assms(2)])+
qed

lemma prioq_removal:
  fixes match :: "seq_event \<Rightarrow> bool"
  assumes "prioq_inv f m P A fs qs"
  defines "kept \<equiv> filter (\<lambda>q. \<not> match (event_of m (fst q))) qs"
  defines "gone \<equiv> filter (\<lambda>q. match (event_of m (fst q))) qs"
  shows "\<exists>first f' m1 m' fs'. prioq_collect match 0 0 0 (pq_head f) f m = Some (first, f', m1) \<and>
    free_list first m1 = Some m' \<and> prioq_inv f' m' P A fs' kept \<and> contents m' kept = contents m kept \<and>
    (\<forall>p\<in>P. set (fs' p) = set (fs p) \<union> (A p \<inter> set (entry_cells gone)))"
proof -
  note i = assms(1) [unfolded prioq_inv_def]
  have "path (next_of m) (pq_head f) (map fst qs) 0" using i by (simp add: prioq_list_def)
  from path_start [OF this] have "collecting f m [] (map fst qs) [] 0 0 0 (pq_head f)" using i by (simp add: collecting_def)
  from prioq_collect_splits [OF this, of match] obtain first f' m1 where c:
    "prioq_collect match 0 0 0 (pq_head f) f m = Some (first, f', m1)" "prioq_list f' m1 (map fst kept)"
    "path (next_of m1) first (map fst gone) 0" "relinked m m1 (set (map fst qs))"
    by (auto simp: filter_map comp_def kept_def gone_def)
  note p = pools_inv_relinked [OF assms(1) c(4)]
  have d: "distinct (entry_cells qs)" using i by blast
  have gone: "linked m1 gone" "distinct (entry_cells gone)" "\<forall>q\<in>set gone. owned P A fs q"
    using p(2) i entry_cells_filter(1) [OF d] by (auto simp: gone_def linked_def)
  from free_list_pools [OF p(1) c(3) gone] obtain m' fs' where m': "free_list first m1 = Some m'" "pools_inv m' P A fs'"
    "\<forall>p\<in>P. set (fs' p) = set (fs p) \<union> (A p \<inter> set (entry_cells gone))"
    "\<forall>b. b \<notin> set (entry_cells gone) \<longrightarrow> cells m' b = cells m1 b" by blast
  have dis: "set (entry_cells gone) \<inter> set (entry_cells kept) = {}" "distinct (entry_cells kept)"
    using entry_cells_filter(1,3) [OF d] by (auto simp: kept_def gone_def)
  have same: "cells m' b = cells m1 b" if "b \<in> set (entry_cells kept)" for b using m'(4) dis(1) that by blast
  have heads: "cells m' b = cells m1 b" if "b \<in> set (map fst kept)" for b using same map_fst_entry_cells [of kept] that by blast
  have lk: "linked m1 kept" "contents m1 kept = contents m kept"
    using p(2,3) by (auto simp: linked_def contents_def kept_def)
  have "linked m' kept" "contents m' kept = contents m1 kept"
    using entries_frame [OF lk(1) dis(2), of m'] same heads by (simp_all add: event_of_def)
  moreover have "prioq_list f' m' (map fst kept)"
    using c(2) path_cong [of "map fst kept" "next_of m'" "next_of m1"] heads by (simp add: prioq_list_def next_of_def)
  moreover have "owned P A fs' q" if "q \<in> set kept" for q
  proof -
    obtain c xs where q: "q = (c, xs)" by fastforce
    have "set (c # xs) \<subseteq> set (entry_cells kept)" using fst_in_entry_cells [of c xs kept] that q by auto
    moreover have "owned P A fs q" using i that by (simp add: kept_def)
    ultimately show ?thesis using m'(3) dis(1) unfolding owned_def q prod.case by blast
  qed
  ultimately have "prioq_inv f' m' P A fs' kept" "contents m' kept = contents m kept"
    using m'(2) lk(2) dis(2) by (simp_all add: prioq_inv_def)
  then show ?thesis using c(1) m'(1,3) by blast
qed

text \<open>
  C29. When a client leaves, exactly its events (and on request the stamped ones) are taken out of a queue.
  The others stay, in order and with unchanged contents, and every cell of the removed events, their
  chains included, is back on the free list of its own pool, with the counters right.
\<close>

theorem prioq_leave_frees:
  assumes "prioq_inv f m P A fs qs"
  shows "\<exists>f' m' fs'. snd_seq_prioq_leave client timestamp f m = Some (f', m') \<and>
    (let kept = filter (\<lambda>q. \<not> prioq_match client timestamp (event_of m (fst q))) qs;
         gone = filter (\<lambda>q. prioq_match client timestamp (event_of m (fst q))) qs
     in prioq_inv f' m' P A fs' kept \<and> contents m' kept = contents m kept \<and>
        (\<forall>p\<in>P. set (fs' p) = set (fs p) \<union> (A p \<inter> set (entry_cells gone))))"
proof -
  from prioq_removal [OF assms, of "prioq_match client timestamp"] obtain first f' m1 m' fs' where
    "prioq_collect (prioq_match client timestamp) 0 0 0 (pq_head f) f m = Some (first, f', m1)"
    "free_list first m1 = Some m'"
    "prioq_inv f' m' P A fs' (filter (\<lambda>q. \<not> prioq_match client timestamp (event_of m (fst q))) qs)"
    "contents m' (filter (\<lambda>q. \<not> prioq_match client timestamp (event_of m (fst q))) qs) =
     contents m (filter (\<lambda>q. \<not> prioq_match client timestamp (event_of m (fst q))) qs)"
    "\<forall>p\<in>P. set (fs' p) = set (fs p) \<union> (A p \<inter> set (entry_cells (filter (\<lambda>q. prioq_match client timestamp (event_of m (fst q))) qs)))"
    by blast
  then show ?thesis unfolding Let_def by (intro exI [of _ f'] exI [of _ m'] exI [of _ fs']) (simp add: snd_seq_prioq_leave_def)
qed

text \<open>Two cells of one pool in a queue, from different clients.\<close>

definition queued_mem :: seq_mem where
  "queued_mem = \<lparr>cells = (\<lambda>a. \<lparr>cell_event = (stamped (a div 16))\<lparr>ev_source := (if a = 0x20 then 1 else 3, 0)\<rparr>,
       cell_bytes = [], cell_pool = 0, cell_next = (if a = 0x20 then 0x30 else 0)\<rparr>),
     pools = (\<lambda>_. (snd_seq_pool_new 2)\<lparr>pool_ptr := 0x20, total_elements := 2, counter := 2\<rparr>)\<rparr>"

theorem prioq_leave_frees_witness:
  "\<exists>f' m' fs'. snd_seq_prioq_leave 1 False \<lparr>pq_head = 0x20, pq_tail = 0x30, pq_cells = 2\<rparr> queued_mem = Some (f', m') \<and>
    (let kept = filter (\<lambda>q. \<not> prioq_match 1 False (event_of queued_mem (fst q))) [(0x20, []), (0x30, [])];
         gone = filter (\<lambda>q. prioq_match 1 False (event_of queued_mem (fst q))) [(0x20, []), (0x30, [])]
     in prioq_inv f' m' {0} (\<lambda>_. {0x20, 0x30}) fs' kept \<and> contents m' kept = contents queued_mem kept \<and>
        (\<forall>p\<in>{0}. set (fs' p) = set [] \<union> ({0x20, 0x30} \<inter> set (entry_cells gone))))"
  by (rule prioq_leave_frees [where fs = "\<lambda>_. []"])
    (simp add: prioq_inv_def prioq_list_def linked_def chain_def has_chain_def pools_inv_def pool_inv_def owned_def
      queued_mem_def event_of_def next_of_def stamped_def snd_seq_ev_is_variable_def snd_seq_pool_new_def)

end
