(* ===== verification/SeqMidiEvent.thy ===== *)
theory SeqMidiEvent
  imports SeqPool "HOL-Library.Monad_Syntax"
begin

text \<open>
  The coder between MIDI bytes and sequencer events, \<^verbatim>\<open>core/seq/seq_midi_event.c\<close>. The input buffer of the
  parser is a list of \<^verbatim>\<open>bufsize\<close> bytes; reading or writing outside it is \<open>None\<close>. The fields of the event data
  that the coder uses are bytes of the first word (\<^verbatim>\<open>note.channel\<close>, \<^verbatim>\<open>note.note\<close>, \<^verbatim>\<open>note.velocity\<close>, and
  \<^verbatim>\<open>control.channel\<close> at the same place) and the other two words (\<^verbatim>\<open>control.param\<close>, \<^verbatim>\<open>control.value\<close>).
\<close>

section \<open>Event data\<close>

definition data_byte :: "nat \<Rightarrow> seq_event \<Rightarrow> u8" where
  "data_byte i e = ucast (drop_bit (8 * i) (fst (ev_data e)))"

definition set_data_byte :: "nat \<Rightarrow> u8 \<Rightarrow> seq_event \<Rightarrow> seq_event" where
  "set_data_byte i b e =
     e\<lparr>ev_data := ((fst (ev_data e) AND NOT (push_bit (8 * i) 0xff)) OR push_bit (8 * i) (ucast b), snd (ev_data e))\<rparr>"

definition ctrl_param :: "seq_event \<Rightarrow> u32" where
  "ctrl_param e = fst (snd (ev_data e))"

definition ctrl_value :: "seq_event \<Rightarrow> u32" where
  "ctrl_value e = snd (snd (ev_data e))"

definition set_param :: "u32 \<Rightarrow> seq_event \<Rightarrow> seq_event" where
  "set_param v e = e\<lparr>ev_data := (fst (ev_data e), v, snd (snd (ev_data e)))\<rparr>"

definition set_value :: "u32 \<Rightarrow> seq_event \<Rightarrow> seq_event" where
  "set_value v e = e\<lparr>ev_data := (fst (ev_data e), fst (snd (ev_data e)), v)\<rparr>"

section \<open>Encoders and decoders of one message\<close>

definition buf_at :: "u8 list \<Rightarrow> nat \<Rightarrow> u8 option" where
  "buf_at buf i = (if i < length buf then Some (buf ! i) else None)"

definition note_event :: "u8 list \<Rightarrow> seq_event \<Rightarrow> seq_event option" where
  "note_event buf ev = do {
     b0 \<leftarrow> buf_at buf 0; b1 \<leftarrow> buf_at buf 1; b2 \<leftarrow> buf_at buf 2;
     Some (set_data_byte 2 b2 (set_data_byte 1 b1 (set_data_byte 0 (b0 AND 0x0f) ev))) }"

definition one_param_ctrl_event :: "u8 list \<Rightarrow> seq_event \<Rightarrow> seq_event option" where
  "one_param_ctrl_event buf ev = do {
     b0 \<leftarrow> buf_at buf 0; b1 \<leftarrow> buf_at buf 1;
     Some (set_value (ucast b1) (set_data_byte 0 (b0 AND 0x0f) ev)) }"

definition pitchbend_ctrl_event :: "u8 list \<Rightarrow> seq_event \<Rightarrow> seq_event option" where
  "pitchbend_ctrl_event buf ev = do {
     b0 \<leftarrow> buf_at buf 0; b1 \<leftarrow> buf_at buf 1; b2 \<leftarrow> buf_at buf 2;
     Some (set_value (ucast b2 * 128 + ucast b1 - 8192) (set_data_byte 0 (b0 AND 0x0f) ev)) }"

definition two_param_ctrl_event :: "u8 list \<Rightarrow> seq_event \<Rightarrow> seq_event option" where
  "two_param_ctrl_event buf ev = do {
     b0 \<leftarrow> buf_at buf 0; b1 \<leftarrow> buf_at buf 1; b2 \<leftarrow> buf_at buf 2;
     Some (set_value (ucast b2) (set_param (ucast b1) (set_data_byte 0 (b0 AND 0x0f) ev))) }"

definition one_param_event :: "u8 list \<Rightarrow> seq_event \<Rightarrow> seq_event option" where
  "one_param_event buf ev = do { b1 \<leftarrow> buf_at buf 1; Some (set_value (ucast b1) ev) }"

definition songpos_event :: "u8 list \<Rightarrow> seq_event \<Rightarrow> seq_event option" where
  "songpos_event buf ev = do {
     b1 \<leftarrow> buf_at buf 1; b2 \<leftarrow> buf_at buf 2; Some (set_value (ucast b2 * 128 + ucast b1) ev) }"

definition note_decode :: "seq_event \<Rightarrow> u8 list" where
  "note_decode ev = [data_byte 1 ev AND 0x7f, data_byte 2 ev AND 0x7f]"

definition one_param_decode :: "seq_event \<Rightarrow> u8 list" where
  "one_param_decode ev = [ucast (ctrl_value ev AND 0x7f)]"

definition pitchbend_decode :: "seq_event \<Rightarrow> u8 list" where
  "pitchbend_decode ev =
     (let value = ctrl_value ev + 8192
      in [ucast (value AND 0x7f), ucast (signed_drop_bit 7 value AND 0x7f)])"

definition two_param_decode :: "seq_event \<Rightarrow> u8 list" where
  "two_param_decode ev = [ucast (ctrl_param ev AND 0x7f), ucast (ctrl_value ev AND 0x7f)]"

definition songpos_decode :: "seq_event \<Rightarrow> u8 list" where
  "songpos_decode ev = [ucast (ctrl_value ev AND 0x7f), ucast (signed_drop_bit 7 (ctrl_value ev) AND 0x7f)]"

section \<open>The table of messages\<close>

record status_entry =
  se_event :: u8
  se_qlen :: int
  se_encode :: "(u8 list \<Rightarrow> seq_event \<Rightarrow> seq_event option) option"
  se_decode :: "(seq_event \<Rightarrow> u8 list) option"

abbreviation (input) EVENT_NONE :: u8 where "EVENT_NONE \<equiv> 255"
abbreviation (input) EVENT_SYSEX :: u8 where "EVENT_SYSEX \<equiv> 130"
abbreviation (input) ST_INVALID :: nat where "ST_INVALID \<equiv> 7"
abbreviation (input) ST_SPECIAL :: nat where "ST_SPECIAL \<equiv> 8"

definition status_none :: status_entry where
  "status_none = \<lparr>se_event = EVENT_NONE, se_qlen = - 1, se_encode = None, se_decode = None\<rparr>"

definition status_event :: "status_entry list" where
  "status_event =
    [\<lparr>se_event = 7, se_qlen = 2, se_encode = Some note_event, se_decode = Some note_decode\<rparr>,
     \<lparr>se_event = 6, se_qlen = 2, se_encode = Some note_event, se_decode = Some note_decode\<rparr>,
     \<lparr>se_event = 8, se_qlen = 2, se_encode = Some note_event, se_decode = Some note_decode\<rparr>,
     \<lparr>se_event = 10, se_qlen = 2, se_encode = Some two_param_ctrl_event, se_decode = Some two_param_decode\<rparr>,
     \<lparr>se_event = 11, se_qlen = 1, se_encode = Some one_param_ctrl_event, se_decode = Some one_param_decode\<rparr>,
     \<lparr>se_event = 12, se_qlen = 1, se_encode = Some one_param_ctrl_event, se_decode = Some one_param_decode\<rparr>,
     \<lparr>se_event = 13, se_qlen = 2, se_encode = Some pitchbend_ctrl_event, se_decode = Some pitchbend_decode\<rparr>,
     status_none,
     \<lparr>se_event = EVENT_SYSEX, se_qlen = 1, se_encode = None, se_decode = None\<rparr>,
     \<lparr>se_event = 22, se_qlen = 1, se_encode = Some one_param_event, se_decode = Some one_param_decode\<rparr>,
     \<lparr>se_event = 20, se_qlen = 2, se_encode = Some songpos_event, se_decode = Some songpos_decode\<rparr>,
     \<lparr>se_event = 21, se_qlen = 1, se_encode = Some one_param_event, se_decode = Some one_param_decode\<rparr>,
     status_none,
     status_none,
     \<lparr>se_event = 40, se_qlen = 0, se_encode = None, se_decode = None\<rparr>,
     status_none,
     \<lparr>se_event = 36, se_qlen = 0, se_encode = None, se_decode = None\<rparr>,
     status_none,
     \<lparr>se_event = 30, se_qlen = 0, se_encode = None, se_decode = None\<rparr>,
     \<lparr>se_event = 31, se_qlen = 0, se_encode = None, se_decode = None\<rparr>,
     \<lparr>se_event = 32, se_qlen = 0, se_encode = None, se_decode = None\<rparr>,
     status_none,
     \<lparr>se_event = 42, se_qlen = 0, se_encode = None, se_decode = None\<rparr>,
     \<lparr>se_event = 41, se_qlen = 0, se_encode = None, se_decode = None\<rparr>]"

section \<open>The coder\<close>

text \<open>\<open>me_ptr\<close> is the address of the buffer, \<open>me_buf\<close> its contents.\<close>

record midi_event =
  me_qlen :: int
  me_read :: nat
  me_type :: nat
  me_lastcmd :: u8
  me_nostat :: bool
  me_bufsize :: int
  me_ptr :: u32
  me_buf :: "u8 list"

text \<open>\<open>mem\<close> is the buffer \<^verbatim>\<open>kmalloc\<close> gives, with what it happens to hold; \<open>None\<close> when there is no memory.\<close>

definition snd_midi_event_new :: "int \<Rightarrow> (u32 \<times> u8 list) option \<Rightarrow> int \<times> midi_event option" where
  "snd_midi_event_new bufsize mem =
     (let dev = (\<lambda>ptr buf. \<lparr>me_qlen = 0, me_read = 0, me_type = ST_INVALID, me_lastcmd = 0xff, me_nostat = False,
                    me_bufsize = bufsize, me_ptr = ptr, me_buf = buf\<rparr>)
      in if bufsize > 0 then
           (case mem of None \<Rightarrow> (- ENOMEM, None) | Some (ptr, buf) \<Rightarrow> (0, Some (dev ptr (take (nat bufsize) buf))))
         else (0, Some (dev 0 [])))"

definition reset_encode :: "midi_event \<Rightarrow> midi_event" where
  "reset_encode dev = dev\<lparr>me_read := 0, me_qlen := 0, me_type := ST_INVALID\<rparr>"

definition snd_midi_event_reset_decode :: "midi_event \<Rightarrow> midi_event" where
  "snd_midi_event_reset_decode dev = dev\<lparr>me_lastcmd := 0xff\<rparr>"

definition snd_midi_event_no_status :: "bool \<Rightarrow> midi_event \<Rightarrow> midi_event" where
  "snd_midi_event_no_status on dev = dev\<lparr>me_nostat := on\<rparr>"

definition fixed_event :: "u8 \<Rightarrow> seq_event \<Rightarrow> seq_event" where
  "fixed_event type ev = ev\<lparr>ev_type := type, ev_flags := ev_flags ev AND NOT 12\<rparr>"

text \<open>The byte is stored: a new command, the rest of one, or running status.\<close>

definition store_byte :: "u8 \<Rightarrow> midi_event \<Rightarrow> midi_event option" where
  "store_byte c dev =
     (if c AND 0x80 \<noteq> 0 \<and> (c \<noteq> 0xf7 \<or> me_type dev \<noteq> ST_SPECIAL) then
        if me_buf dev = [] then None
        else
          let type = (if c AND 0xf0 = 0xf0 then unat (c AND 0x0f) + ST_SPECIAL else unat (drop_bit 4 c AND 7))
          in Some (dev\<lparr>me_buf := (me_buf dev)[0 := c], me_type := type, me_read := 1,
                       me_qlen := se_qlen (status_event ! type)\<rparr>)
      else if me_qlen dev > 0 then
        if me_read dev < length (me_buf dev)
        then Some (dev\<lparr>me_buf := (me_buf dev)[me_read dev := c], me_read := Suc (me_read dev),
                       me_qlen := (if me_type dev \<noteq> ST_SPECIAL then me_qlen dev - 1 else me_qlen dev)\<rparr>)
        else None
      else if 1 < length (me_buf dev)
      then Some (dev\<lparr>me_buf := (me_buf dev)[1 := c], me_qlen := se_qlen (status_event ! me_type dev) - 1, me_read := 2\<rparr>)
      else None)"

definition sysex_event :: "midi_event \<Rightarrow> seq_event \<Rightarrow> seq_event" where
  "sysex_event dev ev =
     set_ext (of_nat (me_read dev)) (me_ptr dev) (ev\<lparr>ev_flags := (ev_flags ev AND NOT 12) OR 4, ev_type := EVENT_SYSEX\<rparr>)"

definition finish_byte :: "u8 \<Rightarrow> midi_event \<Rightarrow> seq_event \<Rightarrow> (bool \<times> midi_event \<times> seq_event) option" where
  "finish_byte c dev ev =
     (if me_qlen dev = 0 then
        let st = status_event ! me_type dev; ev = fixed_event (se_event st) ev
        in case (case se_encode st of Some f \<Rightarrow> f (me_buf dev) ev | None \<Rightarrow> Some ev) of
             None \<Rightarrow> None
           | Some ev \<Rightarrow> Some (True, if me_type dev \<ge> ST_SPECIAL then dev\<lparr>me_type := ST_INVALID\<rparr> else dev, ev)
      else if me_type dev = ST_SPECIAL \<and> (c = 0xf7 \<or> int (me_read dev) \<ge> me_bufsize dev)
      then Some (True, if c \<noteq> 0xf7 then dev\<lparr>me_read := 0\<rparr> else reset_encode dev, sysex_event dev ev)
      else Some (False, dev, ev))"

definition snd_midi_event_encode_byte :: "u8 \<Rightarrow> midi_event \<Rightarrow> seq_event \<Rightarrow> (bool \<times> midi_event \<times> seq_event) option" where
  "snd_midi_event_encode_byte c dev ev =
     (if c \<ge> 0xf8 then
        let ev = fixed_event (se_event (status_event ! (ST_SPECIAL + unat c - 0xf0))) ev
        in Some (ev_type ev \<noteq> EVENT_NONE, dev, ev)
      else Option.bind (store_byte c dev) (\<lambda>dev. finish_byte c dev ev))"

text \<open>Events back to bytes. The result is the status, the bytes written and the coder.\<close>

fun find_event :: "u8 \<Rightarrow> nat \<Rightarrow> status_entry list \<Rightarrow> nat option" where
  "find_event t i [] = None"
| "find_event t i (s # ss) = (if t = se_event s then Some i else find_event t (Suc i) ss)"

text \<open>\<open>space\<close> is the argument \<^verbatim>\<open>count\<close>.\<close>

definition extra_decode_ctrl14 :: "int \<Rightarrow> midi_event \<Rightarrow> seq_event \<Rightarrow> int \<times> u8 list \<times> midi_event" where
  "extra_decode_ctrl14 space dev ev =
     (let cmd = 0xb0 OR (data_byte 0 ev AND 0x0f);
          status = (cmd \<noteq> me_lastcmd dev \<or> me_nostat dev);
          param = ctrl_param ev; value = ctrl_value ev
      in if param < 0x20 then
           if space < 4 then (- ENOMEM, [], dev)
           else if me_nostat dev \<and> space < 6 then (- ENOMEM, [], dev)
           else if status \<and> space < 5 then (- ENOMEM, [], dev)
           else
             let bytes = (if status then [cmd] else []) @
                   [ucast param, ucast (signed_drop_bit 7 value AND 0x7f)] @
                   (if me_nostat dev then [cmd] else []) @
                   [ucast (param + 0x20), ucast (value AND 0x7f)]
             in (int (length bytes), bytes, if status then dev\<lparr>me_lastcmd := cmd\<rparr> else dev)
         else if space < 2 then (- ENOMEM, [], dev)
         else if status \<and> space < 3 then (- ENOMEM, [], dev)
         else
           let bytes = (if status then [cmd] else []) @ [ucast (param AND 0x7f), ucast (value AND 0x7f)]
           in (int (length bytes), bytes, if status then dev\<lparr>me_lastcmd := cmd\<rparr> else dev))"

definition extra_decode_xrpn :: "int \<Rightarrow> midi_event \<Rightarrow> seq_event \<Rightarrow> int \<times> u8 list \<times> midi_event" where
  "extra_decode_xrpn space dev ev =
     (if space < 8 then (- ENOMEM, [], dev)
      else if me_nostat dev \<and> space < 12 then (- ENOMEM, [], dev)
      else
        let cmd = 0xb0 OR (data_byte 0 ev AND 0x0f);
            bytes = [ucast (drop_bit 7 (ctrl_param ev AND 0x3f80)), ucast (ctrl_param ev AND 0x7f),
                     ucast (signed_drop_bit 7 (ctrl_value ev AND 0x3f80)), ucast (ctrl_value ev AND 0x7f)];
            cbytes = (if ev_type ev = 15 then [0x63, 0x62, 0x06, 0x26] else [0x65, 0x64, 0x06, 0x26]);
            status = (cmd \<noteq> me_lastcmd dev \<and> \<not> me_nostat dev)
        in if status \<and> space < 9 then (- ENOMEM, [], dev)
           else
             let out = (if status then [cmd] else []) @
                   concat (map (\<lambda>(c, b). (if me_nostat dev then [cmd] else []) @ [c, b]) (zip cbytes bytes))
             in (int (length out), out, if status \<or> me_nostat dev then dev\<lparr>me_lastcmd := cmd\<rparr> else dev))"

definition status_byte :: "nat \<Rightarrow> seq_event \<Rightarrow> u8" where
  "status_byte type ev =
     (if type \<ge> ST_SPECIAL then 0xf0 + of_nat (type - ST_SPECIAL)
      else 0x80 OR push_bit 4 (of_nat type) OR (data_byte 0 ev AND 0x0f))"

definition decode_fixed :: "nat \<Rightarrow> int \<Rightarrow> midi_event \<Rightarrow> seq_event \<Rightarrow> int \<times> u8 list \<times> midi_event" where
  "decode_fixed type space dev ev =
     (let cmd = status_byte type ev; st = status_event ! type;
          args = (case se_decode st of Some f \<Rightarrow> f ev | None \<Rightarrow> []);
          status = (cmd AND 0xf0 = 0xf0 \<or> me_lastcmd dev \<noteq> cmd \<or> me_nostat dev);
          dev = (if status then dev\<lparr>me_lastcmd := cmd\<rparr> else dev);
          qlen = (if status then se_qlen st + 1 else se_qlen st)
      in if space < qlen then (- ENOMEM, [], dev)
         else (qlen, take (nat qlen) ((if status then [cmd] else []) @ args), dev))"

text \<open>\<open>data\<close>, \<open>bad\<close>, \<open>m\<close>: the memory a variable-length event refers to.\<close>

definition snd_midi_event_decode ::
  "u8 list \<Rightarrow> (nat \<Rightarrow> bool) \<Rightarrow> seq_mem \<Rightarrow> int \<Rightarrow> midi_event \<Rightarrow> seq_event \<Rightarrow> int \<times> u8 list \<times> midi_event" where
  "snd_midi_event_decode data bad m space dev ev =
     (if ev_type ev = EVENT_NONE then (- ENOENT, [], dev)
      else
        case find_event (ev_type ev) 0 status_event of
          None \<Rightarrow>
            if ev_type ev = 14 then extra_decode_ctrl14 space dev ev
            else if ev_type ev = 15 \<or> ev_type ev = 16 then extra_decode_xrpn space dev ev
            else (- ENOENT, [], dev)
        | Some type \<Rightarrow>
            if status_byte type ev = 0xf0 then
              let (n, bytes) = snd_seq_expand_var_event ev data bad space True (\<lambda>_. False) 0 m
              in (n, bytes, snd_midi_event_reset_decode dev)
            else decode_fixed type space dev ev)"

section \<open>The parser stays inside its buffer\<close>

definition coder_ok :: "midi_event \<Rightarrow> bool" where
  "coder_ok dev \<longleftrightarrow> me_bufsize dev = int (length (me_buf dev)) \<and> 3 \<le> length (me_buf dev) \<and> me_type dev < 24 \<and>
     (if me_type dev = ST_SPECIAL then me_qlen dev = 1 \<and> me_read dev < length (me_buf dev)
      else me_qlen dev \<le> 2 \<and> (me_qlen dev > 0 \<longrightarrow> int (me_read dev) + me_qlen dev \<le> 3))"

lemma status_event_cases:
  assumes "t < 24"
  shows "se_qlen (status_event ! t) \<le> 2" "\<And>f. se_encode (status_event ! t) = Some f \<Longrightarrow> 3 \<le> length buf \<Longrightarrow> \<exists>ev'. f buf ev = Some ev'"
proof -
  have "length status_event = 24" by (simp add: status_event_def)
  then have in_table: "status_event ! t \<in> set status_event" using assms by simp
  have "\<forall>st\<in>set status_event. se_qlen st \<le> 2" by (simp add: status_event_def status_none_def)
  then show "se_qlen (status_event ! t) \<le> 2" using in_table by blast
  have len: "buf_at buf 0 \<noteq> None" "buf_at buf 1 \<noteq> None" "buf_at buf 2 \<noteq> None" if "3 \<le> length buf"
    using that by (auto simp: buf_at_def)
  have "\<forall>st\<in>set status_event. \<forall>f. se_encode st = Some f \<longrightarrow> 3 \<le> length buf \<longrightarrow> (\<exists>ev'. f buf ev = Some ev')"
    by (simp add: status_event_def status_none_def note_event_def one_param_ctrl_event_def pitchbend_ctrl_event_def
        two_param_ctrl_event_def one_param_event_def songpos_event_def) (use len in auto)
  then show "\<And>f. se_encode (status_event ! t) = Some f \<Longrightarrow> 3 \<le> length buf \<Longrightarrow> \<exists>ev'. f buf ev = Some ev'"
    using in_table by blast
qed

lemma unat_and_le: "unat (x AND y) \<le> unat (y :: 'a::len word)"
  by (metis word_and_le1 word_le_nat_alt)

lemma store_byte_ok:
  assumes "coder_ok dev" "c < 0xf8"
  shows "\<exists>dev'. store_byte c dev = Some dev' \<and> length (me_buf dev') = length (me_buf dev) \<and> me_bufsize dev' = me_bufsize dev \<and>
    me_type dev' < 24 \<and> (me_type dev' = ST_SPECIAL \<longrightarrow> me_qlen dev' = 1 \<and> me_read dev' \<le> length (me_buf dev)) \<and>
    (me_type dev' \<noteq> ST_SPECIAL \<longrightarrow> me_qlen dev' \<le> 2 \<and> (me_qlen dev' > 0 \<longrightarrow> int (me_read dev') + me_qlen dev' \<le> 3))"
proof (cases "c AND 0x80 \<noteq> 0 \<and> (c \<noteq> 0xf7 \<or> me_type dev \<noteq> ST_SPECIAL)")
  case True
  define t where "t = (if c AND 0xf0 = 0xf0 then unat (c AND 0x0f) + ST_SPECIAL else unat (drop_bit 4 c AND 7))"
  have "t < 24" using unat_and_le [where x = c and y = "0x0f"] unat_and_le [where x = "drop_bit 4 c" and y = 7] by (simp add: t_def)
  moreover have "se_qlen (status_event ! 8) = 1" by (simp add: status_event_def)
  ultimately show ?thesis using assms(1) True status_event_cases(1)
    by (auto simp: store_byte_def t_def [symmetric] coder_ok_def Let_def)
next
  case False
  have "se_qlen (status_event ! me_type dev) \<le> 2" using assms(1) by (intro status_event_cases(1)) (simp add: coder_ok_def)
  then show ?thesis using assms(1)
    unfolding store_byte_def if_not_P [OF False] by (auto simp: coder_ok_def split: if_splits)
qed

lemma encode_byte_ok:
  assumes "coder_ok dev"
  shows "\<exists>rc dev' ev'. snd_midi_event_encode_byte c dev ev = Some (rc, dev', ev') \<and> coder_ok dev' \<and>
    length (me_buf dev') = length (me_buf dev)"
proof (cases "c \<ge> 0xf8")
  case True
  then show ?thesis using assms by (simp add: snd_midi_event_encode_byte_def Let_def)
next
  case False
  then obtain d where d: "store_byte c dev = Some d" "length (me_buf d) = length (me_buf dev)" "me_bufsize d = me_bufsize dev"
    "me_type d < 24" "me_type d = ST_SPECIAL \<longrightarrow> me_qlen d = 1 \<and> me_read d \<le> length (me_buf dev)"
    "me_type d \<noteq> ST_SPECIAL \<longrightarrow> me_qlen d \<le> 2 \<and> (me_qlen d > 0 \<longrightarrow> int (me_read d) + me_qlen d \<le> 3)"
    using store_byte_ok [OF assms, of c] by (auto simp: not_le)
  have c: "me_bufsize dev = int (length (me_buf dev))" "3 \<le> length (me_buf dev)" using assms by (simp_all add: coder_ok_def)
  have "\<exists>rc dev' ev'. finish_byte c d ev = Some (rc, dev', ev') \<and> coder_ok dev' \<and> length (me_buf dev') = length (me_buf d)"
  proof (cases "me_qlen d = 0")
    case True
    obtain ev' where "(case se_encode (status_event ! me_type d) of
        Some f \<Rightarrow> f (me_buf d) (fixed_event (se_event (status_event ! me_type d)) ev)
      | None \<Rightarrow> Some (fixed_event (se_event (status_event ! me_type d)) ev)) = Some ev'"
      using status_event_cases(2) [OF d(4), where buf = "me_buf d"] c(2) d(2) by (cases "se_encode (status_event ! me_type d)") auto
    then show ?thesis using True d(2-6) c by (auto simp: finish_byte_def Let_def coder_ok_def)
  next
    case False
    then show ?thesis using d(2-6) c by (auto simp: finish_byte_def coder_ok_def reset_encode_def)
  qed
  then show ?thesis using False d(1,2) by (simp add: snd_midi_event_encode_byte_def)
qed

text \<open>
  A stream of bytes: the events, with their data, in the order in which they are complete. The caller
  keeps one event record.
\<close>

fun run_encode :: "u8 list \<Rightarrow> midi_event \<Rightarrow> seq_event \<Rightarrow> ((seq_event \<times> u8 list) list \<times> midi_event \<times> seq_event) option" where
  "run_encode [] dev ev = Some ([], dev, ev)"
| "run_encode (c # cs) dev ev =
     (case snd_midi_event_encode_byte c dev ev of
        None \<Rightarrow> None
      | Some (rc, dev', ev') \<Rightarrow>
          map_option (\<lambda>(outs, r). (if rc then (ev', if snd_seq_ev_is_variable ev' then take (var_len ev') (me_buf dev') else []) # outs
                                    else outs, r))
            (run_encode cs dev' ev'))"

lemma run_encode_ok:
  "coder_ok dev \<Longrightarrow> \<exists>outs dev' ev'. run_encode cs dev ev = Some (outs, dev', ev') \<and> coder_ok dev'"
proof (induction cs arbitrary: dev ev)
  case (Cons c cs)
  obtain rc d e where "snd_midi_event_encode_byte c dev ev = Some (rc, d, e)" "coder_ok d"
    using encode_byte_ok [OF Cons.prems] by blast
  moreover from Cons.IH [OF this(2)] obtain outs dev' ev' where "run_encode cs d e = Some (outs, dev', ev')" "coder_ok dev'"
    by blast
  ultimately show ?case by simp
qed simp

lemma run_encode_append:
  assumes "run_encode cs dev ev = Some (outs, dev1, ev1)" "run_encode ds dev1 ev1 = Some (outs2, dev2, ev2)"
  shows "run_encode (cs @ ds) dev ev = Some (outs @ outs2, dev2, ev2)"
  using assms
proof (induction cs arbitrary: dev ev outs)
  case (Cons c cs)
  obtain rc d e where b: "snd_midi_event_encode_byte c dev ev = Some (rc, d, e)"
    using Cons.prems(1) by (cases "snd_midi_event_encode_byte c dev ev") auto
  then obtain rest where r: "run_encode cs d e = Some (rest, dev1, ev1)"
    "outs = (if rc then (e, if snd_seq_ev_is_variable e then take (var_len e) (me_buf d) else []) # rest else rest)"
    using Cons.prems(1) by auto
  show ?case using Cons.IH [OF r(1) Cons.prems(2)] b r(2) by simp
qed simp

section \<open>Bytes and fields\<close>

lemma bit_255: "bit (255 :: int) n \<longleftrightarrow> n < 8"
  using bit_mask_iff [where 'a = int, of 8 n] by (simp add: mask_eq_exp_minus_1)

lemma data_byte_set [simp]:
  assumes "i < 4" "j < 4"
  shows "data_byte i (set_data_byte j b e) = (if i = j then b else data_byte i e)"
proof (rule bit_word_eqI)
  fix n assume "n < LENGTH(8)"
  then have n: "n < 8" by simp
  have high: "\<not> bit b k" if "8 \<le> k" for k using that bit_imp_le_length [of b k] by auto
  have "i \<noteq> j \<Longrightarrow> 8 * j \<le> 8 * i + n \<Longrightarrow> 8 \<le> 8 * i + n - 8 * j" using n by arith
  then show "bit (data_byte i (set_data_byte j b e)) n = bit (if i = j then b else data_byte i e) n"
    using assms n high by (auto simp: data_byte_def set_data_byte_def bit_simps bit_255)
qed

lemma set_data_byte_simps [simp]:
  "ctrl_param (set_data_byte j b e) = ctrl_param e" "ctrl_value (set_data_byte j b e) = ctrl_value e"
  "ev_type (set_data_byte j b e) = ev_type e" "ev_flags (set_data_byte j b e) = ev_flags e"
  by (simp_all add: set_data_byte_def ctrl_param_def ctrl_value_def)

lemma set_ctrl_simps [simp]:
  "ctrl_param (set_param v e) = v" "ctrl_value (set_param v e) = ctrl_value e" "data_byte j (set_param v e) = data_byte j e"
  "ctrl_param (set_value v e) = ctrl_param e" "ctrl_value (set_value v e) = v" "data_byte j (set_value v e) = data_byte j e"
  "ev_type (set_param v e) = ev_type e" "ev_flags (set_param v e) = ev_flags e"
  "ev_type (set_value v e) = ev_type e" "ev_flags (set_value v e) = ev_flags e"
  by (simp_all add: set_param_def set_value_def ctrl_param_def ctrl_value_def data_byte_def)

lemma fixed_event_simps [simp]:
  "ev_type (fixed_event t e) = t" "data_byte j (fixed_event t e) = data_byte j e"
  "ctrl_param (fixed_event t e) = ctrl_param e" "ctrl_value (fixed_event t e) = ctrl_value e"
  "ev_flags (fixed_event t e) = ev_flags e AND NOT 12"
  by (simp_all add: fixed_event_def data_byte_def ctrl_param_def ctrl_value_def)

text \<open>The status byte of a channel message: the command in the high half, the channel in the low one.\<close>

lemma status_bits_table:
  "\<forall>t\<in>set [0..<7]. \<forall>b\<in>set (map of_nat [0..<16]). let c = 0x80 OR push_bit 4 (of_nat t) OR (b :: u8) in
     c AND 0x80 \<noteq> 0 \<and> c AND 0xf0 \<noteq> 0xf0 \<and> unat (drop_bit 4 c AND 7) = t \<and> c AND 0x0f = b \<and> c < 0xf0"
  by code_simp

lemma status_bits:
  fixes ch :: u8
  assumes "t < 7"
  defines "c \<equiv> 0x80 OR push_bit 4 (of_nat t) OR (ch AND 0x0f)"
  shows "c AND 0x80 \<noteq> 0" "c AND 0xf0 \<noteq> 0xf0" "unat (drop_bit 4 c AND 7) = t" "c AND 0x0f = ch AND 0x0f" "c < 0xf0"
proof -
  have "unat (ch AND 0x0f) < 16" using unat_and_le [where x = ch and y = "0x0f"] by simp
  then have "ch AND 0x0f \<in> set (map of_nat [0..<16])" by (auto intro!: image_eqI [of _ _ "unat (ch AND 0x0f)"])
  moreover have "t \<in> set [0..<7]" using assms(1) by simp
  ultimately show "c AND 0x80 \<noteq> 0" "c AND 0xf0 \<noteq> 0xf0" "unat (drop_bit 4 c AND 7) = t" "c AND 0x0f = ch AND 0x0f" "c < 0xf0"
    using status_bits_table unfolding Let_def c_def by blast+
qed

section \<open>Seven-bit values\<close>

lemma and_7f: "(x AND 0x7f :: 'a::len word) = take_bit 7 x"
  using take_bit_eq_mask [of 7 x] by (simp add: mask_eq_exp_minus_1)

lemma unat_7f [simp]: "unat (x AND 0x7f :: 'a::len word) = unat x mod 128"
  unfolding and_7f by (subst unsigned_take_bit_eq) (simp add: take_bit_eq_mod)

lemma signed_drop_7f: "signed_drop_bit 7 v AND 0x7f = drop_bit 7 (v :: u32) AND 0x7f"
  unfolding and_7f by (rule bit_word_eqI) (auto simp: bit_simps)

lemma unat_byte_7f [simp]: "unat (ucast (v AND 0x7f :: u32) :: u8) = unat v mod 128"
  by (simp add: unat_ucast_mod)

lemma unat_high_7f [simp]: "unat (signed_drop_bit 7 v :: u32) mod 128 = unat v div 128 mod 128"
  using arg_cong [OF signed_drop_7f [of v], of unat] by (simp add: unat_drop_bit)

lemma unat_ucast_u32 [simp]: "unat (ucast (b :: u8) :: u32) = unat b"
  by (rule unat_ucast_up) simp

lemma unat_eqI: "unat x = unat y \<Longrightarrow> x = (y :: 'a::len word)"
  by (simp add: word_unat_eq_iff)

lemma seven_bits:
  "x < 0x80 \<Longrightarrow> (x :: u8) AND 0x7f = x"
  "v < 0x80 \<Longrightarrow> ucast (ucast (v AND 0x7f) :: u8) = (v :: u32)"
  by (rule unat_eqI, simp add: word_less_nat_alt)+

lemma fourteen_bits:
  assumes "v < 0x4000"
  shows "ucast (ucast (signed_drop_bit 7 v AND 0x7f) :: u8) * 128 + ucast (ucast (v AND 0x7f) :: u8) = (v :: u32)"
proof (rule unat_eqI)
  have v: "unat v < 16384" using assms by (simp add: word_less_nat_alt)
  have "unat (ucast (ucast (signed_drop_bit 7 v AND 0x7f) :: u8) * 128 + ucast (ucast (v AND 0x7f) :: u8) :: u32) =
      (unat v div 128 mod 128) * 128 + unat v mod 128"
    by (subst unat_add32; simp add: unat_mult32)
  then show "unat (ucast (ucast (signed_drop_bit 7 v AND 0x7f) :: u8) * 128 + ucast (ucast (v AND 0x7f) :: u8) :: u32) = unat v"
    using v by simp
qed

lemma data_bytes:
  assumes "unat (x :: u8) < 128"
  shows "x AND 0x80 = 0"
proof -
  have "x = take_bit 7 x"
    by (rule unat_eqI) (subst unsigned_take_bit_eq, use assms in \<open>simp add: take_bit_eq_mod\<close>)
  then have "\<not> bit x 7" by (metis bit_take_bit_iff less_irrefl)
  then show ?thesis using and_exp_eq_0_iff_not_bit [of x 7] by simp
qed

section \<open>One message\<close>

text \<open>The fields a MIDI message carries.\<close>

definition midi_message :: "seq_event \<Rightarrow> u8 \<times> u32 list" where
  "midi_message ev =
     (ev_type ev,
      if ev_type ev \<in> {6, 7, 8} then [ucast (data_byte 0 ev), ucast (data_byte 1 ev), ucast (data_byte 2 ev)]
      else if ev_type ev = 10 then [ucast (data_byte 0 ev), ctrl_param ev, ctrl_value ev]
      else if ev_type ev \<in> {11, 12, 13} then [ucast (data_byte 0 ev), ctrl_value ev]
      else if ev_type ev \<in> {20, 21, 22} then [ctrl_value ev]
      else [])"

text \<open>An event that has a MIDI message of fixed length, with its parameters in range.\<close>

definition midi_valid :: "seq_event \<Rightarrow> bool" where
  "midi_valid ev \<longleftrightarrow>
     (if ev_type ev \<in> {6, 7, 8} then data_byte 0 ev < 16 \<and> data_byte 1 ev < 0x80 \<and> data_byte 2 ev < 0x80
      else if ev_type ev = 10 then data_byte 0 ev < 16 \<and> ctrl_param ev < 0x80 \<and> ctrl_value ev < 0x80
      else if ev_type ev \<in> {11, 12} then data_byte 0 ev < 16 \<and> ctrl_value ev < 0x80
      else if ev_type ev = 13 then data_byte 0 ev < 16 \<and> ctrl_value ev + 8192 < 0x4000
      else if ev_type ev = 20 then ctrl_value ev < 0x4000
      else if ev_type ev \<in> {21, 22} then ctrl_value ev < 0x80
      else ev_type ev \<in> {30, 31, 32, 36, 40, 41, 42})"

text \<open>Its place in the table.\<close>

definition midi_index :: "seq_event \<Rightarrow> nat" where
  "midi_index ev = the (find_event (ev_type ev) 0 status_event)"

lemma channel_and_15: "(b :: u8) < 16 \<Longrightarrow> b AND 0x0f = b"
proof -
  assume "b < 16"
  have "b AND 0x0f = take_bit 4 b" using take_bit_eq_mask [of 4 b] by (simp add: mask_eq_exp_minus_1)
  also have "\<dots> = b"
    by (rule unat_eqI) (subst unsigned_take_bit_eq, use \<open>b < 16\<close> in \<open>simp add: take_bit_eq_mod word_less_nat_alt\<close>)
  finally show ?thesis .
qed

lemma fixed_not_variable: "ev_flags e = f AND NOT 12 \<Longrightarrow> \<not> snd_seq_ev_is_variable e"
  by (simp add: snd_seq_ev_is_variable_def and.assoc)

text \<open>Every valid event has an entry; its decoder gives as many data bytes as the entry says.\<close>

lemma midi_valid_entry:
  assumes "midi_valid ev"
  shows "find_event (ev_type ev) 0 status_event = Some (midi_index ev)" "midi_index ev < 24" "midi_index ev \<noteq> 8"
    "se_event (status_event ! midi_index ev) = ev_type ev" "ev_type ev \<noteq> EVENT_NONE"
proof -
  have "ev_type ev \<in> {6, 7, 8, 10, 11, 12, 13, 20, 21, 22, 30, 31, 32, 36, 40, 41, 42}"
    using assms by (auto simp: midi_valid_def split: if_splits)
  then show "find_event (ev_type ev) 0 status_event = Some (midi_index ev)" "midi_index ev < 24" "midi_index ev \<noteq> 8"
    "se_event (status_event ! midi_index ev) = ev_type ev" "ev_type ev \<noteq> EVENT_NONE"
    by (auto simp: midi_index_def status_event_def status_none_def)
qed

text \<open>The entries of the table, one by one.\<close>

lemma status_entries:
  "status_event ! 0 = \<lparr>se_event = 7, se_qlen = 2, se_encode = Some note_event, se_decode = Some note_decode\<rparr>"
  "status_event ! Suc 0 = \<lparr>se_event = 6, se_qlen = 2, se_encode = Some note_event, se_decode = Some note_decode\<rparr>"
  "status_event ! 2 = \<lparr>se_event = 8, se_qlen = 2, se_encode = Some note_event, se_decode = Some note_decode\<rparr>"
  "status_event ! 3 = \<lparr>se_event = 10, se_qlen = 2, se_encode = Some two_param_ctrl_event, se_decode = Some two_param_decode\<rparr>"
  "status_event ! 4 = \<lparr>se_event = 11, se_qlen = 1, se_encode = Some one_param_ctrl_event, se_decode = Some one_param_decode\<rparr>"
  "status_event ! 5 = \<lparr>se_event = 12, se_qlen = 1, se_encode = Some one_param_ctrl_event, se_decode = Some one_param_decode\<rparr>"
  "status_event ! 6 = \<lparr>se_event = 13, se_qlen = 2, se_encode = Some pitchbend_ctrl_event, se_decode = Some pitchbend_decode\<rparr>"
  "status_event ! 9 = \<lparr>se_event = 22, se_qlen = 1, se_encode = Some one_param_event, se_decode = Some one_param_decode\<rparr>"
  "status_event ! 10 = \<lparr>se_event = 20, se_qlen = 2, se_encode = Some songpos_event, se_decode = Some songpos_decode\<rparr>"
  "status_event ! 11 = \<lparr>se_event = 21, se_qlen = 1, se_encode = Some one_param_event, se_decode = Some one_param_decode\<rparr>"
  "status_event ! 14 = \<lparr>se_event = 40, se_qlen = 0, se_encode = None, se_decode = None\<rparr>"
  "status_event ! 16 = \<lparr>se_event = 36, se_qlen = 0, se_encode = None, se_decode = None\<rparr>"
  "status_event ! 18 = \<lparr>se_event = 30, se_qlen = 0, se_encode = None, se_decode = None\<rparr>"
  "status_event ! 19 = \<lparr>se_event = 31, se_qlen = 0, se_encode = None, se_decode = None\<rparr>"
  "status_event ! 20 = \<lparr>se_event = 32, se_qlen = 0, se_encode = None, se_decode = None\<rparr>"
  "status_event ! 22 = \<lparr>se_event = 42, se_qlen = 0, se_encode = None, se_decode = None\<rparr>"
  "status_event ! 23 = \<lparr>se_event = 41, se_qlen = 0, se_encode = None, se_decode = None\<rparr>"
  by (simp_all add: status_event_def)

lemma midi_index_type:
  "ev_type ev = 7 \<Longrightarrow> midi_index ev = 0"
  "ev_type ev = 6 \<Longrightarrow> midi_index ev = Suc 0"
  "ev_type ev = 8 \<Longrightarrow> midi_index ev = 2"
  "ev_type ev = 10 \<Longrightarrow> midi_index ev = 3"
  "ev_type ev = 11 \<Longrightarrow> midi_index ev = 4"
  "ev_type ev = 12 \<Longrightarrow> midi_index ev = 5"
  "ev_type ev = 13 \<Longrightarrow> midi_index ev = 6"
  "ev_type ev = 22 \<Longrightarrow> midi_index ev = 9"
  "ev_type ev = 20 \<Longrightarrow> midi_index ev = 10"
  "ev_type ev = 21 \<Longrightarrow> midi_index ev = 11"
  "ev_type ev = 40 \<Longrightarrow> midi_index ev = 14"
  "ev_type ev = 36 \<Longrightarrow> midi_index ev = 16"
  "ev_type ev = 30 \<Longrightarrow> midi_index ev = 18"
  "ev_type ev = 31 \<Longrightarrow> midi_index ev = 19"
  "ev_type ev = 32 \<Longrightarrow> midi_index ev = 20"
  "ev_type ev = 42 \<Longrightarrow> midi_index ev = 22"
  "ev_type ev = 41 \<Longrightarrow> midi_index ev = 23"
  by (simp_all add: midi_index_def status_event_def status_none_def)

lemma decode_args:
  assumes "midi_valid ev" "se_decode (status_event ! midi_index ev) = Some g"
  shows "se_qlen (status_event ! midi_index ev) = int (length (g ev))" "length (g ev) \<in> {1, 2}" "\<forall>a\<in>set (g ev). a AND 0x80 = 0"
proof -
  have "ev_type ev \<in> {6, 7, 8, 10, 11, 12, 13, 20, 21, 22, 30, 31, 32, 36, 40, 41, 42}"
    using assms(1) by (auto simp: midi_valid_def split: if_splits)
  then have "g \<in> {note_decode, one_param_decode, pitchbend_decode, two_param_decode, songpos_decode} \<and>
      se_qlen (status_event ! midi_index ev) = int (length (g ev))"
    using assms(2) by (auto simp: midi_index_type status_entries note_decode_def one_param_decode_def
      pitchbend_decode_def two_param_decode_def songpos_decode_def Let_def)
  then show "se_qlen (status_event ! midi_index ev) = int (length (g ev))" "length (g ev) \<in> {1, 2}" "\<forall>a\<in>set (g ev). a AND 0x80 = 0"
    by (auto simp: note_decode_def one_param_decode_def
      pitchbend_decode_def two_param_decode_def songpos_decode_def Let_def intro!: data_bytes)
qed

lemma encode_decode_args:
  assumes "midi_valid ev" "se_decode (status_event ! midi_index ev) = Some g" "3 \<le> length buf"
    and "midi_index ev < 7 \<longrightarrow> buf ! 0 AND 0x0f = data_byte 0 ev AND 0x0f" "take (length (g ev)) (tl buf) = g ev"
  shows "\<exists>f ev'. se_encode (status_event ! midi_index ev) = Some f \<and> f buf (fixed_event (ev_type ev) ev0) = Some ev' \<and>
    midi_message ev' = midi_message ev \<and> ev_flags ev' = ev_flags ev0 AND NOT 12"
proof -
  obtain b0 b1 b2 bs where buf: "buf = b0 # b1 # b2 # bs"
    using assms(3) by (metis One_nat_def Suc_le_length_iff numeral_3_eq_3)
  have chan: "midi_index ev < 7 \<Longrightarrow> b0 AND 0x0f = data_byte 0 ev AND 0x0f" using assms(4) buf by simp
  have "ev_type ev \<in> {6, 7, 8, 10, 11, 12, 13, 20, 21, 22, 30, 31, 32, 36, 40, 41, 42}"
    using assms(1) by (auto simp: midi_valid_def split: if_splits)
  then consider "ev_type ev \<in> {6, 7, 8}" | "ev_type ev = 10" | "ev_type ev \<in> {11, 12}" | "ev_type ev = 13" | "ev_type ev = 20"
    | "ev_type ev \<in> {21, 22}" | "ev_type ev \<in> {30, 31, 32, 36, 40, 41, 42}"
    by blast
  then show ?thesis
  proof cases
    case 1
    then have e: "midi_index ev < 7" "se_encode (status_event ! midi_index ev) = Some note_event" "se_decode (status_event ! midi_index ev) = Some note_decode"
      by (auto simp: midi_index_type status_entries)
    then have g: "g = note_decode" using assms(2) by simp
    have b: "b1 = data_byte 1 ev AND 0x7f" "b2 = data_byte 2 ev AND 0x7f" using assms(5) by (simp_all add: g buf note_decode_def)
    show ?thesis using 1 assms(1) e chan [OF e(1)] b unfolding buf
      by (auto simp: note_event_def buf_at_def midi_valid_def midi_message_def channel_and_15 seven_bits)
  next
    case 2
    then have e: "midi_index ev < 7" "se_encode (status_event ! midi_index ev) = Some two_param_ctrl_event" "se_decode (status_event ! midi_index ev) = Some two_param_decode"
      by (auto simp: midi_index_type status_entries)
    then have g: "g = two_param_decode" using assms(2) by simp
    have b: "b1 = ucast (ctrl_param ev AND 0x7f)" "b2 = ucast (ctrl_value ev AND 0x7f)" using assms(5) by (simp_all add: g buf two_param_decode_def)
    show ?thesis using 2 assms(1) e chan [OF e(1)] b unfolding buf
      by (auto simp: two_param_ctrl_event_def buf_at_def midi_valid_def midi_message_def channel_and_15 seven_bits)
  next
    case 3
    then have e: "midi_index ev < 7" "se_encode (status_event ! midi_index ev) = Some one_param_ctrl_event" "se_decode (status_event ! midi_index ev) = Some one_param_decode"
      by (auto simp: midi_index_type status_entries)
    then have g: "g = one_param_decode" using assms(2) by simp
    have b: "b1 = ucast (ctrl_value ev AND 0x7f)" using assms(5) by (simp_all add: g buf one_param_decode_def)
    show ?thesis using 3 assms(1) e chan [OF e(1)] b unfolding buf
      by (auto simp: one_param_ctrl_event_def buf_at_def midi_valid_def midi_message_def channel_and_15 seven_bits)
  next
    case 4
    then have e: "midi_index ev < 7" "se_encode (status_event ! midi_index ev) = Some pitchbend_ctrl_event" "se_decode (status_event ! midi_index ev) = Some pitchbend_decode"
      by (auto simp: midi_index_type status_entries)
    then have g: "g = pitchbend_decode" using assms(2) by simp
    have b: "b1 = ucast ((ctrl_value ev + 8192) AND 0x7f)" "b2 = ucast (signed_drop_bit 7 (ctrl_value ev + 8192) AND 0x7f)" using assms(5) by (simp_all add: g buf pitchbend_decode_def Let_def)
    show ?thesis using 4 assms(1) e chan [OF e(1)] b unfolding buf
      by (auto simp: pitchbend_ctrl_event_def buf_at_def midi_valid_def midi_message_def channel_and_15 fourteen_bits)
  next
    case 5
    then have e: "se_encode (status_event ! midi_index ev) = Some songpos_event" "se_decode (status_event ! midi_index ev) = Some songpos_decode"
      by (auto simp: midi_index_type status_entries)
    then have g: "g = songpos_decode" using assms(2) by simp
    have b: "b1 = ucast (ctrl_value ev AND 0x7f)" "b2 = ucast (signed_drop_bit 7 (ctrl_value ev) AND 0x7f)" using assms(5) by (simp_all add: g buf songpos_decode_def)
    show ?thesis using 5 assms(1) e b unfolding buf
      by (auto simp: songpos_event_def buf_at_def midi_valid_def midi_message_def channel_and_15 fourteen_bits)
  next
    case 6
    then have e: "se_encode (status_event ! midi_index ev) = Some one_param_event" "se_decode (status_event ! midi_index ev) = Some one_param_decode"
      by (auto simp: midi_index_type status_entries)
    then have g: "g = one_param_decode" using assms(2) by simp
    have b: "b1 = ucast (ctrl_value ev AND 0x7f)" using assms(5) by (simp_all add: g buf one_param_decode_def)
    show ?thesis using 6 assms(1) e b unfolding buf
      by (auto simp: one_param_event_def buf_at_def midi_valid_def midi_message_def channel_and_15 seven_bits)
  next
    case 7
    then show ?thesis using assms(2) by (auto simp: midi_index_type status_entries)
  qed
qed

text \<open>A data byte, after a status byte or with running status.\<close>

lemma data_byte_small: "(a :: u8) AND 0x80 = 0 \<Longrightarrow> \<not> a \<ge> 0xf8"
proof
  assume a: "a AND 0x80 = 0" "a \<ge> 0xf8"
  have "unat a < 256" using unsigned_less [of a] by simp
  have "\<forall>n\<in>set [248..<256]. (of_nat n :: u8) AND 0x80 \<noteq> 0" by code_simp
  moreover have "unat a \<in> set [248..<256]" using a(2) \<open>unat a < 256\<close> by (auto simp: word_le_nat_alt)
  ultimately have "(of_nat (unat a) :: u8) AND 0x80 \<noteq> 0" by blast
  then show False using a(1) by simp
qed

lemma encode_first_arg:
  assumes "coder_ok d" "me_type d \<noteq> 8" "a AND 0x80 = 0" "se_qlen (status_event ! me_type d) = int (Suc n)"
    and "me_qlen d = int (Suc n) \<and> me_read d = 1 \<or> me_qlen d = 0"
  shows "snd_midi_event_encode_byte a d ev = finish_byte a (d\<lparr>me_buf := (me_buf d)[1 := a], me_read := 2, me_qlen := int n\<rparr>) ev"
proof -
  have "store_byte a d = Some (d\<lparr>me_buf := (me_buf d)[1 := a], me_read := 2, me_qlen := int n\<rparr>)"
    using assms by (auto simp: store_byte_def coder_ok_def numeral_2_eq_2)
  then show ?thesis using data_byte_small [OF assms(3)] by (simp add: snd_midi_event_encode_byte_def)
qed

lemma encode_second_arg:
  assumes "length (me_buf d) \<ge> 3" "me_type d \<noteq> 8" "a AND 0x80 = 0" "me_qlen d = 1" "me_read d = 2"
  shows "snd_midi_event_encode_byte a d ev = finish_byte a (d\<lparr>me_buf := (me_buf d)[2 := a], me_read := 3, me_qlen := 0\<rparr>) ev"
proof -
  have "store_byte a d = Some (d\<lparr>me_buf := (me_buf d)[2 := a], me_read := 3, me_qlen := 0\<rparr>)"
    using assms by (auto simp: store_byte_def)
  then show ?thesis using data_byte_small [OF assms(3)] by (simp add: snd_midi_event_encode_byte_def)
qed

text \<open>The data bytes of a message complete it.\<close>

lemma run_args:
  assumes "coder_ok d" "me_type d = t" "t \<noteq> 8" "se_qlen (status_event ! t) = int (length as)" "length as \<in> {1, 2}"
    and "\<forall>a\<in>set as. a AND 0x80 = 0" "me_qlen d = int (length as) \<and> me_read d = 1 \<or> me_qlen d = 0"
    and "se_encode (status_event ! t) = Some f"
    and enc: "\<And>buf. length buf = length (me_buf d) \<Longrightarrow> buf ! 0 = me_buf d ! 0 \<Longrightarrow> take (length as) (tl buf) = as \<Longrightarrow>
      \<exists>ev'. f buf (fixed_event (se_event (status_event ! t)) ev) = Some ev' \<and> ev_flags ev' = ev_flags ev AND NOT 12 \<and> P ev'"
  shows "\<exists>d' ev'. run_encode as d ev = Some ([(ev', [])], d', ev') \<and> P ev' \<and> me_qlen d' = 0 \<and>
    me_type d' = (if t \<ge> 8 then 7 else t) \<and> me_buf d' ! 0 = me_buf d ! 0"
proof -
  have l: "3 \<le> length (me_buf d)" using assms(1) by (simp add: coder_ok_def)
  obtain b0 b1 b2 bs where buf: "me_buf d = b0 # b1 # b2 # bs"
    using l by (metis One_nat_def Suc_le_length_iff numeral_3_eq_3)
  obtain a as' where as: "as = a # as'" using assms(5) by (cases as) auto
  let ?d1 = "d\<lparr>me_buf := (me_buf d)[1 := a], me_read := 2, me_qlen := int (length as')\<rparr>"
  have first: "snd_midi_event_encode_byte a d ev = finish_byte a ?d1 ev"
    using assms as by (intro encode_first_arg) auto
  show ?thesis
  proof (cases as')
    case Nil
    obtain ev' where e: "f (me_buf ?d1) (fixed_event (se_event (status_event ! t)) ev) = Some ev'"
      "ev_flags ev' = ev_flags ev AND NOT 12" "P ev'"
      using enc [of "me_buf ?d1"] as Nil buf by auto
    have "finish_byte a ?d1 ev = Some (True, if t \<ge> 8 then ?d1\<lparr>me_type := 7\<rparr> else ?d1, ev')"
      using e(1) assms(2,8) Nil by (simp add: finish_byte_def Let_def)
    then show ?thesis using first e(2,3) fixed_not_variable [OF e(2)] as Nil buf assms(2) by auto
  next
    case (Cons a2 as'')
    then have as'': "as'' = []" using as assms(5) by auto
    let ?d2 = "?d1\<lparr>me_buf := (me_buf ?d1)[2 := a2], me_read := 3, me_qlen := 0\<rparr>"
    have pending: "finish_byte a ?d1 ev = Some (False, ?d1, ev)" using assms(2,3) Cons by (simp add: finish_byte_def)
    have second: "snd_midi_event_encode_byte a2 ?d1 ev = finish_byte a2 ?d2 ev"
      using encode_second_arg [of ?d1 a2 ev] l assms(2,3,6) as Cons as'' by simp
    obtain ev' where e: "f (me_buf ?d2) (fixed_event (se_event (status_event ! t)) ev) = Some ev'"
      "ev_flags ev' = ev_flags ev AND NOT 12" "P ev'"
      using enc [of "me_buf ?d2"] as Cons as'' buf by auto
    have "finish_byte a2 ?d2 ev = Some (True, if t \<ge> 8 then ?d2\<lparr>me_type := 7\<rparr> else ?d2, ev')"
      using e(1) assms(2,8) by (simp add: finish_byte_def Let_def)
    then show ?thesis using first pending second e(2,3) fixed_not_variable [OF e(2)] as Cons as'' buf assms(2) by auto
  qed
qed

text \<open>A status byte that starts a message.\<close>

definition command_type :: "u8 \<Rightarrow> nat" where
  "command_type c = (if c AND 0xf0 = 0xf0 then unat (c AND 0x0f) + 8 else unat (drop_bit 4 c AND 7))"

lemma encode_status:
  assumes "coder_ok d" "c AND 0x80 \<noteq> 0" "c < 0xf7"
  shows "snd_midi_event_encode_byte c d ev =
    finish_byte c (d\<lparr>me_buf := (me_buf d)[0 := c], me_type := command_type c, me_read := 1,
      me_qlen := se_qlen (status_event ! command_type c)\<rparr>) ev"
proof -
  have "\<not> c \<ge> 0xf8" "c \<noteq> 0xf7" using assms(3) by (auto simp: word_less_nat_alt word_le_nat_alt)
  moreover have "me_buf d \<noteq> []" using assms(1) by (auto simp: coder_ok_def)
  ultimately show ?thesis using assms(2) by (simp add: snd_midi_event_encode_byte_def store_byte_def command_type_def Let_def)
qed

text \<open>
  The decoder leaves out a status byte only when the parser still has it: as long as the last status is
  that of a channel message, the parser is between two messages of that status.
\<close>

definition in_step :: "midi_event \<Rightarrow> midi_event \<Rightarrow> bool" where
  "in_step dec enc \<longleftrightarrow> coder_ok enc \<and>
     (me_lastcmd dec AND 0xf0 \<noteq> 0xf0 \<longrightarrow>
        me_type enc = command_type (me_lastcmd dec) \<and> me_buf enc ! 0 = me_lastcmd dec \<and> me_qlen enc = 0)"

lemma status_then_args:
  assumes "coder_ok enc" "midi_valid ev" "se_decode (status_event ! midi_index ev) = Some g"
    and c: "c AND 0x80 \<noteq> 0" "c < 0xf7" "command_type c = midi_index ev"
    and "midi_index ev < 7 \<longrightarrow> c AND 0x0f = data_byte 0 ev AND 0x0f"
  shows "\<exists>d ev'. run_encode (c # g ev) enc ev0 = Some ([(ev', [])], d, ev') \<and> midi_message ev' = midi_message ev \<and> me_qlen d = 0 \<and>
    me_type d = (if midi_index ev \<ge> 8 then 7 else midi_index ev) \<and> me_buf d ! 0 = c"
proof -
  let ?t = "midi_index ev"
  let ?d = "enc\<lparr>me_buf := (me_buf enc)[0 := c], me_type := ?t, me_read := 1, me_qlen := se_qlen (status_event ! ?t)\<rparr>"
  note e = midi_valid_entry [OF assms(2)] and a = decode_args [OF assms(2,3)]
  have l: "3 \<le> length (me_buf enc)" using assms(1) by (simp add: coder_ok_def)
  have "snd_midi_event_encode_byte c enc ev0 = finish_byte c ?d ev0" using encode_status [OF assms(1) c(1,2)] by (simp add: c(3))
  moreover have "finish_byte c ?d ev0 = Some (False, ?d, ev0)" using a(1,2) e(3) by (auto simp: finish_byte_def)
  ultimately have st: "snd_midi_event_encode_byte c enc ev0 = Some (False, ?d, ev0)" by simp
  then have ok: "coder_ok ?d" using encode_byte_ok [OF assms(1), of c ev0] by auto
  have buf_0: "(me_buf enc)[0 := c] ! 0 = c" using l by (cases "me_buf enc") auto
  obtain f where f: "se_encode (status_event ! ?t) = Some f"
    using encode_decode_args [OF assms(2,3), of "c # g ev @ [0]" ev0] assms(7) a(2) by auto
  have "\<exists>d' ev'. run_encode (g ev) ?d ev0 = Some ([(ev', [])], d', ev') \<and> midi_message ev' = midi_message ev \<and> me_qlen d' = 0 \<and>
    me_type d' = (if ?t \<ge> 8 then 7 else ?t) \<and> me_buf d' ! 0 = me_buf ?d ! 0"
  proof (rule run_args [OF ok _ e(3) a(1,2,3) _ f])
    fix buf assume b: "length buf = length (me_buf ?d)" "buf ! 0 = me_buf ?d ! 0" "take (length (g ev)) (tl buf) = g ev"
    then have "?t < 7 \<longrightarrow> buf ! 0 AND 0x0f = data_byte 0 ev AND 0x0f" using assms(7) buf_0 by simp
    then show "\<exists>ev'. f buf (fixed_event (se_event (status_event ! ?t)) ev0) = Some ev' \<and> ev_flags ev' = ev_flags ev0 AND NOT 12 \<and>
        midi_message ev' = midi_message ev"
      using encode_decode_args [OF assms(2,3), of buf ev0] b l f e(4) by auto
  qed (use a(1) in simp_all)
  then show ?thesis using st buf_0 by auto
qed

lemma running_args:
  assumes "in_step dec enc" "midi_valid ev" "se_decode (status_event ! midi_index ev) = Some g"
    and c: "me_lastcmd dec = c" "c AND 0xf0 \<noteq> 0xf0" "command_type c = midi_index ev"
    and "midi_index ev < 7" "c AND 0x0f = data_byte 0 ev AND 0x0f"
  shows "\<exists>d ev'. run_encode (g ev) enc ev0 = Some ([(ev', [])], d, ev') \<and> midi_message ev' = midi_message ev \<and> me_qlen d = 0 \<and>
    me_type d = (if midi_index ev \<ge> 8 then 7 else midi_index ev) \<and> me_buf d ! 0 = c"
proof -
  let ?t = "midi_index ev"
  have s: "coder_ok enc" "me_type enc = ?t" "me_buf enc ! 0 = c" "me_qlen enc = 0" using assms(1) c by (auto simp: in_step_def)
  note e = midi_valid_entry [OF assms(2)] and a = decode_args [OF assms(2,3)]
  have l: "3 \<le> length (me_buf enc)" using s(1) by (simp add: coder_ok_def)
  obtain f where f: "se_encode (status_event ! ?t) = Some f"
    using encode_decode_args [OF assms(2,3), of "c # g ev @ [0]" ev0] assms(8) a(2) by auto
  have "\<exists>d' ev'. run_encode (g ev) enc ev0 = Some ([(ev', [])], d', ev') \<and> midi_message ev' = midi_message ev \<and> me_qlen d' = 0 \<and>
    me_type d' = (if ?t \<ge> 8 then 7 else ?t) \<and> me_buf d' ! 0 = me_buf enc ! 0"
  proof (rule run_args [OF s(1,2) e(3) a(1,2,3) _ f])
    fix buf assume b: "length buf = length (me_buf enc)" "buf ! 0 = me_buf enc ! 0" "take (length (g ev)) (tl buf) = g ev"
    then show "\<exists>ev'. f buf (fixed_event (se_event (status_event ! ?t)) ev0) = Some ev' \<and> ev_flags ev' = ev_flags ev0 AND NOT 12 \<and>
        midi_message ev' = midi_message ev"
      using encode_decode_args [OF assms(2,3), of buf ev0] b l f e(4) s(3) assms(8) by auto
  qed (use s(4) in simp)
  then show ?thesis using s(3) by auto
qed

text \<open>Messages without data: the tune request and the real-time bytes.\<close>

lemma no_args:
  assumes "coder_ok enc" "midi_valid ev" "se_decode (status_event ! midi_index ev) = None"
  shows "\<exists>d ev'. run_encode [status_byte (midi_index ev) ev] enc ev0 = Some ([(ev', [])], d, ev') \<and> midi_message ev' = midi_message ev"
    "se_qlen (status_event ! midi_index ev) = 0" "status_byte (midi_index ev) ev AND 0xf0 = 0xf0" "status_byte (midi_index ev) ev \<noteq> 0xf0"
proof -
  have "ev_type ev \<in> {6, 7, 8, 10, 11, 12, 13, 20, 21, 22, 30, 31, 32, 36, 40, 41, 42}"
    using assms(2) by (auto simp: midi_valid_def split: if_splits)
  then have t: "ev_type ev \<in> {30, 31, 32, 36, 40, 41, 42}" using assms(3) by (auto simp: midi_index_type status_entries)
  then show "se_qlen (status_event ! midi_index ev) = 0" "status_byte (midi_index ev) ev AND 0xf0 = 0xf0"
    "status_byte (midi_index ev) ev \<noteq> 0xf0"
    by (auto simp: midi_index_type status_entries status_byte_def)
  have m: "midi_message (fixed_event (ev_type ev) ev0) = midi_message ev" using t by (auto simp: midi_message_def)
  have v: "\<not> snd_seq_ev_is_variable (fixed_event u ev0)" for u by (rule fixed_not_variable) simp
  show "\<exists>d ev'. run_encode [status_byte (midi_index ev) ev] enc ev0 = Some ([(ev', [])], d, ev') \<and> midi_message ev' = midi_message ev"
  proof (cases "ev_type ev = 40")
    case True
    then have "snd_midi_event_encode_byte 0xf6 enc ev0 = finish_byte 0xf6 (enc\<lparr>me_buf := (me_buf enc)[0 := 0xf6],
        me_type := 14, me_read := 1, me_qlen := 0\<rparr>) ev0"
      using encode_status [OF assms(1), of "0xf6" ev0] by (simp add: command_type_def status_entries)
    then show ?thesis using True m v by (simp add: midi_index_type status_byte_def finish_byte_def Let_def status_entries)
  next
    case False
    then have "\<exists>d. snd_midi_event_encode_byte (status_byte (midi_index ev) ev) enc ev0 = Some (True, d, fixed_event (ev_type ev) ev0)"
      using t by (auto simp: snd_midi_event_encode_byte_def midi_index_type status_byte_def status_entries Let_def)
    then show ?thesis using m v by auto
  qed
qed

lemma status_byte_facts:
  assumes "midi_valid ev" "se_decode (status_event ! midi_index ev) = Some g"
  defines "c \<equiv> status_byte (midi_index ev) ev"
  shows "c AND 0x80 \<noteq> 0" "c < 0xf7" "command_type c = midi_index ev" "c \<noteq> 0xf0"
    "midi_index ev < 7 \<Longrightarrow> c AND 0x0f = data_byte 0 ev AND 0x0f \<and> c AND 0xf0 \<noteq> 0xf0"
    "\<not> midi_index ev < 7 \<Longrightarrow> c AND 0xf0 = 0xf0"
proof -
  have "c AND 0x80 \<noteq> 0 \<and> c < 0xf7 \<and> command_type c = midi_index ev \<and> c \<noteq> 0xf0 \<and>
    (midi_index ev < 7 \<longrightarrow> c AND 0x0f = data_byte 0 ev AND 0x0f \<and> c AND 0xf0 \<noteq> 0xf0) \<and> (\<not> midi_index ev < 7 \<longrightarrow> c AND 0xf0 = 0xf0)"
  proof (cases "midi_index ev < 7")
    case True
    then have c: "c = 0x80 OR push_bit 4 (of_nat (midi_index ev)) OR (data_byte 0 ev AND 0x0f)" by (simp add: c_def status_byte_def)
    have "x < 0xf0 \<Longrightarrow> x < 0xf7 \<and> x \<noteq> 0xf0" for x :: u8 by (auto simp: word_less_nat_alt)
    then show ?thesis using status_bits [OF True, of "data_byte 0 ev"] True unfolding c command_type_def by auto
  next
    case False
    have "ev_type ev \<in> {6, 7, 8, 10, 11, 12, 13, 20, 21, 22, 30, 31, 32, 36, 40, 41, 42}"
      using assms(1) by (auto simp: midi_valid_def split: if_splits)
    then have "ev_type ev \<in> {20, 21, 22}" using assms(2) False by (auto simp: midi_index_type status_entries)
    then show ?thesis by (auto simp: c_def midi_index_type status_byte_def command_type_def)
  qed
  then show "c AND 0x80 \<noteq> 0" "c < 0xf7" "command_type c = midi_index ev" "c \<noteq> 0xf0"
    "midi_index ev < 7 \<Longrightarrow> c AND 0x0f = data_byte 0 ev AND 0x0f \<and> c AND 0xf0 \<noteq> 0xf0"
    "\<not> midi_index ev < 7 \<Longrightarrow> c AND 0xf0 = 0xf0" by blast+
qed

lemma decode_valid:
  assumes "midi_valid ev" "status_byte (midi_index ev) ev \<noteq> 0xf0"
  shows "snd_midi_event_decode data bad m space dec ev = decode_fixed (midi_index ev) space dec ev"
  using midi_valid_entry [OF assms(1)] assms(2) by (simp add: snd_midi_event_decode_def)

text \<open>One event through the decoder and the parser.\<close>

lemma event_in_step:
  assumes "in_step dec enc" "midi_valid ev" "3 \<le> space"
  shows "\<exists>bytes dec' enc' ev'. snd_midi_event_decode data bad m space dec ev = (int (length bytes), bytes, dec') \<and>
    run_encode bytes enc ev0 = Some ([(ev', [])], enc', ev') \<and> midi_message ev' = midi_message ev \<and> in_step dec' enc'"
proof -
  let ?t = "midi_index ev"
  let ?c = "status_byte ?t ev"
  have ok: "coder_ok enc" using assms(1) by (simp add: in_step_def)
  have keep: "coder_ok d" if "run_encode bs enc ev0 = Some (outs, d, e)" for bs outs d e
    using run_encode_ok [OF ok, of bs ev0] that by auto
  show ?thesis
  proof (cases "se_decode (status_event ! ?t)")
    case None
    note n = no_args [OF ok assms(2) None]
    obtain d ev' where r: "run_encode [?c] enc ev0 = Some ([(ev', [])], d, ev')" "midi_message ev' = midi_message ev"
      using n(1) [of ev0] by blast
    have "snd_midi_event_decode data bad m space dec ev = (int (length [?c]), [?c], dec\<lparr>me_lastcmd := ?c\<rparr>)"
      using decode_valid [OF assms(2) n(4)] n(2,3) None assms(3) by (simp add: decode_fixed_def Let_def)
    moreover have "in_step (dec\<lparr>me_lastcmd := ?c\<rparr>) d" using keep [OF r(1)] n(3) by (simp add: in_step_def)
    ultimately show ?thesis using r by blast
  next
    case (Some g)
    note c = status_byte_facts [OF assms(2) Some] and a = decode_args [OF assms(2) Some]
    have chan: "?t < 7 \<longrightarrow> ?c AND 0x0f = data_byte 0 ev AND 0x0f" using c(5) by blast
    have after: "in_step dec' d" if "coder_ok d" "me_qlen d = 0" "me_type d = (if ?t \<ge> 8 then 7 else ?t)" "me_buf d ! 0 = ?c"
      "me_lastcmd dec' = ?c" for dec' d
      using that c(3,6) by (auto simp: in_step_def)
    show ?thesis
    proof (cases "?c AND 0xf0 = 0xf0 \<or> me_lastcmd dec \<noteq> ?c \<or> me_nostat dec")
      case True
      obtain d ev' where r: "run_encode (?c # g ev) enc ev0 = Some ([(ev', [])], d, ev')" "midi_message ev' = midi_message ev"
        "me_qlen d = 0" "me_type d = (if ?t \<ge> 8 then 7 else ?t)" "me_buf d ! 0 = ?c"
        using status_then_args [OF ok assms(2) Some c(1,2,3) chan, of ev0] by blast
      have "snd_midi_event_decode data bad m space dec ev = (int (length (?c # g ev)), ?c # g ev, dec\<lparr>me_lastcmd := ?c\<rparr>)"
        using decode_valid [OF assms(2) c(4)] True Some a(1,2) assms(3) by (auto simp: decode_fixed_def Let_def nat_add_distrib)
      then show ?thesis using r after [OF keep [OF r(1)] r(3,4,5), of "dec\<lparr>me_lastcmd := ?c\<rparr>"] by auto
    next
      case False
      then have t: "?t < 7" "me_lastcmd dec = ?c" "?c AND 0xf0 \<noteq> 0xf0" using c(6) by auto
      then obtain d ev' where r: "run_encode (g ev) enc ev0 = Some ([(ev', [])], d, ev')" "midi_message ev' = midi_message ev"
        "me_qlen d = 0" "me_type d = (if ?t \<ge> 8 then 7 else ?t)" "me_buf d ! 0 = ?c"
        using running_args [OF assms(1,2) Some t(2,3) c(3) t(1), of ev0] chan by blast
      have "snd_midi_event_decode data bad m space dec ev = (int (length (g ev)), g ev, dec)"
        using decode_valid [OF assms(2) c(4)] False Some a(1,2) assms(3) by (auto simp: decode_fixed_def Let_def)
      then show ?thesis using r after [OF keep [OF r(1)] r(3,4,5) t(2)] by blast
    qed
  qed
qed

text \<open>A list of events as a stream of bytes.\<close>

fun decode_all :: "seq_mem \<Rightarrow> int \<Rightarrow> seq_event list \<Rightarrow> midi_event \<Rightarrow> u8 list" where
  "decode_all m space [] dec = []"
| "decode_all m space (ev # evs) dec =
     (let (n, bytes, dec) = snd_midi_event_decode [] (\<lambda>_. False) m space dec ev
      in bytes @ decode_all m space evs dec)"

lemma round_trip_in_step:
  "in_step dec enc \<Longrightarrow> \<forall>ev\<in>set evs. midi_valid ev \<Longrightarrow> 3 \<le> space \<Longrightarrow>
   \<exists>outs enc' ev'. run_encode (decode_all m space evs dec) enc ev0 = Some (outs, enc', ev') \<and>
     map (\<lambda>(e, data). midi_message e) outs = map midi_message evs"
proof (induction evs arbitrary: dec enc ev0)
  case (Cons ev evs)
  obtain bytes dec1 enc1 ev1 where e:
    "snd_midi_event_decode [] (\<lambda>_. False) m space dec ev = (int (length bytes), bytes, dec1)"
    "run_encode bytes enc ev0 = Some ([(ev1, [])], enc1, ev1)" "midi_message ev1 = midi_message ev" "in_step dec1 enc1"
    using event_in_step [OF Cons.prems(1) _ Cons.prems(3)] Cons.prems(2) by (meson list.set_intros(1))
  obtain outs enc' ev' where r: "run_encode (decode_all m space evs dec1) enc1 ev1 = Some (outs, enc', ev')"
    "map (\<lambda>(e, data). midi_message e) outs = map midi_message evs"
    using Cons.IH [OF e(4), of ev1] Cons.prems(2,3) by auto
  show ?case using run_encode_append [OF e(2) r(1)] e(1,3) r(2) by auto
qed simp

section \<open>System exclusive messages\<close>

definition in_sysex :: "midi_event \<Rightarrow> u8 list \<Rightarrow> bool" where
  "in_sysex dev p \<longleftrightarrow> coder_ok dev \<and> me_type dev = 8 \<and> me_read dev = length p \<and> take (length p) (me_buf dev) = p \<and>
     length (me_buf dev) < 0x40000000"

lemma sysex_event_data:
  assumes "me_read dev < 0x40000000"
  shows "snd_seq_ev_is_variable (sysex_event dev ev)" "var_len (sysex_event dev ev) = me_read dev" "ev_type (sysex_event dev ev) = 130"
proof -
  have "(f AND NOT 12 OR 4) AND 12 = (4 :: u8)" for f
    using bit.conj_disj_distrib2 [of "f AND NOT 12" 4 12] by (simp add: and.assoc)
  then show "snd_seq_ev_is_variable (sysex_event dev ev)" by (simp add: sysex_event_def snd_seq_ev_is_variable_def set_ext_def)
  have not_mask: "(- 3221225473 :: u32) = 1073741823" by code_simp
  have "(of_nat (me_read dev) :: u32) AND NOT EXT_MASK = take_bit 30 (of_nat (me_read dev))"
    using take_bit_eq_mask [of 30 "of_nat (me_read dev) :: u32"] by (simp add: mask_eq_exp_minus_1 not_mask)
  also have "\<dots> = of_nat (me_read dev)"
    by (rule unat_eqI) (subst unsigned_take_bit_eq, use assms in \<open>simp add: unat_of_nat take_bit_eq_mod\<close>)
  finally have "(of_nat (me_read dev) :: u32) AND NOT EXT_MASK = of_nat (me_read dev)" .
  then show "var_len (sysex_event dev ev) = me_read dev" using assms
    by (simp add: sysex_event_def var_len_def ext_len_def set_ext_def unat_of_nat)
  show "ev_type (sysex_event dev ev) = 130" by (simp add: sysex_event_def set_ext_def)
qed

lemma sysex_data_byte:
  assumes "in_sysex dev p" "b AND 0x80 = 0"
  shows "\<exists>rc dev' ev'. snd_midi_event_encode_byte b dev ev = Some (rc, dev', ev') \<and>
    (if rc then ev_type ev' = 130 \<and> snd_seq_ev_is_variable ev' \<and> take (var_len ev') (me_buf dev') = p @ [b] \<and>
        length (p @ [b]) = length (me_buf dev) \<and> in_sysex dev' []
     else in_sysex dev' (p @ [b])) \<and> length (me_buf dev') = length (me_buf dev)"
proof -
  let ?d = "dev\<lparr>me_buf := (me_buf dev)[length p := b], me_read := Suc (length p), me_qlen := 1\<rparr>"
  have i: "coder_ok dev" "me_type dev = 8" "me_read dev = length p" "take (length p) (me_buf dev) = p"
    "length p < length (me_buf dev)" "me_qlen dev = 1" "length (me_buf dev) < 0x40000000" "me_bufsize dev = int (length (me_buf dev))"
    using assms(1) by (auto simp: in_sysex_def coder_ok_def)
  have "b \<noteq> 0xf7" using assms(2) by auto
  have "snd_midi_event_encode_byte b dev ev = finish_byte b ?d ev"
    using i assms(2) data_byte_small [OF assms(2)] by (simp add: snd_midi_event_encode_byte_def store_byte_def)
  moreover have t: "take (Suc (length p)) (me_buf ?d) = p @ [b]" using i(4,5) by (simp add: take_Suc_conv_app_nth)
  moreover have "finish_byte b ?d ev = Some (if Suc (length p) \<ge> length (me_buf dev) then (True, ?d\<lparr>me_read := 0\<rparr>, sysex_event ?d ev)
      else (False, ?d, ev))"
    using i \<open>b \<noteq> 0xf7\<close> by (simp add: finish_byte_def)
  moreover have "Suc (length p) \<ge> length (me_buf dev) \<Longrightarrow> Suc (length p) = length (me_buf dev)" using i(5) by simp
  moreover have "in_sysex (?d\<lparr>me_read := 0\<rparr>) []" "Suc (length p) < length (me_buf dev) \<Longrightarrow> in_sysex ?d (p @ [b])"
    using i t by (auto simp: in_sysex_def coder_ok_def)
  ultimately show ?thesis using sysex_event_data [of ?d ev] i(5,7) by (auto simp: not_le)
qed

lemma sysex_end_byte:
  assumes "in_sysex dev p"
  shows "\<exists>dev' ev'. snd_midi_event_encode_byte 0xf7 dev ev = Some (True, dev', ev') \<and> ev_type ev' = 130 \<and> snd_seq_ev_is_variable ev' \<and>
    take (var_len ev') (me_buf dev') = p @ [0xf7] \<and> me_type dev' = 7"
proof -
  let ?d = "dev\<lparr>me_buf := (me_buf dev)[length p := 0xf7], me_read := Suc (length p), me_qlen := 1\<rparr>"
  have i: "coder_ok dev" "me_type dev = 8" "me_read dev = length p" "take (length p) (me_buf dev) = p"
    "length p < length (me_buf dev)" "me_qlen dev = 1" "length (me_buf dev) < 0x40000000"
    using assms(1) by (auto simp: in_sysex_def coder_ok_def)
  have "snd_midi_event_encode_byte 0xf7 dev ev = finish_byte 0xf7 ?d ev"
    using i by (simp add: snd_midi_event_encode_byte_def store_byte_def)
  moreover have "take (Suc (length p)) (me_buf ?d) = p @ [0xf7]" using i(4,5) by (simp add: take_Suc_conv_app_nth)
  moreover have "finish_byte 0xf7 ?d ev = Some (True, reset_encode ?d, sysex_event ?d ev)" using i by (simp add: finish_byte_def)
  ultimately show ?thesis using sysex_event_data [of ?d ev] i(5,7) by (auto simp: reset_encode_def)
qed

text \<open>A real-time byte: the event it stands for.\<close>

definition realtime_type :: "u8 \<Rightarrow> u8" where
  "realtime_type b = se_event (status_event ! (unat b - 232))"

lemma encode_realtime:
  "b \<ge> 0xf8 \<Longrightarrow> snd_midi_event_encode_byte b dev ev = Some (realtime_type b \<noteq> EVENT_NONE, dev, fixed_event (realtime_type b) ev)"
  by (simp add: snd_midi_event_encode_byte_def realtime_type_def Let_def)

lemma realtime_not_sysex: "b \<ge> 0xf8 \<Longrightarrow> realtime_type b \<noteq> 130"
proof -
  assume b: "b \<ge> 0xf8"
  have "\<forall>n\<in>set [16..<24]. se_event (status_event ! n) \<noteq> 130" by (simp add: status_event_def status_none_def upt_rec)
  moreover have "unat b < 256" using unsigned_less [of b] by simp
  then have "unat b - 232 \<in> set [16..<24]" using b by (auto simp: word_le_nat_alt)
  ultimately show ?thesis unfolding realtime_type_def by blast
qed

lemma sysex_run:
  assumes "in_sysex dev p" "\<forall>b\<in>set bs. b AND 0x80 = 0 \<or> b \<ge> 0xf8"
  shows "\<exists>outs dev' ev'. run_encode (bs @ [0xf7]) dev ev = Some (outs, dev', ev') \<and>
    concat (map snd outs) = p @ filter (\<lambda>b. b < 0xf8) (bs @ [0xf7]) \<and> (\<forall>out\<in>set outs. length (snd out) \<le> length (me_buf dev)) \<and>
    filter (\<lambda>t. t \<noteq> 130) (map (\<lambda>out. ev_type (fst out)) outs) =
      filter (\<lambda>t. t \<noteq> EVENT_NONE) (map realtime_type (filter (\<lambda>b. b \<ge> 0xf8) bs)) \<and>
    me_type dev' = 7"
  using assms
proof (induction bs arbitrary: dev p ev)
  case Nil
  have "length p < length (me_buf dev)" using Nil.prems(1) by (auto simp: in_sysex_def coder_ok_def)
  then show ?case using sysex_end_byte [OF Nil.prems(1), of ev] by auto
next
  case (Cons b bs)
  then consider "b AND 0x80 = 0" | "b \<ge> 0xf8" by auto
  then show ?case
  proof cases
    case 1
    have b: "\<not> b \<ge> 0xf8" "b < 0xf8" using data_byte_small [OF 1] by auto
    obtain rc dev' ev' where e: "snd_midi_event_encode_byte b dev ev = Some (rc, dev', ev')"
      "if rc then ev_type ev' = 130 \<and> snd_seq_ev_is_variable ev' \<and> take (var_len ev') (me_buf dev') = p @ [b] \<and>
          length (p @ [b]) = length (me_buf dev) \<and> in_sysex dev' []
       else in_sysex dev' (p @ [b])" "length (me_buf dev') = length (me_buf dev)"
      using sysex_data_byte [OF Cons.prems(1) 1, of ev] by blast
    show ?thesis
    proof (cases rc)
      case True
      then show ?thesis using Cons.IH [of dev' "[]" ev'] Cons.prems(2) e b by auto
    next
      case False
      then show ?thesis using Cons.IH [of dev' "p @ [b]" ev'] Cons.prems(2) e b by auto
    qed
  next
    case 2
    have v: "\<not> snd_seq_ev_is_variable (fixed_event (realtime_type b) ev)" by (rule fixed_not_variable) simp
    show ?thesis using Cons.IH [OF Cons.prems(1), of "fixed_event (realtime_type b) ev"] Cons.prems(2) encode_realtime [OF 2, of dev ev]
      realtime_not_sysex [OF 2] 2 v by (auto simp: not_less)
  qed
qed

section \<open>Properties\<close>

definition sample_coder :: midi_event where
  "sample_coder = the (snd (snd_midi_event_new 256 (Some (0x1000, replicate 256 0))))"

lemma new_coder_ok:
  assumes "snd_midi_event_new bufsize (Some (ptr, buf)) = (0, Some dev)" "3 \<le> bufsize" "nat bufsize \<le> length buf"
  shows "coder_ok dev" "length (me_buf dev) = nat bufsize" "me_lastcmd dev = 0xff"
  using assms by (auto simp: snd_midi_event_new_def coder_ok_def Let_def)

text \<open>
  C30. Events survive the way over a MIDI cable. Any sequence of channel, system common and real-time events
  with parameters in range, turned into bytes by a new decoder (with running status or without it, and
  room for three bytes) and fed byte by byte to a new parser, comes out as the same sequence of messages.
\<close>

theorem midi_stream_round_trip:
  assumes "snd_midi_event_new bufsize (Some (ptr, buf)) = (0, Some dev)" "3 \<le> bufsize" "nat bufsize \<le> length buf"
    and "\<forall>ev\<in>set evs. midi_valid ev" "3 \<le> space"
  shows "\<exists>outs dev' ev'. run_encode (decode_all m space evs (snd_midi_event_no_status nostat dev)) dev ev0 = Some (outs, dev', ev') \<and>
    map (\<lambda>(e, data). midi_message e) outs = map midi_message evs"
proof (rule round_trip_in_step [OF _ assms(4,5)])
  show "in_step (snd_midi_event_no_status nostat dev) dev"
    using new_coder_ok [OF assms(1-3)] by (simp add: in_step_def snd_midi_event_no_status_def)
qed

definition note_on :: "u8 \<Rightarrow> u8 \<Rightarrow> u8 \<Rightarrow> seq_event" where
  "note_on ch note vel = set_data_byte 2 vel (set_data_byte 1 note (set_data_byte 0 ch
     \<lparr>ev_type = 6, ev_flags = 0, ev_tag = 0, ev_queue = 0, ev_time = Real_time 0 0,
      ev_source = (0, 0), ev_dest = (0, 0), ev_data = (0, 0, 0)\<rparr>))"

theorem midi_stream_round_trip_witness:
  "\<exists>outs dev' ev'. run_encode (decode_all sample_mem 3 [note_on 2 60 100, note_on 2 64 100]
      (snd_midi_event_no_status False sample_coder)) sample_coder (note_on 0 0 0) = Some (outs, dev', ev') \<and>
    map (\<lambda>(e, data). midi_message e) outs = map midi_message [note_on 2 60 100, note_on 2 64 100]"
  by (rule midi_stream_round_trip [where bufsize = 256 and ptr = "0x1000" and buf = "replicate 256 0"])
    (simp_all add: sample_coder_def snd_midi_event_new_def Let_def midi_valid_def note_on_def)

text \<open>
  C31. A system exclusive message of any length is passed on complete and in order, in pieces that fit the
  buffer of the parser: the data of the events put together is the message. Real-time bytes in between
  neither disturb it nor get lost: they give their own events, in order.
\<close>

theorem sysex_reassembled:
  assumes "coder_ok dev" "length (me_buf dev) < 0x40000000" "\<forall>b\<in>set bs. b AND 0x80 = 0 \<or> b \<ge> 0xf8"
  shows "\<exists>outs dev' ev'. run_encode (0xf0 # bs @ [0xf7]) dev ev = Some (outs, dev', ev') \<and>
    concat (map snd outs) = filter (\<lambda>b. b < 0xf8) (0xf0 # bs @ [0xf7]) \<and>
    (\<forall>out\<in>set outs. length (snd out) \<le> length (me_buf dev)) \<and>
    filter (\<lambda>t. t \<noteq> 130) (map (\<lambda>out. ev_type (fst out)) outs) =
      filter (\<lambda>t. t \<noteq> EVENT_NONE) (map realtime_type (filter (\<lambda>b. b \<ge> 0xf8) bs)) \<and>
    me_type dev' = ST_INVALID"
proof -
  let ?d = "dev\<lparr>me_buf := (me_buf dev)[0 := 0xf0], me_type := 8, me_read := 1, me_qlen := 1\<rparr>"
  have "se_qlen (status_event ! 8) = 1" by (simp add: status_event_def)
  then have "snd_midi_event_encode_byte 0xf0 dev ev = finish_byte 0xf0 ?d ev"
    using encode_status [OF assms(1), of "0xf0" ev] by (simp add: command_type_def)
  also have "\<dots> = Some (False, ?d, ev)" using assms(1) by (simp add: finish_byte_def coder_ok_def)
  finally have first: "snd_midi_event_encode_byte 0xf0 dev ev = Some (False, ?d, ev)" .
  have "take 1 ((me_buf dev)[0 := 0xf0]) = [0xf0]" using assms(1) by (cases "me_buf dev") (auto simp: coder_ok_def)
  then have "in_sysex ?d [0xf0]" using assms(1,2) by (auto simp: in_sysex_def coder_ok_def)
  from sysex_run [OF this assms(3), of ev] show ?thesis using first by auto
qed

theorem sysex_reassembled_witness:
  "\<exists>outs dev' ev'. run_encode (0xf0 # [1, 0xfa, 2] @ [0xf7]) sample_coder (note_on 0 0 0) = Some (outs, dev', ev') \<and>
    concat (map snd outs) = filter (\<lambda>b. b < 0xf8) (0xf0 # [1, 0xfa, 2] @ [0xf7]) \<and>
    (\<forall>out\<in>set outs. length (snd out) \<le> length (me_buf sample_coder)) \<and>
    filter (\<lambda>t. t \<noteq> 130) (map (\<lambda>out. ev_type (fst out)) outs) =
      filter (\<lambda>t. t \<noteq> EVENT_NONE) (map realtime_type (filter (\<lambda>b. b \<ge> 0xf8) [1, 0xfa, 2])) \<and>
    me_type dev' = ST_INVALID"
  by (rule sysex_reassembled) (simp_all add: sample_coder_def snd_midi_event_new_def Let_def coder_ok_def)

text \<open>
  C32. The parser never reads or writes outside its buffer, whatever bytes arrive: with a buffer of three
  bytes or more it takes every stream, and its state stays in bounds.
\<close>

theorem parser_in_bounds:
  assumes "snd_midi_event_new bufsize (Some (ptr, buf)) = (0, Some dev)" "3 \<le> bufsize" "nat bufsize \<le> length buf"
  shows "\<exists>outs dev' ev'. run_encode cs dev ev = Some (outs, dev', ev') \<and> me_type dev' < length status_event \<and>
    length (me_buf dev') = nat bufsize \<and> (me_qlen dev' > 0 \<longrightarrow> me_read dev' < nat bufsize)"
proof -
  have len: "length (me_buf d') = length (me_buf d)" if "coder_ok d" "run_encode cs d e = Some (outs, d', e')" for d e outs d' e'
    using that
  proof (induction cs arbitrary: d e outs)
    case (Cons c cs)
    obtain rc d1 e1 where "snd_midi_event_encode_byte c d e = Some (rc, d1, e1)" "coder_ok d1" "length (me_buf d1) = length (me_buf d)"
      using encode_byte_ok [OF Cons.prems(1), of c e] by blast
    then show ?case using Cons.prems(2) Cons.IH [of d1 e1] by auto
  qed simp
  note n = new_coder_ok [OF assms]
  obtain outs dev' ev' where r: "run_encode cs dev ev = Some (outs, dev', ev')" "coder_ok dev'"
    using run_encode_ok [OF n(1)] by blast
  have "length status_event = 24" by (simp add: status_event_def)
  then show ?thesis using r len [OF n(1) r(1)] n(2) by (auto simp: coder_ok_def split: if_splits)
qed

theorem parser_in_bounds_witness:
  "\<exists>outs dev' ev'. run_encode [0x40, 0xf0, 0xf7, 0xf7] sample_coder (note_on 0 0 0) = Some (outs, dev', ev') \<and>
    me_type dev' < length status_event \<and> length (me_buf dev') = nat 256 \<and> (me_qlen dev' > 0 \<longrightarrow> me_read dev' < nat 256)"
  by (rule parser_in_bounds [where ptr = "0x1000" and buf = "replicate 256 0"])
    (simp_all add: sample_coder_def snd_midi_event_new_def Let_def)

text \<open>
  A decode that fails for lack of room has already noted the status byte as sent: when the caller tries
  again with enough room, the status byte is missing.
\<close>

lemma failed_decode_loses_status:
  "fst (snd_midi_event_decode data bad m 2 sample_coder (note_on 2 60 100)) = - ENOMEM"
  "snd_midi_event_decode data bad m 3 (snd (snd (snd_midi_event_decode data bad m 2 sample_coder (note_on 2 60 100)))) (note_on 2 60 100) =
     (2, [60, 100], sample_coder\<lparr>me_lastcmd := 0x92\<rparr>)"
proof -
  let ?e = "note_on 2 60 100"
  have v: "midi_valid ?e" "midi_index ?e = Suc 0" "status_byte (Suc 0) ?e = 0x92" "ev_type ?e = 6"
    "data_byte 1 ?e = 60" "data_byte 2 ?e = 100"
    by (simp_all add: midi_valid_def midi_index_type status_byte_def note_on_def)
  then have d: "snd_midi_event_decode data bad m n dev ?e = decode_fixed (Suc 0) n dev ?e" for n dev
    using decode_valid [OF v(1)] by simp
  show "fst (snd_midi_event_decode data bad m 2 sample_coder ?e) = - ENOMEM"
    "snd_midi_event_decode data bad m 3 (snd (snd (snd_midi_event_decode data bad m 2 sample_coder ?e))) ?e =
     (2, [60, 100], sample_coder\<lparr>me_lastcmd := 0x92\<rparr>)"
    using v by (simp_all add: d decode_fixed_def Let_def status_entries note_decode_def sample_coder_def snd_midi_event_new_def)
qed

end
