(* ===== verification/SeqQueue.thy ===== *)
theory SeqQueue
  imports SeqPrioq SeqMidiEvent
begin

text \<open>
  The timing queues of the sequencer, \<^verbatim>\<open>core/seq/seq_queue.c\<close>, with \<^verbatim>\<open>snd_seq_dispatch_event\<close> of
  \<^verbatim>\<open>seq_clientmgr.c\<close>, through which they hand out events. A queue owns two priority queues, one for events
  stamped in ticks and one for real time, and a timer. The state holds the table of queues and the memory of
  the cells; it is extensible, so that the client manager can add its own part. What the client manager
  does is passed in: \<open>known\<close> says whether a client exists, \<open>deliver\<close> sends an event. Operations run one
  after the other; \<open>None\<close> is a call that does not return (a use count that never drops, a chain that does
  not end) or a fault.
\<close>

section \<open>State\<close>

record seq_queue =
  q_queue :: int
  q_name :: string
  q_tickq :: seq_prioq
  q_timeq :: seq_prioq
  q_timer :: seq_timer
  q_owner :: int
  q_locked :: bool
  q_klocked :: bool
  q_check_again :: bool
  q_check_blocked :: bool
  q_info_flags :: u32
  q_clients_bitmap :: "int \<Rightarrow> bool"
  q_clients :: u32
  q_use_lock :: int

record seq_state =
  queue_list :: "nat \<Rightarrow> seq_queue option"
  num_queues :: int
  sq_mem :: seq_mem

abbreviation (input) MAX_QUEUES :: nat where "MAX_QUEUES \<equiv> 32"

definition upd_queue :: "nat \<Rightarrow> (seq_queue \<Rightarrow> seq_queue) \<Rightarrow> 'm seq_state_scheme \<Rightarrow> 'm seq_state_scheme" where
  "upd_queue i f st = st\<lparr>queue_list := (queue_list st)(i := map_option f (queue_list st i))\<rparr>"

definition snd_seq_queue_get_cur_queues :: "'m seq_state_scheme \<Rightarrow> int" where
  "snd_seq_queue_get_cur_queues st = num_queues st"

section \<open>The table of queues\<close>

fun first_free :: "(nat \<Rightarrow> seq_queue option) \<Rightarrow> nat \<Rightarrow> nat \<Rightarrow> nat option" where
  "first_free l i 0 = None"
| "first_free l i (Suc n) = (if l i = None then Some i else first_free l (Suc i) n)"

definition queue_list_add :: "seq_queue \<Rightarrow> 'm seq_state_scheme \<Rightarrow> int \<times> 'm seq_state_scheme" where
  "queue_list_add q st =
     (case first_free (queue_list st) 0 MAX_QUEUES of
        None \<Rightarrow> (- 1, st)
      | Some i \<Rightarrow> (int i, st\<lparr>queue_list := (queue_list st)(i \<mapsto> q\<lparr>q_queue := int i\<rparr>), num_queues := num_queues st + 1\<rparr>))"

definition queue_list_remove :: "nat \<Rightarrow> int \<Rightarrow> 'm seq_state_scheme \<Rightarrow> seq_queue option \<times> 'm seq_state_scheme" where
  "queue_list_remove i client st =
     (case queue_list st i of
        None \<Rightarrow> (None, st)
      | Some q \<Rightarrow>
          if q_owner q = client
          then (Some (q\<lparr>q_klocked := True\<rparr>), st\<lparr>queue_list := (queue_list st)(i := None), num_queues := num_queues st - 1\<rparr>)
          else (None, st))"

text \<open>A queue in use: its index, with the use count raised.\<close>

definition queueptr :: "int \<Rightarrow> 'm seq_state_scheme \<Rightarrow> nat option \<times> 'm seq_state_scheme" where
  "queueptr queueid st =
     (if queueid < 0 \<or> queueid \<ge> int MAX_QUEUES then (None, st)
      else
        case queue_list st (nat queueid) of
          None \<Rightarrow> (None, st)
        | Some q \<Rightarrow> (Some (nat queueid), upd_queue (nat queueid) (\<lambda>q. q\<lparr>q_use_lock := q_use_lock q + 1\<rparr>) st))"

definition queuefree :: "nat \<Rightarrow> 'm seq_state_scheme \<Rightarrow> 'm seq_state_scheme" where
  "queuefree i st = upd_queue i (\<lambda>q. q\<lparr>q_use_lock := q_use_lock q - 1\<rparr>) st"

fun find_name_from :: "string \<Rightarrow> nat \<Rightarrow> nat \<Rightarrow> 'm seq_state_scheme \<Rightarrow> nat option \<times> 'm seq_state_scheme" where
  "find_name_from name i 0 st = (None, st)"
| "find_name_from name i (Suc n) st =
     (case queueptr (int i) st of
        (None, st) \<Rightarrow> find_name_from name (Suc i) n st
      | (Some k, st) \<Rightarrow>
          if map_option (\<lambda>q. take 64 (q_name q)) (queue_list st k) = Some (take 64 name) then (Some k, st)
          else find_name_from name (Suc i) n (queuefree k st))"

definition snd_seq_queue_find_name :: "string \<Rightarrow> 'm seq_state_scheme \<Rightarrow> nat option \<times> 'm seq_state_scheme" where
  "snd_seq_queue_find_name name st = find_name_from name 0 MAX_QUEUES st"

section \<open>Creating and deleting\<close>

text \<open>What opening the ALSA timer gives, and the module's default resolution.\<close>

record timer_env =
  te_pref :: u32
  te_alloc :: bool
  te_own :: "int + timer_inst"
  te_retry :: bool
  te_system :: "int + timer_inst"

definition timer_open :: "timer_env \<Rightarrow> seq_timer \<Rightarrow> int \<times> seq_timer" where
  "timer_open env = snd_seq_timer_open (te_alloc env) (te_own env) (te_retry env) (te_system env)"

text \<open>\<open>mem\<close>: the four allocations succeed.\<close>

definition queue_new :: "timer_env \<Rightarrow> bool \<Rightarrow> int \<Rightarrow> bool \<Rightarrow> seq_queue option" where
  "queue_new env mem owner locked =
     (if \<not> mem then None
      else map_option (\<lambda>tmr.
        \<lparr>q_queue = - 1, q_name = [], q_tickq = snd_seq_prioq_new, q_timeq = snd_seq_prioq_new, q_timer = tmr,
         q_owner = owner, q_locked = locked, q_klocked = False, q_check_again = False, q_check_blocked = False,
         q_info_flags = 0, q_clients_bitmap = (\<lambda>_. False), q_clients = 0, q_use_lock = 0\<rparr>)
        (snd_seq_timer_new (te_pref env)))"

text \<open>The timer of a deleted queue is stopped and closed, and gone with it.\<close>

definition queue_delete :: "seq_queue \<Rightarrow> 'm seq_state_scheme \<Rightarrow> 'm seq_state_scheme option" where
  "queue_delete q st =
     (if q_use_lock q > 0 then None
      else
        Option.bind (snd_seq_prioq_delete (q_tickq q) (sq_mem st)) (\<lambda>m.
          map_option (\<lambda>m. st\<lparr>sq_mem := m\<rparr>) (snd_seq_prioq_delete (q_timeq q) m)))"

fun delete_from :: "nat \<Rightarrow> nat \<Rightarrow> 'm seq_state_scheme \<Rightarrow> 'm seq_state_scheme option" where
  "delete_from i 0 st = Some st"
| "delete_from i (Suc n) st =
     (case queue_list st i of
        None \<Rightarrow> delete_from (Suc i) n st
      | Some q \<Rightarrow> Option.bind (queue_delete q st) (delete_from (Suc i) n))"

definition snd_seq_queues_delete :: "'m seq_state_scheme \<Rightarrow> 'm seq_state_scheme option" where
  "snd_seq_queues_delete st = delete_from 0 MAX_QUEUES st"

definition queue_use :: "timer_env \<Rightarrow> int \<Rightarrow> bool \<Rightarrow> seq_queue \<Rightarrow> seq_queue option" where
  "queue_use env client use q =
     (let q = (if use
               then (if q_clients_bitmap q client then q
                     else q\<lparr>q_clients_bitmap := (q_clients_bitmap q)(client := True), q_clients := q_clients q + 1\<rparr>)
               else (if q_clients_bitmap q client
                     then q\<lparr>q_clients_bitmap := (q_clients_bitmap q)(client := False), q_clients := q_clients q - 1\<rparr> else q))
      in if q_clients q \<noteq> 0 then
           map_option (\<lambda>tmr. q\<lparr>q_timer := snd (timer_open env tmr)\<rparr>)
             (if use \<and> q_clients q = 1 then snd_seq_timer_defaults (te_pref env) (q_timer q) else Some (q_timer q))
         else Some (q\<lparr>q_timer := snd (snd_seq_timer_close (q_timer q))\<rparr>))"

text \<open>The result is the number of the new queue, or an error.\<close>

definition snd_seq_queue_alloc ::
  "timer_env \<Rightarrow> bool \<Rightarrow> int \<Rightarrow> bool \<Rightarrow> u32 \<Rightarrow> 'm seq_state_scheme \<Rightarrow> (int \<times> 'm seq_state_scheme) option" where
  "snd_seq_queue_alloc env mem client locked info_flags st =
     (case queue_new env mem client locked of
        None \<Rightarrow> Some (- ENOMEM, st)
      | Some q \<Rightarrow>
          case queue_use env client True (q\<lparr>q_info_flags := info_flags\<rparr>) of
            None \<Rightarrow> None
          | Some q \<Rightarrow>
              let q = q\<lparr>q_use_lock := q_use_lock q + 1\<rparr>; (i, st) = queue_list_add q st
              in if i < 0 then map_option (Pair (- ENOMEM)) (queue_delete (q\<lparr>q_use_lock := q_use_lock q - 1\<rparr>) st)
                 else Some (i, st))"

definition snd_seq_queue_delete :: "int \<Rightarrow> int \<Rightarrow> 'm seq_state_scheme \<Rightarrow> (int \<times> 'm seq_state_scheme) option" where
  "snd_seq_queue_delete client queueid st =
     (if queueid < 0 \<or> queueid \<ge> int MAX_QUEUES then Some (- EINVAL, st)
      else
        case queue_list_remove (nat queueid) client st of
          (None, st) \<Rightarrow> Some (- EINVAL, st)
        | (Some q, st) \<Rightarrow> map_option (Pair 0) (queue_delete q st))"

section \<open>Dispatching\<close>

abbreviation (input) MAX_CELL_PROCESSES :: nat where "MAX_CELL_PROCESSES \<equiv> 1000"

text \<open>The events that are due leave one of the priority queues, as long as the budget lasts.\<close>

definition pq_of :: "bool \<Rightarrow> seq_queue \<Rightarrow> seq_prioq" where
  "pq_of tickq q = (if tickq then q_tickq q else q_timeq q)"

definition set_pq :: "bool \<Rightarrow> seq_prioq \<Rightarrow> seq_queue \<Rightarrow> seq_queue" where
  "set_pq tickq f q = (if tickq then q\<lparr>q_tickq := f\<rparr> else q\<lparr>q_timeq := f\<rparr>)"

fun run_ready ::
  "(u32 \<Rightarrow> 'm seq_state_scheme \<Rightarrow> 'm seq_state_scheme option) \<Rightarrow> bool \<Rightarrow> real_time \<Rightarrow> nat \<Rightarrow> nat \<Rightarrow> 'm seq_state_scheme \<Rightarrow>
   (nat \<times> 'm seq_state_scheme) option" where
  "run_ready dispatch tickq now i 0 st = Some (0, st)"
| "run_ready dispatch tickq now i (Suc n) st =
     (case queue_list st i of
        None \<Rightarrow> None
      | Some q \<Rightarrow>
          let (cell, f, m) = snd_seq_prioq_cell_out (Some now) (pq_of tickq q) (sq_mem st)
          in if cell = 0 then Some (Suc n, st)
             else
               Option.bind (dispatch cell ((upd_queue i (set_pq tickq f) st)\<lparr>sq_mem := m\<rparr>)) (run_ready dispatch tickq now i n))"

text \<open>One round, from \<^verbatim>\<open>__again\<close> to \<^verbatim>\<open>out\<close>; the rounds are repeated while somebody asked for a check meanwhile.\<close>

definition check_round ::
  "(u32 \<Rightarrow> 'm seq_state_scheme \<Rightarrow> 'm seq_state_scheme option) \<Rightarrow> nat \<Rightarrow> nat \<Rightarrow> 'm seq_state_scheme \<Rightarrow>
   (nat \<times> 'm seq_state_scheme) option" where
  "check_round dispatch i budget st =
     (case queue_list st i of
        None \<Rightarrow> None
      | Some q \<Rightarrow>
          let cur_tick = snd_seq_timer_get_cur_tick (q_timer q)
          in case run_ready dispatch True (Real_time cur_tick 0) i budget st of
               None \<Rightarrow> None
             | Some (budget, st) \<Rightarrow>
                 if budget = 0 then Some (0, st)
                 else
                   case queue_list st i of
                     None \<Rightarrow> None
                   | Some q \<Rightarrow>
                       run_ready dispatch False (snd_seq_timer_get_cur_time False (Real_time 0 0) (q_timer q)) i budget st)"

partial_function (option) check_rounds ::
  "(u32 \<Rightarrow> 'm seq_state_scheme \<Rightarrow> 'm seq_state_scheme option) \<Rightarrow> nat \<Rightarrow> nat \<Rightarrow> 'm seq_state_scheme \<Rightarrow>
   'm seq_state_scheme option" where
  "check_rounds dispatch i budget st =
     (case check_round dispatch i budget st of
        None \<Rightarrow> None
      | Some (budget, st) \<Rightarrow>
          let again = (case queue_list st i of None \<Rightarrow> False | Some q \<Rightarrow> q_check_again q);
              st = upd_queue i (\<lambda>q. q\<lparr>q_check_again := False\<rparr>) st
          in if again \<and> budget > 0 then check_rounds dispatch i budget st
             else Some (upd_queue i (\<lambda>q. q\<lparr>q_check_blocked := False\<rparr>) st))"

definition snd_seq_check_queue ::
  "(u32 \<Rightarrow> 'm seq_state_scheme \<Rightarrow> 'm seq_state_scheme option) \<Rightarrow> nat \<Rightarrow> 'm seq_state_scheme \<Rightarrow> 'm seq_state_scheme option" where
  "snd_seq_check_queue dispatch i st =
     (case queue_list st i of
        None \<Rightarrow> Some st
      | Some q \<Rightarrow>
          if q_check_blocked q then Some (upd_queue i (\<lambda>q. q\<lparr>q_check_again := True\<rparr>) st)
          else check_rounds dispatch i MAX_CELL_PROCESSES (upd_queue i (\<lambda>q. q\<lparr>q_check_blocked := True\<rparr>) st))"

text \<open>A relative time becomes an absolute one.\<close>

definition absolute_time :: "seq_timer \<Rightarrow> seq_event \<Rightarrow> seq_event" where
  "absolute_time tmr e =
     (if ev_flags e AND 2 = 2 then
        (e\<lparr>ev_time := (if snd_seq_ev_is_tick e
                        then Real_time (ev_tick e + cur_tick (tick tmr)) (tv_nsec (ev_time e))
                        else snd_seq_inc_real_time (ev_time e) (cur_time tmr))\<rparr>)
          \<lparr>ev_flags := ev_flags e AND NOT 2\<rparr>
      else e)"

text \<open>\<open>check\<close> is the check of the queue that follows the insertion.\<close>

definition enqueue_with ::
  "(nat \<Rightarrow> 'm seq_state_scheme \<Rightarrow> 'm seq_state_scheme option) \<Rightarrow> u32 \<Rightarrow> 'm seq_state_scheme \<Rightarrow>
   (int \<times> 'm seq_state_scheme) option" where
  "enqueue_with check cell st =
     (case queueptr (uint (ev_queue (event_of (sq_mem st) cell))) st of
        (None, st) \<Rightarrow> Some (- EINVAL, st)
      | (Some i, st) \<Rightarrow>
          case queue_list st i of
            None \<Rightarrow> None
          | Some q \<Rightarrow>
              let m = upd_cell cell (\<lambda>c. c\<lparr>cell_event := absolute_time (q_timer q) (cell_event c)\<rparr>) (sq_mem st);
                  tickq = snd_seq_ev_is_tick (event_of m cell);
                  (err, f, m) = snd_seq_prioq_cell_in cell (pq_of tickq q) m;
                  st = (upd_queue i (set_pq tickq f) st)\<lparr>sq_mem := m\<rparr>
              in if err < 0 then Some (err, queuefree i st)
                 else map_option (\<lambda>st. (0, queuefree i st)) (check i st))"

text \<open>
  The end of a note. Its cell goes back to the queue it came from, whose check is running, so the check
  that follows only asks for another round.
\<close>

definition note_off :: "seq_event \<Rightarrow> seq_event" where
  "note_off e =
     (let duration = ctrl_param e; nsec = tv_nsec (ev_time e) + 1000000 * (duration mod 1000);
          time = (if snd_seq_ev_is_tick e then Real_time (ev_tick e + duration) (tv_nsec (ev_time e))
                  else Real_time (tv_sec (ev_time e) + (duration div 1000 + nsec div 1000000000)) (nsec mod 1000000000))
      in set_data_byte 2 (data_byte 3 e) (e\<lparr>ev_type := 7, ev_flags := ev_flags e OR 16, ev_time := time\<rparr>))"

definition check_again :: "nat \<Rightarrow> 'm seq_state_scheme \<Rightarrow> 'm seq_state_scheme option" where
  "check_again i st =
     (case queue_list st i of
        None \<Rightarrow> Some st
      | Some q \<Rightarrow> if q_check_blocked q then Some (upd_queue i (\<lambda>q. q\<lparr>q_check_again := True\<rparr>) st) else None)"

definition snd_seq_dispatch_event ::
  "(int \<Rightarrow> 'm seq_state_scheme \<Rightarrow> bool) \<Rightarrow> (seq_event \<Rightarrow> 'm seq_state_scheme \<Rightarrow> (int \<times> 'm seq_state_scheme) option) \<Rightarrow> u32 \<Rightarrow>
   'm seq_state_scheme \<Rightarrow> 'm seq_state_scheme option" where
  "snd_seq_dispatch_event known deliver cell st =
     (let e = event_of (sq_mem st) cell;
          free = (\<lambda>st. map_option (\<lambda>m. st\<lparr>sq_mem := m\<rparr>) (snd_seq_cell_free cell (sq_mem st)))
      in if \<not> known (uint (fst (ev_source e))) st then free st
         else if ev_type e = 5 then
           Option.bind (deliver (e\<lparr>ev_type := 6\<rparr>) st) (\<lambda>(result, st).
             Option.bind (enqueue_with check_again cell
                 (st\<lparr>sq_mem := upd_cell cell (\<lambda>c. c\<lparr>cell_event := note_off (cell_event c)\<rparr>) (sq_mem st)\<rparr>))
               (\<lambda>(err, st). if err < 0 then free st else Some st))
         else Option.bind (deliver e st) (\<lambda>(result, st). free st))"

definition snd_seq_enqueue_event ::
  "(int \<Rightarrow> 'm seq_state_scheme \<Rightarrow> bool) \<Rightarrow> (seq_event \<Rightarrow> 'm seq_state_scheme \<Rightarrow> (int \<times> 'm seq_state_scheme) option) \<Rightarrow> u32 \<Rightarrow>
   'm seq_state_scheme \<Rightarrow> (int \<times> 'm seq_state_scheme) option" where
  "snd_seq_enqueue_event known deliver cell st =
     enqueue_with (snd_seq_check_queue (snd_seq_dispatch_event known deliver)) cell st"

section \<open>Access\<close>

definition check_access :: "seq_queue \<Rightarrow> int \<Rightarrow> bool" where
  "check_access q client \<longleftrightarrow> q_owner q = client \<or> \<not> q_locked q \<and> \<not> q_klocked q"

definition queue_access_lock :: "nat \<Rightarrow> int \<Rightarrow> 'm seq_state_scheme \<Rightarrow> bool \<times> 'm seq_state_scheme" where
  "queue_access_lock i client st =
     (case queue_list st i of
        None \<Rightarrow> (False, st)
      | Some q \<Rightarrow>
          if check_access q client then (True, upd_queue i (\<lambda>q. q\<lparr>q_klocked := True\<rparr>) st) else (False, st))"

definition queue_access_unlock :: "nat \<Rightarrow> 'm seq_state_scheme \<Rightarrow> 'm seq_state_scheme" where
  "queue_access_unlock i st = upd_queue i (\<lambda>q. q\<lparr>q_klocked := False\<rparr>) st"

definition snd_seq_queue_check_access :: "int \<Rightarrow> int \<Rightarrow> 'm seq_state_scheme \<Rightarrow> bool \<times> 'm seq_state_scheme" where
  "snd_seq_queue_check_access queueid client st =
     (case queueptr queueid st of
        (None, st) \<Rightarrow> (False, st)
      | (Some i, st) \<Rightarrow>
          (case queue_list st i of None \<Rightarrow> False | Some q \<Rightarrow> check_access q client, queuefree i st))"

text \<open>The frame of the operations that need access: \<^verbatim>\<open>queueptr\<close>, lock, the work, unlock, \<^verbatim>\<open>queuefree\<close>.\<close>

definition with_access ::
  "int \<Rightarrow> int \<Rightarrow> (nat \<Rightarrow> 'm seq_state_scheme \<Rightarrow> (int \<times> 'm seq_state_scheme) option) \<Rightarrow> 'm seq_state_scheme \<Rightarrow>
   (int \<times> 'm seq_state_scheme) option" where
  "with_access queueid client work st =
     (case queueptr queueid st of
        (None, st) \<Rightarrow> Some (- EINVAL, st)
      | (Some i, st) \<Rightarrow>
          case queue_access_lock i client st of
            (False, st) \<Rightarrow> Some (- EPERM, queuefree i st)
          | (True, st) \<Rightarrow> map_option (\<lambda>(r, st). (r, queuefree i (queue_access_unlock i st))) (work i st))"

definition snd_seq_queue_set_owner :: "int \<Rightarrow> int \<Rightarrow> bool \<Rightarrow> 'm seq_state_scheme \<Rightarrow> (int \<times> 'm seq_state_scheme) option" where
  "snd_seq_queue_set_owner queueid client locked =
     with_access queueid client (\<lambda>i st. Some (0, upd_queue i (\<lambda>q. q\<lparr>q_locked := locked, q_owner := client\<rparr>) st))"

text \<open>A timer operation on the queue in use.\<close>

definition on_timer ::
  "(seq_timer \<Rightarrow> (int \<times> seq_timer) option) \<Rightarrow> nat \<Rightarrow> 'm seq_state_scheme \<Rightarrow> (int \<times> 'm seq_state_scheme) option" where
  "on_timer f i st =
     (case queue_list st i of
        None \<Rightarrow> None
      | Some q \<Rightarrow> map_option (\<lambda>(r, tmr). (r, upd_queue i (\<lambda>q. q\<lparr>q_timer := tmr\<rparr>) st)) (f (q_timer q)))"

definition snd_seq_queue_timer_open :: "timer_env \<Rightarrow> int \<Rightarrow> 'm seq_state_scheme \<Rightarrow> (int \<times> 'm seq_state_scheme) option" where
  "snd_seq_queue_timer_open env queueid st =
     (case queueptr queueid st of
        (None, st) \<Rightarrow> Some (- EINVAL, st)
      | (Some i, st) \<Rightarrow>
          map_option (\<lambda>(r, st). (r, queuefree i st))
            (on_timer (\<lambda>tmr.
               let (result, tmr) = timer_open env tmr
               in if result < 0 then map_option (timer_open env) (snd_seq_timer_defaults (te_pref env) tmr)
                  else Some (result, tmr)) i st))"

definition snd_seq_queue_timer_close :: "int \<Rightarrow> 'm seq_state_scheme \<Rightarrow> (int \<times> 'm seq_state_scheme) option" where
  "snd_seq_queue_timer_close queueid st =
     (case queueptr queueid st of
        (None, st) \<Rightarrow> Some (- EINVAL, st)
      | (Some i, st) \<Rightarrow>
          map_option (\<lambda>(r, st). (0, queuefree i st)) (on_timer (\<lambda>tmr. Some (snd_seq_timer_close tmr)) i st))"

text \<open>\<^verbatim>\<open>struct snd_seq_queue_tempo\<close>\<close>

record queue_tempo =
  qt_tempo :: u32
  qt_ppq :: u32
  qt_skew_value :: u32
  qt_skew_base :: u32

definition snd_seq_queue_timer_set_tempo ::
  "int \<Rightarrow> int \<Rightarrow> queue_tempo \<Rightarrow> 'm seq_state_scheme \<Rightarrow> (int \<times> 'm seq_state_scheme) option" where
  "snd_seq_queue_timer_set_tempo queueid client info =
     with_access queueid client (on_timer (\<lambda>tmr.
       case snd_seq_timer_set_tempo_ppq (qt_tempo info) (qt_ppq info) tmr of
         None \<Rightarrow> None
       | Some (result, tmr) \<Rightarrow>
           if result \<ge> 0 \<and> qt_skew_base info > 0
           then Some (snd_seq_timer_set_skew (qt_skew_value info) (qt_skew_base info) tmr)
           else Some (result, tmr)))"

definition snd_seq_queue_use :: "timer_env \<Rightarrow> int \<Rightarrow> int \<Rightarrow> bool \<Rightarrow> 'm seq_state_scheme \<Rightarrow> (int \<times> 'm seq_state_scheme) option" where
  "snd_seq_queue_use env queueid client use st =
     (case queueptr queueid st of
        (None, st) \<Rightarrow> Some (- EINVAL, st)
      | (Some i, st) \<Rightarrow>
          case queue_list st i of
            None \<Rightarrow> None
          | Some q \<Rightarrow> map_option (\<lambda>q. (0, queuefree i (upd_queue i (\<lambda>_. q) st))) (queue_use env client use q))"

definition snd_seq_queue_is_used :: "int \<Rightarrow> int \<Rightarrow> 'm seq_state_scheme \<Rightarrow> int \<times> 'm seq_state_scheme" where
  "snd_seq_queue_is_used queueid client st =
     (case queueptr queueid st of
        (None, st) \<Rightarrow> (- EINVAL, st)
      | (Some i, st) \<Rightarrow>
          (case queue_list st i of None \<Rightarrow> 0 | Some q \<Rightarrow> if q_clients_bitmap q client then 1 else 0, queuefree i st))"

section \<open>Clients that leave\<close>

text \<open>A removal on both priority queues of queue \<open>i\<close>.\<close>

definition on_prioqs ::
  "(seq_prioq \<Rightarrow> seq_mem \<Rightarrow> (seq_prioq \<times> seq_mem) option) \<Rightarrow> nat \<Rightarrow> 'm seq_state_scheme \<Rightarrow> 'm seq_state_scheme option" where
  "on_prioqs f i st =
     (case queue_list st i of
        None \<Rightarrow> None
      | Some q \<Rightarrow>
          Option.bind (f (q_tickq q) (sq_mem st)) (\<lambda>(tq, m).
            map_option (\<lambda>(rq, m). (upd_queue i (\<lambda>q. q\<lparr>q_tickq := tq, q_timeq := rq\<rparr>) st)\<lparr>sq_mem := m\<rparr>)
              (f (q_timeq q) m)))"

fun for_queues ::
  "(nat \<Rightarrow> 'm seq_state_scheme \<Rightarrow> 'm seq_state_scheme option) \<Rightarrow> nat \<Rightarrow> nat \<Rightarrow> 'm seq_state_scheme \<Rightarrow> 'm seq_state_scheme option" where
  "for_queues f i 0 st = Some st"
| "for_queues f i (Suc n) st =
     (case queueptr (int i) st of
        (None, st) \<Rightarrow> for_queues f (Suc i) n st
      | (Some k, st) \<Rightarrow> Option.bind (f k st) (\<lambda>st. for_queues f (Suc i) n (queuefree k st)))"

fun delete_owned :: "int \<Rightarrow> nat \<Rightarrow> nat \<Rightarrow> 'm seq_state_scheme \<Rightarrow> 'm seq_state_scheme option" where
  "delete_owned client i 0 st = Some st"
| "delete_owned client i (Suc n) st =
     (case queue_list_remove i client st of
        (None, st) \<Rightarrow> delete_owned client (Suc i) n st
      | (Some q, st) \<Rightarrow> Option.bind (queue_delete q st) (delete_owned client (Suc i) n))"

definition snd_seq_queue_client_leave :: "timer_env \<Rightarrow> int \<Rightarrow> 'm seq_state_scheme \<Rightarrow> 'm seq_state_scheme option" where
  "snd_seq_queue_client_leave env client st =
     Option.bind (delete_owned client 0 MAX_QUEUES st)
       (for_queues (\<lambda>i st.
          case queue_list st i of
            None \<Rightarrow> None
          | Some q \<Rightarrow>
              if q_clients_bitmap q client
              then Option.bind (on_prioqs (snd_seq_prioq_leave client False) i st)
                     (\<lambda>st. map_option snd (snd_seq_queue_use env (q_queue q) client False st))
              else Some st) 0 MAX_QUEUES)"

definition snd_seq_queue_client_leave_cells :: "int \<Rightarrow> 'm seq_state_scheme \<Rightarrow> 'm seq_state_scheme option" where
  "snd_seq_queue_client_leave_cells client st =
     for_queues (on_prioqs (snd_seq_prioq_leave client False)) 0 MAX_QUEUES st"

definition snd_seq_queue_remove_cells :: "int \<Rightarrow> remove_events \<Rightarrow> 'm seq_state_scheme \<Rightarrow> 'm seq_state_scheme option" where
  "snd_seq_queue_remove_cells client info st =
     for_queues (\<lambda>i st.
       case queue_list st i of
         None \<Rightarrow> None
       | Some q \<Rightarrow>
           if q_clients_bitmap q client \<and> (remove_mode info AND 4 = 0 \<or> q_queue q = uint (rm_queue info))
           then on_prioqs (snd_seq_prioq_remove_events client info) i st
           else Some st) 0 MAX_QUEUES st"

section \<open>Control events\<close>

definition queue_broadcast_event ::
  "(seq_event \<Rightarrow> 'm seq_state_scheme \<Rightarrow> (int \<times> 'm seq_state_scheme) option) \<Rightarrow> nat \<Rightarrow> seq_event \<Rightarrow> 'm seq_state_scheme \<Rightarrow>
   'm seq_state_scheme option" where
  "queue_broadcast_event deliver i ev st =
     (case queue_list st i of
        None \<Rightarrow> None
      | Some q \<Rightarrow>
          map_option snd (deliver
            (set_data_byte 0 (word_of_int (q_queue q))
               (ev\<lparr>ev_flags := 0, ev_time := Real_time (cur_tick (tick (q_timer q))) (tv_nsec (ev_time ev)),
                   ev_queue := word_of_int (q_queue q), ev_source := (0, 0), ev_dest := (254, snd (ev_dest ev))\<rparr>)) st))"

text \<open>What a control event does to the queue: the status of the timer operation decides about the broadcast.\<close>

definition control_timer :: "seq_event \<Rightarrow> seq_timer \<Rightarrow> (bool \<times> seq_timer) option" where
  "control_timer ev tmr =
     (let param = ctrl_param ev; param2 = ctrl_value ev; if_ok = map_option (\<lambda>(r, tmr). (r = (0 :: int), tmr))
      in if ev_type ev = 30 then if_ok (seq_timer_start tmr)
         else if ev_type ev = 31 then if_ok (seq_timer_continue tmr)
         else if ev_type ev = 32 then Some (True, snd (seq_timer_stop tmr))
         else if ev_type ev = 35 then map_option (\<lambda>(r, tmr). (True, tmr)) (snd_seq_timer_set_tempo param tmr)
         else if ev_type ev = 33 then if_ok (Some (snd_seq_timer_set_position_tick param tmr))
         else if ev_type ev = 34 then if_ok (Some (snd_seq_timer_set_position_time (Real_time param param2) tmr))
         else if ev_type ev = 38 then if_ok (Some (snd_seq_timer_set_skew param param2 tmr))
         else Some (False, tmr))"

definition snd_seq_queue_process_event ::
  "(seq_event \<Rightarrow> 'm seq_state_scheme \<Rightarrow> (int \<times> 'm seq_state_scheme) option) \<Rightarrow> nat \<Rightarrow> seq_event \<Rightarrow> 'm seq_state_scheme \<Rightarrow>
   'm seq_state_scheme option" where
  "snd_seq_queue_process_event deliver i ev st =
     Option.bind (if ev_type ev = 30 then on_prioqs (snd_seq_prioq_leave (uint (fst (ev_source ev))) True) i st else Some st) (\<lambda>st.
       case queue_list st i of
         None \<Rightarrow> None
       | Some q \<Rightarrow>
           Option.bind (control_timer ev (q_timer q)) (\<lambda>(tell, tmr).
             let st = upd_queue i (\<lambda>q. q\<lparr>q_timer := tmr\<rparr>) st
             in if tell then queue_broadcast_event deliver i ev st else Some st))"

definition snd_seq_control_queue ::
  "(seq_event \<Rightarrow> 'm seq_state_scheme \<Rightarrow> (int \<times> 'm seq_state_scheme) option) \<Rightarrow> seq_event \<Rightarrow> 'm seq_state_scheme \<Rightarrow>
   (int \<times> 'm seq_state_scheme) option" where
  "snd_seq_control_queue deliver ev =
     with_access (uint (data_byte 0 ev)) (uint (fst (ev_source ev)))
       (\<lambda>i st. map_option (Pair 0) (snd_seq_queue_process_event deliver i ev st))"

section \<open>Queues in use\<close>

lemma upd_queue_simps [simp]:
  "queue_list (upd_queue i f st) k = (if k = i then map_option f (queue_list st i) else queue_list st k)"
  "num_queues (upd_queue i f st) = num_queues st" "sq_mem (upd_queue i f st) = sq_mem st"
  "seq_state.more (upd_queue i f st) = seq_state.more st"
  by (simp_all add: upd_queue_def)

lemma upd_queue_twice [simp]: "upd_queue i g (upd_queue i f st) = upd_queue i (\<lambda>q. g (f q)) st"
  by (simp add: upd_queue_def option.map_comp comp_def)

lemma upd_queue_id: "(\<And>q. queue_list st i = Some q \<Longrightarrow> f q = q) \<Longrightarrow> upd_queue i f st = st"
  by (cases "queue_list st i") (simp_all add: upd_queue_def fun_upd_idem)

lemma queueptr_free:
  assumes "queueptr queueid st = (Some i, st')"
  shows "queuefree i st' = st" "i = nat queueid" "i < MAX_QUEUES"
    "queue_list st' i = map_option (\<lambda>q. q\<lparr>q_use_lock := q_use_lock q + 1\<rparr>) (queue_list st i)" "queue_list st i \<noteq> None"
proof -
  have s: "st' = upd_queue i (\<lambda>q. q\<lparr>q_use_lock := q_use_lock q + 1\<rparr>) st" "i = nat queueid" "0 \<le> queueid" "queueid < 32"
    "queue_list st i \<noteq> None"
    using assms by (auto simp: queueptr_def split: if_splits option.splits)
  show "queuefree i st' = st" unfolding s(1) queuefree_def by (simp add: upd_queue_id)
  show "i = nat queueid" "i < MAX_QUEUES" "queue_list st i \<noteq> None" using s by auto
  show "queue_list st' i = map_option (\<lambda>q. q\<lparr>q_use_lock := q_use_lock q + 1\<rparr>) (queue_list st i)" using s(1) by simp
qed

lemma queueptr_ok:
  "0 \<le> queueid \<Longrightarrow> queueid < 32 \<Longrightarrow> queue_list st (nat queueid) = Some q \<Longrightarrow>
   queueptr queueid st = (Some (nat queueid), upd_queue (nat queueid) (\<lambda>q. q\<lparr>q_use_lock := q_use_lock q + 1\<rparr>) st)"
  by (simp add: queueptr_def)

lemma with_access_denied:
  assumes "0 \<le> queueid" "queueid < 32" "queue_list st (nat queueid) = Some q" "\<not> check_access q client"
  shows "with_access queueid client work st = Some (- EPERM, st)"
proof -
  let ?i = "nat queueid"
  let ?st = "upd_queue ?i (\<lambda>q. q\<lparr>q_use_lock := q_use_lock q + 1\<rparr>) st"
  note p = queueptr_ok [OF assms(1-3)]
  have "queue_access_lock ?i client ?st = (False, ?st)" using assms(3,4) by (simp add: queue_access_lock_def check_access_def)
  then show ?thesis using p queueptr_free(1) [OF p] by (simp add: with_access_def)
qed

section \<open>The table\<close>

lemma first_free_spec:
  "(case first_free l i n of
      None \<Rightarrow> \<forall>k. i \<le> k \<and> k < i + n \<longrightarrow> l k \<noteq> None
    | Some k \<Rightarrow> i \<le> k \<and> k < i + n \<and> l k = None \<and> (\<forall>j. i \<le> j \<and> j < k \<longrightarrow> l j \<noteq> None))"
proof (induction n arbitrary: i)
  case (Suc n)
  show ?case
  proof (cases "l i = None")
    case False
    have "first_free l i (Suc n) = first_free l (Suc i) n" using False by auto
    then show ?thesis using Suc.IH [of "Suc i"] False
      by (auto split: option.splits) (metis Suc_leI le_neq_implies_less)+
  qed auto
qed auto

text \<open>
  The invariant of the table: the number of queues, their numbers, and for each queue the number of clients
  that use it.
\<close>

definition users :: "seq_queue \<Rightarrow> int set" where
  "users q = {c. q_clients_bitmap q c}"

definition queue_ok :: "nat \<Rightarrow> seq_queue \<Rightarrow> bool" where
  "queue_ok i q \<longleftrightarrow> i < MAX_QUEUES \<and> q_queue q = int i \<and> finite (users q) \<and> q_clients q = of_nat (card (users q))"

definition queues_ok :: "'m seq_state_scheme \<Rightarrow> bool" where
  "queues_ok st \<longleftrightarrow> num_queues st = int (card {i. queue_list st i \<noteq> None}) \<and> (\<forall>i q. queue_list st i = Some q \<longrightarrow> queue_ok i q)"

lemma queues_finite: "queues_ok st \<Longrightarrow> finite {i. queue_list st i \<noteq> None}"
  by (rule finite_subset [of _ "{..<MAX_QUEUES}"]) (auto simp: queues_ok_def queue_ok_def)

lemma queues_ok_upd:
  assumes "queues_ok st" "\<And>q. queue_list st i = Some q \<Longrightarrow> queue_ok i q \<Longrightarrow> queue_ok i (f q)"
  shows "queues_ok (upd_queue i f st)"
proof -
  have "{k. queue_list (upd_queue i f st) k \<noteq> None} = {k. queue_list st k \<noteq> None}" by auto
  then show ?thesis using assms by (auto simp: queues_ok_def split: if_splits)
qed

lemma queue_ok_fields [simp]:
  "queue_ok i (q\<lparr>q_use_lock := n\<rparr>) = queue_ok i q" "queue_ok i (q\<lparr>q_klocked := b\<rparr>) = queue_ok i q"
  "queue_ok i (q\<lparr>q_timer := t\<rparr>) = queue_ok i q" "queue_ok i (q\<lparr>q_locked := b\<rparr>) = queue_ok i q"
  "queue_ok i (q\<lparr>q_owner := c\<rparr>) = queue_ok i q" "queue_ok i (q\<lparr>q_tickq := f\<rparr>) = queue_ok i q"
  "queue_ok i (q\<lparr>q_timeq := f\<rparr>) = queue_ok i q" "queue_ok i (q\<lparr>q_check_again := b\<rparr>) = queue_ok i q"
  "queue_ok i (q\<lparr>q_check_blocked := b\<rparr>) = queue_ok i q" "queue_ok i (q\<lparr>q_info_flags := w\<rparr>) = queue_ok i q"
  by (simp_all add: queue_ok_def users_def)

lemma queues_ok_mem [simp]: "queues_ok (st\<lparr>sq_mem := m\<rparr>) = queues_ok st"
  by (simp add: queues_ok_def)

lemma queueptr_queues_ok: "queues_ok st \<Longrightarrow> queueptr queueid st = (r, st') \<Longrightarrow> queues_ok st'"
  by (auto simp: queueptr_def intro!: queues_ok_upd split: if_splits option.splits)

lemma queuefree_queues_ok: "queues_ok st \<Longrightarrow> queues_ok (queuefree i st)"
  by (auto simp: queuefree_def intro!: queues_ok_upd)

text \<open>A client joins or leaves.\<close>

lemma queue_use_ok:
  assumes "queue_use env client use q = Some q'" "finite (users q)" "q_clients q = of_nat (card (users q))"
  shows "finite (users q')" "q_clients q' = of_nat (card (users q'))" "users q' = (if use then insert client (users q) else users q - {client})"
    "q_queue q' = q_queue q" "q_use_lock q' = q_use_lock q" "q_tickq q' = q_tickq q" "q_timeq q' = q_timeq q" "q_owner q' = q_owner q"
proof -
  define q1 where "q1 = (if use
               then (if q_clients_bitmap q client then q
                     else q\<lparr>q_clients_bitmap := (q_clients_bitmap q)(client := True), q_clients := q_clients q + 1\<rparr>)
               else (if q_clients_bitmap q client
                     then q\<lparr>q_clients_bitmap := (q_clients_bitmap q)(client := False), q_clients := q_clients q - 1\<rparr> else q))"
  obtain t where q': "q' = q1\<lparr>q_timer := t\<rparr>"
    using assms(1) unfolding queue_use_def q1_def [symmetric] Let_def by (auto split: if_splits)
  have u: "users q1 = (if use then insert client (users q) else users q - {client})" by (auto simp: q1_def users_def)
  have "q_clients q1 = of_nat (card (users q1))"
  proof (cases use)
    case True
    then show ?thesis using assms(2,3) u by (auto simp: q1_def users_def card_insert_if insert_absorb)
  next
    case False
    have "client \<in> users q \<Longrightarrow> of_nat (card (users q - {client})) = (of_nat (card (users q)) - 1 :: u32)"
      using assms(2) by (metis add_diff_cancel_right' card_Suc_Diff1 of_nat_Suc add.commute)
    then show ?thesis using False assms(2,3) u by (auto simp: q1_def users_def)
  qed
  then show "finite (users q')" "q_clients q' = of_nat (card (users q'))" "users q' = (if use then insert client (users q) else users q - {client})"
    "q_queue q' = q_queue q" "q_use_lock q' = q_use_lock q" "q_tickq q' = q_tickq q" "q_timeq q' = q_timeq q" "q_owner q' = q_owner q"
    using u assms(2) by (auto simp: q' users_def q1_def)
qed

lemma queue_list_add_ok:
  assumes "queues_ok st" "finite (users q)" "q_clients q = of_nat (card (users q))" "queue_list_add q st = (i, st')"
  shows "queues_ok st'"
proof (cases "first_free (queue_list st) 0 MAX_QUEUES")
  case None
  then show ?thesis using assms by (simp add: queue_list_add_def)
next
  case (Some k)
  then have k: "k < MAX_QUEUES" "queue_list st k = None" using first_free_spec [where l = "queue_list st" and i = 0 and n = MAX_QUEUES] by auto
  let ?q = "q\<lparr>q_queue := int k\<rparr>"
  have st': "st' = st\<lparr>queue_list := (queue_list st)(k \<mapsto> ?q), num_queues := num_queues st + 1\<rparr>"
    using assms(4) Some by (auto simp: queue_list_add_def)
  have "{j. queue_list st' j \<noteq> None} = insert k {j. queue_list st j \<noteq> None}" by (auto simp: st')
  then have "int (card {j. queue_list st' j \<noteq> None}) = num_queues st'"
    using queues_finite [OF assms(1)] k(2) assms(1) by (simp add: st' queues_ok_def)
  moreover have "queue_ok k ?q" using k(1) assms(2,3) by (simp add: queue_ok_def users_def)
  ultimately show ?thesis using assms(1) by (auto simp: queues_ok_def st' split: if_splits)
qed

lemma queue_list_remove_ok:
  assumes "queues_ok st" "queue_list_remove i client st = (r, st')"
  shows "queues_ok st'"
proof (cases "r = None")
  case True
  then show ?thesis using assms by (auto simp: queue_list_remove_def split: option.splits if_splits)
next
  case False
  then have s: "st' = st\<lparr>queue_list := (queue_list st)(i := None), num_queues := num_queues st - 1\<rparr>" "queue_list st i \<noteq> None"
    using assms(2) by (auto simp: queue_list_remove_def split: option.splits if_splits)
  have "{k. queue_list st' k \<noteq> None} = {k. queue_list st k \<noteq> None} - {i}" using s(1) by auto
  moreover have "int (card ({k. queue_list st k \<noteq> None} - {i})) = int (card {k. queue_list st k \<noteq> None}) - 1"
    using card_Suc_Diff1 [OF queues_finite [OF assms(1)], of i] s(2) by simp
  ultimately show ?thesis using assms(1) s(1) by (auto simp: queues_ok_def split: if_splits)
qed

lemma queue_delete_list: "queue_delete q st = Some st' \<Longrightarrow> \<exists>m. st' = st\<lparr>sq_mem := m\<rparr>"
  by (auto simp: queue_delete_def split: if_splits bind_splits)

lemma queue_alloc_ok:
  assumes "queues_ok st" "snd_seq_queue_alloc env mem client locked info st = Some (r, st')"
  shows "queues_ok st'"
proof (cases "queue_new env mem client locked")
  case None
  then show ?thesis using assms by (simp add: snd_seq_queue_alloc_def)
next
  case (Some q0)
  then have "users (q0\<lparr>q_info_flags := info\<rparr>) = {}" "q_clients (q0\<lparr>q_info_flags := info\<rparr>) = 0"
    by (auto simp: queue_new_def users_def split: if_splits)
  moreover obtain q where q: "queue_use env client True (q0\<lparr>q_info_flags := info\<rparr>) = Some q"
    using assms(2) Some by (auto simp: snd_seq_queue_alloc_def split: option.splits)
  ultimately have u: "finite (users q)" "q_clients q = of_nat (card (users q))"
    using queue_use_ok(1,2) [OF q] by simp_all
  let ?q = "q\<lparr>q_use_lock := q_use_lock q + 1\<rparr>"
  obtain i st1 where a: "queue_list_add ?q st = (i, st1)" by fastforce
  have ok: "queues_ok st1" by (rule queue_list_add_ok [OF assms(1) _ _ a]) (use u in \<open>simp_all add: users_def\<close>)
  show ?thesis using assms(2) Some q a ok
    by (auto simp: snd_seq_queue_alloc_def Let_def split: if_splits dest!: queue_delete_list)
qed

lemma access_lock_ok: "queues_ok st \<Longrightarrow> queue_access_lock i client st = (b, st') \<Longrightarrow> queues_ok st'"
  by (auto simp: queue_access_lock_def intro!: queues_ok_upd split: option.splits if_splits)

lemma with_access_ok:
  assumes "queues_ok st" "with_access queueid client work st = Some (r, st')"
    and "\<And>i st r st'. queues_ok st \<Longrightarrow> work i st = Some (r, st') \<Longrightarrow> queues_ok st'"
  shows "queues_ok st'"
proof -
  obtain k st1 where p: "queueptr queueid st = (k, st1)" by fastforce
  have ok1: "queues_ok st1" by (rule queueptr_queues_ok [OF assms(1) p])
  show ?thesis
  proof (cases k)
    case None
    then show ?thesis using assms(2) p ok1 by (simp add: with_access_def)
  next
    case (Some i)
    obtain b st2 where l: "queue_access_lock i client st1 = (b, st2)" by fastforce
    have ok2: "queues_ok st2" by (rule access_lock_ok [OF ok1 l])
    have unlock: "queues_ok (queuefree i (queue_access_unlock i st))" if "queues_ok st" for st :: "'a seq_state_scheme"
      using that by (auto simp: queue_access_unlock_def intro!: queuefree_queues_ok queues_ok_upd)
    show ?thesis using assms(2) p Some l ok2 assms(3) unlock by (cases b) (auto simp: with_access_def intro: queuefree_queues_ok)
  qed
qed

lemma on_timer_ok: "queues_ok st \<Longrightarrow> on_timer f i st = Some (r, st') \<Longrightarrow> queues_ok st'"
  by (auto simp: on_timer_def intro!: queues_ok_upd split: option.splits)

lemma on_prioqs_ok: "queues_ok st \<Longrightarrow> on_prioqs f i st = Some st' \<Longrightarrow> queues_ok st'"
  by (auto simp: on_prioqs_def intro!: queues_ok_upd split: option.splits bind_splits)

lemma for_queues_ok:
  assumes "\<And>i st st'. queues_ok st \<Longrightarrow> f i st = Some st' \<Longrightarrow> queues_ok st'"
  shows "queues_ok st \<Longrightarrow> for_queues f i n st = Some st' \<Longrightarrow> queues_ok st'"
proof (induction n arbitrary: i st)
  case (Suc n)
  obtain k st1 where p: "queueptr (int i) st = (k, st1)" by fastforce
  have ok1: "queues_ok st1" by (rule queueptr_queues_ok [OF Suc.prems(1) p])
  show ?case
  proof (cases k)
    case None
    then show ?thesis using Suc.prems(2) p Suc.IH [OF ok1] by simp
  next
    case (Some j)
    then obtain st2 where "f j st1 = Some st2" "for_queues f (Suc i) n (queuefree j st2) = Some st'"
      using Suc.prems(2) p by (auto split: bind_splits)
    then show ?thesis using Suc.IH queuefree_queues_ok assms ok1 by blast
  qed
qed simp

lemma delete_owned_ok: "queues_ok st \<Longrightarrow> delete_owned client i n st = Some st' \<Longrightarrow> queues_ok st'"
proof (induction n arbitrary: i st)
  case (Suc n)
  obtain r st1 where p: "queue_list_remove i client st = (r, st1)" by fastforce
  have ok1: "queues_ok st1" by (rule queue_list_remove_ok [OF Suc.prems(1) p])
  show ?case
  proof (cases r)
    case None
    then show ?thesis using Suc.prems(2) p Suc.IH [OF ok1] by simp
  next
    case (Some q)
    then obtain st2 where "queue_delete q st1 = Some st2" "delete_owned client (Suc i) n st2 = Some st'"
      using Suc.prems(2) p by (auto split: bind_splits)
    then show ?thesis using Suc.IH [of st2 "Suc i"] ok1 queue_delete_list by fastforce
  qed
qed simp

lemma seq_queue_use_ok: "queues_ok st \<Longrightarrow> snd_seq_queue_use env queueid client use st = Some (r, st') \<Longrightarrow> queues_ok st'"
proof -
  assume ok: "queues_ok st" and u: "snd_seq_queue_use env queueid client use st = Some (r, st')"
  obtain k st1 where p: "queueptr queueid st = (k, st1)" by fastforce
  have ok1: "queues_ok st1" by (rule queueptr_queues_ok [OF ok p])
  show ?thesis
  proof (cases k)
    case None
    then show ?thesis using u p ok1 by (simp add: snd_seq_queue_use_def)
  next
    case (Some i)
    then obtain q q' where q: "queue_list st1 i = Some q" "queue_use env client use q = Some q'"
      "st' = queuefree i (upd_queue i (\<lambda>_. q') st1)"
      using u p by (auto simp: snd_seq_queue_use_def split: option.splits)
    have "queue_ok i q" using ok1 q(1) by (simp add: queues_ok_def)
    then have "queue_ok i q'" using queue_use_ok(1,2,4) [OF q(2)] by (simp add: queue_ok_def)
    then show ?thesis unfolding q(3) by (intro queuefree_queues_ok queues_ok_upd [OF ok1])
  qed
qed

lemma client_leave_ok:
  assumes "queues_ok st" "snd_seq_queue_client_leave env client st = Some st'"
  shows "queues_ok st'"
proof -
  obtain st1 where d: "delete_owned client 0 MAX_QUEUES st = Some st1" and f: "for_queues (\<lambda>i st.
          case queue_list st i of
            None \<Rightarrow> None
          | Some q \<Rightarrow>
              if q_clients_bitmap q client
              then Option.bind (on_prioqs (snd_seq_prioq_leave client False) i st)
                     (\<lambda>st. map_option snd (snd_seq_queue_use env (q_queue q) client False st))
              else Some st) 0 MAX_QUEUES st1 = Some st'"
    using assms(2) by (auto simp: snd_seq_queue_client_leave_def split: bind_splits)
  show ?thesis
    by (rule for_queues_ok [OF _ delete_owned_ok [OF assms(1) d] f])
      (auto split: option.splits if_splits bind_splits dest: on_prioqs_ok seq_queue_use_ok)
qed

text \<open>A step of the state, indexed by a cell or a queue, that keeps the table intact.\<close>

definition keeps_ok :: "('x \<Rightarrow> 'm seq_state_scheme \<Rightarrow> 'm seq_state_scheme option) \<Rightarrow> bool" where
  "keeps_ok f \<longleftrightarrow> (\<forall>x st st'. queues_ok st \<longrightarrow> f x st = Some st' \<longrightarrow> queues_ok st')"

lemma keeps_okD: "keeps_ok f \<Longrightarrow> queues_ok st \<Longrightarrow> f x st = Some st' \<Longrightarrow> queues_ok st'"
  by (auto simp: keeps_ok_def)

lemma queue_ok_set_pq [simp]: "queue_ok i (set_pq t f q) = queue_ok i q"
  by (simp add: set_pq_def)

lemma run_ready_ok:
  assumes "keeps_ok dispatch"
  shows "queues_ok st \<Longrightarrow> run_ready dispatch t now i n st = Some (n', st') \<Longrightarrow> queues_ok st'"
proof (induction n arbitrary: st)
  case (Suc n)
  obtain q where q: "queue_list st i = Some q" using Suc.prems(2) by (cases "queue_list st i") auto
  obtain cell f m where c: "snd_seq_prioq_cell_out (Some now) (pq_of t q) (sq_mem st) = (cell, f, m)" by (metis prod_cases3)
  let ?st = "(upd_queue i (set_pq t f) st)\<lparr>sq_mem := m\<rparr>"
  have ok: "queues_ok ?st" using Suc.prems(1) by (auto intro!: queues_ok_upd)
  show ?case
  proof (cases "cell = 0")
    case True
    then show ?thesis using Suc.prems q c by simp
  next
    case False
    then obtain st1 where "dispatch cell ?st = Some st1" "run_ready dispatch t now i n st1 = Some (n', st')"
      using Suc.prems(2) q c by (auto split: bind_splits)
    then show ?thesis using Suc.IH keeps_okD [OF assms ok] by blast
  qed
qed simp

lemma check_round_ok:
  assumes "keeps_ok dispatch"
    and "queues_ok st" "check_round dispatch i n st = Some (n', st')"
  shows "queues_ok st'"
proof -
  obtain q where q: "queue_list st i = Some q" using assms(3) by (cases "queue_list st i") (auto simp: check_round_def)
  then obtain n1 st1 where r: "run_ready dispatch True (Real_time (snd_seq_timer_get_cur_tick (q_timer q)) 0) i n st = Some (n1, st1)"
    using assms(3) by (auto simp: check_round_def Let_def split: option.splits)
  have ok: "queues_ok st1" using run_ready_ok [OF assms(1) assms(2) r] by blast
  show ?thesis using assms(3) q r ok run_ready_ok [OF assms(1) ok]
    by (auto simp: check_round_def Let_def split: option.splits if_splits)
qed

lemma check_rounds_ok:
  assumes "keeps_ok dispatch"
    and "check_rounds dispatch i n st = Some st'" "queues_ok st"
  shows "queues_ok st'"
  using assms(2,1,3)
proof (induction dispatch i n st st' rule: check_rounds.raw_induct [rotated, consumes 1])
  case (1 check_rounds dispatch i n st y)
  obtain n1 st1 where r: "check_round dispatch i n st = Some (n1, st1)" using 1(2) by (auto split: option.splits)
  have ok: "queues_ok st1" using check_round_ok [OF 1(3,4) r] by blast
  then have ok2: "queues_ok (upd_queue i f st1)" if "\<And>q. queue_ok i (f q) = queue_ok i q" for f
    using that by (intro queues_ok_upd) auto
  show ?case
  proof (cases "(case queue_list st1 i of None \<Rightarrow> False | Some q \<Rightarrow> q_check_again q) \<and> n1 > 0")
    case True
    then have "check_rounds dispatch i n1 (upd_queue i (\<lambda>q. q\<lparr>q_check_again := False\<rparr>) st1) = Some y" using 1(2) r by (simp add: Let_def)
    then show ?thesis using 1(1) 1(3) ok2 [of "\<lambda>q. q\<lparr>q_check_again := False\<rparr>"] by auto
  next
    case False
    then have "y = upd_queue i (\<lambda>q. q\<lparr>q_check_blocked := False\<rparr>) (upd_queue i (\<lambda>q. q\<lparr>q_check_again := False\<rparr>) st1)"
      using 1(2) r unfolding Let_def by (simp only: option.case prod.case if_False option.inject) 
    then show ?thesis using ok2 [of "\<lambda>q. q\<lparr>q_check_again := False, q_check_blocked := False\<rparr>"] by simp
  qed
qed

lemma check_queue_ok:
  assumes "keeps_ok dispatch"
    and "queues_ok st" "snd_seq_check_queue dispatch i st = Some st'"
  shows "queues_ok st'"
proof (cases "queue_list st i")
  case None
  then show ?thesis using assms(2,3) by (simp add: snd_seq_check_queue_def)
next
  case (Some q)
  have ok: "queues_ok (upd_queue i f st)" if "\<And>q. queue_ok i (f q) = queue_ok i q" for f
    using that assms(2) by (intro queues_ok_upd) auto
  show ?thesis
  proof (cases "q_check_blocked q")
    case True
    then show ?thesis using assms(3) Some ok [of "\<lambda>q. q\<lparr>q_check_again := True\<rparr>"] by (simp add: snd_seq_check_queue_def)
  next
    case False
    then have "check_rounds dispatch i 1000 (upd_queue i (\<lambda>q. q\<lparr>q_check_blocked := True\<rparr>) st) = Some st'"
      using assms(3) Some by (simp add: snd_seq_check_queue_def)
    then show ?thesis using check_rounds_ok [OF assms(1)] ok [of "\<lambda>q. q\<lparr>q_check_blocked := True\<rparr>"] by simp
  qed
qed

lemma enqueue_with_ok:
  assumes "keeps_ok check"
    and "queues_ok st" "enqueue_with check cell st = Some (r, st')"
  shows "queues_ok st'"
proof -
  obtain k st1 where p: "queueptr (uint (ev_queue (event_of (sq_mem st) cell))) st = (k, st1)" by fastforce
  have ok1: "queues_ok st1" by (rule queueptr_queues_ok [OF assms(2) p])
  show ?thesis
  proof (cases k)
    case None
    then show ?thesis using assms(3) p ok1 by (simp add: enqueue_with_def)
  next
    case (Some i)
    then obtain q where q: "queue_list st1 i = Some q" using assms(3) p by (auto simp: enqueue_with_def split: option.splits)
    let ?m = "upd_cell cell (\<lambda>c. c\<lparr>cell_event := absolute_time (q_timer q) (cell_event c)\<rparr>) (sq_mem st1)"
    let ?t = "snd_seq_ev_is_tick (event_of ?m cell)"
    obtain err f m where c: "snd_seq_prioq_cell_in cell (pq_of ?t q) ?m = (err, f, m)" by (rule prod_cases3)
    let ?st = "(upd_queue i (set_pq ?t f) st1)\<lparr>sq_mem := m\<rparr>"
    have ok2: "queues_ok ?st" using ok1 by (auto intro!: queues_ok_upd)
    have e: "enqueue_with check cell st = (if err < 0 then Some (err, queuefree i ?st) else map_option (\<lambda>st. (0, queuefree i st)) (check i ?st))"
      unfolding enqueue_with_def p Some prod.case option.case q Let_def c ..
    have "(err < 0 \<and> st' = queuefree i ?st) \<or> (\<exists>st2. check i ?st = Some st2 \<and> st' = queuefree i st2)"
      using assms(3) unfolding e by (cases "err < 0") auto
    then show ?thesis using ok2 keeps_okD [OF assms(1) ok2] queuefree_queues_ok by blast
  qed
qed

lemma dispatch_ok:
  assumes "\<And>e st r st'. queues_ok st \<Longrightarrow> deliver e st = Some (r, st') \<Longrightarrow> queues_ok st'"
    and "queues_ok st" "snd_seq_dispatch_event known deliver cell st = Some st'"
  shows "queues_ok st'"
proof -
  have free: "queues_ok st'" if "queues_ok st" "map_option (\<lambda>m. st\<lparr>sq_mem := m\<rparr>) (snd_seq_cell_free cell (sq_mem st)) = Some st'" for st
    using that by auto
  have again: "keeps_ok (check_again :: nat \<Rightarrow> 'a seq_state_scheme \<Rightarrow> 'a seq_state_scheme option)"
    by (auto simp: keeps_ok_def check_again_def intro!: queues_ok_upd split: option.splits if_splits)
  let ?e = "event_of (sq_mem st) cell"
  consider "\<not> known (uint (fst (ev_source ?e))) st" | "known (uint (fst (ev_source ?e))) st" "ev_type ?e = 5"
    | "known (uint (fst (ev_source ?e))) st" "ev_type ?e \<noteq> 5" by blast
  then show ?thesis
  proof cases
    case 1
    then show ?thesis using assms(3) free [OF assms(2)] by (simp add: snd_seq_dispatch_event_def Let_def)
  next
    case 2
    obtain r st1 err st3 where e: "deliver (?e\<lparr>ev_type := 6\<rparr>) st = Some (r, st1)"
      "enqueue_with check_again cell (st1\<lparr>sq_mem := upd_cell cell (\<lambda>c. c\<lparr>cell_event := note_off (cell_event c)\<rparr>) (sq_mem st1)\<rparr>) = Some (err, st3)"
      "(if err < 0 then map_option (\<lambda>m. st3\<lparr>sq_mem := m\<rparr>) (snd_seq_cell_free cell (sq_mem st3)) else Some st3) = Some st'"
      using assms(3) 2 by (auto simp: snd_seq_dispatch_event_def Let_def split: bind_splits)
    have "queues_ok (st1\<lparr>sq_mem := upd_cell cell (\<lambda>c. c\<lparr>cell_event := note_off (cell_event c)\<rparr>) (sq_mem st1)\<rparr>)"
      using assms(1) [OF assms(2) e(1)] by simp
    then show ?thesis using enqueue_with_ok [OF again _ e(2)] e(3) free by (auto split: if_splits)
  next
    case 3
    then obtain r st1 where e: "deliver ?e st = Some (r, st1)"
      "map_option (\<lambda>m. st1\<lparr>sq_mem := m\<rparr>) (snd_seq_cell_free cell (sq_mem st1)) = Some st'"
      using assms(3) by (auto simp: snd_seq_dispatch_event_def Let_def split: bind_splits)
    then show ?thesis using free [OF assms(1) [OF assms(2) e(1)] e(2)] by blast
  qed
qed

section \<open>Steps of the queue manager\<close>

text \<open>
  The calls that reach the queues, from clients and from the timer. What the caller chooses (arguments, the
  outcome of allocations and of opening the timer) is arbitrary.
\<close>

inductive queue_step ::
  "(int \<Rightarrow> 'm seq_state_scheme \<Rightarrow> bool) \<Rightarrow> (seq_event \<Rightarrow> 'm seq_state_scheme \<Rightarrow> (int \<times> 'm seq_state_scheme) option) \<Rightarrow>
   'm seq_state_scheme \<Rightarrow> 'm seq_state_scheme \<Rightarrow> bool" for known deliver where
  alloc: "snd_seq_queue_alloc env mem client locked info st = Some (r, st') \<Longrightarrow> queue_step known deliver st st'"
| delete: "snd_seq_queue_delete client queueid st = Some (r, st') \<Longrightarrow> queue_step known deliver st st'"
| set_owner: "snd_seq_queue_set_owner queueid client locked st = Some (r, st') \<Longrightarrow> queue_step known deliver st st'"
| timer_open: "snd_seq_queue_timer_open env queueid st = Some (r, st') \<Longrightarrow> queue_step known deliver st st'"
| timer_close: "snd_seq_queue_timer_close queueid st = Some (r, st') \<Longrightarrow> queue_step known deliver st st'"
| set_tempo: "snd_seq_queue_timer_set_tempo queueid client qt st = Some (r, st') \<Longrightarrow> queue_step known deliver st st'"
| use: "snd_seq_queue_use env queueid client flag st = Some (r, st') \<Longrightarrow> queue_step known deliver st st'"
| client_leave: "snd_seq_queue_client_leave env client st = Some st' \<Longrightarrow> queue_step known deliver st st'"
| leave_cells: "snd_seq_queue_client_leave_cells client st = Some st' \<Longrightarrow> queue_step known deliver st st'"
| remove_cells: "snd_seq_queue_remove_cells client what st = Some st' \<Longrightarrow> queue_step known deliver st st'"
| enqueue: "snd_seq_enqueue_event known deliver cell st = Some (r, st') \<Longrightarrow> queue_step known deliver st st'"
| check: "snd_seq_check_queue (snd_seq_dispatch_event known deliver) i st = Some st' \<Longrightarrow> queue_step known deliver st st'"
| control: "snd_seq_control_queue deliver ev st = Some (r, st') \<Longrightarrow> queue_step known deliver st st'"
| clock: "queue_list st i = Some q \<Longrightarrow>
    snd_seq_check_queue (snd_seq_dispatch_event known deliver) i
      (upd_queue i (\<lambda>q. q\<lparr>q_timer := snd_seq_timer_interrupt resolution elapsed (q_timer q)\<rparr>) st) = Some st' \<Longrightarrow>
    queue_step known deliver st st'"

inductive_cases queue_stepE: "queue_step known deliver st st'"

lemma delete_ok: "queues_ok st \<Longrightarrow> snd_seq_queue_delete client queueid st = Some (r, st') \<Longrightarrow> queues_ok st'"
  by (auto simp: snd_seq_queue_delete_def split: if_splits prod.splits option.splits
      dest!: queue_delete_list dest: queue_list_remove_ok)

lemma timer_open_ok: "queues_ok st \<Longrightarrow> snd_seq_queue_timer_open env queueid st = Some (r, st') \<Longrightarrow> queues_ok st'"
  unfolding snd_seq_queue_timer_open_def
  by (auto split: prod.splits option.splits intro!: queuefree_queues_ok dest: queueptr_queues_ok on_timer_ok)

lemma timer_close_ok: "queues_ok st \<Longrightarrow> snd_seq_queue_timer_close queueid st = Some (r, st') \<Longrightarrow> queues_ok st'"
  unfolding snd_seq_queue_timer_close_def
  by (auto split: prod.splits option.splits intro!: queuefree_queues_ok dest: queueptr_queues_ok on_timer_ok)

lemma set_owner_ok: "queues_ok st \<Longrightarrow> snd_seq_queue_set_owner queueid client locked st = Some (r, st') \<Longrightarrow> queues_ok st'"
  unfolding snd_seq_queue_set_owner_def by (rule with_access_ok) (auto intro!: queues_ok_upd)

lemma set_tempo_ok: "queues_ok st \<Longrightarrow> snd_seq_queue_timer_set_tempo queueid client qt st = Some (r, st') \<Longrightarrow> queues_ok st'"
  unfolding snd_seq_queue_timer_set_tempo_def by (rule with_access_ok) (auto intro: on_timer_ok)

lemma leave_cells_ok: "queues_ok st \<Longrightarrow> snd_seq_queue_client_leave_cells client st = Some st' \<Longrightarrow> queues_ok st'"
  unfolding snd_seq_queue_client_leave_cells_def by (rule for_queues_ok) (auto intro: on_prioqs_ok)

lemma remove_cells_ok: "queues_ok st \<Longrightarrow> snd_seq_queue_remove_cells client info st = Some st' \<Longrightarrow> queues_ok st'"
  unfolding snd_seq_queue_remove_cells_def
  by (rule for_queues_ok) (auto intro: on_prioqs_ok split: option.splits if_splits)

text \<open>
  What the queues rely on when they hand an event to the clients: the call comes back to the same table of
  queues, intact.
\<close>

locale queue_delivery =
  fixes known :: "int \<Rightarrow> 'm seq_state_scheme \<Rightarrow> bool"
    and deliver :: "seq_event \<Rightarrow> 'm seq_state_scheme \<Rightarrow> (int \<times> 'm seq_state_scheme) option"
  assumes deliver_ok: "queues_ok st \<Longrightarrow> deliver e st = Some (r, st') \<Longrightarrow> queues_ok st'"
begin

lemma dispatch_keeps: "keeps_ok (snd_seq_dispatch_event known deliver)"
  unfolding keeps_ok_def by (intro allI impI) (erule (1) dispatch_ok [rotated 1], erule (1) deliver_ok)

lemma check_keeps: "keeps_ok (snd_seq_check_queue (snd_seq_dispatch_event known deliver))"
  unfolding keeps_ok_def using check_queue_ok [OF dispatch_keeps] by blast

lemma process_event_ok:
  assumes "queues_ok st" "snd_seq_queue_process_event deliver i ev st = Some st'"
  shows "queues_ok st'"
proof -
  obtain st1 q tell tmr where s: "(if ev_type ev = 30 then on_prioqs (snd_seq_prioq_leave (uint (fst (ev_source ev))) True) i st else Some st) = Some st1"
    "queue_list st1 i = Some q" "control_timer ev (q_timer q) = Some (tell, tmr)"
    "(let st = upd_queue i (\<lambda>q. q\<lparr>q_timer := tmr\<rparr>) st1 in if tell then queue_broadcast_event deliver i ev st else Some st) = Some st'"
    using assms(2) by (auto simp: snd_seq_queue_process_event_def split: bind_splits option.splits)
  have "queues_ok st1" using s(1) assms(1) by (auto split: if_splits intro: on_prioqs_ok)
  then have "queues_ok (upd_queue i (\<lambda>q. q\<lparr>q_timer := tmr\<rparr>) st1)" by (intro queues_ok_upd) auto
  then show ?thesis using s(4) deliver_ok by (auto simp: Let_def queue_broadcast_event_def split: if_splits option.splits)
qed

lemma control_ok: "queues_ok st \<Longrightarrow> snd_seq_control_queue deliver ev st = Some (r, st') \<Longrightarrow> queues_ok st'"
  unfolding snd_seq_control_queue_def by (rule with_access_ok) (auto intro: process_event_ok)

lemma enqueue_ok: "queues_ok st \<Longrightarrow> snd_seq_enqueue_event known deliver cell st = Some (r, st') \<Longrightarrow> queues_ok st'"
  unfolding snd_seq_enqueue_event_def by (rule enqueue_with_ok [OF check_keeps])

lemma step_ok: "queue_step known deliver st st' \<Longrightarrow> queues_ok st \<Longrightarrow> queues_ok st'"
proof (induction rule: queue_step.induct)
  case (clock st i q resolution elapsed st')
  have "queues_ok (upd_queue i (\<lambda>q. q\<lparr>q_timer := snd_seq_timer_interrupt resolution elapsed (q_timer q)\<rparr>) st)"
    using clock.prems by (intro queues_ok_upd) auto
  then show ?case using clock.hyps(2) keeps_okD [OF check_keeps] by blast
qed (blast intro: queue_alloc_ok delete_ok set_owner_ok timer_open_ok timer_close_ok set_tempo_ok seq_queue_use_ok
    client_leave_ok leave_cells_ok remove_cells_ok enqueue_ok keeps_okD [OF check_keeps] control_ok)+

lemma steps_ok: "(queue_step known deliver)\<^sup>*\<^sup>* st st' \<Longrightarrow> queues_ok st \<Longrightarrow> queues_ok st'"
  by (induction rule: rtranclp_induct) (auto intro: step_ok)

end

section \<open>A locked queue\<close>

definition sample_queue :: seq_queue where
  "sample_queue = \<lparr>q_queue = 3, q_name = ''main'', q_tickq = snd_seq_prioq_new, q_timeq = snd_seq_prioq_new, q_timer = sample_timer,
     q_owner = 128, q_locked = True, q_klocked = False, q_check_again = False, q_check_blocked = False, q_info_flags = 0,
     q_clients_bitmap = (\<lambda>c. c = 128), q_clients = 1, q_use_lock = 0\<rparr>"

definition sample_queues :: seq_state where
  "sample_queues = \<lparr>queue_list = [3 \<mapsto> sample_queue], num_queues = 1, sq_mem = sample_mem\<rparr>"

text \<open>
  A queue that is locked belongs to its owner: another client can neither take it over nor change its tempo
  (\<^verbatim>\<open>-EPERM\<close>), its control events are refused, and it cannot delete the queue (\<^verbatim>\<open>-EINVAL\<close>). None of these
  calls changes anything, the use count of the queue included.
\<close>

theorem queue_protected:
  assumes "0 \<le> queueid" "queueid < 32" "queue_list st (nat queueid) = Some q" "q_owner q \<noteq> client" "q_locked q \<or> q_klocked q"
    and "uint (data_byte 0 ev) = queueid" "uint (fst (ev_source ev)) = client"
  shows "snd_seq_queue_set_owner queueid client locked st = Some (- EPERM, st) \<and>
    snd_seq_queue_timer_set_tempo queueid client info st = Some (- EPERM, st) \<and>
    snd_seq_control_queue deliver ev st = Some (- EPERM, st) \<and>
    snd_seq_queue_delete client queueid st = Some (- EINVAL, st)"
proof -
  have "\<not> check_access q client" using assms(4,5) by (auto simp: check_access_def)
  note denied = with_access_denied [OF assms(1-3) this]
  have "snd_seq_queue_delete client queueid st = Some (- EINVAL, st)"
    using assms(1-4) by (simp add: snd_seq_queue_delete_def queue_list_remove_def)
  then show ?thesis using denied assms(6,7)
    by (simp add: snd_seq_queue_set_owner_def snd_seq_queue_timer_set_tempo_def snd_seq_control_queue_def)
qed

theorem queue_protected_witness:
  "snd_seq_queue_set_owner 3 129 False sample_queues = Some (- EPERM, sample_queues) \<and>
   snd_seq_queue_timer_set_tempo 3 129 \<lparr>qt_tempo = 1000, qt_ppq = 96, qt_skew_value = 0, qt_skew_base = 0\<rparr> sample_queues = Some (- EPERM, sample_queues) \<and>
   snd_seq_control_queue (\<lambda>e st. Some (0, st)) ((stamped 0)\<lparr>ev_source := (129, 0), ev_data := (3, 0, 0)\<rparr>) sample_queues = Some (- EPERM, sample_queues) \<and>
   snd_seq_queue_delete 129 3 sample_queues = Some (- EINVAL, sample_queues)"
proof (rule queue_protected [where q = sample_queue])
  show "uint (data_byte 0 ((stamped 0)\<lparr>ev_source := (129, 0), ev_data := (3, 0, 0)\<rparr>)) = 3" by (simp add: data_byte_def)
qed (simp_all add: sample_queues_def sample_queue_def)

section \<open>Note ends\<close>

lemma set_data_byte_fields [simp]:
  "ev_time (set_data_byte j b e) = ev_time e" "ev_source (set_data_byte j b e) = ev_source e" "ev_queue (set_data_byte j b e) = ev_queue e"
  by (simp_all add: set_data_byte_def)

lemma note_off_simps [simp]:
  "ev_flags (note_off e) = ev_flags e OR 16" "ev_type (note_off e) = 7" "ev_source (note_off e) = ev_source e" "ev_queue (note_off e) = ev_queue e"
  by (simp_all add: note_off_def Let_def)

text \<open>
  The end of a note is due exactly when the note has lasted for its duration: in real time the duration
  counts milliseconds, in musical time it counts ticks. The new stamp is normal, the event is a note-off at
  high priority in the same queue, with the release velocity of the note, as long as the clock does not wrap.
\<close>

theorem note_off_exact:
  assumes "normal (ev_time e)"
  shows "ev_type (note_off e) = 7 \<and> ev_queue (note_off e) = ev_queue e \<and> is_prior (note_off e) \<and>
    snd_seq_ev_is_tick (note_off e) = snd_seq_ev_is_tick e \<and>
    data_byte 2 (note_off e) = data_byte 3 e \<and>
    (snd_seq_ev_is_tick e \<longrightarrow> unat (ev_tick e) + unat (ctrl_param e) < 2 ^ 32 \<longrightarrow>
       unat (ev_tick (note_off e)) = unat (ev_tick e) + unat (ctrl_param e)) \<and>
    (\<not> snd_seq_ev_is_tick e \<longrightarrow> nsecs (ev_time e) + 1000000 * unat (ctrl_param e) < 2 ^ 32 * 1000000000 \<longrightarrow>
       normal (ev_time (note_off e)) \<and> nsecs (ev_time (note_off e)) = nsecs (ev_time e) + 1000000 * unat (ctrl_param e))"
proof (intro conjI impI)
  have "ev_flags (note_off e) AND 16 = 16" "ev_flags (note_off e) AND 1 = ev_flags e AND 1"
    by (simp_all add: bit.conj_disj_distrib2)
  then show "is_prior (note_off e)" "snd_seq_ev_is_tick (note_off e) = snd_seq_ev_is_tick e"
    by (simp_all add: is_prior_def snd_seq_ev_is_tick_def)
  show "data_byte 2 (note_off e) = data_byte 3 e" by (simp add: note_off_def Let_def)
  show "unat (ev_tick (note_off e)) = unat (ev_tick e) + unat (ctrl_param e)"
    if "snd_seq_ev_is_tick e" "unat (ev_tick e) + unat (ctrl_param e) < 2 ^ 32"
    using that by (simp add: note_off_def Let_def ev_tick_def unat_add32)
  let ?d = "ctrl_param e"
  let ?n = "tv_nsec (ev_time e) + 1000000 * (?d mod 1000)"
  assume t: "\<not> snd_seq_ev_is_tick e" and b: "nsecs (ev_time e) + 1000000 * unat ?d < 2 ^ 32 * 1000000000"
  have time: "ev_time (note_off e) = Real_time (tv_sec (ev_time e) + (?d div 1000 + ?n div 1000000000)) (?n mod 1000000000)"
    using t by (simp add: note_off_def Let_def)
  have m: "unat (1000000 * (?d mod 1000)) = 1000000 * (unat ?d mod 1000)"
    by (subst unat_mult32) (simp_all add: unat_mod)
  have n: "unat ?n = unat (tv_nsec (ev_time e)) + 1000000 * (unat ?d mod 1000)"
  proof -
    have "unat ?d mod 1000 < 1000" by simp
    then have "unat (tv_nsec (ev_time e)) + 1000000 * (unat ?d mod 1000) < 4294967296"
      using assms unfolding normal_def by linarith
    then show ?thesis by (simp add: unat_add32 m)
  qed
  show "normal (ev_time (note_off e))" unfolding time normal_def by (simp add: unat_mod)
  let ?s = "unat ?d div 1000 + unat ?n div 1000000000"
  have s: "unat (?d div 1000 + ?n div 1000000000) = ?s"
  proof -
    have "?s < 4294967296" using u32_lt [of ?d] u32_lt [of ?n] by linarith
    then show ?thesis by (simp add: unat_add32 unat_div)
  qed
  have e: "1000000 * unat ?d = 1000000000 * (unat ?d div 1000) + 1000000 * (unat ?d mod 1000)"
    using mult_div_mod_eq [of 1000 "unat ?d"] by linarith
  have "unat ?n = 1000000000 * (unat ?n div 1000000000) + unat ?n mod 1000000000" by simp
  then have t: "unat (tv_sec (ev_time e)) * 1000000000 + ?s * 1000000000 + unat ?n mod 1000000000 = nsecs (ev_time e) + 1000000 * unat ?d"
    using n e by (simp add: nsecs_def algebra_simps)
  then have "unat (tv_sec (ev_time e)) + ?s < 4294967296" using b by simp
  then have "unat (tv_sec (ev_time e) + (?d div 1000 + ?n div 1000000000)) = unat (tv_sec (ev_time e)) + ?s"
    unfolding unat_add32 [of "tv_sec (ev_time e)"] s by simp
  then show "nsecs (ev_time (note_off e)) = nsecs (ev_time e) + 1000000 * unat ?d"
    using t unfolding time by (simp only: nsecs_def real_time.sel unat_mod add_mult_distrib) simp
qed simp_all

theorem note_off_exact_witness:
  "\<exists>e. nsecs (ev_time (note_off e)) = 7499000000 \<and> normal (ev_time (note_off e)) \<and> is_prior (note_off e)"
proof -
  let ?e = "(stamped 0)\<lparr>ev_type := 5, ev_flags := 1, ev_time := Real_time 5 999000000, ev_data := (0x20640000, 1500, 0)\<rparr>"
  have "nsecs (ev_time ?e) = 5999000000" "ctrl_param ?e = 1500" "\<not> snd_seq_ev_is_tick ?e" "normal (ev_time ?e)"
    by (simp_all add: nsecs_def ctrl_param_def snd_seq_ev_is_tick_def normal_def)
  then show ?thesis using note_off_exact [of ?e] by (intro exI [of _ ?e]) simp
qed

end
