(* ===== verification/SeqPorts.thy ===== *)
theory SeqPorts
  imports SeqQueue
begin

text \<open>
  Clients and ports of the sequencer: the state of \<^verbatim>\<open>core/seq/seq_clientmgr.c\<close> and \<^verbatim>\<open>core/seq/seq_ports.c\<close> on
  top of the queues, and the functions that find, create and describe ports. Ports and subscriptions are
  objects with pointers to them, so they live in heaps indexed by a number; a client is known by its number.
  A subscription is linked by membership in the list of its port. Functions that C keeps in pointers are
  names: a callback is a number of a driver, except for the two whose code is in the sequencer itself.
\<close>

section \<open>State\<close>

type_synonym addr = "u8 \<times> u8"

text \<open>\<^verbatim>\<open>struct snd_seq_port_subscribe\<close>, and a subscription with its count of the lists it is on.\<close>

record port_subscribe =
  ps_sender :: addr
  ps_dest :: addr
  ps_voices :: u32
  ps_flags :: u32
  ps_queue :: u8

record subscribers =
  sub_info :: port_subscribe
  ref_count :: int

text \<open>
  One of the two lists of a port. Subscriptions and callbacks are named by numbers, 0 for a callback that is
  \<^verbatim>\<open>NULL\<close>.
\<close>

record subs_group =
  grp_list :: "nat list"
  grp_count :: u32
  grp_exclusive :: bool
  grp_open :: nat
  grp_close :: nat

text \<open>The private data of a through port, and the callback that receives the events of a port.\<close>

record dummy_port =
  dp_client :: int
  dp_port :: int
  dp_duplex :: bool
  dp_connect :: int

datatype event_input = No_input | Timer_input | Dummy_input dummy_port | Driver_input nat

record client_port =
  port_addr :: addr
  port_name :: string
  port_use_lock :: int
  c_src :: subs_group
  c_dest :: subs_group
  port_input :: event_input
  port_free_fn :: nat
  port_closing :: bool
  timestamping :: bool
  time_real :: bool
  time_queue :: int
  capability :: u32
  port_type :: u32
  midi_channels :: int
  midi_voices :: int
  synth_voices :: int

datatype client_type = NO_CLIENT | USER_CLIENT | KERNEL_CLIENT

record seq_client =
  cl_type :: client_type
  accept_input :: bool
  accept_output :: bool
  cl_name :: string
  cl_number :: int
  cl_filter :: u32
  event_filter :: "u8 \<Rightarrow> bool"
  cl_use_lock :: int
  event_lost :: int
  num_ports :: int
  ports_list :: "nat list"
  cl_pool :: nat
  cl_fifo :: "seq_fifo option"
  fifo_pool_size :: int
  cl_card :: "int option"

record seq_system = seq_state +
  clients :: "nat \<Rightarrow> seq_client"
  clienttab :: "nat \<Rightarrow> bool"
  clienttablock :: "nat \<Rightarrow> bool"
  usage_cur :: int
  usage_peak :: int
  port_heap :: "nat \<Rightarrow> client_port"
  subs_heap :: "nat \<Rightarrow> subscribers"
  sysclient :: int
  announce_port :: int
  module_uses :: u32

abbreviation (input) MAX_CLIENTS :: nat where "MAX_CLIENTS \<equiv> 192"
abbreviation (input) MAX_PORTS :: int where "MAX_PORTS \<equiv> 254"

definition upd_client :: "nat \<Rightarrow> (seq_client \<Rightarrow> seq_client) \<Rightarrow> 'm seq_system_scheme \<Rightarrow> 'm seq_system_scheme" where
  "upd_client c f st = st\<lparr>clients := (clients st)(c := f (clients st c))\<rparr>"

definition upd_port :: "nat \<Rightarrow> (client_port \<Rightarrow> client_port) \<Rightarrow> 'm seq_system_scheme \<Rightarrow> 'm seq_system_scheme" where
  "upd_port p f st = st\<lparr>port_heap := (port_heap st)(p := f (port_heap st p))\<rparr>"

definition upd_subs :: "nat \<Rightarrow> (subscribers \<Rightarrow> subscribers) \<Rightarrow> 'm seq_system_scheme \<Rightarrow> 'm seq_system_scheme" where
  "upd_subs s f st = st\<lparr>subs_heap := (subs_heap st)(s := f (subs_heap st s))\<rparr>"

section \<open>Finding clients and ports\<close>

definition clientptr :: "int \<Rightarrow> 'm seq_system_scheme \<Rightarrow> nat option" where
  "clientptr clientid st =
     (if clientid < 0 \<or> clientid \<ge> int MAX_CLIENTS then None
      else if clienttab st (nat clientid) then Some (nat clientid) else None)"

definition snd_seq_client_use_ptr :: "int \<Rightarrow> 'm seq_system_scheme \<Rightarrow> nat option \<times> 'm seq_system_scheme" where
  "snd_seq_client_use_ptr clientid st =
     (case clientptr clientid st of
        None \<Rightarrow> (None, st)
      | Some c \<Rightarrow> (Some c, upd_client c (\<lambda>c. c\<lparr>cl_use_lock := cl_use_lock c + 1\<rparr>) st))"

definition snd_seq_client_unlock :: "nat \<Rightarrow> 'm seq_system_scheme \<Rightarrow> 'm seq_system_scheme" where
  "snd_seq_client_unlock c st = upd_client c (\<lambda>c. c\<lparr>cl_use_lock := cl_use_lock c - 1\<rparr>) st"

definition port_no :: "(nat \<Rightarrow> client_port) \<Rightarrow> nat \<Rightarrow> int" where
  "port_no h p = uint (snd (port_addr (h p)))"

fun find_port :: "(nat \<Rightarrow> client_port) \<Rightarrow> int \<Rightarrow> nat list \<Rightarrow> nat option" where
  "find_port h num [] = None"
| "find_port h num (p # ps) =
     (if port_no h p = num then (if port_closing (h p) then None else Some p) else find_port h num ps)"

definition snd_seq_port_use_ptr :: "nat option \<Rightarrow> int \<Rightarrow> 'm seq_system_scheme \<Rightarrow> nat option \<times> 'm seq_system_scheme" where
  "snd_seq_port_use_ptr client num st =
     (case client of
        None \<Rightarrow> (None, st)
      | Some c \<Rightarrow>
          case find_port (port_heap st) num (ports_list (clients st c)) of
            None \<Rightarrow> (None, st)
          | Some p \<Rightarrow> (Some p, upd_port p (\<lambda>p. p\<lparr>port_use_lock := port_use_lock p + 1\<rparr>) st))"

definition snd_seq_port_unlock :: "nat \<Rightarrow> 'm seq_system_scheme \<Rightarrow> 'm seq_system_scheme" where
  "snd_seq_port_unlock p st = upd_port p (\<lambda>p. p\<lparr>port_use_lock := port_use_lock p - 1\<rparr>) st"

fun nearest_port :: "(nat \<Rightarrow> client_port) \<Rightarrow> int \<Rightarrow> nat option \<Rightarrow> nat list \<Rightarrow> nat option" where
  "nearest_port h num found [] = found"
| "nearest_port h num found (p # ps) =
     (if port_no h p < num then nearest_port h num found ps
      else if port_no h p = num then Some p
      else nearest_port h num
             (case found of None \<Rightarrow> Some p | Some f \<Rightarrow> if port_no h p < port_no h f then Some p else Some f) ps)"

definition snd_seq_port_query_nearest :: "nat \<Rightarrow> int \<Rightarrow> 'm seq_system_scheme \<Rightarrow> nat option \<times> 'm seq_system_scheme" where
  "snd_seq_port_query_nearest c num st =
     (case nearest_port (port_heap st) num None (ports_list (clients st c)) of
        None \<Rightarrow> (None, st)
      | Some p \<Rightarrow>
          if port_closing (port_heap st p) then (None, st)
          else (Some p, upd_port p (\<lambda>p. p\<lparr>port_use_lock := port_use_lock p + 1\<rparr>) st))"

section \<open>Creating a port\<close>

definition port_subs_info_init :: subs_group where
  "port_subs_info_init = \<lparr>grp_list = [], grp_count = 0, grp_exclusive = False, grp_open = 0, grp_close = 0\<rparr>"

text \<open>The loop that finds the place: the number, and the ports before and after the new one.\<close>

fun port_place :: "(nat \<Rightarrow> client_port) \<Rightarrow> int \<Rightarrow> int \<Rightarrow> nat list \<Rightarrow> int \<times> nat list \<times> nat list" where
  "port_place h port num [] = (num, [], [])"
| "port_place h port num (p # ps) =
     (if port_no h p > num then (num, [], p # ps)
      else
        let num = (if port < 0 then port_no h p + 1 else num);
            (num, before, after) = port_place h port num ps
        in (num, p # before, after))"

fun digits :: "nat \<Rightarrow> string" where
  "digits n = (if n < 10 then [char_of (48 + n)] else digits (n div 10) @ [char_of (48 + n mod 10)])"

text \<open>\<open>pid\<close> names the memory of the new port, \<open>None\<close> when there is none.\<close>

definition snd_seq_create_port :: "nat \<Rightarrow> int \<Rightarrow> nat option \<Rightarrow> 'm seq_system_scheme \<Rightarrow> nat option \<times> 'm seq_system_scheme" where
  "snd_seq_create_port c port pid st =
     (if num_ports (clients st c) \<ge> MAX_PORTS then (None, st)
      else
        case pid of
          None \<Rightarrow> (None, st)
        | Some p \<Rightarrow>
            let num = (if port \<ge> 0 then port else 0);
                (num, before, after) = port_place (port_heap st) port num (ports_list (clients st c));
                new_port = \<lparr>port_addr = (word_of_int (cl_number (clients st c)), word_of_int num),
                  port_name = ''port-'' @ digits (nat num), port_use_lock = 1, c_src = port_subs_info_init,
                  c_dest = port_subs_info_init, port_input = No_input, port_free_fn = 0, port_closing = False,
                  timestamping = False, time_real = False, time_queue = 0, capability = 0, port_type = 0,
                  midi_channels = 0, midi_voices = 0, synth_voices = 0\<rparr>
            in (Some p, upd_client c (\<lambda>c. c\<lparr>ports_list := before @ p # after, num_ports := num_ports c + 1\<rparr>)
                  (upd_port p (\<lambda>_. new_port) st)))"

section \<open>Port information\<close>

text \<open>\<^verbatim>\<open>struct snd_seq_port_info\<close>; strings are up to their terminating zero.\<close>

record port_info =
  pi_addr :: addr
  pi_name :: string
  pi_capability :: u32
  pi_type :: u32
  pi_midi_channels :: int
  pi_midi_voices :: int
  pi_synth_voices :: int
  pi_read_use :: u32
  pi_write_use :: u32
  pi_flags :: u32
  pi_time_queue :: u8

definition snd_seq_set_port_info :: "nat \<Rightarrow> port_info \<Rightarrow> 'm seq_system_scheme \<Rightarrow> 'm seq_system_scheme" where
  "snd_seq_set_port_info p info st =
     upd_port p (\<lambda>port. port\<lparr>
       port_name := (if pi_name info \<noteq> [] then take 63 (pi_name info) else port_name port),
       capability := pi_capability info, port_type := pi_type info,
       midi_channels := pi_midi_channels info, midi_voices := pi_midi_voices info, synth_voices := pi_synth_voices info,
       timestamping := (pi_flags info AND 2 \<noteq> 0), time_real := (pi_flags info AND 4 \<noteq> 0),
       time_queue := uint (pi_time_queue info)\<rparr>) st"

definition snd_seq_get_port_info :: "nat \<Rightarrow> port_info \<Rightarrow> 'm seq_system_scheme \<Rightarrow> port_info" where
  "snd_seq_get_port_info p info st =
     (let port = port_heap st p;
          info = info\<lparr>pi_name := take 63 (port_name port), pi_capability := capability port, pi_type := port_type port,
            pi_midi_channels := midi_channels port, pi_midi_voices := midi_voices port, pi_synth_voices := synth_voices port,
            pi_read_use := grp_count (c_src port), pi_write_use := grp_count (c_dest port), pi_flags := 0\<rparr>
      in if timestamping port
         then info\<lparr>pi_flags := (if time_real port then 6 else 2), pi_time_queue := word_of_int (time_queue port)\<rparr>
         else info)"

section \<open>Port numbers\<close>

lemma upd_client_simps [simp]:
  "clients (upd_client c f st) k = (if k = c then f (clients st c) else clients st k)"
  "clienttab (upd_client c f st) = clienttab st" "clienttablock (upd_client c f st) = clienttablock st"
  "port_heap (upd_client c f st) = port_heap st" "subs_heap (upd_client c f st) = subs_heap st"
  "queue_list (upd_client c f st) = queue_list st" "num_queues (upd_client c f st) = num_queues st" "sq_mem (upd_client c f st) = sq_mem st"
  "sysclient (upd_client c f st) = sysclient st" "announce_port (upd_client c f st) = announce_port st"
  "module_uses (upd_client c f st) = module_uses st" "seq_system.more (upd_client c f st) = seq_system.more st"
  by (simp_all add: upd_client_def)

lemma upd_port_simps [simp]:
  "port_heap (upd_port p f st) k = (if k = p then f (port_heap st p) else port_heap st k)"
  "clients (upd_port p f st) = clients st" "clienttab (upd_port p f st) = clienttab st" "clienttablock (upd_port p f st) = clienttablock st"
  "subs_heap (upd_port p f st) = subs_heap st" "queue_list (upd_port p f st) = queue_list st"
  "num_queues (upd_port p f st) = num_queues st" "sq_mem (upd_port p f st) = sq_mem st" "sysclient (upd_port p f st) = sysclient st"
  "announce_port (upd_port p f st) = announce_port st" "module_uses (upd_port p f st) = module_uses st"
  "seq_system.more (upd_port p f st) = seq_system.more st"
  by (simp_all add: upd_port_def)

text \<open>The ports of a client are in the order of their numbers, no number is used twice, and they are counted.\<close>

definition ports_ok :: "nat \<Rightarrow> 'm seq_system_scheme \<Rightarrow> bool" where
  "ports_ok c st \<longleftrightarrow> sorted_wrt (<) (map (port_no (port_heap st)) (ports_list (clients st c))) \<and>
     num_ports (clients st c) = int (length (ports_list (clients st c)))"

definition port_numbers :: "nat \<Rightarrow> 'm seq_system_scheme \<Rightarrow> int set" where
  "port_numbers c st = port_no (port_heap st) ` set (ports_list (clients st c))"

lemma port_no_range: "0 \<le> port_no h p" "port_no h p < 256"
  unfolding port_no_def using uint_bounded [of "snd (port_addr (h p))"] by simp_all

lemma port_place_splits: "port_place h port num ps = (n, bs, as) \<Longrightarrow> ps = bs @ as"
  by (induction ps arbitrary: num n bs as) (auto split: if_splits prod.splits simp: Let_def)

text \<open>Without a given number, the search stops at the first gap.\<close>

lemma port_place_auto:
  assumes "port < 0" "sorted_wrt (<) (map (port_no h) ps)" "\<forall>p\<in>set ps. num \<le> port_no h p" "port_place h port num ps = (n, bs, as)"
  shows "map (port_no h) bs = [num..n - 1] \<and> n = num + int (length bs) \<and> (\<forall>p\<in>set as. n < port_no h p)"
  using assms(2-4)
proof (induction ps arbitrary: num bs)
  case (Cons p ps)
  show ?case
  proof (cases "port_no h p > num")
    case True
    then show ?thesis using Cons.prems by (auto intro: less_trans)
  next
    case False
    then have p: "port_no h p = num" using Cons.prems(2) by auto
    obtain bs' where b: "port_place h port (num + 1) ps = (n, bs', as)" "bs = p # bs'"
      using Cons.prems(3) False assms(1) p by (auto simp: Let_def split: prod.splits)
    have "\<forall>p\<in>set ps. num + 1 \<le> port_no h p" using Cons.prems(1) p by auto
    note IH = Cons.IH [OF _ this b(1)]
    then show ?thesis using Cons.prems(1) b(2) p by (auto simp: upto_rec1)
  qed
qed auto

lemma port_place_given:
  assumes "port \<ge> 0" "sorted_wrt (<) (map (port_no h) ps)" "port_place h port num ps = (n, bs, as)"
  shows "n = num \<and> (\<forall>p\<in>set bs. port_no h p \<le> num) \<and> (\<forall>p\<in>set as. num < port_no h p)"
  using assms(2,3)
proof (induction ps arbitrary: num bs)
  case (Cons p ps)
  show ?case
  proof (cases "port_no h p > num")
    case True
    then show ?thesis using Cons.prems by (auto intro: less_trans)
  next
    case False
    then obtain bs' where b: "port_place h port num ps = (n, bs', as)" "bs = p # bs'"
      using Cons.prems(2) assms(1) by (auto simp: Let_def split: prod.splits)
    then show ?thesis using Cons.IH [OF _ b(1)] Cons.prems(1) False by auto
  qed
qed auto

lemma find_port_append: "find_port h n (ps @ qs) = (if n \<in> port_no h ` set ps then find_port h n ps else find_port h n qs)"
  by (induction ps) auto

lemma find_port_absent: "n \<notin> port_no h ` set ps \<Longrightarrow> find_port h n ps = None"
  by (induction ps) auto

lemma find_port_cong: "(\<And>p. p \<in> set ps \<Longrightarrow> h p = h' p) \<Longrightarrow> find_port h n ps = find_port h' n ps"
  by (induction ps) (auto simp: port_no_def)

lemma find_port_insert:
  assumes "p \<notin> set (bs @ as)" "port_no h' p = n" "\<And>k. k \<noteq> p \<Longrightarrow> h' k = h k" "n \<notin> port_no h ` set bs" "\<not> port_closing (h' p)"
  shows "find_port h' k (bs @ p # as) = (if k = n then Some p else find_port h k (bs @ as))"
proof -
  have same: "h' x = h x" if "x \<in> set (bs @ as)" for x using that assms(1,3) by metis
  then have "port_no h' x = port_no h x" if "x \<in> set (bs @ as)" for x using that by (simp add: port_no_def)
  then have im: "port_no h' ` set bs = port_no h ` set bs" and
    f: "find_port h' k bs = find_port h k bs" "find_port h' k as = find_port h k as"
    using same by (auto intro!: image_cong find_port_cong)
  show ?thesis using assms(2,4,5) f unfolding find_port_append im by auto
qed


text \<open>What creating a port does, given the place that was found for it.\<close>

lemma create_port_outcome:
  assumes "num_ports (clients st c) < MAX_PORTS" "p \<notin> set (ports_list (clients st c))"
    and "port_place (port_heap st) port (if port \<ge> 0 then port else 0) (ports_list (clients st c)) = (n, bs, as)"
    and "0 \<le> n" "n < 256"
  shows "\<exists>st'. snd_seq_create_port c port (Some p) st = (Some p, st') \<and> port_no (port_heap st') p = n \<and>
    ports_list (clients st' c) = bs @ p # as \<and> num_ports (clients st' c) = num_ports (clients st c) + 1 \<and>
    \<not> port_closing (port_heap st' p) \<and> (\<forall>k. k \<noteq> p \<longrightarrow> port_heap st' k = port_heap st k)"
proof -
  let ?pl = "port_place (port_heap st) port (if port \<ge> 0 then port else 0) (ports_list (clients st c))"
  have "uint (word_of_int n :: u8) = n" using assms(4,5) by (simp add: uint_word_of_int_eq take_bit_eq_mod)
  then show ?thesis using assms(1) unfolding snd_seq_create_port_def Let_def assms(3) prod.case
    by (simp add: port_no_def)
qed

lemma port_no_cong: "(\<And>k. k \<in> set ps \<Longrightarrow> h' k = h k) \<Longrightarrow> map (port_no h') ps = map (port_no h) ps"
  by (simp add: port_no_def)

text \<open>
  A new port without a given number gets the smallest number the client does not use yet, which is below the
  limit of 254 ports; a port with a given number that is free gets that number. The list stays in order and
  without duplicates, the new port is found under its number, and the others as before.
\<close>

theorem create_port_numbers:
  assumes "ports_ok c st" "num_ports (clients st c) < MAX_PORTS" "p \<notin> set (ports_list (clients st c))"
    and "port < 256" "port \<notin> port_numbers c st"
  shows "\<exists>st' n. snd_seq_create_port c port (Some p) st = (Some p, st') \<and> n \<notin> port_numbers c st \<and>
    (if port \<ge> 0 then n = port else 0 \<le> n \<and> n < MAX_PORTS \<and> {0..<n} \<subseteq> port_numbers c st) \<and>
    ports_ok c st' \<and> port_numbers c st' = insert n (port_numbers c st) \<and>
    (\<forall>k. find_port (port_heap st') k (ports_list (clients st' c)) =
      (if k = n then Some p else find_port (port_heap st) k (ports_list (clients st c))))"
proof -
  let ?h = "port_heap st" and ?ps = "ports_list (clients st c)"
  obtain n bs as where pl: "port_place ?h port (if port \<ge> 0 then port else 0) ?ps = (n, bs, as)" by (rule prod_cases3)
  have sorted: "sorted_wrt (<) (map (port_no ?h) ?ps)" using assms(1) by (simp add: ports_ok_def)
  have ps: "?ps = bs @ as" by (rule port_place_splits [OF pl])
  have "(if port \<ge> 0 then n = port else n = int (length bs) \<and> map (port_no ?h) bs = [0..n - 1]) \<and>
      (\<forall>p\<in>set bs. port_no ?h p < n) \<and> (\<forall>p\<in>set as. n < port_no ?h p)"
  proof (cases "port \<ge> 0")
    case True
    have "\<forall>p\<in>set bs. port_no ?h p \<noteq> port" using assms(5) ps by (auto simp: port_numbers_def)
    then show ?thesis using port_place_given [OF True sorted pl] True by force
  next
    case False
    then have neg: "port < 0" by simp
    have a: "map (port_no ?h) bs = [0..n - 1]" "n = int (length bs)" "\<forall>p\<in>set as. n < port_no ?h p"
      using port_place_auto [OF neg sorted _ pl] False port_no_range(1) by auto
    then have "port_no ?h ` set bs = {0..n - 1}" by (metis list.set_map set_upto)
    then have "\<forall>p\<in>set bs. port_no ?h p < n" by (metis atLeastAtMost_iff imageI zle_diff1_eq)
    then show ?thesis using a False by simp
  qed
  then have n: "port \<ge> 0 \<Longrightarrow> n = port" "port < 0 \<Longrightarrow> n = int (length bs)" "port < 0 \<Longrightarrow> map (port_no ?h) bs = [0..n - 1]"
    "\<forall>p\<in>set bs. port_no ?h p < n" "\<forall>p\<in>set as. n < port_no ?h p" by (simp_all split: if_splits)
  have small: "port < 0 \<Longrightarrow> n < MAX_PORTS"
    using n(2) assms(1,2) ps by (simp add: ports_ok_def)
  have range: "0 \<le> n" "n < 256" using n(1,2) small assms(4) by linarith+
  obtain st' where st': "snd_seq_create_port c port (Some p) st = (Some p, st')" "port_no (port_heap st') p = n"
    "ports_list (clients st' c) = bs @ p # as" "num_ports (clients st' c) = num_ports (clients st c) + 1"
    "\<not> port_closing (port_heap st' p)" "\<forall>k. k \<noteq> p \<longrightarrow> port_heap st' k = ?h k"
    using create_port_outcome [OF assms(2,3) pl range] by blast
  have same: "map (port_no (port_heap st')) bs = map (port_no ?h) bs" "map (port_no (port_heap st')) as = map (port_no ?h) as"
    using st'(6) assms(3) ps by (intro port_no_cong; auto)+
  have nos: "map (port_no (port_heap st')) (ports_list (clients st' c)) = map (port_no ?h) bs @ n # map (port_no ?h) as"
    unfolding st'(3) by (simp only: map_append list.map same st'(2))
  have "sorted_wrt (<) (map (port_no ?h) bs @ n # map (port_no ?h) as)"
    using sorted n(4,5) ps by (simp add: sorted_wrt_append)
  moreover have "num_ports (clients st' c) = int (length (ports_list (clients st' c)))"
    using assms(1) ps st'(3,4) by (simp add: ports_ok_def)
  ultimately have ok: "ports_ok c st'" by (simp only: ports_ok_def nos simp_thms)
  have nums: "port_numbers c st' = insert n (port_numbers c st)"
    unfolding port_numbers_def set_map [symmetric] nos ps by simp
  have fresh: "n \<notin> port_numbers c st" using n(4,5) unfolding port_numbers_def ps by auto
  have "n \<notin> port_no ?h ` set bs" using n(4) by auto
  then have "find_port (port_heap st') k (bs @ p # as) = (if k = n then Some p else find_port ?h k (bs @ as))" for k
    using find_port_insert [of p bs as "port_heap st'" n ?h k] assms(3) ps st'(2,5,6) by auto
  moreover have "port < 0 \<Longrightarrow> {0..<n} \<subseteq> port_numbers c st"
  proof -
    assume "port < 0"
    then have "set (map (port_no ?h) bs) = {0..n - 1}" using n(3) by simp
    then show ?thesis unfolding port_numbers_def ps by auto
  qed
  ultimately show ?thesis using st'(1,3) ok nums fresh n(1) small range ps by (intro exI [of _ st'] exI [of _ n]) auto
qed

definition sample_group :: "nat list \<Rightarrow> subs_group" where
  "sample_group ss = \<lparr>grp_list = ss, grp_count = of_nat (length ss), grp_exclusive = False, grp_open = 0, grp_close = 0\<rparr>"

definition sample_port :: "addr \<Rightarrow> client_port" where
  "sample_port a = \<lparr>port_addr = a, port_name = ''port'', port_use_lock = 0, c_src = sample_group [], c_dest = sample_group [],
     port_input = No_input, port_free_fn = 0, port_closing = False, timestamping = False, time_real = False, time_queue = 0,
     capability = 0x63, port_type = 0, midi_channels = 16, midi_voices = 0, synth_voices = 0\<rparr>"

definition sample_client :: "nat \<Rightarrow> nat list \<Rightarrow> seq_client" where
  "sample_client c ps = \<lparr>cl_type = USER_CLIENT, accept_input = True, accept_output = True, cl_name = ''client'', cl_number = int c,
     cl_filter = 0, event_filter = (\<lambda>_. False), cl_use_lock = 0, event_lost = 0, num_ports = int (length ps), ports_list = ps,
     cl_pool = c, cl_fifo = None, fifo_pool_size = 0, cl_card = None\<rparr>"

text \<open>Two clients, 128 with the ports 0, 1 and 3, and 129 with the port 0.\<close>

definition sample_system :: seq_system where
  "sample_system = \<lparr>queue_list = [3 \<mapsto> sample_queue], num_queues = 1, sq_mem = sample_mem,
     clients = (\<lambda>c. if c = 128 then sample_client 128 [10, 11, 13] else if c = 129 then sample_client 129 [20] else sample_client c []),
     clienttab = (\<lambda>c. c = 128 \<or> c = 129), clienttablock = (\<lambda>_. False), usage_cur = 2, usage_peak = 2,
     port_heap = (\<lambda>p. if p = 20 then sample_port (129, 0) else sample_port (128, of_nat (p - 10))),
     subs_heap = (\<lambda>_. \<lparr>sub_info = \<lparr>ps_sender = (0, 0), ps_dest = (0, 0), ps_voices = 0, ps_flags = 0, ps_queue = 0\<rparr>, ref_count = 0\<rparr>),
     sysclient = 0, announce_port = 1, module_uses = 0\<rparr>"

lemma sample_ports:
  "ports_list (clients sample_system 128) = [10, 11, 13]" "num_ports (clients sample_system 128) = 3"
  "port_no (port_heap sample_system) 10 = 0" "port_no (port_heap sample_system) 11 = 1" "port_no (port_heap sample_system) 13 = 3"
  "\<not> port_closing (port_heap sample_system p)"
  by (simp_all add: sample_system_def sample_client_def sample_port_def port_no_def)

lemma sample_ports_ok: "ports_ok 128 sample_system" "port_numbers 128 sample_system = {0, 1, 3}"
  by (simp_all add: ports_ok_def port_numbers_def sample_ports)

theorem create_port_numbers_witness:
  "\<exists>st'. snd_seq_create_port 128 (- 1) (Some 12) sample_system = (Some 12, st') \<and> port_numbers 128 st' = {0, 1, 2, 3}"
proof -
  obtain st' n where s: "snd_seq_create_port 128 (- 1) (Some 12) sample_system = (Some 12, st')" "n \<notin> {0, 1, 3}"
    "0 \<le> n \<and> n < MAX_PORTS \<and> {0..<n} \<subseteq> {0, 1, 3}" "port_numbers 128 st' = insert n {0, 1, 3}"
    using create_port_numbers [OF sample_ports_ok(1), of 12 "- 1"] by (auto simp: sample_ports sample_ports_ok(2))
  have "n = 2"
  proof (rule ccontr)
    assume "n \<noteq> 2"
    then have "2 \<in> {0..<n}" using s(2,3) by auto
    then have "(2 :: int) \<in> {0, 1, 3}" using s(3) by blast
    then show False by simp
  qed
  then show ?thesis using s(1,4) by (auto simp: insert_commute)
qed

text \<open>
  A given number is not checked: when the client uses it already, a second port gets the same number. It is
  linked behind the first one, so that a search for the number never finds it.
\<close>

theorem given_port_shadowed:
  assumes "ports_ok c st" "num_ports (clients st c) < MAX_PORTS" "p \<notin> set (ports_list (clients st c))"
    and "0 \<le> port" "port < 256" "find_port (port_heap st) port (ports_list (clients st c)) = Some q"
  shows "\<exists>st'. snd_seq_create_port c port (Some p) st = (Some p, st') \<and> p \<in> set (ports_list (clients st' c)) \<and>
    port_no (port_heap st') p = port \<and> find_port (port_heap st') port (ports_list (clients st' c)) = Some q \<and> q \<noteq> p"
proof -
  let ?h = "port_heap st" and ?ps = "ports_list (clients st c)"
  obtain n bs as where pl: "port_place ?h port port ?ps = (n, bs, as)" by (rule prod_cases3)
  have sorted: "sorted_wrt (<) (map (port_no ?h) ?ps)" using assms(1) by (simp add: ports_ok_def)
  have ps: "?ps = bs @ as" by (rule port_place_splits [OF pl])
  have n: "n = port" "\<forall>p\<in>set as. port < port_no ?h p" using port_place_given [OF assms(4) sorted pl] by auto
  obtain st' where st': "snd_seq_create_port c port (Some p) st = (Some p, st')" "port_no (port_heap st') p = n"
    "ports_list (clients st' c) = bs @ p # as" "\<forall>k. k \<noteq> p \<longrightarrow> port_heap st' k = ?h k"
    using create_port_outcome [OF assms(2,3), of port n bs as] pl assms(4,5) n(1) by auto
  have "port \<notin> port_no ?h ` set as" using n(2) by auto
  then have bs: "port \<in> port_no ?h ` set bs" "find_port ?h port bs = Some q"
    using assms(6) find_port_absent [of port ?h as] unfolding ps find_port_append by (auto split: if_splits)
  have same: "port_heap st' k = ?h k" if "k \<in> set bs" for k using that st'(4) assms(3) ps by auto
  then have "port_no (port_heap st') ` set bs = port_no ?h ` set bs" by (auto simp: port_no_def intro!: image_cong)
  moreover have "find_port (port_heap st') port bs = Some q" using find_port_cong [of bs "port_heap st'" ?h port] same bs(2) by simp
  ultimately have found: "find_port (port_heap st') port (ports_list (clients st' c)) = Some q"
    unfolding st'(3) find_port_append using bs(1) by simp
  have "q \<in> set bs" using bs(2) by (induction bs) (auto split: if_splits)
  then have "q \<noteq> p" using assms(3) ps by auto
  then show ?thesis using st' n(1) found by auto
qed

theorem given_port_shadowed_witness:
  "\<exists>st'. snd_seq_create_port 128 1 (Some 12) sample_system = (Some 12, st') \<and> 12 \<in> set (ports_list (clients st' 128)) \<and>
    find_port (port_heap st') 1 (ports_list (clients st' 128)) = Some 11"
  using given_port_shadowed [OF sample_ports_ok(1), of 12 1 11] by (auto simp: sample_ports)

text \<open>The information of a port reads back as it was set, up to the name, the use counts and the flags that mean nothing.\<close>

lemma get_set_port_info:
  "snd_seq_get_port_info p info' (snd_seq_set_port_info p info st) =
     info'\<lparr>pi_name := (if pi_name info \<noteq> [] then take 63 (pi_name info) else take 63 (port_name (port_heap st p))),
       pi_capability := pi_capability info, pi_type := pi_type info, pi_midi_channels := pi_midi_channels info,
       pi_midi_voices := pi_midi_voices info, pi_synth_voices := pi_synth_voices info,
       pi_read_use := grp_count (c_src (port_heap st p)), pi_write_use := grp_count (c_dest (port_heap st p)),
       pi_flags := (if pi_flags info AND 2 = 0 then 0 else if pi_flags info AND 4 = 0 then 2 else 6),
       pi_time_queue := (if pi_flags info AND 2 = 0 then pi_time_queue info' else pi_time_queue info)\<rparr>"
  by (simp add: snd_seq_get_port_info_def snd_seq_set_port_info_def Let_def)

end
