(* ===== verification/SeqDeliver.thy ===== *)
theory SeqDeliver
  imports SeqPorts
begin

text \<open>
  How events reach their destination: the delivery functions of \<^verbatim>\<open>core/seq/seq_clientmgr.c\<close>, the system client
  of \<^verbatim>\<open>seq_system.c\<close> and the through ports of \<^verbatim>\<open>seq_dummy.c\<close>. An event goes to one port or to all subscribers of
  a port; a user client gets it in its input queue, a kernel client through a callback, which may dispatch
  further events. The callbacks of drivers are a parameter. \<open>None\<close> is a call that does not return.
\<close>

section \<open>Events\<close>

abbreviation (input) EMLINK :: int where "EMLINK \<equiv> 31"
abbreviation (input) ADDRESS_SUBSCRIBERS :: u8 where "ADDRESS_SUBSCRIBERS \<equiv> 254"
abbreviation (input) QUEUE_DIRECT :: u8 where "QUEUE_DIRECT \<equiv> 253"
abbreviation (input) MAX_HOPS :: nat where "MAX_HOPS \<equiv> 8"

definition snd_seq_ev_is_direct :: "seq_event \<Rightarrow> bool" where
  "snd_seq_ev_is_direct e \<longleftrightarrow> ev_queue e = QUEUE_DIRECT"

definition snd_seq_ev_is_variable_type :: "seq_event \<Rightarrow> bool" where
  "snd_seq_ev_is_variable_type e \<longleftrightarrow> ev_type e \<ge> 130 \<and> ev_type e < 140"

definition snd_seq_ev_is_reserved :: "seq_event \<Rightarrow> bool" where
  "snd_seq_ev_is_reserved e \<longleftrightarrow> ev_type e \<ge> 150"

definition check_event_type_and_length :: "seq_event \<Rightarrow> int" where
  "check_event_type_and_length ev =
     (let length_type = ev_flags ev AND 12
      in if length_type = 0 then (if snd_seq_ev_is_variable_type ev then - EINVAL else 0)
         else if length_type = 4 then
           (if \<not> snd_seq_ev_is_variable_type ev \<or> ext_len ev AND NOT EXT_MASK \<ge> 0x3fffffff then - EINVAL else 0)
         else if length_type = 8 then (if \<not> snd_seq_ev_is_direct ev then - EINVAL else 0)
         else 0)"

text \<open>
  What surrounds one delivery: the bytes at the data pointer of the event and where reading them faults, the
  address a quoted event has, and the time since the last timer interrupt.
\<close>

record delivery_env =
  de_data :: "u8 list"
  de_bad :: "nat \<Rightarrow> bool"
  de_quote :: u32
  de_elapsed :: real_time

text \<open>
  What a driver may call back from its \<^verbatim>\<open>event_input\<close>: \<^verbatim>\<open>snd_seq_kernel_client_dispatch\<close>, with the number of
  hops it was given. A driver outside the sequencer is a function of its number.
\<close>

type_synonym 'm dispatcher = "int \<Rightarrow> seq_event \<Rightarrow> bool \<Rightarrow> 'm seq_system_scheme \<Rightarrow> (int \<times> 'm seq_system_scheme) option"
type_synonym 'm drivers =
  "nat \<Rightarrow> 'm dispatcher \<Rightarrow> seq_event \<Rightarrow> bool \<Rightarrow> bool \<Rightarrow> 'm seq_system_scheme \<Rightarrow> (int \<times> 'm seq_system_scheme) option"

section \<open>Destinations\<close>

definition check_port_perm :: "client_port \<Rightarrow> u32 \<Rightarrow> bool" where
  "check_port_perm port flags \<longleftrightarrow> capability port AND flags = flags"

definition get_event_dest_client :: "seq_event \<Rightarrow> u32 \<Rightarrow> 'm seq_system_scheme \<Rightarrow> nat option \<times> 'm seq_system_scheme" where
  "get_event_dest_client event flt st =
     (case snd_seq_client_use_ptr (uint (fst (ev_dest event))) st of
        (None, st) \<Rightarrow> (None, st)
      | (Some d, st) \<Rightarrow>
          let dest = clients st d
          in if \<not> accept_input dest \<or>
                cl_filter dest AND 0x80000000 \<noteq> 0 \<and> \<not> event_filter dest (ev_type event) \<or>
                flt \<noteq> 0 \<and> cl_filter dest AND flt = 0
             then (None, snd_seq_client_unlock d st) else (Some d, st))"

definition update_timestamp_of_queue ::
  "delivery_env \<Rightarrow> seq_event \<Rightarrow> int \<Rightarrow> bool \<Rightarrow> 'm seq_system_scheme \<Rightarrow> seq_event \<times> 'm seq_system_scheme" where
  "update_timestamp_of_queue env event queue real_time st =
     (case queueptr queue st of
        (None, st) \<Rightarrow> (event, st)
      | (Some i, st) \<Rightarrow>
          case queue_list st i of
            None \<Rightarrow> (event, st)
          | Some q \<Rightarrow>
              let flags = ev_flags event AND NOT 1
              in ((if real_time
                   then event\<lparr>ev_queue := word_of_int queue, ev_flags := flags OR 1,
                          ev_time := snd_seq_timer_get_cur_time True (de_elapsed env) (q_timer q)\<rparr>
                   else event\<lparr>ev_queue := word_of_int queue, ev_flags := flags,
                          ev_time := Real_time (snd_seq_timer_get_cur_tick (q_timer q)) (tv_nsec (ev_time event))\<rparr>),
                  queuefree i st))"

section \<open>The callbacks of the sequencer's own clients\<close>

text \<open>The timer port of the system client, and the through ports of \<^verbatim>\<open>seq_dummy.c\<close>.\<close>

definition event_input_timer :: "'m dispatcher \<Rightarrow> seq_event \<Rightarrow> bool \<Rightarrow> 'm seq_system_scheme \<Rightarrow> (int \<times> 'm seq_system_scheme) option" where
  "event_input_timer dispatch ev atomic st = snd_seq_control_queue (\<lambda>e. dispatch 0 e atomic) ev st"

definition dummy_input ::
  "'m dispatcher \<Rightarrow> dummy_port \<Rightarrow> seq_event \<Rightarrow> bool \<Rightarrow> 'm seq_system_scheme \<Rightarrow> (int \<times> 'm seq_system_scheme) option" where
  "dummy_input dispatch p ev atomic st =
     (if fst (ev_source ev) = 0 \<or> ev_type ev = 150 then Some (0, st)
      else
        dispatch (dp_client p)
          (ev\<lparr>ev_source := (fst (ev_source ev), word_of_int (if dp_duplex p then dp_connect p else dp_port p)),
              ev_dest := (ADDRESS_SUBSCRIBERS, snd (ev_dest ev))\<rparr>) atomic st)"

definition call_event_input ::
  "'m drivers \<Rightarrow> 'm dispatcher \<Rightarrow> event_input \<Rightarrow> seq_event \<Rightarrow> bool \<Rightarrow> bool \<Rightarrow> 'm seq_system_scheme \<Rightarrow>
   (int \<times> 'm seq_system_scheme) option" where
  "call_event_input drivers dispatch f ev direct atomic st =
     (case f of
        No_input \<Rightarrow> Some (- ENOENT, st)
      | Timer_input \<Rightarrow> event_input_timer dispatch ev atomic st
      | Dummy_input p \<Rightarrow> dummy_input dispatch p ev atomic st
      | Driver_input n \<Rightarrow> drivers n dispatch ev direct atomic st)"

section \<open>Delivery to one port\<close>

text \<open>
  \<^verbatim>\<open>snd_seq_deliver_single_event\<close> up to the bounce. \<open>fwd h\<close> is what a callback dispatches with when it is given
  the hop count \<open>h\<close>. The event comes back with the time stamp it was given.
\<close>

definition put_event ::
  "'m drivers \<Rightarrow> (nat \<Rightarrow> 'm dispatcher) \<Rightarrow> delivery_env \<Rightarrow> nat \<Rightarrow> nat \<Rightarrow> bool \<Rightarrow> seq_event \<Rightarrow> bool \<Rightarrow> nat \<Rightarrow>
   'm seq_system_scheme \<Rightarrow> (int \<times> 'm seq_system_scheme) option" where
  "put_event drivers fwd env d p direct event atomic hop st =
     (case cl_type (clients st d) of
        USER_CLIENT \<Rightarrow>
          (case cl_fifo (clients st d) of
             None \<Rightarrow> Some (- ENOENT, st)
           | Some f \<Rightarrow>
               map_option (\<lambda>(result, f, m). (result, upd_client d (\<lambda>c. c\<lparr>cl_fifo := Some f\<rparr>) (st\<lparr>sq_mem := m\<rparr>)))
                 (snd_seq_fifo_event_in event (de_data env) (de_bad env) f (sq_mem st)))
      | KERNEL_CLIENT \<Rightarrow> call_event_input drivers (fwd hop) (port_input (port_heap st p)) event direct atomic st
      | NO_CLIENT \<Rightarrow> Some (- ENOENT, st))"

definition deliver_one ::
  "'m drivers \<Rightarrow> (nat \<Rightarrow> 'm dispatcher) \<Rightarrow> delivery_env \<Rightarrow> seq_event \<Rightarrow> u32 \<Rightarrow> bool \<Rightarrow> nat \<Rightarrow> 'm seq_system_scheme \<Rightarrow>
   (int \<times> seq_event \<times> 'm seq_system_scheme) option" where
  "deliver_one drivers fwd env event flt atomic hop st =
     (let direct = snd_seq_ev_is_direct event
      in case get_event_dest_client event flt st of
           (None, st) \<Rightarrow> Some (- ENOENT, event, st)
         | (Some d, st) \<Rightarrow>
             case snd_seq_port_use_ptr (Some d) (uint (snd (ev_dest event))) st of
               (None, st) \<Rightarrow> Some (- ENOENT, event, snd_seq_client_unlock d st)
             | (Some p, st) \<Rightarrow>
                 let port = port_heap st p; unlock = (\<lambda>st. snd_seq_client_unlock d (snd_seq_port_unlock p st))
                 in if \<not> check_port_perm port 2 then Some (- EPERM, event, unlock st)
                    else
                      let (event, st) = (if timestamping port
                                         then update_timestamp_of_queue env event (time_queue port) (time_real port) st
                                         else (event, st))
                      in map_option (\<lambda>(result, st). (result, event, unlock st))
                           (put_event drivers fwd env d p direct event atomic hop st))"

text \<open>
  The bounced event is itself direct, so that its delivery, for which no client is given, never bounces again.
\<close>

definition bounce_event :: "delivery_env \<Rightarrow> seq_client \<Rightarrow> seq_event \<Rightarrow> int \<Rightarrow> seq_event" where
  "bounce_event env client event err =
     \<lparr>ev_type = 150, ev_flags = 0, ev_tag = 0, ev_queue = QUEUE_DIRECT, ev_time = Real_time 0 0, ev_source = (0, 1),
      ev_dest = (word_of_int (cl_number client), snd (ev_source event)),
      ev_data = (ucast (fst (ev_dest event)) OR push_bit 8 (ucast (snd (ev_dest event))) OR
                   push_bit 16 (word_of_int (- err)), de_quote env, 0)\<rparr>"

definition bounce_error_event ::
  "'m drivers \<Rightarrow> (nat \<Rightarrow> 'm dispatcher) \<Rightarrow> delivery_env \<Rightarrow> nat option \<Rightarrow> seq_event \<Rightarrow> int \<Rightarrow> bool \<Rightarrow> nat \<Rightarrow>
   'm seq_system_scheme \<Rightarrow> (int \<times> 'm seq_system_scheme) option" where
  "bounce_error_event drivers fwd env client event err atomic hop st =
     (case client of
        None \<Rightarrow> Some (0, st)
      | Some c \<Rightarrow>
          if cl_filter (clients st c) AND 4 = 0 \<or> \<not> accept_input (clients st c) then Some (0, st)
          else
            map_option (\<lambda>(result, _, st).
              (result, if result < 0 then upd_client c (\<lambda>c. c\<lparr>event_lost := event_lost c + 1\<rparr>) st else st))
              (deliver_one drivers fwd env (bounce_event env (clients st c) event err) 0 atomic (hop + 1) st))"

definition snd_seq_deliver_single_event ::
  "'m drivers \<Rightarrow> (nat \<Rightarrow> 'm dispatcher) \<Rightarrow> delivery_env \<Rightarrow> nat option \<Rightarrow> seq_event \<Rightarrow> u32 \<Rightarrow> bool \<Rightarrow> nat \<Rightarrow>
   'm seq_system_scheme \<Rightarrow> (int \<times> seq_event \<times> 'm seq_system_scheme) option" where
  "snd_seq_deliver_single_event drivers fwd env client event flt atomic hop st =
     Option.bind (deliver_one drivers fwd env event flt atomic hop st) (\<lambda>(result, event', st).
       if result < 0 \<and> \<not> snd_seq_ev_is_direct event
       then map_option (\<lambda>(result, st). (result, event', st))
              (bounce_error_event drivers fwd env client event' result atomic hop st)
       else Some (result, event', st))"

section \<open>Delivery to subscribers\<close>

text \<open>The loop over the subscriptions: the first error, the number of deliveries and the state.\<close>

fun each_subscriber ::
  "'m drivers \<Rightarrow> (nat \<Rightarrow> 'm dispatcher) \<Rightarrow> delivery_env \<Rightarrow> nat \<Rightarrow> seq_event \<Rightarrow> bool \<Rightarrow> nat \<Rightarrow> nat list \<Rightarrow> seq_event \<Rightarrow> int \<Rightarrow> int \<Rightarrow>
   'm seq_system_scheme \<Rightarrow> (int \<times> int \<times> 'm seq_system_scheme) option" where
  "each_subscriber drivers fwd env client saved atomic hop [] event result num_ev st = Some (result, num_ev, st)"
| "each_subscriber drivers fwd env client saved atomic hop (s # ss) event result num_ev st =
     (if ref_count (subs_heap st s) \<noteq> 2
      then each_subscriber drivers fwd env client saved atomic hop ss event result num_ev st
      else
        let info = sub_info (subs_heap st s); event = event\<lparr>ev_dest := ps_dest info\<rparr>;
            (event, st) = (if ps_flags info AND 2 \<noteq> 0
                           then update_timestamp_of_queue env event (uint (ps_queue info)) (ps_flags info AND 4 \<noteq> 0) st
                           else (event, st))
        in case snd_seq_deliver_single_event drivers fwd env (Some client) event 0 atomic hop st of
             None \<Rightarrow> None
           | Some (err, event, st) \<Rightarrow>
               if err < 0
               then each_subscriber drivers fwd env client saved atomic hop ss event (if result = 0 then err else result) num_ev st
               else each_subscriber drivers fwd env client saved atomic hop ss saved result (num_ev + 1) st)"

definition deliver_to_subscribers ::
  "'m drivers \<Rightarrow> (nat \<Rightarrow> 'm dispatcher) \<Rightarrow> delivery_env \<Rightarrow> nat \<Rightarrow> seq_event \<Rightarrow> bool \<Rightarrow> nat \<Rightarrow> 'm seq_system_scheme \<Rightarrow>
   (int \<times> 'm seq_system_scheme) option" where
  "deliver_to_subscribers drivers fwd env client event atomic hop st =
     (case snd_seq_port_use_ptr (Some client) (uint (snd (ev_source event))) st of
        (None, st) \<Rightarrow> Some (- EINVAL, st)
      | (Some src_port, st) \<Rightarrow>
          map_option (\<lambda>(result, num_ev, st). (if result < 0 then result else num_ev, snd_seq_port_unlock src_port st))
            (each_subscriber drivers fwd env client event atomic hop (grp_list (c_src (port_heap st src_port))) event 0 0 st))"

section \<open>Delivery\<close>

text \<open>\<^verbatim>\<open>snd_seq_kernel_client_dispatch\<close>, for a given way to deliver.\<close>

definition dispatch_with ::
  "(nat \<Rightarrow> seq_event \<Rightarrow> bool \<Rightarrow> 'm seq_system_scheme \<Rightarrow> (int \<times> 'm seq_system_scheme) option) \<Rightarrow> 'm dispatcher" where
  "dispatch_with deliver client ev atomic st =
     (let ev = ev\<lparr>ev_queue := QUEUE_DIRECT, ev_source := (word_of_int client, snd (ev_source ev))\<rparr>
      in if check_event_type_and_length ev \<noteq> 0 then Some (- EINVAL, st)
         else
           case snd_seq_client_use_ptr client st of
             (None, st) \<Rightarrow> Some (- EINVAL, st)
           | (Some c, st) \<Rightarrow>
               map_option (\<lambda>(result, st). (result, snd_seq_client_unlock c st))
                 (if \<not> accept_output (clients st c) then Some (- EPERM, st) else deliver c ev atomic st))"

text \<open>
  The recursion through the callbacks is bounded by the number of hops: a callback dispatches with the hop
  count it is given, which is larger than that of the delivery it is called from.
\<close>

function snd_seq_deliver_event ::
  "'m drivers \<Rightarrow> delivery_env \<Rightarrow> nat \<Rightarrow> seq_event \<Rightarrow> bool \<Rightarrow> nat \<Rightarrow> 'm seq_system_scheme \<Rightarrow> (int \<times> 'm seq_system_scheme) option" where
  "snd_seq_deliver_event drivers env client event atomic hop st =
     (if hop + 1 \<ge> MAX_HOPS then Some (- EMLINK, st)
      else
        let fwd = (\<lambda>h clientid ev atomic st.
              if h \<le> hop then None
              else dispatch_with (\<lambda>c ev atomic st. snd_seq_deliver_event drivers env c ev atomic h st) clientid ev atomic st)
        in if ev_queue event = ADDRESS_SUBSCRIBERS \<or> fst (ev_dest event) = ADDRESS_SUBSCRIBERS
           then deliver_to_subscribers drivers fwd env client event atomic (hop + 1) st
           else
             map_option (\<lambda>(result, _, st). (result, st))
               (snd_seq_deliver_single_event drivers fwd env (Some client) event 0 atomic (hop + 1) st))"
  by pat_completeness auto
termination by (relation "measure (\<lambda>(_, _, _, _, _, hop, _). MAX_HOPS - hop)") auto

declare snd_seq_deliver_event.simps [simp del]

definition snd_seq_kernel_client_dispatch ::
  "'m drivers \<Rightarrow> delivery_env \<Rightarrow> int \<Rightarrow> seq_event \<Rightarrow> bool \<Rightarrow> nat \<Rightarrow> 'm seq_system_scheme \<Rightarrow> (int \<times> 'm seq_system_scheme) option" where
  "snd_seq_kernel_client_dispatch drivers env client ev atomic hop st =
     dispatch_with (\<lambda>c ev atomic st. snd_seq_deliver_event drivers env c ev atomic hop st) client ev atomic st"

section \<open>The system client\<close>

definition zero_event :: seq_event where
  "zero_event = \<lparr>ev_type = 0, ev_flags = 0, ev_tag = 0, ev_queue = 0, ev_time = Real_time 0 0, ev_source = (0, 0), ev_dest = (0, 0),
     ev_data = (0, 0, 0)\<rparr>"

definition setheader :: "int \<Rightarrow> int \<Rightarrow> 'm seq_system_scheme \<Rightarrow> seq_event option" where
  "setheader client port st =
     (if announce_port st < 0 then None
      else Some (zero_event\<lparr>ev_source := (word_of_int (sysclient st), word_of_int (announce_port st)),
             ev_dest := (ADDRESS_SUBSCRIBERS, 0),
             ev_data := (ucast (word_of_int client :: u8) OR push_bit 8 (ucast (word_of_int port :: u8)), 0, 0)\<rparr>))"

definition snd_seq_system_broadcast ::
  "'m drivers \<Rightarrow> delivery_env \<Rightarrow> int \<Rightarrow> int \<Rightarrow> u8 \<Rightarrow> 'm seq_system_scheme \<Rightarrow> 'm seq_system_scheme option" where
  "snd_seq_system_broadcast drivers env client port type st =
     (case setheader client port st of
        None \<Rightarrow> Some st
      | Some ev \<Rightarrow>
          map_option snd (snd_seq_kernel_client_dispatch drivers env (sysclient st) (ev\<lparr>ev_type := type\<rparr>) False 0 st))"

definition snd_seq_system_notify ::
  "'m drivers \<Rightarrow> delivery_env \<Rightarrow> int \<Rightarrow> int \<Rightarrow> seq_event \<Rightarrow> 'm seq_system_scheme \<Rightarrow> (int \<times> 'm seq_system_scheme) option" where
  "snd_seq_system_notify drivers env client port ev st =
     snd_seq_kernel_client_dispatch drivers env (sysclient st)
       (ev\<lparr>ev_flags := 0, ev_source := (word_of_int (sysclient st), word_of_int (announce_port st)),
           ev_dest := (word_of_int client, word_of_int port)\<rparr>) False 0 st"

definition snd_seq_client_notify_subscription ::
  "'m drivers \<Rightarrow> delivery_env \<Rightarrow> int \<Rightarrow> int \<Rightarrow> port_subscribe \<Rightarrow> u8 \<Rightarrow> 'm seq_system_scheme \<Rightarrow> (int \<times> 'm seq_system_scheme) option" where
  "snd_seq_client_notify_subscription drivers env client port info evtype st =
     snd_seq_system_notify drivers env client port
       (zero_event\<lparr>ev_type := evtype,
          ev_data := (ucast (fst (ps_sender info)) OR push_bit 8 (ucast (snd (ps_sender info))) OR
                        push_bit 16 (ucast (fst (ps_dest info))) OR push_bit 24 (ucast (snd (ps_dest info))), 0, 0)\<rparr>) st"

section \<open>Events of the queues\<close>

text \<open>
  What \<^verbatim>\<open>snd_seq_dispatch_event\<close> relies on: whether the source exists, and delivery in its name. The source is in
  use during the delivery.
\<close>

definition client_known :: "int \<Rightarrow> 'm seq_system_scheme \<Rightarrow> bool" where
  "client_known clientid st \<longleftrightarrow> clientptr clientid st \<noteq> None"

definition deliver_from_source ::
  "'m drivers \<Rightarrow> delivery_env \<Rightarrow> bool \<Rightarrow> nat \<Rightarrow> seq_event \<Rightarrow> 'm seq_system_scheme \<Rightarrow> (int \<times> 'm seq_system_scheme) option" where
  "deliver_from_source drivers env atomic hop e st =
     (case snd_seq_client_use_ptr (uint (fst (ev_source e))) st of
        (None, st) \<Rightarrow> Some (- EINVAL, st)
      | (Some c, st) \<Rightarrow>
          map_option (\<lambda>(result, st). (result, snd_seq_client_unlock c st))
            (snd_seq_deliver_event drivers env c e atomic hop st))"

definition snd_seq_client_enqueue_event ::
  "'m drivers \<Rightarrow> delivery_env \<Rightarrow> nat \<Rightarrow> seq_event \<Rightarrow> bool \<Rightarrow> bool \<Rightarrow> nat \<Rightarrow> mem_turn list \<Rightarrow> 'm seq_system_scheme \<Rightarrow>
   (int \<times> 'm seq_system_scheme) option" where
  "snd_seq_client_enqueue_event drivers env c event blocking atomic hop ts st =
     (let event = (if ev_queue event = ADDRESS_SUBSCRIBERS
                   then event\<lparr>ev_dest := (ADDRESS_SUBSCRIBERS, snd (ev_dest event)), ev_queue := QUEUE_DIRECT\<rparr> else event)
      in if fst (ev_dest event) = ADDRESS_SUBSCRIBERS \<and>
            find_port (port_heap st) (uint (snd (ev_source event))) (ports_list (clients st c)) = None
         then Some (- EINVAL, st)
         else if snd_seq_ev_is_direct event then
           (if ev_type event = 5 then Some (- EINVAL, st) else snd_seq_deliver_event drivers env c event atomic hop st)
         else
           let (used, st) = snd_seq_queue_is_used (uint (ev_queue event)) (cl_number (clients st c)) st
           in if used \<le> 0 then Some (- EINVAL, st)
              else if \<not> total_elements (pools (sq_mem st) (cl_pool (clients st c))) > 0 then Some (- ENXIO, st)
              else
                case snd_seq_event_dup (cl_pool (clients st c)) event (de_data env) (de_bad env) (\<not> blocking \<or> atomic) ts (sq_mem st) of
                  None \<Rightarrow> None
                | Some (err, cell, ts, m) \<Rightarrow>
                    let st = st\<lparr>sq_mem := m\<rparr>
                    in if err < 0 then Some (err, st)
                       else
                         case snd_seq_enqueue_event client_known (deliver_from_source drivers env atomic hop) cell st of
                           None \<Rightarrow> None
                         | Some (err, st) \<Rightarrow>
                             if err < 0 then map_option (\<lambda>m. (err, st\<lparr>sq_mem := m\<rparr>)) (snd_seq_cell_free cell (sq_mem st))
                             else Some (0, st))"

definition snd_seq_kernel_client_enqueue ::
  "'m drivers \<Rightarrow> delivery_env \<Rightarrow> int \<Rightarrow> seq_event \<Rightarrow> bool \<Rightarrow> mem_turn list \<Rightarrow> 'm seq_system_scheme \<Rightarrow>
   (int \<times> 'm seq_system_scheme) option" where
  "snd_seq_kernel_client_enqueue drivers env client ev blocking ts st =
     (if ev_type ev = 255 then Some (0, st)
      else if ev_type ev = 150 then Some (- EINVAL, st)
      else
        let ev = ev\<lparr>ev_source := (word_of_int client, snd (ev_source ev))\<rparr>
        in if check_event_type_and_length ev \<noteq> 0 then Some (- EINVAL, st)
           else
             case snd_seq_client_use_ptr client st of
               (None, st) \<Rightarrow> Some (- EINVAL, st)
             | (Some c, st) \<Rightarrow>
                 map_option (\<lambda>(result, st). (result, snd_seq_client_unlock c st))
                   (if \<not> accept_output (clients st c) then Some (- EPERM, st)
                    else snd_seq_client_enqueue_event drivers env c ev blocking False 0 ts st))"

section \<open>What delivery leaves alone\<close>

text \<open>
  A delivery may fill input queues, count lost events, use memory and, through the timer port, control
  queues. Everything else stays: the tables, the ports, the subscriptions and every use count.
\<close>

definition same_client :: "seq_client \<Rightarrow> seq_client \<Rightarrow> bool" where
  "same_client c c' \<longleftrightarrow> (\<exists>f n. c' = c\<lparr>cl_fifo := f, event_lost := n\<rparr>)"

definition steady :: "'m seq_system_scheme \<Rightarrow> 'm seq_system_scheme \<Rightarrow> bool" where
  "steady st st' \<longleftrightarrow> (queues_ok st \<longrightarrow> queues_ok st') \<and>
     (\<forall>i. map_option q_use_lock (queue_list st' i) = map_option q_use_lock (queue_list st i)) \<and>
     (\<forall>c. same_client (clients st c) (clients st' c)) \<and> clienttab st' = clienttab st \<and> clienttablock st' = clienttablock st \<and>
     port_heap st' = port_heap st \<and> subs_heap st' = subs_heap st \<and> sysclient st' = sysclient st \<and>
     announce_port st' = announce_port st \<and> module_uses st' = module_uses st"

lemma same_client_refl [simp]: "same_client c c"
  unfolding same_client_def by (rule exI [of _ "cl_fifo c"], rule exI [of _ "event_lost c"]) simp

lemma same_clientI [simp]: "same_client c (c\<lparr>cl_fifo := f, event_lost := n\<rparr>)"
  unfolding same_client_def by blast

lemma same_client_trans: "same_client a b \<Longrightarrow> same_client b c \<Longrightarrow> same_client a c"
proof -
  assume "same_client a b" "same_client b c"
  then obtain f n g k where "b = a\<lparr>cl_fifo := f, event_lost := n\<rparr>" "c = b\<lparr>cl_fifo := g, event_lost := k\<rparr>"
    unfolding same_client_def by blast
  then have "c = a\<lparr>cl_fifo := g, event_lost := k\<rparr>" by simp
  then show ?thesis by simp
qed

lemma same_client_simps:
  assumes "same_client c c'"
  shows "cl_use_lock c' = cl_use_lock c" "ports_list c' = ports_list c" "cl_type c' = cl_type c" "cl_filter c' = cl_filter c"
    "accept_input c' = accept_input c" "accept_output c' = accept_output c" "cl_number c' = cl_number c" "event_filter c' = event_filter c"
    "num_ports c' = num_ports c" "cl_pool c' = cl_pool c"
  using assms by (auto simp: same_client_def)

lemma steady_refl [simp]: "steady st st"
  by (simp add: steady_def)

lemma steady_trans [trans]: "steady a b \<Longrightarrow> steady b c \<Longrightarrow> steady a c"
  unfolding steady_def by (metis same_client_trans)

lemma upd_queue_system [simp]:
  "clients (upd_queue i f st) = clients st" "clienttab (upd_queue i f st) = clienttab st"
  "clienttablock (upd_queue i f st) = clienttablock st" "port_heap (upd_queue i f st) = port_heap st"
  "subs_heap (upd_queue i f st) = subs_heap st" "sysclient (upd_queue i f st) = sysclient st"
  "announce_port (upd_queue i f st) = announce_port st" "module_uses (upd_queue i f st) = module_uses st"
  by (simp_all add: upd_queue_def)

lemma queues_ok_system [simp]:
  "queues_ok (upd_client c f st) = queues_ok st" "queues_ok (upd_port p g st) = queues_ok st"
  by (simp_all add: queues_ok_def)

lemma steady_mem: "steady st (st\<lparr>sq_mem := m\<rparr>)"
  by (simp add: steady_def)

lemma steady_fifo: "steady st (upd_client d (\<lambda>c. c\<lparr>cl_fifo := f\<rparr>) (st\<lparr>sq_mem := m\<rparr>))"
proof -
  have "same_client c (c\<lparr>cl_fifo := f\<rparr>)" for c
    unfolding same_client_def by (rule exI [of _ f], rule exI [of _ "event_lost c"]) simp
  then show ?thesis by (simp add: steady_def)
qed

lemma steady_lost: "steady st (upd_client d (\<lambda>c. c\<lparr>event_lost := event_lost c + 1\<rparr>) st)"
proof -
  have "same_client c (c\<lparr>event_lost := event_lost c + 1\<rparr>)" for c
    unfolding same_client_def by (rule exI [of _ "cl_fifo c"], rule exI [of _ "event_lost c + 1"]) simp
  then show ?thesis by (simp add: steady_def)
qed

text \<open>Brackets: what is taken into use is released.\<close>

lemma steady_client:
  assumes "steady (upd_client c (\<lambda>c. c\<lparr>cl_use_lock := cl_use_lock c + 1\<rparr>) st) st'"
  shows "steady st (snd_seq_client_unlock c st')"
proof -
  have "same_client (clients st k) (clients (snd_seq_client_unlock c st') k)" for k
  proof -
    obtain f n where "clients st' k = (clients (upd_client c (\<lambda>c. c\<lparr>cl_use_lock := cl_use_lock c + 1\<rparr>) st) k)\<lparr>cl_fifo := f, event_lost := n\<rparr>"
      using assms unfolding steady_def same_client_def by blast
    then have "clients (snd_seq_client_unlock c st') k = (clients st k)\<lparr>cl_fifo := f, event_lost := n\<rparr>"
      by (cases "k = c") (simp_all add: snd_seq_client_unlock_def)
    then show ?thesis by simp
  qed
  then show ?thesis using assms by (simp add: steady_def snd_seq_client_unlock_def)
qed

lemma steady_port:
  assumes "steady (upd_port p (\<lambda>p. p\<lparr>port_use_lock := port_use_lock p + 1\<rparr>) st) st'"
  shows "steady st (snd_seq_port_unlock p st')"
proof -
  have "port_heap st' = port_heap (upd_port p (\<lambda>p. p\<lparr>port_use_lock := port_use_lock p + 1\<rparr>) st)" using assms by (simp add: steady_def)
  then have "port_heap (snd_seq_port_unlock p st') = port_heap st" by (simp add: snd_seq_port_unlock_def fun_eq_iff)
  then show ?thesis using assms by (simp add: steady_def snd_seq_port_unlock_def)
qed

lemma steady_upd_queue:
  assumes "\<And>q. queue_list st i = Some q \<Longrightarrow> q_use_lock (f q) = q_use_lock q" "\<And>q. queue_ok i (f q) = queue_ok i q"
  shows "steady st (upd_queue i f st)"
proof -
  have "queues_ok st \<Longrightarrow> queues_ok (upd_queue i f st)" using assms(2) by (auto intro: queues_ok_upd)
  then show ?thesis using assms(1) by (cases "queue_list st i") (simp_all add: steady_def)
qed

lemma steady_queue:
  assumes "steady (upd_queue i (\<lambda>q. q\<lparr>q_use_lock := q_use_lock q + 1\<rparr>) st) st'"
  shows "steady st (queuefree i st')"
proof -
  have "queues_ok st \<Longrightarrow> queues_ok (queuefree i st')"
    using assms queues_ok_upd [of st i "\<lambda>q. q\<lparr>q_use_lock := q_use_lock q + 1\<rparr>"] queuefree_queues_ok by (auto simp: steady_def)
  moreover have "map_option q_use_lock (queue_list (queuefree i st') k) = map_option q_use_lock (queue_list st k)" for k
  proof -
    have "map_option q_use_lock (queue_list st' k) = map_option q_use_lock (queue_list (upd_queue i (\<lambda>q. q\<lparr>q_use_lock := q_use_lock q + 1\<rparr>) st) k)"
      using assms by (simp add: steady_def)
    then show ?thesis by (cases "queue_list st k"; cases "queue_list st' k") (auto simp: queuefree_def split: if_splits)
  qed
  ultimately show ?thesis using assms by (simp add: steady_def queuefree_def)
qed


section \<open>The steps of a delivery\<close>

definition steady_dispatch :: "'m dispatcher \<Rightarrow> bool" where
  "steady_dispatch d \<longleftrightarrow> (\<forall>c e a st r st'. d c e a st = Some (r, st') \<longrightarrow> steady st st')"

text \<open>What is asked of a driver: its callback changes nothing of the sequencer but through the dispatcher.\<close>

definition steady_drivers :: "'m drivers \<Rightarrow> bool" where
  "steady_drivers drivers \<longleftrightarrow>
     (\<forall>n d e direct a st r st'. steady_dispatch d \<longrightarrow> drivers n d e direct a st = Some (r, st') \<longrightarrow> steady st st')"

lemma steady_dest_client:
  assumes "get_event_dest_client event flt st = (r, st1)"
  shows "r = None \<Longrightarrow> steady st st1" "r = Some d \<Longrightarrow> st1 = upd_client d (\<lambda>c. c\<lparr>cl_use_lock := cl_use_lock c + 1\<rparr>) st"
  using assms steady_client [OF steady_refl]
  by (auto simp: get_event_dest_client_def snd_seq_client_use_ptr_def Let_def split: option.splits if_splits)

lemma timestamp_state: "snd (update_timestamp_of_queue env event queue real_time st) = st"
proof -
  obtain r st1 where p: "queueptr queue st = (r, st1)" by fastforce
  show ?thesis
  proof (cases r)
    case None
    then show ?thesis using p by (auto simp: update_timestamp_of_queue_def queueptr_def split: if_splits option.splits)
  next
    case (Some i)
    then show ?thesis using p queueptr_free [OF p [unfolded Some]]
      by (auto simp: update_timestamp_of_queue_def Let_def split: option.splits)
  qed
qed

lemma port_use_ptr_state:
  assumes "snd_seq_port_use_ptr client num st = (r, st1)"
  shows "r = None \<Longrightarrow> st1 = st" "r = Some p \<Longrightarrow> st1 = upd_port p (\<lambda>p. p\<lparr>port_use_lock := port_use_lock p + 1\<rparr>) st"
  using assms by (auto simp: snd_seq_port_use_ptr_def split: option.splits)

lemma client_use_ptr_state:
  assumes "snd_seq_client_use_ptr clientid st = (r, st1)"
  shows "r = None \<Longrightarrow> st1 = st" "r = Some c \<Longrightarrow> st1 = upd_client c (\<lambda>c. c\<lparr>cl_use_lock := cl_use_lock c + 1\<rparr>) st"
  using assms by (auto simp: snd_seq_client_use_ptr_def split: option.splits)

lemma steady_on_prioqs: "on_prioqs f i st = Some st' \<Longrightarrow> steady st st'"
  by (auto simp: on_prioqs_def split: option.splits bind_splits intro!: steady_trans [OF steady_upd_queue steady_mem])

lemma steady_process:
  assumes "\<And>e st r st'. deliver e st = Some (r, st') \<Longrightarrow> steady st st'" "snd_seq_queue_process_event deliver i ev st = Some st'"
  shows "steady st st'"
proof -
  obtain st1 q tell tmr where s: "(if ev_type ev = 30 then on_prioqs (snd_seq_prioq_leave (uint (fst (ev_source ev))) True) i st else Some st) = Some st1"
    "queue_list st1 i = Some q" "control_timer ev (q_timer q) = Some (tell, tmr)"
    "(let st = upd_queue i (\<lambda>q. q\<lparr>q_timer := tmr\<rparr>) st1 in if tell then queue_broadcast_event deliver i ev st else Some st) = Some st'"
    using assms(2) by (auto simp: snd_seq_queue_process_event_def split: bind_splits option.splits)
  have "steady st st1" using s(1) by (auto split: if_splits intro: steady_on_prioqs)
  also have "steady st1 (upd_queue i (\<lambda>q. q\<lparr>q_timer := tmr\<rparr>) st1)" by (rule steady_upd_queue) simp_all
  also have "steady (upd_queue i (\<lambda>q. q\<lparr>q_timer := tmr\<rparr>) st1) st'"
    using s(4) assms(1) by (auto simp: Let_def queue_broadcast_event_def split: if_splits option.splits)
  finally show ?thesis .
qed

lemma steady_control:
  assumes "\<And>e st r st'. deliver e st = Some (r, st') \<Longrightarrow> steady st st'" "snd_seq_control_queue deliver ev st = Some (r, st')"
  shows "steady st st'"
proof -
  let ?q = "uint (data_byte 0 ev)" and ?c = "uint (fst (ev_source ev))"
  obtain k st1 where p: "queueptr ?q st = (k, st1)" by fastforce
  show ?thesis
  proof (cases k)
    case None
    then show ?thesis using assms(2) p
      by (auto simp: snd_seq_control_queue_def with_access_def queueptr_def split: if_splits option.splits)
  next
    case (Some i)
    have st1: "st1 = upd_queue i (\<lambda>q. q\<lparr>q_use_lock := q_use_lock q + 1\<rparr>) st"
      using p Some by (auto simp: queueptr_def split: if_splits option.splits)
    obtain b st2 where l: "queue_access_lock i ?c st1 = (b, st2)" by fastforce
    have "steady st1 st2" using l by (auto simp: queue_access_lock_def split: option.splits if_splits intro!: steady_upd_queue)
    moreover have "\<exists>st3. steady st2 st3 \<and> st' = queuefree i st3"
    proof (cases b)
      case False
      then show ?thesis using assms(2) p Some l by (auto simp: snd_seq_control_queue_def with_access_def intro!: exI [of _ st2])
    next
      case True
      then obtain st3 where w: "snd_seq_queue_process_event deliver i ev st2 = Some st3" "st' = queuefree i (queue_access_unlock i st3)"
        using assms(2) p Some l by (auto simp: snd_seq_control_queue_def with_access_def)
      have "steady st2 st3" by (rule steady_process [OF assms(1) w(1)])
      also have "steady st3 (queue_access_unlock i st3)" unfolding queue_access_unlock_def by (rule steady_upd_queue) simp_all
      finally show ?thesis using w(2) by blast
    qed
    ultimately show ?thesis using steady_queue [of i st] steady_trans st1 by blast
  qed
qed

lemma steady_input:
  assumes "steady_drivers drivers" "steady_dispatch d" "call_event_input drivers d f ev direct atomic st = Some (r, st')"
  shows "steady st st'"
proof (cases f)
  case Timer_input
  show ?thesis
    by (rule steady_control [where deliver = "\<lambda>e. d 0 e atomic"])
      (use assms(2,3) Timer_input in \<open>auto simp: steady_dispatch_def call_event_input_def event_input_timer_def\<close>)
next
  case (Dummy_input p)
  then show ?thesis using assms(2,3) by (auto simp: steady_dispatch_def call_event_input_def dummy_input_def split: if_splits)
qed (use assms in \<open>auto simp: call_event_input_def steady_drivers_def\<close>)

lemma steady_put:
  assumes "steady_drivers drivers" "steady_dispatch (fwd hop)" "put_event drivers fwd env d p direct event atomic hop st = Some (r, st')"
  shows "steady st st'"
proof (cases "cl_type (clients st d)")
  case USER_CLIENT
  then show ?thesis using assms(3) by (auto simp: put_event_def split: option.splits intro: steady_fifo)
next
  case KERNEL_CLIENT
  then show ?thesis using assms(3) steady_input [OF assms(1,2)] by (auto simp: put_event_def)
qed (use assms(3) in \<open>auto simp: put_event_def\<close>)

lemma steady_one:
  assumes "steady_drivers drivers" "steady_dispatch (fwd hop)" "deliver_one drivers fwd env event flt atomic hop st = Some (r, e', st')"
  shows "steady st st'"
proof -
  obtain d st1 where g: "get_event_dest_client event flt st = (d, st1)" by fastforce
  show ?thesis
  proof (cases d)
    case None
    then show ?thesis using assms(3) g steady_dest_client(1) [OF g] by (auto simp: deliver_one_def Let_def)
  next
    case (Some c)
    have st1: "st1 = upd_client c (\<lambda>c. c\<lparr>cl_use_lock := cl_use_lock c + 1\<rparr>) st" by (rule steady_dest_client(2) [OF g Some])
    obtain p st2 where u: "snd_seq_port_use_ptr (Some c) (uint (snd (ev_dest event))) st1 = (p, st2)" by fastforce
    have "\<exists>st3. steady st1 st3 \<and> st' = snd_seq_client_unlock c st3"
    proof (cases p)
      case None
      then show ?thesis using assms(3) g Some u port_use_ptr_state(1) [OF u]
        by (auto simp: deliver_one_def Let_def intro!: exI [of _ st1])
    next
      case p: (Some q)
      note st2 = port_use_ptr_state(2) [OF u p]
      have "\<exists>st3. steady st2 st3 \<and> st' = snd_seq_client_unlock c (snd_seq_port_unlock q st3)"
      proof (cases "check_port_perm (port_heap st2 q) 2")
        case False
        then show ?thesis using assms(3) g Some u p by (auto simp: deliver_one_def Let_def intro!: exI [of _ st2])
      next
        case True
        then have perm: "\<not> \<not> check_port_perm (port_heap st2 q) 2" by simp
        let ?t = "if timestamping (port_heap st2 q) then update_timestamp_of_queue env event (time_queue (port_heap st2 q)) (time_real (port_heap st2 q)) st2 else (event, st2)"
        obtain ev where t: "?t = (ev, st2)" using timestamp_state [of env event "time_queue (port_heap st2 q)" "time_real (port_heap st2 q)" st2]
          by (cases ?t) (auto split: if_splits)
        then obtain st3 where "put_event drivers fwd env c q (snd_seq_ev_is_direct event) ev atomic hop st2 = Some (r, st3)"
          "st' = snd_seq_client_unlock c (snd_seq_port_unlock q st3)"
          using assms(3) unfolding deliver_one_def Let_def g Some u p t prod.case option.case if_not_P [OF perm] by auto
        then show ?thesis using steady_put [where fwd = fwd and hop = hop, OF assms(1,2)] by blast
      qed
      then show ?thesis using steady_port st2 by blast
    qed
    then show ?thesis using steady_client st1 by blast
  qed
qed

lemma steady_single:
  assumes "steady_drivers drivers" "\<forall>h\<ge>hop. steady_dispatch (fwd h)"
    and "snd_seq_deliver_single_event drivers fwd env client event flt atomic hop st = Some (r, e', st')"
  shows "steady st st'"
proof -
  obtain r1 e1 st1 where one: "deliver_one drivers fwd env event flt atomic hop st = Some (r1, e1, st1)"
    "(if r1 < 0 \<and> \<not> snd_seq_ev_is_direct event
      then map_option (\<lambda>(result, st). (result, e1, st)) (bounce_error_event drivers fwd env client e1 r1 atomic hop st1)
      else Some (r1, e1, st1)) = Some (r, e', st')"
    using assms(3) by (auto simp: snd_seq_deliver_single_event_def split: bind_splits)
  have s1: "steady st st1" by (rule steady_one [OF assms(1) _ one(1)]) (use assms(2) in simp)
  have "steady st1 st2" if "bounce_error_event drivers fwd env client e1 r1 atomic hop st1 = Some (r, st2)" for st2
  proof -
    have "steady_dispatch (fwd (hop + 1))" using assms(2) by simp
    note one = steady_one [where fwd = fwd and hop = "hop + 1", OF assms(1) this]
    show ?thesis using that one steady_trans [OF one steady_lost]
      by (auto simp: bounce_error_event_def split: option.splits if_splits)
  qed
  then show ?thesis using one(2) s1 steady_trans by (auto split: if_splits)
qed

lemma steady_subscribers:
  assumes "steady_drivers drivers" "\<forall>h\<ge>hop. steady_dispatch (fwd h)"
  shows "each_subscriber drivers fwd env client saved atomic hop ss event result num_ev st = Some (r, n, st') \<Longrightarrow> steady st st'"
proof (induction ss arbitrary: event result num_ev st)
  case (Cons s ss)
  show ?case
  proof (cases "ref_count (subs_heap st s) = 2")
    case True
    let ?i = "sub_info (subs_heap st s)"
    let ?e = "event\<lparr>ev_dest := ps_dest ?i\<rparr>"
    let ?t = "if ps_flags ?i AND 2 \<noteq> 0 then update_timestamp_of_queue env ?e (uint (ps_queue ?i)) (ps_flags ?i AND 4 \<noteq> 0) st else (?e, st)"
    obtain ev where t: "?t = (ev, st)" using timestamp_state [of env ?e "uint (ps_queue ?i)" "ps_flags ?i AND 4 \<noteq> 0" st]
      by (cases ?t) (auto split: if_splits)
    then obtain err e1 st1 where d: "snd_seq_deliver_single_event drivers fwd env (Some client) ev 0 atomic hop st = Some (err, e1, st1)"
      using Cons.prems True by (auto simp: Let_def split: option.splits)
    then show ?thesis
      using steady_trans [OF steady_single [OF assms d] Cons.IH] Cons.prems True t by (auto simp: Let_def split: if_splits)
  qed (use Cons in auto)
qed simp

lemma steady_to_subscribers:
  assumes "steady_drivers drivers" "\<forall>h\<ge>hop. steady_dispatch (fwd h)"
    and "deliver_to_subscribers drivers fwd env client event atomic hop st = Some (r, st')"
  shows "steady st st'"
proof -
  obtain p st1 where u: "snd_seq_port_use_ptr (Some client) (uint (snd (ev_source event))) st = (p, st1)" by fastforce
  show ?thesis
  proof (cases p)
    case None
    then show ?thesis using assms(3) u port_use_ptr_state(1) [OF u] by (simp add: deliver_to_subscribers_def)
  next
    case (Some q)
    then obtain a b st2 where "each_subscriber drivers fwd env client event atomic hop (grp_list (c_src (port_heap st1 q))) event 0 0 st1 = Some (a, b, st2)"
      "st' = snd_seq_port_unlock q st2"
      using assms(3) u by (auto simp: deliver_to_subscribers_def)
    then show ?thesis using steady_subscribers [OF assms(1,2)] steady_port port_use_ptr_state(2) [OF u Some] by blast
  qed
qed

lemma steady_dispatch_with:
  assumes "\<And>c ev a st r st'. deliver c ev a st = Some (r, st') \<Longrightarrow> steady st st'"
  shows "steady_dispatch (dispatch_with deliver)"
  unfolding steady_dispatch_def
proof (intro allI impI)
  fix c e a st r st' assume w: "dispatch_with deliver c e a st = Some (r, st')"
  let ?e = "e\<lparr>ev_queue := QUEUE_DIRECT, ev_source := (word_of_int c, snd (ev_source e))\<rparr>"
  obtain k st1 where u: "snd_seq_client_use_ptr c st = (k, st1)" by fastforce
  show "steady st st'"
  proof (cases "check_event_type_and_length ?e \<noteq> 0 \<or> k = None")
    case True
    then show ?thesis using w u client_use_ptr_state(1) [OF u] by (auto simp: dispatch_with_def Let_def split: if_splits)
  next
    case False
    then obtain d where d: "k = Some d" by auto
    then obtain st2 where s: "(if \<not> accept_output (clients st1 d) then Some (- EPERM, st1) else deliver d ?e a st1) = Some (r, st2)"
      "st' = snd_seq_client_unlock d st2"
      using w u False by (auto simp: dispatch_with_def Let_def split: if_splits)
    have "steady st1 st2" using s(1) assms by (auto split: if_splits)
    then show ?thesis using steady_client client_use_ptr_state(2) [OF u d] s(2) by blast
  qed
qed

lemma steady_deliver:
  "snd_seq_deliver_event drivers env client event atomic hop st = Some (r, st') \<Longrightarrow> steady_drivers drivers \<Longrightarrow> steady st st'"
proof (induction drivers env client event atomic hop st arbitrary: r st' rule: snd_seq_deliver_event.induct)
  case (1 drivers env client event atomic hop st)
  show ?case
  proof (cases "hop + 1 \<ge> MAX_HOPS")
    case True
    then show ?thesis using 1(2) by (simp add: snd_seq_deliver_event.simps [of drivers env client event atomic hop st])
  next
    case False
    define fwd where "fwd = (\<lambda>h clientid ev atomic st. if h \<le> hop then None
      else dispatch_with (\<lambda>c ev atomic st. snd_seq_deliver_event drivers env c ev atomic h st) clientid ev atomic st)"
    have "steady_dispatch (fwd h)" if "h \<ge> hop + 1" for h
    proof -
      have h: "\<not> h \<le> hop" using that by simp
      have "steady_dispatch (dispatch_with (\<lambda>c ev atomic st. snd_seq_deliver_event drivers env c ev atomic h st))"
        by (rule steady_dispatch_with) (erule 1(1) [OF False h], rule 1(3))
      then show ?thesis using that by (simp add: fwd_def steady_dispatch_def)
    qed
    then have f: "\<forall>h\<ge>hop + 1. steady_dispatch (fwd h)" by blast
    have d: "(if ev_queue event = ADDRESS_SUBSCRIBERS \<or> fst (ev_dest event) = ADDRESS_SUBSCRIBERS
        then deliver_to_subscribers drivers fwd env client event atomic (hop + 1) st
        else map_option (\<lambda>(result, _, st). (result, st))
          (snd_seq_deliver_single_event drivers fwd env (Some client) event 0 atomic (hop + 1) st)) = Some (r, st')"
      using 1(2) unfolding snd_seq_deliver_event.simps [of drivers env client event atomic hop st] if_not_P [OF False] Let_def fwd_def .
    then show ?thesis using steady_to_subscribers [OF 1(3) f] steady_single [OF 1(3) f] by (auto split: if_splits)
  qed
qed

end
