(* ===== verification/SeqInbox.thy ===== *)
theory SeqInbox
  imports SeqDeliver
begin

text \<open>
  What delivery achieves: the input queues of several clients side by side, an event for all subscribers of a
  port, feedback between ports, and the composition with the queues, whose interface to the clients is
  interpreted here on the delivery functions.
\<close>

section \<open>Input queues side by side\<close>

text \<open>Putting an event into one input queue touches the cells and the pool of that queue only.\<close>

lemma cell_alloc_pools: "snd_seq_cell_alloc p True ts m = Some (err, c, ts', m') \<Longrightarrow> q \<noteq> p \<Longrightarrow> pools m' q = pools m q"
proof -
  assume a: "snd_seq_cell_alloc p True ts m = Some (err, c, ts', m')" "q \<noteq> p"
  have "wait_for_cell p True ts m = Some (0, ts, m)" by (subst wait_for_cell.simps) simp
  then show ?thesis using a
    by (auto simp: snd_seq_cell_alloc_def take_cell_def Let_def split: if_splits)
qed

lemma link_chunk_pools [simp]: "pools (link_chunk cell tail x m) = pools m"
  by (simp add: link_chunk_def Let_def)

lemma dup_chunks_pools:
  "dup_chunks p True event data bad cell n tail src off len ts m = Some (err, ts', m') \<Longrightarrow> q \<noteq> p \<Longrightarrow> pools m' q = pools m q"
proof (induction n arbitrary: tail src off len ts m)
  case (Suc n)
  obtain e x ts1 m1 where a: "snd_seq_cell_alloc p True ts m = Some (e, x, ts1, m1)"
    using Suc.prems(1) by (auto simp: Let_def split: option.splits)
  have "pools m1 q = pools m q" by (rule cell_alloc_pools [OF a Suc.prems(2)])
  then show ?case using Suc.prems a Suc.IH [OF _ Suc.prems(2)] by (auto simp: Let_def split: if_splits dest!: Suc.IH [OF _ Suc.prems(2)])
qed simp

lemma event_dup_pools:
  assumes "snd_seq_event_dup p event data bad True ts m = Some (0, cell, ts', m')" "q \<noteq> p"
  shows "pools m' q = pools m q"
proof -
  let ?l = "if snd_seq_ev_is_variable event then var_len event else 0"
  obtain e c ts1 m1 where a: "snd_seq_cell_alloc p True ts m = Some (e, c, ts1, m1)" "\<not> e < 0"
    using assms(1) by (auto simp: snd_seq_event_dup_def Let_def split: option.splits if_splits)
  have p1: "pools m1 q = pools m q" by (rule cell_alloc_pools [OF a(1) assms(2)])
  show ?thesis
  proof (cases "snd_seq_ev_is_variable event")
    case False
    then show ?thesis using assms(1) a p1 by (auto simp: snd_seq_event_dup_def Let_def split: if_splits)
  next
    case True
    let ?m = "upd_cell c (\<lambda>k. k\<lparr>cell_event := set_ext (of_nat (var_len event) OR EXT_CHAINED) 0 event\<rparr>) (upd_cell c (\<lambda>k. k\<lparr>cell_event := event\<rparr>) m1)"
    obtain e2 ts2 m2 where "dup_chunks p True event data bad c ((var_len event + EVENT_SIZE - 1) div EVENT_SIZE) 0 (ext_ptr event) 0 (var_len event) ts1 ?m = Some (e2, ts2, m2)"
      "m' = m2"
      using assms(1) a True by (auto simp: snd_seq_event_dup_def Let_def split: option.splits if_splits)
    then show ?thesis using dup_chunks_pools [OF _ assms(2)] p1 by fastforce
  qed
qed

lemma fifo_in_frame:
  assumes "fifo_inv f m A fs qs" "snd_seq_fifo_event_in event data bad f m = Some (0, f', m')"
  shows "\<forall>b. b \<notin> A \<longrightarrow> cells m' b = cells m b" "\<forall>q. q \<noteq> ff_pool f \<longrightarrow> pools m' q = pools m q" "ff_pool f' = ff_pool f"
proof -
  let ?p = "ff_pool f"
  have inv: "pool_inv m ?p A fs" "\<not> closing (pools m ?p)" "pool_ptr (pools m ?p) \<noteq> 0" "fifo_list f m (map fst qs)"
    "set (fs @ entry_cells qs) = A"
    using assms by (simp_all add: fifo_inv_def)
  obtain err cell m1 where d: "snd_seq_event_dup ?p event data bad True [] m = Some (err, cell, [], m1)"
    "dup_spec m ?p A fs event data err cell m1"
    using event_dup_outcome [OF inv(1-3)] by blast
  have err: "err = 0" using assms(2) d by (auto simp: snd_seq_fifo_event_in_def dup_spec_def split: if_splits)
  have app: "f' = wake_input (fst (fifo_append cell f m1))" "m' = snd (fifo_append cell f m1)"
    using assms(2) d(1) err by (auto simp: snd_seq_fifo_event_in_def split: prod.splits)
  have "cell \<in> set fs" using d(2) err by (auto simp: dup_spec_def duplicated_def)
  then have cell: "cell \<in> A" using inv(5) by auto
  have tail: "ff_tail f \<noteq> 0 \<Longrightarrow> ff_tail f \<in> A"
    using inv(4,5) map_fst_entry_cells [of qs] last_in_set [of "map fst qs"] by (auto simp: fifo_list_def split: if_splits)
  have "cells m1 b = cells m b" if "b \<notin> A" for b
    using d(2) that inv(5) err by (auto simp: dup_spec_def duplicated_def)
  then show "\<forall>b. b \<notin> A \<longrightarrow> cells m' b = cells m b"
    using cell tail unfolding app by (auto simp: fifo_append_def Let_def set_next_def)
  show "\<forall>q. q \<noteq> ?p \<longrightarrow> pools m' q = pools m q"
    using event_dup_pools [OF d(1) [unfolded err]] unfolding app by (auto simp: fifo_append_def Let_def)
  show "ff_pool f' = ?p" unfolding app by (simp add: fifo_append_def Let_def wake_input_def)
qed

text \<open>Another queue does not see it.\<close>

lemma fifo_inv_frame:
  assumes "fifo_inv f m A fs qs" "\<And>b. b \<in> A \<Longrightarrow> cells m' b = cells m b" "pools m' (ff_pool f) = pools m (ff_pool f)"
  shows "fifo_inv f m' A fs qs" "contents m' qs = contents m qs"
proof -
  have inv: "pool_inv m (ff_pool f) A fs" "fifo_list f m (map fst qs)" "linked m qs"
    "distinct (fs @ entry_cells qs)" "set (fs @ entry_cells qs) = A" using assms(1) by (simp_all add: fifo_inv_def)
  have "b \<in> set (entry_cells qs) \<Longrightarrow> cells m' b = cells m b" for b using assms(2) inv(5) by auto
  moreover have "b \<in> set (map fst qs) \<Longrightarrow> cells m' b = cells m b" for b using assms(2) inv(5) map_fst_entry_cells [of qs] by auto
  ultimately have q: "linked m' qs" "contents m' qs = contents m qs" and n: "\<And>b. b \<in> set (map fst qs) \<Longrightarrow> next_of m' b = next_of m b"
    using inv(2,4) by (auto intro!: entries_frame [OF inv(3)] simp: event_of_def next_of_def)
  have l: "fifo_list f m' (map fst qs)" using fifo_list_cong [of "map fst qs" m' m f] n inv(2) by simp
  have "path (next_of m') (pool_free (pools m (ff_pool f))) fs 0"
    using inv(1,5) assms(2) by (subst path_cong [of fs "next_of m'" "next_of m"]) (auto simp: pool_inv_def next_of_def)
  then have "pool_inv m' (ff_pool f) A fs" using inv(1) assms(2,3) by (simp add: pool_inv_def)
  then show "fifo_inv f m' A fs qs" using assms(1,3) q(1) l by (simp add: fifo_inv_def)
  show "contents m' qs = contents m qs" by (rule q(2))
qed

text \<open>
  \<open>inboxes st D A cs n\<close>: the clients in \<open>D\<close> have input queues with pools of their own. \<open>cs d\<close> is what a reader
  of client \<open>d\<close> will find, and \<open>n d\<close> the number of its free cells.
\<close>

definition inboxes ::
  "'m seq_system_scheme \<Rightarrow> nat set \<Rightarrow> (nat \<Rightarrow> u32 set) \<Rightarrow> (nat \<Rightarrow> (seq_event \<times> u8 list) list) \<Rightarrow> (nat \<Rightarrow> nat) \<Rightarrow> bool" where
  "inboxes st D A cs n \<longleftrightarrow>
     (\<exists>f fs qs. (\<forall>d\<in>D. cl_fifo (clients st d) = Some (f d) \<and> fifo_inv (f d) (sq_mem st) (A d) (fs d) (qs d) \<and>
         contents (sq_mem st) (qs d) = cs d \<and> n d = length (fs d)) \<and>
       (\<forall>d\<in>D. \<forall>e\<in>D. d \<noteq> e \<longrightarrow> A d \<inter> A e = {} \<and> ff_pool (f d) \<noteq> ff_pool (f e)))"

lemma inboxes_cong:
  "inboxes st D A cs n \<Longrightarrow> sq_mem st' = sq_mem st \<Longrightarrow> (\<And>d. cl_fifo (clients st' d) = cl_fifo (clients st d)) \<Longrightarrow> inboxes st' D A cs n"
  by (simp add: inboxes_def)

definition arrived :: "delivery_env \<Rightarrow> seq_event \<Rightarrow> seq_event \<times> u8 list" where
  "arrived env event = (strip event, if snd_seq_ev_is_variable event then take (var_len event) (de_data env) else [])"

text \<open>
  Nothing but the input queues of the clients in \<open>D\<close> and their cells and pools changes.
\<close>

definition undisturbed :: "'m seq_system_scheme \<Rightarrow> 'm seq_system_scheme \<Rightarrow> nat set \<Rightarrow> (nat \<Rightarrow> u32 set) \<Rightarrow> bool" where
  "undisturbed st st' D A \<longleftrightarrow> st' = st\<lparr>clients := clients st', sq_mem := sq_mem st'\<rparr> \<and>
     (\<forall>d. (d \<notin> D \<longrightarrow> clients st' d = clients st d) \<and>
        (\<exists>f. clients st' d = (clients st d)\<lparr>cl_fifo := f\<rparr> \<and> map_option ff_pool f = map_option ff_pool (cl_fifo (clients st d)))) \<and>
     (\<forall>b. (\<forall>d\<in>D. b \<notin> A d) \<longrightarrow> cells (sq_mem st') b = cells (sq_mem st) b) \<and>
     (\<forall>q. (\<forall>d\<in>D. map_option ff_pool (cl_fifo (clients st d)) \<noteq> Some q) \<longrightarrow> pools (sq_mem st') q = pools (sq_mem st) q)"

lemma undisturbed_refl [simp]: "undisturbed st st D A"
proof -
  have "\<exists>f. clients st d = (clients st d)\<lparr>cl_fifo := f\<rparr> \<and> map_option ff_pool f = map_option ff_pool (cl_fifo (clients st d))" for d
    by (intro exI [of _ "cl_fifo (clients st d)"]) simp
  moreover have "st = st\<lparr>clients := clients st, sq_mem := sq_mem st\<rparr>" by simp
  ultimately show ?thesis unfolding undisturbed_def by blast
qed

lemma undisturbed_trans:
  assumes "undisturbed a b D A" "undisturbed b c D A"
  shows "undisturbed a c D A"
proof -
  have b: "b = a\<lparr>clients := clients b, sq_mem := sq_mem b\<rparr>" and c: "c = b\<lparr>clients := clients c, sq_mem := sq_mem c\<rparr>"
    using assms by (simp_all add: undisturbed_def)
  have pool: "map_option ff_pool (cl_fifo (clients b d)) = map_option ff_pool (cl_fifo (clients a d))" for d
  proof -
    obtain f where "clients b d = (clients a d)\<lparr>cl_fifo := f\<rparr>" "map_option ff_pool f = map_option ff_pool (cl_fifo (clients a d))"
      using assms(1) unfolding undisturbed_def by blast
    then show ?thesis by simp
  qed
  have cl: "\<exists>f. clients c d = (clients a d)\<lparr>cl_fifo := f\<rparr> \<and> map_option ff_pool f = map_option ff_pool (cl_fifo (clients a d))" for d
  proof -
    obtain f g where "clients b d = (clients a d)\<lparr>cl_fifo := f\<rparr>" "clients c d = (clients b d)\<lparr>cl_fifo := g\<rparr>"
      "map_option ff_pool g = map_option ff_pool (cl_fifo (clients b d))"
      using assms unfolding undisturbed_def by blast
    then show ?thesis using pool [of d] by (intro exI [of _ g]) simp
  qed
  have "c = (a\<lparr>clients := clients b, sq_mem := sq_mem b\<rparr>)\<lparr>clients := clients c, sq_mem := sq_mem c\<rparr>"
    using c unfolding b [symmetric] .
  then have "c = a\<lparr>clients := clients c, sq_mem := sq_mem c\<rparr>" by simp
  moreover have "d \<notin> D \<Longrightarrow> clients c d = clients a d" for d using assms unfolding undisturbed_def by metis
  moreover have "cells (sq_mem c) x = cells (sq_mem a) x" if "\<forall>d\<in>D. x \<notin> A d" for x
    using assms that unfolding undisturbed_def by metis
  moreover have "pools (sq_mem c) q = pools (sq_mem a) q" if "\<forall>d\<in>D. map_option ff_pool (cl_fifo (clients a d)) \<noteq> Some q" for q
  proof -
    have "\<forall>d\<in>D. map_option ff_pool (cl_fifo (clients b d)) \<noteq> Some q" using that pool by simp
    then show ?thesis using assms that unfolding undisturbed_def by metis
  qed
  ultimately show ?thesis using cl unfolding undisturbed_def by blast
qed

lemma undisturbed_put:
  assumes "d \<in> D" "\<forall>b. b \<notin> A d \<longrightarrow> cells m b = cells (sq_mem st) b" "cl_fifo (clients st d) = Some f"
    and "\<forall>q. q \<noteq> ff_pool f \<longrightarrow> pools m q = pools (sq_mem st) q" "ff_pool f' = ff_pool f"
  shows "undisturbed st (upd_client d (\<lambda>c. c\<lparr>cl_fifo := Some f'\<rparr>) (st\<lparr>sq_mem := m\<rparr>)) D A"
proof -
  let ?st = "upd_client d (\<lambda>c. c\<lparr>cl_fifo := Some f'\<rparr>) (st\<lparr>sq_mem := m\<rparr>)"
  have "\<exists>g. clients ?st k = (clients st k)\<lparr>cl_fifo := g\<rparr> \<and> map_option ff_pool g = map_option ff_pool (cl_fifo (clients st k))" for k
    using assms(3,5) by (intro exI [of _ "cl_fifo (clients ?st k)"]) simp
  moreover have "k \<notin> D \<Longrightarrow> clients ?st k = clients st k" for k using assms(1) by auto
  moreover have "?st = st\<lparr>clients := clients ?st, sq_mem := sq_mem ?st\<rparr>" by (simp add: upd_client_def)
  moreover have "cells (sq_mem ?st) b = cells (sq_mem st) b" if "\<forall>d\<in>D. b \<notin> A d" for b using assms(1,2) that by simp
  moreover have "pools (sq_mem ?st) q = pools (sq_mem st) q" if "\<forall>d\<in>D. map_option ff_pool (cl_fifo (clients st d)) \<noteq> Some q" for q
  proof -
    have "q \<noteq> ff_pool f" using that assms(1,3) by force
    then show ?thesis using assms(4) by simp
  qed
  ultimately show ?thesis unfolding undisturbed_def by blast
qed

lemma undisturbed_locked:
  "undisturbed (upd_client c (\<lambda>c. c\<lparr>cl_use_lock := cl_use_lock c + 1\<rparr>) st) st' D A \<Longrightarrow> undisturbed st (snd_seq_client_unlock c st') D A"
  "undisturbed (upd_port p (\<lambda>p. p\<lparr>port_use_lock := port_use_lock p + 1\<rparr>) st) st' D A \<Longrightarrow> undisturbed st (snd_seq_port_unlock p st') D A"
proof -
  let ?l = "upd_client c (\<lambda>c. c\<lparr>cl_use_lock := cl_use_lock c + 1\<rparr>) st"
  assume u: "undisturbed ?l st' D A"
  have f: "cl_fifo (clients ?l d) = cl_fifo (clients st d)" for d by simp
  have "\<exists>f. clients (snd_seq_client_unlock c st') d = (clients st d)\<lparr>cl_fifo := f\<rparr> \<and>
      map_option ff_pool f = map_option ff_pool (cl_fifo (clients st d))" for d
  proof -
    obtain f where "clients st' d = (clients ?l d)\<lparr>cl_fifo := f\<rparr>" "map_option ff_pool f = map_option ff_pool (cl_fifo (clients ?l d))"
      using u unfolding undisturbed_def by blast
    then show ?thesis by (intro exI [of _ f]) (cases "d = c"; simp add: snd_seq_client_unlock_def)
  qed
  moreover have "clients (snd_seq_client_unlock c st') d = clients st d" if "d \<notin> D" for d
  proof -
    have "clients st' d = clients ?l d" using u that unfolding undisturbed_def by blast
    then show ?thesis by (cases "d = c") (simp_all add: snd_seq_client_unlock_def)
  qed
  moreover have "snd_seq_client_unlock c st' = st\<lparr>clients := clients (snd_seq_client_unlock c st'), sq_mem := sq_mem (snd_seq_client_unlock c st')\<rparr>"
  proof -
    have "st' = ?l\<lparr>clients := clients st', sq_mem := sq_mem st'\<rparr>" using u unfolding undisturbed_def by blast
    then obtain cl m where "st' = st\<lparr>clients := cl, sq_mem := m\<rparr>" by (simp add: upd_client_def)
    then show ?thesis by (simp add: snd_seq_client_unlock_def upd_client_def)
  qed
  ultimately show "undisturbed st (snd_seq_client_unlock c st') D A"
    using u unfolding undisturbed_def f by (simp add: snd_seq_client_unlock_def)
next
  let ?l = "upd_port p (\<lambda>p. p\<lparr>port_use_lock := port_use_lock p + 1\<rparr>) st"
  assume u: "undisturbed ?l st' D A"
  have "st' = ?l\<lparr>clients := clients st', sq_mem := sq_mem st'\<rparr>" using u unfolding undisturbed_def by blast
  then have "snd_seq_port_unlock p st' = snd_seq_port_unlock p (?l\<lparr>clients := clients st', sq_mem := sq_mem st'\<rparr>)" by simp
  also have "\<dots> = st\<lparr>clients := clients st', sq_mem := sq_mem st'\<rparr>"
    by (simp add: snd_seq_port_unlock_def upd_port_def)
  finally show "undisturbed st (snd_seq_port_unlock p st') D A"
    using u unfolding undisturbed_def by simp
qed

lemma inboxes_put:
  assumes "inboxes st D A cs n" "d \<in> D" "cl_type (clients st d) = USER_CLIENT"
    and "kernel_data event" "extra_cells event < min (card (A d)) (n d)"
  shows "\<exists>f m. put_event drivers fwd env d p direct event atomic hop st = Some (0, upd_client d (\<lambda>c. c\<lparr>cl_fifo := Some f\<rparr>) (st\<lparr>sq_mem := m\<rparr>)) \<and>
    undisturbed st (upd_client d (\<lambda>c. c\<lparr>cl_fifo := Some f\<rparr>) (st\<lparr>sq_mem := m\<rparr>)) D A \<and> inboxes (upd_client d (\<lambda>c. c\<lparr>cl_fifo := Some f\<rparr>) (st\<lparr>sq_mem := m\<rparr>)) D A
      (cs(d := cs d @ [arrived env event])) (n(d := n d - 1 - extra_cells event))"
proof -
  obtain f fs qs where i: "\<And>d. d \<in> D \<Longrightarrow> cl_fifo (clients st d) = Some (f d)"
    "\<And>d. d \<in> D \<Longrightarrow> fifo_inv (f d) (sq_mem st) (A d) (fs d) (qs d)"
    "\<And>d. d \<in> D \<Longrightarrow> contents (sq_mem st) (qs d) = cs d" "\<And>d. d \<in> D \<Longrightarrow> n d = length (fs d)"
    "\<And>d e. d \<in> D \<Longrightarrow> e \<in> D \<Longrightarrow> d \<noteq> e \<Longrightarrow> A d \<inter> A e = {} \<and> ff_pool (f d) \<noteq> ff_pool (f e)"
    using assms(1) unfolding inboxes_def by blast
  have room: "kernel_data event \<and> extra_cells event < min (card (A d)) (length (fs d))" using assms(4,5) i(4) [OF assms(2)] by simp
  obtain err f' m' where e0: "snd_seq_fifo_event_in event (de_data env) (de_bad env) (f d) (sq_mem st) = Some (err, f', m')"
    "if err < 0 then \<exists>fs'. fifo_inv f' m' (A d) fs' (qs d) \<and> length fs' = length (fs d) \<and> contents m' (qs d) = contents (sq_mem st) (qs d)
     else err = 0 \<and> (\<exists>fs' q. fifo_inv f' m' (A d) fs' (qs d @ [q]) \<and> length (fs d) = length fs' + 1 + extra_cells event \<and>
       contents m' (qs d) = contents (sq_mem st) (qs d) \<and> fst (content m' (fst q)) = strip event \<and>
       (kernel_data event \<and> extra_cells event < min (card (A d)) (length (fs d)) \<longrightarrow> content m' (fst q) = arrived env event))"
    "kernel_data event \<and> extra_cells event < min (card (A d)) (length (fs d)) \<longrightarrow> err = 0"
    using fifo_event_in_inv [OF i(2) [OF assms(2)], of event "de_data env" "de_bad env", folded arrived_def] by blast
  have e: "snd_seq_fifo_event_in event (de_data env) (de_bad env) (f d) (sq_mem st) = Some (err, f', m')" "err = 0"
    "\<exists>fs' q. fifo_inv f' m' (A d) fs' (qs d @ [q]) \<and> length (fs d) = length fs' + 1 + extra_cells event \<and>
       contents m' (qs d) = contents (sq_mem st) (qs d) \<and> content m' (fst q) = arrived env event"
    using e0 room by fastforce+
  obtain fs' q where q: "fifo_inv f' m' (A d) fs' (qs d @ [q])" "length (fs d) = length fs' + 1 + extra_cells event"
    "contents m' (qs d) = cs d" "content m' (fst q) = arrived env event"
    using e(3) unfolding i(3) [OF assms(2)] by blast
  note frame = fifo_in_frame [OF i(2) [OF assms(2)] e(1) [unfolded e(2)]]
  have other: "fifo_inv (f c) m' (A c) (fs c) (qs c) \<and> contents m' (qs c) = cs c" if "c \<in> D" "c \<noteq> d" for c
    using fifo_inv_frame [OF i(2) [OF that(1)], of m'] frame(1,2) i(3,5) assms(2) that by (metis disjoint_iff)
  have "put_event drivers fwd env d p direct event atomic hop st = Some (0, upd_client d (\<lambda>c. c\<lparr>cl_fifo := Some f'\<rparr>) (st\<lparr>sq_mem := m'\<rparr>))"
    using assms(3) i(1) [OF assms(2)] e(1,2) by (simp add: put_event_def)
  moreover have "inboxes (upd_client d (\<lambda>c. c\<lparr>cl_fifo := Some f'\<rparr>) (st\<lparr>sq_mem := m'\<rparr>)) D A
      (cs(d := cs d @ [arrived env event])) (n(d := n d - 1 - extra_cells event))"
    unfolding inboxes_def
  proof (intro exI conjI ballI impI)
    fix c assume c: "c \<in> D"
    show "cl_fifo (clients (upd_client d (\<lambda>c. c\<lparr>cl_fifo := Some f'\<rparr>) (st\<lparr>sq_mem := m'\<rparr>)) c) = Some ((f(d := f')) c)"
      "fifo_inv ((f(d := f')) c) (sq_mem (upd_client d (\<lambda>c. c\<lparr>cl_fifo := Some f'\<rparr>) (st\<lparr>sq_mem := m'\<rparr>))) (A c)
        ((fs(d := fs')) c) ((qs(d := qs d @ [q])) c)"
      "contents (sq_mem (upd_client d (\<lambda>c. c\<lparr>cl_fifo := Some f'\<rparr>) (st\<lparr>sq_mem := m'\<rparr>))) ((qs(d := qs d @ [q])) c) =
        (cs(d := cs d @ [arrived env event])) c"
      "(n(d := n d - 1 - extra_cells event)) c = length ((fs(d := fs')) c)"
      using c i(1,4) q other [OF c] by (cases q; cases "c = d"; simp)+
  next
    fix c e assume ce: "c \<in> D" "e \<in> D" "c \<noteq> e"
    show "A c \<inter> A e = {}" using i(5) ce by blast
    show "ff_pool ((f(d := f')) c) \<noteq> ff_pool ((f(d := f')) e)" using i(5) [OF ce] frame(3) by auto
  qed
  moreover have "undisturbed st (upd_client d (\<lambda>c. c\<lparr>cl_fifo := Some f'\<rparr>) (st\<lparr>sq_mem := m'\<rparr>)) D A"
    using undisturbed_put [where f = "f d"] assms(2) frame i(1) [OF assms(2)] by blast
  ultimately show ?thesis by blast
qed

section \<open>Subscribers\<close>

text \<open>An address that leads to port \<open>p\<close> of a user client \<open>d\<close> which takes every event without a stamp of its own.\<close>

definition takes :: "'m seq_system_scheme \<Rightarrow> addr \<Rightarrow> nat \<Rightarrow> nat \<Rightarrow> bool" where
  "takes st a d p \<longleftrightarrow> clientptr (uint (fst a)) st = Some d \<and> accept_input (clients st d) \<and> cl_filter (clients st d) AND 0x80000000 = 0 \<and>
     cl_type (clients st d) = USER_CLIENT \<and> find_port (port_heap st) (uint (snd a)) (ports_list (clients st d)) = Some p \<and>
     check_port_perm (port_heap st p) 2 \<and> \<not> timestamping (port_heap st p)"

lemma takes_cong:
  assumes "\<And>d. same_client (clients st d) (clients st' d)" "clienttab st' = clienttab st" "port_heap st' = port_heap st"
  shows "takes st' a d p = takes st a d p"
  unfolding takes_def clientptr_def assms(2,3) same_client_simps [OF assms(1)] ..

lemma undisturbed_parts:
  assumes "undisturbed st st' D A"
  shows "same_client (clients st d) (clients st' d)" "clienttab st' = clienttab st" "port_heap st' = port_heap st" "subs_heap st' = subs_heap st"
    "queue_list st' = queue_list st"
proof -
  obtain f where "clients st' d = (clients st d)\<lparr>cl_fifo := f\<rparr>" using assms unfolding undisturbed_def by blast
  then show "same_client (clients st d) (clients st' d)"
    unfolding same_client_def by (intro exI [of _ f] exI [of _ "event_lost (clients st d)"]) simp
  obtain cl m where "st' = st\<lparr>clients := cl, sq_mem := m\<rparr>" using assms unfolding undisturbed_def by blast
  then show "clienttab st' = clienttab st" "port_heap st' = port_heap st" "subs_heap st' = subs_heap st" "queue_list st' = queue_list st"
    by simp_all
qed

lemma find_port_use: "find_port ((port_heap st)(p := (port_heap st p)\<lparr>port_use_lock := n\<rparr>)) k ps = find_port (port_heap st) k ps"
  by (induction ps) (simp_all add: port_no_def)

lemma deliver_one_user:
  assumes "inboxes st D A cs n" "takes st (ev_dest event) d p" "d \<in> D" "kernel_data event"
    and "extra_cells event < min (card (A d)) (n d)"
  shows "\<exists>st'. deliver_one drivers fwd env event 0 atomic hop st = Some (0, event, st') \<and> undisturbed st st' D A \<and>
    inboxes st' D A (cs(d := cs d @ [arrived env event])) (n(d := n d - 1 - extra_cells event))"
proof -
  let ?st1 = "upd_client d (\<lambda>c. c\<lparr>cl_use_lock := cl_use_lock c + 1\<rparr>) st"
  let ?st2 = "upd_port p (\<lambda>p. p\<lparr>port_use_lock := port_use_lock p + 1\<rparr>) ?st1"
  have g: "get_event_dest_client event 0 st = (Some d, ?st1)"
    using assms(2) by (simp add: takes_def get_event_dest_client_def snd_seq_client_use_ptr_def)
  have u: "snd_seq_port_use_ptr (Some d) (uint (snd (ev_dest event))) ?st1 = (Some p, ?st2)"
    using assms(2) by (simp add: takes_def snd_seq_port_use_ptr_def)
  have perm: "\<not> \<not> check_port_perm (port_heap ?st2 p) 2" "\<not> timestamping (port_heap ?st2 p)"
    using assms(2) by (simp_all add: takes_def check_port_perm_def)
  have "inboxes ?st2 D A cs n" by (rule inboxes_cong [OF assms(1)]) simp_all
  moreover have "cl_type (clients ?st2 d) = USER_CLIENT" using assms(2) by (simp add: takes_def)
  ultimately obtain f m where put: "put_event drivers fwd env d p (snd_seq_ev_is_direct event) event atomic hop ?st2 =
      Some (0, upd_client d (\<lambda>c. c\<lparr>cl_fifo := Some f\<rparr>) (?st2\<lparr>sq_mem := m\<rparr>))"
    "undisturbed ?st2 (upd_client d (\<lambda>c. c\<lparr>cl_fifo := Some f\<rparr>) (?st2\<lparr>sq_mem := m\<rparr>)) D A"
    "inboxes (upd_client d (\<lambda>c. c\<lparr>cl_fifo := Some f\<rparr>) (?st2\<lparr>sq_mem := m\<rparr>)) D A
      (cs(d := cs d @ [arrived env event])) (n(d := n d - 1 - extra_cells event))"
    using inboxes_put [of ?st2 D A cs n d event drivers fwd env p "snd_seq_ev_is_direct event" atomic hop] assms(3-5) by blast
  let ?st3 = "upd_client d (\<lambda>c. c\<lparr>cl_fifo := Some f\<rparr>) (?st2\<lparr>sq_mem := m\<rparr>)"
  let ?st4 = "snd_seq_client_unlock d (snd_seq_port_unlock p ?st3)"
  have "deliver_one drivers fwd env event 0 atomic hop st = Some (0, event, ?st4)"
    unfolding deliver_one_def Let_def g u prod.case option.case if_not_P [OF perm(1)] if_not_P [OF perm(2)] put(1) by simp
  moreover have "undisturbed st ?st4 D A" by (intro undisturbed_locked put(2))
  moreover have "inboxes ?st4 D A (cs(d := cs d @ [arrived env event])) (n(d := n d - 1 - extra_cells event))"
    by (rule inboxes_cong [OF put(3)]) (simp_all add: snd_seq_client_unlock_def snd_seq_port_unlock_def)
  ultimately show ?thesis by blast
qed

text \<open>What the subscriptions \<open>ss\<close> bring to client \<open>d\<close>.\<close>

definition sent_to :: "(nat \<Rightarrow> subscribers) \<Rightarrow> delivery_env \<Rightarrow> seq_event \<Rightarrow> nat list \<Rightarrow> nat \<Rightarrow> (seq_event \<times> u8 list) list" where
  "sent_to h env event ss d =
     map (\<lambda>s. arrived env (event\<lparr>ev_dest := ps_dest (sub_info (h s))\<rparr>))
       (filter (\<lambda>s. unat (fst (ps_dest (sub_info (h s)))) = d) ss)"

definition serves :: "'m seq_system_scheme \<Rightarrow> nat set \<Rightarrow> nat \<Rightarrow> bool" where
  "serves st D s \<longleftrightarrow> ref_count (subs_heap st s) = 2 \<and> ps_flags (sub_info (subs_heap st s)) AND 2 = 0 \<and>
     unat (fst (ps_dest (sub_info (subs_heap st s)))) \<in> D \<and>
     (\<exists>p. takes st (ps_dest (sub_info (subs_heap st s))) (unat (fst (ps_dest (sub_info (subs_heap st s))))) p)"

lemma undisturbed_serves:
  assumes "undisturbed st st' D A"
  shows "serves st' E s = serves st E s"
  unfolding serves_def undisturbed_parts(4) [OF assms] takes_cong [OF undisturbed_parts(1-3) [OF assms]] ..

lemma dest_event_simps [simp]:
  "extra_cells (e\<lparr>ev_dest := a\<rparr>) = extra_cells e" "kernel_data (e\<lparr>ev_dest := a\<rparr>) = kernel_data e"
  "snd_seq_ev_is_direct (e\<lparr>ev_dest := a\<rparr>) = snd_seq_ev_is_direct e"
  "extra_cells (e\<lparr>ev_source := a\<rparr>) = extra_cells e" "kernel_data (e\<lparr>ev_source := a\<rparr>) = kernel_data e"
  "extra_cells (e\<lparr>ev_queue := b\<rparr>) = extra_cells e" "kernel_data (e\<lparr>ev_queue := b\<rparr>) = kernel_data e"
  by (simp_all add: extra_cells_def kernel_data_def snd_seq_ev_is_variable_def var_len_def ext_len_def snd_seq_ev_is_direct_def)

text \<open>The destination of the event is set for each subscription.\<close>

lemma each_subscriber_dest:
  "each_subscriber drivers fwd env client saved atomic hop ss (event\<lparr>ev_dest := a\<rparr>) result num_ev st =
     each_subscriber drivers fwd env client saved atomic hop ss event result num_ev st"
  by (induction ss arbitrary: event) simp_all

lemma each_subscriber_served:
  assumes "kernel_data event"
  shows "inboxes st D A cs n \<Longrightarrow> (\<And>s. s \<in> set ss \<Longrightarrow> serves st D s) \<Longrightarrow>
    (\<And>d. d \<in> D \<Longrightarrow> length (sent_to (subs_heap st) env event ss d) * (1 + extra_cells event) \<le> n d \<and> extra_cells event < card (A d)) \<Longrightarrow>
    \<exists>st' n'. each_subscriber drivers fwd env client event atomic hop (ss @ rest) event result num_ev st =
        each_subscriber drivers fwd env client event atomic hop rest event result (num_ev + int (length ss)) st' \<and>
      undisturbed st st' D A \<and> inboxes st' D A (\<lambda>d. cs d @ sent_to (subs_heap st) env event ss d) n' \<and>
      (\<forall>d\<in>D. n' d = n d - length (sent_to (subs_heap st) env event ss d) * (1 + extra_cells event))"
proof (induction ss arbitrary: st cs n num_ev)
  case Nil
  then show ?case by (intro exI [of _ st] exI [of _ n]) (simp add: sent_to_def)
next
  case (Cons s ss)
  let ?i = "sub_info (subs_heap st s)"
  let ?d = "unat (fst (ps_dest ?i))" and ?e = "event\<lparr>ev_dest := ps_dest ?i\<rparr>" and ?x = "1 + extra_cells event"
  obtain p where v: "ref_count (subs_heap st s) = 2" "ps_flags ?i AND 2 = 0" "?d \<in> D" "takes st (ps_dest ?i) ?d p"
    using Cons.prems(2) [of s] by (auto simp: serves_def)
  have cons: "sent_to (subs_heap st) env event (s # ss) d =
      (if d = ?d then [arrived env ?e] else []) @ sent_to (subs_heap st) env event ss d" for d
    by (simp add: sent_to_def)
  have room: "extra_cells ?e < min (card (A ?d)) (n ?d)" using Cons.prems(3) [OF v(3)] unfolding cons by simp
  obtain st1 where one: "deliver_one drivers fwd env ?e 0 atomic hop st = Some (0, ?e, st1)" "undisturbed st st1 D A"
    "inboxes st1 D A (cs(?d := cs ?d @ [arrived env ?e])) (n(?d := n ?d - 1 - extra_cells event))"
    using deliver_one_user [of st D A cs n ?e ?d p drivers fwd env atomic hop] Cons.prems(1) v(3,4) assms room by auto
  have h: "subs_heap st1 = subs_heap st" using undisturbed_parts(4) [OF one(2)] .
  have "serves st1 D x" if "x \<in> set ss" for x using undisturbed_serves [OF one(2)] Cons.prems(2) that by simp
  moreover have "length (sent_to (subs_heap st1) env event ss d) * ?x \<le> (n(?d := n ?d - 1 - extra_cells event)) d \<and>
      extra_cells event < card (A d)" if "d \<in> D" for d
    using Cons.prems(3) [OF that] unfolding cons h by (cases "d = ?d") (auto simp: algebra_simps)
  ultimately obtain st' n' where r: "each_subscriber drivers fwd env client event atomic hop (ss @ rest) event result (num_ev + 1) st1 =
      each_subscriber drivers fwd env client event atomic hop rest event result (num_ev + 1 + int (length ss)) st'" "undisturbed st1 st' D A"
    "inboxes st' D A (\<lambda>d. (cs(?d := cs ?d @ [arrived env ?e])) d @ sent_to (subs_heap st1) env event ss d) n'"
    "\<forall>d\<in>D. n' d = (n(?d := n ?d - 1 - extra_cells event)) d - length (sent_to (subs_heap st1) env event ss d) * ?x"
    using Cons.IH [OF one(3), of "num_ev + 1"] by blast
  have "snd_seq_deliver_single_event drivers fwd env (Some client) ?e 0 atomic hop st = Some (0, ?e, st1)"
    using one(1) by (simp add: snd_seq_deliver_single_event_def)
  then have "each_subscriber drivers fwd env client event atomic hop ((s # ss) @ rest) event result num_ev st =
      each_subscriber drivers fwd env client event atomic hop rest event result (num_ev + int (length (s # ss))) st'"
    using v(1,2) r(1) by (simp add: Let_def add.assoc)
  moreover have "inboxes st' D A (\<lambda>d. cs d @ sent_to (subs_heap st) env event (s # ss) d) n'"
  proof -
    have "(\<lambda>d. (cs(?d := cs ?d @ [arrived env ?e])) d @ sent_to (subs_heap st1) env event ss d) =
        (\<lambda>d. cs d @ sent_to (subs_heap st) env event (s # ss) d)"
      unfolding cons h by auto
    then show ?thesis using r(3) by simp
  qed
  moreover have "n' d = n d - length (sent_to (subs_heap st) env event (s # ss) d) * ?x" if "d \<in> D" for d
    using r(4) that unfolding cons h by (cases "d = ?d") simp_all
  ultimately show ?case using undisturbed_trans [OF one(2) r(2)] by blast
qed

lemma takes_in_use: "takes (upd_port q (\<lambda>p. p\<lparr>port_use_lock := port_use_lock p + 1\<rparr>) st) a d p = takes st a d p"
proof -
  have h: "port_heap (upd_port q (\<lambda>p. p\<lparr>port_use_lock := port_use_lock p + 1\<rparr>) st) =
      (port_heap st)(q := (port_heap st q)\<lparr>port_use_lock := port_use_lock (port_heap st q) + 1\<rparr>)" by (simp add: fun_eq_iff)
  have "check_port_perm (port_heap (upd_port q (\<lambda>p. p\<lparr>port_use_lock := port_use_lock p + 1\<rparr>) st) p) 2 = check_port_perm (port_heap st p) 2"
    "timestamping (port_heap (upd_port q (\<lambda>p. p\<lparr>port_use_lock := port_use_lock p + 1\<rparr>) st) p) = timestamping (port_heap st p)"
    by (simp_all add: check_port_perm_def)
  then show ?thesis unfolding takes_def clientptr_def by (simp only: upd_port_simps(2,3) h find_port_use)
qed

text \<open>
  C8. An event for the subscribers of a port reaches all of them. When every subscription is complete and leads to a port of a user
  client that takes input, filters no events and grants the permission, and the input queues have room, delivery returns the number of subscriptions,
  and each client finds, behind what was queued already, one copy for each of its subscriptions, in the order of the
  list, addressed to the subscribed port, with the same data. Nothing changes but these input queues with their cells and
  pools: every client and port taken into use is released. The subscriptions and ports do not ask for a new time stamp,
  the data of an event of variable length is in kernel memory, and the limit of hops is not reached.
\<close>

theorem subscribers_served:
  assumes "grp_list (c_src (port_heap st src)) = ss" "hop + 1 < MAX_HOPS" "fst (ev_dest event) = ADDRESS_SUBSCRIBERS"
    and "find_port (port_heap st) (uint (snd (ev_source event))) (ports_list (clients st c)) = Some src"
    and "inboxes st D A cs n" "\<And>s. s \<in> set ss \<Longrightarrow> serves st D s" "kernel_data event"
    and "\<And>d. d \<in> D \<Longrightarrow> length (sent_to (subs_heap st) env event ss d) * (1 + extra_cells event) \<le> n d \<and> extra_cells event < card (A d)"
  shows "\<exists>st' n'. snd_seq_deliver_event drivers env c event atomic hop st = Some (int (length ss), st') \<and>
    undisturbed st st' D A \<and> inboxes st' D A (\<lambda>d. cs d @ sent_to (subs_heap st) env event ss d) n'"
proof -
  define fwd where "fwd = (\<lambda>h clientid ev atomic st. if h \<le> hop then None
    else dispatch_with (\<lambda>c ev atomic st. snd_seq_deliver_event drivers env c ev atomic h st) clientid ev atomic st)"
  let ?st1 = "upd_port src (\<lambda>p. p\<lparr>port_use_lock := port_use_lock p + 1\<rparr>) st"
  have hop: "\<not> MAX_HOPS \<le> hop + 1" using assms(2) by simp
  have u: "snd_seq_port_use_ptr (Some c) (uint (snd (ev_source event))) st = (Some src, ?st1)"
    using assms(4) by (simp add: snd_seq_port_use_ptr_def)
  have d: "snd_seq_deliver_event drivers env c event atomic hop st = deliver_to_subscribers drivers fwd env c event atomic (hop + 1) st"
    unfolding snd_seq_deliver_event.simps [of drivers env c event atomic hop st] if_not_P [OF hop] Let_def fwd_def
    using assms(3) by simp
  have "inboxes ?st1 D A cs n" by (rule inboxes_cong [OF assms(5)]) simp_all
  moreover have "serves ?st1 D s" if "s \<in> set ss" for s
    using assms(6) [OF that] unfolding serves_def takes_in_use by simp
  ultimately obtain st2 n' where e: "each_subscriber drivers fwd env c event atomic (hop + 1) (ss @ []) event 0 0 ?st1 =
      each_subscriber drivers fwd env c event atomic (hop + 1) [] event 0 (0 + int (length ss)) st2" "undisturbed ?st1 st2 D A"
    "inboxes st2 D A (\<lambda>d. cs d @ sent_to (subs_heap st) env event ss d) n'"
    using each_subscriber_served [OF assms(7), of ?st1 D A cs n "ss" env drivers fwd c atomic "hop + 1" "[]" 0 0] assms(8) by auto
  have src: "grp_list (c_src (port_heap ?st1 src)) = ss" by (simp add: assms(1))
  have "snd_seq_deliver_event drivers env c event atomic hop st = Some (int (length ss), snd_seq_port_unlock src st2)"
    unfolding d deliver_to_subscribers_def u prod.case option.case src using e(1) by simp
  moreover have "inboxes (snd_seq_port_unlock src st2) D A (\<lambda>d. cs d @ sent_to (subs_heap st) env event ss d) n'"
    by (rule inboxes_cong [OF e(3)]) (simp_all add: snd_seq_port_unlock_def)
  ultimately show ?thesis using undisturbed_locked(2) [OF e(2)] by blast
qed

definition sample_fifo :: seq_fifo where
  "sample_fifo = \<lparr>ff_pool = 0, ff_head = 0, ff_tail = 0, ff_cells = 0, ff_overflow = 0, in_waiting = False, in_wakeups = 0\<rparr>"

text \<open>Port 0 of client 128 is connected to port 0 of client 129.\<close>

definition connected_system :: seq_system where
  "connected_system = sample_system\<lparr>
     clients := (clients sample_system)(129 := (clients sample_system 129)\<lparr>cl_fifo := Some sample_fifo\<rparr>),
     port_heap := (port_heap sample_system)(10 := (port_heap sample_system 10)\<lparr>c_src := sample_group [1]\<rparr>),
     subs_heap := (subs_heap sample_system)(1 := \<lparr>sub_info = \<lparr>ps_sender = (128, 0), ps_dest = (129, 0), ps_voices = 0, ps_flags = 0, ps_queue = 0\<rparr>, ref_count = 2\<rparr>)\<rparr>"

lemma sample_inbox: "inboxes connected_system {129} (\<lambda>_. cell_addr 0x10000 ` {..<4}) (\<lambda>_. []) (\<lambda>_. 4)"
proof -
  let ?fs = "rev (map (cell_addr 0x10000) [0..<4])"
  have "distinct ?fs" using sample_pool(1) by (rule pool_inv_distinct)
  moreover have "set ?fs = cell_addr 0x10000 ` {..<4}" by (simp add: atLeast0LessThan)
  ultimately have "fifo_inv sample_fifo sample_mem (cell_addr 0x10000 ` {..<4}) ?fs []"
    using sample_pool by (simp add: fifo_inv_def fifo_list_def sample_fifo_def)
  then show ?thesis unfolding inboxes_def
    by (intro exI [of _ "\<lambda>_. sample_fifo"] exI [of _ "\<lambda>_. ?fs"] exI [of _ "\<lambda>_. []"]) (simp add: connected_system_def sample_system_def)
qed

lemma sample_takes: "takes connected_system (129, 0) 129 20"
  by (simp add: takes_def connected_system_def sample_system_def sample_client_def sample_port_def clientptr_def check_port_perm_def port_no_def)

definition sample_send :: seq_event where
  "sample_send = (stamped 0)\<lparr>ev_queue := 253, ev_source := (128, 0), ev_dest := (254, 0)\<rparr>"

definition sample_env :: delivery_env where
  "sample_env = \<lparr>de_data = [], de_bad = (\<lambda>_. False), de_quote = 0, de_elapsed = Real_time 0 0\<rparr>"

theorem subscribers_served_witness:
  "\<exists>st' n'. snd_seq_deliver_event (\<lambda>_ _ _ _ _ st. Some (0, st)) sample_env 128 sample_send False 0 connected_system = Some (1, st') \<and>
    inboxes st' {129} (\<lambda>_. cell_addr 0x10000 ` {..<4}) (\<lambda>d. [] @ sent_to (subs_heap connected_system) sample_env sample_send [1] d) n'"
proof -
  have subs: "grp_list (c_src (port_heap connected_system 10)) = [1]"
    by (simp add: connected_system_def sample_group_def)
  have info: "sub_info (subs_heap connected_system 1) = \<lparr>ps_sender = (128, 0), ps_dest = (129, 0), ps_voices = 0, ps_flags = 0, ps_queue = 0\<rparr>"
    "ref_count (subs_heap connected_system 1) = 2" by (simp_all add: connected_system_def)
  have "serves connected_system {129} 1" unfolding serves_def info using sample_takes by auto
  moreover have "find_port (port_heap connected_system) (uint (snd (ev_source sample_send))) (ports_list (clients connected_system 128)) = Some 10"
    by (simp add: connected_system_def sample_system_def sample_client_def sample_port_def sample_send_def port_no_def)
  moreover have "kernel_data sample_send" "extra_cells sample_send = 0" "fst (ev_dest sample_send) = ADDRESS_SUBSCRIBERS"
    by (simp_all add: sample_send_def stamped_def kernel_data_def extra_cells_def ext_len_def snd_seq_ev_is_variable_def)
  moreover have "card (cell_addr 0x10000 ` {..<4}) = 4" using card_image [OF cell_addr_inj [of "0x10000" 4]] by simp
  moreover have "length (sent_to (subs_heap connected_system) sample_env sample_send [1] d) \<le> 4" for d by (simp add: sent_to_def)
  ultimately show ?thesis
    using subscribers_served [OF subs, of 0 sample_send 128 "{129}" "\<lambda>_. cell_addr 0x10000 ` {..<4}" "\<lambda>_. []" "\<lambda>_. 4" sample_env
        "\<lambda>_ _ _ _ _ st. Some (0, st)" False] sample_inbox by simp blast
qed

section \<open>Feedback\<close>

lemma client_unlock_id [simp]: "snd_seq_client_unlock c (upd_client c (\<lambda>c. c\<lparr>cl_use_lock := cl_use_lock c + 1\<rparr>) st) = st"
  by (simp add: snd_seq_client_unlock_def upd_client_def)

lemma port_unlock_id [simp]: "snd_seq_port_unlock p (upd_port p (\<lambda>p. p\<lparr>port_use_lock := port_use_lock p + 1\<rparr>) st) = st"
  by (simp add: snd_seq_port_unlock_def upd_port_def)

text \<open>
  Port \<open>k\<close> of client \<open>c\<close> is a through port. What it receives goes to the subscribers of port \<open>j\<close>, the same port or, in duplex
  mode, its partner: \<open>us\<close>, then a subscription \<open>s\<close> of port \<open>k\<close> itself, then \<open>vs\<close>.
\<close>

definition feeds_back ::
  "'m seq_system_scheme \<Rightarrow> nat \<Rightarrow> u8 \<Rightarrow> u8 \<Rightarrow> nat \<Rightarrow> nat \<Rightarrow> nat list \<Rightarrow> nat \<Rightarrow> nat list \<Rightarrow> bool" where
  "feeds_back st c k j p q us s vs \<longleftrightarrow> 0 < c \<and> c < MAX_CLIENTS \<and> clienttab st c \<and> accept_input (clients st c) \<and> accept_output (clients st c) \<and>
     cl_filter (clients st c) AND 0x80000000 = 0 \<and> cl_type (clients st c) = KERNEL_CLIENT \<and>
     find_port (port_heap st) (uint k) (ports_list (clients st c)) = Some p \<and> check_port_perm (port_heap st p) 2 \<and>
     \<not> timestamping (port_heap st p) \<and>
     (\<exists>i. port_input (port_heap st p) = Dummy_input i \<and> dp_client i = int c \<and> (if dp_duplex i then dp_connect i else dp_port i) = uint j) \<and>
     find_port (port_heap st) (uint j) (ports_list (clients st c)) = Some q \<and> grp_list (c_src (port_heap st q)) = us @ s # vs \<and>
     ref_count (subs_heap st s) = 2 \<and> ps_flags (sub_info (subs_heap st s)) AND 2 = 0 \<and> ps_dest (sub_info (subs_heap st s)) = (of_nat c, k)"

lemma feeds_back_in_use:
  "feeds_back (upd_client d (\<lambda>c. c\<lparr>cl_use_lock := cl_use_lock c + 1\<rparr>) st) c k j p q us s vs = feeds_back st c k j p q us s vs"
  "feeds_back (upd_port r (\<lambda>p. p\<lparr>port_use_lock := port_use_lock p + 1\<rparr>) st) c k j p q us s vs = feeds_back st c k j p q us s vs"
proof -
  have h: "port_heap (upd_port r (\<lambda>p. p\<lparr>port_use_lock := port_use_lock p + 1\<rparr>) st) =
      (port_heap st)(r := (port_heap st r)\<lparr>port_use_lock := port_use_lock (port_heap st r) + 1\<rparr>)" by (simp add: fun_eq_iff)
  show "feeds_back (upd_client d (\<lambda>c. c\<lparr>cl_use_lock := cl_use_lock c + 1\<rparr>) st) c k j p q us s vs = feeds_back st c k j p q us s vs"
    by (simp add: feeds_back_def)
  let ?u = "upd_port r (\<lambda>p. p\<lparr>port_use_lock := port_use_lock p + 1\<rparr>) st"
  have "find_port (port_heap ?u) n ps = find_port (port_heap st) n ps" "check_port_perm (port_heap ?u x) 2 = check_port_perm (port_heap st x) 2"
    "timestamping (port_heap ?u x) = timestamping (port_heap st x)" "port_input (port_heap ?u x) = port_input (port_heap st x)"
    "c_src (port_heap ?u x) = c_src (port_heap st x)" for n ps x
    by (simp only: h find_port_use) (simp_all add: check_port_perm_def)
  then show "feeds_back ?u c k j p q us s vs = feeds_back st c k j p q us s vs"
    unfolding feeds_back_def by (simp only: upd_port_simps(2,3,5))
qed

lemma feeds_back_undisturbed:
  assumes "undisturbed st st' D A"
  shows "feeds_back st' c k j p q us s vs = feeds_back st c k j p q us s vs"
  unfolding feeds_back_def undisturbed_parts(2-4) [OF assms] same_client_simps [OF undisturbed_parts(1) [OF assms]] ..

definition sendable :: "seq_event \<Rightarrow> bool" where
  "sendable e \<longleftrightarrow> ev_type e \<noteq> 150 \<and> check_event_type_and_length (e\<lparr>ev_queue := QUEUE_DIRECT\<rparr>) = 0"

lemma check_event_cong:
  "ev_type e' = ev_type e \<Longrightarrow> ev_flags e' = ev_flags e \<Longrightarrow> ev_data e' = ev_data e \<Longrightarrow> ev_queue e' = ev_queue e \<Longrightarrow>
   check_event_type_and_length e' = check_event_type_and_length e"
  by (simp only: check_event_type_and_length_def snd_seq_ev_is_variable_type_def snd_seq_ev_is_direct_def ext_len_def)

lemma sendable_cong:
  "ev_type e' = ev_type e \<Longrightarrow> ev_flags e' = ev_flags e \<Longrightarrow> ev_data e' = ev_data e \<Longrightarrow> sendable e' = sendable e"
  using check_event_cong [of "e'\<lparr>ev_queue := QUEUE_DIRECT\<rparr>" "e\<lparr>ev_queue := QUEUE_DIRECT\<rparr>"] by (simp add: sendable_def)

lemma sendable_addressed [simp]:
  "sendable (e\<lparr>ev_dest := a\<rparr>) = sendable e" "sendable (e\<lparr>ev_source := a\<rparr>) = sendable e" "sendable (e\<lparr>ev_queue := q\<rparr>) = sendable e"
  by (rule sendable_cong; simp)+

lemma sendable_check: "sendable e \<Longrightarrow> ev_queue e = QUEUE_DIRECT \<Longrightarrow> check_event_type_and_length e = 0"
  using check_event_cong [of e "e\<lparr>ev_queue := QUEUE_DIRECT\<rparr>"] by (simp add: sendable_def)

lemma use_ptr_known: "c < MAX_CLIENTS \<Longrightarrow> clienttab st c \<Longrightarrow>
  snd_seq_client_use_ptr (int c) st = (Some c, upd_client c (\<lambda>c. c\<lparr>cl_use_lock := cl_use_lock c + 1\<rparr>) st)"
  by (simp add: snd_seq_client_use_ptr_def clientptr_def)

lemma serves_in_use:
  "serves (upd_port q (\<lambda>p. p\<lparr>port_use_lock := port_use_lock p + 1\<rparr>) st) D s = serves st D s"
  "serves (upd_client c (\<lambda>c. c\<lparr>cl_use_lock := cl_use_lock c + 1\<rparr>) st) D s = serves st D s"
proof -
  show "serves (upd_port q (\<lambda>p. p\<lparr>port_use_lock := port_use_lock p + 1\<rparr>) st) D s = serves st D s"
    unfolding serves_def takes_in_use by simp
  have "takes (upd_client c (\<lambda>c. c\<lparr>cl_use_lock := cl_use_lock c + 1\<rparr>) st) = takes st"
    by (intro ext) (simp add: takes_def clientptr_def)
  then show "serves (upd_client c (\<lambda>c. c\<lparr>cl_use_lock := cl_use_lock c + 1\<rparr>) st) D s = serves st D s"
    unfolding serves_def by simp
qed

text \<open>Where an event is addressed does not matter for what its subscribers get.\<close>

lemma sent_to_dest [simp]: "sent_to h env (e\<lparr>ev_dest := a\<rparr>) ss d = sent_to h env e ss d"
  by (simp add: sent_to_def)

lemma concat_replicate_snoc: "concat (replicate n xs) @ xs = xs @ concat (replicate n xs)"
  by (induction n) simp_all

text \<open>
  \<open>goes_round\<close>: dispatching the event \<open>e0\<close> from the loop comes back with an error after it has been delivered to the
  other subscribers \<open>N\<close> times.
\<close>

definition goes_round where
  "goes_round dispatch env atomic D A c k j p q us s vs N e0 \<longleftrightarrow>
     (\<forall>st cs n e. feeds_back st c k j p q us s vs \<longrightarrow> e\<lparr>ev_queue := QUEUE_DIRECT, ev_source := (of_nat c, j), ev_dest := (0, 0)\<rparr> = e0 \<longrightarrow>
        snd (ev_source e) = j \<longrightarrow> fst (ev_dest e) = ADDRESS_SUBSCRIBERS \<longrightarrow> inboxes st D A cs n \<longrightarrow>
        (\<forall>x\<in>set us \<union> set vs. serves st D x) \<longrightarrow>
        (\<forall>d\<in>D. N * ((length (sent_to (subs_heap st) env e0 us d) + length (sent_to (subs_heap st) env e0 vs d)) * (1 + extra_cells e0)) \<le> n d \<and>
           extra_cells e0 < card (A d)) \<longrightarrow>
        (\<exists>st' n'. dispatch (int c) e atomic st = Some (- EMLINK, st') \<and> undisturbed st st' D A \<and>
           inboxes st' D A (\<lambda>d. cs d @ concat (replicate N (sent_to (subs_heap st) env e0 us d)) @
             concat (replicate N (sent_to (subs_heap st) env e0 vs d))) n' \<and>
           (\<forall>d\<in>D. n' d = n d - N * ((length (sent_to (subs_heap st) env e0 us d) + length (sent_to (subs_heap st) env e0 vs d)) * (1 + extra_cells e0)))))"

text \<open>The subscription that closes the loop: its event is dispatched again.\<close>

lemma loop_subscription:
  assumes "feeds_back st c k j p q us s vs" "fst (ev_source e) = of_nat c" "sendable e" "snd_seq_ev_is_direct e" "ev_dest e = (of_nat c, k)"
    and again: "\<And>st1. st1 = upd_port p (\<lambda>p. p\<lparr>port_use_lock := port_use_lock p + 1\<rparr>) (upd_client c (\<lambda>c. c\<lparr>cl_use_lock := cl_use_lock c + 1\<rparr>) st) \<Longrightarrow>
      fwd hop (int c) (e\<lparr>ev_source := (of_nat c, j), ev_dest := (ADDRESS_SUBSCRIBERS, k)\<rparr>) atomic st1 = Some (- EMLINK, st2) \<and> undisturbed st1 st2 D A"
  shows "snd_seq_deliver_single_event drivers fwd env (Some c) e 0 atomic hop st =
      Some (- EMLINK, e, snd_seq_client_unlock c (snd_seq_port_unlock p st2))"
    "undisturbed st (snd_seq_client_unlock c (snd_seq_port_unlock p st2)) D A"
proof -
  note f = assms(1) [unfolded feeds_back_def]
  let ?lc = "upd_client c (\<lambda>c. c\<lparr>cl_use_lock := cl_use_lock c + 1\<rparr>) st"
  let ?lp = "upd_port p (\<lambda>p. p\<lparr>port_use_lock := port_use_lock p + 1\<rparr>) ?lc"
  have c: "uint (of_nat c :: u8) = int c" "(of_nat c :: u8) \<noteq> 0"
  proof -
    show "uint (of_nat c :: u8) = int c" using f by (simp add: unsigned_of_nat take_bit_nat_eq_self)
    then show "(of_nat c :: u8) \<noteq> 0" using f by (metis of_nat_0_eq_iff less_irrefl unsigned_0)
  qed
  have "snd_seq_client_use_ptr (int c) st = (Some c, ?lc)" using f by (intro use_ptr_known) auto
  then have g: "get_event_dest_client e 0 st = (Some c, ?lc)"
    using f c(1) assms(5) by (simp add: get_event_dest_client_def)
  have in_use: "feeds_back ?lc c k j p q us s vs" using assms(1) by (simp add: feeds_back_in_use)
  then have u: "snd_seq_port_use_ptr (Some c) (uint (snd (ev_dest e))) ?lc = (Some p, ?lp)"
    using assms(5) by (simp add: snd_seq_port_use_ptr_def feeds_back_def)
  have in_use: "feeds_back ?lp c k j p q us s vs" using assms(1) by (simp add: feeds_back_in_use)
  then have port: "\<not> \<not> check_port_perm (port_heap ?lp p) 2" "\<not> timestamping (port_heap ?lp p)" and kernel: "cl_type (clients ?lp c) = KERNEL_CLIENT"
    unfolding feeds_back_def by blast+
  obtain i where i: "port_input (port_heap ?lp p) = Dummy_input i" "dp_client i = int c" "(if dp_duplex i then dp_connect i else dp_port i) = uint j"
    using in_use unfolding feeds_back_def by blast
  have "put_event drivers fwd env c p (snd_seq_ev_is_direct e) e atomic hop ?lp = Some (- EMLINK, st2)"
    unfolding put_event_def kernel i(1) client_type.case call_event_input_def event_input.case dummy_input_def i(2,3)
    using assms(2,3,5) c(2) again [OF refl] by (simp add: sendable_def)
  then have "deliver_one drivers fwd env e 0 atomic hop st = Some (- EMLINK, e, snd_seq_client_unlock c (snd_seq_port_unlock p st2))"
    unfolding deliver_one_def Let_def g u prod.case option.case if_not_P [OF port(1)] if_not_P [OF port(2)] by simp
  then show "snd_seq_deliver_single_event drivers fwd env (Some c) e 0 atomic hop st =
      Some (- EMLINK, e, snd_seq_client_unlock c (snd_seq_port_unlock p st2))"
    using assms(4) by (simp add: snd_seq_deliver_single_event_def)
  show "undisturbed st (snd_seq_client_unlock c (snd_seq_port_unlock p st2)) D A"
    by (intro undisturbed_locked) (use again [OF refl] in blast)
qed

lemma round_room:
  fixes u v x n N :: nat
  assumes "Suc N * ((u + v) * x) \<le> n"
  shows "N * ((u + v) * x) \<le> n - u * x" "v * x \<le> n - u * x - N * ((u + v) * x)"
    "n - u * x - N * ((u + v) * x) - v * x = n - Suc N * ((u + v) * x)"
proof -
  have "Suc N * ((u + v) * x) = u * x + v * x + N * ((u + v) * x)" by (simp add: algebra_simps)
  then show "N * ((u + v) * x) \<le> n - u * x" "v * x \<le> n - u * x - N * ((u + v) * x)"
    "n - u * x - N * ((u + v) * x) - v * x = n - Suc N * ((u + v) * x)" using assms by linarith+
qed

text \<open>One round: the others are served before and after the loop has come back with one hop more.\<close>

lemma feedback_round:
  assumes "feeds_back st c k j p q us s vs" "snd_seq_ev_is_direct e" "ev_source e = (of_nat c, j)" "sendable e" "kernel_data e"
    and "e\<lparr>ev_dest := (0, 0)\<rparr> = e0" "ev_queue e = QUEUE_DIRECT"
    and "inboxes st D A cs n" "\<forall>x\<in>set us \<union> set vs. serves st D x"
    and "\<forall>d\<in>D. Suc N * ((length (sent_to (subs_heap st) env e0 us d) + length (sent_to (subs_heap st) env e0 vs d)) * (1 + extra_cells e0)) \<le> n d \<and>
           extra_cells e0 < card (A d)"
    and again: "goes_round (fwd hop) env atomic D A c k j p q us s vs N e0"
  shows "\<exists>st' n'. deliver_to_subscribers drivers fwd env c e atomic hop st = Some (- EMLINK, st') \<and> undisturbed st st' D A \<and>
           inboxes st' D A (\<lambda>d. cs d @ concat (replicate (Suc N) (sent_to (subs_heap st) env e0 us d)) @
             concat (replicate (Suc N) (sent_to (subs_heap st) env e0 vs d))) n' \<and>
           (\<forall>d\<in>D. n' d = n d - Suc N * ((length (sent_to (subs_heap st) env e0 us d) + length (sent_to (subs_heap st) env e0 vs d)) * (1 + extra_cells e0)))"
proof -
  let ?lq = "upd_port q (\<lambda>p. p\<lparr>port_use_lock := port_use_lock p + 1\<rparr>) st"
  let ?x = "1 + extra_cells e0"
  define U V where "U = sent_to (subs_heap st) env e0 us" and "V = sent_to (subs_heap st) env e0 vs"
  have e0: "extra_cells e0 = extra_cells e" "sent_to h env e0 ss d = sent_to h env e ss d" for h ss d
    unfolding assms(6) [symmetric] by simp_all
  note room = assms(10) [unfolded U_def [symmetric] V_def [symmetric]]
  have "inboxes ?lq D A cs n" by (rule inboxes_cong [OF assms(8)]) simp_all
  moreover have serves_lq: "\<forall>x\<in>set us \<union> set vs. serves ?lq D x" using assms(9) unfolding serves_in_use .
  moreover have "length (sent_to (subs_heap ?lq) env e us d) * (1 + extra_cells e) \<le> n d \<and> extra_cells e < card (A d)" if "d \<in> D" for d
    using bspec [OF room that] by (simp add: U_def e0 algebra_simps)
  ultimately obtain st1 n1 where one: "each_subscriber drivers fwd env c e atomic hop (us @ s # vs) e 0 0 ?lq =
      each_subscriber drivers fwd env c e atomic hop (s # vs) e 0 (0 + int (length us)) st1" "undisturbed ?lq st1 D A"
    "inboxes st1 D A (\<lambda>d. cs d @ U d) n1" "\<forall>d\<in>D. n1 d = n d - length (U d) * ?x"
    using each_subscriber_served [OF assms(5), of ?lq D A cs n us env drivers fwd c atomic hop "s # vs" 0 0]
    unfolding U_def e0 upd_port_simps by blast
  have h1: "subs_heap st1 = subs_heap st" using undisturbed_parts(4) [OF one(2)] by simp
  let ?lc = "upd_client c (\<lambda>c. c\<lparr>cl_use_lock := cl_use_lock c + 1\<rparr>) st1"
  let ?lp = "upd_port p (\<lambda>p. p\<lparr>port_use_lock := port_use_lock p + 1\<rparr>) ?lc"
  let ?d = "e\<lparr>ev_dest := (of_nat c, k)\<rparr>"
  let ?e = "?d\<lparr>ev_source := (of_nat c, j), ev_dest := (ADDRESS_SUBSCRIBERS, k)\<rparr>"
  have fb1: "feeds_back st1 c k j p q us s vs"
    unfolding feeds_back_undisturbed [OF one(2)] using assms(1) by (simp add: feeds_back_in_use)
  have serves1: "\<forall>x\<in>set us \<union> set vs. serves st1 D x"
    using serves_lq undisturbed_serves [OF one(2)] by blast
  have serves_lp: "serves ?lp D x" if "serves st1 D x" for x
    using that unfolding serves_in_use .
  have in1: "inboxes ?lp D A (\<lambda>d. cs d @ U d) n1" by (rule inboxes_cong [OF one(3)]) simp_all
  have "?e\<lparr>ev_queue := QUEUE_DIRECT, ev_source := (of_nat c, j), ev_dest := (0, 0)\<rparr> = e0"
    using assms(6,3,7) by (cases e) auto
  moreover have "N * ((length (U d) + length (V d)) * ?x) \<le> n1 d" if "d \<in> D" for d
    using round_room(1) [OF conjunct1 [OF bspec [OF room that]]] bspec [OF one(4) that] by simp
  ultimately obtain st2 n2 where two: "fwd hop (int c) ?e atomic ?lp = Some (- EMLINK, st2)" "undisturbed ?lp st2 D A"
    "inboxes st2 D A (\<lambda>d. (cs d @ U d) @ concat (replicate N (U d)) @ concat (replicate N (V d))) n2"
    "\<forall>d\<in>D. n2 d = n1 d - N * ((length (U d) + length (V d)) * ?x)"
    using again [unfolded goes_round_def, rule_format, of ?lp ?e "\<lambda>d. cs d @ U d" n1] fb1 serves1 in1 serves_lp room
    unfolding U_def V_def by (auto simp: feeds_back_in_use h1)
  let ?st3 = "snd_seq_client_unlock c (snd_seq_port_unlock p st2)"
  have loop: "snd_seq_deliver_single_event drivers fwd env (Some c) ?d 0 atomic hop st1 = Some (- EMLINK, ?d, ?st3)" "undisturbed st1 ?st3 D A"
    using loop_subscription [OF fb1, of ?d fwd hop atomic st2 D A] assms(2-4) two(1,2) by simp_all
  have h3: "subs_heap ?st3 = subs_heap st" using undisturbed_parts(4) [OF loop(2)] h1 by simp
  have in3: "inboxes ?st3 D A (\<lambda>d. (cs d @ U d) @ concat (replicate N (U d)) @ concat (replicate N (V d))) n2"
    by (rule inboxes_cong [OF two(3)]) (simp_all add: snd_seq_client_unlock_def snd_seq_port_unlock_def)
  have "serves ?st3 D x" if "x \<in> set vs" for x using serves1 that undisturbed_serves [OF loop(2)] by blast
  moreover have "length (sent_to (subs_heap ?st3) env e vs d) * (1 + extra_cells e) \<le> n2 d \<and> extra_cells e < card (A d)" if "d \<in> D" for d
    using bspec [OF room that] bspec [OF one(4) that] bspec [OF two(4) that]
      round_room(2) [OF conjunct1 [OF bspec [OF room that]]] by (simp add: V_def h3 e0)
  ultimately obtain st4 n4 where three: "each_subscriber drivers fwd env c e atomic hop (vs @ []) e (- EMLINK) (int (length us)) ?st3 =
      each_subscriber drivers fwd env c e atomic hop [] e (- EMLINK) (int (length us) + int (length vs)) st4" "undisturbed ?st3 st4 D A"
    "inboxes st4 D A (\<lambda>d. ((cs d @ U d) @ concat (replicate N (U d)) @ concat (replicate N (V d))) @ V d) n4"
    "\<forall>d\<in>D. n4 d = n2 d - length (V d) * ?x"
    using each_subscriber_served [OF assms(5) in3, of vs env drivers fwd c atomic hop "[]" "- EMLINK" "int (length us)"]
    unfolding V_def e0 h3 by blast
  have "each_subscriber drivers fwd env c e atomic hop (s # vs) e 0 (int (length us)) st1 =
      each_subscriber drivers fwd env c e atomic hop vs ?d (- EMLINK) (int (length us)) ?st3"
    using fb1 loop(1) by (simp add: feeds_back_def Let_def)
  then have all: "each_subscriber drivers fwd env c e atomic hop (us @ s # vs) e 0 0 ?lq = Some (- EMLINK, int (length us) + int (length vs), st4)"
    using one(1) three(1) by (simp add: each_subscriber_dest)
  have u: "snd_seq_port_use_ptr (Some c) (uint (snd (ev_source e))) st = (Some q, ?lq)" and g: "grp_list (c_src (port_heap ?lq q)) = us @ s # vs"
    using assms(1,3) by (simp_all add: snd_seq_port_use_ptr_def feeds_back_def)
  have "deliver_to_subscribers drivers fwd env c e atomic hop st = Some (- EMLINK, snd_seq_port_unlock q st4)"
    unfolding deliver_to_subscribers_def u prod.case option.case g all by simp
  moreover have "undisturbed ?lq st4 D A" using undisturbed_trans [OF undisturbed_trans [OF one(2) loop(2)] three(2)] .
  then have "undisturbed st (snd_seq_port_unlock q st4) D A" by (rule undisturbed_locked(2))
  moreover have "inboxes (snd_seq_port_unlock q st4) D A
      (\<lambda>d. cs d @ concat (replicate (Suc N) (U d)) @ concat (replicate (Suc N) (V d))) n4"
    by (rule inboxes_cong) (use three(3) in \<open>simp_all add: concat_replicate_snoc snd_seq_port_unlock_def\<close>)
  moreover have "n4 d = n d - Suc N * ((length (U d) + length (V d)) * ?x)" if "d \<in> D" for d
    using bspec [OF one(4) that] bspec [OF two(4) that] bspec [OF three(4) that] round_room(3) [OF conjunct1 [OF bspec [OF room that]]]
    by simp
  ultimately show ?thesis unfolding U_def V_def by blast
qed

text \<open>The rounds end at the limit of hops.\<close>

lemma feedback_rounds:
  fixes drivers :: "'m drivers"
  assumes "sendable e0" "kernel_data e0"
  shows "goes_round (\<lambda>client e atomic st. snd_seq_kernel_client_dispatch drivers env client e atomic hop st) env atomic D A c k j p q us s vs (7 - hop) e0"
proof (induction "MAX_HOPS - hop" arbitrary: hop rule: less_induct)
  case less
  show ?case unfolding goes_round_def
  proof (intro allI impI)
    fix st :: "'m seq_system_scheme" and cs n and e :: seq_event
    let ?lc = "upd_client c (\<lambda>c. c\<lparr>cl_use_lock := cl_use_lock c + 1\<rparr>) st"
    let ?e = "e\<lparr>ev_queue := QUEUE_DIRECT, ev_source := (of_nat c, j)\<rparr>"
    let ?w = "\<lambda>d. (length (sent_to (subs_heap st) env e0 us d) + length (sent_to (subs_heap st) env e0 vs d)) * (1 + extra_cells e0)"
    assume fb: "feeds_back st c k j p q us s vs"
      and e0: "e\<lparr>ev_queue := QUEUE_DIRECT, ev_source := (of_nat c, j), ev_dest := (0, 0)\<rparr> = e0"
      and j: "snd (ev_source e) = j" and subs: "fst (ev_dest e) = ADDRESS_SUBSCRIBERS" and inb: "inboxes st D A cs n"
      and serves: "\<forall>x\<in>set us \<union> set vs. serves st D x" and room: "\<forall>d\<in>D. (7 - hop) * ?w d \<le> n d \<and> extra_cells e0 < card (A d)"
    have e: "?e\<lparr>ev_dest := (0, 0)\<rparr> = e0" using e0 by simp
    have send: "sendable ?e" "kernel_data ?e" using assms unfolding e [symmetric] by simp_all
    have check: "\<not> check_event_type_and_length ?e \<noteq> 0" using sendable_check [OF send(1)] by simp
    have use: "snd_seq_client_use_ptr (int c) st = (Some c, ?lc)" using fb by (intro use_ptr_known) (auto simp: feeds_back_def)
    have out: "\<not> \<not> accept_output (clients ?lc c)" using fb by (simp add: feeds_back_def)
    have "\<exists>st1 n1. snd_seq_deliver_event drivers env c ?e atomic hop ?lc = Some (- EMLINK, st1) \<and> undisturbed ?lc st1 D A \<and>
        inboxes st1 D A (\<lambda>d. cs d @ concat (replicate (7 - hop) (sent_to (subs_heap st) env e0 us d)) @
          concat (replicate (7 - hop) (sent_to (subs_heap st) env e0 vs d))) n1 \<and> (\<forall>d\<in>D. n1 d = n d - (7 - hop) * ?w d)"
    proof (cases "MAX_HOPS \<le> hop + 1")
      case True
      moreover have "inboxes ?lc D A cs n" by (rule inboxes_cong [OF inb]) simp_all
      ultimately show ?thesis
        by (intro exI [of _ ?lc] exI [of _ n]) (simp add: snd_seq_deliver_event.simps [of drivers env c ?e atomic hop])
    next
      case False
      define fwd where "fwd = (\<lambda>h clientid ev atomic st. if h \<le> hop then None
        else dispatch_with (\<lambda>c ev atomic (st :: 'm seq_system_scheme). snd_seq_deliver_event drivers env c ev atomic h st) clientid ev atomic st)"
      have N: "7 - hop = Suc (7 - (hop + 1))" using False by simp
      have "fwd (hop + 1) = (\<lambda>client e atomic st. snd_seq_kernel_client_dispatch drivers env client e atomic (hop + 1) st)"
        by (simp add: fwd_def snd_seq_kernel_client_dispatch_def fun_eq_iff)
      then have again: "goes_round (fwd (hop + 1)) env atomic D A c k j p q us s vs (7 - (hop + 1)) e0"
        using less.hyps [of "hop + 1"] False by simp
      have fb': "feeds_back ?lc c k j p q us s vs" using fb by (simp add: feeds_back_in_use)
      have "inboxes ?lc D A cs n" by (rule inboxes_cong [OF inb]) simp_all
      moreover have "\<forall>x\<in>set us \<union> set vs. serves ?lc D x" using serves unfolding serves_in_use .
      moreover have "snd_seq_ev_is_direct ?e" by (simp add: snd_seq_ev_is_direct_def)
      ultimately obtain st1 n1 where "deliver_to_subscribers drivers fwd env c ?e atomic (hop + 1) ?lc = Some (- EMLINK, st1)" "undisturbed ?lc st1 D A"
        "inboxes st1 D A (\<lambda>d. cs d @ concat (replicate (7 - hop) (sent_to (subs_heap st) env e0 us d)) @
          concat (replicate (7 - hop) (sent_to (subs_heap st) env e0 vs d))) n1" "\<forall>d\<in>D. n1 d = n d - (7 - hop) * ?w d"
        using feedback_round [where fwd = fwd, OF fb' _ _ send e _ _ _ _ again, of cs n drivers] room unfolding N by auto
      then show ?thesis unfolding snd_seq_deliver_event.simps [of drivers env c ?e atomic hop] if_not_P [OF False] Let_def fwd_def
        using subs by auto
    qed
    then obtain st1 n1 where one: "snd_seq_deliver_event drivers env c ?e atomic hop ?lc = Some (- EMLINK, st1)" "undisturbed ?lc st1 D A"
      "inboxes st1 D A (\<lambda>d. cs d @ concat (replicate (7 - hop) (sent_to (subs_heap st) env e0 us d)) @
          concat (replicate (7 - hop) (sent_to (subs_heap st) env e0 vs d))) n1" "\<forall>d\<in>D. n1 d = n d - (7 - hop) * ?w d" by blast
    have src: "(word_of_int (int c) :: u8, snd (ev_source e)) = (of_nat c, j)" using j by simp
    have "snd_seq_kernel_client_dispatch drivers env (int c) e atomic hop st = Some (- EMLINK, snd_seq_client_unlock c st1)"
      unfolding snd_seq_kernel_client_dispatch_def dispatch_with_def Let_def src if_not_P [OF check] use prod.case option.case if_not_P [OF out]
      using one(1) by simp
    moreover have "inboxes (snd_seq_client_unlock c st1) D A (\<lambda>d. cs d @ concat (replicate (7 - hop) (sent_to (subs_heap st) env e0 us d)) @
          concat (replicate (7 - hop) (sent_to (subs_heap st) env e0 vs d))) n1"
      by (rule inboxes_cong [OF one(3)]) (simp_all add: snd_seq_client_unlock_def)
    ultimately show "\<exists>st' n'. snd_seq_kernel_client_dispatch drivers env (int c) e atomic hop st = Some (- EMLINK, st') \<and> undisturbed st st' D A \<and>
        inboxes st' D A (\<lambda>d. cs d @ concat (replicate (7 - hop) (sent_to (subs_heap st) env e0 us d)) @
          concat (replicate (7 - hop) (sent_to (subs_heap st) env e0 vs d))) n' \<and> (\<forall>d\<in>D. n' d = n d - (7 - hop) * ?w d)"
      using undisturbed_locked(1) [OF one(2)] one(4) by blast
  qed
qed

text \<open>
  C13. A loop of subscriptions does not hang the sequencer. A through port forwards what it receives to the subscribers
  of a port: of its partner in duplex mode, its own otherwise. When the through port is itself among these, between others that
  are user clients, a well-formed event sent to them with hop count \<open>hop\<close> goes around until the eighth hop, and the dispatch comes back with \<^verbatim>\<open>-EMLINK\<close>: the subscribers before and those behind the loop in
  the list each get \<open>7 - hop\<close> copies, the former on the way down and the latter on the way back, and nothing
  else changes, with every client and port released. The event is not a bounced error (type 150), which a through port swallows, and the client of
  the through port filters no events; no port or subscription involved asks for a time stamp, data of variable length is in kernel memory, and the input
  queues have room for the copies.
\<close>

theorem feedback_stops:
  assumes "feeds_back st c k j p q us s vs" "sendable e" "snd (ev_source e) = j" "fst (ev_dest e) = ADDRESS_SUBSCRIBERS" "kernel_data e"
    and "inboxes st D A cs n" "\<And>x. x \<in> set (us @ vs) \<Longrightarrow> serves st D x" "e' = e\<lparr>ev_queue := QUEUE_DIRECT, ev_source := (of_nat c, j)\<rparr>"
    and "\<And>d. d \<in> D \<Longrightarrow> (7 - hop) * (length (sent_to (subs_heap st) env e' (us @ vs) d) * (1 + extra_cells e)) \<le> n d \<and> extra_cells e < card (A d)"
  shows "\<exists>st' n'. snd_seq_kernel_client_dispatch drivers env (int c) e atomic hop st = Some (- EMLINK, st') \<and> undisturbed st st' D A \<and>
    inboxes st' D A (\<lambda>d. cs d @ concat (replicate (7 - hop) (sent_to (subs_heap st) env e' us d)) @
      concat (replicate (7 - hop) (sent_to (subs_heap st) env e' vs d))) n'"
proof -
  let ?e0 = "e\<lparr>ev_queue := QUEUE_DIRECT, ev_source := (of_nat c, j), ev_dest := (0, 0)\<rparr>"
  have e0: "sent_to h env e' ss d = sent_to h env ?e0 ss d" "extra_cells ?e0 = extra_cells e" for h ss d
    unfolding assms(8) by simp_all
  have "sendable ?e0" "kernel_data ?e0" using assms(2,5) by simp_all
  note rounds = feedback_rounds [OF this, of drivers env hop atomic D A c k j p q us s vs]
  have room: "\<forall>d\<in>D. (7 - hop) * ((length (sent_to (subs_heap st) env ?e0 us d) + length (sent_to (subs_heap st) env ?e0 vs d)) * (1 + extra_cells ?e0))
      \<le> n d \<and> extra_cells ?e0 < card (A d)"
    using assms(9) unfolding e0 by (simp add: sent_to_def)
  have serves: "\<forall>x\<in>set us \<union> set vs. serves st D x" using assms(7) by simp
  show ?thesis using rounds [unfolded goes_round_def, THEN spec, THEN spec, THEN spec, THEN spec, THEN mp, OF assms(1), THEN mp, OF refl,
      THEN mp, OF assms(3), THEN mp, OF assms(4), THEN mp, OF assms(6), THEN mp, OF serves, THEN mp, OF room]
    unfolding e0 by blast
qed

text \<open>Port 0 of client 128 is a through port that is connected to port 0 of client 129 and to itself.\<close>

definition looped_system :: seq_system where
  "looped_system = connected_system\<lparr>
     clients := (clients connected_system)(128 := (clients connected_system 128)\<lparr>cl_type := KERNEL_CLIENT\<rparr>),
     port_heap := (port_heap connected_system)(10 := (port_heap connected_system 10)\<lparr>
       c_src := sample_group [1, 2], port_input := Dummy_input \<lparr>dp_client = 128, dp_port = 0, dp_duplex = False, dp_connect = 0\<rparr>\<rparr>),
     subs_heap := (subs_heap connected_system)(2 := \<lparr>sub_info = \<lparr>ps_sender = (128, 0), ps_dest = (128, 0), ps_voices = 0, ps_flags = 0, ps_queue = 0\<rparr>, ref_count = 2\<rparr>)\<rparr>"

theorem feedback_stops_witness:
  "\<exists>st' n'. snd_seq_kernel_client_dispatch (\<lambda>_ _ _ _ _ st. Some (0, st)) sample_env (int 128) sample_send False 3 looped_system = Some (- EMLINK, st') \<and>
    inboxes st' {129} (\<lambda>_. cell_addr 0x10000 ` {..<4})
      (\<lambda>d. [] @ concat (replicate (7 - 3) (sent_to (subs_heap looped_system) sample_env sample_send [1] d)) @
        concat (replicate (7 - 3) (sent_to (subs_heap looped_system) sample_env sample_send [] d))) n'"
proof -
  let ?drivers = "(\<lambda>_ _ _ _ _ st. Some (0, st)) :: unit drivers"
  have info: "sub_info (subs_heap looped_system 1) = \<lparr>ps_sender = (128, 0), ps_dest = (129, 0), ps_voices = 0, ps_flags = 0, ps_queue = 0\<rparr>"
    "ref_count (subs_heap looped_system 1) = 2" by (simp_all add: looped_system_def connected_system_def)
  have fb: "feeds_back looped_system 128 0 0 10 10 [1] 2 []"
    by (simp add: feeds_back_def looped_system_def connected_system_def sample_system_def sample_client_def sample_port_def
        sample_group_def port_no_def check_port_perm_def)
  have send: "sendable sample_send" "kernel_data sample_send" "extra_cells sample_send = 0" "snd (ev_source sample_send) = 0"
    "fst (ev_dest sample_send) = ADDRESS_SUBSCRIBERS" "sample_send = sample_send\<lparr>ev_queue := QUEUE_DIRECT, ev_source := (of_nat 128, 0)\<rparr>"
    by (simp_all add: sendable_def sample_send_def stamped_def check_event_type_and_length_def snd_seq_ev_is_variable_type_def
        kernel_data_def extra_cells_def ext_len_def snd_seq_ev_is_variable_def)
  have "takes looped_system (129, 0) 129 20"
    by (simp add: takes_def looped_system_def connected_system_def sample_system_def sample_client_def sample_port_def clientptr_def
        check_port_perm_def port_no_def)
  then have "serves looped_system {129} 1" unfolding serves_def info by auto
  then have s: "serves looped_system {129} x" if "x \<in> set ([1] @ [])" for x using that by simp
  have i: "inboxes looped_system {129} (\<lambda>_. cell_addr 0x10000 ` {..<4}) (\<lambda>_. []) (\<lambda>_. 4)"
    by (rule inboxes_cong [OF sample_inbox]) (simp_all add: looped_system_def connected_system_def)
  have "card (cell_addr 0x10000 ` {..<4}) = 4" using card_image [OF cell_addr_inj [of "0x10000" 4]] by simp
  then have r: "(7 - 3) * (length (sent_to (subs_heap looped_system) sample_env sample_send ([1] @ []) d) * (1 + extra_cells sample_send)) \<le> 4 \<and>
      extra_cells sample_send < card (cell_addr 0x10000 ` {..<4})" if "d \<in> {129}" for d
    using that by (simp add: send(3) sent_to_def)
  show ?thesis using feedback_stops [OF fb send(1,4,5,2) i s send(6) r, of ?drivers False] by blast
qed

section \<open>The sequencer as a whole\<close>

text \<open>
  C12. Delivering an event leaves the clients, the ports, the subscriptions and all use counts as they were; only
  input queues, counts of lost events and the controlled queues change. This holds for any callbacks of
  drivers that respect it themselves, whatever the event, its destinations and the errors on the way.
\<close>

theorem delivery_releases_all:
  assumes "steady_drivers drivers" "snd_seq_kernel_client_dispatch drivers env client e atomic hop st = Some (r, st')"
  shows "port_heap st' = port_heap st \<and> subs_heap st' = subs_heap st \<and> clienttab st' = clienttab st \<and>
    (\<forall>c. \<exists>f n. clients st' c = (clients st c)\<lparr>cl_fifo := f, event_lost := n\<rparr>) \<and>
    (\<forall>i. map_option q_use_lock (queue_list st' i) = map_option q_use_lock (queue_list st i)) \<and> (queues_ok st \<longrightarrow> queues_ok st')"
proof -
  have "steady_dispatch (dispatch_with (\<lambda>c ev atomic st. snd_seq_deliver_event drivers env c ev atomic hop st))"
    by (rule steady_dispatch_with) (rule steady_deliver [OF _ assms(1)])
  then have "steady st st'" using assms(2) unfolding steady_dispatch_def snd_seq_kernel_client_dispatch_def by blast
  then show ?thesis by (simp add: steady_def same_client_def)
qed

theorem delivery_releases_all_witness:
  "\<exists>r st'. snd_seq_kernel_client_dispatch (\<lambda>_ _ _ _ _ st. Some (0, st)) sample_env 5 sample_send False 0 connected_system = Some (r, st') \<and>
    port_heap st' = port_heap connected_system"
proof -
  let ?d = "(\<lambda>_ _ _ _ _ st. Some (0, st)) :: unit drivers"
  have "steady_drivers ?d" by (simp add: steady_drivers_def)
  moreover have "snd_seq_kernel_client_dispatch ?d sample_env 5 sample_send False 0 connected_system = Some (- EINVAL, connected_system)"
    by (simp add: snd_seq_kernel_client_dispatch_def dispatch_with_def snd_seq_client_use_ptr_def clientptr_def connected_system_def
        sample_system_def Let_def)
  ultimately show ?thesis using delivery_releases_all by blast
qed

text \<open>The queues hand their events to these functions, which keep what the queues rely on.\<close>

lemma steady_from_source:
  assumes "steady_drivers drivers" "deliver_from_source drivers env atomic hop e st = Some (r, st')"
  shows "steady st st'"
proof -
  obtain k st1 where u: "snd_seq_client_use_ptr (uint (fst (ev_source e))) st = (k, st1)" by fastforce
  show ?thesis
  proof (cases k)
    case None
    then show ?thesis using assms(2) u client_use_ptr_state(1) [OF u] by (simp add: deliver_from_source_def)
  next
    case (Some c)
    then obtain st2 where "snd_seq_deliver_event drivers env c e atomic hop st1 = Some (r, st2)" "st' = snd_seq_client_unlock c st2"
      using assms(2) u by (auto simp: deliver_from_source_def)
    then show ?thesis using steady_client steady_deliver [OF _ assms(1)] client_use_ptr_state(2) [OF u Some] by blast
  qed
qed

lemma queue_delivery_clients:
  assumes "steady_drivers drivers"
  shows "queue_delivery (deliver_from_source drivers env atomic hop)"
proof
  fix st e r st' assume "queues_ok st" "deliver_from_source drivers env atomic hop e st = Some (r, st')"
  then show "queues_ok st'" using steady_from_source [OF assms] unfolding steady_def by blast
qed

text \<open>The sequencer with its own clients: no port has the callback of a driver.\<close>

definition no_drivers :: "'m drivers" where
  "no_drivers n dispatch ev direct atomic st = Some (- ENOENT, st)"

lemma no_drivers_steady: "steady_drivers no_drivers"
  by (simp add: steady_drivers_def no_drivers_def)

interpretation own: queue_delivery client_known "deliver_from_source no_drivers env atomic hop" for env atomic hop
  by (rule queue_delivery_clients [OF no_drivers_steady])

text \<open>
  C11. The table of queues stays consistent. From a consistent table, any sequence of the calls that reach the
  queues (creating, deleting, using and leaving, tempo and control events, enqueueing, timer interrupts and
  the deliveries they cause, to user clients, to the timer port and through the through ports) leads to a table in which the
  number of queues is right, every queue knows its number, and its count of clients is the number of clients
  that use it.
\<close>

theorem queue_table_invariant:
  assumes "(queue_step client_known (deliver_from_source no_drivers env atomic hop))\<^sup>*\<^sup>* st st'" "queues_ok st"
  shows "num_queues st' = int (card {i. queue_list st' i \<noteq> None}) \<and>
    (\<forall>i q. queue_list st' i = Some q \<longrightarrow> i < MAX_QUEUES \<and> q_queue q = int i \<and> q_clients q = of_nat (card {c. q_clients_bitmap q c}))"
  using own.steps_ok [OF assms] by (auto simp: queues_ok_def queue_ok_def users_def)

lemma sample_queues_ok: "queues_ok connected_system"
proof -
  have "{i. queue_list connected_system i \<noteq> None} = {3}" by (auto simp: connected_system_def sample_system_def split: if_splits)
  moreover have "{c. q_clients_bitmap sample_queue c} = {128}" by (auto simp: sample_queue_def)
  ultimately show ?thesis
    by (auto simp: queues_ok_def queue_ok_def users_def connected_system_def sample_system_def sample_queue_def split: if_splits)
qed

lemma prioq_delete_new: "snd_seq_prioq_delete snd_seq_prioq_new m = Some m"
  unfolding snd_seq_prioq_delete_def snd_seq_prioq_new_def
  by (subst prioq_drain.simps) (simp add: snd_seq_prioq_cell_out_def)

theorem queue_table_invariant_witness:
  "\<exists>r st'. snd_seq_queue_delete 128 3 connected_system = Some (r, st') \<and> num_queues st' = int (card {i. queue_list st' i \<noteq> None})"
proof -
  obtain r st' where d: "snd_seq_queue_delete 128 3 connected_system = Some (r, st')"
    by (simp add: snd_seq_queue_delete_def queue_list_remove_def connected_system_def sample_system_def sample_queue_def queue_delete_def
        prioq_delete_new)
  have "queue_step client_known (deliver_from_source no_drivers sample_env False 0) connected_system st'" by (rule queue_step.delete [OF d])
  then show ?thesis using queue_table_invariant [OF r_into_rtranclp sample_queues_ok] d by blast
qed

end
