(* ===== verification/SeqSubscribe.thy ===== *)
theory SeqSubscribe
  imports SeqInbox
begin

text \<open>
  Connections between ports, the second half of \<^verbatim>\<open>core/seq/seq_ports.c\<close>, with the requests of
  \<^verbatim>\<open>seq_clientmgr.c\<close> that create, delete and connect ports. A connection is one object on two lists, the
  readers of its sender and the writers of its destination; the theorems say that the two lists never
  disagree, whatever fails on the way.
\<close>

section \<open>Groups\<close>

definition grp_of :: "bool \<Rightarrow> client_port \<Rightarrow> subs_group" where
  "grp_of is_src port = (if is_src then c_src port else c_dest port)"

definition set_grp :: "bool \<Rightarrow> (subs_group \<Rightarrow> subs_group) \<Rightarrow> client_port \<Rightarrow> client_port" where
  "set_grp is_src f port = (if is_src then port\<lparr>c_src := f (c_src port)\<rparr> else port\<lparr>c_dest := f (c_dest port)\<rparr>)"

definition addr_match :: "addr \<Rightarrow> addr \<Rightarrow> bool" where
  "addr_match r s \<longleftrightarrow> fst r = fst s \<and> snd r = snd s"

definition match_subs_info :: "port_subscribe \<Rightarrow> port_subscribe \<Rightarrow> bool" where
  "match_subs_info r s \<longleftrightarrow>
     (if addr_match (ps_sender r) (ps_sender s) \<and> addr_match (ps_dest r) (ps_dest s) then
        (if ps_flags r \<noteq> 0 \<and> ps_flags r = ps_flags s then ps_queue r = ps_queue s else ps_flags r = 0)
      else False)"

section \<open>Subscribing\<close>

text \<open>
  The callbacks a driver gives for the first subscription and after the last one; on a port without a driver
  they are 0. An acknowledgement goes to the port of a user client. \<^verbatim>\<open>module_put\<close> does nothing in this build.
\<close>

type_synonym 'm callbacks = "nat \<Rightarrow> port_subscribe \<Rightarrow> 'm seq_system_scheme \<Rightarrow> (int \<times> 'm seq_system_scheme) option"

record 'm subs_env =
  se_drivers :: "'m drivers"
  se_env :: delivery_env
  se_calls :: "'m callbacks"

definition send_ack :: "'m subs_env \<Rightarrow> nat \<Rightarrow> port_subscribe \<Rightarrow> u8 \<Rightarrow> 'm seq_system_scheme \<Rightarrow> 'm seq_system_scheme option" where
  "send_ack env p info evtype st =
     map_option snd (snd_seq_client_notify_subscription (se_drivers env) (se_env env)
       (uint (fst (port_addr (port_heap st p)))) (uint (snd (port_addr (port_heap st p)))) info evtype st)"

definition subscribe_port ::
  "'m subs_env \<Rightarrow> nat \<Rightarrow> nat \<Rightarrow> bool \<Rightarrow> port_subscribe \<Rightarrow> bool \<Rightarrow> 'm seq_system_scheme \<Rightarrow> (int \<times> 'm seq_system_scheme) option" where
  "subscribe_port env c p is_src info ack st =
     (let st = st\<lparr>module_uses := module_uses st + 1\<rparr>
      in if module_uses st = 0 then Some (- EFAULT, st)
         else
           let st = upd_port p (set_grp is_src (\<lambda>g. g\<lparr>grp_count := grp_count g + 1\<rparr>)) st;
               grp = grp_of is_src (port_heap st p)
           in Option.bind
                (if grp_open grp \<noteq> 0 \<and> grp_count grp = 1
                 then map_option (\<lambda>(err, st).
                        (err, if err < 0 then upd_port p (set_grp is_src (\<lambda>g. g\<lparr>grp_count := grp_count g - 1\<rparr>)) st else st))
                        (se_calls env (grp_open grp) info st)
                 else Some (0, st))
                (\<lambda>(err, st).
                   if err \<ge> 0 \<and> ack \<and> cl_type (clients st c) = USER_CLIENT
                   then map_option (Pair err) (send_ack env p info 66 st) else Some (err, st)))"

definition unsubscribe_port ::
  "'m subs_env \<Rightarrow> nat \<Rightarrow> nat \<Rightarrow> bool \<Rightarrow> port_subscribe \<Rightarrow> bool \<Rightarrow> 'm seq_system_scheme \<Rightarrow> (int \<times> 'm seq_system_scheme) option" where
  "unsubscribe_port env c p is_src info ack st =
     (if grp_count (grp_of is_src (port_heap st p)) = 0 then Some (- EINVAL, st)
      else
        let st = upd_port p (set_grp is_src (\<lambda>g. g\<lparr>grp_count := grp_count g - 1\<rparr>)) st;
            grp = grp_of is_src (port_heap st p)
        in Option.bind (if grp_close grp \<noteq> 0 \<and> grp_count grp = 0 then se_calls env (grp_close grp) info st else Some (0, st))
             (\<lambda>(err, st).
                if ack \<and> cl_type (clients st c) = USER_CLIENT
                then map_option (Pair err) (send_ack env p info 67 st) else Some (err, st)))"

definition check_and_subscribe_port ::
  "'m subs_env \<Rightarrow> nat \<Rightarrow> nat \<Rightarrow> nat \<Rightarrow> bool \<Rightarrow> bool \<Rightarrow> bool \<Rightarrow> 'm seq_system_scheme \<Rightarrow> (int \<times> 'm seq_system_scheme) option" where
  "check_and_subscribe_port env c p s is_src exclusive ack st =
     (let grp = grp_of is_src (port_heap st p); info = sub_info (subs_heap st s)
      in if (if exclusive then grp_list grp \<noteq> []
             else grp_exclusive grp \<or> (\<exists>x\<in>set (grp_list grp). match_subs_info info (sub_info (subs_heap st x))))
         then Some (- EBUSY, st)
         else
           Option.bind (subscribe_port env c p is_src info ack st) (\<lambda>(err, st).
             if err < 0 then Some (err, upd_port p (set_grp is_src (\<lambda>g. g\<lparr>grp_exclusive := False\<rparr>)) st)
             else
               Some (0, upd_subs s (\<lambda>s. s\<lparr>ref_count := ref_count s + 1\<rparr>)
                 (upd_port p (set_grp is_src (\<lambda>g. g\<lparr>grp_list := grp_list g @ [s], grp_exclusive := exclusive\<rparr>)) st))))"

definition delete_and_unsubscribe_port ::
  "'m subs_env \<Rightarrow> nat \<Rightarrow> nat \<Rightarrow> nat \<Rightarrow> bool \<Rightarrow> bool \<Rightarrow> 'm seq_system_scheme \<Rightarrow> 'm seq_system_scheme option" where
  "delete_and_unsubscribe_port env c p s is_src ack st =
     (let empty = s \<notin> set (grp_list (grp_of is_src (port_heap st p)));
          st = upd_port p (set_grp is_src (\<lambda>g. g\<lparr>grp_list := remove1 s (grp_list g), grp_exclusive := False\<rparr>)) st
      in if empty then Some st
         else map_option snd (unsubscribe_port env c p is_src (sub_info (subs_heap st s)) ack st))"

section \<open>Connecting\<close>

text \<open>\<open>sid\<close> names the memory of the new subscription, \<open>None\<close> when there is none.\<close>

definition snd_seq_port_connect ::
  "'m subs_env \<Rightarrow> nat \<Rightarrow> nat \<Rightarrow> nat \<Rightarrow> nat \<Rightarrow> nat \<Rightarrow> port_subscribe \<Rightarrow> nat option \<Rightarrow> 'm seq_system_scheme \<Rightarrow>
   (int \<times> 'm seq_system_scheme) option" where
  "snd_seq_port_connect env connector src_client src_port dest_client dest_port info sid st =
     (case sid of
        None \<Rightarrow> Some (- ENOMEM, st)
      | Some s \<Rightarrow>
          let st = upd_subs s (\<lambda>_. \<lparr>sub_info = info, ref_count = 0\<rparr>) st;
              exclusive = (ps_flags info AND 1 \<noteq> 0);
              src_ack = (cl_number (clients st connector) \<noteq> cl_number (clients st src_client));
              dest_ack = (cl_number (clients st connector) \<noteq> cl_number (clients st dest_client))
          in Option.bind (check_and_subscribe_port env src_client src_port s True exclusive src_ack st) (\<lambda>(err, st).
               if err < 0 then Some (err, st)
               else
                 Option.bind (check_and_subscribe_port env dest_client dest_port s False exclusive dest_ack st) (\<lambda>(err, st).
                   if err < 0
                   then map_option (Pair err) (delete_and_unsubscribe_port env src_client src_port s True src_ack st)
                   else Some (0, st))))"

definition snd_seq_port_disconnect ::
  "'m subs_env \<Rightarrow> nat \<Rightarrow> nat \<Rightarrow> nat \<Rightarrow> nat \<Rightarrow> nat \<Rightarrow> port_subscribe \<Rightarrow> 'm seq_system_scheme \<Rightarrow> (int \<times> 'm seq_system_scheme) option" where
  "snd_seq_port_disconnect env connector src_client src_port dest_client dest_port info st =
     (case find (\<lambda>s. match_subs_info info (sub_info (subs_heap st s))) (grp_list (c_dest (port_heap st dest_port))) of
        None \<Rightarrow> Some (- ENOENT, st)
      | Some s \<Rightarrow>
          Option.bind (delete_and_unsubscribe_port env dest_client dest_port s False
              (cl_number (clients st connector) \<noteq> cl_number (clients st dest_client)) st) (\<lambda>st.
            map_option (Pair 0) (delete_and_unsubscribe_port env src_client src_port s True
              (cl_number (clients st connector) \<noteq> cl_number (clients st src_client)) st)))"

definition snd_seq_port_get_subscription ::
  "subs_group \<Rightarrow> addr \<Rightarrow> 'm seq_system_scheme \<Rightarrow> int + port_subscribe" where
  "snd_seq_port_get_subscription src_grp dest_addr st =
     (case find (\<lambda>s. addr_match dest_addr (ps_dest (sub_info (subs_heap st s)))) (grp_list src_grp) of
        None \<Rightarrow> Inl (- ENOENT)
      | Some s \<Rightarrow> Inr (sub_info (subs_heap st s)))"

section \<open>Deleting a port\<close>

definition get_client_port :: "addr \<Rightarrow> 'm seq_system_scheme \<Rightarrow> (nat \<times> nat) option \<times> 'm seq_system_scheme" where
  "get_client_port a st =
     (case snd_seq_client_use_ptr (uint (fst a)) st of
        (None, st) \<Rightarrow> (None, st)
      | (Some c, st) \<Rightarrow>
          case snd_seq_port_use_ptr (Some c) (uint (snd a)) st of
            (None, st) \<Rightarrow> (None, snd_seq_client_unlock c st)
          | (Some p, st) \<Rightarrow> (Some (c, p), st))"

fun clear_subscribers ::
  "'m subs_env \<Rightarrow> nat \<Rightarrow> nat \<Rightarrow> bool \<Rightarrow> nat list \<Rightarrow> 'm seq_system_scheme \<Rightarrow> 'm seq_system_scheme option" where
  "clear_subscribers env c p is_src [] st = Some st"
| "clear_subscribers env c p is_src (s # ss) st =
     (let info = sub_info (subs_heap st s);
          (other, st) = get_client_port (if is_src then ps_dest info else ps_sender info) st
      in Option.bind (delete_and_unsubscribe_port env c p s is_src False st) (\<lambda>st.
           case other of
             None \<Rightarrow> clear_subscribers env c p is_src ss (upd_subs s (\<lambda>s. s\<lparr>ref_count := ref_count s - 1\<rparr>) st)
           | Some (c', p') \<Rightarrow>
               Option.bind (delete_and_unsubscribe_port env c' p' s (\<not> is_src) True st) (\<lambda>st.
                 clear_subscribers env c p is_src ss (snd_seq_client_unlock c' (snd_seq_port_unlock p' st)))))"

definition clear_subscriber_list ::
  "'m subs_env \<Rightarrow> nat \<Rightarrow> nat \<Rightarrow> bool \<Rightarrow> 'm seq_system_scheme \<Rightarrow> 'm seq_system_scheme option" where
  "clear_subscriber_list env c p is_src st = clear_subscribers env c p is_src (grp_list (grp_of is_src (port_heap st p))) st"

text \<open>The port is out of the list of its client; a use that never ends keeps the caller waiting.\<close>

definition port_delete :: "'m subs_env \<Rightarrow> ('m seq_system_scheme \<Rightarrow> 'm seq_system_scheme) \<Rightarrow> nat \<Rightarrow> nat \<Rightarrow> 'm seq_system_scheme \<Rightarrow> 'm seq_system_scheme option" where
  "port_delete env private_free c p st =
     (let st = upd_port p (\<lambda>p. p\<lparr>port_closing := True\<rparr>) st
      in if port_use_lock (port_heap st p) > 0 then None
         else
           Option.bind (clear_subscriber_list env c p True st) (\<lambda>st.
             map_option (\<lambda>st. if port_free_fn (port_heap st p) \<noteq> 0 then private_free st else st)
               (clear_subscriber_list env c p False st)))"

definition snd_seq_delete_port ::
  "'m subs_env \<Rightarrow> (nat \<Rightarrow> 'm seq_system_scheme \<Rightarrow> 'm seq_system_scheme) \<Rightarrow> nat \<Rightarrow> int \<Rightarrow> 'm seq_system_scheme \<Rightarrow>
   (int \<times> 'm seq_system_scheme) option" where
  "snd_seq_delete_port env frees c port st =
     (case find (\<lambda>p. port_no (port_heap st) p = port) (ports_list (clients st c)) of
        None \<Rightarrow> Some (- ENOENT, st)
      | Some p \<Rightarrow>
          map_option (Pair 0) (port_delete env (frees (port_free_fn (port_heap st p))) c p
            (upd_client c (\<lambda>c. c\<lparr>ports_list := remove1 p (ports_list c), num_ports := num_ports c - 1\<rparr>) st)))"

fun delete_ports ::
  "'m subs_env \<Rightarrow> (nat \<Rightarrow> 'm seq_system_scheme \<Rightarrow> 'm seq_system_scheme) \<Rightarrow> nat \<Rightarrow> nat list \<Rightarrow> 'm seq_system_scheme \<Rightarrow> 'm seq_system_scheme option" where
  "delete_ports env frees c [] st = Some st"
| "delete_ports env frees c (p # ps) st =
     Option.bind (snd_seq_system_broadcast (se_drivers env) (se_env env)
         (uint (fst (port_addr (port_heap st p)))) (uint (snd (port_addr (port_heap st p)))) 64 st) (\<lambda>st.
       Option.bind (port_delete env (frees (port_free_fn (port_heap st p))) c p st) (delete_ports env frees c ps))"

definition snd_seq_delete_all_ports ::
  "'m subs_env \<Rightarrow> (nat \<Rightarrow> 'm seq_system_scheme \<Rightarrow> 'm seq_system_scheme) \<Rightarrow> nat \<Rightarrow> 'm seq_system_scheme \<Rightarrow> 'm seq_system_scheme option" where
  "snd_seq_delete_all_ports env frees c st =
     delete_ports env frees c (ports_list (clients st c)) (upd_client c (\<lambda>c. c\<lparr>ports_list := [], num_ports := 0\<rparr>) st)"

section \<open>Requests of clients\<close>

record port_callback =
  pc_input :: event_input
  pc_free :: nat
  pc_subscribe :: nat
  pc_unsubscribe :: nat
  pc_use :: nat
  pc_unuse :: nat

text \<open>\<open>pcb\<close> is the pointer \<^verbatim>\<open>kernel\<close> of the port information; the result holds the new address.\<close>

definition snd_seq_ioctl_create_port ::
  "'m subs_env \<Rightarrow> (nat \<Rightarrow> 'm seq_system_scheme \<Rightarrow> 'm seq_system_scheme) \<Rightarrow> nat \<Rightarrow> port_info \<Rightarrow> port_callback option \<Rightarrow> nat option \<Rightarrow>
   'm seq_system_scheme \<Rightarrow> (int \<times> port_info \<times> 'm seq_system_scheme) option" where
  "snd_seq_ioctl_create_port env frees c info pcb pid st =
     (if uint (fst (pi_addr info)) \<noteq> cl_number (clients st c) then Some (- EPERM, info, st)
      else
        case snd_seq_create_port c (if pi_flags info AND 1 \<noteq> 0 then uint (snd (pi_addr info)) else - 1) pid st of
          (None, st) \<Rightarrow> Some (- ENOMEM, info, st)
        | (Some p, st) \<Rightarrow>
            if cl_type (clients st c) = USER_CLIENT \<and> pcb \<noteq> None
            then map_option (\<lambda>(_, st). (- EINVAL, info, st))
                   (snd_seq_delete_port env frees c (port_no (port_heap st) p) (snd_seq_port_unlock p st))
            else
              let st = (case pcb of
                          None \<Rightarrow> st
                        | Some cb \<Rightarrow>
                            if cl_type (clients st c) = KERNEL_CLIENT
                            then upd_port p (\<lambda>p. p\<lparr>port_free_fn := pc_free cb, port_input := pc_input cb,
                                   c_src := (c_src p)\<lparr>grp_open := pc_subscribe cb, grp_close := pc_unsubscribe cb\<rparr>,
                                   c_dest := (c_dest p)\<lparr>grp_open := pc_use cb, grp_close := pc_unuse cb\<rparr>\<rparr>) st
                            else st);
                  info = info\<lparr>pi_addr := port_addr (port_heap st p)\<rparr>;
                  st = snd_seq_set_port_info p info st
              in map_option (\<lambda>st. (0, info, snd_seq_port_unlock p st))
                   (snd_seq_system_broadcast (se_drivers env) (se_env env)
                      (uint (fst (port_addr (port_heap st p)))) (uint (snd (port_addr (port_heap st p)))) 63 st))"

definition snd_seq_ioctl_delete_port ::
  "'m subs_env \<Rightarrow> (nat \<Rightarrow> 'm seq_system_scheme \<Rightarrow> 'm seq_system_scheme) \<Rightarrow> nat \<Rightarrow> addr \<Rightarrow> 'm seq_system_scheme \<Rightarrow>
   (int \<times> 'm seq_system_scheme) option" where
  "snd_seq_ioctl_delete_port env frees c a st =
     (if uint (fst a) \<noteq> cl_number (clients st c) then Some (- EPERM, st)
      else
        Option.bind (snd_seq_delete_port env frees c (uint (snd a)) st) (\<lambda>(err, st).
          if err \<ge> 0
          then map_option (Pair err) (snd_seq_system_broadcast (se_drivers env) (se_env env) (cl_number (clients st c)) (uint (snd a)) 64 st)
          else Some (err, st)))"

definition snd_seq_ioctl_get_port_info :: "port_info \<Rightarrow> 'm seq_system_scheme \<Rightarrow> int \<times> port_info \<times> 'm seq_system_scheme" where
  "snd_seq_ioctl_get_port_info info st =
     (case snd_seq_client_use_ptr (uint (fst (pi_addr info))) st of
        (None, st) \<Rightarrow> (- ENXIO, info, st)
      | (Some c, st) \<Rightarrow>
          case snd_seq_port_use_ptr (Some c) (uint (snd (pi_addr info))) st of
            (None, st) \<Rightarrow> (- ENOENT, info, snd_seq_client_unlock c st)
          | (Some p, st) \<Rightarrow> (0, snd_seq_get_port_info p info st, snd_seq_client_unlock c (snd_seq_port_unlock p st)))"

definition snd_seq_ioctl_set_port_info :: "nat \<Rightarrow> port_info \<Rightarrow> 'm seq_system_scheme \<Rightarrow> int \<times> 'm seq_system_scheme" where
  "snd_seq_ioctl_set_port_info c info st =
     (if uint (fst (pi_addr info)) \<noteq> cl_number (clients st c) then (- EPERM, st)
      else
        case snd_seq_port_use_ptr (Some c) (uint (snd (pi_addr info))) st of
          (None, st) \<Rightarrow> (0, st)
        | (Some p, st) \<Rightarrow> (0, snd_seq_port_unlock p (snd_seq_set_port_info p info st)))"

definition check_subscription_permission :: "seq_client \<Rightarrow> client_port \<Rightarrow> client_port \<Rightarrow> port_subscribe \<Rightarrow> int" where
  "check_subscription_permission client sport dport subs =
     (let num = cl_number client; sender = uint (fst (ps_sender subs)); dest = uint (fst (ps_dest subs))
      in if num \<noteq> sender \<and> num \<noteq> dest \<and> (check_port_perm sport 0x80 \<or> check_port_perm dport 0x80) then - EPERM
         else if num \<noteq> sender \<and> \<not> check_port_perm sport 0x21 then - EPERM
         else if num \<noteq> dest \<and> \<not> check_port_perm dport 0x42 then - EPERM
         else 0)"

text \<open>The frame of both requests: the two clients and ports in use, the permission, the work and its announcement.\<close>

definition with_ports ::
  "'m subs_env \<Rightarrow> nat \<Rightarrow> port_subscribe \<Rightarrow> int \<Rightarrow> u8 \<Rightarrow>
   (nat \<Rightarrow> nat \<Rightarrow> nat \<Rightarrow> nat \<Rightarrow> 'm seq_system_scheme \<Rightarrow> (int \<times> 'm seq_system_scheme) option) \<Rightarrow>
   'm seq_system_scheme \<Rightarrow> (int \<times> 'm seq_system_scheme) option" where
  "with_ports env client subs missing evtype work st =
     (case snd_seq_client_use_ptr (uint (fst (ps_dest subs))) st of
        (None, st) \<Rightarrow> Some (missing, st)
      | (Some receiver, st) \<Rightarrow>
          map_option (\<lambda>(r, st). (r, snd_seq_client_unlock receiver st))
            (case snd_seq_client_use_ptr (uint (fst (ps_sender subs))) st of
               (None, st) \<Rightarrow> Some (missing, st)
             | (Some sender, st) \<Rightarrow>
                 map_option (\<lambda>(r, st). (r, snd_seq_client_unlock sender st))
                   (case snd_seq_port_use_ptr (Some sender) (uint (snd (ps_sender subs))) st of
                      (None, st) \<Rightarrow> Some (missing, st)
                    | (Some sport, st) \<Rightarrow>
                        case snd_seq_port_use_ptr (Some receiver) (uint (snd (ps_dest subs))) st of
                          (None, st) \<Rightarrow> Some (missing, snd_seq_port_unlock sport st)
                        | (Some dport, st) \<Rightarrow>
                            let result = check_subscription_permission (clients st client) (port_heap st sport) (port_heap st dport) subs
                            in map_option (\<lambda>(r, st). (r, snd_seq_port_unlock dport (snd_seq_port_unlock sport st)))
                                 (if result < 0 then Some (result, st)
                                  else
                                    Option.bind (work sender sport receiver dport st) (\<lambda>(result, st).
                                      if result = 0
                                      then map_option (\<lambda>(_, st). (result, st))
                                             (snd_seq_client_notify_subscription (se_drivers env) (se_env env)
                                                (uint ADDRESS_SUBSCRIBERS) 0 subs evtype st)
                                      else Some (result, st))))))"

definition snd_seq_ioctl_subscribe_port ::
  "'m subs_env \<Rightarrow> nat \<Rightarrow> port_subscribe \<Rightarrow> nat option \<Rightarrow> 'm seq_system_scheme \<Rightarrow> (int \<times> 'm seq_system_scheme) option" where
  "snd_seq_ioctl_subscribe_port env client subs sid =
     with_ports env client subs (- EINVAL) 66
       (\<lambda>sender sport receiver dport. snd_seq_port_connect env client sender sport receiver dport subs sid)"

definition snd_seq_ioctl_unsubscribe_port ::
  "'m subs_env \<Rightarrow> nat \<Rightarrow> port_subscribe \<Rightarrow> 'm seq_system_scheme \<Rightarrow> (int \<times> 'm seq_system_scheme) option" where
  "snd_seq_ioctl_unsubscribe_port env client subs =
     with_ports env client subs (- ENXIO) 67
       (\<lambda>sender sport receiver dport. snd_seq_port_disconnect env client sender sport receiver dport subs)"

section \<open>The effect of each step\<close>

definition steady_calls :: "'m callbacks \<Rightarrow> bool" where
  "steady_calls calls \<longleftrightarrow> (\<forall>n info st r st'. calls n info st = Some (r, st') \<longrightarrow> steady st st')"

text \<open>The drivers leave the tables of the sequencer alone.\<close>

definition env_ok :: "'m subs_env \<Rightarrow> bool" where
  "env_ok env \<longleftrightarrow> steady_drivers (se_drivers env) \<and> steady_calls (se_calls env)"

definition aside :: "'m seq_system_scheme \<Rightarrow> 'm seq_system_scheme \<Rightarrow> bool" where
  "aside st st' \<longleftrightarrow> (\<forall>c. same_client (clients st c) (clients st' c)) \<and> clienttab st' = clienttab st"

lemma aside_refl [simp]: "aside st st"
  by (simp add: aside_def)

lemma aside_trans [trans]: "aside a b \<Longrightarrow> aside b c \<Longrightarrow> aside a c"
  unfolding aside_def by (metis same_client_trans)

lemma upd_subs_simps [simp]:
  "subs_heap (upd_subs s f st) k = (if k = s then f (subs_heap st s) else subs_heap st k)"
  "port_heap (upd_subs s f st) = port_heap st" "clients (upd_subs s f st) = clients st" "clienttab (upd_subs s f st) = clienttab st"
  by (simp_all add: upd_subs_def)

lemma aside_upd [simp]: "aside st (upd_port p f st')= aside st st'" "aside st (upd_subs s g st') = aside st st'"
  "aside (upd_port p f st) st' = aside st st'" "aside (upd_subs s g st) st' = aside st st'"
  "aside (st\<lparr>module_uses := n\<rparr>) st' = aside st st'" "aside st (st'\<lparr>module_uses := n\<rparr>) = aside st st'"
  by (simp_all add: aside_def)

lemma steady_aside: "steady st st' \<Longrightarrow> aside st st' \<and> port_heap st' = port_heap st \<and> subs_heap st' = subs_heap st"
  by (simp add: steady_def aside_def)

lemma send_ack_steady:
  assumes "env_ok env" "send_ack env p info t st = Some st'"
  shows "steady st st'"
proof -
  have "steady_dispatch (dispatch_with (\<lambda>c ev atomic st. snd_seq_deliver_event (se_drivers env) (se_env env) c ev atomic 0 st))"
    by (rule steady_dispatch_with) (rule steady_deliver, assumption, use assms(1) in \<open>simp add: env_ok_def\<close>)
  then show ?thesis using assms(2)
    by (auto simp: send_ack_def snd_seq_client_notify_subscription_def snd_seq_system_notify_def snd_seq_kernel_client_dispatch_def steady_dispatch_def)
qed

lemma grp_simps [simp]:
  "grp_of b (set_grp b f port) = f (grp_of b port)" "grp_of (\<not> b) (set_grp b f port) = grp_of (\<not> b) port"
  "grp_of b (set_grp (\<not> b) f port) = grp_of b port" "set_grp b f (set_grp b g port) = set_grp b (\<lambda>x. f (g x)) port"
  "port_addr (set_grp b f port) = port_addr port" "port_closing (set_grp b f port) = port_closing port"
  by (auto simp: grp_of_def set_grp_def)

lemma set_grp_id: "f (grp_of b port) = grp_of b port \<Longrightarrow> set_grp b f port = port"
  by (auto simp: grp_of_def set_grp_def)

lemma upd_port_heap: "port_heap (upd_port p f st) = (port_heap st)(p := f (port_heap st p))"
  by (simp add: fun_eq_iff)

lemma upd_subs_heap: "subs_heap (upd_subs s f st) = (subs_heap st)(s := f (subs_heap st s))"
  by (simp add: fun_eq_iff)

lemma subscribe_port_effect:
  assumes "env_ok env" "subscribe_port env c p b info ack st = Some (err, st')"
  shows "aside st st' \<and> subs_heap st' = subs_heap st \<and>
    port_heap st' = (if err < 0 then port_heap st else (port_heap st)(p := set_grp b (\<lambda>g. g\<lparr>grp_count := grp_count g + 1\<rparr>) (port_heap st p)))"
proof -
  let ?st0 = "st\<lparr>module_uses := module_uses st + 1\<rparr>"
  let ?st1 = "upd_port p (set_grp b (\<lambda>g. g\<lparr>grp_count := grp_count g + 1\<rparr>)) ?st0"
  let ?g = "grp_of b (port_heap ?st1 p)"
  let ?open = "if grp_open ?g \<noteq> 0 \<and> grp_count ?g = 1
    then map_option (\<lambda>(err, st). (err, if err < 0 then upd_port p (set_grp b (\<lambda>g. g\<lparr>grp_count := grp_count g - 1\<rparr>)) st else st)) (se_calls env (grp_open ?g) info ?st1)
    else Some (0, ?st1)"
  show ?thesis
  proof (cases "module_uses ?st0 = 0")
    case True
    then show ?thesis using assms(2) by (auto simp: subscribe_port_def Let_def)
  next
    case False
    then obtain e st2 where o: "?open = Some (e, st2)"
      "(if e \<ge> 0 \<and> ack \<and> cl_type (clients st2 c) = USER_CLIENT then map_option (Pair e) (send_ack env p info 66 st2) else Some (e, st2)) = Some (err, st')"
      using assms(2) unfolding subscribe_port_def Let_def if_not_P [OF False] by (auto split: bind_splits)
    have s2: "aside st st2 \<and> subs_heap st2 = subs_heap st \<and>
        port_heap st2 = (if e < 0 then port_heap st else (port_heap st)(p := set_grp b (\<lambda>g. g\<lparr>grp_count := grp_count g + 1\<rparr>) (port_heap st p)))"
    proof (cases "grp_open ?g \<noteq> 0 \<and> grp_count ?g = 1")
      case True
      then obtain st3 where c: "se_calls env (grp_open ?g) info ?st1 = Some (e, st3)"
        "st2 = (if e < 0 then upd_port p (set_grp b (\<lambda>g. g\<lparr>grp_count := grp_count g - 1\<rparr>)) st3 else st3)"
        using o(1) by auto
      have "steady ?st1 st3" using c(1) assms(1) by (auto simp: env_ok_def steady_calls_def)
      then have "aside ?st1 st3" "port_heap st3 = port_heap ?st1" "subs_heap st3 = subs_heap ?st1" using steady_aside by blast+
      then show ?thesis unfolding c(2) by (auto simp: upd_port_heap set_grp_id fun_eq_iff)
    next
      case False
      then have "e = 0" "st2 = ?st1" using o(1) by auto
      then show ?thesis by (simp add: upd_port_heap)
    qed
    have "err = e" "steady st2 st'" using o(2) send_ack_steady [OF assms(1)] by (auto split: if_splits)
    then show ?thesis using s2 steady_aside [of st2 st'] aside_trans [of st st2 st'] by simp
  qed
qed

lemma unsubscribe_port_effect:
  assumes "env_ok env" "unsubscribe_port env c p b info ack st = Some (err, st')"
  shows "aside st st' \<and> subs_heap st' = subs_heap st \<and>
    port_heap st' = (if grp_count (grp_of b (port_heap st p)) = 0 then port_heap st
      else (port_heap st)(p := set_grp b (\<lambda>g. g\<lparr>grp_count := grp_count g - 1\<rparr>) (port_heap st p)))"
proof (cases "grp_count (grp_of b (port_heap st p)) = 0")
  case True
  then show ?thesis using assms(2) by (auto simp: unsubscribe_port_def)
next
  case False
  let ?st1 = "upd_port p (set_grp b (\<lambda>g. g\<lparr>grp_count := grp_count g - 1\<rparr>)) st"
  let ?g = "grp_of b (port_heap ?st1 p)"
  obtain e st2 where o: "(if grp_close ?g \<noteq> 0 \<and> grp_count ?g = 0 then se_calls env (grp_close ?g) info ?st1 else Some (0, ?st1)) = Some (e, st2)"
    "(if ack \<and> cl_type (clients st2 c) = USER_CLIENT then map_option (Pair e) (send_ack env p info 67 st2) else Some (e, st2)) = Some (err, st')"
    using assms(2) unfolding unsubscribe_port_def Let_def if_not_P [OF False] by (auto split: bind_splits)
  have "steady ?st1 st2" using o(1) assms(1) by (auto simp: env_ok_def steady_calls_def split: if_splits)
  also have "steady st2 st'" using o(2) send_ack_steady [OF assms(1)] by (auto split: if_splits)
  finally show ?thesis using False steady_aside [of ?st1 st'] by (simp add: upd_port_heap)
qed

lemma check_and_subscribe_effect:
  assumes "env_ok env" "check_and_subscribe_port env c p s b exclusive ack st = Some (err, st')"
  shows "aside st st'"
    "err < 0 \<Longrightarrow> subs_heap st' = subs_heap st \<and>
      (port_heap st' = port_heap st \<or> port_heap st' = (port_heap st)(p := set_grp b (\<lambda>g. g\<lparr>grp_exclusive := False\<rparr>) (port_heap st p)) \<and>
        (if exclusive then grp_list (grp_of b (port_heap st p)) = [] else \<not> grp_exclusive (grp_of b (port_heap st p))))"
    "\<not> err < 0 \<Longrightarrow> err = 0 \<and> subs_heap st' = (subs_heap st)(s := (subs_heap st s)\<lparr>ref_count := ref_count (subs_heap st s) + 1\<rparr>) \<and>
      port_heap st' = (port_heap st)(p := set_grp b (\<lambda>g. g\<lparr>grp_count := grp_count g + 1, grp_list := grp_list g @ [s], grp_exclusive := exclusive\<rparr>) (port_heap st p)) \<and>
      (if exclusive then grp_list (grp_of b (port_heap st p)) = []
       else \<not> grp_exclusive (grp_of b (port_heap st p)) \<and>
         (\<forall>x\<in>set (grp_list (grp_of b (port_heap st p))). \<not> match_subs_info (sub_info (subs_heap st s)) (sub_info (subs_heap st x))))"
proof -
  let ?g = "grp_of b (port_heap st p)" and ?i = "sub_info (subs_heap st s)"
  let ?busy = "if exclusive then grp_list ?g \<noteq> [] else grp_exclusive ?g \<or> (\<exists>x\<in>set (grp_list ?g). match_subs_info ?i (sub_info (subs_heap st x)))"
  have "aside st st' \<and> (if err < 0 then subs_heap st' = subs_heap st \<and>
      (port_heap st' = port_heap st \<or> port_heap st' = (port_heap st)(p := set_grp b (\<lambda>g. g\<lparr>grp_exclusive := False\<rparr>) (port_heap st p)) \<and> \<not> ?busy)
    else err = 0 \<and> subs_heap st' = (subs_heap st)(s := (subs_heap st s)\<lparr>ref_count := ref_count (subs_heap st s) + 1\<rparr>) \<and>
      port_heap st' = (port_heap st)(p := set_grp b (\<lambda>g. g\<lparr>grp_count := grp_count g + 1, grp_list := grp_list g @ [s], grp_exclusive := exclusive\<rparr>) (port_heap st p)) \<and> \<not> ?busy)"
  proof (cases ?busy)
    case True
    then show ?thesis using assms(2) by (simp add: check_and_subscribe_port_def Let_def split: if_splits)
  next
    case False
    obtain e st1 where u: "subscribe_port env c p b ?i ack st = Some (e, st1)"
      "(if e < 0 then Some (e, upd_port p (set_grp b (\<lambda>g. g\<lparr>grp_exclusive := False\<rparr>)) st1)
        else Some (0, upd_subs s (\<lambda>s. s\<lparr>ref_count := ref_count s + 1\<rparr>)
          (upd_port p (set_grp b (\<lambda>g. g\<lparr>grp_list := grp_list g @ [s], grp_exclusive := exclusive\<rparr>)) st1))) = Some (err, st')"
      using assms(2) unfolding check_and_subscribe_port_def Let_def if_not_P [OF False] by (auto split: bind_splits)
    note e = subscribe_port_effect [OF assms(1) u(1)]
    show ?thesis
    proof (cases "e < 0")
      case True
      then show ?thesis using u(2) e False by (auto simp: upd_port_heap)
    next
      case ok: False
      then have "err = 0" "st' = upd_subs s (\<lambda>s. s\<lparr>ref_count := ref_count s + 1\<rparr>)
          (upd_port p (set_grp b (\<lambda>g. g\<lparr>grp_list := grp_list g @ [s], grp_exclusive := exclusive\<rparr>)) st1)" using u(2) by auto
      then show ?thesis using e ok False by (simp add: upd_port_heap upd_subs_heap)
    qed
  qed
  then show "aside st st'"
    "err < 0 \<Longrightarrow> subs_heap st' = subs_heap st \<and>
      (port_heap st' = port_heap st \<or> port_heap st' = (port_heap st)(p := set_grp b (\<lambda>g. g\<lparr>grp_exclusive := False\<rparr>) (port_heap st p)) \<and>
        (if exclusive then grp_list ?g = [] else \<not> grp_exclusive ?g))"
    "\<not> err < 0 \<Longrightarrow> err = 0 \<and> subs_heap st' = (subs_heap st)(s := (subs_heap st s)\<lparr>ref_count := ref_count (subs_heap st s) + 1\<rparr>) \<and>
      port_heap st' = (port_heap st)(p := set_grp b (\<lambda>g. g\<lparr>grp_count := grp_count g + 1, grp_list := grp_list g @ [s], grp_exclusive := exclusive\<rparr>) (port_heap st p)) \<and>
      (if exclusive then grp_list ?g = []
       else \<not> grp_exclusive ?g \<and> (\<forall>x\<in>set (grp_list ?g). \<not> match_subs_info ?i (sub_info (subs_heap st x))))"
    by (auto split: if_splits)
qed

lemma delete_and_unsubscribe_effect:
  assumes "env_ok env" "delete_and_unsubscribe_port env c p s b ack st = Some st'"
  shows "aside st st' \<and> subs_heap st' = subs_heap st \<and>
    port_heap st' = (port_heap st)(p := set_grp b (\<lambda>g. g\<lparr>grp_list := remove1 s (grp_list g), grp_exclusive := False,
      grp_count := (if s \<in> set (grp_list g) \<and> grp_count g \<noteq> 0 then grp_count g - 1 else grp_count g)\<rparr>) (port_heap st p))"
proof -
  let ?st1 = "upd_port p (set_grp b (\<lambda>g. g\<lparr>grp_list := remove1 s (grp_list g), grp_exclusive := False\<rparr>)) st"
  show ?thesis
  proof (cases "s \<in> set (grp_list (grp_of b (port_heap st p)))")
    case False
    then have "st' = ?st1" using assms(2) by (simp add: delete_and_unsubscribe_port_def Let_def)
    then show ?thesis using False by (cases b) (auto simp: upd_port_heap set_grp_def grp_of_def fun_eq_iff)
  next
    case True
    then obtain e where "unsubscribe_port env c p b (sub_info (subs_heap ?st1 s)) ack ?st1 = Some (e, st')"
      using assms(2) by (auto simp: delete_and_unsubscribe_port_def Let_def)
    note e = unsubscribe_port_effect [OF assms(1) this]
    show ?thesis using e True by (cases b) (auto simp: upd_port_heap set_grp_def grp_of_def fun_eq_iff)
  qed
qed

end
