(* ===== verification/SeqGraph.thy ===== *)
theory SeqGraph
  imports SeqSubscribe
begin

text \<open>
  The graph of connections. A subscription is one object on two lists, the readers of its sender and the writers
  of its destination. \<open>subs_ok\<close> says that the two lists agree, that their counts are right and that exclusive
  access is exclusive; the requests of \<^verbatim>\<open>seq_clientmgr.c\<close> keep it, whatever fails on the way.
\<close>

section \<open>The graph of connections\<close>

definition port_at :: "'m seq_system_scheme \<Rightarrow> addr \<Rightarrow> nat option" where
  "port_at st a =
     (case clientptr (uint (fst a)) st of
        None \<Rightarrow> None
      | Some c \<Rightarrow> find_port (port_heap st) (uint (snd a)) (ports_list (clients st c)))"

definition live :: "'m seq_system_scheme \<Rightarrow> nat \<Rightarrow> bool" where
  "live st p \<longleftrightarrow> (\<exists>a. port_at st a = Some p)"

definition end_of :: "bool \<Rightarrow> port_subscribe \<Rightarrow> addr" where
  "end_of is_src info = (if is_src then ps_sender info else ps_dest info)"

text \<open>A list without duplicates, its count, and the exclusive mode, which means a single entry.\<close>

definition grp_ok :: "subs_group \<Rightarrow> bool" where
  "grp_ok g \<longleftrightarrow> distinct (grp_list g) \<and> length (grp_list g) < 2 ^ 32 \<and> grp_count g = of_nat (length (grp_list g)) \<and>
     (grp_exclusive g \<longrightarrow> length (grp_list g) = 1)"

abbreviation (input) subs_of :: "'m seq_system_scheme \<Rightarrow> bool \<Rightarrow> nat \<Rightarrow> nat list" where
  "subs_of st b p \<equiv> grp_list (grp_of b (port_heap st p))"

text \<open>
  Every subscription on a list of a port belongs there, counts two lists, and is on the opposite list of the
  port at its other end, which exists.
\<close>

definition subs_ok :: "'m seq_system_scheme \<Rightarrow> bool" where
  "subs_ok st \<longleftrightarrow> (\<forall>p b. live st p \<longrightarrow> grp_ok (grp_of b (port_heap st p)) \<and>
     (\<forall>s\<in>set (subs_of st b p). ref_count (subs_heap st s) = 2 \<and> port_at st (end_of b (sub_info (subs_heap st s))) = Some p \<and>
        (\<exists>q. port_at st (end_of (\<not> b) (sub_info (subs_heap st s))) = Some q \<and> s \<in> set (subs_of st (\<not> b) q))))"

lemma subs_okD:
  assumes "subs_ok st" "live st p"
  shows "grp_ok (grp_of b (port_heap st p))"
    "s \<in> set (subs_of st b p) \<Longrightarrow> ref_count (subs_heap st s) = 2"
    "s \<in> set (subs_of st b p) \<Longrightarrow> port_at st (end_of b (sub_info (subs_heap st s))) = Some p"
    "s \<in> set (subs_of st b p) \<Longrightarrow> \<exists>q. port_at st (end_of (\<not> b) (sub_info (subs_heap st s))) = Some q \<and> s \<in> set (subs_of st (\<not> b) q)"
  using assms unfolding subs_ok_def by blast+

lemma find_port_addr:
  "(\<And>p. port_addr (h' p) = port_addr (h p) \<and> port_closing (h' p) = port_closing (h p)) \<Longrightarrow> find_port h' n ps = find_port h n ps"
  by (induction ps) (simp_all add: port_no_def)

lemma port_at_cong:
  assumes "aside st st'" "\<And>p. port_addr (port_heap st' p) = port_addr (port_heap st p) \<and> port_closing (port_heap st' p) = port_closing (port_heap st p)"
  shows "port_at st' = port_at st"
proof
  fix a
  have "ports_list (clients st' c) = ports_list (clients st c)" for c using assms(1) same_client_simps(2) unfolding aside_def by blast
  then show "port_at st' a = port_at st a"
    using assms(1) find_port_addr [of "port_heap st'" "port_heap st", OF assms(2)] by (simp add: port_at_def clientptr_def aside_def)
qed

text \<open>A new subscription is linked at both ends.\<close>

lemma subs_ok_link:
  assumes ok: "subs_ok st" and at: "port_at st' = port_at st"
    and new: "sub_info (subs_heap st' s) = info" "ref_count (subs_heap st' s) = 2" "\<And>k. k \<noteq> s \<Longrightarrow> subs_heap st' k = subs_heap st k"
    and fresh: "\<And>p b. live st p \<Longrightarrow> s \<notin> set (subs_of st b p)"
    and ends: "\<And>b. port_at st (end_of b info) = Some (p b)"
    and grp: "\<And>q b. grp_list (grp_of b (port_heap st' q)) = (if q = p b then subs_of st b q @ [s] else subs_of st b q)"
    and gok: "\<And>q b. live st q \<Longrightarrow> grp_ok (grp_of b (port_heap st' q))"
  shows "subs_ok st'"
  unfolding subs_ok_def
proof (intro allI impI conjI ballI)
  fix q b assume "live st' q"
  then have live: "live st q" by (simp add: live_def at)
  show "grp_ok (grp_of b (port_heap st' q))" by (rule gok [OF live])
  fix x assume x: "x \<in> set (subs_of st' b q)"
  have "ref_count (subs_heap st' x) = 2 \<and> port_at st (end_of b (sub_info (subs_heap st' x))) = Some q \<and>
    (\<exists>r. port_at st (end_of (\<not> b) (sub_info (subs_heap st' x))) = Some r \<and> x \<in> set (subs_of st' (\<not> b) r))"
  proof (cases "x = s")
    case True
    then have "q = p b" using x fresh [OF live] unfolding grp by (auto split: if_splits)
    then show ?thesis using True new(1,2) ends grp by auto
  next
    case False
    then have old: "x \<in> set (subs_of st b q)" using x unfolding grp by (auto split: if_splits)
    show ?thesis using subs_okD(2-4) [OF ok live old] new(3) [OF False] unfolding grp by auto
  qed
  then show "ref_count (subs_heap st' x) = 2" "port_at st' (end_of b (sub_info (subs_heap st' x))) = Some q"
    "\<exists>r. port_at st' (end_of (\<not> b) (sub_info (subs_heap st' x))) = Some r \<and> x \<in> set (subs_of st' (\<not> b) r)"
    unfolding at by blast+
qed

text \<open>A subscription is unlinked at both ends.\<close>

lemma subs_ok_unlink:
  assumes ok: "subs_ok st" and at: "port_at st' = port_at st" and same: "subs_heap st' = subs_heap st"
    and ends: "\<And>b. port_at st (end_of b (sub_info (subs_heap st s))) = Some (p b)"
    and grp: "\<And>q b. grp_list (grp_of b (port_heap st' q)) = (if q = p b then remove1 s (subs_of st b q) else subs_of st b q)"
    and gok: "\<And>q b. live st q \<Longrightarrow> grp_ok (grp_of b (port_heap st' q))"
  shows "subs_ok st'"
  unfolding subs_ok_def
proof (intro allI impI conjI ballI)
  fix q b assume "live st' q"
  then have live: "live st q" by (simp add: live_def at)
  show "grp_ok (grp_of b (port_heap st' q))" by (rule gok [OF live])
  fix x assume x: "x \<in> set (subs_of st' b q)"
  have d: "distinct (subs_of st b q)" using subs_okD(1) [OF ok live] by (simp add: grp_ok_def)
  have old: "x \<in> set (subs_of st b q)" using x notin_set_remove1 [of x "subs_of st b q" s] unfolding grp by (cases "q = p b") auto
  have "x \<noteq> s"
  proof
    assume "x = s"
    then have "q = p b" using subs_okD(3) [OF ok live old] ends by simp
    then show False using x d \<open>x = s\<close> unfolding grp by simp
  qed
  then show "ref_count (subs_heap st' x) = 2" "port_at st' (end_of b (sub_info (subs_heap st' x))) = Some q"
    "\<exists>r. port_at st' (end_of (\<not> b) (sub_info (subs_heap st' x))) = Some r \<and> x \<in> set (subs_of st' (\<not> b) r)"
    using subs_okD(2-4) [OF ok live old] unfolding at same grp by auto
qed

definition linked_in :: "nat \<Rightarrow> bool \<Rightarrow> subs_group \<Rightarrow> subs_group" where
  "linked_in s exclusive g = g\<lparr>grp_count := grp_count g + 1, grp_list := grp_list g @ [s], grp_exclusive := exclusive\<rparr>"

definition unlinked :: "nat \<Rightarrow> subs_group \<Rightarrow> subs_group" where
  "unlinked s g = g\<lparr>grp_list := remove1 s (grp_list g), grp_exclusive := False,
     grp_count := (if s \<in> set (grp_list g) \<and> grp_count g \<noteq> 0 then grp_count g - 1 else grp_count g)\<rparr>"

lemmas check_effect = check_and_subscribe_effect [folded linked_in_def]
lemmas delete_effect = delete_and_unsubscribe_effect [folded unlinked_def]

lemma not_exclusive:
  assumes "grp_ok g" "if exclusive then grp_list g = [] else \<not> grp_exclusive g"
  shows "\<not> grp_exclusive g" "g\<lparr>grp_exclusive := False\<rparr> = g"
proof -
  show n: "\<not> grp_exclusive g" using assms by (auto simp: grp_ok_def split: if_splits)
  then show "g\<lparr>grp_exclusive := False\<rparr> = g" by (cases g) simp
qed

lemma link_unlink:
  assumes "\<not> grp_exclusive g" "s \<notin> set (grp_list g)" "grp_count g + 1 \<noteq> 0"
  shows "unlinked s (linked_in s exclusive g) = g"
  using assms by (cases g) (simp add: unlinked_def linked_in_def remove1_append)

lemma subscribe_fails:
  assumes "env_ok env" "grp_ok (grp_of b (port_heap st p))" "check_and_subscribe_port env c p s b exclusive ack st = Some (err, st')" "err < 0"
  shows "port_heap st' = port_heap st \<and> subs_heap st' = subs_heap st"
proof -
  note e = check_and_subscribe_effect(2) [OF assms(1,3,4)]
  from e consider "port_heap st' = port_heap st"
    | "port_heap st' = (port_heap st)(p := set_grp b (\<lambda>g. g\<lparr>grp_exclusive := False\<rparr>) (port_heap st p))"
      "if exclusive then grp_list (grp_of b (port_heap st p)) = [] else \<not> grp_exclusive (grp_of b (port_heap st p))" by blast
  then show ?thesis
  proof cases
    case 2
    show ?thesis using e 2(1) not_exclusive(2) [OF assms(2) 2(2)] by (simp add: set_grp_id)
  qed (use e in simp)
qed

lemma connect_effect:
  assumes env: "env_ok env" and src: "grp_ok (c_src (port_heap st sp))" and dest: "grp_ok (c_dest (port_heap st dp))"
    and fresh: "s \<notin> set (grp_list (c_src (port_heap st sp)))" and room: "grp_count (c_src (port_heap st sp)) + 1 \<noteq> 0"
    and c: "snd_seq_port_connect env cn sc sp dc dp info (Some s) st = Some (err, st')"
  defines "x \<equiv> ps_flags info AND 1 \<noteq> 0"
  shows "aside st st' \<and> (\<forall>k. k \<noteq> s \<longrightarrow> subs_heap st' k = subs_heap st k) \<and>
    (if err < 0 then port_heap st' = port_heap st
     else err = 0 \<and> subs_heap st' s = \<lparr>sub_info = info, ref_count = 2\<rparr> \<and>
       port_heap st' = ((port_heap st)(sp := set_grp True (linked_in s x) (port_heap st sp)))
         (dp := set_grp False (linked_in s x) (((port_heap st)(sp := set_grp True (linked_in s x) (port_heap st sp))) dp)) \<and>
       (\<forall>k\<in>set (grp_list (c_dest (port_heap st dp))). k \<noteq> s \<longrightarrow> \<not> match_subs_info info (sub_info (subs_heap st k))) \<and>
       \<not> grp_exclusive (c_src (port_heap st sp)) \<and> \<not> grp_exclusive (c_dest (port_heap st dp)) \<and>
       (x \<longrightarrow> grp_list (c_src (port_heap st sp)) = [] \<and> grp_list (c_dest (port_heap st dp)) = []))"
proof -
  let ?st0 = "upd_subs s (\<lambda>_. \<lparr>sub_info = info, ref_count = 0\<rparr>) st"
  let ?a1 = "cl_number (clients ?st0 cn) \<noteq> cl_number (clients ?st0 sc)" and ?a2 = "cl_number (clients ?st0 cn) \<noteq> cl_number (clients ?st0 dc)"
  have g: "grp_of True port = c_src port" "grp_of False port = c_dest port" for port by (simp_all add: grp_of_def)
  have x: "(ps_flags info AND 1 \<noteq> 0) = x" by (simp add: x_def)
  obtain e1 st1 where c1: "check_and_subscribe_port env sc sp s True x ?a1 ?st0 = Some (e1, st1)"
    "(if e1 < 0 then Some (e1, st1)
      else Option.bind (check_and_subscribe_port env dc dp s False x ?a2 st1) (\<lambda>(err, st).
        if err < 0 then map_option (Pair err) (delete_and_unsubscribe_port env sc sp s True ?a1 st) else Some (0, st))) = Some (err, st')"
    using c unfolding snd_seq_port_connect_def Let_def option.case x by (auto split: bind_splits)
  note e1 = check_effect [OF env c1(1)]
  show ?thesis
  proof (cases "e1 < 0")
    case True
    have "port_heap st1 = port_heap st \<and> subs_heap st1 = subs_heap ?st0"
      using subscribe_fails [OF env _ c1(1) True] src by (simp add: g)
    then show ?thesis using c1(2) True e1(1) by auto
  next
    case ok1: False
    then obtain e2 st2 where c2: "check_and_subscribe_port env dc dp s False x ?a2 st1 = Some (e2, st2)"
      "(if e2 < 0 then map_option (Pair e2) (delete_and_unsubscribe_port env sc sp s True ?a1 st2) else Some (0, st2)) = Some (err, st')"
      using c1(2) by (auto split: bind_splits)
    note e2 = check_effect [OF env c2(1)]
    let ?h1 = "(port_heap st)(sp := set_grp True (linked_in s x) (port_heap st sp))"
    have s1: "port_heap st1 = ?h1" "subs_heap st1 = (subs_heap st)(s := \<lparr>sub_info = info, ref_count = 1\<rparr>)"
      "if x then grp_list (c_src (port_heap st sp)) = [] else \<not> grp_exclusive (c_src (port_heap st sp))"
      using e1(3) [OF ok1] by (auto simp: upd_subs_heap g split: if_splits)
    note excl1 = not_exclusive(1) [OF src s1(3)]
    have d1: "grp_of False (port_heap st1 dp) = c_dest (port_heap st dp)" unfolding s1(1) by (simp add: grp_of_def set_grp_def)
    have aside2: "aside st st2" using e1(1) e2(1) aside_trans by simp
    show ?thesis
    proof (cases "e2 < 0")
      case True
      then obtain st3 where del: "delete_and_unsubscribe_port env sc sp s True ?a1 st2 = Some st3" "err = e2" "st' = st3" using c2(2) by auto
      have h2: "port_heap st2 = ?h1" "subs_heap st2 = subs_heap st1"
        using subscribe_fails [OF env dest [folded d1] c2(1) True] s1(1) by simp_all
      have "port_heap st3 = (port_heap st2)(sp := set_grp True (unlinked s) (port_heap st2 sp))" "aside st2 st3" "subs_heap st3 = subs_heap st2"
        using delete_effect [OF env del(1)] by blast+
      moreover have "set_grp True (unlinked s) (set_grp True (linked_in s x) (port_heap st sp)) = port_heap st sp"
        using link_unlink [OF excl1 fresh room, of x] by (simp add: set_grp_id g)
      ultimately show ?thesis using del h2 s1(2) True aside_trans [OF aside2] by auto
    next
      case ok2: False
      note f = e2(3) [OF ok2]
      have h: "port_heap st2 = ?h1(dp := set_grp False (linked_in s x) (?h1 dp))" "subs_heap st2 s = \<lparr>sub_info = info, ref_count = 2\<rparr>"
        "\<forall>k. k \<noteq> s \<longrightarrow> subs_heap st2 k = subs_heap st k"
        using f s1 by auto
      have cond: "if x then grp_list (c_dest (port_heap st dp)) = [] else \<not> grp_exclusive (c_dest (port_heap st dp))"
        "\<not> x \<Longrightarrow> \<forall>k\<in>set (grp_list (c_dest (port_heap st dp))). k \<noteq> s \<longrightarrow> \<not> match_subs_info info (sub_info (subs_heap st k))"
        using f unfolding d1 s1(2) by (auto split: if_splits)
      have "err = 0" "st' = st2" using c2(2) ok2 by auto
      then show ?thesis using h cond excl1 not_exclusive(1) [OF dest cond(1)] s1(3) aside2 by (cases x) simp_all
    qed
  qed
qed

section \<open>Connecting and disconnecting keep the graph\<close>

definition graph_same :: "'m seq_system_scheme \<Rightarrow> 'm seq_system_scheme \<Rightarrow> bool" where
  "graph_same st st' \<longleftrightarrow> clienttab st' = clienttab st \<and> subs_heap st' = subs_heap st \<and> port_at st' = port_at st \<and>
     (\<forall>p b. grp_of b (port_heap st' p) = grp_of b (port_heap st p))"

lemma graph_same_refl [simp]: "graph_same st st"
  by (simp add: graph_same_def)

lemma graph_same_trans [trans]: "graph_same a b \<Longrightarrow> graph_same b c \<Longrightarrow> graph_same a c"
  by (simp add: graph_same_def)

lemma graph_same_sym: "graph_same a b \<Longrightarrow> graph_same b a"
  by (simp add: graph_same_def)

lemma graph_same_live: "graph_same st st' \<Longrightarrow> live st' p = live st p"
  by (simp add: live_def graph_same_def)

lemma graph_same_ok:
  assumes "graph_same st st'"
  shows "subs_ok st' = subs_ok st"
proof -
  have "grp_of b (port_heap st' p) = grp_of b (port_heap st p)" "subs_heap st' = subs_heap st" "port_at st' = port_at st" for b p
    using assms by (simp_all add: graph_same_def)
  then show ?thesis unfolding subs_ok_def by (simp add: graph_same_live [OF assms])
qed

lemma port_at_upd:
  assumes "\<And>c. ports_list (clients st' c) = ports_list (clients st c)" "clienttab st' = clienttab st"
    "\<And>p. port_addr (port_heap st' p) = port_addr (port_heap st p) \<and> port_closing (port_heap st' p) = port_closing (port_heap st p)"
  shows "port_at st' = port_at st"
  using assms(1,2) find_port_addr [of "port_heap st'" "port_heap st", OF assms(3)] by (simp add: port_at_def clientptr_def fun_eq_iff)

lemma graph_same_lock: "graph_same st (upd_port p (\<lambda>p. p\<lparr>port_use_lock := f p\<rparr>) st)" "graph_same st (upd_client c (\<lambda>c. c\<lparr>cl_use_lock := g c\<rparr>) st)"
  unfolding graph_same_def by (auto intro!: port_at_upd simp: grp_of_def upd_client_def split: if_splits)

lemma graph_same_locks:
  "graph_same st (snd_seq_port_unlock p st)" "graph_same st (snd_seq_client_unlock c st)"
  "snd_seq_client_use_ptr i st = (r, st') \<Longrightarrow> r = clientptr i st \<and> graph_same st st'"
  "snd_seq_port_use_ptr (Some c) n st = (r', st') \<Longrightarrow> r' = find_port (port_heap st) n (ports_list (clients st c)) \<and> graph_same st st'"
  by (auto simp: snd_seq_port_unlock_def snd_seq_client_unlock_def snd_seq_client_use_ptr_def snd_seq_port_use_ptr_def
      intro!: graph_same_lock split: option.splits)

lemma graph_same_unlock [simp]:
  "graph_same a (snd_seq_port_unlock p b) = graph_same a b" "graph_same a (snd_seq_client_unlock c b) = graph_same a b"
  using graph_same_locks(1,2) graph_same_trans graph_same_sym by blast+

lemma steady_graph: "steady st st' \<Longrightarrow> graph_same st st'"
  unfolding graph_same_def using port_at_cong [of st st'] steady_aside [of st st'] by (simp add: aside_def)

lemma graph_same_ptr: "graph_same st st' \<Longrightarrow> clientptr i st' = clientptr i st" "graph_same st st' \<Longrightarrow> port_at st' = port_at st"
  by (simp_all add: graph_same_def clientptr_def)

lemma used_port_at:
  assumes "snd_seq_port_use_ptr (Some c) (uint (snd a)) st = (Some p, st')" "clientptr (uint (fst a)) st = Some c"
  shows "port_at st a = Some p"
  using assms graph_same_locks(4) [OF assms(1)] by (simp add: port_at_def)

lemma notify_graph:
  assumes "env_ok env" "snd_seq_client_notify_subscription (se_drivers env) (se_env env) n p info t st = Some (r, st')"
  shows "graph_same st st'"
proof -
  have "steady_dispatch (dispatch_with (\<lambda>c ev atomic st. snd_seq_deliver_event (se_drivers env) (se_env env) c ev atomic 0 st))"
    by (rule steady_dispatch_with) (rule steady_deliver, assumption, use assms(1) in \<open>simp add: env_ok_def\<close>)
  then show ?thesis using assms(2)
    by (auto simp: snd_seq_client_notify_subscription_def snd_seq_system_notify_def snd_seq_kernel_client_dispatch_def steady_dispatch_def
        intro!: steady_graph)
qed

text \<open>A request either ends before its work with an error and the same graph, or does its work on the ports it names.\<close>

lemma with_ports_outcome:
  assumes env: "env_ok env" and neg: "missing < 0" and w: "with_ports env client subs missing t work st = Some (r, st')"
  obtains (refused) "r < 0" "graph_same st st'"
  | (worked) sc sp dc dp st1 st2 where "graph_same st st1" "port_at st (ps_sender subs) = Some sp" "port_at st (ps_dest subs) = Some dp"
      "work sc sp dc dp st1 = Some (r, st2)" "graph_same st2 st'"
proof -
  let ?goal = "r < 0 \<and> graph_same st st' \<or> (\<exists>sc sp dc dp st1 st2. graph_same st st1 \<and> port_at st (ps_sender subs) = Some sp \<and>
    port_at st (ps_dest subs) = Some dp \<and> work sc sp dc dp st1 = Some (r, st2) \<and> graph_same st2 st')"
  obtain d s1 where d: "snd_seq_client_use_ptr (uint (fst (ps_dest subs))) st = (d, s1)" by fastforce
  note gd = graph_same_locks(3) [OF d]
  obtain s s2 where s: "snd_seq_client_use_ptr (uint (fst (ps_sender subs))) s1 = (s, s2)" by fastforce
  note gs = graph_same_locks(3) [OF s]
  have g2: "graph_same st s2" using gd gs graph_same_trans by blast
  have ?goal
  proof (cases d)
    case None
    then show ?thesis using w d gd neg by (auto simp: with_ports_def)
  next
    case (Some dc)
    show ?thesis
    proof (cases s)
      case None
      then show ?thesis using w d s Some g2 neg by (auto simp: with_ports_def)
    next
      case sc: (Some sc)
      obtain p s3 where p: "snd_seq_port_use_ptr (Some sc) (uint (snd (ps_sender subs))) s2 = (p, s3)" by fastforce
      obtain q s4 where q: "snd_seq_port_use_ptr (Some dc) (uint (snd (ps_dest subs))) s3 = (q, s4)" by fastforce
      have g3: "graph_same st s3" and g4: "graph_same st s4" using g2 graph_same_locks(4) [OF p] graph_same_locks(4) [OF q] graph_same_trans by blast+
      show ?thesis
      proof (cases "p = None \<or> q = None")
        case True
        then show ?thesis using w d s p q Some sc g3 g4 neg by (cases p) (auto simp: with_ports_def)
      next
        case False
        then obtain sp dp where pq: "p = Some sp" "q = Some dp" by auto
        have ps: "port_at st (ps_sender subs) = Some sp" "port_at st (ps_dest subs) = Some dp"
          using used_port_at p q pq gd gs sc Some graph_same_ptr [OF gd [THEN conjunct2]] graph_same_ptr [OF g2] graph_same_ptr [OF g3] by metis+
        let ?denied = "check_subscription_permission (clients s4 client) (port_heap s4 sp) (port_heap s4 dp) subs < 0"
        show ?thesis
        proof (cases ?denied)
          case True
          then show ?thesis using w d s p q pq Some sc g4 by (auto simp: with_ports_def Let_def)
        next
          case False
          then obtain st2 st3 where k: "work sc sp dc dp s4 = Some (r, st2)" "st' = snd_seq_client_unlock dc (snd_seq_client_unlock sc (snd_seq_port_unlock dp (snd_seq_port_unlock sp st3)))"
            "(if r = 0 then map_option (\<lambda>(_, st). (r, st)) (snd_seq_client_notify_subscription (se_drivers env) (se_env env) (uint ADDRESS_SUBSCRIBERS) 0 subs t st2) else Some (r, st2)) = Some (r, st3)"
            using w d s p q pq Some sc by (auto simp: with_ports_def Let_def split: bind_splits if_splits)
          have "graph_same st2 st3" using k(3) notify_graph [OF env] by (auto split: if_splits)
          then have "graph_same st2 st'" unfolding k(2) by simp
          then show ?thesis using g4 ps k(1) by blast
        qed
      qed
    qed
  qed
  then show thesis using refused worked by blast
qed


lemma grp_count_length: "grp_ok g \<Longrightarrow> unat (grp_count g) = length (grp_list g)"
  by (simp add: grp_ok_def unat_of_nat)

lemma grp_ok_linked:
  assumes "grp_ok g" "s \<notin> set (grp_list g)" "x \<longrightarrow> grp_list g = []" "grp_count g \<noteq> - 1"
  shows "grp_ok (linked_in s x g)"
proof -
  have "Suc (length (grp_list g)) \<noteq> 2 ^ 32"
  proof
    assume "Suc (length (grp_list g)) = 2 ^ 32"
    then have "grp_count g + 1 = (of_nat (2 ^ 32) :: u32)" using assms(1) by (metis grp_ok_def of_nat_Suc add.commute)
    then show False using assms(4) by (simp add: add_eq_0_iff)
  qed
  then show ?thesis using assms(1-3) by (auto simp: grp_ok_def linked_in_def)
qed

lemma grp_ok_unlinked:
  assumes "grp_ok g"
  shows "grp_ok (unlinked s g)"
proof (cases "s \<in> set (grp_list g)")
  case True
  then have n: "0 < length (grp_list g)" by (metis length_pos_if_in_set)
  then have "grp_count g \<noteq> 0" using grp_count_length [OF assms] by (metis less_irrefl unat_0)
  moreover have "grp_count g - 1 = of_nat (length (remove1 s (grp_list g)))"
    using of_nat_diff [OF n [THEN Suc_leI], where 'a = u32] True assms by (simp add: length_remove1 grp_ok_def)
  moreover have "length (remove1 s (grp_list g)) \<le> length (grp_list g)" by (simp add: length_remove1)
  ultimately show ?thesis using True assms by (simp add: grp_ok_def unlinked_def)
next
  case False
  then show ?thesis using assms by (simp add: grp_ok_def unlinked_def remove1_idem)
qed

lemma subs_ok_dead:
  assumes ok: "subs_ok st" and g: "port_heap st' = port_heap st" "port_at st' = port_at st" "\<forall>k. k \<noteq> s \<longrightarrow> subs_heap st' k = subs_heap st k"
    and fresh: "\<forall>p b. live st p \<longrightarrow> s \<notin> set (subs_of st b p)"
  shows "subs_ok st'"
proof -
  have same: "subs_heap st' x = subs_heap st x" if "x \<in> set (subs_of st b p)" "live st p" for x b p using that g(3) fresh by metis
  have l: "live st' p = live st p" for p by (simp add: live_def g(2))
  show ?thesis using ok same unfolding subs_ok_def l g(1,2) by simp
qed

lemma aside_port_at:
  assumes "aside st st'" "port_heap st' = ((port_heap st)(p := set_grp True f (port_heap st p)))
    (q := set_grp False g (((port_heap st)(p := set_grp True f (port_heap st p))) q))"
  shows "port_at st' = port_at st" "grp_of b (port_heap st' k) = (if k = (if b then p else q) then (if b then f else g) (grp_of b (port_heap st k)) else grp_of b (port_heap st k))"
  using assms(2) by (auto intro!: port_at_cong [OF assms(1)] simp: grp_of_def set_grp_def split: if_splits)

lemma connect_applies:
  assumes ok: "subs_ok st" and ends: "port_at st (ps_sender info) = Some sp" "port_at st (ps_dest info) = Some dp"
    and fresh: "\<forall>p b. live st p \<longrightarrow> s \<notin> set (subs_of st b p)" and room: "\<forall>p b. live st p \<longrightarrow> grp_count (grp_of b (port_heap st p)) \<noteq> - 1"
  shows "live st sp" "live st dp" "grp_ok (c_src (port_heap st sp))" "grp_ok (c_dest (port_heap st dp))"
    "s \<notin> set (grp_list (c_src (port_heap st sp)))" "grp_count (c_src (port_heap st sp)) + 1 \<noteq> 0"
proof -
  show live: "live st sp" "live st dp" using ends unfolding live_def by blast+
  show "grp_ok (c_src (port_heap st sp))" "grp_ok (c_dest (port_heap st dp))"
    using subs_okD(1) [OF ok live(1), of True] subs_okD(1) [OF ok live(2), of False] by (simp_all add: grp_of_def)
  show "s \<notin> set (grp_list (c_src (port_heap st sp)))" using fresh live by (metis grp_of_def)
  have "grp_count (grp_of True (port_heap st sp)) \<noteq> - 1" using room live(1) by blast
  then show "grp_count (c_src (port_heap st sp)) + 1 \<noteq> 0" by (simp add: grp_of_def add_eq_0_iff2)
qed

lemma connect_graph:
  assumes env: "env_ok env" and ok: "subs_ok st" and ends: "port_at st (ps_sender info) = Some sp" "port_at st (ps_dest info) = Some dp"
    and fresh: "\<forall>p b. live st p \<longrightarrow> s \<notin> set (subs_of st b p)" and room: "\<forall>p b. live st p \<longrightarrow> grp_count (grp_of b (port_heap st p)) \<noteq> - 1"
    and c: "snd_seq_port_connect env cn sc sp dc dp info (Some s) st = Some (err, st')"
  shows "subs_ok st'"
    "err < 0 \<Longrightarrow> port_heap st' = port_heap st \<and> (\<forall>k. k \<noteq> s \<longrightarrow> subs_heap st' k = subs_heap st k)"
    "\<not> err < 0 \<Longrightarrow> err = 0 \<and> sub_info (subs_heap st' s) = info \<and> (\<forall>k. k \<noteq> s \<longrightarrow> subs_heap st' k = subs_heap st k) \<and>
       (\<forall>b p. grp_of b (port_heap st' p) = (if p = (if b then sp else dp)
         then linked_in s (ps_flags info AND 1 \<noteq> 0) (grp_of b (port_heap st p)) else grp_of b (port_heap st p)))"
proof -
  let ?x = "ps_flags info AND 1 \<noteq> 0"
  let ?p = "\<lambda>b. if b then sp else dp"
  note e = connect_effect [OF env connect_applies(3-6) [OF ok ends fresh room] c]
  show "subs_ok st'" "err < 0 \<Longrightarrow> port_heap st' = port_heap st \<and> (\<forall>k. k \<noteq> s \<longrightarrow> subs_heap st' k = subs_heap st k)"
    "\<not> err < 0 \<Longrightarrow> err = 0 \<and> sub_info (subs_heap st' s) = info \<and> (\<forall>k. k \<noteq> s \<longrightarrow> subs_heap st' k = subs_heap st k) \<and>
       (\<forall>b p. grp_of b (port_heap st' p) = (if p = ?p b then linked_in s ?x (grp_of b (port_heap st p)) else grp_of b (port_heap st p)))"
  proof -
    show "err < 0 \<Longrightarrow> port_heap st' = port_heap st \<and> (\<forall>k. k \<noteq> s \<longrightarrow> subs_heap st' k = subs_heap st k)" using e by simp
    have w: "aside st st'" "port_heap st' = ((port_heap st)(sp := set_grp True (linked_in s ?x) (port_heap st sp)))
        (dp := set_grp False (linked_in s ?x) (((port_heap st)(sp := set_grp True (linked_in s ?x) (port_heap st sp))) dp))"
      "?x \<longrightarrow> grp_list (c_src (port_heap st sp)) = [] \<and> grp_list (c_dest (port_heap st dp)) = []"
      "err = 0" "subs_heap st' s = \<lparr>sub_info = info, ref_count = 2\<rparr>" "\<And>k. k \<noteq> s \<Longrightarrow> subs_heap st' k = subs_heap st k" if "\<not> err < 0"
      using e that by simp_all
    note g = aside_port_at [OF w(1,2)]
    show "\<not> err < 0 \<Longrightarrow> err = 0 \<and> sub_info (subs_heap st' s) = info \<and> (\<forall>k. k \<noteq> s \<longrightarrow> subs_heap st' k = subs_heap st k) \<and>
       (\<forall>b p. grp_of b (port_heap st' p) = (if p = ?p b then linked_in s ?x (grp_of b (port_heap st p)) else grp_of b (port_heap st p)))"
      using g(2) w(4-6) by simp
    show "subs_ok st'"
    proof (cases "err < 0")
      case True
      then show ?thesis using e port_at_cong [of st st'] by (intro subs_ok_dead [OF ok, of _ s]) (use fresh in auto)
    next
      case False
      have new: "sub_info (subs_heap st' s) = info" "ref_count (subs_heap st' s) = 2" using w(5) [OF False] by simp_all
      show ?thesis
      proof (rule subs_ok_link [OF ok g(1) [OF False False] new w(6) [OF False], where p = ?p])
        show "live st p \<Longrightarrow> s \<notin> set (subs_of st b p)" for p b using fresh by blast
        show "port_at st (end_of b info) = Some (?p b)" for b using ends by (simp add: end_of_def)
        show "grp_list (grp_of b (port_heap st' q)) = (if q = ?p b then subs_of st b q @ [s] else subs_of st b q)" for q b
          using g(2) [OF False False, of b q] by (simp add: linked_in_def)
        show "grp_ok (grp_of b (port_heap st' q))" if "live st q" for q b
        proof -
          have "grp_ok (linked_in s ?x (grp_of b (port_heap st q)))" if "q = ?p b"
            using subs_okD(1) [OF ok \<open>live st q\<close>] fresh room \<open>live st q\<close> w(3) [OF False] that
            by (intro grp_ok_linked) (auto simp: grp_of_def split: if_splits)
          then show ?thesis using g(2) [OF False False, of b q] subs_okD(1) [OF ok that, of b] by simp
        qed
      qed
    qed
  qed
qed


lemma match_ends: "match_subs_info r i \<Longrightarrow> ps_sender i = ps_sender r \<and> ps_dest i = ps_dest r"
  by (auto simp: match_subs_info_def addr_match_def prod_eq_iff split: if_splits)

lemma disconnect_graph:
  assumes env: "env_ok env" and ok: "subs_ok st" and ends: "port_at st (ps_sender info) = Some sp" "port_at st (ps_dest info) = Some dp"
    and c: "snd_seq_port_disconnect env cn sc sp dc dp info st = Some (err, st')"
  shows "if err < 0 then st' = st \<and> (\<forall>s\<in>set (subs_of st False dp). \<not> match_subs_info info (sub_info (subs_heap st s)))
    else err = 0 \<and> subs_ok st' \<and> subs_heap st' = subs_heap st \<and>
      (\<exists>s\<in>set (subs_of st False dp). match_subs_info info (sub_info (subs_heap st s)) \<and> s \<in> set (subs_of st True sp) \<and>
        (\<forall>b p. grp_of b (port_heap st' p) = (if p = (if b then sp else dp) then unlinked s (grp_of b (port_heap st p)) else grp_of b (port_heap st p))))"
proof (cases "find (\<lambda>s. match_subs_info info (sub_info (subs_heap st s))) (grp_list (c_dest (port_heap st dp)))")
  case None
  moreover from this have "\<forall>s\<in>set (subs_of st False dp). \<not> match_subs_info info (sub_info (subs_heap st s))" by (auto simp: find_None_iff grp_of_def)
  ultimately show ?thesis using c by (auto simp: snd_seq_port_disconnect_def)
next
  case (Some s)
  let ?p = "\<lambda>b. if b then sp else dp"
  have s: "s \<in> set (subs_of st False dp)" "match_subs_info info (sub_info (subs_heap st s))"
    using Some by (auto simp: find_Some_iff grp_of_def in_set_conv_nth)
  have live: "live st sp" "live st dp" using ends unfolding live_def by blast+
  have at: "port_at st (end_of b (sub_info (subs_heap st s))) = Some (?p b)" for b using match_ends [OF s(2)] ends by (simp add: end_of_def)
  have s2: "s \<in> set (subs_of st True sp)" using subs_okD(4) [OF ok live(2) s(1)] at [of True] by simp
  obtain st1 a1 a2 where d: "delete_and_unsubscribe_port env dc dp s False a1 st = Some st1"
    "delete_and_unsubscribe_port env sc sp s True a2 st1 = Some st'" "err = 0"
    using c Some unfolding snd_seq_port_disconnect_def by (auto split: bind_splits)
  note e1 = delete_effect [OF env d(1)] and e2 = delete_effect [OF env d(2)]
  have g: "aside st st'" "subs_heap st' = subs_heap st" using e1 e2 aside_trans by auto
  have h: "grp_of b (port_heap st' p) = (if p = ?p b then unlinked s (grp_of b (port_heap st p)) else grp_of b (port_heap st p))" for b p
    using e1 e2 by (auto simp: grp_of_def set_grp_def)
  have pa: "port_at st' = port_at st" using e1 e2 by (intro port_at_cong [OF g(1)]) simp
  have "subs_ok st'"
  proof (rule subs_ok_unlink [OF ok pa g(2) at])
    show "grp_list (grp_of b (port_heap st' q)) = (if q = ?p b then remove1 s (subs_of st b q) else subs_of st b q)" for b q
      unfolding h by (simp add: unlinked_def)
    show "grp_ok (grp_of b (port_heap st' q))" if "live st q" for b q
      unfolding h using subs_okD(1) [OF ok that, of b] grp_ok_unlinked by (cases b) auto
  qed
  then show ?thesis using d(3) g(2) s s2 h by auto
qed


text \<open>
  C14. A request to connect two ports keeps the graph consistent, whether or not it succeeds. A request that is
  refused, by a missing port, a missing permission, an exclusive connection, an equal connection or a driver that
  fails at either end, leaves every list of every port as it was; one that succeeds puts the new subscription on both.
\<close>

theorem subscribe_keeps_graph:
  assumes "env_ok env" "subs_ok st" and fresh: "\<forall>p b. live st p \<longrightarrow> s \<notin> set (subs_of st b p)"
    and room: "\<forall>p b. live st p \<longrightarrow> grp_count (grp_of b (port_heap st p)) \<noteq> - 1"
    and "snd_seq_ioctl_subscribe_port env client subs (Some s) st = Some (r, st')"
  shows "subs_ok st' \<and> (if r < 0 then \<forall>p b. grp_of b (port_heap st' p) = grp_of b (port_heap st p)
    else r = 0 \<and> (\<exists>sp dp. port_at st (ps_sender subs) = Some sp \<and> port_at st (ps_dest subs) = Some dp \<and>
      s \<in> set (subs_of st' True sp) \<and> s \<in> set (subs_of st' False dp)))"
proof -
  have "- EINVAL < 0" by simp
  then show ?thesis using assms(5) unfolding snd_seq_ioctl_subscribe_port_def
  proof (rule with_ports_outcome [OF assms(1)])
    assume "r < 0" "graph_same st st'"
    then show ?thesis using assms(2) graph_same_ok [of st st'] by (simp add: graph_same_def)
  next
    fix sc sp dc dp st1 st2
    assume g: "graph_same st st1" "graph_same st2 st'" and at: "port_at st (ps_sender subs) = Some sp" "port_at st (ps_dest subs) = Some dp"
      and c: "snd_seq_port_connect env client sc sp dc dp subs (Some s) st1 = Some (r, st2)"
    have same: "grp_of b (port_heap st1 p) = grp_of b (port_heap st p)" "grp_of b (port_heap st' p) = grp_of b (port_heap st2 p)" for b p
      using g by (simp_all add: graph_same_def)
    have ok1: "subs_ok st1" using assms(2) graph_same_ok [OF g(1)] by simp
    have at1: "port_at st1 (ps_sender subs) = Some sp" "port_at st1 (ps_dest subs) = Some dp" using at graph_same_ptr(2) [OF g(1)] by simp_all
    have pre: "\<forall>p b. live st1 p \<longrightarrow> s \<notin> set (subs_of st1 b p)" "\<forall>p b. live st1 p \<longrightarrow> grp_count (grp_of b (port_heap st1 p)) \<noteq> - 1"
      using fresh room same graph_same_live [OF g(1)] by simp_all
    note e = connect_graph [OF assms(1) ok1 at1 pre c]
    have "subs_ok st'" using e(1) graph_same_ok [OF g(2)] by simp
    moreover have "if r < 0 then \<forall>p b. grp_of b (port_heap st' p) = grp_of b (port_heap st p) else r = 0 \<and> s \<in> set (subs_of st' True sp) \<and> s \<in> set (subs_of st' False dp)"
      unfolding same(2) using e(2,3) same(1) by (auto simp: linked_in_def)
    ultimately show ?thesis using at by (auto split: if_splits)
  qed
qed

text \<open>
  A request to disconnect two ports keeps the graph consistent; when it finds no matching connection it
  changes no list, otherwise the same subscription leaves both its lists.
\<close>

theorem unsubscribe_keeps_graph:
  assumes "env_ok env" "subs_ok st" and "snd_seq_ioctl_unsubscribe_port env client subs st = Some (r, st')"
  shows "subs_ok st' \<and> (if r < 0 then \<forall>p b. grp_of b (port_heap st' p) = grp_of b (port_heap st p)
    else r = 0 \<and> (\<exists>sp dp s. port_at st (ps_sender subs) = Some sp \<and> port_at st (ps_dest subs) = Some dp \<and>
      match_subs_info subs (sub_info (subs_heap st s)) \<and> s \<in> set (subs_of st True sp) \<and> s \<in> set (subs_of st False dp) \<and>
      subs_of st' True sp = remove1 s (subs_of st True sp) \<and> subs_of st' False dp = remove1 s (subs_of st False dp)))"
proof -
  have "- ENXIO < 0" by simp
  then show ?thesis using assms(3) unfolding snd_seq_ioctl_unsubscribe_port_def
  proof (rule with_ports_outcome [OF assms(1)])
    assume "r < 0" "graph_same st st'"
    then show ?thesis using assms(2) graph_same_ok [of st st'] by (simp add: graph_same_def)
  next
    fix sc sp dc dp st1 st2
    assume g: "graph_same st st1" "graph_same st2 st'" and at: "port_at st (ps_sender subs) = Some sp" "port_at st (ps_dest subs) = Some dp"
      and c: "snd_seq_port_disconnect env client sc sp dc dp subs st1 = Some (r, st2)"
    have same: "grp_of b (port_heap st1 p) = grp_of b (port_heap st p)" "grp_of b (port_heap st' p) = grp_of b (port_heap st2 p)"
      "subs_heap st1 = subs_heap st" for b p
      using g by (simp_all add: graph_same_def)
    have ok1: "subs_ok st1" using assms(2) graph_same_ok [OF g(1)] by simp
    have at1: "port_at st1 (ps_sender subs) = Some sp" "port_at st1 (ps_dest subs) = Some dp" using at graph_same_ptr(2) [OF g(1)] by simp_all
    note e = disconnect_graph [OF assms(1) ok1 at1 c]
    have "subs_ok st'" using e ok1 graph_same_ok [OF g(2)] by (auto split: if_splits)
    moreover have "if r < 0 then \<forall>p b. grp_of b (port_heap st' p) = grp_of b (port_heap st p)
      else r = 0 \<and> (\<exists>s. match_subs_info subs (sub_info (subs_heap st s)) \<and> s \<in> set (subs_of st True sp) \<and> s \<in> set (subs_of st False dp) \<and>
        subs_of st' True sp = remove1 s (subs_of st True sp) \<and> subs_of st' False dp = remove1 s (subs_of st False dp))"
    proof (cases "r < 0")
      case False
      then obtain s where s: "s \<in> set (subs_of st False dp)" "match_subs_info subs (sub_info (subs_heap st s))" "s \<in> set (subs_of st True sp)" "r = 0"
        "\<And>b p. grp_of b (port_heap st2 p) = (if p = (if b then sp else dp) then unlinked s (grp_of b (port_heap st p)) else grp_of b (port_heap st p))"
        using e unfolding same(1,3) if_not_P [OF False] by blast
      have "subs_of st' True sp = remove1 s (subs_of st True sp)" "subs_of st' False dp = remove1 s (subs_of st False dp)"
        unfolding same(2) s(5) by (simp_all add: unlinked_def)
      then show ?thesis using s(1-4) by auto
    qed (use e same(2) same(1) in simp)
    ultimately show ?thesis using at by (auto split: if_splits)
  qed
qed

text \<open>
  C15. Connecting two ports and disconnecting them again with the same request gives back every list of every
  port, their counts and their exclusive modes: the second call finds exactly the subscription the first one made.
\<close>

theorem connect_disconnect:
  assumes env: "env_ok env" and ok: "subs_ok st" and ends: "port_at st (ps_sender info) = Some sp" "port_at st (ps_dest info) = Some dp"
    and fresh: "\<forall>p b. live st p \<longrightarrow> s \<notin> set (subs_of st b p)" and room: "\<forall>p b. live st p \<longrightarrow> grp_count (grp_of b (port_heap st p)) \<noteq> - 1"
    and c: "snd_seq_port_connect env cn sc sp dc dp info (Some s) st = Some (0, st1)"
    and d: "snd_seq_port_disconnect env cn sc sp dc dp info st1 = Some (err, st2)"
  shows "err = 0 \<and> (\<forall>p b. grp_of b (port_heap st2 p) = grp_of b (port_heap st p))"
proof -
  let ?x = "ps_flags info AND 1 \<noteq> 0" and ?p = "\<lambda>b. if b then sp else dp"
  note e = connect_graph [OF env ok ends fresh room c]
  have g: "grp_of b (port_heap st1 p) = (if p = ?p b then linked_in s ?x (grp_of b (port_heap st p)) else grp_of b (port_heap st p))"
    "sub_info (subs_heap st1 s) = info" for b p using e(3) by simp_all
  note pre = connect_applies [OF ok ends fresh room]
  note w = connect_effect [OF env pre(3-6) c, simplified]
  have at1: "port_at st1 = port_at st" using w by (intro port_at_cong) simp_all
  have live: "live st (?p b)" for b using pre(1,2) by simp
  have f: "s \<notin> set (subs_of st b (?p b))" "grp_count (grp_of b (port_heap st (?p b))) + 1 \<noteq> 0" "\<not> grp_exclusive (grp_of b (port_heap st (?p b)))" for b
    using fresh room live [of b] w by (auto simp: grp_of_def add_eq_0_iff2)
  have only: "k = s" if "k \<in> set (subs_of st1 False dp)" "match_subs_info info (sub_info (subs_heap st1 k))" for k
    using that w g(1) [of False dp] by (auto simp: linked_in_def grp_of_def)
  have self: "match_subs_info info info" by (simp add: match_subs_info_def addr_match_def)
  have mem: "s \<in> set (subs_of st1 False dp)" using g(1) [of False dp] by (simp add: linked_in_def)
  note dd = disconnect_graph [OF env e(1) ends [folded at1] d]
  have "\<not> err < 0" using dd mem self g(2) by (auto split: if_splits)
  then obtain k where k: "k \<in> set (subs_of st1 False dp)" "match_subs_info info (sub_info (subs_heap st1 k))" "err = 0"
    "\<And>b p. grp_of b (port_heap st2 p) = (if p = ?p b then unlinked k (grp_of b (port_heap st1 p)) else grp_of b (port_heap st1 p))"
    using dd unfolding if_not_P [OF \<open>\<not> err < 0\<close>] by blast
  have "grp_of b (port_heap st2 p) = grp_of b (port_heap st p)" for b p
    using link_unlink [OF f(3,1,2), of ?x b] unfolding k(4) only [OF k(1,2)] g(1) by (cases b) auto
  then show ?thesis using k(3) by simp
qed


section \<open>A connection of two clients\<close>

lemma notify_silent:
  assumes "clientptr (sysclient st) st = None"
  shows "snd_seq_client_notify_subscription drivers env n p info t st = Some (- EINVAL, st)"
  using assms by (simp add: snd_seq_client_notify_subscription_def snd_seq_system_notify_def snd_seq_kernel_client_dispatch_def
      dispatch_with_def snd_seq_client_use_ptr_def Let_def)

definition sample_subs_env :: "unit subs_env" where
  "sample_subs_env = \<lparr>se_drivers = no_drivers, se_env = sample_env, se_calls = (\<lambda>_ _ st. Some (0, st))\<rparr>"

lemma sample_env_ok: "env_ok sample_subs_env"
  using no_drivers_steady by (auto simp: env_ok_def sample_subs_env_def steady_calls_def)

definition sample_request :: port_subscribe where
  "sample_request = \<lparr>ps_sender = (128, 0), ps_dest = (129, 0), ps_voices = 0, ps_flags = 1, ps_queue = 0\<rparr>"

lemma sample_groups: "grp_of b (port_heap sample_system p) = sample_group []"
  by (simp add: grp_of_def sample_system_def sample_port_def)

lemma sample_graph: "subs_ok sample_system" "\<forall>p b. live sample_system p \<longrightarrow> 5 \<notin> set (subs_of sample_system b p)"
  "\<forall>p b. live sample_system p \<longrightarrow> grp_count (grp_of b (port_heap sample_system p)) \<noteq> - 1"
  by (simp_all add: subs_ok_def sample_groups sample_group_def grp_ok_def)

lemma sample_at: "port_at sample_system (128, 0) = Some 10" "port_at sample_system (129, 0) = Some 20"
  by (simp_all add: port_at_def clientptr_def sample_system_def sample_client_def sample_port_def port_no_def)

lemmas sample_eval = snd_seq_client_use_ptr_def snd_seq_port_use_ptr_def snd_seq_client_unlock_def snd_seq_port_unlock_def
  upd_client_def upd_port_def upd_subs_def clientptr_def check_subscription_permission_def check_port_perm_def
  check_and_subscribe_port_def subscribe_port_def delete_and_unsubscribe_port_def unsubscribe_port_def send_ack_def notify_silent
  grp_of_def set_grp_def port_no_def sample_system_def sample_client_def sample_port_def sample_group_def sample_request_def sample_subs_env_def

lemma sample_connect:
  "\<exists>st. snd_seq_port_connect sample_subs_env 128 128 10 129 20 sample_request (Some 5) sample_system = Some (0, st)"
  by (simp add: snd_seq_port_connect_def sample_eval Let_def)

lemma sample_subscribe:
  "\<exists>st. snd_seq_ioctl_subscribe_port sample_subs_env 128 sample_request (Some 5) sample_system = Some (0, st)"
  by (simp add: snd_seq_ioctl_subscribe_port_def with_ports_def snd_seq_port_connect_def sample_eval Let_def)


lemma sample_disconnect:
  "\<exists>st1 st2. snd_seq_port_connect sample_subs_env 128 128 10 129 20 sample_request (Some 5) sample_system = Some (0, st1) \<and>
     snd_seq_port_disconnect sample_subs_env 128 128 10 129 20 sample_request st1 = Some (0, st2)"
  by (simp add: snd_seq_port_connect_def snd_seq_port_disconnect_def match_subs_info_def addr_match_def sample_eval Let_def)

lemma sample_unsubscribe:
  "\<exists>st1 st2. snd_seq_port_connect sample_subs_env 128 128 10 129 20 sample_request (Some 5) sample_system = Some (0, st1) \<and>
     snd_seq_ioctl_unsubscribe_port sample_subs_env 128 sample_request st1 = Some (0, st2)"
  by (simp add: snd_seq_ioctl_unsubscribe_port_def with_ports_def snd_seq_port_connect_def snd_seq_port_disconnect_def match_subs_info_def addr_match_def sample_eval Let_def)

lemma sample_request_at: "port_at sample_system (ps_sender sample_request) = Some 10" "port_at sample_system (ps_dest sample_request) = Some 20"
  by (simp_all add: sample_request_def sample_at)

theorem subscribe_keeps_graph_witness:
  "\<exists>st'. snd_seq_ioctl_subscribe_port sample_subs_env 128 sample_request (Some 5) sample_system = Some (0, st') \<and> subs_ok st' \<and>
     5 \<in> set (subs_of st' True 10) \<and> 5 \<in> set (subs_of st' False 20)"
proof -
  obtain st' where st': "snd_seq_ioctl_subscribe_port sample_subs_env 128 sample_request (Some 5) sample_system = Some (0, st')"
    using sample_subscribe by blast
  show ?thesis using subscribe_keeps_graph [OF sample_env_ok sample_graph st'] st' by (simp add: sample_request_at)
qed

theorem unsubscribe_keeps_graph_witness:
  "\<exists>st st'. snd_seq_ioctl_unsubscribe_port sample_subs_env 128 sample_request st = Some (0, st') \<and> subs_ok st \<and> subs_ok st' \<and>
     (\<exists>sp dp s. s \<in> set (subs_of st True sp) \<and> subs_of st' True sp = remove1 s (subs_of st True sp) \<and> subs_of st' False dp = remove1 s (subs_of st False dp))"
proof -
  obtain st1 st2 where c: "snd_seq_port_connect sample_subs_env 128 128 10 129 20 sample_request (Some 5) sample_system = Some (0, st1)"
    and d: "snd_seq_ioctl_unsubscribe_port sample_subs_env 128 sample_request st1 = Some (0, st2)" using sample_unsubscribe by blast
  have ok: "subs_ok st1" by (rule connect_graph(1) [OF sample_env_ok sample_graph(1) sample_request_at sample_graph(2,3) c])
  show ?thesis using unsubscribe_keeps_graph [OF sample_env_ok ok d] d ok by (intro exI [of _ st1] exI [of _ st2]) auto
qed

theorem connect_disconnect_witness:
  "\<exists>st1 st2. snd_seq_port_connect sample_subs_env 128 128 10 129 20 sample_request (Some 5) sample_system = Some (0, st1) \<and>
     snd_seq_port_disconnect sample_subs_env 128 128 10 129 20 sample_request st1 = Some (0, st2) \<and>
     (\<forall>p b. grp_of b (port_heap st2 p) = grp_of b (port_heap sample_system p))"
proof -
  obtain st1 st2 where c: "snd_seq_port_connect sample_subs_env 128 128 10 129 20 sample_request (Some 5) sample_system = Some (0, st1)"
    and d: "snd_seq_port_disconnect sample_subs_env 128 128 10 129 20 sample_request st1 = Some (0, st2)" using sample_disconnect by blast
  show ?thesis using connect_disconnect [OF sample_env_ok sample_graph(1) sample_request_at sample_graph(2,3) c d] c d by blast
qed

end
