(* ===== verification/RawMidi.thy ===== *)
theory RawMidi
  imports Prelude
begin

text \<open>
  Raw MIDI streams, \<^verbatim>\<open>core/rawmidi.c\<close>: the ring buffer of a substream with its two sides (the driver receives
  and transmits, the user reads and writes), the waiting loops, parameters, and opening and closing the substreams
  of a device. Waiting in this build is what \<^verbatim>\<open>lib32\<close> makes of it.
\<close>

section \<open>State\<close>

text \<open>
  \<^verbatim>\<open>struct snd_rawmidi_runtime\<close>. The buffer is a list of bytes, empty where the pointer is NULL; \<open>rm_event\<close> and
  \<open>rm_free\<close> name callbacks and \<open>rm_private\<close> the private data, 0 being NULL; \<open>rm_wakeups\<close> counts the calls of \<^verbatim>\<open>wake_up(&runtime->sleep)\<close>.
\<close>

record rm_runtime =
  rm_drain :: bool
  rm_oss :: bool
  rm_buffer :: "u8 list"
  rm_size :: u32
  rm_appl :: u32
  rm_hw :: u32
  rm_avail_min :: u32
  rm_avail :: u32
  rm_xruns :: u32
  rm_ref :: int
  rm_event :: nat
  rm_private :: nat
  rm_free :: nat
  rm_wakeups :: nat

text \<open>\<open>ss_shutdown\<close> is \<^verbatim>\<open>rmidi->card->shutdown\<close>; \<open>ss_stream\<close> is 0 for output and 1 for input.\<close>

record rm_substream =
  ss_stream :: nat
  ss_number :: int
  ss_opened :: bool
  ss_append :: bool
  ss_sensing :: bool
  ss_framing :: u32
  ss_clock :: u32
  ss_use :: int
  ss_bytes :: u32
  ss_name :: string
  ss_runtime :: "rm_runtime option"
  ss_shutdown :: bool

text \<open>The driver of a substream, \<^verbatim>\<open>struct snd_rawmidi_ops\<close>, and the destructor of its private data.\<close>

record rm_ops =
  op_open :: "rm_substream \<Rightarrow> int \<times> rm_substream"
  op_close :: "rm_substream \<Rightarrow> rm_substream"
  op_trigger :: "bool \<Rightarrow> rm_substream \<Rightarrow> rm_substream"
  op_drain :: "(rm_substream \<Rightarrow> rm_substream) option"
  op_free :: "nat \<Rightarrow> rm_substream \<Rightarrow> rm_substream"

definition rt :: "rm_substream \<Rightarrow> rm_runtime" where
  "rt s = the (ss_runtime s)"

definition upd_rt :: "(rm_runtime \<Rightarrow> rm_runtime) \<Rightarrow> rm_substream \<Rightarrow> rm_substream" where
  "upd_rt f s = s\<lparr>ss_runtime := map_option f (ss_runtime s)\<rparr>"

text \<open>
  Access to the buffer: \<open>None\<close> stands for an access outside of it. A turn is what interrupts and other callers
  do to the substream while the lock is released; the rest of the list is for later turns.
\<close>

definition copy_in :: "nat \<Rightarrow> u8 list \<Rightarrow> u8 list \<Rightarrow> u8 list option" where
  "copy_in i xs buf = (if i + length xs \<le> length buf then Some (take i buf @ xs @ drop (i + length xs) buf) else None)"

definition copy_out :: "nat \<Rightarrow> nat \<Rightarrow> u8 list \<Rightarrow> u8 list option" where
  "copy_out i n buf = (if i + n \<le> length buf then Some (take n (drop i buf)) else None)"

type_synonym rm_turns = "(rm_substream \<Rightarrow> rm_substream) list"

definition turn :: "rm_turns \<Rightarrow> rm_substream \<Rightarrow> rm_turns \<times> rm_substream" where
  "turn ts s = (case ts of [] \<Rightarrow> ([], s) | t # ts \<Rightarrow> (ts, t s))"

section \<open>The runtime\<close>

definition rawmidi_ready :: "rm_runtime \<Rightarrow> bool" where
  "rawmidi_ready r \<longleftrightarrow> rm_avail r \<ge> rm_avail_min r"

definition snd_rawmidi_ready_append :: "rm_substream \<Rightarrow> u32 \<Rightarrow> bool" where
  "snd_rawmidi_ready_append s n \<longleftrightarrow> rm_avail (rt s) \<ge> rm_avail_min (rt s) \<and> (\<not> ss_append s \<or> rm_avail (rt s) \<ge> n)"

definition snd_rawmidi_buffer_ref :: "rm_runtime \<Rightarrow> rm_runtime" where
  "snd_rawmidi_buffer_ref r = r\<lparr>rm_ref := rm_ref r + 1\<rparr>"

definition snd_rawmidi_buffer_unref :: "rm_runtime \<Rightarrow> rm_runtime" where
  "snd_rawmidi_buffer_unref r = r\<lparr>rm_ref := rm_ref r - 1\<rparr>"

abbreviation (input) PAGE_SIZE :: u32 where "PAGE_SIZE \<equiv> 4096"

text \<open>\<open>mem\<close>: whether the runtime and whether its buffer can be allocated.\<close>

definition snd_rawmidi_runtime_create :: "bool \<times> bool \<Rightarrow> rm_substream \<Rightarrow> int \<times> rm_substream" where
  "snd_rawmidi_runtime_create mem s =
     (if \<not> fst mem then (- ENOMEM, s)
      else if \<not> snd mem then (- ENOMEM, s)
      else (0, s\<lparr>ss_runtime := Some \<lparr>rm_drain = False, rm_oss = False, rm_buffer = replicate (unat PAGE_SIZE) 0,
        rm_size = PAGE_SIZE, rm_appl = 0, rm_hw = 0, rm_avail_min = 1, rm_avail = (if ss_stream s = 1 then 0 else PAGE_SIZE),
        rm_xruns = 0, rm_ref = 0, rm_event = 0, rm_private = 0, rm_free = 0, rm_wakeups = 0\<rparr>\<rparr>))"

definition snd_rawmidi_runtime_free :: "rm_substream \<Rightarrow> rm_substream" where
  "snd_rawmidi_runtime_free s = s\<lparr>ss_runtime := None\<rparr>"

definition snd_rawmidi_output_trigger :: "rm_ops \<Rightarrow> bool \<Rightarrow> rm_substream \<Rightarrow> rm_substream" where
  "snd_rawmidi_output_trigger ops up s = (if \<not> ss_opened s then s else op_trigger ops up s)"

text \<open>\<^verbatim>\<open>cancel_work_sync\<close> does nothing in this build.\<close>

definition snd_rawmidi_input_trigger :: "rm_ops \<Rightarrow> bool \<Rightarrow> rm_substream \<Rightarrow> rm_substream" where
  "snd_rawmidi_input_trigger ops up s = (if \<not> ss_opened s then s else op_trigger ops up s)"

definition reset_runtime_ptrs :: "bool \<Rightarrow> rm_runtime \<Rightarrow> rm_runtime" where
  "reset_runtime_ptrs is_input r =
     r\<lparr>rm_drain := False, rm_appl := 0, rm_hw := 0, rm_avail := (if is_input then 0 else rm_size r)\<rparr>"

definition snd_rawmidi_drop_output :: "rm_ops \<Rightarrow> rm_substream \<Rightarrow> rm_substream" where
  "snd_rawmidi_drop_output ops s = upd_rt (reset_runtime_ptrs False) (snd_rawmidi_output_trigger ops False s)"

text \<open>\<^verbatim>\<open>interruptible_sleep_on_timeout\<close> of \<^verbatim>\<open>lib32/waitqueue.c\<close> is a stub: it returns 1 at once.\<close>

definition interruptible_sleep_on_timeout :: "int \<Rightarrow> int" where
  "interruptible_sleep_on_timeout timeout = 1"

text \<open>\<^verbatim>\<open>signal_pending\<close> is always 0 in this build; \<^verbatim>\<open>msleep(50)\<close> is a turn.\<close>

definition snd_rawmidi_drain_output :: "rm_ops \<Rightarrow> rm_turns \<Rightarrow> rm_substream \<Rightarrow> int \<times> rm_turns \<times> rm_substream" where
  "snd_rawmidi_drain_output ops ts s =
     (let s = upd_rt (\<lambda>r. r\<lparr>rm_drain := True\<rparr>) s;
          timeout = interruptible_sleep_on_timeout 1000;
          err = (if rm_avail (rt s) < rm_size (rt s) \<and> timeout = 0 then - EIO else 0);
          s = upd_rt (\<lambda>r. r\<lparr>rm_drain := False\<rparr>) s;
          (ts, s) = (case op_drain ops of Some f \<Rightarrow> (ts, f s) | None \<Rightarrow> turn ts s)
      in (err, ts, snd_rawmidi_drop_output ops s))"

definition snd_rawmidi_drain_input :: "rm_ops \<Rightarrow> rm_substream \<Rightarrow> rm_substream" where
  "snd_rawmidi_drain_input ops s = upd_rt (reset_runtime_ptrs True) (snd_rawmidi_input_trigger ops False s)"

section \<open>Parameters\<close>

record rm_params =
  pa_size :: u32
  pa_avail_min :: u32
  pa_no_sensing :: bool
  pa_mode :: u32

definition resize_runtime_buffer :: "bool \<Rightarrow> rm_params \<Rightarrow> bool \<Rightarrow> rm_runtime \<Rightarrow> int \<times> rm_runtime" where
  "resize_runtime_buffer mem p is_input r =
     (if pa_size p < 32 \<or> pa_size p > 1024 * 1024 then (- EINVAL, r)
      else if pa_mode p AND 7 = 1 \<and> pa_size p AND 0x1f \<noteq> 0 then (- EINVAL, r)
      else if pa_avail_min p < 1 \<or> pa_avail_min p > pa_size p then (- EINVAL, r)
      else if pa_size p \<noteq> rm_size r \<and> \<not> mem then (- ENOMEM, r)
      else if pa_size p \<noteq> rm_size r \<and> rm_ref r \<noteq> 0 then (- EBUSY, r)
      else
        let r = (if pa_size p \<noteq> rm_size r
                 then reset_runtime_ptrs is_input (r\<lparr>rm_buffer := replicate (unat (pa_size p)) 0, rm_size := pa_size p\<rparr>) else r)
        in (0, r\<lparr>rm_avail_min := pa_avail_min p\<rparr>))"

definition snd_rawmidi_output_params ::
  "rm_ops \<Rightarrow> bool \<Rightarrow> rm_params \<Rightarrow> rm_turns \<Rightarrow> rm_substream \<Rightarrow> int \<times> rm_turns \<times> rm_substream" where
  "snd_rawmidi_output_params ops mem p ts s =
     (if ss_append s \<and> ss_use s > 1 then (- EBUSY, ts, s)
      else
        let (_, ts, s) = snd_rawmidi_drain_output ops ts s;
            s = s\<lparr>ss_sensing := \<not> pa_no_sensing p\<rparr>;
            (err, r) = resize_runtime_buffer mem p False (rt s)
        in (err, ts, upd_rt (\<lambda>_. r) s))"

definition snd_rawmidi_input_params :: "rm_ops \<Rightarrow> bool \<Rightarrow> rm_params \<Rightarrow> rm_substream \<Rightarrow> int \<times> rm_substream" where
  "snd_rawmidi_input_params ops mem p s =
     (let framing = pa_mode p AND 7; clock = pa_mode p AND 0x38
      in if framing = 0 \<and> clock \<noteq> 0 then (- EINVAL, s)
         else if clock > 0x18 then (- EINVAL, s)
         else if framing > 1 then (- EINVAL, s)
         else
           let s = snd_rawmidi_drain_input ops s;
               (err, r) = resize_runtime_buffer mem p True (rt s);
               s = upd_rt (\<lambda>_. r) s
           in if err < 0 then (err, s) else (0, s\<lparr>ss_framing := framing, ss_clock := clock\<rparr>))"

section \<open>Receiving\<close>

text \<open>
  A frame with its time stamp takes 32 bytes. This build does not initialize the fields \<^verbatim>\<open>frame_type\<close> and
  \<^verbatim>\<open>reserved\<close> of the frame on the stack: \<open>junk\<close> is what they hold.
\<close>

definition le_bytes :: "nat \<Rightarrow> 'a::len word \<Rightarrow> u8 list" where
  "le_bytes n w = map (\<lambda>i. ucast (drop_bit (8 * i) w)) [0..<n]"

definition rm_frame :: "u8 \<times> u8 \<times> u8 \<Rightarrow> u64 \<times> u32 \<Rightarrow> u8 list \<Rightarrow> u8 list" where
  "rm_frame junk ts xs =
     (let (j0, j1, j2) = junk
      in [j0, of_nat (length xs), j1, j2] @ le_bytes 4 (snd ts) @ le_bytes 8 (fst ts) @ xs @ replicate (16 - length xs) 0)"

function receive_frames :: "u8 \<times> u8 \<times> u8 \<Rightarrow> u64 \<times> u32 \<Rightarrow> u8 list \<Rightarrow> rm_runtime \<Rightarrow> (nat \<times> rm_runtime) option" where
  "receive_frames junk ts data r =
     (if data = [] then Some (0, r)
      else if sint (rm_size r - rm_avail r) < 32
      then Some (length data, r\<lparr>rm_xruns := rm_xruns r + of_nat (length data)\<rparr>)
      else
        case copy_in (unat (rm_hw r)) (rm_frame junk ts (take 16 data)) (rm_buffer r) of
          None \<Rightarrow> None
        | Some buf \<Rightarrow>
            receive_frames junk ts (drop 16 data)
              (r\<lparr>rm_buffer := buf, rm_avail := rm_avail r + 32, rm_hw := (rm_hw r + 32) mod rm_size r\<rparr>))"
  by pat_completeness auto
termination
  by (relation "measure (\<lambda>(_, _, data, _). length data)") auto

declare receive_frames.simps [simp del]

definition receive_with_tstamp_framing ::
  "u8 \<times> u8 \<times> u8 \<Rightarrow> u64 \<times> u32 \<Rightarrow> u8 list \<Rightarrow> rm_runtime \<Rightarrow> (int \<times> rm_runtime) option" where
  "receive_with_tstamp_framing junk ts data r =
     map_option (\<lambda>(left, r). (int (length data) - int left, r)) (receive_frames junk ts data r)"

text \<open>The clocks: monotonic raw, monotonic and real time.\<close>

definition get_framing_tstamp :: "(u32 \<Rightarrow> u64 \<times> u32) \<Rightarrow> rm_substream \<Rightarrow> u64 \<times> u32" where
  "get_framing_tstamp clocks s = (if ss_clock s \<in> {0x18, 0x10, 8} then clocks (ss_clock s) else (0, 0))"

text \<open>The two copies of several bytes: up to the end of the buffer, and from its beginning.\<close>

definition receive_bytes :: "u8 list \<Rightarrow> rm_runtime \<Rightarrow> (int \<times> rm_runtime) option" where
  "receive_bytes data r =
     (let n = int (length data);
          count1 = sint (rm_size r - rm_hw r);
          count1 = (if count1 > n then n else count1);
          count1 = (if count1 > sint (rm_size r - rm_avail r) then sint (rm_size r - rm_avail r) else count1)
      in case copy_in (unat (rm_hw r)) (take (nat count1) data) (rm_buffer r) of
           None \<Rightarrow> None
         | Some buf \<Rightarrow>
             let r = r\<lparr>rm_buffer := buf, rm_hw := (rm_hw r + word_of_int count1) mod rm_size r, rm_avail := rm_avail r + word_of_int count1\<rparr>;
                 n = n - count1; result = count1
             in if n > 0
                then
                  let data = drop (nat count1) data;
                      free = sint (rm_size r - rm_avail r);
                      (count1, r) = (if n > free then (free, r\<lparr>rm_xruns := rm_xruns r + word_of_int (n - free)\<rparr>) else (n, r))
                  in if count1 > 0
                     then map_option (\<lambda>buf. (result + count1, r\<lparr>rm_buffer := buf, rm_hw := word_of_int count1, rm_avail := rm_avail r + word_of_int count1\<rparr>))
                            (copy_in 0 (take (nat count1) data) (rm_buffer r))
                     else Some (result, r)
                else Some (result, r))"

definition receive_byte :: "u8 \<Rightarrow> rm_runtime \<Rightarrow> (int \<times> rm_runtime) option" where
  "receive_byte b r =
     (if rm_avail r < rm_size r
      then map_option (\<lambda>buf. (1, r\<lparr>rm_buffer := buf, rm_hw := (rm_hw r + 1) mod rm_size r, rm_avail := rm_avail r + 1\<rparr>))
             (copy_in (unat (rm_hw r)) [b] (rm_buffer r))
      else Some (0, r\<lparr>rm_xruns := rm_xruns r + 1\<rparr>))"

text \<open>\<^verbatim>\<open>schedule_work\<close> of \<^verbatim>\<open>lib32/misc.c\<close> does nothing in this build: the handler of the input is not called.\<close>

definition schedule_work :: "rm_runtime \<Rightarrow> rm_runtime" where
  "schedule_work r = r"

definition snd_rawmidi_receive ::
  "u8 \<times> u8 \<times> u8 \<Rightarrow> (u32 \<Rightarrow> u64 \<times> u32) \<Rightarrow> u8 list \<Rightarrow> rm_substream \<Rightarrow> (int \<times> rm_substream) option" where
  "snd_rawmidi_receive junk clocks data s =
     (let ts = get_framing_tstamp clocks s
      in if \<not> ss_opened s then Some (- EBADFD, s)
         else if rm_buffer (rt s) = [] then Some (- EINVAL, s)
         else
           map_option (\<lambda>(result, s).
               (result, if result > 0
                        then upd_rt (\<lambda>r. if rm_event r \<noteq> 0 then schedule_work r
                                         else if rawmidi_ready r then r\<lparr>rm_wakeups := rm_wakeups r + 1\<rparr> else r) s
                        else s))
             (if ss_framing s = 1
              then map_option (\<lambda>(k, r). (k, upd_rt (\<lambda>_. r) s)) (receive_with_tstamp_framing junk ts data (rt s))
              else
                map_option (\<lambda>(k, r). (k, upd_rt (\<lambda>_. r) (s\<lparr>ss_bytes := ss_bytes s + of_nat (length data)\<rparr>)))
                  (if length data = 1 then receive_byte (hd data) (rt s) else receive_bytes data (rt s))))"


section \<open>Reading\<close>

text \<open>
  The loop of \<^verbatim>\<open>snd_rawmidi_kernel_read1\<close>. A copy to user memory runs without the lock, with a turn before and one
  after it; \<open>bad off len\<close> says that it faults. The result is the error and the bytes read.
\<close>

partial_function (option) read_loop ::
  "bool \<Rightarrow> (nat \<Rightarrow> nat \<Rightarrow> bool) \<Rightarrow> int \<Rightarrow> u8 list \<Rightarrow> rm_turns \<Rightarrow> rm_substream \<Rightarrow> (int \<times> u8 list \<times> rm_turns \<times> rm_substream) option" where
  "read_loop user bad n got ts s =
     (if n > 0 \<and> rm_avail (rt s) \<noteq> 0 then
        let r = rt s;
            count1 = sint (rm_size r - rm_appl r);
            count1 = (if count1 > n then n else count1);
            count1 = (if count1 > sint (rm_avail r) then sint (rm_avail r) else count1);
            p = unat (rm_appl r);
            s = upd_rt (\<lambda>r. r\<lparr>rm_appl := (rm_appl r + word_of_int count1) mod rm_size r, rm_avail := rm_avail r - word_of_int count1\<rparr>) s
        in if user
           then
             let (ts, s) = turn ts s; faults = bad (length got) (nat count1)
             in Option.bind (copy_out p (nat count1) (rm_buffer (rt s))) (\<lambda>xs.
                  let (ts, s) = turn ts s
                  in if faults then Some (- EFAULT, got, ts, s) else read_loop user bad (n - count1) (got @ xs) ts s)
           else Option.bind (copy_out p (nat count1) (rm_buffer (rt s))) (\<lambda>xs. read_loop user bad (n - count1) (got @ xs) ts s)
      else Some (0, got, ts, s))"

definition snd_rawmidi_kernel_read1 ::
  "bool \<Rightarrow> (nat \<Rightarrow> nat \<Rightarrow> bool) \<Rightarrow> int \<Rightarrow> rm_turns \<Rightarrow> rm_substream \<Rightarrow> (int \<times> u8 list \<times> rm_turns \<times> rm_substream) option" where
  "snd_rawmidi_kernel_read1 user bad n ts s =
     map_option (\<lambda>(err, got, ts, s).
         (if got \<noteq> [] then int (length got) else err, got, ts, upd_rt snd_rawmidi_buffer_unref s))
       (read_loop user bad n [] ts (upd_rt snd_rawmidi_buffer_ref s))"

definition snd_rawmidi_kernel_read :: "rm_ops \<Rightarrow> int \<Rightarrow> rm_substream \<Rightarrow> (int \<times> u8 list \<times> rm_substream) option" where
  "snd_rawmidi_kernel_read ops n s =
     map_option (\<lambda>(k, got, _, s). (k, got, s))
       (snd_rawmidi_kernel_read1 False (\<lambda>_ _. False) n [] (snd_rawmidi_input_trigger ops True s))"

text \<open>
  Waiting for input: \<open>Inl\<close> is a result, \<open>Inr\<close> says that there is something to read. \<^verbatim>\<open>schedule()\<close> is a turn (it is
  empty in this build).
\<close>

partial_function (option) read_wait :: "bool \<Rightarrow> int \<Rightarrow> rm_turns \<Rightarrow> rm_substream \<Rightarrow> ((int + unit) \<times> rm_turns \<times> rm_substream) option" where
  "read_wait nonblock result ts s =
     (if rawmidi_ready (rt s) then Some (Inr (), ts, s)
      else if nonblock \<or> result > 0 then Some (Inl (if result > 0 then result else - EAGAIN), ts, s)
      else
        let (ts, s) = turn ts s
        in if ss_shutdown s then Some (Inl (- ENODEV), ts, s)
           else if rm_avail (rt s) = 0 then Some (Inl (if result > 0 then result else - EIO), ts, s)
           else read_wait nonblock result ts s)"

partial_function (option) rawmidi_read ::
  "bool \<Rightarrow> (nat \<Rightarrow> nat \<Rightarrow> bool) \<Rightarrow> int \<Rightarrow> u8 list \<Rightarrow> rm_turns \<Rightarrow> rm_substream \<Rightarrow> (int \<times> u8 list \<times> rm_turns \<times> rm_substream) option" where
  "rawmidi_read nonblock bad n got ts s =
     (if n > 0 then
        Option.bind (read_wait nonblock (int (length got)) ts s) (\<lambda>(w, ts, s).
          case w of
            Inl e \<Rightarrow> Some (e, got, ts, s)
          | Inr _ \<Rightarrow>
              Option.bind (snd_rawmidi_kernel_read1 True (\<lambda>off. bad (length got + off)) n ts s) (\<lambda>(count1, xs, ts, s).
                if count1 < 0 then Some (if got \<noteq> [] then int (length got) else count1, got, ts, s)
                else rawmidi_read nonblock bad (n - count1) (got @ xs) ts s))
      else Some (int (length got), got, ts, s))"

text \<open>\<open>None\<close> is a file that is not open for input.\<close>

definition snd_rawmidi_read ::
  "rm_ops \<Rightarrow> bool \<Rightarrow> (nat \<Rightarrow> nat \<Rightarrow> bool) \<Rightarrow> int \<Rightarrow> rm_turns \<Rightarrow> rm_substream option \<Rightarrow>
   (int \<times> u8 list \<times> rm_turns \<times> rm_substream option) option" where
  "snd_rawmidi_read ops nonblock bad n ts substream =
     (case substream of
        None \<Rightarrow> Some (- EIO, [], ts, None)
      | Some s \<Rightarrow>
          map_option (\<lambda>(k, got, ts, s). (k, got, ts, Some s)) (rawmidi_read nonblock bad n [] ts (snd_rawmidi_input_trigger ops True s)))"

section \<open>Transmitting\<close>

definition snd_rawmidi_transmit_empty :: "rm_substream \<Rightarrow> bool" where
  "snd_rawmidi_transmit_empty s \<longleftrightarrow> (if rm_buffer (rt s) = [] then True else rm_avail (rt s) \<ge> rm_size (rt s))"

text \<open>The result and the bytes stored in the buffer of the caller.\<close>

definition snd_rawmidi_transmit_peek :: "int \<Rightarrow> rm_substream \<Rightarrow> (int \<times> u8 list) option" where
  "snd_rawmidi_transmit_peek n s =
     (let r = rt s
      in if rm_buffer r = [] then Some (- EINVAL, [])
         else if rm_avail r \<ge> rm_size r then Some (0, [])
         else if n = 1 then map_option (Pair 1) (copy_out (unat (rm_hw r)) 1 (rm_buffer r))
         else
           let count1 = sint (rm_size r - rm_hw r);
               count1 = (if count1 > n then n else count1);
               count1 = (if count1 > sint (rm_size r - rm_avail r) then sint (rm_size r - rm_avail r) else count1)
           in Option.bind (copy_out (unat (rm_hw r)) (nat count1) (rm_buffer r)) (\<lambda>xs.
                let n = n - count1
                in if n > 0
                   then
                     let left = sint (rm_size r - rm_avail r - word_of_int count1);
                         n = (if n > left then left else n)
                     in map_option (\<lambda>ys. (count1 + n, xs @ ys)) (copy_out 0 (nat n) (rm_buffer r))
                   else Some (count1, xs)))"

definition snd_rawmidi_transmit_ack :: "int \<Rightarrow> rm_substream \<Rightarrow> int \<times> rm_substream" where
  "snd_rawmidi_transmit_ack n s =
     (if rm_buffer (rt s) = [] then (- EINVAL, s)
      else
        let s = upd_rt (\<lambda>r. r\<lparr>rm_hw := (rm_hw r + word_of_int n) mod rm_size r, rm_avail := rm_avail r + word_of_int n\<rparr>) s;
            s = s\<lparr>ss_bytes := ss_bytes s + word_of_int n\<rparr>;
            s = (if n > 0 then upd_rt (\<lambda>r. if rm_drain r \<or> rawmidi_ready r then r\<lparr>rm_wakeups := rm_wakeups r + 1\<rparr> else r) s else s)
        in (n, s))"

definition snd_rawmidi_transmit :: "int \<Rightarrow> rm_substream \<Rightarrow> (int \<times> u8 list \<times> rm_substream) option" where
  "snd_rawmidi_transmit n s =
     (if \<not> ss_opened s then Some (- EBADFD, [], s)
      else
        Option.bind (snd_rawmidi_transmit_peek n s) (\<lambda>(n, xs).
          if n \<le> 0 then Some (n, xs, s)
          else let (result, s) = snd_rawmidi_transmit_ack n s in Some (result, xs, s)))"

definition snd_rawmidi_proceed :: "rm_substream \<Rightarrow> int \<times> rm_substream" where
  "snd_rawmidi_proceed s =
     (if rm_avail (rt s) < rm_size (rt s)
      then let n = sint (rm_size (rt s) - rm_avail (rt s)) in (n, snd (snd_rawmidi_transmit_ack n s))
      else (0, s))"

section \<open>Writing\<close>

partial_function (option) write_loop ::
  "bool \<Rightarrow> (nat \<Rightarrow> nat \<Rightarrow> bool) \<Rightarrow> u8 list \<Rightarrow> nat \<Rightarrow> rm_turns \<Rightarrow> rm_substream \<Rightarrow> (int \<times> rm_turns \<times> rm_substream) option" where
  "write_loop user bad data result ts s =
     (if data \<noteq> [] \<and> rm_avail (rt s) > 0 then
        let r = rt s; n = int (length data);
            count1 = sint (rm_size r - rm_appl r);
            count1 = (if count1 > n then n else count1);
            count1 = (if count1 > sint (rm_avail r) then sint (rm_avail r) else count1);
            p = unat (rm_appl r);
            s = upd_rt (\<lambda>r. r\<lparr>rm_appl := (rm_appl r + word_of_int count1) mod rm_size r, rm_avail := rm_avail r - word_of_int count1\<rparr>) s;
            (ts, s) = (if user then turn ts s else (ts, s))
        in if user \<and> bad result (nat count1) then Some (if result > 0 then int result else - EFAULT, ts, s)
           else
             Option.bind (copy_in p (take (nat count1) data) (rm_buffer (rt s))) (\<lambda>buf.
               let s = upd_rt (\<lambda>r. r\<lparr>rm_buffer := buf\<rparr>) s; (ts, s) = (if user then turn ts s else (ts, s))
               in write_loop user bad (drop (nat count1) data) (result + nat count1) ts s)
      else Some (int result, ts, s))"

definition snd_rawmidi_kernel_write1 ::
  "rm_ops \<Rightarrow> bool \<Rightarrow> (nat \<Rightarrow> nat \<Rightarrow> bool) \<Rightarrow> u8 list \<Rightarrow> rm_turns \<Rightarrow> rm_substream \<Rightarrow> (int \<times> rm_turns \<times> rm_substream) option" where
  "snd_rawmidi_kernel_write1 ops user bad data ts s =
     (if ss_append s \<and> sint (rm_avail (rt s)) < int (length data) then Some (- EAGAIN, ts, s)
      else
        map_option (\<lambda>(result, ts, s).
            let pending = rm_avail (rt s) < rm_size (rt s); s = upd_rt snd_rawmidi_buffer_unref s
            in (result, ts, if pending then snd_rawmidi_output_trigger ops True s else s))
          (write_loop user bad data 0 ts (upd_rt snd_rawmidi_buffer_ref s)))"

definition snd_rawmidi_kernel_write :: "rm_ops \<Rightarrow> u8 list \<Rightarrow> rm_substream \<Rightarrow> (int \<times> rm_substream) option" where
  "snd_rawmidi_kernel_write ops data s =
     map_option (\<lambda>(k, _, s). (k, s)) (snd_rawmidi_kernel_write1 ops False (\<lambda>_ _. False) data [] s)"

text \<open>\<^verbatim>\<open>schedule_timeout\<close> of \<^verbatim>\<open>lib32/timer.c\<close> waits the full time and returns 0.\<close>

partial_function (option) write_wait :: "bool \<Rightarrow> u32 \<Rightarrow> int \<Rightarrow> rm_turns \<Rightarrow> rm_substream \<Rightarrow> ((int + unit) \<times> rm_turns \<times> rm_substream) option" where
  "write_wait nonblock n result ts s =
     (if snd_rawmidi_ready_append s n then Some (Inr (), ts, s)
      else if nonblock then Some (Inl (if result > 0 then result else - EAGAIN), ts, s)
      else
        let (ts, s) = turn ts s
        in if ss_shutdown s then Some (Inl (- ENODEV), ts, s)
           else if rm_avail (rt s) = 0 then Some (Inl (if result > 0 then result else - EIO), ts, s)
           else write_wait nonblock n result ts s)"

partial_function (option) rawmidi_write ::
  "rm_ops \<Rightarrow> bool \<Rightarrow> (nat \<Rightarrow> nat \<Rightarrow> bool) \<Rightarrow> u8 list \<Rightarrow> nat \<Rightarrow> rm_turns \<Rightarrow> rm_substream \<Rightarrow> ((int + int) \<times> rm_turns \<times> rm_substream) option" where
  "rawmidi_write ops nonblock bad data result ts s =
     (if data \<noteq> [] then
        Option.bind (write_wait nonblock (of_nat (length data)) (int result) ts s) (\<lambda>(w, ts, s).
          case w of
            Inl e \<Rightarrow> Some (Inl e, ts, s)
          | Inr _ \<Rightarrow>
              Option.bind (snd_rawmidi_kernel_write1 ops True (\<lambda>off. bad (result + off)) data ts s) (\<lambda>(count1, ts, s).
                if count1 < 0 then Some (Inl (if result > 0 then int result else count1), ts, s)
                else if count1 < int (length data) \<and> nonblock then Some (Inr (int result + count1), ts, s)
                else rawmidi_write ops nonblock bad (drop (nat count1) data) (result + nat count1) ts s))
      else Some (Inr (int result), ts, s))"

text \<open>\<^verbatim>\<open>O_DSYNC\<close>: waiting until the buffer is empty.\<close>

partial_function (option) write_sync :: "int \<Rightarrow> rm_turns \<Rightarrow> rm_substream \<Rightarrow> (int \<times> rm_turns \<times> rm_substream) option" where
  "write_sync result ts s =
     (if rm_avail (rt s) \<noteq> rm_size (rt s) then
        let last_avail = rm_avail (rt s); (ts, s) = turn ts s
        in if rm_avail (rt s) = last_avail then Some (if result > 0 then result else - EIO, ts, s)
           else write_sync result ts s
      else Some (result, ts, s))"

definition snd_rawmidi_write ::
  "rm_ops \<Rightarrow> bool \<Rightarrow> bool \<Rightarrow> (nat \<Rightarrow> nat \<Rightarrow> bool) \<Rightarrow> u8 list \<Rightarrow> rm_turns \<Rightarrow> rm_substream \<Rightarrow> (int \<times> rm_turns \<times> rm_substream) option" where
  "snd_rawmidi_write ops nonblock dsync bad data ts s =
     (if ss_append s \<and> of_nat (length data) > rm_size (rt s) then Some (- EIO, ts, s)
      else
        Option.bind (rawmidi_write ops nonblock bad data 0 ts s) (\<lambda>(w, ts, s).
          case w of
            Inl e \<Rightarrow> Some (e, ts, s)
          | Inr result \<Rightarrow> if dsync then write_sync result ts s else Some (result, ts, s)))"


text \<open>\<^verbatim>\<open>snd_rawmidi_poll\<close>: whether the input can be read and whether the output can be written.\<close>

definition snd_rawmidi_poll :: "rm_ops \<Rightarrow> rm_substream option \<Rightarrow> rm_substream option \<Rightarrow> (bool \<times> bool) \<times> rm_substream option" where
  "snd_rawmidi_poll ops input output =
     (let input = map_option (snd_rawmidi_input_trigger ops True) input
      in ((case input of None \<Rightarrow> False | Some s \<Rightarrow> rawmidi_ready (rt s), case output of None \<Rightarrow> False | Some s \<Rightarrow> rawmidi_ready (rt s)), input))"

section \<open>Devices\<close>

record rm_str =
  st_count :: u32
  st_opened :: u32
  st_subs :: "rm_substream list"

text \<open>\<open>rd_streams\<close> gives the output streams for 0 and the input streams for 1; \<open>rd_wakeups\<close> counts \<^verbatim>\<open>wake_up(&rmidi->open_wait)\<close>.\<close>

record rm_device =
  rd_card :: nat
  rd_device :: u32
  rd_flags :: u32
  rd_id :: string
  rd_name :: string
  rd_streams :: "nat \<Rightarrow> rm_str"
  rd_wakeups :: nat

text \<open>A file holds the positions of its substreams.\<close>

record rm_file =
  rf_device :: "nat option"
  rf_input :: "nat option"
  rf_output :: "nat option"

record rm_info =
  in_card :: nat
  in_device :: u32
  in_subdevice :: u32
  in_stream :: int
  in_flags :: u32
  in_id :: string
  in_name :: string
  in_subname :: string
  in_count :: u32
  in_avail :: u32

definition upd_str :: "nat \<Rightarrow> (rm_str \<Rightarrow> rm_str) \<Rightarrow> rm_device \<Rightarrow> rm_device" where
  "upd_str d f rmidi = rmidi\<lparr>rd_streams := (rd_streams rmidi)(d := f (rd_streams rmidi d))\<rparr>"

definition upd_sub :: "nat \<Rightarrow> nat \<Rightarrow> rm_substream \<Rightarrow> rm_device \<Rightarrow> rm_device" where
  "upd_sub d i s = upd_str d (\<lambda>str. str\<lparr>st_subs := (st_subs str)[i := s]\<rparr>)"

definition sub_at :: "rm_device \<Rightarrow> nat \<Rightarrow> nat \<Rightarrow> rm_substream" where
  "sub_at rmidi d i = st_subs (rd_streams rmidi d) ! i"

definition snd_rawmidi_search :: "rm_device list \<Rightarrow> nat \<Rightarrow> u32 \<Rightarrow> nat option" where
  "snd_rawmidi_search devices cn device =
     find (\<lambda>i. rd_card (devices ! i) = cn \<and> rd_device (devices ! i) = device) [0..<length devices]"

definition assign_substream :: "rm_device \<Rightarrow> int \<Rightarrow> nat \<Rightarrow> u32 \<Rightarrow> int + nat" where
  "assign_substream rmidi subdevice stream mode =
     (let str = rd_streams rmidi stream
      in if rd_flags rmidi AND (if stream = 0 then 1 else 2) = 0 then Inl (- ENXIO)
         else if subdevice \<ge> 0 \<and> subdevice \<ge> uint (st_count str) then Inl (- ENODEV)
         else
           case find (\<lambda>i. let s = st_subs str ! i
                 in \<not> (ss_opened s \<and> (stream = 1 \<or> mode AND 4 = 0 \<or> \<not> ss_append s)) \<and> (subdevice < 0 \<or> subdevice = ss_number s))
               [0..<length (st_subs str)] of
             None \<Rightarrow> Inl (- EAGAIN)
           | Some i \<Rightarrow> Inr i)"

text \<open>\<open>mem\<close>: what can be allocated.\<close>

definition open_substream :: "rm_ops \<Rightarrow> bool \<times> bool \<Rightarrow> u32 \<Rightarrow> nat \<Rightarrow> nat \<Rightarrow> rm_device \<Rightarrow> int \<times> rm_device" where
  "open_substream ops mem mode d i rmidi =
     (let s = sub_at rmidi d i
      in if ss_use s = 0
         then
           let (err, s) = snd_rawmidi_runtime_create mem s
           in if err < 0 then (err, upd_sub d i s rmidi)
              else
                let (err, s) = op_open ops s
                in if err < 0 then (err, upd_sub d i (snd_rawmidi_runtime_free s) rmidi)
                   else
                     let s = s\<lparr>ss_opened := True, ss_sensing := False, ss_append := (ss_append s \<or> mode AND 4 \<noteq> 0), ss_use := ss_use s + 1\<rparr>
                     in (0, upd_str d (\<lambda>str. str\<lparr>st_opened := st_opened str + 1\<rparr>) (upd_sub d i s rmidi))
         else (0, upd_sub d i (s\<lparr>ss_use := ss_use s + 1\<rparr>) rmidi))"

definition close_substream :: "rm_ops \<Rightarrow> bool \<Rightarrow> nat \<Rightarrow> nat \<Rightarrow> rm_turns \<Rightarrow> rm_device \<Rightarrow> (rm_turns \<times> rm_device) option" where
  "close_substream ops cleanup d i ts rmidi =
     (let s = sub_at rmidi d i; s = s\<lparr>ss_use := ss_use s - 1\<rparr>
      in if ss_use s \<noteq> 0 then Some (ts, upd_sub d i s rmidi)
         else
           map_option (\<lambda>(ts, s).
               let s = op_close ops s;
                   s = (if rm_free (rt s) \<noteq> 0 then op_free ops (rm_free (rt s)) s else s);
                   s = (snd_rawmidi_runtime_free s)\<lparr>ss_opened := False, ss_append := False\<rparr>
               in (ts, upd_str d (\<lambda>str. str\<lparr>st_opened := st_opened str - 1\<rparr>) (upd_sub d i s rmidi)))
             (if cleanup
              then if ss_stream s = 1 then Some (ts, snd_rawmidi_input_trigger ops False s)
                   else map_option (\<lambda>s. snd (snd_rawmidi_drain_output ops ts s))
                          (if ss_sensing s then map_option snd (snd_rawmidi_kernel_write ops [0xfe] s) else Some s)
              else Some (ts, s)))"

definition rawmidi_open_priv ::
  "rm_ops \<Rightarrow> (nat \<Rightarrow> bool \<times> bool) \<Rightarrow> int \<Rightarrow> u32 \<Rightarrow> rm_device \<Rightarrow> (int \<times> (nat option \<times> nat option) \<times> rm_device) option" where
  "rawmidi_open_priv ops mem subdevice mode rmidi =
     (let want = (\<lambda>stream bit. if mode AND bit \<noteq> 0 then map_sum id Some (assign_substream rmidi subdevice stream mode) else Inr None)
      in case want 1 2 of
           Inl err \<Rightarrow> Some (err, (None, None), rmidi)
         | Inr sinput \<Rightarrow>
             case want 0 1 of
               Inl err \<Rightarrow> Some (err, (None, None), rmidi)
             | Inr soutput \<Rightarrow>
                 let (err, rmidi) = (case sinput of None \<Rightarrow> (0, rmidi) | Some i \<Rightarrow> open_substream ops (mem 1) mode 1 i rmidi)
                 in if err < 0 then Some (err, (None, None), rmidi)
                    else
                      let (err, rmidi) = (case soutput of None \<Rightarrow> (0, rmidi) | Some i \<Rightarrow> open_substream ops (mem 0) mode 0 i rmidi)
                      in if err < 0
                         then map_option (\<lambda>rmidi. (err, (None, None), rmidi))
                                (case sinput of None \<Rightarrow> Some rmidi | Some i \<Rightarrow> map_option snd (close_substream ops False 1 i [] rmidi))
                         else Some (0, (sinput, soutput), rmidi))"

definition rawmidi_release_priv ::
  "rm_ops \<Rightarrow> nat option \<times> nat option \<Rightarrow> rm_turns \<Rightarrow> rm_device \<Rightarrow> (rm_turns \<times> rm_device) option" where
  "rawmidi_release_priv ops rfile ts rmidi =
     Option.bind (case fst rfile of None \<Rightarrow> Some (ts, rmidi) | Some i \<Rightarrow> close_substream ops True 1 i ts rmidi) (\<lambda>(ts, rmidi).
       map_option (\<lambda>(ts, rmidi). (ts, rmidi\<lparr>rd_wakeups := rd_wakeups rmidi + 1\<rparr>))
         (case snd rfile of None \<Rightarrow> Some (ts, rmidi) | Some i \<Rightarrow> close_substream ops True 0 i ts rmidi))"

definition snd_rawmidi_info :: "rm_device \<Rightarrow> (nat \<times> nat) option \<Rightarrow> rm_info \<Rightarrow> int \<times> rm_info" where
  "snd_rawmidi_info rmidi sub info =
     (case sub of
        None \<Rightarrow> (- ENODEV, info)
      | Some (d, i) \<Rightarrow>
          let s = sub_at rmidi d i; str = rd_streams rmidi d
          in (0, \<lparr>in_card = rd_card rmidi, in_device = rd_device rmidi, in_subdevice = word_of_int (ss_number s), in_stream = int d,
                in_flags = rd_flags rmidi, in_id = rd_id rmidi, in_name = rd_name rmidi, in_subname = ss_name s,
                in_count = st_count str, in_avail = st_count str - st_opened str\<rparr>))"

definition snd_rawmidi_info_select :: "rm_device list \<Rightarrow> nat \<Rightarrow> rm_info \<Rightarrow> int \<times> rm_info" where
  "snd_rawmidi_info_select devices cn info =
     (case snd_rawmidi_search devices cn (in_device info) of
        None \<Rightarrow> (- ENXIO, info)
      | Some k \<Rightarrow>
          if in_stream info < 0 \<or> in_stream info > 1 then (- EINVAL, info)
          else
            let d = nat (in_stream info); str = rd_streams (devices ! k) d
            in if st_count str = 0 then (- ENOENT, info)
               else if in_subdevice info \<ge> st_count str then (- ENXIO, info)
               else
                 case find (\<lambda>i. word_of_int (ss_number (st_subs str ! i)) = in_subdevice info) [0..<length (st_subs str)] of
                   None \<Rightarrow> (- ENXIO, info)
                 | Some i \<Rightarrow> snd_rawmidi_info (devices ! k) (Some (d, i)) info)"

text \<open>\<open>uses\<close> is the use count of the module, which \<^verbatim>\<open>try_module_get\<close> raises and \<^verbatim>\<open>module_put\<close> leaves alone in this build.\<close>

definition snd_rawmidi_kernel_open ::
  "rm_ops \<Rightarrow> (nat \<Rightarrow> bool \<times> bool) \<Rightarrow> nat \<Rightarrow> u32 \<Rightarrow> int \<Rightarrow> u32 \<Rightarrow> u32 \<Rightarrow> rm_device list \<Rightarrow> (int \<times> rm_file \<times> u32 \<times> rm_device list) option" where
  "snd_rawmidi_kernel_open ops mem cn device subdevice mode uses devices =
     (case snd_rawmidi_search devices cn device of
        None \<Rightarrow> Some (- ENODEV, \<lparr>rf_device = None, rf_input = None, rf_output = None\<rparr>, uses, devices)
      | Some k \<Rightarrow>
          if uses + 1 = 0 then Some (- ENXIO, \<lparr>rf_device = None, rf_input = None, rf_output = None\<rparr>, uses + 1, devices)
          else
            map_option (\<lambda>(err, (i, j), rmidi). (err, \<lparr>rf_device = (if err < 0 then None else Some k), rf_input = i, rf_output = j\<rparr>, uses + 1, devices[k := rmidi]))
              (rawmidi_open_priv ops mem subdevice mode (devices ! k)))"

definition snd_rawmidi_kernel_release :: "rm_ops \<Rightarrow> rm_turns \<Rightarrow> nat \<Rightarrow> rm_file \<Rightarrow> rm_device list \<Rightarrow> (rm_turns \<times> rm_file \<times> rm_device list) option" where
  "snd_rawmidi_kernel_release ops ts k rfile devices =
     map_option (\<lambda>(ts, rmidi). (ts, \<lparr>rf_device = None, rf_input = None, rf_output = None\<rparr>, devices[k := rmidi]))
       (rawmidi_release_priv ops (rf_input rfile, rf_output rfile) ts (devices ! k))"

text \<open>\<open>mem\<close>: how many substreams can be allocated.\<close>

definition snd_rawmidi_alloc_substreams :: "nat \<Rightarrow> nat \<Rightarrow> nat \<Rightarrow> rm_str \<Rightarrow> int \<times> rm_str" where
  "snd_rawmidi_alloc_substreams mem direction n str =
     (let k = min mem n;
          new = map (\<lambda>idx. \<lparr>ss_stream = direction, ss_number = int idx, ss_opened = False, ss_append = False, ss_sensing = False,
            ss_framing = 0, ss_clock = 0, ss_use = 0, ss_bytes = 0, ss_name = [], ss_runtime = None, ss_shutdown = False\<rparr>) [0..<k]
      in (if mem < n then - ENOMEM else 0, str\<lparr>st_subs := st_subs str @ new, st_count := st_count str + of_nat k\<rparr>))"

end
