(* ===== verification/RawMidiRing.thy ===== *)
theory RawMidiRing
  imports RawMidi
begin

text \<open>
  The ring buffer of a raw MIDI substream as a queue of bytes. One copy into the ring or out of it is a lemma for
  either side; the operations of the driver and of the user are then first-in first-out, lose exactly what does
  not fit, and never leave the buffer.
\<close>


section \<open>Rings\<close>

text \<open>\<open>ring buf p n\<close>: the \<open>n\<close> bytes of the ring from position \<open>p\<close> on.\<close>

definition ring :: "'a list \<Rightarrow> nat \<Rightarrow> nat \<Rightarrow> 'a list" where
  "ring buf p n = map (\<lambda>i. buf ! ((p + i) mod length buf)) [0..<n]"

lemma length_ring [simp]: "length (ring buf p n) = n"
  by (simp add: ring_def)

lemma ring_0 [simp]: "ring buf p 0 = []"
  by (simp add: ring_def)

lemma ring_append: "ring buf p (m + n) = ring buf p m @ ring buf ((p + m) mod length buf) n"
  by (rule nth_equalityI) (auto simp: ring_def nth_append mod_simps add.assoc)

lemma ring_straight: "p + n \<le> length buf \<Longrightarrow> ring buf p n = take n (drop p buf)"
  by (rule nth_equalityI) (auto simp: ring_def)

text \<open>Writing straight at the end of the contents extends them and keeps the rest.\<close>

lemma ring_write:
  assumes "w + length xs \<le> length buf" "w = (p + n) mod length buf" "n + length xs \<le> length buf"
  shows "ring (take w buf @ xs @ drop (w + length xs) buf) p n = ring buf p n"
    "ring (take w buf @ xs @ drop (w + length xs) buf) p (n + length xs) = ring buf p n @ xs"
proof -
  let ?b = "take w buf @ xs @ drop (w + length xs) buf" and ?N = "length buf"
  have len: "length ?b = ?N" using assms(1) by simp
  have out: "?b ! j = buf ! j" if "j < ?N" "j < w \<or> w + length xs \<le> j" for j
    using that assms(1) by (auto simp: nth_append min_def)
  show first: "ring ?b p n = ring buf p n"
  proof (rule nth_equalityI)
    fix i assume "i < length (ring ?b p n)"
    then have i: "i < n" by simp
    then have N: "0 < ?N" using assms(3) by linarith
    let ?j = "(p + i) mod ?N"
    have "?j < w \<or> w + length xs \<le> ?j"
    proof (rule ccontr)
      assume "\<not> ?thesis"
      then obtain k where k: "k < length xs" "?j = w + k" by (metis add_diff_inverse_nat not_le not_less nat_add_left_cancel_less)
      have "(p + i) mod ?N = (p + n + k) mod ?N" using k assms(1,2) by (metis mod_add_left_eq mod_less less_le_trans nat_add_left_cancel_less)
      then have "?N dvd (p + n + k) - (p + i)" using mod_eq_dvd_iff_nat [of "p + i" "p + n + k" ?N] i by simp
      moreover have "0 < (p + n + k) - (p + i)" "(p + n + k) - (p + i) < ?N" using i k assms(3) by auto
      ultimately show False by (meson nat_dvd_not_less)
    qed
    then show "ring ?b p n ! i = ring buf p n ! i" unfolding ring_def len using i N out [of ?j] by simp
  qed simp
  have "ring ?b w (length xs) = xs" using assms(1) by (subst ring_straight) (auto simp: min_def)
  then show "ring ?b p (n + length xs) = ring buf p n @ xs" using first assms(2) len by (simp only: ring_append)
qed


definition ring_ok :: "'a list \<Rightarrow> nat \<Rightarrow> nat \<Rightarrow> nat \<Rightarrow> bool" where
  "ring_ok buf p n w \<longleftrightarrow> p < length buf \<and> n \<le> length buf \<and> w = (p + n) mod length buf"

lemma ring_put:
  assumes "ring_ok buf p n w" "w + length xs \<le> length buf" "n + length xs \<le> length buf"
  shows "\<exists>buf'. copy_in w xs buf = Some buf' \<and> length buf' = length buf \<and>
    ring_ok buf' p (n + length xs) ((w + length xs) mod length buf) \<and> ring buf' p (n + length xs) = ring buf p n @ xs"
proof (intro exI conjI)
  let ?b = "take w buf @ xs @ drop (w + length xs) buf"
  show "copy_in w xs buf = Some ?b" using assms(2) by (simp add: copy_in_def)
  show len: "length ?b = length buf" using assms(2) by simp
  have "(w + length xs) mod length buf = (p + (n + length xs)) mod length buf" using assms(1) by (simp add: ring_ok_def mod_simps add.assoc)
  then show "ring_ok ?b p (n + length xs) ((w + length xs) mod length buf)" using assms(1,3) unfolding ring_ok_def len by simp
  show "ring ?b p (n + length xs) = ring buf p n @ xs" using assms by (intro ring_write(2)) (auto simp: ring_ok_def)
qed

lemma ring_skip:
  assumes "ring_ok buf p n w" "k \<le> n"
  shows "ring_ok buf ((p + k) mod length buf) (n - k) w"
    "ring buf ((p + k) mod length buf) (n - k) = drop k (ring buf p n)"
proof -
  have split: "ring buf p n = ring buf p k @ ring buf ((p + k) mod length buf) (n - k)" using ring_append [of buf p k "n - k"] assms(2) by simp
  show "ring_ok buf ((p + k) mod length buf) (n - k) w"
  proof -
    have "((p + k) mod length buf + (n - k)) mod length buf = (p + n) mod length buf" 
      using assms(2) mod_add_left_eq [of "p + k" "length buf" "n - k"] by simp
    then show ?thesis using assms(1) unfolding ring_ok_def by (auto intro: mod_less_divisor)
  qed
  show "ring buf ((p + k) mod length buf) (n - k) = drop k (ring buf p n)" unfolding split by simp
qed

lemma ring_get:
  assumes "ring_ok buf p n w" "k \<le> n" "p + k \<le> length buf"
  shows "copy_out p k buf = Some (take k (ring buf p n))" "ring_ok buf ((p + k) mod length buf) (n - k) w"
    "ring buf ((p + k) mod length buf) (n - k) = drop k (ring buf p n)"
proof -
  show "copy_out p k buf = Some (take k (ring buf p n))"
    using ring_append [of buf p k "n - k"] assms(2,3) by (simp add: copy_out_def ring_straight)
qed (rule ring_skip [OF assms(1,2)])+

section \<open>The two sides of a stream\<close>

text \<open>
  The buffer has its size, at most a megabyte, and the pointers lie in it. Input bytes wait between the
  application pointer and the hardware pointer, output bytes between the hardware and the application pointer.
\<close>

definition size_ok :: "rm_runtime \<Rightarrow> bool" where
  "size_ok r \<longleftrightarrow> length (rm_buffer r) = unat (rm_size r) \<and> 0 < unat (rm_size r) \<and> unat (rm_size r) \<le> 1048576 \<and> rm_avail r \<le> rm_size r"

definition input_ok :: "rm_runtime \<Rightarrow> bool" where
  "input_ok r \<longleftrightarrow> size_ok r \<and> ring_ok (rm_buffer r) (unat (rm_appl r)) (unat (rm_avail r)) (unat (rm_hw r))"

definition input_bytes :: "rm_runtime \<Rightarrow> u8 list" where
  "input_bytes r = ring (rm_buffer r) (unat (rm_appl r)) (unat (rm_avail r))"

definition output_ok :: "rm_runtime \<Rightarrow> bool" where
  "output_ok r \<longleftrightarrow> size_ok r \<and> ring_ok (rm_buffer r) (unat (rm_hw r)) (unat (rm_size r) - unat (rm_avail r)) (unat (rm_appl r))"

definition output_bytes :: "rm_runtime \<Rightarrow> u8 list" where
  "output_bytes r = ring (rm_buffer r) (unat (rm_hw r)) (unat (rm_size r) - unat (rm_avail r))"

text \<open>Arithmetic on sizes up to a megabyte does not wrap.\<close>

lemma small_sint: "unat (x :: u32) \<le> 1048576 \<Longrightarrow> sint x = int (unat x)"
  by (rule sint_unat) simp

lemma small_diff: "unat b \<le> unat a \<Longrightarrow> unat (a - b :: u32) = unat a - unat b"
  by (simp add: unat_sub32)

lemma small_word: "c \<le> 1048576 \<Longrightarrow> unat (word_of_int (int c) :: u32) = c"
  by (simp add: unat_of_nat)

lemma small_add: "unat (a :: u32) \<le> 1048576 \<Longrightarrow> c \<le> 1048576 \<Longrightarrow> unat (a + word_of_int (int c)) = unat a + c"
  by (simp add: unat_add32 unat_of_nat)

lemma small_sub: "unat (a :: u32) \<le> 1048576 \<Longrightarrow> c \<le> unat a \<Longrightarrow> unat (a - word_of_int (int c)) = unat a - c"
  by (simp add: unat_sub32 unat_of_nat)

lemma small_step: "unat (a :: u32) \<le> 1048576 \<Longrightarrow> c \<le> 1048576 \<Longrightarrow> unat ((a + word_of_int (int c)) mod m) = (unat a + c) mod unat m"
  by (simp add: unat_mod small_add del: of_int_of_nat_eq)


lemma size_okD:
  assumes "size_ok r"
  shows "length (rm_buffer r) = unat (rm_size r)" "0 < unat (rm_size r)" "unat (rm_size r) \<le> 1048576" "unat (rm_avail r) \<le> unat (rm_size r)"
  using assms by (auto simp: size_ok_def word_le_nat_alt)

lemma input_okD:
  assumes "input_ok r"
  shows "size_ok r" "ring_ok (rm_buffer r) (unat (rm_appl r)) (unat (rm_avail r)) (unat (rm_hw r))" "unat (rm_hw r) < unat (rm_size r)" "unat (rm_appl r) < unat (rm_size r)"
  using assms size_okD [of r] by (auto simp: input_ok_def ring_ok_def)

lemma output_okD:
  assumes "output_ok r"
  shows "size_ok r" "ring_ok (rm_buffer r) (unat (rm_hw r)) (unat (rm_size r) - unat (rm_avail r)) (unat (rm_appl r))"
    "unat (rm_hw r) < unat (rm_size r)" "unat (rm_appl r) < unat (rm_size r)"
  using assms size_okD [of r] by (auto simp: output_ok_def ring_ok_def)

text \<open>One copy into the ring and one copy out of it, on either side.\<close>

lemma input_put:
  assumes ok: "input_ok r" and c: "length xs = c" and fits: "unat (rm_hw r) + c \<le> unat (rm_size r)" "unat (rm_avail r) + c \<le> unat (rm_size r)"
  shows "\<exists>b. copy_in (unat (rm_hw r)) xs (rm_buffer r) = Some b \<and>
    (let r' = r\<lparr>rm_buffer := b, rm_hw := (rm_hw r + word_of_int (int c)) mod rm_size r, rm_avail := rm_avail r + word_of_int (int c)\<rparr>
     in input_ok r' \<and> input_bytes r' = input_bytes r @ xs \<and> unat (rm_avail r') = unat (rm_avail r) + c)"
proof -
  note s = size_okD [OF input_okD(1) [OF ok]]
  have c': "c \<le> 1048576" using fits s by linarith
  have u: "unat ((rm_hw r + word_of_int (int c)) mod rm_size r) = (unat (rm_hw r) + c) mod unat (rm_size r)"
    "unat (rm_avail r + word_of_int (int c)) = unat (rm_avail r) + c"
    using s c' input_okD(3) [OF ok] by (simp_all add: small_step small_add del: of_int_of_nat_eq)
  obtain b where b: "copy_in (unat (rm_hw r)) xs (rm_buffer r) = Some b" "length b = unat (rm_size r)"
    "ring_ok b (unat (rm_appl r)) (unat (rm_avail r) + c) ((unat (rm_hw r) + c) mod unat (rm_size r))"
    "ring b (unat (rm_appl r)) (unat (rm_avail r) + c) = input_bytes r @ xs"
    using ring_put [OF input_okD(2) [OF ok], of xs] fits unfolding c s(1) input_bytes_def by blast
  show ?thesis unfolding Let_def input_ok_def size_ok_def input_bytes_def using b s fits
    by (intro exI [of _ b]) (simp add: u word_le_nat_alt input_bytes_def del: of_int_of_nat_eq)
qed

lemma input_get:
  assumes ok: "input_ok r" and fits: "unat (rm_appl r) + c \<le> unat (rm_size r)" "c \<le> unat (rm_avail r)"
  shows "copy_out (unat (rm_appl r)) c (rm_buffer r) = Some (take c (input_bytes r)) \<and>
    (let r' = r\<lparr>rm_appl := (rm_appl r + word_of_int (int c)) mod rm_size r, rm_avail := rm_avail r - word_of_int (int c)\<rparr>
     in input_ok r' \<and> input_bytes r' = drop c (input_bytes r) \<and> unat (rm_avail r') = unat (rm_avail r) - c)"
proof -
  note s = size_okD [OF input_okD(1) [OF ok]]
  have c': "c \<le> 1048576" using fits s by linarith
  have u: "unat ((rm_appl r + word_of_int (int c)) mod rm_size r) = (unat (rm_appl r) + c) mod unat (rm_size r)"
    "unat (rm_avail r - word_of_int (int c)) = unat (rm_avail r) - c"
    using s c' fits input_okD(4) [OF ok] by (simp_all add: small_step small_sub del: of_int_of_nat_eq)
  note g = ring_get [OF input_okD(2) [OF ok], of c, unfolded s(1), OF fits(2,1)]
  show ?thesis unfolding Let_def input_ok_def size_ok_def input_bytes_def using g s fits
    by (simp add: u word_le_nat_alt input_bytes_def del: of_int_of_nat_eq)
qed

lemma output_put:
  assumes ok: "output_ok r" and c: "length xs = c" and fits: "unat (rm_appl r) + c \<le> unat (rm_size r)" "c \<le> unat (rm_avail r)"
  shows "\<exists>b. copy_in (unat (rm_appl r)) xs (rm_buffer r) = Some b \<and>
    (let r' = r\<lparr>rm_appl := (rm_appl r + word_of_int (int c)) mod rm_size r, rm_avail := rm_avail r - word_of_int (int c), rm_buffer := b\<rparr>
     in output_ok r' \<and> output_bytes r' = output_bytes r @ xs \<and> unat (rm_avail r') = unat (rm_avail r) - c)"
proof -
  note s = size_okD [OF output_okD(1) [OF ok]]
  have c': "c \<le> 1048576" "unat (rm_size r) - unat (rm_avail r) + c = unat (rm_size r) - (unat (rm_avail r) - c)"
    "unat (rm_size r) - unat (rm_avail r) + c \<le> unat (rm_size r)" using fits s by linarith+
  have u: "unat ((rm_appl r + word_of_int (int c)) mod rm_size r) = (unat (rm_appl r) + c) mod unat (rm_size r)"
    "unat (rm_avail r - word_of_int (int c)) = unat (rm_avail r) - c"
    using s c' fits output_okD(4) [OF ok] by (simp_all add: small_step small_sub del: of_int_of_nat_eq)
  obtain b where b: "copy_in (unat (rm_appl r)) xs (rm_buffer r) = Some b" "length b = unat (rm_size r)"
    "ring_ok b (unat (rm_hw r)) (unat (rm_size r) - (unat (rm_avail r) - c)) ((unat (rm_appl r) + c) mod unat (rm_size r))"
    "ring b (unat (rm_hw r)) (unat (rm_size r) - (unat (rm_avail r) - c)) = output_bytes r @ xs"
    using ring_put [OF output_okD(2) [OF ok], of xs] fits(1) c'(3) unfolding c s(1) output_bytes_def c'(2) by blast
  show ?thesis unfolding Let_def output_ok_def size_ok_def output_bytes_def using b s fits
    by (intro exI [of _ b]) (simp add: u word_le_nat_alt output_bytes_def del: of_int_of_nat_eq)
qed

lemma output_get:
  assumes ok: "output_ok r" and fits: "unat (rm_hw r) + c \<le> unat (rm_size r)" "unat (rm_avail r) + c \<le> unat (rm_size r)"
  shows "copy_out (unat (rm_hw r)) c (rm_buffer r) = Some (take c (output_bytes r))"
  using ring_get(1) [OF output_okD(2) [OF ok], of c] fits size_okD(1) [OF output_okD(1) [OF ok]] by (simp add: output_bytes_def)

lemma output_advance:
  assumes ok: "output_ok r" and fits: "unat (rm_avail r) + c \<le> unat (rm_size r)"
  shows "let r' = r\<lparr>rm_hw := (rm_hw r + word_of_int (int c)) mod rm_size r, rm_avail := rm_avail r + word_of_int (int c)\<rparr>
     in output_ok r' \<and> output_bytes r' = drop c (output_bytes r)"
proof -
  note s = size_okD [OF output_okD(1) [OF ok]]
  have c': "c \<le> 1048576" "unat (rm_size r) - (unat (rm_avail r) + c) = unat (rm_size r) - unat (rm_avail r) - c"
     "c \<le> unat (rm_size r) - unat (rm_avail r)" using fits s by linarith+
  have u: "unat ((rm_hw r + word_of_int (int c)) mod rm_size r) = (unat (rm_hw r) + c) mod unat (rm_size r)"
    "unat (rm_avail r + word_of_int (int c)) = unat (rm_avail r) + c"
    using s c' output_okD(3) [OF ok] by (simp_all add: small_step small_add del: of_int_of_nat_eq)
  have "ring_ok (rm_buffer r) ((unat (rm_hw r) + c) mod unat (rm_size r)) (unat (rm_size r) - unat (rm_avail r) - c) (unat (rm_appl r))"
    "ring (rm_buffer r) ((unat (rm_hw r) + c) mod unat (rm_size r)) (unat (rm_size r) - unat (rm_avail r) - c) = drop c (output_bytes r)"
    using ring_skip [OF output_okD(2) [OF ok] c'(3)] unfolding s(1) output_bytes_def by blast+
  then show ?thesis unfolding Let_def output_ok_def size_ok_def output_bytes_def using s fits
    by (simp add: u word_le_nat_alt output_bytes_def del: of_int_of_nat_eq)
qed


text \<open>Receiving keeps what fits and counts the rest as lost.\<close>

definition received :: "u8 list \<Rightarrow> rm_runtime \<Rightarrow> int \<Rightarrow> rm_runtime \<Rightarrow> bool" where
  "received data r result r' \<longleftrightarrow> (let k = min (length data) (unat (rm_size r) - unat (rm_avail r))
     in result = int k \<and> input_ok r' \<and> input_bytes r' = input_bytes r @ take k data \<and> rm_xruns r' = rm_xruns r + of_nat (length data - k) \<and>
        rm_size r' = rm_size r \<and> rm_appl r' = rm_appl r \<and> rm_avail_min r' = rm_avail_min r \<and> rm_ref r' = rm_ref r \<and> rm_event r' = rm_event r \<and>
        rm_private r' = rm_private r)"

lemma ok_xruns [simp]: "input_ok (r\<lparr>rm_xruns := x\<rparr>) = input_ok r" "input_bytes (r\<lparr>rm_xruns := x\<rparr>) = input_bytes r"
  by (simp_all add: input_ok_def size_ok_def input_bytes_def)

lemma receive_second:
  assumes ok: "input_ok r" and hw: "rm_hw r = 0" and c: "length xs = c" "0 < c" "c < unat (rm_size r)" "unat (rm_avail r) + c \<le> unat (rm_size r)"
  shows "\<exists>b. copy_in 0 xs (rm_buffer r) = Some b \<and>
    (let r' = r\<lparr>rm_buffer := b, rm_hw := word_of_int (int c), rm_avail := rm_avail r + word_of_int (int c)\<rparr> in input_ok r' \<and> input_bytes r' = input_bytes r @ xs)"
proof -
  have "unat (word_of_int (int c) :: u32) = c" using c size_okD(3) [OF input_okD(1) [OF ok]] by (intro small_word) linarith
  then have "(0 + word_of_int (int c)) mod rm_size r = (word_of_int (int c) :: u32)" using c(3) by (simp add: word_unat_eq_iff unat_mod)
  then show ?thesis using input_put [OF ok c(1)] c hw unfolding Let_def by auto
qed

lemma receive_bytes_outcome:
  assumes ok: "input_ok r"
  shows "\<exists>k r'. receive_bytes data r = Some (k, r') \<and> received data r k r'"
proof -
  let ?N = "unat (rm_size r)" and ?n = "unat (rm_avail r)" and ?w = "unat (rm_hw r)" and ?L = "length data"
  note sz = size_okD [OF input_okD(1) [OF ok]] and w = input_okD(3) [OF ok]
  have d: "sint (rm_size r - rm_hw r) = int (?N - ?w)" "sint (rm_size r - rm_avail r) = int (?N - ?n)"
    using sz w by (simp_all add: small_sint small_diff)
  define c where "c = min (?N - ?w) (min ?L (?N - ?n))"
  have c: "c \<le> ?L" "?w + c \<le> ?N" "?n + c \<le> ?N" "length (take c data) = c" using sz w by (auto simp: c_def)
  have c1: "(if (if int (?N - ?w) > int ?L then int ?L else int (?N - ?w)) > int (?N - ?n) then int (?N - ?n)
      else if int (?N - ?w) > int ?L then int ?L else int (?N - ?w)) = int c" unfolding c_def by auto
  obtain b1 where b1: "copy_in ?w (take c data) (rm_buffer r) = Some b1"
    "let r1 = r\<lparr>rm_buffer := b1, rm_hw := (rm_hw r + word_of_int (int c)) mod rm_size r, rm_avail := rm_avail r + word_of_int (int c)\<rparr>
     in input_ok r1 \<and> input_bytes r1 = input_bytes r @ take c data \<and> unat (rm_avail r1) = ?n + c"
    using input_put [OF ok c(4,2,3)] by blast
  define r1 where "r1 = r\<lparr>rm_buffer := b1, rm_hw := (rm_hw r + word_of_int (int c)) mod rm_size r, rm_avail := rm_avail r + word_of_int (int c)\<rparr>"
  have ok1: "input_ok r1" "input_bytes r1 = input_bytes r @ take c data" "unat (rm_avail r1) = ?n + c" "rm_size r1 = rm_size r" "rm_xruns r1 = rm_xruns r"
    using b1(2) unfolding Let_def r1_def by simp_all
  define f where "f = ?N - ?n - c"
  have df: "sint (rm_size r1 - rm_avail r1) = int f" using ok1 sz c by (simp add: f_def small_sint small_diff)
  have start: "receive_bytes data r =
      (if c < ?L
       then let (count1, r) = (if int ?L - int c > int f then (int f, r1\<lparr>rm_xruns := rm_xruns r1 + word_of_int (int ?L - int c - int f)\<rparr>) else (int ?L - int c, r1))
         in if count1 > 0
            then map_option (\<lambda>buf. (int c + count1, r\<lparr>rm_buffer := buf, rm_hw := word_of_int count1, rm_avail := rm_avail r + word_of_int count1\<rparr>))
                   (copy_in 0 (take (nat count1) (drop c data)) (rm_buffer r))
            else Some (int c, r)
       else Some (int c, r1))"
    unfolding receive_bytes_def Let_def d c1 nat_int b1(1) option.case r1_def [symmetric] df by simp
  show ?thesis
  proof (cases "c < ?L \<and> 0 < f")
    case False
    then have k: "min ?L (?N - ?n) = c" using c unfolding f_def by auto
    have "receive_bytes data r = Some (int c, r1\<lparr>rm_xruns := rm_xruns r + of_nat (?L - c)\<rparr>)" 
      unfolding start using False c ok1(5) by (auto simp: of_nat_diff)
    then show ?thesis unfolding received_def Let_def k using ok1 by (auto simp: r1_def)
  next
    case True
    then have "c < ?L" "c < ?N - ?n" by (auto simp: f_def)
    then have cw: "c = ?N - ?w" unfolding c_def by (simp add: min_def split: if_splits)
    define c2 where "c2 = min (?L - c) f"
    have c2: "length (take c2 (drop c data)) = c2" "0 < c2" "c2 < ?N" "?n + c + c2 \<le> ?N" "min ?L (?N - ?n) = c + c2"
      using True c cw w unfolding c2_def f_def by auto
    have "unat (rm_hw r1) = 0" using small_step [of "rm_hw r" c "rm_size r"] cw w sz by (simp add: r1_def del: of_int_of_nat_eq)
    then have hw1: "rm_hw r1 = 0" by (simp add: unat_eq_zero)
    obtain b2 where b2: "copy_in 0 (take c2 (drop c data)) (rm_buffer r1) = Some b2"
      "let r2 = r1\<lparr>rm_buffer := b2, rm_hw := word_of_int (int c2), rm_avail := rm_avail r1 + word_of_int (int c2)\<rparr>
       in input_ok r2 \<and> input_bytes r2 = input_bytes r1 @ take c2 (drop c data)"
      using receive_second [OF ok1(1) hw1 c2(1,2)] c2(3,4) unfolding ok1(3,4) by blast
    have "receive_bytes data r = Some (int (c + c2), r1\<lparr>rm_buffer := b2, rm_hw := word_of_int (int c2),
        rm_avail := rm_avail r1 + word_of_int (int c2), rm_xruns := rm_xruns r + of_nat (?L - (c + c2))\<rparr>)"
    proof (cases "f < ?L - c")
      case True
      then have "c2 = f" "int ?L - int c > int f" "(word_of_int (int ?L - int c - int f) :: u32) = of_nat (?L - (c + f))"
        by (auto simp: c2_def of_nat_diff)
      then show ?thesis unfolding start using \<open>c < ?L \<and> 0 < f\<close> b2(1) ok1(5) by simp
    next
      case False
      then have "int ?L - int c = int c2" "\<not> int ?L - int c > int f" "?L - (c + c2) = 0" using c by (auto simp: c2_def)
      then show ?thesis unfolding start using \<open>c < ?L \<and> 0 < f\<close> b2(1) c2(2) ok1(5) by simp
    qed
    moreover have "received data r (int (c + c2)) (r1\<lparr>rm_buffer := b2, rm_hw := word_of_int (int c2),
        rm_avail := rm_avail r1 + word_of_int (int c2), rm_xruns := rm_xruns r + of_nat (?L - (c + c2))\<rparr>)"
      unfolding received_def Let_def c2(5) using b2(2) ok1(2,5) unfolding Let_def by (auto simp: r1_def take_add)
    ultimately show ?thesis by blast
  qed
qed


lemma receive_byte_outcome:
  assumes ok: "input_ok r"
  shows "\<exists>k r'. receive_byte b r = Some (k, r') \<and> received [b] r k r'"
proof (cases "rm_avail r < rm_size r")
  case True
  then have n: "unat (rm_avail r) + 1 \<le> unat (rm_size r)" "min (length [b]) (unat (rm_size r) - unat (rm_avail r)) = 1"
    by (auto simp: word_less_nat_alt)
  obtain b1 where b1: "copy_in (unat (rm_hw r)) [b] (rm_buffer r) = Some b1"
    "let r' = r\<lparr>rm_buffer := b1, rm_hw := (rm_hw r + word_of_int (int 1)) mod rm_size r, rm_avail := rm_avail r + word_of_int (int 1)\<rparr>
     in input_ok r' \<and> input_bytes r' = input_bytes r @ [b]"
    using input_put [OF ok, of "[b]" 1] n input_okD(3) [OF ok] unfolding Let_def by auto
  have "received [b] r 1 (r\<lparr>rm_buffer := b1, rm_hw := (rm_hw r + 1) mod rm_size r, rm_avail := rm_avail r + 1\<rparr>)"
    unfolding received_def Let_def n(2) using b1(2) by (simp add: Let_def)
  then show ?thesis using True b1(1) by (simp add: receive_byte_def)
next
  case False
  then have "min (length [b]) (unat (rm_size r) - unat (rm_avail r)) = 0" by (simp add: word_less_nat_alt)
  then have "received [b] r 0 (r\<lparr>rm_xruns := rm_xruns r + 1\<rparr>)"
    unfolding received_def Let_def using ok by simp
  then show ?thesis using False by (simp add: receive_byte_def)
qed

section \<open>Operations on a substream\<close>

definition alive :: "rm_substream \<Rightarrow> bool" where
  "alive s \<longleftrightarrow> ss_runtime s \<noteq> None"

lemma rt_simps [simp]:
  "alive s \<Longrightarrow> rt (upd_rt f s) = f (rt s)" "alive (upd_rt f s) = alive s" "upd_rt f (upd_rt g s) = upd_rt (\<lambda>r. f (g r)) s"
  "ss_opened (upd_rt f s) = ss_opened s" "ss_append (upd_rt f s) = ss_append s" "ss_framing (upd_rt f s) = ss_framing s" "ss_bytes (upd_rt f s) = ss_bytes s"
  "ss_shutdown (upd_rt f s) = ss_shutdown s" "ss_clock (upd_rt f s) = ss_clock s" "ss_stream (upd_rt f s) = ss_stream s"
  "ss_use (upd_rt f s) = ss_use s" "ss_number (upd_rt f s) = ss_number s" "ss_sensing (upd_rt f s) = ss_sensing s"
  by (auto simp: alive_def rt_def upd_rt_def option.map_comp comp_def)

lemma rt_other [simp]: "rt (s\<lparr>ss_bytes := n\<rparr>) = rt s" "alive (s\<lparr>ss_bytes := n\<rparr>) = alive s"
  by (simp_all add: rt_def alive_def)

text \<open>A substream for input without frames and one for output, open and with a well-formed buffer.\<close>

definition input_side :: "rm_substream \<Rightarrow> bool" where
  "input_side s \<longleftrightarrow> alive s \<and> ss_opened s \<and> ss_stream s = 1 \<and> ss_framing s \<noteq> 1 \<and> input_ok (rt s)"

definition output_side :: "rm_substream \<Rightarrow> bool" where
  "output_side s \<longleftrightarrow> alive s \<and> ss_opened s \<and> ss_stream s = 0 \<and> output_ok (rt s)"

text \<open>The book-keeping of a substream, which belongs to the core, and what its buffer is for.\<close>

definition same_book :: "rm_substream \<Rightarrow> rm_substream \<Rightarrow> bool" where
  "same_book s s' \<longleftrightarrow> ss_stream s' = ss_stream s \<and> ss_use s' = ss_use s \<and> ss_opened s' = ss_opened s \<and> ss_append s' = ss_append s \<and>
     ss_number s' = ss_number s \<and> alive s' = alive s \<and> (alive s \<longrightarrow> rm_size (rt s') = rm_size (rt s) \<and> rm_ref (rt s') = rm_ref (rt s))"

lemma same_book_refl [simp]: "same_book s s"
  by (simp add: same_book_def)

lemma same_book_trans: "same_book s t \<Longrightarrow> same_book t u \<Longrightarrow> same_book s u"
  by (simp add: same_book_def)

lemma ok_fields [simp]:
  "input_ok (r\<lparr>rm_wakeups := w\<rparr>) = input_ok r" "input_bytes (r\<lparr>rm_wakeups := w\<rparr>) = input_bytes r"
  "input_ok (r\<lparr>rm_ref := n\<rparr>) = input_ok r" "input_bytes (r\<lparr>rm_ref := n\<rparr>) = input_bytes r"
  "output_ok (r\<lparr>rm_wakeups := w\<rparr>) = output_ok r" "output_bytes (r\<lparr>rm_wakeups := w\<rparr>) = output_bytes r"
  "output_ok (r\<lparr>rm_ref := n\<rparr>) = output_ok r" "output_bytes (r\<lparr>rm_ref := n\<rparr>) = output_bytes r"
  by (simp_all add: input_ok_def output_ok_def size_ok_def input_bytes_def output_bytes_def)

lemma receive_outcome:
  assumes "input_side s"
  shows "\<exists>k s'. snd_rawmidi_receive junk clocks data s = Some (int k, s') \<and> input_side s' \<and>
    k = min (length data) (unat (rm_size (rt s)) - unat (rm_avail (rt s))) \<and> input_bytes (rt s') = input_bytes (rt s) @ take k data \<and>
    rm_xruns (rt s') = rm_xruns (rt s) + of_nat (length data - k) \<and> ss_bytes s' = ss_bytes s + of_nat (length data) \<and> same_book s s' \<and>
    rm_size (rt s') = rm_size (rt s) \<and> rm_private (rt s') = rm_private (rt s) \<and> rm_event (rt s') = rm_event (rt s)"
proof -
  have a: "alive s" "ss_opened s" "ss_stream s = 1" "ss_framing s \<noteq> 1" "input_ok (rt s)" using assms by (simp_all add: input_side_def)
  have b: "rm_buffer (rt s) \<noteq> []" using size_okD(1,2) [OF input_okD(1) [OF a(5)]] by auto
  obtain k r where r: "(if length data = 1 then receive_byte (hd data) (rt s) else receive_bytes data (rt s)) = Some (k, r)" "received data (rt s) k r"
  proof (cases "length data = 1")
    case True
    then have "[hd data] = data" by (cases data) auto
    then show ?thesis using that True receive_byte_outcome [OF a(5), of "hd data"] by auto
  next
    case False
    then show ?thesis using that receive_bytes_outcome [OF a(5), of data] by auto
  qed
  let ?w = "\<lambda>r. if rm_event r \<noteq> 0 then schedule_work r else if rawmidi_ready r then r\<lparr>rm_wakeups := rm_wakeups r + 1\<rparr> else r"
  let ?s = "upd_rt (\<lambda>_. r) (s\<lparr>ss_bytes := ss_bytes s + of_nat (length data)\<rparr>)"
  have e: "snd_rawmidi_receive junk clocks data s = Some (k, if k > 0 then upd_rt ?w ?s else ?s)"
    using a b r(1) by (simp add: snd_rawmidi_receive_def Let_def)
  show ?thesis using r(2) a unfolding e received_def Let_def input_side_def same_book_def by (auto simp: schedule_work_def)
qed


lemma clip:
  "0 \<le> n \<Longrightarrow> (if (if int a > n then n else int a) > int b then int b else if int a > n then n else int a) = int (min a (min (nat n) b))"
  by auto

lemma read_loop_outcome:
  assumes "alive s" "input_ok (rt s)" "0 \<le> n" and quiet: "user \<longrightarrow> ts = [] \<and> (\<forall>off len. \<not> bad off len)"
  shows "\<exists>a v. let r = (rt s)\<lparr>rm_appl := a, rm_avail := v\<rparr> in
    read_loop user bad n got ts s = Some (0, got @ take (nat n) (input_bytes (rt s)), ts, upd_rt (\<lambda>_. r) s) \<and>
    input_ok r \<and> input_bytes r = drop (nat n) (input_bytes (rt s))"
  using assms(1-3)
proof (induction "unat (rm_avail (rt s))" arbitrary: s n got rule: less_induct)
  case less
  let ?r = "rt s"
  note sz = size_okD [OF input_okD(1) [OF less.prems(2)]] and p = input_okD(4) [OF less.prems(2)]
  have len: "length (input_bytes ?r) = unat (rm_avail ?r)" by (simp add: input_bytes_def)
  show ?case
  proof (cases "n > 0 \<and> rm_avail ?r \<noteq> 0")
    case False
    then have "input_bytes ?r = [] \<or> n = 0" using less.prems(3) len by (auto simp: input_bytes_def)
    moreover have "upd_rt (\<lambda>_. ?r) s = s" using less.prems(1) by (cases s) (auto simp: upd_rt_def alive_def rt_def)
    moreover have "read_loop user bad n got ts s = Some (0, got, ts, s)" by (subst read_loop.simps) (use False in auto)
    ultimately show ?thesis using less.prems by (intro exI [of _ "rm_appl ?r"] exI [of _ "rm_avail ?r"]) (auto simp: Let_def)
  next
    case True
    define c where "c = min (unat (rm_size ?r) - unat (rm_appl ?r)) (min (nat n) (unat (rm_avail ?r)))"
    have c: "0 < c" "c \<le> nat n" "unat (rm_appl ?r) + c \<le> unat (rm_size ?r)" "c \<le> unat (rm_avail ?r)"
      using True p unat_gt_0 [of "rm_avail ?r"] by (auto simp: c_def)
    have d: "sint (rm_size ?r - rm_appl ?r) = int (unat (rm_size ?r) - unat (rm_appl ?r))" "sint (rm_avail ?r) = int (unat (rm_avail ?r))"
      using sz p by (simp_all add: small_sint small_diff)
    note c1 = clip [OF less.prems(3), where a = "unat (rm_size ?r) - unat (rm_appl ?r)" and b = "unat (rm_avail ?r)", folded c_def]
    let ?f = "\<lambda>r. r\<lparr>rm_appl := (rm_appl r + word_of_int (int c)) mod rm_size r, rm_avail := rm_avail r - word_of_int (int c)\<rparr>"
    have g: "copy_out (unat (rm_appl ?r)) c (rm_buffer ?r) = Some (take c (input_bytes ?r))" "input_ok (?f ?r)"
      "input_bytes (?f ?r) = drop c (input_bytes ?r)" "unat (rm_avail (?f ?r)) = unat (rm_avail ?r) - c"
      using input_get [OF less.prems(2) c(3,4)] unfolding Let_def by blast+
    have step: "read_loop user bad n got ts s = read_loop user bad (n - int c) (got @ take c (input_bytes ?r)) ts (upd_rt ?f s)"
      unfolding read_loop.simps [of user bad n got ts s] if_P [OF True] Let_def d c1 nat_int
      using quiet less.prems(1) by (auto simp: g(1) turn_def simp del: of_int_of_nat_eq)
    have "\<exists>a v. let r = (rt (upd_rt ?f s))\<lparr>rm_appl := a, rm_avail := v\<rparr> in
      read_loop user bad (n - int c) (got @ take c (input_bytes ?r)) ts (upd_rt ?f s) =
        Some (0, (got @ take c (input_bytes ?r)) @ take (nat (n - int c)) (input_bytes (rt (upd_rt ?f s))), ts, upd_rt (\<lambda>_. r) (upd_rt ?f s)) \<and>
      input_ok r \<and> input_bytes r = drop (nat (n - int c)) (input_bytes (rt (upd_rt ?f s)))"
      using g c less.prems(1) by (intro less.hyps) (auto simp del: of_int_of_nat_eq)
    moreover have nn: "nat n = c + nat (n - int c)" using c(2) less.prems(3) by linarith
    have "take (nat n) (input_bytes ?r) = take c (input_bytes ?r) @ take (nat (n - int c)) (drop c (input_bytes ?r))"
      "drop (nat n) (input_bytes ?r) = drop (nat (n - int c)) (drop c (input_bytes ?r))"
      unfolding nn by (simp_all add: take_add add.commute)
    ultimately show ?thesis unfolding step using less.prems(1) g(3) by (simp add: Let_def del: of_int_of_nat_eq)
  qed
qed


text \<open>A read is a trigger and the loop over what is in the ring then.\<close>

lemma kernel_read_outcome:
  assumes "input_side t" "t = snd_rawmidi_input_trigger ops True s" "0 \<le> n"
  shows "\<exists>s'. let got = take (nat n) (input_bytes (rt t)) in
    snd_rawmidi_kernel_read ops n s = Some (int (length got), got, s') \<and> input_side s' \<and> input_bytes (rt s') = drop (nat n) (input_bytes (rt t)) \<and>
    rm_size (rt s') = rm_size (rt t) \<and> rm_xruns (rt s') = rm_xruns (rt t)"
proof -
  let ?s = "upd_rt snd_rawmidi_buffer_ref t"
  have a: "alive ?s" "input_ok (rt ?s)" "input_bytes (rt ?s) = input_bytes (rt t)" "ss_opened ?s" "ss_stream ?s = 1" "ss_framing ?s \<noteq> 1"
    "rm_size (rt ?s) = rm_size (rt t)" "rm_xruns (rt ?s) = rm_xruns (rt t)"
    using assms(1) by (simp_all add: input_side_def snd_rawmidi_buffer_ref_def)
  obtain u v where e: "let r = (rt ?s)\<lparr>rm_appl := u, rm_avail := v\<rparr> in
    read_loop False (\<lambda>_ _. False) n [] [] ?s = Some (0, [] @ take (nat n) (input_bytes (rt ?s)), [], upd_rt (\<lambda>_. r) ?s) \<and>
    input_ok r \<and> input_bytes r = drop (nat n) (input_bytes (rt ?s))"
    using read_loop_outcome [OF a(1,2) assms(3), of False "[]" "\<lambda>_ _. False" "[]"] by auto
  let ?r = "(rt ?s)\<lparr>rm_appl := u, rm_avail := v\<rparr>"
  let ?s' = "upd_rt snd_rawmidi_buffer_unref (upd_rt (\<lambda>_. ?r) ?s)"
  have "snd_rawmidi_kernel_read ops n s = Some (int (length (take (nat n) (input_bytes (rt t)))), take (nat n) (input_bytes (rt t)), ?s')"
    using e unfolding snd_rawmidi_kernel_read_def snd_rawmidi_kernel_read1_def Let_def a(3) assms(2) [symmetric] by auto
  moreover have "input_side ?s'" "input_bytes (rt ?s') = drop (nat n) (input_bytes (rt t))" "rm_size (rt ?s') = rm_size (rt t)" "rm_xruns (rt ?s') = rm_xruns (rt t)"
    using e a unfolding Let_def by (simp_all add: input_side_def snd_rawmidi_buffer_unref_def)
  ultimately show ?thesis unfolding Let_def by blast
qed


lemma write_loop_outcome:
  assumes "alive s" "output_ok (rt s)" and quiet: "user \<longrightarrow> ts = [] \<and> (\<forall>off len. \<not> bad off len)"
  shows "\<exists>a v b. let r = (rt s)\<lparr>rm_appl := a, rm_avail := v, rm_buffer := b\<rparr>; k = min (length data) (unat (rm_avail (rt s))) in
    write_loop user bad data m ts s = Some (int (m + k), ts, upd_rt (\<lambda>_. r) s) \<and> output_ok r \<and> output_bytes r = output_bytes (rt s) @ take k data \<and>
    unat v = unat (rm_avail (rt s)) - k"
  using assms(1,2)
proof (induction "length data" arbitrary: s data m rule: less_induct)
  case less
  let ?r = "rt s"
  note sz = size_okD [OF output_okD(1) [OF less.prems(2)]] and p = output_okD(4) [OF less.prems(2)]
  show ?case
  proof (cases "data \<noteq> [] \<and> rm_avail ?r > 0")
    case False
    then have "min (length data) (unat (rm_avail ?r)) = 0" by (auto simp: word_less_nat_alt)
    moreover have "upd_rt (\<lambda>_. ?r) s = s" using less.prems(1) by (cases s) (auto simp: upd_rt_def alive_def rt_def)
    moreover have "write_loop user bad data m ts s = Some (int m, ts, s)" by (subst write_loop.simps) (use False in auto)
    ultimately show ?thesis using less.prems by (intro exI [of _ "rm_appl ?r"] exI [of _ "rm_avail ?r"] exI [of _ "rm_buffer ?r"]) (auto simp: Let_def)
  next
    case True
    define c where "c = min (unat (rm_size ?r) - unat (rm_appl ?r)) (min (length data) (unat (rm_avail ?r)))"
    have c: "0 < c" "c \<le> length data" "unat (rm_appl ?r) + c \<le> unat (rm_size ?r)" "c \<le> unat (rm_avail ?r)" "length (take c data) = c"
      using True p by (auto simp: c_def word_less_nat_alt)
    have d: "sint (rm_size ?r - rm_appl ?r) = int (unat (rm_size ?r) - unat (rm_appl ?r))" "sint (rm_avail ?r) = int (unat (rm_avail ?r))"
      using sz p by (simp_all add: small_sint small_diff)
    note c1 = clip [OF of_nat_0_le_iff, of "unat (rm_avail ?r)" "length data" "unat (rm_size ?r) - unat (rm_appl ?r)", unfolded nat_int, folded c_def]
    let ?f = "\<lambda>r. r\<lparr>rm_appl := (rm_appl r + word_of_int (int c)) mod rm_size r, rm_avail := rm_avail r - word_of_int (int c)\<rparr>"
    obtain b where b: "copy_in (unat (rm_appl ?r)) (take c data) (rm_buffer ?r) = Some b"
      "let r' = (?f ?r)\<lparr>rm_buffer := b\<rparr> in output_ok r' \<and> output_bytes r' = output_bytes ?r @ take c data \<and> unat (rm_avail r') = unat (rm_avail ?r) - c"
      using output_put [OF less.prems(2) c(5,3,4)] by blast
    let ?g = "\<lambda>r. (?f r)\<lparr>rm_buffer := b\<rparr>"
    have g: "output_ok (?g ?r)" "output_bytes (?g ?r) = output_bytes ?r @ take c data" "unat (rm_avail (?g ?r)) = unat (rm_avail ?r) - c"
      using b(2) unfolding Let_def by blast+
    have step: "write_loop user bad data m ts s = write_loop user bad (drop c data) (m + c) ts (upd_rt ?g s)"
      unfolding write_loop.simps [of user bad data m ts s] if_P [OF True] Let_def d c1 nat_int
      using quiet less.prems(1) by (auto simp: b(1) turn_def simp del: of_int_of_nat_eq)
    have "\<exists>a v b. let r = (rt (upd_rt ?g s))\<lparr>rm_appl := a, rm_avail := v, rm_buffer := b\<rparr>; k = min (length (drop c data)) (unat (rm_avail (rt (upd_rt ?g s)))) in
      write_loop user bad (drop c data) (m + c) ts (upd_rt ?g s) = Some (int (m + c + k), ts, upd_rt (\<lambda>_. r) (upd_rt ?g s)) \<and> output_ok r \<and>
      output_bytes r = output_bytes (rt (upd_rt ?g s)) @ take k (drop c data) \<and> unat v = unat (rm_avail (rt (upd_rt ?g s))) - k"
      using g c less.prems(1) by (intro less.hyps) (auto simp del: of_int_of_nat_eq)
    then obtain a v b' where i: "write_loop user bad (drop c data) (m + c) ts (upd_rt ?g s) =
        Some (int (m + c + min (length (drop c data)) (unat (rm_avail ?r) - c)), ts, upd_rt (\<lambda>_. ?r\<lparr>rm_appl := a, rm_avail := v, rm_buffer := b'\<rparr>) s)"
      "output_ok (?r\<lparr>rm_appl := a, rm_avail := v, rm_buffer := b'\<rparr>)"
      "output_bytes (?r\<lparr>rm_appl := a, rm_avail := v, rm_buffer := b'\<rparr>) = (output_bytes ?r @ take c data) @ take (min (length (drop c data)) (unat (rm_avail ?r) - c)) (drop c data)"
      "unat v = (unat (rm_avail ?r) - c) - min (length (drop c data)) (unat (rm_avail ?r) - c)"
      unfolding Let_def rt_simps(1) [OF less.prems(1)] g(2,3) rt_simps(3) by (auto simp del: of_int_of_nat_eq)
    have k: "min (length data) (unat (rm_avail ?r)) = c + min (length (drop c data)) (unat (rm_avail ?r) - c)" using c by auto
    show ?thesis unfolding step Let_def k using i
      by (intro exI [of _ a] exI [of _ v] exI [of _ b']) (simp add: take_add ac_simps)
  qed
qed


text \<open>\<open>silent ops\<close>: the same driver with a trigger that does nothing.\<close>

definition silent :: "rm_ops \<Rightarrow> rm_ops" where
  "silent ops = ops\<lparr>op_trigger := \<lambda>_ s. s\<rparr>"

lemma silent_trigger [simp]: "snd_rawmidi_output_trigger (silent ops) up s = s" "snd_rawmidi_input_trigger (silent ops) up s = s"
  by (simp_all add: silent_def snd_rawmidi_output_trigger_def snd_rawmidi_input_trigger_def)

text \<open>How much a write accepts.\<close>

definition write_result :: "rm_substream \<Rightarrow> u8 list \<Rightarrow> int" where
  "write_result s data = (let room = unat (rm_size (rt s)) - length (output_bytes (rt s))
     in if ss_append s \<and> room < length data then - EAGAIN else int (min (length data) room))"

lemma output_room: "output_ok r \<Longrightarrow> unat (rm_size r) - length (output_bytes r) = unat (rm_avail r)"
  using size_okD [OF output_okD(1)] by (auto simp: output_bytes_def)

text \<open>A write puts its bytes into the ring; the last thing it does is to start the driver.\<close>

lemma kernel_write_outcome:
  assumes o: "output_side s"
  shows "\<exists>k s0 s'. k = write_result s data \<and> snd_rawmidi_kernel_write (silent ops) data s = Some (k, s0) \<and> snd_rawmidi_kernel_write ops data s = Some (k, s') \<and>
    (s' = s0 \<or> s' = snd_rawmidi_output_trigger ops True s0) \<and> output_side s0 \<and> same_book s s0 \<and> output_bytes (rt s0) = output_bytes (rt s) @ take (nat k) data \<and>
    unat (rm_avail (rt s0)) = unat (rm_avail (rt s)) - nat k"
proof -
  have a: "alive s" "ss_opened s" "ss_stream s = 0" "output_ok (rt s)" using o by (simp_all add: output_side_def)
  have av: "sint (rm_avail (rt s)) = int (unat (rm_avail (rt s)))" using size_okD [OF output_okD(1) [OF a(4)]] by (intro small_sint) linarith
  have lt: "sint (rm_avail (rt s)) < int (length data) \<longleftrightarrow> unat (rm_avail (rt s)) < length data" unfolding av by (simp only: of_nat_less_iff)
  note k = write_result_def [of s data, unfolded output_room [OF a(4)] Let_def]
  show ?thesis
  proof (cases "ss_append s \<and> unat (rm_avail (rt s)) < length data")
    case True
    then show ?thesis using o by (simp add: snd_rawmidi_kernel_write_def snd_rawmidi_kernel_write1_def lt k)
  next
    case False
    let ?s = "upd_rt snd_rawmidi_buffer_ref s" and ?k = "min (length data) (unat (rm_avail (rt s)))"
    have b: "alive ?s" "output_ok (rt ?s)" "output_bytes (rt ?s) = output_bytes (rt s)" "rm_avail (rt ?s) = rm_avail (rt s)" "rm_size (rt ?s) = rm_size (rt s)"
      using a by (simp_all add: snd_rawmidi_buffer_ref_def)
    obtain u v w where e: "write_loop False (\<lambda>_ _. False) data 0 [] ?s = Some (int ?k, [], upd_rt (\<lambda>_. (rt ?s)\<lparr>rm_appl := u, rm_avail := v, rm_buffer := w\<rparr>) ?s)"
      "output_ok ((rt ?s)\<lparr>rm_appl := u, rm_avail := v, rm_buffer := w\<rparr>)" "unat v = unat (rm_avail (rt s)) - ?k"
      "output_bytes ((rt ?s)\<lparr>rm_appl := u, rm_avail := v, rm_buffer := w\<rparr>) = output_bytes (rt s) @ take ?k data"
      using write_loop_outcome [OF b(1,2), of False "[]" "\<lambda>_ _. False" data 0] unfolding Let_def b(3,4) by auto
    let ?s1 = "upd_rt snd_rawmidi_buffer_unref (upd_rt (\<lambda>_. (rt ?s)\<lparr>rm_appl := u, rm_avail := v, rm_buffer := w\<rparr>) ?s)"
    have s1: "output_side ?s1" "output_bytes (rt ?s1) = output_bytes (rt s) @ take ?k data" "unat (rm_avail (rt ?s1)) = unat (rm_avail (rt s)) - ?k"
      using e a b by (simp_all add: output_side_def snd_rawmidi_buffer_unref_def)
    have "same_book s ?s1" using a by (simp add: same_book_def snd_rawmidi_buffer_unref_def snd_rawmidi_buffer_ref_def)
    note s1 = s1 this
    have "\<exists>s'. snd_rawmidi_kernel_write ops data s = Some (int ?k, s') \<and> (s' = ?s1 \<or> s' = snd_rawmidi_output_trigger ops True ?s1)" for ops
      using False lt e(1) by (auto simp: snd_rawmidi_kernel_write_def snd_rawmidi_kernel_write1_def Let_def)
    from this [of "silent ops"] this [of ops] show ?thesis unfolding k if_not_P [OF False] using s1 by auto
  qed
qed

lemma transmit_peek_outcome:
  assumes ok: "output_ok (rt s)" and n: "0 \<le> n"
  shows "snd_rawmidi_transmit_peek n s = (let got = take (nat n) (output_bytes (rt s)) in Some (int (length got), got))"
proof -
  let ?r = "rt s"
  note sz = size_okD [OF output_okD(1) [OF ok]] and w = output_okD(3) [OF ok]
  have buf: "rm_buffer ?r \<noteq> []" using sz by auto
  have len: "length (output_bytes ?r) = unat (rm_size ?r) - unat (rm_avail ?r)" by (simp add: output_bytes_def)
  consider (empty) "rm_avail ?r \<ge> rm_size ?r" | (one) "rm_avail ?r < rm_size ?r" "n = 1" | (many) "rm_avail ?r < rm_size ?r" "n \<noteq> 1" by fastforce
  then show ?thesis
  proof cases
    case empty
    then have "output_bytes ?r = []" using len by (simp add: word_le_nat_alt)
    then show ?thesis using empty buf by (simp add: snd_rawmidi_transmit_peek_def)
  next
    case one
    then show ?thesis using output_get [OF ok, of 1] w buf len by (simp add: snd_rawmidi_transmit_peek_def Let_def word_less_nat_alt word_le_nat_alt)
  next
    case many
    define c where "c = min (unat (rm_size ?r) - unat (rm_hw ?r)) (min (nat n) (unat (rm_size ?r) - unat (rm_avail ?r)))"
    have c: "c \<le> nat n" "unat (rm_hw ?r) + c \<le> unat (rm_size ?r)" "unat (rm_avail ?r) + c \<le> unat (rm_size ?r)" "c \<le> 1048576"
      using sz w by (auto simp: c_def)
    have d: "sint (rm_size ?r - rm_hw ?r) = int (unat (rm_size ?r) - unat (rm_hw ?r))" "sint (rm_size ?r - rm_avail ?r) = int (unat (rm_size ?r) - unat (rm_avail ?r))"
      using sz w by (simp_all add: small_sint small_diff)
    note c1 = clip [OF n, where a = "unat (rm_size ?r) - unat (rm_hw ?r)" and b = "unat (rm_size ?r) - unat (rm_avail ?r)", folded c_def]
    define m where "m = unat (rm_size ?r) - unat (rm_avail ?r) - c"
    have dm: "sint (rm_size ?r - rm_avail ?r - word_of_int (int c)) = int m"
      using sz c by (simp add: m_def small_sint small_diff small_word del: of_int_of_nat_eq)
    have full: "(rm_size ?r \<le> rm_avail ?r) = False" using many(1) by simp
    have start: "snd_rawmidi_transmit_peek n s = (if n - int c > 0
      then map_option (\<lambda>ys. (int c + (if n - int c > int m then int m else n - int c), take c (output_bytes ?r) @ ys))
        (copy_out 0 (nat (if n - int c > int m then int m else n - int c)) (rm_buffer ?r))
      else Some (int c, take c (output_bytes ?r)))"
      unfolding snd_rawmidi_transmit_peek_def Let_def d c1 nat_int dm output_get [OF ok c(2,3)] using many(2) full buf by simp
    have second: "copy_out 0 k (rm_buffer ?r) = Some (take k (drop c (output_bytes ?r)))" if "k \<le> m" "int c < n" for k
    proof (cases "m = 0")
      case True
      then show ?thesis using that(1) by (simp add: copy_out_def)
    next
      case False
      then have "c = unat (rm_size ?r) - unat (rm_hw ?r)" using that(2) unfolding m_def c_def by (simp add: min_def split: if_splits)
      then have "(unat (rm_hw ?r) + c) mod length (rm_buffer ?r) = 0" using sz(1) w by simp
      then have g: "ring_ok (rm_buffer ?r) 0 m (unat (rm_appl ?r))" "ring (rm_buffer ?r) 0 m = drop c (output_bytes ?r)"
        using ring_skip [OF output_okD(2) [OF ok], of c] c(3) unfolding m_def output_bytes_def by (metis add_le_imp_le_diff add.commute)+
      show ?thesis using ring_get(1) [OF g(1) that(1)] that(1) g sz(1) by (simp add: ring_ok_def)
    qed
    show ?thesis
    proof (cases "n > int c")
      case True
      define k where "k = min m (nat (n - int c))"
      have k: "(if n - int c > int m then int m else n - int c) = int k" "k \<le> m" using True by (auto simp: k_def)
      have nn: "nat n = c + nat (n - int c)" and len': "length (output_bytes ?r) = c + m" using True c len unfolding m_def by linarith+
      have "take (nat n) (output_bytes ?r) = take (c + k) (output_bytes ?r)"
        unfolding nn using len' by (cases "m \<le> nat (n - int c)") (auto simp: k_def min_def)
      then have "take (nat n) (output_bytes ?r) = take c (output_bytes ?r) @ take k (drop c (output_bytes ?r))"
        "length (take (nat n) (output_bytes ?r)) = c + k"
        using len' k(2) by (simp_all add: take_add)
      then show ?thesis unfolding start k(1) nat_int second [OF k(2) True] Let_def using True by simp
    next
      case False
      then have "c = nat n" using c(1) by linarith
      then show ?thesis unfolding start Let_def using False n c(3) len by simp
    qed
  qed
qed


lemma transmit_ack_outcome:
  assumes o: "output_side s" and c: "c \<le> length (output_bytes (rt s))" "0 < c"
  shows "\<exists>s'. snd_rawmidi_transmit_ack (int c) s = (int c, s') \<and> output_side s' \<and> output_bytes (rt s') = drop c (output_bytes (rt s)) \<and>
    same_book s s' \<and> ss_bytes s' = ss_bytes s + of_nat c \<and> unat (rm_avail (rt s')) = unat (rm_avail (rt s)) + c"
proof -
  have a: "alive s" "ss_opened s" "ss_stream s = 0" "output_ok (rt s)" using o by (simp_all add: output_side_def)
  note sz = size_okD [OF output_okD(1) [OF a(4)]]
  have buf: "rm_buffer (rt s) \<noteq> []" using sz by auto
  have fits: "unat (rm_avail (rt s)) + c \<le> unat (rm_size (rt s))" using sz c by (auto simp: output_bytes_def)
  let ?f = "\<lambda>r. r\<lparr>rm_hw := (rm_hw r + word_of_int (int c)) mod rm_size r, rm_avail := rm_avail r + word_of_int (int c)\<rparr>"
  let ?g = "\<lambda>r. if rm_drain r \<or> rawmidi_ready r then r\<lparr>rm_wakeups := rm_wakeups r + 1\<rparr> else r"
  let ?s' = "upd_rt ?g ((upd_rt ?f s)\<lparr>ss_bytes := ss_bytes (upd_rt ?f s) + word_of_int (int c)\<rparr>)"
  have "snd_rawmidi_transmit_ack (int c) s = (int c, ?s')"
    using buf c(2) by (simp add: snd_rawmidi_transmit_ack_def Let_def del: of_int_of_nat_eq)
  moreover have "output_ok (?f (rt s))" "output_bytes (?f (rt s)) = drop c (output_bytes (rt s))"
    using output_advance [OF a(4) fits] unfolding Let_def by blast+
  moreover have u: "unat (rm_avail (rt s) + word_of_int (int c)) = unat (rm_avail (rt s)) + c" using sz fits by (intro small_add) linarith+
  ultimately have "output_side ?s'" "output_bytes (rt ?s') = drop c (output_bytes (rt s))" "same_book s ?s'"
    "unat (rm_avail (rt ?s')) = unat (rm_avail (rt s)) + c"
    using a by (simp_all add: output_side_def same_book_def del: of_int_of_nat_eq)
  moreover have "ss_bytes ?s' = ss_bytes s + of_nat c" by simp
  ultimately show ?thesis using \<open>snd_rawmidi_transmit_ack (int c) s = (int c, ?s')\<close> by blast
qed

lemma transmit_outcome:
  assumes o: "output_side s" and n: "0 \<le> n"
  shows "\<exists>s'. let got = take (nat n) (output_bytes (rt s)) in
    snd_rawmidi_transmit n s = Some (int (length got), got, s') \<and> output_side s' \<and> output_bytes (rt s') = drop (nat n) (output_bytes (rt s)) \<and>
    same_book s s' \<and> ss_bytes s' = ss_bytes s + of_nat (length got) \<and> unat (rm_avail (rt s')) = unat (rm_avail (rt s)) + length got"
proof -
  have a: "ss_opened s" "output_ok (rt s)" using o by (simp_all add: output_side_def)
  define c where "c = length (take (nat n) (output_bytes (rt s)))"
  have got: "drop c (output_bytes (rt s)) = drop (nat n) (output_bytes (rt s))" unfolding c_def by (auto simp: min_def)
  have peek: "snd_rawmidi_transmit_peek n s = Some (int c, take (nat n) (output_bytes (rt s)))"
    using transmit_peek_outcome [OF a(2) n] by (simp add: Let_def c_def)
  show ?thesis
  proof (cases "c = 0")
    case True
    have z: "take (nat n) (output_bytes (rt s)) = []" using True by (simp only: c_def length_0_conv)
    have "drop (nat n) (output_bytes (rt s)) = output_bytes (rt s)" using got True by simp
    note z = z this
    show ?thesis unfolding Let_def z using o a(1) peek [unfolded z] True by (simp add: snd_rawmidi_transmit_def)
  next
    case False
    obtain s' where s': "snd_rawmidi_transmit_ack (int c) s = (int c, s')" "output_side s'" "output_bytes (rt s') = drop c (output_bytes (rt s))"
      "same_book s s'" "ss_bytes s' = ss_bytes s + of_nat c" "unat (rm_avail (rt s')) = unat (rm_avail (rt s)) + c"
      using transmit_ack_outcome [OF o _ neq0_conv [THEN iffD1, OF False]] by (auto simp: c_def)
    have "snd_rawmidi_transmit n s = Some (int c, take (nat n) (output_bytes (rt s)), s')"
      using a(1) peek False s'(1) by (simp add: snd_rawmidi_transmit_def)
    then show ?thesis using s' got unfolding Let_def c_def [symmetric] by simp
  qed
qed

section \<open>Drivers\<close>

text \<open>
  What a driver does to a substream from its interrupt handler or from its trigger: it takes bytes of an output, by transmitting
  or by a look at them and an acknowledgement of some of them; it hands over bytes for an input. \<open>driver_sends s xs s'\<close>: it gets \<open>xs\<close>
  to send. \<open>driver_receives s offered xs s'\<close>: of the bytes it offers, \<open>xs\<close> are taken.
\<close>

inductive driver_sends :: "rm_substream \<Rightarrow> u8 list \<Rightarrow> rm_substream \<Rightarrow> bool" where
  idle: "driver_sends s [] s"
| transmit: "snd_rawmidi_transmit n s = Some (k, xs, s1) \<Longrightarrow> 0 \<le> n \<Longrightarrow> driver_sends s1 ys s2 \<Longrightarrow> driver_sends s (xs @ ys) s2"
| acknowledge: "snd_rawmidi_transmit_peek n s = Some (k, xs) \<Longrightarrow> 0 \<le> n \<Longrightarrow> 0 < c \<Longrightarrow> int c \<le> k \<Longrightarrow>
    snd_rawmidi_transmit_ack (int c) s = (r, s1) \<Longrightarrow> driver_sends s1 ys s2 \<Longrightarrow> driver_sends s (take c xs @ ys) s2"

inductive driver_receives :: "rm_substream \<Rightarrow> u8 list \<Rightarrow> u8 list \<Rightarrow> rm_substream \<Rightarrow> bool" where
  idle: "driver_receives s [] [] s"
| receive: "snd_rawmidi_receive junk clocks data s = Some (k, s1) \<Longrightarrow> driver_receives s1 offered ys s2 \<Longrightarrow>
    driver_receives s (data @ offered) (take (nat k) data @ ys) s2"

lemma driver_sends_keeps:
  "driver_sends s xs s' \<Longrightarrow> output_side s \<Longrightarrow> output_side s' \<and> output_bytes (rt s) = xs @ output_bytes (rt s') \<and> same_book s s' \<and>
     unat (rm_avail (rt s')) = unat (rm_avail (rt s)) + length xs"
proof (induction rule: driver_sends.induct)
  case (transmit n s k xs s1 ys s2)
  obtain s1' where t: "snd_rawmidi_transmit n s = Some (int (length (take (nat n) (output_bytes (rt s)))), take (nat n) (output_bytes (rt s)), s1')"
    "output_side s1'" "output_bytes (rt s1') = drop (nat n) (output_bytes (rt s))" "same_book s s1'"
    "unat (rm_avail (rt s1')) = unat (rm_avail (rt s)) + length (take (nat n) (output_bytes (rt s)))"
    using transmit_outcome [OF transmit.prems transmit.hyps(2)] unfolding Let_def by blast
  then have "s1' = s1" "xs = take (nat n) (output_bytes (rt s))" using transmit.hyps(1) by simp_all
  then show ?case using t transmit.IH same_book_trans [of s s1 s2] by (simp add: append_take_drop_id [symmetric])
next
  case (acknowledge n s k xs c r s1 ys s2)
  have "output_ok (rt s)" using acknowledge.prems by (simp add: output_side_def)
  from transmit_peek_outcome [OF this acknowledge.hyps(2)]
  have xs: "xs = take (nat n) (output_bytes (rt s))" "k = int (length xs)" using acknowledge.hyps(1) by (auto simp: Let_def)
  then have c: "c \<le> length (output_bytes (rt s))" "take c xs = take c (output_bytes (rt s))" "length (take c xs) = c"
    using acknowledge.hyps(4) by auto
  obtain s1' where t: "snd_rawmidi_transmit_ack (int c) s = (int c, s1')" "output_side s1'" "output_bytes (rt s1') = drop c (output_bytes (rt s))"
    "same_book s s1'" "unat (rm_avail (rt s1')) = unat (rm_avail (rt s)) + c"
    using transmit_ack_outcome [OF acknowledge.prems c(1) acknowledge.hyps(3)] by blast
  then have "s1' = s1" using acknowledge.hyps(5) by simp
  then show ?case using t acknowledge.IH same_book_trans [of s s1 s2] c(2,3) by (simp add: append_take_drop_id [symmetric] del: length_take)
qed simp

lemma driver_receives_keeps:
  "driver_receives s offered xs s' \<Longrightarrow> input_side s \<Longrightarrow> input_side s' \<and> input_bytes (rt s') = input_bytes (rt s) @ xs \<and> same_book s s' \<and>
     length xs \<le> length offered \<and> rm_xruns (rt s') = rm_xruns (rt s) + of_nat (length offered - length xs) \<and>
     rm_private (rt s') = rm_private (rt s) \<and> rm_event (rt s') = rm_event (rt s)"
proof (induction rule: driver_receives.induct)
  case (receive junk clocks data s k s1 offered ys s2)
  obtain n s1' where t: "snd_rawmidi_receive junk clocks data s = Some (int n, s1')" "input_side s1'" "n \<le> length data"
    "input_bytes (rt s1') = input_bytes (rt s) @ take n data" "rm_xruns (rt s1') = rm_xruns (rt s) + of_nat (length data - n)" "same_book s s1'"
    "rm_private (rt s1') = rm_private (rt s)" "rm_event (rt s1') = rm_event (rt s)"
    using receive_outcome [OF receive.prems, of junk clocks data] by auto
  then have s1: "s1' = s1" "nat k = n" using receive.hyps(1) by simp_all
  note i = receive.IH [OF t(2) [unfolded s1]]
  have "length (data @ offered) - length (take n data @ ys) = (length data - n) + (length offered - length ys)"
    using i t(3) by simp
  then show ?case unfolding s1(2) using t i same_book_trans [of s s1 s2] unfolding s1(1) by simp
qed simp

text \<open>
  A driver whose trigger does nothing else. The drivers of the tree that send or receive in their trigger, \<^verbatim>\<open>mpu401_uart.c\<close>
  among them, are of this kind.
\<close>

definition driver_ops :: "rm_ops \<Rightarrow> bool" where
  "driver_ops ops \<longleftrightarrow> (\<forall>up s. (output_side s \<longrightarrow> (\<exists>xs. driver_sends s xs (op_trigger ops up s))) \<and>
     (input_side s \<longrightarrow> (\<exists>offered xs. driver_receives s offered xs (op_trigger ops up s))))"

lemma output_trigger_sends:
  assumes "driver_ops ops" "output_side s"
  shows "\<exists>xs. driver_sends s xs (snd_rawmidi_output_trigger ops up s)"
  using assms unfolding driver_ops_def snd_rawmidi_output_trigger_def by (auto intro: driver_sends.idle)

lemma input_trigger_receives:
  assumes "driver_ops ops" "input_side s"
  shows "\<exists>offered xs. driver_receives s offered xs (snd_rawmidi_input_trigger ops up s)"
  using assms unfolding driver_ops_def snd_rawmidi_input_trigger_def by (auto intro: driver_receives.idle)

lemma kernel_write_sends:
  assumes "driver_ops ops" "output_side s"
  shows "\<exists>s0 xs s'. snd_rawmidi_kernel_write (silent ops) data s = Some (write_result s data, s0) \<and>
    snd_rawmidi_kernel_write ops data s = Some (write_result s data, s') \<and> driver_sends s0 xs s' \<and> output_side s0 \<and> same_book s s0 \<and>
    output_bytes (rt s0) = output_bytes (rt s) @ take (nat (write_result s data)) data \<and>
    unat (rm_avail (rt s0)) = unat (rm_avail (rt s)) - nat (write_result s data)"
proof -
  obtain s0 s' where w: "snd_rawmidi_kernel_write (silent ops) data s = Some (write_result s data, s0)"
    "snd_rawmidi_kernel_write ops data s = Some (write_result s data, s')" "s' = s0 \<or> s' = snd_rawmidi_output_trigger ops True s0" "output_side s0"
    "same_book s s0" "output_bytes (rt s0) = output_bytes (rt s) @ take (nat (write_result s data)) data"
    "unat (rm_avail (rt s0)) = unat (rm_avail (rt s)) - nat (write_result s data)"
    using kernel_write_outcome [OF assms(2), of data ops] by blast
  moreover have "\<exists>xs. driver_sends s0 xs s'" using w(3) output_trigger_sends [OF assms(1) w(4)] driver_sends.idle by blast
  ultimately show ?thesis by blast
qed

lemma kernel_read_receives:
  assumes "driver_ops ops" "input_side s" "0 \<le> n"
  shows "\<exists>offered xs s'. driver_receives s offered xs (snd_rawmidi_input_trigger ops True s) \<and>
    (let got = take (nat n) (input_bytes (rt s) @ xs) in snd_rawmidi_kernel_read ops n s = Some (int (length got), got, s') \<and> input_side s' \<and>
      input_bytes (rt s') = drop (nat n) (input_bytes (rt s) @ xs) \<and> rm_xruns (rt s') = rm_xruns (rt s) + of_nat (length offered - length xs))"
proof -
  obtain offered xs where r: "driver_receives s offered xs (snd_rawmidi_input_trigger ops True s)" using input_trigger_receives [OF assms(1,2)] by blast
  note k = driver_receives_keeps [OF r assms(2)]
  then show ?thesis using kernel_read_outcome [OF _ refl assms(3), of ops s] r unfolding Let_def by (metis (no_types, lifting))
qed

text \<open>A driver that has nothing to receive when it is started, and sends nothing at once.\<close>

definition quiet_ops :: "rm_ops \<Rightarrow> bool" where
  "quiet_ops ops \<longleftrightarrow> (\<forall>up s. op_trigger ops up s = s)"

lemma quiet_triggers [simp]:
  "quiet_ops ops \<Longrightarrow> snd_rawmidi_input_trigger ops up s = s" "quiet_ops ops \<Longrightarrow> snd_rawmidi_output_trigger ops up s = s"
  by (simp_all add: quiet_ops_def snd_rawmidi_input_trigger_def snd_rawmidi_output_trigger_def)

lemma quiet_driver: "quiet_ops ops \<Longrightarrow> driver_ops ops"
  by (auto simp: quiet_ops_def driver_ops_def intro: driver_sends.idle driver_receives.idle)

section \<open>Queues of bytes\<close>

text \<open>
  The contract of either direction. A call takes some bytes in and lets some out, those of the driver during the call
  included: what goes in is appended, and what comes out was at the front. \<open>lost\<close> counts bytes that were offered and not taken.
\<close>

datatype pipe_call = Put "u8 list" | Get nat

inductive pipe_run ::
  "(pipe_call \<Rightarrow> 's \<Rightarrow> u8 list \<Rightarrow> u8 list \<Rightarrow> nat \<Rightarrow> 's \<Rightarrow> bool) \<Rightarrow> pipe_call list \<Rightarrow> 's \<Rightarrow> u8 list \<Rightarrow> u8 list \<Rightarrow> nat \<Rightarrow> 's \<Rightarrow> bool" for pipe where
  pipe_done: "pipe_run pipe [] s [] [] 0 s"
| pipe_call: "pipe c s ins outs lost s1 \<Longrightarrow> pipe_run pipe cs s1 ins' outs' lost' s2 \<Longrightarrow>
    pipe_run pipe (c # cs) s (ins @ ins') (outs @ outs') (lost + lost') s2"

locale byte_pipe =
  fixes ok :: "'s \<Rightarrow> bool" and held :: "'s \<Rightarrow> u8 list" and pipe :: "pipe_call \<Rightarrow> 's \<Rightarrow> u8 list \<Rightarrow> u8 list \<Rightarrow> nat \<Rightarrow> 's \<Rightarrow> bool"
  assumes call_returns: "ok s \<Longrightarrow> \<exists>ins outs lost s'. pipe c s ins outs lost s'"
    and call_in_order: "ok s \<Longrightarrow> pipe c s ins outs lost s' \<Longrightarrow> ok s' \<and> held s @ ins = outs @ held s'"
begin

text \<open>Whatever the calls, the bytes come out as they were accepted, in order, none lost and none twice.\<close>

lemma run_returns: "ok s \<Longrightarrow> \<exists>ins outs lost s'. pipe_run pipe cs s ins outs lost s'"
proof (induction cs arbitrary: s)
  case Nil
  show ?case by (blast intro: pipe_done)
next
  case (Cons c cs)
  obtain ins outs lost s1 where c: "pipe c s ins outs lost s1" using call_returns [OF Cons.prems] by blast
  then show ?case using Cons.IH [of s1] call_in_order [OF Cons.prems c] by (blast intro: pipe_call)
qed

lemma in_order: "pipe_run pipe cs s ins outs lost s' \<Longrightarrow> ok s \<Longrightarrow> ok s' \<and> held s @ ins = outs @ held s'"
proof (induction rule: pipe_run.induct)
  case (pipe_call c s ins outs lost s1 cs ins' outs' lost' s2)
  have c: "ok s1" "held s @ ins = outs @ held s1" using call_in_order [OF pipe_call.prems pipe_call.hyps(1)] by blast+
  then have "held s @ ins @ ins' = outs @ held s1 @ ins'" by (metis append_assoc)
  then show ?case using pipe_call.IH [OF c(1)] by simp
qed simp

end

text \<open>
  The calls of an output: a write, which is what it is without the trigger and then what the driver sends, and a transmission
  of the driver by itself. Those of an input: a reception, and a read, before which the driver may receive.
\<close>

definition output_call :: "rm_ops \<Rightarrow> pipe_call \<Rightarrow> rm_substream \<Rightarrow> u8 list \<Rightarrow> u8 list \<Rightarrow> nat \<Rightarrow> rm_substream \<Rightarrow> bool" where
  "output_call ops c s ins outs lost s' \<longleftrightarrow>
     (case c of
        Put xs \<Rightarrow> \<exists>k s0. snd_rawmidi_kernel_write ops xs s = Some (k, s') \<and> snd_rawmidi_kernel_write (silent ops) xs s = Some (k, s0) \<and>
          ins = take (nat k) xs \<and> lost = length xs - nat k \<and> driver_sends s0 outs s'
      | Get n \<Rightarrow> \<exists>k. snd_rawmidi_transmit (int n) s = Some (k, outs, s') \<and> ins = [] \<and> lost = 0)"

definition input_call ::
  "u8 \<times> u8 \<times> u8 \<Rightarrow> (u32 \<Rightarrow> u64 \<times> u32) \<Rightarrow> rm_ops \<Rightarrow> pipe_call \<Rightarrow> rm_substream \<Rightarrow> u8 list \<Rightarrow> u8 list \<Rightarrow> nat \<Rightarrow> rm_substream \<Rightarrow> bool" where
  "input_call junk clocks ops c s ins outs lost s' \<longleftrightarrow>
     (case c of
        Put xs \<Rightarrow> \<exists>k. snd_rawmidi_receive junk clocks xs s = Some (k, s') \<and> ins = take (nat k) xs \<and> lost = length xs - nat k \<and> outs = []
      | Get n \<Rightarrow> \<exists>k offered. snd_rawmidi_kernel_read ops (int n) s = Some (k, outs, s') \<and>
          driver_receives s offered ins (snd_rawmidi_input_trigger ops True s) \<and> lost = length offered - length ins)"

lemma input_call_order:
  assumes "input_side s" "input_call junk clocks ops c s ins outs lost s'"
  shows "input_side s'" "input_bytes (rt s) @ ins = outs @ input_bytes (rt s')" "rm_xruns (rt s') = rm_xruns (rt s) + of_nat lost"
proof -
  have "input_side s' \<and> input_bytes (rt s) @ ins = outs @ input_bytes (rt s') \<and> rm_xruns (rt s') = rm_xruns (rt s) + of_nat lost"
  proof (cases c)
    case (Put xs)
    then show ?thesis using assms(2) receive_outcome [OF assms(1), of junk clocks xs] by (auto simp: input_call_def)
  next
    case (Get n)
    let ?t = "snd_rawmidi_input_trigger ops True s"
    obtain k offered where g: "snd_rawmidi_kernel_read ops (int n) s = Some (k, outs, s')" "driver_receives s offered ins ?t"
      "lost = length offered - length ins" using assms(2) Get by (auto simp: input_call_def)
    have t: "input_side ?t" "input_bytes (rt ?t) = input_bytes (rt s) @ ins" "rm_xruns (rt ?t) = rm_xruns (rt s) + of_nat lost"
      using driver_receives_keeps [OF g(2) assms(1)] g(3) by simp_all
    have "input_side s' \<and> outs = take n (input_bytes (rt ?t)) \<and> input_bytes (rt s') = drop n (input_bytes (rt ?t)) \<and> rm_xruns (rt s') = rm_xruns (rt ?t)"
      using kernel_read_outcome [OF t(1) refl, of "int n"] g(1) by (auto simp: Let_def)
    moreover from this have "outs @ input_bytes (rt s') = input_bytes (rt ?t)" by (elim conjE) (simp only: append_take_drop_id)
    ultimately show ?thesis unfolding t(2,3) by simp
  qed
  then show "input_side s'" "input_bytes (rt s) @ ins = outs @ input_bytes (rt s')" "rm_xruns (rt s') = rm_xruns (rt s) + of_nat lost" by simp_all
qed

interpretation midi_in: byte_pipe "\<lambda>s. driver_ops ops \<and> input_side s" "\<lambda>s. input_bytes (rt s)" "input_call junk clocks ops" for ops junk clocks
proof
  fix s c assume ok: "driver_ops ops \<and> input_side s"
  show "\<exists>ins outs lost s'. input_call junk clocks ops c s ins outs lost s'"
  proof (cases c)
    case (Put xs)
    then show ?thesis using receive_outcome [of s junk clocks xs] ok by (auto simp: input_call_def)
  next
    case (Get n)
    then show ?thesis using kernel_read_receives [of ops s "int n"] ok by (fastforce simp: input_call_def Let_def)
  qed
next
  fix s c ins outs lost s' assume ok: "driver_ops ops \<and> input_side s" "input_call junk clocks ops c s ins outs lost s'"
  then show "(driver_ops ops \<and> input_side s') \<and> input_bytes (rt s) @ ins = outs @ input_bytes (rt s')"
    using input_call_order [OF _ ok(2)] by blast
qed

interpretation midi_out: byte_pipe "\<lambda>s. driver_ops ops \<and> output_side s" "\<lambda>s. output_bytes (rt s)" "output_call ops" for ops
proof
  fix s c assume ok: "driver_ops ops \<and> output_side s"
  show "\<exists>ins outs lost s'. output_call ops c s ins outs lost s'"
  proof (cases c)
    case (Put xs)
    then show ?thesis using kernel_write_sends [of ops s xs] ok unfolding output_call_def by fastforce
  next
    case (Get n)
    then show ?thesis using transmit_outcome [of s "int n"] ok by (auto simp: output_call_def Let_def)
  qed
next
  fix s c ins outs lost s' assume ok: "driver_ops ops \<and> output_side s" and c: "output_call ops c s ins outs lost s'"
  show "(driver_ops ops \<and> output_side s') \<and> output_bytes (rt s) @ ins = outs @ output_bytes (rt s')"
  proof (cases c)
    case (Put xs)
    obtain k s0 where w: "snd_rawmidi_kernel_write (silent ops) xs s = Some (k, s0)" "ins = take (nat k) xs" "driver_sends s0 outs s'"
      using c Put by (auto simp: output_call_def)
    have s0: "output_side s0" "output_bytes (rt s0) = output_bytes (rt s) @ ins" using kernel_write_sends [of ops s xs] ok w(1,2) by auto
    show ?thesis using driver_sends_keeps [OF w(3) s0(1)] s0(2) ok by simp
  next
    case (Get n)
    then show ?thesis using c transmit_outcome [of s "int n"] ok by (auto simp: output_call_def Let_def)
  qed
qed

end
