(* ===== verification/RawMidiStreams.thy ===== *)
theory RawMidiStreams
  imports RawMidiRing
begin

text \<open>
  What the streams of a raw MIDI device guarantee: bytes in order on both sides, framed input, what waiting means
  in this build, and the book-keeping of opening and closing substreams.
\<close>


section \<open>Frames\<close>

text \<open>
  What an application gets out of the frames it reads: the data bytes, as many as each frame says. As \<^verbatim>\<open>asound.h\<close> tells it to, it skips
  a frame whose type is not 0.
\<close>

function unframe :: "u8 list \<Rightarrow> u8 list" where
  "unframe xs =
     (if length xs < 32 then []
      else (if xs ! 0 = 0 then take (unat (xs ! 1)) (take 16 (drop 16 xs)) else []) @ unframe (drop 32 xs))"
  by pat_completeness auto
termination
  by (relation "measure length") auto

declare unframe.simps [simp del]

lemma unframe_append: "length xs = 32 * n \<Longrightarrow> unframe (xs @ ys) = unframe xs @ unframe ys"
proof (induction n arbitrary: xs)
  case 0
  then show ?case by (simp add: unframe.simps [of "[]"])
next
  case (Suc n)
  then have "unframe (drop 32 xs @ ys) = unframe (drop 32 xs) @ unframe ys" by simp
  then show ?case using Suc.prems by (subst (1 2) unframe.simps) (simp add: nth_append)
qed

lemma length_le_bytes [simp]: "length (le_bytes n w) = n"
  by (simp add: le_bytes_def)

lemma length_frame: "length xs \<le> 16 \<Longrightarrow> length (rm_frame junk ts xs) = 32"
  by (cases junk) (simp add: rm_frame_def)

lemma unframe_frame:
  assumes "length xs \<le> 16"
  shows "unframe (rm_frame junk ts xs) = (if fst junk = 0 then xs else [])"
proof -
  have j: "rm_frame junk ts xs ! 0 = fst junk" by (cases junk) (simp add: rm_frame_def)
  have d: "take 16 (drop 16 (rm_frame junk ts xs)) = xs @ replicate (16 - length xs) 0" using assms by (cases junk) (simp add: rm_frame_def)
  have n: "unat (rm_frame junk ts xs ! Suc 0) = length xs" using assms by (cases junk) (simp add: rm_frame_def unat_of_nat)
  have "unframe (drop 32 (rm_frame junk ts xs)) = []" using length_frame [OF assms, of junk ts] by (simp add: unframe.simps)
  then show ?thesis using length_frame [OF assms, of junk ts] by (subst unframe.simps) (simp add: d n j)
qed

text \<open>A framed input: whole frames only.\<close>

definition frames_ok :: "rm_runtime \<Rightarrow> bool" where
  "frames_ok r \<longleftrightarrow> input_ok r \<and> 32 dvd unat (rm_size r) \<and> 32 dvd unat (rm_avail r) \<and> 32 dvd unat (rm_hw r)"

lemma receive_frames_outcome:
  assumes "frames_ok r"
  shows "\<exists>left r'. receive_frames junk ts data r = Some (left, r') \<and> left \<le> length data \<and> frames_ok r' \<and>
    unframe (input_bytes r') = unframe (input_bytes r) @ (if fst junk = 0 then take (length data - left) data else []) \<and>
    rm_xruns r' = rm_xruns r + of_nat left \<and> (left > 0 \<longrightarrow> unat (rm_avail r') = unat (rm_size r')) \<and> rm_size r' = rm_size r"
  using assms
proof (induction junk ts data r rule: receive_frames.induct)
  case (1 junk ts data r)
  have ok: "input_ok r" "32 dvd unat (rm_size r)" "32 dvd unat (rm_avail r)" "32 dvd unat (rm_hw r)" using 1(2) by (simp_all add: frames_ok_def)
  note sz = size_okD [OF input_okD(1) [OF ok(1)]] and w = input_okD(3) [OF ok(1)]
  have d: "sint (rm_size r - rm_avail r) = int (unat (rm_size r) - unat (rm_avail r))" using sz by (simp add: small_sint small_diff)
  show ?case
  proof (cases "data = []")
    case True
    then show ?thesis using 1(2) by (simp add: receive_frames.simps)
  next
    case nonempty: False
    show ?thesis
    proof (cases "sint (rm_size r - rm_avail r) < 32")
      case True
      then have "unat (rm_size r) - unat (rm_avail r) < 32" unfolding d by linarith
      then have "unat (rm_avail r) = unat (rm_size r)" using ok(2,3) sz(4) by (meson dvd_diff_nat dvd_imp_le le_antisym not_le zero_less_diff)
      then show ?thesis using True nonempty 1(2) by (subst receive_frames.simps) (simp add: frames_ok_def)
    next
      case False
      then have room: "unat (rm_avail r) + 32 \<le> unat (rm_size r)" unfolding d by linarith
      have h: "unat (rm_hw r) + 32 \<le> unat (rm_size r)" using ok(2,4) w by (elim dvdE) simp
      let ?xs = "take 16 data"
      have f: "length (rm_frame junk ts ?xs) = 32" by (rule length_frame) simp
      obtain b where b: "copy_in (unat (rm_hw r)) (rm_frame junk ts ?xs) (rm_buffer r) = Some b"
        "let r' = r\<lparr>rm_buffer := b, rm_hw := (rm_hw r + word_of_int (int 32)) mod rm_size r, rm_avail := rm_avail r + word_of_int (int 32)\<rparr>
         in input_ok r' \<and> input_bytes r' = input_bytes r @ rm_frame junk ts ?xs \<and> unat (rm_avail r') = unat (rm_avail r) + 32"
        using input_put [OF ok(1) f h room] by blast
      let ?r = "r\<lparr>rm_buffer := b, rm_avail := rm_avail r + 32, rm_hw := (rm_hw r + 32) mod rm_size r\<rparr>"
      have swap: "?r = r\<lparr>rm_buffer := b, rm_hw := (rm_hw r + 32) mod rm_size r, rm_avail := rm_avail r + 32\<rparr>" by (cases r) simp
      have b': "input_ok ?r" "input_bytes ?r = input_bytes r @ rm_frame junk ts ?xs" "unat (rm_avail ?r) = unat (rm_avail r) + 32"
        using b(2) unfolding Let_def swap by simp_all
      have "unat (rm_hw ?r) = (unat (rm_hw r) + 32) mod unat (rm_size r)" using small_step [of "rm_hw r" 32 "rm_size r"] w sz by simp
      then have r1: "frames_ok ?r" using b' ok by (simp add: frames_ok_def dvd_mod)
      obtain m where m: "unat (rm_avail r) = 32 * m" using ok(3) by (elim dvdE)
      have u: "unframe (input_bytes ?r) = unframe (input_bytes r) @ (if fst junk = 0 then ?xs else [])"
        unfolding b'(2) using unframe_append [of "input_bytes r" m] m unframe_frame [of ?xs] by (simp add: input_bytes_def)
      obtain left r' where i: "receive_frames junk ts (drop 16 data) ?r = Some (left, r')" "left \<le> length (drop 16 data)" "frames_ok r'"
        "unframe (input_bytes r') = unframe (input_bytes ?r) @ (if fst junk = 0 then take (length (drop 16 data) - left) (drop 16 data) else [])"
        "rm_xruns r' = rm_xruns ?r + of_nat left" "left > 0 \<longrightarrow> unat (rm_avail r') = unat (rm_size r')" "rm_size r' = rm_size ?r"
        using 1(1) [OF nonempty False b(1) r1] by blast
      have "take (length data - left) data = ?xs @ take (length (drop 16 data) - left) (drop 16 data)"
        using i(2) nonempty by (cases "length data \<le> 16") (auto simp: take_add [symmetric])
      then show ?thesis using i u nonempty False b(1) by (subst receive_frames.simps) auto
    qed
  qed
qed


section \<open>Streams of bytes\<close>

text \<open>
  C21. The output of a raw MIDI device is a byte queue for its kernel interface. Whatever sequence of writes
  (\<^verbatim>\<open>snd_rawmidi_kernel_write\<close>) and of transmissions by the driver, on a ring of any size at any fill, with a driver that may also
  send from its trigger, what the driver sends is, in order, what was waiting and what the writes accepted. After any such
  sequence a write accepts as much as there is room for, in append mode the whole message or nothing (\<^verbatim>\<open>-EAGAIN\<close>), and a
  transmission gets as many of the waiting bytes as it asks for; nothing is read or written outside the buffer. The trigger
  of the driver does nothing to the substream but take bytes to send.
\<close>

theorem midi_output_in_order:
  assumes "driver_ops ops" "output_side s"
  shows "(\<exists>accepted sent refused s'. pipe_run (output_call ops) cs s accepted sent refused s') \<and>
    (\<forall>accepted sent refused s'. pipe_run (output_call ops) cs s accepted sent refused s' \<longrightarrow>
       output_side s' \<and> output_bytes (rt s) @ accepted = sent @ output_bytes (rt s') \<and>
       (let room = unat (rm_size (rt s')) - length (output_bytes (rt s')) in
        \<forall>xs. \<exists>s''. snd_rawmidi_kernel_write ops xs s' =
          Some (if ss_append s' \<and> room < length xs then - EAGAIN else int (min (length xs) room), s'')) \<and>
       (\<forall>n. \<exists>s''. snd_rawmidi_transmit (int n) s' =
          Some (int (min n (length (output_bytes (rt s')))), take n (output_bytes (rt s')), s'')))"
proof (intro conjI allI impI)
  show "\<exists>accepted sent refused s'. pipe_run (output_call ops) cs s accepted sent refused s'"
    using midi_out.run_returns [of ops s cs] assms by blast
  fix accepted sent refused s' assume r: "pipe_run (output_call ops) cs s accepted sent refused s'"
  show s': "output_side s'" and "output_bytes (rt s) @ accepted = sent @ output_bytes (rt s')"
    using midi_out.in_order [OF r] assms by blast+
  show "let room = unat (rm_size (rt s')) - length (output_bytes (rt s')) in
      \<forall>xs. \<exists>s''. snd_rawmidi_kernel_write ops xs s' =
        Some (if ss_append s' \<and> room < length xs then - EAGAIN else int (min (length xs) room), s'')"
    using kernel_write_sends [OF assms(1) s'] unfolding write_result_def Let_def by blast
  show "\<exists>s''. snd_rawmidi_transmit (int n) s' = Some (int (min n (length (output_bytes (rt s')))), take n (output_bytes (rt s')), s'')" for n
    using transmit_outcome [OF s', of "int n"] by (auto simp: Let_def min.commute)
qed

lemma input_losses_counted:
  "pipe_run (input_call junk clocks ops) cs s taken got lost s' \<Longrightarrow> input_side s \<Longrightarrow> rm_xruns (rt s') = rm_xruns (rt s) + of_nat lost"
proof (induction rule: pipe_run.induct)
  case (pipe_call c s ins outs lost s1 cs ins' outs' lost' s2)
  show ?case using input_call_order(1,3) [OF pipe_call.prems pipe_call.hyps(1)] pipe_call.IH by (simp add: add.assoc)
qed simp

text \<open>
  C22. The input of a raw MIDI device, when it is not framed, is a byte queue for its kernel interface. Whatever sequence of
  receptions from the driver and of reads (\<^verbatim>\<open>snd_rawmidi_kernel_read\<close>), with a driver that may also receive from its
  trigger, what the readers get is, in order, what was waiting and what was taken in; the bytes that were offered and not
  taken in are counted in \<^verbatim>\<open>xruns\<close>, modulo the width of the counter. After any such sequence a reception takes in as
  many bytes as there is room for and counts the others, and a read gets as many bytes as it asks
  for of those in the ring and those the driver hands over when the read starts it, or all of them. The trigger of the driver does nothing to the substream but hand over bytes.
\<close>

theorem midi_input_in_order:
  assumes "driver_ops ops" "input_side s"
  shows "(\<exists>taken got lost s'. pipe_run (input_call junk clocks ops) cs s taken got lost s') \<and>
    (\<forall>taken got lost s'. pipe_run (input_call junk clocks ops) cs s taken got lost s' \<longrightarrow>
       input_side s' \<and> input_bytes (rt s) @ taken = got @ input_bytes (rt s') \<and> rm_xruns (rt s') = rm_xruns (rt s) + of_nat lost \<and>
       (let room = unat (rm_size (rt s')) - length (input_bytes (rt s')) in
        \<forall>xs. \<exists>s''. snd_rawmidi_receive junk clocks xs s' = Some (int (min (length xs) room), s'') \<and>
          rm_xruns (rt s'') = rm_xruns (rt s') + of_nat (length xs - room)) \<and>
       (\<forall>n. \<exists>offered more xs s''. driver_receives s' offered more (snd_rawmidi_input_trigger ops True s') \<and>
          xs = take n (input_bytes (rt s') @ more) \<and> snd_rawmidi_kernel_read ops (int n) s' = Some (int (length xs), xs, s'')))"
proof (intro conjI allI impI)
  show "\<exists>taken got lost s'. pipe_run (input_call junk clocks ops) cs s taken got lost s'"
    using midi_in.run_returns [of ops s junk clocks cs] assms by blast
  fix taken got lost s' assume r: "pipe_run (input_call junk clocks ops) cs s taken got lost s'"
  show s': "input_side s'" and "input_bytes (rt s) @ taken = got @ input_bytes (rt s')"
    using midi_in.in_order [OF r] assms by blast+
  show "rm_xruns (rt s') = rm_xruns (rt s) + of_nat lost" by (rule input_losses_counted [OF r assms(2)])
  have len: "length (input_bytes (rt s')) = unat (rm_avail (rt s'))" by (simp add: input_bytes_def)
  have "length xs - min (length xs) n = length xs - n" for xs :: "u8 list" and n by simp
  then show "let room = unat (rm_size (rt s')) - length (input_bytes (rt s')) in
      \<forall>xs. \<exists>s''. snd_rawmidi_receive junk clocks xs s' = Some (int (min (length xs) room), s'') \<and>
        rm_xruns (rt s'') = rm_xruns (rt s') + of_nat (length xs - room)"
    using receive_outcome [OF s', of junk clocks] unfolding Let_def len by metis
  show "\<exists>offered more xs s''. driver_receives s' offered more (snd_rawmidi_input_trigger ops True s') \<and>
      xs = take n (input_bytes (rt s') @ more) \<and> snd_rawmidi_kernel_read ops (int n) s' = Some (int (length xs), xs, s'')" for n
    using kernel_read_receives [OF assms(1) s' of_nat_0_le_iff, of n] unfolding Let_def nat_int by blast
qed

text \<open>
  C23. Time-stamped input on a ring of whole frames. Frames never cross the end of the ring, every byte of a reception is
  put into a frame until no frame fits any more, and the others are counted as lost. What an application that reads the frames gets
  depends on the stack: this build does not initialize the type of the frame, so if it happens to be 0, the application gets exactly
  the bytes that were put into frames, and otherwise it has to skip them all.
\<close>

theorem frames_round_trip:
  assumes "frames_ok r"
  shows "\<exists>k r'. receive_with_tstamp_framing junk ts data r = Some (int k, r') \<and> k \<le> length data \<and> frames_ok r' \<and>
    unframe (input_bytes r') = unframe (input_bytes r) @ (if fst junk = 0 then take k data else []) \<and>
    rm_xruns r' = rm_xruns r + of_nat (length data - k) \<and> (k < length data \<longrightarrow> unat (rm_avail r') = unat (rm_size r'))"
proof -
  obtain left r' where r: "receive_frames junk ts data r = Some (left, r')" "left \<le> length data" "frames_ok r'"
    "unframe (input_bytes r') = unframe (input_bytes r) @ (if fst junk = 0 then take (length data - left) data else [])"
    "rm_xruns r' = rm_xruns r + of_nat left" "left > 0 \<longrightarrow> unat (rm_avail r') = unat (rm_size r')"
    using receive_frames_outcome [OF assms, of junk ts data] by blast
  then show ?thesis by (intro exI [of _ "length data - left"] exI [of _ r']) (simp add: receive_with_tstamp_framing_def of_nat_diff)
qed

text \<open>
  Draining an output does not wait in this build: \<^verbatim>\<open>interruptible_sleep_on_timeout\<close> returns at once, and the
  bytes that are still waiting are dropped. The call reports success although nothing was sent.
\<close>

theorem drain_discards:
  assumes "quiet_ops ops" "output_side s" "op_drain ops = None"
  shows "\<exists>s'. snd_rawmidi_drain_output ops [] s = (0, [], s') \<and> output_side s' \<and> output_bytes (rt s') = [] \<and> ss_bytes s' = ss_bytes s"
proof -
  let ?s = "upd_rt (\<lambda>r. r\<lparr>rm_drain := False\<rparr>) (upd_rt (\<lambda>r. r\<lparr>rm_drain := True\<rparr>) s)"
  have a: "alive s" "output_ok (rt s)" using assms(2) by (simp_all add: output_side_def)
  have e: "snd_rawmidi_drain_output ops [] s = (0, [], upd_rt (reset_runtime_ptrs False) ?s)"
    using assms(1,3) by (simp add: snd_rawmidi_drain_output_def interruptible_sleep_on_timeout_def turn_def snd_rawmidi_drop_output_def)
  have "output_ok (reset_runtime_ptrs False (rt s))" "output_bytes (reset_runtime_ptrs False (rt s)) = []"
    using size_okD [OF output_okD(1) [OF a(2)]] by (simp_all add: output_ok_def output_bytes_def size_ok_def ring_ok_def reset_runtime_ptrs_def)
  moreover have "reset_runtime_ptrs False (rt ?s) = reset_runtime_ptrs False (rt s)" using a(1) by (simp add: reset_runtime_ptrs_def)
  ultimately show ?thesis unfolding e using assms(2) a(1) by (simp add: output_side_def)
qed

text \<open>
  A read of an empty input does not wait in this build: \<^verbatim>\<open>schedule()\<close> is empty, so the caller finds nothing
  to read after it and a blocking read fails with \<open>EIO\<close>, unless an interrupt happens to arrive in between.
\<close>

theorem blocking_read_fails:
  assumes "quiet_ops ops" "input_side s" "rm_avail (rt s) = 0" "rm_avail_min (rt s) > 0" "0 < n" "\<not> ss_shutdown s"
  shows "\<exists>s'. snd_rawmidi_read ops nonblock bad n [] (Some s) = Some (if nonblock then - EAGAIN else - EIO, [], [], Some s') \<and> input_side s'"
proof -
  let ?s = "snd_rawmidi_input_trigger ops True s"
  have s: "input_side ?s" "rt ?s = rt s" "\<not> ss_shutdown ?s" using assms(1,2,6) by simp_all
  have "\<not> rawmidi_ready (rt ?s)" using assms(3,4) s(2) by (simp add: rawmidi_ready_def)
  then have "read_wait nonblock 0 [] ?s = Some (Inl (if nonblock then - EAGAIN else - EIO), [], ?s)"
    using s assms(3) by (subst read_wait.simps) (simp add: turn_def)
  then have "rawmidi_read nonblock bad n [] [] ?s = Some (if nonblock then - EAGAIN else - EIO, [], [], ?s)"
    using assms(5) by (subst rawmidi_read.simps) simp
  then show ?thesis using s(1) by (simp add: snd_rawmidi_read_def)
qed


section \<open>Opening and closing\<close>

text \<open>
  The state of a substream of direction \<open>d\<close>: it has a runtime, well formed for its direction, exactly while it is in
  use. A device counts its substreams in use.
\<close>

definition sub_ok :: "nat \<Rightarrow> rm_substream \<Rightarrow> bool" where
  "sub_ok d s \<longleftrightarrow> ss_stream s = d \<and> 0 \<le> ss_use s \<and> (ss_opened s \<longleftrightarrow> 0 < ss_use s) \<and> (alive s \<longleftrightarrow> 0 < ss_use s) \<and>
     (alive s \<longrightarrow> (if d = 1 then input_ok (rt s) else output_ok (rt s))) \<and> (ss_append s \<longrightarrow> ss_opened s)"

definition str_ok :: "nat \<Rightarrow> rm_str \<Rightarrow> bool" where
  "str_ok d str \<longleftrightarrow> (\<forall>s\<in>set (st_subs str). sub_ok d s) \<and> st_opened str = of_nat (length (filter ss_opened (st_subs str)))"

definition device_ok :: "rm_device \<Rightarrow> bool" where
  "device_ok rmidi \<longleftrightarrow> str_ok 0 (rd_streams rmidi 0) \<and> str_ok 1 (rd_streams rmidi 1)"

definition use_counts :: "nat \<Rightarrow> rm_device \<Rightarrow> int list" where
  "use_counts d rmidi = map ss_use (st_subs (rd_streams rmidi d))"

text \<open>
  A driver whose callbacks leave the book-keeping of the substream to the core: the size of the buffer, its references and the
  runtime itself included. They may send and receive, on a ring that stays well formed.
\<close>

definition tame :: "rm_substream \<Rightarrow> rm_substream \<Rightarrow> bool" where
  "tame s s' \<longleftrightarrow> same_book s s' \<and> (alive s \<longrightarrow> (if ss_stream s = 1 then input_ok (rt s) \<longrightarrow> input_ok (rt s') else output_ok (rt s) \<longrightarrow> output_ok (rt s')))"

definition gentle_ops :: "rm_ops \<Rightarrow> bool" where
  "gentle_ops ops \<longleftrightarrow> (\<forall>s. tame s (snd (op_open ops s)) \<and> tame s (op_close ops s) \<and> (\<forall>up. tame s (op_trigger ops up s)) \<and>
     (\<forall>n. tame s (op_free ops n s)) \<and> (\<forall>f. op_drain ops = Some f \<longrightarrow> tame s (f s)))"

lemma tame_refl [simp]: "tame s s"
  by (simp add: tame_def)

lemma tame_book: "tame s s' \<Longrightarrow> ss_stream s' = ss_stream s \<and> ss_use s' = ss_use s \<and> ss_opened s' = ss_opened s \<and> ss_append s' = ss_append s \<and> alive s' = alive s"
  by (simp add: tame_def same_book_def)

lemma tame_size: "tame s s' \<Longrightarrow> alive s \<Longrightarrow> rm_size (rt s') = rm_size (rt s) \<and> rm_ref (rt s') = rm_ref (rt s)"
  by (simp add: tame_def same_book_def)

text \<open>Sending and receiving are tame.\<close>

lemma driver_tame:
  "driver_sends s xs s' \<Longrightarrow> output_side s \<Longrightarrow> tame s s'" "driver_receives s offered xs s' \<Longrightarrow> input_side s \<Longrightarrow> tame s s'"
  using driver_sends_keeps [of s xs s'] driver_receives_keeps [of s offered xs s'] by (auto simp: tame_def output_side_def input_side_def)

lemma filter_update_length:
  assumes "i < length xs"
  shows "(of_nat (length (filter P (xs[i := x]))) :: u32) = of_nat (length (filter P xs)) + (if P x then 1 else 0) - (if P (xs ! i) then 1 else 0)"
proof -
  have "xs = take i xs @ xs ! i # drop (Suc i) xs" using assms by (rule id_take_nth_drop)
  then have "length (filter P xs) = length (filter P (take i xs @ xs ! i # drop (Suc i) xs))" by (rule arg_cong)
  then show ?thesis using assms by (simp add: upd_conv_take_nth_drop)
qed

lemma str_update:
  assumes "str_ok d str" "i < length (st_subs str)" "sub_ok d s"
    "n = st_opened str + (if ss_opened s then 1 else 0) - (if ss_opened (st_subs str ! i) then 1 else 0)"
  shows "str_ok d (str\<lparr>st_subs := (st_subs str)[i := s], st_opened := n\<rparr>)"
  using assms set_update_subset_insert [of "st_subs str" i s] unfolding str_ok_def by (auto simp: filter_update_length)

lemma rt_updates [simp]:
  "rt (s\<lparr>ss_use := n\<rparr>) = rt s" "alive (s\<lparr>ss_use := n\<rparr>) = alive s" "rt (s\<lparr>ss_opened := b\<rparr>) = rt s" "alive (s\<lparr>ss_opened := b\<rparr>) = alive s"
  "rt (s\<lparr>ss_sensing := b\<rparr>) = rt s" "alive (s\<lparr>ss_sensing := b\<rparr>) = alive s" "rt (s\<lparr>ss_append := b\<rparr>) = rt s" "alive (s\<lparr>ss_append := b\<rparr>) = alive s"
  by (simp_all add: rt_def alive_def)

lemma upd_str_simps [simp]:
  "rd_streams (upd_str d f rmidi) e = (if e = d then f (rd_streams rmidi d) else rd_streams rmidi e)"
  by (simp add: upd_str_def)

lemma upd_sub_streams: "rd_streams (upd_sub d i s rmidi) e = (if e = d then (rd_streams rmidi d)\<lparr>st_subs := (st_subs (rd_streams rmidi d))[i := s]\<rparr> else rd_streams rmidi e)"
  by (simp add: upd_sub_def)

text \<open>One substream of a device replaced by another that is in order, and the number of open ones adjusted.\<close>

definition replaced :: "nat \<Rightarrow> nat \<Rightarrow> rm_substream \<Rightarrow> rm_device \<Rightarrow> rm_device \<Rightarrow> bool" where
  "replaced d i s rmidi rmidi' \<longleftrightarrow> device_ok rmidi' \<and> use_counts d rmidi' = (use_counts d rmidi)[i := ss_use s] \<and>
     (\<forall>e. e \<noteq> d \<longrightarrow> use_counts e rmidi' = use_counts e rmidi)"

lemma device_replace:
  assumes ok: "device_ok rmidi" and d: "d = 0 \<or> d = 1" and i: "i < length (use_counts d rmidi)" and s: "sub_ok d s"
    and str: "rd_streams rmidi' d = (rd_streams rmidi d)\<lparr>st_subs := (st_subs (rd_streams rmidi d))[i := s], st_opened :=
      st_opened (rd_streams rmidi d) + (if ss_opened s then 1 else 0) - (if ss_opened (sub_at rmidi d i) then 1 else 0)\<rparr>"
    and others: "\<And>e. e \<noteq> d \<Longrightarrow> rd_streams rmidi' e = rd_streams rmidi e"
  shows "replaced d i s rmidi rmidi'"
proof -
  have "str_ok d (rd_streams rmidi d)" "i < length (st_subs (rd_streams rmidi d))" using ok d i by (auto simp: device_ok_def use_counts_def)
  then have "str_ok d (rd_streams rmidi' d)" unfolding str using s by (intro str_update) (simp_all add: sub_at_def)
  then have "device_ok rmidi'" using ok d others [of 0] others [of 1] unfolding device_ok_def by metis
  then show ?thesis unfolding replaced_def use_counts_def str using others by (simp add: map_update)
qed

lemma runtime_created:
  assumes "snd_rawmidi_runtime_create mem s = (err, s')" "\<not> err < 0" "ss_stream s = d"
  shows "alive s'" "if d = 1 then input_ok (rt s') else output_ok (rt s')" "s' = s\<lparr>ss_runtime := ss_runtime s'\<rparr>"
proof -
  have "mem = (True, True)" using assms(1,2) by (cases mem) (auto simp: snd_rawmidi_runtime_create_def split: if_splits)
  then show "alive s'" "if d = 1 then input_ok (rt s') else output_ok (rt s')" "s' = s\<lparr>ss_runtime := ss_runtime s'\<rparr>"
    using assms by (auto simp: snd_rawmidi_runtime_create_def alive_def rt_def input_ok_def output_ok_def size_ok_def ring_ok_def)
qed

lemma sub_at_ok: "device_ok rmidi \<Longrightarrow> d = 0 \<or> d = 1 \<Longrightarrow> i < length (use_counts d rmidi) \<Longrightarrow> sub_ok d (sub_at rmidi d i) \<and> use_counts d rmidi ! i = ss_use (sub_at rmidi d i)"
  by (auto simp: device_ok_def str_ok_def use_counts_def sub_at_def)

lemma open_substream_outcome:
  assumes g: "gentle_ops ops" and ok: "device_ok rmidi" and d: "d = 0 \<or> d = 1" and i: "i < length (use_counts d rmidi)"
    and o: "open_substream ops mem mode d i rmidi = (err, rmidi')"
  shows "\<exists>s. replaced d i s rmidi rmidi' \<and> (if err < 0 then ss_use s = use_counts d rmidi ! i else err = 0 \<and> ss_use s = use_counts d rmidi ! i + 1)"
proof -
  let ?s = "sub_at rmidi d i"
  have s: "sub_ok d ?s" "use_counts d rmidi ! i = ss_use ?s" using sub_at_ok [OF ok d i] by simp_all
  show ?thesis
  proof (cases "ss_use ?s = 0")
    case False
    let ?t = "?s\<lparr>ss_use := ss_use ?s + 1\<rparr>"
    have "err = 0" "rmidi' = upd_sub d i ?t rmidi" using o False by (simp_all add: open_substream_def Let_def)
    moreover have "sub_ok d ?t" using s False by (auto simp: sub_ok_def)
    moreover have "ss_opened ?t = ss_opened ?s" by simp
    ultimately show ?thesis using s d
      by (intro exI [of _ ?t] conjI device_replace [OF ok d i]) (auto simp: upd_sub_streams)
  next
    case True
    then have c: "\<not> ss_opened ?s" "\<not> alive ?s" "\<not> ss_append ?s" "ss_stream ?s = d" using s by (auto simp: sub_ok_def)
    obtain e1 s1 where c1: "snd_rawmidi_runtime_create mem ?s = (e1, s1)" by fastforce
    show ?thesis
    proof (cases "e1 < 0")
      case True
      then have "s1 = ?s" using c1 by (auto simp: snd_rawmidi_runtime_create_def split: if_splits)
      then have "err = e1" "rmidi' = upd_sub d i ?s rmidi" using o c1 True \<open>ss_use ?s = 0\<close> by (simp_all add: open_substream_def Let_def)
      then show ?thesis using s d True by (intro exI [of _ ?s] conjI device_replace [OF ok d i]) (auto simp: upd_sub_streams)
    next
      case e1: False
      note r = runtime_created [OF c1 e1 c(4)]
      obtain e2 s2 where c2: "op_open ops s1 = (e2, s2)" by fastforce
      have "tame s1 (snd (op_open ops s1))" using g by (simp add: gentle_ops_def)
      then have tame: "tame s1 s2" using c2 by simp
      have "ss_stream s1 = d" "ss_use s1 = 0" "\<not> ss_opened s1" "\<not> ss_append s1" using c True by (subst r(3), simp)+
      then have s2: "ss_stream s2 = d" "ss_use s2 = 0" "\<not> ss_opened s2" "\<not> ss_append s2" "alive s2" "if d = 1 then input_ok (rt s2) else output_ok (rt s2)"
        using r(1,2) tame tame_book [OF tame] by (auto simp: tame_def)
      show ?thesis
      proof (cases "e2 < 0")
        case True
        let ?t = "snd_rawmidi_runtime_free s2"
        have "err = e2" "rmidi' = upd_sub d i ?t rmidi" using o c1 c2 e1 True \<open>ss_use ?s = 0\<close> by (simp_all add: open_substream_def Let_def)
        moreover have "sub_ok d ?t" "\<not> ss_opened ?t" "ss_use ?t = 0" using s2 by (simp_all add: sub_ok_def snd_rawmidi_runtime_free_def alive_def)
        ultimately show ?thesis using s d True c \<open>ss_use ?s = 0\<close>
          by (intro exI [of _ ?t] conjI device_replace [OF ok d i]) (auto simp: upd_sub_streams)
      next
        case False
        let ?t = "s2\<lparr>ss_opened := True, ss_sensing := False, ss_append := (ss_append s2 \<or> mode AND 4 \<noteq> 0), ss_use := ss_use s2 + 1\<rparr>"
        have "err = 0" "rmidi' = upd_str d (\<lambda>str. str\<lparr>st_opened := st_opened str + 1\<rparr>) (upd_sub d i ?t rmidi)"
          using o c1 c2 e1 False \<open>ss_use ?s = 0\<close> by (simp_all add: open_substream_def Let_def)
        moreover have "sub_ok d ?t" "ss_opened ?t" "ss_use ?t = 1" using s2 by (simp_all add: sub_ok_def)
        ultimately show ?thesis using s d c \<open>ss_use ?s = 0\<close>
          by (intro exI [of _ ?t] conjI device_replace [OF ok d i]) (auto simp: upd_sub_streams)
      qed
    qed
  qed
qed

text \<open>Turns in which nobody opens or closes the substream.\<close>

definition polite :: "rm_turns \<Rightarrow> bool" where
  "polite ts \<longleftrightarrow> (\<forall>t\<in>set ts. \<forall>s. ss_stream (t s) = ss_stream s \<and> ss_use (t s) = ss_use s)"

lemma turn_polite: "polite ts \<Longrightarrow> turn ts s = (ts', s') \<Longrightarrow> polite ts' \<and> ss_stream s' = ss_stream s \<and> ss_use s' = ss_use s"
  by (cases ts) (auto simp: turn_def polite_def)

lemma trigger_keeps:
  assumes "gentle_ops ops"
  shows "ss_stream (snd_rawmidi_input_trigger ops up s) = ss_stream s" "ss_use (snd_rawmidi_input_trigger ops up s) = ss_use s"
    "ss_stream (snd_rawmidi_output_trigger ops up s) = ss_stream s" "ss_use (snd_rawmidi_output_trigger ops up s) = ss_use s"
  using assms tame_book by (simp_all add: snd_rawmidi_input_trigger_def snd_rawmidi_output_trigger_def gentle_ops_def)

lemma kernel_write_keeps:
  assumes g: "gentle_ops ops" and s: "output_side s"
  shows "\<exists>k s'. snd_rawmidi_kernel_write ops data s = Some (k, s') \<and> ss_stream s' = ss_stream s \<and> ss_use s' = ss_use s"
  using kernel_write_outcome [OF s, of data ops] trigger_keeps(3,4) [OF g] by (auto simp: same_book_def)

lemma drain_keeps:
  assumes g: "gentle_ops ops" and p: "polite ts" and d: "snd_rawmidi_drain_output ops ts s = (err, ts', s')"
  shows "polite ts' \<and> ss_stream s' = ss_stream s \<and> ss_use s' = ss_use s"
proof -
  let ?s = "upd_rt (\<lambda>r. r\<lparr>rm_drain := False\<rparr>) (upd_rt (\<lambda>r. r\<lparr>rm_drain := True\<rparr>) s)"
  obtain ts1 s1 where e: "(case op_drain ops of Some f \<Rightarrow> (ts, f ?s) | None \<Rightarrow> turn ts ?s) = (ts1, s1)" by fastforce
  have "polite ts1 \<and> ss_stream s1 = ss_stream ?s \<and> ss_use s1 = ss_use ?s"
  proof (cases "op_drain ops")
    case None
    then show ?thesis using e turn_polite [OF p, of ?s] by simp
  next
    case (Some f)
    then have "tame ?s (f ?s)" using g by (simp add: gentle_ops_def)
    then show ?thesis using e Some p tame_book [of ?s "f ?s"] by auto
  qed
  moreover have "ts' = ts1" "s' = snd_rawmidi_drop_output ops s1" using d e by (simp_all add: snd_rawmidi_drain_output_def Let_def)
  ultimately show ?thesis using trigger_keeps(3,4) [OF g] by (simp add: snd_rawmidi_drop_output_def)
qed

lemma close_substream_outcome:
  assumes g: "gentle_ops ops" and ok: "device_ok rmidi" and d: "d = 0 \<or> d = 1" and i: "i < length (use_counts d rmidi)"
    and used: "0 < use_counts d rmidi ! i" and p: "polite ts"
  shows "\<exists>ts' rmidi' s. close_substream ops cleanup d i ts rmidi = Some (ts', rmidi') \<and> polite ts' \<and> replaced d i s rmidi rmidi' \<and>
    ss_use s = use_counts d rmidi ! i - 1"
proof -
  let ?s = "sub_at rmidi d i" and ?t = "(sub_at rmidi d i)\<lparr>ss_use := ss_use (sub_at rmidi d i) - 1\<rparr>"
  have s: "sub_ok d ?s" "use_counts d rmidi ! i = ss_use ?s" "ss_opened ?s" using sub_at_ok [OF ok d i] used by (auto simp: sub_ok_def)
  show ?thesis
  proof (cases "ss_use ?t = 0")
    case False
    then have "sub_ok d ?t" using s used by (auto simp: sub_ok_def)
    moreover have "close_substream ops cleanup d i ts rmidi = Some (ts, upd_sub d i ?t rmidi)" using False by (simp add: close_substream_def Let_def)
    ultimately show ?thesis using s d p
      by (intro exI [of _ ts] exI [of _ "upd_sub d i ?t rmidi"] exI [of _ ?t] conjI device_replace [OF ok d i]) (auto simp: upd_sub_streams)
  next
    case True
    let ?work = "if cleanup
        then if ss_stream ?t = 1 then Some (ts, snd_rawmidi_input_trigger ops False ?t)
             else map_option (\<lambda>s. snd (snd_rawmidi_drain_output ops ts s)) (if ss_sensing ?t then map_option snd (snd_rawmidi_kernel_write ops [0xfe] ?t) else Some ?t)
        else Some (ts, ?t)"
    have "\<exists>ts' s'. ?work = Some (ts', s') \<and> polite ts' \<and> ss_stream s' = d \<and> ss_use s' = 0"
    proof (cases "cleanup \<and> ss_stream ?t \<noteq> 1")
      case False
      then show ?thesis using p s True trigger_keeps(1,2) [OF g] by (auto simp: sub_ok_def)
    next
      case clean: True
      then have d0: "d = 0" using s(1) d by (simp add: sub_ok_def)
      then have t: "output_side ?t" "ss_stream ?t = d" using s(1,3) by (simp_all add: sub_ok_def output_side_def)
      obtain s1 where s1: "(if ss_sensing ?t then map_option snd (snd_rawmidi_kernel_write ops [0xfe] ?t) else Some ?t) = Some s1" "ss_stream s1 = d" "ss_use s1 = 0"
      proof (cases "ss_sensing ?t")
        case True
        obtain k s' where "snd_rawmidi_kernel_write ops [0xfe] ?t = Some (k, s')" "ss_stream s' = ss_stream ?t" "ss_use s' = ss_use ?t"
          using kernel_write_keeps [OF g t(1), of "[0xfe]"] by blast
        then show ?thesis using that t(2) \<open>ss_use ?t = 0\<close> True by simp
      next
        case False
        then show ?thesis using that t(2) \<open>ss_use ?t = 0\<close> by simp
      qed
      obtain e ts1 s2 where dr: "snd_rawmidi_drain_output ops ts s1 = (e, ts1, s2)" by (rule prod_cases3)
      have "?work = Some (ts1, s2)" using clean dr unfolding s1(1) by simp
      then show ?thesis using s1(2,3) drain_keeps [OF g p dr] by (intro exI [of _ ts1] exI [of _ s2]) simp
    qed
    then obtain ts' s' where w: "?work = Some (ts', s')" "polite ts'" "ss_stream s' = d" "ss_use s' = 0" by blast
    let ?free = "\<lambda>s. if rm_free (rt s) \<noteq> 0 then op_free ops (rm_free (rt s)) s else s"
    let ?f = "(snd_rawmidi_runtime_free (?free (op_close ops s')))\<lparr>ss_opened := False, ss_append := False\<rparr>"
    have c: "tame s' (op_close ops s')" "tame (op_close ops s') (?free (op_close ops s'))" using g by (simp_all add: gentle_ops_def)
    have "ss_stream (?free (op_close ops s')) = d" "ss_use (?free (op_close ops s')) = 0"
      using tame_book [OF c(2)] tame_book [OF c(1)] w(3,4) by (simp_all only:)
    then have f: "sub_ok d ?f" "ss_use ?f = 0" "\<not> ss_opened ?f" by (simp_all add: sub_ok_def snd_rawmidi_runtime_free_def alive_def)
    have "close_substream ops cleanup d i ts rmidi =
        Some (ts', upd_str d (\<lambda>str. str\<lparr>st_opened := st_opened str - 1\<rparr>) (upd_sub d i ?f rmidi))"
      using True w(1) unfolding close_substream_def Let_def by (simp add: Let_def)
    moreover have "replaced d i ?f rmidi (upd_str d (\<lambda>str. str\<lparr>st_opened := st_opened str - 1\<rparr>) (upd_sub d i ?f rmidi))"
      using s(3) f by (intro device_replace [OF ok d i]) (auto simp: upd_sub_streams)
    ultimately show ?thesis using True f(2) s(2) w(2) by fastforce
  qed
qed


lemma assigned:
  "assign_substream rmidi subdevice d mode = Inr i \<Longrightarrow> i < length (use_counts d rmidi)"
  "assign_substream rmidi subdevice d mode = Inl err \<Longrightarrow> err < 0"
  by (auto simp: assign_substream_def Let_def use_counts_def find_Some_iff split: if_splits option.splits)

lemma replacedD:
  assumes "replaced d i s rmidi rmidi'"
  shows "device_ok rmidi'" "use_counts d rmidi' = (use_counts d rmidi)[i := ss_use s]" "e \<noteq> d \<Longrightarrow> use_counts e rmidi' = use_counts e rmidi"
  using assms by (simp_all add: replaced_def)

text \<open>What an optional substream does to the use counts.\<close>

definition counted :: "nat option \<Rightarrow> int list \<Rightarrow> int list" where
  "counted i us = (case i of None \<Rightarrow> us | Some i \<Rightarrow> us[i := us ! i + 1])"

lemma open_optional:
  assumes g: "gentle_ops ops" and ok: "device_ok rmidi" and d: "d = 0 \<or> d = 1" and i: "\<forall>k. i = Some k \<longrightarrow> k < length (use_counts d rmidi)"
    and o: "(case i of None \<Rightarrow> (0, rmidi) | Some k \<Rightarrow> open_substream ops mem mode d k rmidi) = (err, rmidi')"
  shows "device_ok rmidi' \<and> err \<le> 0 \<and> use_counts d rmidi' = (if err < 0 then use_counts d rmidi else counted i (use_counts d rmidi)) \<and>
    (\<forall>e. e \<noteq> d \<longrightarrow> use_counts e rmidi' = use_counts e rmidi)"
proof (cases i)
  case None
  then show ?thesis using o ok by (simp add: counted_def)
next
  case (Some k)
  obtain s where s: "replaced d k s rmidi rmidi'" "if err < 0 then ss_use s = use_counts d rmidi ! k else err = 0 \<and> ss_use s = use_counts d rmidi ! k + 1"
    using open_substream_outcome [OF g ok d, of k mem mode err rmidi'] o i Some by auto
  then show ?thesis using replacedD [OF s(1)] Some by (auto simp: counted_def)
qed

lemma close_optional:
  assumes g: "gentle_ops ops" and ok: "device_ok rmidi" and d: "d = 0 \<or> d = 1" and p: "polite ts"
    and i: "\<forall>k. i = Some k \<longrightarrow> k < length us" and us: "use_counts d rmidi = counted i us" "\<forall>u\<in>set us. 0 \<le> u"
  shows "\<exists>ts' rmidi'. (case i of None \<Rightarrow> Some (ts, rmidi) | Some k \<Rightarrow> close_substream ops cleanup d k ts rmidi) = Some (ts', rmidi') \<and> polite ts' \<and>
    device_ok rmidi' \<and> use_counts d rmidi' = us \<and> (\<forall>e. e \<noteq> d \<longrightarrow> use_counts e rmidi' = use_counts e rmidi)"
proof (cases i)
  case None
  then show ?thesis using ok p us by (simp add: counted_def)
next
  case (Some k)
  then have k: "k < length us" "use_counts d rmidi = us[k := us ! k + 1]" using i us(1) by (simp_all add: counted_def)
  then have "0 \<le> us ! k" using us(2) by simp
  then have u: "k < length (use_counts d rmidi)" "0 < use_counts d rmidi ! k" "use_counts d rmidi ! k = us ! k + 1" using k by simp_all
  obtain ts' rmidi' s where c: "close_substream ops cleanup d k ts rmidi = Some (ts', rmidi')" "polite ts'" "replaced d k s rmidi rmidi'" "ss_use s = us ! k"
    using close_substream_outcome [OF g ok d u(1,2) p, of cleanup] u(3) by auto
  then show ?thesis using replacedD [OF c(3)] Some k by auto
qed

lemma use_counts_nonneg: "device_ok rmidi \<Longrightarrow> d = 0 \<or> d = 1 \<Longrightarrow> \<forall>u\<in>set (use_counts d rmidi). 0 \<le> u"
  by (auto simp: device_ok_def str_ok_def use_counts_def sub_ok_def)

text \<open>
  C24. Opening and releasing a raw MIDI file is balanced, whatever memory there is and whatever the other files have open. An
  open that fails, half-way or not, leaves every use count as it was; one that succeeds holds one more use of
  just the substreams asked for, each with a well-formed buffer; and releasing the file gives every use back,
  freeing the buffers nobody uses any more. The callbacks of the driver may send, receive and fail, but leave the book-keeping of
  the substream (its use count, its flags, the runtime, the size of the buffer and the references to it) to the core and a
  well-formed ring well formed; and while a release waits, nobody else opens or closes the substream, which \<^verbatim>\<open>open_mutex\<close> ensures.
\<close>

theorem open_release_balanced:
  assumes g: "gentle_ops ops" and ok: "device_ok rmidi" and p: "polite ts"
  shows "\<exists>err i j rmidi'. rawmidi_open_priv ops mem subdevice mode rmidi = Some (err, (i, j), rmidi') \<and> device_ok rmidi' \<and>
    (if err < 0 then i = None \<and> j = None \<and> (\<forall>d\<in>{0, 1}. use_counts d rmidi' = use_counts d rmidi)
     else err = 0 \<and> (i \<noteq> None \<longleftrightarrow> mode AND 2 \<noteq> 0) \<and> (j \<noteq> None \<longleftrightarrow> mode AND 1 \<noteq> 0) \<and>
       use_counts 1 rmidi' = counted i (use_counts 1 rmidi) \<and> use_counts 0 rmidi' = counted j (use_counts 0 rmidi) \<and>
       (\<exists>ts' rmidi''. rawmidi_release_priv ops (i, j) ts rmidi' = Some (ts', rmidi'') \<and> device_ok rmidi'' \<and>
         (\<forall>d\<in>{0, 1}. use_counts d rmidi'' = use_counts d rmidi)))"
proof -
  let ?want = "\<lambda>stream bit. if mode AND bit \<noteq> 0 then map_sum id Some (assign_substream rmidi subdevice stream mode) else Inr None"
  have want: "?want d bit = Inr i \<Longrightarrow> (i \<noteq> None \<longleftrightarrow> mode AND bit \<noteq> 0) \<and> (\<forall>k. i = Some k \<longrightarrow> k < length (use_counts d rmidi))"
    "?want d bit = Inl err \<Longrightarrow> err < 0" for d bit i err
    using assigned [of rmidi subdevice d mode] by (auto split: if_splits sum.splits simp: map_sum_def)
  have open_def: "rawmidi_open_priv ops mem subdevice mode rmidi =
      (case ?want 1 2 of Inl err \<Rightarrow> Some (err, (None, None), rmidi)
       | Inr i \<Rightarrow> case ?want 0 1 of Inl err \<Rightarrow> Some (err, (None, None), rmidi)
         | Inr j \<Rightarrow>
           let (err, rmidi) = (case i of None \<Rightarrow> (0, rmidi) | Some k \<Rightarrow> open_substream ops (mem 1) mode 1 k rmidi)
           in if err < 0 then Some (err, (None, None), rmidi)
              else let (err, rmidi) = (case j of None \<Rightarrow> (0, rmidi) | Some k \<Rightarrow> open_substream ops (mem 0) mode 0 k rmidi)
                in if err < 0 then map_option (\<lambda>rmidi. (err, (None, None), rmidi)) (case i of None \<Rightarrow> Some rmidi | Some k \<Rightarrow> map_option snd (close_substream ops False 1 k [] rmidi))
                   else Some (0, (i, j), rmidi))"
    unfolding rawmidi_open_priv_def Let_def by simp
  consider (refused) err where "?want 1 2 = Inl err \<or> (\<exists>i. ?want 1 2 = Inr i) \<and> ?want 0 1 = Inl err" | (both) i j where "?want 1 2 = Inr i" "?want 0 1 = Inr j"
    by (cases "?want 1 2"; cases "?want 0 1") blast+
  then show ?thesis
  proof cases
    case refused
    then have "err < 0" using want(2) [where d = 1 and bit = 2 and err = err] want(2) [where d = 0 and bit = 1 and err = err] by blast
    moreover have "rawmidi_open_priv ops mem subdevice mode rmidi = Some (err, (None, None), rmidi)" unfolding open_def using refused by auto
    ultimately show ?thesis using ok by simp
  next
    case both
    note i = want(1) [OF both(1)] and j = want(1) [OF both(2)]
    obtain e1 r1 where o1: "(case i of None \<Rightarrow> (0, rmidi) | Some k \<Rightarrow> open_substream ops (mem 1) mode 1 k rmidi) = (e1, r1)" by fastforce
    have c1: "device_ok r1" "e1 \<le> 0" "use_counts 1 r1 = (if e1 < 0 then use_counts 1 rmidi else counted i (use_counts 1 rmidi))" "use_counts 0 r1 = use_counts 0 rmidi"
      using open_optional [OF g ok _ _ o1] i by auto
    obtain e2 r2 where o2: "(case j of None \<Rightarrow> (0, r1) | Some k \<Rightarrow> open_substream ops (mem 0) mode 0 k r1) = (e2, r2)" by fastforce
    have c2: "device_ok r2" "e2 \<le> 0" "use_counts 0 r2 = (if e2 < 0 then use_counts 0 rmidi else counted j (use_counts 0 rmidi))" "use_counts 1 r2 = use_counts 1 r1"
      using open_optional [OF g c1(1) _ _ o2] j c1(4) by auto
    note n = use_counts_nonneg [OF ok]
    consider "e1 < 0" | "\<not> e1 < 0" "e2 < 0" | "\<not> e1 < 0" "\<not> e2 < 0" by blast
    then show ?thesis
    proof cases
      case 1
      then have "rawmidi_open_priv ops mem subdevice mode rmidi = Some (e1, (None, None), r1)"
        unfolding open_def both sum.case o1 Let_def prod.case by simp
      then show ?thesis using 1 c1 by simp
    next
      case 2
      have u: "use_counts 1 r2 = counted i (use_counts 1 rmidi)" using c1(3) c2(4) 2(1) by simp
      obtain ts3 r3 where c3: "(case i of None \<Rightarrow> Some ([], r2) | Some k \<Rightarrow> close_substream ops False 1 k [] r2) = Some (ts3, r3)" "device_ok r3"
        "use_counts 1 r3 = use_counts 1 rmidi" "use_counts 0 r3 = use_counts 0 r2"
        using close_optional [OF g c2(1) disjI2 [OF refl] _ i [THEN conjunct2] u n [OF disjI2 [OF refl]], of "[]" False] by (auto simp: polite_def)
      then have "(case i of None \<Rightarrow> Some r2 | Some k \<Rightarrow> map_option snd (close_substream ops False 1 k [] r2)) = Some r3" by (cases i) auto
      then have "rawmidi_open_priv ops mem subdevice mode rmidi = Some (e2, (None, None), r3)"
        unfolding open_def both sum.case o1 Let_def prod.case o2 using 2 by simp
      then show ?thesis using 2 c3 c2(3) by simp
    next
      case 3
      have u: "use_counts 1 r2 = counted i (use_counts 1 rmidi)" "use_counts 0 r2 = counted j (use_counts 0 rmidi)" using c1(3) c2(3,4) 3 by simp_all
      obtain ts3 r3 where c3: "(case i of None \<Rightarrow> Some (ts, r2) | Some k \<Rightarrow> close_substream ops True 1 k ts r2) = Some (ts3, r3)" "polite ts3" "device_ok r3"
        "use_counts 1 r3 = use_counts 1 rmidi" "use_counts 0 r3 = counted j (use_counts 0 rmidi)"
        using close_optional [OF g c2(1) disjI2 [OF refl] p i [THEN conjunct2] u(1) n [OF disjI2 [OF refl]], of True] u(2) by auto
      obtain ts4 r4 where c4: "(case j of None \<Rightarrow> Some (ts3, r3) | Some k \<Rightarrow> close_substream ops True 0 k ts3 r3) = Some (ts4, r4)" "device_ok r4"
        "use_counts 0 r4 = use_counts 0 rmidi" "use_counts 1 r4 = use_counts 1 rmidi"
        using close_optional [OF g c3(3) disjI1 [OF refl] c3(2) j [THEN conjunct2] c3(5) n [OF disjI1 [OF refl]], of True] c3(4) by auto
      have "rawmidi_release_priv ops (i, j) ts r2 = Some (ts4, r4\<lparr>rd_wakeups := rd_wakeups r4 + 1\<rparr>)"
        using c3(1) c4(1) by (simp add: rawmidi_release_priv_def)
      moreover have "rawmidi_open_priv ops mem subdevice mode rmidi = Some (0, (i, j), r2)"
        unfolding open_def both sum.case o1 Let_def prod.case o2 using 3 by simp
      moreover have "device_ok (r4\<lparr>rd_wakeups := n\<rparr>) = device_ok r4" "use_counts d (r4\<lparr>rd_wakeups := n\<rparr>) = use_counts d r4" for n d
        by (simp_all add: device_ok_def use_counts_def)
      ultimately show ?thesis using c2(1) u i j c4(2-4) by (intro exI [of _ 0] exI [of _ i] exI [of _ j] exI [of _ r2]) simp
    qed
  qed
qed

section \<open>Samples\<close>

definition sample_rm_ops :: rm_ops where
  "sample_rm_ops = \<lparr>op_open = (\<lambda>s. (0, s)), op_close = (\<lambda>s. s), op_trigger = (\<lambda>_ s. s), op_drain = None, op_free = (\<lambda>_ s. s)\<rparr>"

definition sample_ring :: rm_runtime where
  "sample_ring = \<lparr>rm_drain = False, rm_oss = False, rm_buffer = [10, 11, 12, 13, 14, 15, 16, 17], rm_size = 8, rm_appl = 1, rm_hw = 6,
     rm_avail_min = 1, rm_avail = 5, rm_xruns = 0, rm_ref = 0, rm_event = 0, rm_private = 0, rm_free = 0, rm_wakeups = 0\<rparr>"

definition sample_sub :: "nat \<Rightarrow> rm_runtime option \<Rightarrow> rm_substream" where
  "sample_sub d r = \<lparr>ss_stream = d, ss_number = 0, ss_opened = (r \<noteq> None), ss_append = False, ss_sensing = False, ss_framing = 0, ss_clock = 0,
     ss_use = (if r = None then 0 else 1), ss_bytes = 0, ss_name = ''midi'', ss_runtime = r, ss_shutdown = False\<rparr>"

lemma sample_quiet: "quiet_ops sample_rm_ops" "gentle_ops sample_rm_ops" "driver_ops sample_rm_ops"
proof -
  show q: "quiet_ops sample_rm_ops" by (simp add: quiet_ops_def sample_rm_ops_def)
  show "gentle_ops sample_rm_ops" by (simp add: gentle_ops_def sample_rm_ops_def)
  show "driver_ops sample_rm_ops" by (rule quiet_driver [OF q])
qed

text \<open>A driver that sends a byte or receives one whenever it is started.\<close>

definition busy_ops :: rm_ops where
  "busy_ops = sample_rm_ops\<lparr>op_trigger := \<lambda>up s.
     if up \<and> output_side s then (case snd_rawmidi_transmit 1 s of None \<Rightarrow> s | Some (_, _, s') \<Rightarrow> s')
     else if up \<and> input_side s then (case snd_rawmidi_receive (0, 0, 0) (\<lambda>_. (0, 0)) [0xfe] s of None \<Rightarrow> s | Some (_, s') \<Rightarrow> s')
     else s\<rparr>"

lemma busy_trigger:
  "output_side s \<Longrightarrow> \<exists>xs. driver_sends s xs (op_trigger busy_ops up s)" "input_side s \<Longrightarrow> \<exists>offered xs. driver_receives s offered xs (op_trigger busy_ops up s)"
proof -
  assume s: "output_side s"
  then show "\<exists>xs. driver_sends s xs (op_trigger busy_ops up s)"
    using driver_sends.transmit [OF _ _ driver_sends.idle, of 1 s] driver_sends.idle [of s]
    by (cases "snd_rawmidi_transmit 1 s") (auto simp: busy_ops_def)
next
  assume s: "input_side s"
  then have "\<not> output_side s" by (simp add: input_side_def output_side_def)
  then show "\<exists>offered xs. driver_receives s offered xs (op_trigger busy_ops up s)"
    using s driver_receives.receive [OF _ driver_receives.idle, of "(0, 0, 0)" "\<lambda>_. (0, 0)" "[0xfe]" s] driver_receives.idle [of s]
    by (cases "snd_rawmidi_receive (0, 0, 0) (\<lambda>_. (0, 0)) [0xfe] s") (auto simp: busy_ops_def)
qed

lemma sample_busy: "driver_ops busy_ops" "gentle_ops busy_ops"
proof -
  show "driver_ops busy_ops" unfolding driver_ops_def using busy_trigger by blast
  have "tame s (op_trigger busy_ops up s)" for up s
  proof -
    consider "output_side s" | "input_side s" | "\<not> output_side s \<and> \<not> input_side s" by blast
    then show ?thesis
    proof cases
      case 3
      then show ?thesis by (simp add: busy_ops_def)
    qed (use busy_trigger [of s up] driver_tame in blast)+
  qed
  then show "gentle_ops busy_ops" by (simp add: gentle_ops_def busy_ops_def sample_rm_ops_def)
qed

text \<open>Three bytes wait in the output, across the end of the ring, and five in the input.\<close>

lemma sample_sides: "output_side (sample_sub 0 (Some sample_ring))" "input_side (sample_sub 1 (Some sample_ring))"
  by (simp_all add: output_side_def input_side_def sample_sub_def alive_def rt_def output_ok_def input_ok_def size_ok_def ring_ok_def sample_ring_def)

theorem midi_output_in_order_witness:
  "\<exists>accepted sent refused s'. pipe_run (output_call busy_ops) [Put [1, 2, 3], Get 2, Put [4, 5, 6, 7], Get 10] (sample_sub 0 (Some sample_ring))
     accepted sent refused s' \<and> [16, 17, 10] @ accepted = sent @ output_bytes (rt s')"
proof -
  have "output_bytes (rt (sample_sub 0 (Some sample_ring))) = [16, 17, 10]"
    by (simp add: sample_sub_def rt_def output_bytes_def ring_def sample_ring_def upt_rec)
  then show ?thesis
    using midi_output_in_order [OF sample_busy(1) sample_sides(1), of "[Put [1, 2, 3], Get 2, Put [4, 5, 6, 7], Get 10]"] by (elim conjE) metis
qed

theorem midi_input_in_order_witness:
  "\<exists>taken got lost s'. pipe_run (input_call (0, 0, 0) (\<lambda>_. (0, 0)) busy_ops) [Put [1, 2, 3, 4], Get 2] (sample_sub 1 (Some sample_ring)) taken got lost s' \<and>
     [11, 12, 13, 14, 15] @ taken = got @ input_bytes (rt s') \<and> rm_xruns (rt s') = of_nat lost"
proof -
  have "input_bytes (rt (sample_sub 1 (Some sample_ring))) = [11, 12, 13, 14, 15]" "rm_xruns (rt (sample_sub 1 (Some sample_ring))) = 0"
    by (simp_all add: sample_sub_def rt_def input_bytes_def ring_def sample_ring_def upt_rec)
  then show ?thesis
    using midi_input_in_order [OF sample_busy(1) sample_sides(2), of "(0, 0, 0)" "\<lambda>_. (0, 0)" "[Put [1, 2, 3, 4], Get 2]"] by (elim conjE) (metis add_0)
qed

definition sample_frames :: rm_runtime where
  "sample_frames = sample_ring\<lparr>rm_buffer := replicate 96 0, rm_size := 96, rm_appl := 64, rm_hw := 64, rm_avail := 0\<rparr>"

theorem frames_round_trip_witness:
  "(\<exists>k r'. receive_with_tstamp_framing (0, 0xbb, 0xcc) (7, 8) (replicate 40 0x90) sample_frames = Some (int k, r') \<and>
     unframe (input_bytes r') = take k (replicate 40 0x90)) \<and>
   (\<exists>k r'. receive_with_tstamp_framing (0xaa, 0xbb, 0xcc) (7, 8) (replicate 40 0x90) sample_frames = Some (int k, r') \<and>
     unframe (input_bytes r') = [])"
proof -
  have "frames_ok sample_frames" by (simp add: frames_ok_def input_ok_def size_ok_def ring_ok_def sample_frames_def sample_ring_def)
  moreover have "unframe (input_bytes sample_frames) = []" by (simp add: input_bytes_def sample_frames_def unframe.simps)
  ultimately show ?thesis
    using frames_round_trip [of sample_frames "(0, 0xbb, 0xcc)" "(7, 8)" "replicate 40 0x90"]
      frames_round_trip [of sample_frames "(0xaa, 0xbb, 0xcc)" "(7, 8)" "replicate 40 0x90"] by auto
qed

theorem drain_discards_witness:
  "\<exists>s'. snd_rawmidi_drain_output sample_rm_ops [] (sample_sub 0 (Some sample_ring)) = (0, [], s') \<and>
     output_bytes (rt (sample_sub 0 (Some sample_ring))) = [16, 17, 10] \<and> output_bytes (rt s') = [] \<and> ss_bytes s' = 0"
proof -
  have "output_bytes (rt (sample_sub 0 (Some sample_ring))) = [16, 17, 10]" "ss_bytes (sample_sub 0 (Some sample_ring)) = 0" "op_drain sample_rm_ops = None"
    by (simp_all add: sample_sub_def rt_def output_bytes_def ring_def sample_ring_def upt_rec sample_rm_ops_def)
  then show ?thesis using drain_discards [OF sample_quiet(1) sample_sides(1)] by auto
qed

definition sample_empty :: rm_substream where
  "sample_empty = sample_sub 1 (Some (sample_ring\<lparr>rm_appl := 6, rm_avail := 0\<rparr>))"

theorem blocking_read_fails_witness:
  "\<exists>s'. snd_rawmidi_read sample_rm_ops False (\<lambda>_ _. False) 3 [] (Some sample_empty) = Some (- EIO, [], [], Some s')"
proof -
  have "input_side sample_empty" "rm_avail (rt sample_empty) = 0" "rm_avail_min (rt sample_empty) > 0" "\<not> ss_shutdown sample_empty"
    by (simp_all add: sample_empty_def sample_sub_def input_side_def alive_def rt_def input_ok_def size_ok_def ring_ok_def sample_ring_def sample_rm_ops_def)
  then show ?thesis using blocking_read_fails [OF sample_quiet(1), of sample_empty 3 False "\<lambda>_ _. False"] by auto
qed

definition sample_device :: rm_device where
  "sample_device = \<lparr>rd_card = 0, rd_device = 0, rd_flags = 7, rd_id = ''id'', rd_name = ''name'',
     rd_streams = (\<lambda>d. \<lparr>st_count = 1, st_opened = 0, st_subs = [sample_sub d None]\<rparr>), rd_wakeups = 0\<rparr>"

theorem open_release_balanced_witness:
  "\<exists>rmidi'. rawmidi_open_priv busy_ops (\<lambda>_. (True, True)) (- 1) 3 sample_device = Some (0, (Some 0, Some 0), rmidi') \<and>
     use_counts 1 rmidi' = [1] \<and> use_counts 0 rmidi' = [1] \<and>
     (\<exists>ts' rmidi''. rawmidi_release_priv busy_ops (Some 0, Some 0) [] rmidi' = Some (ts', rmidi'') \<and> use_counts 0 rmidi'' = [0] \<and> use_counts 1 rmidi'' = [0])"
proof -
  have ok: "device_ok sample_device" by (simp add: device_ok_def str_ok_def sub_ok_def sample_device_def sample_sub_def alive_def)
  have u: "use_counts d sample_device = [0]" for d by (simp add: use_counts_def sample_device_def sample_sub_def)
  have "\<exists>rmidi'. rawmidi_open_priv busy_ops (\<lambda>_. (True, True)) (- 1) 3 sample_device = Some (0, (Some 0, Some 0), rmidi')"
    by (simp add: rawmidi_open_priv_def assign_substream_def open_substream_def snd_rawmidi_runtime_create_def sample_device_def sample_sub_def
        busy_ops_def sample_rm_ops_def sub_at_def upd_sub_def upd_str_def Let_def)
  then obtain r where r: "rawmidi_open_priv busy_ops (\<lambda>_. (True, True)) (- 1) 3 sample_device = Some (0, (Some 0, Some 0), r)" by blast
  show ?thesis using open_release_balanced [OF sample_busy(2) ok, of "[]" "\<lambda>_. (True, True)" "- 1" 3] r u
    by (simp add: polite_def counted_def) blast
qed

end
