(* ===== verification/SeqMidi.thy ===== *)
theory SeqMidi
  imports SeqMidiEvent RawMidiStreams "HOL-Library.Sublist"
begin

text \<open>
  The port of a raw MIDI device in the sequencer, \<^verbatim>\<open>core/seq/seq_midi.c\<close>: bytes that arrive become events for the
  subscribers, events sent to the port become bytes for the device, and subscriptions open and close the device.
\<close>

section \<open>State\<close>

record seq_midisynth =
  sm_card :: nat
  sm_device :: u32
  sm_subdevice :: int
  sm_input_rfile :: rm_file
  sm_output_rfile :: rm_file
  sm_client :: int
  sm_port :: u8
  sm_parser :: "midi_event option"

text \<open>\<^verbatim>\<open>memset(&ev, 0, sizeof(ev))\<close>.\<close>

definition zero_event :: seq_event where
  "zero_event = \<lparr>ev_type = 0, ev_flags = 0, ev_tag = 0, ev_queue = 0, ev_time = Real_time 0 0,
     ev_source = (0, 0), ev_dest = (0, 0), ev_data = (0, 0, 0)\<rparr>"

abbreviation (input) ADDRESS_SUBSCRIBERS :: u8 where "ADDRESS_SUBSCRIBERS \<equiv> 254"

section \<open>Input\<close>

text \<open>
  Bytes go to the parser one by one. \<open>dispatch\<close> is \<^verbatim>\<open>snd_seq_kernel_client_dispatch\<close>: it gets the client, the event,
  and the bytes of the parser's buffer that a variable-length event refers to.
\<close>

type_synonym 'st dispatcher = "int \<Rightarrow> seq_event \<Rightarrow> u8 list \<Rightarrow> 'st \<Rightarrow> 'st"

definition from_port :: "u8 \<Rightarrow> seq_event \<Rightarrow> seq_event" where
  "from_port port ev = ev\<lparr>ev_source := (fst (ev_source ev), port), ev_dest := (ADDRESS_SUBSCRIBERS, snd (ev_dest ev))\<rparr>"

fun encode_input ::
  "'st dispatcher \<Rightarrow> int \<Rightarrow> u8 \<Rightarrow> u8 list \<Rightarrow> midi_event \<Rightarrow> seq_event \<Rightarrow> 'st \<Rightarrow> (midi_event \<times> seq_event \<times> 'st) option" where
  "encode_input dispatch client port [] dev ev st = Some (dev, ev, st)"
| "encode_input dispatch client port (c # cs) dev ev st =
     Option.bind (snd_midi_event_encode_byte c dev ev) (\<lambda>(rc, dev, ev).
       if \<not> rc then encode_input dispatch client port cs dev ev st
       else
         let ev = from_port port ev; data = (if snd_seq_ev_is_variable ev then take (var_len ev) (me_buf dev) else [])
         in encode_input dispatch client port cs dev zero_event (dispatch client ev data st))"

text \<open>The loop until the ring is empty; a turn after every read is what the driver does meanwhile.\<close>

partial_function (option) input_loop ::
  "rm_ops \<Rightarrow> 'st dispatcher \<Rightarrow> rm_turns \<Rightarrow> seq_midisynth \<Rightarrow> seq_event \<Rightarrow> rm_substream \<Rightarrow> 'st \<Rightarrow> (rm_turns \<times> seq_midisynth \<times> rm_substream \<times> 'st) option" where
  "input_loop ops dispatch ts ms ev s st =
     (if rm_avail (rt s) > 0 then
        Option.bind (snd_rawmidi_kernel_read ops 16 s) (\<lambda>(res, buf, s).
          let (ts, s) = turn ts s
          in if res \<le> 0 then input_loop ops dispatch ts ms ev s st
             else
               case sm_parser ms of
                 None \<Rightarrow> input_loop ops dispatch ts ms ev s st
               | Some dev \<Rightarrow>
                   Option.bind (encode_input dispatch (sm_client ms) (sm_port ms) buf dev ev st) (\<lambda>(dev, ev, st).
                     input_loop ops dispatch ts (ms\<lparr>sm_parser := Some dev\<rparr>) ev s st))
      else Some (ts, ms, s, st))"

text \<open>\<open>synths\<close>: the ports by address; the handler finds its own in the private data of the stream.\<close>

definition snd_midi_input_event ::
  "rm_ops \<Rightarrow> 'st dispatcher \<Rightarrow> rm_turns \<Rightarrow> (nat \<Rightarrow> seq_midisynth) \<Rightarrow> rm_substream option \<Rightarrow> 'st \<Rightarrow>
   (rm_turns \<times> (nat \<Rightarrow> seq_midisynth) \<times> rm_substream option \<times> 'st) option" where
  "snd_midi_input_event ops dispatch ts synths substream st =
     (case substream of
        None \<Rightarrow> Some (ts, synths, None, st)
      | Some s \<Rightarrow>
          let p = rm_private (rt s)
          in if p = 0 then Some (ts, synths, Some s, st)
             else map_option (\<lambda>(ts, ms, s, st). (ts, synths(p := ms), Some s, st)) (input_loop ops dispatch ts (synths p) zero_event s st))"

section \<open>Output\<close>

definition dump_midi :: "rm_ops \<Rightarrow> rm_substream \<Rightarrow> u8 list \<Rightarrow> (int \<times> rm_substream) option" where
  "dump_midi ops s buf =
     (if sint (rm_avail (rt s)) < int (length buf) then Some (- ENOMEM, s)
      else map_option (\<lambda>(k, s). (if k < int (length buf) then - EINVAL else 0, s)) (snd_rawmidi_kernel_write ops buf s))"

text \<open>
  As a consumer of \<^verbatim>\<open>snd_seq_dump_var_event\<close>: \<open>None\<close> stands for an access outside of the buffer, after which
  nothing more is consumed.
\<close>

definition dump_piece :: "rm_ops \<Rightarrow> rm_substream option \<Rightarrow> u8 list \<Rightarrow> int \<times> rm_substream option" where
  "dump_piece ops s buf =
     (case Option.bind s (\<lambda>s. dump_midi ops s buf) of None \<Rightarrow> (- EINVAL, None) | Some (err, s) \<Rightarrow> (err, Some s))"

text \<open>\<open>data\<close>, \<open>bad\<close> and \<open>m\<close>: the memory a variable-length event refers to.\<close>

definition event_process_midi ::
  "rm_ops \<Rightarrow> u8 list \<Rightarrow> (nat \<Rightarrow> bool) \<Rightarrow> seq_mem \<Rightarrow> seq_event \<Rightarrow> seq_midisynth \<Rightarrow> rm_substream option \<Rightarrow>
   (int \<times> seq_midisynth \<times> rm_substream option) option" where
  "event_process_midi ops data bad m ev ms substream =
     (case substream of
        None \<Rightarrow> Some (- ENODEV, ms, None)
      | Some s \<Rightarrow>
          if ev_type ev = EVENT_SYSEX then
            if ev_flags ev AND 12 \<noteq> 4 then Some (0, ms, Some s)
            else
              Option.bind (snd (snd_seq_dump_var_event (dump_piece ops) ev data bad m (Some s))) (\<lambda>s.
                Option.bind (sm_parser ms) (\<lambda>dev.
                  Some (0, ms\<lparr>sm_parser := Some (snd_midi_event_reset_decode dev)\<rparr>, Some s)))
          else
            case sm_parser ms of
              None \<Rightarrow> Some (- EIO, ms, Some s)
            | Some dev \<Rightarrow>
                let (n, msg, dev) = snd_midi_event_decode data bad m 10 dev ev
                in if n < 0 then Some (0, ms\<lparr>sm_parser := Some dev\<rparr>, Some s)
                   else
                     map_option (\<lambda>(err, s).
                         (0, ms\<lparr>sm_parser := Some (if err < 0 then snd_midi_event_reset_decode dev else dev)\<rparr>, Some s))
                       (dump_midi ops s msg))"


section \<open>Ports and subscriptions\<close>

text \<open>\<open>mem\<close> is the buffer for the parser, \<open>None\<close> without memory.\<close>

definition snd_seq_midisynth_new :: "(u32 \<times> u8 list) option \<Rightarrow> nat \<Rightarrow> u32 \<Rightarrow> int \<Rightarrow> seq_midisynth \<Rightarrow> int \<times> seq_midisynth" where
  "snd_seq_midisynth_new mem crd device subdevice ms =
     (let (err, dev) = snd_midi_event_new 256 mem
      in if err < 0 then (- ENOMEM, ms)
         else (0, ms\<lparr>sm_card := crd, sm_device := device, sm_subdevice := subdevice, sm_parser := dev\<rparr>))"

abbreviation (input) buffer_params :: "bool \<Rightarrow> rm_params" where
  "buffer_params no_sensing \<equiv> \<lparr>pa_size = PAGE_SIZE, pa_avail_min = 1, pa_no_sensing = no_sensing, pa_mode = 0\<rparr>"

text \<open>
  The callbacks of a port. \<open>mem\<close> says what memory the open finds, \<open>room\<close> whether the buffer can be reallocated;
  \<open>self\<close> is the address of the port, \<open>uses\<close> the use count of the module. Handler 1 is \<^verbatim>\<open>snd_midi_input_event\<close>.
\<close>

definition midisynth_subscribe ::
  "rm_ops \<Rightarrow> (nat \<Rightarrow> bool \<times> bool) \<Rightarrow> bool \<Rightarrow> nat \<Rightarrow> seq_midisynth \<Rightarrow> u32 \<Rightarrow> rm_device list \<Rightarrow> (int \<times> seq_midisynth \<times> u32 \<times> rm_device list) option" where
  "midisynth_subscribe ops mem room_left self ms uses devices =
     Option.bind (snd_rawmidi_kernel_open ops mem (sm_card ms) (sm_device ms) (sm_subdevice ms) 2 uses devices) (\<lambda>(err, rfile, uses, devices).
       let ms = ms\<lparr>sm_input_rfile := rfile\<rparr>
       in if err < 0 then Some (err, ms, uses, devices)
          else
            let k = the (rf_device rfile); i = the (rf_input rfile);
                (err, s) = snd_rawmidi_input_params ops room_left (buffer_params False) (sub_at (devices ! k) 1 i);
                devices = devices[k := upd_sub 1 i s (devices ! k)]
            in if err < 0
               then map_option (\<lambda>(_, rfile, devices). (err, ms\<lparr>sm_input_rfile := rfile\<rparr>, uses, devices)) (snd_rawmidi_kernel_release ops [] k rfile devices)
               else
                 Option.bind (sm_parser ms) (\<lambda>dev.
                   map_option (\<lambda>(_, _, s). (0, ms\<lparr>sm_parser := Some (reset_encode dev)\<rparr>, uses, devices[k := upd_sub 1 i s (devices ! k)]))
                     (snd_rawmidi_kernel_read ops 0 (upd_rt (\<lambda>r. r\<lparr>rm_event := 1, rm_private := self\<rparr>) s))))"

definition midisynth_unsubscribe :: "rm_ops \<Rightarrow> rm_turns \<Rightarrow> seq_midisynth \<Rightarrow> rm_device list \<Rightarrow> (int \<times> rm_turns \<times> seq_midisynth \<times> rm_device list) option" where
  "midisynth_unsubscribe ops ts ms devices =
     map_option (\<lambda>(ts, rfile, devices). (0, ts, ms\<lparr>sm_input_rfile := rfile\<rparr>, devices))
       (snd_rawmidi_kernel_release ops ts (the (rf_device (sm_input_rfile ms))) (sm_input_rfile ms) devices)"

definition midisynth_use ::
  "rm_ops \<Rightarrow> (nat \<Rightarrow> bool \<times> bool) \<Rightarrow> bool \<Rightarrow> rm_turns \<Rightarrow> seq_midisynth \<Rightarrow> u32 \<Rightarrow> rm_device list \<Rightarrow>
   (int \<times> rm_turns \<times> seq_midisynth \<times> u32 \<times> rm_device list) option" where
  "midisynth_use ops mem room_left ts ms uses devices =
     Option.bind (snd_rawmidi_kernel_open ops mem (sm_card ms) (sm_device ms) (sm_subdevice ms) 1 uses devices) (\<lambda>(err, rfile, uses, devices).
       let ms = ms\<lparr>sm_output_rfile := rfile\<rparr>
       in if err < 0 then Some (err, ts, ms, uses, devices)
          else
            let k = the (rf_device rfile); i = the (rf_output rfile);
                (err, ts, s) = snd_rawmidi_output_params ops room_left (buffer_params True) ts (sub_at (devices ! k) 0 i);
                devices = devices[k := upd_sub 0 i s (devices ! k)]
            in if err < 0
               then map_option (\<lambda>(ts, rfile, devices). (err, ts, ms\<lparr>sm_output_rfile := rfile\<rparr>, uses, devices)) (snd_rawmidi_kernel_release ops ts k rfile devices)
               else map_option (\<lambda>dev. (0, ts, ms\<lparr>sm_parser := Some (snd_midi_event_reset_decode dev)\<rparr>, uses, devices)) (sm_parser ms))"

definition midisynth_unuse :: "rm_ops \<Rightarrow> rm_turns \<Rightarrow> seq_midisynth \<Rightarrow> rm_device list \<Rightarrow> (int \<times> rm_turns \<times> seq_midisynth \<times> rm_device list) option" where
  "midisynth_unuse ops ts ms devices =
     (let rfile = sm_output_rfile ms; k = the (rf_device rfile); i = the (rf_output rfile);
          (_, ts, s) = snd_rawmidi_drain_output ops ts (sub_at (devices ! k) 0 i);
          devices = devices[k := upd_sub 0 i s (devices ! k)]
      in map_option (\<lambda>(ts, rfile, devices). (0, ts, ms\<lparr>sm_output_rfile := rfile\<rparr>, devices)) (snd_rawmidi_kernel_release ops ts k rfile devices))"

section \<open>Output as a stream of messages\<close>

lemma in_step_reset: "in_step dec enc \<Longrightarrow> in_step (snd_midi_event_reset_decode dec) enc"
  by (simp add: in_step_def snd_midi_event_reset_decode_def)

lemma fixed_length:
  assumes v: "midi_valid ev" and ok: "coder_ok enc" and d: "snd_midi_event_decode data bad m space dec ev = (int (length bytes), bytes, dec')"
  shows "length bytes \<le> 3"
proof -
  have "status_byte (midi_index ev) ev \<noteq> 0xf0"
    using no_args(4) [OF ok v] status_byte_facts(4) [OF v] by (cases "se_decode (status_event ! midi_index ev)") auto
  then have "decode_fixed (midi_index ev) space dec ev = (int (length bytes), bytes, dec')" using decode_valid [OF v] d by simp
  moreover have "se_qlen (status_event ! midi_index ev) \<le> 2" using midi_valid_entry [OF v] by (intro status_event_cases(1)) simp
  ultimately show ?thesis by (auto simp: decode_fixed_def Let_def split: if_splits)
qed

lemma output_fill: "output_ok r \<Longrightarrow> length (output_bytes r) + unat (rm_avail r) = unat (rm_size r)"
  using size_okD [OF output_okD(1)] by (auto simp: output_bytes_def)

lemma dump_midi_outcome:
  assumes "driver_ops ops" "output_side s"
  shows "\<exists>err s0 xs s'. dump_midi (silent ops) s buf = Some (err, s0) \<and> dump_midi ops s buf = Some (err, s') \<and> driver_sends s0 xs s' \<and> output_side s0 \<and>
    (if unat (rm_avail (rt s)) < length buf then err < 0 \<and> s0 = s
     else err = 0 \<and> output_bytes (rt s0) = output_bytes (rt s) @ buf \<and> unat (rm_avail (rt s0)) = unat (rm_avail (rt s)) - length buf)"
proof -
  have ok: "output_ok (rt s)" using assms(2) by (simp add: output_side_def)
  then have av: "sint (rm_avail (rt s)) = int (unat (rm_avail (rt s)))" using size_okD [OF output_okD(1)] by (intro small_sint) force
  have lt: "sint (rm_avail (rt s)) < int (length buf) \<longleftrightarrow> unat (rm_avail (rt s)) < length buf" unfolding av by (simp only: of_nat_less_iff)
  show ?thesis
  proof (cases "unat (rm_avail (rt s)) < length buf")
    case True
    then show ?thesis using assms(2) lt by (auto simp: dump_midi_def intro: driver_sends.idle)
  next
    case False
    then have n: "\<not> sint (rm_avail (rt s)) < int (length buf)" "write_result s buf = int (length buf)"
      using lt by (simp_all add: write_result_def Let_def output_room [OF ok])
    obtain s0 xs s' where w: "snd_rawmidi_kernel_write (silent ops) buf s = Some (int (length buf), s0)"
      "snd_rawmidi_kernel_write ops buf s = Some (int (length buf), s')" "driver_sends s0 xs s'" "output_side s0"
      "output_bytes (rt s0) = output_bytes (rt s) @ buf" "unat (rm_avail (rt s0)) = unat (rm_avail (rt s)) - length buf"
      using kernel_write_sends [OF assms, of buf] unfolding n(2) by auto
    have "dump_midi (silent ops) s buf = Some (0, s0)" "dump_midi ops s buf = Some (0, s')"
      using w(1,2) by (simp_all add: dump_midi_def if_not_P [OF n(1)])
    then show ?thesis using w(3-6) False by auto
  qed
qed

text \<open>An event is written as a whole or not at all, and the listener keeps track either way.\<close>

lemma event_process_outcome:
  assumes q: "driver_ops ops" and o: "output_side s" and p: "sm_parser ms = Some dec" and i: "in_step dec enc" and v: "midi_valid ev"
  shows "\<exists>dec' s0 xs s' bytes. event_process_midi (silent ops) [] (\<lambda>_. False) m ev ms (Some s) = Some (0, ms\<lparr>sm_parser := Some dec'\<rparr>, Some s0) \<and>
    event_process_midi ops [] (\<lambda>_. False) m ev ms (Some s) = Some (0, ms\<lparr>sm_parser := Some dec'\<rparr>, Some s') \<and> driver_sends s0 xs s' \<and>
    output_side s0 \<and> output_bytes (rt s0) = output_bytes (rt s) @ bytes \<and> length bytes \<le> 3 \<and> unat (rm_avail (rt s0)) = unat (rm_avail (rt s)) - length bytes \<and>
    (if bytes = [] then in_step dec' enc \<and> unat (rm_avail (rt s)) < 3
     else \<exists>enc' ev'. run_encode bytes enc ev0 = Some ([(ev', [])], enc', ev') \<and> midi_message ev' = midi_message ev \<and> in_step dec' enc')"
proof -
  obtain bytes dec1 enc1 ev1 where d: "snd_midi_event_decode [] (\<lambda>_. False) m 10 dec ev = (int (length bytes), bytes, dec1)"
    "run_encode bytes enc ev0 = Some ([(ev1, [])], enc1, ev1)" "midi_message ev1 = midi_message ev" "in_step dec1 enc1"
    using event_in_step [OF i v, of 10 "[]" "\<lambda>_. False" m ev0] by auto
  note len = fixed_length [OF v _ d(1), of enc]
  have ok: "coder_ok enc" using i by (simp add: in_step_def)
  have ne: "bytes \<noteq> []" using d(2) by auto
  have t: "ev_type ev \<noteq> EVENT_SYSEX" using v by (auto simp: midi_valid_def split: if_splits)
  obtain err s0 xs s' where w: "dump_midi (silent ops) s bytes = Some (err, s0)" "dump_midi ops s bytes = Some (err, s')" "driver_sends s0 xs s'" "output_side s0"
    "if unat (rm_avail (rt s)) < length bytes then err < 0 \<and> s0 = s
     else err = 0 \<and> output_bytes (rt s0) = output_bytes (rt s) @ bytes \<and> unat (rm_avail (rt s0)) = unat (rm_avail (rt s)) - length bytes"
    using dump_midi_outcome [OF q o] by blast
  have e: "event_process_midi drv [] (\<lambda>_. False) m ev ms (Some s) =
      Some (0, ms\<lparr>sm_parser := Some (if err < 0 then snd_midi_event_reset_decode dec1 else dec1)\<rparr>, Some x)" if "dump_midi drv s bytes = Some (err, x)" for drv x
    using t p d(1) that by (simp add: event_process_midi_def)
  show ?thesis
  proof (cases "unat (rm_avail (rt s)) < length bytes")
    case True
    have "in_step (snd_midi_event_reset_decode dec1) enc" using ok by (simp add: in_step_def snd_midi_event_reset_decode_def)
    then show ?thesis using e [OF w(1)] e [OF w(2)] w(3-5) True ok len
      by (intro exI [of _ "snd_midi_event_reset_decode dec1"] exI [of _ s0] exI [of _ xs] exI [of _ s'] exI [of _ "[]"]) auto
  next
    case False
    then show ?thesis using e [OF w(1)] e [OF w(2)] w(3-5) d ne ok len
      by (intro exI [of _ dec1] exI [of _ s0] exI [of _ xs] exI [of _ s'] exI [of _ bytes]) auto
  qed
qed

datatype midi_call = Play seq_event | Send nat

fun played :: "midi_call list \<Rightarrow> seq_event list" where
  "played [] = []"
| "played (Play ev # cs) = ev # played cs"
| "played (Send n # cs) = played cs"

text \<open>
  Events for the port and transmissions of the driver, in any order: the events that went into the ring and the bytes sent. An event
  is processed as it is without the trigger, and then the driver sends what it likes.
\<close>

inductive port_run ::
  "rm_ops \<Rightarrow> seq_mem \<Rightarrow> midi_call list \<Rightarrow> seq_midisynth \<Rightarrow> rm_substream \<Rightarrow> seq_event list \<Rightarrow> u8 list \<Rightarrow> seq_midisynth \<Rightarrow> rm_substream \<Rightarrow> bool"
  for ops m where
  port_done: "port_run ops m [] ms s [] [] ms s"
| port_play: "event_process_midi ops [] (\<lambda>_. False) m ev ms (Some s) = Some (r, ms1, Some s1) \<Longrightarrow>
    event_process_midi (silent ops) [] (\<lambda>_. False) m ev ms (Some s) = Some (r, ms1, Some s0) \<Longrightarrow> driver_sends s0 xs s1 \<Longrightarrow>
    port_run ops m cs ms1 s1 taken sent ms2 s2 \<Longrightarrow>
    port_run ops m (Play ev # cs) ms s ((if output_bytes (rt s0) = output_bytes (rt s) then [] else [ev]) @ taken) (xs @ sent) ms2 s2"
| port_send: "snd_rawmidi_transmit (int n) s = Some (k, xs, s1) \<Longrightarrow> port_run ops m cs ms s1 taken sent ms2 s2 \<Longrightarrow>
    port_run ops m (Send n # cs) ms s taken (xs @ sent) ms2 s2"

lemma port_run_returns:
  assumes "driver_ops ops"
  shows "output_side s \<Longrightarrow> sm_parser ms = Some dec \<Longrightarrow> in_step dec enc \<Longrightarrow> \<forall>ev\<in>set (played cs). midi_valid ev \<Longrightarrow>
    \<exists>taken sent ms' s'. port_run ops m cs ms s taken sent ms' s'"
proof (induction cs arbitrary: s ms dec enc)
  case Nil
  show ?case by (blast intro: port_done)
next
  case (Cons c cs)
  show ?case
  proof (cases c)
    case (Play ev)
    obtain dec1 s0 xs s1 bytes where e: "event_process_midi (silent ops) [] (\<lambda>_. False) m ev ms (Some s) = Some (0, ms\<lparr>sm_parser := Some dec1\<rparr>, Some s0)"
      "event_process_midi ops [] (\<lambda>_. False) m ev ms (Some s) = Some (0, ms\<lparr>sm_parser := Some dec1\<rparr>, Some s1)" "driver_sends s0 xs s1" "output_side s0"
      "if bytes = [] then in_step dec1 enc \<and> unat (rm_avail (rt s)) < 3
       else \<exists>enc' ev'. run_encode bytes enc ev = Some ([(ev', [])], enc', ev') \<and> midi_message ev' = midi_message ev \<and> in_step dec1 enc'"
      using event_process_outcome [OF assms Cons.prems(1-3), of ev m ev] Cons.prems(4) Play by auto
    obtain enc1 where "in_step dec1 enc1" using e(5) by (cases "bytes = []") auto
    then obtain taken sent ms' s' where "port_run ops m cs (ms\<lparr>sm_parser := Some dec1\<rparr>) s1 taken sent ms' s'"
      using Cons.IH [of s1 "ms\<lparr>sm_parser := Some dec1\<rparr>" dec1 enc1] driver_sends_keeps [OF e(3,4)] Cons.prems(4) Play by auto
    then show ?thesis using port_play [OF e(2,1,3)] Play by blast
  next
    case (Send n)
    obtain k xs s1 where "snd_rawmidi_transmit (int n) s = Some (k, xs, s1)" "output_side s1"
      using transmit_outcome [OF Cons.prems(1), of "int n"] by (auto simp: Let_def)
    moreover from Cons.IH [OF this(2) Cons.prems(2,3)] obtain taken sent ms' s' where "port_run ops m cs ms s1 taken sent ms' s'"
      using Cons.prems(4) Send by auto
    ultimately show ?thesis using port_send Send by blast
  qed
qed

lemma port_run_outcome:
  assumes "driver_ops ops"
  shows "port_run ops m cs ms s taken sent ms' s' \<Longrightarrow> output_side s \<Longrightarrow> sm_parser ms = Some dec \<Longrightarrow> in_step dec enc \<Longrightarrow> \<forall>ev\<in>set (played cs). midi_valid ev \<Longrightarrow>
   \<exists>new outs enc' ev'. output_side s' \<and> output_bytes (rt s) @ new = sent @ output_bytes (rt s') \<and>
     run_encode new enc ev0 = Some (outs, enc', ev') \<and> map (\<lambda>(e, data). midi_message e) outs = map midi_message taken \<and>
     subseq taken (played cs) \<and> (3 * length (played cs) \<le> unat (rm_avail (rt s)) \<longrightarrow> taken = played cs)"
proof (induction arbitrary: dec enc ev0 rule: port_run.induct)
  case (port_done ms s)
  then show ?case by auto
next
  case (port_play ev ms s r ms1 s1 s0 xs cs taken sent ms2 s2)
  obtain dec1 bytes where e: "ms1 = ms\<lparr>sm_parser := Some dec1\<rparr>" "output_side s0" "output_bytes (rt s0) = output_bytes (rt s) @ bytes" "length bytes \<le> 3"
    "unat (rm_avail (rt s0)) = unat (rm_avail (rt s)) - length bytes"
    "if bytes = [] then in_step dec1 enc \<and> unat (rm_avail (rt s)) < 3
     else \<exists>enc' ev'. run_encode bytes enc ev0 = Some ([(ev', [])], enc', ev') \<and> midi_message ev' = midi_message ev \<and> in_step dec1 enc'"
    using event_process_outcome [OF assms port_play.prems(1-3), of ev m ev0] port_play.prems(4) port_play.hyps(2) by auto
  have s1: "output_side s1" "output_bytes (rt s0) = xs @ output_bytes (rt s1)" "unat (rm_avail (rt s1)) = unat (rm_avail (rt s0)) + length xs"
    using driver_sends_keeps [OF port_play.hyps(3) e(2)] by simp_all
  have v: "\<forall>ev\<in>set (played cs). midi_valid ev" and parser: "sm_parser ms1 = Some dec1" using port_play.prems(4) e(1) by simp_all
  show ?case
  proof (cases "bytes = []")
    case True
    have i: "in_step dec1 enc" "unat (rm_avail (rt s)) < 3" using e(6) True by simp_all
    obtain new outs enc' ev' where r: "output_side s2" "output_bytes (rt s1) @ new = sent @ output_bytes (rt s2)" "run_encode new enc ev0 = Some (outs, enc', ev')"
      "map (\<lambda>(e, data). midi_message e) outs = map midi_message taken" "subseq taken (played cs)"
      using port_play.IH [OF s1(1) parser i(1) v, of ev0] by blast
    have "output_bytes (rt s) = xs @ output_bytes (rt s1)" using e(3) s1(2) True by simp
    then have "output_bytes (rt s) @ new = (xs @ sent) @ output_bytes (rt s2)" by (simp only: append_assoc r(2))
    then show ?thesis using r i(2) e(3) True by (intro exI [of _ new] exI [of _ outs] exI [of _ enc'] exI [of _ ev']) auto
  next
    case False
    obtain enc1 ev1 where b: "run_encode bytes enc ev0 = Some ([(ev1, [])], enc1, ev1)" "midi_message ev1 = midi_message ev" "in_step dec1 enc1"
      using e(6) False by auto
    obtain new outs enc' ev' where r: "output_side s2" "output_bytes (rt s1) @ new = sent @ output_bytes (rt s2)" "run_encode new enc1 ev1 = Some (outs, enc', ev')"
      "map (\<lambda>(e, data). midi_message e) outs = map midi_message taken" "subseq taken (played cs)"
      "3 * length (played cs) \<le> unat (rm_avail (rt s1)) \<longrightarrow> taken = played cs"
      using port_play.IH [OF s1(1) parser b(3) v, of ev1] by blast
    have "output_bytes (rt s) @ bytes @ new = (xs @ output_bytes (rt s1)) @ new" using e(3) s1(2) by (metis append_assoc)
    then have "output_bytes (rt s) @ bytes @ new = (xs @ sent) @ output_bytes (rt s2)" using r(2) by simp
    moreover have "run_encode (bytes @ new) enc ev0 = Some ([(ev1, [])] @ outs, enc', ev')" by (rule run_encode_append [OF b(1) r(3)])
    moreover have "3 * length (played (Play ev # cs)) \<le> unat (rm_avail (rt s)) \<longrightarrow> ev # taken = played (Play ev # cs)" using r(6) e(4,5) s1(3) by auto
    ultimately show ?thesis using r(1,4,5) b(2) e(3) False
      by (intro exI [of _ "bytes @ new"] exI [of _ "[(ev1, [])] @ outs"] exI [of _ enc'] exI [of _ ev']) auto
  qed
next
  case (port_send n s k xs s1 cs ms taken sent ms2 s2)
  have t: "xs = take n (output_bytes (rt s))" "output_side s1" "output_bytes (rt s1) = drop n (output_bytes (rt s))" "unat (rm_avail (rt s1)) = unat (rm_avail (rt s)) + length xs"
    using transmit_outcome [OF port_send.prems(1), of "int n"] port_send.hyps(1) by (auto simp: Let_def)
  have v: "\<forall>ev\<in>set (played cs). midi_valid ev" using port_send.prems(4) by simp
  obtain new outs enc' ev' where r: "output_side s2" "output_bytes (rt s1) @ new = sent @ output_bytes (rt s2)" "run_encode new enc ev0 = Some (outs, enc', ev')"
    "map (\<lambda>(e, data). midi_message e) outs = map midi_message taken" "subseq taken (played cs)"
    "3 * length (played cs) \<le> unat (rm_avail (rt s1)) \<longrightarrow> taken = played cs"
    using port_send.IH [OF t(2) port_send.prems(2,3) v, of ev0] by blast
  have "output_bytes (rt s) @ new = xs @ output_bytes (rt s1) @ new" unfolding t(1,3) append_assoc [symmetric] append_take_drop_id ..
  then have "output_bytes (rt s) @ new = (xs @ sent) @ output_bytes (rt s2)" using r(2) by simp
  then show ?case using r t(4) by (intro exI [of _ new] exI [of _ outs] exI [of _ enc'] exI [of _ ev']) auto
qed


section \<open>Input as a stream of messages\<close>

fun input_events :: "u8 \<Rightarrow> u8 list \<Rightarrow> midi_event \<Rightarrow> seq_event \<Rightarrow> ((seq_event \<times> u8 list) list \<times> midi_event \<times> seq_event) option" where
  "input_events port [] dev ev = Some ([], dev, ev)"
| "input_events port (c # cs) dev ev =
     Option.bind (snd_midi_event_encode_byte c dev ev) (\<lambda>(rc, dev, ev).
       if \<not> rc then input_events port cs dev ev
       else map_option (\<lambda>(outs, r). ((from_port port ev, if snd_seq_ev_is_variable ev then take (var_len ev) (me_buf dev) else []) # outs, r))
              (input_events port cs dev zero_event))"

lemma from_port_simps [simp]:
  "midi_message (from_port port ev) = midi_message ev" "snd_seq_ev_is_variable (from_port port ev) = snd_seq_ev_is_variable ev"
  "var_len (from_port port ev) = var_len ev" "snd (ev_source (from_port port ev)) = port" "fst (ev_dest (from_port port ev)) = 254"
  by (simp_all add: from_port_def midi_message_def snd_seq_ev_is_variable_def var_len_def ext_len_def data_byte_def ctrl_param_def ctrl_value_def)

lemma encode_input_events:
  "encode_input dispatch client port cs dev ev st =
   map_option (\<lambda>(outs, dev', ev'). (dev', ev', fold (\<lambda>(e, data). dispatch client e data) outs st)) (input_events port cs dev ev)"
proof (induction cs arbitrary: dev ev st)
  case (Cons c cs)
  show ?case
  proof (cases "snd_midi_event_encode_byte c dev ev")
    case (Some r)
    obtain rc d e where "r = (rc, d, e)" by (rule prod_cases3)
    then show ?thesis using Some Cons.IH [of d] by (auto simp: Let_def option.map_comp comp_def split_def intro: option.map_cong)
  qed simp
qed simp

lemma input_events_append:
  "input_events port (cs @ ds) dev ev =
   Option.bind (input_events port cs dev ev) (\<lambda>(outs, dev, ev). map_option (\<lambda>(outs', r). (outs @ outs', r)) (input_events port ds dev ev))"
proof (induction cs arbitrary: dev ev)
  case (Cons c cs)
  show ?case
  proof (cases "snd_midi_event_encode_byte c dev ev")
    case (Some r)
    obtain rc d e where "r = (rc, d, e)" by (rule prod_cases3)
    then show ?thesis using Some Cons.IH [of d] by (cases "input_events port cs d zero_event") (auto simp: option.map_comp comp_def split_def)
  qed simp
qed (simp add: option.map_id0 id_def option.map_ident)

text \<open>What the event record held before does not show in the events that come out.\<close>

lemma note_message:
  assumes "note_event buf e1 = Some a" "note_event buf e2 = Some b" and t: "ev_type e1 = ev_type e2" "ev_type e2 = 6 \<or> ev_type e2 = 7 \<or> ev_type e2 = 8"
  shows "midi_message a = midi_message b"
proof -
  obtain c x y where ab: "a = set_data_byte 2 y (set_data_byte 1 x (set_data_byte 0 c e1))" "b = set_data_byte 2 y (set_data_byte 1 x (set_data_byte 0 c e2))"
    using assms(1,2) unfolding note_event_def bind_eq_Some_conv by clarsimp
  show ?thesis using t(2) by (elim disjE; simp add: midi_message_def ab t(1))
qed

lemma one_param_ctrl_message:
  assumes "one_param_ctrl_event buf e1 = Some a" "one_param_ctrl_event buf e2 = Some b" and t: "ev_type e1 = ev_type e2" "ev_type e2 = 11 \<or> ev_type e2 = 12"
  shows "midi_message a = midi_message b"
proof -
  obtain c x where ab: "a = set_value x (set_data_byte 0 c e1)" "b = set_value x (set_data_byte 0 c e2)"
    using assms(1,2) unfolding one_param_ctrl_event_def bind_eq_Some_conv by clarsimp
  show ?thesis using t(2) by (elim disjE; simp add: midi_message_def ab t(1))
qed

lemma pitchbend_message:
  assumes "pitchbend_ctrl_event buf e1 = Some a" "pitchbend_ctrl_event buf e2 = Some b" and t: "ev_type e1 = ev_type e2" "ev_type e2 = 13"
  shows "midi_message a = midi_message b"
proof -
  obtain c x where ab: "a = set_value x (set_data_byte 0 c e1)" "b = set_value x (set_data_byte 0 c e2)"
    using assms(1,2) unfolding pitchbend_ctrl_event_def bind_eq_Some_conv by clarsimp
  show ?thesis using t(2) by (simp add: midi_message_def ab t(1))
qed

lemma two_param_message:
  assumes "two_param_ctrl_event buf e1 = Some a" "two_param_ctrl_event buf e2 = Some b" and t: "ev_type e1 = ev_type e2" "ev_type e2 = 10"
  shows "midi_message a = midi_message b"
proof -
  obtain c x y where ab: "a = set_value y (set_param x (set_data_byte 0 c e1))" "b = set_value y (set_param x (set_data_byte 0 c e2))"
    using assms(1,2) unfolding two_param_ctrl_event_def bind_eq_Some_conv by clarsimp
  show ?thesis using t(2) by (simp add: midi_message_def ab t(1))
qed

lemma common_message:
  assumes "one_param_event buf e1 = Some a \<and> one_param_event buf e2 = Some b \<or> songpos_event buf e1 = Some a \<and> songpos_event buf e2 = Some b"
    and t: "ev_type e1 = ev_type e2" "ev_type e2 = 20 \<or> ev_type e2 = 21 \<or> ev_type e2 = 22"
  shows "midi_message a = midi_message b"
proof -
  obtain x where ab: "a = set_value x e1" "b = set_value x e2"
    using assms(1) unfolding one_param_event_def songpos_event_def bind_eq_Some_conv by (elim disjE) clarsimp+
  show ?thesis using t(2) by (elim disjE; simp add: midi_message_def ab t(1))
qed

lemma encoders_of_table:
  assumes "st \<in> set status_event"
  shows "se_encode st = None \<and> se_event st \<in> {255, 130, 40, 36, 30, 31, 32, 42, 41} \<or>
    se_encode st = Some note_event \<and> se_event st \<in> {6, 7, 8} \<or> se_encode st = Some one_param_ctrl_event \<and> se_event st \<in> {11, 12} \<or>
    se_encode st = Some pitchbend_ctrl_event \<and> se_event st = 13 \<or> se_encode st = Some two_param_ctrl_event \<and> se_event st = 10 \<or>
    se_encode st = Some one_param_event \<and> se_event st \<in> {21, 22} \<or> se_encode st = Some songpos_event \<and> se_event st = 20"
proof -
  have "\<forall>st\<in>set status_event. se_encode st = None \<and> se_event st \<in> {255, 130, 40, 36, 30, 31, 32, 42, 41} \<or>
    se_encode st = Some note_event \<and> se_event st \<in> {6, 7, 8} \<or> se_encode st = Some one_param_ctrl_event \<and> se_event st \<in> {11, 12} \<or>
    se_encode st = Some pitchbend_ctrl_event \<and> se_event st = 13 \<or> se_encode st = Some two_param_ctrl_event \<and> se_event st = 10 \<or>
    se_encode st = Some one_param_event \<and> se_event st \<in> {21, 22} \<or> se_encode st = Some songpos_event \<and> se_event st = 20"
    by (simp add: status_event_def status_none_def)
  then show ?thesis using assms by blast
qed

lemma encoded_message:
  assumes m: "st \<in> set status_event" and f: "se_encode st = Some f" and a: "f buf e1 = Some a" and b: "f buf e2 = Some b"
    and t: "ev_type e1 = se_event st" "ev_type e2 = se_event st"
  shows "midi_message a = midi_message b"
  using encoders_of_table [OF m] f a b t note_message [of buf e1 a e2 b] one_param_ctrl_message [of buf e1 a e2 b] pitchbend_message [of buf e1 a e2 b]
    two_param_message [of buf e1 a e2 b] common_message [of buf e1 a e2 b] by (elim disjE conjE) simp_all

lemma plain_message:
  assumes m: "st \<in> set status_event" and f: "se_encode st = None" and t: "ev_type e1 = se_event st" "ev_type e2 = se_event st"
  shows "midi_message e1 = midi_message e2"
  using encoders_of_table [OF m] f t by (elim disjE conjE) (simp_all add: midi_message_def, (elim disjE, simp_all)?)


lemma sysex_event_alike:
  "snd_seq_ev_is_variable (sysex_event dev e1) = snd_seq_ev_is_variable (sysex_event dev e2)" "var_len (sysex_event dev e1) = var_len (sysex_event dev e2)"
  "midi_message (sysex_event dev e1) = midi_message (sysex_event dev e2)"
proof -
  have "(f AND NOT 12 OR 4) AND 12 = (4 :: u8)" for f
    using bit.conj_disj_distrib2 [of "f AND NOT 12" 4 12] by (simp add: and.assoc)
  then show "snd_seq_ev_is_variable (sysex_event dev e1) = snd_seq_ev_is_variable (sysex_event dev e2)"
    by (simp add: sysex_event_def snd_seq_ev_is_variable_def set_ext_def)
  show "var_len (sysex_event dev e1) = var_len (sysex_event dev e2)" by (simp add: sysex_event_def var_len_def ext_len_def set_ext_def)
  show "midi_message (sysex_event dev e1) = midi_message (sysex_event dev e2)" by (simp add: sysex_event_def midi_message_def set_ext_def)
qed

lemma encoder_keeps_flags:
  assumes "st \<in> set status_event" "se_encode st = Some f" "f buf e = Some a"
  shows "ev_flags a = ev_flags e"
  using encoders_of_table [OF assms(1)] assms(2,3)
  by (elim disjE conjE) (auto simp: note_event_def one_param_ctrl_event_def pitchbend_ctrl_event_def two_param_ctrl_event_def one_param_event_def songpos_event_def bind_eq_Some_conv)

lemma fixed_not_var: "\<not> snd_seq_ev_is_variable (fixed_event t e)"
  using fixed_not_variable [of "fixed_event t e" "ev_flags e"] by (simp add: fixed_event_def)

text \<open>The same byte with another event record: the same step of the parser, and an event with the same message.\<close>

lemma encode_byte_alike:
  assumes ok: "coder_ok dev" and e: "snd_midi_event_encode_byte c dev ev = Some (rc, dev', ev')"
  shows "\<exists>ev2'. snd_midi_event_encode_byte c dev ev2 = Some (rc, dev', ev2') \<and>
    (rc \<longrightarrow> midi_message ev2' = midi_message ev' \<and> snd_seq_ev_is_variable ev2' = snd_seq_ev_is_variable ev' \<and>
      (snd_seq_ev_is_variable ev' \<longrightarrow> var_len ev2' = var_len ev'))"
proof (cases "c \<ge> 0xf8")
  case True
  have "\<forall>n\<in>set [16..<24]. status_event ! n \<in> set status_event \<and> se_encode (status_event ! n) = None"
    by (simp add: status_event_def status_none_def upt_rec)
  moreover have "unat c < 256" using unsigned_less [of c] by simp
  then have "unat c - 232 \<in> set [16..<24]" using True by (auto simp: word_le_nat_alt)
  ultimately have "status_event ! (unat c - 232) \<in> set status_event" "se_encode (status_event ! (unat c - 232)) = None" by blast+
  then have "midi_message (fixed_event (realtime_type c) ev2) = midi_message (fixed_event (realtime_type c) ev)"
    unfolding realtime_type_def by (rule plain_message) (simp_all add: fixed_event_def)
  then show ?thesis using e unfolding encode_realtime [OF True] by (auto simp: fixed_not_var)
next
  case False
  obtain d where d: "store_byte c dev = Some d" "finish_byte c d ev = Some (rc, dev', ev')" using e False by (auto simp: snd_midi_event_encode_byte_def bind_eq_Some_conv)
  obtain rc2 dev2 ev2' where e2: "snd_midi_event_encode_byte c dev ev2 = Some (rc2, dev2, ev2')" using encode_byte_ok [OF ok] by blast
  then have f2: "finish_byte c d ev2 = Some (rc2, dev2, ev2')" using d(1) False by (simp add: snd_midi_event_encode_byte_def)
  have len: "length status_event = 24" by (simp add: status_event_def)
  have "me_type d < 24" using store_byte_ok [OF ok, of c] d(1) False by (auto simp: not_le)
  then have m: "status_event ! me_type d \<in> set status_event" using len by simp
  have "rc2 = rc \<and> dev2 = dev' \<and> (rc \<longrightarrow> midi_message ev2' = midi_message ev' \<and> snd_seq_ev_is_variable ev2' = snd_seq_ev_is_variable ev' \<and>
      (snd_seq_ev_is_variable ev' \<longrightarrow> var_len ev2' = var_len ev'))"
  proof (cases "me_qlen d = 0")
    case True
    show ?thesis
    proof (cases "se_encode (status_event ! me_type d)")
      case None
      let ?e = "fixed_event (se_event (status_event ! me_type d))"
      have "ev' = ?e ev" "ev2' = ?e ev2" "rc" "rc2" "dev2 = dev'" using True None d(2) f2 by (auto simp: finish_byte_def Let_def)
      moreover have "midi_message (?e ev2) = midi_message (?e ev)" by (rule plain_message [OF m None]) (simp_all add: fixed_event_def)
      ultimately show ?thesis by (simp add: fixed_not_var)
    next
      case (Some f)
      let ?e = "fixed_event (se_event (status_event ! me_type d))"
      have a: "f (me_buf d) (?e ev) = Some ev'" "f (me_buf d) (?e ev2) = Some ev2'" "rc" "rc2" "dev2 = dev'"
        using True Some d(2) f2 by (auto simp: finish_byte_def Let_def split: option.splits)
      have "midi_message ev2' = midi_message ev'" using encoded_message [OF m Some a(2,1)] by (simp add: fixed_event_def)
      moreover have "snd_seq_ev_is_variable ev2' = snd_seq_ev_is_variable (?e ev2)" "snd_seq_ev_is_variable ev' = snd_seq_ev_is_variable (?e ev)"
        using encoder_keeps_flags [OF m Some a(2)] encoder_keeps_flags [OF m Some a(1)] by (simp_all add: snd_seq_ev_is_variable_def)
      ultimately show ?thesis using a(3-5) by (simp add: fixed_not_var)
    qed
  next
    case False
    then show ?thesis using d(2) f2 sysex_event_alike [of d ev2 ev] by (auto simp: finish_byte_def split: if_splits)
  qed
  then show ?thesis using e2 by blast
qed

text \<open>So a parser that clears its event record finds the same messages as one that keeps it.\<close>

lemma run_encode_input:
  "coder_ok dev \<Longrightarrow> run_encode cs dev ev = Some (outs, dev', ev') \<Longrightarrow>
   \<exists>outs2 ev2'. input_events port cs dev ev2 = Some (outs2, dev', ev2') \<and>
     map (\<lambda>(e, data). (midi_message e, data)) outs2 = map (\<lambda>(e, data). (midi_message e, data)) outs \<and>
     (\<forall>(e, data)\<in>set outs2. snd (ev_source e) = port \<and> fst (ev_dest e) = 254)"
proof (induction cs arbitrary: dev ev outs ev2)
  case (Cons c cs)
  obtain rc d e where e: "snd_midi_event_encode_byte c dev ev = Some (rc, d, e)" "coder_ok d" using encode_byte_ok [OF Cons.prems(1)] by blast
  obtain rest where r: "run_encode cs d e = Some (rest, dev', ev')"
    "outs = (if rc then (e, if snd_seq_ev_is_variable e then take (var_len e) (me_buf d) else []) # rest else rest)"
    using Cons.prems(2) e(1) by auto
  obtain e2 where a: "snd_midi_event_encode_byte c dev ev2 = Some (rc, d, e2)"
    "rc \<longrightarrow> midi_message e2 = midi_message e \<and> snd_seq_ev_is_variable e2 = snd_seq_ev_is_variable e \<and> (snd_seq_ev_is_variable e \<longrightarrow> var_len e2 = var_len e)"
    using encode_byte_alike [OF Cons.prems(1) e(1), of ev2] by blast
  obtain outs2 ev2' where i: "input_events port cs d (if rc then zero_event else e2) = Some (outs2, dev', ev2')"
     "map (\<lambda>(e, data). (midi_message e, data)) outs2 = map (\<lambda>(e, data). (midi_message e, data)) rest"
     "\<forall>(e, data)\<in>set outs2. snd (ev_source e) = port \<and> fst (ev_dest e) = 254"
    using Cons.IH [OF e(2) r(1)] by blast
  show ?case using a i r(2) by (cases rc) auto
qed simp

section \<open>The input handler\<close>

text \<open>The handler empties the ring; the bytes go to the parser in order, whatever the pieces in which they are read.\<close>

lemma input_loop_outcome:
  assumes "quiet_ops ops"
  shows "input_side s \<Longrightarrow> sm_parser ms = Some dev \<Longrightarrow> coder_ok dev \<Longrightarrow>
    \<exists>dev' ev' s' outs. input_events (sm_port ms) (input_bytes (rt s)) dev ev = Some (outs, dev', ev') \<and> coder_ok dev' \<and>
      input_loop ops dispatch [] ms ev s st = Some ([], ms\<lparr>sm_parser := Some dev'\<rparr>, s', fold (\<lambda>(e, data). dispatch (sm_client ms) e data) outs st) \<and>
      input_side s' \<and> input_bytes (rt s') = [] \<and> rm_size (rt s') = rm_size (rt s)"
proof (induction "length (input_bytes (rt s))" arbitrary: s ms dev ev st rule: less_induct)
  case less
  have len: "length (input_bytes (rt s)) = unat (rm_avail (rt s))" by (simp add: input_bytes_def)
  show ?case
  proof (cases "rm_avail (rt s) > 0")
    case False
    then have "input_bytes (rt s) = []" using len by (simp add: word_less_nat_alt)
    moreover have "ms\<lparr>sm_parser := Some dev\<rparr> = ms" using less.prems(2) by (cases ms) simp
    ultimately show ?thesis using False less.prems by (subst input_loop.simps) auto
  next
    case True
    let ?in = "input_bytes (rt s)"
    have pos: "0 < length ?in" using True len by (simp add: word_less_nat_alt)
    obtain s1 where k: "snd_rawmidi_kernel_read ops 16 s = Some (int (length (take 16 ?in)), take 16 ?in, s1)" "input_side s1"
      "input_bytes (rt s1) = drop 16 ?in" "rm_size (rt s1) = rm_size (rt s)"
      using kernel_read_outcome [OF less.prems(1) quiet_triggers(1) [OF assms, symmetric], of 16] unfolding Let_def by auto
    obtain outs1 dev1 ev1 where r: "input_events (sm_port ms) (take 16 ?in) dev ev = Some (outs1, dev1, ev1)" "coder_ok dev1"
      using run_encode_ok [OF less.prems(3), of "take 16 ?in" ev] run_encode_input [OF less.prems(3), of "take 16 ?in" ev _ _ _ "sm_port ms" ev] by blast
    have "length (input_bytes (rt s1)) < length ?in" using k(3) pos by simp
    from less.hyps [OF this k(2), of "ms\<lparr>sm_parser := Some dev1\<rparr>" dev1 ev1 "fold (\<lambda>(e, data). dispatch (sm_client ms) e data) outs1 st"] r(2)
    obtain dev' ev' s' outs where i: "input_events (sm_port ms) (drop 16 ?in) dev1 ev1 = Some (outs, dev', ev')" "coder_ok dev'"
      "input_loop ops dispatch [] (ms\<lparr>sm_parser := Some dev1\<rparr>) ev1 s1 (fold (\<lambda>(e, data). dispatch (sm_client ms) e data) outs1 st) =
         Some ([], ms\<lparr>sm_parser := Some dev'\<rparr>, s', fold (\<lambda>(e, data). dispatch (sm_client ms) e data) outs (fold (\<lambda>(e, data). dispatch (sm_client ms) e data) outs1 st))"
      "input_side s'" "input_bytes (rt s') = []" "rm_size (rt s') = rm_size (rt s1)"
      using k(3) by auto
    have "input_events (sm_port ms) ?in dev ev = Some (outs1 @ outs, dev', ev')"
      using input_events_append [of "sm_port ms" "take 16 ?in" "drop 16 ?in" dev ev] r(1) i(1) by simp
    moreover have "input_loop ops dispatch [] ms ev s st = Some ([], ms\<lparr>sm_parser := Some dev'\<rparr>, s', fold (\<lambda>(e, data). dispatch (sm_client ms) e data) (outs1 @ outs) st)"
      using True k(1) r(1) i(3) pos less.prems(2) by (subst input_loop.simps) (simp add: encode_input_events turn_def Let_def del: length_take)
    ultimately show ?thesis using i k(4) by auto
  qed
qed


section \<open>Ports as senders and receivers of messages\<close>

text \<open>
  C18. An output port sends whole messages. From an empty ring and a decoder that was just reset, whatever events of a fixed length are sent to it (notes, controllers, pressure,
  program changes, pitch bend, system common and real-time events with their values in range; neither system exclusive data, which is
  written in pieces, nor 14-bit controllers and parameter numbers, which take several messages), whenever the driver transmits, on
  its own or from its trigger: an event that finds no room in the ring is dropped as a whole and running status starts
  anew, so a listener that parses the bytes gets exactly the messages of the events that were accepted, in order. Nothing is
  dropped as long as there is room for three bytes per event. The trigger of the driver does nothing to the substream but take
  bytes to send.
\<close>

theorem midi_port_whole_messages:
  assumes "driver_ops ops" "output_side s" "output_bytes (rt s) = []" "sm_parser ms = Some dec" "me_lastcmd dec = 0xff" "coder_ok enc"
    and "\<forall>ev\<in>set (played cs). midi_valid ev"
  shows "(\<exists>taken sent ms' s'. port_run ops m cs ms s taken sent ms' s') \<and>
    (\<forall>taken sent ms' s'. port_run ops m cs ms s taken sent ms' s' \<longrightarrow> subseq taken (played cs) \<and>
       (3 * length (played cs) \<le> unat (rm_avail (rt s)) \<longrightarrow> taken = played cs) \<and>
       (\<exists>outs enc' ev'. run_encode (sent @ output_bytes (rt s')) enc ev0 = Some (outs, enc', ev') \<and>
         map (\<lambda>(e, data). midi_message e) outs = map midi_message taken))"
proof -
  have i: "in_step dec enc" using assms(5,6) by (simp add: in_step_def)
  show ?thesis
    using port_run_returns [OF assms(1,2,4) i assms(7), of m] port_run_outcome [OF assms(1) _ assms(2,4) i assms(7), of m _ _ _ _ ev0] assms(3) by fastforce
qed

text \<open>
  C19. Messages survive the way from one port to another. What a port sends, from an empty ring and a reset decoder, for a sequence of events of a fixed length (as in
  C18), with a driver that may send from its trigger, received without frames by a device with room for it and taken by the
  handler of the port that is subscribed there, while no further byte arrives (the trigger of the input has nothing to receive), is
  dispatched to the subscribers of that port as events with the same messages, in order, and the ring is left empty.
  In this build nobody calls the handler: \<^verbatim>\<open>schedule_work\<close> of \<^verbatim>\<open>lib32\<close> is empty. The property is what the handler does
  once it runs.
\<close>

theorem midi_cable:
  assumes q: "driver_ops ops" and o: "output_side s" "output_bytes (rt s) = []" and d: "sm_parser ms = Some dec" "me_lastcmd dec = 0xff"
    and v: "\<forall>ev\<in>set (played cs). midi_valid ev"
    and run: "port_run ops m cs ms s taken sent ms' s'" "output_bytes (rt s') = []"
    and q2: "quiet_ops ops2" and t: "input_side t" "input_bytes (rt t) = []" "length sent \<le> unat (rm_size (rt t))"
    and e: "rm_private (rt t) = p" "p \<noteq> 0" "sm_parser (synths p) = Some enc" "coder_ok enc"
  shows "\<exists>t1 t2 enc' outs. snd_rawmidi_receive junk clocks sent t = Some (int (length sent), t1) \<and>
    snd_midi_input_event ops2 dispatch [] synths (Some t1) st =
      Some ([], synths(p := (synths p)\<lparr>sm_parser := Some enc'\<rparr>), Some t2, fold (\<lambda>(ev, data). dispatch (sm_client (synths p)) ev data) outs st) \<and>
    map (\<lambda>(ev, data). midi_message ev) outs = map midi_message taken \<and>
    (\<forall>(ev, data)\<in>set outs. snd (ev_source ev) = sm_port (synths p) \<and> fst (ev_dest ev) = 254) \<and> input_bytes (rt t2) = []"
proof -
  have i: "in_step dec enc" using d(2) e(4) by (simp add: in_step_def)
  obtain outs1 enc1 ev1 where r: "run_encode sent enc zero_event = Some (outs1, enc1, ev1)" "map (\<lambda>(e, data). midi_message e) outs1 = map midi_message taken"
    using port_run_outcome [OF q run(1) o(1) d(1) i v, of zero_event] o(2) run(2) by auto
  have free: "unat (rm_avail (rt t)) = 0" using t(2) by (simp add: input_bytes_def) (metis length_ring list.size(3))
  obtain t1 where t1: "snd_rawmidi_receive junk clocks sent t = Some (int (length sent), t1)" "input_side t1" "input_bytes (rt t1) = sent" "rm_private (rt t1) = p"
    using receive_outcome [OF t(1), of junk clocks sent] t(2,3) e(1) free by auto
  obtain enc' ev' t2 outs where l: "input_events (sm_port (synths p)) (input_bytes (rt t1)) enc zero_event = Some (outs, enc', ev')"
    "input_loop ops2 dispatch [] (synths p) zero_event t1 st =
      Some ([], (synths p)\<lparr>sm_parser := Some enc'\<rparr>, t2, fold (\<lambda>(ev, data). dispatch (sm_client (synths p)) ev data) outs st)" "input_bytes (rt t2) = []"
    using input_loop_outcome [OF q2 t1(2) e(3,4), of zero_event dispatch st] by blast
  obtain outs2 ev2 where o2: "input_events (sm_port (synths p)) sent enc zero_event = Some (outs2, enc1, ev2)"
    "map (\<lambda>(e, data). (midi_message e, data)) outs2 = map (\<lambda>(e, data). (midi_message e, data)) outs1"
    "\<forall>(ev, data)\<in>set outs2. snd (ev_source ev) = sm_port (synths p) \<and> fst (ev_dest ev) = 254"
    using run_encode_input [OF e(4) r(1), of "sm_port (synths p)" zero_event] by blast
  have "outs = outs2" using l(1) o2(1) t1(3) by simp
  moreover have "map fst (map (\<lambda>(e, data). (midi_message e, data)) outs2) = map fst (map (\<lambda>(e, data). (midi_message e, data)) outs1)" using o2(2) by simp
  then have "map (\<lambda>(e, data). midi_message e) outs2 = map midi_message taken" using r(2) by (simp add: comp_def split_def)
  ultimately show ?thesis using t1 l e(2) o2(3) by (auto simp: snd_midi_input_event_def)
qed

section \<open>Samples of ports\<close>

definition sample_synth :: seq_midisynth where
  "sample_synth = \<lparr>sm_card = 0, sm_device = 0, sm_subdevice = 0, sm_input_rfile = \<lparr>rf_device = Some 0, rf_input = Some 0, rf_output = None\<rparr>,
     sm_output_rfile = \<lparr>rf_device = Some 0, rf_input = None, rf_output = Some 0\<rparr>, sm_client = 16, sm_port = 3, sm_parser = Some sample_coder\<rparr>"

definition sample_out :: rm_substream where
  "sample_out = sample_sub 0 (Some (sample_ring\<lparr>rm_avail := 8, rm_appl := 6\<rparr>))"

definition sample_in :: rm_substream where
  "sample_in = sample_sub 1 (Some (sample_ring\<lparr>rm_avail := 0, rm_appl := 6, rm_private := 5\<rparr>))"

lemma sample_port:
  "output_side sample_out" "output_bytes (rt sample_out) = []" "unat (rm_avail (rt sample_out)) = 8"
  "input_side sample_in" "input_bytes (rt sample_in) = []" "unat (rm_size (rt sample_in)) = 8" "rm_private (rt sample_in) = 5"
  by (simp_all add: sample_out_def sample_in_def output_side_def input_side_def sample_sub_def alive_def rt_def output_ok_def input_ok_def size_ok_def ring_ok_def
      output_bytes_def input_bytes_def sample_ring_def)

lemma sample_parser: "sm_parser sample_synth = Some sample_coder" "me_lastcmd sample_coder = 0xff" "coder_ok sample_coder"
  by (simp_all add: sample_synth_def sample_coder_def snd_midi_event_new_def coder_ok_def Let_def)

lemma sample_note: "midi_valid (note_on 2 60 100)" "midi_valid (note_on 2 64 100)"
  by (simp_all add: midi_valid_def note_on_def)

theorem midi_port_whole_messages_witness:
  "\<exists>sent ms' s'. port_run busy_ops sample_mem [Play (note_on 2 60 100), Send 2, Play (note_on 2 64 100)] sample_synth sample_out
      [note_on 2 60 100, note_on 2 64 100] sent ms' s' \<and>
    (\<exists>outs enc' ev'. run_encode (sent @ output_bytes (rt s')) sample_coder (note_on 0 0 0) = Some (outs, enc', ev') \<and>
      map (\<lambda>(e, data). midi_message e) outs = map midi_message [note_on 2 60 100, note_on 2 64 100])"
proof -
  let ?cs = "[Play (note_on 2 60 100), Send 2, Play (note_on 2 64 100)]"
  have v: "\<forall>ev\<in>set (played ?cs). midi_valid ev" using sample_note by simp
  note p = midi_port_whole_messages [OF sample_busy(1) sample_port(1,2) sample_parser(1,2,3) v, of sample_mem "note_on 0 0 0"]
  obtain taken sent ms' s' where r: "port_run busy_ops sample_mem ?cs sample_synth sample_out taken sent ms' s'" using p by blast
  moreover have "taken = [note_on 2 60 100, note_on 2 64 100]" using p r sample_port(3) by auto
  ultimately show ?thesis using p by blast
qed

theorem midi_cable_witness:
  "\<exists>sent ms' s' t1 t2 enc' outs.
    port_run sample_rm_ops sample_mem [Play (note_on 2 60 100), Send 8] sample_synth sample_out [note_on 2 60 100] sent ms' s' \<and>
    snd_rawmidi_receive (0, 0, 0) (\<lambda>_. (0, 0)) sent sample_in = Some (int (length sent), t1) \<and>
    snd_midi_input_event sample_rm_ops (\<lambda>client ev data evs. evs @ [ev]) [] (\<lambda>_. sample_synth) (Some t1) [] =
      Some ([], (\<lambda>_. sample_synth)(5 := sample_synth\<lparr>sm_parser := Some enc'\<rparr>), Some t2, fold (\<lambda>(ev, data :: u8 list) evs. evs @ [ev]) outs []) \<and>
    map (\<lambda>(ev, data). midi_message ev) outs = map midi_message [note_on 2 60 100] \<and> input_bytes (rt t2) = []"
proof -
  let ?ev = "note_on 2 60 100" and ?n = "\<lambda>_. False"
  have i: "in_step sample_coder sample_coder" using sample_parser(2,3) by (simp add: in_step_def)
  have silent: "silent sample_rm_ops = sample_rm_ops" by (simp add: silent_def sample_rm_ops_def)
  obtain dec' s0 xs s1 bytes where e: "event_process_midi (silent sample_rm_ops) [] ?n sample_mem ?ev sample_synth (Some sample_out) =
      Some (0, sample_synth\<lparr>sm_parser := Some dec'\<rparr>, Some s0)"
    "event_process_midi sample_rm_ops [] ?n sample_mem ?ev sample_synth (Some sample_out) = Some (0, sample_synth\<lparr>sm_parser := Some dec'\<rparr>, Some s1)"
    "output_side s0" "output_bytes (rt s0) = output_bytes (rt sample_out) @ bytes" "length bytes \<le> 3"
    and room: "bytes = [] \<Longrightarrow> unat (rm_avail (rt sample_out)) < 3"
    using event_process_outcome [OF sample_quiet(3) sample_port(1) sample_parser(1) i sample_note(1), of sample_mem ?ev] by metis
  have s1: "s1 = s0" using e(1,2) unfolding silent by simp
  have b: "output_bytes (rt s0) = bytes" "bytes \<noteq> []" using e(4) room sample_port(2,3) by auto
  obtain s2 where t: "snd_rawmidi_transmit (int 8) s0 = Some (int (length bytes), bytes, s2)" "output_bytes (rt s2) = []"
    using transmit_outcome [OF e(3), of 8] e(5) b(1) by (auto simp: Let_def)
  have run: "port_run sample_rm_ops sample_mem [Play ?ev, Send 8] sample_synth sample_out [?ev] bytes (sample_synth\<lparr>sm_parser := Some dec'\<rparr>) s2"
    using port_play [OF e(2) [unfolded s1] e(1) driver_sends.idle port_send [OF t(1) port_done]] b sample_port(2) by simp
  have v: "\<forall>ev\<in>set (played [Play ?ev, Send 8]). midi_valid ev" using sample_note(1) by simp
  have five: "(5 :: nat) \<noteq> 0" by simp
  have len: "length bytes \<le> unat (rm_size (rt sample_in))" using e(5) sample_port(6) by simp
  obtain t1 t2 enc' outs where c: "snd_rawmidi_receive (0, 0, 0) (\<lambda>_. (0, 0)) bytes sample_in = Some (int (length bytes), t1)"
    "snd_midi_input_event sample_rm_ops (\<lambda>client ev data evs. evs @ [ev]) [] (\<lambda>_. sample_synth) (Some t1) [] =
      Some ([], (\<lambda>_. sample_synth)(5 := sample_synth\<lparr>sm_parser := Some enc'\<rparr>), Some t2, fold (\<lambda>(ev, data :: u8 list) evs. evs @ [ev]) outs [])"
    "map (\<lambda>(ev, data). midi_message ev) outs = map midi_message [?ev]" "input_bytes (rt t2) = []"
    using midi_cable [where synths = "\<lambda>_. sample_synth" and junk = "(0, 0, 0)" and clocks = "\<lambda>_. (0, 0)" and dispatch = "\<lambda>client ev data evs. evs @ [ev]" and st = "[]",
      OF sample_quiet(3) sample_port(1,2) sample_parser(1,2) v run t(2) sample_quiet(1) sample_port(4,5) len sample_port(7) five sample_parser(1,3)] by (elim exE conjE) (rule that)
  show ?thesis using run c by (intro exI conjI)
qed

end
