(* ===== verification/SeqMidiPorts.thy ===== *)
theory SeqMidiPorts
  imports SeqMidi
begin

text \<open>
  Subscriptions of sequencer ports on raw MIDI devices: what subscribing to an input port and leaving it again does
  to the device underneath.
\<close>

section \<open>Opening for input\<close>

text \<open>A substream in the hands of its only user, its ring of the default size.\<close>

definition fresh_input :: "rm_substream \<Rightarrow> bool" where
  "fresh_input s \<longleftrightarrow> sub_ok 1 s \<and> ss_use s = 1 \<and> rm_size (rt s) = 4096 \<and> rm_ref (rt s) = 0"

lemma fresh_inputD:
  assumes "fresh_input s"
  shows "alive s" "ss_opened s" "input_ok (rt s)" "ss_stream s = 1"
  using assms by (auto simp: fresh_input_def sub_ok_def)

text \<open>What the driver does leaves it so.\<close>

lemma fresh_tame:
  assumes "fresh_input s" "tame s s'"
  shows "fresh_input s'"
  using assms fresh_inputD [OF assms(1)] tame_book [OF assms(2)] tame_size [OF assms(2)]
  by (auto simp: fresh_input_def sub_ok_def tame_def)

lemma assigned_unused:
  assumes "device_ok rmidi" "assign_substream rmidi subdevice 1 mode = Inr i"
  shows "i < length (use_counts 1 rmidi)" "ss_use (sub_at rmidi 1 i) = 0"
proof -
  show i: "i < length (use_counts 1 rmidi)" using assigned(1) [OF assms(2)] .
  have "\<not> ss_opened (sub_at rmidi 1 i)"
    using assms(2) by (auto simp: assign_substream_def Let_def sub_at_def find_Some_iff split: if_splits option.splits)
  then show "ss_use (sub_at rmidi 1 i) = 0" using sub_at_ok [OF assms(1) _ i] by (auto simp: sub_ok_def)
qed

lemma open_input_substream:
  assumes g: "gentle_ops ops" and ok: "device_ok rmidi" and i: "i < length (use_counts 1 rmidi)" and u: "ss_use (sub_at rmidi 1 i) = 0"
    and o: "open_substream ops mem mode 1 i rmidi = (err, rmidi')" and e: "\<not> err < 0"
  shows "err = 0" "fresh_input (sub_at rmidi' 1 i)"
proof -
  let ?s = "sub_at rmidi 1 i"
  obtain s where s: "replaced 1 i s rmidi rmidi'" "err = 0" "ss_use s = use_counts 1 rmidi ! i + 1"
    using open_substream_outcome [OF g ok _ i o] e by auto
  then show "err = 0" by simp
  obtain e1 s1 where c1: "snd_rawmidi_runtime_create mem ?s = (e1, s1)" by fastforce
  obtain e2 s2 where c2: "op_open ops s1 = (e2, s2)" by fastforce
  have st: "ss_stream ?s = 1" using sub_at_ok [OF ok _ i] by (simp add: sub_ok_def)
  have l: "i < length (st_subs (rd_streams rmidi 1))" using i by (simp add: use_counts_def)
  have e12: "\<not> e1 < 0" "\<not> e2 < 0" using o e c1 c2 u by (auto simp: open_substream_def Let_def split: if_splits)
  let ?t = "s2\<lparr>ss_opened := True, ss_sensing := False, ss_append := (ss_append s2 \<or> mode AND 4 \<noteq> 0), ss_use := ss_use s2 + 1\<rparr>"
  have "rmidi' = upd_str 1 (\<lambda>str. str\<lparr>st_opened := st_opened str + 1\<rparr>) (upd_sub 1 i ?t rmidi)"
    using o c1 c2 e12 u by (simp add: open_substream_def Let_def)
  then have t: "sub_at rmidi' 1 i = ?t" using l by (simp add: sub_at_def upd_sub_streams)
  have "tame s1 (snd (op_open ops s1))" using g by (simp add: gentle_ops_def)
  then have ss: "tame s1 s2" using c2 by simp
  have "alive s1" using runtime_created(1) [OF c1 e12(1) refl] .
  then have "rm_size (rt s2) = rm_size (rt s1)" "rm_ref (rt s2) = rm_ref (rt s1)" "ss_use s2 = ss_use s1" using tame_book [OF ss] tame_size [OF ss] by simp_all
  moreover have "mem = (True, True)" using c1 e12(1) by (cases mem) (auto simp: snd_rawmidi_runtime_create_def split: if_splits)
  then have "rm_size (rt s1) = 4096" "rm_ref (rt s1) = 0" "ss_use s1 = 0" using c1 [THEN arg_cong [of _ _ snd], symmetric] st u by (simp_all add: snd_rawmidi_runtime_create_def rt_def)
  moreover have "sub_ok 1 (sub_at rmidi' 1 i)" using sub_at_ok [OF replacedD(1) [OF s(1)], of 1 i] i replacedD(2) [OF s(1)] by simp
  ultimately show "fresh_input (sub_at rmidi' 1 i)" unfolding t fresh_input_def by simp
qed

text \<open>The file is opened for input only: mode 2.\<close>

lemma open_input_file:
  assumes g: "gentle_ops ops" and ok: "device_ok rmidi"
  obtains (refused) err rmidi' where "rawmidi_open_priv ops mem subdevice 2 rmidi = Some (err, (None, None), rmidi')" "err < 0" "device_ok rmidi'"
      "use_counts 1 rmidi' = use_counts 1 rmidi" "use_counts 0 rmidi' = use_counts 0 rmidi"
    | (opened) i rmidi' where "rawmidi_open_priv ops mem subdevice 2 rmidi = Some (0, (Some i, None), rmidi')" "device_ok rmidi'"
      "i < length (use_counts 1 rmidi)" "use_counts 1 rmidi' = counted (Some i) (use_counts 1 rmidi)" "use_counts 0 rmidi' = use_counts 0 rmidi"
      "fresh_input (sub_at rmidi' 1 i)"
proof (cases "assign_substream rmidi subdevice 1 2")
  case (Inl err)
  then show ?thesis using refused [of err rmidi] assigned(2) [OF Inl] ok by (simp add: rawmidi_open_priv_def Let_def)
next
  case (Inr i)
  note a = assigned_unused [OF ok Inr]
  obtain err rmidi' where o: "open_substream ops (mem 1) 2 1 i rmidi = (err, rmidi')" by fastforce
  have c: "device_ok rmidi'" "use_counts 1 rmidi' = (if err < 0 then use_counts 1 rmidi else counted (Some i) (use_counts 1 rmidi))" "use_counts 0 rmidi' = use_counts 0 rmidi"
    using open_optional [OF g ok, of 1 "Some i" "mem 1" 2 err rmidi'] a(1) o by auto
  show ?thesis
  proof (cases "err < 0")
    case True
    then show ?thesis using refused [of err rmidi'] Inr o c by (simp add: rawmidi_open_priv_def Let_def)
  next
    case False
    note f = open_input_substream [OF g ok a o False]
    then have "rawmidi_open_priv ops mem subdevice 2 rmidi = Some (0, (Some i, None), rmidi')" using Inr o by (simp add: rawmidi_open_priv_def Let_def)
    then show ?thesis using opened [of i rmidi'] c False a(1) f by simp
  qed
qed

section \<open>Preparing the stream\<close>

lemma input_params_fresh:
  assumes g: "gentle_ops ops" and f: "fresh_input s"
  shows "\<exists>s'. snd_rawmidi_input_params ops room_left (buffer_params False) s = (0, s') \<and> fresh_input s' \<and> ss_framing s' = 0 \<and> input_bytes (rt s') = []"
proof -
  let ?t = "snd_rawmidi_input_trigger ops False s" and ?s1 = "snd_rawmidi_drain_input ops s"
  have "tame s ?t" using g by (simp add: snd_rawmidi_input_trigger_def gentle_ops_def)
  then have t: "fresh_input ?t" by (rule fresh_tame [OF f])
  note a = fresh_inputD [OF t]
  have s1: "rt ?s1 = reset_runtime_ptrs True (rt ?t)" "alive ?s1" "ss_stream ?s1 = ss_stream ?t" "ss_use ?s1 = ss_use ?t" "ss_opened ?s1 = ss_opened ?t" "ss_append ?s1 = ss_append ?t"
    using a(1) by (simp_all add: snd_rawmidi_drain_input_def)
  let ?r = "(rt ?s1)\<lparr>rm_avail_min := 1\<rparr>" and ?s' = "(upd_rt (\<lambda>_. (rt ?s1)\<lparr>rm_avail_min := 1\<rparr>) ?s1)\<lparr>ss_framing := 0, ss_clock := 0\<rparr>"
  have size: "rm_size (rt ?s1) = 4096" using t by (simp add: s1(1) reset_runtime_ptrs_def fresh_input_def)
  have "resize_runtime_buffer room_left (buffer_params False) True (rt ?s1) = (0, ?r)" by (simp add: resize_runtime_buffer_def size)
  then have p: "snd_rawmidi_input_params ops room_left (buffer_params False) s = (0, ?s')" by (simp add: snd_rawmidi_input_params_def Let_def)
  have al: "alive ?s'" "rt ?s' = ?r" using s1(2) by (auto simp: alive_def rt_def upd_rt_def)
  moreover have "ss_stream ?s' = ss_stream ?t" "ss_use ?s' = ss_use ?t" "ss_opened ?s' = ss_opened ?t" "ss_append ?s' = ss_append ?t" using s1 by simp_all
  moreover have "input_ok ?r" using size_okD [OF input_okD(1) [OF a(3)]] by (simp add: s1(1) reset_runtime_ptrs_def input_ok_def size_ok_def ring_ok_def)
  moreover have "rm_size ?r = rm_size (rt ?t)" "rm_ref ?r = rm_ref (rt ?t)" by (simp_all add: s1(1) reset_runtime_ptrs_def)
  ultimately have "fresh_input ?s' \<and> ss_framing ?s' = 0" using t a(1) unfolding fresh_input_def sub_ok_def by simp
  moreover have "input_bytes (rt ?s') = []" unfolding al(2) by (simp add: s1(1) reset_runtime_ptrs_def input_bytes_def)
  ultimately show ?thesis using p by blast
qed

text \<open>The handler is set and the driver started by a read of nothing; the driver may receive at once.\<close>

lemma start_input:
  assumes d: "driver_ops ops" and f: "fresh_input s" "ss_framing s = 0" "input_bytes (rt s) = []"
  shows "\<exists>s'. snd_rawmidi_kernel_read ops 0 (upd_rt (\<lambda>r. r\<lparr>rm_event := h, rm_private := self\<rparr>) s) = Some (0, [], s') \<and> fresh_input s' \<and>
    rm_event (rt s') = h \<and> rm_private (rt s') = self \<and> input_side s' \<and> (quiet_ops ops \<longrightarrow> input_bytes (rt s') = [])"
proof -
  let ?s = "upd_rt (\<lambda>r. r\<lparr>rm_event := h, rm_private := self\<rparr>) s"
  let ?t = "snd_rawmidi_input_trigger ops True ?s"
  note a = fresh_inputD [OF f(1)]
  have r: "rt ?s = (rt s)\<lparr>rm_event := h, rm_private := self\<rparr>" "alive ?s" using a(1) by simp_all
  have ok: "input_ok (rt ?s)" "input_bytes (rt ?s) = []" using a(3) f(3) unfolding r(1) by (simp_all add: input_ok_def size_ok_def input_bytes_def)
  have s: "fresh_input ?s" using f(1) a(1) ok(1) unfolding fresh_input_def sub_ok_def r(1) by simp
  have side: "input_side ?s" using a f(2) ok(1) by (simp add: input_side_def)
  obtain offered xs where t: "driver_receives ?s offered xs ?t" using input_trigger_receives [OF d side] by blast
  have ft: "fresh_input ?t" by (rule fresh_tame [OF s driver_tame(2) [OF t side]])
  have side_t: "input_side ?t" and priv: "rm_event (rt ?t) = h" "rm_private (rt ?t) = self"
    using driver_receives_keeps [OF t side] unfolding r(1) by simp_all
  let ?s' = "upd_rt snd_rawmidi_buffer_unref (upd_rt snd_rawmidi_buffer_ref ?t)"
  have k: "snd_rawmidi_kernel_read ops 0 ?s = Some (0, [], ?s')"
    by (simp add: snd_rawmidi_kernel_read_def snd_rawmidi_kernel_read1_def read_loop.simps)
  have al: "alive ?t" using side_t by (simp add: input_side_def)
  then have rs: "?s' = ?t" by (cases ?t) (auto simp: upd_rt_def alive_def snd_rawmidi_buffer_ref_def snd_rawmidi_buffer_unref_def)
  have "quiet_ops ops \<longrightarrow> input_bytes (rt ?t) = []" using ok(2) by simp
  then show ?thesis using k ft side_t priv unfolding rs by blast
qed


lemma put_fresh:
  assumes ok: "device_ok rmidi" and i: "i < length (use_counts 1 rmidi)" and f: "fresh_input (sub_at rmidi 1 i)" "fresh_input s"
  shows "device_ok (upd_sub 1 i s rmidi)" "use_counts e (upd_sub 1 i s rmidi) = use_counts e rmidi" "sub_at (upd_sub 1 i s rmidi) 1 i = s"
proof -
  have l: "i < length (st_subs (rd_streams rmidi 1))" using i by (simp add: use_counts_def)
  have r: "replaced 1 i s rmidi (upd_sub 1 i s rmidi)"
    using f fresh_inputD(2) [OF f(1)] fresh_inputD(2) [OF f(2)] by (intro device_replace [OF ok _ i]) (auto simp: upd_sub_streams fresh_input_def)
  then show "device_ok (upd_sub 1 i s rmidi)" by (rule replacedD(1))
  have "(use_counts 1 rmidi)[i := ss_use s] = use_counts 1 rmidi"
    using f sub_at_ok [OF ok _ i] list_update_id [of "use_counts 1 rmidi" i] by (simp add: fresh_input_def)
  then show "use_counts e (upd_sub 1 i s rmidi) = use_counts e rmidi" using replacedD(2,3) [OF r] by (cases "e = 1") simp_all
  show "sub_at (upd_sub 1 i s rmidi) 1 i = s" using l by (simp add: sub_at_def upd_sub_streams)
qed

lemma upd_sub_twice: "upd_sub d i t (upd_sub d i s rmidi) = upd_sub d i t rmidi"
  by (cases rmidi) (simp add: upd_sub_def upd_str_def fun_eq_iff)

section \<open>Subscriptions\<close>

definition devices_ok :: "rm_device list \<Rightarrow> bool" where
  "devices_ok devices \<longleftrightarrow> (\<forall>rmidi\<in>set devices. device_ok rmidi)"

text \<open>The use counts of all substreams of all devices, input and output.\<close>

definition all_uses :: "rm_device list \<Rightarrow> (int list \<times> int list) list" where
  "all_uses devices = map (\<lambda>rmidi. (use_counts 1 rmidi, use_counts 0 rmidi)) devices"

lemma devices_update: "devices_ok devices \<Longrightarrow> device_ok rmidi \<Longrightarrow> devices_ok (devices[k := rmidi])"
  using set_update_subset_insert [of devices k rmidi] by (auto simp: devices_ok_def)

lemma search_bound: "snd_rawmidi_search devices cn device = Some k \<Longrightarrow> k < length devices"
  by (auto simp: snd_rawmidi_search_def find_Some_iff)

abbreviation (input) no_file :: rm_file where "no_file \<equiv> \<lparr>rf_device = None, rf_input = None, rf_output = None\<rparr>"

text \<open>What subscribing and leaving do once the file is open.\<close>

lemma subscribe_opened:
  assumes g: "gentle_ops ops" "driver_ops ops" and p: "polite ts" and d: "sm_parser ms = Some dev" and rmidi: "device_ok (devices ! k)" "k < length devices"
    and o: "snd_rawmidi_kernel_open ops mem (sm_card ms) (sm_device ms) (sm_subdevice ms) 2 uses devices =
      Some (0, \<lparr>rf_device = Some k, rf_input = Some i, rf_output = None\<rparr>, uses', devices[k := r])"
    and r: "device_ok r" "i < length (use_counts 1 (devices ! k))" "use_counts 1 r = counted (Some i) (use_counts 1 (devices ! k))"
      "use_counts 0 r = use_counts 0 (devices ! k)" "fresh_input (sub_at r 1 i)"
  shows "\<exists>s r2 ts' r3. let ms' = ms\<lparr>sm_input_rfile := \<lparr>rf_device = Some k, rf_input = Some i, rf_output = None\<rparr>, sm_parser := Some (reset_encode dev)\<rparr> in
    midisynth_subscribe ops mem room_left self ms uses devices = Some (0, ms', uses', devices[k := r2]) \<and> device_ok r2 \<and>
    use_counts 1 r2 = counted (Some i) (use_counts 1 (devices ! k)) \<and> use_counts 0 r2 = use_counts 0 (devices ! k) \<and> sub_at r2 1 i = s \<and>
    fresh_input s \<and> input_side s \<and> (quiet_ops ops \<longrightarrow> input_bytes (rt s) = []) \<and> rm_event (rt s) = 1 \<and> rm_private (rt s) = self \<and>
    midisynth_unsubscribe ops ts ms' (devices[k := r2]) = Some (0, ts', ms'\<lparr>sm_input_rfile := no_file\<rparr>, devices[k := r3]) \<and> device_ok r3 \<and>
    use_counts 1 r3 = use_counts 1 (devices ! k) \<and> use_counts 0 r3 = use_counts 0 (devices ! k)"
proof -
  have i: "i < length (use_counts 1 r)" using r(2,3) by (simp add: counted_def)
  obtain s1 where s1: "snd_rawmidi_input_params ops room_left (buffer_params False) (sub_at r 1 i) = (0, s1)" "fresh_input s1" "ss_framing s1 = 0" "input_bytes (rt s1) = []"
    using input_params_fresh [OF g(1) r(5)] by blast
  obtain s2 where s2: "snd_rawmidi_kernel_read ops 0 (upd_rt (\<lambda>r. r\<lparr>rm_event := 1, rm_private := self\<rparr>) s1) = Some (0, [], s2)" "fresh_input s2"
    "rm_event (rt s2) = 1" "rm_private (rt s2) = self" "input_side s2" "quiet_ops ops \<longrightarrow> input_bytes (rt s2) = []"
    using start_input [OF g(2) s1(2-4)] by blast
  note r2 = put_fresh [OF r(1) i r(5) s2(2)]
  let ?r2 = "upd_sub 1 i s2 r" and ?ms = "ms\<lparr>sm_input_rfile := \<lparr>rf_device = Some k, rf_input = Some i, rf_output = None\<rparr>, sm_parser := Some (reset_encode dev)\<rparr>"
  have sub: "midisynth_subscribe ops mem room_left self ms uses devices = Some (0, ?ms, uses', devices[k := ?r2])"
    using s1(1) s2(1) rmidi(2) d unfolding midisynth_subscribe_def o by (simp add: upd_sub_twice)
  have u: "use_counts 1 ?r2 = counted (Some i) (use_counts 1 (devices ! k))" "use_counts 0 ?r2 = use_counts 0 (devices ! k)" using r2(2) r(3,4) by simp_all
  obtain ts' r3 where c: "close_substream ops True 1 i ts ?r2 = Some (ts', r3)" "device_ok r3" "use_counts 1 r3 = use_counts 1 (devices ! k)" "use_counts 0 r3 = use_counts 0 ?r2"
    using close_optional [OF g(1) r2(1) _ p _ u(1) use_counts_nonneg [OF rmidi(1)], where cleanup = True] r(2) by auto
  let ?r4 = "r3\<lparr>rd_wakeups := rd_wakeups r3 + 1\<rparr>"
  have "device_ok ?r4" "use_counts 1 ?r4 = use_counts 1 (devices ! k)" "use_counts 0 ?r4 = use_counts 0 (devices ! k)"
    using c(2-4) u(2) by (simp_all add: device_ok_def use_counts_def)
  moreover have "midisynth_unsubscribe ops ts ?ms (devices[k := ?r2]) = Some (0, ts', ?ms\<lparr>sm_input_rfile := no_file\<rparr>, devices[k := ?r4])"
    using c(1) rmidi(2) by (simp add: midisynth_unsubscribe_def snd_rawmidi_kernel_release_def rawmidi_release_priv_def)
  ultimately show ?thesis unfolding Let_def using sub r2(1,3) u s2(2-6) by blast
qed

lemma all_uses_update: "k < length devices \<Longrightarrow> use_counts 1 r = use_counts 1 (devices ! k) \<Longrightarrow> use_counts 0 r = use_counts 0 (devices ! k) \<Longrightarrow>
    all_uses (devices[k := r]) = all_uses devices"
  by (simp add: all_uses_def map_update list_update_same_conv)

text \<open>
  C20. Subscribing to the input port of a raw MIDI device and leaving it again is balanced. Whatever memory there is and whether
  or not the driver can be opened, a subscription that fails leaves the use count of every substream of every device as it was, and
  the devices in order; one that succeeds holds one more use of one input substream, with a well-formed ring of the default
  size without frames, the handler of the port and its address installed and the parser reset; the ring is empty if the driver
  receives nothing when it is started; and the end of the subscription gives that use back. The callbacks of the driver leave
  the book-keeping of the substream to the core and its ring well formed, a trigger hands over bytes to an input or takes
  them from an output, as often as it likes, and does nothing else; and while the release waits, nobody else opens or closes the substream.
\<close>

theorem subscription_balanced:
  assumes g: "gentle_ops ops" "driver_ops ops" and ok: "devices_ok devices" and p: "polite ts" and d: "sm_parser ms = Some dev"
  shows "\<exists>err ms' uses' devices'. midisynth_subscribe ops mem room_left self ms uses devices = Some (err, ms', uses', devices') \<and> devices_ok devices' \<and>
    (if err < 0 then all_uses devices' = all_uses devices
     else err = 0 \<and> sm_parser ms' = Some (reset_encode dev) \<and>
       (\<exists>k i. sm_input_rfile ms' = \<lparr>rf_device = Some k, rf_input = Some i, rf_output = None\<rparr> \<and> k < length devices \<and> i < length (use_counts 1 (devices ! k)) \<and>
         all_uses devices' = (all_uses devices)[k := (counted (Some i) (use_counts 1 (devices ! k)), use_counts 0 (devices ! k))] \<and>
         (let s = sub_at (devices' ! k) 1 i in input_side s \<and> (quiet_ops ops \<longrightarrow> input_bytes (rt s) = []) \<and> rm_size (rt s) = 4096 \<and>
            rm_event (rt s) = 1 \<and> rm_private (rt s) = self) \<and>
         (\<exists>ts' ms'' devices''. midisynth_unsubscribe ops ts ms' devices' = Some (0, ts', ms'', devices'') \<and> devices_ok devices'' \<and>
           all_uses devices'' = all_uses devices)))"
proof -
  let ?open = "snd_rawmidi_kernel_open ops mem (sm_card ms) (sm_device ms) (sm_subdevice ms) 2 uses devices"
  have failed: "?open = Some (err, no_file, uses', devices') \<Longrightarrow> err < 0 \<Longrightarrow>
      midisynth_subscribe ops mem room_left self ms uses devices = Some (err, ms\<lparr>sm_input_rfile := no_file\<rparr>, uses', devices')" for err uses' devices'
    by (simp add: midisynth_subscribe_def)
  show ?thesis
  proof (cases "snd_rawmidi_search devices (sm_card ms) (sm_device ms)")
    case None
    then have "?open = Some (- ENODEV, no_file, uses, devices)" by (simp add: snd_rawmidi_kernel_open_def)
    from failed [OF this] show ?thesis using ok by simp
  next
    case (Some k)
    note k = search_bound [OF Some]
    have rmidi: "device_ok (devices ! k)" using ok k by (simp add: devices_ok_def)
    show ?thesis
    proof (cases "uses + 1 = 0")
      case True
      then have "?open = Some (- ENXIO, no_file, uses + 1, devices)" using Some by (simp add: snd_rawmidi_kernel_open_def)
      from failed [OF this] show ?thesis using ok by simp
    next
      case False
      from g(1) rmidi show ?thesis
      proof (cases rule: open_input_file [where mem = mem and subdevice = "sm_subdevice ms"])
        case (refused err r)
        then have "?open = Some (err, no_file, uses + 1, devices[k := r])" using Some False by (simp add: snd_rawmidi_kernel_open_def)
        from failed [OF this refused(2)] show ?thesis
          using refused devices_update [OF ok refused(3)] all_uses_update [OF k] by simp
      next
        case (opened i r)
        then have o: "?open = Some (0, \<lparr>rf_device = Some k, rf_input = Some i, rf_output = None\<rparr>, uses + 1, devices[k := r])"
          using Some False by (simp add: snd_rawmidi_kernel_open_def)
        obtain s r2 ts' r3 where r: "let ms' = ms\<lparr>sm_input_rfile := \<lparr>rf_device = Some k, rf_input = Some i, rf_output = None\<rparr>, sm_parser := Some (reset_encode dev)\<rparr> in
          midisynth_subscribe ops mem room_left self ms uses devices = Some (0, ms', uses + 1, devices[k := r2]) \<and> device_ok r2 \<and>
          use_counts 1 r2 = counted (Some i) (use_counts 1 (devices ! k)) \<and> use_counts 0 r2 = use_counts 0 (devices ! k) \<and> sub_at r2 1 i = s \<and>
          fresh_input s \<and> input_side s \<and> (quiet_ops ops \<longrightarrow> input_bytes (rt s) = []) \<and> rm_event (rt s) = 1 \<and> rm_private (rt s) = self \<and>
          midisynth_unsubscribe ops ts ms' (devices[k := r2]) = Some (0, ts', ms'\<lparr>sm_input_rfile := no_file\<rparr>, devices[k := r3]) \<and> device_ok r3 \<and>
          use_counts 1 r3 = use_counts 1 (devices ! k) \<and> use_counts 0 r3 = use_counts 0 (devices ! k)"
          using subscribe_opened [OF g p d rmidi k o opened(2-6)] by blast
        then have "all_uses (devices[k := r3]) = all_uses devices" "rm_size (rt s) = 4096"
          "all_uses (devices[k := r2]) = (all_uses devices)[k := (counted (Some i) (use_counts 1 (devices ! k)), use_counts 0 (devices ! k))]"
          using all_uses_update [OF k, of r3] by (auto simp: Let_def all_uses_def map_update fresh_input_def)
        then show ?thesis using r devices_update [OF ok, of r2 k] devices_update [OF ok, of r3 k] k opened(3) by (auto simp: Let_def)
      qed
    qed
  qed
qed


theorem subscription_balanced_witness:
  "\<exists>ms' uses' devices'. midisynth_subscribe busy_ops (\<lambda>_. (True, True)) True 5 sample_synth 0 [sample_device] = Some (0, ms', uses', devices') \<and>
     all_uses devices' = [([1], [0])] \<and> rm_private (rt (sub_at (devices' ! 0) 1 0)) = 5 \<and>
     (\<exists>ts' ms'' devices''. midisynth_unsubscribe busy_ops [] ms' devices' = Some (0, ts', ms'', devices'') \<and> all_uses devices'' = [([0], [0])])"
proof -
  have dev: "device_ok sample_device" by (simp add: device_ok_def str_ok_def sub_ok_def sample_device_def sample_sub_def alive_def)
  then have ok: "devices_ok [sample_device]" by (simp add: devices_ok_def)
  have u: "all_uses [sample_device] = [([0], [0])]" "use_counts d sample_device = [0]" for d
    by (simp_all add: all_uses_def use_counts_def sample_device_def sample_sub_def)
  have p: "polite []" by (simp add: polite_def)
  define r where "r = snd (open_substream busy_ops (True, True) 2 1 0 sample_device)"
  have "fst (open_substream busy_ops (True, True) 2 1 0 sample_device) = 0"
    by (simp add: open_substream_def snd_rawmidi_runtime_create_def sample_device_def sample_sub_def busy_ops_def sample_rm_ops_def sub_at_def Let_def)
  then have op: "open_substream busy_ops (True, True) 2 1 0 sample_device = (0, r)" by (simp add: prod_eq_iff r_def)
  have assigned: "assign_substream sample_device 0 1 2 = Inr 0"
    by (simp add: assign_substream_def sample_device_def sample_sub_def Let_def)
  have o: "snd_rawmidi_kernel_open busy_ops (\<lambda>_. (True, True)) (sm_card sample_synth) (sm_device sample_synth) (sm_subdevice sample_synth) 2 0 [sample_device] =
      Some (0, \<lparr>rf_device = Some 0, rf_input = Some 0, rf_output = None\<rparr>, 1, [sample_device][0 := r])"
    using assigned op by (simp add: snd_rawmidi_kernel_open_def snd_rawmidi_search_def rawmidi_open_priv_def sample_synth_def sample_device_def Let_def)
  have un: "ss_use (sub_at sample_device 1 0) = 0" "0 < length (use_counts 1 sample_device)" by (simp_all add: sample_device_def sample_sub_def sub_at_def use_counts_def)
  have k: "device_ok ([sample_device] ! 0)" "0 < length [sample_device]" "0 < length (use_counts 1 ([sample_device] ! 0))" using dev un(2) by simp_all
  have open1: "device_ok r" "use_counts 1 r = counted (Some 0) (use_counts 1 ([sample_device] ! 0))" "use_counts 0 r = use_counts 0 ([sample_device] ! 0)"
    using open_optional [OF sample_busy(2) dev, of 1 "Some 0" "(True, True)" 2 0 r] un(2) op by auto
  have "fresh_input (sub_at r 1 0)" using open_input_substream(2) [OF sample_busy(2) dev un(2,1) op] by simp
  from subscribe_opened [OF sample_busy(2,1) p sample_parser(1) k(1,2) o open1(1) k(3) open1(2,3) this, of True 5]
  obtain ms' uses' devices' where s: "midisynth_subscribe busy_ops (\<lambda>_. (True, True)) True 5 sample_synth 0 [sample_device] = Some (0, ms', uses', devices')"
    unfolding Let_def by blast
  with subscription_balanced [OF sample_busy(2,1) ok p sample_parser(1), of "\<lambda>_. (True, True)" True 5 0] u
  have "all_uses devices' = [([1], [0])] \<and> rm_private (rt (sub_at (devices' ! 0) 1 0)) = 5 \<and>
     (\<exists>ts' ms'' devices''. midisynth_unsubscribe busy_ops [] ms' devices' = Some (0, ts', ms'', devices'') \<and> all_uses devices'' = [([0], [0])])"
    by (simp add: Let_def counted_def) blast
  then show ?thesis using s by blast
qed

end
