(* ===== verification/Control.thy ===== *)
theory Control
  imports Prelude
begin

text \<open>
  The control interface of a card, the first half of \<^verbatim>\<open>core/control.c\<close>: the elements and their identities, lookup,
  notification of clients, numbering, insertion and removal, and the list of elements. Validation of values is not
  configured in this build. \<open>None\<close> stands for an access outside of an array.
\<close>

section \<open>Elements\<close>

text \<open>\<^verbatim>\<open>struct snd_ctl_elem_id\<close>; a name is the string in the array of 44 characters.\<close>

record elem_id =
  id_numid :: u32
  id_iface :: int
  id_device :: u32
  id_subdevice :: u32
  id_name :: string
  id_index :: u32

text \<open>\<^verbatim>\<open>struct snd_ctl_elem_info\<close>; the union is read through the member for the type of the element.\<close>

record elem_info =
  ei_id :: elem_id
  ei_type :: int
  ei_access :: u32
  ei_count :: u32
  ei_owner :: int
  ei_range :: "u32 \<times> u32 \<times> u32"
  ei_items :: u32
  ei_item :: u32
  ei_item_name :: string
  ei_names_ptr :: u64
  ei_names_length :: u32

record elem_value =
  va_id :: elem_id
  va_bytes :: "u8 list"

text \<open>An element of a client: its data for all indices, its TLV data, and the names of an enumeration.\<close>

record user_element =
  ue_info :: elem_info
  ue_data :: "u8 list"
  ue_data_size :: u32
  ue_tlv :: "u8 list option"
  ue_tlv_size :: u32
  ue_names :: "string option"

text \<open>Callbacks: those of a driver by number, and those of elements of clients.\<close>

datatype ctl_call = Driver_call nat | User_call | User_enum_call

datatype ctl_tlv = No_tlv | Tlv_table "u32 list" | Tlv_call ctl_call

text \<open>\<^verbatim>\<open>struct snd_kcontrol_volatile\<close>: the owner is the address of a file, 0 for NULL.\<close>

record kctl_volatile =
  vd_owner :: nat
  vd_access :: u32

record kcontrol =
  kc_id :: elem_id
  kc_count :: u32
  kc_info :: ctl_call
  kc_get :: "ctl_call option"
  kc_put :: "ctl_call option"
  kc_tlv :: ctl_tlv
  kc_user :: "user_element option"
  kc_free :: "ctl_call option"
  kc_vd :: "kctl_volatile list"

record kcontrol_new =
  kn_iface :: int
  kn_device :: u32
  kn_subdevice :: u32
  kn_name :: "string option"
  kn_index :: u32
  kn_access :: u32
  kn_count :: u32
  kn_info :: nat
  kn_get :: "nat option"
  kn_put :: "nat option"
  kn_tlv :: ctl_tlv

section \<open>Cards and files\<close>

text \<open>An open control file: its address, and the events it has not read. \<open>cf_wakeups\<close> counts \<^verbatim>\<open>wake_up(&ctl->change_sleep)\<close>.\<close>

record ctl_file =
  cf_addr :: nat
  cf_pid :: int
  cf_preferred :: "nat \<Rightarrow> int"
  cf_subscribed :: bool
  cf_events :: "(elem_id \<times> u32) list"
  cf_wakeups :: nat

record ctl_card =
  ca_last_numid :: u32
  ca_controls :: "kcontrol list"
  ca_count :: u32
  ca_user_alloc :: u32
  ca_files :: "ctl_file list"
  ca_shutdown :: bool
  ca_files_list :: "nat list"

text \<open>
  The callbacks of the driver on a state of its own, and the control layers with their notifications. A callback
  returns its status and what it made of its argument.
\<close>

record 'd ctl_driver =
  dr_info :: "nat \<Rightarrow> kcontrol \<Rightarrow> elem_info \<Rightarrow> 'd \<Rightarrow> int \<times> elem_info \<times> 'd"
  dr_get :: "nat \<Rightarrow> kcontrol \<Rightarrow> elem_value \<Rightarrow> 'd \<Rightarrow> int \<times> elem_value \<times> 'd"
  dr_put :: "nat \<Rightarrow> kcontrol \<Rightarrow> elem_value \<Rightarrow> 'd \<Rightarrow> int \<times> elem_value \<times> 'd"
  dr_tlv :: "nat \<Rightarrow> kcontrol \<Rightarrow> int \<Rightarrow> u32 \<Rightarrow> u8 list \<Rightarrow> 'd \<Rightarrow> int \<times> u8 list \<times> 'd"
  dr_free :: "nat \<Rightarrow> kcontrol \<Rightarrow> 'd \<Rightarrow> 'd"
  dr_layers :: "nat list"
  dr_notify :: "nat \<Rightarrow> u32 \<Rightarrow> kcontrol \<Rightarrow> u32 \<Rightarrow> 'd \<Rightarrow> 'd"

abbreviation (input) ACCESS_READ :: u32 where "ACCESS_READ \<equiv> 1"
abbreviation (input) ACCESS_WRITE :: u32 where "ACCESS_WRITE \<equiv> 2"
abbreviation (input) ACCESS_TLV_READ :: u32 where "ACCESS_TLV_READ \<equiv> 0x10"
abbreviation (input) ACCESS_TLV_WRITE :: u32 where "ACCESS_TLV_WRITE \<equiv> 0x20"
abbreviation (input) ACCESS_TLV_COMMAND :: u32 where "ACCESS_TLV_COMMAND \<equiv> 0x40"
abbreviation (input) ACCESS_INACTIVE :: u32 where "ACCESS_INACTIVE \<equiv> 0x100"
abbreviation (input) ACCESS_LOCK :: u32 where "ACCESS_LOCK \<equiv> 0x200"
abbreviation (input) ACCESS_OWNER :: u32 where "ACCESS_OWNER \<equiv> 0x400"
abbreviation (input) ACCESS_TLV_CALLBACK :: u32 where "ACCESS_TLV_CALLBACK \<equiv> 0x10000000"
abbreviation (input) ACCESS_USER :: u32 where "ACCESS_USER \<equiv> 0x20000000"

text \<open>\<^verbatim>\<open>SNDRV_CTL_EVENT_MASK_*\<close>.\<close>

abbreviation (input) MASK_VALUE :: u32 where "MASK_VALUE \<equiv> 1"
abbreviation (input) MASK_INFO :: u32 where "MASK_INFO \<equiv> 2"
abbreviation (input) MASK_ADD :: u32 where "MASK_ADD \<equiv> 4"
abbreviation (input) MASK_TLV :: u32 where "MASK_TLV \<equiv> 8"
abbreviation (input) MASK_REMOVE :: u32 where "MASK_REMOVE \<equiv> - 1"

section \<open>Offsets and lookup\<close>

text \<open>\<^verbatim>\<open>array_index_nospec\<close> is its first argument in this build.\<close>

definition snd_ctl_get_ioff :: "kcontrol \<Rightarrow> elem_id \<Rightarrow> u32" where
  "snd_ctl_get_ioff k i = (if id_numid i \<noteq> 0 then id_numid i - id_numid (kc_id k) else id_index i - id_index (kc_id k))"

definition snd_ctl_build_ioff :: "kcontrol \<Rightarrow> u32 \<Rightarrow> elem_id" where
  "snd_ctl_build_ioff k off = (kc_id k)\<lparr>id_index := id_index (kc_id k) + off, id_numid := id_numid (kc_id k) + off\<rparr>"

definition vd_at :: "kcontrol \<Rightarrow> u32 \<Rightarrow> kctl_volatile option" where
  "vd_at k off = (if unat off < length (kc_vd k) then Some (kc_vd k ! unat off) else None)"

definition set_vd :: "u32 \<Rightarrow> kctl_volatile \<Rightarrow> kcontrol \<Rightarrow> kcontrol" where
  "set_vd off vd k = k\<lparr>kc_vd := (kc_vd k)[unat off := vd]\<rparr>"

text \<open>A control is named by its place in the list of the card.\<close>

definition put_control :: "nat \<Rightarrow> kcontrol \<Rightarrow> ctl_card \<Rightarrow> ctl_card" where
  "put_control n k c = c\<lparr>ca_controls := (ca_controls c)[n := k]\<rparr>"

definition snd_ctl_find_numid :: "ctl_card \<Rightarrow> u32 \<Rightarrow> nat option" where
  "snd_ctl_find_numid c numid =
     find (\<lambda>n. let k = ca_controls c ! n in id_numid (kc_id k) \<le> numid \<and> id_numid (kc_id k) + kc_count k > numid) [0..<length (ca_controls c)]"

definition snd_ctl_find_id :: "ctl_card \<Rightarrow> elem_id \<Rightarrow> nat option" where
  "snd_ctl_find_id c i =
     (if id_numid i \<noteq> 0 then snd_ctl_find_numid c (id_numid i)
      else
        find (\<lambda>n. let k = ca_controls c ! n; j = kc_id k
            in id_iface j = id_iface i \<and> id_device j = id_device i \<and> id_subdevice j = id_subdevice i \<and>
               take 44 (id_name j) = take 44 (id_name i) \<and> id_index j \<le> id_index i \<and> id_index j + kc_count k > id_index i)
          [0..<length (ca_controls c)])"

section \<open>Notification\<close>

fun merge_event :: "u32 \<Rightarrow> elem_id \<Rightarrow> (elem_id \<times> u32) list \<Rightarrow> (elem_id \<times> u32) list option" where
  "merge_event mk i [] = None"
| "merge_event mk i ((j, m) # evs) =
     (if id_numid j = id_numid i then Some ((j, m OR mk) # evs) else map_option (\<lambda>evs. (j, m) # evs) (merge_event mk i evs))"

text \<open>\<open>mem\<close>: whether the record of an event can be allocated for a file.\<close>

type_synonym event_mem = "elem_id \<Rightarrow> nat \<Rightarrow> bool"

definition notify_file :: "event_mem \<Rightarrow> u32 \<Rightarrow> elem_id \<Rightarrow> ctl_file \<Rightarrow> ctl_file" where
  "notify_file mem mk i f =
     (if \<not> cf_subscribed f then f
      else
        f\<lparr>cf_events := (case merge_event mk i (cf_events f) of
              Some evs \<Rightarrow> evs
            | None \<Rightarrow> if mem i (cf_addr f) then cf_events f @ [(i, mk)] else cf_events f),
          cf_wakeups := cf_wakeups f + 1\<rparr>)"

definition snd_ctl_notify :: "event_mem \<Rightarrow> u32 \<Rightarrow> elem_id \<Rightarrow> ctl_card \<Rightarrow> ctl_card" where
  "snd_ctl_notify mem mk i c = (if ca_shutdown c then c else c\<lparr>ca_files := map (notify_file mem mk i) (ca_files c)\<rparr>)"

definition snd_ctl_notify_one :: "event_mem \<Rightarrow> 'd ctl_driver \<Rightarrow> u32 \<Rightarrow> kcontrol \<Rightarrow> u32 \<Rightarrow> ctl_card \<times> 'd \<Rightarrow> ctl_card \<times> 'd" where
  "snd_ctl_notify_one mem drv mk k off st =
     (snd_ctl_notify mem mk (snd_ctl_build_ioff k off) (fst st), fold (\<lambda>l. dr_notify drv l mk k off) (dr_layers drv) (snd st))"

definition notify_all :: "event_mem \<Rightarrow> 'd ctl_driver \<Rightarrow> u32 \<Rightarrow> kcontrol \<Rightarrow> ctl_card \<times> 'd \<Rightarrow> ctl_card \<times> 'd" where
  "notify_all mem drv mk k st = fold (\<lambda>n. snd_ctl_notify_one mem drv mk k (of_nat n)) [0..<unat (kc_count k)] st"

section \<open>Creating and freeing\<close>

definition snd_ctl_new :: "bool \<Rightarrow> u32 \<Rightarrow> u32 \<Rightarrow> nat \<Rightarrow> int \<times> kcontrol option" where
  "snd_ctl_new mem cnt access owner =
     (if cnt = 0 \<or> cnt > 1028 then (- EINVAL, None)
      else if \<not> mem then (- ENOMEM, None)
      else (0, Some \<lparr>kc_id = \<lparr>id_numid = 0, id_iface = 0, id_device = 0, id_subdevice = 0, id_name = [], id_index = 0\<rparr>, kc_count = cnt,
        kc_info = Driver_call 0, kc_get = None, kc_put = None, kc_tlv = No_tlv, kc_user = None, kc_free = None,
        kc_vd = replicate (unat cnt) \<lparr>vd_owner = owner, vd_access = access\<rparr>\<rparr>))"

definition snd_ctl_new1 :: "bool \<Rightarrow> kcontrol_new \<Rightarrow> kcontrol option" where
  "snd_ctl_new1 mem new =
     (let cnt = (if kn_count new = 0 then 1 else kn_count new);
          access = (if kn_access new = 0 then ACCESS_READ OR ACCESS_WRITE else kn_access new) AND 0x1e000177;
          (err, k) = snd_ctl_new mem cnt access 0
      in if err < 0 then None
         else map_option (\<lambda>k. k\<lparr>
             kc_id := \<lparr>id_numid = 0, id_iface = kn_iface new, id_device = kn_device new, id_subdevice = kn_subdevice new,
               id_name = (case kn_name new of None \<Rightarrow> [] | Some s \<Rightarrow> take 43 s), id_index = kn_index new\<rparr>,
             kc_info := Driver_call (kn_info new), kc_get := map_option Driver_call (kn_get new), kc_put := map_option Driver_call (kn_put new),
             kc_tlv := kn_tlv new\<rparr>) k)"

text \<open>The size of \<^verbatim>\<open>struct user_element\<close> in this build.\<close>

abbreviation (input) USER_ELEMENT_SIZE :: u32 where "USER_ELEMENT_SIZE \<equiv> 296"

definition compute_user_elem_size :: "u32 \<Rightarrow> u32 \<Rightarrow> u32" where
  "compute_user_elem_size sz cnt = USER_ELEMENT_SIZE + sz * cnt"

definition snd_ctl_elem_user_free :: "kcontrol \<Rightarrow> ctl_card \<Rightarrow> ctl_card" where
  "snd_ctl_elem_user_free k c =
     (let ue = the (kc_user k);
          alloc = ca_user_alloc c - compute_user_elem_size (ue_data_size ue) (kc_count k) - ue_tlv_size ue
      in c\<lparr>ca_user_alloc := (if ue_names ue \<noteq> None then alloc - ei_names_length (ue_info ue) else alloc)\<rparr>)"

definition snd_ctl_free_one :: "'d ctl_driver \<Rightarrow> kcontrol \<Rightarrow> ctl_card \<times> 'd \<Rightarrow> ctl_card \<times> 'd" where
  "snd_ctl_free_one drv k st =
     (case kc_free k of
        None \<Rightarrow> st
      | Some (Driver_call n) \<Rightarrow> (fst st, dr_free drv n k (snd st))
      | Some _ \<Rightarrow> (snd_ctl_elem_user_free k (fst st), snd st))"


section \<open>Adding and removing\<close>

definition overlaps :: "u32 \<Rightarrow> u32 \<Rightarrow> kcontrol \<Rightarrow> bool" where
  "overlaps last_id cnt k \<longleftrightarrow> id_numid (kc_id k) < last_id + 1 + cnt \<and> id_numid (kc_id k) + kc_count k > last_id + 1"

definition snd_ctl_remove_numid_conflict :: "u32 \<Rightarrow> ctl_card \<Rightarrow> bool \<times> ctl_card" where
  "snd_ctl_remove_numid_conflict cnt c =
     (let c = (if ca_last_numid c \<ge> UINT_MAX - cnt then c\<lparr>ca_last_numid := 0\<rparr> else c)
      in case find (overlaps (ca_last_numid c) cnt) (ca_controls c) of
           None \<Rightarrow> (False, c)
         | Some k \<Rightarrow> (True, c\<lparr>ca_last_numid := id_numid (kc_id k) + kc_count k - 1\<rparr>))"

text \<open>The loop gives up when \<^verbatim>\<open>iter\<close> reaches 0.\<close>

fun find_hole_loop :: "nat \<Rightarrow> u32 \<Rightarrow> ctl_card \<Rightarrow> int \<times> ctl_card" where
  "find_hole_loop iter cnt c =
     (let (conflict, c) = snd_ctl_remove_numid_conflict cnt c
      in if \<not> conflict then (0, c)
         else case iter of 0 \<Rightarrow> (- ENOMEM, c) | Suc 0 \<Rightarrow> (- ENOMEM, c) | Suc (Suc n) \<Rightarrow> find_hole_loop (Suc n) cnt c)"

definition snd_ctl_find_hole :: "u32 \<Rightarrow> ctl_card \<Rightarrow> int \<times> ctl_card" where
  "snd_ctl_find_hole cnt c = find_hole_loop 100000 cnt c"

definition snd_ctl_remove :: "event_mem \<Rightarrow> 'd ctl_driver \<Rightarrow> nat \<Rightarrow> ctl_card \<times> 'd \<Rightarrow> int \<times> ctl_card \<times> 'd" where
  "snd_ctl_remove mem drv n st =
     (let (c, d) = st; k = ca_controls c ! n;
          c = c\<lparr>ca_controls := take n (ca_controls c) @ drop (Suc n) (ca_controls c), ca_count := ca_count c - kc_count k\<rparr>
      in (0, snd_ctl_free_one drv k (notify_all mem drv MASK_REMOVE k (c, d))))"

datatype ctl_add_mode = CTL_ADD_EXCLUSIVE | CTL_REPLACE | CTL_ADD_ON_REPLACE

text \<open>The insertion at the end, with the next numeric ids.\<close>

definition insert_control :: "event_mem \<Rightarrow> 'd ctl_driver \<Rightarrow> kcontrol \<Rightarrow> ctl_card \<times> 'd \<Rightarrow> ctl_card \<times> 'd" where
  "insert_control mem drv k st =
     (let (c, d) = st; k = k\<lparr>kc_id := (kc_id k)\<lparr>id_numid := ca_last_numid c + 1\<rparr>\<rparr>;
          c = c\<lparr>ca_controls := ca_controls c @ [k], ca_count := ca_count c + kc_count k, ca_last_numid := ca_last_numid c + kc_count k\<rparr>
      in notify_all mem drv MASK_ADD k (c, d))"

definition ctl_add_replace :: "event_mem \<Rightarrow> 'd ctl_driver \<Rightarrow> kcontrol \<Rightarrow> ctl_add_mode \<Rightarrow> ctl_card \<times> 'd \<Rightarrow> int \<times> ctl_card \<times> 'd" where
  "ctl_add_replace mem drv k mode st =
     (let i = kc_id k; old = snd_ctl_find_id (fst st) i
      in if id_index i > UINT_MAX - kc_count k then (- EINVAL, st)
         else if old = None \<and> mode = CTL_REPLACE then (- EINVAL, st)
         else if old \<noteq> None \<and> mode = CTL_ADD_EXCLUSIVE then (- EBUSY, st)
         else
           let (err, st) = (case old of None \<Rightarrow> (0, st) | Some n \<Rightarrow> snd_ctl_remove mem drv n st)
           in if err < 0 then (err, st)
              else
                let (err, c) = snd_ctl_find_hole (kc_count k) (fst st)
                in if err < 0 then (- ENOMEM, (c, snd st)) else (0, insert_control mem drv k (c, snd st)))"

definition snd_ctl_add_replace :: "event_mem \<Rightarrow> 'd ctl_driver \<Rightarrow> kcontrol option \<Rightarrow> ctl_add_mode \<Rightarrow> ctl_card \<times> 'd \<Rightarrow> int \<times> ctl_card \<times> 'd" where
  "snd_ctl_add_replace mem drv kcontrol mode st =
     (case kcontrol of
        None \<Rightarrow> (- EINVAL, st)
      | Some k \<Rightarrow> let (err, st) = ctl_add_replace mem drv k mode st in if err < 0 then (err, snd_ctl_free_one drv k st) else (0, st))"

definition snd_ctl_add :: "event_mem \<Rightarrow> 'd ctl_driver \<Rightarrow> kcontrol option \<Rightarrow> ctl_card \<times> 'd \<Rightarrow> int \<times> ctl_card \<times> 'd" where
  "snd_ctl_add mem drv k st = snd_ctl_add_replace mem drv k CTL_ADD_EXCLUSIVE st"

definition snd_ctl_replace :: "event_mem \<Rightarrow> 'd ctl_driver \<Rightarrow> kcontrol option \<Rightarrow> bool \<Rightarrow> ctl_card \<times> 'd \<Rightarrow> int \<times> ctl_card \<times> 'd" where
  "snd_ctl_replace mem drv k add_on_replace st = snd_ctl_add_replace mem drv k (if add_on_replace then CTL_ADD_ON_REPLACE else CTL_REPLACE) st"

definition snd_ctl_remove_id :: "event_mem \<Rightarrow> 'd ctl_driver \<Rightarrow> elem_id \<Rightarrow> ctl_card \<times> 'd \<Rightarrow> int \<times> ctl_card \<times> 'd" where
  "snd_ctl_remove_id mem drv i st = (case snd_ctl_find_id (fst st) i of None \<Rightarrow> (- ENOENT, st) | Some n \<Rightarrow> snd_ctl_remove mem drv n st)"

definition snd_ctl_remove_user_ctl :: "event_mem \<Rightarrow> 'd ctl_driver \<Rightarrow> nat \<Rightarrow> elem_id \<Rightarrow> ctl_card \<times> 'd \<Rightarrow> int \<times> ctl_card \<times> 'd" where
  "snd_ctl_remove_user_ctl mem drv file i st =
     (case snd_ctl_find_id (fst st) i of
        None \<Rightarrow> (- ENOENT, st)
      | Some n \<Rightarrow>
          let k = ca_controls (fst st) ! n
          in if vd_access (kc_vd k ! 0) AND ACCESS_USER = 0 then (- EINVAL, st)
             else if \<exists>vd\<in>set (kc_vd k). vd_owner vd \<noteq> 0 \<and> vd_owner vd \<noteq> file then (- EBUSY, st)
             else snd_ctl_remove mem drv n st)"

section \<open>Changing a control\<close>

text \<open>The status, the id filled with the full information, and the state.\<close>

definition snd_ctl_activate_id :: "event_mem \<Rightarrow> 'd ctl_driver \<Rightarrow> elem_id \<Rightarrow> bool \<Rightarrow> ctl_card \<times> 'd \<Rightarrow> (int \<times> elem_id \<times> ctl_card \<times> 'd) option" where
  "snd_ctl_activate_id mem drv i active st =
     (case snd_ctl_find_id (fst st) i of
        None \<Rightarrow> Some (- ENOENT, i, st)
      | Some n \<Rightarrow>
          let k = ca_controls (fst st) ! n; off = snd_ctl_get_ioff k i
          in case vd_at k off of
               None \<Rightarrow> None
             | Some vd \<Rightarrow>
                 if active = (vd_access vd AND ACCESS_INACTIVE = 0) then Some (0, i, st)
                 else
                   let vd = vd\<lparr>vd_access := (if active then vd_access vd AND NOT ACCESS_INACTIVE else vd_access vd OR ACCESS_INACTIVE)\<rparr>;
                       k = set_vd off vd k
                   in Some (1, snd_ctl_build_ioff k off, snd_ctl_notify_one mem drv MASK_INFO k off (put_control n k (fst st), snd st)))"

definition snd_ctl_rename_id :: "elem_id \<Rightarrow> elem_id \<Rightarrow> ctl_card \<Rightarrow> int \<times> ctl_card" where
  "snd_ctl_rename_id src_id dst_id c =
     (case snd_ctl_find_id c src_id of
        None \<Rightarrow> (- ENOENT, c)
      | Some n \<Rightarrow>
          let k = ca_controls c ! n; k = k\<lparr>kc_id := dst_id\<lparr>id_numid := ca_last_numid c + 1\<rparr>\<rparr>
          in (0, (put_control n k c)\<lparr>ca_last_numid := ca_last_numid c + kc_count k\<rparr>))"

section \<open>Listing\<close>

lemma unat_next: "x < y \<Longrightarrow> unat (x + 1) = Suc (unat x)" for x y :: "'a::len word"
  by (rule unat_Suc_no_wrap) (auto simp: not_less [symmetric])

lemma unat_step: "x < y \<Longrightarrow> unat y - unat (x + 1) < unat y - unat x" for x y :: "'a::len word"
  by (simp add: unat_next word_less_nat_alt)

text \<open>
  The ids copied to the client and whether a copy faulted; \<open>bad n\<close>: the \<open>n\<close>-th id cannot be stored. The inner loop
  stores the ids of one control from \<open>jidx\<close> on and stops when no space is left.
\<close>

function list_control :: "(nat \<Rightarrow> bool) \<Rightarrow> kcontrol \<Rightarrow> u32 \<Rightarrow> u32 \<Rightarrow> elem_id list \<Rightarrow> int \<times> bool \<times> u32 \<times> elem_id list" where
  "list_control bad k jidx space ids =
     (if jidx < kc_count k then
        if bad (length ids) then (- EFAULT, True, space, ids)
        else
          let ids = ids @ [snd_ctl_build_ioff k jidx]; space = space - 1
          in if space = 0 then (0, True, space, ids) else list_control bad k (jidx + 1) space ids
      else (0, False, space, ids))"
  by pat_completeness auto
termination
  by (relation "measure (\<lambda>(bad, k, jidx, space, ids). unat (kc_count k) - unat jidx)") (auto intro: unat_step)

declare list_control.simps [simp del]

fun list_controls :: "(nat \<Rightarrow> bool) \<Rightarrow> kcontrol list \<Rightarrow> u32 \<Rightarrow> u32 \<Rightarrow> elem_id list \<Rightarrow> int \<times> elem_id list" where
  "list_controls bad [] off space ids = (0, ids)"
| "list_controls bad (k # ks) off space ids =
     (if off \<ge> kc_count k then list_controls bad ks (off - kc_count k) space ids
      else
        let (err, stop, space, ids) = list_control bad k off space ids
        in if stop then (err, ids) else list_controls bad ks 0 space ids)"

text \<open>The number of elements and the ids.\<close>

definition snd_ctl_elem_list :: "(nat \<Rightarrow> bool) \<Rightarrow> u32 \<Rightarrow> u32 \<Rightarrow> ctl_card \<Rightarrow> int \<times> u32 \<times> elem_id list" where
  "snd_ctl_elem_list bad off space c =
     (let (err, ids) = (if space > 0 then list_controls bad (ca_controls c) off space [] else (0, [])) in (err, ca_count c, ids))"

end
