(* ===== verification/ControlElem.thy ===== *)
theory ControlElem
  imports Control
begin

text \<open>
  The elements of the control interface as clients use them, the second half of \<^verbatim>\<open>core/control.c\<close>: information, reading
  and writing of values, locks, the elements that clients add themselves with their data, names and TLV data.
\<close>

section \<open>Information and values\<close>

definition call_user_info :: "kcontrol \<Rightarrow> elem_info \<Rightarrow> elem_info" where
  "call_user_info k info =
     (let off = snd_ctl_get_ioff k (ei_id info) in (ue_info (the (kc_user k)))\<lparr>ei_id := snd_ctl_build_ioff k off\<rparr>)"

text \<open>The names of an enumeration follow each other in memory, each with its terminating zero.\<close>

primrec skip_names :: "nat \<Rightarrow> string \<Rightarrow> string" where
  "skip_names 0 s = s"
| "skip_names (Suc n) s = skip_names n (drop (Suc (length (takeWhile (\<lambda>c. c \<noteq> CHR 0x00) s))) s)"

definition snd_ctl_elem_user_info :: "kcontrol \<Rightarrow> elem_info \<Rightarrow> int \<times> elem_info" where
  "snd_ctl_elem_user_info k info = (0, call_user_info k info)"

definition snd_ctl_elem_user_enum_info :: "kcontrol \<Rightarrow> elem_info \<Rightarrow> int \<times> elem_info" where
  "snd_ctl_elem_user_enum_info k info =
     (let item = ei_item info; info = call_user_info k info; item = min item (ei_items info - 1);
          names = skip_names (unat item) (the (ue_names (the (kc_user k))))
      in (0, info\<lparr>ei_item := item, ei_item_name := takeWhile (\<lambda>c. c \<noteq> CHR 0x00) names\<rparr>))"

definition call_info :: "'d ctl_driver \<Rightarrow> kcontrol \<Rightarrow> elem_info \<Rightarrow> 'd \<Rightarrow> int \<times> elem_info \<times> 'd" where
  "call_info drv k info d =
     (case kc_info k of
        Driver_call n \<Rightarrow> dr_info drv n k info d
      | User_call \<Rightarrow> (let (err, info) = snd_ctl_elem_user_info k info in (err, info, d))
      | User_enum_call \<Rightarrow> (let (err, info) = snd_ctl_elem_user_enum_info k info in (err, info, d)))"

text \<open>\<open>pw\<close> is the result of \<^verbatim>\<open>snd_power_ref_and_wait\<close>, and \<open>pids\<close> the process of a file.\<close>

definition ctl_elem_info ::
  "'d ctl_driver \<Rightarrow> int \<Rightarrow> (nat \<Rightarrow> int) \<Rightarrow> nat \<Rightarrow> elem_info \<Rightarrow> nat \<Rightarrow> ctl_card \<times> 'd \<Rightarrow> (int \<times> elem_info \<times> ctl_card \<times> 'd) option" where
  "ctl_elem_info drv pw pids n info file st =
     (let k = ca_controls (fst st) ! n;
          (result, info, d) = (if pw = 0 then call_info drv k info (snd st) else (pw, info, snd st));
          st = (fst st, d)
      in if result < 0 then Some (result, info, st)
         else
           let off = snd_ctl_get_ioff k (ei_id info)
           in map_option (\<lambda>vd.
                  (result, info\<lparr>ei_id := snd_ctl_build_ioff k off,
                     ei_access := (if vd_owner vd \<noteq> 0 then vd_access vd OR ACCESS_LOCK OR (if vd_owner vd = file then ACCESS_OWNER else 0) else vd_access vd),
                     ei_owner := (if vd_owner vd \<noteq> 0 then pids (vd_owner vd) else - 1)\<rparr>, st))
                (vd_at k off))"

definition snd_ctl_elem_info ::
  "'d ctl_driver \<Rightarrow> int \<Rightarrow> (nat \<Rightarrow> int) \<Rightarrow> nat \<Rightarrow> elem_info \<Rightarrow> ctl_card \<times> 'd \<Rightarrow> (int \<times> elem_info \<times> ctl_card \<times> 'd) option" where
  "snd_ctl_elem_info drv pw pids file info st =
     (case snd_ctl_find_id (fst st) (ei_id info) of None \<Rightarrow> Some (- ENOENT, info, st) | Some n \<Rightarrow> ctl_elem_info drv pw pids n info file st)"

text \<open>The union of values takes 512 bytes; reading or writing the data of an element beyond its end is \<open>None\<close>.\<close>

definition user_slot :: "kcontrol \<Rightarrow> elem_id \<Rightarrow> nat" where
  "user_slot k i = unat (snd_ctl_get_ioff k i * ue_data_size (the (kc_user k)))"

definition snd_ctl_elem_user_get :: "kcontrol \<Rightarrow> elem_value \<Rightarrow> (int \<times> elem_value) option" where
  "snd_ctl_elem_user_get k v =
     (let ue = the (kc_user k); sz = unat (ue_data_size ue); off = user_slot k (va_id v)
      in if off + sz \<le> length (ue_data ue) \<and> sz \<le> length (va_bytes v)
         then Some (0, v\<lparr>va_bytes := take sz (drop off (ue_data ue)) @ drop sz (va_bytes v)\<rparr>) else None)"

definition snd_ctl_elem_user_put :: "kcontrol \<Rightarrow> elem_value \<Rightarrow> (int \<times> kcontrol) option" where
  "snd_ctl_elem_user_put k v =
     (let ue = the (kc_user k); sz = unat (ue_data_size ue); off = user_slot k (va_id v)
      in if off + sz \<le> length (ue_data ue) \<and> sz \<le> length (va_bytes v)
         then
           if take sz (va_bytes v) = take sz (drop off (ue_data ue)) then Some (0, k)
           else Some (1, k\<lparr>kc_user := Some (ue\<lparr>ue_data := take off (ue_data ue) @ take sz (va_bytes v) @ drop (off + sz) (ue_data ue)\<rparr>)\<rparr>)
         else None)"

definition call_get :: "'d ctl_driver \<Rightarrow> ctl_call \<Rightarrow> kcontrol \<Rightarrow> elem_value \<Rightarrow> 'd \<Rightarrow> (int \<times> elem_value \<times> 'd) option" where
  "call_get drv f k v d = (case f of Driver_call n \<Rightarrow> Some (dr_get drv n k v d) | _ \<Rightarrow> map_option (\<lambda>(err, v). (err, v, d)) (snd_ctl_elem_user_get k v))"

definition call_put :: "'d ctl_driver \<Rightarrow> ctl_call \<Rightarrow> kcontrol \<Rightarrow> elem_value \<Rightarrow> 'd \<Rightarrow> (int \<times> elem_value \<times> kcontrol \<times> 'd) option" where
  "call_put drv f k v d =
     (case f of Driver_call n \<Rightarrow> (let (err, v, d) = dr_put drv n k v d in Some (err, v, k, d)) | _ \<Rightarrow> map_option (\<lambda>(err, k). (err, v, k, d)) (snd_ctl_elem_user_put k v))"

definition snd_ctl_elem_read ::
  "'d ctl_driver \<Rightarrow> int \<Rightarrow> elem_value \<Rightarrow> ctl_card \<times> 'd \<Rightarrow> (int \<times> elem_value \<times> ctl_card \<times> 'd) option" where
  "snd_ctl_elem_read drv pw v st =
     (case snd_ctl_find_id (fst st) (va_id v) of
        None \<Rightarrow> Some (- ENOENT, v, st)
      | Some n \<Rightarrow>
          let k = ca_controls (fst st) ! n; off = snd_ctl_get_ioff k (va_id v)
          in case vd_at k off of
               None \<Rightarrow> None
             | Some vd \<Rightarrow>
                 case kc_get k of
                   None \<Rightarrow> Some (- EPERM, v, st)
                 | Some f \<Rightarrow>
                     if vd_access vd AND ACCESS_READ = 0 then Some (- EPERM, v, st)
                     else
                       let v = v\<lparr>va_id := snd_ctl_build_ioff k off\<rparr>
                       in if pw \<noteq> 0 then Some (pw, v, st)
                          else map_option (\<lambda>(ret, v, d). (ret, v, fst st, d)) (call_get drv f k v (snd st)))"

definition snd_ctl_elem_write ::
  "event_mem \<Rightarrow> 'd ctl_driver \<Rightarrow> int \<Rightarrow> nat \<Rightarrow> elem_value \<Rightarrow> ctl_card \<times> 'd \<Rightarrow> (int \<times> elem_value \<times> ctl_card \<times> 'd) option" where
  "snd_ctl_elem_write mem drv pw file v st =
     (case snd_ctl_find_id (fst st) (va_id v) of
        None \<Rightarrow> Some (- ENOENT, v, st)
      | Some n \<Rightarrow>
          let k = ca_controls (fst st) ! n; off = snd_ctl_get_ioff k (va_id v)
          in case vd_at k off of
               None \<Rightarrow> None
             | Some vd \<Rightarrow>
                 case kc_put k of
                   None \<Rightarrow> Some (- EPERM, v, st)
                 | Some f \<Rightarrow>
                     if vd_access vd AND ACCESS_WRITE = 0 \<or> file \<noteq> 0 \<and> vd_owner vd \<noteq> 0 \<and> vd_owner vd \<noteq> file then Some (- EPERM, v, st)
                     else
                       let v = v\<lparr>va_id := snd_ctl_build_ioff k off\<rparr>
                       in if pw \<noteq> 0 then Some (if pw < 0 then pw else 0, v, st)
                          else
                            map_option (\<lambda>(result, v, k, d).
                                let st = (put_control n k (fst st), d)
                                in if result < 0 then (result, v, st)
                                   else (0, v, if result > 0 then snd_ctl_notify_one mem drv MASK_VALUE k off st else st))
                              (call_put drv f k v (snd st)))"

section \<open>Locks\<close>

text \<open>The wrappers copy their argument from the client; \<open>bad\<close>: the copy faults.\<close>

definition snd_ctl_elem_lock :: "bool \<Rightarrow> nat \<Rightarrow> elem_id \<Rightarrow> ctl_card \<Rightarrow> (int \<times> ctl_card) option" where
  "snd_ctl_elem_lock bad file i c =
     (if bad then Some (- EFAULT, c)
      else
        case snd_ctl_find_id c i of
          None \<Rightarrow> Some (- ENOENT, c)
        | Some n \<Rightarrow>
            let k = ca_controls c ! n; off = snd_ctl_get_ioff k i
            in map_option (\<lambda>vd. if vd_owner vd \<noteq> 0 then (- EBUSY, c) else (0, put_control n (set_vd off (vd\<lparr>vd_owner := file\<rparr>) k) c)) (vd_at k off))"

definition snd_ctl_elem_unlock :: "bool \<Rightarrow> nat \<Rightarrow> elem_id \<Rightarrow> ctl_card \<Rightarrow> (int \<times> ctl_card) option" where
  "snd_ctl_elem_unlock bad file i c =
     (if bad then Some (- EFAULT, c)
      else
        case snd_ctl_find_id c i of
          None \<Rightarrow> Some (- ENOENT, c)
        | Some n \<Rightarrow>
            let k = ca_controls c ! n; off = snd_ctl_get_ioff k i
            in map_option (\<lambda>vd.
                   if vd_owner vd = 0 then (- EINVAL, c) else if vd_owner vd \<noteq> file then (- EPERM, c)
                   else (0, put_control n (set_vd off (vd\<lparr>vd_owner := 0\<rparr>) k) c)) (vd_at k off))"


text \<open>\<open>bad_in\<close> and \<open>bad_out\<close>: the copies from and to the client fault; \<open>mem\<close>: there is memory for a copy of the value.\<close>

definition snd_ctl_elem_info_user ::
  "'d ctl_driver \<Rightarrow> int \<Rightarrow> (nat \<Rightarrow> int) \<Rightarrow> bool \<Rightarrow> bool \<Rightarrow> nat \<Rightarrow> elem_info \<Rightarrow> ctl_card \<times> 'd \<Rightarrow> (int \<times> elem_info \<times> ctl_card \<times> 'd) option" where
  "snd_ctl_elem_info_user drv pw pids bad_in bad_out file info st =
     (if bad_in then Some (- EFAULT, info, st)
      else
        map_option (\<lambda>(result, out, st).
            if result < 0 then (result, info, st) else if bad_out then (- EFAULT, info, st) else (result, out\<lparr>ei_access := ei_access out AND NOT 0x0e000000\<rparr>, st))
          (snd_ctl_elem_info drv pw pids file info st))"

definition snd_ctl_elem_read_user ::
  "'d ctl_driver \<Rightarrow> int \<Rightarrow> bool \<Rightarrow> bool \<Rightarrow> bool \<Rightarrow> elem_value \<Rightarrow> ctl_card \<times> 'd \<Rightarrow> (int \<times> elem_value \<times> ctl_card \<times> 'd) option" where
  "snd_ctl_elem_read_user drv pw has_mem bad_in bad_out v st =
     (if \<not> has_mem then Some (- ENOMEM, v, st)
      else if bad_in then Some (- EFAULT, v, st)
      else
        map_option (\<lambda>(result, out, st). if result < 0 then (result, v, st) else if bad_out then (- EFAULT, v, st) else (result, out, st))
          (snd_ctl_elem_read drv pw v st))"

definition snd_ctl_elem_write_user ::
  "event_mem \<Rightarrow> 'd ctl_driver \<Rightarrow> int \<Rightarrow> bool \<Rightarrow> bool \<Rightarrow> bool \<Rightarrow> nat \<Rightarrow> elem_value \<Rightarrow> ctl_card \<times> 'd \<Rightarrow> (int \<times> elem_value \<times> ctl_card \<times> 'd) option" where
  "snd_ctl_elem_write_user mem drv pw has_mem bad_in bad_out file v st =
     (if \<not> has_mem then Some (- ENOMEM, v, st)
      else if bad_in then Some (- EFAULT, v, st)
      else
        map_option (\<lambda>(result, out, st). if result < 0 then (result, v, st) else if bad_out then (- EFAULT, v, st) else (result, out, st))
          (snd_ctl_elem_write mem drv pw file v st))"

section \<open>Elements of clients\<close>

abbreviation (input) TYPE_ENUMERATED :: int where "TYPE_ENUMERATED \<equiv> 3"

definition max_value_counts :: "u32 list" where
  "max_value_counts = [0, 128, 128, 128, 512, 1, 64]"

definition value_sizes :: "u32 list" where
  "value_sizes = [0, 4, 4, 4, 1, 176, 8]"

definition snd_ctl_check_elem_info :: "elem_info \<Rightarrow> int" where
  "snd_ctl_check_elem_info info =
     (if ei_type info < 1 \<or> ei_type info > 6 then - EINVAL
      else if ei_type info = TYPE_ENUMERATED \<and> ei_items info = 0 then - EINVAL
      else if ei_count info > max_value_counts ! nat (ei_type info) then - EINVAL
      else 0)"

abbreviation (input) MAX_USER_CTL_ALLOC_SIZE :: int where "MAX_USER_CTL_ALLOC_SIZE \<equiv> 8388608"

definition check_user_elem_overflow :: "ctl_card \<Rightarrow> u32 \<Rightarrow> bool" where
  "check_user_elem_overflow c add \<longleftrightarrow> sint (ca_user_alloc c + add) > MAX_USER_CTL_ALLOC_SIZE"

primrec names_valid :: "nat \<Rightarrow> string \<Rightarrow> bool" where
  "names_valid 0 s = True"
| "names_valid (Suc n) s =
     (let name_len = length (takeWhile (\<lambda>c. c \<noteq> CHR 0x00) s)
      in if name_len = 0 \<or> name_len \<ge> 64 \<or> name_len = length s then False else names_valid n (drop (Suc name_len) s))"

text \<open>What a client offers as memory and as copies: for the control, for its data and for the names, and the names themselves.\<close>

record user_memory =
  um_control :: bool
  um_data :: bool
  um_names :: bool
  um_bad :: bool
  um_string :: string

definition snd_ctl_elem_init_enum_names :: "user_memory \<Rightarrow> user_element \<Rightarrow> ctl_card \<Rightarrow> int \<times> user_element \<times> ctl_card" where
  "snd_ctl_elem_init_enum_names um ue c =
     (let buf_len = ei_names_length (ue_info ue)
      in if buf_len > 64 * 1024 then (- EINVAL, ue, c)
         else if check_user_elem_overflow c buf_len then (- ENOMEM, ue, c)
         else if \<not> um_names um then (- ENOMEM, ue, c)
         else if um_bad um \<or> length (um_string um) < unat buf_len then (- EFAULT, ue, c)
         else
           let names = take (unat buf_len) (um_string um)
           in if \<not> names_valid (unat (ei_items (ue_info ue))) names then (- EINVAL, ue, c)
              else (0, ue\<lparr>ue_names := Some names, ue_info := (ue_info ue)\<lparr>ei_names_ptr := 0\<rparr>\<rparr>, c\<lparr>ca_user_alloc := ca_user_alloc c + buf_len\<rparr>))"

text \<open>The element as it is handed to the insertion.\<close>

definition user_control :: "elem_info \<Rightarrow> u32 \<Rightarrow> user_element \<Rightarrow> kcontrol \<Rightarrow> kcontrol" where
  "user_control info access ue k =
     k\<lparr>kc_user := Some ue, kc_info := (if ei_type info = TYPE_ENUMERATED then User_enum_call else User_call),
       kc_get := (if access AND ACCESS_READ \<noteq> 0 then Some User_call else None), kc_put := (if access AND ACCESS_WRITE \<noteq> 0 then Some User_call else None),
       kc_tlv := (if access AND ACCESS_TLV_WRITE \<noteq> 0 then Tlv_call User_call else No_tlv)\<rparr>"

definition user_access :: "u32 \<Rightarrow> u32" where
  "user_access a =
     (let access = (if a = 0 then ACCESS_READ OR ACCESS_WRITE else a) AND (ACCESS_READ OR ACCESS_WRITE OR ACCESS_INACTIVE OR ACCESS_TLV_WRITE);
          access = (if access AND ACCESS_TLV_WRITE \<noteq> 0 then access OR ACCESS_TLV_CALLBACK else access)
      in access OR ACCESS_USER)"

definition snd_ctl_elem_add ::
  "event_mem \<Rightarrow> 'd ctl_driver \<Rightarrow> user_memory \<Rightarrow> nat \<Rightarrow> elem_info \<Rightarrow> bool \<Rightarrow> ctl_card \<times> 'd \<Rightarrow> int \<times> elem_info \<times> ctl_card \<times> 'd" where
  "snd_ctl_elem_add mem drv um file info replace st =
     (if id_name (ei_id info) = [] then (- EINVAL, info, st)
      else if length (id_name (ei_id info)) \<ge> 44 then (- EINVAL, info, st)
      else
        let info = (if replace then info\<lparr>ei_id := (ei_id info)\<lparr>id_numid := 0\<rparr>\<rparr> else info);
            (err, st) = (if replace then snd_ctl_remove_user_ctl mem drv file (ei_id info) st else (0, st));
            cnt = (if ei_owner info = 0 then 1 else word_of_int (ei_owner info)); access = user_access (ei_access info);
            err2 = snd_ctl_check_elem_info info;
            private_size = value_sizes ! nat (ei_type info) * ei_count info; alloc_size = compute_user_elem_size private_size cnt;
            (err3, new) = snd_ctl_new (um_control um) cnt access file
        in if err \<noteq> 0 then (err, info, st)
           else if err2 < 0 then (err2, info, st)
           else if ei_count info < 1 then (- EINVAL, info, st)
           else if check_user_elem_overflow (fst st) alloc_size then (- ENOMEM, info, st)
           else
             case new of
               None \<Rightarrow> (err3, info, st)
             | Some k \<Rightarrow>
                 if \<not> um_data um then (- ENOMEM, info, st)
                 else
                   let c = (fst st)\<lparr>ca_user_alloc := ca_user_alloc (fst st) + alloc_size\<rparr>;
                       ue = \<lparr>ue_info = info\<lparr>ei_access := 0\<rparr>, ue_data = replicate (unat (private_size * cnt)) 0, ue_data_size = private_size,
                         ue_tlv = None, ue_tlv_size = 0, ue_names = None\<rparr>;
                       (err, ue, c) = (if ei_type info = TYPE_ENUMERATED then snd_ctl_elem_init_enum_names um ue c else (0, ue, c));
                       k = (user_control info access ue k)\<lparr>kc_id := ei_id info, kc_free := Some User_call\<rparr>
                   in if err < 0 then (err, info, snd_ctl_free_one drv k (c, snd st))
                      else
                        let (err, st) = ctl_add_replace mem drv k CTL_ADD_EXCLUSIVE (c, snd st)
                        in if err < 0 then (err, info, snd_ctl_free_one drv k st)
                           else
                             let k = last (ca_controls (fst st))
                             in (err, info\<lparr>ei_id := snd_ctl_build_ioff k (snd_ctl_get_ioff k (ei_id info))\<rparr>, st))"

definition snd_ctl_elem_add_user ::
  "event_mem \<Rightarrow> 'd ctl_driver \<Rightarrow> user_memory \<Rightarrow> bool \<Rightarrow> bool \<Rightarrow> nat \<Rightarrow> elem_info \<Rightarrow> bool \<Rightarrow> ctl_card \<times> 'd \<Rightarrow> int \<times> elem_info \<times> ctl_card \<times> 'd" where
  "snd_ctl_elem_add_user mem drv um bad_in bad_out file info replace st =
     (if bad_in then (- EFAULT, info, st)
      else
        let (err, out, st) = snd_ctl_elem_add mem drv um file info replace st
        in if err < 0 then (err, info, st)
           else if bad_out then (- EFAULT, info, snd (snd_ctl_remove_user_ctl mem drv file (ei_id out) st))
           else (0, out, st))"

definition snd_ctl_elem_remove :: "event_mem \<Rightarrow> 'd ctl_driver \<Rightarrow> bool \<Rightarrow> nat \<Rightarrow> elem_id \<Rightarrow> ctl_card \<times> 'd \<Rightarrow> int \<times> ctl_card \<times> 'd" where
  "snd_ctl_elem_remove mem drv bad_in file i st = (if bad_in then (- EFAULT, st) else snd_ctl_remove_user_ctl mem drv file i st)"

section \<open>TLV data\<close>

abbreviation (input) TLV_OP_READ :: int where "TLV_OP_READ \<equiv> 0"
abbreviation (input) TLV_OP_WRITE :: int where "TLV_OP_WRITE \<equiv> 1"
abbreviation (input) TLV_OP_CMD :: int where "TLV_OP_CMD \<equiv> - 1"

text \<open>A client's buffer: whether there is memory for a copy, whether access to it faults, and its contents.\<close>

record tlv_buffer =
  tb_mem :: bool
  tb_bad :: bool
  tb_bytes :: "u8 list"

definition replace_user_tlv :: "event_mem \<Rightarrow> 'd ctl_driver \<Rightarrow> nat \<Rightarrow> tlv_buffer \<Rightarrow> u32 \<Rightarrow> ctl_card \<times> 'd \<Rightarrow> int \<times> ctl_card \<times> 'd" where
  "replace_user_tlv mem drv n buf sz st =
     (let (c, d) = st; k = ca_controls c ! n; ue = the (kc_user k)
      in if sz > 1024 * 128 then (- EINVAL, st)
         else if check_user_elem_overflow c (sz - ue_tlv_size ue) then (- ENOMEM, st)
         else if \<not> tb_mem buf then (- ENOMEM, st)
         else if tb_bad buf \<or> length (tb_bytes buf) < unat sz then (- EFAULT, st)
         else
           let container = take (unat sz) (tb_bytes buf)
           in if ue_tlv_size ue = sz \<and> (case ue_tlv ue of None \<Rightarrow> sz = 0 | Some t \<Rightarrow> t = container) then (0, st)
              else
                let (vds, mk, alloc) = (case ue_tlv ue of
                      None \<Rightarrow> (map (\<lambda>vd. vd\<lparr>vd_access := vd_access vd OR ACCESS_TLV_READ\<rparr>) (kc_vd k), MASK_INFO, ca_user_alloc c)
                    | Some _ \<Rightarrow> (kc_vd k, 0, ca_user_alloc c - ue_tlv_size ue));
                    k = k\<lparr>kc_user := Some (ue\<lparr>ue_tlv := Some container, ue_tlv_size := sz\<rparr>), kc_vd := vds\<rparr>
                in (1, notify_all mem drv (mk OR MASK_TLV) k ((put_control n k c)\<lparr>ca_user_alloc := alloc + sz\<rparr>, d)))"

definition read_user_tlv :: "kcontrol \<Rightarrow> tlv_buffer \<Rightarrow> u32 \<Rightarrow> int \<times> u8 list" where
  "read_user_tlv k buf sz =
     (let ue = the (kc_user k)
      in case ue_tlv ue of
           None \<Rightarrow> (- ENXIO, [])
         | Some t \<Rightarrow>
             if ue_tlv_size ue = 0 then (- ENXIO, [])
             else if sz < ue_tlv_size ue then (- ENOSPC, [])
             else if tb_bad buf then (- EFAULT, [])
             else (0, t))"

definition snd_ctl_elem_user_tlv ::
  "event_mem \<Rightarrow> 'd ctl_driver \<Rightarrow> nat \<Rightarrow> int \<Rightarrow> u32 \<Rightarrow> tlv_buffer \<Rightarrow> ctl_card \<times> 'd \<Rightarrow> int \<times> u8 list \<times> ctl_card \<times> 'd" where
  "snd_ctl_elem_user_tlv mem drv n op sz buf st =
     (if op = TLV_OP_WRITE then (let (ret, st) = replace_user_tlv mem drv n buf sz st in (ret, [], st))
      else let (ret, out) = read_user_tlv (ca_controls (fst st) ! n) buf sz in (ret, out, st))"

definition call_tlv_handler ::
  "event_mem \<Rightarrow> 'd ctl_driver \<Rightarrow> int \<Rightarrow> nat \<Rightarrow> int \<Rightarrow> nat \<Rightarrow> elem_id \<Rightarrow> tlv_buffer \<Rightarrow> u32 \<Rightarrow> ctl_card \<times> 'd \<Rightarrow> (int \<times> u8 list \<times> ctl_card \<times> 'd) option" where
  "call_tlv_handler mem drv pw file op n i buf sz st =
     (let k = ca_controls (fst st) ! n
      in case vd_at k (snd_ctl_get_ioff k i) of
           None \<Rightarrow> None
         | Some vd \<Rightarrow>
             if \<not> (op = TLV_OP_READ \<and> vd_access vd AND ACCESS_TLV_READ \<noteq> 0 \<or> op = TLV_OP_WRITE \<and> vd_access vd AND ACCESS_TLV_WRITE \<noteq> 0 \<or>
                  op = TLV_OP_CMD \<and> vd_access vd AND ACCESS_TLV_COMMAND \<noteq> 0)
             then Some (- ENXIO, [], st)
             else if kc_tlv k = No_tlv then Some (- ENXIO, [], st)
             else if op \<noteq> TLV_OP_READ \<and> vd_owner vd \<noteq> 0 \<and> vd_owner vd \<noteq> file then Some (- EPERM, [], st)
             else if pw \<noteq> 0 then Some (pw, [], st)
             else
               case kc_tlv k of
                 Tlv_call (Driver_call f) \<Rightarrow> (let (ret, out, d) = dr_tlv drv f k op sz (tb_bytes buf) (snd st) in Some (ret, out, fst st, d))
               | Tlv_call _ \<Rightarrow> Some (snd_ctl_elem_user_tlv mem drv n op sz buf st)
               | _ \<Rightarrow> None)"

text \<open>A table that is shorter than the length it states, or a handler taken for a table, is an access outside of it.\<close>

definition read_tlv_buf :: "kcontrol \<Rightarrow> elem_id \<Rightarrow> tlv_buffer \<Rightarrow> u32 \<Rightarrow> (int \<times> u8 list) option" where
  "read_tlv_buf k i buf sz =
     (case vd_at k (snd_ctl_get_ioff k i) of
        None \<Rightarrow> None
      | Some vd \<Rightarrow>
          if vd_access vd AND ACCESS_TLV_READ = 0 then Some (- ENXIO, [])
          else
            case kc_tlv k of
              No_tlv \<Rightarrow> Some (- ENXIO, [])
            | Tlv_call _ \<Rightarrow> None
            | Tlv_table p \<Rightarrow>
                let bytes = concat (map (\<lambda>w. map (\<lambda>j. ucast (drop_bit (8 * j) w)) [0..<4]) p); len = 8 + p ! 1
                in if length p < 2 then None
                   else if sz < len then Some (- ENOMEM, [])
                   else if length bytes < unat len then None
                   else if tb_bad buf then Some (- EFAULT, [])
                   else Some (0, take (unat len) bytes))"

definition snd_ctl_tlv_ioctl ::
  "event_mem \<Rightarrow> 'd ctl_driver \<Rightarrow> int \<Rightarrow> nat \<Rightarrow> bool \<Rightarrow> u32 \<Rightarrow> u32 \<Rightarrow> tlv_buffer \<Rightarrow> int \<Rightarrow> ctl_card \<times> 'd \<Rightarrow> (int \<times> u8 list \<times> ctl_card \<times> 'd) option" where
  "snd_ctl_tlv_ioctl mem drv pw file bad_in numid sz buf op st =
     (if bad_in then Some (- EFAULT, [], st)
      else if numid = 0 then Some (- EINVAL, [], st)
      else if sz < 8 then Some (- EINVAL, [], st)
      else
        case snd_ctl_find_numid (fst st) numid of
          None \<Rightarrow> Some (- ENOENT, [], st)
        | Some n \<Rightarrow>
            let k = ca_controls (fst st) ! n; i = snd_ctl_build_ioff k (numid - id_numid (kc_id k))
            in case vd_at k (snd_ctl_get_ioff k i) of
                 None \<Rightarrow> None
               | Some vd \<Rightarrow>
                   if vd_access vd AND ACCESS_TLV_CALLBACK \<noteq> 0 then call_tlv_handler mem drv pw file op n i buf sz st
                   else if op = TLV_OP_READ then map_option (\<lambda>(ret, out). (ret, out, st)) (read_tlv_buf k i buf sz)
                   else Some (- ENXIO, [], st))"

end
