(* ===== verification/ControlNumbering.thy ===== *)
theory ControlNumbering
  imports Control
begin

text \<open>
  What the numbering of elements rests on: the ranges of numeric ids of the controls of a card stay apart and do not
  wrap around, a range for a new control is found, and the list of elements is a window on all of them.
\<close>

section \<open>The list of elements\<close>

definition elem_ids :: "kcontrol \<Rightarrow> elem_id list" where
  "elem_ids k = map (\<lambda>n. snd_ctl_build_ioff k (of_nat n)) [0..<unat (kc_count k)]"

definition all_ids :: "kcontrol list \<Rightarrow> elem_id list" where
  "all_ids ks = concat (map elem_ids ks)"

text \<open>Ids copied one after the other, to the first that faults.\<close>

fun copy_ids :: "(nat \<Rightarrow> bool) \<Rightarrow> elem_id list \<Rightarrow> elem_id list \<Rightarrow> int \<times> elem_id list" where
  "copy_ids bad ids [] = (0, ids)"
| "copy_ids bad ids (x # xs) = (if bad (length ids) then (- EFAULT, ids) else copy_ids bad (ids @ [x]) xs)"

lemma length_elem_ids [simp]: "length (elem_ids k) = unat (kc_count k)"
  by (simp add: elem_ids_def)

lemma nth_elem_ids: "n < unat (kc_count k) \<Longrightarrow> elem_ids k ! n = snd_ctl_build_ioff k (of_nat n)"
  by (simp add: elem_ids_def)

lemma all_ids_simps [simp]: "all_ids [] = []" "all_ids (k # ks) = elem_ids k @ all_ids ks" "all_ids (ks @ js) = all_ids ks @ all_ids js"
  by (simp_all add: all_ids_def)

lemma copy_ids_append:
  "copy_ids bad ids (xs @ ys) = (let (err, out) = copy_ids bad ids xs in if err \<noteq> 0 then (err, out) else copy_ids bad out ys)"
  by (induction bad ids xs rule: copy_ids.induct) auto

lemma copy_ids_err: "fst (copy_ids bad ids xs) \<noteq> 0 \<Longrightarrow> fst (copy_ids bad ids xs) = - EFAULT"
  by (induction bad ids xs rule: copy_ids.induct) (auto split: if_splits)

lemma unat_pred: "x \<noteq> 0 \<Longrightarrow> unat (x - 1) = unat x - 1" for x :: u32
  by (rule unat_pred_no_wrap)

lemma list_control_copies:
  assumes "list_control bad k j space ids = (err, stop, sp, out)" "space \<noteq> 0"
  shows "copy_ids bad ids (take (unat space) (drop (unat j) (elem_ids k))) = (err, out) \<and>
    (stop \<longleftrightarrow> err \<noteq> 0 \<or> unat space \<le> unat (kc_count k) - unat j) \<and> (\<not> stop \<longrightarrow> unat sp = unat space - (unat (kc_count k) - unat j))"
  using assms
proof (induction bad k j space ids rule: list_control.induct)
  case (1 bad k j space ids)
  show ?case
  proof (cases "j < kc_count k")
    case False
    then show ?thesis using 1 (2,3) by (simp add: list_control.simps [of _ _ j] word_less_nat_alt unat_eq_0)
  next
    case True
    let ?x = "snd_ctl_build_ioff k j"
    have lt: "unat j < unat (kc_count k)" using True by (simp add: word_less_nat_alt)
    have sp: "unat space = Suc (unat (space - 1))" using 1 (3) unat_pred [of space] by (simp add: unat_gt_0)
    have cut: "take (unat space) (drop (unat j) (elem_ids k)) = ?x # take (unat (space - 1)) (drop (unat (j + 1)) (elem_ids k))"
      unfolding sp using lt by (simp add: Cons_nth_drop_Suc [symmetric] nth_elem_ids unat_next [OF True])
    show ?thesis
    proof (cases "bad (length ids)")
      case True
      then show ?thesis unfolding cut using 1 (2) \<open>j < kc_count k\<close> by (simp add: list_control.simps [of _ _ j])
    next
      case False
      show ?thesis
      proof (cases "space - 1 = 0")
        case one: True
        then have "unat space = 1" using sp by simp
        then show ?thesis unfolding cut using 1 (2) \<open>j < kc_count k\<close> False one lt by (auto simp: list_control.simps [of _ _ j] Let_def)
      next
        case more: False
        have eq: "list_control bad k (j + 1) (space - 1) (ids @ [?x]) = (err, stop, sp, out)"
          using 1 (2) True False more by (simp add: list_control.simps [of _ _ j] Let_def)
        from 1 (1) [OF True False refl refl more eq more] show ?thesis unfolding cut using sp lt False
          by (auto simp: unat_next [OF True])
      qed
    qed
  qed
qed

lemma list_controls_copies:
  "space \<noteq> 0 \<Longrightarrow> list_controls bad ks off space ids = copy_ids bad ids (take (unat space) (drop (unat off) (all_ids ks)))"
proof (induction ks arbitrary: off space ids)
  case Nil
  then show ?case by simp
next
  case (Cons k ks)
  show ?case
  proof (cases "kc_count k \<le> off")
    case True
    then have "unat (off - kc_count k) = unat off - unat (kc_count k)" and "unat (kc_count k) \<le> unat off"
      by (simp_all add: unat_sub32 word_le_nat_alt)
    then show ?thesis using True Cons by simp
  next
    case False
    then have lt: "unat off < unat (kc_count k)" by (simp add: word_less_nat_alt not_le)
    obtain err stop sp out where e: "list_control bad k off space ids = (err, stop, sp, out)" by (metis prod_cases4)
    from list_control_copies [OF this Cons.prems]
    have cp: "copy_ids bad ids (take (unat space) (drop (unat off) (elem_ids k))) = (err, out)"
      and st: "stop \<longleftrightarrow> err \<noteq> 0 \<or> unat space \<le> unat (kc_count k) - unat off" and rest: "\<not> stop \<Longrightarrow> unat sp = unat space - (unat (kc_count k) - unat off)"
      by blast+
    have split: "take (unat space) (drop (unat off) (all_ids (k # ks))) =
        take (unat space) (drop (unat off) (elem_ids k)) @ take (unat space - (unat (kc_count k) - unat off)) (all_ids ks)"
      using lt by simp
    show ?thesis
    proof (cases stop)
      case True
      then show ?thesis unfolding split copy_ids_append cp using e False st by auto
    next
      case go: False
      then have "sp \<noteq> 0" and "err = 0" using st rest by (auto simp: unat_eq_0 [symmetric])
      with Cons.IH [of sp 0 out] show ?thesis unfolding split copy_ids_append cp using e False go rest by simp
    qed
  qed
qed

text \<open>
  C34. Listing copies exactly the requested window of the elements of the card.
\<close>

theorem list_is_window:
  "snd_ctl_elem_list bad off space c =
     (let (err, ids) = copy_ids bad [] (take (unat space) (drop (unat off) (all_ids (ca_controls c)))) in (err, ca_count c, ids))"
  by (cases "space = 0") (simp_all add: snd_ctl_elem_list_def list_controls_copies word_neq_0_conv)

section \<open>Ranges of numeric ids\<close>

definition first_num :: "kcontrol \<Rightarrow> nat" where
  "first_num k = unat (id_numid (kc_id k))"

definition end_num :: "kcontrol \<Rightarrow> nat" where
  "end_num k = unat (id_numid (kc_id k)) + unat (kc_count k)"

definition clash :: "kcontrol \<Rightarrow> kcontrol \<Rightarrow> bool" where
  "clash j k \<longleftrightarrow> first_num j < end_num k \<and> first_num k < end_num j"

primrec apart :: "kcontrol list \<Rightarrow> bool" where
  "apart [] = True"
| "apart (k # ks) = ((\<forall>j\<in>set ks. \<not> clash k j) \<and> apart ks)"

text \<open>A control as it is made: with some elements, and a volatile part for each.\<close>

definition sound_control :: "kcontrol \<Rightarrow> bool" where
  "sound_control k \<longleftrightarrow> kc_count k \<noteq> 0 \<and> unat (kc_count k) \<le> 1028 \<and> length (kc_vd k) = unat (kc_count k)"

definition placed_control :: "kcontrol \<Rightarrow> bool" where
  "placed_control k \<longleftrightarrow> sound_control k \<and> id_numid (kc_id k) \<noteq> 0 \<and> end_num k \<le> 4294967295 \<and> unat (id_index (kc_id k)) + unat (kc_count k) \<le> 4294967295"

definition numbered :: "ctl_card \<Rightarrow> bool" where
  "numbered c \<longleftrightarrow> (\<forall>k\<in>set (ca_controls c). placed_control k) \<and> apart (ca_controls c)"

lemma clash_sym: "clash j k \<longleftrightarrow> clash k j"
  by (auto simp: clash_def)

lemma apart_append: "apart (xs @ ys) \<longleftrightarrow> apart xs \<and> apart ys \<and> (\<forall>j\<in>set xs. \<forall>k\<in>set ys. \<not> clash j k)"
  by (induction xs) auto

lemma apart_delete: "apart xs \<Longrightarrow> apart (take n xs @ drop (Suc n) xs)"
proof (induction xs arbitrary: n)
  case (Cons x xs)
  then show ?case by (cases n) (auto dest: in_set_takeD in_set_dropD)
qed simp

lemma set_delete: "x \<in> set (take n xs @ drop (Suc n) xs) \<Longrightarrow> x \<in> set xs"
  by (auto dest: in_set_takeD in_set_dropD)

lemma apart_nth: "\<lbrakk>apart xs; i < length xs; j < length xs; i \<noteq> j\<rbrakk> \<Longrightarrow> \<not> clash (xs ! i) (xs ! j)"
proof (induction xs arbitrary: i j)
  case (Cons x xs)
  then show ?case by (cases i; cases j) (auto simp: clash_sym)
qed simp

lemma apart_cong: "map (\<lambda>k. (first_num k, end_num k)) xs = map (\<lambda>k. (first_num k, end_num k)) ys \<Longrightarrow> apart xs \<longleftrightarrow> apart ys"
proof (induction xs arbitrary: ys)
  case (Cons x xs)
  then obtain y zs where ys: "ys = y # zs" and xy: "first_num x = first_num y" "end_num x = end_num y"
    and t: "map (\<lambda>k. (first_num k, end_num k)) xs = map (\<lambda>k. (first_num k, end_num k)) zs" by auto
  have "(\<forall>j\<in>set vs. \<not> clash z j) \<longleftrightarrow> (\<forall>(f, e)\<in>set (map (\<lambda>k. (first_num k, end_num k)) vs). \<not> (first_num z < e \<and> f < end_num z))" for z vs
    by (auto simp: clash_def)
  then show ?case using Cons.IH [OF t] unfolding ys apart.simps by (simp only: t xy)
qed simp

text \<open>The word comparisons of the code are those of the ranges.\<close>

lemma placed_bounds:
  assumes "placed_control k"
  shows "0 < first_num k" "first_num k < end_num k" "end_num k \<le> 4294967295" "end_num k = first_num k + unat (kc_count k)"
    "unat (id_numid (kc_id k) + kc_count k) = end_num k" "unat (kc_count k) \<le> 1028" "0 < unat (kc_count k)"
  using assms by (auto simp: placed_control_def sound_control_def first_num_def end_num_def unat_add32 unat_gt_0)

lemma overlaps_clash:
  assumes "placed_control k" "unat l + 1 + unat cnt \<le> 4294967295"
  shows "overlaps l cnt k \<longleftrightarrow> first_num k < unat l + 1 + unat cnt \<and> unat l + 1 < end_num k"
proof -
  have "unat (l + 1 + cnt) = unat l + 1 + unat cnt" and "unat (l + 1) = unat l + 1" using assms(2) by (simp_all add: unat_add32)
  then show ?thesis using placed_bounds [OF assms(1)] by (simp add: overlaps_def word_less_nat_alt first_num_def)
qed

section \<open>Finding a range\<close>

text \<open>The last number as the search begins: it starts again from 0 near the end.\<close>

definition start_num :: "u32 \<Rightarrow> u32 \<Rightarrow> u32" where
  "start_num cnt l = (if l \<ge> UINT_MAX - cnt then 0 else l)"

lemma start_num_room: "unat cnt \<le> 1028 \<Longrightarrow> unat (start_num cnt l) + 1 + unat cnt \<le> 4294967295"
  by (auto simp: start_num_def u32_arith)

lemma conflict_cases:
  obtains "find (overlaps (start_num cnt (ca_last_numid c)) cnt) (ca_controls c) = None"
      "snd_ctl_remove_numid_conflict cnt c = (False, c\<lparr>ca_last_numid := start_num cnt (ca_last_numid c)\<rparr>)"
    | k where "find (overlaps (start_num cnt (ca_last_numid c)) cnt) (ca_controls c) = Some k" "k \<in> set (ca_controls c)"
      "overlaps (start_num cnt (ca_last_numid c)) cnt k"
      "snd_ctl_remove_numid_conflict cnt c = (True, c\<lparr>ca_last_numid := id_numid (kc_id k) + kc_count k - 1\<rparr>)"
proof (cases "find (overlaps (start_num cnt (ca_last_numid c)) cnt) (ca_controls c)")
  case None
  then show thesis by (intro that(1)) (auto simp: snd_ctl_remove_numid_conflict_def start_num_def Let_def)
next
  case (Some k)
  then have "k \<in> set (ca_controls c)" "overlaps (start_num cnt (ca_last_numid c)) cnt k" by (auto simp: find_Some_iff)
  with Some show thesis by (intro that(2)) (auto simp: snd_ctl_remove_numid_conflict_def start_num_def Let_def)
qed

text \<open>The search changes nothing but the last number; when it succeeds the range after it is free and does not wrap.\<close>

definition free_range :: "u32 \<Rightarrow> ctl_card \<Rightarrow> bool" where
  "free_range cnt c \<longleftrightarrow> unat (ca_last_numid c) + 1 + unat cnt \<le> 4294967295 \<and>
     (\<forall>k\<in>set (ca_controls c). end_num k \<le> unat (ca_last_numid c) + 1 \<or> unat (ca_last_numid c) + 1 + unat cnt \<le> first_num k)"

lemma no_conflict_free:
  assumes "find (overlaps l cnt) ks = None" "\<forall>k\<in>set ks. placed_control k" "unat l + 1 + unat cnt \<le> 4294967295" "k \<in> set ks"
  shows "end_num k \<le> unat l + 1 \<or> unat l + 1 + unat cnt \<le> first_num k"
  using assms overlaps_clash [of k l cnt] by (auto simp: find_None_iff not_less)

declare find_hole_loop.simps [simp del]

lemma find_hole_loop_spec:
  assumes "find_hole_loop iter cnt c = (err, c')" "\<forall>k\<in>set (ca_controls c). placed_control k" "unat cnt \<le> 1028"
  shows "c' = c\<lparr>ca_last_numid := ca_last_numid c'\<rparr> \<and> (err = 0 \<and> free_range cnt c' \<or> err = - ENOMEM)"
  using assms
proof (induction iter cnt c rule: find_hole_loop.induct)
  case (1 iter cnt c)
  show ?case
  proof (rule conflict_cases [of cnt c])
    assume n: "find (overlaps (start_num cnt (ca_last_numid c)) cnt) (ca_controls c) = None"
      and e: "snd_ctl_remove_numid_conflict cnt c = (False, c\<lparr>ca_last_numid := start_num cnt (ca_last_numid c)\<rparr>)"
    have "c' = c\<lparr>ca_last_numid := start_num cnt (ca_last_numid c)\<rparr>" "err = 0"
      using 1(2) unfolding find_hole_loop.simps [of iter] by (simp_all add: e)
    moreover have "free_range cnt (c\<lparr>ca_last_numid := start_num cnt (ca_last_numid c)\<rparr>)"
      using no_conflict_free [OF n 1(3) start_num_room [OF 1(4)]] start_num_room [OF 1(4)] by (auto simp: free_range_def)
    ultimately show ?case by simp
  next
    fix k
    assume e: "snd_ctl_remove_numid_conflict cnt c = (True, c\<lparr>ca_last_numid := id_numid (kc_id k) + kc_count k - 1\<rparr>)"
    show ?case
    proof (cases "iter \<le> 1")
      case True
      then have "iter = 0 \<or> iter = Suc 0" by linarith
      then have "(- ENOMEM, c\<lparr>ca_last_numid := id_numid (kc_id k) + kc_count k - 1\<rparr>) = (err, c')"
        using 1(2) unfolding find_hole_loop.simps [of iter] by (auto simp: e)
      then show ?thesis by auto
    next
      case False
      then obtain m where m: "iter = Suc (Suc m)" by (metis Suc_le_eq Suc_le_mono not_less not0_implies_Suc One_nat_def le0 nat_le_linear)
      let ?c = "c\<lparr>ca_last_numid := id_numid (kc_id k) + kc_count k - 1\<rparr>"
      have r: "find_hole_loop (Suc m) cnt ?c = (err, c')" using 1(2) unfolding find_hole_loop.simps [of iter] by (simp add: e m)
      from 1(1) [OF refl e [symmetric] _ m refl r] 1(3,4) have "c' = ?c\<lparr>ca_last_numid := ca_last_numid c'\<rparr> \<and> (err = 0 \<and> free_range cnt c' \<or> err = - ENOMEM)"
        by simp
      then show ?thesis by simp
    qed
  qed
qed

lemmas find_hole_spec = find_hole_loop_spec [of 100000, folded snd_ctl_find_hole_def]

text \<open>Each conflict leaves one more control behind the last number, and after a fresh start the numbers passed stay few.\<close>

definition ahead :: "kcontrol list \<Rightarrow> u32 \<Rightarrow> nat" where
  "ahead ks l = length (filter (\<lambda>k. unat l + 1 < end_num k) ks)"

lemma ahead_le: "ahead ks l \<le> length ks"
  by (simp add: ahead_def)

lemma filter_less: "\<lbrakk>\<forall>x\<in>set xs. P x \<longrightarrow> Q x; y \<in> set xs; Q y; \<not> P y\<rbrakk> \<Longrightarrow> length (filter P xs) < length (filter Q xs)"
proof (induction xs)
  case (Cons x xs)
  have le: "length (filter P xs) \<le> length (filter Q xs)" using Cons.prems(1)
    by (induction xs) auto
  show ?case
  proof (cases "y = x")
    case True
    then show ?thesis using Cons.prems le by auto
  next
    case False
    then show ?thesis using Cons.IH Cons.prems by auto
  qed
qed simp

lemma conflict_step:
  assumes "\<forall>k\<in>set (ca_controls c). placed_control k" "unat cnt \<le> 1028" "unat l + 1 + unat cnt \<le> 4294967295"
    "k \<in> set (ca_controls c)" "overlaps l cnt k"
  defines "l' \<equiv> id_numid (kc_id k) + kc_count k - 1"
  shows "ahead (ca_controls c) l' < ahead (ca_controls c) l" "unat l' \<le> unat l + 2056"
proof -
  have p: "placed_control k" using assms(1,4) by blast
  from overlaps_clash [OF p assms(3)] assms(5)
  have ov: "first_num k < unat l + 1 + unat cnt" "unat l + 1 < end_num k" by auto
  have "unat l' = end_num k - 1" unfolding l'_def using placed_bounds [OF p] by (simp add: unat_sub32)
  then have l': "unat l' + 1 = end_num k" using placed_bounds [OF p] by simp
  show "unat l' \<le> unat l + 2056" using l' ov assms(2) placed_bounds [OF p] by linarith
  show "ahead (ca_controls c) l' < ahead (ca_controls c) l" unfolding ahead_def
    by (rule filter_less [OF _ assms(4)]) (use l' ov in auto)
qed

lemma hole_found_low:
  assumes "\<forall>k\<in>set (ca_controls c). placed_control k" "unat cnt \<le> 1028" "length (ca_controls c) \<le> 1000000"
    "unat (ca_last_numid c) + 2056 * ahead (ca_controls c) (ca_last_numid c) \<le> 2056 * length (ca_controls c)"
    "ahead (ca_controls c) (ca_last_numid c) < iter"
  shows "fst (find_hole_loop iter cnt c) = 0"
  using assms
proof (induction iter cnt c rule: find_hole_loop.induct)
  case (1 iter cnt c)
  have "unat (ca_last_numid c) \<le> 2056 * length (ca_controls c)" using 1(5) by linarith
  then have low: "unat (ca_last_numid c) \<le> 2056000000" using 1(4) by linarith
  have st: "start_num cnt (ca_last_numid c) = ca_last_numid c" using low 1(3) by (auto simp: start_num_def u32_arith)
  show ?case
  proof (rule conflict_cases [of cnt c])
    assume "snd_ctl_remove_numid_conflict cnt c = (False, c\<lparr>ca_last_numid := start_num cnt (ca_last_numid c)\<rparr>)"
    then show ?case unfolding find_hole_loop.simps [of iter] by simp
  next
    fix k
    assume k: "k \<in> set (ca_controls c)" "overlaps (start_num cnt (ca_last_numid c)) cnt k"
      and e: "snd_ctl_remove_numid_conflict cnt c = (True, c\<lparr>ca_last_numid := id_numid (kc_id k) + kc_count k - 1\<rparr>)"
    have room: "unat (ca_last_numid c) + 1 + unat cnt \<le> 4294967295" using low 1(3) by linarith
    note step = conflict_step [OF 1(2,3) room k [unfolded st]]
    then obtain m where m: "iter = Suc (Suc m)" using 1(6) by (metis Suc_lessE less_Suc_eq_0_disj less_antisym not_less_eq not0_implies_Suc zero_less_Suc less_zeroE)
    have "fst (find_hole_loop (Suc m) cnt (c\<lparr>ca_last_numid := id_numid (kc_id k) + kc_count k - 1\<rparr>)) = 0"
      by (rule 1(1) [OF refl e [symmetric] _ m refl]) (use 1(2,3,4,5,6) step m in auto)
    then show ?case unfolding find_hole_loop.simps [of iter] by (simp add: e m)
  qed
qed

lemma hole_found:
  assumes "\<forall>k\<in>set (ca_controls c). placed_control k" "unat cnt \<le> 1028" "length (ca_controls c) \<le> 1000000"
    "ahead (ca_controls c) (ca_last_numid c) + length (ca_controls c) < iter"
  shows "fst (find_hole_loop iter cnt c) = 0"
  using assms
proof (induction iter cnt c rule: find_hole_loop.induct)
  case (1 iter cnt c)
  show ?case
  proof (cases "ca_last_numid c \<ge> UINT_MAX - cnt")
    case True
    have al: "ahead (ca_controls c) 0 \<le> length (ca_controls c)" by (rule ahead_le)
    have eq: "snd_ctl_remove_numid_conflict cnt c = snd_ctl_remove_numid_conflict cnt (c\<lparr>ca_last_numid := 0\<rparr>)"
    proof -
      have "\<not> (0 :: u32) \<ge> UINT_MAX - cnt" using 1(3) by (auto simp: u32_arith)
      then show ?thesis using True by (simp add: snd_ctl_remove_numid_conflict_def)
    qed
    have "fst (find_hole_loop iter cnt (c\<lparr>ca_last_numid := 0\<rparr>)) = 0"
      by (rule hole_found_low) (use 1(2,3,4,5) al in auto)
    then show ?thesis unfolding find_hole_loop.simps [of iter] by (simp add: eq)
  next
    case False
    then have st: "start_num cnt (ca_last_numid c) = ca_last_numid c" by (simp add: start_num_def)
    show ?thesis
    proof (rule conflict_cases [of cnt c])
      assume "snd_ctl_remove_numid_conflict cnt c = (False, c\<lparr>ca_last_numid := start_num cnt (ca_last_numid c)\<rparr>)"
      then show ?thesis unfolding find_hole_loop.simps [of iter] by simp
    next
      fix k
      assume k: "k \<in> set (ca_controls c)" "overlaps (start_num cnt (ca_last_numid c)) cnt k"
        and e: "snd_ctl_remove_numid_conflict cnt c = (True, c\<lparr>ca_last_numid := id_numid (kc_id k) + kc_count k - 1\<rparr>)"
      have room: "unat (ca_last_numid c) + 1 + unat cnt \<le> 4294967295" using start_num_room [OF 1(3), of "ca_last_numid c"] by (simp add: st)
      note step = conflict_step [OF 1(2,3) room k [unfolded st]]
      have "0 < length (ca_controls c)" using k(1) by (cases "ca_controls c") auto
      then have "1 < iter" using 1(5) step(1) by linarith
      then obtain m where m: "iter = Suc (Suc m)" by (metis One_nat_def Suc_lessE less_imp_Suc_add add_Suc)
      have "fst (find_hole_loop (Suc m) cnt (c\<lparr>ca_last_numid := id_numid (kc_id k) + kc_count k - 1\<rparr>)) = 0"
        by (rule 1(1) [OF refl e [symmetric] _ m refl]) (use 1(2,3,4,5) step m in auto)
      then show ?thesis unfolding find_hole_loop.simps [of iter] by (simp add: e m)
    qed
  qed
qed

text \<open>
  C33. For a card with fewer than fifty thousand controls the search always finds a range of numbers: it is free, it does
  not wrap around, and the search changes nothing else.
\<close>

theorem range_always_found:
  assumes "numbered c" "unat cnt \<le> 1028" "length (ca_controls c) < 50000"
  shows "\<exists>l. snd_ctl_find_hole cnt c = (0, c\<lparr>ca_last_numid := l\<rparr>) \<and> free_range cnt (c\<lparr>ca_last_numid := l\<rparr>)"
proof -
  obtain err c' where e: "snd_ctl_find_hole cnt c = (err, c')" by force
  have p: "\<forall>k\<in>set (ca_controls c). placed_control k" using assms(1) by (simp add: numbered_def)
  have "fst (find_hole_loop 100000 cnt c) = 0"
    by (rule hole_found [OF p assms(2)]) (use assms(3) ahead_le [of "ca_controls c" "ca_last_numid c"] in linarith)+
  then have "err = 0" using e by (simp add: snd_ctl_find_hole_def)
  with find_hole_spec [OF e p assms(2)] have "c' = c\<lparr>ca_last_numid := ca_last_numid c'\<rparr> \<and> free_range cnt c'" by simp
  with e \<open>err = 0\<close> show ?thesis by metis
qed

section \<open>What notification and release keep\<close>

lemma notify_keeps [simp]:
  "ca_controls (snd_ctl_notify mem mk i c) = ca_controls c" "ca_count (snd_ctl_notify mem mk i c) = ca_count c"
  "ca_last_numid (snd_ctl_notify mem mk i c) = ca_last_numid c" "ca_user_alloc (snd_ctl_notify mem mk i c) = ca_user_alloc c"
  by (simp_all add: snd_ctl_notify_def)

lemma notify_one_keeps [simp]:
  "ca_controls (fst (snd_ctl_notify_one mem drv mk k off st)) = ca_controls (fst st)" "ca_count (fst (snd_ctl_notify_one mem drv mk k off st)) = ca_count (fst st)"
  "ca_last_numid (fst (snd_ctl_notify_one mem drv mk k off st)) = ca_last_numid (fst st)"
  "ca_user_alloc (fst (snd_ctl_notify_one mem drv mk k off st)) = ca_user_alloc (fst st)"
  by (simp_all add: snd_ctl_notify_one_def)

lemma fold_keeps: "(\<And>x s. f (g x s) = f s) \<Longrightarrow> f (fold g xs s) = f s"
  by (induction xs arbitrary: s) simp_all

lemma notify_all_keeps [simp]:
  "ca_controls (fst (notify_all mem drv mk k st)) = ca_controls (fst st)" "ca_count (fst (notify_all mem drv mk k st)) = ca_count (fst st)"
  "ca_last_numid (fst (notify_all mem drv mk k st)) = ca_last_numid (fst st)" "ca_user_alloc (fst (notify_all mem drv mk k st)) = ca_user_alloc (fst st)"
  unfolding notify_all_def by (rule fold_keeps; simp)+

lemma free_one_keeps [simp]:
  "ca_controls (fst (snd_ctl_free_one drv k st)) = ca_controls (fst st)" "ca_count (fst (snd_ctl_free_one drv k st)) = ca_count (fst st)"
  "ca_last_numid (fst (snd_ctl_free_one drv k st)) = ca_last_numid (fst st)"
  by (auto simp: snd_ctl_free_one_def snd_ctl_elem_user_free_def Let_def split: option.splits ctl_call.splits)

lemma remove_parts:
  "fst (snd_ctl_remove mem drv n st) = 0"
  "ca_controls (fst (snd (snd_ctl_remove mem drv n st))) = take n (ca_controls (fst st)) @ drop (Suc n) (ca_controls (fst st))"
  "ca_last_numid (fst (snd (snd_ctl_remove mem drv n st))) = ca_last_numid (fst st)"
  "ca_count (fst (snd (snd_ctl_remove mem drv n st))) = ca_count (fst st) - kc_count (ca_controls (fst st) ! n)"
  by (auto simp: snd_ctl_remove_def Let_def split: prod.splits)

lemma insert_parts:
  "ca_controls (fst (insert_control mem drv k st)) =
     ca_controls (fst st) @ [k\<lparr>kc_id := (kc_id k)\<lparr>id_numid := ca_last_numid (fst st) + 1\<rparr>\<rparr>]"
  "ca_user_alloc (fst (insert_control mem drv k st)) = ca_user_alloc (fst st)"
  "ca_count (fst (insert_control mem drv k st)) = ca_count (fst st) + kc_count k"
  by (auto simp: insert_control_def Let_def split: prod.splits)

section \<open>Lookup\<close>

lemma find_index: "find P [0..<n] = Some i \<Longrightarrow> i < n \<and> P i"
  by (auto simp: find_Some_iff)

lemma find_numid_Some:
  assumes "numbered c"
  shows "snd_ctl_find_numid c numid = Some i \<longleftrightarrow>
    i < length (ca_controls c) \<and> first_num (ca_controls c ! i) \<le> unat numid \<and> unat numid < end_num (ca_controls c ! i)"
proof -
  have pl: "placed_control (ca_controls c ! n)" if "n < length (ca_controls c)" for n using that assms by (simp add: numbered_def)
  have q: "(let k = ca_controls c ! n in id_numid (kc_id k) \<le> numid \<and> id_numid (kc_id k) + kc_count k > numid) \<longleftrightarrow>
      first_num (ca_controls c ! n) \<le> unat numid \<and> unat numid < end_num (ca_controls c ! n)" if "n < length (ca_controls c)" for n
    using placed_bounds [OF pl [OF that]] by (simp add: Let_def word_le_nat_alt word_less_nat_alt first_num_def)
  show ?thesis
  proof
    assume "snd_ctl_find_numid c numid = Some i"
    then show "i < length (ca_controls c) \<and> first_num (ca_controls c ! i) \<le> unat numid \<and> unat numid < end_num (ca_controls c ! i)"
      unfolding snd_ctl_find_numid_def using q by (blast dest: find_index)
  next
    assume r: "i < length (ca_controls c) \<and> first_num (ca_controls c ! i) \<le> unat numid \<and> unat numid < end_num (ca_controls c ! i)"
    have "snd_ctl_find_numid c numid \<noteq> None"
      unfolding snd_ctl_find_numid_def find_None_iff using r q [of i] by auto
    then obtain j where j: "snd_ctl_find_numid c numid = Some j" by blast
    then have "j < length (ca_controls c) \<and> first_num (ca_controls c ! j) \<le> unat numid \<and> unat numid < end_num (ca_controls c ! j)"
      unfolding snd_ctl_find_numid_def using q by (blast dest: find_index)
    then have "clash (ca_controls c ! i) (ca_controls c ! j)" using r by (auto simp: clash_def)
    then have "i = j" using apart_nth [of "ca_controls c" i j] assms r \<open>j < length _ \<and> _\<close> by (auto simp: numbered_def)
    then show "snd_ctl_find_numid c numid = Some i" using j by simp
  qed
qed

text \<open>An element that is found has a place in the control.\<close>

lemma find_id_valid:
  assumes "numbered c" "snd_ctl_find_id c i = Some n"
  shows "n < length (ca_controls c)" "unat (snd_ctl_get_ioff (ca_controls c ! n) i) < unat (kc_count (ca_controls c ! n))"
proof -
  have "n < length (ca_controls c) \<and> unat (snd_ctl_get_ioff (ca_controls c ! n) i) < unat (kc_count (ca_controls c ! n))"
  proof (cases "id_numid i = 0")
    case False
    then have "snd_ctl_find_numid c (id_numid i) = Some n" using assms(2) by (simp add: snd_ctl_find_id_def)
    then have f: "n < length (ca_controls c)" "first_num (ca_controls c ! n) \<le> unat (id_numid i)" "unat (id_numid i) < end_num (ca_controls c ! n)"
      using find_numid_Some [OF assms(1)] by auto
    then have "placed_control (ca_controls c ! n)" using assms(1) by (simp add: numbered_def)
    from placed_bounds [OF this] f False show ?thesis by (simp add: snd_ctl_get_ioff_def unat_sub32 first_num_def)
  next
    case True
    then have f: "n < length (ca_controls c)" "id_index (kc_id (ca_controls c ! n)) \<le> id_index i"
        "id_index (kc_id (ca_controls c ! n)) + kc_count (ca_controls c ! n) > id_index i"
      using assms(2) by (auto simp: snd_ctl_find_id_def Let_def dest!: find_index)
    then have "placed_control (ca_controls c ! n)" using assms(1) by (simp add: numbered_def)
    then show ?thesis using f True
      by (auto simp: snd_ctl_get_ioff_def placed_control_def word_le_nat_alt word_less_nat_alt unat_sub32 unat_add32)
  qed
  then show "n < length (ca_controls c)" "unat (snd_ctl_get_ioff (ca_controls c ! n) i) < unat (kc_count (ca_controls c ! n))" by auto
qed

lemma found_volatile:
  assumes "numbered c" "snd_ctl_find_id c i = Some n"
  shows "vd_at (ca_controls c ! n) (snd_ctl_get_ioff (ca_controls c ! n) i) = Some (kc_vd (ca_controls c ! n) ! unat (snd_ctl_get_ioff (ca_controls c ! n) i))"
proof -
  have "placed_control (ca_controls c ! n)" using find_id_valid(1) [OF assms] assms(1) by (simp add: numbered_def)
  then show ?thesis using find_id_valid(2) [OF assms] by (simp add: vd_at_def placed_control_def sound_control_def)
qed

section \<open>Adding and removing keep the numbering\<close>

lemma remove_numbered: "numbered (fst st) \<Longrightarrow> numbered (fst (snd (snd_ctl_remove mem drv n st)))"
  unfolding numbered_def remove_parts by (rule conjI) (auto simp del: set_append set_simps intro: apart_delete dest!: set_delete)

lemma insert_numbered:
  assumes "numbered (fst st)" "sound_control k" "free_range (kc_count k) (fst st)" "id_index (kc_id k) \<le> UINT_MAX - kc_count k"
  shows "numbered (fst (insert_control mem drv k st))"
proof -
  let ?k = "k\<lparr>kc_id := (kc_id k)\<lparr>id_numid := ca_last_numid (fst st) + 1\<rparr>\<rparr>"
  have last: "unat (ca_last_numid (fst st) + 1) = unat (ca_last_numid (fst st)) + 1"
    and room: "unat (ca_last_numid (fst st)) + 1 + unat (kc_count k) \<le> 4294967295"
    using assms(3) by (auto simp: free_range_def unat_add32)
  have f: "first_num ?k = unat (ca_last_numid (fst st)) + 1" and e: "end_num ?k = unat (ca_last_numid (fst st)) + 1 + unat (kc_count k)"
    by (simp_all add: first_num_def end_num_def last)
  have "unat (id_index (kc_id k)) + unat (kc_count k) \<le> 4294967295"
    using assms(4) u32_le_max [of "kc_count k"] unat_sub32 [of "UINT_MAX" "kc_count k"] unfolding word_le_nat_alt unat_UINT_MAX by auto
  moreover have "ca_last_numid (fst st) + 1 \<noteq> 0" using last by (metis Suc_eq_plus1 nat.distinct(1) unat_0)
  ultimately have "placed_control ?k" using assms(2) e room by (simp add: placed_control_def sound_control_def)
  moreover have "\<not> clash j ?k" if "j \<in> set (ca_controls (fst st))" for j
    using that assms(3) unfolding clash_def f e by (auto simp: free_range_def)
  ultimately show ?thesis using assms(1) by (auto simp: numbered_def insert_parts apart_append)
qed

definition numbered_as :: "kcontrol \<Rightarrow> u32 \<Rightarrow> kcontrol" where
  "numbered_as k n = k\<lparr>kc_id := (kc_id k)\<lparr>id_numid := n\<rparr>\<rparr>"

text \<open>The controls that stay when one is added in place of the one found.\<close>

definition kept_controls :: "nat option \<Rightarrow> kcontrol list \<Rightarrow> kcontrol list" where
  "kept_controls old ks = (case old of None \<Rightarrow> ks | Some n \<Rightarrow> take n ks @ drop (Suc n) ks)"

text \<open>What an insertion does, in all of its cases.\<close>

lemma add_replace_result:
  assumes "numbered (fst st)" "sound_control k" "ctl_add_replace mem drv k mode st = (err, st')"
  defines "old \<equiv> snd_ctl_find_id (fst st) (kc_id k)"
  shows "numbered (fst st') \<and>
    (if id_index (kc_id k) > UINT_MAX - kc_count k \<or> old = None \<and> mode = CTL_REPLACE then err = - EINVAL \<and> st' = st
     else if old \<noteq> None \<and> mode = CTL_ADD_EXCLUSIVE then err = - EBUSY \<and> st' = st
     else if err = 0 then \<exists>n. ca_controls (fst st') = kept_controls old (ca_controls (fst st)) @ [numbered_as k n]
     else err = - ENOMEM \<and> ca_controls (fst st') = kept_controls old (ca_controls (fst st))) \<and>
    (length (ca_controls (fst st)) < 50000 \<longrightarrow> err \<noteq> - ENOMEM)"
proof (cases "id_index (kc_id k) > UINT_MAX - kc_count k \<or> old = None \<and> mode = CTL_REPLACE \<or> old \<noteq> None \<and> mode = CTL_ADD_EXCLUSIVE")
  case True
  then show ?thesis using assms(1,3) unfolding old_def by (auto simp: ctl_add_replace_def Let_def split: if_splits)
next
  case False
  define st1 where "st1 = (case old of None \<Rightarrow> st | Some n \<Rightarrow> snd (snd_ctl_remove mem drv n st))"
  have n1: "numbered (fst st1)" unfolding st1_def using assms(1) by (auto intro: remove_numbered split: option.splits)
  have c1: "ca_controls (fst st1) = kept_controls old (ca_controls (fst st))"
    by (auto simp: st1_def kept_controls_def remove_parts split: option.splits)
  have len: "length (ca_controls (fst st1)) \<le> length (ca_controls (fst st))" unfolding c1 by (auto simp: kept_controls_def split: option.splits)
  obtain e c' where h: "snd_ctl_find_hole (kc_count k) (fst st1) = (e, c')" by force
  have small: "unat (kc_count k) \<le> 1028" using assms(2) by (simp add: sound_control_def)
  have "\<forall>k\<in>set (ca_controls (fst st1)). placed_control k" using n1 by (simp add: numbered_def)
  from find_hole_spec [OF h this small]
  have c': "c' = (fst st1)\<lparr>ca_last_numid := ca_last_numid c'\<rparr>" and e: "e = 0 \<and> free_range (kc_count k) c' \<or> e = - ENOMEM" by auto
  have cs: "ca_controls c' = ca_controls (fst st1)" by (subst c') simp
  then have nc: "numbered c'" using n1 by (simp add: numbered_def)
  have r: "(if e < 0 then (- ENOMEM, (c', snd st1)) else (0, insert_control mem drv k (c', snd st1))) = (err, st')"
  proof -
    have "(case old of None \<Rightarrow> (0, st) | Some n \<Rightarrow> snd_ctl_remove mem drv n st) = (0, st1)"
      by (simp add: st1_def prod_eq_iff remove_parts split: option.splits)
    then show ?thesis using assms(3) False h unfolding ctl_add_replace_def old_def [symmetric] Let_def by auto
  qed
  show ?thesis
  proof (cases "e = 0")
    case True
    then have st': "err = 0" "st' = insert_control mem drv k (c', snd st1)" using r by auto
    have "id_index (kc_id k) \<le> UINT_MAX - kc_count k" using False by auto
    with insert_numbered [of "(c', snd st1)" k mem drv] nc assms(2) e True have "numbered (fst st')" unfolding st' by auto
    moreover have "ca_controls (fst st') = kept_controls old (ca_controls (fst st)) @ [numbered_as k (ca_last_numid c' + 1)]"
      unfolding st' by (simp add: insert_parts cs c1 numbered_as_def)
    ultimately show ?thesis using False st'(1) by auto
  next
    case bad: False
    then have st': "err = - ENOMEM" "st' = (c', snd st1)" using r e by auto
    have "\<not> length (ca_controls (fst st)) < 50000" using range_always_found [OF n1 small] len h bad by fastforce
    then show ?thesis using False st' nc cs c1 by auto
  qed
qed

text \<open>
  C6. Adding a control (of 1 to 1028 elements, to a card with fewer than fifty thousand controls) keeps the numbers of all controls
  apart and free of wrap-around. It is refused with \<^verbatim>\<open>-EINVAL\<close> when its index plus its number of elements would wrap around, and with
  \<^verbatim>\<open>-EBUSY\<close> when \<^verbatim>\<open>snd_ctl_find_id\<close> finds a control under its identity: the whole identity when its number is 0, as
  \<^verbatim>\<open>snd_ctl_new\<close> leaves it, but the number alone when one has been set before. Otherwise the insertion succeeds: the new control
  comes last, with numbers of its own under which its elements, and only they, are found.
\<close>

theorem add_control:
  assumes "numbered (fst st)" "sound_control k" "length (ca_controls (fst st)) < 50000" "snd_ctl_add mem drv (Some k) st = (err, st')"
  shows "numbered (fst st') \<and>
    (if id_index (kc_id k) > UINT_MAX - kc_count k then err = - EINVAL
     else if snd_ctl_find_id (fst st) (kc_id k) \<noteq> None then err = - EBUSY
     else err = 0 \<and> (\<exists>n. ca_controls (fst st') = ca_controls (fst st) @ [numbered_as k n] \<and>
       (\<forall>m. snd_ctl_find_numid (fst st') m = Some (length (ca_controls (fst st))) \<longleftrightarrow> unat n \<le> unat m \<and> unat m < unat n + unat (kc_count k))))"
proof -
  obtain e st1 where a: "ctl_add_replace mem drv k CTL_ADD_EXCLUSIVE st = (e, st1)" by (rule that [OF surjective_pairing])
  note r = add_replace_result [OF assms(1,2) a]
  have st': "(if e < 0 then (e, snd_ctl_free_one drv k st1) else (0, st1)) = (err, st')"
    using assms(4) by (simp add: snd_ctl_add_def snd_ctl_add_replace_def a)
  have num: "numbered (fst (snd_ctl_free_one drv k st1))" using r by (simp add: numbered_def)
  show ?thesis
  proof (cases "id_index (kc_id k) > UINT_MAX - kc_count k \<or> snd_ctl_find_id (fst st) (kc_id k) \<noteq> None")
    case True
    then show ?thesis using r st' num by (auto split: if_splits)
  next
    case False
    then have e: "e = 0" using r assms(3) by (auto split: if_splits)
    then have eq: "err = 0" "st' = st1" using st' by auto
    from r e False obtain n where n: "ca_controls (fst st1) = ca_controls (fst st) @ [numbered_as k n]" and nn: "numbered (fst st1)"
      by (auto simp: kept_controls_def)
    have "\<forall>m. snd_ctl_find_numid (fst st1) m = Some (length (ca_controls (fst st))) \<longleftrightarrow> unat n \<le> unat m \<and> unat m < unat n + unat (kc_count k)"
      unfolding find_numid_Some [OF nn] n by (simp add: numbered_as_def first_num_def end_num_def)
    then show ?thesis using False eq n nn by auto
  qed
qed

section \<open>A card with two controls\<close>

definition sample_id :: "u32 \<Rightarrow> string \<Rightarrow> elem_id" where
  "sample_id n s = \<lparr>id_numid = n, id_iface = 2, id_device = 0, id_subdevice = 0, id_name = s, id_index = 0\<rparr>"

definition sample_control :: "u32 \<Rightarrow> string \<Rightarrow> u32 \<Rightarrow> kcontrol" where
  "sample_control n s cnt =
     \<lparr>kc_id = sample_id n s, kc_count = cnt, kc_info = Driver_call 0, kc_get = Some (Driver_call 0), kc_put = Some (Driver_call 0),
       kc_tlv = No_tlv, kc_user = None, kc_free = None, kc_vd = replicate (unat cnt) \<lparr>vd_owner = 0, vd_access = 3\<rparr>\<rparr>"

definition sample_card :: ctl_card where
  "sample_card =
     \<lparr>ca_last_numid = 3, ca_controls = [sample_control 1 ''Master'' 1, sample_control 2 ''Mic'' 2], ca_count = 3, ca_user_alloc = 0,
       ca_files = [], ca_shutdown = False, ca_files_list = []\<rparr>"

definition idle_driver :: "unit ctl_driver" where
  "idle_driver =
     \<lparr>dr_info = (\<lambda>n k i d. (0, i, d)), dr_get = (\<lambda>n k v d. (0, v, d)), dr_put = (\<lambda>n k v d. (1, v, d)),
       dr_tlv = (\<lambda>n k op sz b d. (0, b, d)), dr_free = (\<lambda>n k d. d), dr_layers = [], dr_notify = (\<lambda>l mk k off d. d)\<rparr>"

lemma sample_numbered: "numbered sample_card"
  by (simp add: numbered_def sample_card_def sample_control_def sample_id_def placed_control_def sound_control_def clash_def first_num_def end_num_def)

theorem range_always_found_witness: "\<exists>l. snd_ctl_find_hole 2 sample_card = (0, sample_card\<lparr>ca_last_numid := l\<rparr>)"
  using range_always_found [of sample_card 2, OF sample_numbered] by (auto simp: sample_card_def)

theorem add_control_witness:
  "\<exists>st'. snd_ctl_add (\<lambda>i f. True) idle_driver (Some (sample_control 0 ''Line'' 2)) (sample_card, ()) = (0, st') \<and> numbered (fst st') \<and>
     length (ca_controls (fst st')) = 3"
proof -
  obtain e st' where r: "snd_ctl_add (\<lambda>i f. True) idle_driver (Some (sample_control 0 ''Line'' 2)) (sample_card, ()) = (e, st')"
    by (rule that [OF surjective_pairing])
  have "sound_control (sample_control 0 ''Line'' 2)" by (simp add: sound_control_def sample_control_def)
  moreover have "length (ca_controls (fst (sample_card, ()))) < 50000" by (simp add: sample_card_def)
  ultimately have "numbered (fst st') \<and> e = 0 \<and> length (ca_controls (fst st')) = 3"
    using add_control [of "(sample_card, ())" "sample_control 0 ''Line'' 2", OF _ _ _ r] sample_numbered
    by (auto simp: sample_control_def sample_id_def snd_ctl_find_id_def Let_def numbered_as_def find_None_iff sample_card_def)
  with r show ?thesis by auto
qed

text \<open>Renaming looks at no other control, so an identity may be given twice; the second control is then found by its number only.\<close>

lemma rename_may_duplicate:
  "snd_ctl_rename_id (sample_id 0 ''Mic'') (sample_id 0 ''Master'') sample_card =
     (0, sample_card\<lparr>ca_controls := [sample_control 1 ''Master'' 1, sample_control 4 ''Master'' 2], ca_last_numid := 5\<rparr>)"
  by (simp add: snd_ctl_rename_id_def snd_ctl_find_id_def sample_card_def sample_control_def sample_id_def put_control_def upt_rec)

end
