(* ===== verification/ControlUser.thy ===== *)
theory ControlUser
  imports ControlElem ControlNumbering
begin

text \<open>
  What holds of the elements of a card while clients and drivers use them: accesses stay inside the arrays, locks keep
  other clients away, values read back, and the memory of the elements of clients is accounted for and limited.
\<close>

section \<open>Sound elements\<close>

definition driver_call :: "ctl_call option \<Rightarrow> bool" where
  "driver_call f \<longleftrightarrow> (case f of Some User_call \<Rightarrow> False | Some User_enum_call \<Rightarrow> False | _ \<Rightarrow> True)"

text \<open>The callbacks of the clients' elements belong to elements with data, which has a slot for each index.\<close>

definition element_sound :: "kcontrol \<Rightarrow> bool" where
  "element_sound k \<longleftrightarrow>
     (case kc_user k of
        None \<Rightarrow> driver_call (kc_free k) \<and> driver_call (kc_get k) \<and> driver_call (kc_put k) \<and> kc_tlv k \<noteq> Tlv_call User_call \<and> kc_tlv k \<noteq> Tlv_call User_enum_call
      | Some ue \<Rightarrow> kc_free k = Some User_call \<and> unat (ue_data_size ue) \<le> 512 \<and> length (ue_data ue) = unat (ue_data_size ue) * unat (kc_count k) \<and>
          (ue_tlv ue = None \<longrightarrow> ue_tlv_size ue = 0) \<and> unat (ue_tlv_size ue) \<le> 131072)"

text \<open>The memory charged for an element, and that of all elements.\<close>

definition charge :: "kcontrol \<Rightarrow> nat" where
  "charge k =
     (case kc_user k of
        None \<Rightarrow> 0
      | Some ue \<Rightarrow> 296 + unat (ue_data_size ue) * unat (kc_count k) + unat (ue_tlv_size ue) + (if ue_names ue \<noteq> None then unat (ei_names_length (ue_info ue)) else 0))"

definition charged :: "nat \<Rightarrow> ctl_card \<Rightarrow> bool" where
  "charged x c \<longleftrightarrow> unat (ca_user_alloc c) = x + sum_list (map charge (ca_controls c)) \<and> unat (ca_user_alloc c) \<le> 8388608"

definition elements_sound :: "ctl_card \<Rightarrow> bool" where
  "elements_sound c \<longleftrightarrow> (\<forall>k\<in>set (ca_controls c). element_sound k)"

definition card_sound :: "ctl_card \<Rightarrow> bool" where
  "card_sound c \<longleftrightarrow> numbered c \<and> elements_sound c \<and> charged 0 c"

lemma unat_minus_of_nat: "m \<le> unat a \<Longrightarrow> unat (a - of_nat m) = unat a - m" for a :: u32
proof -
  assume m: "m \<le> unat a"
  then have "unat (of_nat m :: u32) = m" using u32_lt [of a] by (simp add: unat_of_nat take_bit_nat_eq_self)
  then show ?thesis using m by (simp add: unat_sub32)
qed

lemma unat_plus_of_nat: "unat a + m \<le> 4294967295 \<Longrightarrow> unat (a + of_nat m) = unat a + m" for a :: u32
proof -
  assume m: "unat a + m \<le> 4294967295"
  then have "unat (of_nat m :: u32) = m" by (simp add: unat_of_nat take_bit_nat_eq_self)
  then show ?thesis using m by (simp add: unat_add32)
qed

lemma charge_word:
  assumes "kc_user k = Some ue"
  shows "of_nat (charge k) = compute_user_elem_size (ue_data_size ue) (kc_count k) + ue_tlv_size ue + (if ue_names ue \<noteq> None then ei_names_length (ue_info ue) else 0)"
  using assms by (simp add: charge_def compute_user_elem_size_def)

lemma user_free_alloc:
  assumes "kc_user k = Some ue"
  shows "snd_ctl_elem_user_free k c = c\<lparr>ca_user_alloc := ca_user_alloc c - of_nat (charge k)\<rparr>"
  by (simp add: snd_ctl_elem_user_free_def charge_word [OF assms] assms Let_def algebra_simps)

lemma free_one_charged:
  assumes "element_sound k" "charged (x + charge k) (fst st)"
  shows "charged x (fst (snd_ctl_free_one drv k st))"
proof (cases "kc_user k")
  case None
  then have "driver_call (kc_free k)" "charge k = 0" using assms(1) by (simp_all add: element_sound_def charge_def)
  then show ?thesis using assms(2)
    by (auto simp: snd_ctl_free_one_def driver_call_def charged_def split: option.splits ctl_call.splits)
next
  case (Some ue)
  then have "kc_free k = Some User_call" using assms(1) by (simp add: element_sound_def)
  then have "fst (snd_ctl_free_one drv k st) = (fst st)\<lparr>ca_user_alloc := ca_user_alloc (fst st) - of_nat (charge k)\<rparr>"
    by (simp add: snd_ctl_free_one_def user_free_alloc [OF Some])
  moreover have "unat (ca_user_alloc (fst st) - of_nat (charge k)) = unat (ca_user_alloc (fst st)) - charge k"
    by (rule unat_minus_of_nat) (use assms(2) in \<open>simp add: charged_def\<close>)
  ultimately show ?thesis using assms(2) by (simp add: charged_def)
qed

lemma sum_list_delete:
  "n < length xs \<Longrightarrow> sum_list (map f xs) = f (xs ! n) + sum_list (map f (take n xs @ drop (Suc n) xs))" for f :: "'x \<Rightarrow> nat"
  by (subst id_take_nth_drop [of n xs]) simp_all

lemma remove_sound:
  assumes "elements_sound (fst st)" "charged x (fst st)" "n < length (ca_controls (fst st))"
  shows "elements_sound (fst (snd (snd_ctl_remove mem drv n st)))" "charged x (fst (snd (snd_ctl_remove mem drv n st)))"
proof -
  show "elements_sound (fst (snd (snd_ctl_remove mem drv n st)))"
    using assms(1) unfolding elements_sound_def remove_parts by (auto simp del: set_append dest!: set_delete)
  let ?k = "ca_controls (fst st) ! n"
  let ?c = "(fst st)\<lparr>ca_controls := take n (ca_controls (fst st)) @ drop (Suc n) (ca_controls (fst st)), ca_count := ca_count (fst st) - kc_count ?k\<rparr>"
  have k: "element_sound ?k" using assms(1,3) by (simp add: elements_sound_def)
  have "charged (x + charge ?k) (fst (notify_all mem drv MASK_REMOVE ?k (?c, snd st)))"
    using assms(2) sum_list_delete [OF assms(3), of charge] by (simp add: charged_def)
  from free_one_charged [OF k this] show "charged x (fst (snd (snd_ctl_remove mem drv n st)))"
    by (simp add: snd_ctl_remove_def case_prod_beta Let_def)
qed

lemma new_id_same [simp]: "charge (k\<lparr>kc_id := i\<rparr>) = charge k" "element_sound (k\<lparr>kc_id := i\<rparr>) = element_sound k"
  by (cases "kc_user k"; simp add: charge_def element_sound_def)+

text \<open>Only the memory for the new control is charged beforehand.\<close>

lemma add_replace_sound:
  assumes "numbered (fst st)" "sound_control k" "elements_sound (fst st)" "element_sound k" "charged (x + charge k) (fst st)"
    "ctl_add_replace mem drv k mode st = (err, st')"
  shows "elements_sound (fst st') \<and> charged (if err = 0 then x else x + charge k) (fst st')"
proof -
  define old where "old = snd_ctl_find_id (fst st) (kc_id k)"
  define st1 where "st1 = (case old of None \<Rightarrow> st | Some n \<Rightarrow> snd (snd_ctl_remove mem drv n st))"
  have n: "n < length (ca_controls (fst st))" if "old = Some n" for n using that find_id_valid(1) [OF assms(1)] by (simp add: old_def)
  have s1: "elements_sound (fst st1)" "charged (x + charge k) (fst st1)" unfolding st1_def
    using assms(3,5) remove_sound [OF assms(3,5) n] by (auto split: option.splits)
  obtain e c' where h: "snd_ctl_find_hole (kc_count k) (fst st1) = (e, c')" by force
  have "numbered (fst st1)" unfolding st1_def using assms(1) by (auto intro: remove_numbered split: option.splits)
  then have "\<forall>k\<in>set (ca_controls (fst st1)). placed_control k" by (simp add: numbered_def)
  from find_hole_spec [OF h this] assms(2) have c': "c' = (fst st1)\<lparr>ca_last_numid := ca_last_numid c'\<rparr>" by (simp add: sound_control_def)
  have cs: "ca_controls c' = ca_controls (fst st1)" "ca_user_alloc c' = ca_user_alloc (fst st1)" by (subst c', simp)+
  have "(err, st') \<in> {(- EINVAL, st), (- EBUSY, st), (- ENOMEM, (c', snd st1)), (0, insert_control mem drv k (c', snd st1))}"
  proof -
    have "(case old of None \<Rightarrow> (0, st) | Some n \<Rightarrow> snd_ctl_remove mem drv n st) = (0, st1)"
      by (simp add: st1_def prod_eq_iff remove_parts split: option.splits)
    then show ?thesis using assms(6) h unfolding ctl_add_replace_def old_def [symmetric] Let_def by (auto split: if_splits)
  qed
  moreover have "elements_sound (fst (insert_control mem drv k (c', snd st1)))"
    using s1 assms(4) by (auto simp: elements_sound_def insert_parts cs)
  moreover have "charged x (fst (insert_control mem drv k (c', snd st1)))"
    using s1 by (simp add: charged_def insert_parts cs)
  moreover have "elements_sound c'" "charged (x + charge k) c'" using s1 by (simp_all add: elements_sound_def charged_def cs)
  ultimately show ?thesis using assms(3,5) by auto
qed

section \<open>Adding elements of clients\<close>

lemma unat_mult_small: "unat a * unat b \<le> 4294967295 \<Longrightarrow> unat (a * b) = unat a * unat b" for a b :: u32
  by (simp add: unat_word_ariths)

lemma no_overflow:
  assumes "\<not> check_user_elem_overflow c add" "unat (ca_user_alloc c) \<le> 8388608" "unat add \<le> 1000000"
  shows "unat (ca_user_alloc c + add) = unat (ca_user_alloc c) + unat add" "unat (ca_user_alloc c) + unat add \<le> 8388608"
proof -
  show e: "unat (ca_user_alloc c + add) = unat (ca_user_alloc c) + unat add" using assms(2,3) by (simp add: unat_add32)
  then have "sint (ca_user_alloc c + add) = int (unat (ca_user_alloc c) + unat add)" using assms(2,3) by (subst sint_unat) simp_all
  then show "unat (ca_user_alloc c) + unat add \<le> 8388608" using assms(1) unfolding check_user_elem_overflow_def by linarith
qed

lemma checked_size:
  assumes "\<not> snd_ctl_check_elem_info info < 0"
  shows "unat (value_sizes ! nat (ei_type info) * ei_count info) \<le> 512"
proof -
  from assms have t: "1 \<le> ei_type info" "ei_type info \<le> 6" and c: "ei_count info \<le> max_value_counts ! nat (ei_type info)"
    by (auto simp: snd_ctl_check_elem_info_def split: if_splits)
  have "unat (value_sizes ! nat (ei_type info)) * unat (ei_count info) \<le> 512"
  proof -
    have "ei_type info \<in> {1, 2, 3, 4, 5, 6}" using t by auto
    then show ?thesis using c by (auto simp: value_sizes_def max_value_counts_def word_le_nat_alt)
  qed
  then show ?thesis by (simp add: unat_mult_small)
qed

lemma remove_user_ctl_sound:
  assumes "card_sound (fst st)"
  shows "card_sound (fst (snd (snd_ctl_remove_user_ctl mem drv file i st)))"
proof (cases "snd_ctl_find_id (fst st) i")
  case None
  then show ?thesis using assms by (simp add: snd_ctl_remove_user_ctl_def)
next
  case (Some n)
  have s: "numbered (fst st)" "elements_sound (fst st)" "charged 0 (fst st)" using assms by (simp_all add: card_sound_def)
  note n = find_id_valid(1) [OF s(1) Some]
  have "card_sound (fst (snd (snd_ctl_remove mem drv n st)))"
    unfolding card_sound_def using remove_numbered [OF s(1)] remove_sound [OF s(2,3) n] by blast
  then show ?thesis using assms Some by (simp add: snd_ctl_remove_user_ctl_def Let_def)
qed

lemma init_names_charged:
  assumes "snd_ctl_elem_init_enum_names um ue c = (err, ue', c')" "charged x c"
  shows "err < 0 \<and> ue' = ue \<and> c' = c \<or>
    err = 0 \<and> (\<exists>names. ue' = ue\<lparr>ue_names := Some names, ue_info := (ue_info ue)\<lparr>ei_names_ptr := 0\<rparr>\<rparr>) \<and> ca_controls c' = ca_controls c \<and>
    charged (x + unat (ei_names_length (ue_info ue))) c'"
proof -
  let ?n = "ei_names_length (ue_info ue)"
  show ?thesis
  proof (cases "err < 0")
    case True
    then show ?thesis using assms(1) by (auto simp: snd_ctl_elem_init_enum_names_def Let_def split: if_splits)
  next
    case False
    then have ok: "\<not> ?n > 64 * 1024" "\<not> check_user_elem_overflow c ?n" and c': "c' = c\<lparr>ca_user_alloc := ca_user_alloc c + ?n\<rparr>"
      and u: "err = 0" "\<exists>names. ue' = ue\<lparr>ue_names := Some names, ue_info := (ue_info ue)\<lparr>ei_names_ptr := 0\<rparr>\<rparr>"
      using assms(1) by (auto simp: snd_ctl_elem_init_enum_names_def Let_def split: if_splits)
    have "unat ?n \<le> 65536" using ok(1) by (simp add: not_less word_le_nat_alt)
    then have "unat ?n \<le> 1000000" by linarith
    note no_overflow [OF ok(2) _ this]
    then show ?thesis using assms(2) u unfolding c' by (auto simp: charged_def)
  qed
qed

text \<open>The last part: the insertion of a control whose memory is charged, which is freed when it fails.\<close>

lemma insert_or_free:
  assumes "numbered (fst st)" "elements_sound (fst st)" "charged (charge k) (fst st)" "sound_control k" "element_sound k"
    "ctl_add_replace mem drv k CTL_ADD_EXCLUSIVE st = (err, st')"
  shows "card_sound (if err < 0 then fst (snd_ctl_free_one drv k st') else fst st')" "err = 0 \<or> err < 0"
proof -
  have "charged (0 + charge k) (fst st)" using assms(3) by simp
  note s = add_replace_sound [OF assms(1,4,2,5) this assms(6)] and r = add_replace_result [OF assms(1,4,6)]
  show e: "err = 0 \<or> err < 0" using r by (auto split: if_splits)
  show "card_sound (if err < 0 then fst (snd_ctl_free_one drv k st') else fst st')"
    using s r e free_one_charged [OF assms(5), of 0 st' drv] by (auto simp: card_sound_def elements_sound_def numbered_def)
qed

lemma new_control:
  assumes "snd_ctl_new m cnt access file = (err, Some k)"
  shows "sound_control k" "kc_count k = cnt" "kc_user k = None" "unat cnt \<le> 1028"
proof -
  have "cnt \<noteq> 0" "cnt \<le> 1028" and k: "kc_count k = cnt" "kc_user k = None" "length (kc_vd k) = unat cnt"
    using assms by (auto simp: snd_ctl_new_def split: if_splits)
  then show "sound_control k" "kc_count k = cnt" "kc_user k = None" "unat cnt \<le> 1028"
    by (simp_all add: sound_control_def word_le_nat_alt)
qed

lemma user_control_sound:
  assumes "sound_control k" "unat (ue_data_size ue) \<le> 512" "length (ue_data ue) = unat (ue_data_size ue) * unat (kc_count k)"
    "ue_tlv ue = None" "ue_tlv_size ue = 0"
    "k' = (user_control info access ue k)\<lparr>kc_id := i, kc_free := Some User_call\<rparr>"
  shows "sound_control k'" "element_sound k'"
    "charge k' = 296 + unat (ue_data_size ue) * unat (kc_count k) + (if ue_names ue \<noteq> None then unat (ei_names_length (ue_info ue)) else 0)"
  using assms(1-5) by (simp_all add: assms(6) user_control_def sound_control_def element_sound_def charge_def)

lemma elem_add_sound:
  assumes "card_sound (fst st)"
  shows "card_sound (fst (snd (snd (snd_ctl_elem_add mem drv um file info replace st))))"
proof -
  define info1 where "info1 = (if replace then info\<lparr>ei_id := (ei_id info)\<lparr>id_numid := 0\<rparr>\<rparr> else info)"
  obtain err1 st1 where r1: "(if replace then snd_ctl_remove_user_ctl mem drv file (ei_id info1) st else (0, st)) = (err1, st1)"
    by (rule that [OF surjective_pairing])
  define cnt where "cnt = (if ei_owner info1 = 0 then 1 else word_of_int (ei_owner info1) :: u32)"
  define access where "access = user_access (ei_access info1)"
  define psize where "psize = value_sizes ! nat (ei_type info1) * ei_count info1"
  obtain err3 new where r3: "snd_ctl_new (um_control um) cnt access file = (err3, new)" by force
  have s1: "card_sound (fst st1)"
    using assms r1 remove_user_ctl_sound [OF assms, of mem drv "file" "ei_id info1"] by (cases replace) simp_all
  note D = snd_ctl_elem_add_def [of mem drv um "file" info replace st, unfolded Let_def, folded info1_def, unfolded r1 split_conv,
    folded cnt_def access_def psize_def, unfolded r3 split_conv]
  show ?thesis
  proof (cases "id_name (ei_id info) = [] \<or> length (id_name (ei_id info)) \<ge> 44 \<or> err1 \<noteq> 0 \<or> snd_ctl_check_elem_info info1 < 0 \<or>
      ei_count info1 < 1 \<or> check_user_elem_overflow (fst st1) (compute_user_elem_size psize cnt) \<or> new = None \<or> \<not> um_data um")
    case True
    then show ?thesis using assms s1 unfolding D by (auto split: option.splits)
  next
    case False
    then have "new \<noteq> None" by simp
    then obtain k where new: "new = Some k" by auto
    note k = new_control [OF r3 [unfolded new]]
    have psize: "unat psize \<le> 512" unfolding psize_def by (rule checked_size) (use False in simp)
    have bound: "unat psize * unat cnt \<le> 512 * 1028" using psize k(4) by (rule mult_le_mono)
    then have pc: "unat (psize * cnt) = unat psize * unat cnt" by (intro unat_mult_small) linarith
    define a where "a = compute_user_elem_size psize cnt"
    have a: "unat a = 296 + unat psize * unat cnt" using bound by (simp add: a_def compute_user_elem_size_def unat_add32 pc)
    define c1 where "c1 = (fst st1)\<lparr>ca_user_alloc := ca_user_alloc (fst st1) + a\<rparr>"
    define ue where "ue = \<lparr>ue_info = info1\<lparr>ei_access := 0\<rparr>, ue_data = replicate (unat (psize * cnt)) 0, ue_data_size = psize,
        ue_tlv = None, ue_tlv_size = 0, ue_names = None\<rparr>"
    obtain err4 ue' c2 where r4: "(if ei_type info1 = TYPE_ENUMERATED then snd_ctl_elem_init_enum_names um ue c1 else (0, ue, c1)) = (err4, ue', c2)"
      by (metis prod_cases3)
    define k' where "k' = (user_control info1 access ue' k)\<lparr>kc_id := ei_id info1, kc_free := Some User_call\<rparr>"
    obtain err5 st5 where r5: "ctl_add_replace mem drv k' CTL_ADD_EXCLUSIVE (c2, snd st1) = (err5, st5)" by (rule that [OF surjective_pairing])
    have sound1: "numbered (fst st1)" "elements_sound (fst st1)" "charged 0 (fst st1)" using s1 by (simp_all add: card_sound_def)
    have "unat a \<le> 1000000" using a bound by linarith
    then have "charged (unat a) c1"
      using no_overflow [of "fst st1" a] False sound1(3) by (simp add: charged_def c1_def a_def)
    then have r4': "ue_data_size ue' = psize \<and> ue_data ue' = ue_data ue \<and> ue_tlv ue' = None \<and> ue_tlv_size ue' = 0 \<and> ca_controls c2 = ca_controls (fst st1) \<and>
        (err4 = 0 \<or> err4 < 0) \<and> charged (unat a + (if ue_names ue' \<noteq> None then unat (ei_names_length (ue_info ue')) else 0)) c2"
      using r4 init_names_charged [of um ue c1 err4 ue' c2 "unat a"] by (auto simp: ue_def c1_def split: if_splits)
    have dl: "length (ue_data ue') = unat (ue_data_size ue') * unat (kc_count k)" using r4' by (simp add: ue_def pc k(2))
    note k' = user_control_sound [OF k(1) _ dl _ _ k'_def]
    have ks: "sound_control k'" "element_sound k'" "charge k' = unat a + (if ue_names ue' \<noteq> None then unat (ei_names_length (ue_info ue')) else 0)"
      using k' r4' psize a k(2) by simp_all
    have pre: "numbered (fst (c2, snd st1))" "elements_sound (fst (c2, snd st1))" "charged (charge k') (fst (c2, snd st1))"
      using sound1 r4' ks(3) by (simp_all add: numbered_def elements_sound_def)
    have "charged 0 (fst (snd_ctl_free_one drv k' (c2, snd st1)))" using free_one_charged [OF ks(2), of 0 "(c2, snd st1)"] pre(3) by simp
    then have failed: "card_sound (fst (snd_ctl_free_one drv k' (c2, snd st1)))"
      using pre by (simp add: card_sound_def numbered_def elements_sound_def)
    have res: "snd (snd (snd_ctl_elem_add mem drv um file info replace st)) =
        (if err4 < 0 then snd_ctl_free_one drv k' (c2, snd st1) else if err5 < 0 then snd_ctl_free_one drv k' st5 else st5)"
      using False unfolding D new option.case a_def [symmetric] c1_def [symmetric] ue_def [symmetric] r4 split_conv k'_def [symmetric] r5
      by simp
    show ?thesis unfolding res using failed insert_or_free [OF pre ks(1,2) r5] by auto
  qed
qed

section \<open>Changes of one control\<close>

text \<open>What does not touch the identity, the number of elements and the memory of a control keeps the card sound.\<close>

definition same_place :: "kcontrol \<Rightarrow> kcontrol \<Rightarrow> bool" where
  "same_place k' k \<longleftrightarrow> kc_id k' = kc_id k \<and> kc_count k' = kc_count k \<and> length (kc_vd k') = length (kc_vd k)"

lemma placed_cong: "same_place k' k \<Longrightarrow> placed_control k' = placed_control k"
  by (simp add: same_place_def placed_control_def sound_control_def end_num_def)

lemma list_all_update: "\<lbrakk>\<forall>x\<in>set xs. P x; P y\<rbrakk> \<Longrightarrow> \<forall>x\<in>set (xs[n := y]). P x"
  using set_update_subset_insert [of xs n y] by blast

lemma put_controls [simp]: "ca_controls (put_control n k c) = (ca_controls c)[n := k]"
  by (simp add: put_control_def)

lemma put_alloc [simp]: "ca_user_alloc (put_control n k c) = ca_user_alloc c"
  by (simp add: put_control_def)

lemma map_update_same: "\<lbrakk>n < length xs; f y = f (xs ! n)\<rbrakk> \<Longrightarrow> map f (xs[n := y]) = map f xs"
  by (simp add: map_update list_update_same_conv)

lemma put_numbered:
  assumes "numbered c" "n < length (ca_controls c)" "same_place k (ca_controls c ! n)"
  shows "numbered (put_control n k c)"
proof -
  have "map (\<lambda>k. (first_num k, end_num k)) ((ca_controls c)[n := k]) = map (\<lambda>k. (first_num k, end_num k)) (ca_controls c)"
    by (rule map_update_same [OF assms(2)]) (use assms(3) in \<open>simp add: same_place_def first_num_def end_num_def\<close>)
  from apart_cong [OF this] have "apart ((ca_controls c)[n := k])" using assms(1) by (simp add: numbered_def)
  moreover have "placed_control k" using assms placed_cong [OF assms(3)] by (simp add: numbered_def)
  then have "\<forall>k\<in>set ((ca_controls c)[n := k]). placed_control k" using assms(1) by (intro list_all_update) (simp_all add: numbered_def)
  ultimately show ?thesis by (simp add: numbered_def)
qed

lemma put_charged:
  assumes "charged x c" "n < length (ca_controls c)" "charge k = charge (ca_controls c ! n)"
  shows "charged x (put_control n k c)"
proof -
  have "map charge ((ca_controls c)[n := k]) = map charge (ca_controls c)"
    by (rule map_update_same [OF assms(2,3)])
  then show ?thesis using assms(1) by (simp add: charged_def)
qed

lemma put_sound:
  assumes "card_sound c" "n < length (ca_controls c)" "same_place k (ca_controls c ! n)" "element_sound k" "charge k = charge (ca_controls c ! n)"
  shows "card_sound (put_control n k c)"
proof -
  have "\<forall>k\<in>set ((ca_controls c)[n := k]). element_sound k" using assms(1,4) by (intro list_all_update) (simp_all add: card_sound_def elements_sound_def)
  then show ?thesis using put_numbered [OF _ assms(2,3)] put_charged [OF _ assms(2,5)] assms(1) by (simp add: card_sound_def elements_sound_def)
qed

lemma set_vd_same [simp]: "same_place (set_vd off vd k) k" "element_sound (set_vd off vd k) = element_sound k" "charge (set_vd off vd k) = charge k"
  by (cases "kc_user k"; simp add: set_vd_def same_place_def element_sound_def charge_def)+

lemma put_vd_sound:
  assumes "card_sound c" "n < length (ca_controls c)"
  shows "card_sound (put_control n (set_vd off vd (ca_controls c ! n)) c)"
  by (rule put_sound [OF assms]) (use assms in \<open>simp_all add: card_sound_def elements_sound_def\<close>)

lemma sound_cong:
  "\<lbrakk>ca_controls c' = ca_controls c; ca_user_alloc c' = ca_user_alloc c\<rbrakk> \<Longrightarrow> card_sound c' = card_sound c"
  by (simp add: card_sound_def numbered_def elements_sound_def charged_def)

lemma notify_one_sound [simp]: "card_sound (fst (snd_ctl_notify_one mem drv mk k off st)) = card_sound (fst st)"
  by (rule sound_cong) simp_all

lemma notify_all_sound [simp]: "card_sound (fst (notify_all mem drv mk k st)) = card_sound (fst st)"
  by (rule sound_cong) simp_all

section \<open>Accesses stay inside the arrays\<close>

lemma user_slot_bound:
  assumes "element_sound k" "kc_user k = Some ue" "unat (snd_ctl_get_ioff k i) < unat (kc_count k)" "unat (kc_count k) \<le> 1028"
  shows "user_slot k i + unat (ue_data_size ue) \<le> length (ue_data ue)" "user_slot k i = unat (snd_ctl_get_ioff k i) * unat (ue_data_size ue)"
proof -
  have sz: "unat (ue_data_size ue) \<le> 512" and len: "length (ue_data ue) = unat (ue_data_size ue) * unat (kc_count k)"
    using assms(1,2) by (simp_all add: element_sound_def)
  have "unat (snd_ctl_get_ioff k i) * unat (ue_data_size ue) \<le> 1028 * 512" using assms(3,4) sz by (intro mult_le_mono) auto
  then show u: "user_slot k i = unat (snd_ctl_get_ioff k i) * unat (ue_data_size ue)"
    by (simp add: user_slot_def assms(2) unat_mult_small)
  have "Suc (unat (snd_ctl_get_ioff k i)) * unat (ue_data_size ue) \<le> unat (kc_count k) * unat (ue_data_size ue)"
    using assms(3) by (intro mult_le_mono) auto
  then show "user_slot k i + unat (ue_data_size ue) \<le> length (ue_data ue)" by (simp add: u len mult.commute)
qed

lemma found_control:
  assumes "card_sound c" "snd_ctl_find_id c i = Some n"
  shows "n < length (ca_controls c)" "placed_control (ca_controls c ! n)" "element_sound (ca_controls c ! n)"
    "unat (snd_ctl_get_ioff (ca_controls c ! n) i) < unat (kc_count (ca_controls c ! n))"
    "vd_at (ca_controls c ! n) (snd_ctl_get_ioff (ca_controls c ! n) i) = Some (kc_vd (ca_controls c ! n) ! unat (snd_ctl_get_ioff (ca_controls c ! n) i))"
proof -
  have n: "numbered c" using assms(1) by (simp add: card_sound_def)
  show l: "n < length (ca_controls c)" by (rule find_id_valid [OF n assms(2)])
  show "placed_control (ca_controls c ! n)" "element_sound (ca_controls c ! n)"
    using l assms(1) by (simp_all add: card_sound_def numbered_def elements_sound_def)
  show "unat (snd_ctl_get_ioff (ca_controls c ! n) i) < unat (kc_count (ca_controls c ! n))" by (rule find_id_valid [OF n assms(2)])
  show "vd_at (ca_controls c ! n) (snd_ctl_get_ioff (ca_controls c ! n) i) = Some (kc_vd (ca_controls c ! n) ! unat (snd_ctl_get_ioff (ca_controls c ! n) i))"
    by (rule found_volatile [OF n assms(2)])
qed

lemma build_get_ioff: "snd_ctl_get_ioff k (snd_ctl_build_ioff k off) = off"
  by (simp add: snd_ctl_get_ioff_def snd_ctl_build_ioff_def)

lemma user_put_Some:
  assumes "element_sound k" "kc_user k = Some ue" "unat (snd_ctl_get_ioff k (va_id v)) < unat (kc_count k)" "unat (kc_count k) \<le> 1028"
    "length (va_bytes v) = 512"
  shows "\<exists>r k'. snd_ctl_elem_user_put k v = Some (r, k') \<and> 0 \<le> r \<and> same_place k' k \<and> element_sound k' \<and> charge k' = charge k \<and>
      kc_vd k' = kc_vd k \<and> kc_get k' = kc_get k \<and>
      (\<exists>ue'. kc_user k' = Some ue' \<and> ue_data_size ue' = ue_data_size ue \<and>
        take (unat (ue_data_size ue)) (drop (user_slot k (va_id v)) (ue_data ue')) = take (unat (ue_data_size ue)) (va_bytes v))"
proof -
  let ?sz = "unat (ue_data_size ue)" and ?off = "user_slot k (va_id v)"
  note b = user_slot_bound(1) [OF assms(1-4)]
  have sz: "?sz \<le> 512" using assms(1,2) by (simp add: element_sound_def)
  show ?thesis
  proof (cases "take ?sz (va_bytes v) = take ?sz (drop ?off (ue_data ue))")
    case True
    then have "snd_ctl_elem_user_put k v = Some (0, k)"
      using b sz assms(2,5) by (simp add: snd_ctl_elem_user_put_def Let_def)
    then show ?thesis using True assms(1,2) by (simp add: same_place_def)
  next
    case False
    let ?d = "take ?off (ue_data ue) @ take ?sz (va_bytes v) @ drop (?off + ?sz) (ue_data ue)"
    let ?k = "k\<lparr>kc_user := Some (ue\<lparr>ue_data := ?d\<rparr>)\<rparr>"
    have len: "length ?d = length (ue_data ue)" using b sz assms(5) by simp
    have "snd_ctl_elem_user_put k v = Some (1, ?k)"
      using False b sz assms(2,5) by (simp add: snd_ctl_elem_user_put_def Let_def)
    moreover have "same_place ?k k" by (simp add: same_place_def)
    moreover have "element_sound ?k" using assms(1,2) len by (simp add: element_sound_def)
    moreover have "charge ?k = charge k" using assms(2) by (simp add: charge_def)
    moreover have "take ?sz (drop ?off ?d) = take ?sz (va_bytes v)" using b sz assms(5) by simp
    ultimately show ?thesis by auto
  qed
qed

lemma find_numid_cong:
  assumes "map (\<lambda>k. (kc_id k, kc_count k)) (ca_controls c') = map (\<lambda>k. (kc_id k, kc_count k)) (ca_controls c)"
  shows "snd_ctl_find_numid c' x = snd_ctl_find_numid c x" "snd_ctl_find_id c' i = snd_ctl_find_id c i"
proof -
  have len: "length (ca_controls c') = length (ca_controls c)" using map_eq_imp_length_eq [OF assms] .
  have "kc_id (ca_controls c' ! n) = kc_id (ca_controls c ! n) \<and> kc_count (ca_controls c' ! n) = kc_count (ca_controls c ! n)"
    if "n < length (ca_controls c)" for n
    using arg_cong [OF assms, of "\<lambda>xs. xs ! n"] that len by simp
  note eq = conjunct1 [OF this] conjunct2 [OF this]
  show num: "snd_ctl_find_numid c' x = snd_ctl_find_numid c x" for x
    unfolding snd_ctl_find_numid_def len by (rule find_cong) (simp_all add: eq Let_def)
  show "snd_ctl_find_id c' i = snd_ctl_find_id c i"
    unfolding snd_ctl_find_id_def num len by (rule if_cong [OF refl refl], rule find_cong) (simp_all add: eq Let_def)
qed

lemma find_id_put:
  assumes "n < length (ca_controls c)" "same_place k (ca_controls c ! n)"
  shows "snd_ctl_find_id (put_control n k c) i = snd_ctl_find_id c i"
  by (rule find_numid_cong(2)) (use assms in \<open>simp add: map_update_same same_place_def\<close>)

lemma ioff_same_place: "same_place k' k \<Longrightarrow> snd_ctl_get_ioff k' i = snd_ctl_get_ioff k i"
  by (simp add: snd_ctl_get_ioff_def same_place_def)

lemma placed_count: "placed_control k \<Longrightarrow> unat (kc_count k) \<le> 1028"
  by (simp add: placed_control_def sound_control_def)

lemma user_calls:
  "\<lbrakk>element_sound k; kc_put k = Some f; \<forall>n. f \<noteq> Driver_call n\<rbrakk> \<Longrightarrow> \<exists>ue. kc_user k = Some ue"
  "\<lbrakk>element_sound k; kc_get k = Some f; \<forall>n. f \<noteq> Driver_call n\<rbrakk> \<Longrightarrow> \<exists>ue. kc_user k = Some ue"
  by (cases "kc_user k"; cases f; simp add: element_sound_def driver_call_def)+

text \<open>The id of a value, filled in, has the offset of the id it was found by.\<close>

lemma filled_offset:
  "unat (snd_ctl_get_ioff k i) < m \<Longrightarrow> unat (snd_ctl_get_ioff k (va_id (v\<lparr>va_id := snd_ctl_build_ioff k (snd_ctl_get_ioff k i)\<rparr>))) < m"
  by (simp add: build_get_ioff)

lemma user_get_Some:
  assumes "element_sound k" "kc_user k = Some ue" "unat (snd_ctl_get_ioff k (va_id v)) < unat (kc_count k)" "unat (kc_count k) \<le> 1028"
    "length (va_bytes v) = 512"
  shows "snd_ctl_elem_user_get k v =
    Some (0, v\<lparr>va_bytes := take (unat (ue_data_size ue)) (drop (user_slot k (va_id v)) (ue_data ue)) @ drop (unat (ue_data_size ue)) (va_bytes v)\<rparr>)"
  using user_slot_bound(1) [OF assms(1-4)] assms(1,2,5) by (simp add: snd_ctl_elem_user_get_def Let_def element_sound_def)

lemma read_Some:
  assumes "card_sound (fst st)" "length (va_bytes v) = 512"
  shows "\<exists>r v' d. snd_ctl_elem_read drv pw v st = Some (r, v', fst st, d)"
proof (cases "snd_ctl_find_id (fst st) (va_id v)")
  case None
  then show ?thesis by (cases st) (simp add: snd_ctl_elem_read_def)
next
  case (Some n)
  let ?k = "ca_controls (fst st) ! n"
  note f = found_control [OF assms(1) Some]
  let ?v = "v\<lparr>va_id := snd_ctl_build_ioff ?k (snd_ctl_get_ioff ?k (va_id v))\<rparr>"
  have "\<exists>r v' d. call_get drv g ?k ?v (snd st) = Some (r, v', d)" if get: "kc_get ?k = Some g" for g
  proof (cases "\<exists>n. g = Driver_call n")
    case True
    then obtain m where "g = Driver_call m" by blast
    then show ?thesis by (cases "dr_get drv m ?k ?v (snd st)") (simp add: call_get_def)
  next
    case False
    then obtain ue where "kc_user ?k = Some ue" using user_calls(2) [OF f(3) get] by blast
    from user_get_Some [OF f(3) this filled_offset [OF f(4), of v] placed_count [OF f(2)]] assms(2) show ?thesis
      using False by (cases g) (simp_all add: call_get_def)
  qed
  then show ?thesis using Some f(5) by (cases st) (fastforce simp: snd_ctl_elem_read_def Let_def split: option.splits)
qed

lemma write_Some:
  assumes "card_sound (fst st)" "length (va_bytes v) = 512"
  shows "\<exists>r v' st'. snd_ctl_elem_write mem drv pw file v st = Some (r, v', st') \<and> card_sound (fst st')"
proof (cases "snd_ctl_find_id (fst st) (va_id v)")
  case None
  then show ?thesis using assms(1) by (cases st) (simp add: snd_ctl_elem_write_def)
next
  case (Some n)
  let ?k = "ca_controls (fst st) ! n"
  note f = found_control [OF assms(1) Some]
  let ?v = "v\<lparr>va_id := snd_ctl_build_ioff ?k (snd_ctl_get_ioff ?k (va_id v))\<rparr>"
  have "\<exists>r v' k' d. call_put drv g ?k ?v (snd st) = Some (r, v', k', d) \<and> same_place k' ?k \<and> element_sound k' \<and> charge k' = charge ?k"
    if put: "kc_put ?k = Some g" for g
  proof (cases "\<exists>n. g = Driver_call n")
    case True
    then show ?thesis using f(3) by (auto simp: call_put_def same_place_def split: prod.splits)
  next
    case False
    then obtain ue where "kc_user ?k = Some ue" using user_calls(1) [OF f(3) put] by blast
    from user_put_Some [OF f(3) this filled_offset [OF f(4), of v] placed_count [OF f(2)]] assms(2)
    obtain r k' where "snd_ctl_elem_user_put ?k ?v = Some (r, k')" "same_place k' ?k" "element_sound k'" "charge k' = charge ?k" by auto
    then show ?thesis using False by (cases g) (simp_all add: call_put_def)
  qed
  note call = this
  show ?thesis
  proof (cases "kc_put ?k")
    case None
    then show ?thesis using Some f(5) assms(1) by (simp add: snd_ctl_elem_write_def Let_def del: split_paired_Ex)
  next
    case (Some g)
    with call obtain r v' k' d where c: "call_put drv g ?k ?v (snd st) = Some (r, v', k', d)"
      and k': "same_place k' ?k" "element_sound k'" "charge k' = charge ?k" by blast
    let ?st = "(put_control n k' (fst st), d)"
    have "card_sound (fst ?st)" using put_sound [OF assms(1) f(1) k'] by simp
    then show ?thesis using \<open>snd_ctl_find_id (fst st) (va_id v) = Some n\<close> Some f(5) assms(1)
      by (simp add: snd_ctl_elem_write_def Let_def c del: split_paired_Ex)
  qed
qed

lemma lock_Some:
  assumes "card_sound c"
  shows "\<exists>r c'. snd_ctl_elem_lock bad file i c = Some (r, c') \<and> card_sound c'" "\<exists>r c'. snd_ctl_elem_unlock bad file i c = Some (r, c') \<and> card_sound c'"
  using assms found_control [OF assms] put_vd_sound [OF assms]
  by (cases "snd_ctl_find_id c i"; simp add: snd_ctl_elem_lock_def snd_ctl_elem_unlock_def Let_def)+

lemma activate_Some:
  assumes "card_sound (fst st)"
  shows "\<exists>r j st'. snd_ctl_activate_id mem drv i active st = Some (r, j, st') \<and> card_sound (fst st')"
proof (cases "snd_ctl_find_id (fst st) i")
  case None
  then show ?thesis using assms by (cases st) (simp add: snd_ctl_activate_id_def)
next
  case (Some n)
  note f = found_control [OF assms Some]
  show ?thesis using Some f(5) assms put_vd_sound [OF assms f(1)]
    by (auto simp: snd_ctl_activate_id_def Let_def simp del: split_paired_Ex)
qed

text \<open>
  On a sound card every operation on an element reaches its volatile part and, for an element of a client, its slot of
  data: none of them leaves the arrays.
\<close>

theorem elements_in_bounds:
  assumes "card_sound (fst st)" "length (va_bytes v) = 512"
  shows "snd_ctl_elem_read drv pw v st \<noteq> None \<and> snd_ctl_elem_write mem drv pw file v st \<noteq> None \<and>
    snd_ctl_elem_lock False file i (fst st) \<noteq> None \<and> snd_ctl_elem_unlock False file i (fst st) \<noteq> None \<and>
    snd_ctl_activate_id mem drv i active st \<noteq> None"
  using read_Some [OF assms, of drv pw] write_Some [OF assms, of mem drv pw "file"] lock_Some [OF assms(1), of False "file" i] activate_Some [OF assms(1), of mem drv i active]
  by auto

section \<open>Locks\<close>

text \<open>
  C35. An element locked by another file cannot be written, locked, unlocked, removed or given TLV data: every attempt returns an
  error and leaves the card and the driver as they were.
\<close>

theorem lock_protects:
  assumes "card_sound (fst st)" "snd_ctl_find_id (fst st) (va_id v) = Some n" "owner \<noteq> 0" "owner \<noteq> file" "file \<noteq> 0"
    "vd_owner (kc_vd (ca_controls (fst st) ! n) ! unat (snd_ctl_get_ioff (ca_controls (fst st) ! n) (va_id v))) = owner"
  shows "snd_ctl_elem_write mem drv pw file v st = Some (- EPERM, v, st) \<and>
    snd_ctl_elem_lock False file (va_id v) (fst st) = Some (- EBUSY, fst st) \<and>
    snd_ctl_elem_unlock False file (va_id v) (fst st) = Some (- EPERM, fst st) \<and>
    (\<exists>e<0. snd_ctl_remove_user_ctl mem drv file (va_id v) st = (e, st)) \<and>
    (op = TLV_OP_READ \<or> (\<exists>e<0. call_tlv_handler mem drv pw file op n (va_id v) buf sz st = Some (e, [], st)))"
proof -
  let ?k = "ca_controls (fst st) ! n"
  let ?vd = "kc_vd ?k ! unat (snd_ctl_get_ioff ?k (va_id v))"
  note f = found_control [OF assms(1,2)]
  have "?vd \<in> set (kc_vd ?k)" using f(2,4) by (simp add: placed_control_def sound_control_def)
  then have "\<exists>vd\<in>set (kc_vd ?k). vd_owner vd \<noteq> 0 \<and> vd_owner vd \<noteq> file" using assms(3-6) by auto
  then have "\<exists>e<0. snd_ctl_remove_user_ctl mem drv file (va_id v) st = (e, st)"
    using assms(2) by (simp add: snd_ctl_remove_user_ctl_def Let_def)
  moreover have "snd_ctl_elem_write mem drv pw file v st = Some (- EPERM, v, st)"
    using assms(2-6) f(5) by (simp add: snd_ctl_elem_write_def Let_def split: option.split)
  moreover have "op = TLV_OP_READ \<or> (\<exists>e<0. call_tlv_handler mem drv pw file op n (va_id v) buf sz st = Some (e, [], st))"
    using assms(3-6) f(5) by (simp add: call_tlv_handler_def Let_def)
  ultimately show ?thesis using assms(2-6) f(5) by (simp add: snd_ctl_elem_lock_def snd_ctl_elem_unlock_def Let_def)
qed

lemma same_owner: "vd_owner vd = x \<Longrightarrow> vd\<lparr>vd_owner := x\<rparr> = vd"
  by (cases vd) simp

lemma same_vds: "kc_vd k = x \<Longrightarrow> k\<lparr>kc_vd := x\<rparr> = k"
  by (cases k) simp

text \<open>A free element can be locked; its owner alone can unlock it, and then the card is as before.\<close>

lemma lock_unlock:
  assumes "card_sound c" "file \<noteq> 0" "snd_ctl_elem_lock False file i c = Some (0, c')"
  shows "snd_ctl_elem_unlock False file i c' = Some (0, c)"
proof (cases "snd_ctl_find_id c i")
  case None
  then show ?thesis using assms(3) by (simp add: snd_ctl_elem_lock_def)
next
  case (Some n)
  note f = found_control [OF assms(1) Some]
  let ?k = "ca_controls c ! n"
  let ?off = "snd_ctl_get_ioff ?k i"
  let ?vd = "kc_vd ?k ! unat ?off"
  let ?k1 = "set_vd ?off (?vd\<lparr>vd_owner := file\<rparr>) ?k"
  have free: "vd_owner ?vd = 0" and c': "c' = put_control n ?k1 c"
    using assms(3) Some f(5) by (auto simp: snd_ctl_elem_lock_def Let_def split: if_splits)
  have len: "unat ?off < length (kc_vd ?k)" using f(2,4) by (simp add: placed_control_def sound_control_def)
  have find: "snd_ctl_find_id c' i = Some n" unfolding c' using find_id_put [OF f(1)] Some by simp
  have k1: "ca_controls c' ! n = ?k1" using f(1) by (simp add: c')
  have off: "snd_ctl_get_ioff ?k1 i = ?off" by (simp add: ioff_same_place)
  have vd: "vd_at ?k1 ?off = Some (?vd\<lparr>vd_owner := file\<rparr>)" using len by (simp add: vd_at_def set_vd_def)
  have "set_vd ?off (?vd\<lparr>vd_owner := 0\<rparr>) ?k1 = ?k" using free by (simp add: set_vd_def same_owner same_vds)
  then have "put_control n (set_vd ?off (?vd\<lparr>vd_owner := 0\<rparr>) ?k1) c' = c" by (simp add: c' put_control_def)
  then show ?thesis using assms(2) by (simp add: snd_ctl_elem_unlock_def find k1 off vd Let_def)
qed

section \<open>Values of clients' elements\<close>

text \<open>
  C36. What is written to an element of a client is read back: after a write that succeeds (a result of at least 0; one refused,
  as with \<^verbatim>\<open>-EPERM\<close>, stores nothing), a read of the same id returns the bytes written, as many as the element has. The
  element is one that clients may read (\<^verbatim>\<open>ACCESS_READ\<close>), the card is powered at the write and at the read, and no call comes in between.
\<close>

theorem write_read:
  assumes "card_sound (fst st)" "length (va_bytes v) = 512" "length (va_bytes w) = 512" "va_id w = va_id v"
    "snd_ctl_find_id (fst st) (va_id v) = Some n" "kc_user (ca_controls (fst st) ! n) = Some ue"
    "kc_get (ca_controls (fst st) ! n) = Some User_call" "kc_put (ca_controls (fst st) ! n) = Some User_call"
    "vd_access (kc_vd (ca_controls (fst st) ! n) ! unat (snd_ctl_get_ioff (ca_controls (fst st) ! n) (va_id v))) AND ACCESS_READ \<noteq> 0"
    "snd_ctl_elem_write mem drv 0 file v st = Some (r, v', st')" "0 \<le> r"
  shows "\<exists>w'. snd_ctl_elem_read drv 0 w st' = Some (0, w', st') \<and>
    take (unat (ue_data_size ue)) (va_bytes w') = take (unat (ue_data_size ue)) (va_bytes v)"
proof -
  let ?k = "ca_controls (fst st) ! n"
  let ?off = "snd_ctl_get_ioff ?k (va_id v)"
  let ?v = "v\<lparr>va_id := snd_ctl_build_ioff ?k ?off\<rparr>"
  note f = found_control [OF assms(1,5)]
  have off: "snd_ctl_get_ioff ?k (va_id ?v) = ?off" by (simp add: build_get_ioff)
  obtain r' k' ue' where p: "snd_ctl_elem_user_put ?k ?v = Some (r', k')" "0 \<le> r'" and k': "same_place k' ?k" "element_sound k'"
      "kc_vd k' = kc_vd ?k" "kc_get k' = kc_get ?k" "kc_user k' = Some ue'" "ue_data_size ue' = ue_data_size ue"
      "take (unat (ue_data_size ue)) (drop (user_slot ?k (va_id ?v)) (ue_data ue')) = take (unat (ue_data_size ue)) (va_bytes v)"
    using user_put_Some [OF f(3) assms(6) filled_offset [OF f(4), of v] placed_count [OF f(2)]] assms(2) by auto
  have cs: "ca_controls (fst st') = (ca_controls (fst st))[n := k']"
    using assms(5,8,10,11) f(5) p by (auto simp: snd_ctl_elem_write_def call_put_def Let_def split: if_splits)
  then have "map (\<lambda>k. (kc_id k, kc_count k)) (ca_controls (fst st')) = map (\<lambda>k. (kc_id k, kc_count k)) (ca_controls (fst st))"
    using map_update_same [OF f(1), of "\<lambda>k. (kc_id k, kc_count k)" k'] k'(1) by (simp add: same_place_def)
  note find = find_numid_cong(2) [OF this, of "va_id v", unfolded assms(5)]
  have nth: "ca_controls (fst st') ! n = k'" using f(1) by (simp add: cs)
  have io: "snd_ctl_get_ioff k' i = snd_ctl_get_ioff ?k i" for i by (rule ioff_same_place [OF k'(1)])
  have vd: "vd_at k' ?off = Some (kc_vd ?k ! unat ?off)" using f(2,4) by (simp add: vd_at_def k'(3) placed_control_def sound_control_def)
  let ?w = "w\<lparr>va_id := snd_ctl_build_ioff k' ?off\<rparr>"
  have wid: "snd_ctl_get_ioff k' (va_id ?w) = ?off" by (simp add: build_get_ioff)
  have cnt: "kc_count k' = kc_count ?k" using k'(1) by (simp add: same_place_def)
  have slot: "user_slot k' (va_id ?w) = user_slot ?k (va_id ?v)" by (simp add: user_slot_def build_get_ioff k'(5,6) assms(6))
  have g: "snd_ctl_elem_user_get k' ?w =
      Some (0, ?w\<lparr>va_bytes := take (unat (ue_data_size ue)) (va_bytes v) @ drop (unat (ue_data_size ue)) (va_bytes w)\<rparr>)"
    using user_get_Some [OF k'(2,5), of ?w] f(4) placed_count [OF f(2)] assms(3) unfolding wid slot k'(6,7) cnt by simp
  have sz: "unat (ue_data_size ue) \<le> 512" using f(3) assms(6) by (simp add: element_sound_def)
  have "snd_ctl_elem_read drv 0 w st' =
      Some (0, ?w\<lparr>va_bytes := take (unat (ue_data_size ue)) (va_bytes v) @ drop (unat (ue_data_size ue)) (va_bytes w)\<rparr>, st')"
    using assms(7,9) by (simp add: snd_ctl_elem_read_def assms(4) find nth io vd k'(4) call_get_def g Let_def)
  then show ?thesis using sz assms(2) by auto
qed

section \<open>A card with an element of a client\<close>

text \<open>Two indices, the first locked by the file 9.\<close>

definition tone_control :: kcontrol where
  "tone_control =
     \<lparr>kc_id = sample_id 1 ''Tone'', kc_count = 2, kc_info = User_call, kc_get = Some User_call, kc_put = Some User_call, kc_tlv = No_tlv,
       kc_user = Some \<lparr>ue_info = \<lparr>ei_id = sample_id 0 ''Tone'', ei_type = 2, ei_access = 0, ei_count = 1, ei_owner = 2, ei_range = (0, 10, 1),
           ei_items = 0, ei_item = 0, ei_item_name = [], ei_names_ptr = 0, ei_names_length = 0\<rparr>,
         ue_data = replicate 8 0, ue_data_size = 4, ue_tlv = None, ue_tlv_size = 0, ue_names = None\<rparr>,
       kc_free = Some User_call, kc_vd = [\<lparr>vd_owner = 9, vd_access = 3\<rparr>, \<lparr>vd_owner = 0, vd_access = 3\<rparr>]\<rparr>"

definition tone_card :: ctl_card where
  "tone_card =
     \<lparr>ca_last_numid = 2, ca_controls = [tone_control], ca_count = 2, ca_user_alloc = 304, ca_files = [], ca_shutdown = False, ca_files_list = []\<rparr>"

definition tone_value :: "u32 \<Rightarrow> elem_value" where
  "tone_value n = \<lparr>va_id = sample_id n [], va_bytes = [1, 2, 3, 4] @ replicate 508 0\<rparr>"

lemma tone_sound: "card_sound tone_card"
  by (simp add: card_sound_def numbered_def elements_sound_def charged_def tone_card_def tone_control_def sample_id_def placed_control_def
    sound_control_def first_num_def end_num_def element_sound_def charge_def)

lemma length_tone [simp]: "length (va_bytes (tone_value n)) = 512"
  by (simp add: tone_value_def)

lemma tone_find: "n \<in> {1, 2} \<Longrightarrow> snd_ctl_find_id tone_card (va_id (tone_value n)) = Some 0"
  by (auto simp: tone_card_def tone_control_def tone_value_def sample_id_def snd_ctl_find_id_def snd_ctl_find_numid_def)

lemma tone_write:
  "\<exists>v' st'. snd_ctl_elem_write (\<lambda>i f. True) idle_driver 0 7 (tone_value 2) (tone_card, ()) = Some (0, v', st')"
  by (simp add: snd_ctl_elem_write_def snd_ctl_find_id_def snd_ctl_find_numid_def vd_at_def Let_def tone_card_def tone_control_def tone_value_def sample_id_def
      snd_ctl_get_ioff_def snd_ctl_build_ioff_def call_put_def snd_ctl_elem_user_put_def user_slot_def
      del: split_paired_Ex)

theorem elements_in_bounds_witness: "snd_ctl_elem_read idle_driver 0 (tone_value 2) (tone_card, ()) \<noteq> None"
  using elements_in_bounds [of "(tone_card, ())" "tone_value 2" idle_driver 0] tone_sound by simp

theorem lock_protects_witness: "snd_ctl_elem_write (\<lambda>i f. True) idle_driver 0 7 (tone_value 1) (tone_card, ()) = Some (- EPERM, tone_value 1, tone_card, ())"
proof -
  have "vd_owner (kc_vd (ca_controls (fst (tone_card, ())) ! 0) ! unat (snd_ctl_get_ioff (ca_controls (fst (tone_card, ())) ! 0) (va_id (tone_value 1)))) = 9"
    by (simp add: tone_card_def tone_control_def tone_value_def sample_id_def snd_ctl_get_ioff_def)
  from lock_protects [OF _ _ _ _ _ this, of 7 "\<lambda>i f. True" idle_driver 0 0 "\<lparr>tb_mem = True, tb_bad = False, tb_bytes = []\<rparr>" 0] tone_sound tone_find [of 1]
  show ?thesis by simp
qed

theorem write_read_witness:
  "\<exists>st' w'. snd_ctl_elem_read idle_driver 0 (tone_value 2) st' = Some (0, w', st') \<and> take 4 (va_bytes w') = [1, 2, 3, 4]"
proof -
  obtain v' st' where w: "snd_ctl_elem_write (\<lambda>i f. True) idle_driver 0 7 (tone_value 2) (tone_card, ()) = Some (0, v', st')"
    using tone_write by auto
  have u: "kc_user (ca_controls (fst (tone_card, ())) ! 0) = Some (the (kc_user tone_control))"
    "kc_get (ca_controls (fst (tone_card, ())) ! 0) = Some User_call" "kc_put (ca_controls (fst (tone_card, ())) ! 0) = Some User_call"
    by (simp_all add: tone_card_def tone_control_def)
  have a: "vd_access (kc_vd (ca_controls (fst (tone_card, ())) ! 0) ! unat (snd_ctl_get_ioff (ca_controls (fst (tone_card, ())) ! 0) (va_id (tone_value 2)))) AND ACCESS_READ \<noteq> 0"
    by (simp add: tone_card_def tone_control_def tone_value_def sample_id_def snd_ctl_get_ioff_def)
  from write_read [OF _ length_tone length_tone refl _ u a w] tone_sound tone_find [of 2]
  obtain w' where "snd_ctl_elem_read idle_driver 0 (tone_value 2) st' = Some (0, w', st')"
    "take (unat (ue_data_size (the (kc_user tone_control)))) (va_bytes w') = take (unat (ue_data_size (the (kc_user tone_control)))) (va_bytes (tone_value 2))"
    by auto
  moreover have "unat (ue_data_size (the (kc_user tone_control))) = 4" "take 4 (va_bytes (tone_value 2)) = [1, 2, 3, 4]"
    by (simp_all add: tone_control_def tone_value_def)
  ultimately show ?thesis by metis
qed

text \<open>
  An element is added under the number a client gives, which then is all that is looked at: with an unused number a second element
  of the same identity is accepted.
\<close>

lemma bogus_number_duplicates:
  defines "again \<equiv> tone_control\<lparr>kc_id := sample_id 99 ''Tone''\<rparr>"
  shows "\<exists>st'. ctl_add_replace (\<lambda>i f. True) idle_driver again CTL_ADD_EXCLUSIVE (tone_card, ()) = (0, st') \<and>
    map (\<lambda>k. id_name (kc_id k)) (ca_controls (fst st')) = [''Tone'', ''Tone'']"
proof -
  obtain e st' where r: "ctl_add_replace (\<lambda>i f. True) idle_driver again CTL_ADD_EXCLUSIVE (tone_card, ()) = (e, st')"
    by (rule that [OF surjective_pairing])
  have s: "numbered (fst (tone_card, ()))" "sound_control again" "length (ca_controls (fst (tone_card, ()))) < 50000"
    using tone_sound by (simp_all add: card_sound_def again_def sound_control_def tone_control_def tone_card_def)
  have f: "snd_ctl_find_id (fst (tone_card, ())) (kc_id again) = None" "id_index (kc_id again) = 0" "kc_count again = 2"
    by (simp_all add: again_def tone_card_def tone_control_def sample_id_def snd_ctl_find_id_def snd_ctl_find_numid_def)
  have "e = 0 \<and> (\<exists>n. ca_controls (fst st') = ca_controls tone_card @ [numbered_as again n])"
    using add_replace_result [OF s(1,2) r] s(3) f by (auto simp: kept_controls_def split: if_splits)
  then show ?thesis using r by (auto simp: tone_card_def again_def numbered_as_def tone_control_def sample_id_def)
qed

end
