(* ===== verification/ControlFiles.thy ===== *)
theory ControlFiles
  imports ControlUser
begin

text \<open>
  Files of the control interface: opening and closing, subscription and reading of events, the requests of clients, the
  tables of further requests and of layers, and the control device of a card.
\<close>

section \<open>Opening and closing\<close>

text \<open>What an open finds: the results of \<^verbatim>\<open>stream_open\<close> and of the module reference, the card, and memory for the two records.\<close>

record open_env =
  oe_stream :: int
  oe_card :: bool
  oe_monitor_mem :: bool
  oe_module :: bool
  oe_mem :: bool
  oe_pid :: int
  oe_addr :: nat

text \<open>The list of the open files of a card in \<^verbatim>\<open>init.c\<close>; references to the device of the card are left out.\<close>

definition snd_card_file_add :: "bool \<Rightarrow> nat \<Rightarrow> ctl_card \<Rightarrow> int \<times> ctl_card" where
  "snd_card_file_add has_mem file c =
     (if \<not> has_mem then (- ENOMEM, c) else if ca_shutdown c then (- ENODEV, c) else (0, c\<lparr>ca_files_list := file # ca_files_list c\<rparr>))"

definition snd_card_file_remove :: "nat \<Rightarrow> ctl_card \<Rightarrow> int \<times> ctl_card" where
  "snd_card_file_remove file c =
     (if file \<in> set (ca_files_list c) then (0, c\<lparr>ca_files_list := remove1 file (ca_files_list c)\<rparr>) else (- ENOENT, c))"

lemma file_remove_keeps [simp]:
  "ca_controls (snd (snd_card_file_remove file c)) = ca_controls c" "ca_user_alloc (snd (snd_card_file_remove file c)) = ca_user_alloc c"
  by (simp_all add: snd_card_file_remove_def)

definition new_ctl_file :: "open_env \<Rightarrow> ctl_file" where
  "new_ctl_file e =
     \<lparr>cf_addr = oe_addr e, cf_pid = oe_pid e, cf_preferred = (\<lambda>_. - 1), cf_subscribed = False, cf_events = [], cf_wakeups = 0\<rparr>"

definition snd_ctl_open :: "open_env \<Rightarrow> ctl_card \<Rightarrow> int \<times> ctl_card" where
  "snd_ctl_open e c =
     (if oe_stream e < 0 then (oe_stream e, c)
      else if \<not> oe_card e then (- ENODEV, c)
      else
        let (err, c) = snd_card_file_add (oe_monitor_mem e) (oe_addr e) c
        in if err < 0 then (- ENODEV, c)
           else if \<not> oe_module e then (- EFAULT, snd (snd_card_file_remove (oe_addr e) c))
           else if \<not> oe_mem e then (- ENOMEM, snd (snd_card_file_remove (oe_addr e) c))
           else (0, c\<lparr>ca_files := ca_files c @ [new_ctl_file e]\<rparr>))"

definition snd_ctl_empty_read_queue :: "ctl_file \<Rightarrow> ctl_file" where
  "snd_ctl_empty_read_queue f = f\<lparr>cf_events := []\<rparr>"

definition disown :: "nat \<Rightarrow> kcontrol \<Rightarrow> kcontrol" where
  "disown file k = k\<lparr>kc_vd := map (\<lambda>vd. if vd_owner vd = file then vd\<lparr>vd_owner := 0\<rparr> else vd) (kc_vd k)\<rparr>"

definition snd_ctl_release :: "nat \<Rightarrow> ctl_card \<Rightarrow> int \<times> ctl_card" where
  "snd_ctl_release file c =
     (let c = c\<lparr>ca_files := filter (\<lambda>f. cf_addr f \<noteq> file) (ca_files c), ca_controls := map (disown file) (ca_controls c)\<rparr>
      in (0, snd (snd_card_file_remove file c)))"

section \<open>Events\<close>

text \<open>The request reads \<open>v\<close>, or \<open>None\<close> when that faults; a negative one asks for the state. The reply is the state.\<close>

definition snd_ctl_subscribe_events :: "int option \<Rightarrow> bool \<Rightarrow> ctl_file \<Rightarrow> int \<times> int option \<times> ctl_file" where
  "snd_ctl_subscribe_events v bad_out f =
     (case v of
        None \<Rightarrow> (- EFAULT, None, f)
      | Some subscribe \<Rightarrow>
          if subscribe < 0 then if bad_out then (- EFAULT, None, f) else (0, Some (if cf_subscribed f then 1 else 0), f)
          else if subscribe \<noteq> 0 then (0, None, f\<lparr>cf_subscribed := True\<rparr>)
          else if cf_subscribed f then (0, None, (snd_ctl_empty_read_queue f)\<lparr>cf_subscribed := False\<rparr>)
          else (0, None, f))"

text \<open>
  What happens to the file while a reader has released its lock for the \<open>t\<close>-th time, and whether the card is shut down and a
  signal pending then. \<^verbatim>\<open>schedule()\<close> is empty in this build: a reader that waits asks again at once.
\<close>

record ctl_turns =
  ct_file :: "nat \<Rightarrow> ctl_file \<Rightarrow> ctl_file"
  ct_shutdown :: "nat \<Rightarrow> bool"
  ct_signal :: "nat \<Rightarrow> bool"

abbreviation (input) ERESTARTSYS :: int where "ERESTARTSYS \<equiv> 512"

partial_function (option) wait_event :: "ctl_turns \<Rightarrow> bool \<Rightarrow> nat \<Rightarrow> ctl_file \<Rightarrow> (int \<times> nat \<times> ctl_file) option" where
  "wait_event ts nonblock t f =
     (if cf_events f \<noteq> [] then Some (0, t, f)
      else if nonblock then Some (- EAGAIN, t, f)
      else
        let f = ct_file ts t f
        in if ct_shutdown ts t then Some (- ENODEV, Suc t, f)
           else if ct_signal ts t then Some (- ERESTARTSYS, Suc t, f)
           else wait_event ts nonblock (Suc t) f)"

text \<open>\<^verbatim>\<open>sizeof(struct snd_ctl_event)\<close>; \<open>bad n\<close>: the copy of the \<open>n\<close>-th event to the client faults.\<close>

abbreviation (input) CTL_EVENT_SIZE :: nat where "CTL_EVENT_SIZE \<equiv> 72"

partial_function (option) read_events ::
  "ctl_turns \<Rightarrow> bool \<Rightarrow> (nat \<Rightarrow> bool) \<Rightarrow> nat \<Rightarrow> nat \<Rightarrow> ctl_file \<Rightarrow> (elem_id \<times> u32) list \<Rightarrow> (int \<times> ctl_file \<times> (elem_id \<times> u32) list) option" where
  "read_events ts nonblock bad n t f out =
     (if n \<ge> CTL_EVENT_SIZE then
        Option.bind (wait_event ts (nonblock \<or> out \<noteq> []) t f) (\<lambda>(err, t, f).
          if err < 0 then Some (if out \<noteq> [] then int (CTL_EVENT_SIZE * length out) else err, f, out)
          else
            let ev = hd (cf_events f); f = f\<lparr>cf_events := List.tl (cf_events f)\<rparr>
            in if bad (length out) then Some (if out \<noteq> [] then int (CTL_EVENT_SIZE * length out) else - EFAULT, f, out)
               else read_events ts nonblock bad (n - CTL_EVENT_SIZE) t f (out @ [ev]))
      else Some (int (CTL_EVENT_SIZE * length out), f, out))"

definition snd_ctl_read ::
  "ctl_turns \<Rightarrow> bool \<Rightarrow> (nat \<Rightarrow> bool) \<Rightarrow> nat \<Rightarrow> ctl_file \<Rightarrow> (int \<times> ctl_file \<times> (elem_id \<times> u32) list) option" where
  "snd_ctl_read ts nonblock bad n f =
     (if \<not> cf_subscribed f then Some (- EBADFD, f, [])
      else if n < CTL_EVENT_SIZE then Some (- EINVAL, f, [])
      else read_events ts nonblock bad n 0 f [])"

text \<open>\<^verbatim>\<open>EPOLLIN | EPOLLRDNORM\<close>.\<close>

definition snd_ctl_poll :: "ctl_file \<Rightarrow> u32" where
  "snd_ctl_poll f = (if \<not> cf_subscribed f then 0 else if cf_events f \<noteq> [] then 0x41 else 0)"

definition snd_ctl_get_preferred_subdevice :: "int \<Rightarrow> nat \<Rightarrow> ctl_card \<Rightarrow> int" where
  "snd_ctl_get_preferred_subdevice pid ty c =
     (case find (\<lambda>f. cf_pid f = pid \<and> cf_preferred f ty \<noteq> - 1) (ca_files c) of None \<Rightarrow> - 1 | Some f \<Rightarrow> cf_preferred f ty)"

section \<open>Tables\<close>

text \<open>Handlers of further requests and layers, by address.\<close>

definition ctl_register_ioctl :: "bool \<Rightarrow> nat \<Rightarrow> nat list \<Rightarrow> int \<times> nat list" where
  "ctl_register_ioctl has_mem fcn fs = (if has_mem then (0, fs @ [fcn]) else (- ENOMEM, fs))"

definition ctl_unregister_ioctl :: "nat \<Rightarrow> nat list \<Rightarrow> int \<times> nat list" where
  "ctl_unregister_ioctl fcn fs = (if fcn \<in> set fs then (0, remove1 fcn fs) else (- EINVAL, fs))"

definition snd_ctl_register_layer :: "('d \<Rightarrow> 'd) list \<Rightarrow> nat \<Rightarrow> nat list \<times> 'd \<Rightarrow> nat list \<times> 'd" where
  "snd_ctl_register_layer cards lops st = (lops # fst st, fold (\<lambda>lregister. lregister) cards (snd st))"

definition snd_ctl_disconnect_layer :: "nat \<Rightarrow> nat list \<Rightarrow> nat list" where
  "snd_ctl_disconnect_layer lops layers = remove1 lops layers"

section \<open>The control device\<close>

function snd_ctl_dev_free :: "event_mem \<Rightarrow> 'd ctl_driver \<Rightarrow> ctl_card \<times> 'd \<Rightarrow> ctl_card \<times> 'd" where
  "snd_ctl_dev_free mem drv st =
     (if ca_controls (fst st) \<noteq> [] then snd_ctl_dev_free mem drv (snd (snd_ctl_remove mem drv 0 st)) else st)"
  by pat_completeness auto
termination
  by (relation "measure (\<lambda>(mem, drv, st). length (ca_controls (fst st)))") (simp_all add: remove_parts)

declare snd_ctl_dev_free.simps [simp del]

definition snd_ctl_dev_disconnect :: "ctl_card \<Rightarrow> ctl_card" where
  "snd_ctl_dev_disconnect c = c\<lparr>ca_files := map (\<lambda>f. f\<lparr>cf_wakeups := cf_wakeups f + 1\<rparr>) (ca_files c)\<rparr>"

section \<open>Callbacks of drivers\<close>

definition snd_ctl_boolean_mono_info :: "elem_info \<Rightarrow> int \<times> elem_info" where
  "snd_ctl_boolean_mono_info info = (0, info\<lparr>ei_type := 1, ei_count := 1, ei_range := (0, 1, snd (snd (ei_range info)))\<rparr>)"

definition snd_ctl_boolean_stereo_info :: "elem_info \<Rightarrow> int \<times> elem_info" where
  "snd_ctl_boolean_stereo_info info = (0, info\<lparr>ei_type := 1, ei_count := 2, ei_range := (0, 1, snd (snd (ei_range info)))\<rparr>)"

text \<open>\<open>None\<close>: fewer names than items.\<close>

definition snd_ctl_enum_info :: "elem_info \<Rightarrow> u32 \<Rightarrow> u32 \<Rightarrow> string list \<Rightarrow> (int \<times> elem_info) option" where
  "snd_ctl_enum_info info channels items names =
     (let info = info\<lparr>ei_type := TYPE_ENUMERATED, ei_count := channels, ei_items := items\<rparr>
      in if items = 0 then Some (0, info)
         else
           let info = (if ei_item info \<ge> items then info\<lparr>ei_item := items - 1\<rparr> else info)
           in if unat (ei_item info) < length names then Some (0, info\<lparr>ei_item_name := take 63 (names ! unat (ei_item info))\<rparr>) else None)"

section \<open>Requests of clients\<close>

text \<open>A request with what its copies from and to the client do.\<close>

datatype ctl_request =
    Req_pversion bool
  | Req_card_info int
  | Req_list bool bool "nat \<Rightarrow> bool" u32 u32
  | Req_info bool bool elem_info
  | Req_read bool bool bool elem_value
  | Req_write bool bool bool elem_value
  | Req_lock bool elem_id
  | Req_unlock bool elem_id
  | Req_add bool bool user_memory elem_info
  | Req_replace bool bool user_memory elem_info
  | Req_remove bool elem_id
  | Req_subscribe "int option" bool
  | Req_tlv_read bool u32 u32 tlv_buffer
  | Req_tlv_write bool u32 u32 tlv_buffer
  | Req_tlv_command bool u32 u32 tlv_buffer
  | Req_power
  | Req_power_state bool
  | Req_other u32

datatype ctl_reply = No_reply | Number_reply int | List_reply u32 "elem_id list" | Info_reply elem_info | Value_reply elem_value | Tlv_reply "u8 list"

text \<open>The results of waiting for power, the processes of files, and the handlers of further requests.\<close>

record 'd ctl_env =
  ce_power :: int
  ce_pids :: "nat \<Rightarrow> int"
  ce_handlers :: "(u32 \<Rightarrow> ctl_card \<times> 'd \<Rightarrow> int \<times> ctl_card \<times> 'd) list"

abbreviation (input) ENOIOCTLCMD :: int where "ENOIOCTLCMD \<equiv> 515"
abbreviation (input) ENOPROTOOPT :: int where "ENOPROTOOPT \<equiv> 92"

fun other_request :: "(u32 \<Rightarrow> ctl_card \<times> 'd \<Rightarrow> int \<times> ctl_card \<times> 'd) list \<Rightarrow> u32 \<Rightarrow> ctl_card \<times> 'd \<Rightarrow> int \<times> ctl_card \<times> 'd" where
  "other_request [] cmd st = (- ENOTTY, st)"
| "other_request (h # hs) cmd st = (let (err, st) = h cmd st in if err \<noteq> - ENOIOCTLCMD then (err, st) else other_request hs cmd st)"

definition snd_ctl_elem_list_user :: "bool \<Rightarrow> bool \<Rightarrow> (nat \<Rightarrow> bool) \<Rightarrow> u32 \<Rightarrow> u32 \<Rightarrow> ctl_card \<Rightarrow> int \<times> ctl_reply" where
  "snd_ctl_elem_list_user bad_in bad_out bad off space c =
     (if bad_in then (- EFAULT, No_reply)
      else
        let (err, cnt, ids) = snd_ctl_elem_list bad off space c
        in if err \<noteq> 0 then (err, No_reply) else if bad_out then (- EFAULT, No_reply) else (0, List_reply cnt ids))"

text \<open>The file of a request is the one of that address.\<close>

definition update_file :: "nat \<Rightarrow> (ctl_file \<Rightarrow> ctl_file) \<Rightarrow> ctl_card \<Rightarrow> ctl_card" where
  "update_file file g c = c\<lparr>ca_files := map (\<lambda>f. if cf_addr f = file then g f else f) (ca_files c)\<rparr>"

definition subscribe_request :: "int option \<Rightarrow> bool \<Rightarrow> nat \<Rightarrow> ctl_card \<Rightarrow> (int \<times> ctl_reply \<times> ctl_card) option" where
  "subscribe_request v bad_out file c =
     map_option (\<lambda>f. let (err, reply, g) = snd_ctl_subscribe_events v bad_out f
         in (err, (case reply of None \<Rightarrow> No_reply | Some x \<Rightarrow> Number_reply x), update_file file (\<lambda>_. g) c))
       (find (\<lambda>f. cf_addr f = file) (ca_files c))"

definition snd_ctl_ioctl ::
  "event_mem \<Rightarrow> 'd ctl_driver \<Rightarrow> 'd ctl_env \<Rightarrow> nat \<Rightarrow> ctl_request \<Rightarrow> ctl_card \<times> 'd \<Rightarrow> (int \<times> ctl_reply \<times> ctl_card \<times> 'd) option" where
  "snd_ctl_ioctl mem drv env file req st =
     (let (c, d) = st; pw = ce_power env
      in case req of
           Req_pversion bad \<Rightarrow> Some (if bad then (- EFAULT, No_reply, st) else (0, Number_reply 0x20008, st))
         | Req_card_info status \<Rightarrow> Some (status, No_reply, st)
         | Req_list bad_in bad_out bad off space \<Rightarrow>
             (let (err, reply) = snd_ctl_elem_list_user bad_in bad_out bad off space c in Some (err, reply, st))
         | Req_info bad_in bad_out info \<Rightarrow>
             map_option (\<lambda>(err, info, st). (err, Info_reply info, st)) (snd_ctl_elem_info_user drv pw (ce_pids env) bad_in bad_out file info st)
         | Req_read has_mem bad_in bad_out v \<Rightarrow>
             map_option (\<lambda>(err, v, st). (err, Value_reply v, st)) (snd_ctl_elem_read_user drv pw has_mem bad_in bad_out v st)
         | Req_write has_mem bad_in bad_out v \<Rightarrow>
             map_option (\<lambda>(err, v, st). (err, Value_reply v, st)) (snd_ctl_elem_write_user mem drv pw has_mem bad_in bad_out file v st)
         | Req_lock bad i \<Rightarrow> map_option (\<lambda>(err, c). (err, No_reply, c, d)) (snd_ctl_elem_lock bad file i c)
         | Req_unlock bad i \<Rightarrow> map_option (\<lambda>(err, c). (err, No_reply, c, d)) (snd_ctl_elem_unlock bad file i c)
         | Req_add bad_in bad_out um info \<Rightarrow>
             (let (err, info, st) = snd_ctl_elem_add_user mem drv um bad_in bad_out file info False st in Some (err, Info_reply info, st))
         | Req_replace bad_in bad_out um info \<Rightarrow>
             (let (err, info, st) = snd_ctl_elem_add_user mem drv um bad_in bad_out file info True st in Some (err, Info_reply info, st))
         | Req_remove bad i \<Rightarrow> (let (err, st) = snd_ctl_elem_remove mem drv bad file i st in Some (err, No_reply, st))
         | Req_subscribe v bad_out \<Rightarrow> map_option (\<lambda>(err, reply, c). (err, reply, c, d)) (subscribe_request v bad_out file c)
         | Req_tlv_read bad numid sz buf \<Rightarrow>
             map_option (\<lambda>(err, bytes, st). (err, Tlv_reply bytes, st)) (snd_ctl_tlv_ioctl mem drv pw file bad numid sz buf TLV_OP_READ st)
         | Req_tlv_write bad numid sz buf \<Rightarrow>
             map_option (\<lambda>(err, bytes, st). (err, Tlv_reply bytes, st)) (snd_ctl_tlv_ioctl mem drv pw file bad numid sz buf TLV_OP_WRITE st)
         | Req_tlv_command bad numid sz buf \<Rightarrow>
             map_option (\<lambda>(err, bytes, st). (err, Tlv_reply bytes, st)) (snd_ctl_tlv_ioctl mem drv pw file bad numid sz buf TLV_OP_CMD st)
         | Req_power \<Rightarrow> Some (- ENOPROTOOPT, No_reply, st)
         | Req_power_state bad \<Rightarrow> Some (if bad then (- EFAULT, No_reply, st) else (0, Number_reply 0, st))
         | Req_other cmd \<Rightarrow> (let (err, st) = other_request (ce_handlers env) cmd st in Some (err, No_reply, st)))"

section \<open>No event is lost\<close>

text \<open>What a client learns of an element: the union of the masks of its events.\<close>

definition masks :: "u32 \<Rightarrow> (elem_id \<times> u32) list \<Rightarrow> u32" where
  "masks n evs = foldr (\<lambda>(i, m) a. if id_numid i = n then m OR a else a) evs 0"

lemma masks_simps [simp]: "masks n [] = 0" "masks n ((i, m) # evs) = (if id_numid i = n then m OR masks n evs else masks n evs)"
  by (simp_all add: masks_def)

lemma masks_append [simp]: "masks n (xs @ ys) = masks n xs OR masks n ys"
  by (induction xs) (auto simp: or.assoc)

definition event_nums :: "(elem_id \<times> u32) list \<Rightarrow> u32 list" where
  "event_nums evs = map (\<lambda>(i, m). id_numid i) evs"

lemma merge_event_None: "merge_event mk i evs = None \<longleftrightarrow> id_numid i \<notin> set (event_nums evs)"
  by (induction mk i evs rule: merge_event.induct) (auto simp: event_nums_def)

lemma merge_event_Some:
  "merge_event mk i evs = Some evs' \<Longrightarrow> event_nums evs' = event_nums evs \<and> masks n evs' = masks n evs OR (if id_numid i = n then mk else 0)"
proof (induction mk i evs arbitrary: evs' rule: merge_event.induct)
  case (2 mk i j m evs)
  show ?case
  proof (cases "id_numid j = id_numid i")
    case True
    then show ?thesis using 2(2) by (auto simp: event_nums_def ac_simps)
  next
    case False
    with 2(2) obtain es where "merge_event mk i evs = Some es" "evs' = (j, m) # es" by auto
    with 2(1) [OF False this(1)] show ?thesis by (auto simp: event_nums_def or.assoc)
  qed
qed simp

text \<open>The event a notification loses: there is none pending for the element and no memory for a new one.\<close>

definition unqueued :: "bool \<Rightarrow> u32 \<Rightarrow> elem_id \<Rightarrow> ctl_file \<Rightarrow> (elem_id \<times> u32) list" where
  "unqueued has_mem mk i f = (if has_mem \<or> id_numid i \<in> set (event_nums (cf_events f)) then [] else [(i, mk)])"

lemma notify_file_events:
  assumes "cf_subscribed f" "f' = notify_file (\<lambda>i a. has_mem) mk i f"
  shows "masks n (cf_events f' @ unqueued has_mem mk i f) = masks n (cf_events f) OR (if id_numid i = n then mk else 0)"
    "distinct (event_nums (cf_events f)) \<Longrightarrow> distinct (event_nums (cf_events f'))" "cf_subscribed f'" "cf_wakeups f' = cf_wakeups f + 1"
proof -
  show "cf_subscribed f'" "cf_wakeups f' = cf_wakeups f + 1" using assms(1) by (simp_all add: assms(2) notify_file_def)
  show "masks n (cf_events f' @ unqueued has_mem mk i f) = masks n (cf_events f) OR (if id_numid i = n then mk else 0)"
  proof (cases "merge_event mk i (cf_events f)")
    case None
    then show ?thesis using assms(1) merge_event_None [of mk i "cf_events f"]
      by (simp add: assms(2) notify_file_def unqueued_def)
  next
    case (Some evs)
    moreover have "id_numid i \<in> set (event_nums (cf_events f))" using merge_event_None [of mk i "cf_events f"] Some by simp
    ultimately show ?thesis using assms(1) merge_event_Some [OF Some, of n]
      by (simp add: assms(2) notify_file_def unqueued_def)
  qed
  show "distinct (event_nums (cf_events f')) " if "distinct (event_nums (cf_events f))"
    using that assms(1) merge_event_Some [of mk i "cf_events f"] merge_event_None [of mk i "cf_events f"]
    by (auto simp: assms(2) notify_file_def event_nums_def split: option.splits)
qed

text \<open>A read that does not wait: it takes events from the front, and the last of them is lost when its copy faults.\<close>

lemma read_events_takes:
  "\<exists>r k e. read_events ts True bad n t f out = Some (r, f\<lparr>cf_events := drop (k + e) (cf_events f)\<rparr>, out @ take k (cf_events f)) \<and>
     k + e \<le> length (cf_events f) \<and> (e = 0 \<or> e = 1 \<and> bad (length out + k))"
proof (induction n arbitrary: f out rule: less_induct)
  case (less n)
  show ?case
  proof (cases "n < 72 \<or> cf_events f = []")
    case True
    then have "\<exists>r. read_events ts True bad n t f out = Some (r, f, out)"
      by (cases "n < 72") (subst read_events.simps, subst wait_event.simps, simp)+
    then show ?thesis by (elim exE) (rule exI, rule exI [of _ 0], rule exI [of _ 0], simp)
  next
    case False
    then obtain ev evs where ev: "cf_events f = ev # evs" by (cases "cf_events f") auto
    show ?thesis
    proof (cases "bad (length out)")
      case True
      then have "\<exists>r. read_events ts True bad n t f out = Some (r, f\<lparr>cf_events := evs\<rparr>, out)"
        using False ev by (subst read_events.simps, subst wait_event.simps) simp
      then show ?thesis using True ev by (elim exE) (rule exI, rule exI [of _ 0], rule exI [of _ 1], simp)
    next
      case ok: False
      have "read_events ts True bad n t f out = read_events ts True bad (n - 72) t (f\<lparr>cf_events := evs\<rparr>) (out @ [ev])"
        using False ok ev by (subst read_events.simps, subst wait_event.simps) simp
      moreover have "n - 72 < n" using False by simp
      from less [OF this, of "f\<lparr>cf_events := evs\<rparr>" "out @ [ev]"] obtain r k e where
        "read_events ts True bad (n - 72) t (f\<lparr>cf_events := evs\<rparr>) (out @ [ev]) =
           Some (r, f\<lparr>cf_events := drop (k + e) evs\<rparr>, (out @ [ev]) @ take k evs)"
        "k + e \<le> length evs" "e = 0 \<or> e = 1 \<and> bad (Suc (length out) + k)" by auto
      ultimately show ?thesis using ev
        by (intro exI [of _ r] exI [of _ "Suc k"] exI [of _ e]) simp
    qed
  qed
qed

text \<open>
  A file with its notifications and the reads that do not wait: whether a record can be allocated, and which copies to the
  client fault, is part of the action. The events that have been read and those that have been lost are collected.
\<close>

datatype file_act = Notified bool u32 elem_id | Was_read "nat \<Rightarrow> bool" nat

fun file_run ::
  "ctl_turns \<Rightarrow> file_act list \<Rightarrow> ctl_file \<Rightarrow> (elem_id \<times> u32) list \<Rightarrow> (elem_id \<times> u32) list \<Rightarrow>
   ctl_file \<times> (elem_id \<times> u32) list \<times> (elem_id \<times> u32) list" where
  "file_run ts [] f got lost = (f, got, lost)"
| "file_run ts (Notified has_mem mk i # acts) f got lost =
     file_run ts acts (notify_file (\<lambda>i a. has_mem) mk i f) got (lost @ unqueued has_mem mk i f)"
| "file_run ts (Was_read bad n # acts) f got lost =
     (case snd_ctl_read ts True bad n f of
        None \<Rightarrow> (f, got, lost)
      | Some (r, f', evs) \<Rightarrow>
          file_run ts acts f' (got @ evs) (lost @ drop (length evs) (take (length (cf_events f) - length (cf_events f')) (cf_events f))))"

fun notified :: "file_act list \<Rightarrow> (elem_id \<times> u32) list" where
  "notified [] = []"
| "notified (Notified has_mem mk i # acts) = (i, mk) # notified acts"
| "notified (Was_read bad n # acts) = notified acts"

text \<open>The actions that can lose an event.\<close>

definition failing :: "file_act \<Rightarrow> bool" where
  "failing a \<longleftrightarrow> (case a of Notified has_mem mk i \<Rightarrow> \<not> has_mem | Was_read bad n \<Rightarrow> (\<exists>k. bad k))"

lemma read_splits:
  assumes "cf_subscribed f"
  shows "\<exists>r k e. snd_ctl_read ts True bad n f = Some (r, f\<lparr>cf_events := drop (k + e) (cf_events f)\<rparr>, take k (cf_events f)) \<and>
    k + e \<le> length (cf_events f) \<and> (e = 0 \<or> e = 1 \<and> bad k)"
proof (cases "n < 72")
  case True
  then show ?thesis using assms by (intro exI [of _ "- EINVAL"] exI [of _ 0]) (simp add: snd_ctl_read_def)
next
  case False
  then show ?thesis using assms read_events_takes [of ts bad n 0 f "[]"] by (simp add: snd_ctl_read_def)
qed

lemma event_nums_drop: "distinct (event_nums evs) \<Longrightarrow> distinct (event_nums (drop k evs))"
  by (simp add: event_nums_def drop_map [symmetric])

lemma file_run_keeps:
  assumes "cf_subscribed f" "distinct (event_nums (cf_events f))" "file_run ts acts f got lost = (f', got', lost')"
  shows "cf_subscribed f' \<and> distinct (event_nums (cf_events f')) \<and>
    masks n (got' @ cf_events f' @ lost') = masks n (got @ cf_events f @ lost) OR masks n (notified acts) \<and>
    length lost' \<le> length lost + length (filter failing acts)"
  using assms
proof (induction ts acts f got lost rule: file_run.induct)
  case (1 ts f got lost)
  then show ?case by auto
next
  case (2 ts has_mem mk i acts f got lost)
  note e = notify_file_events [OF 2(2) refl, where mk = mk and i = i and has_mem = has_mem]
  have m: "masks n (cf_events (notify_file (\<lambda>i a. has_mem) mk i f)) OR masks n (unqueued has_mem mk i f) =
      masks n (cf_events f) OR (if id_numid i = n then mk else 0)"
    using e(1) by simp
  have "length (unqueued has_mem mk i f) \<le> (if failing (Notified has_mem mk i) then 1 else 0)"
    by (simp add: unqueued_def failing_def)
  moreover have "masks n (got @ cf_events (notify_file (\<lambda>i a. has_mem) mk i f) @ lost @ unqueued has_mem mk i f) =
      masks n (got @ cf_events f @ lost) OR (if id_numid i = n then mk else 0)"
  proof -
    have "masks n (got @ cf_events (notify_file (\<lambda>i a. has_mem) mk i f) @ lost @ unqueued has_mem mk i f) =
        masks n got OR masks n lost OR (masks n (cf_events (notify_file (\<lambda>i a. has_mem) mk i f)) OR masks n (unqueued has_mem mk i f))"
      by (simp add: ac_simps)
    then show ?thesis unfolding m by (simp add: ac_simps)
  qed
  ultimately show ?case using 2(1) [OF e(3) e(2) [OF 2(3)]] 2(4)
    by (auto simp: or.assoc split: if_splits)
next
  case (3 ts bad m acts f got lost)
  obtain r k e where r: "snd_ctl_read ts True bad m f = Some (r, f\<lparr>cf_events := drop (k + e) (cf_events f)\<rparr>, take k (cf_events f))"
    "k + e \<le> length (cf_events f)" "e = 0 \<or> e = 1 \<and> bad k"
    using read_splits [OF 3(2)] by blast
  let ?gone = "drop k (take (k + e) (cf_events f))"
  have cut: "take k (cf_events f) @ ?gone @ drop (k + e) (cf_events f) = cf_events f"
    by (metis append.assoc append_take_drop_id le_add1 min.absorb1 take_take)
  have len: "length (take k (cf_events f)) = k" "length (cf_events f) - (length (cf_events f) - (k + e)) = k + e"
    using r(2) by simp_all
  have run: "file_run ts acts (f\<lparr>cf_events := drop (k + e) (cf_events f)\<rparr>) (got @ take k (cf_events f)) (lost @ ?gone) = (f', got', lost')"
    using 3(4) r(1) len by (simp add: min_absorb2)
  have "masks n ((got @ take k (cf_events f)) @ drop (k + e) (cf_events f) @ lost @ ?gone) =
      masks n got OR masks n lost OR masks n (take k (cf_events f) @ ?gone @ drop (k + e) (cf_events f))"
    by (simp add: ac_simps)
  then have ms: "masks n ((got @ take k (cf_events f)) @ drop (k + e) (cf_events f) @ lost @ ?gone) = masks n (got @ cf_events f @ lost)"
    unfolding cut by (simp add: ac_simps)
  have gone: "length ?gone \<le> (if failing (Was_read bad m) then 1 else 0)" using r(2,3) by (auto simp: failing_def)
  have ih: "cf_subscribed f' \<and> distinct (event_nums (cf_events f')) \<and>
      masks n (got' @ cf_events f' @ lost') =
        masks n ((got @ take k (cf_events f)) @ drop (k + e) (cf_events f) @ lost @ ?gone) OR masks n (notified acts) \<and>
      length lost' \<le> length (lost @ ?gone) + length (filter failing acts)"
    using 3(1) [OF r(1) refl refl] 3(2,3) run len by (simp add: event_nums_drop min_absorb2)
  show ?case using ih gone unfolding ms by (auto split: if_splits)
qed

text \<open>
  C7. However notifications and reads of a subscribed file are mixed, the reads not waiting for an event, every change is
  accounted for: for every element the events read, those pending and those lost together tell exactly the masks that were pending
  before or notified since, and at most one event of an element is pending. At most one event is lost by each notification for
  which no record could be allocated and by each read in which a copy to the client faults; without these nothing is lost.
\<close>

theorem events_not_lost:
  assumes "cf_subscribed f" "distinct (event_nums (cf_events f))" "file_run ts acts f [] [] = (f', got, lost)"
  shows "masks n (got @ cf_events f' @ lost) = masks n (cf_events f @ notified acts) \<and> distinct (event_nums (cf_events f')) \<and>
    length lost \<le> length (filter failing acts) \<and> ((\<forall>a\<in>set acts. \<not> failing a) \<longrightarrow> lost = [])"
  using file_run_keeps [OF assms, of n] by (auto simp: filter_empty_conv)

definition sample_file :: ctl_file where
  "sample_file =
     \<lparr>cf_addr = 7, cf_pid = 1, cf_preferred = (\<lambda>_. - 1), cf_subscribed = True, cf_events = [], cf_wakeups = 0\<rparr>"

definition idle_turns :: ctl_turns where
  "idle_turns = \<lparr>ct_file = (\<lambda>t f. f), ct_shutdown = (\<lambda>t. False), ct_signal = (\<lambda>t. False)\<rparr>"

text \<open>
  Two changes of one element and one of another, then a read of a single event; a change of a third element for which
  there is no memory, and a read whose copy faults.
\<close>

definition sample_acts :: "file_act list" where
  "sample_acts = [Notified True MASK_VALUE (sample_id 1 ''Master''), Notified True MASK_VALUE (sample_id 2 ''Mic''),
     Notified True MASK_INFO (sample_id 1 ''Master''), Was_read (\<lambda>j. False) 100,
     Notified False MASK_VALUE (sample_id 3 ''Line''), Was_read (\<lambda>j. True) 100]"

lemma sample_run:
  "file_run idle_turns sample_acts sample_file [] [] =
     (sample_file\<lparr>cf_events := [], cf_wakeups := 4\<rparr>, [(sample_id 1 ''Master'', 3)], [(sample_id 3 ''Line'', 1), (sample_id 2 ''Mic'', 1)])"
  by (simp add: sample_acts_def sample_file_def notify_file_def sample_id_def snd_ctl_read_def unqueued_def event_nums_def
      read_events.simps wait_event.simps)

theorem events_not_lost_witness:
  "masks 1 ([(sample_id 1 ''Master'', 3)] @ [(sample_id 3 ''Line'', 1), (sample_id 2 ''Mic'', 1)]) = masks 1 (notified sample_acts)"
  using events_not_lost [OF _ _ sample_run, of 1] by (simp add: sample_file_def event_nums_def)

text \<open>A blocking reader of a file for which no event comes never returns: it asks again and again without giving up the processor.\<close>

lemma blocking_read_spins:
  assumes "cf_events f = []"
  shows "wait_event idle_turns False t f = None"
proof -
  have "ts = idle_turns \<longrightarrow> \<not> b \<longrightarrow> cf_events f = [] \<longrightarrow> False" if "wait_event ts b t f = Some r" for ts b t f r
  proof (rule wait_event.raw_induct [OF _ that, where P = "\<lambda>ts b t f r. ts = idle_turns \<longrightarrow> \<not> b \<longrightarrow> cf_events f = [] \<longrightarrow> False"])
    fix wait ts b t f r
    assume ih: "\<And>ts b t f r. wait ts b t f = Some r \<Longrightarrow> ts = idle_turns \<longrightarrow> \<not> b \<longrightarrow> cf_events f = [] \<longrightarrow> False"
      and body: "(if cf_events f \<noteq> [] then Some (0, t, f) else if b then Some (- EAGAIN, t, f)
        else let f = ct_file ts t f
          in if ct_shutdown ts t then Some (- ENODEV, Suc t, f) else if ct_signal ts t then Some (- ERESTARTSYS, Suc t, f) else wait ts b (Suc t) f) = Some r"
    show "ts = idle_turns \<longrightarrow> \<not> b \<longrightarrow> cf_events f = [] \<longrightarrow> False"
      using body ih [of idle_turns False "Suc t" f r] by (auto simp: idle_turns_def Let_def)
  qed
  with assms show ?thesis by (cases "wait_event idle_turns False t f") blast+
qed

end
