(* ===== verification/ControlHandlers.thy ===== *)
theory ControlHandlers
  imports ControlFiles
begin

text \<open>
  The handlers of further requests on the control device, which PCM, raw MIDI and hwdep register with
  \<^verbatim>\<open>snd_ctl_register_ioctl\<close>: finding the next device of a card, information on a device, and the preferred subdevice
  of a file. They touch no control. The lists of devices and the status of the functions that fill and copy the
  information (\<^verbatim>\<open>snd_pcm_info_user\<close>, \<^verbatim>\<open>snd_hwdep_info\<close>, \<^verbatim>\<open>snd_rawmidi_info_select_user\<close>) are inputs; a card is known by its number.
\<close>

section \<open>Requests\<close>

text \<open>What is read at the address of the argument, \<open>None\<close> when that faults: an integer, and two members of the information on a PCM.\<close>

record handler_arg =
  ha_int :: "int option"
  ha_stream :: "int option"
  ha_subdevice :: "u32 option"
  ha_bad_out :: bool
  ha_status :: int

text \<open>The numbers of the requests as \<^verbatim>\<open>_IOC\<close> encodes them.\<close>

abbreviation (input) HWDEP_NEXT_DEVICE :: u32 where "HWDEP_NEXT_DEVICE \<equiv> 0xC0045520"
abbreviation (input) HWDEP_INFO :: u32 where "HWDEP_INFO \<equiv> 0x80DC5521"
abbreviation (input) PCM_NEXT_DEVICE :: u32 where "PCM_NEXT_DEVICE \<equiv> 0x80045530"
abbreviation (input) PCM_INFO :: u32 where "PCM_INFO \<equiv> 0xC1205531"
abbreviation (input) PCM_PREFER_SUBDEVICE :: u32 where "PCM_PREFER_SUBDEVICE \<equiv> 0x40045532"
abbreviation (input) RAWMIDI_NEXT_DEVICE :: u32 where "RAWMIDI_NEXT_DEVICE \<equiv> 0xC0045540"
abbreviation (input) RAWMIDI_INFO :: u32 where "RAWMIDI_INFO \<equiv> 0xC10C5541"
abbreviation (input) RAWMIDI_PREFER_SUBDEVICE :: u32 where "RAWMIDI_PREFER_SUBDEVICE \<equiv> 0x40045542"

text \<open>The status, the integer stored at the argument, and the card.\<close>

type_synonym control_handler = "nat \<Rightarrow> u32 \<Rightarrow> ctl_card \<Rightarrow> int \<times> int option \<times> ctl_card"

definition prefer_subdevice :: "nat \<Rightarrow> handler_arg \<Rightarrow> control_handler" where
  "prefer_subdevice ty a file cmd c =
     (case ha_int a of
        None \<Rightarrow> (- EFAULT, None, c)
      | Some val \<Rightarrow> (0, None, update_file file (\<lambda>f. f\<lparr>cf_preferred := (cf_preferred f)(ty := val)\<rparr>) c))"

section \<open>PCM\<close>

text \<open>A PCM: its card and device, and for each direction the number of substreams and their numbers.\<close>

record pcm_entry =
  pe_card :: int
  pe_device :: int
  pe_streams :: "(u32 \<times> int list) list"

definition pcm_get :: "pcm_entry list \<Rightarrow> int \<Rightarrow> int \<Rightarrow> pcm_entry option" where
  "pcm_get pcms cn device = find (\<lambda>p. pe_card p = cn \<and> pe_device p = device) pcms"

fun pcm_next :: "pcm_entry list \<Rightarrow> int \<Rightarrow> int \<Rightarrow> int" where
  "pcm_next [] cn device = - 1"
| "pcm_next (p # ps) cn device =
     (if pe_card p = cn \<and> pe_device p > device then pe_device p
      else if pe_card p > cn then - 1
      else pcm_next ps cn device)"

definition pcm_info_request :: "pcm_entry list \<Rightarrow> int \<Rightarrow> handler_arg \<Rightarrow> int" where
  "pcm_info_request pcms cn a =
     (case (ha_int a, ha_stream a) of
        (Some device, Some stream) \<Rightarrow>
          if stream < 0 \<or> stream > 1 then - EINVAL
          else
            (case ha_subdevice a of
               None \<Rightarrow> - EFAULT
             | Some subdevice \<Rightarrow>
                 (case pcm_get pcms cn device of
                    None \<Rightarrow> - ENXIO
                  | Some p \<Rightarrow>
                      let (cnt, nums) = pe_streams p ! nat stream
                      in if cnt = 0 then - ENOENT
                         else if subdevice \<ge> cnt then - ENXIO
                         else if sint subdevice \<in> set nums then ha_status a else - ENXIO))
      | _ \<Rightarrow> - EFAULT)"

definition snd_pcm_control_ioctl :: "pcm_entry list \<Rightarrow> int \<Rightarrow> handler_arg \<Rightarrow> control_handler" where
  "snd_pcm_control_ioctl pcms cn a file cmd c =
     (if cmd = PCM_NEXT_DEVICE then
        (case ha_int a of
           None \<Rightarrow> (- EFAULT, None, c)
         | Some device \<Rightarrow> if ha_bad_out a then (- EFAULT, None, c) else (0, Some (pcm_next pcms cn device), c))
      else if cmd = PCM_INFO then (pcm_info_request pcms cn a, None, c)
      else if cmd = PCM_PREFER_SUBDEVICE then prefer_subdevice 0 a file cmd c
      else (- ENOIOCTLCMD, None, c))"

section \<open>Raw MIDI and hwdep\<close>

text \<open>The devices of a list from a number on, below a limit; \<open>- 1\<close> when there is none.\<close>

definition next_device :: "(int \<times> int) list \<Rightarrow> int \<Rightarrow> int \<Rightarrow> int \<Rightarrow> int" where
  "next_device devs cn limit device =
     (case find (\<lambda>d. (cn, d) \<in> set devs) [device..limit - 1] of Some d \<Rightarrow> d | None \<Rightarrow> - 1)"

abbreviation (input) RAWMIDI_DEVICES :: int where "RAWMIDI_DEVICES \<equiv> 8"
abbreviation (input) MINOR_HWDEPS :: int where "MINOR_HWDEPS \<equiv> 4"

definition snd_rawmidi_control_ioctl :: "(int \<times> int) list \<Rightarrow> int \<Rightarrow> handler_arg \<Rightarrow> control_handler" where
  "snd_rawmidi_control_ioctl devs cn a file cmd c =
     (if cmd = RAWMIDI_NEXT_DEVICE then
        (case ha_int a of
           None \<Rightarrow> (- EFAULT, None, c)
         | Some device \<Rightarrow>
             let device = (if device \<ge> RAWMIDI_DEVICES then RAWMIDI_DEVICES - 1 else device);
                 device = (if device < 0 then 0 else device + 1)
             in if ha_bad_out a then (- EFAULT, None, c) else (0, Some (next_device devs cn RAWMIDI_DEVICES device), c))
      else if cmd = RAWMIDI_PREFER_SUBDEVICE then prefer_subdevice 1 a file cmd c
      else if cmd = RAWMIDI_INFO then (ha_status a, None, c)
      else (- ENOIOCTLCMD, None, c))"

definition snd_hwdep_control_ioctl :: "(int \<times> int) list \<Rightarrow> int \<Rightarrow> handler_arg \<Rightarrow> control_handler" where
  "snd_hwdep_control_ioctl devs cn a file cmd c =
     (if cmd = HWDEP_NEXT_DEVICE then
        (case ha_int a of
           None \<Rightarrow> (- EFAULT, None, c)
         | Some device \<Rightarrow>
             let device = (if device < 0 then 0 else if device < MINOR_HWDEPS then device + 1 else MINOR_HWDEPS)
             in if ha_bad_out a then (- EFAULT, None, c) else (0, Some (next_device devs cn MINOR_HWDEPS device), c))
      else if cmd = HWDEP_INFO then
        (case ha_int a of
           None \<Rightarrow> (- EFAULT, None, c)
         | Some device \<Rightarrow> if (cn, device) \<in> set devs then (ha_status a, None, c) else (- ENXIO, None, c))
      else (- ENOIOCTLCMD, None, c))"

section \<open>The handlers of the core\<close>

definition handler_call :: "control_handler \<Rightarrow> nat \<Rightarrow> u32 \<Rightarrow> ctl_card \<times> 'd \<Rightarrow> int \<times> ctl_card \<times> 'd" where
  "handler_call h file cmd st = (let (err, reply, c) = h file cmd (fst st) in (err, c, snd st))"

definition core_handler :: "control_handler \<Rightarrow> bool" where
  "core_handler h \<longleftrightarrow> (\<exists>pcms devs cn a. h = snd_pcm_control_ioctl pcms cn a \<or> h = snd_rawmidi_control_ioctl devs cn a \<or>
     h = snd_hwdep_control_ioctl devs cn a)"

lemma prefer_subdevice_keeps:
  "ca_controls (snd (snd (prefer_subdevice ty a file cmd c))) = ca_controls c"
  "ca_user_alloc (snd (snd (prefer_subdevice ty a file cmd c))) = ca_user_alloc c"
  by (simp_all add: prefer_subdevice_def update_file_def split: option.split)

text \<open>A handler of the core leaves the controls and the memory of clients alone.\<close>

lemma core_handler_keeps:
  assumes "core_handler h"
  shows "ca_controls (fst (snd (handler_call h file cmd st))) = ca_controls (fst st)"
    "ca_user_alloc (fst (snd (handler_call h file cmd st))) = ca_user_alloc (fst st)"
  using assms prefer_subdevice_keeps
  by (auto simp: core_handler_def handler_call_def snd_pcm_control_ioctl_def snd_rawmidi_control_ioctl_def
      snd_hwdep_control_ioctl_def Let_def case_prod_beta split: option.split)

text \<open>The next device, if there is one, is a device of the card with a greater number.\<close>

lemma pcm_next_above:
  "pcm_next pcms cn device \<noteq> - 1 \<Longrightarrow> 0 \<le> device + 1 \<Longrightarrow> device < pcm_next pcms cn device \<and> pcm_get pcms cn (pcm_next pcms cn device) \<noteq> None"
  by (induction pcms cn device rule: pcm_next.induct) (auto simp: pcm_get_def split: if_splits)

end
