(* ===== verification/ControlMachine.thy ===== *)
theory ControlMachine
  imports ControlHandlers
begin

text \<open>
  The control interface as a whole: the steps clients, files and drivers take on a card, and what holds of every card they
  reach. Renaming a control looks at no other control (see \<open>rename_may_duplicate\<close>), so \<open>ctl_step\<close> takes the
  renames that are steps as an argument; the invariant is kept by the renames that are \<open>rename_free\<close>.
\<close>

section \<open>TLV data\<close>

lemma replace_user_tlv_sound:
  assumes "card_sound (fst st)" "n < length (ca_controls (fst st))" "kc_user (ca_controls (fst st) ! n) = Some ue"
  shows "card_sound (fst (snd (replace_user_tlv mem drv n buf sz st)))"
proof -
  obtain c d where st: "st = (c, d)" by force
  let ?k = "ca_controls c ! n"
  have ue: "kc_user ?k = Some ue" using assms(3) by (simp add: st)
  note D = replace_user_tlv_def [of mem drv n buf sz "(c, d)", unfolded split_conv Let_def ue option.sel]
  show ?thesis
  proof (cases "sz > 1024 * 128 \<or> check_user_elem_overflow c (sz - ue_tlv_size ue) \<or> \<not> tb_mem buf \<or> tb_bad buf \<or> length (tb_bytes buf) < unat sz \<or>
      ue_tlv_size ue = sz \<and> (case ue_tlv ue of None \<Rightarrow> sz = 0 | Some t \<Rightarrow> t = take (unat sz) (tb_bytes buf))")
    case True
    then show ?thesis using assms(1) unfolding st D by auto
  next
    case False
    have sound: "card_sound c" and len: "n < length (ca_controls c)" using assms(1,2) by (simp_all add: st)
    then have el: "element_sound ?k" and alloc: "unat (ca_user_alloc c) \<le> 8388608" "unat (ca_user_alloc c) = sum_list (map charge (ca_controls c))"
      by (simp_all add: card_sound_def elements_sound_def charged_def)
    define vds where "vds = (case ue_tlv ue of None \<Rightarrow> map (\<lambda>vd. vd\<lparr>vd_access := vd_access vd OR ACCESS_TLV_READ\<rparr>) (kc_vd ?k) | Some _ \<Rightarrow> kc_vd ?k)"
    define k' where "k' = ?k\<lparr>kc_user := Some (ue\<lparr>ue_tlv := Some (take (unat sz) (tb_bytes buf)), ue_tlv_size := sz\<rparr>), kc_vd := vds\<rparr>"
    define c' where "c' = (put_control n k' c)\<lparr>ca_user_alloc := ca_user_alloc c - ue_tlv_size ue + sz\<rparr>"
    have tlv0: "ue_tlv ue = None \<Longrightarrow> ue_tlv_size ue = 0" using el ue by (simp add: element_sound_def)
    have res: "\<exists>mk. snd (replace_user_tlv mem drv n buf sz st) = notify_all mem drv mk k' (c', d)"
      using False tlv0 unfolding st D by (cases "ue_tlv ue") (auto simp: k'_def c'_def vds_def)
    have szs: "unat sz \<le> 131072" "unat (ue_tlv_size ue) \<le> 131072" "unat (ue_tlv_size ue) \<le> charge ?k"
      using False el ue by (auto simp: element_sound_def charge_def word_le_nat_alt not_less)
    have old: "charge ?k \<le> unat (ca_user_alloc c)"
      unfolding alloc(2) using len by (simp add: member_le_sum_list)
    then have tl: "unat (ue_tlv_size ue) \<le> unat (ca_user_alloc c)" using szs by linarith
    have diff: "unat (ca_user_alloc c - ue_tlv_size ue + sz) = unat (ca_user_alloc c) - unat (ue_tlv_size ue) + unat sz"
      using tl szs alloc(1) by (simp add: unat_add32 unat_sub32)
    have same: "ca_user_alloc c + (sz - ue_tlv_size ue) = ca_user_alloc c - ue_tlv_size ue + sz" by simp
    have "sint (ca_user_alloc c - ue_tlv_size ue + sz) = int (unat (ca_user_alloc c) - unat (ue_tlv_size ue) + unat sz)"
      unfolding diff [symmetric] by (rule sint_unat) (use diff alloc(1) szs in linarith)
    then have limit: "unat (ca_user_alloc c) - unat (ue_tlv_size ue) + unat sz \<le> 8388608"
      using False unfolding check_user_elem_overflow_def same by linarith
    have sp: "same_place k' ?k" by (simp add: same_place_def k'_def vds_def split: option.split)
    have ek: "element_sound k'" using el ue szs by (simp add: element_sound_def k'_def)
    have ck: "charge k' = charge ?k - unat (ue_tlv_size ue) + unat sz" using ue by (simp add: charge_def k'_def)
    have "sum_list (map charge ((ca_controls c)[n := k'])) = sum_list (map charge (ca_controls c)) + charge k' - charge ?k"
      using len by (simp add: map_update sum_list_update)
    then have "charged 0 c'" using ck szs(3) old limit diff alloc by (simp add: charged_def c'_def)
    moreover have "numbered c'" using put_numbered [OF _ len sp] sound by (simp add: card_sound_def numbered_def c'_def)
    moreover have "elements_sound c'"
    proof -
      have "\<forall>k\<in>set ((ca_controls c)[n := k']). element_sound k" using sound ek by (intro list_all_update) (simp_all add: card_sound_def elements_sound_def)
      then show ?thesis by (simp add: elements_sound_def c'_def)
    qed
    ultimately have "card_sound c'" by (simp add: card_sound_def)
    then show ?thesis using res by auto
  qed
qed

lemma call_tlv_handler_sound:
  assumes "card_sound (fst st)" "n < length (ca_controls (fst st))" "call_tlv_handler mem drv pw file op n i buf sz st = Some (r, out, st')"
  shows "card_sound (fst st')"
proof (cases "st' = st \<or> (\<exists>d. st' = (fst st, d))")
  case True
  then show ?thesis using assms(1) by auto
next
  case False
  let ?k = "ca_controls (fst st) ! n"
  have r: "snd_ctl_elem_user_tlv mem drv n op sz buf st = (r, out, st')" and f: "kc_tlv ?k = Tlv_call User_call \<or> kc_tlv ?k = Tlv_call User_enum_call"
    using assms(3) False
    by (auto simp: call_tlv_handler_def Let_def split: option.splits if_splits ctl_tlv.splits ctl_call.splits prod.splits)
  have "element_sound ?k" using assms(1,2) by (simp add: card_sound_def elements_sound_def)
  then obtain ue where "kc_user ?k = Some ue" using f by (cases "kc_user ?k") (auto simp: element_sound_def)
  from replace_user_tlv_sound [OF assms(1,2) this] have "card_sound (fst (snd (replace_user_tlv mem drv n buf sz st)))" .
  then show ?thesis
    using r assms(1) by (auto simp: snd_ctl_elem_user_tlv_def Let_def split: if_splits prod.splits)
qed

lemma tlv_ioctl_sound:
  assumes "card_sound (fst st)" "snd_ctl_tlv_ioctl mem drv pw file bad numid sz buf op st = Some (r, out, st')"
  shows "card_sound (fst st')"
proof (cases "snd_ctl_find_numid (fst st) numid")
  case None
  then show ?thesis using assms by (auto simp: snd_ctl_tlv_ioctl_def split: if_splits)
next
  case (Some n)
  have len: "n < length (ca_controls (fst st))" using assms(1) Some find_numid_Some by (auto simp: card_sound_def)
  have "st' = st \<or> (\<exists>i. call_tlv_handler mem drv pw file op n i buf sz st = Some (r, out, st'))"
    using assms(2) Some by (auto simp: snd_ctl_tlv_ioctl_def Let_def split: if_splits option.splits)
  then show ?thesis using assms(1) call_tlv_handler_sound [OF assms(1) len] by blast
qed

section \<open>Requests\<close>

lemma release_sound:
  assumes "card_sound c"
  shows "card_sound (snd (snd_ctl_release file c))"
proof -
  have same: "placed_control (disown file k) = placed_control k" "element_sound (disown file k) = element_sound k" "charge (disown file k) = charge k"
    "first_num (disown file k) = first_num k" "end_num (disown file k) = end_num k" for k
    by (cases "kc_user k"; simp add: disown_def placed_control_def sound_control_def element_sound_def charge_def first_num_def end_num_def)+
  have "apart (map (disown file) (ca_controls c)) = apart (ca_controls c)" by (rule apart_cong) (simp add: same)
  then show ?thesis using assms
    by (simp add: snd_ctl_release_def card_sound_def numbered_def elements_sound_def charged_def same o_def)
qed

lemma elem_add_user_sound:
  assumes "card_sound (fst st)" "snd_ctl_elem_add_user mem drv um bad_in bad_out file info replace st = (err, out, st')"
  shows "card_sound (fst st')"
proof -
  obtain e o1 st1 where a: "snd_ctl_elem_add mem drv um file info replace st = (e, o1, st1)" by (metis prod_cases3)
  have "card_sound (fst st1)" using elem_add_sound [OF assms(1), of mem drv um "file" info replace] by (simp add: a)
  moreover have "card_sound (fst (snd (snd_ctl_remove_user_ctl mem drv file (ei_id o1) st1)))" using calculation by (rule remove_user_ctl_sound)
  ultimately show ?thesis using assms by (auto simp: snd_ctl_elem_add_user_def a split: if_splits)
qed

lemma info_state: "ctl_elem_info drv pw pids n info file st = Some (r, info', st') \<Longrightarrow> fst st' = fst st"
  by (auto simp: ctl_elem_info_def Let_def split: if_splits prod.splits)

lemma info_user_state: "snd_ctl_elem_info_user drv pw pids bad_in bad_out file info st = Some (r, info', st') \<Longrightarrow> fst st' = fst st"
  unfolding snd_ctl_elem_info_user_def snd_ctl_elem_info_def
  by (auto split: if_splits option.splits dest: info_state)

lemma read_user_state:
  "\<lbrakk>card_sound (fst st); length (va_bytes v) = 512; snd_ctl_elem_read_user drv pw has_mem bad_in bad_out v st = Some (r, v', st')\<rbrakk> \<Longrightarrow> fst st' = fst st"
  using read_Some [of st v drv pw] by (auto simp: snd_ctl_elem_read_user_def split: if_splits)

lemma write_user_sound:
  assumes "card_sound (fst st)" "length (va_bytes v) = 512" "snd_ctl_elem_write_user mem drv pw has_mem bad_in bad_out file v st = Some (r, v', st')"
  shows "card_sound (fst st')"
proof -
  obtain q w st1 where "snd_ctl_elem_write mem drv pw file v st = Some (q, w, st1)" "card_sound (fst st1)"
    using write_Some [OF assms(1,2)] by metis
  then show ?thesis using assms by (auto simp: snd_ctl_elem_write_user_def split: if_splits)
qed

text \<open>A client's values have the size of the union, and the handlers of further requests are those of the core.\<close>

definition proper_request :: "ctl_request \<Rightarrow> bool" where
  "proper_request req \<longleftrightarrow> (case req of Req_read _ _ _ v \<Rightarrow> length (va_bytes v) = 512 | Req_write _ _ _ v \<Rightarrow> length (va_bytes v) = 512 | _ \<Rightarrow> True)"

definition core_env :: "nat \<Rightarrow> 'd ctl_env \<Rightarrow> bool" where
  "core_env file env \<longleftrightarrow> (\<exists>hs. ce_handlers env = map (\<lambda>h. handler_call h file) hs \<and> (\<forall>h\<in>set hs. core_handler h))"

lemma other_request_sound:
  assumes "\<forall>h\<in>set hs. core_handler h" "card_sound (fst st)"
  shows "card_sound (fst (snd (other_request (map (\<lambda>h. handler_call h file) hs) cmd st)))"
  using assms
proof (induction hs arbitrary: st)
  case (Cons h hs)
  obtain e st1 where h: "handler_call h file cmd st = (e, st1)" by (rule that [OF surjective_pairing])
  have "core_handler h" using Cons.prems(1) by simp
  from core_handler_keeps [OF this, of "file" cmd st] have "card_sound (fst st1)"
    using sound_cong [of "fst st1" "fst st"] Cons.prems(2) by (simp add: h)
  then show ?case using Cons.IH [of st1] Cons.prems(1,2) by (simp add: h)
qed simp

lemma update_file_sound [simp]: "card_sound (update_file file g c) = card_sound c"
  by (rule sound_cong) (simp_all add: update_file_def)

lemma subscribe_sound: "\<lbrakk>card_sound c; subscribe_request v bad_out file c = Some (r, reply, c')\<rbrakk> \<Longrightarrow> card_sound c'"
  by (auto simp: subscribe_request_def case_prod_beta Let_def)

lemma ioctl_sound:
  assumes "card_sound (fst st)" "proper_request req" "core_env file env" "snd_ctl_ioctl mem drv env file req st = Some (r, reply, st')"
  shows "card_sound (fst st')"
proof -
  obtain c d where st: "st = (c, d)" by force
  note D = assms(4) [unfolded st snd_ctl_ioctl_def Let_def split_conv]
  have s: "card_sound c" "card_sound (fst (c, d))" using assms(1) by (simp_all add: st)
  show ?thesis
  proof (cases req)
    case (Req_info bad_in bad_out info)
    then show ?thesis using D s by (auto dest: info_user_state)
  next
    case (Req_read has_mem bad_in bad_out v)
    then show ?thesis using D s assms(2) read_user_state [OF s(2)] by (fastforce simp: proper_request_def)
  next
    case (Req_write has_mem bad_in bad_out v)
    then show ?thesis using D assms(2) write_user_sound [OF s(2)] by (fastforce simp: proper_request_def)
  next
    case (Req_lock bad i)
    then show ?thesis using D lock_Some(1) [OF s(1), of bad "file" i] by auto
  next
    case (Req_unlock bad i)
    then show ?thesis using D lock_Some(2) [OF s(1), of bad "file" i] by auto
  next
    case (Req_add bad_in bad_out um info)
    then show ?thesis using D elem_add_user_sound [OF s(2)] by (auto split: prod.splits)
  next
    case (Req_replace bad_in bad_out um info)
    then show ?thesis using D elem_add_user_sound [OF s(2)] by (auto split: prod.splits)
  next
    case (Req_remove bad i)
    then show ?thesis using D s remove_user_ctl_sound [OF s(2), of mem drv "file" i]
      by (auto simp: snd_ctl_elem_remove_def split: prod.splits if_splits)
  next
    case (Req_subscribe v bad_out)
    then show ?thesis using D subscribe_sound [OF s(1)] by auto
  next
    case (Req_tlv_read bad numid sz buf)
    then show ?thesis using D tlv_ioctl_sound [OF s(2)] by auto
  next
    case (Req_tlv_write bad numid sz buf)
    then show ?thesis using D tlv_ioctl_sound [OF s(2)] by auto
  next
    case (Req_tlv_command bad numid sz buf)
    then show ?thesis using D tlv_ioctl_sound [OF s(2)] by auto
  next
    case (Req_other cmd)
    obtain hs where "ce_handlers env = map (\<lambda>h. handler_call h file) hs" "\<forall>h\<in>set hs. core_handler h"
      using assms(3) by (auto simp: core_env_def)
    then show ?thesis using Req_other D other_request_sound [OF _ s(2), of hs "file" cmd]
      by (auto split: prod.splits)
  qed (use D s in \<open>auto split: prod.splits if_splits\<close>)
qed

section \<open>Steps\<close>

type_synonym rename_condition = "elem_id \<Rightarrow> elem_id \<Rightarrow> ctl_card \<Rightarrow> bool"

inductive ctl_step :: "rename_condition \<Rightarrow> 'd ctl_driver \<Rightarrow> ctl_card \<times> 'd \<Rightarrow> ctl_card \<times> 'd \<Rightarrow> bool"
  for P :: rename_condition and drv :: "'d ctl_driver" where
  request: "\<lbrakk>proper_request req; core_env f env; snd_ctl_ioctl mem drv env f req st = Some (r, reply, st')\<rbrakk> \<Longrightarrow> ctl_step P drv st st'"
| add: "\<lbrakk>sound_control k; element_sound k; kc_user k = None\<rbrakk> \<Longrightarrow> ctl_step P drv st (snd (snd_ctl_add_replace mem drv (Some k) mode st))"
| remove: "ctl_step P drv st (snd (snd_ctl_remove_id mem drv i st))"
| rename: "P i j c \<Longrightarrow> ctl_step P drv (c, d) (snd (snd_ctl_rename_id i j c), d)"
| activate: "snd_ctl_activate_id mem drv i active st = Some (r, j, st') \<Longrightarrow> ctl_step P drv st st'"
| notify: "ctl_step P drv (c, d) (snd_ctl_notify mem mk i c, d)"
| driver: "ctl_step P drv (c, d) (c, d')"
| file_open: "ctl_step P drv (c, d) (snd (snd_ctl_open e c), d)"
| release: "ctl_step P drv (c, d) (snd (snd_ctl_release f c), d)"
| read: "\<lbrakk>f \<in> set (ca_files c); snd_ctl_read ts nonblock bad n f = Some (r, f', evs)\<rbrakk> \<Longrightarrow>
    ctl_step P drv (c, d) (update_file (cf_addr f) (\<lambda>_. f') c, d)"
| disconnect: "ctl_step P drv (c, d) (snd_ctl_dev_disconnect c, d)"
| free: "ctl_step P drv st (snd_ctl_dev_free mem drv st)"

inductive_cases ctl_stepE: "ctl_step P drv st st'"

text \<open>The numbers after the last one are free for the control that is renamed, and its new indices do not wrap around.\<close>

definition rename_free :: rename_condition where
  "rename_free i j c \<longleftrightarrow>
     (case snd_ctl_find_id c i of
        None \<Rightarrow> True
      | Some n \<Rightarrow> let cnt = kc_count (ca_controls c ! n) in free_range cnt c \<and> unat (id_index j) + unat cnt \<le> 4294967295)"

lemma apart_update:
  "\<lbrakk>apart ks; n < length ks; \<forall>m<length ks. m \<noteq> n \<longrightarrow> \<not> clash k (ks ! m)\<rbrakk> \<Longrightarrow> apart (ks[n := k])"
proof (induction ks arbitrary: n)
  case (Cons x xs)
  show ?case
  proof (cases n)
    case 0
    have "\<not> clash k y" if "y \<in> set xs" for y
      using that Cons.prems(3) 0 by (auto simp: in_set_conv_nth)
    then show ?thesis using Cons.prems(1) 0 by simp
  next
    case (Suc m)
    have "apart (xs[m := k])"
    proof (rule Cons.IH)
      show "\<forall>l<length xs. l \<noteq> m \<longrightarrow> \<not> clash k (xs ! l)" using Cons.prems(3) Suc by (metis Suc_less_eq length_Cons nat.inject nth_Cons_Suc)
    qed (use Cons.prems Suc in auto)
    moreover have "\<not> clash x k" using Cons.prems(3) Suc clash_sym by fastforce
    moreover have "set (xs[m := k]) \<subseteq> insert k (set xs)" by (rule set_update_subset_insert)
    ultimately show ?thesis using Cons.prems(1) Suc by auto
  qed
qed simp

lemma rename_sound:
  assumes "card_sound c" "rename_free i j c"
  shows "card_sound (snd (snd_ctl_rename_id i j c))"
proof (cases "snd_ctl_find_id c i")
  case None
  then show ?thesis using assms(1) by (simp add: snd_ctl_rename_id_def)
next
  case (Some n)
  let ?k = "ca_controls c ! n"
  define k' where "k' = ?k\<lparr>kc_id := j\<lparr>id_numid := ca_last_numid c + 1\<rparr>\<rparr>"
  have num: "numbered c" and el: "elements_sound c" "charged 0 c" using assms(1) by (simp_all add: card_sound_def)
  have len: "n < length (ca_controls c)" using find_id_valid(1) [OF num Some] .
  then have pl: "placed_control ?k" using num by (simp add: numbered_def)
  have fr: "unat (ca_last_numid c) + 1 + unat (kc_count ?k) \<le> 4294967295"
    "\<forall>k\<in>set (ca_controls c). end_num k \<le> unat (ca_last_numid c) + 1 \<or> unat (ca_last_numid c) + 1 + unat (kc_count ?k) \<le> first_num k"
    "unat (id_index j) + unat (kc_count ?k) \<le> 4294967295"
    using assms(2) Some by (simp_all add: rename_free_def free_range_def Let_def)
  have l: "unat (ca_last_numid c + 1) = unat (ca_last_numid c) + 1" using fr(1) by (simp add: unat_add32)
  have ends: "first_num k' = unat (ca_last_numid c) + 1" "end_num k' = unat (ca_last_numid c) + 1 + unat (kc_count ?k)"
    by (simp_all add: k'_def first_num_def end_num_def l)
  have "ca_last_numid c + 1 \<noteq> 0" using l by (metis Suc_eq_plus1 nat.simps(3) unat_0)
  then have pl': "placed_control k'" using pl fr ends by (simp add: placed_control_def sound_control_def k'_def)
  have "\<not> clash k' (ca_controls c ! m)" if "m < length (ca_controls c)" for m
  proof -
    have "ca_controls c ! m \<in> set (ca_controls c)" using that by simp
    with fr(2) have "end_num (ca_controls c ! m) \<le> unat (ca_last_numid c) + 1 \<or>
        unat (ca_last_numid c) + 1 + unat (kc_count ?k) \<le> first_num (ca_controls c ! m)" by blast
    then show ?thesis by (auto simp: clash_def ends)
  qed
  then have "apart ((ca_controls c)[n := k'])" using num len by (intro apart_update) (simp_all add: numbered_def)
  moreover have upd: "set ((ca_controls c)[n := k']) \<subseteq> insert k' (set (ca_controls c))" by (rule set_update_subset_insert)
  moreover have r: "snd (snd_ctl_rename_id i j c) = (put_control n k' c)\<lparr>ca_last_numid := ca_last_numid c + kc_count ?k\<rparr>"
    using Some by (simp add: snd_ctl_rename_id_def k'_def Let_def)
  ultimately have "numbered (snd (snd_ctl_rename_id i j c))"
    using num pl' by (auto simp: numbered_def put_control_def)
  moreover have "element_sound ?k" using el(1) len by (simp add: elements_sound_def)
  then have "element_sound k'" "charge k' = charge ?k"
    by (cases "kc_user ?k"; simp add: k'_def element_sound_def charge_def)+
  then have "elements_sound (snd (snd_ctl_rename_id i j c))" "charged 0 (snd (snd_ctl_rename_id i j c))"
    using el upd len map_update_same [OF len, of charge k'] by (auto simp: r elements_sound_def charged_def put_control_def)
  ultimately show ?thesis by (simp add: card_sound_def)
qed

text \<open>As long as no search has started again from 0 and there is room, every rename is free.\<close>

lemma rename_free_fresh:
  assumes "numbered c" "\<forall>k\<in>set (ca_controls c). end_num k \<le> unat (ca_last_numid c) + 1"
    and "unat (ca_last_numid c) \<le> 4294960000" "unat (id_index j) \<le> 4294960000"
  shows "rename_free i j c"
proof (cases "snd_ctl_find_id c i")
  case (Some n)
  have "placed_control (ca_controls c ! n)" using find_id_valid(1) [OF assms(1) Some] assms(1) by (simp add: numbered_def)
  from placed_bounds(6) [OF this] show ?thesis using assms(2-4) Some by (auto simp: rename_free_def free_range_def Let_def)
qed (simp add: rename_free_def)

text \<open>The controls \<^verbatim>\<open>snd_ctl_new1\<close> makes for drivers are such as they may add.\<close>

lemma new1_proper:
  assumes "snd_ctl_new1 has_mem new = Some k" "kn_tlv new \<noteq> Tlv_call User_call" "kn_tlv new \<noteq> Tlv_call User_enum_call"
  shows "sound_control k \<and> element_sound k \<and> kc_user k = None"
proof -
  let ?cnt = "if kn_count new = 0 then 1 else kn_count new"
  have "?cnt \<noteq> 0" "unat ?cnt \<le> 1028" "has_mem"
    using assms(1) by (auto simp: snd_ctl_new1_def snd_ctl_new_def Let_def word_le_nat_alt word_less_nat_alt split: if_splits)
  moreover have "kc_count k = ?cnt" "length (kc_vd k) = unat ?cnt" "kc_user k = None" "kc_free k = None" "kc_tlv k = kn_tlv new"
    "kc_get k = map_option Driver_call (kn_get new)" "kc_put k = map_option Driver_call (kn_put new)"
    using assms(1) by (auto simp: snd_ctl_new1_def snd_ctl_new_def Let_def split: if_splits)
  ultimately show ?thesis using assms(2,3)
    by (auto simp: sound_control_def element_sound_def driver_call_def split: option.split)
qed

lemma remove_card_sound:
  assumes "card_sound (fst st)" "n < length (ca_controls (fst st))"
  shows "card_sound (fst (snd (snd_ctl_remove mem drv n st)))"
proof -
  have s: "numbered (fst st)" "elements_sound (fst st)" "charged 0 (fst st)" using assms(1) by (simp_all add: card_sound_def)
  show ?thesis unfolding card_sound_def using remove_numbered [OF s(1)] remove_sound [OF s(2,3) assms(2)] by blast
qed

lemma dev_free_sound:
  "card_sound (fst st) \<Longrightarrow> card_sound (fst (snd_ctl_dev_free mem drv st)) \<and> ca_controls (fst (snd_ctl_dev_free mem drv st)) = []"
proof (induction mem drv st rule: snd_ctl_dev_free.induct)
  case (1 mem drv st)
  show ?case
  proof (cases "ca_controls (fst st) = []")
    case True
    then show ?thesis using 1(2) by (simp add: snd_ctl_dev_free.simps)
  next
    case False
    then show ?thesis using 1(1) [OF False remove_card_sound [OF 1(2)]] by (subst (1 2) snd_ctl_dev_free.simps) simp
  qed
qed

lemma add_replace_card_sound:
  assumes "card_sound (fst st)" "sound_control k" "element_sound k" "kc_user k = None"
  shows "card_sound (fst (snd (snd_ctl_add_replace mem drv (Some k) mode st)))"
proof -
  obtain e st1 where a: "ctl_add_replace mem drv k mode st = (e, st1)" by (rule that [OF surjective_pairing])
  have s: "numbered (fst st)" "elements_sound (fst st)" and z: "charge k = 0" and c: "charged (0 + charge k) (fst st)"
    using assms(1,4) by (simp_all add: card_sound_def charge_def)
  have "numbered (fst st1)" using add_replace_result [OF s(1) assms(2) a] by blast
  moreover have "elements_sound (fst st1)" "charged (charge k) (fst st1)"
    using add_replace_sound [OF s(1) assms(2) s(2) assms(3) c a] by (simp_all add: z split: if_splits)
  ultimately have ch: "elements_sound (fst st1)" "charged (charge k) (fst st1)" "numbered (fst st1)" by blast+
  have "charged 0 (fst (snd_ctl_free_one drv k st1))" using free_one_charged [OF assms(3), of 0 st1 drv] ch(2) by simp
  then show ?thesis using ch z by (simp add: snd_ctl_add_replace_def a card_sound_def numbered_def elements_sound_def)
qed

lemma step_sound: "ctl_step rename_free drv st st' \<Longrightarrow> card_sound (fst st) \<Longrightarrow> card_sound (fst st')"
proof (induction rule: ctl_step.induct)
  case (request req env mem f st r reply st')
  then show ?case by (blast intro: ioctl_sound)
next
  case (add k st mem mode)
  then show ?case by (blast intro: add_replace_card_sound)
next
  case (remove st mem i)
  then show ?case using found_control(1) [OF remove] remove_card_sound [OF remove]
    by (auto simp: snd_ctl_remove_id_def split: option.split)
next
  case (rename i j c d)
  then show ?case using rename_sound by simp
next
  case (activate mem i active st r j st')
  then show ?case using activate_Some [of st mem drv i active] by auto
next
  case (notify c d mem mk i)
  have "card_sound (snd_ctl_notify mem mk i c) = card_sound c" by (rule sound_cong) simp_all
  then show ?case using notify by simp
next
  case (file_open c d e)
  have "ca_controls (snd (snd_ctl_open e c)) = ca_controls c" "ca_user_alloc (snd (snd_ctl_open e c)) = ca_user_alloc c"
    by (simp_all add: snd_ctl_open_def snd_card_file_add_def)
  from sound_cong [OF this] show ?case using file_open by simp
next
  case (disconnect c d)
  have "card_sound (snd_ctl_dev_disconnect c) = card_sound c" by (rule sound_cong) (simp_all add: snd_ctl_dev_disconnect_def)
  then show ?case using disconnect by simp
qed (simp_all add: release_sound dev_free_sound)

text \<open>
  C5. From an empty card, whatever clients, files and drivers do, the numbers of the controls stay apart, every element keeps its volatile
  part and its slot of data, and the memory charged is the sum over the elements of clients, never more than eight megabytes. The steps
  are all requests of clients, with the handlers that PCM, raw MIDI and hwdep register, and all calls of drivers. Three conditions:
  the controls a driver adds are such as \<^verbatim>\<open>snd_ctl_new1\<close> makes (1 to 1028 elements, a volatile part for each, no element of a
  client); a control is renamed only while the numbers after the last one are free and its new index does not wrap around, which
  \<^verbatim>\<open>snd_ctl_rename_id\<close> does not check (\<open>rename_may_duplicate\<close>); and a driver's callbacks change the card by these calls only.
\<close>

theorem card_stays_sound:
  assumes "(ctl_step rename_free drv)\<^sup>*\<^sup>* st st'" "ca_controls (fst st) = []" "ca_user_alloc (fst st) = 0"
  shows "numbered (fst st') \<and> elements_sound (fst st') \<and>
    unat (ca_user_alloc (fst st')) = sum_list (map charge (ca_controls (fst st'))) \<and> unat (ca_user_alloc (fst st')) \<le> 8388608"
proof -
  have "card_sound (fst st)" using assms(2,3) by (simp add: card_sound_def numbered_def elements_sound_def charged_def)
  with assms(1) have "card_sound (fst st')" by (induction rule: rtranclp_induct) (auto dest: step_sound)
  then show ?thesis by (simp add: card_sound_def charged_def)
qed

definition empty_card :: ctl_card where
  "empty_card =
     \<lparr>ca_last_numid = 0, ca_controls = [], ca_count = 0, ca_user_alloc = 0, ca_files = [sample_file], ca_shutdown = False, ca_files_list = [7]\<rparr>"

text \<open>A client's element: an integer at two indices.\<close>

definition user_info :: elem_info where
  "user_info =
     \<lparr>ei_id = sample_id 0 ''Tone'', ei_type = 2, ei_access = 3, ei_count = 1, ei_owner = 2, ei_range = (0, 10, 1), ei_items = 0, ei_item = 0,
       ei_item_name = [], ei_names_ptr = 0, ei_names_length = 0\<rparr>"

definition user_mem :: user_memory where
  "user_mem = \<lparr>um_control = True, um_data = True, um_names = True, um_bad = False, um_string = []\<rparr>"

definition idle_env :: "unit ctl_env" where
  "idle_env = \<lparr>ce_power = 0, ce_pids = (\<lambda>a. 0), ce_handlers = []\<rparr>"

theorem card_stays_sound_witness:
  "\<exists>r reply st'. snd_ctl_ioctl (\<lambda>i f. True) idle_driver idle_env 7 (Req_add False False user_mem user_info) (empty_card, ()) = Some (r, reply, st') \<and>
     numbered (fst st')"
proof -
  obtain r reply st' where i:
    "snd_ctl_ioctl (\<lambda>i f. True) idle_driver idle_env 7 (Req_add False False user_mem user_info) (empty_card, ()) = Some (r, reply, st')"
    by (simp add: snd_ctl_ioctl_def case_prod_beta)
  have "ctl_step rename_free idle_driver (empty_card, ()) st'"
    by (rule request [OF _ _ i]) (simp_all add: proper_request_def core_env_def idle_env_def)
  then have "(ctl_step rename_free idle_driver)\<^sup>*\<^sup>* (empty_card, ()) st'" by blast
  from card_stays_sound [OF this] i show ?thesis by (auto simp: empty_card_def)
qed

end
