(* ===== verification/Spec2Isabelle.thy ===== *)
theory Spec2Isabelle
  imports HwRefine PcmMachine SeqGraph SeqMidiPorts ControlMachine
begin

text \<open>
  \<^bold>\<open>The core of UNIAUD32.\<close> UNIAUD32 is the OS/2 audio driver built from the ALSA kernel code (\<^verbatim>\<open>src/alsa-kernel\<close>), an
  emulation of the Linux services it needs (\<^verbatim>\<open>src/lib32\<close>, \<^verbatim>\<open>src/include\<close>) and an OS/2 driver shell (\<^verbatim>\<open>src/drv32\<close>). This
  library models the part of it that is independent of any sound chip: the PCM core, the raw MIDI core, the sequencer and the
  control interface, as they are compiled by Open Watcom for OS/2 (\<^verbatim>\<open>TARGET_OS2\<close>, 32-bit \<^verbatim>\<open>long\<close> and \<^verbatim>\<open>size_t\<close>, no
  \<^verbatim>\<open>CONFIG_SND_DEBUG\<close>, no \<^verbatim>\<open>CONFIG_SND_CTL_VALIDATION\<close>, HZ = 100), with the pieces of \<^verbatim>\<open>lib32\<close> whose behaviour they
  depend on. Names are those of the code; a loop or a block inside a C function that needs a name of its own has one, and a name
  with leading underscores has lost them.

  \<^bold>\<open>How the code is rendered.\<close> A C struct is a record, an enum or a tagged union a datatype, an \<^verbatim>\<open>unsigned int\<close> a word of 32
  bits that wraps. Errors are the negative numbers the code returns. State is passed explicitly and a handler returns the state it
  leaves; where the code shares objects through pointers (cells and events of the sequencer, ports and subscriptions) the state has
  an explicit store. Drivers, callbacks, copies from and to clients, the success of allocations and what interrupts and other
  threads do while a lock is released are parameters: functions, or fields of a record of the environment. An access outside of an array or to an object
  that does not exist is \<open>None\<close>, so a theorem that a result is not \<open>None\<close> is one about memory safety; \<open>None\<close> of a
  \<open>partial_function\<close> is a loop that does not end.

  \<^bold>\<open>Parts and theories.\<close>

  \<^item> Foundations. \<open>Prelude\<close>: machine integers, error numbers, \<^verbatim>\<open>snd_BUG_ON\<close> (always false in this build), shared
    lemmas. \<open>Math64\<close>: the software division of \<^verbatim>\<open>include/linux/math64.h\<close>. \<open>Bitops\<close>: the bit searches of
    \<^verbatim>\<open>include/linux/bitops.h\<close>, \<^verbatim>\<open>include/asm/bitops.h\<close> and \<^verbatim>\<open>lib32/find_next_bit.c\<close>.

  \<^item> Configuration of a PCM stream. \<open>Interval\<close>, \<open>Interval_Arith\<close> and \<open>Mask\<close>: the ranges and sets of
    \<^verbatim>\<open>core/pcm_lib.c\<close> and \<^verbatim>\<open>include/sound/pcm_params.h\<close>. \<open>Refiner\<close>: their common contract. \<open>PcmFormat\<close>:
    formats and rates, \<^verbatim>\<open>core/pcm_misc.c\<close>. \<open>HwParams\<close>: constraints, rules and \<^verbatim>\<open>snd_pcm_hw_refine\<close> of
    \<^verbatim>\<open>core/pcm_native.c\<close>; \<open>HwRefine\<close>: their correctness.

  \<^item> A running PCM stream. \<open>PcmStream\<close>: the runtime and the actions on linked streams; \<open>PcmAvail\<close>: what is available, and silence;
    \<open>PcmActions\<close>: the protocol of actions on a group; \<open>PcmSetup\<close>: installing a configuration; \<open>PcmPointer\<close>: the
    hardware pointer; \<open>PcmXfer\<close>: the transfer of data and the application pointer; \<open>PcmMachine\<close>: all calls as a state machine.

  \<^item> Sequencer, \<^verbatim>\<open>core/seq\<close>. \<open>SeqTimer\<close> (\<^verbatim>\<open>seq_timer.c\<close>), \<open>SeqMemory\<close> and \<open>SeqPool\<close>
    (\<^verbatim>\<open>seq_memory.c\<close>), \<open>SeqFifo\<close> (\<^verbatim>\<open>seq_fifo.c\<close>), \<open>SeqPrioq\<close> (\<^verbatim>\<open>seq_prioq.c\<close>), \<open>SeqMidiEvent\<close>
    (\<^verbatim>\<open>seq_midi_event.c\<close>), \<open>SeqQueue\<close> (\<^verbatim>\<open>seq_queue.c\<close>), \<open>SeqPorts\<close>, \<open>SeqDeliver\<close> and \<open>SeqInbox\<close>
    (\<^verbatim>\<open>seq_clientmgr.c\<close>, \<^verbatim>\<open>seq_system.c\<close>, \<^verbatim>\<open>seq_dummy.c\<close>), \<open>SeqSubscribe\<close> and \<open>SeqGraph\<close>
    (\<^verbatim>\<open>seq_ports.c\<close>).

  \<^item> Raw MIDI, \<^verbatim>\<open>core/rawmidi.c\<close>: \<open>RawMidi\<close>, \<open>RawMidiRing\<close>, \<open>RawMidiStreams\<close>. \<open>SeqMidi\<close> and \<open>SeqMidiPorts\<close>
    (\<^verbatim>\<open>seq_midi.c\<close>) put it under the sequencer: bytes of a device become events for the subscribers of a port, and events sent to
    the port become bytes.

  \<^item> Control interface, \<^verbatim>\<open>core/control.c\<close>: \<open>Control\<close> (elements, lookup, notification, numbering), \<open>ControlElem\<close>
    (information, values, locks, elements of clients, TLV data), \<open>ControlFiles\<close> (open files, events, requests),
    \<open>ControlHandlers\<close> (the requests that \<^verbatim>\<open>pcm.c\<close>, \<^verbatim>\<open>rawmidi.c\<close> and \<^verbatim>\<open>hwdep.c\<close> register);
    \<open>ControlNumbering\<close>, \<open>ControlUser\<close> and \<open>ControlMachine\<close> hold what is proved of them.

  \<^bold>\<open>How the parts meet.\<close> The configurator chooses one configuration, \<^verbatim>\<open>snd_pcm_hw_params\<close> installs it as the ring buffer of a
  stream, and the pointer updates, the actions and the transfer work on that ring. A sequencer queue
  takes its cells from the pool of a client, keeps them in two priority queues, is advanced by its timer and hands events that are due
  to the delivery functions, which put them into the input queues of user clients or call the ports of kernel clients; those may send
  further events. The ports of MIDI devices are such kernel clients on top of raw MIDI streams. The control interface is independent
  of the others.

  \<^bold>\<open>What is shown.\<close>

  \<^item> Intervals and masks implement the meet of sets (\<open>refiner\<close>, interpreted for both), interval arithmetic encloses the exact results, and a
    configuration that every rule keeps is never lost by \<^verbatim>\<open>snd_pcm_hw_refine\<close> (locales \<open>kept_rules\<close> and
    \<open>consistent_assignment\<close>, interpreted on the standard rules).

  \<^item> Actions on a group happen to all of its members or to none (\<open>group_action\<close>, \<open>unfailing_action\<close>) and keep invariants of
    its members (\<open>inv_action\<close>). The pointer update computes the exact position whenever less than one buffer has passed. From a configured stream every state
    reachable by \<open>pcm_step\<close> has its pointers inside the boundary, as long as the calls satisfy \<open>sound_call\<close> (no
    forward of a capture stream beyond the signed range, a RESET of the driver that leaves the pointer in the buffer), and data is placed where the application pointer says.

  \<^item> The memory of the sequencer neither loses nor doubles cells; input queues are first-in first-out (\<open>event_fifo\<close>), priority queues are
    ordered by time and stable (\<open>timed_queue\<close>); dispatching keeps the table of queues sound as long as delivery does
    (\<open>queue_delivery\<close>, interpreted on the delivery functions; \<open>queue_step\<close>); every subscriber gets its copy and nothing
    else changes (\<open>undisturbed\<close>); feedback between ports stops, whoever else subscribes (\<open>feeds_back\<close>); and the two lists of every subscription
    agree whatever fails on the way.

  \<^item> The MIDI coder inverts itself on streams of messages, and its parser never leaves its buffer.

  \<^item> Both sides of a raw MIDI ring are first-in first-out and lose exactly what does not fit (\<open>byte_pipe\<close>, interpreted for input and output,
    over the runs \<open>pipe_run\<close>); opening and closing balance; a port in the sequencer sends whole messages only, and what goes in at one end of a cable comes out at the other.
    Drivers are held to three contracts. \<open>driver_ops\<close>: a trigger sends or receives bytes (\<open>driver_sends\<close>,
    \<open>driver_receives\<close>), as those of \<^verbatim>\<open>drivers/mpu401\<close> do, and does nothing else to the substream. \<open>gentle_ops\<close>: every callback
    leaves the book-keeping to the core and well-formed rings well formed. \<open>quiet_ops\<close>: a trigger does not touch the substream; it is assumed
    only where the text says that no byte arrives. \<open>busy_ops\<close> is a driver of the first two kinds that is not of the third.

  \<^item> The numbers of control elements stay apart and a free range is always found; a listing is a window on all elements; locked elements
    are protected; what is written to the element of a client is read back; the memory of clients is accounted for and limited; no access
    leaves the arrays; and every change is read, pending, or lost to a failed allocation or a failed copy (\<open>file_run\<close>). \<open>ctl_step\<close> has every
    request of a client and every call of a driver, renaming included, where the new numbers are free.

  Where the code does not do what it means to, the theorem that shows it stands beside the model, for instance
  \<open>Bitops.find_first_zero_bit_wrong\<close>, \<open>PcmAvail.underrun_hidden\<close>, \<open>RawMidiStreams.drain_discards\<close> or
  \<open>ControlUser.bogus_number_duplicates\<close>.

  \<^bold>\<open>Bounds and fuel.\<close> Delivery counts hops as the code does and stops at \<^verbatim>\<open>SNDRV_SEQ_MAX_HOPS\<close> (8). Dispatching of a queue takes at most
  \<^verbatim>\<open>MAX_CELL_PROCESSES_IN_QUEUE\<close> (1000) cells and the insertion into a priority queue visits at most 10000, as in the code; the
  search for a range of control numbers gives up after 100000 conflicts, and \<open>ControlNumbering.range_always_found\<close> shows
  that this never happens with fewer than 50000 controls. Walks along linked lists in the store carry a number of steps that the invariants bound by the size of the pool. Loops
  that wait are partial functions over the turns that the environment takes; the reads and writes of raw MIDI and the drain of
  a PCM stream are shown to return where they do, and \<open>ControlFiles.blocking_read_spins\<close> and \<open>PcmPointer.skip_loop_termination\<close> say where a loop does not end.

  \<^bold>\<open>Not modelled.\<close>

  \<^item> Drivers of particular chips, HD-audio, AC97 codecs, synthesizers: register programming and tables. A driver is a parameter here.

  \<^item> The OS/2 shell and most of \<^verbatim>\<open>lib32\<close>: calls of the operating system and assembly. What the core uses of it (\<^verbatim>\<open>schedule\<close>, \<^verbatim>\<open>schedule_work\<close>,
    \<^verbatim>\<open>interruptible_sleep_on_timeout\<close>) is modelled as it is written there.

  \<^item> Registration of devices, cards and information files, buffer memory, the ALSA timer below the sequencer's, OSS emulation,
    virtual masters and jacks, the life cycle of sequencer clients and the ioctls that only copy: left out. Of the modelled files, time stamps, fasync
    signals, reports to \<^verbatim>\<open>/proc\<close>, tracing and reference counts of modules are left out. Locks
    are not modelled as such: an operation is one step, except where the code releases its lock in between, which is a turn of the environment.
\<close>

end
